(* ===== verification/Prelude.thy ===== *)
theory Prelude
  imports Main
begin

text \<open>
  What every component of the development shares: the byte type, the error numbers of
  \<^verbatim>\<open>include/cannedbsd/abi.h\<close>, the array copy that the sources write as \<^verbatim>\<open>memcpy\<close>, and the
  generic facts on lists that carry the component proofs.

  A byte is an 8-bit HOL \<open>char\<close>, so a C string and a C byte buffer have the same type. The
  value of a byte is \<open>of_char\<close>.
\<close>

section \<open>Collections of facts\<close>

named_theorems array_simps \<open>lengths and elements of arrays changed by memcpy and by assignments\<close>
named_theorems wf_intros \<open>preservation of the components' invariants\<close>
named_theorems frame_simps \<open>fields an operation leaves alone\<close>

section \<open>Bytes, addresses and error numbers\<close>

type_synonym byte = char
type_synonym addr = nat

abbreviation NUL :: byte where
  "NUL \<equiv> CHR 0x00"

abbreviation slash :: byte where
  "slash \<equiv> CHR ''/''"

text \<open>
  The error numbers of \<^verbatim>\<open>enum cb_error\<close>. \<open>Dangling\<close> is not an error of the program: it is the
  model's own report that an operation followed a pointer to an object that is not allocated.
  C gives such an access no meaning, and the theorems show that it does not happen.
\<close>

datatype cb_error =
    CB_EPERM | CB_ENOENT | CB_EINTR | CB_EIO | CB_EBADF | CB_ECHILD | CB_ENOMEM | CB_EACCES
  | CB_EEXIST | CB_ENOTDIR | CB_EISDIR | CB_EINVAL | CB_ENFILE | CB_EMFILE | CB_ENOTTY
  | CB_ENOSPC | CB_ESPIPE | CB_EPIPE | CB_ERANGE | CB_ENAMETOOLONG | CB_ENOEXEC | CB_ENOSYS
  | CB_ENOTEMPTY | CB_EFAULT | CB_EOVERFLOW | CB_EXDEV | CB_ETXTBSY
  | Dangling

fun errno_value :: "cb_error \<Rightarrow> int" where
  "errno_value CB_EPERM = 1"
| "errno_value CB_ENOENT = 2"
| "errno_value CB_EINTR = 4"
| "errno_value CB_EIO = 5"
| "errno_value CB_EBADF = 9"
| "errno_value CB_ECHILD = 10"
| "errno_value CB_ENOMEM = 12"
| "errno_value CB_EACCES = 13"
| "errno_value CB_EEXIST = 17"
| "errno_value CB_ENOTDIR = 20"
| "errno_value CB_EISDIR = 21"
| "errno_value CB_EINVAL = 22"
| "errno_value CB_ENFILE = 23"
| "errno_value CB_EMFILE = 24"
| "errno_value CB_ENOTTY = 25"
| "errno_value CB_ENOSPC = 28"
| "errno_value CB_ESPIPE = 29"
| "errno_value CB_EPIPE = 32"
| "errno_value CB_ERANGE = 34"
| "errno_value CB_ENAMETOOLONG = 63"
| "errno_value CB_ENOEXEC = 8"
| "errno_value CB_ENOSYS = 78"
| "errno_value CB_ENOTEMPTY = 66"
| "errno_value CB_EFAULT = 14"
| "errno_value CB_EOVERFLOW = 84"
| "errno_value CB_EXDEV = 18"
| "errno_value CB_ETXTBSY = 26"
| "errno_value Dangling = -1"

lemma errno_value_inject [simp]: "errno_value e = errno_value f \<longleftrightarrow> e = f"
  by (cases e; cases f; simp)

lemma errno_value_nonzero [simp]: "errno_value e \<noteq> 0"
  by (cases e) simp_all

definition CB_PATH_MAX :: nat where
  "CB_PATH_MAX = 1024"

definition SIZE_MAX :: nat where
  "SIZE_MAX = 2 ^ 64 - 1"

definition INT_MAX :: int where
  "INT_MAX = 2 ^ 31 - 1"

definition INT64_MAX :: int where
  "INT64_MAX = 2 ^ 63 - 1"

definition INT64_MIN :: int where
  "INT64_MIN = - (2 ^ 63)"

section \<open>Arrays\<close>

text \<open>
  \<open>memcpy_at d p xs\<close> is the array \<open>d\<close> after \<^verbatim>\<open>memcpy(d + p, xs, length xs)\<close>. The sources only
  copy inside the array, which is the hypothesis of every lemma below.
\<close>

definition memcpy_at :: "'a list \<Rightarrow> nat \<Rightarrow> 'a list \<Rightarrow> 'a list" where
  "memcpy_at d p xs = take p d @ xs @ drop (p + length xs) d"

lemma memcpy_at_Nil [simp]: "memcpy_at d p [] = d"
  by (simp add: memcpy_at_def)

lemma length_memcpy_at [array_simps]:
  "p + length xs \<le> length d \<Longrightarrow> length (memcpy_at d p xs) = length d"
  by (simp add: memcpy_at_def)

lemma nth_memcpy_at [array_simps]:
  assumes "p + length xs \<le> length d" and "i < length d"
  shows "memcpy_at d p xs ! i =
    (if p \<le> i \<and> i < p + length xs then xs ! (i - p) else d ! i)"
  using assms by (auto simp: memcpy_at_def nth_append min_def)

lemma take_memcpy_at_end:
  "p \<le> length d \<Longrightarrow> take (p + length xs) (memcpy_at d p xs) = take p d @ xs"
  by (simp add: memcpy_at_def)

lemma take_list_update_snoc [array_simps]:
  "n < length d \<Longrightarrow> take (Suc n) (d[n := x]) = take n d @ [x]"
  by (simp add: take_Suc_conv_app_nth)

section \<open>Lists\<close>

lemma take_append_drop_prefix: "take n xs @ drop n xs = xs"
  by simp

lemma sum_list_nth_le:
  fixes xs :: "nat list"
  shows "i < length xs \<Longrightarrow> xs ! i \<le> sum_list xs"
  by (simp add: elem_le_sum_list)

lemma filter_neq_remove1:
  "distinct xs \<Longrightarrow> filter (\<lambda>y. y \<noteq> x) xs = remove1 x xs"
  by (simp add: distinct_remove1_removeAll removeAll_filter_not_eq eq_commute)

lemma map_of_filter_ne:
  "k \<noteq> a \<Longrightarrow> map_of (filter (\<lambda>p. fst p \<noteq> a) xs) k = map_of xs k"
  by (induction xs) auto

end
