(* ===== verification/Ring.thy ===== *)
theory Ring
  imports Prelude
begin

text \<open>
  Ring buffers. Both queues of the program (the 4096-byte buffer of a pipe in
  \<^verbatim>\<open>src/core.c\<close> and the byte fifo of the terminal engine in \<^verbatim>\<open>src/terminal.c\<close>) keep a fixed
  array, the index of the oldest byte and a count. The pipe copies with two \<^verbatim>\<open>memcpy\<close> calls,
  the terminal byte by byte with a remainder per byte; both are reduced here to the same
  reference, and the contract of a byte queue is stated once, as a locale.
\<close>

section \<open>Contents and updates of a ring\<close>

definition ring_contents :: "'a list \<Rightarrow> nat \<Rightarrow> nat \<Rightarrow> 'a list" where
  "ring_contents d h n = map (\<lambda>i. d ! ((h + i) mod length d)) [0..<n]"

definition ring_store :: "'a list \<Rightarrow> nat \<Rightarrow> 'a list \<Rightarrow> 'a list" where
  "ring_store d w xs =
     map (\<lambda>j. let k = (j + length d - w) mod length d
              in if k < length xs then xs ! k else d ! j) [0..<length d]"

lemma length_ring_contents [simp]: "length (ring_contents d h n) = n"
  by (simp add: ring_contents_def)

lemma length_ring_store [simp]: "length (ring_store d w xs) = length d"
  by (simp add: ring_store_def)

lemma ring_contents_0 [simp]: "ring_contents d h 0 = []"
  by (simp add: ring_contents_def)

lemma nth_ring_contents [array_simps]:
  "i < n \<Longrightarrow> ring_contents d h n ! i = d ! ((h + i) mod length d)"
  by (simp add: ring_contents_def)

lemma nth_ring_store [array_simps]:
  "j < length d \<Longrightarrow> ring_store d w xs ! j =
    (let k = (j + length d - w) mod length d in if k < length xs then xs ! k else d ! j)"
  by (simp add: ring_store_def Let_def)

lemma mod_ring_distance:
  fixes N :: nat
  assumes "h < N" "i < N" "n < N"
  shows "((h + i) mod N + N - (h + n) mod N) mod N = (i + N - n) mod N"
proof -
  have "((h + i) mod N + N - (h + n) mod N) mod N = ((h + i) + N - (h + n) mod N) mod N"
    using assms by (metis (no_types, lifting) Nat.add_diff_assoc mod_add_left_eq mod_le_divisor
        not_less_zero bot_nat_0.not_eq_extremum)
  also have "\<dots> = (i + N - n) mod N"
  proof (cases "h + n < N")
    case True
    then show ?thesis using assms by simp
  next
    case False
    then have "(h + n) mod N = h + n - N"
      using assms by (simp add: mod_if)
    moreover have "h + i + N - (h + n - N) = i + N - n + N"
      using False assms by simp
    ultimately show ?thesis by simp
  qed
  finally show ?thesis .
qed

lemma ring_slot_eq:
  fixes N :: nat
  assumes "w < N" "j < N"
  shows "(j + N - w) mod N = (if w \<le> j then j - w else j + N - w)"
proof (cases "w \<le> j")
  case True
  then have "(j + N - w) mod N = ((j - w) + N) mod N" by simp
  also have "\<dots> = j - w" using assms True by (simp only: mod_add_self2) simp
  finally show ?thesis using True by simp
qed (use assms in simp)

lemma ring_index_eq:
  fixes N :: nat
  assumes "h < N" "i < N"
  shows "(h + i) mod N = (if h + i < N then h + i else h + i - N)"
  using assms by (simp add: mod_if [of "h + i" N])

section \<open>The two-copy and the byte-by-byte implementations\<close>

text \<open>
  Reading \<open>amount\<close> bytes from index \<open>h\<close> with two copies: up to the end of the array, then from
  its start. Writing is the mirror image.
\<close>

lemma ring_fetch_two_copies:
  assumes "h < length d" "amount \<le> length d"
  shows "take (min amount (length d - h)) (drop h d)
           @ take (amount - min amount (length d - h)) d = ring_contents d h amount"
proof (rule nth_equalityI)
  show "length (take (min amount (length d - h)) (drop h d)
          @ take (amount - min amount (length d - h)) d) = length (ring_contents d h amount)"
    using assms by auto
next
  fix i assume "i < length (take (min amount (length d - h)) (drop h d)
          @ take (amount - min amount (length d - h)) d)"
  then have i: "i < amount" using assms by auto
  show "(take (min amount (length d - h)) (drop h d)
          @ take (amount - min amount (length d - h)) d) ! i = ring_contents d h amount ! i"
  proof (cases "h + i < length d")
    case True
    then show ?thesis using assms i by (auto simp: nth_append array_simps)
  next
    case False
    then have "(h + i) mod length d = h + i - length d"
      using assms i by (simp add: mod_if)
    then show ?thesis using False assms i
      by (auto simp: nth_append array_simps min_def add.commute)
  qed
qed

lemma ring_store_two_copies:
  assumes "w < length d" "length xs \<le> length d"
  shows "memcpy_at (memcpy_at d w (take (min (length xs) (length d - w)) xs)) 0
           (drop (min (length xs) (length d - w)) xs) = ring_store d w xs"
proof -
  define f where "f = min (length xs) (length d - w)"
  have f: "f \<le> length xs" "w + f \<le> length d" "length xs - f \<le> length d"
    using assms unfolding f_def by auto
  define e where "e = memcpy_at d w (take f xs)"
  have e: "length e = length d"
    using f unfolding e_def by (simp add: length_memcpy_at)
  have "memcpy_at e 0 (drop f xs) = ring_store d w xs"
  proof (rule nth_equalityI)
    show "length (memcpy_at e 0 (drop f xs)) = length (ring_store d w xs)"
      using f e by (simp add: length_memcpy_at)
    fix j assume "j < length (memcpy_at e 0 (drop f xs))"
    then have j: "j < length d" using f e by (simp add: length_memcpy_at)
    have outer: "memcpy_at e 0 (drop f xs) ! j
        = (if j < length xs - f then xs ! (f + j) else e ! j)"
      using f e j by (simp add: nth_memcpy_at)
    have inner: "e ! j = (if w \<le> j \<and> j < w + f then xs ! (j - w) else d ! j)"
      using f j unfolding e_def by (auto simp: nth_memcpy_at)
    have ref: "ring_store d w xs ! j = (if w \<le> j
        then (if j - w < length xs then xs ! (j - w) else d ! j)
        else (if j + length d - w < length xs then xs ! (j + length d - w) else d ! j))"
      using j ring_slot_eq [OF assms(1) j] by (simp add: nth_ring_store)
    show "memcpy_at e 0 (drop f xs) ! j = ring_store d w xs ! j"
    proof (cases "length xs \<le> length d - w")
      case True
      then have "f = length xs" by (simp add: f_def)
      then show ?thesis using True j assms unfolding outer inner ref by auto
    next
      case False
      then have "f = length d - w" by (simp add: f_def)
      then show ?thesis using False j assms unfolding outer inner ref
        by (auto simp: add.commute)
    qed
  qed
  then show ?thesis unfolding e_def f_def .
qed

text \<open>The loop \<^verbatim>\<open>for (i = 0; i < n; ++i) d[(w + i) % N] = xs[i];\<close>.\<close>

primrec ring_store_loop :: "'a list \<Rightarrow> nat \<Rightarrow> 'a list \<Rightarrow> nat \<Rightarrow> 'a list" where
  "ring_store_loop d w xs 0 = d"
| "ring_store_loop d w xs (Suc n) =
     (ring_store_loop d w xs n)[(w + n) mod length d := xs ! n]"

lemma length_ring_store_loop [simp]: "length (ring_store_loop d w xs n) = length d"
  by (induction n) simp_all

lemma ring_store_loop_eq_take:
  assumes "w < length d" "n \<le> length xs" "length xs \<le> length d"
  shows "ring_store_loop d w xs n = ring_store d w (take n xs)"
  using assms(2)
proof (induction n)
  case 0
  show ?case by (rule nth_equalityI) (simp_all add: nth_ring_store)
next
  case (Suc n)
  show ?case
  proof (rule nth_equalityI)
    show "length (ring_store_loop d w xs (Suc n)) = length (ring_store d w (take (Suc n) xs))"
      by simp
    fix j assume "j < length (ring_store_loop d w xs (Suc n))"
    then have j: "j < length d" by simp
    have n: "n < length d" using Suc.prems assms(3) by simp
    have k: "(j + length d - w) mod length d = (if w \<le> j then j - w else j + length d - w)"
      using assms(1) j by (rule ring_slot_eq)
    have t: "(w + n) mod length d = (if w + n < length d then w + n else w + n - length d)"
      using assms(1) n by (rule ring_index_eq)
    have hit: "(w + n) mod length d = j \<longleftrightarrow> (j + length d - w) mod length d = n"
      using assms(1) j n unfolding k t by auto
    show "ring_store_loop d w xs (Suc n) ! j = ring_store d w (take (Suc n) xs) ! j"
    proof (cases "(j + length d - w) mod length d = n")
      case True
      then show ?thesis
        using hit j Suc.prems by (simp add: nth_ring_store)
    next
      case False
      then have "ring_store_loop d w xs (Suc n) ! j = ring_store d w (take n xs) ! j"
        using hit Suc by simp
      also have "\<dots> = ring_store d w (take (Suc n) xs) ! j"
        using False j Suc.prems by (simp add: nth_ring_store less_Suc_eq Let_def)
      finally show ?thesis .
    qed
  qed
qed

lemma ring_store_loop_eq:
  assumes "w < length d" "length xs \<le> length d"
  shows "ring_store_loop d w xs (length xs) = ring_store d w xs"
  using ring_store_loop_eq_take [of w d "length xs" xs] assms by simp

section \<open>A ring is a queue\<close>

lemma ring_contents_store:
  assumes "h < length d" "n + length xs \<le> length d"
  shows "ring_contents (ring_store d ((h + n) mod length d) xs) h (n + length xs)
           = ring_contents d h n @ xs"
proof (rule nth_equalityI)
  show "length (ring_contents (ring_store d ((h + n) mod length d) xs) h (n + length xs))
          = length (ring_contents d h n @ xs)" by simp
  fix i assume "i < length (ring_contents (ring_store d ((h + n) mod length d) xs) h
                       (n + length xs))"
  then have i: "i < n + length xs" by simp
  then have N: "i < length d" "n < length d \<or> xs = []"
    using assms by (simp, cases xs, simp_all)
  show "ring_contents (ring_store d ((h + n) mod length d) xs) h (n + length xs) ! i
          = (ring_contents d h n @ xs) ! i"
  proof (cases "xs = []")
    case True
    from N(1) have "0 < length d" by linarith
    then have "(h + i) mod length d < length d" by simp
    then show ?thesis using i True by (simp add: array_simps nth_append Let_def)
  next
    case False
    then have n: "n < length d" using N by simp
    from n have "0 < length d" by linarith
    then have slot: "(h + i) mod length d < length d" by simp
    have "((h + i) mod length d + length d - (h + n) mod length d) mod length d
            = (if n \<le> i then i - n else i + length d - n)"
      using mod_ring_distance [OF assms(1) N(1) n] ring_slot_eq [OF n N(1)] by simp
    then show ?thesis
      using i slot assms by (auto simp: array_simps nth_append Let_def)
  qed
qed

lemma ring_contents_take:
  "k \<le> n \<Longrightarrow> take k (ring_contents d h n) = ring_contents d h k"
  by (rule nth_equalityI) (auto simp: array_simps)

lemma ring_contents_drop:
  assumes "k \<le> n"
  shows "drop k (ring_contents d h n) = ring_contents d ((h + k) mod length d) (n - k)"
  using assms by (intro nth_equalityI) (auto simp: array_simps add.assoc mod_add_left_eq)

lemmas ring_simps = ring_contents_store ring_contents_take ring_contents_drop

section \<open>The contract of a bounded byte queue\<close>

text \<open>
  The interface a client of a queue uses: \<open>put\<close> appends bytes that fit, \<open>get\<close> takes at most a
  number of bytes from the front. The client's lemma is conservation: whatever the order of the
  calls, the bytes taken out followed by the bytes still inside are the bytes put in, in order.
\<close>

datatype 'a queue_op = Put "'a list" | Get nat

fun queue_run ::
  "('q \<Rightarrow> 'a list \<Rightarrow> bool) \<Rightarrow> ('q \<Rightarrow> 'a list \<Rightarrow> 'q) \<Rightarrow> ('q \<Rightarrow> nat \<Rightarrow> 'a list \<times> 'q) \<Rightarrow>
   'a queue_op list \<Rightarrow> 'q \<Rightarrow> 'a list \<times> 'a list \<times> 'q" where
  "queue_run fits put get [] q = ([], [], q)"
| "queue_run fits put get (Put xs # ops) q =
     (if fits q xs
      then (let (i, out, q') = queue_run fits put get ops (put q xs) in (xs @ i, out, q'))
      else queue_run fits put get ops q)"
| "queue_run fits put get (Get n # ops) q =
     (let (ys, q1) = get q n; (i, out, q') = queue_run fits put get ops q1
      in (i, ys @ out, q'))"

locale byte_queue =
  fixes invar :: "'q \<Rightarrow> bool"
    and contents :: "'q \<Rightarrow> 'a list"
    and fits :: "'q \<Rightarrow> 'a list \<Rightarrow> bool"
    and put :: "'q \<Rightarrow> 'a list \<Rightarrow> 'q"
    and get :: "'q \<Rightarrow> nat \<Rightarrow> 'a list \<times> 'q"
  assumes invar_put: "invar q \<Longrightarrow> fits q xs \<Longrightarrow> invar (put q xs)"
    and contents_put: "invar q \<Longrightarrow> fits q xs \<Longrightarrow> contents (put q xs) = contents q @ xs"
    and invar_get: "invar q \<Longrightarrow> invar (snd (get q n))"
    and get_front: "invar q \<Longrightarrow> fst (get q n) @ contents (snd (get q n)) = contents q"
begin

lemma queue_run_conserves:
  assumes "invar q"
  shows "invar (snd (snd (queue_run fits put get ops q))) \<and>
    fst (snd (queue_run fits put get ops q)) @ contents (snd (snd (queue_run fits put get ops q)))
      = contents q @ fst (queue_run fits put get ops q)"
  using assms
proof (induction ops arbitrary: q)
  case Nil
  then show ?case by simp
next
  case (Cons p ops)
  show ?case
  proof (cases p)
    case (Put xs)
    show ?thesis
    proof (cases "fits q xs")
      case True
      with Cons.IH [of "put q xs"] Cons.prems Put show ?thesis
        by (auto simp: invar_put contents_put split: prod.splits)
    next
      case False
      with Cons Put show ?thesis by simp
    qed
  next
    case (Get n)
    have "invar (snd (get q n))" using Cons.prems by (rule invar_get)
    with Cons.IH [of "snd (get q n)"] get_front [OF Cons.prems, of n, symmetric] Get
    show ?thesis by (auto split: prod.splits)
  qed
qed

end

end
