(* ===== verification/Simulation.thy ===== *)
theory Simulation
  imports Prelude
begin

text \<open>
  The shape in which most components are specified: an abstract machine that answers the same
  events with the same outputs. \<open>run_events\<close> feeds a list of events to a machine and collects its
  outputs; the locale \<open>simulation\<close> is the contract of one step, and its lemma lifts it to every
  run.
\<close>

fun run_events :: "('e \<Rightarrow> 's \<Rightarrow> 'o \<times> 's) \<Rightarrow> 'e list \<Rightarrow> 's \<Rightarrow> 'o list \<times> 's" where
  "run_events step [] s = ([], s)"
| "run_events step (e # es) s =
     (let (out, s1) = step e s; (outs, s2) = run_events step es s1 in (out # outs, s2))"

lemma run_events_Cons [simp]:
  "fst (run_events step (e # es) s) = fst (step e s) # fst (run_events step es (snd (step e s)))"
  "snd (run_events step (e # es) s) = snd (run_events step es (snd (step e s)))"
  by (simp_all split: prod.splits)

declare run_events.simps(2) [simp del]

lemma run_events_append:
  "fst (run_events step (es @ fs) s) =
     fst (run_events step es s) @ fst (run_events step fs (snd (run_events step es s)))"
  "snd (run_events step (es @ fs) s) = snd (run_events step fs (snd (run_events step es s)))"
  by (induction es arbitrary: s) simp_all

lemma length_run_events [simp]: "length (fst (run_events step es s)) = length es"
  by (induction es arbitrary: s) simp_all

locale invariant_machine =
  fixes invar :: "'s \<Rightarrow> bool"
    and step :: "'e \<Rightarrow> 's \<Rightarrow> 'o \<times> 's"
  assumes invar_step: "invar s \<Longrightarrow> invar (snd (step e s))"
begin

lemma invar_run: "invar s \<Longrightarrow> invar (snd (run_events step es s))"
proof (induction es arbitrary: s)
  case Nil
  then show ?case by simp
next
  case (Cons e es)
  from Cons.IH [OF invar_step [OF Cons.prems, of e]] show ?case by simp
qed

end

locale simulation = invariant_machine invar step
  for invar :: "'s \<Rightarrow> bool" and step :: "'e \<Rightarrow> 's \<Rightarrow> 'o \<times> 's" +
  fixes abs :: "'s \<Rightarrow> 'a"
    and spec :: "'e \<Rightarrow> 'a \<Rightarrow> 'o \<times> 'a"
  assumes step_output: "invar s \<Longrightarrow> fst (step e s) = fst (spec e (abs s))"
    and step_state: "invar s \<Longrightarrow> abs (snd (step e s)) = snd (spec e (abs s))"
begin

lemma run_refines:
  assumes "invar s"
  shows "fst (run_events step es s) = fst (run_events spec es (abs s)) \<and>
    abs (snd (run_events step es s)) = snd (run_events spec es (abs s))"
  using assms
proof (induction es arbitrary: s)
  case Nil
  then show ?case by simp
next
  case (Cons e es)
  from Cons.IH [OF invar_step [OF Cons.prems, of e]] step_output [OF Cons.prems, of e]
    step_state [OF Cons.prems, of e]
  show ?case by simp
qed

end

end
