(* ===== verification/Terminal.thy ===== *)
theory Terminal
  imports Ring Simulation
begin

text \<open>
  The canonical terminal engine, \<^verbatim>\<open>src/terminal.c\<close> and \<^verbatim>\<open>src/terminal.h\<close>: a line editor, a byte
  fifo with a queue of record lengths, and an echo buffer, all in fixed arrays. The concrete
  record follows \<^verbatim>\<open>struct cb_terminal_engine\<close> field by field. The abstract machine \<open>tty\<close> keeps a
  list of completed lines; the engine is shown to answer every sequence of calls as that machine
  does, and the machine to deliver exactly the edited input.
\<close>

section \<open>State and operations\<close>

definition CB_TERM_BYTES :: nat where
  "CB_TERM_BYTES = CB_PATH_MAX"

definition CB_TERM_RECORDS :: nat where
  "CB_TERM_RECORDS = 16"

abbreviation LF :: byte where "LF \<equiv> CHR 0x0A"
abbreviation CR :: byte where "CR \<equiv> CHR 0x0D"
abbreviation ERASE :: byte where "ERASE \<equiv> CHR 0x08"
abbreviation VEOF :: byte where "VEOF \<equiv> CHR 0x04"

record terminal_engine =
  edit :: "byte list"
  fifo :: "byte list"
  edit_used :: nat
  fifo_head :: nat
  fifo_used :: nat
  records :: "nat list"
  record_head :: nat
  record_count :: nat
  echo :: "byte list"
  echo_offset :: nat
  echo_used :: nat
  pending :: bool
  source_eof :: bool

definition commit_pending :: "terminal_engine \<Rightarrow> terminal_engine" where
  "commit_pending t =
     (if \<not> pending t \<or> record_count t = CB_TERM_RECORDS \<or>
         edit_used t > CB_TERM_BYTES - fifo_used t
      then t
      else let tail = (fifo_head t + fifo_used t) mod CB_TERM_BYTES
           in t\<lparr>fifo := ring_store_loop (fifo t) tail (edit t) (edit_used t),
                records := (records t)
                  [(record_head t + record_count t) mod CB_TERM_RECORDS := edit_used t],
                record_count := record_count t + 1,
                fifo_used := fifo_used t + edit_used t,
                edit_used := 0,
                pending := False\<rparr>)"

definition cb_terminal_init :: terminal_engine where
  "cb_terminal_init =
     \<lparr>edit = replicate CB_TERM_BYTES NUL, fifo = replicate CB_TERM_BYTES NUL,
      edit_used = 0, fifo_head = 0, fifo_used = 0,
      records = replicate CB_TERM_RECORDS 0, record_head = 0, record_count = 0,
      echo = replicate 3 NUL, echo_offset = 0, echo_used = 0,
      pending = False, source_eof = False\<rparr>"

definition cb_terminal_can_accept :: "terminal_engine \<Rightarrow> bool" where
  "cb_terminal_can_accept t \<longleftrightarrow> \<not> pending t \<and> \<not> source_eof t \<and> echo_used t = 0"

definition cb_terminal_feed :: "terminal_engine \<Rightarrow> byte \<Rightarrow> bool \<times> terminal_engine" where
  "cb_terminal_feed t byte0 =
     (if \<not> cb_terminal_can_accept t then (False, t)
      else let byte = (if byte0 = CR then LF else byte0)
           in (True,
               if byte = ERASE then
                 (if edit_used t \<noteq> 0
                  then t\<lparr>edit_used := edit_used t - 1,
                         echo := (echo t)[0 := ERASE, 1 := CHR '' '', 2 := ERASE],
                         echo_used := 3\<rparr>
                  else t)
               else if byte = VEOF then commit_pending (t\<lparr>pending := True\<rparr>)
               else if byte = LF \<or> edit_used t < CB_TERM_BYTES - 1 then
                 (let t1 = t\<lparr>edit := (edit t)[edit_used t := byte],
                             edit_used := edit_used t + 1,
                             echo := (echo t)[0 := byte],
                             echo_used := 1\<rparr>
                  in if byte = LF then commit_pending (t1\<lparr>pending := True\<rparr>) else t1)
               else t))"

definition cb_terminal_source_eof :: "terminal_engine \<Rightarrow> terminal_engine" where
  "cb_terminal_source_eof t =
     (if source_eof t then t
      else let t1 = t\<lparr>source_eof := True\<rparr>;
               t2 = (if edit_used t1 \<noteq> 0 then t1\<lparr>pending := True\<rparr> else t1)
           in commit_pending t2)"

definition cb_terminal_ready :: "terminal_engine \<Rightarrow> bool" where
  "cb_terminal_ready t \<longleftrightarrow> record_count t \<noteq> 0 \<or> source_eof t"

text \<open>
  A read returns its status, the bytes stored through \<open>buffer\<close> (their number is \<open>*count\<close>) and the
  engine. \<open>buffer\<close> and \<open>count\<close> say whether the two pointers are non-null.
\<close>

definition cb_terminal_read ::
  "terminal_engine \<Rightarrow> bool \<Rightarrow> nat \<Rightarrow> bool \<Rightarrow> int \<times> byte list \<times> terminal_engine" where
  "cb_terminal_read t buffer capacity count =
     (if \<not> count then (-1, [], t)
      else if capacity = 0 then (1, [], t)
      else if \<not> buffer then (-1, [], t)
      else if record_count t = 0 then (if source_eof t then 1 else 0, [], t)
      else let n0 = records t ! record_head t;
               n = (if n0 > capacity then capacity else n0);
               out = map (\<lambda>i. fifo t ! ((fifo_head t + i) mod CB_TERM_BYTES)) [0..<n];
               t1 = t\<lparr>fifo_head := (fifo_head t + n) mod CB_TERM_BYTES,
                      fifo_used := fifo_used t - n,
                      records := (records t)[record_head t := records t ! record_head t - n]\<rparr>;
               t2 = (if records t1 ! record_head t1 = 0
                     then t1\<lparr>record_head := (record_head t1 + 1) mod CB_TERM_RECORDS,
                             record_count := record_count t1 - 1\<rparr>
                     else t1)
           in (1, out, commit_pending t2))"

definition cb_terminal_echo :: "terminal_engine \<Rightarrow> byte list" where
  "cb_terminal_echo t = take (echo_used t) (drop (echo_offset t) (echo t))"

definition cb_terminal_echo_ack :: "terminal_engine \<Rightarrow> nat \<Rightarrow> int \<times> terminal_engine" where
  "cb_terminal_echo_ack t count =
     (if count > echo_used t then (-1, t)
      else let t1 = t\<lparr>echo_offset := echo_offset t + count, echo_used := echo_used t - count\<rparr>
           in (0, if echo_used t1 = 0 then t1\<lparr>echo_offset := 0\<rparr> else t1))"

section \<open>The machine it implements\<close>

record tty =
  tty_lines :: "byte list list"
  tty_line :: "byte list"
  tty_held :: bool
  tty_eof :: bool
  tty_echo :: "byte list"

definition tty_init :: tty where
  "tty_init = \<lparr>tty_lines = [], tty_line = [], tty_held = False, tty_eof = False, tty_echo = []\<rparr>"

definition tty_commit :: "tty \<Rightarrow> tty" where
  "tty_commit s =
     (if tty_held s \<and> length (tty_lines s) < CB_TERM_RECORDS \<and>
         length (concat (tty_lines s)) + length (tty_line s) \<le> CB_TERM_BYTES
      then s\<lparr>tty_lines := tty_lines s @ [tty_line s], tty_line := [], tty_held := False\<rparr>
      else s)"

definition tty_feed :: "byte \<Rightarrow> tty \<Rightarrow> bool \<times> tty" where
  "tty_feed b0 s =
     (if tty_held s \<or> tty_eof s \<or> tty_echo s \<noteq> [] then (False, s)
      else let b = (if b0 = CR then LF else b0)
           in (True,
               if b = ERASE then
                 (if tty_line s = [] then s
                  else s\<lparr>tty_line := butlast (tty_line s), tty_echo := [ERASE, CHR '' '', ERASE]\<rparr>)
               else if b = VEOF then tty_commit (s\<lparr>tty_held := True\<rparr>)
               else if b = LF then
                 tty_commit (s\<lparr>tty_line := tty_line s @ [LF], tty_echo := [LF], tty_held := True\<rparr>)
               else if length (tty_line s) < CB_TERM_BYTES - 1 then
                 s\<lparr>tty_line := tty_line s @ [b], tty_echo := [b]\<rparr>
               else s))"

definition tty_source_eof :: "tty \<Rightarrow> tty" where
  "tty_source_eof s =
     (if tty_eof s then s
      else tty_commit (s\<lparr>tty_eof := True, tty_held := tty_held s \<or> tty_line s \<noteq> []\<rparr>))"

definition tty_read :: "nat \<Rightarrow> tty \<Rightarrow> (int \<times> byte list) \<times> tty" where
  "tty_read capacity s =
     (if capacity = 0 then ((1, []), s)
      else case tty_lines s of
        [] \<Rightarrow> ((if tty_eof s then 1 else 0, []), s)
      | l # ls \<Rightarrow>
          ((1, take capacity l),
           tty_commit (s\<lparr>tty_lines := (if drop capacity l = [] then ls else drop capacity l # ls)\<rparr>)))"

definition tty_echo_ack :: "nat \<Rightarrow> tty \<Rightarrow> int \<times> tty" where
  "tty_echo_ack n s =
     (if n > length (tty_echo s) then (-1, s) else (0, s\<lparr>tty_echo := drop n (tty_echo s)\<rparr>))"

datatype tty_event = Feed byte | SourceEof | Read nat | EchoAck nat

datatype tty_output = Fed bool | Ended | ReadDone int "byte list" | Acked int

fun terminal_step :: "tty_event \<Rightarrow> terminal_engine \<Rightarrow> tty_output \<times> terminal_engine" where
  "terminal_step (Feed b) t = (let (r, t') = cb_terminal_feed t b in (Fed r, t'))"
| "terminal_step SourceEof t = (Ended, cb_terminal_source_eof t)"
| "terminal_step (Read n) t =
     (let (r, out, t') = cb_terminal_read t True n True in (ReadDone r out, t'))"
| "terminal_step (EchoAck n) t = (let (r, t') = cb_terminal_echo_ack t n in (Acked r, t'))"

fun tty_step :: "tty_event \<Rightarrow> tty \<Rightarrow> tty_output \<times> tty" where
  "tty_step (Feed b) s = (let (r, s') = tty_feed b s in (Fed r, s'))"
| "tty_step SourceEof s = (Ended, tty_source_eof s)"
| "tty_step (Read n) s = (let ((r, out), s') = tty_read n s in (ReadDone r out, s'))"
| "tty_step (EchoAck n) s = (let (r, s') = tty_echo_ack n s in (Acked r, s'))"

section \<open>Abstraction and invariant\<close>

fun chop :: "nat list \<Rightarrow> 'a list \<Rightarrow> 'a list list" where
  "chop [] bs = []"
| "chop (n # ns) bs = take n bs # chop ns (drop n bs)"

lemma length_chop [simp]: "length (chop ns bs) = length ns"
  by (induction ns arbitrary: bs) simp_all

lemma concat_chop: "sum_list ns = length bs \<Longrightarrow> concat (chop ns bs) = bs"
  by (induction ns arbitrary: bs) simp_all

lemma chop_snoc:
  "sum_list ns = length bs \<Longrightarrow> chop (ns @ [length xs]) (bs @ xs) = chop ns bs @ [xs]"
  by (induction ns arbitrary: bs) auto

lemma chop_prefix: "sum_list ns \<le> length bs \<Longrightarrow> chop ns (bs @ xs) = chop ns bs"
  by (induction ns arbitrary: bs) auto

definition terminal_recs :: "terminal_engine \<Rightarrow> nat list" where
  "terminal_recs t = ring_contents (records t) (record_head t) (record_count t)"

definition terminal_bytes :: "terminal_engine \<Rightarrow> byte list" where
  "terminal_bytes t = ring_contents (fifo t) (fifo_head t) (fifo_used t)"

definition terminal_abs :: "terminal_engine \<Rightarrow> tty" where
  "terminal_abs t =
     \<lparr>tty_lines = chop (terminal_recs t) (terminal_bytes t),
      tty_line = take (edit_used t) (edit t),
      tty_held = pending t,
      tty_eof = source_eof t,
      tty_echo = cb_terminal_echo t\<rparr>"

text \<open>
  \<open>terminal_shape\<close> bounds every index; it holds at every point of every operation. Between
  operations \<open>terminal_ok\<close> adds that a record is pending only while it cannot be committed, and
  that an unfinished line leaves room for its line feed.
\<close>

definition terminal_shape :: "terminal_engine \<Rightarrow> bool" where
  "terminal_shape t \<longleftrightarrow>
     length (edit t) = CB_TERM_BYTES \<and> length (fifo t) = CB_TERM_BYTES \<and>
     length (records t) = CB_TERM_RECORDS \<and> length (echo t) = 3 \<and>
     edit_used t \<le> CB_TERM_BYTES \<and>
     fifo_head t < CB_TERM_BYTES \<and> fifo_used t \<le> CB_TERM_BYTES \<and>
     record_head t < CB_TERM_RECORDS \<and> record_count t \<le> CB_TERM_RECORDS \<and>
     echo_offset t + echo_used t \<le> 3 \<and> (echo_used t = 0 \<longrightarrow> echo_offset t = 0) \<and>
     sum_list (terminal_recs t) = fifo_used t"

definition terminal_ok :: "terminal_engine \<Rightarrow> bool" where
  "terminal_ok t \<longleftrightarrow> terminal_shape t \<and>
     (pending t \<longrightarrow> record_count t = CB_TERM_RECORDS \<or>
                   fifo_used t + edit_used t > CB_TERM_BYTES) \<and>
     (\<not> pending t \<longrightarrow> edit_used t < CB_TERM_BYTES)"

lemma terminal_constants [simp]: "0 < CB_TERM_BYTES" "0 < CB_TERM_RECORDS" "Suc 0 < CB_TERM_BYTES"
  by (simp_all add: CB_TERM_BYTES_def CB_TERM_RECORDS_def CB_PATH_MAX_def)

lemma length_terminal_recs [simp]: "length (terminal_recs t) = record_count t"
  by (simp add: terminal_recs_def)

lemma length_terminal_bytes [simp]: "length (terminal_bytes t) = fifo_used t"
  by (simp add: terminal_bytes_def)

lemma length_cb_terminal_echo:
  "terminal_shape t \<Longrightarrow> length (cb_terminal_echo t) = echo_used t"
  by (auto simp: terminal_shape_def cb_terminal_echo_def)

lemma terminal_init_ok: "terminal_ok cb_terminal_init"
  by (simp add: terminal_ok_def terminal_shape_def terminal_recs_def cb_terminal_init_def)

lemma terminal_abs_init: "terminal_abs cb_terminal_init = tty_init"
  by (simp add: terminal_abs_def tty_init_def cb_terminal_init_def terminal_recs_def
      cb_terminal_echo_def)

section \<open>Every operation implements its abstract counterpart\<close>

lemma commit_records:
  assumes "terminal_shape t" "record_count t < CB_TERM_RECORDS"
  shows "ring_contents ((records t)
      [(record_head t + record_count t) mod CB_TERM_RECORDS := n]) (record_head t)
      (Suc (record_count t)) = terminal_recs t @ [n]"
proof -
  have len: "length (records t) = CB_TERM_RECORDS" "record_head t < length (records t)"
    using assms by (simp_all add: terminal_shape_def)
  then have "(records t)[(record_head t + record_count t) mod CB_TERM_RECORDS := n]
      = ring_store_loop (records t) ((record_head t + record_count t) mod length (records t)) [n]
          (length [n])"
    by simp
  also have "\<dots> = ring_store (records t) ((record_head t + record_count t) mod length (records t)) [n]"
    using len by (intro ring_store_loop_eq) auto
  finally show ?thesis
    using ring_contents_store [OF len(2), of "record_count t" "[n]"] assms(2) len
    by (simp add: terminal_recs_def)
qed

lemma commit_bytes:
  assumes "terminal_shape t" "fifo_used t + edit_used t \<le> CB_TERM_BYTES"
  shows "ring_contents (ring_store_loop (fifo t) ((fifo_head t + fifo_used t) mod CB_TERM_BYTES)
      (edit t) (edit_used t)) (fifo_head t) (fifo_used t + edit_used t)
      = terminal_bytes t @ take (edit_used t) (edit t)"
proof -
  have len: "length (fifo t) = CB_TERM_BYTES" "fifo_head t < length (fifo t)"
    "length (edit t) = CB_TERM_BYTES" "edit_used t \<le> length (edit t)"
    using assms by (simp_all add: terminal_shape_def)
  then have "ring_store_loop (fifo t) ((fifo_head t + fifo_used t) mod CB_TERM_BYTES)
      (edit t) (edit_used t)
      = ring_store (fifo t) ((fifo_head t + fifo_used t) mod length (fifo t))
          (take (edit_used t) (edit t))"
    by (simp add: ring_store_loop_eq_take)
  then show ?thesis
    using ring_contents_store [OF len(2), of "fifo_used t" "take (edit_used t) (edit t)"] assms len
    by (simp add: terminal_bytes_def)
qed

lemma commit_pending_shape [wf_intros]:
  assumes "terminal_shape t"
  shows "terminal_shape (commit_pending t)"
proof (cases "\<not> pending t \<or> record_count t = CB_TERM_RECORDS \<or>
         edit_used t > CB_TERM_BYTES - fifo_used t")
  case True
  then show ?thesis using assms by (simp add: commit_pending_def)
next
  case False
  then have "record_count t < CB_TERM_RECORDS" "fifo_used t + edit_used t \<le> CB_TERM_BYTES"
    using assms by (auto simp: terminal_shape_def)
  then show ?thesis
    using False assms commit_records [OF assms]
    by (simp add: commit_pending_def terminal_shape_def Let_def terminal_recs_def)
qed

lemma commit_pending_abs:
  assumes "terminal_shape t"
  shows "terminal_abs (commit_pending t) = tty_commit (terminal_abs t)"
proof (cases "\<not> pending t \<or> record_count t = CB_TERM_RECORDS \<or>
         edit_used t > CB_TERM_BYTES - fifo_used t")
  case True
  have total: "length (concat (chop (terminal_recs t) (terminal_bytes t))) = fifo_used t"
    using assms by (simp add: concat_chop terminal_shape_def)
  have "length (take (edit_used t) (edit t)) = edit_used t" "fifo_used t \<le> CB_TERM_BYTES"
    using assms by (simp_all add: terminal_shape_def)
  then show ?thesis
    using True total by (auto simp: commit_pending_def tty_commit_def terminal_abs_def)
next
  case False
  then have room: "record_count t < CB_TERM_RECORDS" "fifo_used t + edit_used t \<le> CB_TERM_BYTES"
    using assms by (auto simp: terminal_shape_def)
  have total: "length (concat (chop (terminal_recs t) (terminal_bytes t))) = fifo_used t"
    using assms by (simp add: concat_chop terminal_shape_def)
  have used: "length (take (edit_used t) (edit t)) = edit_used t"
    using assms by (simp add: terminal_shape_def)
  have "chop (terminal_recs t @ [edit_used t]) (terminal_bytes t @ take (edit_used t) (edit t))
      = chop (terminal_recs t) (terminal_bytes t) @ [take (edit_used t) (edit t)]"
    using chop_snoc [of "terminal_recs t" "terminal_bytes t" "take (edit_used t) (edit t)"] used assms
    by (simp add: terminal_shape_def)
  then show ?thesis
    using False room total used commit_records [OF assms room(1)] commit_bytes [OF assms room(2)]
    by (simp add: commit_pending_def tty_commit_def terminal_abs_def Let_def
        terminal_recs_def terminal_bytes_def cb_terminal_echo_def)
qed

lemma commit_pending_ok:
  assumes "terminal_shape t" "\<not> pending t \<Longrightarrow> edit_used t < CB_TERM_BYTES"
  shows "terminal_ok (commit_pending t)"
  using commit_pending_shape [OF assms(1)] assms
  by (auto simp: terminal_ok_def commit_pending_def Let_def terminal_shape_def)

lemma can_accept_abs:
  assumes "terminal_shape t"
  shows "cb_terminal_can_accept t \<longleftrightarrow>
    \<not> tty_held (terminal_abs t) \<and> \<not> tty_eof (terminal_abs t) \<and> tty_echo (terminal_abs t) = []"
  using length_cb_terminal_echo [OF assms]
  by (auto simp: cb_terminal_can_accept_def terminal_abs_def)

lemma three_cells: "length d = 3 \<Longrightarrow> d[0 := a, 1 := b, 2 := c] = [a, b, c]"
  by (auto simp: length_Suc_conv numeral_3_eq_3)

lemma feed_erase:
  assumes "terminal_shape t" "cb_terminal_can_accept t" "edit_used t \<noteq> 0"
  defines "t1 \<equiv> t\<lparr>edit_used := edit_used t - 1,
       echo := (echo t)[0 := ERASE, 1 := CHR '' '', 2 := ERASE], echo_used := 3\<rparr>"
  shows "terminal_shape t1"
    and "terminal_abs t1 = (terminal_abs t)\<lparr>tty_line := butlast (tty_line (terminal_abs t)),
           tty_echo := [ERASE, CHR '' '', ERASE]\<rparr>"
  using assms three_cells [of "echo t"]
  by (auto simp: terminal_shape_def terminal_abs_def cb_terminal_can_accept_def
      cb_terminal_echo_def terminal_recs_def terminal_bytes_def butlast_take)

lemma feed_store:
  fixes b :: byte
  assumes "terminal_shape t" "cb_terminal_can_accept t" "edit_used t < CB_TERM_BYTES"
  defines "t1 \<equiv> t\<lparr>edit := (edit t)[edit_used t := b], edit_used := edit_used t + 1,
       echo := (echo t)[0 := b], echo_used := 1\<rparr>"
  shows "terminal_shape t1"
    and "terminal_abs t1 =
           (terminal_abs t)\<lparr>tty_line := tty_line (terminal_abs t) @ [b], tty_echo := [b]\<rparr>"
proof -
  obtain x y z where "echo t = [x, y, z]"
    using assms(1) by (auto simp: terminal_shape_def length_Suc_conv numeral_3_eq_3)
  moreover have "take (Suc (edit_used t)) ((edit t)[edit_used t := b])
      = take (edit_used t) (edit t) @ [b]"
    using assms by (intro take_list_update_snoc) (simp add: terminal_shape_def)
  ultimately show "terminal_shape t1" "terminal_abs t1 =
           (terminal_abs t)\<lparr>tty_line := tty_line (terminal_abs t) @ [b], tty_echo := [b]\<rparr>"
    using assms by (auto simp: terminal_shape_def terminal_abs_def cb_terminal_can_accept_def
      cb_terminal_echo_def terminal_recs_def terminal_bytes_def)
qed

lemma set_pending_shape: "terminal_shape (t\<lparr>pending := p\<rparr>) = terminal_shape t"
  by (simp add: terminal_shape_def terminal_recs_def)

lemma set_pending_abs: "terminal_abs (t\<lparr>pending := p\<rparr>) = (terminal_abs t)\<lparr>tty_held := p\<rparr>"
  by (simp add: terminal_abs_def terminal_recs_def terminal_bytes_def cb_terminal_echo_def)

lemma feed_refines:
  assumes "terminal_ok t"
  shows "terminal_ok (snd (cb_terminal_feed t b)) \<and>
    fst (cb_terminal_feed t b) = fst (tty_feed b (terminal_abs t)) \<and>
    terminal_abs (snd (cb_terminal_feed t b)) = snd (tty_feed b (terminal_abs t))"
proof (cases "cb_terminal_can_accept t")
  case False
  then show ?thesis
    using assms can_accept_abs [of t]
    by (auto simp: cb_terminal_feed_def tty_feed_def terminal_ok_def)
next
  case True
  define c where "c = (if b = CR then LF else b)"
  have sh: "terminal_shape t" and idle: "\<not> pending t" and room: "edit_used t < CB_TERM_BYTES"
    using assms True by (auto simp: terminal_ok_def cb_terminal_can_accept_def)
  have acc: "\<not> (tty_held (terminal_abs t) \<or> tty_eof (terminal_abs t) \<or>
      tty_echo (terminal_abs t) \<noteq> [])"
    using can_accept_abs [OF sh] True by simp
  have line: "length (tty_line (terminal_abs t)) = edit_used t"
    using sh by (simp add: terminal_abs_def terminal_shape_def)
  consider (erase) "c = ERASE" | (eof) "c = VEOF" | (lf) "c = LF"
    | (byte) "c \<notin> {ERASE, VEOF, LF}" by blast
  then show ?thesis
  proof cases
    case erase
    show ?thesis
    proof (cases "edit_used t = 0")
      case True
      then show ?thesis using erase \<open>cb_terminal_can_accept t\<close> acc line assms
        by (simp add: cb_terminal_feed_def tty_feed_def c_def)
    next
      case False
      then have "tty_line (terminal_abs t) \<noteq> []" using line by auto
      then show ?thesis
        using False erase \<open>cb_terminal_can_accept t\<close> acc line idle room
          feed_erase [OF sh \<open>cb_terminal_can_accept t\<close> False]
        by (simp add: cb_terminal_feed_def tty_feed_def c_def terminal_ok_def Let_def)
    qed
  next
    case eof
    have "terminal_shape (t\<lparr>pending := True\<rparr>)" using sh by (simp add: set_pending_shape)
    from commit_pending_ok [OF this] commit_pending_abs [OF this] show ?thesis
      using eof True acc by (simp add: cb_terminal_feed_def tty_feed_def c_def set_pending_abs)
  next
    case lf
    define t1 where "t1 = t\<lparr>edit := (edit t)[edit_used t := LF], edit_used := edit_used t + 1,
       echo := (echo t)[0 := LF], echo_used := 1\<rparr>"
    have t1: "terminal_shape (t1\<lparr>pending := True\<rparr>)" "terminal_abs t1 =
        (terminal_abs t)\<lparr>tty_line := tty_line (terminal_abs t) @ [LF], tty_echo := [LF]\<rparr>"
      using feed_store [OF sh True room, of LF] by (simp_all add: t1_def set_pending_shape)
    have "cb_terminal_feed t b = (True, commit_pending (t1\<lparr>pending := True\<rparr>))"
      using lf True by (simp add: cb_terminal_feed_def c_def [symmetric] t1_def Let_def)
    moreover have "tty_feed b (terminal_abs t) = (True, tty_commit
        ((terminal_abs t)\<lparr>tty_line := tty_line (terminal_abs t) @ [LF], tty_echo := [LF],
           tty_held := True\<rparr>))"
      using lf acc by (simp add: tty_feed_def c_def [symmetric] Let_def)
    ultimately show ?thesis
      using t1 commit_pending_ok [OF t1(1)] commit_pending_abs [OF t1(1)]
      by (simp add: set_pending_abs)
  next
    case byte
    then show ?thesis
      using True acc line idle assms feed_store [OF sh True room, of c]
      by (auto simp: cb_terminal_feed_def tty_feed_def c_def [symmetric] terminal_ok_def Let_def)
  qed
qed

lemma source_eof_refines:
  assumes "terminal_ok t"
  shows "terminal_ok (cb_terminal_source_eof t) \<and>
    terminal_abs (cb_terminal_source_eof t) = tty_source_eof (terminal_abs t)"
proof (cases "source_eof t")
  case True
  then show ?thesis
    using assms by (simp add: cb_terminal_source_eof_def tty_source_eof_def terminal_abs_def)
next
  case False
  define t2 where "t2 = (if edit_used t \<noteq> 0 then t\<lparr>source_eof := True, pending := True\<rparr>
    else t\<lparr>source_eof := True\<rparr>)"
  have sh: "terminal_shape t" using assms by (simp add: terminal_ok_def)
  then have sh2: "terminal_shape t2"
    by (simp add: t2_def terminal_shape_def terminal_recs_def)
  have len: "tty_line (terminal_abs t) = [] \<longleftrightarrow> edit_used t = 0"
    using sh by (auto simp: terminal_abs_def terminal_shape_def)
  have abs2: "terminal_abs t2 = (terminal_abs t)\<lparr>tty_eof := True,
      tty_held := tty_held (terminal_abs t) \<or> tty_line (terminal_abs t) \<noteq> []\<rparr>"
    using len by (auto simp: t2_def terminal_abs_def terminal_recs_def terminal_bytes_def
        cb_terminal_echo_def)
  have "cb_terminal_source_eof t = commit_pending t2"
    using False by (simp add: cb_terminal_source_eof_def t2_def)
  moreover have "terminal_ok (commit_pending t2)"
    using sh2 assms by (intro commit_pending_ok) (auto simp: t2_def terminal_ok_def)
  moreover have "\<not> tty_eof (terminal_abs t)" using False by (simp add: terminal_abs_def)
  ultimately show ?thesis
    using commit_pending_abs [OF sh2] abs2 by (simp add: tty_source_eof_def)
qed

lemma echo_ack_refines:
  assumes "terminal_ok t"
  shows "terminal_ok (snd (cb_terminal_echo_ack t n)) \<and>
    fst (cb_terminal_echo_ack t n) = fst (tty_echo_ack n (terminal_abs t)) \<and>
    terminal_abs (snd (cb_terminal_echo_ack t n)) = snd (tty_echo_ack n (terminal_abs t))"
proof -
  have sh: "terminal_shape t" using assms by (simp add: terminal_ok_def)
  have "length (tty_echo (terminal_abs t)) = echo_used t"
    using length_cb_terminal_echo [OF sh] by (simp add: terminal_abs_def)
  then show ?thesis
    using assms
    by (auto simp: cb_terminal_echo_ack_def tty_echo_ack_def terminal_ok_def terminal_shape_def
        terminal_abs_def terminal_recs_def terminal_bytes_def cb_terminal_echo_def drop_take
        add.commute Let_def)
qed

lemma ring_contents_Suc:
  "ring_contents d h (Suc n) = d ! (h mod length d) # ring_contents d (Suc h mod length d) n"
proof -
  have "[0..<Suc n] = 0 # map Suc [0..<n]" by (simp add: upt_conv_Cons map_Suc_upt del: upt_Suc)
  then show ?thesis
    by (simp add: ring_contents_def comp_def mod_add_left_eq del: upt_Suc)
qed

lemma ring_contents_set_head:
  assumes "h < length d" "Suc n \<le> length d"
  shows "ring_contents (d[h := v]) h (Suc n) = v # ring_contents d (Suc h mod length d) n"
proof -
  have "ring_contents (d[h := v]) (Suc h mod length d) n = ring_contents d (Suc h mod length d) n"
  proof (rule nth_equalityI)
    fix i assume "i < length (ring_contents (d[h := v]) (Suc h mod length d) n)"
    then have i: "i < n" by simp
    have "(Suc h mod length d + i) mod length d = (h + Suc i) mod length d"
      by (simp add: mod_add_left_eq)
    also have "\<dots> = (if h + Suc i < length d then h + Suc i else h + Suc i - length d)"
      using assms i by (intro ring_index_eq) simp_all
    also have "\<dots> \<noteq> h" using i assms by auto
    finally show "ring_contents (d[h := v]) (Suc h mod length d) n ! i
        = ring_contents d (Suc h mod length d) n ! i"
      using i by (simp add: nth_ring_contents)
  qed simp
  then show ?thesis using assms by (simp add: ring_contents_Suc)
qed

lemma read_refines:
  assumes "terminal_ok t"
  shows "terminal_ok (snd (snd (cb_terminal_read t True n True))) \<and>
    (fst (cb_terminal_read t True n True), fst (snd (cb_terminal_read t True n True)))
      = fst (tty_read n (terminal_abs t)) \<and>
    terminal_abs (snd (snd (cb_terminal_read t True n True))) = snd (tty_read n (terminal_abs t))"
proof (cases "n = 0 \<or> record_count t = 0")
  case True
  then show ?thesis
    using assms by (auto simp: cb_terminal_read_def tty_read_def terminal_abs_def terminal_recs_def)
next
  case False
  have sh: "terminal_shape t" using assms by (simp add: terminal_ok_def)
  then have len: "length (fifo t) = CB_TERM_BYTES" "length (records t) = CB_TERM_RECORDS"
    "fifo_head t < CB_TERM_BYTES" "record_head t < CB_TERM_RECORDS"
    "record_count t \<le> CB_TERM_RECORDS"
    by (simp_all add: terminal_shape_def)
  obtain m where m: "record_count t = Suc m" using False by (cases "record_count t") auto
  define r where "r = records t ! record_head t"
  define rs where "rs = ring_contents (records t) (Suc (record_head t) mod CB_TERM_RECORDS) m"
  define k where "k = min n r"
  define t1 where "t1 = t\<lparr>fifo_head := (fifo_head t + k) mod CB_TERM_BYTES,
    fifo_used := fifo_used t - k, records := (records t)[record_head t := r - k]\<rparr>"
  define t2 where "t2 = (if r - k = 0
    then t1\<lparr>record_head := (record_head t + 1) mod CB_TERM_RECORDS, record_count := m\<rparr> else t1)"
  have recs: "terminal_recs t = r # rs"
    using len by (simp add: terminal_recs_def m ring_contents_Suc r_def rs_def)
  have sum: "r + sum_list rs = fifo_used t" and k: "k \<le> fifo_used t" "k \<le> r"
    using sh recs by (auto simp: terminal_shape_def k_def)
  have out: "map (\<lambda>i. fifo t ! ((fifo_head t + i) mod CB_TERM_BYTES)) [0..<k]
      = take k (terminal_bytes t)"
    using k len ring_contents_take [of k "fifo_used t" "fifo t" "fifo_head t"]
    by (simp add: terminal_bytes_def ring_contents_def)
  have step: "cb_terminal_read t True n True = (1, take k (terminal_bytes t), commit_pending t2)"
    using False len out [symmetric]
    by (simp add: cb_terminal_read_def Let_def r_def k_def t1_def t2_def min_def m)
  have bytes2: "terminal_bytes t2 = drop k (terminal_bytes t)"
    using k len by (simp add: t2_def t1_def terminal_bytes_def ring_contents_drop)
  have keep: "ring_contents ((records t)[record_head t := r - k]) (record_head t) (Suc m)
      = (r - k) # rs"
    using len m by (simp add: ring_contents_set_head rs_def)
  have recs2: "terminal_recs t2 = (if r - k = 0 then rs else (r - k) # rs)"
  proof (cases "r - k = 0")
    case True
    have "rs = drop 1 ((r - k) # rs)" by simp
    also have "\<dots> = ring_contents ((records t)[record_head t := r - k])
        ((record_head t + 1) mod CB_TERM_RECORDS) (Suc m - 1)"
      unfolding keep [symmetric] using len by (subst ring_contents_drop) simp_all
    finally show ?thesis using True by (simp add: t2_def t1_def terminal_recs_def)
  next
    case False
    then show ?thesis using keep m by (simp add: t2_def t1_def terminal_recs_def)
  qed
  have fields: "edit t2 = edit t" "length (fifo t2) = CB_TERM_BYTES"
    "length (records t2) = CB_TERM_RECORDS" "echo t2 = echo t" "edit_used t2 = edit_used t"
    "fifo_head t2 < CB_TERM_BYTES" "fifo_used t2 = fifo_used t - k" "record_head t2 < CB_TERM_RECORDS"
    "record_count t2 \<le> CB_TERM_RECORDS" "echo_offset t2 = echo_offset t"
    "echo_used t2 = echo_used t" "pending t2 = pending t" "source_eof t2 = source_eof t"
    using len m by (simp_all add: t2_def t1_def)
  have "sum_list (terminal_recs t2) = fifo_used t2"
    using sum k unfolding recs2 fields by auto
  then have sh2: "terminal_shape t2"
    using sh fields by (simp add: terminal_shape_def le_diff_conv)
  have line: "drop n (take r (terminal_bytes t)) = take (r - k) (drop k (terminal_bytes t))"
    "take n (take r (terminal_bytes t)) = take k (terminal_bytes t)"
    by (simp_all add: k_def drop_take min_def)
  have empty: "drop n (take r (terminal_bytes t)) = [] \<longleftrightarrow> r - k = 0"
    using line(1) sum k by auto
  have lines2: "chop (terminal_recs t2) (terminal_bytes t2) =
     (if r - k = 0 then chop rs (drop r (terminal_bytes t))
      else take (r - k) (drop k (terminal_bytes t)) # chop rs (drop r (terminal_bytes t)))"
    unfolding recs2 bytes2 using k(2) by auto
  have abs2: "terminal_abs t2 = (terminal_abs t)\<lparr>tty_lines :=
     (if drop n (take r (terminal_bytes t)) = [] then chop rs (drop r (terminal_bytes t))
      else drop n (take r (terminal_bytes t)) # chop rs (drop r (terminal_bytes t)))\<rparr>"
    unfolding empty unfolding line(1) lines2 [symmetric]
    using fields by (simp add: terminal_abs_def cb_terminal_echo_def)
  have "terminal_ok (commit_pending t2)"
    using sh2 assms fields by (intro commit_pending_ok) (simp_all add: terminal_ok_def)
  moreover have "tty_lines (terminal_abs t)
      = take r (terminal_bytes t) # chop rs (drop r (terminal_bytes t))"
    by (simp add: terminal_abs_def recs)
  ultimately show ?thesis
    using False step commit_pending_abs [OF sh2] abs2 line(2) by (simp add: tty_read_def)
qed

lemma terminal_step_refines:
  assumes "terminal_ok t"
  shows "terminal_ok (snd (terminal_step e t))"
    and "fst (terminal_step e t) = fst (tty_step e (terminal_abs t))"
    and "terminal_abs (snd (terminal_step e t)) = snd (tty_step e (terminal_abs t))"
proof (atomize (full), cases e)
  case (Feed b)
  then show "terminal_ok (snd (terminal_step e t)) \<and>
    fst (terminal_step e t) = fst (tty_step e (terminal_abs t)) \<and>
    terminal_abs (snd (terminal_step e t)) = snd (tty_step e (terminal_abs t))"
    using feed_refines [OF assms, of b] by (auto split: prod.splits)
next
  case SourceEof
  then show "terminal_ok (snd (terminal_step e t)) \<and>
    fst (terminal_step e t) = fst (tty_step e (terminal_abs t)) \<and>
    terminal_abs (snd (terminal_step e t)) = snd (tty_step e (terminal_abs t))"
    using source_eof_refines [OF assms] by simp
next
  case (Read n)
  then show "terminal_ok (snd (terminal_step e t)) \<and>
    fst (terminal_step e t) = fst (tty_step e (terminal_abs t)) \<and>
    terminal_abs (snd (terminal_step e t)) = snd (tty_step e (terminal_abs t))"
    using read_refines [OF assms, of n] by (auto split: prod.splits)
next
  case (EchoAck n)
  then show "terminal_ok (snd (terminal_step e t)) \<and>
    fst (terminal_step e t) = fst (tty_step e (terminal_abs t)) \<and>
    terminal_abs (snd (terminal_step e t)) = snd (tty_step e (terminal_abs t))"
    using echo_ack_refines [OF assms, of n] by (auto split: prod.splits)
qed

interpretation engine: simulation terminal_ok terminal_step terminal_abs tty_step
  by unfold_locales (simp_all add: terminal_step_refines)

section \<open>The machine delivers the edited input\<close>

text \<open>
  \<open>cook\<close> edits a sequence of input bytes: it returns the completed records and the unfinished
  line. \<open>accepted\<close> are the bytes of a run that were not deferred, \<open>delivered\<close> the bytes that its
  reads returned.
\<close>

fun cook :: "byte list \<Rightarrow> byte list \<Rightarrow> byte list \<times> byte list" where
  "cook l [] = ([], l)"
| "cook l (b0 # bs) =
     (let b = (if b0 = CR then LF else b0)
      in if b = ERASE then cook (butlast l) bs
         else if b = VEOF then (let (done, l') = cook [] bs in (l @ done, l'))
         else if b = LF then (let (done, l') = cook [] bs in (l @ [LF] @ done, l'))
         else if length l < CB_TERM_BYTES - 1 then cook (l @ [b]) bs
         else cook l bs)"

fun accepted :: "tty_event list \<Rightarrow> tty_output list \<Rightarrow> byte list" where
  "accepted (Feed b # es) (Fed r # outs) = (if r then b # accepted es outs else accepted es outs)"
| "accepted (e # es) (out # outs) = accepted es outs"
| "accepted es outs = []"

fun delivered :: "tty_output list \<Rightarrow> byte list" where
  "delivered [] = []"
| "delivered (ReadDone r bs # outs) = bs @ delivered outs"
| "delivered (out # outs) = delivered outs"

definition tty_queued :: "tty \<Rightarrow> byte list" where
  "tty_queued s = concat (tty_lines s) @ (if tty_held s then tty_line s else [])"

definition tty_draft :: "tty \<Rightarrow> byte list" where
  "tty_draft s = (if tty_held s then [] else tty_line s)"

lemma tty_commit_queued [simp]:
  "tty_queued (tty_commit s) = tty_queued s" "tty_draft (tty_commit s) = tty_draft s"
  "tty_eof (tty_commit s) = tty_eof s"
  by (auto simp: tty_commit_def tty_queued_def tty_draft_def)

lemma tty_run_after_eof:
  "tty_eof s \<Longrightarrow> accepted es (fst (run_events tty_step es s)) = []"
proof (induction es arbitrary: s)
  case (Cons e es)
  have "tty_eof (snd (tty_step e s))" using Cons.prems
    by (cases e) (auto simp: tty_feed_def tty_source_eof_def tty_read_def tty_echo_ack_def
        tty_commit_def split: list.splits prod.splits)
  with Cons show ?case
    by (cases e) (auto simp: tty_feed_def split: prod.splits)
qed simp

text \<open>
  What a run delivers, followed by what it leaves behind, is what was there before followed by the
  edited form of the bytes it accepted.
\<close>

lemma tty_feed_conserves:
  assumes "fst (tty_feed b s)"
  shows "tty_queued (snd (tty_feed b s)) @ fst (cook (tty_draft (snd (tty_feed b s))) bs)
      @ snd (cook (tty_draft (snd (tty_feed b s))) bs)
    = tty_queued s @ fst (cook (tty_draft s) (b # bs)) @ snd (cook (tty_draft s) (b # bs))"
proof -
  have idle: "\<not> tty_held s" "\<not> tty_eof s" "tty_echo s = []"
    using assms by (auto simp: tty_feed_def split: if_splits)
  define c where "c = (if b = CR then LF else b)"
  obtain d l where cook: "cook [] bs = (d, l)" by fastforce
  have draft: "tty_draft s = tty_line s" "tty_queued s = concat (tty_lines s)"
    using idle by (simp_all add: tty_draft_def tty_queued_def)
  consider (erase) "c = ERASE" | (eof) "c = VEOF" | (lf) "c = LF"
    | (byte) "c \<notin> {ERASE, VEOF, LF}" by blast
  then show ?thesis
  proof cases
    case erase
    then show ?thesis using idle unfolding draft
      by (simp add: tty_feed_def c_def [symmetric] Let_def)
        (simp add: tty_draft_def tty_queued_def)
  next
    case eof
    then show ?thesis using idle cook unfolding draft
      by (simp add: tty_feed_def c_def [symmetric] Let_def)
        (simp add: tty_draft_def tty_queued_def)
  next
    case lf
    then show ?thesis using idle cook unfolding draft
      by (simp add: tty_feed_def c_def [symmetric] Let_def)
        (simp add: tty_draft_def tty_queued_def)
  next
    case byte
    then show ?thesis using idle unfolding draft
      by (simp add: tty_feed_def c_def [symmetric] Let_def)
        (simp add: tty_draft_def tty_queued_def)
  qed
qed

lemma tty_source_eof_conserves:
  "tty_queued (tty_source_eof s) @ tty_draft (tty_source_eof s) = tty_queued s @ tty_draft s"
proof (cases "tty_eof s")
  case False
  then show ?thesis by (simp add: tty_source_eof_def) (auto simp: tty_queued_def tty_draft_def)
qed (simp add: tty_source_eof_def)

lemma tty_read_conserves:
  "snd (fst (tty_read n s)) @ tty_queued (snd (tty_read n s)) = tty_queued s"
proof (cases "n = 0 \<or> tty_lines s = []")
  case False
  then obtain l ls where l: "tty_lines s = l # ls" by (cases "tty_lines s") auto
  have "take n l @ concat (if drop n l = [] then ls else drop n l # ls) = l @ concat ls"
    by (simp add: append_assoc [symmetric] del: append_assoc)
  then show ?thesis using False l
    by (simp add: tty_read_def) (simp add: tty_queued_def)
qed (auto simp: tty_read_def)

lemma tty_read_draft: "tty_draft (snd (tty_read n s)) = tty_draft s"
  by (cases "tty_lines s") (simp_all add: tty_read_def, simp add: tty_draft_def)

lemma tty_echo_ack_conserves:
  "tty_queued (snd (tty_echo_ack n s)) = tty_queued s"
  "tty_draft (snd (tty_echo_ack n s)) = tty_draft s"
  by (simp_all add: tty_echo_ack_def tty_queued_def tty_draft_def)

lemma tty_run_conserves:
  "delivered (fst (run_events tty_step es s)) @ tty_queued (snd (run_events tty_step es s))
      @ tty_draft (snd (run_events tty_step es s))
    = tty_queued s @ fst (cook (tty_draft s) (accepted es (fst (run_events tty_step es s))))
      @ snd (cook (tty_draft s) (accepted es (fst (run_events tty_step es s))))"
proof (induction es arbitrary: s)
  case Nil
  then show ?case by simp
next
  case (Cons e es)
  note IH = Cons.IH [of "snd (tty_step e s)"]
  show ?case
  proof (cases e)
    case (Feed b)
    show ?thesis
    proof (cases "fst (tty_feed b s)")
      case True
      then obtain s1 where s1: "tty_feed b s = (True, s1)" by (cases "tty_feed b s") auto
      with Feed IH tty_feed_conserves [OF True, of "accepted es (fst (run_events tty_step es s1))"]
      show ?thesis by (simp del: cook.simps)
    next
      case False
      then have "tty_feed b s = (False, s)" by (auto simp: tty_feed_def Let_def split: if_splits)
      with Feed IH show ?thesis by (simp del: cook.simps)
    qed
  next
    case SourceEof
    have "accepted es (fst (run_events tty_step es (tty_source_eof s))) = []"
      by (rule tty_run_after_eof) (simp add: tty_source_eof_def)
    with SourceEof IH show ?thesis
      using tty_source_eof_conserves [of s] by simp
  next
    case (Read n)
    with IH tty_read_conserves [of n s] tty_read_draft [of n s] show ?thesis
      by (auto split: prod.splits)
  next
    case (EchoAck n)
    with IH tty_echo_ack_conserves [of n s] show ?thesis
      by (auto split: prod.splits)
  qed
qed

section \<open>Properties\<close>

text \<open>
  C38. The terminal engine, started by \<^verbatim>\<open>cb_terminal_init\<close>, answers every sequence of calls (feeding
  bytes, end of source, reads of any capacity, echo acknowledgements) with exactly the results the
  abstract line discipline gives: its fixed rings, offsets and counters are not observable.
\<close>

theorem terminal_refines_tty:
  "fst (run_events terminal_step es cb_terminal_init) = fst (run_events tty_step es tty_init) \<and>
   terminal_abs (snd (run_events terminal_step es cb_terminal_init))
     = snd (run_events tty_step es tty_init)"
  using engine.run_refines [OF terminal_init_ok, of es] by (simp add: terminal_abs_init)

text \<open>
  C39. No byte is lost, duplicated or reordered: after any sequence of calls, the bytes the reads
  returned, followed by the bytes still in the fifo and the bytes of the edit buffer, are the edited
  form of the bytes the engine accepted (erase, carriage return and VEOF applied, overlong input
  discarded).
\<close>

theorem terminal_delivers_edited_input:
  "delivered (fst (run_events terminal_step es cb_terminal_init))
     @ terminal_bytes (snd (run_events terminal_step es cb_terminal_init))
     @ take (edit_used (snd (run_events terminal_step es cb_terminal_init)))
         (edit (snd (run_events terminal_step es cb_terminal_init)))
   = fst (cook [] (accepted es (fst (run_events terminal_step es cb_terminal_init))))
     @ snd (cook [] (accepted es (fst (run_events terminal_step es cb_terminal_init))))"
proof -
  define t where "t = snd (run_events terminal_step es cb_terminal_init)"
  have ok: "terminal_ok t"
    unfolding t_def by (rule engine.invar_run [OF terminal_init_ok])
  then have "concat (chop (terminal_recs t) (terminal_bytes t)) = terminal_bytes t"
    by (simp add: concat_chop terminal_ok_def terminal_shape_def)
  then have "tty_queued (terminal_abs t) @ tty_draft (terminal_abs t)
      = terminal_bytes t @ take (edit_used t) (edit t)"
    by (simp add: tty_queued_def tty_draft_def terminal_abs_def)
  moreover have "tty_queued tty_init = []" "tty_draft tty_init = []"
    by (simp_all add: tty_init_def tty_queued_def tty_draft_def)
  ultimately show ?thesis
    using tty_run_conserves [of es tty_init] engine.run_refines [OF terminal_init_ok, of es]
    by (simp add: terminal_abs_init t_def)
qed

text \<open>
  C40. Readiness is exact: in every state the engine can be in, a read into a non-empty buffer reports
  "not ready" precisely when \<^verbatim>\<open>cb_terminal_ready\<close> is false, and a record that is waiting for room is
  never stranded: while one is pending the engine is ready, so a reader can always make room for it.
\<close>

theorem terminal_ready_exact:
  assumes "t = snd (run_events terminal_step es cb_terminal_init)" and "0 < capacity"
  shows "(fst (cb_terminal_read t True capacity True) = 0) = (\<not> cb_terminal_ready t) \<and>
    (pending t \<longrightarrow> cb_terminal_ready t)"
proof -
  have "terminal_ok t"
    unfolding assms(1) by (rule engine.invar_run [OF terminal_init_ok])
  then have "pending t \<Longrightarrow> record_count t \<noteq> 0"
    by (cases "record_count t = 0")
      (auto simp: terminal_ok_def terminal_shape_def terminal_recs_def)
  then show ?thesis
    using assms(2) by (auto simp: cb_terminal_read_def cb_terminal_ready_def Let_def)
qed

theorem terminal_ready_exact_witness:
  "(fst (cb_terminal_read cb_terminal_init True 80 True) = 0)
     = (\<not> cb_terminal_ready cb_terminal_init)"
  using terminal_ready_exact [of cb_terminal_init "[]" 80] by simp

end
