(* ===== verification/Host.thy ===== *)
theory Host
  imports Prelude
begin

text \<open>
  What the runtime uses of the host (\<^verbatim>\<open>struct cb_host_ops_v1\<close> in \<^verbatim>\<open>src/internal.h\<close>). The host is
  not part of the program, so its answers are parameters: \<open>alloc_ok n\<close> says whether the \<open>n\<close>-th
  request to \<open>allocate\<close> or \<open>resize\<close> succeeds, \<open>wall_clock n\<close> and \<open>monotonic n\<close> are the \<open>n\<close>-th
  readings of the two clocks, \<open>junk n i\<close> is byte \<open>i\<close> of the uninitialised memory that request \<open>n\<close>
  returned. The counters record how many answers have been consumed.

  An object is named by the number of the request that allocated it, so a new object never has
  the name of an old one.
\<close>

record host =
  alloc_ok :: "nat \<Rightarrow> bool"
  alloc_seq :: nat
  junk :: "nat \<Rightarrow> nat \<Rightarrow> byte"
  wall_clock :: "nat \<Rightarrow> nat"
  wall_seq :: nat
  monotonic :: "nat \<Rightarrow> nat"
  monotonic_seq :: nat

text \<open>
  \<^verbatim>\<open>cb_allocate\<close> also clears the object; the model writes the cleared contents where the object is
  built. \<^verbatim>\<open>cb_release\<close> has no effect besides ending the life of its object.
\<close>

definition cb_allocate :: "host \<Rightarrow> addr option \<times> host" where
  "cb_allocate h =
     (if alloc_ok h (alloc_seq h) then Some (alloc_seq h) else None,
      h\<lparr>alloc_seq := alloc_seq h + 1\<rparr>)"

text \<open>\<^verbatim>\<open>cb_resize\<close> keeps the old bytes and leaves the new ones uninitialised.\<close>

definition cb_resize :: "host \<Rightarrow> byte list \<Rightarrow> nat \<Rightarrow> byte list option \<times> host" where
  "cb_resize h old new_size =
     (if alloc_ok h (alloc_seq h)
      then Some (take new_size old @ map (junk h (alloc_seq h)) [length old..<new_size]) else None,
      h\<lparr>alloc_seq := alloc_seq h + 1\<rparr>)"

text \<open>\<^verbatim>\<open>cb_string_duplicate\<close> of a non-null string: the copy, if it can be allocated.\<close>

definition cb_string_duplicate :: "host \<Rightarrow> string \<Rightarrow> string option \<times> host" where
  "cb_string_duplicate h text =
     (case cb_allocate h of (None, h') \<Rightarrow> (None, h') | (Some a, h') \<Rightarrow> (Some text, h'))"

definition wall_clock_millis :: "host \<Rightarrow> nat \<times> host" where
  "wall_clock_millis h = (wall_clock h (wall_seq h), h\<lparr>wall_seq := wall_seq h + 1\<rparr>)"

definition monotonic_millis :: "host \<Rightarrow> nat \<times> host" where
  "monotonic_millis h = (monotonic h (monotonic_seq h), h\<lparr>monotonic_seq := monotonic_seq h + 1\<rparr>)"

lemma cb_allocate_seq [simp]: "alloc_seq (snd (cb_allocate h)) = Suc (alloc_seq h)"
  by (simp add: cb_allocate_def)

lemma cb_allocate_Some:
  "cb_allocate h = (Some a, h') \<Longrightarrow> a = alloc_seq h \<and> alloc_seq h' = Suc (alloc_seq h)"
  by (auto simp: cb_allocate_def split: if_splits)

lemma cb_resize_seq [simp]: "alloc_seq (snd (cb_resize h old n)) = Suc (alloc_seq h)"
  by (simp add: cb_resize_def)

lemma cb_resize_Some:
  assumes "cb_resize h old n = (Some new, h')" "length old \<le> n"
  shows "length new = n \<and> take (length old) new = old"
  using assms by (auto simp: cb_resize_def split: if_splits)

lemma cb_string_duplicate_seq [simp]:
  "alloc_seq (snd (cb_string_duplicate h s)) = Suc (alloc_seq h)"
  by (simp add: cb_string_duplicate_def cb_allocate_def)

lemma cb_string_duplicate_Some:
  "cb_string_duplicate h s = (Some t, h') \<Longrightarrow> t = s"
  by (auto simp: cb_string_duplicate_def split: prod.splits option.splits)

lemma wall_clock_millis_seq [simp]: "alloc_seq (snd (wall_clock_millis h)) = alloc_seq h"
  by (simp add: wall_clock_millis_def)

lemma monotonic_millis_seq [simp]: "alloc_seq (snd (monotonic_millis h)) = alloc_seq h"
  by (simp add: monotonic_millis_def)

end
