(* ===== verification/RamFs.thy ===== *)
theory RamFs
  imports Host
begin

text \<open>
  The RAM file system, \<^verbatim>\<open>src/ramfs.c\<close>: nodes in an explicit store, linked by the same parent,
  first-child and next-sibling pointers as \<^verbatim>\<open>struct cb_ramfs_node\<close>, reference counted, with their
  data in a growable buffer. This theory holds the state and the operations; \<open>RamFs_Tree\<close> and
  \<open>RamFs_Data\<close> hold their properties.

  Loops over sibling pointers take fuel. The fuel is the number of allocations made so far, which
  no chain of distinct nodes can exceed; \<open>RamFs_Tree\<close> proves that it is always enough.
\<close>

unbundle bit_operations_syntax

section \<open>Data\<close>

datatype node_type =
    CB_NODE_REGULAR | CB_NODE_DIRECTORY | CB_NODE_TERMINAL | CB_NODE_PIPE | CB_NODE_EXECUTABLE

record ramfs_node =
  n_mount :: addr
  n_executable :: "nat option"
  n_type :: node_type
  n_inode :: nat
  n_mode :: nat
  n_name :: string
  n_parent :: "addr option"
  n_children :: "addr option"
  n_next_sibling :: "addr option"
  n_data :: "byte list"
  n_size :: nat
  n_capacity :: nat
  n_references :: nat
  n_atime :: nat
  n_mtime :: nat
  n_ctime :: nat

record ramfs_mount =
  m_root :: "addr option"
  m_device :: nat

text \<open>
  The part of \<^verbatim>\<open>struct cb_kernel\<close> that the file system works on. \<open>mount_table\<close> is the used prefix
  of the array \<^verbatim>\<open>mounts\<close>, as pairs of mount point and mount.
\<close>

record vfs_state =
  v_host :: host
  nodes :: "addr \<rightharpoonup> ramfs_node"
  mount_objs :: "addr \<rightharpoonup> ramfs_mount"
  next_inode :: nat
  next_device :: nat
  program_count :: nat
  root_mount :: "addr option"
  mount_table :: "(addr \<times> addr) list"
  vfs_root :: "addr option"

record cb_stat =
  st_inode :: nat
  st_size :: nat
  st_mode :: nat
  st_type :: node_type
  st_device :: nat
  st_nlink :: nat
  st_uid :: nat
  st_gid :: nat
  st_atime_ms :: nat
  st_mtime_ms :: nat
  st_ctime_ms :: nat

text \<open>An open file; \<open>of_ops\<close> is the operation table together with the object it works on.\<close>

datatype file_ops =
    NodeFile addr | PipeReadEnd addr | PipeWriteEnd addr | ConsoleInput | ConsoleOutput int

record open_file =
  of_references :: nat
  of_flags :: int
  of_offset :: int
  of_ops :: file_ops
  of_terminal :: bool

definition CB_O_RDONLY :: int where "CB_O_RDONLY = 0"
definition CB_O_WRONLY :: int where "CB_O_WRONLY = 1"
definition CB_O_RDWR :: int where "CB_O_RDWR = 2"
definition CB_O_ACCMODE :: int where "CB_O_ACCMODE = 3"
definition CB_O_APPEND :: int where "CB_O_APPEND = 8"
definition CB_O_CREAT :: int where "CB_O_CREAT = 512"
definition CB_O_TRUNC :: int where "CB_O_TRUNC = 1024"

lemmas open_flag_defs = CB_O_RDONLY_def CB_O_WRONLY_def CB_O_RDWR_def CB_O_ACCMODE_def
  CB_O_APPEND_def CB_O_CREAT_def CB_O_TRUNC_def

abbreviation access_mode :: "int \<Rightarrow> int" where
  "access_mode flags \<equiv> flags AND CB_O_ACCMODE"

abbreviation has_flag :: "int \<Rightarrow> int \<Rightarrow> bool" where
  "has_flag flags f \<equiv> flags AND f \<noteq> 0"

text \<open>Conversion to \<^verbatim>\<open>cb_off_t\<close>, a 64-bit two's complement integer.\<close>

definition to_off :: "int \<Rightarrow> int" where
  "to_off x = (x + 2 ^ 63) mod 2 ^ 64 - 2 ^ 63"

lemma to_off_id: "INT64_MIN \<le> x \<Longrightarrow> x \<le> INT64_MAX \<Longrightarrow> to_off x = x"
  by (simp add: to_off_def INT64_MIN_def INT64_MAX_def)

text \<open>\<^verbatim>\<open>--references\<close> on an unsigned 32-bit counter.\<close>

definition dec_ref :: "nat \<Rightarrow> nat" where
  "dec_ref n = (if n = 0 then 2 ^ 32 - 1 else n - 1)"

abbreviation upd_node :: "vfs_state \<Rightarrow> addr \<Rightarrow> ramfs_node \<Rightarrow> vfs_state" where
  "upd_node v a n \<equiv> v\<lparr>nodes := (nodes v)(a \<mapsto> n)\<rparr>"

section \<open>Creation, links and release\<close>

definition node_create ::
  "vfs_state \<Rightarrow> addr \<Rightarrow> addr option \<Rightarrow> string \<Rightarrow> node_type \<Rightarrow> nat \<Rightarrow> addr option \<times> vfs_state" where
  "node_create v mount parent name type mode =
     (case cb_allocate (v_host v) of
        (None, h1) \<Rightarrow> (None, v\<lparr>v_host := h1\<rparr>)
      | (Some a, h1) \<Rightarrow>
          (case cb_string_duplicate h1 name of
             (None, h2) \<Rightarrow> (None, v\<lparr>v_host := h2\<rparr>)
           | (Some copy, h2) \<Rightarrow>
               let (now, h3) = wall_clock_millis h2;
                   inode = next_inode v + 1;
                   pnode = (case parent of None \<Rightarrow> None | Some p \<Rightarrow> nodes v p);
                   node = \<lparr>n_mount = mount, n_executable = None, n_type = type, n_inode = inode,
                           n_mode = mode, n_name = copy, n_parent = parent, n_children = None,
                           n_next_sibling = (case pnode of None \<Rightarrow> None | Some n \<Rightarrow> n_children n),
                           n_data = [], n_size = 0, n_capacity = 0, n_references = 1,
                           n_atime = now, n_mtime = now, n_ctime = now\<rparr>;
                   ns = (case (parent, pnode) of
                           (Some p, Some n) \<Rightarrow> (nodes v)(p \<mapsto> n\<lparr>n_children := Some a\<rparr>)
                         | _ \<Rightarrow> nodes v)
               in (Some a, v\<lparr>v_host := h3, next_inode := inode, nodes := ns(a \<mapsto> node)\<rparr>)))"

text \<open>
  \<^verbatim>\<open>ramfs_node_release\<close> and \<^verbatim>\<open>node_destroy\<close> with its loop over the children. Destroying a node
  ends its life (\<open>nodes\<close> no longer holds it); an executable's program is destroyed with it.
\<close>

definition cb_executor_program_destroy :: "vfs_state \<Rightarrow> nat option \<Rightarrow> vfs_state" where
  "cb_executor_program_destroy v program =
     (case program of
        None \<Rightarrow> v
      | Some _ \<Rightarrow> if program_count v > 0 then v\<lparr>program_count := program_count v - 1\<rparr> else v)"

definition orphan_child :: "vfs_state \<Rightarrow> addr \<Rightarrow> vfs_state" where
  "orphan_child v c =
     (case nodes v c of
        None \<Rightarrow> v
      | Some n \<Rightarrow> upd_node v c (n\<lparr>n_parent := None, n_next_sibling := None\<rparr>))"

fun node_release :: "nat \<Rightarrow> vfs_state \<Rightarrow> addr \<Rightarrow> vfs_state"
  and destroy_children :: "nat \<Rightarrow> vfs_state \<Rightarrow> addr option \<Rightarrow> vfs_state" where
  "node_release 0 v a = v"
| "node_release (Suc fuel) v a =
     (case nodes v a of
        None \<Rightarrow> v
      | Some n \<Rightarrow>
          let r = dec_ref (n_references n);
              v1 = upd_node v a (n\<lparr>n_references := r\<rparr>)
          in if r \<noteq> 0 then v1
             else let v2 = destroy_children fuel v1 (n_children n);
                      v3 = cb_executor_program_destroy v2 (n_executable n)
                  in v3\<lparr>nodes := (nodes v3)(a := None)\<rparr>)"
| "destroy_children 0 v p = v"
| "destroy_children (Suc fuel) v p =
     (case p of
        None \<Rightarrow> v
      | Some c \<Rightarrow>
          (case nodes v c of
             None \<Rightarrow> v
           | Some n \<Rightarrow>
               destroy_children fuel (node_release fuel (orphan_child v c) c) (n_next_sibling n)))"

definition node_fuel :: "vfs_state \<Rightarrow> nat" where
  "node_fuel v = 2 * alloc_seq (v_host v) + 2"

definition ramfs_node_release :: "vfs_state \<Rightarrow> addr \<Rightarrow> vfs_state" where
  "ramfs_node_release v a = node_release (node_fuel v) v a"

definition ramfs_node_retain :: "vfs_state \<Rightarrow> addr \<Rightarrow> vfs_state" where
  "ramfs_node_retain v a =
     (case nodes v a of
        None \<Rightarrow> v
      | Some n \<Rightarrow> upd_node v a (n\<lparr>n_references := n_references n + 1\<rparr>))"

text \<open>
  The pointer-to-pointer walk \<^verbatim>\<open>link = &parent->children; while (*link != NULL && *link != node)
  link = &(*link)->next_sibling;\<close>: a link is either the head of a directory's list or the
  \<^verbatim>\<open>next_sibling\<close> field of a node.
\<close>

datatype link = HeadOf addr | NextOf addr

fun read_link :: "(addr \<rightharpoonup> ramfs_node) \<Rightarrow> link \<Rightarrow> addr option" where
  "read_link ns (HeadOf d) = (case ns d of None \<Rightarrow> None | Some n \<Rightarrow> n_children n)"
| "read_link ns (NextOf a) = (case ns a of None \<Rightarrow> None | Some n \<Rightarrow> n_next_sibling n)"

fun write_link :: "(addr \<rightharpoonup> ramfs_node) \<Rightarrow> link \<Rightarrow> addr option \<Rightarrow> (addr \<rightharpoonup> ramfs_node)" where
  "write_link ns (HeadOf d) p =
     (case ns d of None \<Rightarrow> ns | Some n \<Rightarrow> ns(d \<mapsto> n\<lparr>n_children := p\<rparr>))"
| "write_link ns (NextOf a) p =
     (case ns a of None \<Rightarrow> ns | Some n \<Rightarrow> ns(a \<mapsto> n\<lparr>n_next_sibling := p\<rparr>))"

fun find_link :: "nat \<Rightarrow> (addr \<rightharpoonup> ramfs_node) \<Rightarrow> link \<Rightarrow> addr \<Rightarrow> link option" where
  "find_link 0 ns l node = None"
| "find_link (Suc fuel) ns l node =
     (case read_link ns l of
        None \<Rightarrow> None
      | Some a \<Rightarrow> if a = node then Some l else find_link fuel ns (NextOf a) node)"

text \<open>The list a sibling pointer starts.\<close>

fun sib_walk :: "nat \<Rightarrow> (addr \<rightharpoonup> ramfs_node) \<Rightarrow> addr option \<Rightarrow> addr list" where
  "sib_walk 0 ns p = []"
| "sib_walk (Suc fuel) ns p =
     (case p of
        None \<Rightarrow> []
      | Some a \<Rightarrow> (case ns a of
                   None \<Rightarrow> []
                 | Some n \<Rightarrow> a # sib_walk fuel ns (n_next_sibling n)))"

definition walk_fuel :: "vfs_state \<Rightarrow> nat" where
  "walk_fuel v = alloc_seq (v_host v) + 1"

definition children_list :: "vfs_state \<Rightarrow> ramfs_node \<Rightarrow> addr list" where
  "children_list v n = sib_walk (walk_fuel v) (nodes v) (n_children n)"

definition has_name :: "vfs_state \<Rightarrow> string \<Rightarrow> addr \<Rightarrow> bool" where
  "has_name v name c = (case nodes v c of None \<Rightarrow> False | Some m \<Rightarrow> n_name m = name)"

definition find_child :: "vfs_state \<Rightarrow> ramfs_node \<Rightarrow> string \<Rightarrow> addr option" where
  "find_child v directory name = List.find (has_name v name) (children_list v directory)"

section \<open>Node operations\<close>

definition ramfs_lookup :: "vfs_state \<Rightarrow> addr \<Rightarrow> string \<Rightarrow> cb_error + addr" where
  "ramfs_lookup v d name =
     (case nodes v d of
        None \<Rightarrow> Inl Dangling
      | Some directory \<Rightarrow>
          if n_type directory \<noteq> CB_NODE_DIRECTORY then Inl CB_ENOTDIR
          else case find_child v directory name of
                 None \<Rightarrow> Inl CB_ENOENT
               | Some child \<Rightarrow> Inr child)"

definition ramfs_create ::
  "vfs_state \<Rightarrow> addr \<Rightarrow> string \<Rightarrow> node_type \<Rightarrow> nat \<Rightarrow> (cb_error + addr) \<times> vfs_state" where
  "ramfs_create v d name type mode =
     (case nodes v d of
        None \<Rightarrow> (Inl Dangling, v)
      | Some directory \<Rightarrow>
          if n_type directory \<noteq> CB_NODE_DIRECTORY then (Inl CB_ENOTDIR, v)
          else if type \<noteq> CB_NODE_REGULAR \<and> type \<noteq> CB_NODE_DIRECTORY \<and> type \<noteq> CB_NODE_EXECUTABLE
          then (Inl CB_EINVAL, v)
          else if name = [] \<or> slash \<in> set name then (Inl CB_EINVAL, v)
          else if find_child v directory name \<noteq> None then (Inl CB_EEXIST, v)
          else (case node_create v (n_mount directory) (Some d) name type mode of
                  (None, v') \<Rightarrow> (Inl CB_ENOMEM, v')
                | (Some a, v') \<Rightarrow> (Inr a, v')))"

text \<open>Taking a node off its parent's list, shared by unlink and rmdir once their checks passed.\<close>

definition detach_and_release :: "vfs_state \<Rightarrow> addr \<Rightarrow> ramfs_node \<Rightarrow> cb_error option \<times> vfs_state" where
  "detach_and_release v a node =
     (case n_parent node of
        None \<Rightarrow> (Some CB_EPERM, v)
      | Some p \<Rightarrow>
          (case find_link (walk_fuel v) (nodes v) (HeadOf p) a of
             None \<Rightarrow> (Some CB_EIO, v)
           | Some l \<Rightarrow>
               let ns1 = write_link (nodes v) l (n_next_sibling node);
                   ns2 = (case ns1 a of
                            None \<Rightarrow> ns1
                          | Some n \<Rightarrow> ns1(a \<mapsto> n\<lparr>n_parent := None, n_next_sibling := None\<rparr>))
               in (None, ramfs_node_release (v\<lparr>nodes := ns2\<rparr>) a)))"

definition ramfs_unlink :: "vfs_state \<Rightarrow> addr \<Rightarrow> cb_error option \<times> vfs_state" where
  "ramfs_unlink v a =
     (case nodes v a of
        None \<Rightarrow> (Some Dangling, v)
      | Some node \<Rightarrow>
          if n_type node = CB_NODE_DIRECTORY
          then (Some (if n_children node = None then CB_EISDIR else CB_ENOTEMPTY), v)
          else detach_and_release v a node)"

definition ramfs_rmdir :: "vfs_state \<Rightarrow> addr \<Rightarrow> cb_error option \<times> vfs_state" where
  "ramfs_rmdir v a =
     (case nodes v a of
        None \<Rightarrow> (Some Dangling, v)
      | Some node \<Rightarrow>
          if n_type node \<noteq> CB_NODE_DIRECTORY then (Some CB_ENOTDIR, v)
          else if n_children node \<noteq> None then (Some CB_ENOTEMPTY, v)
          else detach_and_release v a node)"

definition ramfs_rename :: "vfs_state \<Rightarrow> addr \<Rightarrow> addr \<Rightarrow> string \<Rightarrow> cb_error option \<times> vfs_state" where
  "ramfs_rename v a new_parent new_name =
     (case nodes v a of
        None \<Rightarrow> (Some Dangling, v)
      | Some node \<Rightarrow>
          (case n_parent node of
             None \<Rightarrow> (Some CB_EPERM, v)
           | Some p \<Rightarrow>
               (case find_link (walk_fuel v) (nodes v) (HeadOf p) a of
                  None \<Rightarrow> (Some CB_EIO, v)
                | Some l \<Rightarrow>
                    let ns1 = write_link (nodes v) l (n_next_sibling node);
                        head = read_link ns1 (HeadOf new_parent);
                        ns2 = write_link ns1 (NextOf a) head;
                        ns3 = write_link ns2 (HeadOf new_parent) (Some a);
                        (now, h) = wall_clock_millis (v_host v);
                        ns4 = (case ns3 a of
                                 None \<Rightarrow> ns3
                               | Some n \<Rightarrow> ns3(a \<mapsto> n\<lparr>n_parent := Some new_parent,
                                                      n_name := new_name, n_ctime := now\<rparr>))
                    in (None, v\<lparr>nodes := ns4, v_host := h\<rparr>))))"

definition ramfs_child_at :: "vfs_state \<Rightarrow> addr \<Rightarrow> nat \<Rightarrow> cb_error + addr option" where
  "ramfs_child_at v d index =
     (case nodes v d of
        None \<Rightarrow> Inl Dangling
      | Some directory \<Rightarrow>
          if n_type directory \<noteq> CB_NODE_DIRECTORY then Inl CB_ENOTDIR
          else let xs = children_list v directory
               in Inr (if index < length xs then Some (xs ! index) else None))"

definition ramfs_next_sibling :: "vfs_state \<Rightarrow> addr \<Rightarrow> cb_error + addr option" where
  "ramfs_next_sibling v a =
     (case nodes v a of None \<Rightarrow> Inl Dangling | Some n \<Rightarrow> Inr (n_next_sibling n))"

definition ramfs_parent :: "vfs_state \<Rightarrow> addr \<Rightarrow> addr option" where
  "ramfs_parent v a = (case nodes v a of None \<Rightarrow> None | Some n \<Rightarrow> n_parent n)"

definition ramfs_name :: "vfs_state \<Rightarrow> addr \<Rightarrow> string option" where
  "ramfs_name v a = (case nodes v a of None \<Rightarrow> None | Some n \<Rightarrow> Some (n_name n))"

definition is_directory :: "vfs_state \<Rightarrow> addr \<Rightarrow> bool" where
  "is_directory v a =
     (case nodes v a of None \<Rightarrow> False | Some n \<Rightarrow> n_type n = CB_NODE_DIRECTORY)"

definition ramfs_link_count :: "vfs_state \<Rightarrow> ramfs_node \<Rightarrow> nat" where
  "ramfs_link_count v n =
     (if n_type n \<noteq> CB_NODE_DIRECTORY then 1
      else 2 + length (filter (is_directory v) (children_list v n)))"

definition ramfs_stat :: "vfs_state \<Rightarrow> addr \<Rightarrow> cb_error + cb_stat" where
  "ramfs_stat v a =
     (case nodes v a of
        None \<Rightarrow> Inl Dangling
      | Some n \<Rightarrow>
          Inr \<lparr>st_inode = n_inode n, st_size = n_size n,
               st_mode = (if n_type n = CB_NODE_EXECUTABLE then 365 else n_mode n),
               st_type = n_type n,
               st_device = (case mount_objs v (n_mount n) of None \<Rightarrow> 0 | Some m \<Rightarrow> m_device m),
               st_nlink = ramfs_link_count v n, st_uid = 0, st_gid = 0,
               st_atime_ms = n_atime n, st_mtime_ms = n_mtime n, st_ctime_ms = n_ctime n\<rparr>)"

section \<open>Mounts\<close>

definition ramfs_mount_root :: "vfs_state \<Rightarrow> addr \<Rightarrow> addr option" where
  "ramfs_mount_root v m = (case mount_objs v m of None \<Rightarrow> None | Some mo \<Rightarrow> m_root mo)"

definition ramfs_mount_destroy :: "vfs_state \<Rightarrow> addr \<Rightarrow> vfs_state" where
  "ramfs_mount_destroy v m =
     (let v1 = (case ramfs_mount_root v m of None \<Rightarrow> v | Some r \<Rightarrow> ramfs_node_release v r)
      in v1\<lparr>mount_objs := (mount_objs v1)(m := None)\<rparr>)"

definition cb_ramfs_mount_create :: "vfs_state \<Rightarrow> addr option \<times> vfs_state" where
  "cb_ramfs_mount_create v =
     (case cb_allocate (v_host v) of
        (None, h) \<Rightarrow> (None, v\<lparr>v_host := h\<rparr>)
      | (Some m, h) \<Rightarrow>
          let device = next_device v + 1;
              v1 = v\<lparr>v_host := h, next_device := device,
                     mount_objs := (mount_objs v)(m \<mapsto> \<lparr>m_root = None, m_device = device\<rparr>)\<rparr>;
              fail = (\<lambda>w. (None, ramfs_mount_destroy w m))
          in case node_create v1 m None [] CB_NODE_DIRECTORY 493 of
               (None, v2) \<Rightarrow> fail v2
             | (Some root, v2) \<Rightarrow>
                 let v3 = v2\<lparr>mount_objs :=
                              (mount_objs v2)(m \<mapsto> \<lparr>m_root = Some root, m_device = device\<rparr>)\<rparr>
                 in case node_create v3 m (Some root) ''bin'' CB_NODE_DIRECTORY 493 of
                      (None, v4) \<Rightarrow> fail v4
                    | (Some bin, v4) \<Rightarrow>
                        (case node_create v4 m (Some root) ''tmp'' CB_NODE_DIRECTORY 511 of
                           (None, v5) \<Rightarrow> fail v5
                         | (Some tmp, v5) \<Rightarrow>
                             (case node_create v5 m (Some root) ''home'' CB_NODE_DIRECTORY 493 of
                                (None, v6) \<Rightarrow> fail v6
                              | (Some home, v6) \<Rightarrow>
                                  (case node_create v6 m (Some home) ''user'' CB_NODE_DIRECTORY 493 of
                                     (None, v7) \<Rightarrow> fail v7
                                   | (Some user, v7) \<Rightarrow> (Some m, v7)))))"

section \<open>File contents\<close>

text \<open>
  The doubling loop of \<^verbatim>\<open>node_write\<close> and \<^verbatim>\<open>ramfs_truncate\<close>. Both start it from a capacity of at
  least 1 (64 for an empty buffer); from 0 the C loop would not end, and the model stops at once.
\<close>

function grow_capacity :: "nat \<Rightarrow> nat \<Rightarrow> nat" where
  "grow_capacity capacity needed =
     (if capacity < needed \<and> 0 < capacity
      then (if capacity > SIZE_MAX div 2 then needed else grow_capacity (capacity * 2) needed)
      else capacity)"
  by pat_completeness auto
termination
  by (relation "measure (\<lambda>(capacity, needed). needed - capacity)") auto

declare grow_capacity.simps [simp del]

definition ramfs_open ::
  "vfs_state \<Rightarrow> addr \<Rightarrow> int \<Rightarrow> (cb_error + addr \<times> open_file) \<times> vfs_state" where
  "ramfs_open v a flags =
     (case nodes v a of
        None \<Rightarrow> (Inl Dangling, v)
      | Some node \<Rightarrow>
          if n_type node = CB_NODE_DIRECTORY then (Inl CB_EISDIR, v)
          else if n_type node = CB_NODE_EXECUTABLE \<and> has_flag flags CB_O_TRUNC then (Inl CB_EINVAL, v)
          else
            let node1 = (if has_flag flags CB_O_TRUNC \<and> access_mode flags \<noteq> CB_O_RDONLY
                         then node\<lparr>n_size := 0\<rparr> else node)
            in case cb_allocate (v_host v) of
                 (None, h) \<Rightarrow> (Inl CB_ENOMEM, (upd_node v a node1)\<lparr>v_host := h\<rparr>)
               | (Some f, h) \<Rightarrow>
                   (Inr (f, \<lparr>of_references = 1, of_flags = flags,
                             of_offset = (if has_flag flags CB_O_APPEND
                                          then to_off (int (n_size node1)) else 0),
                             of_ops = NodeFile a, of_terminal = False\<rparr>),
                    ramfs_node_retain ((upd_node v a node1)\<lparr>v_host := h\<rparr>) a))"

definition grown_capacity :: "ramfs_node \<Rightarrow> nat \<Rightarrow> nat" where
  "grown_capacity node needed =
     grow_capacity (if n_capacity node = 0 then 64 else n_capacity node) needed"

text \<open>
  The growth step: a larger buffer when the capacity is too small. A write also clears the new
  part of the buffer, a truncation leaves it as \<^verbatim>\<open>cb_resize\<close> returned it.
\<close>

definition grow_data :: "bool \<Rightarrow> host \<Rightarrow> ramfs_node \<Rightarrow> nat \<Rightarrow> ramfs_node option \<times> host" where
  "grow_data clear h node needed =
     (if needed > n_capacity node
      then let capacity = grown_capacity node needed
           in case cb_resize h (n_data node) capacity of
                (None, h') \<Rightarrow> (None, h')
              | (Some d, h') \<Rightarrow>
                  (Some (node\<lparr>n_data := (if clear \<and> capacity > n_capacity node
                                       then memcpy_at d (n_capacity node)
                                              (replicate (capacity - n_capacity node) NUL)
                                       else d),
                              n_capacity := capacity\<rparr>), h')
      else (Some node, h))"

text \<open>The memory writes of a truncation and of a write, once the buffer is large enough.\<close>

definition set_length :: "ramfs_node \<Rightarrow> nat \<Rightarrow> nat \<Rightarrow> ramfs_node" where
  "set_length node needed now =
     node\<lparr>n_data := (if needed > n_size node
                     then memcpy_at (n_data node) (n_size node) (replicate (needed - n_size node) NUL)
                     else n_data node),
          n_size := needed, n_mtime := now, n_ctime := now\<rparr>"

definition store_block :: "ramfs_node \<Rightarrow> nat \<Rightarrow> byte list \<Rightarrow> nat \<Rightarrow> ramfs_node" where
  "store_block node start buffer now =
     (let d = (if start > n_size node
               then memcpy_at (n_data node) (n_size node) (replicate (start - n_size node) NUL)
               else n_data node);
          needed = start + length buffer
      in node\<lparr>n_data := memcpy_at d start buffer,
              n_size := (if needed > n_size node then needed else n_size node),
              n_mtime := now, n_ctime := now\<rparr>)"

definition ramfs_truncate :: "vfs_state \<Rightarrow> addr \<Rightarrow> int \<Rightarrow> cb_error option \<times> vfs_state" where
  "ramfs_truncate v a len =
     (if len < 0 \<or> nat len > SIZE_MAX then (Some CB_EINVAL, v)
      else case nodes v a of
        None \<Rightarrow> (Some Dangling, v)
      | Some node \<Rightarrow>
          if n_type node = CB_NODE_EXECUTABLE then (Some CB_EINVAL, v)
          else if n_type node \<noteq> CB_NODE_REGULAR
          then (Some (if n_type node = CB_NODE_DIRECTORY then CB_EISDIR else CB_ESPIPE), v)
          else (case grow_data False (v_host v) node (nat len) of
                  (None, h) \<Rightarrow> (Some CB_ENOMEM, v\<lparr>v_host := h\<rparr>)
                | (Some node1, h) \<Rightarrow>
                    let (now, h') = wall_clock_millis h
                    in (None, (upd_node v a (set_length node1 (nat len) now))\<lparr>v_host := h'\<rparr>)))"

text \<open>
  The operations on an open file take the caller's error cell and return the result, the bytes
  read, the new value of the cell, the file and the state.
\<close>

type_synonym io = "int \<times> byte list \<times> int \<times> open_file \<times> vfs_state"

definition node_read :: "vfs_state \<Rightarrow> addr \<Rightarrow> open_file \<Rightarrow> int \<Rightarrow> nat \<Rightarrow> io" where
  "node_read v a file err count0 =
     (case nodes v a of
        None \<Rightarrow> (-1, [], errno_value Dangling, file, v)
      | Some node \<Rightarrow>
          if access_mode (of_flags file) = CB_O_WRONLY
          then (-1, [], errno_value CB_EBADF, file, v)
          else if of_offset file < 0 \<or> nat (of_offset file) > SIZE_MAX
          then (-1, [], errno_value CB_EINVAL, file, v)
          else if n_type node = CB_NODE_EXECUTABLE then (0, [], err, file, v)
          else if nat (of_offset file) \<ge> n_size node then (0, [], err, file, v)
          else
            let start = nat (of_offset file);
                available = n_size node - start;
                count = (if count0 > available then available else count0);
                (now, h) = wall_clock_millis (v_host v)
            in (int count, take count (drop start (n_data node)), 0,
                file\<lparr>of_offset := to_off (of_offset file + int count)\<rparr>,
                (upd_node v a (node\<lparr>n_atime := now\<rparr>))\<lparr>v_host := h\<rparr>))"

definition node_write :: "vfs_state \<Rightarrow> addr \<Rightarrow> open_file \<Rightarrow> int \<Rightarrow> byte list \<Rightarrow> io" where
  "node_write v a file0 err buffer =
     (case nodes v a of
        None \<Rightarrow> (-1, [], errno_value Dangling, file0, v)
      | Some node \<Rightarrow>
          if access_mode (of_flags file0) = CB_O_RDONLY
          then (-1, [], errno_value CB_EBADF, file0, v)
          else if n_type node = CB_NODE_EXECUTABLE then (-1, [], errno_value CB_EPERM, file0, v)
          else if length buffer = 0 then (0, [], 0, file0, v)
          else
            let file = (if has_flag (of_flags file0) CB_O_APPEND
                        then file0\<lparr>of_offset := to_off (int (n_size node))\<rparr> else file0);
                count = length buffer
            in if of_offset file < 0 \<or> nat (of_offset file) > SIZE_MAX \<or>
                  count > SIZE_MAX - nat (of_offset file)
               then (-1, [], errno_value CB_ENOSPC, file, v)
               else
                 (case grow_data True (v_host v) node (nat (of_offset file) + count) of
                    (None, h) \<Rightarrow> (-1, [], errno_value CB_ENOMEM, file, v\<lparr>v_host := h\<rparr>)
                  | (Some node1, h) \<Rightarrow>
                      let (now, h') = wall_clock_millis h
                      in (int count, [], 0,
                          file\<lparr>of_offset := to_off (of_offset file + int count)\<rparr>,
                          (upd_node v a (store_block node1 (nat (of_offset file)) buffer now))
                            \<lparr>v_host := h'\<rparr>)))"

definition CB_SEEK_SET :: int where "CB_SEEK_SET = 0"
definition CB_SEEK_CUR :: int where "CB_SEEK_CUR = 1"
definition CB_SEEK_END :: int where "CB_SEEK_END = 2"

definition node_lseek ::
  "vfs_state \<Rightarrow> addr \<Rightarrow> open_file \<Rightarrow> int \<Rightarrow> int \<Rightarrow> int \<Rightarrow> int \<times> int \<times> open_file" where
  "node_lseek v a file err off whence =
     (case nodes v a of
        None \<Rightarrow> (-1, errno_value Dangling, file)
      | Some node \<Rightarrow>
          let base = (if whence = CB_SEEK_SET then Some 0
                      else if whence = CB_SEEK_CUR then Some (of_offset file)
                      else if whence = CB_SEEK_END then Some (to_off (int (n_size node)))
                      else None)
          in case base of
               None \<Rightarrow> (-1, errno_value CB_EINVAL, file)
             | Some b \<Rightarrow>
                 if (off > 0 \<and> b > INT64_MAX - off) \<or> (off < 0 \<and> b < INT64_MIN - off)
                 then (-1, errno_value CB_EINVAL, file)
                 else let result = b + off
                      in if result < 0 then (-1, errno_value CB_EINVAL, file)
                         else (result, 0, file\<lparr>of_offset := result\<rparr>))"

definition CB_POLL_READ :: int where "CB_POLL_READ = 1"
definition CB_POLL_WRITE :: int where "CB_POLL_WRITE = 2"
definition CB_POLL_HUP :: int where "CB_POLL_HUP = 4"
definition CB_POLL_ERR :: int where "CB_POLL_ERR = 8"

definition node_poll :: "open_file \<Rightarrow> int \<Rightarrow> int" where
  "node_poll file events =
     (let r0 = 0;
          r1 = (if has_flag events CB_POLL_READ \<and> access_mode (of_flags file) \<noteq> CB_O_WRONLY
                then r0 OR CB_POLL_READ else r0)
      in if has_flag events CB_POLL_WRITE \<and> access_mode (of_flags file) \<noteq> CB_O_RDONLY
         then r1 OR CB_POLL_WRITE else r1)"

end
