(* ===== verification/RamFs_Tree.thy ===== *)
theory RamFs_Tree
  imports RamFs
begin

text \<open>
  The directory tree of \<^verbatim>\<open>src/ramfs.c\<close>. A ghost map \<open>K\<close> gives the children of every directory, in
  list order; \<open>tree_wf\<close> ties the pointers in the store to it. Every operation of the file system is
  a combination of four steps on the store (add a free node, delete one, take a node off its
  directory, put one on a directory), and each step is shown to act on \<open>K\<close> as it should.

  Reference counts are tied to the tree by \<open>fs_inv\<close>: a node's count is the number of references
  held outside the tree, given by \<open>ext\<close>, plus one if a directory lists it.
\<close>

section \<open>Sibling lists\<close>

definition hd_or :: "addr list \<Rightarrow> addr option \<Rightarrow> addr option" where
  "hd_or xs q = (case xs of [] \<Rightarrow> q | x # _ \<Rightarrow> Some x)"

lemma hd_or_simps [simp]: "hd_or [] q = q" "hd_or (x # xs) q = Some x"
  by (simp_all add: hd_or_def)

lemma hd_or_append [simp]: "hd_or (xs @ ys) q = hd_or xs (hd_or ys q)"
  by (cases xs) simp_all

lemma hd_or_Some [simp]: "xs \<noteq> [] \<Longrightarrow> hd_or xs q = Some (hd xs)"
  by (cases xs) simp_all

abbreviation ptr :: "addr list \<Rightarrow> addr option" where
  "ptr xs \<equiv> hd_or xs None"

definition nnext :: "(addr \<rightharpoonup> ramfs_node) \<Rightarrow> addr \<Rightarrow> addr option" where
  "nnext ns a = (case ns a of None \<Rightarrow> None | Some n \<Rightarrow> n_next_sibling n)"

definition nparent :: "(addr \<rightharpoonup> ramfs_node) \<Rightarrow> addr \<Rightarrow> addr option" where
  "nparent ns a = (case ns a of None \<Rightarrow> None | Some n \<Rightarrow> n_parent n)"

definition nname :: "(addr \<rightharpoonup> ramfs_node) \<Rightarrow> addr \<Rightarrow> string" where
  "nname ns a = (case ns a of None \<Rightarrow> [] | Some n \<Rightarrow> n_name n)"

lemmas field_defs = nnext_def nparent_def nname_def

lemma nparent_SomeD: "nparent ns c = Some a \<Longrightarrow> \<exists>n. ns c = Some n \<and> n_parent n = Some a"
  by (auto simp: nparent_def split: option.splits)

text \<open>\<open>seg ns xs q\<close>: the sibling pointers lead through \<open>xs\<close> and on to \<open>q\<close>.\<close>

fun seg :: "(addr \<rightharpoonup> ramfs_node) \<Rightarrow> addr list \<Rightarrow> addr option \<Rightarrow> bool" where
  "seg ns [] q = True"
| "seg ns (x # xs) q = (x \<in> dom ns \<and> nnext ns x = hd_or xs q \<and> seg ns xs q)"

lemma seg_append [simp]: "seg ns (xs @ ys) q = (seg ns xs (hd_or ys q) \<and> seg ns ys q)"
  by (induction xs) auto

lemma seg_cong:
  "\<lbrakk>\<And>x. x \<in> set xs \<Longrightarrow> x \<in> dom ns' \<and> nnext ns' x = nnext ns x; seg ns xs q\<rbrakk> \<Longrightarrow> seg ns' xs q"
  by (induction xs) auto

lemma seg_dom: "seg ns xs q \<Longrightarrow> x \<in> set xs \<Longrightarrow> x \<in> dom ns"
  by (induction xs) auto

lemma seg_relast:
  assumes "seg ns xs q" "xs \<noteq> []" "distinct xs"
    and "\<And>x. x \<in> set xs \<Longrightarrow> x \<in> dom ns'"
    and "\<And>x. x \<in> set xs \<Longrightarrow> x \<noteq> last xs \<Longrightarrow> nnext ns' x = nnext ns x"
    and "nnext ns' (last xs) = q'"
  shows "seg ns' xs q'"
  using assms
proof (induction xs)
  case (Cons x xs)
  show ?case
  proof (cases "xs = []")
    case False
    then have "x \<noteq> last xs" using Cons.prems(3) by (auto simp: last_in_set)
    moreover have "seg ns' xs q'"
      using Cons.prems False by (intro Cons.IH) auto
    moreover have "hd_or xs q' = hd_or xs q" using False by (cases xs) auto
    ultimately show ?thesis using Cons.prems False by auto
  qed (use Cons.prems in auto)
qed simp

lemma sib_walk_seg:
  "seg ns xs None \<Longrightarrow> length xs < fuel \<Longrightarrow> sib_walk fuel ns (ptr xs) = xs"
proof (induction xs arbitrary: fuel)
  case Nil
  then show ?case by (cases fuel) simp_all
next
  case (Cons x xs)
  then obtain n f where "ns x = Some n" "fuel = Suc f" by (cases fuel) auto
  with Cons show ?case by (auto simp: nnext_def)
qed

lemma find_link_from:
  assumes "seg ns (pre @ a # post) None" "a \<notin> set pre" "length pre < fuel"
    and "read_link ns l = ptr (pre @ a # post)"
  shows "find_link fuel ns l a = Some (if pre = [] then l else NextOf (last pre))"
  using assms
proof (induction pre arbitrary: fuel l)
  case Nil
  then show ?case by (cases fuel) simp_all
next
  case (Cons x pre)
  then obtain f where "fuel = Suc f" by (cases fuel) auto
  moreover have "read_link ns (NextOf x) = ptr (pre @ a # post)"
    using Cons.prems by (auto simp: nnext_def split: option.splits)
  ultimately show ?case using Cons by auto
qed

section \<open>The tree invariant\<close>

definition valid_name :: "string \<Rightarrow> bool" where
  "valid_name name = (name \<noteq> [] \<and> slash \<notin> set name)"

definition parent_rel :: "(addr \<rightharpoonup> ramfs_node) \<Rightarrow> (addr \<times> addr) set" where
  "parent_rel ns = {(c, p). nparent ns c = Some p}"

text \<open>
  \<open>D\<close> is the set of nodes that are being destroyed: their \<^verbatim>\<open>children\<close> field is out of date, and \<open>K\<close>
  holds the children still to be released. It is empty except inside \<^verbatim>\<open>node_destroy\<close>.
\<close>

definition tree_wf :: "addr set \<Rightarrow> (addr \<rightharpoonup> ramfs_node) \<Rightarrow> (addr \<Rightarrow> addr list) \<Rightarrow> bool" where
  "tree_wf D ns K \<longleftrightarrow>
     (\<forall>a n. ns a = Some n \<longrightarrow> a \<notin> D \<longrightarrow> n_children n = ptr (K a)) \<and>
     (\<forall>a. seg ns (K a) None) \<and>
     (\<forall>a c. c \<in> set (K a) \<longleftrightarrow> nparent ns c = Some a) \<and>
     (\<forall>c. nparent ns c = None \<longrightarrow> nnext ns c = None) \<and>
     (\<forall>a. K a \<noteq> [] \<longrightarrow> (\<exists>n. ns a = Some n \<and> n_type n = CB_NODE_DIRECTORY)) \<and>
     (\<forall>a. distinct (map (nname ns) (K a))) \<and>
     (\<forall>c n p m. ns c = Some n \<longrightarrow> n_parent n = Some p \<longrightarrow> ns p = Some m \<longrightarrow>
        valid_name (n_name n) \<and> n_mount n = n_mount m) \<and>
     acyclic (parent_rel ns)"

lemma tree_wfI:
  assumes "\<And>a n. ns a = Some n \<Longrightarrow> a \<notin> D \<Longrightarrow> n_children n = ptr (K a)"
    and "\<And>a. seg ns (K a) None"
    and "\<And>a c. c \<in> set (K a) \<longleftrightarrow> nparent ns c = Some a"
    and "\<And>c. nparent ns c = None \<Longrightarrow> nnext ns c = None"
    and "\<And>a. K a \<noteq> [] \<Longrightarrow> \<exists>n. ns a = Some n \<and> n_type n = CB_NODE_DIRECTORY"
    and "\<And>a. distinct (map (nname ns) (K a))"
    and "\<And>c n p m. ns c = Some n \<Longrightarrow> n_parent n = Some p \<Longrightarrow> ns p = Some m \<Longrightarrow>
           valid_name (n_name n) \<and> n_mount n = n_mount m"
    and "acyclic (parent_rel ns)"
  shows "tree_wf D ns K"
  using assms unfolding tree_wf_def by blast

lemma tree_wfD:
  assumes "tree_wf D ns K"
  shows "ns a = Some n \<Longrightarrow> a \<notin> D \<Longrightarrow> n_children n = ptr (K a)"
    and "seg ns (K a) None"
    and "c \<in> set (K a) \<longleftrightarrow> nparent ns c = Some a"
    and "nparent ns c = None \<Longrightarrow> nnext ns c = None"
    and "K a \<noteq> [] \<Longrightarrow> \<exists>n. ns a = Some n \<and> n_type n = CB_NODE_DIRECTORY"
    and "distinct (map (nname ns) (K a))"
    and "ns c = Some nc \<Longrightarrow> n_parent nc = Some p \<Longrightarrow> ns p = Some m \<Longrightarrow>
           valid_name (n_name nc) \<and> n_mount nc = n_mount m"
    and "acyclic (parent_rel ns)"
  using assms unfolding tree_wf_def by blast+

lemmas tree_children = tree_wfD(1)
lemmas tree_seg = tree_wfD(2)
lemmas tree_parent = tree_wfD(3)
lemmas tree_free_next = tree_wfD(4)
lemmas tree_dir = tree_wfD(5)
lemmas tree_names = tree_wfD(6)
lemmas tree_child_ok = tree_wfD(7)
lemmas tree_acyclic = tree_wfD(8)

lemma tree_distinct: "tree_wf D ns K \<Longrightarrow> distinct (K a)"
  by (meson distinct_map tree_names)

lemma tree_parent_dir:
  "\<lbrakk>tree_wf D ns K; nparent ns c = Some p\<rbrakk> \<Longrightarrow> \<exists>m. ns p = Some m \<and> n_type m = CB_NODE_DIRECTORY"
  using tree_parent [of D ns K c p] tree_dir [of D ns K p] by force

lemma tree_kids_dom: "tree_wf D ns K \<Longrightarrow> c \<in> set (K a) \<Longrightarrow> c \<in> dom ns"
  using seg_dom tree_seg by blast

lemma tree_not_own_parent: "tree_wf D ns K \<Longrightarrow> nparent ns a \<noteq> Some a"
  using tree_acyclic [of D ns K] by (auto simp: acyclic_def parent_rel_def)

text \<open>Two stores with the same shape differ only in fields the tree does not depend on.\<close>

definition shape :: "ramfs_node \<Rightarrow> addr \<times> node_type \<times> string \<times> addr option \<times> addr option \<times> addr option" where
  "shape n = (n_mount n, n_type n, n_name n, n_parent n, n_children n, n_next_sibling n)"

lemma tree_wf_same_shape:
  assumes "tree_wf D ns K" and "\<And>a. map_option shape (ns' a) = map_option shape (ns a)"
  shows "tree_wf D ns' K"
proof -
  have eq: "ns' a = None \<longleftrightarrow> ns a = None" for a
    using assms(2) [of a] by (metis option.map_disc_iff)
  have sh: "\<exists>n. ns a = Some n \<and> shape n' = shape n" if "ns' a = Some n'" for a n'
    using assms(2) [of a] that by (cases "ns a") auto
  have f: "nnext ns' = nnext ns" "nparent ns' = nparent ns" "nname ns' = nname ns"
    by (rule ext; use eq sh in \<open>force simp: field_defs shape_def split: option.splits\<close>)+
  have d: "dom ns' = dom ns" using eq by (auto simp: dom_def)
  have s: "seg ns' xs q = seg ns xs q" for xs q
    by (induction xs) (simp_all add: d f)
  show ?thesis
  proof (rule tree_wfI)
    fix a n' assume "ns' a = Some n'" "a \<notin> D"
    then show "n_children n' = ptr (K a)"
      using sh [of a n'] tree_children [OF assms(1)] by (auto simp: shape_def)
  next
    fix a assume "K a \<noteq> []"
    then obtain n where "ns a = Some n" "n_type n = CB_NODE_DIRECTORY"
      using tree_dir [OF assms(1)] by blast
    then show "\<exists>n. ns' a = Some n \<and> n_type n = CB_NODE_DIRECTORY"
      using eq [of a] sh [of a] by (fastforce simp: shape_def)
  next
    fix c n p m assume "ns' c = Some n" "n_parent n = Some p" "ns' p = Some m"
    then obtain nc mp where "ns c = Some nc" "shape n = shape nc" "ns p = Some mp" "shape m = shape mp"
      using sh [of c n] sh [of p m] by blast
    with \<open>n_parent n = Some p\<close> show "valid_name (n_name n) \<and> n_mount n = n_mount m"
      using tree_child_ok [OF assms(1), of c nc p mp] by (simp add: shape_def)
  qed (use assms(1) in \<open>simp_all add: f s parent_rel_def tree_seg tree_parent tree_free_next
        tree_names tree_acyclic [unfolded parent_rel_def]\<close>)
qed

section \<open>The four steps\<close>

text \<open>Taking a node off its directory: the link that \<^verbatim>\<open>find_link\<close> finds is overwritten.\<close>

definition unlink_ns :: "(addr \<rightharpoonup> ramfs_node) \<Rightarrow> link \<Rightarrow> addr \<Rightarrow> ramfs_node \<Rightarrow> (addr \<rightharpoonup> ramfs_node)" where
  "unlink_ns ns l a n =
     (write_link ns l (n_next_sibling n))(a \<mapsto> n\<lparr>n_parent := None, n_next_sibling := None\<rparr>)"

lemma unlink_fields:
  assumes "ns a = Some n" "l \<noteq> HeadOf a" "l \<noteq> NextOf a"
    and "l = HeadOf p \<or> l = NextOf p" "p \<in> dom ns"
  shows "nparent (unlink_ns ns l a n) c = (if c = a then None else nparent ns c)"
    and "nname (unlink_ns ns l a n) c = nname ns c"
    and "nnext (unlink_ns ns l a n) c =
           (if c = a then None else if l = NextOf c then nnext ns a else nnext ns c)"
    and "dom (unlink_ns ns l a n) = dom ns"
    and "unlink_ns ns l a n x = Some m \<Longrightarrow> \<exists>m0. ns x = Some m0 \<and> n_type m = n_type m0 \<and>
           n_name m = n_name m0 \<and> n_mount m = n_mount m0 \<and> (n_parent m = n_parent m0 \<or> n_parent m = None) \<and>
           n_children m = (if l = HeadOf x then nnext ns a else n_children m0)"
  using assms by (auto simp: unlink_ns_def field_defs split: option.splits if_splits)

lemma tree_split:
  assumes "tree_wf D ns K" "nparent ns a = Some p"
  obtains pre post where "K p = pre @ a # post" "a \<notin> set pre" "a \<notin> set post" "distinct (pre @ post)"
    "seg ns pre (Some a)" "nnext ns a = ptr post" "seg ns post None"
proof -
  have "a \<in> set (K p)" using assms tree_parent by blast
  then obtain pre post where sp: "K p = pre @ a # post" "a \<notin> set pre" by (meson split_list_first)
  with tree_distinct [OF assms(1), of p] tree_seg [OF assms(1), of p] show ?thesis
    by (intro that [of pre post]) auto
qed

lemma unlink_found:
  assumes wf: "tree_wf D ns K" and a: "ns a = Some n" "n_parent n = Some p" and "p \<notin> D"
    and fuel: "length (K p) \<le> fuel"
  obtains l where "find_link fuel ns (HeadOf p) a = Some l"
    "tree_wf D (unlink_ns ns l a n) (K(p := remove1 a (K p)))"
    "l = HeadOf p \<or> (\<exists>b. l = NextOf b \<and> b \<in> set (K p))" "l \<noteq> HeadOf a" "l \<noteq> NextOf a"
proof -
  have par: "nparent ns a = Some p" using a by (simp add: nparent_def)
  obtain pre post where sp: "K p = pre @ a # post" "a \<notin> set pre" "a \<notin> set post"
    "distinct (pre @ post)" "seg ns pre (Some a)" "nnext ns a = ptr post" "seg ns post None"
    using tree_split [OF wf par] by blast
  obtain np where np: "ns p = Some np" using tree_parent_dir [OF wf par] by blast
  define l where "l = (if pre = [] then HeadOf p else NextOf (last pre))"
  let ?ns = "unlink_ns ns l a n"
  have ap: "a \<noteq> p" using tree_not_own_parent [OF wf] par by blast
  have la: "l \<noteq> HeadOf a" "l \<noteq> NextOf a" using ap sp by (auto simp: l_def dest: last_in_set)
  have lastpre: "pre \<noteq> [] \<Longrightarrow> last pre \<in> set pre" by simp
  have pre_dom: "set pre \<subseteq> dom ns" using seg_dom [OF sp(5)] by blast
  have last_dom: "pre \<noteq> [] \<Longrightarrow> last pre \<in> dom ns" using lastpre pre_dom by blast
  obtain q where q: "l = HeadOf q \<or> l = NextOf q" "q \<in> dom ns"
    using np last_dom unfolding l_def by (cases "pre = []") auto
  have lN: "l = NextOf c \<longleftrightarrow> pre \<noteq> [] \<and> c = last pre" and lH: "l = HeadOf c \<longleftrightarrow> pre = [] \<and> c = p" for c
    by (auto simp: l_def)
  note F = unlink_fields [of ns a n l q, OF a(1) la q]
  have found: "find_link fuel ns (HeadOf p) a = Some l"
    unfolding l_def
    by (rule find_link_from [of ns pre a post])
      (use sp fuel np tree_children [OF wf np \<open>p \<notin> D\<close>] tree_seg [OF wf, of p] in auto)
  have last_post: "pre \<noteq> [] \<Longrightarrow> last pre \<notin> set post"
    using last_in_set [of pre] sp(4) by (metis IntI distinct_append empty_iff)
  have post_seg: "seg ?ns post None"
    by (rule seg_cong [OF _ sp(7)])
      (use sp last_post in \<open>auto simp: F lN lH dest: seg_dom [OF sp(7)]\<close>)
  have pre_seg: "seg ?ns pre (ptr post)" if "pre \<noteq> []"
    by (rule seg_relast [OF sp(5) that])
      (use sp that pre_dom in \<open>auto simp: F lN lH\<close>)
  have other: "seg ?ns (K b) None" if "b \<noteq> p" for b
  proof (rule seg_cong [OF _ tree_seg [OF wf, of b]])
    fix x assume x: "x \<in> set (K b)"
    then have "x \<notin> set (K p)" using that tree_parent [OF wf] by (metis option.inject)
    then show "x \<in> dom ?ns \<and> nnext ?ns x = nnext ns x"
      using sp lastpre tree_kids_dom [OF wf x] by (auto simp: F lN lH split: if_splits)
  qed
  have rem: "remove1 a (K p) = pre @ post" using sp by (simp add: remove1_append)
  have "tree_wf D ?ns (K(p := pre @ post))"
  proof (rule tree_wfI)
    fix x m assume "?ns x = Some m" "x \<notin> D"
    then show "n_children m = ptr ((K(p := pre @ post)) x)"
      using F(5) [of x m] tree_children [OF wf, of x] sp
      by (cases "pre = []") (auto simp: lN lH split: if_splits)
  next
    show "seg ?ns ((K(p := pre @ post)) x) None" for x
      using other post_seg pre_seg by (cases "pre = []") auto
  next
    show "c \<in> set ((K(p := pre @ post)) x) \<longleftrightarrow> nparent ?ns c = Some x" for x c
      using tree_parent [OF wf, of c x] sp par by (auto simp: F)
  next
    show "nnext ?ns c = None" if "nparent ?ns c = None" for c
      using that tree_free_next [OF wf, of c] tree_parent [OF wf, of c p] sp lastpre
      by (auto simp: F lN lH split: if_splits)
  next
    fix x assume "(K(p := pre @ post)) x \<noteq> []"
    then have "K x \<noteq> []" using sp(1) by (auto split: if_splits)
    then obtain m0 where "ns x = Some m0" "n_type m0 = CB_NODE_DIRECTORY"
      using tree_dir [OF wf] by blast
    moreover obtain m where "?ns x = Some m" using F(4) calculation by auto
    ultimately show "\<exists>n. ?ns x = Some n \<and> n_type n = CB_NODE_DIRECTORY" using F(5) by fastforce
  next
    show "distinct (map (nname ?ns) ((K(p := pre @ post)) x))" for x
    proof -
      have "nname ?ns = nname ns" by (rule ext) (simp add: F)
      then show ?thesis using tree_names [OF wf, of x] sp(1) by (cases "x = p") simp_all
    qed
  next
    fix c m x mx assume c: "?ns c = Some m" "n_parent m = Some x" "?ns x = Some mx"
    then obtain m0 mx0 where "ns c = Some m0" "n_name m = n_name m0" "n_mount m = n_mount m0"
      "n_parent m0 = Some x" "ns x = Some mx0" "n_mount mx = n_mount mx0"
      using F(5) [of c m] F(5) [of x mx] by auto
    then show "valid_name (n_name m) \<and> n_mount m = n_mount mx"
      using tree_child_ok [OF wf, of c m0 x mx0] by simp
  next
    have "parent_rel ?ns \<subseteq> parent_rel ns" by (auto simp: parent_rel_def F split: if_splits)
    then show "acyclic (parent_rel ?ns)" using tree_acyclic [OF wf] acyclic_subset by blast
  qed
  then have "tree_wf D ?ns (K(p := remove1 a (K p)))" by (simp add: rem)
  moreover have "l = HeadOf p \<or> (\<exists>b. l = NextOf b \<and> b \<in> set (K p))"
    using lastpre sp by (auto simp: l_def)
  ultimately show ?thesis using found la that by blast
qed

text \<open>Putting a free node on a directory, at the front.\<close>

definition link_ns ::
  "(addr \<rightharpoonup> ramfs_node) \<Rightarrow> addr \<Rightarrow> ramfs_node \<Rightarrow> addr \<Rightarrow> ramfs_node \<Rightarrow> (addr \<rightharpoonup> ramfs_node)" where
  "link_ns ns a n d nd =
     ns(a \<mapsto> n\<lparr>n_parent := Some d, n_next_sibling := n_children nd\<rparr>,
        d \<mapsto> nd\<lparr>n_children := Some a\<rparr>)"

lemma link_step:
  assumes wf: "tree_wf D ns K" and a: "ns a = Some n" "n_parent n = None"
    and d: "ns d = Some nd" "n_type nd = CB_NODE_DIRECTORY" "d \<notin> D" "a \<noteq> d"
    and name: "valid_name (n_name n)" "n_name n \<notin> nname ns ` set (K d)"
    and mount: "n_mount n = n_mount nd" and acyc: "(d, a) \<notin> (parent_rel ns)\<^sup>*"
  shows "tree_wf D (link_ns ns a n d nd) (K(d := a # K d))"
proof -
  let ?ns = "link_ns ns a n d nd"
  have par: "nparent ?ns c = (if c = a then Some d else nparent ns c)" for c
    using a d by (auto simp: link_ns_def nparent_def)
  have nam: "nname ?ns = nname ns"
    using a d by (auto simp: link_ns_def nname_def fun_eq_iff)
  have nxt: "nnext ?ns c = (if c = a then ptr (K d) else nnext ns c)" for c
    using a d tree_children [OF wf, of d nd] by (auto simp: link_ns_def nnext_def)
  have dm: "dom ?ns = dom ns" using a d by (auto simp: link_ns_def)
  have fresh: "a \<notin> set (K b)" for b
    using tree_parent [OF wf, of a b] a by (auto simp: nparent_def)
  have sg: "seg ?ns (K b) None" for b
    by (rule seg_cong [OF _ tree_seg [OF wf]])
      (use fresh in \<open>auto simp: dm nxt dest: tree_kids_dom [OF wf]\<close>)
  have par_a: "nparent ns a = None" using a by (simp add: nparent_def)
  show ?thesis
  proof (rule tree_wfI)
    fix x m assume "?ns x = Some m" "x \<notin> D"
    then show "n_children m = ptr ((K(d := a # K d)) x)"
      using tree_children [OF wf, of x] a d by (auto simp: link_ns_def split: if_splits)
  next
    show "seg ?ns ((K(d := a # K d)) x) None" for x
      using sg a by (auto simp: dm nxt)
  next
    show "c \<in> set ((K(d := a # K d)) x) \<longleftrightarrow> nparent ?ns c = Some x" for x c
      using tree_parent [OF wf, of c x] fresh par_a by (auto simp: par)
  next
    show "nnext ?ns c = None" if "nparent ?ns c = None" for c
      using that tree_free_next [OF wf, of c] by (auto simp: par nxt split: if_splits)
  next
    fix x assume "(K(d := a # K d)) x \<noteq> []"
    then obtain m where "ns x = Some m" "n_type m = CB_NODE_DIRECTORY"
      using tree_dir [OF wf, of x] d by (auto split: if_splits)
    then show "\<exists>n. ?ns x = Some n \<and> n_type n = CB_NODE_DIRECTORY"
      using a d by (auto simp: link_ns_def)
  next
    show "distinct (map (nname ?ns) ((K(d := a # K d)) x))" for x
      using tree_names [OF wf, of x] name a by (auto simp: nam) (auto simp: nname_def)
  next
    fix c m x mx assume c: "?ns c = Some m" "n_parent m = Some x" "?ns x = Some mx"
    obtain mx0 where mx0: "ns x = Some mx0" "n_mount mx = n_mount mx0"
      using c(3) a d by (auto simp: link_ns_def split: if_splits)
    show "valid_name (n_name m) \<and> n_mount m = n_mount mx"
    proof (cases "c = a")
      case True
      then show ?thesis using c mx0 a d name mount by (auto simp: link_ns_def split: if_splits)
    next
      case False
      then obtain m0 where "ns c = Some m0" "n_parent m0 = Some x" "n_name m = n_name m0" "n_mount m = n_mount m0"
        using c a d by (auto simp: link_ns_def split: if_splits)
      then show ?thesis using tree_child_ok [OF wf, of c m0 x mx0] mx0 by simp
    qed
  next
    have "parent_rel ?ns = insert (a, d) (parent_rel ns)"
      using par_a by (auto simp: parent_rel_def par split: if_splits)
    then show "acyclic (parent_rel ?ns)"
      using tree_acyclic [OF wf] acyc by (simp add: acyclic_insert)
  qed
qed

text \<open>A node outside the tree: a new one without links, or the removal of one without children.\<close>

lemma add_step:
  assumes wf: "tree_wf D ns K" and a: "ns a = None"
    and n: "n_parent n = None" "n_children n = None" "n_next_sibling n = None"
  shows "tree_wf D (ns(a \<mapsto> n)) K"
proof -
  have Ka: "K a = []" using tree_dir [OF wf, of a] a by auto
  have f: "nparent (ns(a \<mapsto> n)) = nparent ns" "nnext (ns(a \<mapsto> n)) = nnext ns"
    using a n by (auto simp: field_defs fun_eq_iff)
  have notin: "a \<notin> set (K b)" for b using tree_kids_dom [OF wf, of a b] a by auto
  have nm: "map (nname (ns(a \<mapsto> n))) (K b) = map (nname ns) (K b)" for b
    using notin [of b] by (auto simp: nname_def intro!: map_cong)
  show ?thesis
  proof (rule tree_wfI)
    show "seg (ns(a \<mapsto> n)) (K b) None" for b
      by (rule seg_cong [OF _ tree_seg [OF wf]]) (auto simp: f dest: tree_kids_dom [OF wf])
  next
    fix c m p mp assume "(ns(a \<mapsto> n)) c = Some m" "n_parent m = Some p" "(ns(a \<mapsto> n)) p = Some mp"
    moreover have "p \<noteq> a" if "ns c = Some m" "n_parent m = Some p"
      using tree_parent_dir [OF wf, of c p] that a by (auto simp: nparent_def)
    ultimately show "valid_name (n_name m) \<and> n_mount m = n_mount mp"
      using tree_child_ok [OF wf, of c m p mp] n by (auto split: if_splits)
  qed (use wf a n Ka in \<open>auto simp: f nm parent_rel_def tree_children tree_parent tree_free_next
        tree_names tree_acyclic [unfolded parent_rel_def] dest: tree_dir split: if_splits\<close>)
qed

lemma delete_step:
  assumes wf: "tree_wf D ns K" and a: "nparent ns a = None" "K a = []"
  shows "tree_wf (D - {a}) (ns(a := None)) K"
proof -
  let ?ns = "ns(a := None)"
  have f: "nparent ?ns = nparent ns" "nnext ?ns = nnext ns"
    using a tree_free_next [OF wf a(1)] by (auto simp: nparent_def nnext_def fun_eq_iff)
  have notin: "a \<notin> set (K b)" for b using tree_parent [OF wf, of a b] a by auto
  have nm: "map (nname ?ns) (K b) = map (nname ns) (K b)" for b
    using notin [of b] by (auto simp: nname_def intro!: map_cong)
  show ?thesis
  proof (rule tree_wfI)
    show "seg ?ns (K b) None" for b
      by (rule seg_cong [OF _ tree_seg [OF wf]])
        (use notin in \<open>auto simp: f dest: tree_kids_dom [OF wf]\<close>)
  next
    fix c m p mp assume "?ns c = Some m" "n_parent m = Some p" "?ns p = Some mp"
    then show "valid_name (n_name m) \<and> n_mount m = n_mount mp"
      using tree_child_ok [OF wf, of c m p mp] by (auto split: if_splits)
  next
    fix x assume "K x \<noteq> []"
    with a tree_dir [OF wf, of x] show "\<exists>n. ?ns x = Some n \<and> n_type n = CB_NODE_DIRECTORY" by auto
  qed (use wf a in \<open>auto simp: f nm parent_rel_def tree_children tree_parent tree_free_next
        tree_names tree_acyclic [unfolded parent_rel_def] split: if_splits\<close>)
qed

text \<open>The first step of the loop in \<^verbatim>\<open>node_destroy\<close>: the next child of a dying directory loses it.\<close>

lemma orphan_step:
  assumes wf: "tree_wf D ns K" and a: "a \<in> D" "K a = c # cs" and c: "ns c = Some n"
  shows "tree_wf D (ns(c \<mapsto> n\<lparr>n_parent := None, n_next_sibling := None\<rparr>)) (K(a := cs))"
    and "n_next_sibling n = ptr cs" "n_parent n = Some a"
proof -
  let ?ns = "ns(c \<mapsto> n\<lparr>n_parent := None, n_next_sibling := None\<rparr>)"
  have "distinct (K a)" using tree_distinct [OF wf] .
  then have cs: "c \<notin> set cs" using a by simp
  have cpar: "nparent ns c = Some a" using tree_parent [OF wf, of c a] a by simp
  show "n_next_sibling n = ptr cs" using tree_seg [OF wf, of a] a c by (auto simp: nnext_def)
  show "n_parent n = Some a" using cpar c by (simp add: nparent_def)
  have f: "nparent ?ns x = (if x = c then None else nparent ns x)"
    "nnext ?ns x = (if x = c then None else nnext ns x)" for x
    by (simp_all add: field_defs)
  have nm: "nname ?ns = nname ns" using c by (simp add: nname_def fun_eq_iff)
  have only: "c \<notin> set (K b)" if "b \<noteq> a" for b using tree_parent [OF wf, of c b] cpar that by simp
  show "tree_wf D ?ns (K(a := cs))"
  proof (rule tree_wfI)
    fix x m assume "?ns x = Some m" "x \<notin> D"
    then show "n_children m = ptr ((K(a := cs)) x)"
      using tree_children [OF wf, of x] a c by (auto split: if_splits)
  next
    show "seg ?ns ((K(a := cs)) x) None" for x
    proof (rule seg_cong [of _ _ ns])
      show "seg ns ((K(a := cs)) x) None"
        using tree_seg [OF wf, of x] a by (cases "x = a") simp_all
      show "y \<in> dom ?ns \<and> nnext ?ns y = nnext ns y" if "y \<in> set ((K(a := cs)) x)" for y
        using that cs only a(2) tree_kids_dom [OF wf, of y x] by (auto simp: f split: if_splits)
    qed
  next
    show "y \<in> set ((K(a := cs)) x) \<longleftrightarrow> nparent ?ns y = Some x" for x y
      using tree_parent [OF wf, of y x] cpar a(2) cs by (auto simp: f)
  next
    show "nnext ?ns y = None" if "nparent ?ns y = None" for y
      using that tree_free_next [OF wf, of y] by (auto simp: f split: if_splits)
  next
    fix x assume "(K(a := cs)) x \<noteq> []"
    then have "K x \<noteq> []" using a(2) by (auto split: if_splits)
    then show "\<exists>m. ?ns x = Some m \<and> n_type m = CB_NODE_DIRECTORY" using tree_dir [OF wf, of x] c by auto
  next
    show "distinct (map (nname ?ns) ((K(a := cs)) x))" for x
      using tree_names [OF wf, of x] a(2) nm by (cases "x = a") simp_all
  next
    fix y m p mp assume y: "?ns y = Some m" "n_parent m = Some p" "?ns p = Some mp"
    then have "ns y = Some m" by (cases "y = c") auto
    moreover obtain mp0 where "ns p = Some mp0" "n_mount mp0 = n_mount mp"
      using y(3) c by (cases "p = c") auto
    ultimately show "valid_name (n_name m) \<and> n_mount m = n_mount mp"
      using tree_child_ok [OF wf, of y m p mp0] y(2) by simp
  next
    have "parent_rel ?ns \<subseteq> parent_rel ns" by (auto simp: parent_rel_def f split: if_splits)
    then show "acyclic (parent_rel ?ns)" using tree_acyclic [OF wf] acyclic_subset by blast
  qed
qed

section \<open>Reference counts and release\<close>

definition refs_wf :: "addr set \<Rightarrow> (addr \<rightharpoonup> ramfs_node) \<Rightarrow> (addr \<Rightarrow> nat) \<Rightarrow> bool" where
  "refs_wf D ns ext \<longleftrightarrow>
     (\<forall>a n. ns a = Some n \<longrightarrow>
        n_references n = ext a + (if n_parent n = None then 0 else 1) \<and>
        (a \<in> D \<longleftrightarrow> n_references n = 0)) \<and>
     (\<forall>a. ext a \<noteq> 0 \<longrightarrow> a \<in> dom ns) \<and> D \<subseteq> dom ns"

lemma refs_wfI:
  assumes "\<And>a n. ns a = Some n \<Longrightarrow> n_references n = ext a + (if n_parent n = None then 0 else 1)"
    and "\<And>a n. ns a = Some n \<Longrightarrow> a \<in> D \<longleftrightarrow> n_references n = 0"
    and "\<And>a. ext a \<noteq> 0 \<Longrightarrow> a \<in> dom ns" and "D \<subseteq> dom ns"
  shows "refs_wf D ns ext"
  using assms unfolding refs_wf_def by blast

lemma refs_wfD:
  assumes "refs_wf D ns ext"
  shows "ns a = Some n \<Longrightarrow> n_references n = ext a + (if n_parent n = None then 0 else 1)"
    and "ns a = Some n \<Longrightarrow> a \<in> D \<longleftrightarrow> n_references n = 0"
    and "ext a \<noteq> 0 \<Longrightarrow> a \<in> dom ns"
    and "D \<subseteq> dom ns"
  using assms unfolding refs_wf_def by blast+

lemma refs_wf_upd:
  assumes refs: "refs_wf {} ns ext" and n': "n_references n' = e + (if n_parent n' = None then 0 else 1)"
    "n_references n' > 0"
  shows "refs_wf {} (ns(a \<mapsto> n')) (ext(a := e))"
proof (rule refs_wfI)
  fix b m assume b: "(ns(a \<mapsto> n')) b = Some m"
  then show "n_references m = (ext(a := e)) b + (if n_parent m = None then 0 else 1)"
    "b \<in> {} \<longleftrightarrow> n_references m = 0"
    using n' refs_wfD(1,2) [OF refs, of b m] by (cases "b = a"; simp)+
next
  show "b \<in> dom (ns(a \<mapsto> n'))" if "(ext(a := e)) b \<noteq> 0" for b
    using that refs_wfD(3) [OF refs, of b] by (cases "b = a") auto
qed simp

text \<open>What a node keeps while others are released: everything but its links and its count.\<close>

definition core :: "ramfs_node \<Rightarrow> ramfs_node" where
  "core n = n\<lparr>n_references := 0, n_parent := None, n_next_sibling := None\<rparr>"

definition survives :: "(addr \<rightharpoonup> ramfs_node) \<Rightarrow> (addr \<rightharpoonup> ramfs_node) \<Rightarrow> bool" where
  "survives ns ns' \<longleftrightarrow> (\<forall>x n'. ns' x = Some n' \<longrightarrow> (\<exists>n. ns x = Some n \<and> core n' = core n))"

lemma survives_refl [simp]: "survives ns ns"
  by (simp add: survives_def)

lemma survives_trans [trans]: "survives ns1 ns2 \<Longrightarrow> survives ns2 ns3 \<Longrightarrow> survives ns1 ns3"
  unfolding survives_def by metis

lemma survives_upd:
  "ns a = Some n \<Longrightarrow> core n' = core n \<Longrightarrow> survives ns (ns(a \<mapsto> n'))"
  by (auto simp: survives_def)

lemma survives_del: "survives ns (ns(a := None))"
  by (auto simp: survives_def split: if_splits)

definition linkedset :: "(addr \<rightharpoonup> ramfs_node) \<Rightarrow> addr set" where
  "linkedset ns = {c. nparent ns c \<noteq> None}"

lemma linkedset_dom: "linkedset ns \<subseteq> dom ns"
  by (auto simp: linkedset_def nparent_def split: option.splits)

definition releases ::
  "addr set \<Rightarrow> vfs_state \<Rightarrow> (addr \<Rightarrow> addr list) \<Rightarrow> (addr \<Rightarrow> nat) \<Rightarrow> vfs_state \<Rightarrow> (addr \<Rightarrow> addr list) \<Rightarrow> bool" where
  "releases D v K ext v' K' \<longleftrightarrow>
     (\<exists>ns' pc. v' = v\<lparr>nodes := ns', program_count := pc\<rparr> \<and>
        tree_wf D ns' K' \<and> refs_wf D ns' ext \<and> survives (nodes v) ns' \<and>
        linkedset ns' \<subseteq> linkedset (nodes v))"

lemma releasesD:
  assumes "releases D v K ext v' K'"
  shows "tree_wf D (nodes v') K'" "refs_wf D (nodes v') ext" "survives (nodes v) (nodes v')"
    and "linkedset (nodes v') \<subseteq> linkedset (nodes v)"
    and "v' = v\<lparr>nodes := nodes v', program_count := program_count v'\<rparr>"
  using assms unfolding releases_def by auto

lemma releases_refl:
  "tree_wf D (nodes v) K \<Longrightarrow> refs_wf D (nodes v) ext \<Longrightarrow> releases D v K ext v K"
  unfolding releases_def by (intro exI [of _ "nodes v"] exI [of _ "program_count v"]) simp

lemma releases_trans:
  assumes "releases D v K e v1 K1" "releases D' v1 K1 e' v2 K2" shows "releases D' v K e' v2 K2"
proof -
  obtain ns1 pc1 where v1: "v1 = v\<lparr>nodes := ns1, program_count := pc1\<rparr>"
    "survives (nodes v) ns1" "linkedset ns1 \<subseteq> linkedset (nodes v)"
    using assms(1) unfolding releases_def by blast
  obtain ns2 pc2 where v2: "v2 = v1\<lparr>nodes := ns2, program_count := pc2\<rparr>" "tree_wf D' ns2 K2"
    "refs_wf D' ns2 e'" "survives (nodes v1) ns2" "linkedset ns2 \<subseteq> linkedset (nodes v1)"
    using assms(2) unfolding releases_def by blast
  have "v2 = v\<lparr>nodes := ns2, program_count := pc2\<rparr>" using v1(1) v2(1) by simp
  moreover have "survives (nodes v) ns2" using v1 v2 survives_trans by auto
  moreover have "linkedset ns2 \<subseteq> linkedset (nodes v)" using v1 v2 by auto
  ultimately show ?thesis using v2 unfolding releases_def by blast
qed

lemma program_destroy_nodes:
  "\<exists>pc. cb_executor_program_destroy v x = v\<lparr>program_count := pc\<rparr>"
proof -
  have "\<exists>pc. v = v\<lparr>program_count := pc\<rparr>" by (rule exI [of _ "program_count v"]) simp
  then show ?thesis
    unfolding cb_executor_program_destroy_def by (auto split: option.splits)
qed

lemma release_upd:
  assumes wf: "tree_wf D (nodes v) K" and refs: "refs_wf D (nodes v) ext"
    and c: "nodes v c = Some n" "ext c > 0"
  shows "releases (if n_references n = 1 then insert c D else D) v K (ext(c := ext c - 1))
           (upd_node v c (n\<lparr>n_references := dec_ref (n_references n)\<rparr>)) K"
    and "dec_ref (n_references n) = n_references n - 1" "n_references n = 1 \<Longrightarrow> n_parent n = None"
    and "c \<notin> D"
proof -
  let ?n = "n\<lparr>n_references := n_references n - 1\<rparr>"
  let ?D = "if n_references n = 1 then insert c D else D"
  have pos: "n_references n > 0" and rc: "n_references n = ext c + (if n_parent n = None then 0 else 1)"
    using refs_wfD(1) [OF refs c(1)] c(2) by auto
  then show d: "dec_ref (n_references n) = n_references n - 1" by (simp add: dec_ref_def)
  show "n_references n = 1 \<Longrightarrow> n_parent n = None" using rc c(2) by (auto split: if_splits)
  show cD: "c \<notin> D" using refs_wfD(2) [OF refs c(1)] pos by simp
  have t: "tree_wf D ((nodes v)(c \<mapsto> ?n)) K"
    by (rule tree_wf_same_shape [OF wf]) (simp add: c shape_def)
  have "tree_wf ?D ((nodes v)(c \<mapsto> ?n)) K"
    using t unfolding tree_wf_def by auto
  moreover have "refs_wf ?D ((nodes v)(c \<mapsto> ?n)) (ext(c := ext c - 1))"
    using refs pos rc cD c(2) unfolding refs_wf_def by auto
  moreover have "survives (nodes v) ((nodes v)(c \<mapsto> ?n))"
    using c by (intro survives_upd) (simp_all add: core_def)
  moreover have "linkedset ((nodes v)(c \<mapsto> ?n)) = linkedset (nodes v)"
    using c by (auto simp: linkedset_def nparent_def split: if_splits)
  moreover have "upd_node v c ?n = v\<lparr>nodes := (nodes v)(c \<mapsto> ?n), program_count := program_count v\<rparr>"
    by simp
  ultimately show "releases ?D v K (ext(c := ext c - 1))
      (upd_node v c (n\<lparr>n_references := dec_ref (n_references n)\<rparr>)) K"
    unfolding d releases_def by blast
qed

definition release_ok :: "nat \<Rightarrow> bool" where
  "release_ok fuel \<longleftrightarrow>
     (\<forall>v K ext D c. tree_wf D (nodes v) K \<longrightarrow> refs_wf D (nodes v) ext \<longrightarrow> ext c > 0 \<longrightarrow>
        finite (dom (nodes v)) \<longrightarrow> 2 * card (linkedset (nodes v)) < fuel \<longrightarrow>
        (\<exists>K'. releases D v K (ext(c := ext c - 1)) (node_release fuel v c) K' \<and>
           (\<forall>x\<in>dom (nodes (node_release fuel v c)). K' x = K x)))"

definition destroy_ok :: "nat \<Rightarrow> bool" where
  "destroy_ok fuel \<longleftrightarrow>
     (\<forall>v K ext D a. tree_wf D (nodes v) K \<longrightarrow> refs_wf D (nodes v) ext \<longrightarrow> a \<in> D \<longrightarrow>
        finite (dom (nodes v)) \<longrightarrow> 2 * card (linkedset (nodes v)) \<le> fuel \<longrightarrow>
        (\<exists>K'. releases D v K ext (destroy_children fuel v (ptr (K a))) K' \<and> K' a = [] \<and>
           (\<forall>x\<in>dom (nodes (destroy_children fuel v (ptr (K a)))) - {a}. K' x = K x)))"

lemma linkedset_finite: "finite (dom ns) \<Longrightarrow> finite (linkedset ns)"
  using linkedset_dom finite_subset by blast

lemma no_links_no_kids: "tree_wf D ns K \<Longrightarrow> linkedset ns = {} \<Longrightarrow> K a = []"
  using tree_parent [of D ns K "hd (K a)" a] by (cases "K a") (auto simp: linkedset_def)

lemma destroy_ok_0: "destroy_ok 0"
  unfolding destroy_ok_def
proof (intro allI impI)
  fix v :: vfs_state and K ext D a
  assume wf: "tree_wf D (nodes v) K" "refs_wf D (nodes v) ext"
    and "finite (dom (nodes v))" "2 * card (linkedset (nodes v)) \<le> 0"
  then have "K a = []" using no_links_no_kids linkedset_finite by fastforce
  with releases_refl [OF wf]
  show "\<exists>K'. releases D v K ext (destroy_children 0 v (ptr (K a))) K' \<and> K' a = [] \<and>
      (\<forall>x\<in>dom (nodes (destroy_children 0 v (ptr (K a)))) - {a}. K' x = K x)" by auto
qed

lemma release_finish:
  assumes rel: "releases (insert c D) v K ext v2 K'" and c: "K' c = []" "c \<notin> D"
  shows "releases D v K ext (v2\<lparr>program_count := pc, nodes := (nodes v2)(c := None)\<rparr>) K'"
proof -
  note r = releasesD [OF rel]
  obtain n2 where n2: "nodes v2 c = Some n2" using refs_wfD(4) [OF r(2)] by auto
  have c2: "n_parent n2 = None" "ext c = 0"
    using refs_wfD(1,2) [OF r(2) n2] by (auto split: if_splits)
  have "tree_wf D ((nodes v2)(c := None)) K'"
    using delete_step [OF r(1) _ c(1)] n2 c2 c(2) by (simp add: nparent_def)
  moreover have "refs_wf D ((nodes v2)(c := None)) ext"
  proof (rule refs_wfI)
    fix a n assume "((nodes v2)(c := None)) a = Some n"
    then have "a \<noteq> c" "nodes v2 a = Some n" by (auto split: if_splits)
    then show "n_references n = ext a + (if n_parent n = None then 0 else 1)"
      "a \<in> D \<longleftrightarrow> n_references n = 0"
      using refs_wfD(1,2) [OF r(2), of a n] by auto
  qed (use refs_wfD(3,4) [OF r(2)] c2(2) c(2) in auto)
  moreover have "survives (nodes v) ((nodes v2)(c := None))"
    using r(3) survives_del survives_trans by blast
  moreover have "linkedset ((nodes v2)(c := None)) \<subseteq> linkedset (nodes v)"
    using r(4) by (auto simp: linkedset_def nparent_def split: if_splits)
  moreover have "v2\<lparr>program_count := pc, nodes := (nodes v2)(c := None)\<rparr> =
      v\<lparr>nodes := (nodes v2)(c := None), program_count := pc\<rparr>"
    by (subst r(5)) simp
  ultimately show ?thesis unfolding releases_def by blast
qed

lemma release_ok_Suc:
  assumes "destroy_ok fuel"
  shows "release_ok (Suc fuel)"
  unfolding release_ok_def
proof (intro allI impI)
  fix v :: vfs_state and K ext D c
  assume wf: "tree_wf D (nodes v) K" and refs: "refs_wf D (nodes v) ext" and c: "ext c > 0"
    and fin: "finite (dom (nodes v))" and fl: "2 * card (linkedset (nodes v)) < Suc fuel"
  obtain n where n: "nodes v c = Some n" using refs_wfD(3) [OF refs, of c] c by auto
  note up = release_upd [OF wf refs n c]
  let ?v1 = "upd_node v c (n\<lparr>n_references := dec_ref (n_references n)\<rparr>)"
  let ?e = "ext(c := ext c - 1)"
  show "\<exists>K'. releases D v K ?e (node_release (Suc fuel) v c) K' \<and>
      (\<forall>x\<in>dom (nodes (node_release (Suc fuel) v c)). K' x = K x)"
  proof (cases "n_references n = 1")
    case False
    then have "node_release (Suc fuel) v c = ?v1"
      using n up(2) refs_wfD(1) [OF refs n] c by (simp add: Let_def)
    then show ?thesis using up(1) False by auto
  next
    case True
    let ?D = "insert c D"
    let ?v2 = "destroy_children fuel ?v1 (ptr (K c))"
    have rel1: "releases ?D v K ?e ?v1 K" using up(1) True by simp
    have "card (linkedset (nodes ?v1)) \<le> card (linkedset (nodes v))"
      using releasesD(4) [OF rel1] linkedset_finite [OF fin] card_mono by blast
    then have fl1: "2 * card (linkedset (nodes ?v1)) \<le> fuel" using fl by linarith
    have "\<exists>K'. releases ?D ?v1 K ?e ?v2 K' \<and> K' c = [] \<and> (\<forall>x\<in>dom (nodes ?v2) - {c}. K' x = K x)"
      using assms [unfolded destroy_ok_def, rule_format, of ?D ?v1 K ?e c]
        releasesD(1,2) [OF rel1] fin fl1 by simp
    then obtain K' where K': "releases ?D ?v1 K ?e ?v2 K'" "K' c = []" "\<forall>x\<in>dom (nodes ?v2) - {c}. K' x = K x"
      by blast
    obtain pc where "cb_executor_program_destroy ?v2 (n_executable n) = ?v2\<lparr>program_count := pc\<rparr>"
      using program_destroy_nodes by blast
    then have "node_release (Suc fuel) v c = ?v2\<lparr>program_count := pc, nodes := (nodes ?v2)(c := None)\<rparr>"
      using n up(2) True tree_children [OF wf n up(4)] by (simp add: Let_def)
    then show ?thesis
      using release_finish [OF releases_trans [OF rel1 K'(1)] K'(2) up(4)] K'(3) up(4)
      by (intro exI [of _ K']) auto
  qed
qed

lemma destroy_ok_Suc:
  assumes "release_ok fuel" "destroy_ok fuel"
  shows "destroy_ok (Suc fuel)"
  unfolding destroy_ok_def
proof (intro allI impI)
  fix v :: vfs_state and K ext D a
  assume wf: "tree_wf D (nodes v) K" and refs: "refs_wf D (nodes v) ext" and a: "a \<in> D"
    and fin: "finite (dom (nodes v))" and fl: "2 * card (linkedset (nodes v)) \<le> Suc fuel"
  show "\<exists>K'. releases D v K ext (destroy_children (Suc fuel) v (ptr (K a))) K' \<and> K' a = [] \<and>
      (\<forall>x\<in>dom (nodes (destroy_children (Suc fuel) v (ptr (K a)))) - {a}. K' x = K x)"
  proof (cases "K a")
    case Nil
    then show ?thesis using releases_refl [OF wf refs] by auto
  next
    case (Cons c cs)
    obtain n where n: "nodes v c = Some n" using tree_kids_dom [OF wf, of c a] Cons by auto
    note orph = orphan_step [OF wf a Cons n]
    let ?ns1 = "(nodes v)(c \<mapsto> n\<lparr>n_parent := None, n_next_sibling := None\<rparr>)"
    let ?v1 = "v\<lparr>nodes := ?ns1\<rparr>"
    let ?v2 = "node_release fuel ?v1 c"
    let ?e = "ext(c := ext c + 1)"
    have r1: "refs_wf D ?ns1 ?e" using refs n orph(3) unfolding refs_wf_def by auto
    have l1: "linkedset ?ns1 = linkedset (nodes v) - {c}" and cl: "c \<in> linkedset (nodes v)"
      using n orph(3) by (auto simp: linkedset_def nparent_def split: if_splits)
    have rel1: "releases D v K ?e ?v1 (K(a := cs))"
      unfolding releases_def using orph(1) r1 l1 survives_upd [of "nodes v" c n, OF n]
      by (intro exI [of _ ?ns1] exI [of _ "program_count v"]) (auto simp: core_def)
    have "card (linkedset (nodes v)) = Suc (card (linkedset ?ns1))"
      unfolding l1 using linkedset_finite [OF fin] cl by (rule card.remove)
    then have c1: "2 * card (linkedset (nodes ?v1)) < fuel" using fl by simp
    have "\<exists>K2. releases D ?v1 (K(a := cs)) (?e(c := ?e c - 1)) ?v2 K2 \<and>
        (\<forall>x\<in>dom (nodes ?v2). K2 x = (K(a := cs)) x)"
      using assms(1) [unfolded release_ok_def, rule_format, of D ?v1 "K(a := cs)" ?e c] orph(1) r1 fin c1
      by simp
    then obtain K2 where K2: "releases D ?v1 (K(a := cs)) ext ?v2 K2"
      "\<forall>x\<in>dom (nodes ?v2). K2 x = (K(a := cs)) x" by auto
    have rel2: "releases D v K ext ?v2 K2" using releases_trans [OF rel1 K2(1)] .
    have "a \<in> dom (nodes ?v2)" using a refs_wfD(4) [OF releasesD(2) [OF rel2]] by blast
    then have K2a: "K2 a = cs" using K2(2) by simp
    have fin2: "finite (dom (nodes ?v2))"
      using releasesD(3) [OF rel2] fin
      by (rule_tac finite_subset [of _ "dom (nodes v)"]) (auto simp: survives_def)
    have "card (linkedset (nodes ?v2)) \<le> card (linkedset (nodes ?v1))"
      using releasesD(4) [OF K2(1)] linkedset_finite fin
      by (metis (no_types, lifting) card_mono finite_Diff l1 vfs_state.select_convs(2) vfs_state.surjective vfs_state.update_convs(2))
    then have "\<exists>K3. releases D ?v2 K2 ext (destroy_children fuel ?v2 (ptr (K2 a))) K3 \<and> K3 a = [] \<and>
        (\<forall>x\<in>dom (nodes (destroy_children fuel ?v2 (ptr (K2 a)))) - {a}. K3 x = K2 x)"
      using assms(2) [unfolded destroy_ok_def, rule_format, of D ?v2 K2 ext a] releasesD(1,2) [OF rel2]
        fin2 c1 a by simp
    then obtain K3 where K3: "releases D ?v2 K2 ext (destroy_children fuel ?v2 (ptr (K2 a))) K3"
      "K3 a = []" "\<forall>x\<in>dom (nodes (destroy_children fuel ?v2 (ptr (K2 a)))) - {a}. K3 x = K2 x" by blast
    have res: "destroy_children (Suc fuel) v (ptr (K a)) = destroy_children fuel ?v2 (ptr (K2 a))"
      using Cons n orph(2) K2a by (simp add: orphan_child_def)
    have "K3 x = K x" if "x \<in> dom (nodes (destroy_children fuel ?v2 (ptr (K2 a)))) - {a}" for x
    proof -
      have "x \<in> dom (nodes ?v2)" using that releasesD(3) [OF K3(1)] by (auto simp: survives_def)
      then show ?thesis using that K3(3) K2(2) by auto
    qed
    then show ?thesis
      unfolding res using releases_trans [OF rel2 K3(1)] K3(2) by blast
  qed
qed

lemma release_and_destroy_ok: "release_ok fuel \<and> destroy_ok fuel"
  by (induction fuel)
    (simp_all add: destroy_ok_0 release_ok_Suc destroy_ok_Suc, simp add: release_ok_def)

section \<open>The invariant of the file system\<close>

definition data_ok :: "ramfs_node \<Rightarrow> bool" where
  "data_ok n \<longleftrightarrow> length (n_data n) = n_capacity n \<and> n_size n \<le> n_capacity n \<and> n_capacity n \<le> SIZE_MAX"

definition stored_ok :: "vfs_state \<Rightarrow> bool" where
  "stored_ok v \<longleftrightarrow>
     (\<forall>a n. nodes v a = Some n \<longrightarrow>
        a < alloc_seq (v_host v) \<and> data_ok n \<and> n_inode n \<le> next_inode v \<and>
        (\<forall>b m. nodes v b = Some m \<longrightarrow> n_inode m = n_inode n \<longrightarrow> b = a))"

definition fs_inv :: "vfs_state \<Rightarrow> (addr \<Rightarrow> addr list) \<Rightarrow> (addr \<Rightarrow> nat) \<Rightarrow> bool" where
  "fs_inv v K ext \<longleftrightarrow> tree_wf {} (nodes v) K \<and> refs_wf {} (nodes v) ext \<and> stored_ok v"

lemma fs_invD:
  assumes "fs_inv v K ext"
  shows "tree_wf {} (nodes v) K" "refs_wf {} (nodes v) ext" "stored_ok v"
  using assms by (simp_all add: fs_inv_def)

lemma stored_okD:
  assumes "stored_ok v" "nodes v a = Some n"
  shows "a < alloc_seq (v_host v)" "data_ok n" "n_inode n \<le> next_inode v"
    and "nodes v b = Some m \<Longrightarrow> n_inode m = n_inode n \<Longrightarrow> b = a"
  using assms unfolding stored_ok_def by blast+

lemma stored_ok_mono:
  assumes "stored_ok v" "alloc_seq (v_host v) \<le> alloc_seq (v_host v')" "next_inode v \<le> next_inode v'"
    and "\<And>a n'. nodes v' a = Some n' \<Longrightarrow> \<exists>n. nodes v a = Some n \<and> n_inode n' = n_inode n \<and> data_ok n'"
  shows "stored_ok v'"
  unfolding stored_ok_def
proof (intro allI impI conjI)
  fix a n' assume a: "nodes v' a = Some n'"
  then obtain n where n: "nodes v a = Some n" "n_inode n' = n_inode n" "data_ok n'"
    using assms(4) by blast
  show "a < alloc_seq (v_host v')" using stored_okD(1) [OF assms(1) n(1)] assms(2) by simp
  show "data_ok n'" by (rule n(3))
  show "n_inode n' \<le> next_inode v'" using stored_okD(3) [OF assms(1) n(1)] assms(3) n(2) by simp
  fix b m' assume b: "nodes v' b = Some m'" and eq: "n_inode m' = n_inode n'"
  obtain m where "nodes v b = Some m" "n_inode m' = n_inode m" using assms(4) [OF b] by blast
  then show "b = a" using stored_okD(4) [OF assms(1) n(1)] n(2) eq by simp
qed

lemma stored_ok_new:
  assumes ok: "stored_ok v" and seq: "alloc_seq (v_host v) \<le> alloc_seq (v_host v')" "a < alloc_seq (v_host v')"
    and ino: "next_inode v' = next_inode v + 1"
    and old: "\<And>y m'. nodes v' y = Some m' \<Longrightarrow> y \<noteq> a \<Longrightarrow>
                \<exists>m. nodes v y = Some m \<and> n_inode m' = n_inode m \<and> data_ok m'"
    and new: "\<And>m'. nodes v' a = Some m' \<Longrightarrow> data_ok m' \<and> n_inode m' = next_inode v'"
  shows "stored_ok v'"
  unfolding stored_ok_def
proof (intro allI impI conjI)
  fix x n' assume x: "nodes v' x = Some n'"
  show "x < alloc_seq (v_host v')" "data_ok n'" "n_inode n' \<le> next_inode v'"
    using old [OF x] new x stored_okD(1,3) [OF ok, of x] seq ino
    by (cases "x = a"; fastforce)+
  fix b m' assume b: "nodes v' b = Some m'" and eq: "n_inode m' = n_inode n'"
  show "b = x"
    using old [OF x] old [OF b] new x b eq ino stored_okD(3) [OF ok, of x] stored_okD(3) [OF ok, of b]
      stored_okD(4) [OF ok, of x _ b] by (cases "x = a"; cases "b = a"; fastforce)
qed

lemma core_fields:
  "core m = core n \<Longrightarrow> n_inode m = n_inode n \<and> n_data m = n_data n \<and> n_size m = n_size n \<and>
     n_capacity m = n_capacity n \<and> n_type m = n_type n \<and> n_name m = n_name n \<and> n_mount m = n_mount n \<and>
     n_children m = n_children n \<and> n_mode m = n_mode n \<and> n_executable m = n_executable n"
  unfolding core_def by (cases m; cases n) auto

lemma fs_finite: "stored_ok v \<Longrightarrow> finite (dom (nodes v))"
  by (rule finite_subset [of _ "{..<alloc_seq (v_host v)}"]) (auto dest: stored_okD(1))

lemma links_fuel: "stored_ok v \<Longrightarrow> card (linkedset (nodes v)) \<le> alloc_seq (v_host v)"
  using linkedset_dom [of "nodes v"] stored_okD(1) [of v]
  by (metis (no_types, lifting) card_lessThan card_mono domD finite_lessThan lessThan_iff subset_iff)

lemma fs_inv_survives:
  assumes "stored_ok v" "survives (nodes v) (nodes v')"
    and "v_host v' = v_host v" "next_inode v' = next_inode v"
  shows "stored_ok v'"
proof (rule stored_ok_mono [OF assms(1)])
  fix a n' assume "nodes v' a = Some n'"
  then obtain n where "nodes v a = Some n" "core n' = core n" using assms(2) by (auto simp: survives_def)
  then show "\<exists>n. nodes v a = Some n \<and> n_inode n' = n_inode n \<and> data_ok n'"
    using core_fields [of n' n] stored_okD(2) [OF assms(1)] by (auto simp: data_ok_def)
qed (use assms in simp_all)

text \<open>
  Releasing a reference: the fuel suffices, the counts stay exact, what survives keeps its contents
  and its place, and every surviving directory keeps its list.
\<close>

lemma ramfs_node_release_inv:
  assumes inv: "fs_inv v K ext" and c: "ext c > 0"
  obtains K' where "fs_inv (ramfs_node_release v c) K' (ext(c := ext c - 1))"
    "survives (nodes v) (nodes (ramfs_node_release v c))"
    "\<And>x. x \<in> dom (nodes (ramfs_node_release v c)) \<Longrightarrow> K' x = K x"
    "ramfs_node_release v c = v\<lparr>nodes := nodes (ramfs_node_release v c),
       program_count := program_count (ramfs_node_release v c)\<rparr>"
proof -
  note i = fs_invD [OF inv]
  have "2 * card (linkedset (nodes v)) < node_fuel v"
    using links_fuel [OF i(3)] by (simp add: node_fuel_def)
  then have "\<exists>K'. releases {} v K (ext(c := ext c - 1)) (ramfs_node_release v c) K' \<and>
      (\<forall>x\<in>dom (nodes (ramfs_node_release v c)). K' x = K x)"
    using release_and_destroy_ok [of "node_fuel v", THEN conjunct1, unfolded release_ok_def, rule_format]
      i(1,2) c fs_finite [OF i(3)] unfolding ramfs_node_release_def by blast
  then obtain K' where r: "releases {} v K (ext(c := ext c - 1)) (ramfs_node_release v c) K'"
    and K': "\<forall>x\<in>dom (nodes (ramfs_node_release v c)). K' x = K x" by blast
  have "v_host (ramfs_node_release v c) = v_host v" "next_inode (ramfs_node_release v c) = next_inode v"
    by (subst releasesD(5) [OF r]; simp)+
  then have "stored_ok (ramfs_node_release v c)"
    by (rule fs_inv_survives [OF i(3) releasesD(3) [OF r]])
  then show ?thesis
    using that [of K'] releasesD [OF r] K' unfolding fs_inv_def by blast
qed

lemma ramfs_node_retain_inv:
  assumes inv: "fs_inv v K ext" and a: "nodes v a = Some n"
  shows "fs_inv (ramfs_node_retain v a) K (ext(a := ext a + 1))"
proof -
  note i = fs_invD [OF inv]
  let ?ns = "(nodes v)(a \<mapsto> n\<lparr>n_references := n_references n + 1\<rparr>)"
  have "tree_wf {} ?ns K"
    by (rule tree_wf_same_shape [OF i(1)]) (simp add: a shape_def)
  moreover have "refs_wf {} ?ns (ext(a := ext a + 1))"
    using refs_wf_upd [OF i(2)] refs_wfD(1) [OF i(2) a] by simp
  moreover have "stored_ok (v\<lparr>nodes := ?ns\<rparr>)"
    by (rule fs_inv_survives [OF i(3)]) (simp_all add: survives_def core_def a)
  ultimately show ?thesis by (simp add: fs_inv_def ramfs_node_retain_def a)
qed

lemma fs_fuel:
  assumes "fs_inv v K ext"
  shows "length (K d) < walk_fuel v"
proof -
  note i = fs_invD [OF assms]
  have "set (K d) \<subseteq> {..<alloc_seq (v_host v)}"
    using tree_kids_dom [OF i(1)] stored_okD(1) [OF i(3)] by blast
  then have "length (K d) \<le> alloc_seq (v_host v)"
    using tree_distinct [OF i(1), of d]
    by (metis card_lessThan card_mono distinct_card finite_lessThan)
  then show ?thesis by (simp add: walk_fuel_def)
qed

lemma children_list_eq:
  assumes "fs_inv v K ext" "nodes v d = Some nd"
  shows "children_list v nd = K d"
  using sib_walk_seg [OF tree_seg [OF fs_invD(1) [OF assms(1)], of d] fs_fuel [OF assms(1)]]
    tree_children [OF fs_invD(1) [OF assms(1)] assms(2)]
  by (simp add: children_list_def)

lemma has_name_nname: "c \<in> dom (nodes v) \<Longrightarrow> has_name v name c = (nname (nodes v) c = name)"
  by (auto simp: has_name_def nname_def)

text \<open>Lookup by name: the list search finds the one child with that name.\<close>

lemma find_child_iff:
  assumes inv: "fs_inv v K ext" and d: "nodes v d = Some nd"
  shows "find_child v nd name = Some c \<longleftrightarrow> c \<in> set (K d) \<and> nname (nodes v) c = name"
proof -
  note t = fs_invD(1) [OF inv]
  have hn: "has_name v name x \<longleftrightarrow> nname (nodes v) x = name" if "x \<in> set (K d)" for x
    using has_name_nname tree_kids_dom [OF t that] .
  have inj: "inj_on (nname (nodes v)) (set (K d))" using tree_names [OF t, of d] by (simp add: distinct_map)
  have "List.find (has_name v name) (K d) = Some c \<longleftrightarrow> c \<in> set (K d) \<and> nname (nodes v) c = name"
  proof
    assume "List.find (has_name v name) (K d) = Some c"
    then show "c \<in> set (K d) \<and> nname (nodes v) c = name"
      using hn by (auto simp: find_Some_iff)
  next
    assume c: "c \<in> set (K d) \<and> nname (nodes v) c = name"
    then obtain x where x: "List.find (has_name v name) (K d) = Some x"
      using hn by (metis find_None_iff option.exhaust)
    then have "x \<in> set (K d)" "nname (nodes v) x = name" using hn by (auto simp: find_Some_iff)
    then show "List.find (has_name v name) (K d) = Some c" using c inj x by (simp add: inj_on_def)
  qed
  then show ?thesis by (simp add: find_child_def children_list_eq [OF inv d])
qed

lemma find_child_None_iff:
  assumes "fs_inv v K ext" "nodes v d = Some nd"
  shows "find_child v nd name = None \<longleftrightarrow> name \<notin> nname (nodes v) ` set (K d)"
proof (cases "find_child v nd name")
  case None
  then show ?thesis using find_child_iff [OF assms, of name] by auto
next
  case (Some c)
  then show ?thesis using find_child_iff [OF assms, of name c] by auto
qed

section \<open>The operations on the tree\<close>

text \<open>A new node under a directory: \<open>node_create\<close> is a fresh node put on the directory's list.\<close>

definition new_node :: "vfs_state \<Rightarrow> addr \<Rightarrow> string \<Rightarrow> node_type \<Rightarrow> nat \<Rightarrow> nat \<Rightarrow> ramfs_node" where
  "new_node v mount name type mode now =
     \<lparr>n_mount = mount, n_executable = None, n_type = type, n_inode = next_inode v + 1, n_mode = mode,
      n_name = name, n_parent = None, n_children = None, n_next_sibling = None, n_data = [],
      n_size = 0, n_capacity = 0, n_references = 1, n_atime = now, n_mtime = now, n_ctime = now\<rparr>"

lemmas host_defs = cb_allocate_def cb_string_duplicate_def wall_clock_millis_def

lemma node_create_child:
  assumes "nodes v d = Some nd" "d \<noteq> alloc_seq (v_host v)"
  shows "node_create v mount (Some d) name type mode =
    (let h = v_host v; a = alloc_seq h;
         n = new_node v mount name type mode (wall_clock h (wall_seq h))
     in if alloc_ok h a then
          if alloc_ok h (a + 1) then
            (Some a, v\<lparr>v_host := h\<lparr>alloc_seq := a + 2, wall_seq := wall_seq h + 1\<rparr>,
                       next_inode := next_inode v + 1,
                       nodes := link_ns ((nodes v)(a \<mapsto> n)) a n d nd\<rparr>)
          else (None, v\<lparr>v_host := h\<lparr>alloc_seq := a + 2\<rparr>\<rparr>)
        else (None, v\<lparr>v_host := h\<lparr>alloc_seq := a + 1\<rparr>\<rparr>))"
  using assms
  by (simp add: node_create_def host_defs Let_def new_node_def link_ns_def fun_upd_twist)

lemma node_create_root:
  "node_create v mount None name type mode =
    (let h = v_host v; a = alloc_seq h;
         n = new_node v mount name type mode (wall_clock h (wall_seq h))
     in if alloc_ok h a then
          if alloc_ok h (a + 1) then
            (Some a, v\<lparr>v_host := h\<lparr>alloc_seq := a + 2, wall_seq := wall_seq h + 1\<rparr>,
                       next_inode := next_inode v + 1, nodes := (nodes v)(a \<mapsto> n)\<rparr>)
          else (None, v\<lparr>v_host := h\<lparr>alloc_seq := a + 2\<rparr>\<rparr>)
        else (None, v\<lparr>v_host := h\<lparr>alloc_seq := a + 1\<rparr>\<rparr>))"
  by (simp add: node_create_def host_defs Let_def new_node_def)

lemma fs_inv_host:
  assumes "fs_inv v K ext" "alloc_seq (v_host v) \<le> alloc_seq h"
  shows "fs_inv (v\<lparr>v_host := h\<rparr>) K ext"
  unfolding fs_inv_def
proof (intro conjI)
  show "stored_ok (v\<lparr>v_host := h\<rparr>)"
    by (rule stored_ok_mono [OF fs_invD(3) [OF assms(1)]])
      (use assms(2) stored_okD(2) [OF fs_invD(3) [OF assms(1)]] in auto)
qed (use fs_invD [OF assms(1)] in simp_all)

lemma node_create_None_inv:
  assumes "fs_inv v K ext" "nodes v d = Some nd"
    and "node_create v mount (Some d) name type mode = (None, v')"
  shows "fs_inv v' K ext" "nodes v' = nodes v"
proof -
  have "d < alloc_seq (v_host v)" using stored_okD(1) [OF fs_invD(3) [OF assms(1)] assms(2)] .
  then have "v' = v\<lparr>v_host := v_host v'\<rparr>" "alloc_seq (v_host v) \<le> alloc_seq (v_host v')"
    using assms(3) node_create_child [of v d nd mount name type mode] assms(2)
    by (auto simp: Let_def split: if_splits)
  then show "fs_inv v' K ext" "nodes v' = nodes v"
    using fs_inv_host [OF assms(1)] by (metis, metis vfs_state.select_convs(2) vfs_state.surjective vfs_state.update_convs(1))
qed

lemma node_create_inv:
  assumes inv: "fs_inv v K ext" and d: "nodes v d = Some nd" "n_type nd = CB_NODE_DIRECTORY"
    and name: "valid_name name" "name \<notin> nname (nodes v) ` set (K d)"
    and run: "node_create v (n_mount nd) (Some d) name type mode = (Some a, v')"
  shows "fs_inv v' (K(d := a # K d)) ext" "nodes v a = None" "nname (nodes v') a = name"
    and "\<exists>n. nodes v' a = Some n \<and> n_type n = type \<and> n_size n = 0"
proof -
  note i = fs_invD [OF inv]
  have fresh: "nodes v (alloc_seq (v_host v)) = None"
    using stored_okD(1) [OF i(3)] by fastforce
  define h where "h = (v_host v)\<lparr>alloc_seq := alloc_seq (v_host v) + 2, wall_seq := wall_seq (v_host v) + 1\<rparr>"
  define now where "now = wall_clock (v_host v) (wall_seq (v_host v))"
  have ds: "d \<noteq> alloc_seq (v_host v)" using fresh d by auto
  have a: "a = alloc_seq (v_host v)" and
    v': "v' = v\<lparr>v_host := h, next_inode := next_inode v + 1, nodes :=
       link_ns ((nodes v)(a \<mapsto> new_node v (n_mount nd) name type mode now)) a
         (new_node v (n_mount nd) name type mode now) d nd\<rparr>"
    using run node_create_child [OF d(1) ds, of "n_mount nd" name type mode]
    by (auto simp: Let_def h_def now_def split: if_splits)
  let ?n = "new_node v (n_mount nd) name type mode now"
  let ?ns = "(nodes v)(a \<mapsto> ?n)"
  have na: "nodes v a = None" using fresh a(1) by simp
  then have ad: "a \<noteq> d" using d by auto
  show "nodes v a = None" by (rule na)
  have t1: "tree_wf {} ?ns K"
    by (rule add_step [OF i(1) na]) (simp_all add: new_node_def)
  have kd: "map (nname ?ns) (K d) = map (nname (nodes v)) (K d)"
    using tree_kids_dom [OF i(1), of a d] na by (auto simp: nname_def intro!: map_cong)
  have noname: "name \<notin> nname ?ns ` set (K d)" using name(2) kd by (metis image_set)
  have nopar: "nparent ?ns x \<noteq> Some a" for x
    using tree_parent [OF t1, of x a] tree_dir [OF i(1), of a] na by fastforce
  have "(d, a) \<notin> (parent_rel ?ns)\<^sup>*"
    using ad nopar by (auto simp: parent_rel_def elim: rtranclE)
  then have t2: "tree_wf {} (link_ns ?ns a ?n d nd) (K(d := a # K d))"
    using d ad name noname by (intro link_step [OF t1]) (simp_all add: new_node_def)
  have "refs_wf {} (link_ns ?ns a ?n d nd) (ext(a := 0, d := ext d))"
    unfolding link_ns_def fun_upd_upd
    using refs_wfD(1,2) [OF i(2) d(1)] by (intro refs_wf_upd [OF refs_wf_upd [OF i(2)]]) (auto simp: new_node_def)
  moreover have "ext(a := 0, d := ext d) = ext"
    using refs_wfD(3) [OF i(2), of a] na ad by (auto simp: fun_eq_iff)
  ultimately have r2: "refs_wf {} (link_ns ?ns a ?n d nd) ext" by simp
  have "stored_ok v'"
  proof (rule stored_ok_new [OF i(3), of _ a])
    fix y m' assume "nodes v' y = Some m'" "y \<noteq> a"
    then show "\<exists>m. nodes v y = Some m \<and> n_inode m' = n_inode m \<and> data_ok m'"
      using stored_okD(2) [OF i(3)] d ad
      by (auto simp: v' link_ns_def data_ok_def split: if_splits)
  next
    fix m' assume "nodes v' a = Some m'"
    then show "data_ok m' \<and> n_inode m' = next_inode v'"
      using ad by (auto simp: v' link_ns_def new_node_def data_ok_def SIZE_MAX_def)
  qed (use a in \<open>simp_all add: v' h_def\<close>)
  then show "fs_inv v' (K(d := a # K d)) ext" using t2 r2 by (simp add: fs_inv_def v')
  show "nname (nodes v') a = name" "\<exists>n. nodes v' a = Some n \<and> n_type n = type \<and> n_size n = 0"
    using ad by (simp_all add: v' link_ns_def nname_def new_node_def)
qed

text \<open>Unlinking and releasing.\<close>

lemma unlink_ns_entry:
  assumes "ns a = Some n" "l \<noteq> HeadOf a" "l \<noteq> NextOf a"
  shows "unlink_ns ns l a n a = Some (n\<lparr>n_parent := None, n_next_sibling := None\<rparr>)"
    and "x \<noteq> a \<Longrightarrow> map_option n_references (unlink_ns ns l a n x) = map_option n_references (ns x)"
    and "x \<noteq> a \<Longrightarrow> map_option n_parent (unlink_ns ns l a n x) = map_option n_parent (ns x)"
    and "unlink_ns ns l a n x = Some m \<Longrightarrow> \<exists>m0. ns x = Some m0 \<and> n_inode m = n_inode m0 \<and> (data_ok m = data_ok m0)"
    and "write_link ns l q a = Some n"
  using assms by (cases l; auto simp: unlink_ns_def data_ok_def split: option.splits if_splits)+

lemma unlink_ns_keeps:
  assumes "ns d = Some nd" "d \<noteq> a"
  shows "\<exists>nd'. unlink_ns ns l a n d = Some nd' \<and> n_type nd' = n_type nd \<and> n_mount nd' = n_mount nd \<and>
    n_name nd' = n_name nd \<and> n_parent nd' = n_parent nd"
  using assms by (cases l; auto simp: unlink_ns_def split: option.splits if_splits)

definition key :: "ramfs_node \<Rightarrow> node_type \<times> addr \<times> string \<times> addr option" where
  "key n = (n_type n, n_mount n, n_name n, n_parent n)"

lemma unlink_ns_key: "x \<noteq> a \<Longrightarrow> map_option key (unlink_ns ns l a n x) = map_option key (ns x)"
  by (cases l; auto simp: unlink_ns_def key_def split: option.splits if_splits)

lemma unlink_ns_nname: "ns a = Some n \<Longrightarrow> nname (unlink_ns ns l a n) x = nname ns x"
  by (cases l; auto simp: unlink_ns_def nname_def split: option.splits if_splits)

lemma unlink_ns_parents: "parent_rel (unlink_ns ns l a n) \<subseteq> parent_rel ns"
  by (cases l; auto simp: unlink_ns_def parent_rel_def nparent_def split: option.splits if_splits)

lemma unlink_inv:
  assumes inv: "fs_inv v K ext" and a: "nodes v a = Some n" "n_parent n = Some p"
  obtains l where "find_link (walk_fuel v) (nodes v) (HeadOf p) a = Some l"
    "fs_inv (v\<lparr>nodes := unlink_ns (nodes v) l a n\<rparr>) (K(p := remove1 a (K p))) (ext(a := ext a + 1))"
    "unlink_ns (nodes v) l a n a = Some (n\<lparr>n_parent := None, n_next_sibling := None\<rparr>)"
    "write_link (nodes v) l (n_next_sibling n) a = Some n"
    "l \<noteq> HeadOf a" "l \<noteq> NextOf a"
proof -
  note i = fs_invD [OF inv]
  obtain l where l: "find_link (walk_fuel v) (nodes v) (HeadOf p) a = Some l"
    "tree_wf {} (unlink_ns (nodes v) l a n) (K(p := remove1 a (K p)))" "l \<noteq> HeadOf a" "l \<noteq> NextOf a"
    using unlink_found [OF i(1) a, of "walk_fuel v"] fs_fuel [OF inv, of p] by auto
  note e = unlink_ns_entry [of "nodes v", OF a(1) l(3,4)]
  have "refs_wf {} (unlink_ns (nodes v) l a n) (ext(a := ext a + 1))"
  proof (rule refs_wfI)
    fix x m assume x: "unlink_ns (nodes v) l a n x = Some m"
    have "n_references m = n_references m0 \<and> n_parent m = n_parent m0"
      if "nodes v x = Some m0" "x \<noteq> a" for m0
      using e(2,3) [OF that(2)] x that(1) by simp
    moreover obtain m0 where "nodes v x = Some m0" using e(4) [OF x] by blast
    ultimately show "n_references m = (ext(a := ext a + 1)) x + (if n_parent m = None then 0 else 1)"
      "x \<in> {} \<longleftrightarrow> n_references m = 0"
      using refs_wfD(1,2) [OF i(2), of x m0] e(1) x a by (cases "x = a"; auto)+
  next
    show "x \<in> dom (unlink_ns (nodes v) l a n)" if "(ext(a := ext a + 1)) x \<noteq> 0" for x
      using that refs_wfD(3) [OF i(2), of x] e(1) e(2) [of x] by (cases "x = a") (force split: if_splits)+
  qed simp
  moreover have "stored_ok (v\<lparr>nodes := unlink_ns (nodes v) l a n\<rparr>)"
    by (rule stored_ok_mono [OF i(3)]) (use e(4) stored_okD(2) [OF i(3)] in fastforce)+
  ultimately have "fs_inv (v\<lparr>nodes := unlink_ns (nodes v) l a n\<rparr>) (K(p := remove1 a (K p))) (ext(a := ext a + 1))"
    using l(2) by (simp add: fs_inv_def)
  then show ?thesis using that l e by blast
qed

lemma destroy_no_children: "destroy_children fuel v None = v"
  by (cases fuel) simp_all

lemma release_childless:
  assumes "nodes v a = Some n" "n_children n = None" "n_references n > 0"
  shows "nodes (ramfs_node_release v a) =
           (nodes v)(a := (if n_references n = 1 then None else Some (n\<lparr>n_references := n_references n - 1\<rparr>)))"
    and "v_host (ramfs_node_release v a) = v_host v"
  using assms
  by (auto simp: ramfs_node_release_def node_fuel_def numeral_2_eq_2 Let_def dec_ref_def destroy_no_children
      cb_executor_program_destroy_def split: option.splits)

lemma detach_and_release_inv:
  assumes inv: "fs_inv v K ext" and a: "nodes v a = Some n" "n_parent n = Some p" "K a = []"
  obtains v' where "detach_and_release v a n = (None, v')"
    "fs_inv v' (K(p := remove1 a (K p))) ext"
    "nodes v' a = (if ext a = 0 then None
       else Some (n\<lparr>n_parent := None, n_next_sibling := None, n_references := n_references n - 1\<rparr>))"
    "\<And>x. x \<noteq> a \<Longrightarrow> nname (nodes v') x = nname (nodes v) x"
    "\<And>x. x \<noteq> a \<Longrightarrow> map_option key (nodes v' x) = map_option key (nodes v x)"
proof -
  obtain l where l: "find_link (walk_fuel v) (nodes v) (HeadOf p) a = Some l"
    and inv1: "fs_inv (v\<lparr>nodes := unlink_ns (nodes v) l a n\<rparr>) (K(p := remove1 a (K p))) (ext(a := ext a + 1))"
    and e: "unlink_ns (nodes v) l a n a = Some (n\<lparr>n_parent := None, n_next_sibling := None\<rparr>)"
      "write_link (nodes v) l (n_next_sibling n) a = Some n"
    using unlink_inv [OF inv a(1,2)] by blast
  let ?v1 = "v\<lparr>nodes := unlink_ns (nodes v) l a n\<rparr>"
  let ?K = "K(p := remove1 a (K p))"
  have res: "detach_and_release v a n = (None, ramfs_node_release ?v1 a)"
    using a l e by (simp add: detach_and_release_def unlink_ns_def)
  have e1: "(ext(a := ext a + 1)) a > 0"
    "(ext(a := ext a + 1))(a := (ext(a := ext a + 1)) a - 1) = ext" by simp_all
  obtain K' where K': "fs_inv (ramfs_node_release ?v1 a) K' ext"
    "\<And>x. x \<in> dom (nodes (ramfs_node_release ?v1 a)) \<Longrightarrow> K' x = ?K x"
    by (rule ramfs_node_release_inv [OF inv1 e1(1), unfolded e1(2)]) (rule that; assumption)
  have rc: "n_references n = ext a + 1" using refs_wfD(1) [OF fs_invD(2) [OF inv] a(1)] a(2) by simp
  have ch: "n_children n = None" using tree_children [OF fs_invD(1) [OF inv] a(1)] a(3) by simp
  have "nodes (ramfs_node_release ?v1 a) = (nodes ?v1)(a := (if ext a = 0 then None
       else Some (n\<lparr>n_parent := None, n_next_sibling := None, n_references := n_references n - 1\<rparr>)))"
    by (subst release_childless(1) [where n = "n\<lparr>n_parent := None, n_next_sibling := None\<rparr>"])
      (simp_all add: e(1) ch rc)
  then have nodes': "nodes (ramfs_node_release ?v1 a) a = (if ext a = 0 then None
       else Some (n\<lparr>n_parent := None, n_next_sibling := None, n_references := n_references n - 1\<rparr>))"
    and others: "x \<noteq> a \<Longrightarrow> nodes (ramfs_node_release ?v1 a) x = nodes ?v1 x" for x
    by simp_all
  have "K' x = ?K x" for x
  proof (cases "x \<in> dom (nodes (ramfs_node_release ?v1 a))")
    case False
    then have "K' x = []" using tree_dir [OF fs_invD(1) [OF K'(1)], of x] by auto
    moreover have "?K x = []"
    proof (cases "x = a")
      case True
      then show ?thesis using a(3) by auto
    next
      case x: False
      then have "nodes ?v1 x = None" using False others by auto
      then show ?thesis using tree_dir [OF fs_invD(1) [OF inv1], of x] by fastforce
    qed
    ultimately show ?thesis by simp
  qed (rule K'(2))
  then have "K' = ?K" by blast
  moreover have "nname (nodes (ramfs_node_release ?v1 a)) x = nname (nodes v) x" if "x \<noteq> a" for x
    using others [OF that] unlink_ns_nname [of "nodes v", OF a(1), of l x] by (simp add: nname_def)
  moreover have "map_option key (nodes (ramfs_node_release ?v1 a) x) = map_option key (nodes v x)" if "x \<noteq> a" for x
    using others [OF that] unlink_ns_key [OF that, of "nodes v" l n] by simp
  ultimately show ?thesis using that [OF res] K'(1) nodes' by blast
qed

text \<open>
  Renaming: the node is taken off its directory and put at the front of the other one, which must
  not lie below it, must be on the same mount and must not hold the new name already.
\<close>

lemma relabel_step:
  assumes wf: "tree_wf D ns K" and a: "ns a = Some n" "n_parent n = None"
  shows "tree_wf D (ns(a \<mapsto> n\<lparr>n_name := x, n_ctime := t\<rparr>)) K"
proof -
  let ?ns = "ns(a \<mapsto> n\<lparr>n_name := x, n_ctime := t\<rparr>)"
  have f: "nparent ?ns = nparent ns" "nnext ?ns = nnext ns" "dom ?ns = dom ns"
    using a by (auto simp: field_defs fun_eq_iff)
  have "a \<notin> set (K b)" for b using tree_parent [OF wf, of a b] a by (simp add: nparent_def)
  then have nm: "map (nname ?ns) (K b) = map (nname ns) (K b)" for b
    by (auto simp: nname_def intro!: map_cong)
  show ?thesis
  proof (rule tree_wfI)
    show "seg ?ns (K b) None" for b
      by (rule seg_cong [OF _ tree_seg [OF wf]]) (auto simp: f dest: tree_kids_dom [OF wf])
  next
    fix c m p mp assume y: "?ns c = Some m" "n_parent m = Some p" "?ns p = Some mp"
    then have "ns c = Some m" using a by (cases "c = a") auto
    moreover obtain mp0 where "ns p = Some mp0" "n_mount mp0 = n_mount mp"
      using y(3) a by (cases "p = a") auto
    ultimately show "valid_name (n_name m) \<and> n_mount m = n_mount mp"
      using tree_child_ok [OF wf, of c m p mp0] y(2) by simp
  next
    show "\<exists>m. ?ns b = Some m \<and> n_type m = CB_NODE_DIRECTORY" if "K b \<noteq> []" for b
      using tree_dir [OF wf that] a by auto
  qed (use wf a in \<open>auto simp: f nm parent_rel_def tree_children tree_parent tree_free_next
        tree_names tree_acyclic [unfolded parent_rel_def] split: if_splits\<close>)
qed

lemma rename_fields:
  fixes n :: ramfs_node
  shows "n\<lparr>n_next_sibling := q, n_parent := r, n_name := s, n_ctime := t\<rparr> =
    n\<lparr>n_name := s, n_ctime := t, n_parent := r, n_next_sibling := q\<rparr>"
  by (cases n) simp

lemma rename_ns:
  assumes "nodes v a = Some n" "n_parent n = Some p"
    and l: "find_link (walk_fuel v) (nodes v) (HeadOf p) a = Some l" "l \<noteq> HeadOf a" "l \<noteq> NextOf a"
    and d: "unlink_ns (nodes v) l a n d = Some nd" "d \<noteq> a"
  shows "ramfs_rename v a d name =
    (None, v\<lparr>nodes := link_ns ((unlink_ns (nodes v) l a n)(a \<mapsto> n\<lparr>n_parent := None, n_next_sibling := None,
                 n_name := name, n_ctime := wall_clock (v_host v) (wall_seq (v_host v))\<rparr>)) a
               (n\<lparr>n_parent := None, n_next_sibling := None,
                 n_name := name, n_ctime := wall_clock (v_host v) (wall_seq (v_host v))\<rparr>) d nd,
             v_host := snd (wall_clock_millis (v_host v))\<rparr>)"
proof -
  have w: "write_link (nodes v) l (n_next_sibling n) a = Some n"
    using unlink_ns_entry(5) [of "nodes v", OF assms(1) l(2,3)] .
  have "write_link (nodes v) l (n_next_sibling n) d = Some nd" using d by (simp add: unlink_ns_def)
  then show ?thesis
    using assms w
    by (simp add: ramfs_rename_def Let_def wall_clock_millis_def unlink_ns_def link_ns_def
        fun_upd_twist rename_fields)
qed

lemma rename_inv:
  assumes inv: "fs_inv v K ext" and a: "nodes v a = Some n" "n_parent n = Some p"
    and d: "nodes v d = Some nd" "n_type nd = CB_NODE_DIRECTORY" "n_mount nd = n_mount n"
    and below: "(d, a) \<notin> (parent_rel (nodes v))\<^sup>*"
    and name: "valid_name name" "name \<notin> nname (nodes v) ` (set (K d) - {a})"
  obtains v' where "ramfs_rename v a d name = (None, v')"
    "fs_inv v' ((K(p := remove1 a (K p)))(d := a # remove1 a (K d))) ext"
    "nname (nodes v') a = name" "\<And>x. x \<noteq> a \<Longrightarrow> nname (nodes v') x = nname (nodes v) x"
proof -
  have ad: "d \<noteq> a" using below by auto
  obtain l where l: "find_link (walk_fuel v) (nodes v) (HeadOf p) a = Some l"
    "fs_inv (v\<lparr>nodes := unlink_ns (nodes v) l a n\<rparr>) (K(p := remove1 a (K p))) (ext(a := ext a + 1))"
    "unlink_ns (nodes v) l a n a = Some (n\<lparr>n_parent := None, n_next_sibling := None\<rparr>)"
    "l \<noteq> HeadOf a" "l \<noteq> NextOf a"
    using unlink_inv [OF inv a] by blast
  let ?ns1 = "unlink_ns (nodes v) l a n"
  let ?K1 = "K(p := remove1 a (K p))"
  let ?h = "snd (wall_clock_millis (v_host v))"
  let ?n = "n\<lparr>n_parent := None, n_next_sibling := None, n_name := name,
              n_ctime := wall_clock (v_host v) (wall_seq (v_host v))\<rparr>"
  let ?ns2 = "?ns1(a \<mapsto> ?n)"
  note i1 = fs_invD [OF l(2), simplified]
  note i = fs_invD [OF inv]
  obtain nd1 where nd1: "?ns1 d = Some nd1" "n_type nd1 = CB_NODE_DIRECTORY" "n_mount nd1 = n_mount n"
    using unlink_ns_keeps [of "nodes v" d nd a l n] d ad by auto
  have res: "ramfs_rename v a d name = (None, v\<lparr>nodes := link_ns ?ns2 a ?n d nd1, v_host := ?h\<rparr>)"
    by (rule rename_ns [OF a l(1,4,5) nd1(1) ad])
  have K1d: "?K1 d = remove1 a (K d)"
    using tree_parent [OF i(1), of a d] a by (cases "d = p") (auto simp: nparent_def remove1_idem)
  have t2: "tree_wf {} ?ns2 ?K1"
    using relabel_step [OF i1(1) l(3), where x = name] by simp
  have par: "parent_rel ?ns2 \<subseteq> parent_rel (nodes v)"
  proof -
    have "parent_rel ?ns2 \<subseteq> parent_rel ?ns1"
      by (auto simp: parent_rel_def nparent_def split: if_splits)
    then show ?thesis using unlink_ns_parents [of "nodes v" l a n] by blast
  qed
  have kids: "set (?K1 d) = set (K d) - {a}"
    using K1d tree_distinct [OF i(1), of d] by simp
  have "nname ?ns2 x = nname (nodes v) x" if "x \<noteq> a" for x
    using unlink_ns_nname [of "nodes v", OF a(1), of l x] that by (simp add: nname_def)
  then have nm: "nname ?ns2 ` set (?K1 d) = nname (nodes v) ` (set (K d) - {a})"
    unfolding kids by (intro image_cong) auto
  have t3: "tree_wf {} (link_ns ?ns2 a ?n d nd1) (?K1(d := a # ?K1 d))"
  proof (rule link_step [OF t2])
    show "(d, a) \<notin> (parent_rel ?ns2)\<^sup>*" using below par rtrancl_mono by blast
  qed (use nd1 ad name nm in simp_all)
  have "n_references n = ext a + 1" using refs_wfD(1) [OF i(2) a(1)] a(2) by simp
  then have "refs_wf {} (?ns1(a \<mapsto> ?n\<lparr>n_parent := Some d, n_next_sibling := n_children nd1\<rparr>,
      d \<mapsto> nd1\<lparr>n_children := Some a\<rparr>)) ((ext(a := Suc (ext a)))(a := ext a, d := ext d))"
    using refs_wfD(1,2) [OF i1(2) nd1(1)] ad
    by (intro refs_wf_upd [OF refs_wf_upd [OF i1(2)]]) auto
  then have r: "refs_wf {} (link_ns ?ns2 a ?n d nd1) ext" by (simp add: link_ns_def)
  have st: "stored_ok (v\<lparr>nodes := link_ns ?ns2 a ?n d nd1, v_host := ?h\<rparr>)"
  proof (rule stored_ok_mono [OF i1(3)])
    fix x m assume "nodes (v\<lparr>nodes := link_ns ?ns2 a ?n d nd1, v_host := ?h\<rparr>) x = Some m"
    then show "\<exists>n0. nodes (v\<lparr>nodes := ?ns1\<rparr>) x = Some n0 \<and> n_inode m = n_inode n0 \<and> data_ok m"
      using stored_okD(2) [OF i1(3), of x] l(3) nd1(1)
      by (auto simp: link_ns_def data_ok_def split: if_splits)
  qed simp_all
  have names: "nname (link_ns ?ns2 a ?n d nd1) a = name"
    "x \<noteq> a \<Longrightarrow> nname (link_ns ?ns2 a ?n d nd1) x = nname (nodes v) x" for x
    using ad nd1(1) unlink_ns_nname [of "nodes v", OF a(1), of l x] by (auto simp: link_ns_def nname_def)
  have "fs_inv (v\<lparr>nodes := link_ns ?ns2 a ?n d nd1, v_host := ?h\<rparr>) (?K1(d := a # remove1 a (K d))) ext"
    using t3 r st K1d by (simp add: fs_inv_def)
  then show ?thesis using that [OF res] names by simp
qed

end
