(* ===== verification/RamFs_Dir.thy ===== *)
theory RamFs_Dir
  imports RamFs_Tree
begin

text \<open>
  The directory operations of \<^verbatim>\<open>src/ramfs.c\<close> as operations on one finite map from pairs of directory
  and name to node: \<open>dir_map\<close> is the abstraction, and create, unlink, rmdir and rename refine
  insertion, deletion and the move of a key. The functions that build and tear down a whole mount
  follow.
\<close>

section \<open>The abstraction\<close>

definition dir_map :: "vfs_state \<Rightarrow> addr \<times> string \<rightharpoonup> addr" where
  "dir_map v = (\<lambda>(d, name). case ramfs_lookup v d name of Inl _ \<Rightarrow> None | Inr a \<Rightarrow> Some a)"

definition ramfs_inv :: "vfs_state \<Rightarrow> (addr \<Rightarrow> nat) \<Rightarrow> bool" where
  "ramfs_inv v ext \<longleftrightarrow> (\<exists>K. fs_inv v K ext)"

lemma ramfs_lookup_Inr:
  assumes inv: "fs_inv v K ext"
  shows "ramfs_lookup v d name = Inr c \<longleftrightarrow> c \<in> set (K d) \<and> nname (nodes v) c = name"
proof (cases "nodes v d")
  case None
  then have "K d = []" using tree_dir [OF fs_invD(1) [OF inv], of d] by auto
  with None show ?thesis by (simp add: ramfs_lookup_def)
next
  case (Some nd)
  have "K d = []" if "n_type nd \<noteq> CB_NODE_DIRECTORY"
    using that tree_dir [OF fs_invD(1) [OF inv], of d] Some by auto
  with Some find_child_iff [OF inv Some, of name c] show ?thesis
    by (auto simp: ramfs_lookup_def split: option.splits)
qed

lemma dir_map_iff:
  assumes "fs_inv v K ext"
  shows "dir_map v (d, name) = Some c \<longleftrightarrow> c \<in> set (K d) \<and> nname (nodes v) c = name"
  using ramfs_lookup_Inr [OF assms, of d name c] by (auto simp: dir_map_def split: sum.splits)

lemma map_eqI: "(\<And>x y. m x = Some y \<longleftrightarrow> m' x = Some y) \<Longrightarrow> m = m'"
  by (rule ext) (metis not_Some_eq)

lemma dir_map_parent:
  assumes inv: "fs_inv v K ext" and a: "nodes v a = Some n"
  shows "dir_map v (d, name) = Some a \<longleftrightarrow> n_parent n = Some d \<and> n_name n = name"
  using dir_map_iff [OF inv] tree_parent [OF fs_invD(1) [OF inv], of a d] a
  by (auto simp: nparent_def nname_def)

section \<open>Create\<close>

lemma ramfs_create_dir_map:
  assumes inv: "fs_inv v K ext" and run: "ramfs_create v d name type mode = (r, v')"
  shows "case r of
      Inl e \<Rightarrow> fs_inv v' K ext \<and> nodes v' = nodes v
    | Inr a \<Rightarrow> fs_inv v' (K(d := a # K d)) ext \<and> nodes v a = None \<and>
         dir_map v' = (dir_map v)((d, name) \<mapsto> a) \<and> dir_map v (d, name) = None \<and>
         (\<exists>n. nodes v' a = Some n \<and> n_type n = type \<and> n_size n = 0)"
proof (cases r)
  case (Inl e)
  then show ?thesis
    using run inv node_create_None_inv [OF inv]
    by (auto simp: ramfs_create_def split: option.splits if_splits prod.splits)
next
  case (Inr a)
  obtain nd where d: "nodes v d = Some nd" "n_type nd = CB_NODE_DIRECTORY" and
    name: "valid_name name" and fc: "find_child v nd name = None" and
    mk: "node_create v (n_mount nd) (Some d) name type mode = (Some a, v')"
    using run Inr by (auto simp: ramfs_create_def valid_name_def split: option.splits if_splits prod.splits)
  have fresh: "name \<notin> nname (nodes v) ` set (K d)"
    using fc find_child_None_iff [OF inv d(1)] by simp
  note c = node_create_inv [OF inv d name fresh mk]
  have other: "nname (nodes v') x = nname (nodes v) x" if "x \<noteq> a" for x
  proof -
    have "d \<noteq> alloc_seq (v_host v)" using stored_okD(1) [OF fs_invD(3) [OF inv] d(1)] by simp
    then show ?thesis
      using mk node_create_child [OF d(1), of "n_mount nd" name type mode] that d
      by (auto simp: Let_def link_ns_def nname_def split: if_splits)
  qed
  have notin: "a \<notin> set (K x)" for x using tree_kids_dom [OF fs_invD(1) [OF inv], of a x] c(2) by auto
  have "dir_map v' = (dir_map v)((d, name) \<mapsto> a)"
  proof (rule map_eqI)
    fix x :: "addr \<times> string" and y
    obtain e s where x: "x = (e, s)" by fastforce
    show "dir_map v' x = Some y \<longleftrightarrow> ((dir_map v)((d, name) \<mapsto> a)) x = Some y"
    proof (cases "y = a")
      case True
      then show ?thesis
        using dir_map_iff [OF c(1), of e s a] dir_map_iff [OF inv, of e s a] notin [of e] c(3) x by auto
    next
      case False
      have "\<not> (e = d \<and> s = name \<and> y \<in> set (K d) \<and> nname (nodes v) y = name)" using fresh by auto
      then show ?thesis
        using False dir_map_iff [OF c(1), of e s y] dir_map_iff [OF inv, of e s y] other [OF False] x by auto
    qed
  qed
  moreover have "dir_map v (d, name) = None"
    using dir_map_iff [OF inv, of d name] fresh by (metis image_eqI not_Some_eq)
  ultimately show ?thesis using Inr c by simp
qed

section \<open>Unlink and rmdir\<close>

lemma detach_dir_map:
  assumes inv: "fs_inv v K ext" and a: "nodes v a = Some n" "n_parent n = Some p" "K a = []"
    and run: "detach_and_release v a n = (r, v')"
  shows "r = None" "fs_inv v' (K(p := remove1 a (K p))) ext"
    and "dir_map v' = (dir_map v)((p, n_name n) := None)"
    and "(a \<in> dom (nodes v')) = (ext a > 0)"
    and "\<And>x. x \<noteq> a \<Longrightarrow> map_option key (nodes v' x) = map_option key (nodes v x)"
    and "nparent (nodes v') a = None"
proof -
  let ?K = "K(p := remove1 a (K p))"
  obtain v1 where v1: "detach_and_release v a n = (None, v1)" "fs_inv v1 ?K ext"
    "nodes v1 a = (if ext a = 0 then None
       else Some (n\<lparr>n_parent := None, n_next_sibling := None, n_references := n_references n - 1\<rparr>))"
    "\<And>x. x \<noteq> a \<Longrightarrow> nname (nodes v1) x = nname (nodes v) x"
    "\<And>x. x \<noteq> a \<Longrightarrow> map_option key (nodes v1 x) = map_option key (nodes v x)"
    by (rule detach_and_release_inv [OF inv a]) (rule that; assumption)
  have [simp]: "v1 = v'" and "r = None" using v1(1) run by auto
  then show "r = None" "fs_inv v' ?K ext" "(a \<in> dom (nodes v')) = (ext a > 0)"
    using v1(2,3) by (auto split: if_splits)
  show "\<And>x. x \<noteq> a \<Longrightarrow> map_option key (nodes v' x) = map_option key (nodes v x)" using v1(5) by simp
  show "nparent (nodes v') a = None" using v1(3) by (auto simp: nparent_def)
  have ain: "a \<in> set (K p)" and nm: "nname (nodes v) a = n_name n"
    using tree_parent [OF fs_invD(1) [OF inv], of a p] a by (simp_all add: nparent_def nname_def)
  have only: "b = p" if "a \<in> set (K b)" for b
    using tree_parent [OF fs_invD(1) [OF inv], of a b] a that by (simp add: nparent_def)
  have kids: "set (?K d) = set (K d) - {a}" for d
    using only tree_distinct [OF fs_invD(1) [OF inv], of p] by auto
  have uniq: "x = a" if "x \<in> set (K p)" "nname (nodes v) x = n_name n" for x
    using tree_names [OF fs_invD(1) [OF inv], of p] ain nm that by (auto simp: distinct_map inj_on_def)
  show "dir_map v' = (dir_map v)((p, n_name n) := None)"
  proof (rule map_eqI)
    fix x :: "addr \<times> string" and y
    obtain d s where x: "x = (d, s)" by fastforce
    have "dir_map v' x = Some y \<longleftrightarrow> y \<in> set (K d) \<and> y \<noteq> a \<and> nname (nodes v) y = s"
      using dir_map_iff [OF v1(2), of d s y] v1(4) [of y] unfolding x kids by (cases "y = a") simp_all
    also have "\<dots> \<longleftrightarrow> y \<in> set (K d) \<and> nname (nodes v) y = s \<and> \<not> (d = p \<and> s = n_name n)"
      using uniq [of y] only [of d] nm by (cases "y = a") auto
    also have "\<dots> \<longleftrightarrow> ((dir_map v)((p, n_name n) := None)) x = Some y"
      using dir_map_iff [OF inv, of d s y] x by auto
    finally show "dir_map v' x = Some y \<longleftrightarrow> ((dir_map v)((p, n_name n) := None)) x = Some y" .
  qed
qed

lemma ramfs_unlink_error:
  assumes "nodes v a = Some n" "n_type n = CB_NODE_DIRECTORY \<or> n_parent n = None"
  shows "\<exists>e. ramfs_unlink v a = (Some e, v)"
  using assms by (auto simp: ramfs_unlink_def detach_and_release_def)

lemma ramfs_rmdir_error:
  assumes "nodes v a = Some n" "n_type n \<noteq> CB_NODE_DIRECTORY \<or> n_children n \<noteq> None \<or> n_parent n = None"
  shows "\<exists>e. ramfs_rmdir v a = (Some e, v)"
  using assms by (auto simp: ramfs_rmdir_def detach_and_release_def)

lemma childless:
  assumes inv: "fs_inv v K ext" and a: "nodes v a = Some n"
  shows "n_children n = None \<longleftrightarrow> K a = []" "n_type n \<noteq> CB_NODE_DIRECTORY \<Longrightarrow> K a = []"
  using tree_children [OF fs_invD(1) [OF inv] a] tree_dir [OF fs_invD(1) [OF inv], of a] a
  by (cases "K a"; auto)+

text \<open>
  C23. Creating an entry in a directory refines insertion into the directory map: on success the new
  name leads to a node that did not exist before and every other name leads where it led; on any
  error no node has changed. The file system invariant (tree shape, sibling lists, unique names,
  unique inode numbers, exact reference counts) holds afterwards in both cases.
\<close>

theorem ramfs_create_refines:
  assumes "ramfs_inv v ext" and "ramfs_create v d name type mode = (r, v')"
  shows "ramfs_inv v' ext \<and>
    (case r of
       Inl e \<Rightarrow> nodes v' = nodes v
     | Inr a \<Rightarrow> nodes v a = None \<and> a \<in> dom (nodes v') \<and> dir_map v (d, name) = None \<and>
                dir_map v' = (dir_map v)((d, name) \<mapsto> a))"
proof -
  obtain K where "fs_inv v K ext" using assms(1) by (auto simp: ramfs_inv_def)
  from ramfs_create_dir_map [OF this assms(2)] show ?thesis
    by (auto simp: ramfs_inv_def split: sum.splits)
qed

text \<open>
  C24. Removing a name: \<^verbatim>\<open>ramfs_unlink\<close> succeeds exactly on a listed node that is not a directory, and
  \<^verbatim>\<open>ramfs_rmdir\<close> exactly on a listed empty directory; both then delete that one entry of the directory
  map. The node itself is freed exactly when nothing outside the tree refers to it any more, so a
  file that is still open stays usable. On any error the state is unchanged.
\<close>

theorem ramfs_remove_refines:
  assumes inv: "ramfs_inv v ext" and a: "nodes v a = Some n"
    and run: "op = ramfs_unlink \<and> good = (n_type n \<noteq> CB_NODE_DIRECTORY) \<or>
              op = ramfs_rmdir \<and> good = (n_type n = CB_NODE_DIRECTORY \<and> n_children n = None)"
    and res: "op v a = (r, v')"
  shows "ramfs_inv v' ext \<and> (r = None \<longleftrightarrow> good \<and> n_parent n \<noteq> None) \<and>
    (r \<noteq> None \<longrightarrow> v' = v) \<and>
    (r = None \<longrightarrow> dir_map v' = (dir_map v)((the (n_parent n), n_name n) := None) \<and>
                  (a \<in> dom (nodes v') \<longleftrightarrow> ext a > 0))"
proof -
  obtain K where K: "fs_inv v K ext" using inv by (auto simp: ramfs_inv_def)
  show ?thesis
  proof (cases "good \<and> n_parent n \<noteq> None")
    case False
    then have "\<exists>e. op v a = (Some e, v)"
      using run ramfs_unlink_error [OF a] ramfs_rmdir_error [OF a] by auto
    then show ?thesis using res inv False by auto
  next
    case True
    then obtain p where p: "n_parent n = Some p" by auto
    have Ka: "K a = []" using run True childless [OF K a] by auto
    have "op v a = detach_and_release v a n"
      using run True a by (auto simp: ramfs_unlink_def ramfs_rmdir_def)
    then show ?thesis
      using detach_dir_map [OF K a p Ka, of r v'] res True p by (auto simp: ramfs_inv_def)
  qed
qed

section \<open>Rename\<close>

lemma rename_dir_map:
  assumes inv: "fs_inv v K ext" and a: "nodes v a = Some n" "n_parent n = Some p"
    and d: "nodes v d = Some nd" "n_type nd = CB_NODE_DIRECTORY" "n_mount nd = n_mount n"
    and below: "(d, a) \<notin> (parent_rel (nodes v))\<^sup>*"
    and name: "valid_name name" "dir_map v (d, name) = None \<or> dir_map v (d, name) = Some a"
    and run: "ramfs_rename v a d name = (r, v')"
  shows "r = None" "fs_inv v' ((K(p := remove1 a (K p)))(d := a # remove1 a (K d))) ext"
    and "dir_map v' = (dir_map v)((p, n_name n) := None, (d, name) \<mapsto> a)"
proof -
  let ?K = "(K(p := remove1 a (K p)))(d := a # remove1 a (K d))"
  have free: "name \<notin> nname (nodes v) ` (set (K d) - {a})"
  proof
    assume "name \<in> nname (nodes v) ` (set (K d) - {a})"
    then obtain x where "x \<in> set (K d)" "x \<noteq> a" "nname (nodes v) x = name" by auto
    then show False using name(2) dir_map_iff [OF inv, of d name x] by auto
  qed
  obtain v1 where v1: "ramfs_rename v a d name = (None, v1)" "fs_inv v1 ?K ext"
    "nname (nodes v1) a = name" "\<And>x. x \<noteq> a \<Longrightarrow> nname (nodes v1) x = nname (nodes v) x"
    by (rule rename_inv [OF inv a d below name(1) free]) (rule that; assumption)
  have [simp]: "v1 = v'" and "r = None" using v1(1) run by auto
  then show "r = None" "fs_inv v' ?K ext" using v1(2) by simp_all
  have ain: "a \<in> set (K p)" and nm: "nname (nodes v) a = n_name n"
    using tree_parent [OF fs_invD(1) [OF inv], of a p] a by (simp_all add: nparent_def nname_def)
  have only: "b = p" if "a \<in> set (K b)" for b
    using tree_parent [OF fs_invD(1) [OF inv], of a b] a that by (simp add: nparent_def)
  have kids: "set (?K b) = set (K b) - {a} \<union> (if b = d then {a} else {})" for b
    using only tree_distinct [OF fs_invD(1) [OF inv]] by auto
  have uniq: "x = a" if "x \<in> set (K p)" "nname (nodes v) x = n_name n" for x
    using tree_names [OF fs_invD(1) [OF inv], of p] ain nm that by (auto simp: distinct_map inj_on_def)
  show "dir_map v' = (dir_map v)((p, n_name n) := None, (d, name) \<mapsto> a)"
  proof (rule map_eqI)
    fix x :: "addr \<times> string" and y
    obtain b s where x: "x = (b, s)" by fastforce
    show "dir_map v' x = Some y \<longleftrightarrow> ((dir_map v)((p, n_name n) := None, (d, name) \<mapsto> a)) x = Some y"
    proof (cases "y = a")
      case True
      have "dir_map v' x = Some a \<longleftrightarrow> b = d \<and> s = name"
        using dir_map_iff [OF v1(2), of b s a] v1(3) unfolding x kids by (cases "b = d") auto
      moreover have "\<not> (b = p \<and> s = n_name n) \<longrightarrow> dir_map v (b, s) \<noteq> Some a"
        using dir_map_iff [OF inv, of b s a] only [of b] nm by auto
      ultimately show ?thesis using True x by auto
    next
      case False
      have "dir_map v' x = Some y \<longleftrightarrow> y \<in> set (K b) \<and> nname (nodes v) y = s"
        using dir_map_iff [OF v1(2), of b s y] v1(4) [OF False] False unfolding x kids by simp
      then have "dir_map v' x = Some y \<longleftrightarrow> dir_map v (b, s) = Some y"
        using dir_map_iff [OF inv, of b s y] by simp
      moreover have "dir_map v (p, n_name n) \<noteq> Some y"
        using dir_map_iff [OF inv, of p "n_name n" y] uniq [of y] False by auto
      moreover have "dir_map v (d, name) \<noteq> Some y" using name(2) False by auto
      ultimately show ?thesis using False x by auto
    qed
  qed
qed

lemma ramfs_rename_inv:
  assumes inv: "ramfs_inv v ext" and a: "nodes v a = Some n" "n_parent n = Some p"
    and d: "nodes v d = Some nd" "n_type nd = CB_NODE_DIRECTORY" "n_mount nd = n_mount n"
    and below: "(d, a) \<notin> (parent_rel (nodes v))\<^sup>*"
    and name: "valid_name name" "dir_map v (d, name) = None \<or> dir_map v (d, name) = Some a"
    and run: "ramfs_rename v a d name = (r, v')"
  shows "r = None \<and> ramfs_inv v' ext \<and> acyclic (parent_rel (nodes v')) \<and>
    dir_map v' = (dir_map v)((p, n_name n) := None, (d, name) \<mapsto> a)"
proof -
  obtain K where K: "fs_inv v K ext" using inv by (auto simp: ramfs_inv_def)
  note r = rename_dir_map [OF K a d below name run]
  show ?thesis using r tree_acyclic [OF fs_invD(1) [OF r(2)]] by (auto simp: ramfs_inv_def)
qed

text \<open>
  C25. Renaming refines the move of a key of the directory map: the old name is gone, the new one
  leads to the same node, every other name is untouched and the invariant holds, provided the new
  place is a directory of the same mount that does not lie inside the node being moved and does not
  already hold another node under that name. In particular the tree stays free of cycles.
\<close>

theorem ramfs_rename_refines:
  assumes inv: "ramfs_inv v ext" and a: "nodes v a = Some n" "n_parent n = Some p"
    and d: "nodes v d = Some nd" "n_type nd = CB_NODE_DIRECTORY" "n_mount nd = n_mount n"
    and below: "(d, a) \<notin> (parent_rel (nodes v))\<^sup>*"
    and name: "valid_name name" "dir_map v (d, name) = None \<or> dir_map v (d, name) = Some a"
    and run: "ramfs_rename v a d name = (r, v')"
  shows "r = None \<and> ramfs_inv v' ext \<and> acyclic (parent_rel (nodes v')) \<and>
    dir_map v' = (dir_map v)((p, n_name n) := None, (d, name) \<mapsto> a)"
  by (rule ramfs_rename_inv [OF assms])

section \<open>References\<close>

lemma no_external_refs:
  assumes inv: "fs_inv v K ext" and none: "\<And>a. ext a = 0"
  shows "nodes v = Map.empty"
proof (rule ccontr)
  assume "nodes v \<noteq> Map.empty"
  then have ne: "dom (nodes v) \<noteq> {}" by simp
  note i = fs_invD [OF inv]
  let ?r = "parent_rel (nodes v)"
  have "finite ?r"
  proof (rule finite_subset [of _ "dom (nodes v) \<times> dom (nodes v)"])
    show "?r \<subseteq> dom (nodes v) \<times> dom (nodes v)"
      using tree_parent_dir [OF i(1)] by (fastforce simp: parent_rel_def dest: nparent_SomeD)
  qed (simp add: fs_finite [OF i(3)])
  then have "wf (?r\<inverse>)" using tree_acyclic [OF i(1)] finite_acyclic_wf_converse by blast
  then obtain a where a: "a \<in> dom (nodes v)" "\<And>b. (b, a) \<in> ?r\<inverse> \<Longrightarrow> b \<notin> dom (nodes v)"
    using ne by (metis all_not_in_conv wfE_min)
  then obtain n where n: "nodes v a = Some n" by auto
  have "n_parent n \<noteq> None" using refs_wfD(1,2) [OF i(2) n] none [of a] by (auto split: if_splits)
  then obtain p where "nparent (nodes v) a = Some p" using n by (auto simp: nparent_def)
  then show False using a(2) [of p] tree_parent_dir [OF i(1)] by (auto simp: parent_rel_def)
qed

lemma ramfs_release_inv:
  assumes "ramfs_inv v ext" "ext c > 0"
  shows "ramfs_inv (ramfs_node_release v c) (ext(c := ext c - 1))"
    and "survives (nodes v) (nodes (ramfs_node_release v c))"
proof -
  obtain K where K: "fs_inv v K ext" using assms(1) by (auto simp: ramfs_inv_def)
  obtain K' where K': "fs_inv (ramfs_node_release v c) K' (ext(c := ext c - 1))"
    "survives (nodes v) (nodes (ramfs_node_release v c))"
    by (rule ramfs_node_release_inv [OF K assms(2)]) (rule that; assumption)
  then show "ramfs_inv (ramfs_node_release v c) (ext(c := ext c - 1))"
    "survives (nodes v) (nodes (ramfs_node_release v c))" unfolding ramfs_inv_def by blast+
qed

text \<open>
  C26. Releasing one outside reference to a node takes exactly that reference away: the counts stay
  exact, so a node is freed when and only when the last reference is gone, every node that is left
  keeps its contents, and once nothing outside refers to any node no node is left at all.
\<close>

theorem ramfs_release_exact:
  assumes "ramfs_inv v ext" "ext c > 0"
  shows "ramfs_inv (ramfs_node_release v c) (ext(c := ext c - 1)) \<and>
    survives (nodes v) (nodes (ramfs_node_release v c)) \<and>
    ((\<forall>a. (ext(c := ext c - 1)) a = 0) \<longrightarrow> nodes (ramfs_node_release v c) = Map.empty)"
  using ramfs_release_inv [OF assms] no_external_refs unfolding ramfs_inv_def by blast

section \<open>Mounts\<close>

text \<open>The fields of the state that the tree does not depend on.\<close>

lemma ramfs_inv_other_fields [simp]:
  "ramfs_inv (v\<lparr>mount_objs := x\<rparr>) ext = ramfs_inv v ext"
  "ramfs_inv (v\<lparr>next_device := k\<rparr>) ext = ramfs_inv v ext"
  "ramfs_inv (v\<lparr>root_mount := rm\<rparr>) ext = ramfs_inv v ext"
  "ramfs_inv (v\<lparr>mount_table := mt\<rparr>) ext = ramfs_inv v ext"
  "ramfs_inv (v\<lparr>vfs_root := vr\<rparr>) ext = ramfs_inv v ext"
  "ramfs_inv (v\<lparr>program_count := pc\<rparr>) ext = ramfs_inv v ext"
  by (simp_all add: ramfs_inv_def fs_inv_def stored_ok_def)

lemma ramfs_inv_host:
  "ramfs_inv v ext \<Longrightarrow> alloc_seq (v_host v) \<le> alloc_seq h \<Longrightarrow> ramfs_inv (v\<lparr>v_host := h\<rparr>) ext"
  unfolding ramfs_inv_def using fs_inv_host by blast

lemma find_child_cong:
  "nodes v' = nodes v \<Longrightarrow> alloc_seq (v_host v') = alloc_seq (v_host v) \<Longrightarrow> find_child v' = find_child v"
  by (rule ext)+ (simp add: find_child_def children_list_def walk_fuel_def has_name_def [abs_def])

lemma ramfs_lookup_cong:
  "nodes v' = nodes v \<Longrightarrow> alloc_seq (v_host v') = alloc_seq (v_host v) \<Longrightarrow> ramfs_lookup v' = ramfs_lookup v"
  using find_child_cong [of v' v] by (auto simp: fun_eq_iff ramfs_lookup_def split: option.splits)

lemma ramfs_lookup_other_fields [simp]: "ramfs_lookup (v\<lparr>mount_objs := x\<rparr>) = ramfs_lookup v"
  by (rule ramfs_lookup_cong) simp_all

lemma dir_map_other_fields [simp]: "dir_map (v\<lparr>mount_objs := x\<rparr>) = dir_map v"
  by (simp add: dir_map_def)

text \<open>\<open>dir_on m v d\<close>: \<open>d\<close> is a live directory of mount \<open>m\<close>.\<close>

definition dir_on :: "addr \<Rightarrow> vfs_state \<Rightarrow> addr \<Rightarrow> bool" where
  "dir_on m v d \<longleftrightarrow> (\<exists>nd. nodes v d = Some nd \<and> n_type nd = CB_NODE_DIRECTORY \<and> n_mount nd = m)"

lemma node_create_in:
  assumes inv: "ramfs_inv v ext" and d: "dir_on m v d"
    and name: "valid_name name" "dir_map v (d, name) = None"
    and run: "node_create v m (Some d) name CB_NODE_DIRECTORY mode = (r, v')"
  shows "ramfs_inv v' ext" "dir_on m v x \<Longrightarrow> dir_on m v' x" "mount_objs v' = mount_objs v"
    and "r = Some a \<Longrightarrow> dir_on m v' a \<and> nodes v a = None \<and> dir_map v' = (dir_map v)((d, name) \<mapsto> a)"
proof -
  obtain K where K: "fs_inv v K ext" using inv by (auto simp: ramfs_inv_def)
  obtain nd where nd: "nodes v d = Some nd" "n_type nd = CB_NODE_DIRECTORY" "n_mount nd = m"
    using d by (auto simp: dir_on_def)
  have "find_child v nd name = None"
    using name(2) nd by (auto simp: dir_map_def ramfs_lookup_def split: option.splits)
  then have cr: "ramfs_create v d name CB_NODE_DIRECTORY mode =
      (case r of None \<Rightarrow> Inl CB_ENOMEM | Some a \<Rightarrow> Inr a, v')"
    using name(1) nd run by (simp add: ramfs_create_def valid_name_def split: option.splits)
  note c = ramfs_create_dir_map [OF K cr]
  show "ramfs_inv v' ext" using c by (auto simp: ramfs_inv_def split: option.splits)
  have "d \<noteq> alloc_seq (v_host v)" using stored_okD(1) [OF fs_invD(3) [OF K] nd(1)] by simp
  note nc = node_create_child [OF nd(1) this, of m name CB_NODE_DIRECTORY mode]
  show "mount_objs v' = mount_objs v" using run nc by (auto simp: Let_def split: if_splits)
  have fresh: "nodes v (alloc_seq (v_host v)) = None"
    using stored_okD(1) [OF fs_invD(3) [OF K]] by fastforce
  show "dir_on m v' x" if "dir_on m v x"
    using run nc that nd fresh by (auto simp: Let_def dir_on_def link_ns_def split: if_splits)
  show "dir_on m v' a \<and> nodes v a = None \<and> dir_map v' = (dir_map v)((d, name) \<mapsto> a)" if "r = Some a"
  proof -
    have "a = alloc_seq (v_host v)" "a \<noteq> d" using run nc that nd fresh by (auto simp: Let_def split: if_splits)
    then have "dir_on m v' a"
      using run nc that by (auto simp: Let_def dir_on_def link_ns_def new_node_def split: if_splits)
    then show ?thesis using c that by simp
  qed
qed

lemma node_create_root_in:
  assumes inv: "ramfs_inv v ext" and run: "node_create v m None name CB_NODE_DIRECTORY mode = (r, v')"
  shows "r = None \<Longrightarrow> ramfs_inv v' ext"
    and "r = Some a \<Longrightarrow> ramfs_inv v' (ext(a := 1)) \<and> dir_on m v' a \<and> nodes v a = None \<and>
           (\<forall>s. dir_map v' (a, s) = None)"
    and "mount_objs v' = mount_objs v"
proof -
  obtain K where K: "fs_inv v K ext" using inv by (auto simp: ramfs_inv_def)
  note i = fs_invD [OF K]
  have fresh: "nodes v (alloc_seq (v_host v)) = None"
    using stored_okD(1) [OF i(3)] by fastforce
  note nc = node_create_root [of v m name CB_NODE_DIRECTORY mode]
  show "mount_objs v' = mount_objs v" using run nc by (auto simp: Let_def split: if_splits)
  show "ramfs_inv v' ext" if "r = None"
    using that run nc ramfs_inv_host [OF inv] by (auto simp: Let_def split: if_splits)
  assume r: "r = Some a"
  let ?h = "v_host v" and ?s = "alloc_seq (v_host v)"
  let ?n = "new_node v m name CB_NODE_DIRECTORY mode (wall_clock ?h (wall_seq ?h))"
  have a: "a = ?s" and v': "v' = v\<lparr>v_host := ?h\<lparr>alloc_seq := ?s + 2, wall_seq := wall_seq ?h + 1\<rparr>,
      next_inode := next_inode v + 1, nodes := (nodes v)(a \<mapsto> ?n)\<rparr>"
    using run nc r by (auto simp: Let_def split: if_splits)
  have t: "tree_wf {} (nodes v') K"
    using add_step [OF i(1), of a ?n] fresh a by (simp add: v' new_node_def)
  moreover have "refs_wf {} (nodes v') (ext(a := 1))"
    using refs_wf_upd [OF i(2), of ?n 1 a] by (simp add: v' new_node_def)
  moreover have "stored_ok v'"
    by (rule stored_ok_new [OF i(3), of _ a])
      (use a stored_okD(2) [OF i(3)] in \<open>auto simp: v' new_node_def data_ok_def\<close>)
  ultimately have inv': "fs_inv v' K (ext(a := 1))" by (simp add: fs_inv_def)
  moreover have "dir_map v' (a, s) = None" for s
    using dir_map_iff [OF inv', of a s] tree_dir [OF i(1), of a] fresh a
    by (metis empty_iff empty_set not_None_eq)
  ultimately show "ramfs_inv v' (ext(a := 1)) \<and> dir_on m v' a \<and> nodes v a = None \<and> (\<forall>s. dir_map v' (a, s) = None)"
    using fresh a by (auto simp: ramfs_inv_def dir_on_def v' new_node_def)
qed

lemma ramfs_mount_destroy_inv:
  assumes "ramfs_inv v ext" "\<And>r. ramfs_mount_root v m = Some r \<Longrightarrow> ext r > 0"
  shows "ramfs_inv (ramfs_mount_destroy v m)
           (case ramfs_mount_root v m of None \<Rightarrow> ext | Some r \<Rightarrow> ext(r := ext r - 1))"
proof (cases "ramfs_mount_root v m")
  case None
  then show ?thesis using assms(1) by (simp add: ramfs_mount_destroy_def)
next
  case (Some r)
  then have "ramfs_inv (ramfs_node_release v r) (ext(r := ext r - 1))"
    using ramfs_release_inv(1) [OF assms(1)] assms(2) by blast
  then show ?thesis using Some by (simp add: ramfs_mount_destroy_def Let_def)
qed

text \<open>One more directory below the root while a mount is being built.\<close>

definition building :: "addr \<Rightarrow> addr \<Rightarrow> (addr \<Rightarrow> nat) \<Rightarrow> vfs_state \<Rightarrow> bool" where
  "building m root ext v \<longleftrightarrow>
     ramfs_inv v (ext(root := 1)) \<and> dir_on m v root \<and> ramfs_mount_root v m = Some root"

lemma building_step:
  assumes b: "building m root ext v" and d: "dir_on m v d"
    and name: "valid_name name" "dir_map v (d, name) = None"
    and run: "node_create v m (Some d) name CB_NODE_DIRECTORY mode = (r, v')"
  shows "building m root ext v'" "r = Some a \<Longrightarrow> dir_on m v' a"
    "r = Some a \<Longrightarrow> dir_map v' = (dir_map v)((d, name) \<mapsto> a)" "r = Some a \<Longrightarrow> nodes v a = None"
proof -
  have inv: "ramfs_inv v (ext(root := 1))" and dr: "dir_on m v root" and mr: "ramfs_mount_root v m = Some root"
    using b by (auto simp: building_def)
  note c = node_create_in [OF inv d name run]
  show "building m root ext v'" using c(1,3) c(2) [OF dr] mr by (simp add: building_def ramfs_mount_root_def)
  show "r = Some a \<Longrightarrow> dir_on m v' a" "r = Some a \<Longrightarrow> dir_map v' = (dir_map v)((d, name) \<mapsto> a)"
    "r = Some a \<Longrightarrow> nodes v a = None" using c(4) by auto
qed

lemma building_fail:
  assumes "building m root ext v" "ext root = 0"
  shows "ramfs_inv (ramfs_mount_destroy v m) ext"
proof -
  have "(ext(root := 1))(root := (ext(root := 1)) root - 1) = ext" using assms(2) by auto
  then show ?thesis
    using ramfs_mount_destroy_inv [of v "ext(root := 1)" m] assms(1) by (simp add: building_def)
qed

lemma dir_map_fresh: "ramfs_inv v ext \<Longrightarrow> nodes v a = None \<Longrightarrow> dir_map v (a, s) = None"
  by (simp add: dir_map_def ramfs_lookup_def)

text \<open>What \<^verbatim>\<open>cb_ramfs_mount_create\<close> does after the first directory.\<close>

definition populate_rest :: "vfs_state \<Rightarrow> addr \<Rightarrow> addr \<Rightarrow> addr option \<times> vfs_state" where
  "populate_rest v m root =
     (case node_create v m (Some root) ''tmp'' CB_NODE_DIRECTORY 511 of
        (None, v5) \<Rightarrow> (None, ramfs_mount_destroy v5 m)
      | (Some tmp, v5) \<Rightarrow>
          (case node_create v5 m (Some root) ''home'' CB_NODE_DIRECTORY 493 of
             (None, v6) \<Rightarrow> (None, ramfs_mount_destroy v6 m)
           | (Some home, v6) \<Rightarrow>
               (case node_create v6 m (Some home) ''user'' CB_NODE_DIRECTORY 493 of
                  (None, v7) \<Rightarrow> (None, ramfs_mount_destroy v7 m)
                | (Some user, v7) \<Rightarrow> (Some m, v7))))"

definition populated :: "vfs_state \<Rightarrow> addr \<Rightarrow> bool" where
  "populated v root \<longleftrightarrow>
     {s. dir_map v (root, s) \<noteq> None} = {''bin'', ''tmp'', ''home''} \<and>
     (\<exists>home. dir_map v (root, ''home'') = Some home \<and> {s. dir_map v (home, s) \<noteq> None} = {''user''})"

lemma populate_rest_ok:
  assumes b: "building m root ext v" and bin: "\<And>s. dir_map v (root, s) = (if s = ''bin'' then Some bin else None)"
    and z: "ext root = 0"
  shows "case populate_rest v m root of
      (None, v') \<Rightarrow> ramfs_inv v' ext
    | (Some m', v') \<Rightarrow> m' = m \<and> building m root ext v' \<and> populated v' root"
proof -
  have valid: "valid_name ''tmp''" "valid_name ''home''" "valid_name ''user''"
    by (simp_all add: valid_name_def)
  have dr: "dir_on m w root" if "building m root ext w" for w using that by (simp add: building_def)
  obtain r5 v5 where 5: "node_create v m (Some root) ''tmp'' CB_NODE_DIRECTORY 511 = (r5, v5)" by fastforce
  have "dir_map v (root, ''tmp'') = None" using bin by simp
  note c5 = building_step [OF b dr [OF b] valid(1) this 5]
  show ?thesis
  proof (cases r5)
    case None
    then show ?thesis using 5 building_fail [OF c5(1) z] by (simp add: populate_rest_def)
  next
    case tmp: (Some tmp)
    obtain r6 v6 where 6: "node_create v5 m (Some root) ''home'' CB_NODE_DIRECTORY 493 = (r6, v6)" by fastforce
    have m5: "dir_map v5 = (dir_map v)((root, ''tmp'') \<mapsto> tmp)" using c5(3) [OF tmp] .
    have "dir_map v5 (root, ''home'') = None" using m5 bin by simp
    note c6 = building_step [OF c5(1) dr [OF c5(1)] valid(2) this 6]
    show ?thesis
    proof (cases r6)
      case None
      then show ?thesis using 5 6 tmp building_fail [OF c6(1) z] by (simp add: populate_rest_def)
    next
      case home: (Some home)
      obtain r7 v7 where 7: "node_create v6 m (Some home) ''user'' CB_NODE_DIRECTORY 493 = (r7, v7)" by fastforce
      have m6: "dir_map v6 = (dir_map v5)((root, ''home'') \<mapsto> home)" using c6(3) [OF home] .
      have hr: "home \<noteq> root" using c6(4) [OF home] dr [OF c5(1)] by (auto simp: dir_on_def)
      have e6: "dir_map v6 (home, s) = None" for s
        using m6 hr c6(4) [OF home] by (simp add: dir_map_def ramfs_lookup_def)
      note c7 = building_step [OF c6(1) c6(2) [OF home] valid(3) e6 7]
      show ?thesis
      proof (cases r7)
        case None
        then show ?thesis using 5 6 7 tmp home building_fail [OF c7(1) z] by (simp add: populate_rest_def)
      next
        case user: (Some user)
        have m7: "dir_map v7 = (dir_map v6)((home, ''user'') \<mapsto> user)" using c7(3) [OF user] .
        have "populated v7 root"
          unfolding populated_def m7 using m6 m5 bin hr e6 by auto
        then show ?thesis using 5 6 7 tmp home user c7(1) by (simp add: populate_rest_def)
      qed
    qed
  qed
qed

lemma ramfs_mount_create_inv:
  assumes inv: "ramfs_inv v ext" and run: "cb_ramfs_mount_create v = (r, v')"
  shows "case r of
      None \<Rightarrow> ramfs_inv v' ext
    | Some m \<Rightarrow> (\<exists>root. ramfs_mount_root v' m = Some root \<and> nodes v root = None \<and>
        ramfs_inv v' (ext(root := 1)) \<and> populated v' root)"
proof -
  have valid: "valid_name ''bin''" "valid_name ''tmp''" "valid_name ''home''" "valid_name ''user''"
    by (simp_all add: valid_name_def)
  have z: "ext a = 0" if "nodes v a = None" for a
    using inv that refs_wfD(3) unfolding ramfs_inv_def fs_inv_def by fastforce
  define h where "h = (v_host v)\<lparr>alloc_seq := alloc_seq (v_host v) + 1\<rparr>"
  define m where "m = alloc_seq (v_host v)"
  show ?thesis
  proof (cases "alloc_ok (v_host v) m")
    case False
    then show ?thesis
      using run ramfs_inv_host [OF inv, of h] by (auto simp: cb_ramfs_mount_create_def cb_allocate_def m_def h_def)
  next
    case True
    define v1 where "v1 = v\<lparr>v_host := h, next_device := next_device v + 1,
      mount_objs := (mount_objs v)(m \<mapsto> \<lparr>m_root = None, m_device = next_device v + 1\<rparr>)\<rparr>"
    have inv1: "ramfs_inv v1 ext" using ramfs_inv_host [OF inv, of h] by (simp add: v1_def h_def)
    obtain r2 v2 where 2: "node_create v1 m None [] CB_NODE_DIRECTORY 493 = (r2, v2)" by fastforce
    note c2 = node_create_root_in [OF inv1 2]
    show ?thesis
    proof (cases r2)
      case None
      have "mount_objs v2 m = Some \<lparr>m_root = None, m_device = next_device v + 1\<rparr>"
        using c2(3) by (simp add: v1_def)
      then have "ramfs_inv (ramfs_mount_destroy v2 m) ext"
        using c2(1) [OF None] by (simp add: ramfs_mount_destroy_def ramfs_mount_root_def)
      moreover have "r = None" "v' = ramfs_mount_destroy v2 m"
        using run True 2 None unfolding cb_ramfs_mount_create_def cb_allocate_def m_def v1_def h_def
        by (simp_all add: Let_def)
      ultimately show ?thesis by simp
    next
      case (Some root)
      define v3 where "v3 = v2\<lparr>mount_objs := (mount_objs v2)(m \<mapsto> \<lparr>m_root = Some root, m_device = next_device v + 1\<rparr>)\<rparr>"
      have r3: "ramfs_inv v2 (ext(root := 1))" "dir_on m v2 root" "nodes v root = None"
        "\<And>s. dir_map v2 (root, s) = None"
        using c2(2) [OF Some] by (simp_all add: v1_def)
      have b3: "building m root ext v3" and d3: "dir_on m v3 root" and e3: "\<And>s. dir_map v3 (root, s) = None"
        using r3 by (simp_all add: building_def v3_def ramfs_mount_root_def dir_on_def)
      obtain r4 v4 where 4: "node_create v3 m (Some root) ''bin'' CB_NODE_DIRECTORY 493 = (r4, v4)" by fastforce
      note c4 = building_step [OF b3 d3 valid(1) e3 4]
      have start: "cb_ramfs_mount_create v =
          (case r4 of None \<Rightarrow> (None, ramfs_mount_destroy v4 m)
           | Some bin \<Rightarrow> populate_rest v4 m root)"
        using True 2 Some 4 unfolding cb_ramfs_mount_create_def cb_allocate_def populate_rest_def m_def v1_def v3_def h_def
        by (simp add: Let_def split: option.splits)
      show ?thesis
      proof (cases r4)
        case None
        then show ?thesis using run start building_fail [OF c4(1) z [OF r3(3)]] by simp
      next
        case (Some bin)
        have "dir_map v4 (root, s) = (if s = ''bin'' then Some bin else None)" for s
          using c4(3) [OF Some] e3 by simp
        then show ?thesis
          using populate_rest_ok [OF c4(1) _ z [OF r3(3)], of bin] run start Some r3(3)
          by (auto simp: building_def split: option.splits)
      qed
    qed
  qed
qed


section \<open>A small file system\<close>

text \<open>A host that never refuses memory, an empty file system on it, and the first mount.\<close>

definition sample_host :: host where
  "sample_host = \<lparr>alloc_ok = (\<lambda>_. True), alloc_seq = 0, junk = (\<lambda>_ _. CHR ''x''),
     wall_clock = (\<lambda>n. n), wall_seq = 0, monotonic = (\<lambda>n. n), monotonic_seq = 0\<rparr>"

definition blank_vfs :: "host \<Rightarrow> vfs_state" where
  "blank_vfs h = \<lparr>v_host = h, nodes = Map.empty, mount_objs = Map.empty, next_inode = 0,
     next_device = 0, program_count = 0, root_mount = None, mount_table = [], vfs_root = None\<rparr>"

definition sample_fs :: vfs_state where
  "sample_fs = snd (cb_ramfs_mount_create (blank_vfs sample_host))"

lemma blank_inv: "ramfs_inv (blank_vfs h) (\<lambda>_. 0)"
proof -
  have "tree_wf {} (nodes (blank_vfs h)) (\<lambda>_. [])"
    by (rule tree_wfI) (auto simp: blank_vfs_def field_defs parent_rel_def acyclic_def)
  moreover have "refs_wf {} (nodes (blank_vfs h)) (\<lambda>_. 0)" by (rule refs_wfI) (auto simp: blank_vfs_def)
  moreover have "stored_ok (blank_vfs h)" by (simp add: stored_ok_def blank_vfs_def)
  ultimately show ?thesis unfolding ramfs_inv_def fs_inv_def by blast
qed

lemma sample_fs_root:
  "cb_ramfs_mount_create (blank_vfs sample_host) = (Some 0, sample_fs)"
  "ramfs_mount_root sample_fs 0 = Some 1"
proof -
  have "fst (cb_ramfs_mount_create (blank_vfs sample_host)) = Some 0" by code_simp
  then show "cb_ramfs_mount_create (blank_vfs sample_host) = (Some 0, sample_fs)"
    by (simp add: sample_fs_def prod_eq_iff)
  show "ramfs_mount_root sample_fs 0 = Some 1" by code_simp
qed

lemma sample_fs_inv: "ramfs_inv sample_fs ((\<lambda>_. 0)(1 := 1))"
  using ramfs_mount_create_inv [OF blank_inv sample_fs_root(1)] sample_fs_root(2) by simp

lemma sample_fs_nodes:
  "map_option n_type (nodes sample_fs 1) = Some CB_NODE_DIRECTORY"
  "map_option n_parent (nodes sample_fs 1) = Some None"
  "map_option n_mount (nodes sample_fs 1) = Some 0"
  "map_option n_type (nodes sample_fs 9) = Some CB_NODE_DIRECTORY"
  "map_option n_parent (nodes sample_fs 9) = Some (Some 7)"
  "map_option n_name (nodes sample_fs 9) = Some ''user''"
  "map_option n_children (nodes sample_fs 9) = Some None"
  "map_option n_mount (nodes sample_fs 9) = Some 0"
  by code_simp+

theorem ramfs_create_refines_witness:
  "\<exists>v'. ramfs_create sample_fs 1 ''f'' CB_NODE_REGULAR 420 = (Inr 11, v') \<and>
     dir_map v' = (dir_map sample_fs)((1, ''f'') \<mapsto> 11)"
proof -
  obtain r v' where run: "ramfs_create sample_fs 1 ''f'' CB_NODE_REGULAR 420 = (r, v')" by fastforce
  have "fst (ramfs_create sample_fs 1 ''f'' CB_NODE_REGULAR 420) = Inr 11" by code_simp
  then show ?thesis using run ramfs_create_refines [OF sample_fs_inv run] by auto
qed

theorem ramfs_remove_refines_witness:
  "\<exists>v'. ramfs_rmdir sample_fs 9 = (None, v') \<and> 9 \<notin> dom (nodes v') \<and>
     dir_map v' = (dir_map sample_fs)((7, ''user'') := None)"
proof -
  obtain n where n: "nodes sample_fs 9 = Some n" "n_type n = CB_NODE_DIRECTORY" "n_children n = None"
    "n_parent n = Some 7" "n_name n = ''user''"
    using sample_fs_nodes by auto
  obtain r v' where run: "ramfs_rmdir sample_fs 9 = (r, v')" by fastforce
  show ?thesis
    using ramfs_remove_refines [OF sample_fs_inv n(1) disjI2 [OF conjI [OF refl refl]] run] n run by auto
qed

theorem ramfs_rename_refines_witness:
  "\<exists>v'. ramfs_rename sample_fs 9 1 ''u'' = (None, v') \<and>
     dir_map v' = (dir_map sample_fs)((7, ''user'') := None, (1, ''u'') \<mapsto> 9)"
proof -
  obtain n where n: "nodes sample_fs 9 = Some n" "n_parent n = Some 7" "n_name n = ''user''" "n_mount n = 0"
    using sample_fs_nodes by auto
  obtain nd where nd: "nodes sample_fs 1 = Some nd" "n_type nd = CB_NODE_DIRECTORY" "n_mount nd = 0"
    "n_parent nd = None"
    using sample_fs_nodes by auto
  have "(1, 9) \<notin> (parent_rel (nodes sample_fs))\<^sup>*"
    using nd by (auto simp: parent_rel_def nparent_def elim: converse_rtranclE)
  moreover have "dir_map sample_fs (1, ''u'') = None" by code_simp
  moreover obtain r v' where run: "ramfs_rename sample_fs 9 1 ''u'' = (r, v')" by fastforce
  moreover have "valid_name ''u''" by (simp add: valid_name_def)
  ultimately show ?thesis
    using ramfs_rename_refines [OF sample_fs_inv n(1,2) nd(1,2) _ _ _ _ run] n nd by auto
qed

theorem ramfs_release_exact_witness:
  "nodes (ramfs_node_release sample_fs 1) = Map.empty"
  using ramfs_release_exact [OF sample_fs_inv, of 1] by simp


section \<open>The loops over siblings end\<close>

lemma find_link_more: "find_link fuel ns l a = Some x \<Longrightarrow> fuel \<le> fuel' \<Longrightarrow> find_link fuel' ns l a = Some x"
proof (induction fuel arbitrary: l fuel')
  case (Suc f)
  then obtain f' where "fuel' = Suc f'" by (cases fuel') auto
  then show ?case using Suc.prems Suc.IH [of _ f'] by (cases "read_link ns l") (auto split: if_splits)
qed simp

text \<open>
  C28. The loops that follow the pointers between the entries of a directory end: allowed any number of
  steps from \<open>walk_fuel v\<close> on, the walk over the entries visits the same finite list, without
  repetition, and the search for the link to an entry, which \<^verbatim>\<open>unlink\<close> and \<^verbatim>\<open>rename\<close> make, finds the same link.
\<close>

theorem directory_loops_end:
  assumes "ramfs_inv v ext" "nodes v d = Some nd" "nodes v a = Some n" "n_parent n = Some d" "walk_fuel v \<le> fuel"
  shows "sib_walk fuel (nodes v) (n_children nd) = children_list v nd \<and> distinct (children_list v nd) \<and>
    a \<in> set (children_list v nd) \<and>
    (\<exists>l. find_link (walk_fuel v) (nodes v) (HeadOf d) a = Some l \<and> find_link fuel (nodes v) (HeadOf d) a = Some l \<and>
       read_link (nodes v) l = Some a)"
proof -
  obtain K where K: "fs_inv v K ext" using assms(1) by (auto simp: ramfs_inv_def)
  note wf = fs_invD(1) [OF K] and list = children_list_eq [OF K assms(2)]
  have less: "length (K d) < fuel" "length (K d) \<le> walk_fuel v" using fs_fuel [OF K, of d] assms(5) by simp_all
  have "sib_walk fuel (nodes v) (n_children nd) = K d"
    using sib_walk_seg [OF tree_seg [OF wf, of d] less(1)] tree_children [OF wf assms(2)] by simp
  moreover obtain l where l: "find_link (walk_fuel v) (nodes v) (HeadOf d) a = Some l"
    using unlink_found [OF wf assms(3,4) _ less(2)] by blast
  moreover have "read_link ns l = Some a" if "find_link f ns l0 a = Some l" for f ns l0
    using that by (induction f arbitrary: l0) (auto split: option.splits if_splits)
  moreover obtain pre post where "K d = pre @ a # post"
    by (rule tree_split [OF wf, of a d]) (use assms(3,4) in \<open>auto simp: nparent_def\<close>)
  ultimately show ?thesis using list tree_distinct [OF wf, of d] find_link_more [OF l assms(5)] by auto
qed

theorem directory_loops_end_witness:
  "sib_walk 1000 (nodes sample_fs) (n_children (the (nodes sample_fs 7))) = children_list sample_fs (the (nodes sample_fs 7))"
proof -
  have s: "map_option (\<lambda>n. n_parent n) (nodes sample_fs 9) = Some (Some 7)" by (rule sample_fs_nodes)
  then obtain n where n: "nodes sample_fs 9 = Some n" "n_parent n = Some 7" by auto
  have "nodes sample_fs 7 \<noteq> None" by code_simp
  then obtain nd where nd: "nodes sample_fs 7 = Some nd" by blast
  have "walk_fuel sample_fs \<le> 1000" by code_simp
  from directory_loops_end [OF sample_fs_inv nd n this] show ?thesis using nd by simp
qed

end
