(* ===== verification/RamFs_Data.thy ===== *)
theory RamFs_Data
  imports RamFs_Dir
begin

text \<open>
  The contents of files in \<^verbatim>\<open>src/ramfs.c\<close>: reading, writing, truncating and seeking, against the
  plain byte string a file stands for. The buffer behind it is larger than the file, grows by
  doubling and may hold anything past the end of the file.
\<close>

section \<open>Contents\<close>

definition content :: "ramfs_node \<Rightarrow> byte list" where
  "content n = take (n_size n) (n_data n)"

lemma length_content [simp]: "data_ok n \<Longrightarrow> length (content n) = n_size n"
  by (simp add: content_def data_ok_def)

lemma content_atime [simp]: "content (n\<lparr>n_atime := t\<rparr>) = content n"
  by (simp add: content_def)

text \<open>Writing a block into a byte string; a gap before the block is filled with zeros.\<close>

definition overwrite :: "byte list \<Rightarrow> nat \<Rightarrow> byte list \<Rightarrow> byte list" where
  "overwrite old start block =
     take start (old @ replicate (start - length old) NUL) @ block @ drop (start + length block) old"

definition resize_content :: "byte list \<Rightarrow> nat \<Rightarrow> byte list" where
  "resize_content old len = take len (old @ replicate (len - length old) NUL)"

lemma length_overwrite: "length (overwrite old start block) = max (length old) (start + length block)"
  by (auto simp: overwrite_def max_def)

lemma length_resize_content [simp]: "length (resize_content old len) = len"
  by (simp add: resize_content_def)

lemma overwrite_block: "take (length block) (drop start (overwrite old start block)) = block"
  by (simp add: overwrite_def)

lemma overwrite_before:
  "i < start \<Longrightarrow> i < length (overwrite old start block) \<Longrightarrow>
     overwrite old start block ! i = (if i < length old then old ! i else NUL)"
  by (auto simp: overwrite_def nth_append)

section \<open>The doubling loop\<close>

lemma grow_capacity_spec:
  "0 < capacity \<Longrightarrow> capacity \<le> SIZE_MAX \<Longrightarrow> needed \<le> SIZE_MAX \<Longrightarrow>
     needed \<le> grow_capacity capacity needed \<and> capacity \<le> grow_capacity capacity needed \<and>
     grow_capacity capacity needed \<le> SIZE_MAX"
proof (induction capacity needed rule: grow_capacity.induct)
  case (1 capacity needed)
  show ?case
  proof (cases "capacity < needed")
    case False
    then show ?thesis using 1 by (simp add: grow_capacity.simps [of capacity needed])
  next
    case True
    show ?thesis
    proof (cases "capacity > SIZE_MAX div 2")
      case True
      then show ?thesis using 1 \<open>capacity < needed\<close> by (simp add: grow_capacity.simps [of capacity needed])
    next
      case False
      then have "capacity * 2 \<le> SIZE_MAX" by (simp add: SIZE_MAX_def)
      then have "needed \<le> grow_capacity (capacity * 2) needed \<and> capacity * 2 \<le> grow_capacity (capacity * 2) needed \<and>
          grow_capacity (capacity * 2) needed \<le> SIZE_MAX"
        using 1 \<open>capacity < needed\<close> False by auto
      moreover have "grow_capacity capacity needed = grow_capacity (capacity * 2) needed"
        using \<open>capacity < needed\<close> False 1 by (simp add: grow_capacity.simps [of capacity needed])
      ultimately show ?thesis by linarith
    qed
  qed
qed

lemma grown_capacity_spec:
  assumes "data_ok n" "needed \<le> SIZE_MAX"
  shows "needed \<le> grown_capacity n needed" "n_capacity n \<le> grown_capacity n needed"
    "grown_capacity n needed \<le> SIZE_MAX"
  using grow_capacity_spec [of "if n_capacity n = 0 then 64 else n_capacity n" needed] assms
  by (auto simp: grown_capacity_def data_ok_def SIZE_MAX_def)

section \<open>Updates of one node\<close>

lemma fs_inv_upd_data:
  assumes inv: "fs_inv v K ext" and a: "nodes v a = Some n"
    and n': "shape n' = shape n" "n_references n' = n_references n" "n_inode n' = n_inode n" "data_ok n'"
    and h: "alloc_seq (v_host v) \<le> alloc_seq h"
  shows "fs_inv ((upd_node v a n')\<lparr>v_host := h\<rparr>) K ext"
proof -
  note i = fs_invD [OF inv]
  have "n_parent n' = n_parent n" using n'(1) by (simp add: shape_def)
  then have "refs_wf {} ((nodes v)(a \<mapsto> n')) (ext(a := ext a))"
    using refs_wfD(1,2) [OF i(2) a] n' by (intro refs_wf_upd [OF i(2)]) auto
  moreover have "tree_wf {} ((nodes v)(a \<mapsto> n')) K"
    by (rule tree_wf_same_shape [OF i(1)]) (simp add: a n')
  moreover have "stored_ok ((upd_node v a n')\<lparr>v_host := h\<rparr>)"
    by (rule stored_ok_mono [OF i(3)]) (use h a n' stored_okD(2) [OF i(3)] in \<open>auto split: if_splits\<close>)
  ultimately show ?thesis by (simp add: fs_inv_def)
qed

lemma ramfs_inv_upd_data:
  "\<lbrakk>ramfs_inv v ext; nodes v a = Some n; shape n' = shape n; n_references n' = n_references n;
    n_inode n' = n_inode n; data_ok n'; alloc_seq (v_host v) \<le> alloc_seq h\<rbrakk> \<Longrightarrow>
   ramfs_inv ((upd_node v a n')\<lparr>v_host := h\<rparr>) ext"
  unfolding ramfs_inv_def using fs_inv_upd_data by blast

lemma ramfs_inv_node: "ramfs_inv v ext \<Longrightarrow> nodes v a = Some n \<Longrightarrow> data_ok n"
  unfolding ramfs_inv_def fs_inv_def using stored_okD(2) by blast

section \<open>Writing\<close>

text \<open>The buffer after the growth step of a write or a truncation.\<close>

lemma resized_data:
  assumes "cb_resize h (n_data n) capacity = (Some d, h')" "data_ok n" "n_capacity n \<le> capacity"
  shows "length d = capacity" "take (n_size n) d = content n"
proof -
  have r: "length d = capacity \<and> take (n_capacity n) d = n_data n"
    using cb_resize_Some [OF assms(1)] assms(2,3) by (simp add: data_ok_def)
  then show "length d = capacity" by simp
  have "take (n_size n) d = take (n_size n) (take (n_capacity n) d)"
    using assms(2) by (simp add: data_ok_def min_def)
  then show "take (n_size n) d = content n" using r by (simp add: content_def)
qed

lemma take_memcpy_before: "m \<le> p \<Longrightarrow> p \<le> length d \<Longrightarrow> take m (memcpy_at d p xs) = take m d"
  by (simp add: memcpy_at_def min_def)

lemma write_block_content:
  assumes d: "start + length block \<le> length d" "sz \<le> length d" and c: "take sz d = old"
    and d1: "d1 = (if start > sz then memcpy_at d sz (replicate (start - sz) NUL) else d)"
  shows "take (max sz (start + length block)) (memcpy_at d1 start block) = overwrite old start block"
    and "length (memcpy_at d1 start block) = length d"
proof -
  have len1: "length d1 = length d" using d d1 by (auto simp: length_memcpy_at)
  then show "length (memcpy_at d1 start block) = length d" using d by (simp add: length_memcpy_at)
  have lo: "length old = sz" using c d by auto
  have pre: "take start d1 = take start (old @ replicate (start - sz) NUL)"
    using d c lo by (auto simp: d1 memcpy_at_def min_def)
  have suf: "drop (start + length block) (take (max sz (start + length block)) d1) = drop (start + length block) old"
  proof (cases "start + length block < sz")
    case True
    then show ?thesis using c by (simp add: d1 max_def)
  next
    case False
    then show ?thesis using lo by (simp add: max_def)
  qed
  have "take (max sz (start + length block)) (memcpy_at d1 start block) =
      take start d1 @ block @ drop (start + length block) (take (max sz (start + length block)) d1)"
    using d len1 by (cases "sz \<le> start + length block") (simp_all add: memcpy_at_def drop_take max_def)
  then show "take (max sz (start + length block)) (memcpy_at d1 start block) = overwrite old start block"
    using pre suf lo by (simp add: overwrite_def)
qed

text \<open>What an update of the data of a node leaves alone.\<close>

definition same_node :: "ramfs_node \<Rightarrow> ramfs_node \<Rightarrow> bool" where
  "same_node n n' \<longleftrightarrow> data_ok n' \<and> shape n' = shape n \<and> n_references n' = n_references n \<and> n_inode n' = n_inode n"

lemma grow_data_Some:
  assumes "grow_data clear h n needed = (Some n1, h')" "data_ok n" "needed \<le> SIZE_MAX"
  shows "same_node n n1" "n_size n1 = n_size n" "content n1 = content n" "needed \<le> n_capacity n1"
    "alloc_seq h \<le> alloc_seq h'"
proof -
  have "same_node n n1 \<and> n_size n1 = n_size n \<and> content n1 = content n \<and> needed \<le> n_capacity n1 \<and>
    alloc_seq h \<le> alloc_seq h'"
  proof (cases "needed > n_capacity n")
    case False
    then show ?thesis using assms by (auto simp: grow_data_def same_node_def)
  next
    case True
    note gc = grown_capacity_spec [OF assms(2,3)]
    let ?c = "grown_capacity n needed"
    obtain d h1 where d: "cb_resize h (n_data n) ?c = (Some d, h1)"
      using assms(1) True by (auto simp: grow_data_def Let_def split: prod.splits option.splits)
    note rd = resized_data [OF d assms(2) gc(2)]
    let ?d = "if clear \<and> ?c > n_capacity n then memcpy_at d (n_capacity n) (replicate (?c - n_capacity n) NUL) else d"
    have n1: "n1 = n\<lparr>n_data := ?d, n_capacity := ?c\<rparr>" "h' = h1"
      using assms(1) True d by (auto simp: grow_data_def Let_def)
    have "length ?d = ?c" using rd gc by (auto simp: length_memcpy_at)
    moreover have "take (n_size n) ?d = content n"
      using rd gc assms(2) by (auto simp: take_memcpy_before data_ok_def)
    moreover have "alloc_seq h1 = Suc (alloc_seq h)" using cb_resize_seq [of h "n_data n" ?c] d by simp
    ultimately show ?thesis
      using n1 assms(2) gc True by (simp add: same_node_def data_ok_def shape_def content_def)
  qed
  then show "same_node n n1" "n_size n1 = n_size n" "content n1 = content n" "needed \<le> n_capacity n1"
    "alloc_seq h \<le> alloc_seq h'" by auto
qed

lemma grow_data_None:
  "grow_data clear h n needed = (None, h') \<Longrightarrow> alloc_seq h \<le> alloc_seq h' \<and> n_capacity n < needed"
  by (auto simp: grow_data_def cb_resize_def Let_def split: if_splits)

lemma store_block_content:
  assumes "data_ok n" "start + length buf \<le> n_capacity n"
  shows "same_node n (store_block n start buf now)"
    and "content (store_block n start buf now) = overwrite (content n) start buf"
    and "n_size (store_block n start buf now) = max (n_size n) (start + length buf)"
proof -
  note w = write_block_content [of start buf "n_data n" "n_size n" "content n", OF _ _ _ refl]
  show "same_node n (store_block n start buf now)"
    "content (store_block n start buf now) = overwrite (content n) start buf"
    "n_size (store_block n start buf now) = max (n_size n) (start + length buf)"
    using w assms
    by (auto simp: store_block_def Let_def same_node_def content_def data_ok_def shape_def max_def)
qed

lemma set_length_content:
  assumes "data_ok n" "len \<le> n_capacity n"
  shows "same_node n (set_length n len now)"
    and "content (set_length n len now) = resize_content (content n) len"
    and "n_size (set_length n len now) = len"
  using assms
  by (auto simp: set_length_def same_node_def content_def data_ok_def shape_def resize_content_def
      memcpy_at_def min_def)

section \<open>Writing\<close>

text \<open>Where a write starts: at the end of the file in append mode, else at the file offset.\<close>

definition write_start :: "open_file \<Rightarrow> ramfs_node \<Rightarrow> int" where
  "write_start f n = (if has_flag (of_flags f) CB_O_APPEND then to_off (int (n_size n)) else of_offset f)"

definition writable :: "open_file \<Rightarrow> ramfs_node \<Rightarrow> nat \<Rightarrow> bool" where
  "writable f n count \<longleftrightarrow>
     access_mode (of_flags f) \<noteq> CB_O_RDONLY \<and> n_type n \<noteq> CB_NODE_EXECUTABLE \<and>
     0 \<le> write_start f n \<and> nat (write_start f n) + count \<le> SIZE_MAX"

lemma node_write_refused:
  assumes "nodes v a = Some n" "buf \<noteq> []" "\<not> writable f n (length buf)"
  shows "\<exists>f'. node_write v a f err buf =
      (-1, [], errno_value (if access_mode (of_flags f) = CB_O_RDONLY then CB_EBADF
                            else if n_type n = CB_NODE_EXECUTABLE then CB_EPERM else CB_ENOSPC), f', v)"
proof -
  consider "access_mode (of_flags f) = CB_O_RDONLY" | "access_mode (of_flags f) \<noteq> CB_O_RDONLY" "n_type n = CB_NODE_EXECUTABLE"
    | "access_mode (of_flags f) \<noteq> CB_O_RDONLY" "n_type n \<noteq> CB_NODE_EXECUTABLE"
      "write_start f n < 0 \<or> nat (write_start f n) > SIZE_MAX \<or> length buf > SIZE_MAX - nat (write_start f n)"
    using assms(3) unfolding writable_def by linarith
  then show ?thesis
    using assms(1,2) by cases (auto simp: node_write_def write_start_def Let_def)
qed

lemma node_write_run:
  assumes "nodes v a = Some n" "buf \<noteq> []" "writable f n (length buf)"
  shows "node_write v a f err buf =
     (let start = nat (write_start f n)
      in case grow_data True (v_host v) n (start + length buf) of
           (None, h) \<Rightarrow> (-1, [], errno_value CB_ENOMEM, f\<lparr>of_offset := write_start f n\<rparr>, v\<lparr>v_host := h\<rparr>)
         | (Some n1, h) \<Rightarrow>
             (int (length buf), [], 0,
              f\<lparr>of_offset := to_off (write_start f n + int (length buf))\<rparr>,
              (upd_node v a (store_block n1 start buf (fst (wall_clock_millis h))))
                \<lparr>v_host := snd (wall_clock_millis h)\<rparr>))"
proof -
  have g: "access_mode (of_flags f) \<noteq> CB_O_RDONLY" "n_type n \<noteq> CB_NODE_EXECUTABLE"
    "\<not> (write_start f n < 0 \<or> nat (write_start f n) > SIZE_MAX \<or> length buf > SIZE_MAX - nat (write_start f n))"
    using assms(3) by (auto simp: writable_def)
  show ?thesis
    using g assms(1,2) unfolding node_write_def write_start_def
    by (cases "has_flag (of_flags f) CB_O_APPEND")
      (simp_all add: Let_def wall_clock_millis_def split: prod.split option.split)
qed

lemma node_write_cases:
  assumes a: "nodes v a = Some n" "data_ok n" and buf: "buf \<noteq> []"
    and run: "node_write v a f err buf = (r, out, e, f', v')"
  obtains (refused) "\<not> writable f n (length buf)" "r = -1" "e \<noteq> 0" "v' = v"
  | (no_memory) h where "writable f n (length buf)" "r = -1" "e = errno_value CB_ENOMEM" "v' = v\<lparr>v_host := h\<rparr>"
      "alloc_seq (v_host v) \<le> alloc_seq h" "f' = f\<lparr>of_offset := write_start f n\<rparr>"
  | (stored) n' h where "writable f n (length buf)" "r = int (length buf)" "e = 0"
      "f' = f\<lparr>of_offset := to_off (write_start f n + int (length buf))\<rparr>"
      "v' = (upd_node v a n')\<lparr>v_host := h\<rparr>" "same_node n n'"
      "content n' = overwrite (content n) (nat (write_start f n)) buf"
      "alloc_seq (v_host v) \<le> alloc_seq h"
proof (cases "writable f n (length buf)")
  case False
  then show ?thesis using node_write_refused [OF a(1) buf False, of err] run refused by force
next
  case True
  let ?s = "nat (write_start f n)"
  have le: "?s + length buf \<le> SIZE_MAX" using True by (simp add: writable_def)
  obtain g h where g: "grow_data True (v_host v) n (?s + length buf) = (g, h)" by fastforce
  note nr = node_write_run [OF a(1) buf True, of err, unfolded Let_def g]
  show ?thesis
  proof (cases g)
    case None
    then show ?thesis using no_memory [OF True] run nr grow_data_None [OF g [unfolded None]] by auto
  next
    case (Some n1)
    note gd = grow_data_Some [OF g [unfolded Some] a(2) le]
    have ok1: "data_ok n1" using gd(1) by (simp add: same_node_def)
    note sb = store_block_content [OF ok1 gd(4)]
    have "same_node n (store_block n1 ?s buf (fst (wall_clock_millis h)))"
      using sb(1) gd(1) by (simp add: same_node_def)
    moreover have "r = int (length buf)" "e = 0"
      "f' = f\<lparr>of_offset := to_off (write_start f n + int (length buf))\<rparr>"
      "v' = (upd_node v a (store_block n1 ?s buf (fst (wall_clock_millis h))))\<lparr>v_host := snd (wall_clock_millis h)\<rparr>"
      using run nr Some by auto
    moreover have "alloc_seq (v_host v) \<le> alloc_seq (snd (wall_clock_millis h))" using gd(5) by simp
    ultimately show ?thesis using stored [OF True] sb(2) gd(3) by metis
  qed
qed

lemma same_node_inv:
  "\<lbrakk>ramfs_inv v ext; nodes v a = Some n; same_node n n'; alloc_seq (v_host v) \<le> alloc_seq h\<rbrakk> \<Longrightarrow>
   ramfs_inv ((upd_node v a n')\<lparr>v_host := h\<rparr>) ext"
  using ramfs_inv_upd_data unfolding same_node_def by blast

text \<open>
  C29. Writing to a file: a write that is not refused (wrong access mode, executable, offset out of
  range) and finds memory writes the whole buffer, so that the file reads as before with the block
  written over it, zeros filling any gap between the old end and the block; it advances the offset
  and touches no other node. Otherwise it returns -1 with an error code and no node has changed.
\<close>

theorem node_write_spec:
  assumes inv: "ramfs_inv v ext" and a: "nodes v a = Some n" and buf: "buf \<noteq> []"
    and run: "node_write v a f err buf = (r, out, e, f', v')"
  shows "ramfs_inv v' ext \<and>
    (r = -1 \<and> e \<noteq> 0 \<and> nodes v' = nodes v \<and> (writable f n (length buf) \<longrightarrow> e = errno_value CB_ENOMEM) \<or>
     r = int (length buf) \<and> e = 0 \<and> writable f n (length buf) \<and>
     of_offset f' = to_off (write_start f n + int (length buf)) \<and>
     (\<exists>n'. nodes v' = (nodes v)(a \<mapsto> n') \<and> same_node n n' \<and>
           content n' = overwrite (content n) (nat (write_start f n)) buf))"
  using a ramfs_inv_node [OF inv a] buf run
proof (cases rule: node_write_cases)
  case refused
  then show ?thesis using inv by simp
next
  case no_memory
  then show ?thesis using ramfs_inv_host [OF inv] by simp
next
  case stored
  then show ?thesis using same_node_inv [OF inv a] by auto
qed

section \<open>Reading\<close>

lemma node_read_ok:
  assumes "nodes v a = Some n" "data_ok n" "access_mode (of_flags f) \<noteq> CB_O_WRONLY" "0 \<le> of_offset f"
    and "n_type n \<noteq> CB_NODE_EXECUTABLE" "of_offset f < int (n_size n)"
  shows "node_read v a f err count =
     (int (min count (n_size n - nat (of_offset f))), take count (drop (nat (of_offset f)) (content n)), 0,
      f\<lparr>of_offset := to_off (of_offset f + int (min count (n_size n - nat (of_offset f))))\<rparr>,
      (upd_node v a (n\<lparr>n_atime := fst (wall_clock_millis (v_host v))\<rparr>))\<lparr>v_host := snd (wall_clock_millis (v_host v))\<rparr>)"
proof -
  have "nat (of_offset f) < n_size n" "n_size n \<le> SIZE_MAX" using assms by (auto simp: data_ok_def)
  moreover have "take (min count (n_size n - nat (of_offset f))) (drop (nat (of_offset f)) (n_data n)) =
      take count (drop (nat (of_offset f)) (content n))"
    by (simp add: content_def drop_take min.commute)
  ultimately show ?thesis
    using assms by (auto simp: node_read_def Let_def wall_clock_millis_def min_def)
qed

text \<open>
  Reading a file returns the bytes of its contents at the offset, as many as are there and fit,
  and advances the offset by that number; at or after the end, and for an executable, it returns 0
  bytes; without read access or with a negative offset it returns -1. No contents change.
\<close>

theorem node_read_spec:
  assumes inv: "ramfs_inv v ext" and a: "nodes v a = Some n" and off: "of_offset f \<le> INT64_MAX"
    and run: "node_read v a f err count = (r, out, e, f', v')"
  shows "ramfs_inv v' ext \<and> (\<forall>b. map_option content (nodes v' b) = map_option content (nodes v b)) \<and>
    (if access_mode (of_flags f) = CB_O_WRONLY then r = -1 \<and> e = errno_value CB_EBADF \<and> v' = v
     else if of_offset f < 0 \<or> nat (of_offset f) > SIZE_MAX then r = -1 \<and> e = errno_value CB_EINVAL \<and> v' = v
     else out = (if n_type n = CB_NODE_EXECUTABLE then []
                 else take count (drop (nat (of_offset f)) (content n))) \<and>
          r = int (length out) \<and> of_offset f' = to_off (of_offset f + r))"
proof -
  have ok: "data_ok n" using ramfs_inv_node [OF inv a] .
  show ?thesis
  proof (cases "access_mode (of_flags f) \<noteq> CB_O_WRONLY \<and> 0 \<le> of_offset f \<and> n_type n \<noteq> CB_NODE_EXECUTABLE \<and>
      of_offset f < int (n_size n)")
    case True
    note rd = node_read_ok [OF a ok, of f err count]
    let ?n = "n\<lparr>n_atime := fst (wall_clock_millis (v_host v))\<rparr>"
    have "same_node n ?n" using ok by (simp add: same_node_def data_ok_def shape_def)
    then have "ramfs_inv ((upd_node v a ?n)\<lparr>v_host := snd (wall_clock_millis (v_host v))\<rparr>) ext"
      by (rule same_node_inv [OF inv a]) simp
    moreover have "\<not> nat (of_offset f) > SIZE_MAX" using True ok by (auto simp: data_ok_def)
    ultimately show ?thesis
      using True rd run a ok by (auto simp: min_def)
  next
    case False
    then have "v' = v" using run a by (auto simp: node_read_def Let_def split: if_splits prod.splits)
    then show ?thesis
      using False run a inv ok to_off_id [of "of_offset f"] off
      by (auto simp: node_read_def Let_def content_def data_ok_def INT64_MIN_def split: if_splits prod.splits)
  qed
qed

text \<open>
  What is written can be read back: after a successful write, through any file open for reading
  on the same node and positioned where the block starts, a read of that many bytes returns the
  block.
\<close>

theorem node_write_read_roundtrip:
  assumes inv: "ramfs_inv v ext" and a: "nodes v a = Some n" and buf: "buf \<noteq> []"
    and run: "node_write v a f err buf = (int (length buf), out, e, f', v')"
    and g: "access_mode (of_flags g) \<noteq> CB_O_WRONLY" "of_offset g = write_start f n"
  shows "fst (node_read v' a g err' (length buf)) = int (length buf) \<and>
    fst (snd (node_read v' a g err' (length buf))) = buf"
proof -
  show ?thesis
    using a ramfs_inv_node [OF inv a] buf run
  proof (cases rule: node_write_cases)
    case (stored n' h)
    let ?s = "nat (write_start f n)"
    have n': "nodes v' a = Some n'" "data_ok n'" "n_type n' = n_type n"
      using stored(5,6) by (auto simp: same_node_def shape_def)
    have st: "0 \<le> write_start f n" "n_type n \<noteq> CB_NODE_EXECUTABLE" using stored(1) by (auto simp: writable_def)
    have "n_size n' = max (length (content n)) (?s + length buf)"
      using stored(7) n'(2) by (metis length_content length_overwrite)
    then have sz: "?s + length buf \<le> n_size n'" by simp
    have "write_start f n < int (n_size n')"
      using sz st buf by (metis add.commute length_greater_0_conv less_add_same_cancel2 nat_less_iff order_less_le_trans)
    moreover have "min (length buf) (n_size n' - ?s) = length buf" using sz by simp
    ultimately show ?thesis
      using node_read_ok [OF n'(1,2), of g err' "length buf"] g st n'(3) stored(7) overwrite_block by simp
  qed (use run in simp_all)
qed

section \<open>Truncating and seeking\<close>

text \<open>
  C30. Truncating a regular file to a length cuts its contents there or extends them with zeros,
  whatever the unused part of the buffer held; every error (negative length, wrong kind of node, no
  memory) leaves every node as it was.
\<close>

theorem ramfs_truncate_spec:
  assumes inv: "ramfs_inv v ext" and run: "ramfs_truncate v a len = (r, v')"
  shows "ramfs_inv v' ext \<and>
    (case r of
       Some e \<Rightarrow> nodes v' = nodes v
     | None \<Rightarrow> 0 \<le> len \<and> (\<exists>n n'. nodes v a = Some n \<and> n_type n = CB_NODE_REGULAR \<and>
         nodes v' = (nodes v)(a \<mapsto> n') \<and> same_node n n' \<and>
         content n' = resize_content (content n) (nat len)))"
proof (cases "\<exists>n. nodes v a = Some n \<and> n_type n = CB_NODE_REGULAR \<and> 0 \<le> len \<and> nat len \<le> SIZE_MAX")
  case False
  then have "r \<noteq> None \<and> v' = v" using run by (auto simp: ramfs_truncate_def split: option.splits if_splits)
  then show ?thesis using inv by auto
next
  case True
  then obtain n where n: "nodes v a = Some n" "n_type n = CB_NODE_REGULAR" "0 \<le> len" "nat len \<le> SIZE_MAX" by auto
  have ok: "data_ok n" using ramfs_inv_node [OF inv n(1)] .
  obtain g h where g: "grow_data False (v_host v) n (nat len) = (g, h)" by fastforce
  show ?thesis
  proof (cases g)
    case None
    then have "r = Some CB_ENOMEM" "v' = v\<lparr>v_host := h\<rparr>" using run n g by (auto simp: ramfs_truncate_def)
    then show ?thesis using ramfs_inv_host [OF inv] grow_data_None [OF g [unfolded None]] by simp
  next
    case (Some n1)
    let ?n = "set_length n1 (nat len) (fst (wall_clock_millis h))"
    note gd = grow_data_Some [OF g [unfolded Some] ok n(4)]
    have ok1: "data_ok n1" using gd(1) by (simp add: same_node_def)
    note sl = set_length_content [OF ok1 gd(4), of "fst (wall_clock_millis h)"]
    have same: "same_node n ?n" using sl(1) gd(1) by (simp add: same_node_def)
    have "r = None" "v' = (upd_node v a ?n)\<lparr>v_host := snd (wall_clock_millis h)\<rparr>"
      using run n g Some by (auto simp: ramfs_truncate_def wall_clock_millis_def)
    then show ?thesis
      using same_node_inv [OF inv n(1) same, of "snd (wall_clock_millis h)"] gd(3,5) sl(2) n same by auto
  qed
qed

text \<open>
  C31. Seeking computes base plus displacement exactly, with no wrap-around: it succeeds exactly when
  the whence is known and the true sum lies between 0 and the largest 64-bit offset, and then the
  offset is that sum; otherwise the offset stays.
\<close>

theorem node_lseek_spec:
  assumes a: "nodes v a = Some n" and range: "INT64_MIN \<le> off" "off \<le> INT64_MAX"
    and fo: "INT64_MIN \<le> of_offset f" "of_offset f \<le> INT64_MAX" and sz: "int (n_size n) \<le> INT64_MAX"
    and base: "base = (if whence = CB_SEEK_SET then 0 else if whence = CB_SEEK_CUR then of_offset f else int (n_size n))"
  shows "node_lseek v a f err off whence =
    (if whence \<in> {CB_SEEK_SET, CB_SEEK_CUR, CB_SEEK_END} \<and> 0 \<le> base + off \<and> base + off \<le> INT64_MAX
     then (base + off, 0, f\<lparr>of_offset := base + off\<rparr>)
     else (-1, errno_value CB_EINVAL, f))"
proof -
  have "to_off (int (n_size n)) = int (n_size n)" using sz by (intro to_off_id) (simp_all add: INT64_MIN_def)
  then show ?thesis
    using a range fo sz unfolding base
    by (auto simp: node_lseek_def Let_def CB_SEEK_SET_def CB_SEEK_CUR_def CB_SEEK_END_def INT64_MAX_def INT64_MIN_def)
qed

section \<open>A file\<close>

text \<open>A regular file in the root of the sample file system, opened for reading and writing.\<close>

definition sample_file_fs :: vfs_state where
  "sample_file_fs = snd (ramfs_create sample_fs 1 ''f'' CB_NODE_REGULAR 420)"

definition sample_file :: open_file where
  "sample_file = \<lparr>of_references = 1, of_flags = CB_O_RDWR, of_offset = 3, of_ops = NodeFile 11, of_terminal = False\<rparr>"

lemma sample_file_inv: "ramfs_inv sample_file_fs ((\<lambda>_. 0)(1 := 1))"
proof -
  obtain K where K: "fs_inv sample_fs K ((\<lambda>_. 0)(1 := 1))" using sample_fs_inv by (auto simp: ramfs_inv_def)
  have "ramfs_create sample_fs 1 ''f'' CB_NODE_REGULAR 420 =
      (fst (ramfs_create sample_fs 1 ''f'' CB_NODE_REGULAR 420), sample_file_fs)"
    by (simp add: sample_file_fs_def)
  from ramfs_create_dir_map [OF K this] show ?thesis
    by (auto simp: ramfs_inv_def split: sum.splits)
qed

lemma sample_file_node:
  obtains n where "nodes sample_file_fs 11 = Some n" "n_type n = CB_NODE_REGULAR" "n_size n = 0" "n_data n = []"
proof -
  have "map_option (\<lambda>n. (n_type n, n_size n, n_data n)) (nodes sample_file_fs 11) = Some (CB_NODE_REGULAR, 0, [])"
    by code_simp
  then show ?thesis using that by auto
qed

lemma sample_alloc: "alloc_ok (v_host sample_file_fs) k"
  by code_simp

lemma grow_data_ok: "alloc_ok h (alloc_seq h) \<Longrightarrow> \<exists>n1 h'. grow_data clear h n needed = (Some n1, h')"
  by (simp add: grow_data_def cb_resize_def Let_def)

lemma sample_write: "fst (node_write sample_file_fs 11 sample_file 0 ''hi'') = 2"
proof -
  obtain n where n: "nodes sample_file_fs 11 = Some n" "n_type n = CB_NODE_REGULAR"
    by (rule sample_file_node)
  have "writable sample_file n (length ''hi'')"
    using n by (simp add: writable_def write_start_def sample_file_def open_flag_defs SIZE_MAX_def)
  then show ?thesis
    using node_write_run [OF n(1), of "''hi''" sample_file 0]
      grow_data_ok [of "v_host sample_file_fs" True n "nat (write_start sample_file n) + 2"] sample_alloc
    by (auto simp: Let_def numeral_2_eq_2)
qed

theorem node_write_spec_witness:
  "\<exists>n'. nodes (snd (snd (snd (snd (node_write sample_file_fs 11 sample_file 0 ''hi''))))) 11 = Some n' \<and>
     content n' = [NUL, NUL, NUL] @ ''hi''"
proof -
  obtain n where n: "nodes sample_file_fs 11 = Some n" "n_type n = CB_NODE_REGULAR" "n_size n = 0" "n_data n = []"
    by (rule sample_file_node)
  obtain r out e f' v' where run: "node_write sample_file_fs 11 sample_file 0 ''hi'' = (r, out, e, f', v')"
    by (metis prod_cases5)
  have "r = 2" using sample_write run by simp
  moreover have "write_start sample_file n = 3"
    by (simp add: write_start_def sample_file_def CB_O_RDWR_def CB_O_APPEND_def)
  moreover have "overwrite (content n) 3 ''hi'' = [NUL, NUL, NUL] @ ''hi''"
    using n by (simp add: overwrite_def content_def numeral_3_eq_3)
  ultimately show ?thesis
    using node_write_spec [OF sample_file_inv n(1) _ run] run by auto
qed

theorem node_read_spec_witness:
  "fst (node_read sample_file_fs 11 sample_file 0 5) = 0"
proof -
  obtain n where n: "nodes sample_file_fs 11 = Some n" "n_type n = CB_NODE_REGULAR" "n_size n = 0" "n_data n = []"
    by (rule sample_file_node)
  obtain r out e f' v' where run: "node_read sample_file_fs 11 sample_file 0 5 = (r, out, e, f', v')"
    by (metis prod_cases5)
  have "access_mode (of_flags sample_file) \<noteq> CB_O_WRONLY" "of_offset sample_file = 3"
    by (simp_all add: sample_file_def CB_O_RDWR_def CB_O_ACCMODE_def CB_O_WRONLY_def)
  then show ?thesis
    using node_read_spec [OF sample_file_inv n(1) _ run] run n
    by (simp add: content_def INT64_MAX_def SIZE_MAX_def)
qed

theorem node_write_read_roundtrip_witness:
  "fst (snd (node_read (snd (snd (snd (snd (node_write sample_file_fs 11 sample_file 0 ''hi''))))) 11 sample_file 0 2)) = ''hi''"
proof -
  obtain n where n: "nodes sample_file_fs 11 = Some n" by (rule sample_file_node)
  obtain r out e f' v' where run: "node_write sample_file_fs 11 sample_file 0 ''hi'' = (r, out, e, f', v')"
    by (metis prod_cases5)
  have "r = int (length ''hi'')" using sample_write run by simp
  moreover have "access_mode (of_flags sample_file) \<noteq> CB_O_WRONLY" "of_offset sample_file = write_start sample_file n"
    by (simp_all add: write_start_def sample_file_def CB_O_RDWR_def CB_O_APPEND_def CB_O_ACCMODE_def CB_O_WRONLY_def)
  ultimately show ?thesis
    using node_write_read_roundtrip [OF sample_file_inv n, of "''hi''" sample_file 0 out e f' v' sample_file 0] run
    by (simp add: numeral_2_eq_2)
qed

theorem ramfs_truncate_spec_witness:
  "\<exists>n'. nodes (snd (ramfs_truncate sample_file_fs 11 2)) 11 = Some n' \<and> content n' = [NUL, NUL]"
proof -
  obtain n where n: "nodes sample_file_fs 11 = Some n" "n_type n = CB_NODE_REGULAR" "n_size n = 0" "n_data n = []"
    by (rule sample_file_node)
  have "fst (ramfs_truncate sample_file_fs 11 2) = None"
    using n grow_data_ok [of "v_host sample_file_fs" False n 2] sample_alloc
    by (auto simp: ramfs_truncate_def SIZE_MAX_def wall_clock_millis_def)
  then obtain v' where run: "ramfs_truncate sample_file_fs 11 2 = (None, v')" by (metis prod.collapse)
  show ?thesis
    using ramfs_truncate_spec [OF sample_file_inv run] n run
    by (auto simp: resize_content_def content_def numeral_2_eq_2)
qed

theorem node_lseek_spec_witness:
  "node_lseek sample_file_fs 11 sample_file 0 (-2) CB_SEEK_CUR = (1, 0, sample_file\<lparr>of_offset := 1\<rparr>)"
proof -
  obtain n where n: "nodes sample_file_fs 11 = Some n" "n_type n = CB_NODE_REGULAR" "n_size n = 0"
    by (rule sample_file_node)
  have o: "of_offset sample_file = 3" by (simp add: sample_file_def)
  have "3 = (if CB_SEEK_CUR = CB_SEEK_SET then 0 else if CB_SEEK_CUR = CB_SEEK_CUR then of_offset sample_file
      else int (n_size n))"
    by (simp add: o CB_SEEK_CUR_def CB_SEEK_SET_def)
  then have "node_lseek sample_file_fs 11 sample_file 0 (-2) CB_SEEK_CUR =
      (if CB_SEEK_CUR \<in> {CB_SEEK_SET, CB_SEEK_CUR, CB_SEEK_END} \<and> 0 \<le> (3 :: int) + - 2 \<and> 3 + - 2 \<le> INT64_MAX
       then (3 + - 2, 0, sample_file\<lparr>of_offset := 3 + - 2\<rparr>) else (-1, errno_value CB_EINVAL, sample_file))"
    by (intro node_lseek_spec [OF n(1)]) (simp_all add: o n INT64_MIN_def INT64_MAX_def)
  then show ?thesis by (simp add: INT64_MAX_def)
qed

end
