(* ===== verification/Path.thy ===== *)
theory Path
  imports Prelude
begin

text \<open>
  Path names, \<^verbatim>\<open>cb_test_path_normalize\<close> in \<^verbatim>\<open>src/vfs.c\<close>: the text of a path is turned into an
  absolute one without empty, \<open>.\<close> and \<open>..\<close> components. A path is the text of a C string, so it
  holds no NUL byte.
\<close>

section \<open>Components\<close>

text \<open>The scanning loops: skip slashes, take up to the next slash, repeat.\<close>

function components :: "string \<Rightarrow> string list" where
  "components s =
     (let start = dropWhile (\<lambda>c. c = slash) s
      in if start = [] then []
         else takeWhile (\<lambda>c. c \<noteq> slash) start # components (dropWhile (\<lambda>c. c \<noteq> slash) start))"
  by pat_completeness auto

lemma scan_shorter:
  assumes "dropWhile (\<lambda>c. c = slash) s \<noteq> []"
  shows "length (dropWhile (\<lambda>c. c \<noteq> slash) (dropWhile (\<lambda>c. c = slash) s)) < length s"
proof -
  let ?t = "dropWhile (\<lambda>c. c = slash) s"
  have "hd ?t \<noteq> slash" using hd_dropWhile [OF assms] by simp
  then have "length (dropWhile (\<lambda>c. c \<noteq> slash) ?t) < length ?t"
    using assms length_dropWhile_le [of "\<lambda>c. c \<noteq> slash" "tl ?t"] by (cases ?t) (auto simp: less_Suc_eq_le)
  also have "\<dots> \<le> length s" by (rule length_dropWhile_le)
  finally show ?thesis .
qed

termination components
  by (relation "measure length") (auto simp: scan_shorter)

declare components.simps [simp del]

definition MAX_DEPTH :: nat where
  "MAX_DEPTH = CB_PATH_MAX div 2"

text \<open>
  The loop over the components: \<open>out\<close> is the text in \<^verbatim>\<open>output\<close>, so \<^verbatim>\<open>used\<close> is its length, and
  \<open>starts\<close> the stack \<^verbatim>\<open>component_starts\<close>.
\<close>

fun normalize_loop :: "nat \<Rightarrow> string list \<Rightarrow> string \<Rightarrow> nat list \<Rightarrow> cb_error + string" where
  "normalize_loop output_size [] out starts = Inr out"
| "normalize_loop output_size (name # rest) out starts =
     (if name = ''.'' then normalize_loop output_size rest out starts
      else if name = ''..'' then
        (case starts of
           [] \<Rightarrow> normalize_loop output_size rest out []
         | used # starts' \<Rightarrow> normalize_loop output_size rest (take used out) starts')
      else if length starts = MAX_DEPTH then Inl CB_ENAMETOOLONG
      else
        let used = length out
        in if used > 1 \<and> used + 1 \<ge> output_size then Inl CB_ENAMETOOLONG
           else let out1 = (if used > 1 then out @ [slash] else out)
                in if length out1 + length name \<ge> output_size then Inl CB_ENAMETOOLONG
                   else normalize_loop output_size rest (out1 @ name) (used # starts))"

definition cb_test_path_normalize :: "string \<Rightarrow> string \<Rightarrow> nat \<Rightarrow> cb_error + string" where
  "cb_test_path_normalize cwd path output_size =
     (if output_size < 2 \<or> cwd = [] \<or> hd cwd \<noteq> slash then Inl CB_EINVAL
      else let input = (if path \<noteq> [] \<and> hd path = slash then path
                        else cwd @ (if cwd = [slash] then [] else [slash]) @ path)
           in if length input \<ge> CB_PATH_MAX * 2 then Inl CB_ENAMETOOLONG
              else normalize_loop output_size (components input) [slash] [])"

section \<open>Specification\<close>

text \<open>A path as a list of names, and what a component does to it.\<close>

definition plain :: "string \<Rightarrow> bool" where
  "plain name \<longleftrightarrow> name \<noteq> [] \<and> slash \<notin> set name \<and> name \<noteq> ''.'' \<and> name \<noteq> ''..''"

fun walk_step :: "string list \<Rightarrow> string \<Rightarrow> string list" where
  "walk_step names name =
     (if name = ''.'' then names
      else if name = ''..'' then butlast names
      else names @ [name])"

declare walk_step.simps [simp del]

lemma walk_step_cases [simp]:
  "walk_step names ''.'' = names"
  "walk_step names ''..'' = butlast names"
  "name \<noteq> ''.'' \<Longrightarrow> name \<noteq> ''..'' \<Longrightarrow> walk_step names name = names @ [name]"
  by (simp_all add: walk_step.simps)

text \<open>The text of a list of names, as \<^verbatim>\<open>cwd_string\<close> and \<^verbatim>\<open>cb_test_path_normalize\<close> write it.\<close>

fun join_names :: "string list \<Rightarrow> string" where
  "join_names [] = []"
| "join_names [name] = name"
| "join_names (name # names) = name @ slash # join_names names"

definition path_text :: "string list \<Rightarrow> string" where
  "path_text names = slash # join_names names"

definition fits :: "nat \<Rightarrow> string list \<Rightarrow> bool" where
  "fits output_size names \<longleftrightarrow> length (path_text names) < output_size \<and> length names \<le> MAX_DEPTH"

definition normalized_names :: "string list \<Rightarrow> string list" where
  "normalized_names comps = foldl walk_step [] comps"

text \<open>Every intermediate result has to fit, not only the last one.\<close>

definition all_fit :: "nat \<Rightarrow> string list \<Rightarrow> string list \<Rightarrow> bool" where
  "all_fit output_size names comps \<longleftrightarrow>
     (\<forall>k \<le> length comps. fits output_size (foldl walk_step names (take k comps)))"

section \<open>The loop implements the specification\<close>

lemma components_empty: "dropWhile (\<lambda>c. c = slash) s = [] \<Longrightarrow> components s = []"
  by (subst components.simps) (simp add: Let_def)

lemma components_step:
  "dropWhile (\<lambda>c. c = slash) s = t \<Longrightarrow> t \<noteq> [] \<Longrightarrow>
     components s = takeWhile (\<lambda>c. c \<noteq> slash) t # components (dropWhile (\<lambda>c. c \<noteq> slash) t)"
  by (subst components.simps) (simp only: Let_def if_False)

lemma components_plain_or_dot: "name \<in> set (components s) \<Longrightarrow> name \<noteq> [] \<and> slash \<notin> set name"
proof (induction s rule: components.induct)
  case (1 s)
  let ?t = "dropWhile (\<lambda>c. c = slash) s"
  show ?case
  proof (cases "?t = []")
    case True
    then show ?thesis using 1(2) components_empty by simp
  next
    case False
    then have "hd ?t \<noteq> slash" using hd_dropWhile [OF False] by simp
    then have "takeWhile (\<lambda>c. c \<noteq> slash) ?t \<noteq> []" using False by (cases ?t) auto
    moreover have "slash \<notin> set (takeWhile (\<lambda>c. c \<noteq> slash) ?t)" by (auto dest: set_takeWhileD)
    ultimately show ?thesis using 1(1) [OF refl False] 1(2) components_step [OF refl False] by auto
  qed
qed

lemma join_names_append:
  "join_names (xs @ [x]) = (if xs = [] then x else join_names xs @ slash # x)"
  by (induction xs rule: join_names.induct) auto

lemma join_names_nonempty: "xs \<noteq> [] \<Longrightarrow> \<forall>x \<in> set xs. x \<noteq> [] \<Longrightarrow> join_names xs \<noteq> []"
  by (induction xs rule: join_names.induct) auto

text \<open>The stack of offsets that belongs to a list of names: where each name's text was begun.\<close>

definition offsets :: "string list \<Rightarrow> nat list" where
  "offsets names = rev (map (\<lambda>k. length (path_text (take k names))) [0..<length names])"

lemma offsets_snoc: "offsets (names @ [x]) = length (path_text names) # offsets names"
proof -
  have "map (\<lambda>k. length (path_text (take k (names @ [x])))) [0..<length names] =
      map (\<lambda>k. length (path_text (take k names))) [0..<length names]"
    by (intro map_cong) auto
  then show ?thesis by (simp add: offsets_def)
qed

lemma offsets_Nil [simp]: "offsets [] = []"
  by (simp add: offsets_def)

lemma length_offsets [simp]: "length (offsets names) = length names"
  by (simp add: offsets_def)

lemma path_text_snoc:
  "path_text (names @ [x]) = (if names = [] then slash # x else path_text names @ slash # x)"
  by (simp add: path_text_def join_names_append)

lemma path_text_long:
  "names \<noteq> [] \<Longrightarrow> \<forall>x \<in> set names. x \<noteq> [] \<Longrightarrow> length (path_text names) > 1"
  using join_names_nonempty [of names] by (simp add: path_text_def)

lemma path_text_butlast:
  assumes "names \<noteq> []"
  shows "take (length (path_text (butlast names))) (path_text names) = path_text (butlast names)"
  using assms by (cases names rule: rev_cases) (simp_all add: path_text_def join_names_append)

lemma walk_step_plain:
  "\<forall>x \<in> set names. x \<noteq> [] \<Longrightarrow> name \<noteq> [] \<Longrightarrow> \<forall>x \<in> set (walk_step names name). x \<noteq> []"
  by (auto simp: walk_step.simps dest: in_set_butlastD)

lemma all_fit_Cons:
  "all_fit n names (c # cs) \<longleftrightarrow> fits n names \<and> all_fit n (walk_step names c) cs"
proof -
  have "(\<forall>k \<le> length (c # cs). fits n (foldl walk_step names (take k (c # cs)))) \<longleftrightarrow>
      fits n names \<and> (\<forall>k \<le> length cs. fits n (foldl walk_step names (take (Suc k) (c # cs))))"
    by (metis (no_types, lifting) Suc_le_mono foldl_Nil le0 length_Cons old.nat.exhaust take_0)
  then show ?thesis by (simp add: all_fit_def)
qed

lemma all_fit_now: "all_fit n names cs \<Longrightarrow> fits n names"
  by (cases cs) (auto simp: all_fit_def all_fit_Cons)

lemma normalize_loop_correct:
  assumes "\<forall>x \<in> set names. x \<noteq> []" "\<forall>x \<in> set comps. x \<noteq> []" "fits n names"
  shows "normalize_loop n comps (path_text names) (offsets names) =
    (if all_fit n names comps then Inr (path_text (foldl walk_step names comps)) else Inl CB_ENAMETOOLONG)"
  using assms
proof (induction comps arbitrary: names)
  case Nil
  then show ?case by (simp add: all_fit_def)
next
  case (Cons c cs)
  have next_plain: "\<forall>x \<in> set (walk_step names c). x \<noteq> []"
    by (rule walk_step_plain) (use Cons.prems in auto)
  consider "c = ''.''" | "c = ''..''" | "c \<noteq> ''.''" "c \<noteq> ''..''" by blast
  then show ?case
  proof cases
    case 1
    then show ?thesis using Cons.IH [of names] Cons.prems by (simp add: all_fit_Cons)
  next
    case 2
    show ?thesis
    proof (cases names rule: rev_cases)
      case Nil
      then show ?thesis using 2 Cons.IH [of "[]"] Cons.prems by (simp add: all_fit_Cons)
    next
      case (snoc ns x)
      have "fits n ns"
        using Cons.prems(3) snoc by (auto simp: fits_def path_text_def join_names_append split: if_splits)
      then show ?thesis
        using 2 snoc Cons.IH [of ns] Cons.prems path_text_butlast [of names]
        by (simp add: all_fit_Cons offsets_snoc)
    qed
  next
    case 3
    let ?out1 = "if length (path_text names) > 1 then path_text names @ [slash] else path_text names"
    have short: "length (path_text names) > 1 \<longleftrightarrow> names \<noteq> []"
      using path_text_long [of names] Cons.prems(1) by (auto simp: path_text_def)
    have out: "?out1 @ c = path_text (names @ [c])"
      using short by (simp add: path_text_def join_names_append)
    then have len: "length ?out1 + length c = length (path_text (names @ [c]))"
      by (metis length_append)
    have fit: "fits n (names @ [c]) \<longleftrightarrow> length names \<noteq> MAX_DEPTH \<and>
        \<not> (length (path_text names) > 1 \<and> length (path_text names) + 1 \<ge> n) \<and>
        \<not> length ?out1 + length c \<ge> n"
      using Cons.prems(3) len by (auto simp: fits_def split: if_splits)
    show ?thesis
    proof (cases "fits n (names @ [c])")
      case True
      then have "normalize_loop n (c # cs) (path_text names) (offsets names) =
          normalize_loop n cs (?out1 @ c) (length (path_text names) # offsets names)"
        using 3 fit by (auto simp: Let_def)
      also have "\<dots> = normalize_loop n cs (path_text (names @ [c])) (offsets (names @ [c]))"
        unfolding out offsets_snoc ..
      also have "\<dots> = (if all_fit n (names @ [c]) cs then Inr (path_text (foldl walk_step (names @ [c]) cs))
          else Inl CB_ENAMETOOLONG)"
        using Cons.IH [of "names @ [c]"] next_plain 3 Cons.prems(2) True by simp
      finally show ?thesis using 3 Cons.prems(3) by (simp add: all_fit_Cons)
    next
      case False
      then have "\<not> all_fit n (names @ [c]) cs" using all_fit_now by blast
      then show ?thesis using False 3 fit by (auto simp: all_fit_Cons Let_def)
    qed
  qed
qed

section \<open>Properties\<close>

lemma scan_name:
  "slash \<notin> set name \<Longrightarrow> takeWhile (\<lambda>c. c \<noteq> slash) (name @ slash # rest) = name"
  "slash \<notin> set name \<Longrightarrow> dropWhile (\<lambda>c. c \<noteq> slash) (name @ slash # rest) = slash # rest"
  "slash \<notin> set name \<Longrightarrow> takeWhile (\<lambda>c. c \<noteq> slash) name = name"
  "slash \<notin> set name \<Longrightarrow> dropWhile (\<lambda>c. c \<noteq> slash) name = []"
  by (induction name) auto

lemma components_name_rest:
  assumes "name \<noteq> []" "slash \<notin> set name" "rest = [] \<or> hd rest = slash"
  shows "components (name @ rest) = name # components rest"
proof -
  have "dropWhile (\<lambda>c. c = slash) (name @ rest) = name @ rest"
    using assms by (cases name) auto
  moreover have "takeWhile (\<lambda>c. c \<noteq> slash) (name @ rest) = name"
    using assms by (cases rest) (simp_all add: scan_name)
  moreover have "dropWhile (\<lambda>c. c \<noteq> slash) (name @ rest) = rest"
    using assms by (cases rest) (simp_all add: scan_name)
  ultimately show ?thesis using components_step [of "name @ rest"] assms(1) by simp
qed

lemma components_slash: "components (slash # s) = components s"
proof (cases "dropWhile (\<lambda>c. c = slash) s = []")
  case True
  then show ?thesis using components_empty [of s] components_empty [of "slash # s"] by simp
next
  case False
  then show ?thesis using components_step [OF refl False] components_step [of "slash # s", OF _ False] by simp
qed

lemma components_Nil [simp]: "components [] = []"
  by (simp add: components_empty)

lemma components_join:
  "\<forall>x \<in> set names. x \<noteq> [] \<and> slash \<notin> set x \<Longrightarrow> components (join_names names) = names"
proof (induction names rule: join_names.induct)
  case (2 name)
  then show ?case using components_name_rest [of name "[]"] by simp
next
  case (3 name n2 names)
  then show ?case using components_name_rest [of name "slash # join_names (n2 # names)"]
    by (simp add: components_slash)
qed simp

lemma components_path_text:
  "\<forall>x \<in> set names. x \<noteq> [] \<and> slash \<notin> set x \<Longrightarrow> components (path_text names) = names"
  by (simp add: path_text_def components_slash components_join)

lemma foldl_walk_plain:
  "\<forall>x \<in> set names. plain x \<Longrightarrow> \<forall>c \<in> set cs. c \<noteq> [] \<and> slash \<notin> set c \<Longrightarrow>
     \<forall>x \<in> set (foldl walk_step names cs). plain x"
proof (induction cs arbitrary: names)
  case (Cons c cs)
  have "\<forall>x \<in> set (walk_step names c). plain x"
    using Cons.prems by (auto simp: walk_step.simps plain_def dest: in_set_butlastD)
  then show ?case using Cons.IH Cons.prems by simp
qed simp

lemma foldl_walk_id: "\<forall>x \<in> set cs. plain x \<Longrightarrow> foldl walk_step names cs = names @ cs"
proof (induction cs arbitrary: names)
  case (Cons c cs)
  then have "walk_step names c = names @ [c]" by (simp add: plain_def)
  then show ?case using Cons by simp
qed simp

lemma normalized_plain: "\<forall>x \<in> set (normalized_names (components s)). plain x"
  unfolding normalized_names_def by (rule foldl_walk_plain) (auto dest: components_plain_or_dot)

definition joined_input :: "string \<Rightarrow> string \<Rightarrow> string" where
  "joined_input cwd path =
     (if path \<noteq> [] \<and> hd path = slash then path else cwd @ (if cwd = [slash] then [] else [slash]) @ path)"

lemma normalize_eq:
  assumes "2 \<le> n" "cwd \<noteq> []" "hd cwd = slash"
  shows "cb_test_path_normalize cwd path n =
    (if length (joined_input cwd path) < CB_PATH_MAX * 2 \<and> all_fit n [] (components (joined_input cwd path))
     then Inr (path_text (normalized_names (components (joined_input cwd path)))) else Inl CB_ENAMETOOLONG)"
proof -
  have "fits n []" using assms by (simp add: fits_def path_text_def)
  moreover have "\<forall>x \<in> set (components (joined_input cwd path)). x \<noteq> []"
    using components_plain_or_dot by blast
  moreover have "path_text [] = [slash]" by (simp add: path_text_def)
  ultimately show ?thesis
    using normalize_loop_correct [of "[]" "components (joined_input cwd path)" n] assms
    by (simp add: cb_test_path_normalize_def joined_input_def [symmetric] Let_def normalized_names_def)
qed

text \<open>
  C32. Path normalisation is exactly the reading of the path from left to right over a list of names:
  \<open>.\<close> and empty components do nothing, \<open>..\<close> drops the last name (and does nothing at the root), any
  other component is appended. The result is the text of that list, and it is refused exactly when
  the joined input is too long or some intermediate list does not fit the output buffer.
\<close>

theorem normalize_refines_name_list:
  assumes "2 \<le> n" "cwd \<noteq> []" "hd cwd = slash"
  shows "cb_test_path_normalize cwd path n =
    (if length (joined_input cwd path) < CB_PATH_MAX * 2 \<and> all_fit n [] (components (joined_input cwd path))
     then Inr (path_text (normalized_names (components (joined_input cwd path)))) else Inl CB_ENAMETOOLONG)"
  by (rule normalize_eq [OF assms])

theorem normalize_refines_name_list_witness:
  "cb_test_path_normalize ''/home'' ''../tmp/./x'' 1024 = Inr ''/tmp/x'' \<and>
   path_text (normalized_names (components (joined_input ''/home'' ''../tmp/./x''))) = ''/tmp/x''"
proof -
  have "cb_test_path_normalize ''/home'' ''../tmp/./x'' 1024 = Inr ''/tmp/x''" by code_simp
  then show ?thesis
    using normalize_refines_name_list [of 1024 "''/home''" "''../tmp/./x''"] by (simp split: if_splits)
qed

lemma path_text_prefix: "length (path_text xs) \<le> length (path_text (xs @ ys))"
proof (induction ys rule: rev_induct)
  case (snoc y ys)
  have "length (path_text (xs @ ys)) \<le> length (path_text ((xs @ ys) @ [y]))"
    unfolding path_text_snoc by (simp add: path_text_def)
  then show ?case using snoc by simp
qed simp

lemma fits_take: "fits n names \<Longrightarrow> fits n (take k names)"
  using path_text_prefix [of "take k names" "drop k names"] by (auto simp: fits_def)

text \<open>
  C33. A successful normalisation yields a canonical path that fits its buffer: it starts with a
  slash, splits into plain names (none empty, \<open>.\<close>, \<open>..\<close> or containing a slash), and normalising it
  again, from any working directory, gives it back unchanged.
\<close>

theorem normalize_canonical:
  assumes n: "2 \<le> n" "n \<le> CB_PATH_MAX * 2" and cwd: "cwd \<noteq> []" "hd cwd = slash"
    and cwd2: "cwd2 \<noteq> []" "hd cwd2 = slash"
    and ok: "cb_test_path_normalize cwd path n = Inr out"
  shows "hd out = slash \<and> length out < n \<and> (\<forall>name \<in> set (components out). plain name) \<and>
    out = path_text (components out) \<and> cb_test_path_normalize cwd2 out n = Inr out"
proof -
  let ?ns = "normalized_names (components (joined_input cwd path))"
  have out: "out = path_text ?ns" and fit: "all_fit n [] (components (joined_input cwd path))"
    using ok normalize_eq [OF n(1) cwd, of path] by (auto split: if_splits)
  have plain: "\<forall>x \<in> set ?ns. plain x" by (rule normalized_plain)
  then have comps: "components out = ?ns" unfolding out by (intro components_path_text) (auto simp: plain_def)
  have fitns: "fits n ?ns"
    using fit unfolding all_fit_def normalized_names_def by (metis order_refl take_all)
  then have len: "length out < n" by (simp add: fits_def out)
  have j: "joined_input cwd2 out = out" by (simp add: joined_input_def out path_text_def)
  have "all_fit n [] ?ns"
  proof -
    have "foldl walk_step [] (take k ?ns) = take k ?ns" for k
    proof -
      have "\<forall>x \<in> set (take k ?ns). plain x" using plain by (blast dest: in_set_takeD)
      from foldl_walk_id [OF this, of "[]"] show ?thesis by simp
    qed
    then show ?thesis using fits_take [OF fitns] by (simp add: all_fit_def)
  qed
  then have af: "all_fit n [] (components out)" unfolding comps .
  have "normalized_names ?ns = ?ns"
    using foldl_walk_id [OF plain, of "[]"] by (simp add: normalized_names_def)
  then have nn: "normalized_names (components out) = components out" unfolding comps .
  have pt: "path_text (components out) = out" using out unfolding comps by simp
  have pl: "\<forall>name \<in> set (components out). plain name" using plain unfolding comps .
  have hd: "hd out = slash" by (subst out) (simp add: path_text_def)
  have "cb_test_path_normalize cwd2 out n = Inr out"
    using normalize_eq [OF n(1) cwd2, of out] unfolding j nn pt using af len n(2) by simp
  then show ?thesis using len pl pt hd by auto
qed

theorem normalize_canonical_witness:
  "hd ''/tmp/x'' = slash \<and> cb_test_path_normalize ''/bin'' ''/tmp/x'' 1024 = Inr ''/tmp/x''"
proof -
  have "cb_test_path_normalize ''/home'' ''../tmp/./x'' 1024 = Inr ''/tmp/x''" by code_simp
  then show ?thesis
    using normalize_canonical [of 1024 "''/home''" "''/bin''" "''../tmp/./x''" "''/tmp/x''"]
    by (simp add: CB_PATH_MAX_def)
qed

end
