(* ===== verification/Vfs.thy ===== *)
theory Vfs
  imports RamFs_Data Path
begin

text \<open>
  The virtual file system, \<^verbatim>\<open>src/vfs.c\<close>: path resolution across mounts and the operations on paths.
  A task contributes only its root and its working directory, which are arguments here. Functions
  that set the task's error number return the error instead; the callers in \<open>Kernel\<close> store it.
  Every node is a RAM file system node, so the checks of operation tables (\<^verbatim>\<open>node_ops_valid\<close>,
  \<^verbatim>\<open>mount_ops_valid\<close>, \<^verbatim>\<open>struct_size\<close>) hold and have no branch.
\<close>

section \<open>Working directory\<close>

definition cross_up :: "vfs_state \<Rightarrow> addr \<Rightarrow> addr" where
  "cross_up v node =
     (case List.find (\<lambda>(mount_point, mount). ramfs_mount_root v mount = Some node) (mount_table v) of
        None \<Rightarrow> node
      | Some (mount_point, mount) \<Rightarrow> mount_point)"

definition cross_down :: "vfs_state \<Rightarrow> addr \<Rightarrow> addr option" where
  "cross_down v node =
     (case List.find (\<lambda>(mount_point, mount). mount_point = node) (mount_table v) of
        None \<Rightarrow> Some node
      | Some (mount_point, mount) \<Rightarrow> ramfs_mount_root v mount)"

text \<open>
  The upward walk of \<^verbatim>\<open>cwd_string\<close>. The array \<^verbatim>\<open>parts\<close> has \<open>MAX_DEPTH\<close> places; \<open>room\<close> is how many are
  left, and \<open>parts\<close> the places filled so far, the last one first.
\<close>

fun cwd_walk :: "vfs_state \<Rightarrow> addr option \<Rightarrow> nat \<Rightarrow> addr option \<Rightarrow> addr list \<Rightarrow> cb_error + addr list" where
  "cwd_walk v root 0 node parts = (if node = root then Inr parts else Inl CB_EIO)"
| "cwd_walk v root (Suc room) node parts =
     (if node = root then Inr parts
      else case node of
        None \<Rightarrow> Inl CB_EIO
      | Some a \<Rightarrow>
          let b = cross_up v a
          in if Some b = root then Inr parts
             else cwd_walk v root room (ramfs_parent v b) (b # parts))"

fun cwd_copy :: "vfs_state \<Rightarrow> nat \<Rightarrow> addr list \<Rightarrow> string \<Rightarrow> cb_error + string" where
  "cwd_copy v bufsize [] buffer = Inr buffer"
| "cwd_copy v bufsize (part # parts) buffer =
     (case ramfs_name v part of
        None \<Rightarrow> Inl CB_EIO
      | Some name \<Rightarrow>
          if length buffer + length name + (if parts \<noteq> [] then 1 else 0) + 1 > bufsize
          then Inl CB_ENAMETOOLONG
          else cwd_copy v bufsize parts (buffer @ name @ (if parts \<noteq> [] then [slash] else [])))"

definition cwd_string :: "vfs_state \<Rightarrow> addr option \<Rightarrow> addr option \<Rightarrow> nat \<Rightarrow> cb_error + string" where
  "cwd_string v root cwd bufsize =
     (case cwd_walk v root MAX_DEPTH cwd [] of
        Inl e \<Rightarrow> Inl e
      | Inr parts \<Rightarrow>
          if bufsize < 2 then Inl CB_ENAMETOOLONG else cwd_copy v bufsize parts [slash])"

definition normalize_for_task :: "vfs_state \<Rightarrow> addr option \<Rightarrow> addr option \<Rightarrow> string \<Rightarrow> cb_error + string" where
  "normalize_for_task v root cwd path =
     (case cwd_string v root cwd CB_PATH_MAX of
        Inl e \<Rightarrow> Inl e
      | Inr text \<Rightarrow> cb_test_path_normalize text path CB_PATH_MAX)"

section \<open>Resolution\<close>

fun resolve_names :: "vfs_state \<Rightarrow> string list \<Rightarrow> addr option \<Rightarrow> cb_error + addr" where
  "resolve_names v [] node = (case node of None \<Rightarrow> Inl Dangling | Some a \<Rightarrow> Inr a)"
| "resolve_names v (name # rest) node =
     (case node of
        None \<Rightarrow> Inl CB_EIO
      | Some d \<Rightarrow>
          (case ramfs_lookup v d name of
             Inl e \<Rightarrow> Inl e
           | Inr child \<Rightarrow> resolve_names v rest (cross_down v child)))"

definition resolve_normalized :: "vfs_state \<Rightarrow> addr option \<Rightarrow> string \<Rightarrow> cb_error + addr" where
  "resolve_normalized v root normalized = resolve_names v (components normalized) root"

text \<open>The text before and after the last slash (\<^verbatim>\<open>strrchr\<close>).\<close>

definition after_last_slash :: "string \<Rightarrow> string" where
  "after_last_slash s = rev (takeWhile (\<lambda>c. c \<noteq> slash) (rev s))"

definition before_last_slash :: "string \<Rightarrow> string" where
  "before_last_slash s = rev (drop 1 (dropWhile (\<lambda>c. c \<noteq> slash) (rev s)))"

definition resolve_parent :: "vfs_state \<Rightarrow> addr option \<Rightarrow> string \<Rightarrow> cb_error + addr \<times> string" where
  "resolve_parent v root normalized =
     (if slash \<notin> set normalized \<or> after_last_slash normalized = [] then Inl CB_EINVAL
      else let parent_path = before_last_slash normalized
           in case resolve_normalized v root (if parent_path = [] then [slash] else parent_path) of
                Inl e \<Rightarrow> Inl e
              | Inr parent \<Rightarrow> Inr (parent, after_last_slash normalized))"

definition cb_vfs_lookup_node :: "vfs_state \<Rightarrow> addr option \<Rightarrow> addr option \<Rightarrow> string \<Rightarrow> cb_error + addr" where
  "cb_vfs_lookup_node v root cwd path =
     (case normalize_for_task v root cwd path of
        Inl e \<Rightarrow> Inl e
      | Inr normalized \<Rightarrow> resolve_normalized v root normalized)"

section \<open>Mounting\<close>

definition cb_vfs_set_root_mount :: "vfs_state \<Rightarrow> addr \<Rightarrow> cb_error option \<times> vfs_state" where
  "cb_vfs_set_root_mount v mount =
     (if root_mount v \<noteq> None then (Some CB_EINVAL, v)
      else case ramfs_mount_root v mount of
             None \<Rightarrow> (Some CB_EINVAL, v)
           | Some root \<Rightarrow>
               (case nodes v root of
                  None \<Rightarrow> (Some CB_EINVAL, v)
                | Some n \<Rightarrow>
                    if n_mount n \<noteq> mount then (Some CB_EINVAL, v)
                    else (None, v\<lparr>root_mount := Some mount, vfs_root := Some root\<rparr>)))"

definition cb_vfs_initialize :: "vfs_state \<Rightarrow> cb_error option \<times> vfs_state" where
  "cb_vfs_initialize v =
     (case cb_ramfs_mount_create v of
        (None, v1) \<Rightarrow> (Some CB_ENOMEM, v1)
      | (Some mount, v1) \<Rightarrow>
          (case cb_vfs_set_root_mount v1 mount of
             (Some e, v2) \<Rightarrow> (Some CB_EIO, ramfs_mount_destroy v2 mount)
           | (None, v2) \<Rightarrow> (None, v2)))"

definition cb_vfs_destroy :: "vfs_state \<Rightarrow> vfs_state" where
  "cb_vfs_destroy v =
     (let v1 = foldl ramfs_node_release v (map fst (mount_table v));
          v2 = foldl ramfs_mount_destroy v1 (rev (map snd (mount_table v)));
          v3 = (case root_mount v of None \<Rightarrow> v2 | Some mount \<Rightarrow> ramfs_mount_destroy v2 mount)
      in v3\<lparr>mount_table := [], root_mount := None, vfs_root := None\<rparr>)"

definition is_mount_node :: "vfs_state \<Rightarrow> addr \<Rightarrow> bool" where
  "is_mount_node v node =
     list_ex (\<lambda>(mount_point, mount). mount_point = node \<or> ramfs_mount_root v mount = Some node)
       (mount_table v)"

definition CB_MAX_MOUNTS :: nat where
  "CB_MAX_MOUNTS = 4"

definition cb_vfs_mount_path ::
  "vfs_state \<Rightarrow> addr option \<Rightarrow> addr option \<Rightarrow> string \<Rightarrow> addr \<Rightarrow> cb_error option \<times> vfs_state" where
  "cb_vfs_mount_path v root cwd path mount =
     (case ramfs_mount_root v mount of
        None \<Rightarrow> (Some CB_EINVAL, v)
      | Some cand_root \<Rightarrow>
          (case nodes v cand_root of
             None \<Rightarrow> (Some CB_EINVAL, v)
           | Some cand \<Rightarrow>
               if n_mount cand \<noteq> mount then (Some CB_EINVAL, v)
               else if n_type cand \<noteq> CB_NODE_DIRECTORY then (Some CB_ENOTDIR, v)
               else if root_mount v = Some mount then (Some CB_EINVAL, v)
               else if mount \<in> set (map snd (mount_table v)) then (Some CB_EINVAL, v)
               else if length (mount_table v) \<ge> CB_MAX_MOUNTS then (Some CB_ENOMEM, v)
               else (case cb_vfs_lookup_node v root cwd path of
                       Inl e \<Rightarrow> (Some e, v)
                     | Inr node \<Rightarrow>
                         if vfs_root v = Some node then (Some CB_EINVAL, v)
                         else if \<not> is_directory v node then (Some CB_ENOTDIR, v)
                         else if is_mount_node v node then (Some CB_EEXIST, v)
                         else (None, (ramfs_node_retain v node)
                                       \<lparr>mount_table := mount_table v @ [(node, mount)]\<rparr>))))"

section \<open>Operations on paths\<close>

definition cb_vfs_open ::
  "vfs_state \<Rightarrow> addr option \<Rightarrow> addr option \<Rightarrow> string \<Rightarrow> int \<Rightarrow> nat \<Rightarrow>
   (cb_error + addr \<times> open_file) \<times> vfs_state" where
  "cb_vfs_open v root cwd path flags mode =
     (case normalize_for_task v root cwd path of
        Inl e \<Rightarrow> (Inl e, v)
      | Inr normalized \<Rightarrow>
          let (found, v1) =
                (case resolve_normalized v root normalized of
                   Inr a \<Rightarrow> (Inr a, v)
                 | Inl e \<Rightarrow>
                     if e = CB_ENOENT \<and> has_flag flags CB_O_CREAT
                     then (case resolve_parent v root normalized of
                             Inl e' \<Rightarrow> (Inl e', v)
                           | Inr (parent, name) \<Rightarrow>
                               ramfs_create v parent name CB_NODE_REGULAR (if mode = 0 then 438 else mode))
                     else (Inl e, v))
          in case found of
               Inl e \<Rightarrow> (Inl e, v1)
             | Inr a \<Rightarrow> ramfs_open v1 a flags)"

definition cb_vfs_stat_path :: "vfs_state \<Rightarrow> addr option \<Rightarrow> addr option \<Rightarrow> string \<Rightarrow> cb_error + cb_stat" where
  "cb_vfs_stat_path v root cwd path =
     (case cb_vfs_lookup_node v root cwd path of
        Inl e \<Rightarrow> Inl e
      | Inr node \<Rightarrow> ramfs_stat v node)"

definition cb_vfs_truncate_node :: "vfs_state \<Rightarrow> addr \<Rightarrow> int \<Rightarrow> cb_error option \<times> vfs_state" where
  "cb_vfs_truncate_node v node len =
     (if len < 0 \<or> nat len > SIZE_MAX then (Some CB_EINVAL, v)
      else case ramfs_stat v node of
             Inl e \<Rightarrow> (Some e, v)
           | Inr status \<Rightarrow>
               if st_type status = CB_NODE_DIRECTORY then (Some CB_EISDIR, v)
               else if st_type status = CB_NODE_EXECUTABLE then (Some CB_EINVAL, v)
               else if st_type status \<noteq> CB_NODE_REGULAR then (Some CB_ESPIPE, v)
               else ramfs_truncate v node len)"

definition cb_vfs_truncate_path ::
  "vfs_state \<Rightarrow> addr option \<Rightarrow> addr option \<Rightarrow> string \<Rightarrow> int \<Rightarrow> cb_error option \<times> vfs_state" where
  "cb_vfs_truncate_path v root cwd path len =
     (if len < 0 \<or> nat len > SIZE_MAX then (Some CB_EINVAL, v)
      else case cb_vfs_lookup_node v root cwd path of
             Inl e \<Rightarrow> (Some e, v)
           | Inr node \<Rightarrow> cb_vfs_truncate_node v node len)"

definition cb_vfs_opendir_path ::
  "vfs_state \<Rightarrow> addr option \<Rightarrow> addr option \<Rightarrow> string \<Rightarrow> (cb_error + addr) \<times> vfs_state" where
  "cb_vfs_opendir_path v root cwd path =
     (case cb_vfs_lookup_node v root cwd path of
        Inl e \<Rightarrow> (Inl e, v)
      | Inr node \<Rightarrow>
          (case ramfs_stat v node of
             Inl e \<Rightarrow> (Inl e, v)
           | Inr status \<Rightarrow>
               if st_type status \<noteq> CB_NODE_DIRECTORY then (Inl CB_ENOTDIR, v)
               else (Inr node, ramfs_node_retain v node)))"

definition cb_vfs_child_at :: "vfs_state \<Rightarrow> addr \<Rightarrow> nat \<Rightarrow> cb_error + addr option" where
  "cb_vfs_child_at v directory index = ramfs_child_at v directory index"

definition cb_vfs_next_sibling :: "vfs_state \<Rightarrow> addr \<Rightarrow> cb_error + addr option" where
  "cb_vfs_next_sibling v node = ramfs_next_sibling v node"

definition cb_vfs_mkdir_path ::
  "vfs_state \<Rightarrow> addr option \<Rightarrow> addr option \<Rightarrow> string \<Rightarrow> nat \<Rightarrow> cb_error option \<times> vfs_state" where
  "cb_vfs_mkdir_path v root cwd path mode =
     (case normalize_for_task v root cwd path of
        Inl e \<Rightarrow> (Some e, v)
      | Inr normalized \<Rightarrow>
          (case resolve_normalized v root normalized of
             Inr node \<Rightarrow> (Some CB_EEXIST, v)
           | Inl e \<Rightarrow>
               if e \<noteq> CB_ENOENT then (Some e, v)
               else (case resolve_parent v root normalized of
                       Inl e' \<Rightarrow> (Some e', v)
                     | Inr (parent, name) \<Rightarrow>
                         (case ramfs_create v parent name CB_NODE_DIRECTORY (if mode = 0 then 511 else mode) of
                            (Inl e', v') \<Rightarrow> (Some e', v')
                          | (Inr node, v') \<Rightarrow> (None, v')))))"

definition cb_vfs_unlink_path ::
  "vfs_state \<Rightarrow> addr option \<Rightarrow> addr option \<Rightarrow> string \<Rightarrow> cb_error option \<times> vfs_state" where
  "cb_vfs_unlink_path v root cwd path =
     (case cb_vfs_lookup_node v root cwd path of
        Inl e \<Rightarrow> (Some e, v)
      | Inr node \<Rightarrow> if is_mount_node v node then (Some CB_EPERM, v) else ramfs_unlink v node)"

definition cb_vfs_rmdir_path ::
  "vfs_state \<Rightarrow> addr option \<Rightarrow> addr option \<Rightarrow> string \<Rightarrow> cb_error option \<times> vfs_state" where
  "cb_vfs_rmdir_path v root cwd path =
     (case cb_vfs_lookup_node v root cwd path of
        Inl e \<Rightarrow> (Some e, v)
      | Inr node \<Rightarrow> if is_mount_node v node then (Some CB_EPERM, v) else ramfs_rmdir v node)"

text \<open>The check that the new parent does not lie below the node: \<open>room\<close> hops are left.\<close>

fun rename_walk :: "vfs_state \<Rightarrow> addr \<Rightarrow> nat \<Rightarrow> addr option \<Rightarrow> cb_error option" where
  "rename_walk v old_node room None = None"
| "rename_walk v old_node 0 (Some walk) =
     (if walk = old_node then Some CB_EINVAL else Some CB_ENAMETOOLONG)"
| "rename_walk v old_node (Suc room) (Some walk) =
     (if walk = old_node then Some CB_EINVAL else rename_walk v old_node room (ramfs_parent v walk))"

definition rename_target ::
  "vfs_state \<Rightarrow> addr \<Rightarrow> addr \<Rightarrow> string \<Rightarrow> cb_error + addr option" where
  "rename_target v old_node new_parent new_name =
     (case ramfs_lookup v new_parent new_name of
        Inl e \<Rightarrow> if e = CB_ENOENT then Inr None else Inl e
      | Inr existing \<Rightarrow>
          if existing = old_node then Inr (Some existing)
          else if is_directory v old_node
          then Inl (if is_directory v existing then CB_ENOTEMPTY else CB_ENOTDIR)
          else if is_directory v existing then Inl CB_EISDIR
          else Inr (Some existing))"

definition cb_vfs_rename_nodes ::
  "vfs_state \<Rightarrow> addr \<Rightarrow> addr \<Rightarrow> string \<Rightarrow> cb_error option \<times> vfs_state" where
  "cb_vfs_rename_nodes v old_node new_parent new_name =
     (case (nodes v old_node, nodes v new_parent) of
        (Some old, Some np) \<Rightarrow>
          if n_mount old \<noteq> n_mount np then (Some CB_EXDEV, v)
          else if is_mount_node v old_node then (Some CB_EPERM, v)
          else (case rename_walk v old_node MAX_DEPTH (Some new_parent) of
                  Some e \<Rightarrow> (Some e, v)
                | None \<Rightarrow>
                    (case rename_target v old_node new_parent new_name of
                       Inl e \<Rightarrow> (Some e, v)
                     | Inr existing \<Rightarrow>
                         if existing = Some old_node then (None, v)
                         else (case cb_string_duplicate (v_host v) new_name of
                                 (None, h) \<Rightarrow> (Some CB_ENOMEM, v\<lparr>v_host := h\<rparr>)
                               | (Some owned, h) \<Rightarrow>
                                   let v1 = v\<lparr>v_host := h\<rparr>;
                                       (r, v2) = (case existing of
                                                    None \<Rightarrow> (None, v1)
                                                  | Some x \<Rightarrow> ramfs_unlink v1 x)
                                   in case r of
                                        Some e \<Rightarrow> (Some e, v2)
                                      | None \<Rightarrow> ramfs_rename v2 old_node new_parent owned)))
      | _ \<Rightarrow> (Some CB_EIO, v))"

definition cb_vfs_rename_paths ::
  "vfs_state \<Rightarrow> addr option \<Rightarrow> addr option \<Rightarrow> string \<Rightarrow> string \<Rightarrow> cb_error option \<times> vfs_state" where
  "cb_vfs_rename_paths v root cwd old_path new_path =
     (case cb_vfs_lookup_node v root cwd old_path of
        Inl e \<Rightarrow> (Some e, v)
      | Inr old_node \<Rightarrow>
          (case normalize_for_task v root cwd new_path of
             Inl e \<Rightarrow> (Some e, v)
           | Inr new_normalized \<Rightarrow>
               (case resolve_parent v root new_normalized of
                  Inl e \<Rightarrow> (Some e, v)
                | Inr (new_parent, new_name) \<Rightarrow> cb_vfs_rename_nodes v old_node new_parent new_name)))"

definition cb_vfs_chdir_path ::
  "vfs_state \<Rightarrow> addr option \<Rightarrow> addr option \<Rightarrow> string \<Rightarrow> (cb_error + addr) \<times> vfs_state" where
  "cb_vfs_chdir_path v root cwd path =
     (case cb_vfs_lookup_node v root cwd path of
        Inl e \<Rightarrow> (Inl e, v)
      | Inr node \<Rightarrow>
          (case ramfs_stat v node of
             Inl e \<Rightarrow> (Inl e, v)
           | Inr status \<Rightarrow>
               if st_type status \<noteq> CB_NODE_DIRECTORY then (Inl CB_ENOTDIR, v)
               else let v1 = ramfs_node_retain v node;
                        v2 = (case cwd of None \<Rightarrow> v1 | Some old \<Rightarrow> ramfs_node_release v1 old)
                    in (Inr node, v2)))"

definition cb_vfs_getcwd_path :: "vfs_state \<Rightarrow> addr option \<Rightarrow> addr option \<Rightarrow> nat \<Rightarrow> cb_error + string" where
  "cb_vfs_getcwd_path v root cwd bufsize =
     (if bufsize = 0 then Inl CB_EINVAL else cwd_string v root cwd bufsize)"

definition cb_vfs_create_executable :: "vfs_state \<Rightarrow> string \<Rightarrow> nat \<Rightarrow> cb_error option \<times> vfs_state" where
  "cb_vfs_create_executable v path program =
     (case normalize_for_task v (vfs_root v) (vfs_root v) path of
        Inl e \<Rightarrow> (Some e, v)
      | Inr normalized \<Rightarrow>
          (case resolve_normalized v (vfs_root v) normalized of
             Inr node \<Rightarrow> (Some CB_EEXIST, v)
           | Inl e \<Rightarrow>
               if e \<noteq> CB_ENOENT then (Some e, v)
               else (case resolve_parent v (vfs_root v) normalized of
                       Inl e' \<Rightarrow> (Some e', v)
                     | Inr (parent, name) \<Rightarrow>
                         (case ramfs_create v parent name CB_NODE_EXECUTABLE 365 of
                            (Inl e', v') \<Rightarrow> (Some e', v')
                          | (Inr node, v') \<Rightarrow>
                              (case nodes v' node of
                                 None \<Rightarrow> (Some Dangling, v')
                               | Some n \<Rightarrow> (None, upd_node v' node (n\<lparr>n_executable := Some program\<rparr>)))))))"

end
