(* ===== verification/Pipe.thy ===== *)
theory Pipe
  imports Ring RamFs
begin

text \<open>
  Pipes, the \<^verbatim>\<open>pipe_*\<close> functions of \<^verbatim>\<open>src/core.c\<close>: a ring of 4096 bytes with counts of readers and
  writers. A call that has to wait yields to the scheduler and looks again when it is resumed; the
  model returns at each such point, with what the call has to remember: \<open>pipe_read_try\<close> and
  \<open>pipe_write_try\<close> are what a call does from one resumption to the next point where it waits or
  returns. The theory \<open>Kernel\<close> embeds them in the calls, with the error numbers and the wake-ups.
\<close>

section \<open>Data\<close>

definition PIPE_SIZE :: nat where
  "PIPE_SIZE = 4096"

record cb_pipe =
  pp_data :: "byte list"
  pp_read_position :: nat
  pp_used :: nat
  pp_readers :: nat
  pp_writers :: nat

text \<open>The cleared object \<^verbatim>\<open>cb_allocate\<close> returns.\<close>

definition pipe_new :: cb_pipe where
  "pipe_new = \<lparr>pp_data = replicate PIPE_SIZE NUL, pp_read_position = 0, pp_used = 0,
               pp_readers = 0, pp_writers = 0\<rparr>"

section \<open>Reading and writing\<close>

text \<open>The two copies of \<^verbatim>\<open>pipe_read\<close> and the update of its position.\<close>

definition pipe_take :: "cb_pipe \<Rightarrow> nat \<Rightarrow> byte list \<times> cb_pipe" where
  "pipe_take p count =
     (let amount = (if count < pp_used p then count else pp_used p);
          first0 = length (pp_data p) - pp_read_position p;
          first = (if first0 > amount then amount else first0)
      in (take first (drop (pp_read_position p) (pp_data p)) @ take (amount - first) (pp_data p),
          p\<lparr>pp_read_position := (pp_read_position p + amount) mod length (pp_data p),
            pp_used := pp_used p - amount\<rparr>))"

datatype read_outcome = Read_nothing | Read_eof | Read_waits | Read_bytes "byte list" cb_pipe

definition pipe_read_try :: "cb_pipe \<Rightarrow> nat \<Rightarrow> read_outcome" where
  "pipe_read_try p count =
     (if count = 0 then Read_nothing
      else if pp_used p = 0 then (if pp_writers p = 0 then Read_eof else Read_waits)
      else let (bytes, p') = pipe_take p count in Read_bytes bytes p')"

text \<open>The two copies of \<^verbatim>\<open>pipe_write\<close>; \<open>chunk\<close> is no longer than the free space.\<close>

definition pipe_put :: "cb_pipe \<Rightarrow> byte list \<Rightarrow> cb_pipe" where
  "pipe_put p chunk =
     (let amount = length chunk;
          write_position = (pp_read_position p + pp_used p) mod length (pp_data p);
          first0 = length (pp_data p) - write_position;
          first = (if first0 > amount then amount else first0)
      in p\<lparr>pp_data := memcpy_at (memcpy_at (pp_data p) write_position (take first chunk)) 0 (drop first chunk),
           pp_used := pp_used p + amount\<rparr>)"

text \<open>\<open>Write_broken tot\<close>: the last reader is gone; \<open>tot\<close> bytes were written before.\<close>

datatype write_outcome = Write_done nat cb_pipe | Write_broken nat cb_pipe | Write_waits nat cb_pipe

function pipe_write_try :: "cb_pipe \<Rightarrow> byte list \<Rightarrow> nat \<Rightarrow> write_outcome" where
  "pipe_write_try p source tot =
     (if tot < length source
      then if pp_readers p = 0 then Write_broken tot p
           else let free_space = length (pp_data p) - pp_used p
                in if free_space = 0 then Write_waits tot p
                   else let amount0 = length source - tot;
                            amount = (if amount0 > free_space then free_space else amount0)
                        in pipe_write_try (pipe_put p (take amount (drop tot source))) source (tot + amount)
      else Write_done tot p)"
  by pat_completeness auto
termination
  by (relation "measure (\<lambda>(p, source, tot). length source - tot)") auto

declare pipe_write_try.simps [simp del]

section \<open>Readiness and status\<close>

definition pipe_read_poll :: "cb_pipe \<Rightarrow> int \<Rightarrow> int" where
  "pipe_read_poll p events =
     (let r0 = (if pp_writers p = 0 then CB_POLL_HUP else 0)
      in if has_flag events CB_POLL_READ \<and> (pp_used p \<noteq> 0 \<or> pp_writers p = 0)
         then r0 OR CB_POLL_READ else r0)"

definition pipe_write_poll :: "cb_pipe \<Rightarrow> int \<Rightarrow> int" where
  "pipe_write_poll p events =
     (let r0 = (if pp_readers p = 0 then CB_POLL_ERR else 0)
      in if has_flag events CB_POLL_WRITE \<and> (pp_used p < length (pp_data p) \<or> pp_readers p = 0)
         then r0 OR CB_POLL_WRITE else r0)"

definition plain_stat :: "node_type \<Rightarrow> nat \<Rightarrow> cb_stat" where
  "plain_stat type sz =
     \<lparr>st_inode = 0, st_size = sz, st_mode = 384, st_type = type, st_device = 0, st_nlink = 0,
      st_uid = 0, st_gid = 0, st_atime_ms = 0, st_mtime_ms = 0, st_ctime_ms = 0\<rparr>"

definition pipe_stat :: "cb_pipe \<Rightarrow> cb_stat" where
  "pipe_stat p = plain_stat CB_NODE_PIPE (pp_used p)"

section \<open>A pipe is a bounded byte queue\<close>

definition pipe_ok :: "cb_pipe \<Rightarrow> bool" where
  "pipe_ok p \<longleftrightarrow> length (pp_data p) = PIPE_SIZE \<and> pp_read_position p < PIPE_SIZE \<and> pp_used p \<le> PIPE_SIZE"

definition pipe_contents :: "cb_pipe \<Rightarrow> byte list" where
  "pipe_contents p = ring_contents (pp_data p) (pp_read_position p) (pp_used p)"

definition pipe_fits :: "cb_pipe \<Rightarrow> byte list \<Rightarrow> bool" where
  "pipe_fits p chunk \<longleftrightarrow> pp_used p + length chunk \<le> PIPE_SIZE"

lemma pipe_new_ok: "pipe_ok pipe_new" "pipe_contents pipe_new = []"
  by (simp_all add: pipe_ok_def pipe_new_def pipe_contents_def PIPE_SIZE_def)

lemma if_less_min: "(if (a :: nat) < b then a else b) = min a b"
  by (simp add: min_def)

lemma pipe_put_store:
  assumes "pipe_ok p" "pipe_fits p chunk"
  shows "pipe_put p chunk =
    p\<lparr>pp_data := ring_store (pp_data p) ((pp_read_position p + pp_used p) mod PIPE_SIZE) chunk,
      pp_used := pp_used p + length chunk\<rparr>"
proof -
  let ?w = "(pp_read_position p + pp_used p) mod PIPE_SIZE"
  have len: "length (pp_data p) = PIPE_SIZE" using assms by (simp add: pipe_ok_def)
  have w: "?w < length (pp_data p)" using len by (simp add: PIPE_SIZE_def)
  have "length chunk \<le> length (pp_data p)" using assms len by (simp add: pipe_fits_def)
  from ring_store_two_copies [OF w this] show ?thesis
    unfolding pipe_put_def Let_def if_less_min using len by simp
qed

lemma pipe_take_eq:
  assumes "pipe_ok p"
  shows "pipe_take p count =
    (take count (pipe_contents p),
     p\<lparr>pp_read_position := (pp_read_position p + min count (pp_used p)) mod PIPE_SIZE,
       pp_used := pp_used p - min count (pp_used p)\<rparr>)"
proof -
  let ?a = "min count (pp_used p)"
  have len: "length (pp_data p) = PIPE_SIZE" and rp: "pp_read_position p < length (pp_data p)"
    and used: "?a \<le> length (pp_data p)"
    using assms by (auto simp: pipe_ok_def)
  have "take count (pipe_contents p) = take ?a (pipe_contents p)"
    by (auto simp: min_def pipe_contents_def)
  also have "\<dots> = ring_contents (pp_data p) (pp_read_position p) ?a"
    unfolding pipe_contents_def by (rule ring_contents_take) simp
  finally show ?thesis
    unfolding pipe_take_def Let_def if_less_min using ring_fetch_two_copies [OF rp used] len by simp
qed

lemma pipe_take_contents:
  assumes "pipe_ok p"
  shows "pipe_ok (snd (pipe_take p count))"
    and "fst (pipe_take p count) = take count (pipe_contents p)"
    and "pipe_contents (snd (pipe_take p count)) = drop count (pipe_contents p)"
proof -
  show "fst (pipe_take p count) = take count (pipe_contents p)" by (simp add: pipe_take_eq [OF assms])
  show "pipe_ok (snd (pipe_take p count))"
    using assms by (auto simp: pipe_take_eq [OF assms] pipe_ok_def PIPE_SIZE_def)
  let ?a = "min count (pp_used p)"
  have "drop count (pipe_contents p) = drop ?a (pipe_contents p)"
    by (auto simp: min_def pipe_contents_def)
  also have "\<dots> = pipe_contents (snd (pipe_take p count))"
    using assms by (simp add: pipe_take_eq [OF assms] pipe_contents_def ring_contents_drop pipe_ok_def)
  finally show "pipe_contents (snd (pipe_take p count)) = drop count (pipe_contents p)" by simp
qed

interpretation pipe_queue: byte_queue pipe_ok pipe_contents pipe_fits pipe_put pipe_take
proof
  fix p :: cb_pipe and xs n
  show "pipe_ok (pipe_put p xs)" if "pipe_ok p" "pipe_fits p xs"
    using that by (simp add: pipe_put_store) (simp add: pipe_ok_def pipe_fits_def)
  show "pipe_contents (pipe_put p xs) = pipe_contents p @ xs" if "pipe_ok p" "pipe_fits p xs"
    using that ring_contents_store [of "pp_read_position p" "pp_data p" "pp_used p" xs]
    by (simp add: pipe_put_store) (simp add: pipe_contents_def pipe_ok_def pipe_fits_def)
  show "pipe_ok (snd (pipe_take p n))" if "pipe_ok p" using pipe_take_contents(1) [OF that] .
  show "fst (pipe_take p n) @ pipe_contents (snd (pipe_take p n)) = pipe_contents p" if "pipe_ok p"
    using pipe_take_contents(2,3) [OF that] by simp
qed

section \<open>One attempt of a writer\<close>

lemma pipe_put_Nil [simp]: "pipe_put p [] = p"
  by (simp add: pipe_put_def)

lemma pipe_ok_room: "pipe_ok p \<Longrightarrow> length (pp_data p) - pp_used p = PIPE_SIZE - pp_used p"
  by (simp add: pipe_ok_def)

text \<open>An attempt stores as much as fits and then has finished or waits on a full pipe.\<close>

definition pipe_accepted :: "cb_pipe \<Rightarrow> byte list \<Rightarrow> nat \<Rightarrow> byte list" where
  "pipe_accepted p source tot =
     (if pp_readers p = 0 then [] else take (PIPE_SIZE - pp_used p) (drop tot source))"

lemma pipe_put_frame [simp]:
  "pp_readers (pipe_put p xs) = pp_readers p" "pp_writers (pipe_put p xs) = pp_writers p"
  "pp_used (pipe_put p xs) = pp_used p + length xs"
  by (simp_all add: pipe_put_def Let_def)

lemma pipe_take_frame [simp]:
  "pp_readers (snd (pipe_take p n)) = pp_readers p" "pp_writers (snd (pipe_take p n)) = pp_writers p"
  by (simp_all add: pipe_take_def Let_def)

lemma pipe_accepted_fits: "pipe_ok p \<Longrightarrow> pipe_fits p (pipe_accepted p source tot)"
  by (auto simp: pipe_accepted_def pipe_fits_def pipe_ok_def)

lemma pipe_write_try_eq:
  assumes "pipe_ok p" "tot \<le> length source"
  shows "pipe_write_try p source tot =
    (let new = pipe_accepted p source tot; tot' = tot + length new; p' = pipe_put p new
     in if tot = length source then Write_done tot p
        else if pp_readers p = 0 then Write_broken tot p
        else if tot' = length source then Write_done tot' p' else Write_waits tot' p')"
proof (cases "tot < length source \<and> pp_readers p \<noteq> 0 \<and> pp_used p < PIPE_SIZE")
  case False
  then show ?thesis using assms
    by (subst pipe_write_try.simps) (auto simp: pipe_accepted_def pipe_ok_room pipe_ok_def Let_def)
next
  case True
  let ?n = "min (length source - tot) (PIPE_SIZE - pp_used p)"
  let ?q = "pipe_put p (take ?n (drop tot source))"
  have new: "pipe_accepted p source tot = take ?n (drop tot source)"
    using True by (auto simp: pipe_accepted_def min_def)
  have ok: "pipe_ok ?q"
    using pipe_queue.invar_put [OF assms(1) pipe_accepted_fits [OF assms(1), of source tot]] by (simp add: new)
  have free: "length (pp_data p) - pp_used p = PIPE_SIZE - pp_used p" using assms(1) by (rule pipe_ok_room)
  have amount: "(if PIPE_SIZE - pp_used p < length source - tot then PIPE_SIZE - pp_used p else length source - tot) = ?n"
    by (simp add: min_def)
  have "pipe_write_try p source tot = pipe_write_try ?q source (tot + ?n)"
    using True by (subst pipe_write_try.simps) (simp add: Let_def free amount)
  also have "\<dots> = (if tot + ?n = length source then Write_done (tot + ?n) ?q else Write_waits (tot + ?n) ?q)"
  proof (cases "tot + ?n = length source")
    case fin: True
    then show ?thesis by (subst pipe_write_try.simps) simp
  next
    case short: False
    then have "pp_used ?q = PIPE_SIZE" using True by (simp add: min_def split: if_splits)
    then have "length (pp_data ?q) - pp_used ?q = 0" using pipe_ok_room [OF ok] by simp
    moreover have "tot + ?n < length source" using short True by (simp add: min_def split: if_splits)
    ultimately show ?thesis using True short by (subst pipe_write_try.simps) (simp only: Let_def pipe_put_frame if_True if_False simp_thms)
  qed
  finally have "pipe_write_try p source tot =
      (if tot + ?n = length source then Write_done (tot + ?n) ?q else Write_waits (tot + ?n) ?q)" .
  moreover have "length (take ?n (drop tot source)) = ?n" by simp
  ultimately show ?thesis using True unfolding new Let_def by (simp only: if_False less_not_refl2 simp_thms nat_neq_iff) auto
qed

section \<open>Any interleaving of attempts\<close>

text \<open>
  Tasks that share a pipe take turns at arbitrary points. An event is one attempt of some writer,
  with what it still has to write, or one attempt of some reader, with the size of its buffer.
\<close>

datatype pipe_event = WriteAttempt "byte list" nat | ReadAttempt nat

fun write_result :: "write_outcome \<Rightarrow> nat \<times> cb_pipe" where
  "write_result (Write_done t p) = (t, p)"
| "write_result (Write_broken t p) = (t, p)"
| "write_result (Write_waits t p) = (t, p)"

text \<open>The bytes that calls have reported as written, those that calls have delivered, and the pipe.\<close>

fun pipe_run :: "pipe_event list \<Rightarrow> cb_pipe \<Rightarrow> byte list \<times> byte list \<times> cb_pipe" where
  "pipe_run [] p = ([], [], p)"
| "pipe_run (WriteAttempt source tot # es) p =
     (let (tot', p') = write_result (pipe_write_try p source tot);
          (i, out, q) = pipe_run es p'
      in (take (tot' - tot) (drop tot source) @ i, out, q))"
| "pipe_run (ReadAttempt count # es) p =
     (case pipe_read_try p count of
        Read_bytes bytes p' \<Rightarrow> (let (i, out, q) = pipe_run es p' in (i, bytes @ out, q))
      | _ \<Rightarrow> pipe_run es p)"

fun event_ok :: "pipe_event \<Rightarrow> bool" where
  "event_ok (WriteAttempt source tot) \<longleftrightarrow> tot \<le> length source"
| "event_ok (ReadAttempt count) \<longleftrightarrow> True"

lemma write_result_eq:
  assumes "pipe_ok p" "tot \<le> length source"
  shows "write_result (pipe_write_try p source tot) =
    (tot + length (pipe_accepted p source tot), pipe_put p (pipe_accepted p source tot))"
  using assms by (auto simp: pipe_write_try_eq Let_def pipe_accepted_def)

lemma pipe_accepted_prefix:
  "take (length (pipe_accepted p source tot)) (drop tot source) = pipe_accepted p source tot"
  by (simp add: pipe_accepted_def min_def)

lemma pipe_read_try_bytes:
  assumes "pipe_ok p" "pipe_read_try p count = Read_bytes bytes p'"
  shows "pipe_ok p' \<and> bytes @ pipe_contents p' = pipe_contents p"
  using assms pipe_queue.invar_get [of p count] pipe_queue.get_front [of p count]
  by (auto simp: pipe_read_try_def split: if_splits prod.splits)

text \<open>
  C36. A pipe conserves bytes and their order under every interleaving of writers and readers: what
  the readers have received, followed by what the ring still holds, is what it held at the start
  followed by what the writers were told they had written; and the ring never overflows.
\<close>

theorem pipe_conserves_bytes:
  assumes "pipe_ok p" and "list_all event_ok es"
  shows "case pipe_run es p of (i, out, q) \<Rightarrow>
    pipe_ok q \<and> out @ pipe_contents q = pipe_contents p @ i"
  using assms
proof (induction es arbitrary: p)
  case (Cons e es)
  show ?case
  proof (cases e)
    case (WriteAttempt source tot)
    have t: "tot \<le> length source" using Cons.prems WriteAttempt by simp
    let ?new = "pipe_accepted p source tot"
    have fits: "pipe_fits p ?new" using Cons.prems(1) by (rule pipe_accepted_fits)
    have "pipe_ok (pipe_put p ?new)" using Cons.prems(1) fits by (rule pipe_queue.invar_put)
    from Cons.IH [OF this] Cons.prems pipe_queue.contents_put [OF Cons.prems(1) fits] show ?thesis
      by (auto simp: WriteAttempt write_result_eq [OF Cons.prems(1) t] pipe_accepted_prefix split: prod.splits)
  next
    case (ReadAttempt count)
    show ?thesis
    proof (cases "pipe_read_try p count")
      case (Read_bytes bytes p')
      with pipe_read_try_bytes [OF Cons.prems(1) this] Cons.IH [of p'] Cons.prems show ?thesis
        by (auto simp: ReadAttempt split: prod.splits)
    qed (use Cons ReadAttempt in auto)
  qed
qed simp

theorem pipe_conserves_bytes_witness:
  "case pipe_run [WriteAttempt ''ab'' 0, ReadAttempt 1, WriteAttempt ''cd'' 1, ReadAttempt 9]
     (pipe_new\<lparr>pp_readers := 1, pp_writers := 1\<rparr>) of (i, out, q) \<Rightarrow>
    pipe_ok q \<and> out @ pipe_contents q = pipe_contents (pipe_new\<lparr>pp_readers := 1, pp_writers := 1\<rparr>) @ i"
proof -
  let ?p = "pipe_new\<lparr>pp_readers := 1, pp_writers := 1\<rparr>"
  have "pipe_ok ?p" by (simp add: pipe_ok_def pipe_new_def PIPE_SIZE_def)
  then show ?thesis by (rule pipe_conserves_bytes) simp
qed

section \<open>Waiting and readiness\<close>

text \<open>
  C37. No deadlock inside a pipe, and readiness is exact. A reader waits only when the pipe is empty and a
  writer exists; then a writer's attempt stores at least one byte or finishes. A writer waits only on a full
  pipe with a reader, and then a reader's attempt returns at least one byte. The readiness that
  poll reports is the negation of waiting: for reading, of the wait itself; for writing, of a
  wait without progress.
\<close>

theorem pipe_waits_exactly_when_not_ready:
  assumes "pipe_ok p" and "count \<noteq> 0" and "tot < length source" and "pp_readers p \<noteq> 0"
  shows "(pipe_read_try p count = Read_waits \<longrightarrow>
           (\<exists>t p'. pipe_write_try p source tot \<in> {Write_done t p', Write_waits t p'} \<and> tot < t \<and> pp_used p' \<noteq> 0)) \<and>
         (\<forall>t p'. pipe_write_try p source tot = Write_waits t p' \<longrightarrow>
           (\<exists>bytes q. pipe_read_try p' count = Read_bytes bytes q \<and> bytes \<noteq> [])) \<and>
         (has_flag (pipe_read_poll p CB_POLL_READ) CB_POLL_READ \<longleftrightarrow> pipe_read_try p count \<noteq> Read_waits) \<and>
         (has_flag (pipe_write_poll p CB_POLL_WRITE) CB_POLL_WRITE \<longleftrightarrow>
           pipe_write_try p source tot \<noteq> Write_waits tot p)"
proof (intro conjI allI impI)
  have eq: "pipe_write_try p source tot =
    (let new = pipe_accepted p source tot; tot' = tot + length new; p' = pipe_put p new
     in if tot' = length source then Write_done tot' p' else Write_waits tot' p')"
    using assms by (simp add: pipe_write_try_eq Let_def)
  have len: "length (pipe_accepted p source tot) = min (length source - tot) (PIPE_SIZE - pp_used p)"
    using assms(4) by (simp add: pipe_accepted_def)
  have le: "pp_used p \<le> PIPE_SIZE" and dat: "length (pp_data p) = PIPE_SIZE" using assms(1) by (auto simp: pipe_ok_def)
  show "\<exists>t p'. pipe_write_try p source tot \<in> {Write_done t p', Write_waits t p'} \<and> tot < t \<and> pp_used p' \<noteq> 0"
    if "pipe_read_try p count = Read_waits"
  proof (intro exI conjI)
    have "pp_used p = 0" using that assms(2) by (auto simp: pipe_read_try_def split: if_splits prod.splits)
    then have pos: "length (pipe_accepted p source tot) > 0" using len assms(3) by (simp add: PIPE_SIZE_def)
    show "pipe_write_try p source tot \<in> {Write_done (tot + length (pipe_accepted p source tot)) (pipe_put p (pipe_accepted p source tot)),
        Write_waits (tot + length (pipe_accepted p source tot)) (pipe_put p (pipe_accepted p source tot))}"
      unfolding eq by (simp add: Let_def)
    show "tot < tot + length (pipe_accepted p source tot)" using pos by simp
    show "pp_used (pipe_put p (pipe_accepted p source tot)) \<noteq> 0" using pos by simp
  qed
  show "\<exists>bytes q. pipe_read_try p' count = Read_bytes bytes q \<and> bytes \<noteq> []"
    if "pipe_write_try p source tot = Write_waits t p'" for t p'
  proof -
    have p': "p' = pipe_put p (pipe_accepted p source tot)" and short: "tot + length (pipe_accepted p source tot) \<noteq> length source"
      using that unfolding eq by (auto simp: Let_def split: if_splits)
    have used: "pp_used p' = PIPE_SIZE" using short len le assms(3) by (auto simp: p' min_def split: if_splits)
    have ok: "pipe_ok p'" unfolding p' by (rule pipe_queue.invar_put [OF assms(1) pipe_accepted_fits [OF assms(1)]])
    have "length (pipe_contents p') = PIPE_SIZE" by (simp add: pipe_contents_def used)
    then have "pipe_contents p' \<noteq> []" by (auto simp: PIPE_SIZE_def)
    then have "take count (pipe_contents p') \<noteq> []" using assms(2) by simp
    then show ?thesis
      using assms(2) used by (simp add: pipe_read_try_def pipe_take_eq [OF ok] PIPE_SIZE_def)
  qed
  show "has_flag (pipe_read_poll p CB_POLL_READ) CB_POLL_READ \<longleftrightarrow> pipe_read_try p count \<noteq> Read_waits"
    using assms(2) by (auto simp: pipe_read_poll_def pipe_read_try_def CB_POLL_READ_def CB_POLL_HUP_def split: prod.splits)
  have "pipe_write_try p source tot = Write_waits tot p \<longleftrightarrow> pp_used p = PIPE_SIZE"
  proof
    assume w: "pipe_write_try p source tot = Write_waits tot p"
    then have "length (pipe_accepted p source tot) = 0" unfolding eq by (auto simp: Let_def split: if_splits)
    then show "pp_used p = PIPE_SIZE" using len le assms(3) by simp
  next
    assume "pp_used p = PIPE_SIZE"
    then have "pipe_accepted p source tot = []" by (simp add: pipe_accepted_def)
    then show "pipe_write_try p source tot = Write_waits tot p" unfolding eq using assms(3) by simp
  qed
  then show "has_flag (pipe_write_poll p CB_POLL_WRITE) CB_POLL_WRITE \<longleftrightarrow> pipe_write_try p source tot \<noteq> Write_waits tot p"
    using assms(4) le dat by (auto simp: pipe_write_poll_def CB_POLL_WRITE_def CB_POLL_ERR_def)
qed

theorem pipe_waits_exactly_when_not_ready_witness:
  "pipe_read_try (pipe_new\<lparr>pp_readers := 1, pp_writers := 1\<rparr>) 5 = Read_waits \<and>
   (\<exists>t p'. pipe_write_try (pipe_new\<lparr>pp_readers := 1, pp_writers := 1\<rparr>) ''hi'' 0
       \<in> {Write_done t p', Write_waits t p'} \<and> 0 < t \<and> pp_used p' \<noteq> 0)"
proof -
  let ?p = "pipe_new\<lparr>pp_readers := 1, pp_writers := 1\<rparr>"
  have ok: "pipe_ok ?p" by (simp add: pipe_ok_def pipe_new_def PIPE_SIZE_def)
  have waits: "pipe_read_try ?p 5 = Read_waits" by (simp add: pipe_read_try_def pipe_new_def)
  from pipe_waits_exactly_when_not_ready [OF ok, of 5 0 "''hi''"] have
    "\<exists>t p'. pipe_write_try ?p ''hi'' 0 \<in> {Write_done t p', Write_waits t p'} \<and> 0 < t \<and> pp_used p' \<noteq> 0"
    using waits by simp
  with waits show ?thesis by blast
qed

end
