(* ===== verification/Kernel.thy ===== *)
theory Kernel
  imports Vfs Pipe
begin

text \<open>
  The state of the runtime (\<^verbatim>\<open>struct cb_kernel\<close> and \<^verbatim>\<open>struct cb_task\<close> of \<^verbatim>\<open>src/internal.h\<close>) and the
  first half of \<^verbatim>\<open>src/core.c\<close>: string vectors, open files, descriptor tables, the console and pipe
  operations, wake-ups.

  Tasks, open files and pipes live in stores keyed by address; the linked list of tasks is the
  list of their addresses. Following a pointer to an object that is no longer in its store sets
  \<open>k_fault\<close>: the program has no such flag, and the theorems about it say that it stays false.

  A call that has to wait gives the processor back in \<^verbatim>\<open>cb_task_yield_as\<close>. The model of a call
  returns \<open>None\<close> there, after noting in \<open>t_suspended\<close> where it stands and with which arguments; the
  theory \<open>Process\<close> resumes it at that point.
\<close>

section \<open>State\<close>

text \<open>
  The console of the host. Its answers are parameters: \<open>con_poll n timeout\<close>, \<open>con_read n count\<close> and
  \<open>con_write n stream bytes\<close> are the answers to the \<open>n\<close>-th request. \<open>con_output\<close> records what was
  passed to \<^verbatim>\<open>console_write\<close>.
\<close>

record console =
  con_poll :: "nat \<Rightarrow> int \<Rightarrow> int"
  con_read :: "nat \<Rightarrow> nat \<Rightarrow> int \<times> byte list"
  con_write :: "nat \<Rightarrow> int \<Rightarrow> byte list \<Rightarrow> int"
  con_seq :: nat
  con_output :: "(int \<times> byte list) list"

record cb_fd_entry =
  fd_file :: "addr option"
  close_on_exec :: bool

record cb_dir_handle =
  d_node :: "addr option"
  d_next :: "addr option"
  d_in_use :: bool

datatype task_state =
    CB_TASK_RUNNABLE | CB_TASK_RUNNING | CB_TASK_BLOCKED_PIPE | CB_TASK_BLOCKED_CONSOLE
  | CB_TASK_BLOCKED_WAIT | CB_TASK_BLOCKED_POLL | CB_TASK_EXEC_PENDING | CB_TASK_ZOMBIE | CB_TASK_DEAD

datatype wake_reason =
    CB_WAKE_NONE | CB_WAKE_PIPE_CHANGED | CB_WAKE_CONSOLE_READY | CB_WAKE_CHILD_EXITED | CB_WAKE_POLL_TIMEOUT

record cb_pollfd =
  pf_fd :: int
  pf_events :: int
  pf_revents :: int

text \<open>Where a task that is not running continues.\<close>

datatype suspended =
    At_entry | In_yield | In_pipe_read addr nat | In_pipe_write addr "byte list" nat
  | In_console_read nat | In_waitpid int | In_poll "cb_pollfd list" | In_exec | In_exit

text \<open>
  A program, its arguments and environment: the fields \<^verbatim>\<open>program\<close>, \<^verbatim>\<open>argv\<close>, \<^verbatim>\<open>owned_argv\<close>, \<^verbatim>\<open>argc\<close>,
  \<^verbatim>\<open>environment\<close> and \<^verbatim>\<open>executable_node\<close> of a task, and the \<^verbatim>\<open>pending_\<close> fields of the same names, which
  \<^verbatim>\<open>api_exec\<close> fills and \<^verbatim>\<open>task_finish_exec\<close> moves.
\<close>

record image =
  i_program :: "nat option"
  i_argv :: "string list"
  i_owned_argv :: "string list"
  i_argc :: nat
  i_environment :: "string list"
  i_node :: "addr option"

text \<open>The task-local state of the C library that the runtime owns and resets.\<close>

record libc_state =
  optind :: int
  opterr :: int
  optopt :: int
  optarg :: "string option"
  optplace :: string
  stdout_error :: int
  stderr_error :: int
  stdout_closed :: int
  stderr_closed :: int
  stdin_eof :: int
  stdin_error :: int
  stdin_closed :: int
  input_streams :: "addr option"

record cb_task =
  t_pid :: int
  t_ppid :: int
  t_state :: task_state
  t_interrupt_disposition :: int
  t_interrupt_pending :: bool
  t_execution :: "addr option"
  t_image :: image
  t_startup_name :: "string option"
  t_libc :: libc_state
  t_descriptors :: "cb_fd_entry list"
  t_directories :: "cb_dir_handle list"
  t_root :: "addr option"
  t_cwd :: "addr option"
  t_error :: int
  t_exit_status :: int
  t_waiting_for :: int
  t_wake_reason :: wake_reason
  t_wake_start :: nat
  t_wake_timeout :: int
  t_pending :: "image option"
  t_allocations :: "(addr \<times> nat) list"
  t_suspended :: suspended

text \<open>A prepared program; \<open>p_interruptible\<close> is \<^verbatim>\<open>cb_executor_supports_interrupt\<close> of its executor.\<close>

record cb_program =
  p_name :: string
  p_interruptible :: bool

text \<open>\<open>context_ok e\<close>: the host can create a stack for the execution object \<open>e\<close>.\<close>

record cb_kernel =
  k_vfs :: vfs_state
  k_console :: console
  k_files :: "addr \<rightharpoonup> open_file"
  k_pipes :: "addr \<rightharpoonup> cb_pipe"
  k_tasks :: "addr \<rightharpoonup> cb_task"
  k_list :: "addr list"
  k_current :: "addr option"
  k_cursor :: "addr option"
  k_next_pid :: int
  k_boot_pid :: int
  k_boot_status :: int
  k_boot_finished :: bool
  k_programs :: "nat \<rightharpoonup> cb_program"
  context_ok :: "addr \<Rightarrow> bool"
  k_fault :: bool

definition CB_MAX_FDS :: nat where "CB_MAX_FDS = 64"
definition CB_MAX_DIRS :: nat where "CB_MAX_DIRS = 16"

text \<open>What a call returns: a number, and what it stores through the pointers it was given.\<close>

datatype result =
    R_int int | R_bytes int "byte list" | R_string "string option" | R_stat int "cb_stat option"
  | R_wait int "int option" | R_poll int "cb_pollfd list" | R_pipe int "(int \<times> int) option"
  | R_entry int "(string \<times> nat \<times> node_type) option" | R_end_of_directory | R_pointer "addr option" | R_void

type_synonym outcome = "result option \<times> cb_kernel"

section \<open>Access to the stores\<close>

definition fault :: "cb_kernel \<Rightarrow> cb_kernel" where
  "fault k = k\<lparr>k_fault := True\<rparr>"

definition upd_task :: "cb_kernel \<Rightarrow> addr \<Rightarrow> (cb_task \<Rightarrow> cb_task) \<Rightarrow> cb_kernel" where
  "upd_task k a f =
     (case k_tasks k a of None \<Rightarrow> fault k | Some t \<Rightarrow> k\<lparr>k_tasks := (k_tasks k)(a \<mapsto> f t)\<rparr>)"

definition cb_task_set_error :: "cb_kernel \<Rightarrow> addr \<Rightarrow> int \<Rightarrow> cb_kernel" where
  "cb_task_set_error k a e = upd_task k a (\<lambda>t. t\<lparr>t_error := e\<rparr>)"

abbreviation set_errno :: "cb_kernel \<Rightarrow> addr \<Rightarrow> cb_error \<Rightarrow> cb_kernel" where
  "set_errno k a e \<equiv> cb_task_set_error k a (errno_value e)"

abbreviation k_host :: "cb_kernel \<Rightarrow> host" where
  "k_host k \<equiv> v_host (k_vfs k)"

abbreviation set_host :: "cb_kernel \<Rightarrow> host \<Rightarrow> cb_kernel" where
  "set_host k h \<equiv> k\<lparr>k_vfs := (k_vfs k)\<lparr>v_host := h\<rparr>\<rparr>"

text \<open>A loop over \<^verbatim>\<open>kernel->tasks\<close> whose body changes only the task it looks at.\<close>

definition for_tasks :: "(cb_task \<Rightarrow> cb_task) \<Rightarrow> cb_kernel \<Rightarrow> cb_kernel" where
  "for_tasks f k =
     k\<lparr>k_tasks := (\<lambda>a. if a \<in> set (k_list k) then map_option f (k_tasks k a) else k_tasks k a),
       k_fault := (k_fault k \<or> list_ex (\<lambda>a. k_tasks k a = None) (k_list k))\<rparr>"

definition cb_vfs_node_retain :: "cb_kernel \<Rightarrow> addr option \<Rightarrow> cb_kernel" where
  "cb_vfs_node_retain k n =
     (case n of
        None \<Rightarrow> k
      | Some a \<Rightarrow> if nodes (k_vfs k) a = None then fault k
                  else k\<lparr>k_vfs := ramfs_node_retain (k_vfs k) a\<rparr>)"

definition cb_vfs_node_release :: "cb_kernel \<Rightarrow> addr option \<Rightarrow> cb_kernel" where
  "cb_vfs_node_release k n =
     (case n of
        None \<Rightarrow> k
      | Some a \<Rightarrow> if nodes (k_vfs k) a = None then fault k
                  else k\<lparr>k_vfs := ramfs_node_release (k_vfs k) a\<rparr>)"

section \<open>String vectors\<close>

text \<open>
  A vector is a list of strings. Copying allocates the vector and each string; when an allocation
  fails everything is given back.
\<close>

fun duplicate_strings :: "host \<Rightarrow> string list \<Rightarrow> string list option \<times> host" where
  "duplicate_strings h [] = (Some [], h)"
| "duplicate_strings h (s # ss) =
     (case cb_string_duplicate h s of
        (None, h1) \<Rightarrow> (None, h1)
      | (Some c, h1) \<Rightarrow> (case duplicate_strings h1 ss of
                          (None, h2) \<Rightarrow> (None, h2)
                        | (Some cs, h2) \<Rightarrow> (Some (c # cs), h2)))"

definition string_vector_copy :: "host \<Rightarrow> string list \<Rightarrow> string list option \<times> host" where
  "string_vector_copy h vector =
     (case cb_allocate h of
        (None, h1) \<Rightarrow> (None, h1)
      | (Some _, h1) \<Rightarrow> duplicate_strings h1 vector)"

definition argument_vector_copy :: "host \<Rightarrow> string list \<Rightarrow> (string list \<times> string list) option \<times> host" where
  "argument_vector_copy h vector =
     (case string_vector_copy h vector of
        (None, h1) \<Rightarrow> (None, h1)
      | (Some owned, h1) \<Rightarrow>
          (case cb_allocate h1 of
             (None, h2) \<Rightarrow> (None, h2)
           | (Some _, h2) \<Rightarrow> (Some (owned, owned), h2)))"

section \<open>Wake-ups\<close>

definition wake_on_pipe :: "cb_task \<Rightarrow> cb_task" where
  "wake_on_pipe t =
     (if t_state t = CB_TASK_BLOCKED_PIPE
      then t\<lparr>t_wake_reason := CB_WAKE_PIPE_CHANGED, t_state := CB_TASK_RUNNABLE\<rparr>
      else if t_state t = CB_TASK_BLOCKED_POLL then t\<lparr>t_state := CB_TASK_RUNNABLE\<rparr>
      else t)"

definition cb_wake_pipe_tasks :: "cb_kernel \<Rightarrow> cb_kernel" where
  "cb_wake_pipe_tasks k = for_tasks wake_on_pipe k"

definition wake_on_console :: "cb_task \<Rightarrow> cb_task" where
  "wake_on_console t =
     (if t_state t = CB_TASK_BLOCKED_CONSOLE
      then t\<lparr>t_wake_reason := CB_WAKE_CONSOLE_READY, t_state := CB_TASK_RUNNABLE\<rparr>
      else if t_state t = CB_TASK_BLOCKED_POLL then t\<lparr>t_state := CB_TASK_RUNNABLE\<rparr>
      else t)"

definition wake_console_waiters :: "cb_kernel \<Rightarrow> cb_kernel" where
  "wake_console_waiters k = for_tasks wake_on_console k"

text \<open>
  \<^verbatim>\<open>cb_task_yield_as\<close> up to the switch to the scheduler. The part after the switch is
  \<open>resume_task\<close> in the theory \<open>Process\<close>.
\<close>

definition cb_task_yield_as :: "cb_kernel \<Rightarrow> addr \<Rightarrow> task_state \<Rightarrow> suspended \<Rightarrow> cb_kernel" where
  "cb_task_yield_as k a state where_to =
     (upd_task k a (\<lambda>t. t\<lparr>t_wake_reason := CB_WAKE_NONE, t_state := state, t_suspended := where_to\<rparr>))
       \<lparr>k_current := None\<rparr>"

section \<open>Open files\<close>

definition cb_open_file_create :: "cb_kernel \<Rightarrow> file_ops \<Rightarrow> int \<Rightarrow> addr option \<times> cb_kernel" where
  "cb_open_file_create k ops flags =
     (case cb_allocate (k_host k) of
        (None, h) \<Rightarrow> (None, set_host k h)
      | (Some f, h) \<Rightarrow>
          (Some f, (set_host k h)\<lparr>k_files := (k_files k)(f \<mapsto>
             \<lparr>of_references = 1, of_flags = flags, of_offset = 0, of_ops = ops, of_terminal = False\<rparr>)\<rparr>))"

definition cb_open_file_retain :: "cb_kernel \<Rightarrow> addr \<Rightarrow> cb_kernel" where
  "cb_open_file_retain k f =
     (case k_files k f of
        None \<Rightarrow> fault k
      | Some file \<Rightarrow> k\<lparr>k_files := (k_files k)(f \<mapsto> file\<lparr>of_references := of_references file + 1\<rparr>)\<rparr>)"

definition pipe_settle :: "cb_kernel \<Rightarrow> addr \<Rightarrow> cb_pipe \<Rightarrow> cb_kernel" where
  "pipe_settle k p pipe =
     (let k1 = cb_wake_pipe_tasks (k\<lparr>k_pipes := (k_pipes k)(p \<mapsto> pipe)\<rparr>)
      in if pp_readers pipe = 0 \<and> pp_writers pipe = 0
         then k1\<lparr>k_pipes := (k_pipes k1)(p := None)\<rparr> else k1)"

definition pipe_read_close :: "cb_kernel \<Rightarrow> addr \<Rightarrow> cb_kernel" where
  "pipe_read_close k p =
     (case k_pipes k p of
        None \<Rightarrow> fault k
      | Some pipe \<Rightarrow> pipe_settle k p (pipe\<lparr>pp_readers := dec_ref (pp_readers pipe)\<rparr>))"

definition pipe_write_close :: "cb_kernel \<Rightarrow> addr \<Rightarrow> cb_kernel" where
  "pipe_write_close k p =
     (case k_pipes k p of
        None \<Rightarrow> fault k
      | Some pipe \<Rightarrow> pipe_settle k p (pipe\<lparr>pp_writers := dec_ref (pp_writers pipe)\<rparr>))"

definition node_last_close :: "cb_kernel \<Rightarrow> addr \<Rightarrow> cb_kernel" where
  "node_last_close k n = cb_vfs_node_release k (Some n)"

text \<open>The entry \<^verbatim>\<open>last_close\<close> of the operation tables; the consoles have none.\<close>

fun last_close :: "cb_kernel \<Rightarrow> file_ops \<Rightarrow> cb_kernel" where
  "last_close k (NodeFile n) = node_last_close k n"
| "last_close k (PipeReadEnd p) = pipe_read_close k p"
| "last_close k (PipeWriteEnd p) = pipe_write_close k p"
| "last_close k ConsoleInput = k"
| "last_close k (ConsoleOutput s) = k"

definition cb_open_file_release :: "cb_kernel \<Rightarrow> addr option \<Rightarrow> cb_kernel" where
  "cb_open_file_release k fo =
     (case fo of
        None \<Rightarrow> k
      | Some f \<Rightarrow>
          (case k_files k f of
             None \<Rightarrow> fault k
           | Some file \<Rightarrow>
               let r = dec_ref (of_references file);
                   k1 = k\<lparr>k_files := (k_files k)(f \<mapsto> file\<lparr>of_references := r\<rparr>)\<rparr>
               in if r \<noteq> 0 then k1
                  else let k2 = last_close k1 (of_ops file)
                       in k2\<lparr>k_files := (k_files k2)(f := None)\<rparr>))"

section \<open>Descriptor tables\<close>

definition valid_fd :: "int \<Rightarrow> bool" where
  "valid_fd d \<longleftrightarrow> 0 \<le> d \<and> d < int CB_MAX_FDS"

definition fd_entry :: "cb_task \<Rightarrow> int \<Rightarrow> cb_fd_entry" where
  "fd_entry t d = t_descriptors t ! nat d"

text \<open>The file behind a descriptor; \<open>None\<close> when the number is out of range or the slot is empty.\<close>

definition fd_lookup :: "cb_task \<Rightarrow> int \<Rightarrow> addr option" where
  "fd_lookup t d = (if valid_fd d then fd_file (fd_entry t d) else None)"

definition set_fd :: "cb_kernel \<Rightarrow> addr \<Rightarrow> int \<Rightarrow> addr option \<Rightarrow> bool \<Rightarrow> cb_kernel" where
  "set_fd k a d f c =
     upd_task k a (\<lambda>t. t\<lparr>t_descriptors := (t_descriptors t)[nat d := \<lparr>fd_file = f, close_on_exec = c\<rparr>]\<rparr>)"

definition fd_install_at :: "cb_kernel \<Rightarrow> addr \<Rightarrow> addr \<Rightarrow> int \<Rightarrow> bool \<Rightarrow> int \<times> cb_kernel" where
  "fd_install_at k a file d retain =
     (case k_tasks k a of
        None \<Rightarrow> (-1, fault k)
      | Some t \<Rightarrow>
          if \<not> valid_fd d then (-1, set_errno k a CB_EBADF)
          else let k1 = cb_open_file_release k (fd_file (fd_entry t d));
                   k2 = set_fd k1 a d (Some file) False
               in (d, if retain then cb_open_file_retain k2 file else k2))"

definition lowest_free :: "cb_task \<Rightarrow> int \<Rightarrow> int option" where
  "lowest_free t minimum =
     map_option int (List.find (\<lambda>i. fd_file (t_descriptors t ! i) = None) [nat minimum..<CB_MAX_FDS])"

definition fd_install :: "cb_kernel \<Rightarrow> addr \<Rightarrow> addr \<Rightarrow> int \<Rightarrow> int \<times> cb_kernel" where
  "fd_install k a file minimum =
     (case k_tasks k a of
        None \<Rightarrow> (-1, fault k)
      | Some t \<Rightarrow>
          (case lowest_free t minimum of
             None \<Rightarrow> (-1, set_errno k a CB_EMFILE)
           | Some d \<Rightarrow> (d, set_fd k a d (Some file) False)))"

definition fd_close :: "cb_kernel \<Rightarrow> addr \<Rightarrow> int \<Rightarrow> int \<times> cb_kernel" where
  "fd_close k a d =
     (case k_tasks k a of
        None \<Rightarrow> (-1, fault k)
      | Some t \<Rightarrow>
          (case fd_lookup t d of
             None \<Rightarrow> (-1, set_errno k a CB_EBADF)
           | Some file \<Rightarrow> (0, cb_open_file_release (set_fd k a d None False) (Some file))))"

text \<open>The loops over the descriptors: \<open>close_where P\<close> closes every used descriptor whose entry satisfies \<open>P\<close>.\<close>

definition close_if :: "(cb_fd_entry \<Rightarrow> bool) \<Rightarrow> addr \<Rightarrow> nat \<Rightarrow> cb_kernel \<Rightarrow> cb_kernel" where
  "close_if P a i k =
     (case k_tasks k a of
        None \<Rightarrow> fault k
      | Some t \<Rightarrow> if fd_file (t_descriptors t ! i) \<noteq> None \<and> P (t_descriptors t ! i)
                  then snd (fd_close k a (int i)) else k)"

definition close_where :: "(cb_fd_entry \<Rightarrow> bool) \<Rightarrow> cb_kernel \<Rightarrow> addr \<Rightarrow> cb_kernel" where
  "close_where P k a = fold (close_if P a) [0..<CB_MAX_FDS] k"

definition fd_close_all :: "cb_kernel \<Rightarrow> addr \<Rightarrow> cb_kernel" where
  "fd_close_all k a = close_where (\<lambda>e. True) k a"

definition dir_close_one :: "addr \<Rightarrow> nat \<Rightarrow> cb_kernel \<Rightarrow> cb_kernel" where
  "dir_close_one a i k =
     (case k_tasks k a of
        None \<Rightarrow> fault k
      | Some t \<Rightarrow>
          let h = t_directories t ! i
          in if d_in_use h
             then upd_task (cb_vfs_node_release k (d_node h)) a
                    (\<lambda>t. t\<lparr>t_directories := (t_directories t)[i := h\<lparr>d_node := None, d_in_use := False\<rparr>]\<rparr>)
             else k)"

definition dir_close_all :: "cb_kernel \<Rightarrow> addr \<Rightarrow> cb_kernel" where
  "dir_close_all k a = fold (dir_close_one a) [0..<CB_MAX_DIRS] k"

end
