(* ===== verification/Calls.thy ===== *)
theory Calls
  imports Kernel
begin

text \<open>
  The calls of the runtime that work on descriptors, paths and directories: the \<^verbatim>\<open>api_\<close> functions of
  \<^verbatim>\<open>src/core.c\<close> from \<^verbatim>\<open>api_open\<close> to \<^verbatim>\<open>api_closedir\<close>, and the operation tables they call through. Every
  call takes the address of the current task. A pointer argument that the code tests against
  \<^verbatim>\<open>NULL\<close> is a flag or an option.
\<close>

section \<open>The operation tables\<close>

definition console_read :: "cb_kernel \<Rightarrow> addr \<Rightarrow> nat \<Rightarrow> outcome" where
  "console_read k a count =
     (if count = 0 then (Some (R_bytes 0 []), cb_task_set_error k a 0)
      else let c = k_console k;
               k1 = k\<lparr>k_console := c\<lparr>con_seq := con_seq c + 1\<rparr>\<rparr>
           in if con_poll c (con_seq c) 0 = 0
              then (None, cb_task_yield_as k1 a CB_TASK_BLOCKED_CONSOLE (In_console_read count))
              else let c1 = k_console k1;
                       (n, bytes) = con_read c1 (con_seq c1) count;
                       k2 = k1\<lparr>k_console := c1\<lparr>con_seq := con_seq c1 + 1\<rparr>\<rparr>
                   in if n < 0 then (Some (R_bytes (-1) []), cb_task_set_error k2 a (-n))
                      else (Some (R_bytes n bytes), cb_task_set_error k2 a 0))"

definition console_write :: "cb_kernel \<Rightarrow> addr \<Rightarrow> int \<Rightarrow> byte list \<Rightarrow> outcome" where
  "console_write k a stream buffer =
     (if length buffer = 0 then (Some (R_int 0), k)
      else let c = k_console k;
               n = con_write c (con_seq c) stream buffer;
               k1 = k\<lparr>k_console := c\<lparr>con_seq := con_seq c + 1,
                                      con_output := con_output c @ [(stream, buffer)]\<rparr>\<rparr>
           in if n < 0
              then (Some (R_int (-1)),
                    cb_task_set_error k1 a (if n < - INT_MAX then errno_value CB_EIO else - n))
              else if n = 0 \<or> n > int (length buffer)
              then (Some (R_int (-1)), set_errno k1 a CB_EIO)
              else (Some (R_int n), k1))"

definition pipe_read :: "cb_kernel \<Rightarrow> addr \<Rightarrow> addr \<Rightarrow> addr \<Rightarrow> nat \<Rightarrow> outcome" where
  "pipe_read k a f p count =
     (case k_pipes k p of
        None \<Rightarrow> (Some (R_bytes (-1) []), fault k)
      | Some pipe \<Rightarrow>
          (case pipe_read_try pipe count of
             Read_nothing \<Rightarrow> (Some (R_bytes 0 []), cb_task_set_error k a 0)
           | Read_eof \<Rightarrow> (Some (R_bytes 0 []), k)
           | Read_waits \<Rightarrow> (None, cb_task_yield_as k a CB_TASK_BLOCKED_PIPE (In_pipe_read f count))
           | Read_bytes bytes pipe' \<Rightarrow>
               (Some (R_bytes (int (length bytes)) bytes),
                cb_task_set_error (cb_wake_pipe_tasks (k\<lparr>k_pipes := (k_pipes k)(p \<mapsto> pipe')\<rparr>)) a 0)))"

text \<open>An attempt that has stored bytes wakes the waiting tasks before it waits or returns.\<close>

definition pipe_stored :: "cb_kernel \<Rightarrow> addr \<Rightarrow> cb_pipe \<Rightarrow> bool \<Rightarrow> cb_kernel" where
  "pipe_stored k p pipe progress =
     (if progress then cb_wake_pipe_tasks (k\<lparr>k_pipes := (k_pipes k)(p \<mapsto> pipe)\<rparr>) else k)"

definition pipe_write :: "cb_kernel \<Rightarrow> addr \<Rightarrow> addr \<Rightarrow> addr \<Rightarrow> byte list \<Rightarrow> nat \<Rightarrow> outcome" where
  "pipe_write k a f p source tot =
     (case k_pipes k p of
        None \<Rightarrow> (Some (R_int (-1)), fault k)
      | Some pipe \<Rightarrow>
          (case pipe_write_try pipe source tot of
             Write_broken t pipe' \<Rightarrow>
               (Some (R_int (if t = 0 then -1 else int t)),
                set_errno (pipe_stored k p pipe' (tot < t)) a CB_EPIPE)
           | Write_waits t pipe' \<Rightarrow>
               (None, cb_task_yield_as (pipe_stored k p pipe' (tot < t)) a CB_TASK_BLOCKED_PIPE
                        (In_pipe_write f source t))
           | Write_done t pipe' \<Rightarrow>
               (Some (R_int (int t)), cb_task_set_error (pipe_stored k p pipe' (tot < t)) a 0)))"

text \<open>
  The entries \<^verbatim>\<open>read\<close> and \<^verbatim>\<open>write\<close> of the tables. The operations of the file system return the new
  error number, file and state, which are stored back here.
\<close>

definition store_io :: "cb_kernel \<Rightarrow> addr \<Rightarrow> addr \<Rightarrow> io \<Rightarrow> cb_kernel" where
  "store_io k a f r =
     (case r of (n, bytes, err, file, v) \<Rightarrow>
        cb_task_set_error (k\<lparr>k_vfs := v, k_files := (k_files k)(f \<mapsto> file)\<rparr>) a err)"

definition file_read :: "cb_kernel \<Rightarrow> addr \<Rightarrow> addr \<Rightarrow> open_file \<Rightarrow> int \<Rightarrow> nat \<Rightarrow> outcome" where
  "file_read k a f file err count =
     (case of_ops file of
        NodeFile n \<Rightarrow>
          let r = node_read (k_vfs k) n file err count
          in (Some (R_bytes (fst r) (fst (snd r))), store_io k a f r)
      | PipeReadEnd p \<Rightarrow> pipe_read k a f p count
      | ConsoleInput \<Rightarrow> console_read k a count
      | _ \<Rightarrow> (Some (R_bytes (-1) []), set_errno k a CB_EBADF))"

definition file_write :: "cb_kernel \<Rightarrow> addr \<Rightarrow> addr \<Rightarrow> open_file \<Rightarrow> int \<Rightarrow> byte list \<Rightarrow> outcome" where
  "file_write k a f file err buffer =
     (case of_ops file of
        NodeFile n \<Rightarrow>
          let r = node_write (k_vfs k) n file err buffer
          in (Some (R_int (fst r)), store_io k a f r)
      | PipeWriteEnd p \<Rightarrow> pipe_write k a f p buffer 0
      | ConsoleOutput stream \<Rightarrow> console_write k a stream buffer
      | _ \<Rightarrow> (Some (R_int (-1)), set_errno k a CB_EBADF))"

fun has_read :: "file_ops \<Rightarrow> bool" where
  "has_read (NodeFile n) \<longleftrightarrow> True"
| "has_read (PipeReadEnd p) \<longleftrightarrow> True"
| "has_read ConsoleInput \<longleftrightarrow> True"
| "has_read _ \<longleftrightarrow> False"

fun has_write :: "file_ops \<Rightarrow> bool" where
  "has_write (NodeFile n) \<longleftrightarrow> True"
| "has_write (PipeWriteEnd p) \<longleftrightarrow> True"
| "has_write (ConsoleOutput s) \<longleftrightarrow> True"
| "has_write _ \<longleftrightarrow> False"

definition node_truncate :: "cb_kernel \<Rightarrow> addr \<Rightarrow> open_file \<Rightarrow> addr \<Rightarrow> int \<Rightarrow> outcome" where
  "node_truncate k a file n len =
     (if access_mode (of_flags file) = CB_O_RDONLY
      then (Some (R_int (-1)), set_errno k a CB_EBADF)
      else case cb_vfs_truncate_node (k_vfs k) n len of
             (None, v) \<Rightarrow> (Some (R_int 0), cb_task_set_error (k\<lparr>k_vfs := v\<rparr>) a 0)
           | (Some e, v) \<Rightarrow>
               (Some (R_int (-1)),
                set_errno (k\<lparr>k_vfs := v\<rparr>) a (if e = CB_ENOSYS then CB_EBADF else e)))"

definition no_truncate :: "cb_kernel \<Rightarrow> addr \<Rightarrow> outcome" where
  "no_truncate k a = (Some (R_int (-1)), set_errno k a CB_ESPIPE)"

definition no_seek :: "cb_kernel \<Rightarrow> addr \<Rightarrow> outcome" where
  "no_seek k a = (Some (R_int (-1)), set_errno k a CB_ESPIPE)"

definition terminal_stat :: cb_stat where
  "terminal_stat = plain_stat CB_NODE_TERMINAL 0"

definition file_stat :: "cb_kernel \<Rightarrow> open_file \<Rightarrow> cb_error + cb_stat" where
  "file_stat k file =
     (case of_ops file of
        NodeFile n \<Rightarrow> ramfs_stat (k_vfs k) n
      | PipeReadEnd p \<Rightarrow> (case k_pipes k p of None \<Rightarrow> Inl Dangling | Some pipe \<Rightarrow> Inr (pipe_stat pipe))
      | PipeWriteEnd p \<Rightarrow> (case k_pipes k p of None \<Rightarrow> Inl Dangling | Some pipe \<Rightarrow> Inr (pipe_stat pipe))
      | ConsoleInput \<Rightarrow> Inr terminal_stat
      | ConsoleOutput s \<Rightarrow> Inr terminal_stat)"

definition console_input_poll :: "cb_kernel \<Rightarrow> int \<Rightarrow> int \<times> cb_kernel" where
  "console_input_poll k events =
     (if has_flag events CB_POLL_READ
      then let c = k_console k
           in (if con_poll c (con_seq c) 0 > 0 then CB_POLL_READ else 0,
               k\<lparr>k_console := c\<lparr>con_seq := con_seq c + 1\<rparr>\<rparr>)
      else (0, k))"

definition console_output_poll :: "int \<Rightarrow> int" where
  "console_output_poll events = events AND CB_POLL_WRITE"

definition file_poll :: "cb_kernel \<Rightarrow> open_file \<Rightarrow> int \<Rightarrow> int \<times> cb_kernel" where
  "file_poll k file events =
     (case of_ops file of
        NodeFile n \<Rightarrow> (node_poll file events, k)
      | PipeReadEnd p \<Rightarrow> (case k_pipes k p of None \<Rightarrow> (0, fault k) | Some pipe \<Rightarrow> (pipe_read_poll pipe events, k))
      | PipeWriteEnd p \<Rightarrow> (case k_pipes k p of None \<Rightarrow> (0, fault k) | Some pipe \<Rightarrow> (pipe_write_poll pipe events, k))
      | ConsoleInput \<Rightarrow> console_input_poll k events
      | ConsoleOutput s \<Rightarrow> (console_output_poll events, k))"

section \<open>Calls on descriptors\<close>

text \<open>
  \<open>on_file k a d ok bad f\<close>: the shared start of these calls. The descriptor has to be in range and
  in use and its file has to satisfy \<open>ok\<close> (an operation is present); otherwise the call fails with
  \<^verbatim>\<open>EBADF\<close>.
\<close>

definition on_file ::
  "cb_kernel \<Rightarrow> addr \<Rightarrow> int \<Rightarrow> (file_ops \<Rightarrow> bool) \<Rightarrow> result \<Rightarrow> (addr \<Rightarrow> open_file \<Rightarrow> int \<Rightarrow> outcome) \<Rightarrow> outcome" where
  "on_file k a d ok bad body =
     (case k_tasks k a of
        None \<Rightarrow> (Some bad, fault k)
      | Some t \<Rightarrow>
          (case fd_lookup t d of
             None \<Rightarrow> (Some bad, set_errno k a CB_EBADF)
           | Some f \<Rightarrow>
               (case k_files k f of
                  None \<Rightarrow> (Some bad, fault k)
                | Some file \<Rightarrow> if ok (of_ops file) then body f file (t_error t)
                               else (Some bad, set_errno k a CB_EBADF))))"

definition api_read :: "cb_kernel \<Rightarrow> addr \<Rightarrow> int \<Rightarrow> bool \<Rightarrow> nat \<Rightarrow> outcome" where
  "api_read k a d buffer_null count =
     on_file k a d has_read (R_bytes (-1) []) (\<lambda>f file err.
       if int count > INT64_MAX then (Some (R_bytes (-1) []), set_errno k a CB_EINVAL)
       else if count \<noteq> 0 \<and> buffer_null then (Some (R_bytes (-1) []), set_errno k a CB_EINVAL)
       else file_read k a f file err count)"

definition api_write :: "cb_kernel \<Rightarrow> addr \<Rightarrow> int \<Rightarrow> byte list option \<Rightarrow> nat \<Rightarrow> outcome" where
  "api_write k a d buffer count =
     on_file k a d has_write (R_int (-1)) (\<lambda>f file err.
       if int count > INT64_MAX then (Some (R_int (-1)), set_errno k a CB_EINVAL)
       else if count \<noteq> 0 \<and> buffer = None then (Some (R_int (-1)), set_errno k a CB_EINVAL)
       else file_write k a f file err (case buffer of None \<Rightarrow> [] | Some bytes \<Rightarrow> take count bytes))"

definition api_lseek :: "cb_kernel \<Rightarrow> addr \<Rightarrow> int \<Rightarrow> int \<Rightarrow> int \<Rightarrow> outcome" where
  "api_lseek k a d offset whence =
     on_file k a d (\<lambda>ops. True) (R_int (-1)) (\<lambda>f file err.
       case of_ops file of
         NodeFile n \<Rightarrow>
           (case node_lseek (k_vfs k) n file err offset whence of
              (r, err', file') \<Rightarrow>
                (Some (R_int r), cb_task_set_error (k\<lparr>k_files := (k_files k)(f \<mapsto> file')\<rparr>) a err'))
       | _ \<Rightarrow> no_seek k a)"

definition api_ftruncate :: "cb_kernel \<Rightarrow> addr \<Rightarrow> int \<Rightarrow> int \<Rightarrow> outcome" where
  "api_ftruncate k a d len =
     on_file k a d (\<lambda>ops. True) (R_int (-1)) (\<lambda>f file err.
       if len < 0 \<or> nat len > SIZE_MAX then (Some (R_int (-1)), set_errno k a CB_EINVAL)
       else case of_ops file of
              NodeFile n \<Rightarrow> node_truncate k a file n len
            | _ \<Rightarrow> no_truncate k a)"

definition api_fstat :: "cb_kernel \<Rightarrow> addr \<Rightarrow> int \<Rightarrow> bool \<Rightarrow> outcome" where
  "api_fstat k a d buffer_null =
     on_file k a d (\<lambda>ops. True) (R_stat (-1) None) (\<lambda>f file err.
       if buffer_null then (Some (R_stat (-1) None), set_errno k a CB_EINVAL)
       else case file_stat k file of
              Inl e \<Rightarrow> (Some (R_stat (-1) None), set_errno k a e)
            | Inr status \<Rightarrow> (Some (R_stat 0 (Some status)), cb_task_set_error k a 0))"

text \<open>\<^verbatim>\<open>terminal_for_descriptor\<close>: whether the descriptor is a terminal, and the error when it is not.\<close>

definition terminal_for_descriptor :: "cb_kernel \<Rightarrow> addr \<Rightarrow> int \<Rightarrow> bool \<times> cb_kernel" where
  "terminal_for_descriptor k a d =
     (case k_tasks k a of
        None \<Rightarrow> (False, fault k)
      | Some t \<Rightarrow>
          (case fd_lookup t d of
             None \<Rightarrow> (False, set_errno k a CB_EBADF)
           | Some f \<Rightarrow>
               (case k_files k f of
                  None \<Rightarrow> (False, fault k)
                | Some file \<Rightarrow> if of_terminal file then (True, k) else (False, set_errno k a CB_ENOTTY))))"

definition api_isatty :: "cb_kernel \<Rightarrow> addr \<Rightarrow> int \<Rightarrow> outcome" where
  "api_isatty k a d =
     (case terminal_for_descriptor k a d of (yes, k') \<Rightarrow> (Some (R_int (if yes then 1 else 0)), k'))"

definition terminal_attributes_unavailable :: "cb_kernel \<Rightarrow> addr \<Rightarrow> int \<Rightarrow> bool \<Rightarrow> outcome" where
  "terminal_attributes_unavailable k a d attributes_null =
     (case terminal_for_descriptor k a d of
        (False, k') \<Rightarrow> (Some (R_int (-1)), k')
      | (True, k') \<Rightarrow> (Some (R_int (-1)), set_errno k' a (if attributes_null then CB_EINVAL else CB_ENOSYS)))"

definition api_close :: "cb_kernel \<Rightarrow> addr \<Rightarrow> int \<Rightarrow> outcome" where
  "api_close k a d =
     (case fd_close k a d of
        (r, k') \<Rightarrow> (Some (R_int r), if r = 0 then cb_task_set_error k' a 0 else k'))"

definition api_dup :: "cb_kernel \<Rightarrow> addr \<Rightarrow> int \<Rightarrow> outcome" where
  "api_dup k a d =
     (case k_tasks k a of
        None \<Rightarrow> (Some (R_int (-1)), fault k)
      | Some t \<Rightarrow>
          (case fd_lookup t d of
             None \<Rightarrow> (Some (R_int (-1)), set_errno k a CB_EBADF)
           | Some file \<Rightarrow>
               (case fd_install (cb_open_file_retain k file) a file 0 of
                  (r, k') \<Rightarrow> (Some (R_int r),
                             if r < 0 then cb_open_file_release k' (Some file)
                             else cb_task_set_error k' a 0))))"

definition api_dup2 :: "cb_kernel \<Rightarrow> addr \<Rightarrow> int \<Rightarrow> int \<Rightarrow> outcome" where
  "api_dup2 k a old new =
     (case k_tasks k a of
        None \<Rightarrow> (Some (R_int (-1)), fault k)
      | Some t \<Rightarrow>
          (case fd_lookup t old of
             None \<Rightarrow> (Some (R_int (-1)), set_errno k a CB_EBADF)
           | Some file \<Rightarrow>
               if \<not> valid_fd new then (Some (R_int (-1)), set_errno k a CB_EBADF)
               else let k1 = (if old \<noteq> new then snd (fd_install_at k a file new True) else k)
                    in (Some (R_int new), cb_task_set_error k1 a 0)))"

definition api_set_cloexec :: "cb_kernel \<Rightarrow> addr \<Rightarrow> int \<Rightarrow> int \<Rightarrow> outcome" where
  "api_set_cloexec k a d enabled =
     (case k_tasks k a of
        None \<Rightarrow> (Some (R_int (-1)), fault k)
      | Some t \<Rightarrow>
          (case fd_lookup t d of
             None \<Rightarrow> (Some (R_int (-1)), set_errno k a CB_EBADF)
           | Some file \<Rightarrow>
               (Some (R_int 0), cb_task_set_error (set_fd k a d (Some file) (enabled \<noteq> 0)) a 0)))"

text \<open>
  \<^verbatim>\<open>api_pipe\<close>. The code stores the counts of readers and writers after it has created the open
  files; nothing can look at them in between, so the model stores them with the pipe.
\<close>

definition api_pipe :: "cb_kernel \<Rightarrow> addr \<Rightarrow> bool \<Rightarrow> outcome" where
  "api_pipe k a descriptors_null =
     (if descriptors_null then (Some (R_pipe (-1) None), set_errno k a CB_EINVAL)
      else case cb_allocate (k_host k) of
        (None, h) \<Rightarrow> (Some (R_pipe (-1) None), set_errno (set_host k h) a CB_ENOMEM)
      | (Some p, h) \<Rightarrow>
          (case cb_open_file_create (set_host k h) (PipeReadEnd p) CB_O_RDONLY of
             (None, k1) \<Rightarrow> (Some (R_pipe (-1) None), set_errno k1 a CB_ENOMEM)
           | (Some reader, k1) \<Rightarrow>
               (case cb_open_file_create
                       (k1\<lparr>k_pipes := (k_pipes k1)(p \<mapsto> pipe_new\<lparr>pp_readers := 1\<rparr>)\<rparr>) (PipeWriteEnd p) CB_O_WRONLY of
                  (None, k2) \<Rightarrow>
                    (Some (R_pipe (-1) None), set_errno (cb_open_file_release k2 (Some reader)) a CB_ENOMEM)
                | (Some writer, k2) \<Rightarrow>
                    (case fd_install (k2\<lparr>k_pipes := (k_pipes k2)(p \<mapsto> pipe_new\<lparr>pp_readers := 1, pp_writers := 1\<rparr>)\<rparr>)
                            a reader 0 of
                       (rd, k3) \<Rightarrow>
                         if rd < 0
                         then (Some (R_pipe (-1) None),
                               cb_open_file_release (cb_open_file_release k3 (Some reader)) (Some writer))
                         else (case fd_install k3 a writer 0 of
                                 (wd, k4) \<Rightarrow>
                                   if wd < 0
                                   then (Some (R_pipe (-1) None),
                                         cb_open_file_release (snd (fd_close k4 a rd)) (Some writer))
                                   else (Some (R_pipe 0 (Some (rd, wd))), cb_task_set_error k4 a 0))))))"

section \<open>Calls on paths\<close>

definition api_open :: "cb_kernel \<Rightarrow> addr \<Rightarrow> string \<Rightarrow> int \<Rightarrow> nat \<Rightarrow> outcome" where
  "api_open k a path flags mode =
     (case k_tasks k a of
        None \<Rightarrow> (Some (R_int (-1)), fault k)
      | Some t \<Rightarrow>
          (case cb_vfs_open (k_vfs k) (t_root t) (t_cwd t) path flags mode of
             (Inl e, v) \<Rightarrow> (Some (R_int (-1)), set_errno (k\<lparr>k_vfs := v\<rparr>) a e)
           | (Inr (f, file), v) \<Rightarrow>
               (case fd_install (cb_task_set_error (k\<lparr>k_vfs := v, k_files := (k_files k)(f \<mapsto> file)\<rparr>) a 0) a f 0 of
                  (d, k') \<Rightarrow> (Some (R_int d), if d < 0 then cb_open_file_release k' (Some f) else k'))))"

text \<open>A call on paths that returns 0 or fails with an error of the file system.\<close>

definition path_call ::
  "cb_kernel \<Rightarrow> addr \<Rightarrow> (vfs_state \<Rightarrow> addr option \<Rightarrow> addr option \<Rightarrow> cb_error option \<times> vfs_state) \<Rightarrow> outcome" where
  "path_call k a operation =
     (case k_tasks k a of
        None \<Rightarrow> (Some (R_int (-1)), fault k)
      | Some t \<Rightarrow>
          (case operation (k_vfs k) (t_root t) (t_cwd t) of
             (Some e, v) \<Rightarrow> (Some (R_int (-1)), set_errno (k\<lparr>k_vfs := v\<rparr>) a e)
           | (None, v) \<Rightarrow> (Some (R_int 0), cb_task_set_error (k\<lparr>k_vfs := v\<rparr>) a 0)))"

definition api_truncate :: "cb_kernel \<Rightarrow> addr \<Rightarrow> string \<Rightarrow> int \<Rightarrow> outcome" where
  "api_truncate k a path len = path_call k a (\<lambda>v root cwd. cb_vfs_truncate_path v root cwd path len)"

definition api_mkdir :: "cb_kernel \<Rightarrow> addr \<Rightarrow> string \<Rightarrow> nat \<Rightarrow> outcome" where
  "api_mkdir k a path mode = path_call k a (\<lambda>v root cwd. cb_vfs_mkdir_path v root cwd path mode)"

definition api_unlink :: "cb_kernel \<Rightarrow> addr \<Rightarrow> string \<Rightarrow> outcome" where
  "api_unlink k a path = path_call k a (\<lambda>v root cwd. cb_vfs_unlink_path v root cwd path)"

definition api_rmdir :: "cb_kernel \<Rightarrow> addr \<Rightarrow> string \<Rightarrow> outcome" where
  "api_rmdir k a path = path_call k a (\<lambda>v root cwd. cb_vfs_rmdir_path v root cwd path)"

definition api_rename :: "cb_kernel \<Rightarrow> addr \<Rightarrow> string \<Rightarrow> string \<Rightarrow> outcome" where
  "api_rename k a old new = path_call k a (\<lambda>v root cwd. cb_vfs_rename_paths v root cwd old new)"

definition api_stat :: "cb_kernel \<Rightarrow> addr \<Rightarrow> string \<Rightarrow> bool \<Rightarrow> outcome" where
  "api_stat k a path buffer_null =
     (case k_tasks k a of
        None \<Rightarrow> (Some (R_stat (-1) None), fault k)
      | Some t \<Rightarrow>
          if buffer_null then (Some (R_stat (-1) None), set_errno k a CB_EINVAL)
          else case cb_vfs_stat_path (k_vfs k) (t_root t) (t_cwd t) path of
                 Inl e \<Rightarrow> (Some (R_stat (-1) None), set_errno k a e)
               | Inr status \<Rightarrow> (Some (R_stat 0 (Some status)), cb_task_set_error k a 0))"

definition api_chdir :: "cb_kernel \<Rightarrow> addr \<Rightarrow> string \<Rightarrow> outcome" where
  "api_chdir k a path =
     (case k_tasks k a of
        None \<Rightarrow> (Some (R_int (-1)), fault k)
      | Some t \<Rightarrow>
          (case cb_vfs_chdir_path (k_vfs k) (t_root t) (t_cwd t) path of
             (Inl e, v) \<Rightarrow> (Some (R_int (-1)), set_errno (k\<lparr>k_vfs := v\<rparr>) a e)
           | (Inr node, v) \<Rightarrow>
               (Some (R_int 0),
                cb_task_set_error (upd_task (k\<lparr>k_vfs := v\<rparr>) a (\<lambda>t. t\<lparr>t_cwd := Some node\<rparr>)) a 0)))"

definition api_getcwd :: "cb_kernel \<Rightarrow> addr \<Rightarrow> bool \<Rightarrow> nat \<Rightarrow> outcome" where
  "api_getcwd k a buffer_null bufsize =
     (case k_tasks k a of
        None \<Rightarrow> (Some (R_string None), fault k)
      | Some t \<Rightarrow>
          if buffer_null then (Some (R_string None), set_errno k a CB_EINVAL)
          else case cb_vfs_getcwd_path (k_vfs k) (t_root t) (t_cwd t) bufsize of
                 Inl e \<Rightarrow> (Some (R_string None), set_errno k a e)
               | Inr path \<Rightarrow> (Some (R_string (Some path)), cb_task_set_error k a 0))"

section \<open>Directory handles\<close>

definition set_dir :: "cb_kernel \<Rightarrow> addr \<Rightarrow> nat \<Rightarrow> cb_dir_handle \<Rightarrow> cb_kernel" where
  "set_dir k a i h = upd_task k a (\<lambda>t. t\<lparr>t_directories := (t_directories t)[i := h]\<rparr>)"

definition api_opendir :: "cb_kernel \<Rightarrow> addr \<Rightarrow> string \<Rightarrow> outcome" where
  "api_opendir k a path =
     (case k_tasks k a of
        None \<Rightarrow> (Some (R_int (-1)), fault k)
      | Some t \<Rightarrow>
          (case cb_vfs_opendir_path (k_vfs k) (t_root t) (t_cwd t) path of
             (Inl e, v) \<Rightarrow> (Some (R_int (-1)), set_errno (k\<lparr>k_vfs := v\<rparr>) a e)
           | (Inr node, v) \<Rightarrow>
               let k1 = cb_task_set_error (k\<lparr>k_vfs := v\<rparr>) a 0
               in case cb_vfs_child_at v node 0 of
                    Inl e \<Rightarrow> (Some (R_int (-1)), set_errno (cb_vfs_node_release k1 (Some node)) a e)
                  | Inr first \<Rightarrow>
                      let k2 = cb_vfs_node_retain k1 first
                      in case List.find (\<lambda>i. \<not> d_in_use (t_directories t ! i)) [0..<CB_MAX_DIRS] of
                           Some i \<Rightarrow>
                             (Some (R_int (int i)),
                              cb_task_set_error
                                (set_dir k2 a i \<lparr>d_node = Some node, d_next = first, d_in_use = True\<rparr>) a 0)
                         | None \<Rightarrow>
                             (Some (R_int (-1)),
                              set_errno (cb_vfs_node_release (cb_vfs_node_release k2 first) (Some node)) a CB_EMFILE)))"

definition dir_lookup :: "cb_task \<Rightarrow> int \<Rightarrow> cb_dir_handle option" where
  "dir_lookup t d =
     (if 0 \<le> d \<and> d < int CB_MAX_DIRS \<and> d_in_use (t_directories t ! nat d)
      then Some (t_directories t ! nat d) else None)"

text \<open>\<open>R_end_of_directory\<close> is the return value 0 with an empty name.\<close>

definition api_readdir :: "cb_kernel \<Rightarrow> addr \<Rightarrow> int \<Rightarrow> bool \<Rightarrow> nat \<Rightarrow> outcome" where
  "api_readdir k a d name_null name_size =
     (case k_tasks k a of
        None \<Rightarrow> (Some (R_entry (-1) None), fault k)
      | Some t \<Rightarrow>
          (case dir_lookup t d of
             None \<Rightarrow> (Some (R_entry (-1) None), set_errno k a CB_EBADF)
           | Some handle \<Rightarrow>
               if name_null \<or> name_size = 0 then (Some (R_entry (-1) None), set_errno k a CB_EINVAL)
               else case d_next handle of
                 None \<Rightarrow> (Some R_end_of_directory, k)
               | Some child \<Rightarrow>
                   (case nodes (k_vfs k) child of
                      None \<Rightarrow> (Some (R_entry (-1) None), fault k)
                    | Some n \<Rightarrow>
                        if length (n_name n) \<ge> name_size
                        then (Some (R_entry (-1) None), set_errno k a CB_ENAMETOOLONG)
                        else case ramfs_stat (k_vfs k) child of
                          Inl e \<Rightarrow> (Some (R_entry (-1) None), set_errno k a e)
                        | Inr status \<Rightarrow>
                            (case cb_vfs_next_sibling (k_vfs k) child of
                               Inl e \<Rightarrow> (Some (R_entry (-1) None), set_errno k a e)
                             | Inr lookahead \<Rightarrow>
                                 let k1 = cb_vfs_node_retain k lookahead;
                                     k2 = cb_vfs_node_release k1 (Some child);
                                     k3 = set_dir k2 a (nat d) (handle\<lparr>d_next := lookahead\<rparr>)
                                 in (Some (R_entry 0 (Some (n_name n, st_inode status, st_type status))),
                                     cb_task_set_error k3 a 0)))))"

definition api_closedir :: "cb_kernel \<Rightarrow> addr \<Rightarrow> int \<Rightarrow> outcome" where
  "api_closedir k a d =
     (case k_tasks k a of
        None \<Rightarrow> (Some (R_int (-1)), fault k)
      | Some t \<Rightarrow>
          (case dir_lookup t d of
             None \<Rightarrow> (Some (R_int (-1)), set_errno k a CB_EBADF)
           | Some handle \<Rightarrow>
               let k1 = cb_vfs_node_release k (d_next handle);
                   k2 = cb_vfs_node_release k1 (d_node handle);
                   k3 = set_dir k2 a (nat d) \<lparr>d_node = None, d_next = None, d_in_use = False\<rparr>
               in (Some (R_int 0), cb_task_set_error k3 a 0)))"

end
