(* ===== verification/Process.thy ===== *)
theory Process
  imports Calls
begin

text \<open>
  Tasks: the environment and the heap ledger of a task, interrupts, creation and destruction,
  \<^verbatim>\<open>spawn\<close>, \<^verbatim>\<open>exec\<close>, \<^verbatim>\<open>exit\<close>, \<^verbatim>\<open>waitpid\<close>, \<^verbatim>\<open>poll\<close>, the scheduler, and the life of the kernel: the rest of
  \<^verbatim>\<open>src/core.c\<close>, with the native executor of \<^verbatim>\<open>src/executor.c\<close>.
\<close>

section \<open>The environment\<close>

definition is_alpha :: "byte \<Rightarrow> bool" where
  "is_alpha c \<longleftrightarrow> (let n = (of_char c :: nat) in (65 \<le> n \<and> n \<le> 90) \<or> (97 \<le> n \<and> n \<le> 122))"

definition is_alnum :: "byte \<Rightarrow> bool" where
  "is_alnum c \<longleftrightarrow> is_alpha c \<or> (let n = (of_char c :: nat) in 48 \<le> n \<and> n \<le> 57)"

abbreviation underscore :: byte where
  "underscore \<equiv> CHR ''_''"

abbreviation equals :: byte where
  "equals \<equiv> CHR ''=''"

fun valid_environment_name :: "string \<Rightarrow> bool" where
  "valid_environment_name [] \<longleftrightarrow> False"
| "valid_environment_name (c # cs) \<longleftrightarrow>
     (is_alpha c \<or> c = underscore) \<and> list_all (\<lambda>x. is_alnum x \<or> x = underscore) cs"

text \<open>\<^verbatim>\<open>strncmp(entry, name, length) == 0 && entry[length] == '='\<close>\<close>

definition entry_for :: "string \<Rightarrow> string \<Rightarrow> bool" where
  "entry_for name entry \<longleftrightarrow> take (length name + 1) entry = name @ [equals]"

abbreviation environment_of :: "cb_task \<Rightarrow> string list" where
  "environment_of t \<equiv> i_environment (t_image t)"

definition set_environment :: "cb_kernel \<Rightarrow> addr \<Rightarrow> string list \<Rightarrow> cb_kernel" where
  "set_environment k a env =
     upd_task k a (\<lambda>t. t\<lparr>t_image := (t_image t)\<lparr>i_environment := env\<rparr>\<rparr>)"

fun env_index :: "string \<Rightarrow> string list \<Rightarrow> nat" where
  "env_index name [] = 0"
| "env_index name (e # es) = (if entry_for name e then 0 else Suc (env_index name es))"

definition api_getenv :: "cb_kernel \<Rightarrow> addr \<Rightarrow> string \<Rightarrow> outcome" where
  "api_getenv k a name =
     (case k_tasks k a of
        None \<Rightarrow> (Some (R_string None), fault k)
      | Some t \<Rightarrow>
          if \<not> valid_environment_name name then (Some (R_string None), set_errno k a CB_EINVAL)
          else let env = environment_of t; i = env_index name env
               in (Some (R_string (if i < length env then Some (drop (length name + 1) (env ! i)) else None)), k))"

definition api_setenv :: "cb_kernel \<Rightarrow> addr \<Rightarrow> string \<Rightarrow> string option \<Rightarrow> int \<Rightarrow> outcome" where
  "api_setenv k a name value_ptr replace_old =
     (case k_tasks k a of
        None \<Rightarrow> (Some (R_int (-1)), fault k)
      | Some t \<Rightarrow>
          (case (valid_environment_name name, value_ptr) of
             (True, Some new_value) \<Rightarrow>
               let env = environment_of t; count = length env; i = env_index name env
               in if length new_value > SIZE_MAX - 2 \<or> length name > SIZE_MAX - length new_value - 2
                  then (Some (R_int (-1)), set_errno k a CB_ENOMEM)
                  else if i < count \<and> replace_old = 0 then (Some (R_int 0), k)
                  else (case cb_allocate (k_host k) of
                          (None, h) \<Rightarrow> (Some (R_int (-1)), set_errno (set_host k h) a CB_ENOMEM)
                        | (Some _, h) \<Rightarrow>
                            let entry = name @ [equals] @ new_value; k1 = set_host k h
                            in if i < count
                               then (Some (R_int 0), cb_task_set_error (set_environment k1 a (env[i := entry])) a 0)
                               else (case cb_allocate h of
                                       (None, h2) \<Rightarrow> (Some (R_int (-1)), set_errno (set_host k1 h2) a CB_ENOMEM)
                                     | (Some _, h2) \<Rightarrow>
                                         (Some (R_int 0),
                                          cb_task_set_error (set_environment (set_host k1 h2) a (env @ [entry])) a 0)))
           | _ \<Rightarrow> (Some (R_int (-1)), set_errno k a CB_EINVAL)))"

definition api_unsetenv :: "cb_kernel \<Rightarrow> addr \<Rightarrow> string \<Rightarrow> outcome" where
  "api_unsetenv k a name =
     (case k_tasks k a of
        None \<Rightarrow> (Some (R_int (-1)), fault k)
      | Some t \<Rightarrow>
          if \<not> valid_environment_name name then (Some (R_int (-1)), set_errno k a CB_EINVAL)
          else let env = environment_of t; i = env_index name env;
                   k1 = (if i < length env then set_environment k a (take i env @ drop (i + 1) env) else k)
               in (Some (R_int 0), cb_task_set_error k1 a 0))"

section \<open>The heap ledger of a task\<close>

text \<open>
  The ledger holds the blocks a task has allocated, newest first. A block is named by the request
  that returned it. The list node that records a block is a second allocation.
\<close>

fun ledger_remove :: "addr \<Rightarrow> (addr \<times> nat) list \<Rightarrow> (addr \<times> nat) list" where
  "ledger_remove p [] = []"
| "ledger_remove p (e # es) = (if fst e = p then es else e # ledger_remove p es)"

fun ledger_replace :: "addr \<Rightarrow> addr \<times> nat \<Rightarrow> (addr \<times> nat) list \<Rightarrow> (addr \<times> nat) list" where
  "ledger_replace p new [] = []"
| "ledger_replace p new (e # es) = (if fst e = p then new # es else e # ledger_replace p new es)"

definition in_ledger :: "addr \<Rightarrow> (addr \<times> nat) list \<Rightarrow> bool" where
  "in_ledger p es \<longleftrightarrow> list_ex (\<lambda>e. fst e = p) es"

definition set_ledger :: "cb_kernel \<Rightarrow> addr \<Rightarrow> (addr \<times> nat) list \<Rightarrow> cb_kernel" where
  "set_ledger k a es = upd_task k a (\<lambda>t. t\<lparr>t_allocations := es\<rparr>)"

definition api_allocate :: "cb_kernel \<Rightarrow> addr \<Rightarrow> nat \<Rightarrow> outcome" where
  "api_allocate k a bytes0 =
     (case k_tasks k a of
        None \<Rightarrow> (Some (R_pointer None), fault k)
      | Some t \<Rightarrow>
          let bytes = (if bytes0 = 0 then 1 else bytes0)
          in case cb_allocate (k_host k) of
               (None, h) \<Rightarrow> (Some (R_pointer None), set_errno (set_host k h) a CB_ENOMEM)
             | (Some p, h) \<Rightarrow>
                 (case cb_allocate h of
                    (None, h2) \<Rightarrow> (Some (R_pointer None), set_errno (set_host k h2) a CB_ENOMEM)
                  | (Some _, h2) \<Rightarrow>
                      (Some (R_pointer (Some p)),
                       cb_task_set_error (set_ledger (set_host k h2) a ((p, bytes) # t_allocations t)) a 0)))"

definition api_resize :: "cb_kernel \<Rightarrow> addr \<Rightarrow> addr option \<Rightarrow> nat \<Rightarrow> outcome" where
  "api_resize k a pointer bytes =
     (case pointer of
        None \<Rightarrow> api_allocate k a bytes
      | Some p \<Rightarrow>
          (case k_tasks k a of
             None \<Rightarrow> (Some (R_pointer None), fault k)
           | Some t \<Rightarrow>
               if \<not> in_ledger p (t_allocations t) then (Some (R_pointer None), set_errno k a CB_EINVAL)
               else if bytes = 0
               then (Some (R_pointer None),
                     cb_task_set_error (set_ledger k a (ledger_remove p (t_allocations t))) a 0)
               else (case cb_allocate (k_host k) of
                       (None, h) \<Rightarrow> (Some (R_pointer None), set_errno (set_host k h) a CB_ENOMEM)
                     | (Some q, h) \<Rightarrow>
                         (Some (R_pointer (Some q)),
                          cb_task_set_error
                            (set_ledger (set_host k h) a (ledger_replace p (q, bytes) (t_allocations t))) a 0))))"

definition api_release :: "cb_kernel \<Rightarrow> addr \<Rightarrow> addr option \<Rightarrow> outcome" where
  "api_release k a pointer =
     (case pointer of
        None \<Rightarrow> (Some R_void, k)
      | Some p \<Rightarrow>
          (case k_tasks k a of
             None \<Rightarrow> (Some R_void, fault k)
           | Some t \<Rightarrow>
               if \<not> in_ledger p (t_allocations t) then (Some R_void, set_errno k a CB_EINVAL)
               else (Some R_void, cb_task_set_error (set_ledger k a (ledger_remove p (t_allocations t))) a 0)))"

definition task_release_allocations :: "cb_kernel \<Rightarrow> addr \<Rightarrow> cb_kernel" where
  "task_release_allocations k a =
     upd_task k a (\<lambda>t. t\<lparr>t_libc := (t_libc t)\<lparr>input_streams := None\<rparr>, t_allocations := []\<rparr>)"

section \<open>Destruction and exit\<close>

definition task_destroy :: "cb_kernel \<Rightarrow> addr \<Rightarrow> cb_kernel" where
  "task_destroy k a =
     (case k_tasks k a of
        None \<Rightarrow> fault k
      | Some t \<Rightarrow>
          let k1 = dir_close_all (fd_close_all (task_release_allocations k a) a) a;
              k2 = cb_vfs_node_release k1 (i_node (t_image t));
              k3 = cb_vfs_node_release k2 (case t_pending t of None \<Rightarrow> None | Some i \<Rightarrow> i_node i);
              k4 = cb_vfs_node_release k3 (t_cwd t);
              k5 = cb_vfs_node_release k4 (t_root t)
          in k5\<lparr>k_tasks := (k_tasks k5)(a := None)\<rparr>)"

definition waits_for :: "cb_task \<Rightarrow> int \<Rightarrow> int \<Rightarrow> bool" where
  "waits_for t ppid pid \<longleftrightarrow>
     t_pid t = ppid \<and> t_state t = CB_TASK_BLOCKED_WAIT \<and> (t_waiting_for t = pid \<or> t_waiting_for t = -1)"

definition task_is :: "(cb_task \<Rightarrow> bool) \<Rightarrow> cb_kernel \<Rightarrow> addr \<Rightarrow> bool" where
  "task_is P k b = (case k_tasks k b of None \<Rightarrow> False | Some t \<Rightarrow> P t)"

definition wake_waiting_parent :: "cb_kernel \<Rightarrow> cb_task \<Rightarrow> cb_kernel" where
  "wake_waiting_parent k child =
     (case List.find (task_is (\<lambda>t. waits_for t (t_ppid child) (t_pid child)) k) (k_list k) of
        None \<Rightarrow> k
      | Some b \<Rightarrow> upd_task k b (\<lambda>t. t\<lparr>t_wake_reason := CB_WAKE_CHILD_EXITED, t_state := CB_TASK_RUNNABLE\<rparr>))"

definition api_exit :: "cb_kernel \<Rightarrow> addr \<Rightarrow> int \<Rightarrow> cb_kernel" where
  "api_exit k a status =
     (let k1 = dir_close_all (fd_close_all (task_release_allocations k a) a) a;
          k2 = upd_task k1 a (\<lambda>t. t\<lparr>t_exit_status := status AND 255, t_state := CB_TASK_ZOMBIE,
                                    t_suspended := In_exit\<rparr>)
      in case k_tasks k2 a of
           None \<Rightarrow> fault k2
         | Some t \<Rightarrow>
             let k3 = (if t_pid t = k_boot_pid k2
                       then k2\<lparr>k_boot_finished := True, k_boot_status := t_exit_status t\<rparr> else k2)
             in (wake_waiting_parent k3 t)\<lparr>k_current := None\<rparr>)"

section \<open>Interrupts\<close>

definition CB_INTERRUPT_DEFAULT :: int where "CB_INTERRUPT_DEFAULT = 0"
definition CB_INTERRUPT_IGNORE :: int where "CB_INTERRUPT_IGNORE = 1"

definition cb_executor_supports_interrupt :: "cb_kernel \<Rightarrow> nat option \<Rightarrow> bool" where
  "cb_executor_supports_interrupt k program =
     (case program of
        None \<Rightarrow> False
      | Some p \<Rightarrow> (case k_programs k p of None \<Rightarrow> False | Some pr \<Rightarrow> p_interruptible pr))"

definition task_interrupt_supported :: "cb_kernel \<Rightarrow> cb_task \<Rightarrow> bool" where
  "task_interrupt_supported k t \<longleftrightarrow>
     cb_executor_supports_interrupt k (i_program (t_image t)) \<and>
     (t_state t \<noteq> CB_TASK_EXEC_PENDING \<or>
      (case t_pending t of None \<Rightarrow> True | Some i \<Rightarrow> cb_executor_supports_interrupt k (i_program i)))"

definition cb_task_set_interrupt :: "cb_kernel \<Rightarrow> addr \<Rightarrow> int \<Rightarrow> bool \<Rightarrow> (cb_error + int) \<times> cb_kernel" where
  "cb_task_set_interrupt k a disposition previous_null =
     (case k_tasks k a of
        None \<Rightarrow> (Inl CB_EINVAL, k)
      | Some t \<Rightarrow>
          if previous_null \<or> (disposition \<noteq> CB_INTERRUPT_DEFAULT \<and> disposition \<noteq> CB_INTERRUPT_IGNORE)
          then (Inl CB_EINVAL, k)
          else if \<not> task_interrupt_supported k t then (Inl CB_ENOSYS, k)
          else (Inr (t_interrupt_disposition t),
                upd_task k a (\<lambda>t. t\<lparr>t_interrupt_disposition := disposition,
                                    t_interrupt_pending := (t_interrupt_pending t \<and> disposition \<noteq> CB_INTERRUPT_IGNORE)\<rparr>)))"

fun is_blocked :: "task_state \<Rightarrow> bool" where
  "is_blocked CB_TASK_BLOCKED_PIPE \<longleftrightarrow> True"
| "is_blocked CB_TASK_BLOCKED_CONSOLE \<longleftrightarrow> True"
| "is_blocked CB_TASK_BLOCKED_WAIT \<longleftrightarrow> True"
| "is_blocked CB_TASK_BLOCKED_POLL \<longleftrightarrow> True"
| "is_blocked _ \<longleftrightarrow> False"

definition cb_kernel_request_interrupt :: "cb_kernel \<Rightarrow> int \<Rightarrow> cb_error option \<times> cb_kernel" where
  "cb_kernel_request_interrupt k pid =
     (case List.find (task_is (\<lambda>t. t_pid t = pid) k) (k_list k) of
        None \<Rightarrow> (Some CB_ENOENT, k)
      | Some b \<Rightarrow>
          (case k_tasks k b of
             None \<Rightarrow> (Some CB_ENOENT, fault k)
           | Some t \<Rightarrow>
               if t_state t = CB_TASK_ZOMBIE \<or> t_state t = CB_TASK_DEAD then (Some CB_ENOENT, k)
               else if \<not> task_interrupt_supported k t then (Some CB_ENOSYS, k)
               else if t_interrupt_disposition t = CB_INTERRUPT_IGNORE then (None, k)
               else (None, upd_task k b (\<lambda>t. t\<lparr>t_interrupt_pending := True,
                                               t_state := (if is_blocked (t_state t) then CB_TASK_RUNNABLE else t_state t)\<rparr>))))"

text \<open>The result says whether the task is still alive.\<close>

definition cb_task_deliver_interrupt :: "cb_kernel \<Rightarrow> addr \<Rightarrow> bool \<times> cb_kernel" where
  "cb_task_deliver_interrupt k a =
     (case k_tasks k a of
        None \<Rightarrow> (False, fault k)
      | Some t \<Rightarrow>
          if t_interrupt_pending t \<and> t_interrupt_disposition t = CB_INTERRUPT_DEFAULT
          then (False, api_exit (upd_task k a (\<lambda>t. t\<lparr>t_interrupt_pending := False\<rparr>)) a 130)
          else (True, k))"

section \<open>Creation\<close>

record cb_spawn_action =
  sa_valid :: bool
  sa_type :: int
  sa_from :: int
  sa_to :: int

definition CB_SPAWN_DUP2 :: int where "CB_SPAWN_DUP2 = 1"
definition CB_SPAWN_CLOSE :: int where "CB_SPAWN_CLOSE = 2"

text \<open>\<open>sa_valid\<close> is the test of \<^verbatim>\<open>abi_version\<close> and \<^verbatim>\<open>struct_size\<close>.\<close>

fun task_apply_actions :: "cb_kernel \<Rightarrow> addr \<Rightarrow> cb_spawn_action list \<Rightarrow> int \<times> cb_kernel" where
  "task_apply_actions k a [] = (0, k)"
| "task_apply_actions k a (act # acts) =
     (case k_tasks k a of
        None \<Rightarrow> (-1, fault k)
      | Some t \<Rightarrow>
          if \<not> sa_valid act then (-1, set_errno k a CB_EINVAL)
          else if sa_type act = CB_SPAWN_DUP2
          then (case fd_lookup t (sa_from act) of
                  None \<Rightarrow> (-1, set_errno k a CB_EBADF)
                | Some file \<Rightarrow>
                    if \<not> valid_fd (sa_to act) then (-1, set_errno k a CB_EBADF)
                    else let k1 = (if sa_from act \<noteq> sa_to act
                                   then snd (fd_install_at k a file (sa_to act) True) else k)
                         in task_apply_actions (set_fd k1 a (sa_to act) (Some file) False) a acts)
          else if sa_type act = CB_SPAWN_CLOSE
          then task_apply_actions
                 (if fd_lookup t (sa_from act) \<noteq> None then snd (fd_close k a (sa_from act)) else k) a acts
          else (-1, set_errno k a CB_EINVAL))"

text \<open>The native executor: an execution object and a stack from the host.\<close>

definition native_instance_create :: "cb_kernel \<Rightarrow> addr option \<times> cb_kernel" where
  "native_instance_create k =
     (case cb_allocate (k_host k) of
        (None, h) \<Rightarrow> (None, set_host k h)
      | (Some e, h) \<Rightarrow> (if context_ok k e then Some e else None, set_host k h))"

definition cb_executor_instance_create :: "cb_kernel \<Rightarrow> nat option \<Rightarrow> addr option \<times> cb_kernel" where
  "cb_executor_instance_create k program =
     (case program of None \<Rightarrow> (None, k) | Some p \<Rightarrow> native_instance_create k)"

definition libc_new :: libc_state where
  "libc_new = \<lparr>optind = 1, opterr = 1, optopt = 0, optarg = None, optplace = [],
               stdout_error = 0, stderr_error = 0, stdout_closed = 0, stderr_closed = 0,
               stdin_eof = 0, stdin_error = 0, stdin_closed = 0, input_streams = None\<rparr>"

definition no_fd :: cb_fd_entry where
  "no_fd = \<lparr>fd_file = None, close_on_exec = False\<rparr>"

definition no_dir :: cb_dir_handle where
  "no_dir = \<lparr>d_node = None, d_next = None, d_in_use = False\<rparr>"

definition task_new :: "int \<Rightarrow> cb_task option \<Rightarrow> image \<Rightarrow> addr option \<Rightarrow> cb_task" where
  "task_new pid parent im vroot =
     \<lparr>t_pid = pid, t_ppid = (case parent of None \<Rightarrow> 0 | Some p \<Rightarrow> t_pid p),
      t_state = CB_TASK_RUNNABLE,
      t_interrupt_disposition = (case parent of None \<Rightarrow> CB_INTERRUPT_DEFAULT | Some p \<Rightarrow> t_interrupt_disposition p),
      t_interrupt_pending = False, t_execution = None, t_image = im,
      t_startup_name = (case i_argv im of [] \<Rightarrow> None | s # _ \<Rightarrow> Some s), t_libc = libc_new,
      t_descriptors = (case parent of None \<Rightarrow> replicate CB_MAX_FDS no_fd | Some p \<Rightarrow> t_descriptors p),
      t_directories = replicate CB_MAX_DIRS no_dir,
      t_root = (case parent of None \<Rightarrow> vroot | Some p \<Rightarrow> t_root p),
      t_cwd = (case parent of None \<Rightarrow> vroot | Some p \<Rightarrow> t_cwd p),
      t_error = 0, t_exit_status = 0, t_waiting_for = 0, t_wake_reason = CB_WAKE_NONE,
      t_wake_start = 0, t_wake_timeout = 0, t_pending = None, t_allocations = [], t_suspended = At_entry\<rparr>"

definition retain_descriptors :: "cb_kernel \<Rightarrow> cb_fd_entry list \<Rightarrow> cb_kernel" where
  "retain_descriptors k es =
     fold (\<lambda>e k. case fd_file e of None \<Rightarrow> k | Some f \<Rightarrow> cb_open_file_retain k f) es k"

text \<open>The label \<^verbatim>\<open>fail\<close> of \<^verbatim>\<open>task_create\<close>, once the task has its root, directory and descriptors.\<close>

definition task_abandon :: "cb_kernel \<Rightarrow> addr \<Rightarrow> cb_kernel" where
  "task_abandon k a =
     (case k_tasks k a of
        None \<Rightarrow> fault k
      | Some t \<Rightarrow>
          let k1 = fd_close_all k a;
              k2 = cb_vfs_node_release (cb_vfs_node_release k1 (t_cwd t)) (t_root t)
          in k2\<lparr>k_tasks := (k_tasks k2)(a := None)\<rparr>)"

text \<open>\<^verbatim>\<open>task_create\<close> from the point where the vectors have been copied.\<close>

definition task_start ::
  "cb_kernel \<Rightarrow> addr \<Rightarrow> cb_task \<Rightarrow> nat option \<Rightarrow> cb_spawn_action list \<Rightarrow> addr option \<times> cb_kernel" where
  "task_start k a t program actions =
     (let k1 = k\<lparr>k_tasks := (k_tasks k)(a \<mapsto> t)\<rparr>;
          k2 = cb_vfs_node_retain (cb_vfs_node_retain k1 (t_root t)) (t_cwd t);
          k3 = retain_descriptors k2 (t_descriptors t)
      in case task_apply_actions k3 a actions of
           (r, k4) \<Rightarrow>
             if r < 0 then (None, task_abandon k4 a)
             else (case cb_executor_instance_create k4 program of
                     (None, k5) \<Rightarrow> (None, task_abandon k5 a)
                   | (Some e, k5) \<Rightarrow>
                       let k6 = upd_task k5 a (\<lambda>t. t\<lparr>t_execution := Some e, t_state := CB_TASK_RUNNABLE\<rparr>)
                       in (Some a, k6\<lparr>k_list := a # k_list k6\<rparr>)))"

definition task_create ::
  "cb_kernel \<Rightarrow> addr option \<Rightarrow> nat option \<Rightarrow> string list \<Rightarrow> string list option \<Rightarrow> cb_spawn_action list \<Rightarrow>
   addr option \<times> cb_kernel" where
  "task_create k parent program argv envp actions =
     (let p = (case parent of None \<Rightarrow> None | Some b \<Rightarrow> k_tasks k b)
      in if int (length argv) > INT_MAX then (None, k)
         else case cb_allocate (k_host k) of
           (None, h) \<Rightarrow> (None, set_host k h)
         | (Some a, h1) \<Rightarrow>
             (case cb_allocate h1 of
                (None, h2) \<Rightarrow> (None, set_host k h2)
              | (Some _, h2) \<Rightarrow>
                  let pid = k_next_pid k + 1;
                      (args, h3) = argument_vector_copy h2 argv;
                      (env, h4) = string_vector_copy h3
                        (case envp of Some e \<Rightarrow> e | None \<Rightarrow> (case p of None \<Rightarrow> [] | Some t \<Rightarrow> environment_of t));
                      k1 = (set_host k h4)\<lparr>k_next_pid := pid\<rparr>
                  in case (args, env) of
                       (Some (vals, owned), Some e) \<Rightarrow>
                         task_start k1 a
                           (task_new pid p \<lparr>i_program = program, i_argv = vals, i_owned_argv = owned,
                                            i_argc = length argv, i_environment = e, i_node = None\<rparr>
                              (vfs_root (k_vfs k)))
                           program actions
                     | _ \<Rightarrow> (None, k1)))"

section \<open>spawn, exec and waitpid\<close>

definition resolve_executable_node ::
  "cb_kernel \<Rightarrow> addr option \<Rightarrow> addr option \<Rightarrow> string \<Rightarrow> cb_error + addr" where
  "resolve_executable_node k root cwd program_name =
     (let path = (if slash \<in> set program_name then program_name else ''/bin/'' @ program_name)
      in if length path \<ge> CB_PATH_MAX then Inl CB_ENAMETOOLONG
         else case cb_vfs_lookup_node (k_vfs k) root cwd path of
                Inl e \<Rightarrow> Inl e
              | Inr node \<Rightarrow>
                  (case ramfs_stat (k_vfs k) node of
                     Inl e \<Rightarrow> Inl e
                   | Inr status \<Rightarrow>
                       if st_type status = CB_NODE_DIRECTORY \<or> st_type status = CB_NODE_TERMINAL then Inl CB_EACCES
                       else if st_type status \<noteq> CB_NODE_EXECUTABLE then Inl CB_ENOEXEC
                       else Inr node))"

definition executable_of :: "cb_kernel \<Rightarrow> addr \<Rightarrow> nat option" where
  "executable_of k node = (case nodes (k_vfs k) node of None \<Rightarrow> None | Some n \<Rightarrow> n_executable n)"

definition set_image_node :: "cb_kernel \<Rightarrow> addr \<Rightarrow> addr \<Rightarrow> cb_kernel" where
  "set_image_node k a node = upd_task k a (\<lambda>t. t\<lparr>t_image := (t_image t)\<lparr>i_node := Some node\<rparr>\<rparr>)"

text \<open>
  The result carries the child's process number. \<open>name\<close> and \<open>argv\<close> are \<open>None\<close> for null pointers, and
  \<open>actions_bad\<close> says that the action count is not zero and the pointer is null.
\<close>

definition api_spawn ::
  "cb_kernel \<Rightarrow> addr \<Rightarrow> string option \<Rightarrow> string list option \<Rightarrow> string list option \<Rightarrow> cb_spawn_action list \<Rightarrow> bool \<Rightarrow> outcome" where
  "api_spawn k a program_name argv envp actions actions_bad =
     (case k_tasks k a of
        None \<Rightarrow> (Some (R_wait (-1) None), fault k)
      | Some parent \<Rightarrow>
          (case (program_name, argv) of
             (Some name, Some args) \<Rightarrow>
               if args = [] \<or> actions_bad \<or> int (length args) > INT_MAX
               then (Some (R_wait (-1) None), set_errno k a CB_EINVAL)
               else (case resolve_executable_node k (t_root parent) (t_cwd parent) name of
                       Inl e \<Rightarrow> (Some (R_wait (-1) None), set_errno k a e)
                     | Inr node \<Rightarrow>
                         (case task_create (cb_vfs_node_retain k (Some node)) (Some a) (executable_of k node)
                                 args envp actions of
                            (None, k1) \<Rightarrow>
                              (Some (R_wait (-1) None), set_errno (cb_vfs_node_release k1 (Some node)) a CB_ENOMEM)
                          | (Some child, k1) \<Rightarrow>
                              (Some (R_wait 0 (map_option t_pid (k_tasks k1 child))),
                               cb_task_set_error (set_image_node k1 child node) a 0)))
           | _ \<Rightarrow> (Some (R_wait (-1) None), set_errno k a CB_EINVAL)))"

text \<open>
  Between the two tests for an interrupt the code allocates; in the model nothing else can run
  there, so the second test repeats the first.
\<close>

definition exec_refused :: "cb_kernel \<Rightarrow> addr \<Rightarrow> addr \<Rightarrow> bool" where
  "exec_refused k a node =
     (case k_tasks k a of
        None \<Rightarrow> False
      | Some t \<Rightarrow> (t_interrupt_pending t \<or> t_interrupt_disposition t = CB_INTERRUPT_IGNORE) \<and>
                  \<not> cb_executor_supports_interrupt k (executable_of k node))"

definition api_exec :: "cb_kernel \<Rightarrow> addr \<Rightarrow> string option \<Rightarrow> string list option \<Rightarrow> string list option \<Rightarrow> outcome" where
  "api_exec k a program_name argv envp =
     (case k_tasks k a of
        None \<Rightarrow> (Some (R_int (-1)), fault k)
      | Some t \<Rightarrow>
          (case (program_name, argv) of
             (Some name, Some args) \<Rightarrow>
               if args = [] \<or> int (length args) > INT_MAX then (Some (R_int (-1)), set_errno k a CB_EINVAL)
               else (case resolve_executable_node k (t_root t) (t_cwd t) name of
                  Inl e \<Rightarrow> (Some (R_int (-1)), set_errno k a e)
                | Inr node \<Rightarrow>
                    if exec_refused k a node then (Some (R_int (-1)), set_errno k a CB_ENOSYS)
                    else
                      let k1 = cb_vfs_node_retain k (Some node);
                          (vec, h1) = argument_vector_copy (k_host k1) args;
                          (env, h2) = string_vector_copy h1 (case envp of Some e \<Rightarrow> e | None \<Rightarrow> environment_of t);
                          k2 = set_host k1 h2
                      in case (vec, env) of
                           (Some (vals, owned), Some e) \<Rightarrow>
                             if exec_refused k2 a node
                             then (Some (R_int (-1)), set_errno (cb_vfs_node_release k2 (Some node)) a CB_ENOSYS)
                             else (None, cb_task_yield_as
                                     (upd_task k2 a (\<lambda>t. t\<lparr>t_pending := Some
                                        \<lparr>i_program = executable_of k2 node, i_argv = vals, i_owned_argv = owned,
                                         i_argc = length args, i_environment = e, i_node = Some node\<rparr>\<rparr>))
                                     a CB_TASK_EXEC_PENDING In_exec)
                         | _ \<Rightarrow> (Some (R_int (-1)), set_errno (cb_vfs_node_release k2 (Some node)) a CB_ENOMEM))
           | _ \<Rightarrow> (Some (R_int (-1)), set_errno k a CB_EINVAL)))"

text \<open>
  The scheduler completes an exec. Failing to create the new execution ends in the host's
  \<^verbatim>\<open>fatal\<close>, the result \<open>False\<close>.
\<close>

definition install_pending :: "image \<Rightarrow> cb_task \<Rightarrow> cb_task" where
  "install_pending im t =
     t\<lparr>t_image := im, t_startup_name := (case i_argv im of [] \<Rightarrow> None | s # _ \<Rightarrow> Some s),
       t_pending := None, t_error := 0,
       t_libc := (t_libc t)\<lparr>stdout_error := 0, stderr_error := 0, stdout_closed := 0, stderr_closed := 0,
                           stdin_eof := 0, stdin_error := 0, stdin_closed := 0,
                           optind := 1, opterr := 1, optopt := 0, optarg := None, optplace := []\<rparr>\<rparr>"

definition task_finish_exec :: "cb_kernel \<Rightarrow> addr \<Rightarrow> bool \<times> cb_kernel" where
  "task_finish_exec k a =
     (case k_tasks k a of
        None \<Rightarrow> (False, fault k)
      | Some t \<Rightarrow>
          (case t_pending t of
             None \<Rightarrow> (False, fault k)
           | Some im \<Rightarrow>
               let k1 = task_release_allocations (upd_task k a (\<lambda>t. t\<lparr>t_execution := None\<rparr>)) a;
                   k2 = dir_close_all (close_where close_on_exec k1 a) a;
                   k3 = cb_vfs_node_release k2 (i_node (t_image t));
                   k4 = upd_task k3 a (install_pending im)
               in case cb_executor_instance_create k4 (i_program im) of
                    (None, k5) \<Rightarrow> (False, k5)
                  | (Some e, k5) \<Rightarrow>
                      (True, upd_task k5 a (\<lambda>t. t\<lparr>t_execution := Some e, t_state := CB_TASK_RUNNABLE,
                                                  t_suspended := At_entry\<rparr>))))"

definition child_of :: "int \<Rightarrow> int \<Rightarrow> cb_task \<Rightarrow> bool" where
  "child_of ppid pid t \<longleftrightarrow> t_ppid t = ppid \<and> (pid = -1 \<or> t_pid t = pid)"

definition find_waitable_child :: "cb_kernel \<Rightarrow> int \<Rightarrow> int \<Rightarrow> addr option \<times> bool" where
  "find_waitable_child k ppid pid =
     (List.find (task_is (\<lambda>t. child_of ppid pid t \<and> t_state t = CB_TASK_ZOMBIE) k) (k_list k),
      list_ex (task_is (child_of ppid pid) k) (k_list k))"

definition reap :: "cb_kernel \<Rightarrow> addr \<Rightarrow> cb_kernel" where
  "reap k child =
     task_destroy
       (upd_task (k\<lparr>k_list := remove1 child (k_list k),
                    k_cursor := (if k_cursor k = Some child then None else k_cursor k)\<rparr>) child
          (\<lambda>t. t\<lparr>t_state := CB_TASK_DEAD\<rparr>)) child"

definition api_waitpid :: "cb_kernel \<Rightarrow> addr \<Rightarrow> int \<Rightarrow> outcome" where
  "api_waitpid k a pid =
     (case k_tasks k a of
        None \<Rightarrow> (Some (R_wait (-1) None), fault k)
      | Some parent \<Rightarrow>
          (case find_waitable_child k (t_pid parent) pid of
             (Some child, _) \<Rightarrow>
               (case k_tasks k child of
                  None \<Rightarrow> (Some (R_wait (-1) None), fault k)
                | Some c \<Rightarrow>
                    (Some (R_wait (t_pid c) (Some (t_exit_status c))), cb_task_set_error (reap k child) a 0))
           | (None, has_child) \<Rightarrow>
               if \<not> has_child then (Some (R_wait (-1) None), set_errno k a CB_ECHILD)
               else (None, cb_task_yield_as (upd_task k a (\<lambda>t. t\<lparr>t_waiting_for := pid\<rparr>)) a
                             CB_TASK_BLOCKED_WAIT (In_waitpid pid))))"

end
