(* ===== verification/Scheduler.thy ===== *)
theory Scheduler
  imports Process
begin

text \<open>
  \<^verbatim>\<open>api_poll\<close>, resumption of suspended calls, the scheduler and its loop \<^verbatim>\<open>cb_kernel_run\<close>, the table of
  calls, and the creation, boot and destruction of the kernel (the end of \<^verbatim>\<open>src/core.c\<close>).
\<close>

section \<open>poll\<close>

definition CB_POLLIN :: int where "CB_POLLIN = 1"
definition CB_POLLOUT :: int where "CB_POLLOUT = 4"
definition CB_POLLERR :: int where "CB_POLLERR = 8"
definition CB_POLLHUP :: int where "CB_POLLHUP = 16"
definition CB_POLLNVAL :: int where "CB_POLLNVAL = 32"

text \<open>\<^verbatim>\<open>current - start\<close> on 64-bit unsigned integers.\<close>

definition sub64 :: "nat \<Rightarrow> nat \<Rightarrow> nat" where
  "sub64 x y = nat ((int x - int y) mod 2 ^ 64)"

definition requested_events :: "int \<Rightarrow> int" where
  "requested_events e =
     (if has_flag e CB_POLLIN then CB_POLL_READ else 0) OR (if has_flag e CB_POLLOUT then CB_POLL_WRITE else 0)"

definition reported_events :: "int \<Rightarrow> int" where
  "reported_events r =
     (if has_flag r CB_POLL_READ then CB_POLLIN else 0) OR (if has_flag r CB_POLL_WRITE then CB_POLLOUT else 0) OR
     (if has_flag r CB_POLL_HUP then CB_POLLHUP else 0) OR (if has_flag r CB_POLL_ERR then CB_POLLERR else 0)"

definition poll_one :: "cb_kernel \<Rightarrow> cb_task \<Rightarrow> cb_pollfd \<Rightarrow> cb_pollfd \<times> cb_kernel" where
  "poll_one k t p =
     (if pf_fd p < 0 then (p\<lparr>pf_revents := 0\<rparr>, k)
      else case fd_lookup t (pf_fd p) of
             None \<Rightarrow> (p\<lparr>pf_revents := CB_POLLNVAL\<rparr>, k)
           | Some f \<Rightarrow>
               (case k_files k f of
                  None \<Rightarrow> (p\<lparr>pf_revents := 0\<rparr>, fault k)
                | Some file \<Rightarrow>
                    (case file_poll k file (requested_events (pf_events p)) of
                       (r, k') \<Rightarrow> (p\<lparr>pf_revents := reported_events r\<rparr>, k'))))"

fun poll_all :: "cb_kernel \<Rightarrow> cb_task \<Rightarrow> cb_pollfd list \<Rightarrow> cb_pollfd list \<times> cb_kernel" where
  "poll_all k t [] = ([], k)"
| "poll_all k t (p # ps) =
     (let (p', k1) = poll_one k t p; (ps', k2) = poll_all k1 t ps in (p' # ps', k2))"

definition ready_count :: "cb_pollfd list \<Rightarrow> nat" where
  "ready_count ps = length (filter (\<lambda>p. pf_revents p \<noteq> 0) ps)"

text \<open>One round of the loop of \<^verbatim>\<open>api_poll\<close>.\<close>

definition poll_round :: "cb_kernel \<Rightarrow> addr \<Rightarrow> cb_pollfd list \<Rightarrow> outcome" where
  "poll_round k a fds =
     (case k_tasks k a of
        None \<Rightarrow> (Some (R_poll (-1) fds), fault k)
      | Some t \<Rightarrow>
          (case poll_all k t fds of
             (fds', k1) \<Rightarrow>
               if ready_count fds' > 0 \<or> t_wake_timeout t = 0
               then (Some (R_poll (int (ready_count fds')) fds'), cb_task_set_error k1 a 0)
               else if t_wake_timeout t > 0
               then (case monotonic_millis (k_host k1) of
                       (now, h) \<Rightarrow>
                         let k2 = set_host k1 h
                         in if now = 0 then (Some (R_poll (-1) fds'), set_errno k2 a CB_ENOSYS)
                            else if sub64 now (t_wake_start t) \<ge> nat (t_wake_timeout t)
                            then (Some (R_poll 0 fds'), cb_task_set_error k2 a 0)
                            else (None, cb_task_yield_as k2 a CB_TASK_BLOCKED_POLL (In_poll fds')))
               else (None, cb_task_yield_as k1 a CB_TASK_BLOCKED_POLL (In_poll fds'))))"

definition api_poll :: "cb_kernel \<Rightarrow> addr \<Rightarrow> cb_pollfd list option \<Rightarrow> nat \<Rightarrow> int \<Rightarrow> outcome" where
  "api_poll k a fds nfds timeout =
     (if nfds > 0 \<and> fds = None then (Some (R_poll (-1) []), set_errno k a CB_EFAULT)
      else let ps = (case fds of None \<Rightarrow> [] | Some l \<Rightarrow> take nfds l)
      in if nfds > CB_MAX_FDS then (Some (R_poll (-1) ps), set_errno k a CB_EINVAL)
      else if timeout > 0
      then (case monotonic_millis (k_host k) of
              (now, h) \<Rightarrow>
                let k1 = upd_task (set_host k h) a (\<lambda>t. t\<lparr>t_wake_start := now\<rparr>)
                in if now = 0 then (Some (R_poll (-1) ps), set_errno k1 a CB_ENOSYS)
                   else poll_round (upd_task k1 a (\<lambda>t. t\<lparr>t_wake_timeout := timeout\<rparr>)) a ps)
      else poll_round (upd_task k a (\<lambda>t. t\<lparr>t_wake_timeout := timeout\<rparr>)) a ps)"

section \<open>Resuming a task\<close>

text \<open>
  What happens when the scheduler switches to a task: the end of \<^verbatim>\<open>cb_task_yield_as\<close> (or the start of
  \<^verbatim>\<open>native_entry\<close>), which delivers an interrupt, and then the suspended call from the point where it
  waited. The result \<open>Some r\<close> says that the call returns \<open>r\<close> to the program.
\<close>

definition resume_task :: "cb_kernel \<Rightarrow> addr \<Rightarrow> bool \<times> cb_kernel" where
  "resume_task k a =
     cb_task_deliver_interrupt ((upd_task k a (\<lambda>t. t\<lparr>t_state := CB_TASK_RUNNING\<rparr>))\<lparr>k_current := Some a\<rparr>) a"

definition continue_read :: "cb_kernel \<Rightarrow> addr \<Rightarrow> addr \<Rightarrow> nat \<Rightarrow> outcome" where
  "continue_read k a f count =
     (case k_files k f of
        None \<Rightarrow> (Some (R_bytes (-1) []), fault k)
      | Some file \<Rightarrow>
          (case of_ops file of
             PipeReadEnd p \<Rightarrow> pipe_read k a f p count
           | _ \<Rightarrow> (Some (R_bytes (-1) []), fault k)))"

definition continue_write :: "cb_kernel \<Rightarrow> addr \<Rightarrow> addr \<Rightarrow> byte list \<Rightarrow> nat \<Rightarrow> outcome" where
  "continue_write k a f source tot =
     (case k_files k f of
        None \<Rightarrow> (Some (R_int (-1)), fault k)
      | Some file \<Rightarrow>
          (case of_ops file of
             PipeWriteEnd p \<Rightarrow> pipe_write k a f p source tot
           | _ \<Rightarrow> (Some (R_int (-1)), fault k)))"

text \<open>A completed exec or exit never returns; the host's \<^verbatim>\<open>fatal\<close> is a fault.\<close>

fun continue_call :: "cb_kernel \<Rightarrow> addr \<Rightarrow> suspended \<Rightarrow> outcome" where
  "continue_call k a At_entry = (Some R_void, k)"
| "continue_call k a In_yield = (Some R_void, k)"
| "continue_call k a (In_pipe_read f count) = continue_read k a f count"
| "continue_call k a (In_pipe_write f source tot) = continue_write k a f source tot"
| "continue_call k a (In_console_read count) = console_read k a count"
| "continue_call k a (In_waitpid pid) = api_waitpid k a pid"
| "continue_call k a (In_poll fds) = poll_round k a fds"
| "continue_call k a In_exec = (None, fault k)"
| "continue_call k a In_exit = (None, fault k)"

definition dispatch :: "cb_kernel \<Rightarrow> addr \<Rightarrow> outcome" where
  "dispatch k a =
     (case k_tasks k a of
        None \<Rightarrow> (None, fault k)
      | Some t \<Rightarrow>
          (case resume_task k a of
             (False, k') \<Rightarrow> (None, k')
           | (True, k') \<Rightarrow> continue_call k' a (t_suspended t)))"

section \<open>The scheduler\<close>

text \<open>The order in which \<^verbatim>\<open>pick_runnable\<close> looks at the tasks: from the one after the cursor, around the list.\<close>

definition schedule_order :: "addr list \<Rightarrow> addr option \<Rightarrow> addr list" where
  "schedule_order l cursor =
     (case cursor of
        None \<Rightarrow> l
      | Some c \<Rightarrow> (case dropWhile (\<lambda>x. x \<noteq> c) l of
                    [] \<Rightarrow> l
                  | _ # rest \<Rightarrow> if rest = [] then l else rest @ takeWhile (\<lambda>x. x \<noteq> c) l @ [c]))"

definition runnable :: "cb_kernel \<Rightarrow> addr \<Rightarrow> bool" where
  "runnable k a = task_is (\<lambda>t. t_state t = CB_TASK_RUNNABLE) k a"

definition pick_runnable :: "cb_kernel \<Rightarrow> addr option \<times> cb_kernel" where
  "pick_runnable k =
     (case List.find (runnable k) (schedule_order (k_list k) (k_cursor k)) of
        None \<Rightarrow> (None, k)
      | Some a \<Rightarrow> (Some a, k\<lparr>k_cursor := Some a\<rparr>))"

definition has_console_waiter :: "cb_kernel \<Rightarrow> bool" where
  "has_console_waiter k =
     list_ex (task_is (\<lambda>t. t_state t = CB_TASK_BLOCKED_CONSOLE \<or> t_state t = CB_TASK_BLOCKED_POLL) k) (k_list k)"

text \<open>The loop of \<^verbatim>\<open>get_poll_timeout\<close>; the early returns are the results 0.\<close>

fun poll_timeout_loop :: "nat \<Rightarrow> cb_task list \<Rightarrow> int \<Rightarrow> bool \<Rightarrow> int" where
  "poll_timeout_loop now [] least has_poll = (if has_poll then least else -1)"
| "poll_timeout_loop now (t # ts) least has_poll =
     (if t_state t = CB_TASK_BLOCKED_POLL
      then if t_wake_timeout t > 0
           then if now = 0 then 0
                else let elapsed = sub64 now (t_wake_start t)
                     in if elapsed \<ge> nat (t_wake_timeout t) then 0
                        else let remaining = t_wake_timeout t - int elapsed
                             in poll_timeout_loop now ts
                                  (if least < 0 \<or> remaining < least then remaining else least) True
           else poll_timeout_loop now ts least True
      else poll_timeout_loop now ts least has_poll)"

definition listed_tasks :: "cb_kernel \<Rightarrow> cb_task list" where
  "listed_tasks k = List.map_filter (k_tasks k) (k_list k)"

definition get_poll_timeout :: "cb_kernel \<Rightarrow> int \<times> cb_kernel" where
  "get_poll_timeout k =
     (case monotonic_millis (k_host k) of
        (now, h) \<Rightarrow> (poll_timeout_loop now (listed_tasks k) (-1) False, set_host k h))"

definition console_poll :: "cb_kernel \<Rightarrow> int \<Rightarrow> int \<times> cb_kernel" where
  "console_poll k timeout =
     (con_poll (k_console k) (con_seq (k_console k)) timeout,
      k\<lparr>k_console := (k_console k)\<lparr>con_seq := con_seq (k_console k) + 1\<rparr>\<rparr>)"

definition expire_poll :: "nat \<Rightarrow> cb_task \<Rightarrow> cb_task" where
  "expire_poll now t =
     (if t_state t = CB_TASK_BLOCKED_POLL \<and> t_wake_timeout t > 0 \<and>
         (now = 0 \<or> sub64 now (t_wake_start t) \<ge> nat (t_wake_timeout t))
      then t\<lparr>t_state := CB_TASK_RUNNABLE\<rparr> else t)"

definition wake_poll :: "cb_task \<Rightarrow> cb_task" where
  "wake_poll t = (if t_state t = CB_TASK_BLOCKED_POLL then t\<lparr>t_state := CB_TASK_RUNNABLE\<rparr> else t)"

text \<open>
  One round of \<^verbatim>\<open>cb_kernel_run\<close>. What the chosen task does until it gives the processor back is a
  parameter, because it is the program's code: \<open>run k a\<close> is the state when the context switch
  returns.
\<close>

datatype round = Continue cb_kernel nat | Fatal cb_kernel

definition wait_for_events :: "cb_kernel \<Rightarrow> nat \<Rightarrow> round" where
  "wait_for_events k idle =
     (case get_poll_timeout k of
        (timeout, k1) \<Rightarrow>
          let (blocked, k2) =
                (if has_console_waiter k1 then (True, k1)
                 else if timeout \<noteq> -1 then (True, k1)
                 else (case console_poll k1 0 of (n, k') \<Rightarrow> (n > 0, k')))
          in if blocked
             then (case console_poll k2 timeout of
                     (n, k3) \<Rightarrow> Continue (for_tasks wake_poll (if n \<ge> 0 then wake_console_waiters k3 else k3)) idle)
             else if idle + 1 > 1 then Fatal k2
             else Continue k2 (idle + 1))"

definition run_round :: "(cb_kernel \<Rightarrow> addr \<Rightarrow> cb_kernel) \<Rightarrow> cb_kernel \<Rightarrow> nat \<Rightarrow> round" where
  "run_round run k idle =
     (case monotonic_millis (k_host k) of
        (now, h) \<Rightarrow>
          let (n, k1) = console_poll (set_host k h) 0;
              k2 = (if n > 0 then wake_console_waiters k1 else k1);
              k3 = for_tasks (expire_poll now) k2
          in case pick_runnable k3 of
               (None, k4) \<Rightarrow> wait_for_events k4 idle
             | (Some a, k4) \<Rightarrow>
                 let k5 = upd_task (k4\<lparr>k_current := Some a\<rparr>) a (\<lambda>t. t\<lparr>t_state := CB_TASK_RUNNING\<rparr>);
                     k6 = (run k5 a)\<lparr>k_current := None\<rparr>
                 in if task_is (\<lambda>t. t_state t = CB_TASK_EXEC_PENDING) k6 a
                    then (case task_finish_exec k6 a of
                            (True, k7) \<Rightarrow> Continue k7 0
                          | (False, k7) \<Rightarrow> Fatal k7)
                    else Continue k6 0)"

text \<open>The whole loop: \<open>None\<close> when it never ends, and the boot program's status when it does.\<close>

partial_function (option) run_loop ::
  "(cb_kernel \<Rightarrow> addr \<Rightarrow> cb_kernel) \<Rightarrow> cb_kernel \<Rightarrow> nat \<Rightarrow> (int \<times> cb_kernel) option" where
  "run_loop run k idle =
     (if k_boot_finished k then Some (k_boot_status k, k)
      else case run_round run k idle of
             Continue k' idle' \<Rightarrow> run_loop run k' idle'
           | Fatal k' \<Rightarrow> Some (-1, k'))"

declare run_loop.simps [code]

definition cb_kernel_run :: "(cb_kernel \<Rightarrow> addr \<Rightarrow> cb_kernel) \<Rightarrow> cb_kernel \<Rightarrow> (int \<times> cb_kernel) option" where
  "cb_kernel_run run k = (if k_boot_pid k = 0 then Some (-1, k) else run_loop run k 0)"

section \<open>The table of calls\<close>

datatype (plugins only: code size) call =
    C_getpid | C_getppid
  | C_spawn "string option" "string list option" "string list option" "cb_spawn_action list" bool
  | C_exec "string option" "string list option" "string list option"
  | C_exit int | C_waitpid int | C_yield
  | C_open string int nat | C_close int | C_read int bool nat | C_write int "byte list option" nat
  | C_lseek int int int | C_ftruncate int int | C_truncate string int
  | C_dup int | C_dup2 int int | C_set_cloexec int int | C_pipe bool
  | C_fstat int bool | C_stat string bool | C_mkdir string nat | C_unlink string
  | C_rmdir string | C_rename string string | C_chdir string | C_getcwd bool nat
  | C_getenv string | C_setenv string "string option" int | C_unsetenv string
  | C_allocate nat | C_resize "addr option" nat | C_release "addr option"
  | C_get_errno | C_set_errno int | C_isatty int | C_tcgetattr int bool | C_tcsetattr int int bool
  | C_opendir string | C_readdir int bool nat | C_closedir int
  | C_poll "cb_pollfd list option" nat int

definition task_value :: "cb_kernel \<Rightarrow> addr \<Rightarrow> (cb_task \<Rightarrow> int) \<Rightarrow> outcome" where
  "task_value k a f = (case k_tasks k a of None \<Rightarrow> (Some (R_int (-1)), fault k) | Some t \<Rightarrow> (Some (R_int (f t)), k))"

fun do_call :: "cb_kernel \<Rightarrow> addr \<Rightarrow> call \<Rightarrow> outcome" where
  "do_call k a C_getpid = task_value k a t_pid"
| "do_call k a C_getppid = task_value k a t_ppid"
| "do_call k a (C_spawn name argv envp actions bad) = api_spawn k a name argv envp actions bad"
| "do_call k a (C_exec name argv envp) = api_exec k a name argv envp"
| "do_call k a (C_exit status) = (None, api_exit k a status)"
| "do_call k a (C_waitpid pid) = api_waitpid k a pid"
| "do_call k a C_yield = (None, cb_task_yield_as k a CB_TASK_RUNNABLE In_yield)"
| "do_call k a (C_open path flags mode) = api_open k a path flags mode"
| "do_call k a (C_close d) = api_close k a d"
| "do_call k a (C_read d null count) = api_read k a d null count"
| "do_call k a (C_write d buffer count) = api_write k a d buffer count"
| "do_call k a (C_lseek d offset whence) = api_lseek k a d offset whence"
| "do_call k a (C_ftruncate d len) = api_ftruncate k a d len"
| "do_call k a (C_truncate path len) = api_truncate k a path len"
| "do_call k a (C_dup d) = api_dup k a d"
| "do_call k a (C_dup2 old new) = api_dup2 k a old new"
| "do_call k a (C_set_cloexec d enabled) = api_set_cloexec k a d enabled"
| "do_call k a (C_pipe null) = api_pipe k a null"
| "do_call k a (C_fstat d null) = api_fstat k a d null"
| "do_call k a (C_stat path null) = api_stat k a path null"
| "do_call k a (C_mkdir path mode) = api_mkdir k a path mode"
| "do_call k a (C_unlink path) = api_unlink k a path"
| "do_call k a (C_rmdir path) = api_rmdir k a path"
| "do_call k a (C_rename old new) = api_rename k a old new"
| "do_call k a (C_chdir path) = api_chdir k a path"
| "do_call k a (C_getcwd null bufsize) = api_getcwd k a null bufsize"
| "do_call k a (C_getenv name) = api_getenv k a name"
| "do_call k a (C_setenv name new replace_old) = api_setenv k a name new replace_old"
| "do_call k a (C_unsetenv name) = api_unsetenv k a name"
| "do_call k a (C_allocate bytes) = api_allocate k a bytes"
| "do_call k a (C_resize p bytes) = api_resize k a p bytes"
| "do_call k a (C_release p) = api_release k a p"
| "do_call k a C_get_errno = task_value k a t_error"
| "do_call k a (C_set_errno e) = (Some R_void, cb_task_set_error k a e)"
| "do_call k a (C_isatty d) = api_isatty k a d"
| "do_call k a (C_tcgetattr d null) = terminal_attributes_unavailable k a d null"
| "do_call k a (C_tcsetattr d action null) = terminal_attributes_unavailable k a d null"
| "do_call k a (C_opendir path) = api_opendir k a path"
| "do_call k a (C_readdir d null bufsize) = api_readdir k a d null bufsize"
| "do_call k a (C_closedir d) = api_closedir k a d"
| "do_call k a (C_poll fds nfds timeout) = api_poll k a fds nfds timeout"

section \<open>The life of a kernel\<close>

definition vfs_empty :: "host \<Rightarrow> vfs_state" where
  "vfs_empty h = \<lparr>v_host = h, nodes = (\<lambda>a. None), mount_objs = (\<lambda>a. None), next_inode = 0, next_device = 0,
                  program_count = 0, root_mount = None, mount_table = [], vfs_root = None\<rparr>"

definition kernel_new :: "host \<Rightarrow> console \<Rightarrow> (addr \<Rightarrow> bool) \<Rightarrow> cb_kernel" where
  "kernel_new h c ctx = \<lparr>k_vfs = vfs_empty h, k_console = c, k_files = (\<lambda>a. None), k_pipes = (\<lambda>a. None),
     k_tasks = (\<lambda>a. None), k_list = [], k_current = None, k_cursor = None, k_next_pid = 0, k_boot_pid = 0,
     k_boot_status = 0, k_boot_finished = False, k_programs = (\<lambda>a. None), context_ok = ctx, k_fault = False\<rparr>"

text \<open>
  Destroying a kernel. The list of tasks is walked without being unlinked, so the walks over the
  list that closing a pipe end makes meet tasks that are already gone.
\<close>

definition cb_kernel_destroy :: "cb_kernel \<Rightarrow> cb_kernel" where
  "cb_kernel_destroy k =
     (let k1 = fold (\<lambda>a k. task_destroy k a) (k_list k) k
      in k1\<lparr>k_vfs := cb_vfs_destroy (k_vfs k1)\<rparr>)"

text \<open>\<open>host_ok\<close> is \<^verbatim>\<open>host_ops_valid\<close>, \<open>root_ok\<close> the success of the host's \<^verbatim>\<open>context_root\<close>.\<close>

definition cb_kernel_create :: "host \<Rightarrow> console \<Rightarrow> (addr \<Rightarrow> bool) \<Rightarrow> bool \<Rightarrow> bool \<Rightarrow> cb_kernel option" where
  "cb_kernel_create h c ctx host_ok root_ok =
     (if \<not> host_ok then None
      else case cb_allocate h of
             (None, h1) \<Rightarrow> None
           | (Some _, h1) \<Rightarrow>
               if \<not> root_ok then None
               else let k = kernel_new h1 c ctx
                    in case cb_vfs_initialize (k_vfs k) of
                         (Some e, v) \<Rightarrow> None
                       | (None, v) \<Rightarrow> Some (k\<lparr>k_vfs := v\<rparr>))"

text \<open>The native executor copies the descriptor of a program; \<open>descriptor_ok\<close> is its test of the fields.\<close>

definition CB_MAX_PROGRAMS :: nat where "CB_MAX_PROGRAMS = 72"

definition native_prepare :: "cb_kernel \<Rightarrow> string \<Rightarrow> bool \<Rightarrow> nat option \<times> cb_kernel" where
  "native_prepare k name descriptor_ok =
     (if \<not> descriptor_ok \<or> name = [] then (None, k)
      else case cb_allocate (k_host k) of
             (None, h) \<Rightarrow> (None, set_host k h)
           | (Some p, h) \<Rightarrow>
               (Some p, (set_host k h)\<lparr>k_programs := (k_programs k)(p \<mapsto> \<lparr>p_name = name, p_interruptible = True\<rparr>)\<rparr>))"

definition program_destroy :: "cb_kernel \<Rightarrow> nat \<Rightarrow> cb_kernel" where
  "program_destroy k p = k\<lparr>k_vfs := cb_executor_program_destroy (k_vfs k) (Some p)\<rparr>"

definition cb_kernel_register_executor :: "cb_kernel \<Rightarrow> string \<Rightarrow> bool \<Rightarrow> int \<times> cb_kernel" where
  "cb_kernel_register_executor k name descriptor_ok =
     (if program_count (k_vfs k) \<ge> CB_MAX_PROGRAMS then (-1, k)
      else case native_prepare k name descriptor_ok of
        (None, k1) \<Rightarrow> (-1, k1)
      | (Some p, k1) \<Rightarrow>
          let k2 = k1\<lparr>k_vfs := (k_vfs k1)\<lparr>program_count := program_count (k_vfs k1) + 1\<rparr>\<rparr>
          in if slash \<in> set name then (-1, program_destroy k2 p)
             else if length (''/bin/'' @ name) \<ge> CB_PATH_MAX
             then (- errno_value CB_ENAMETOOLONG, program_destroy k2 p)
             else (case cb_vfs_create_executable (k_vfs k2) (''/bin/'' @ name) p of
                     (Some e, v) \<Rightarrow> (-1, program_destroy (k2\<lparr>k_vfs := v\<rparr>) p)
                   | (None, v) \<Rightarrow> (0, k2\<lparr>k_vfs := v\<rparr>)))"

definition attach_terminal :: "cb_kernel \<Rightarrow> addr \<Rightarrow> cb_kernel" where
  "attach_terminal k f = k\<lparr>k_files := (k_files k)(f := map_option (\<lambda>o'. o'\<lparr>of_terminal := True\<rparr>) (k_files k f))\<rparr>"

definition cb_kernel_boot :: "cb_kernel \<Rightarrow> string option \<Rightarrow> int \<times> cb_kernel" where
  "cb_kernel_boot k command =
     (if k_boot_pid k \<noteq> 0 then (-1, k)
      else case resolve_executable_node k (vfs_root (k_vfs k)) (vfs_root (k_vfs k)) ''sh'' of
        Inl e \<Rightarrow> (-1, k)
      | Inr node \<Rightarrow>
          (case task_create (cb_vfs_node_retain k (Some node)) None (executable_of k node)
                  (case command of None \<Rightarrow> [''sh''] | Some c \<Rightarrow> [''sh'', ''-c'', c])
                  (Some [''HOME=/home/user'', ''PATH=/bin'']) [] of
             (None, k1) \<Rightarrow> (-1, cb_vfs_node_release k1 (Some node))
           | (Some a, k1) \<Rightarrow>
               let k2 = set_image_node k1 a node;
                   (input, k3) = cb_open_file_create k2 ConsoleInput CB_O_RDONLY;
                   (output, k4) = cb_open_file_create k3 (ConsoleOutput 1) CB_O_WRONLY;
                   (err, k5) = cb_open_file_create k4 (ConsoleOutput 2) CB_O_WRONLY
               in case (input, output, err) of
                    (Some i, Some out, Some er) \<Rightarrow>
                      let k6 = attach_terminal (attach_terminal (attach_terminal k5 i) out) er;
                          k7 = snd (fd_install_at k6 a i 0 False);
                          k8 = snd (fd_install_at k7 a out 1 False);
                          k9 = snd (fd_install_at k8 a er 2 False)
                      in (0, k9\<lparr>k_boot_pid := (case k_tasks k9 a of None \<Rightarrow> 0 | Some t \<Rightarrow> t_pid t)\<rparr>)
                  | _ \<Rightarrow>
                      (-1, cb_open_file_release (cb_open_file_release (cb_open_file_release k5 input) output) err)))"

section \<open>Test hooks and strings\<close>

definition cb_test_current_wake_reason :: "cb_kernel \<Rightarrow> wake_reason" where
  "cb_test_current_wake_reason k =
     (case k_current k of
        None \<Rightarrow> CB_WAKE_NONE
      | Some a \<Rightarrow> (case k_tasks k a of None \<Rightarrow> CB_WAKE_NONE | Some t \<Rightarrow> t_wake_reason t))"

definition cb_test_task_allocation_count :: "cb_kernel \<Rightarrow> int \<Rightarrow> nat" where
  "cb_test_task_allocation_count k pid =
     (case List.find (task_is (\<lambda>t. t_pid t = pid) k) (k_list k) of
        None \<Rightarrow> SIZE_MAX
      | Some a \<Rightarrow> (case k_tasks k a of None \<Rightarrow> SIZE_MAX | Some t \<Rightarrow> length (t_allocations t)))"

definition api_strerror :: "int \<Rightarrow> string" where
  "api_strerror n =
     (if n = 0 then ''no error''
      else if n = errno_value CB_EPERM then ''operation not permitted''
      else if n = errno_value CB_ENOENT then ''no such file or directory''
      else if n = errno_value CB_ENOEXEC then ''exec format error''
      else if n = errno_value CB_EINTR then ''interrupted system call''
      else if n = errno_value CB_EIO then ''input/output error''
      else if n = errno_value CB_EBADF then ''bad file descriptor''
      else if n = errno_value CB_ECHILD then ''no child processes''
      else if n = errno_value CB_ENOMEM then ''cannot allocate memory''
      else if n = errno_value CB_EACCES then ''permission denied''
      else if n = errno_value CB_EEXIST then ''file exists''
      else if n = errno_value CB_ENOTDIR then ''not a directory''
      else if n = errno_value CB_EISDIR then ''is a directory''
      else if n = errno_value CB_EINVAL then ''invalid argument''
      else if n = errno_value CB_ENFILE then ''too many open files in system''
      else if n = errno_value CB_EMFILE then ''too many open files''
      else if n = errno_value CB_ENOTTY then ''inappropriate ioctl for device''
      else if n = errno_value CB_ENOSPC then ''no space left''
      else if n = errno_value CB_ESPIPE then ''illegal seek''
      else if n = errno_value CB_EPIPE then ''broken pipe''
      else if n = errno_value CB_ENAMETOOLONG then ''file name too long''
      else if n = errno_value CB_ENOSYS then ''function not implemented''
      else if n = errno_value CB_ENOTEMPTY then ''directory not empty''
      else if n = errno_value CB_ERANGE then ''result too large''
      else if n = errno_value CB_EOVERFLOW then ''value too large to be stored in data type''
      else if n = errno_value CB_EXDEV then ''cross-device link''
      else if n = errno_value CB_ETXTBSY then ''text file busy''
      else ''unknown error'')"

end
