(* ===== verification/Vfs_Props.thy ===== *)
theory Vfs_Props
  imports Vfs
begin

text \<open>
  Properties of the path operations of \<^verbatim>\<open>src/vfs.c\<close>: the mount table invariant, resolution,
  the working directory text, atomic rename, and the teardown of the whole file system.
\<close>

section \<open>Mounts\<close>

text \<open>
  Every mount in the table has its own live root, which carries the mount's number and has no
  parent, is not the root mount, and covers a live directory other than the root.
\<close>

definition mount_entry_ok :: "vfs_state \<Rightarrow> addr \<times> addr \<Rightarrow> bool" where
  "mount_entry_ok v = (\<lambda>(mp, m).
     root_mount v \<noteq> Some m \<and> vfs_root v \<noteq> Some mp \<and> mp \<in> dom (nodes v) \<and>
     (\<exists>r n. ramfs_mount_root v m = Some r \<and> nodes v r = Some n \<and> n_mount n = m \<and> n_parent n = None))"

definition mounts_ok :: "vfs_state \<Rightarrow> bool" where
  "mounts_ok v \<longleftrightarrow>
     (\<forall>e \<in> set (mount_table v). mount_entry_ok v e) \<and> distinct (map snd (mount_table v)) \<and>
     distinct (map fst (mount_table v)) \<and>
     (\<exists>m r n. root_mount v = Some m \<and> vfs_root v = Some r \<and> ramfs_mount_root v m = Some r \<and>
        nodes v r = Some n \<and> n_mount n = m \<and> n_parent n = None)"

lemma find_SomeD: "List.find P xs = Some x \<Longrightarrow> x \<in> set xs \<and> P x"
  by (auto simp: find_Some_iff)

lemma cross_down_cases:
  assumes "mounts_ok v" "cross_down v child = Some a"
  obtains "a = child" "\<forall>m. (child, m) \<notin> set (mount_table v)"
  | m n where "(child, m) \<in> set (mount_table v)" "ramfs_mount_root v m = Some a" "nodes v a = Some n"
      "n_mount n = m" "n_parent n = None" "root_mount v \<noteq> Some m"
proof (cases "List.find (\<lambda>(mp, m). mp = child) (mount_table v)")
  case None
  then have "a = child" using assms(2) by (simp add: cross_down_def)
  moreover have "\<forall>m. (child, m) \<notin> set (mount_table v)" using None by (auto simp: find_None_iff)
  ultimately show ?thesis by (rule that(1))
next
  case (Some e)
  then obtain m where "e = (child, m)" "(child, m) \<in> set (mount_table v)"
    using find_SomeD [OF Some] by (cases e) auto
  then show ?thesis
    using assms Some that(2) by (fastforce simp: cross_down_def mounts_ok_def mount_entry_ok_def)
qed

lemma cross_down_some:
  assumes "mounts_ok v"
  shows "\<exists>a. cross_down v child = Some a"
proof (cases "List.find (\<lambda>(mp, m). mp = child) (mount_table v)")
  case None
  then show ?thesis by (auto simp: cross_down_def)
next
  case (Some e)
  then obtain m where e: "e = (child, m)" "(child, m) \<in> set (mount_table v)"
    using find_SomeD [OF Some] by (cases e) auto
  then have "mount_entry_ok v (child, m)" using assms by (auto simp: mounts_ok_def)
  then show ?thesis using Some e by (auto simp: cross_down_def mount_entry_ok_def)
qed

section \<open>Resolution\<close>

text \<open>
  Where a resolution ends: at its start, at a node some directory lists, or at the root of a mount
  in the table; and while it has not crossed into a mounted file system it stays below its start.
\<close>

definition table_mount :: "vfs_state \<Rightarrow> addr \<Rightarrow> bool" where
  "table_mount v a \<longleftrightarrow> (\<exists>n. nodes v a = Some n \<and> n_mount n \<in> snd ` set (mount_table v))"

lemma lookup_parent:
  assumes "ramfs_inv v ext" "ramfs_lookup v d name = Inr c"
  obtains n nd where "nodes v c = Some n" "n_parent n = Some d" "n_name n = name"
    "nodes v d = Some nd" "n_type nd = CB_NODE_DIRECTORY" "n_mount n = n_mount nd"
proof -
  obtain K where K: "fs_inv v K ext" using assms(1) by (auto simp: ramfs_inv_def)
  have c: "c \<in> set (K d)" "nname (nodes v) c = name" using ramfs_lookup_Inr [OF K] assms(2) by auto
  then have p: "nparent (nodes v) c = Some d" using tree_parent [OF fs_invD(1) [OF K]] by blast
  then obtain n where n: "nodes v c = Some n" "n_parent n = Some d" using nparent_SomeD by blast
  obtain nd where nd: "nodes v d = Some nd" "n_type nd = CB_NODE_DIRECTORY"
    using tree_parent_dir [OF fs_invD(1) [OF K] p] by blast
  have "n_mount n = n_mount nd" using tree_child_ok [OF fs_invD(1) [OF K] n nd(1)] by blast
  then show ?thesis using that n nd c by (simp add: nname_def)
qed

lemma resolve_names_end:
  assumes inv: "ramfs_inv v ext" and mo: "mounts_ok v" and run: "resolve_names v names (Some d) = Inr a"
  shows "(names = [] \<and> a = d \<or> (\<exists>n p. nodes v a = Some n \<and> n_parent n = Some p) \<or> is_mount_node v a) \<and>
    ((a, d) \<in> (parent_rel (nodes v))\<^sup>* \<or> table_mount v a)"
  using run
proof (induction names arbitrary: d)
  case Nil
  then show ?case by simp
next
  case (Cons name names)
  then obtain c where c: "ramfs_lookup v d name = Inr c" and rest: "resolve_names v names (cross_down v c) = Inr a"
    by (auto split: sum.splits)
  obtain n nd where n: "nodes v c = Some n" "n_parent n = Some d" "nodes v d = Some nd" "n_mount n = n_mount nd"
    by (rule lookup_parent [OF inv c])
  obtain b where b: "cross_down v c = Some b" using cross_down_some [OF mo] by blast
  note IH = Cons.IH [OF rest [unfolded b]]
  show ?case
  proof (rule cross_down_cases [OF mo b])
    assume "b = c"
    moreover have "(c, d) \<in> parent_rel (nodes v)" using n by (simp add: parent_rel_def nparent_def)
    ultimately show ?thesis using IH n by (auto intro: rtrancl_into_rtrancl)
  next
    fix m nb assume m: "(c, m) \<in> set (mount_table v)" "ramfs_mount_root v m = Some b" "nodes v b = Some nb"
      "n_mount nb = m" "n_parent nb = None"
    then have tb: "table_mount v b" and ib: "is_mount_node v b"
      by (force simp: table_mount_def is_mount_node_def list_ex_iff)+
    have "table_mount v a" if "(a, b) \<in> (parent_rel (nodes v))\<^sup>*"
      using that
    proof (induction rule: converse_rtrancl_induct)
      case base
      then show ?case using tb .
    next
      case (step y z)
      obtain K where K: "fs_inv v K ext" using inv by (auto simp: ramfs_inv_def)
      obtain ny where ny: "nodes v y = Some ny" "n_parent ny = Some z"
        using step(1) nparent_SomeD [of "nodes v" y z] by (auto simp: parent_rel_def)
      obtain nz where nz: "nodes v z = Some nz" "n_mount nz \<in> snd ` set (mount_table v)"
        using step(3) by (auto simp: table_mount_def)
      then show ?case
        using tree_child_ok [OF fs_invD(1) [OF K] ny nz(1)] ny by (auto simp: table_mount_def)
    qed
    then show ?thesis using IH ib by auto
  qed
qed

lemma resolve_names_live:
  assumes inv: "ramfs_inv v ext" and mo: "mounts_ok v" and run: "resolve_names v names (Some d) = Inr a"
    and d: "d \<in> dom (nodes v)"
  shows "a \<in> dom (nodes v)"
  using run d
proof (induction names arbitrary: d)
  case (Cons name names)
  then obtain c where c: "ramfs_lookup v d name = Inr c" and rest: "resolve_names v names (cross_down v c) = Inr a"
    by (auto split: sum.splits)
  obtain n where n: "nodes v c = Some n" by (rule lookup_parent [OF inv c])
  obtain b where b: "cross_down v c = Some b" using cross_down_some [OF mo] by blast
  have "b \<in> dom (nodes v)" by (rule cross_down_cases [OF mo b]) (use n in auto)
  then show ?case using Cons.IH rest b by simp
qed simp

section \<open>Rename\<close>

lemma rename_walk_None:
  "rename_walk v old room (Some w) = None \<Longrightarrow> (w, old) \<notin> (parent_rel (nodes v))\<^sup>*"
proof (induction room arbitrary: w)
  case (Suc room)
  have wo: "w \<noteq> old" using Suc.prems by auto
  have rp: "ramfs_parent v w = nparent (nodes v) w" by (simp add: ramfs_parent_def nparent_def)
  have rest: "rename_walk v old room (nparent (nodes v) w) = None" using Suc.prems wo rp by simp
  show ?case
  proof
    assume "(w, old) \<in> (parent_rel (nodes v))\<^sup>*"
    then obtain y where "(w, y) \<in> parent_rel (nodes v)" "(y, old) \<in> (parent_rel (nodes v))\<^sup>*"
      using wo by (auto elim: converse_rtranclE)
    then show False using Suc.IH [of y] rest by (simp add: parent_rel_def)
  qed
qed (simp split: if_splits)

lemma after_last_slash_valid: "after_last_slash s \<noteq> [] \<Longrightarrow> valid_name (after_last_slash s)"
  by (auto simp: after_last_slash_def valid_name_def dest: set_takeWhileD)

lemma resolve_parent_valid: "resolve_parent v root s = Inr (p, name) \<Longrightarrow> valid_name name"
  using after_last_slash_valid by (auto simp: resolve_parent_def Let_def split: if_splits sum.splits)

lemma dir_map_host:
  assumes "ramfs_inv v ext" "alloc_seq (v_host v) \<le> alloc_seq h"
  shows "dir_map (v\<lparr>v_host := h\<rparr>) = dir_map v"
proof -
  obtain K where K: "fs_inv v K ext" using assms(1) by (auto simp: ramfs_inv_def)
  show ?thesis
    by (rule map_eqI) (use dir_map_iff [OF K] dir_map_iff [OF fs_inv_host [OF K assms(2)]] in auto)
qed

lemma rename_replaced:
  assumes inv: "ramfs_inv v ext" and x: "dir_map v (d, name) = Some x" "\<not> is_directory v x"
    and run: "ramfs_unlink v x = (r, v')"
  shows "r = None" "ramfs_inv v' ext" "dir_map v' = (dir_map v)((d, name) := None)"
    and "\<And>y. y \<noteq> x \<Longrightarrow> map_option key (nodes v' y) = map_option key (nodes v y)"
    and "parent_rel (nodes v') \<subseteq> parent_rel (nodes v)"
proof -
  obtain K where K: "fs_inv v K ext" using inv by (auto simp: ramfs_inv_def)
  have "x \<in> set (K d)" using dir_map_iff [OF K] x by blast
  then obtain n where n: "nodes v x = Some n" using tree_kids_dom [OF fs_invD(1) [OF K]] by blast
  have pn: "n_parent n = Some d" "n_name n = name" using dir_map_parent [OF K n, of d name] x by auto
  have nd: "n_type n \<noteq> CB_NODE_DIRECTORY" using x n by (simp add: is_directory_def)
  have run': "detach_and_release v x n = (r, v')" using run n nd by (simp add: ramfs_unlink_def)
  note D = detach_dir_map [OF K n pn(1) childless(2) [OF K n nd] run']
  show "r = None" "ramfs_inv v' ext" "dir_map v' = (dir_map v)((d, name) := None)"
    and keys: "\<And>y. y \<noteq> x \<Longrightarrow> map_option key (nodes v' y) = map_option key (nodes v y)"
    using D pn by (auto simp: ramfs_inv_def)
  have "nparent (nodes v') y = nparent (nodes v) y" if "y \<noteq> x" for y
    using keys [OF that] by (cases "nodes v' y"; cases "nodes v y") (auto simp: nparent_def key_def)
  then show "parent_rel (nodes v') \<subseteq> parent_rel (nodes v)"
    using D(6) by (auto simp: parent_rel_def) (metis option.distinct(1))
qed

lemma key_SomeD: "map_option key m' = map_option key (Some n) \<Longrightarrow> \<exists>n'. m' = Some n' \<and> key n' = key n"
  by (cases m') auto

lemma rename_target_cases:
  assumes "rename_target v a d name = Inr existing"
  shows "is_directory v d" "dir_map v (d, name) = existing"
    and "existing = Some x \<Longrightarrow> x \<noteq> a \<Longrightarrow> \<not> is_directory v x"
  using assms
  by (auto simp: rename_target_def dir_map_def is_directory_def ramfs_lookup_def split: sum.splits if_splits option.splits)

lemma rename_nodes_stages:
  assumes run: "cb_vfs_rename_nodes v a d name = (r, v')" and a: "nodes v a = Some n"
  obtains (refused) e where "r = Some e" "v' = v"
  | (same) "r = None" "v' = v" "rename_target v a d name = Inr (Some a)"
  | (no_memory) h where "r = Some CB_ENOMEM" "v' = v\<lparr>v_host := h\<rparr>" "alloc_seq (v_host v) \<le> alloc_seq h"
  | (move) nd h existing r1 v1 where "nodes v d = Some nd" "n_mount nd = n_mount n"
      "rename_walk v a MAX_DEPTH (Some d) = None" "rename_target v a d name = Inr existing" "existing \<noteq> Some a"
      "alloc_seq (v_host v) \<le> alloc_seq h"
      "(r1, v1) = (case existing of None \<Rightarrow> (None, v\<lparr>v_host := h\<rparr>) | Some x \<Rightarrow> ramfs_unlink (v\<lparr>v_host := h\<rparr>) x)"
      "(r, v') = (case r1 of Some e \<Rightarrow> (Some e, v1) | None \<Rightarrow> ramfs_rename v1 a d name)"
proof (cases "\<exists>nd existing. nodes v d = Some nd \<and> n_mount nd = n_mount n \<and> \<not> is_mount_node v a \<and>
    rename_walk v a MAX_DEPTH (Some d) = None \<and> rename_target v a d name = Inr existing")
  case False
  then have "r \<noteq> None \<and> v' = v"
    using run a by (auto simp: cb_vfs_rename_nodes_def split: option.splits if_splits sum.splits) metis
  then show ?thesis using refused by blast
next
  case True
  then obtain nd existing where t: "nodes v d = Some nd" "n_mount nd = n_mount n" "\<not> is_mount_node v a"
    "rename_walk v a MAX_DEPTH (Some d) = None" "rename_target v a d name = Inr existing" by blast
  obtain ow h where dup: "cb_string_duplicate (v_host v) name = (ow, h)" by fastforce
  have h: "alloc_seq (v_host v) \<le> alloc_seq h" using cb_string_duplicate_seq [of "v_host v" name] dup by simp
  have run': "(r, v') = (if existing = Some a then (None, v)
      else case ow of None \<Rightarrow> (Some CB_ENOMEM, v\<lparr>v_host := h\<rparr>)
         | Some owned \<Rightarrow> (let (r, v2) = (case existing of None \<Rightarrow> (None, v\<lparr>v_host := h\<rparr>) | Some x \<Rightarrow> ramfs_unlink (v\<lparr>v_host := h\<rparr>) x)
             in case r of Some e \<Rightarrow> (Some e, v2) | None \<Rightarrow> ramfs_rename v2 a d owned))"
    using run a t dup
    by (cases "existing = Some a"; cases ow) (simp_all add: cb_vfs_rename_nodes_def Let_def)
  show ?thesis
  proof (cases "existing = Some a")
    case True
    then show ?thesis using same run' t by simp
  next
    case False
    show ?thesis
    proof (cases ow)
      case None
      then show ?thesis using no_memory run' False h by simp
    next
      case (Some owned)
      then have "owned = name" using dup cb_string_duplicate_Some by blast
      obtain r1 v1 where "(r1, v1) = (case existing of None \<Rightarrow> (None, v\<lparr>v_host := h\<rparr>) | Some x \<Rightarrow> ramfs_unlink (v\<lparr>v_host := h\<rparr>) x)"
        by (metis prod.exhaust)
      then show ?thesis
        using move [OF t(1,2,4,5) False h] run' False Some \<open>owned = name\<close> by (auto simp: Let_def split: prod.splits)
    qed
  qed
qed

lemma rename_move:
  assumes inv: "ramfs_inv v ext" and name: "valid_name name"
    and a: "nodes v a = Some n" "n_parent n = Some p"
    and d: "nodes v d = Some nd" "n_mount nd = n_mount n" and below: "(d, a) \<notin> (parent_rel (nodes v))\<^sup>*"
    and t: "rename_target v a d name = Inr existing" "existing \<noteq> Some a"
    and h: "alloc_seq (v_host v) \<le> alloc_seq h"
    and r1: "(r1, v1) = (case existing of None \<Rightarrow> (None, v\<lparr>v_host := h\<rparr>) | Some x \<Rightarrow> ramfs_unlink (v\<lparr>v_host := h\<rparr>) x)"
    and r: "(r, v') = (case r1 of Some e \<Rightarrow> (Some e, v1) | None \<Rightarrow> ramfs_rename v1 a d name)"
  shows "r = None" "ramfs_inv v' ext" "dir_map v' = (dir_map v)((p, n_name n) := None, (d, name) \<mapsto> a)"
proof -
  let ?v = "v\<lparr>v_host := h\<rparr>"
  have inv1: "ramfs_inv ?v ext" by (rule ramfs_inv_host [OF inv h])
  have dm: "dir_map ?v = dir_map v" by (rule dir_map_host [OF inv h])
  have dir: "n_type nd = CB_NODE_DIRECTORY" using rename_target_cases(1) [OF t(1)] d by (simp add: is_directory_def)
  have ex: "dir_map v (d, name) = existing" by (rule rename_target_cases(2) [OF t(1)])
  have s: "r1 = None \<and> ramfs_inv v1 ext \<and> dir_map v1 = (dir_map v)((d, name) := None) \<and>
      parent_rel (nodes v1) \<subseteq> parent_rel (nodes v) \<and>
      (\<exists>n1. nodes v1 a = Some n1 \<and> key n1 = key n) \<and> (\<exists>nd1. nodes v1 d = Some nd1 \<and> key nd1 = key nd)"
  proof (cases existing)
    case None
    then show ?thesis using r1 inv1 dm ex a d by (auto simp: fun_upd_idem)
  next
    case (Some x)
    have xd: "\<not> is_directory v x" using rename_target_cases(3) [OF t(1)] Some t(2) by simp
    then have xa: "x \<noteq> a" "x \<noteq> d" using t(2) Some d dir by (auto simp: is_directory_def)
    have "ramfs_unlink ?v x = (r1, v1)" using r1 Some by simp
    note R = rename_replaced [OF inv1 _ _ this, of d name]
    have "dir_map ?v (d, name) = Some x" "\<not> is_directory ?v x" using dm ex Some xd by (simp_all add: is_directory_def)
    note R = R [OF this]
    have "\<exists>n1. nodes v1 a = Some n1 \<and> key n1 = key n" "\<exists>nd1. nodes v1 d = Some nd1 \<and> key nd1 = key nd"
      using R(4) [of a] R(4) [of d] xa a d key_SomeD by fastforce+
    then show ?thesis using R dm by simp
  qed
  then obtain n1 nd1 where n1: "nodes v1 a = Some n1" "key n1 = key n" and nd1: "nodes v1 d = Some nd1" "key nd1 = key nd"
    by blast
  have k: "n_parent n1 = Some p" "n_name n1 = n_name n" "n_mount n1 = n_mount n"
    "n_type nd1 = CB_NODE_DIRECTORY" "n_mount nd1 = n_mount n1"
    using n1(2) nd1(2) a d dir by (auto simp: key_def)
  have below1: "(d, a) \<notin> (parent_rel (nodes v1))\<^sup>*" using s below rtrancl_mono by blast
  have run: "ramfs_rename v1 a d name = (r, v')" using r s by simp
  have "dir_map v1 (d, name) = None \<or> dir_map v1 (d, name) = Some a" using s by simp
  note M = ramfs_rename_inv [OF _ n1(1) k(1) nd1(1) k(4,5) below1 name this run, of ext]
  have "(dir_map v)((d, name) := None, (p, n_name n) := None, (d, name) \<mapsto> a) =
      (dir_map v)((p, n_name n) := None, (d, name) \<mapsto> a)" by (auto simp: fun_eq_iff)
  then show "r = None" "ramfs_inv v' ext" "dir_map v' = (dir_map v)((p, n_name n) := None, (d, name) \<mapsto> a)"
    using M s k(2) by auto
qed

lemma rename_nodes_atomic:
  assumes inv: "ramfs_inv v ext" and name: "valid_name name"
    and a: "nodes v a = Some n" and listed: "n_parent n = Some p \<or> (d, a) \<in> (parent_rel (nodes v))\<^sup>*"
    and run: "cb_vfs_rename_nodes v a d name = (r, v')"
  shows "ramfs_inv v' ext \<and>
    (case r of
       Some e \<Rightarrow> nodes v' = nodes v
     | None \<Rightarrow> v' = v \<and> dir_map v (d, name) = Some a \<or>
               n_parent n = Some p \<and> dir_map v' = (dir_map v)((p, n_name n) := None, (d, name) \<mapsto> a))"
  using run a
proof (cases rule: rename_nodes_stages)
  case refused
  then show ?thesis using inv by simp
next
  case same
  then show ?thesis using inv rename_target_cases(2) by simp
next
  case no_memory
  then show ?thesis using ramfs_inv_host [OF inv] by simp
next
  case (move nd h existing r1 v1)
  have below: "(d, a) \<notin> (parent_rel (nodes v))\<^sup>*" using rename_walk_None [OF move(3)] .
  then have p: "n_parent n = Some p" using listed by blast
  show ?thesis using rename_move [OF inv name a p move(1,2) below move(4-8)] p by simp
qed

lemma rename_paths_listed:
  assumes inv: "ramfs_inv v ext" and mo: "mounts_ok v"
    and a: "cb_vfs_lookup_node v (vfs_root v) cwd old = Inr a" "nodes v a = Some n" "\<not> is_mount_node v a"
    and d: "resolve_parent v (vfs_root v) text = Inr (d, name)" "nodes v d = Some nd" "n_mount nd = n_mount n"
  shows "(\<exists>p. n_parent n = Some p) \<or> (d, a) \<in> (parent_rel (nodes v))\<^sup>*"
proof -
  obtain r m nr where r: "vfs_root v = Some r" "root_mount v = Some m" "nodes v r = Some nr" "n_mount nr = m"
    using mo by (auto simp: mounts_ok_def)
  obtain t where "resolve_normalized v (Some r) t = Inr a"
    using a(1) r(1) by (auto simp: cb_vfs_lookup_node_def split: sum.splits)
  then have "(a = r \<or> (\<exists>n p. nodes v a = Some n \<and> n_parent n = Some p))"
    using resolve_names_end [OF inv mo, of _ r a] a(3) by (auto simp: resolve_normalized_def)
  moreover have "(d, r) \<in> (parent_rel (nodes v))\<^sup>*" if "a = r"
  proof -
    obtain t2 where "resolve_normalized v (Some r) t2 = Inr d"
      using d(1) r(1) by (auto simp: resolve_parent_def Let_def split: if_splits sum.splits)
    then have "(d, r) \<in> (parent_rel (nodes v))\<^sup>* \<or> table_mount v d"
      using resolve_names_end [OF inv mo, of _ r d] by (auto simp: resolve_normalized_def)
    moreover have "\<not> table_mount v d"
      using d that a r mo by (auto simp: table_mount_def mounts_ok_def mount_entry_ok_def)
    ultimately show ?thesis by blast
  qed
  ultimately show ?thesis using a(2) by auto
qed

text \<open>
  C22. Renaming by path is all or nothing. It either reports an error, and then no node has changed
  (neither name is lost, the target is not replaced), or it succeeds: the old name is gone, the new
  name leads to the node that had the old one, and no other name is affected; or both paths named
  the same entry and nothing had to be done. A directory is never moved into itself, so the tree
  stays a tree.
\<close>

theorem cb_vfs_rename_paths_atomic:
  assumes inv: "ramfs_inv v ext" and mo: "mounts_ok v"
    and run: "cb_vfs_rename_paths v (vfs_root v) cwd old new = (r, v')"
  shows "ramfs_inv v' ext \<and>
    (case r of
       Some e \<Rightarrow> nodes v' = nodes v
     | None \<Rightarrow> \<exists>a n d name text.
         cb_vfs_lookup_node v (vfs_root v) cwd old = Inr a \<and> nodes v a = Some n \<and>
         normalize_for_task v (vfs_root v) cwd new = Inr text \<and>
         resolve_parent v (vfs_root v) text = Inr (d, name) \<and>
         (v' = v \<and> dir_map v (d, name) = Some a \<or>
          (\<exists>p. n_parent n = Some p \<and> dir_map v' = (dir_map v)((p, n_name n) := None, (d, name) \<mapsto> a))))"
proof (cases "\<exists>a text d name. cb_vfs_lookup_node v (vfs_root v) cwd old = Inr a \<and>
    normalize_for_task v (vfs_root v) cwd new = Inr text \<and> resolve_parent v (vfs_root v) text = Inr (d, name)")
  case False
  then have "r \<noteq> None \<and> v' = v"
    using run by (auto simp: cb_vfs_rename_paths_def split: sum.splits)
  then show ?thesis using inv by auto
next
  case True
  then obtain a tx d name where t: "cb_vfs_lookup_node v (vfs_root v) cwd old = Inr a"
    "normalize_for_task v (vfs_root v) cwd new = Inr tx" "resolve_parent v (vfs_root v) tx = Inr (d, name)"
    by blast
  have run': "cb_vfs_rename_nodes v a d name = (r, v')" using run t by (simp add: cb_vfs_rename_paths_def)
  show ?thesis
  proof (cases "\<exists>n nd. nodes v a = Some n \<and> nodes v d = Some nd \<and> n_mount nd = n_mount n \<and> \<not> is_mount_node v a")
    case False
    then have "r \<noteq> None \<and> v' = v"
      using run' by (auto simp: cb_vfs_rename_nodes_def split: option.splits if_splits)
    then show ?thesis using inv by auto
  next
    case True
    then obtain n nd where n: "nodes v a = Some n" "nodes v d = Some nd" "n_mount nd = n_mount n" "\<not> is_mount_node v a"
      by blast
    obtain p where "n_parent n = Some p \<or> (d, a) \<in> (parent_rel (nodes v))\<^sup>*"
      using rename_paths_listed [OF inv mo t(1) n(1,4) t(3) n(2,3)] by blast
    from rename_nodes_atomic [OF inv resolve_parent_valid [OF t(3)] n(1) this run']
    show ?thesis using t n(1) by (auto split: option.splits)
  qed
qed

section \<open>Working directory\<close>

text \<open>
  No directory on the way from the working directory to the root is covered by a mount. A mount
  can be placed over a directory some task is already in; that task's path then leads elsewhere.
\<close>

fun uncovered :: "vfs_state \<Rightarrow> addr option \<Rightarrow> nat \<Rightarrow> addr option \<Rightarrow> bool" where
  "uncovered v root 0 node = True"
| "uncovered v root (Suc room) node =
     (node = root \<or>
      (case node of
         None \<Rightarrow> True
       | Some a \<Rightarrow> a \<notin> set (map fst (mount_table v)) \<and> uncovered v root room (ramfs_parent v (cross_up v a))))"

lemma cross_up_down:
  assumes mo: "mounts_ok v" and a: "a \<notin> set (map fst (mount_table v))"
  shows "cross_down v (cross_up v a) = Some a" "vfs_root v \<noteq> Some a \<Longrightarrow> vfs_root v \<noteq> Some (cross_up v a)"
proof -
  have "cross_down v (cross_up v a) = Some a \<and> (vfs_root v \<noteq> Some a \<longrightarrow> vfs_root v \<noteq> Some (cross_up v a))"
  proof (cases "List.find (\<lambda>(mp, m). ramfs_mount_root v m = Some a) (mount_table v)")
    case None
    then have "cross_up v a = a" by (simp add: cross_up_def)
    moreover have "List.find (\<lambda>(mp, m). mp = a) (mount_table v) = None"
      using a by (force simp: find_None_iff)
    ultimately show ?thesis by (simp add: cross_down_def)
  next
    case (Some e)
    then obtain mp m where e: "e = (mp, m)" "(mp, m) \<in> set (mount_table v)" "ramfs_mount_root v m = Some a"
      using find_SomeD [OF Some] by (cases e) auto
    have up: "cross_up v a = mp" using Some e by (simp add: cross_up_def)
    obtain e2 where e2: "List.find (\<lambda>(mp', m). mp' = mp) (mount_table v) = Some e2"
      using e(2) by (cases "List.find (\<lambda>(mp', m). mp' = mp) (mount_table v)") (auto simp: find_None_iff)
    then obtain m' where m': "e2 = (mp, m')" "(mp, m') \<in> set (mount_table v)"
      using find_SomeD [OF e2] by (cases e2) auto
    have "distinct (map fst (mount_table v))" using mo by (simp add: mounts_ok_def)
    then have "e2 = (mp, m)" using eq_key_imp_eq_value [OF _ m'(2) e(2)] m'(1) by simp
    moreover have "vfs_root v \<noteq> Some mp" using mo e(2) by (auto simp: mounts_ok_def mount_entry_ok_def)
    ultimately show ?thesis using up e2 e(3) by (simp add: cross_down_def)
  qed
  then show "cross_down v (cross_up v a) = Some a" "vfs_root v \<noteq> Some a \<Longrightarrow> vfs_root v \<noteq> Some (cross_up v a)"
    by auto
qed

lemma resolve_names_snoc:
  "resolve_names v xs node = Inr d \<Longrightarrow> resolve_names v (xs @ [x]) node =
     (case ramfs_lookup v d x of
        Inl e \<Rightarrow> Inl e
      | Inr c \<Rightarrow> (case cross_down v c of None \<Rightarrow> Inl Dangling | Some a \<Rightarrow> Inr a))"
  by (induction xs arbitrary: node) (auto split: option.splits sum.splits)

lemma lookup_of_parent:
  assumes "ramfs_inv v ext" "nodes v b = Some n" "n_parent n = Some p"
  shows "ramfs_lookup v p (n_name n) = Inr b" "valid_name (n_name n)"
proof -
  obtain K where K: "fs_inv v K ext" using assms(1) by (auto simp: ramfs_inv_def)
  show "ramfs_lookup v p (n_name n) = Inr b"
    using dir_map_parent [OF K assms(2), of p "n_name n"] assms(3) by (auto simp: dir_map_def split: sum.splits)
  have "nparent (nodes v) b = Some p" using assms by (simp add: nparent_def)
  then obtain m where "nodes v p = Some m" using tree_parent_dir [OF fs_invD(1) [OF K]] by blast
  then show "valid_name (n_name n)" using tree_child_ok [OF fs_invD(1) [OF K] assms(2,3)] by blast
qed

lemma cwd_walk_resolves:
  assumes inv: "ramfs_inv v ext" and mo: "mounts_ok v" and root: "vfs_root v = Some r"
  shows "cwd_walk v (Some r) room node parts = Inr parts' \<Longrightarrow> uncovered v (Some r) room node \<Longrightarrow>
    \<exists>ps c. parts' = ps @ parts \<and> node = Some c \<and> resolve_names v (map (nname (nodes v)) ps) (Some r) = Inr c \<and>
      (\<forall>b \<in> set ps. b \<in> dom (nodes v) \<and> valid_name (nname (nodes v) b))"
proof (induction room arbitrary: node parts)
  case 0
  then show ?case by (auto split: if_splits)
next
  case (Suc room)
  show ?case
  proof (cases "node = Some r")
    case True
    then show ?thesis using Suc.prems by auto
  next
    case False
    then obtain a where a: "node = Some a" using Suc.prems by (auto split: option.splits)
    let ?b = "cross_up v a"
    have unc: "a \<notin> set (map fst (mount_table v))" "uncovered v (Some r) room (ramfs_parent v ?b)"
      using Suc.prems(2) False a by auto
    note cu = cross_up_down [OF mo unc(1)]
    have br: "?b \<noteq> r" using cu(2) root False a by auto
    have "cwd_walk v (Some r) room (ramfs_parent v ?b) (?b # parts) = Inr parts'"
      using Suc.prems(1) False a br by (simp add: Let_def)
    from Suc.IH [OF this unc(2)] obtain ps p where ps: "parts' = ps @ ?b # parts" "ramfs_parent v ?b = Some p"
      "resolve_names v (map (nname (nodes v)) ps) (Some r) = Inr p"
      "\<forall>b \<in> set ps. b \<in> dom (nodes v) \<and> valid_name (nname (nodes v) b)" by blast
    obtain n where n: "nodes v ?b = Some n" "n_parent n = Some p"
      using ps(2) by (auto simp: ramfs_parent_def split: option.splits)
    have nm: "nname (nodes v) ?b = n_name n" using n by (simp add: nname_def)
    have "resolve_names v (map (nname (nodes v)) (ps @ [?b])) (Some r) = Inr a"
      using resolve_names_snoc [OF ps(3), of "n_name n"] lookup_of_parent(1) [OF inv n] cu(1) nm by simp
    then show ?thesis
      using ps(1,4) a lookup_of_parent(2) [OF inv n] n nm
      by (intro exI [of _ "ps @ [?b]"] exI [of _ a]) auto
  qed
qed

lemma cwd_copy_text:
  assumes "cwd_copy v sz parts buf = Inr out" "\<forall>b \<in> set parts. b \<in> dom (nodes v)"
  shows "out = buf @ join_names (map (nname (nodes v)) parts)"
    and "parts \<noteq> [] \<Longrightarrow> length out < sz"
  using assms
proof (induction parts arbitrary: buf)
  case (Cons b parts)
  { case 1
    then obtain n where n: "nodes v b = Some n" by auto
    then show ?case using 1 Cons.IH(1) [of "buf @ n_name n @ (if parts \<noteq> [] then [slash] else [])"]
      by (cases parts) (auto simp: ramfs_name_def nname_def split: if_splits)
  next
    case 2
    then obtain n where n: "nodes v b = Some n" by auto
    then show ?case using 2 Cons.IH(2) [of "buf @ n_name n @ (if parts \<noteq> [] then [slash] else [])"]
      by (cases parts) (auto simp: ramfs_name_def nname_def split: if_splits) }
qed auto

text \<open>
  C34. The working directory's text leads back to it: whenever \<^verbatim>\<open>getcwd\<close> returns a path, that path fits
  the buffer, is in canonical form and resolves, across all mounts, to exactly the task's working
  directory, provided no directory on it was covered by a mount after the task went there.
\<close>

theorem getcwd_resolves_to_cwd:
  assumes inv: "ramfs_inv v ext" and mo: "mounts_ok v" and size: "2 \<le> sz"
    and unc: "uncovered v (vfs_root v) MAX_DEPTH (Some c)"
    and run: "cb_vfs_getcwd_path v (vfs_root v) (Some c) sz = Inr out"
  shows "resolve_normalized v (vfs_root v) out = Inr c \<and> length out < sz \<and>
    out = path_text (components out) \<and> (\<forall>name \<in> set (components out). valid_name name)"
proof -
  obtain r where r: "vfs_root v = Some r" using mo by (auto simp: mounts_ok_def)
  obtain parts where p: "cwd_walk v (Some r) MAX_DEPTH (Some c) [] = Inr parts" "cwd_copy v sz parts [slash] = Inr out"
    using run r size by (auto simp: cb_vfs_getcwd_path_def cwd_string_def split: sum.splits if_splits)
  let ?names = "map (nname (nodes v)) parts"
  have res: "resolve_names v ?names (Some r) = Inr c"
    "\<forall>b \<in> set parts. b \<in> dom (nodes v) \<and> valid_name (nname (nodes v) b)"
    using cwd_walk_resolves [OF inv mo r p(1)] unc r by auto
  have out: "out = path_text ?names"
    using cwd_copy_text(1) [OF p(2)] res(2) by (simp add: path_text_def)
  have "length out < sz" using cwd_copy_text(2) [OF p(2)] res(2) out size by (cases parts) (auto simp: path_text_def)
  moreover have "components out = ?names"
    unfolding out by (rule components_path_text) (use res(2) in \<open>auto simp: valid_name_def\<close>)
  ultimately show ?thesis using res out r by (auto simp: resolve_normalized_def)
qed

section \<open>Teardown\<close>

text \<open>The references the mount table and the root mount hold on nodes.\<close>

definition mount_roots :: "vfs_state \<Rightarrow> addr list" where
  "mount_roots v = map (\<lambda>m. the (ramfs_mount_root v m)) (map snd (mount_table v) @ [the (root_mount v)])"

definition vfs_refs :: "vfs_state \<Rightarrow> addr \<Rightarrow> nat" where
  "vfs_refs v a = count_list (map fst (mount_table v)) a + count_list (mount_roots v) a"

lemma release_mount_objs: "ramfs_inv v ext \<Longrightarrow> ext c > 0 \<Longrightarrow> mount_objs (ramfs_node_release v c) = mount_objs v"
proof -
  assume "ramfs_inv v ext" "ext c > 0"
  then obtain K where K: "fs_inv v K ext" by (auto simp: ramfs_inv_def)
  have "ramfs_node_release v c = v\<lparr>nodes := nodes (ramfs_node_release v c),
       program_count := program_count (ramfs_node_release v c)\<rparr>"
    by (rule ramfs_node_release_inv [OF K \<open>ext c > 0\<close>])
  then have "mount_objs (ramfs_node_release v c) = mount_objs (v\<lparr>nodes := nodes (ramfs_node_release v c),
       program_count := program_count (ramfs_node_release v c)\<rparr>)" by (rule arg_cong)
  then show ?thesis by simp
qed

lemma release_list_inv:
  "\<lbrakk>ramfs_inv v ext; \<And>a. count_list xs a \<le> ext a\<rbrakk> \<Longrightarrow>
   ramfs_inv (foldl ramfs_node_release v xs) (\<lambda>a. ext a - count_list xs a) \<and>
   mount_objs (foldl ramfs_node_release v xs) = mount_objs v"
proof (induction xs arbitrary: v ext)
  case (Cons x xs)
  have pos: "ext x > 0" using Cons.prems(2) [of x] by simp
  have le: "count_list xs a \<le> (ext(x := ext x - 1)) a" for a
    using Cons.prems(2) [of a] by (auto split: if_splits)
  have "(\<lambda>a. (ext(x := ext x - 1)) a - count_list xs a) = (\<lambda>a. ext a - count_list (x # xs) a)"
    by (auto simp: fun_eq_iff)
  then show ?case
    using Cons.IH [OF ramfs_release_inv(1) [OF Cons.prems(1) pos] le] release_mount_objs [OF Cons.prems(1) pos] by simp
qed simp

lemma mount_destroy_objs:
  assumes "ramfs_inv v ext" "ramfs_mount_root v m = Some r" "ext r > 0"
  shows "mount_objs (ramfs_mount_destroy v m) = (mount_objs v)(m := None)"
  using release_mount_objs [OF assms(1,3)] assms(2) by (simp add: ramfs_mount_destroy_def Let_def)

lemma destroy_list_inv:
  "\<lbrakk>ramfs_inv v ext; distinct ms; \<And>m. m \<in> set ms \<Longrightarrow> ramfs_mount_root v m = Some (f m);
    \<And>a. count_list (map f ms) a \<le> ext a\<rbrakk> \<Longrightarrow>
   ramfs_inv (foldl ramfs_mount_destroy v ms) (\<lambda>a. ext a - count_list (map f ms) a) \<and>
   (\<forall>m. m \<notin> set ms \<longrightarrow> mount_objs (foldl ramfs_mount_destroy v ms) m = mount_objs v m)"
proof (induction ms arbitrary: v ext)
  case (Cons x ms)
  have root: "ramfs_mount_root v x = Some (f x)" using Cons.prems(3) by simp
  have pos: "ext (f x) > 0" using Cons.prems(4) [of "f x"] by simp
  let ?v = "ramfs_mount_destroy v x" and ?e = "ext(f x := ext (f x) - 1)"
  have inv: "ramfs_inv ?v ?e" using ramfs_mount_destroy_inv [OF Cons.prems(1), of x] root pos by simp
  have objs: "mount_objs ?v = (mount_objs v)(x := None)" by (rule mount_destroy_objs [OF Cons.prems(1) root pos])
  have roots: "ramfs_mount_root ?v m = Some (f m)" if "m \<in> set ms" for m
    using Cons.prems(2) Cons.prems(3) [of m] that objs by (auto simp: ramfs_mount_root_def)
  have le: "count_list (map f ms) a \<le> ?e a" for a using Cons.prems(4) [of a] by (auto split: if_splits)
  have "(\<lambda>a. ?e a - count_list (map f ms) a) = (\<lambda>a. ext a - count_list (map f (x # ms)) a)"
    by (auto simp: fun_eq_iff)
  then show ?case using Cons.IH [OF inv _ roots le] Cons.prems(2) objs by simp
qed simp

lemma count_list_rev_map: "count_list (map f (rev xs)) a = count_list (map f xs) a"
  by (simp add: rev_map [symmetric])

text \<open>
  C35. Tearing the file system down frees it completely: when the mounts hold the only references
  left (no open file, directory handle or working directory), \<^verbatim>\<open>cb_vfs_destroy\<close> releases the mount
  points, destroys the mounts in reverse order and then the root mount, and no node is left
  allocated.
\<close>

theorem cb_vfs_destroy_frees_all:
  assumes inv: "ramfs_inv v (vfs_refs v)" and mo: "mounts_ok v"
  shows "nodes (cb_vfs_destroy v) = Map.empty"
proof -
  let ?mps = "map fst (mount_table v)" and ?ms = "map snd (mount_table v)"
  let ?f = "\<lambda>m. the (ramfs_mount_root v m)"
  obtain m r where m: "root_mount v = Some m" "ramfs_mount_root v m = Some r"
    using mo by (auto simp: mounts_ok_def)
  have mnot: "m \<notin> set ?ms" using mo m by (force simp: mounts_ok_def mount_entry_ok_def)
  have refs: "vfs_refs v a = count_list ?mps a + (count_list (map ?f ?ms) a + (if a = r then 1 else 0))" for a
    using m by (simp add: vfs_refs_def mount_roots_def)
  define v1 where "v1 = foldl ramfs_node_release v ?mps"
  define e1 where "e1 = (\<lambda>a. count_list (map ?f ?ms) a + (if a = r then 1 else (0 :: nat)))"
  have s1: "ramfs_inv v1 (\<lambda>a. vfs_refs v a - count_list ?mps a) \<and> mount_objs v1 = mount_objs v"
    unfolding v1_def by (rule release_list_inv [OF inv]) (simp add: refs)
  have "(\<lambda>a. vfs_refs v a - count_list ?mps a) = e1" by (auto simp: refs e1_def fun_eq_iff)
  then have inv1: "ramfs_inv v1 e1" and ob1: "mount_objs v1 = mount_objs v" using s1 by auto
  define v2 where "v2 = foldl ramfs_mount_destroy v1 (rev ?ms)"
  have roots: "ramfs_mount_root v1 k = Some (?f k)" if "k \<in> set (rev ?ms)" for k
    using that mo ob1 by (force simp: mounts_ok_def mount_entry_ok_def ramfs_mount_root_def split: option.splits)
  have "distinct (rev ?ms)" using mo by (simp add: mounts_ok_def)
  then have s2: "ramfs_inv v2 (\<lambda>a. e1 a - count_list (map ?f (rev ?ms)) a) \<and>
      (\<forall>k. k \<notin> set (rev ?ms) \<longrightarrow> mount_objs v2 k = mount_objs v1 k)"
    unfolding v2_def by (rule destroy_list_inv [OF inv1 _ roots]) (simp_all add: count_list_rev_map e1_def)
  have "(\<lambda>a. e1 a - count_list (map ?f (rev ?ms)) a) = (\<lambda>_. 0)(r := 1)"
    by (auto simp: e1_def fun_eq_iff count_list_rev_map)
  then have inv2: "ramfs_inv v2 ((\<lambda>_. 0)(r := 1))" and root2: "ramfs_mount_root v2 m = Some r"
    using s2 mnot m ob1 by (auto simp: ramfs_mount_root_def)
  have "((\<lambda>_. 0 :: nat)(r := 1))(r := ((\<lambda>_. 0)(r := 1)) r - 1) = (\<lambda>_. 0)" by auto
  then have "ramfs_inv (ramfs_mount_destroy v2 m) (\<lambda>_. 0)"
    using ramfs_mount_destroy_inv [OF inv2, of m] root2 by simp
  then have "nodes (ramfs_mount_destroy v2 m) = Map.empty"
    using no_external_refs unfolding ramfs_inv_def by blast
  then show ?thesis
    using m by (simp add: cb_vfs_destroy_def Let_def v1_def [symmetric] v2_def [symmetric])
qed

section \<open>A mounted file system\<close>

text \<open>The sample file system as the root mount.\<close>

definition sample_root :: vfs_state where
  "sample_root = snd (cb_vfs_set_root_mount sample_fs 0)"

lemma sample_root_eq: "sample_root = sample_fs\<lparr>root_mount := Some 0, vfs_root := Some 1\<rparr>"
proof -
  obtain n where "nodes sample_fs 1 = Some n" "n_mount n = 0" using sample_fs_nodes by auto
  moreover have "root_mount sample_fs = None" by code_simp
  ultimately show ?thesis
    using sample_fs_root(2) by (simp add: sample_root_def cb_vfs_set_root_mount_def)
qed

lemma sample_root_ok:
  "ramfs_inv sample_root ((\<lambda>_. 0)(1 := 1))" "mounts_ok sample_root" "vfs_root sample_root = Some 1"
  "mount_table sample_root = []"
proof -
  show "ramfs_inv sample_root ((\<lambda>_. 0)(1 := 1))" using sample_fs_inv by (simp add: sample_root_eq)
  show "vfs_root sample_root = Some 1" by (simp add: sample_root_eq)
  show mt: "mount_table sample_root = []" by code_simp
  obtain n where "nodes sample_root 1 = Some n" "n_mount n = 0" "n_parent n = None"
    using sample_fs_nodes by (auto simp: sample_root_eq)
  moreover have "ramfs_mount_root sample_root 0 = Some 1"
    using sample_fs_root(2) by (simp add: sample_root_eq ramfs_mount_root_def)
  ultimately show "mounts_ok sample_root" using mt by (simp add: mounts_ok_def) (simp add: sample_root_eq)
qed

theorem cb_vfs_rename_paths_atomic_witness:
  "\<exists>v'. cb_vfs_rename_paths sample_root (vfs_root sample_root) (Some 1) ''/home/user'' ''tmp/u'' = (None, v') \<and>
     dir_map v' = (dir_map sample_root)((7, ''user'') := None, (5, ''u'') \<mapsto> 9)"
proof -
  obtain r v' where run: "cb_vfs_rename_paths sample_root (vfs_root sample_root) (Some 1) ''/home/user'' ''tmp/u'' = (r, v')"
    by fastforce
  have "fst (cb_vfs_rename_paths sample_root (vfs_root sample_root) (Some 1) ''/home/user'' ''tmp/u'') = None"
    by code_simp
  then have r: "r = None" using run by simp
  have lk: "cb_vfs_lookup_node sample_root (vfs_root sample_root) (Some 1) ''/home/user'' = Inr 9" by code_simp
  have nt: "normalize_for_task sample_root (vfs_root sample_root) (Some 1) ''tmp/u'' = Inr ''/tmp/u''" by code_simp
  have rp: "resolve_parent sample_root (vfs_root sample_root) ''/tmp/u'' = Inr (5, ''u'')" by code_simp
  have free: "dir_map sample_root (5, ''u'') = None" by code_simp
  have n9: "map_option n_parent (nodes sample_root 9) = Some (Some 7)" "map_option n_name (nodes sample_root 9) = Some ''user''"
    by code_simp+
  show ?thesis
    using cb_vfs_rename_paths_atomic [OF sample_root_ok(1,2) run] run r lk nt rp free n9 by auto
qed

theorem getcwd_resolves_to_cwd_witness:
  "resolve_normalized sample_root (vfs_root sample_root) ''/home/user'' = Inr 9"
proof -
  have "cb_vfs_getcwd_path sample_root (vfs_root sample_root) (Some 9) 64 = Inr ''/home/user''" by code_simp
  moreover have "uncovered sample_root (vfs_root sample_root) n (Some 9)" for n
  proof -
    have "uncovered sample_root (Some 1) n x" for x
      by (induction n arbitrary: x) (auto simp: sample_root_ok split: option.splits)
    then show ?thesis by (simp add: sample_root_ok)
  qed
  ultimately show ?thesis
    using getcwd_resolves_to_cwd [OF sample_root_ok(1,2), of 64 9 "''/home/user''"] by simp
qed

theorem cb_vfs_destroy_frees_all_witness:
  "nodes (cb_vfs_destroy sample_root) = Map.empty"
proof -
  have "root_mount sample_root = Some 0" by (simp add: sample_root_eq)
  moreover have "ramfs_mount_root sample_root 0 = Some 1"
    using sample_fs_root(2) by (simp add: sample_root_eq ramfs_mount_root_def)
  ultimately have "vfs_refs sample_root = (\<lambda>_. 0)(1 := 1)"
    using sample_root_ok(4) by (auto simp: vfs_refs_def mount_roots_def fun_eq_iff)
  then show ?thesis using cb_vfs_destroy_frees_all [OF _ sample_root_ok(2)] sample_root_ok(1) by simp
qed

end
