(* ===== verification/Vfs_Live.thy ===== *)
theory Vfs_Live
  imports Vfs_Props
begin

text \<open>
  What the rest of the runtime relies on from the file system. \<open>live v refs\<close> says that the tree is
  well formed, the mounts are in order, and every node has at least the references \<open>refs\<close> that the
  clients (open files, tasks, directory handles) hold, besides those of the mounts. Every operation
  of the path layer keeps it; a node with a reference exists.
\<close>

section \<open>The contract\<close>

definition live :: "vfs_state \<Rightarrow> (addr \<Rightarrow> nat) \<Rightarrow> bool" where
  "live v refs \<longleftrightarrow> mounts_ok v \<and> (\<exists>ext. ramfs_inv v ext \<and> (\<forall>n. refs n + vfs_refs v n \<le> ext n))"

definition frame :: "vfs_state \<Rightarrow> (addr \<rightharpoonup> ramfs_mount) \<times> (addr \<times> addr) list \<times> addr option \<times> addr option" where
  "frame v = (mount_objs v, mount_table v, root_mount v, vfs_root v)"

lemma liveE:
  assumes "live v refs"
  obtains ext where "mounts_ok v" "ramfs_inv v ext" "\<forall>n. refs n + vfs_refs v n \<le> ext n"
  using assms unfolding live_def by blast

lemma inv_ext_dom: "ramfs_inv v ext \<Longrightarrow> ext n > 0 \<Longrightarrow> n \<in> dom (nodes v)"
  unfolding ramfs_inv_def using refs_wfD(3) fs_invD(2) by fastforce

lemma live_dom: "live v refs \<Longrightarrow> refs n > 0 \<Longrightarrow> n \<in> dom (nodes v)"
  by (metis add_gr_0 inv_ext_dom leD liveE linorder_not_less zero_less_iff_neq_zero le_zero_eq)

lemma live_mono: "live v refs \<Longrightarrow> (\<And>n. refs' n \<le> refs n) \<Longrightarrow> live v refs'"
  unfolding live_def by (meson add_le_mono1 le_trans)

lemma live_fresh: "live v refs \<Longrightarrow> a \<in> dom (nodes v) \<Longrightarrow> a < alloc_seq (v_host v)"
  by (auto elim!: liveE simp: ramfs_inv_def fs_inv_def dest: stored_okD(1))

lemma vfs_refs_frame: "frame v' = frame v \<Longrightarrow> vfs_refs v' = vfs_refs v"
  by (auto simp: fun_eq_iff frame_def vfs_refs_def mount_roots_def ramfs_mount_root_def)

lemma mount_refs:
  assumes "mounts_ok v"
  shows "(mp, m) \<in> set (mount_table v) \<Longrightarrow> vfs_refs v mp > 0"
    and "(mp, m) \<in> set (mount_table v) \<Longrightarrow> ramfs_mount_root v m = Some r \<Longrightarrow> vfs_refs v r > 0"
    and "root_mount v = Some m \<Longrightarrow> ramfs_mount_root v m = Some r \<Longrightarrow> vfs_refs v r > 0"
proof -
  have cl: "x \<in> set xs \<Longrightarrow> count_list xs x > 0" for x :: addr and xs
    using count_list_0_iff [of xs x] by simp
  show "(mp, m) \<in> set (mount_table v) \<Longrightarrow> vfs_refs v mp > 0"
    using cl [of mp "map fst (mount_table v)"] by (force simp: vfs_refs_def)
  show "(mp, m) \<in> set (mount_table v) \<Longrightarrow> ramfs_mount_root v m = Some r \<Longrightarrow> vfs_refs v r > 0"
    using cl [of r "mount_roots v"] by (force simp: vfs_refs_def mount_roots_def)
  show "root_mount v = Some m \<Longrightarrow> ramfs_mount_root v m = Some r \<Longrightarrow> vfs_refs v r > 0"
    using cl [of r "mount_roots v"] by (force simp: vfs_refs_def mount_roots_def)
qed

text \<open>The one argument behind all preservation lemmas: roots of mounts stay roots.\<close>

lemma live_step:
  assumes mo: "mounts_ok v" and fr: "frame v' = frame v" and inv: "ramfs_inv v' ext"
    and refs: "\<And>n. refs n + vfs_refs v n \<le> ext n"
    and roots: "\<And>a n n'. nodes v a = Some n \<Longrightarrow> n_parent n = None \<Longrightarrow> nodes v' a = Some n' \<Longrightarrow>
                  n_parent n' = None \<and> n_mount n' = n_mount n"
  shows "live v' refs"
proof -
  have f: "mount_objs v' = mount_objs v" "mount_table v' = mount_table v" "root_mount v' = root_mount v"
    "vfs_root v' = vfs_root v" using fr by (simp_all add: frame_def)
  have rt: "ramfs_mount_root v' = ramfs_mount_root v" by (rule ext) (simp add: ramfs_mount_root_def f)
  have held: "n \<in> dom (nodes v')" if "vfs_refs v n > 0" for n
    using inv_ext_dom [OF inv, of n] refs [of n] that by simp
  have root: "\<exists>n'. nodes v' r = Some n' \<and> n_mount n' = m \<and> n_parent n' = None"
    if "vfs_refs v r > 0" "nodes v r = Some n" "n_mount n = m" "n_parent n = None" for r n m
    using held [OF that(1)] roots [OF that(2,4)] that(3) by auto
  have "mount_entry_ok v' (mp, m)" if e: "(mp, m) \<in> set (mount_table v)" for mp m
  proof -
    have "mount_entry_ok v (mp, m)" using mo e by (auto simp: mounts_ok_def)
    then obtain r n where r: "root_mount v \<noteq> Some m" "vfs_root v \<noteq> Some mp" "ramfs_mount_root v m = Some r"
      "nodes v r = Some n" "n_mount n = m" "n_parent n = None" by (auto simp: mount_entry_ok_def)
    show ?thesis
      using root [OF mount_refs(2) [OF mo e r(3)] r(4-6)] held [OF mount_refs(1) [OF mo e]] r
      by (auto simp: mount_entry_ok_def f rt)
  qed
  moreover obtain m r n where r: "root_mount v = Some m" "vfs_root v = Some r" "ramfs_mount_root v m = Some r"
    "nodes v r = Some n" "n_mount n = m" "n_parent n = None" using mo by (auto simp: mounts_ok_def)
  moreover note root [OF mount_refs(3) [OF mo r(1,3)] r(4-6)]
  ultimately have "mounts_ok v'" using mo by (auto simp: mounts_ok_def f rt)
  then show ?thesis using inv refs vfs_refs_frame [OF fr] unfolding live_def by metis
qed

lemma live_host:
  assumes "live v refs" "alloc_seq (v_host v) \<le> alloc_seq h"
  shows "live (v\<lparr>v_host := h\<rparr>) refs"
proof -
  obtain ext where e: "mounts_ok v" "ramfs_inv v ext" "\<forall>n. refs n + vfs_refs v n \<le> ext n"
    by (rule liveE [OF assms(1)])
  show ?thesis by (rule live_step [OF e(1) _ ramfs_inv_host [OF e(2) assms(2)] e(3) [rule_format]]) (simp_all add: frame_def)
qed

lemma live_upd:
  assumes "live v refs" "nodes v a = Some n" "shape n' = shape n" "n_references n' = n_references n"
    "n_inode n' = n_inode n" "data_ok n'" "alloc_seq (v_host v) \<le> alloc_seq h"
  shows "live ((upd_node v a n')\<lparr>v_host := h\<rparr>) refs"
proof -
  obtain ext where e: "mounts_ok v" "ramfs_inv v ext" "\<forall>n. refs n + vfs_refs v n \<le> ext n"
    by (rule liveE [OF assms(1)])
  show ?thesis
    by (rule live_step [OF e(1) _ ramfs_inv_upd_data [OF e(2) assms(2-7)] e(3) [rule_format]])
      (use assms(2,3) in \<open>auto simp: frame_def shape_def split: if_splits\<close>)
qed

lemma live_same_node:
  "\<lbrakk>live v refs; nodes v a = Some n; same_node n n'; alloc_seq (v_host v) \<le> alloc_seq h\<rbrakk> \<Longrightarrow>
   live ((upd_node v a n')\<lparr>v_host := h\<rparr>) refs"
  using live_upd unfolding same_node_def by blast

lemma live_data_ok: "live v refs \<Longrightarrow> nodes v a = Some n \<Longrightarrow> data_ok n"
  by (erule liveE) (rule ramfs_inv_node)

lemma live_retain:
  assumes "live v refs" "a \<in> dom (nodes v)"
  shows "live (ramfs_node_retain v a) (refs(a := refs a + 1))"
proof -
  obtain ext where e: "mounts_ok v" "ramfs_inv v ext" "\<forall>n. refs n + vfs_refs v n \<le> ext n"
    by (rule liveE [OF assms(1)])
  obtain n where n: "nodes v a = Some n" using assms(2) by auto
  have inv: "ramfs_inv (ramfs_node_retain v a) (ext(a := ext a + 1))"
    using e(2) ramfs_node_retain_inv [OF _ n] unfolding ramfs_inv_def by blast
  show ?thesis
    by (rule live_step [OF e(1) _ inv]) (use e(3) n in \<open>auto simp: frame_def ramfs_node_retain_def split: if_splits\<close>)
qed

lemma release_frame: "ramfs_inv v ext \<Longrightarrow> ext c > 0 \<Longrightarrow>
    frame (ramfs_node_release v c) = frame v \<and> v_host (ramfs_node_release v c) = v_host v"
proof -
  assume "ramfs_inv v ext" and c: "ext c > 0"
  then obtain K where K: "fs_inv v K ext" by (auto simp: ramfs_inv_def)
  have "ramfs_node_release v c = v\<lparr>nodes := nodes (ramfs_node_release v c),
       program_count := program_count (ramfs_node_release v c)\<rparr>"
    by (rule ramfs_node_release_inv [OF K c])
  then show ?thesis
    by (metis (no_types, lifting) frame_def vfs_state.ext_inject vfs_state.surjective vfs_state.update_convs(2,6))
qed

lemma release_roots:
  assumes "fs_inv v K ext" "ext c > 0" "nodes v a = Some n" "n_parent n = None"
    "nodes (ramfs_node_release v c) a = Some n'"
  shows "n_parent n' = None \<and> n_mount n' = n_mount n"
proof -
  note i = fs_invD [OF assms(1)]
  have "2 * card (linkedset (nodes v)) < node_fuel v"
    using links_fuel [OF i(3)] by (simp add: node_fuel_def)
  then have "\<exists>K'. releases {} v K (ext(c := ext c - 1)) (ramfs_node_release v c) K'"
    using release_and_destroy_ok [of "node_fuel v", THEN conjunct1, unfolded release_ok_def, rule_format]
      i(1,2) assms(2) fs_finite [OF i(3)] unfolding ramfs_node_release_def by blast
  then obtain K' where r: "releases {} v K (ext(c := ext c - 1)) (ramfs_node_release v c) K'" ..
  have "core n' = core n" using releasesD(3) [OF r] assms(3,5) by (fastforce simp: survives_def)
  moreover have "a \<notin> linkedset (nodes v)" using assms(3,4) by (simp add: linkedset_def nparent_def)
  then have "a \<notin> linkedset (nodes (ramfs_node_release v c))" using releasesD(4) [OF r] by blast
  then have "n_parent n' = None" using assms(5) by (simp add: linkedset_def nparent_def)
  ultimately show ?thesis using core_fields by blast
qed

lemma live_release:
  assumes "live v refs" "refs c > 0"
  shows "live (ramfs_node_release v c) (refs(c := refs c - 1))"
    and "frame (ramfs_node_release v c) = frame v" "v_host (ramfs_node_release v c) = v_host v"
proof -
  obtain ext where e: "mounts_ok v" "ramfs_inv v ext" "\<forall>n. refs n + vfs_refs v n \<le> ext n"
    by (rule liveE [OF assms(1)])
  obtain K where K: "fs_inv v K ext" using e(2) by (auto simp: ramfs_inv_def)
  have c: "ext c > 0" using e(3) [rule_format, of c] assms(2) by simp
  show f: "frame (ramfs_node_release v c) = frame v" "v_host (ramfs_node_release v c) = v_host v"
    using release_frame [OF e(2) c] by auto
  show "live (ramfs_node_release v c) (refs(c := refs c - 1))"
  proof (rule live_step [OF e(1) f(1) ramfs_release_inv(1) [OF e(2) c]])
    show "(refs(c := refs c - 1)) n + vfs_refs v n \<le> (ext(c := ext c - 1)) n" for n
      using e(3) [rule_format, of n] assms(2) by auto
  qed (use release_roots [OF K c] in blast)
qed

section \<open>Resolution\<close>

lemma live_root:
  assumes "live v refs"
  obtains r where "vfs_root v = Some r" "r \<in> dom (nodes v)"
proof -
  have "mounts_ok v" by (rule liveE [OF assms])
  then show ?thesis using that by (auto simp: mounts_ok_def)
qed

lemma live_resolve:
  assumes "live v refs" "resolve_normalized v (vfs_root v) s = Inr a"
  shows "a \<in> dom (nodes v)"
proof -
  obtain ext where e: "mounts_ok v" "ramfs_inv v ext" by (rule liveE [OF assms(1)])
  obtain r where r: "vfs_root v = Some r" "r \<in> dom (nodes v)" by (rule live_root [OF assms(1)])
  show ?thesis
    using assms(2) r resolve_names_live [OF e(2,1) _ r(2)] by (simp add: resolve_normalized_def)
qed

lemma live_lookup:
  "live v refs \<Longrightarrow> cb_vfs_lookup_node v (vfs_root v) cwd path = Inr a \<Longrightarrow> a \<in> dom (nodes v)"
  using live_resolve by (auto simp: cb_vfs_lookup_node_def split: sum.splits)

lemma live_parent:
  "live v refs \<Longrightarrow> resolve_parent v (vfs_root v) s = Inr (d, name) \<Longrightarrow> d \<in> dom (nodes v)"
  using live_resolve by (auto simp: resolve_parent_def Let_def split: if_splits sum.splits)

section \<open>Creating and removing\<close>

lemma create_effect:
  assumes inv: "fs_inv v K ext" and run: "ramfs_create v d name type mode = (r, v')"
  shows "frame v' = frame v" "alloc_seq (v_host v) \<le> alloc_seq (v_host v')"
    and "nodes v a = Some n \<Longrightarrow> \<exists>n'. nodes v' a = Some n' \<and> n_parent n' = n_parent n \<and> n_mount n' = n_mount n"
proof -
  show "frame v' = frame v" "alloc_seq (v_host v) \<le> alloc_seq (v_host v')"
    using run
    by (auto simp: ramfs_create_def node_create_def host_defs frame_def Let_def
        split: option.splits if_splits prod.splits)
  assume a: "nodes v a = Some n"
  then have "a \<noteq> alloc_seq (v_host v)" using stored_okD(1) [OF fs_invD(3) [OF inv]] by blast
  then show "\<exists>n'. nodes v' a = Some n' \<and> n_parent n' = n_parent n \<and> n_mount n' = n_mount n"
    using run a
    by (auto simp: ramfs_create_def node_create_def host_defs Let_def split: option.splits if_splits prod.splits)
qed

lemma live_create:
  assumes "live v refs" "ramfs_create v d name type mode = (r, v')"
  shows "live v' refs" "frame v' = frame v" "alloc_seq (v_host v) \<le> alloc_seq (v_host v')"
    and "r = Inr a \<Longrightarrow> a \<in> dom (nodes v')"
proof -
  obtain ext where e: "mounts_ok v" "ramfs_inv v ext" "\<forall>n. refs n + vfs_refs v n \<le> ext n"
    by (rule liveE [OF assms(1)])
  obtain K where K: "fs_inv v K ext" using e(2) by (auto simp: ramfs_inv_def)
  note eff = create_effect [OF K assms(2)]
  have inv: "ramfs_inv v' ext" and a: "r = Inr a \<Longrightarrow> a \<in> dom (nodes v')"
    using ramfs_create_dir_map [OF K assms(2)] by (auto simp: ramfs_inv_def split: sum.splits)
  show "live v' refs"
    by (rule live_step [OF e(1) eff(1) inv e(3) [rule_format]]) (use eff(3) in fastforce)
  show "frame v' = frame v" "alloc_seq (v_host v) \<le> alloc_seq (v_host v')"
    "r = Inr a \<Longrightarrow> a \<in> dom (nodes v')" using eff a by auto
qed

lemma detach_effect:
  assumes inv: "fs_inv v K ext" and a: "nodes v a = Some n" "n_parent n = Some p" "K a = []"
    and run: "detach_and_release v a n = (r, v')"
  shows "frame v' = frame v" "v_host v' = v_host v"
proof -
  obtain l where l: "find_link (walk_fuel v) (nodes v) (HeadOf p) a = Some l"
    and inv1: "fs_inv (v\<lparr>nodes := unlink_ns (nodes v) l a n\<rparr>) (K(p := remove1 a (K p))) (ext(a := ext a + 1))"
    and e: "write_link (nodes v) l (n_next_sibling n) a = Some n"
    using unlink_inv [OF inv a(1,2)] by blast
  let ?v1 = "v\<lparr>nodes := unlink_ns (nodes v) l a n\<rparr>"
  have "v' = ramfs_node_release ?v1 a"
    using run a l e by (simp add: detach_and_release_def unlink_ns_def)
  moreover have "ramfs_inv ?v1 (ext(a := ext a + 1))" using inv1 ramfs_inv_def by blast
  ultimately show "frame v' = frame v" "v_host v' = v_host v"
    using release_frame [of ?v1 "ext(a := ext a + 1)" a] by (simp_all add: frame_def)
qed

lemma live_detach:
  assumes "live v refs" "nodes v a = Some n" "n_parent n \<noteq> None"
    and leaf: "n_type n \<noteq> CB_NODE_DIRECTORY \<or> n_children n = None"
    and run: "detach_and_release v a n = (r, v')"
  shows "live v' refs" "frame v' = frame v" "v_host v' = v_host v"
proof -
  obtain ext where e: "mounts_ok v" "ramfs_inv v ext" "\<forall>n. refs n + vfs_refs v n \<le> ext n"
    by (rule liveE [OF assms(1)])
  obtain K where K: "fs_inv v K ext" using e(2) by (auto simp: ramfs_inv_def)
  obtain p where p: "n_parent n = Some p" using assms(3) by blast
  have "K a = []" using leaf childless [OF K assms(2)] by blast
  note D = detach_dir_map [OF K assms(2) p this run] detach_effect [OF K assms(2) p this run]
  have inv: "ramfs_inv v' ext" using D(2) ramfs_inv_def by blast
  show "live v' refs"
  proof (rule live_step [OF e(1) D(7) inv e(3) [rule_format]])
    fix b m m' assume b: "nodes v b = Some m" "n_parent m = None" "nodes v' b = Some m'"
    then have "b \<noteq> a" using assms(2,3) by auto
    then show "n_parent m' = None \<and> n_mount m' = n_mount m" using D(5) [of b] b by (auto simp: key_def)
  qed
  show "frame v' = frame v" "v_host v' = v_host v" using D(7,8) .
qed

lemma live_remove:
  assumes "live v refs" "op = ramfs_unlink \<or> op = ramfs_rmdir" "op v a = (r, v')"
  shows "live v' refs" "frame v' = frame v" "v_host v' = v_host v"
proof -
  have "v' = v \<or> (\<exists>n. nodes v a = Some n \<and> n_parent n \<noteq> None \<and>
    (n_type n \<noteq> CB_NODE_DIRECTORY \<or> n_children n = None) \<and> detach_and_release v a n = (r, v'))"
  proof (cases "nodes v a")
    case None
    then show ?thesis using assms(2,3) by (auto simp: ramfs_unlink_def ramfs_rmdir_def)
  next
    case (Some n)
    then show ?thesis
      using assms(2,3) ramfs_unlink_error [OF Some] ramfs_rmdir_error [OF Some]
      by (cases "n_parent n") (auto simp: ramfs_unlink_def ramfs_rmdir_def split: if_splits)
  qed
  then show "live v' refs" "frame v' = frame v" "v_host v' = v_host v"
    using live_detach [OF assms(1)] assms(1) by blast+
qed

section \<open>The operations on paths\<close>

text \<open>What one operation does to the state its client sees: it keeps the contract, with new references.\<close>

definition advances :: "vfs_state \<Rightarrow> vfs_state \<Rightarrow> (addr \<Rightarrow> nat) \<Rightarrow> bool" where
  "advances v v' refs \<longleftrightarrow> live v' refs \<and> frame v' = frame v \<and> alloc_seq (v_host v) \<le> alloc_seq (v_host v')"

lemma advances_refl: "live v refs \<Longrightarrow> advances v v refs"
  by (simp add: advances_def)

lemma advances_root: "advances v v' refs \<Longrightarrow> vfs_root v' = vfs_root v"
  by (simp add: advances_def frame_def)

lemma advances_trans: "advances v v1 refs1 \<Longrightarrow> advances v1 v2 refs \<Longrightarrow> advances v v2 refs"
  by (simp add: advances_def)

lemma advances_create: "live v refs \<Longrightarrow> ramfs_create v d name type mode = (r, v') \<Longrightarrow> advances v v' refs"
  using live_create by (simp add: advances_def)

lemma advances_remove:
  "live v refs \<Longrightarrow> op = ramfs_unlink \<or> op = ramfs_rmdir \<Longrightarrow> op v a = (r, v') \<Longrightarrow> advances v v' refs"
  using live_remove by (simp add: advances_def)

lemma advances_host:
  "live v refs \<Longrightarrow> alloc_seq (v_host v) \<le> alloc_seq h \<Longrightarrow> advances v (v\<lparr>v_host := h\<rparr>) refs"
  using live_host by (simp add: advances_def frame_def)

lemma advances_same_node:
  "\<lbrakk>live v refs; nodes v a = Some n; same_node n n'; alloc_seq (v_host v) \<le> alloc_seq h\<rbrakk> \<Longrightarrow>
   advances v ((upd_node v a n')\<lparr>v_host := h\<rparr>) refs"
  using live_same_node by (simp add: advances_def frame_def)

lemma advances_retain:
  "live v refs \<Longrightarrow> a \<in> dom (nodes v) \<Longrightarrow> advances v (ramfs_node_retain v a) (refs(a := refs a + 1))"
  using live_retain by (auto simp: advances_def frame_def ramfs_node_retain_def)

lemma advances_release:
  "live v refs \<Longrightarrow> refs a > 0 \<Longrightarrow> advances v (ramfs_node_release v a) (refs(a := refs a - 1))"
  using live_release by (simp add: advances_def)

lemma write_link_other:
  assumes "write_link ns l q b = Some m'"
  shows "\<exists>m. ns b = Some m \<and> n_parent m' = n_parent m \<and> n_mount m' = n_mount m"
  using assms by (cases l) (auto split: option.splits if_splits)

lemma rename_other:
  assumes "ramfs_rename v a d name = (r, v')"
  shows "frame v' = frame v" "alloc_seq (v_host v') = alloc_seq (v_host v)"
    and "b \<noteq> a \<Longrightarrow> nodes v' b = Some m' \<Longrightarrow> \<exists>m. nodes v b = Some m \<and> n_parent m' = n_parent m \<and> n_mount m' = n_mount m"
proof -
  show "frame v' = frame v" "alloc_seq (v_host v') = alloc_seq (v_host v)"
    using assms by (auto simp: ramfs_rename_def frame_def wall_clock_millis_def Let_def split: option.splits prod.splits)
  assume b: "b \<noteq> a" "nodes v' b = Some m'"
  have "nodes v' b = nodes v b \<or> (\<exists>l1 q1 l2 q2 l3 q3.
      nodes v' b = write_link (write_link (write_link (nodes v) l1 q1) l2 q2) l3 q3 b)"
    using assms b(1)
    by (auto simp: ramfs_rename_def wall_clock_millis_def Let_def simp del: write_link.simps read_link.simps
        split: option.splits prod.splits) blast+
  then show "\<exists>m. nodes v b = Some m \<and> n_parent m' = n_parent m \<and> n_mount m' = n_mount m"
    using b(2) write_link_other by (metis (no_types, lifting))
qed

lemma advances_rename_nodes:
  assumes lv: "live v refs" and name: "valid_name name"
    and a: "nodes v a = Some n" and listed: "n_parent n = Some p \<or> (d, a) \<in> (parent_rel (nodes v))\<^sup>*"
    and run: "cb_vfs_rename_nodes v a d name = (r, v')"
  shows "advances v v' refs"
  using run a
proof (cases rule: rename_nodes_stages)
  case refused
  then show ?thesis using advances_refl [OF lv] by simp
next
  case same
  then show ?thesis using advances_refl [OF lv] by simp
next
  case (no_memory h)
  then show ?thesis using advances_host [OF lv] by simp
next
  case (move nd h existing r1 v1)
  obtain ext where e: "mounts_ok v" "ramfs_inv v ext" "\<forall>n. refs n + vfs_refs v n \<le> ext n" by (rule liveE [OF lv])
  have below: "(d, a) \<notin> (parent_rel (nodes v))\<^sup>*" using rename_walk_None [OF move(3)] .
  then have p: "n_parent n = Some p" using listed by blast
  note M = rename_move [OF e(2) name a p move(1,2) below move(4-8)]
  have v1: "advances v v1 refs"
  proof (cases existing)
    case None
    then show ?thesis using move(7) advances_host [OF lv move(6)] by simp
  next
    case (Some x)
    then have "ramfs_unlink (v\<lparr>v_host := h\<rparr>) x = (r1, v1)" using move(7) by simp
    then have "advances (v\<lparr>v_host := h\<rparr>) v1 refs"
      by (rule advances_remove [OF live_host [OF lv move(6)] disjI1 [OF refl]])
    then show ?thesis by (rule advances_trans [OF advances_host [OF lv move(6)]])
  qed
  then have lv1: "live v1 refs" "mounts_ok v1" "vfs_refs v1 = vfs_refs v"
    using vfs_refs_frame [of v1 v] by (simp_all add: advances_def live_def)
  have r0: "r1 = None"
  proof (rule ccontr)
    assume "r1 \<noteq> None"
    then have "r \<noteq> None" using move(8) by auto
    then show False using M(1) by simp
  qed
  then have r1: "r1 = None" "ramfs_rename v1 a d name = (r, v')" using move(8) by simp_all
  note R = rename_other [OF r1(2)]
  have na: "nparent (nodes v1) a \<noteq> None"
  proof
    assume "nparent (nodes v1) a = None"
    then have "\<exists>e. ramfs_rename v1 a d name = (Some e, v1)"
      by (auto simp: ramfs_rename_def nparent_def split: option.splits)
    then show False using r1 M(1) by simp
  qed
  have "live v' refs"
  proof (rule live_step [OF lv1(2) R(1) M(2)])
    show "refs n + vfs_refs v1 n \<le> ext n" for n using e(3) lv1(3) by simp
    fix b m m' assume "nodes v1 b = Some m" "n_parent m = None" "nodes v' b = Some m'"
    then show "n_parent m' = None \<and> n_mount m' = n_mount m" using R(3) [of b m'] na by (cases "b = a") (auto simp: nparent_def)
  qed
  then show ?thesis using v1 R(1,2) by (simp add: advances_def)
qed

lemma advances_rename:
  assumes lv: "live v refs" and run: "cb_vfs_rename_paths v (vfs_root v) cwd old new = (r, v')"
  shows "advances v v' refs"
proof (cases "\<exists>a text d name n nd. cb_vfs_lookup_node v (vfs_root v) cwd old = Inr a \<and>
    normalize_for_task v (vfs_root v) cwd new = Inr text \<and> resolve_parent v (vfs_root v) text = Inr (d, name) \<and>
    nodes v a = Some n \<and> nodes v d = Some nd \<and> n_mount nd = n_mount n \<and> \<not> is_mount_node v a")
  case False
  then have "v' = v"
    using run by (auto simp: cb_vfs_rename_paths_def cb_vfs_rename_nodes_def split: sum.splits option.splits if_splits)
  then show ?thesis using advances_refl [OF lv] by simp
next
  case True
  then obtain a tx d name n nd where t: "cb_vfs_lookup_node v (vfs_root v) cwd old = Inr a"
    "normalize_for_task v (vfs_root v) cwd new = Inr tx" "resolve_parent v (vfs_root v) tx = Inr (d, name)"
    and n: "nodes v a = Some n" "nodes v d = Some nd" "n_mount nd = n_mount n" "\<not> is_mount_node v a"
    by blast
  obtain ext where e: "mounts_ok v" "ramfs_inv v ext" by (rule liveE [OF lv])
  obtain p where "n_parent n = Some p \<or> (d, a) \<in> (parent_rel (nodes v))\<^sup>*"
    using rename_paths_listed [OF e(2,1) t(1) n(1,4) t(3) n(2,3)] by blast
  then show ?thesis
    using advances_rename_nodes [OF lv resolve_parent_valid [OF t(3)] n(1)] run t by (simp add: cb_vfs_rename_paths_def)
qed

lemma advances_mkdir:
  "live v refs \<Longrightarrow> cb_vfs_mkdir_path v root cwd path mode = (r, v') \<Longrightarrow> advances v v' refs"
  using advances_refl advances_create
  by (auto simp: cb_vfs_mkdir_path_def split: sum.splits if_splits prod.splits)

lemma advances_unlink:
  "live v refs \<Longrightarrow> cb_vfs_unlink_path v root cwd path = (r, v') \<Longrightarrow> advances v v' refs"
  using advances_refl advances_remove [of v refs ramfs_unlink] by (auto simp: cb_vfs_unlink_path_def split: sum.splits if_splits)

lemma advances_rmdir:
  "live v refs \<Longrightarrow> cb_vfs_rmdir_path v root cwd path = (r, v') \<Longrightarrow> advances v v' refs"
  using advances_refl advances_remove [of v refs ramfs_rmdir] by (auto simp: cb_vfs_rmdir_path_def split: sum.splits if_splits)

lemma advances_ramfs_truncate:
  assumes "live v refs" "ramfs_truncate v a len = (r, v')"
  shows "advances v v' refs"
proof (cases "nodes v a")
  case None
  then have "v' = v" using assms(2) by (simp add: ramfs_truncate_def split: if_splits)
  then show ?thesis using advances_refl [OF assms(1)] by simp
next
  case (Some n)
  have ok: "data_ok n" by (rule live_data_ok [OF assms(1) Some])
  show ?thesis
  proof (cases "len < 0 \<or> nat len > SIZE_MAX \<or> n_type n \<noteq> CB_NODE_REGULAR")
    case True
    then show ?thesis using assms advances_refl Some by (auto simp: ramfs_truncate_def split: if_splits)
  next
    case False
    obtain res h where g: "grow_data False (v_host v) n (nat len) = (res, h)" by fastforce
    show ?thesis
    proof (cases res)
      case None
      then have "v' = v\<lparr>v_host := h\<rparr>" using assms(2) Some False g by (auto simp: ramfs_truncate_def)
      then show ?thesis using advances_host [OF assms(1)] grow_data_None g None by auto
    next
      case n1: (Some n1)
      have G: "same_node n n1" "nat len \<le> n_capacity n1" "alloc_seq (v_host v) \<le> alloc_seq h"
        using grow_data_Some [of False "v_host v" n "nat len" n1 h] g n1 ok False by auto
      obtain now h' where w: "wall_clock_millis h = (now, h')" by fastforce
      have v': "v' = (upd_node v a (set_length n1 (nat len) now))\<lparr>v_host := h'\<rparr>"
        using assms(2) Some False g n1 w by (auto simp: ramfs_truncate_def)
      have "data_ok n1" using G(1) by (simp add: same_node_def)
      then have "same_node n (set_length n1 (nat len) now)"
        using set_length_content(1) [OF _ G(2), of now] G(1) by (auto simp: same_node_def)
      moreover have "alloc_seq (v_host v) \<le> alloc_seq h'" using G(3) w wall_clock_millis_seq [of h] by simp
      ultimately show ?thesis unfolding v' by (rule advances_same_node [OF assms(1) Some])
    qed
  qed
qed

lemma advances_truncate_node:
  "live v refs \<Longrightarrow> cb_vfs_truncate_node v a len = (r, v') \<Longrightarrow> advances v v' refs"
  using advances_refl advances_ramfs_truncate
  by (auto simp: cb_vfs_truncate_node_def split: sum.splits if_splits)

lemma advances_truncate:
  "live v refs \<Longrightarrow> cb_vfs_truncate_path v root cwd path len = (r, v') \<Longrightarrow> advances v v' refs"
  using advances_refl advances_truncate_node
  by (auto simp: cb_vfs_truncate_path_def split: sum.splits if_splits)

section \<open>Operations that take references\<close>

lemma advances_ramfs_open:
  assumes lv: "live v refs" and run: "ramfs_open v a flags = (res, v')"
  shows "case res of
      Inl e \<Rightarrow> advances v v' refs
    | Inr (f, file) \<Rightarrow> advances v v' (refs(a := refs a + 1)) \<and> of_ops file = NodeFile a \<and> of_references file = 1 \<and>
        alloc_seq (v_host v) \<le> f \<and> f < alloc_seq (v_host v')"
proof (cases "nodes v a")
  case None
  then show ?thesis using run advances_refl [OF lv] by (auto simp: ramfs_open_def)
next
  case (Some n)
  define n1 where "n1 = (if has_flag flags CB_O_TRUNC \<and> access_mode flags \<noteq> CB_O_RDONLY then n\<lparr>n_size := 0\<rparr> else n)"
  have same: "same_node n n1"
    using live_data_ok [OF lv Some] by (auto simp: n1_def same_node_def shape_def data_ok_def)
  obtain fo h where al: "cb_allocate (v_host v) = (fo, h)" by fastforce
  have h: "alloc_seq h = Suc (alloc_seq (v_host v))" using cb_allocate_seq [of "v_host v"] al by simp
  let ?v1 = "(upd_node v a n1)\<lparr>v_host := h\<rparr>"
  have v1: "advances v ?v1 refs" by (rule advances_same_node [OF lv Some same]) (simp add: h)
  have "advances ?v1 (ramfs_node_retain ?v1 a) (refs(a := refs a + 1))"
    by (rule advances_retain) (use v1 in \<open>simp_all add: advances_def\<close>)
  then have v2: "advances v (ramfs_node_retain ?v1 a) (refs(a := refs a + 1))" by (rule advances_trans [OF v1])
  have seq: "alloc_seq (v_host (ramfs_node_retain ?v1 a)) = alloc_seq h"
    by (simp add: ramfs_node_retain_def)
  show ?thesis
  proof (cases fo)
    case None
    then show ?thesis using run Some al v1 advances_refl [OF lv]
      by (auto simp: ramfs_open_def Let_def n1_def [symmetric] split: if_splits)
  next
    case (Some f)
    then have "f = alloc_seq (v_host v)" using cb_allocate_Some al by blast
    then show ?thesis using run \<open>nodes v a = Some n\<close> al Some v2 advances_refl [OF lv] seq h
      by (auto simp: ramfs_open_def Let_def n1_def [symmetric] split: if_splits)
  qed
qed

lemma advances_open:
  assumes lv: "live v refs" and run: "cb_vfs_open v root cwd path flags mode = (res, v')"
  shows "case res of
      Inl e \<Rightarrow> advances v v' refs
    | Inr (f, file) \<Rightarrow> \<exists>a. advances v v' (refs(a := refs a + 1)) \<and> of_ops file = NodeFile a \<and> of_references file = 1 \<and>
        alloc_seq (v_host v) \<le> f \<and> f < alloc_seq (v_host v')"
proof (cases "normalize_for_task v root cwd path")
  case (Inl e)
  then show ?thesis using run advances_refl [OF lv] by (auto simp: cb_vfs_open_def)
next
  case (Inr s)
  define found where "found = (case resolve_normalized v root s of
                   Inr a \<Rightarrow> (Inr a, v)
                 | Inl e \<Rightarrow>
                     if e = CB_ENOENT \<and> has_flag flags CB_O_CREAT
                     then (case resolve_parent v root s of
                             Inl e' \<Rightarrow> (Inl e', v)
                           | Inr (parent, name) \<Rightarrow>
                               ramfs_create v parent name CB_NODE_REGULAR (if mode = 0 then 438 else mode))
                     else (Inl e, v))"
  have v1: "advances v (snd found) refs"
    using advances_refl [OF lv] advances_create [OF lv]
    by (auto simp: found_def split: sum.splits prod.splits) (metis prod.collapse)+
  have run': "(res, v') = (case fst found of Inl e \<Rightarrow> (Inl e, snd found) | Inr a \<Rightarrow> ramfs_open (snd found) a flags)"
    using run unfolding cb_vfs_open_def Inr sum.case found_def [symmetric] Let_def split_beta by simp
  show ?thesis
  proof (cases "fst found")
    case (Inl e)
    then show ?thesis using run' v1 by simp
  next
    case (Inr a)
    then have "ramfs_open (snd found) a flags = (res, v')" using run' by simp
    moreover have "live (snd found) refs" using v1 by (simp add: advances_def)
    ultimately have o: "case res of Inl e \<Rightarrow> advances (snd found) v' refs
    | Inr (f, file) \<Rightarrow> advances (snd found) v' (refs(a := refs a + 1)) \<and> of_ops file = NodeFile a \<and> of_references file = 1 \<and>
        alloc_seq (v_host (snd found)) \<le> f \<and> f < alloc_seq (v_host v')" by (rule advances_ramfs_open [rotated])
    then show ?thesis using v1 advances_trans [OF v1]
      by (auto split: sum.splits intro: advances_trans [OF v1]) (auto simp: advances_def)
  qed
qed

lemma advances_opendir:
  assumes lv: "live v refs" and run: "cb_vfs_opendir_path v (vfs_root v) cwd path = (res, v')"
  shows "case res of Inl e \<Rightarrow> v' = v
    | Inr a \<Rightarrow> advances v v' (refs(a := refs a + 1)) \<and> a \<in> dom (nodes v') \<and> is_directory v' a"
proof (cases res)
  case (Inl e)
  then show ?thesis using run by (auto simp: cb_vfs_opendir_path_def split: sum.splits if_splits)
next
  case (Inr a)
  have a: "cb_vfs_lookup_node v (vfs_root v) cwd path = Inr a" "v' = ramfs_node_retain v a"
    and n: "\<exists>n. nodes v a = Some n \<and> n_type n = CB_NODE_DIRECTORY"
    using run Inr
    by (auto simp: cb_vfs_opendir_path_def ramfs_stat_def split: sum.splits if_splits option.splits)
  have "advances v v' (refs(a := refs a + 1))"
    unfolding a(2) by (rule advances_retain [OF lv live_lookup [OF lv a(1)]])
  then show ?thesis using Inr n a(2) by (auto simp: ramfs_node_retain_def is_directory_def)
qed

lemma advances_chdir:
  assumes lv: "live v refs" and c: "cwd = Some c" "refs c > 0"
    and run: "cb_vfs_chdir_path v (vfs_root v) cwd path = (res, v')"
  shows "case res of Inl e \<Rightarrow> v' = v
    | Inr a \<Rightarrow> advances v v' (\<lambda>n. (refs(a := refs a + 1)) n - (if n = c then 1 else 0))"
proof (cases res)
  case (Inl e)
  then show ?thesis using run by (auto simp: cb_vfs_chdir_path_def Let_def split: sum.splits if_splits)
next
  case (Inr a)
  have a: "cb_vfs_lookup_node v (vfs_root v) cwd path = Inr a" "v' = ramfs_node_release (ramfs_node_retain v a) c"
    using run Inr c by (auto simp: cb_vfs_chdir_path_def Let_def split: sum.splits if_splits)
  let ?r = "refs(a := refs a + 1)"
  have r1: "advances v (ramfs_node_retain v a) ?r" by (rule advances_retain [OF lv live_lookup [OF lv a(1)]])
  then have "advances (ramfs_node_retain v a) v' (?r(c := ?r c - 1))"
    unfolding a(2) by (intro advances_release) (use c in \<open>simp_all add: advances_def\<close>)
  from advances_trans [OF r1 this] have "advances v v' (?r(c := ?r c - 1))" .
  moreover have "?r(c := ?r c - 1) = (\<lambda>n. ?r n - (if n = c then 1 else 0))" by auto
  ultimately show ?thesis using Inr by simp
qed

section \<open>Reading and writing, and walking a directory\<close>

lemma advances_read:
  assumes lv: "live v refs" and run: "node_read v a f err count = (r, out, e, f', v')"
  shows "advances v v' refs \<and> (\<exists>x. f' = f\<lparr>of_offset := x\<rparr>)"
proof (cases "nodes v a")
  case None
  then have "v' = v \<and> f' = f" using run by (simp add: node_read_def)
  moreover have "f = f\<lparr>of_offset := of_offset f\<rparr>" by simp
  ultimately show ?thesis using advances_refl [OF lv] by metis
next
  case (Some n)
  let ?w = "wall_clock_millis (v_host v)"
  have "v' = v \<and> f' = f \<or> v' = (upd_node v a (n\<lparr>n_atime := fst ?w\<rparr>))\<lparr>v_host := snd ?w\<rparr>"
    using run Some by (auto simp: node_read_def wall_clock_millis_def Let_def split: if_splits)
  moreover have "same_node n (n\<lparr>n_atime := now\<rparr>)" for now
    using live_data_ok [OF lv Some] by (simp add: same_node_def shape_def data_ok_def)
  ultimately have "advances v v' refs"
    using advances_refl [OF lv] advances_same_node [OF lv Some, of _ "snd ?w"] by auto
  moreover have f: "f = f\<lparr>of_offset := of_offset f\<rparr>" by simp
  have "\<exists>x. f' = f\<lparr>of_offset := x\<rparr>"
    using run Some by (auto simp: node_read_def wall_clock_millis_def Let_def split: if_splits) (metis f)+
  ultimately show ?thesis by blast
qed

lemma advances_write:
  assumes lv: "live v refs" and run: "node_write v a f err buf = (r, out, e, f', v')"
  shows "advances v v' refs \<and> (\<exists>x. f' = f\<lparr>of_offset := x\<rparr>)"
proof -
  have f: "f = f\<lparr>of_offset := of_offset f\<rparr>" by simp
  have off: "\<exists>x. f' = f\<lparr>of_offset := x\<rparr>"
    using run
    by (auto simp: node_write_def Let_def split: option.splits if_splits prod.splits)
      (metis f)+
  show ?thesis
  proof (cases "nodes v a")
    case None
    then have "v' = v" using run by (simp add: node_write_def)
    then show ?thesis using advances_refl [OF lv] off by simp
  next
    case (Some n)
    show ?thesis
    proof (cases "buf = []")
      case True
      then have "v' = v" using run Some by (auto simp: node_write_def split: if_splits)
      then show ?thesis using advances_refl [OF lv] off by simp
    next
      case False
      from Some live_data_ok [OF lv Some] False run show ?thesis
      proof (cases rule: node_write_cases)
        case refused
        then show ?thesis using advances_refl [OF lv] off by simp
      next
        case (no_memory h)
        then show ?thesis using advances_host [OF lv] off by simp
      next
        case (stored n' h)
        then show ?thesis using advances_same_node [OF lv Some] off by auto
      qed
    qed
  qed
qed

lemma live_child_at:
  assumes "live v refs" "cb_vfs_child_at v d i = Inr (Some c)"
  shows "c \<in> dom (nodes v)"
proof -
  obtain ext where e: "ramfs_inv v ext" by (rule liveE [OF assms(1)])
  then obtain K where K: "fs_inv v K ext" by (auto simp: ramfs_inv_def)
  obtain nd where d: "nodes v d = Some nd" "c \<in> set (children_list v nd)"
    using assms(2) by (auto simp: cb_vfs_child_at_def ramfs_child_at_def Let_def split: option.splits if_splits)
  then show ?thesis using children_list_eq [OF K d(1)] tree_kids_dom [OF fs_invD(1) [OF K]] by auto
qed

lemma live_next_sibling:
  assumes "live v refs" "cb_vfs_next_sibling v a = Inr (Some c)"
  shows "c \<in> dom (nodes v)"
proof -
  obtain ext where e: "ramfs_inv v ext" by (rule liveE [OF assms(1)])
  then obtain K where K: "fs_inv v K ext" by (auto simp: ramfs_inv_def)
  note t = fs_invD(1) [OF K]
  obtain n where n: "nodes v a = Some n" "n_next_sibling n = Some c"
    using assms(2) by (auto simp: cb_vfs_next_sibling_def ramfs_next_sibling_def split: option.splits)
  show ?thesis
  proof (cases "n_parent n")
    case None
    then show ?thesis using tree_free_next [OF t, of a] n by (simp add: nparent_def nnext_def)
  next
    case (Some p)
    then have "a \<in> set (K p)" using tree_parent [OF t, of a p] n by (simp add: nparent_def)
    then obtain xs ys where K': "K p = xs @ a # ys" by (metis split_list)
    have "seg (nodes v) (K p) None" by (rule tree_seg [OF t])
    then have "nnext (nodes v) a = ptr ys" unfolding K' by (simp add: seg_append hd_or_def)
    then have "c \<in> set (K p)" using n K' by (cases ys) (auto simp: nnext_def hd_or_def)
    then show ?thesis by (rule tree_kids_dom [OF t])
  qed
qed

end
