(* ===== verification/Kernel_Refs.thy ===== *)
theory Kernel_Refs
  imports Scheduler Vfs_Live
begin

text \<open>
  The references of the kernel and its invariant. Open files count the descriptors that hold them,
  pipes count the open files on their two ends, nodes have at least the references that open
  files, tasks and directory handles hold. \<open>kinv k x y\<close> is the invariant in the middle of an operation
  whose local variables hold \<open>x f\<close> references to the open file \<open>f\<close> and \<open>y n\<close> references to the node \<open>n\<close>;
  between operations both are zero.
\<close>

section \<open>Sums over a store\<close>

definition msum :: "('b \<Rightarrow> nat) \<Rightarrow> ('a \<rightharpoonup> 'b) \<Rightarrow> nat" where
  "msum w m = (\<Sum>a\<in>dom m. w (the (m a)))"

lemma msum_upd:
  assumes "finite (dom m)" "m a = Some t"
  shows "msum w (m(a \<mapsto> t')) + w t = msum w m + w t'"
proof -
  have d: "dom (m(a \<mapsto> t')) = dom m" using assms by auto
  have a: "a \<in> dom m" using assms by auto
  have "msum w (m(a \<mapsto> t')) = w t' + (\<Sum>b\<in>dom m - {a}. w (the (m b)))"
    unfolding msum_def d by (subst sum.remove [OF assms(1) a]) simp
  moreover have "msum w m = w t + (\<Sum>b\<in>dom m - {a}. w (the (m b)))"
    unfolding msum_def using assms by (subst sum.remove [OF assms(1) a]) simp
  ultimately show ?thesis by simp
qed

lemma msum_new:
  assumes "finite (dom m)" "m a = None"
  shows "msum w (m(a \<mapsto> t')) = msum w m + w t'"
proof -
  have "dom (m(a \<mapsto> t')) = insert a (dom m)" "a \<notin> dom m" using assms by auto
  then show ?thesis using assms(1) unfolding msum_def by (auto intro!: sum.cong)
qed

lemma msum_del:
  assumes "finite (dom m)" "m a = Some t"
  shows "msum w (m(a := None)) + w t = msum w m"
proof -
  have "msum w ((m(a := None))(a \<mapsto> t)) = msum w (m(a := None)) + w t"
    by (rule msum_new) (use assms in simp_all)
  moreover have "(m(a := None))(a \<mapsto> t) = m" using assms by auto
  ultimately show ?thesis by simp
qed

lemma msum_ge: "finite (dom m) \<Longrightarrow> m a = Some t \<Longrightarrow> w t \<le> msum w m"
  using msum_del [of m a t w] by simp

lemma msum_cong:
  "dom m' = dom m \<Longrightarrow> (\<And>a t t'. m a = Some t \<Longrightarrow> m' a = Some t' \<Longrightarrow> w t' = w t) \<Longrightarrow> msum w m' = msum w m"
  unfolding msum_def
proof (rule sum.cong)
  fix a assume d: "dom m' = dom m" and w: "\<And>a t t'. m a = Some t \<Longrightarrow> m' a = Some t' \<Longrightarrow> w t' = w t" and a: "a \<in> dom m"
  obtain t where "m a = Some t" using a by blast
  moreover obtain t' where "m' a = Some t'" using a d by blast
  ultimately show "w (the (m' a)) = w (the (m a))" using w [of a t t'] by simp
qed

lemma msum_pos: "finite (dom m) \<Longrightarrow> msum w m > 0 \<Longrightarrow> \<exists>a t. m a = Some t \<and> w t > 0"
  unfolding msum_def by (metis (mono_tags, lifting) domD option.sel sum.neutral zero_less_iff_neq_zero)

lemma msum_empty [simp]: "msum w (\<lambda>a. None) = 0"
  by (simp add: msum_def)

section \<open>Who holds what\<close>

definition fd_count :: "addr \<Rightarrow> cb_task \<Rightarrow> nat" where
  "fd_count f t = count_list (map fd_file (t_descriptors t)) (Some f)"

definition dir_nodes :: "cb_dir_handle \<Rightarrow> addr option list" where
  "dir_nodes h = (if d_in_use h then [d_node h, d_next h] else [])"

definition pending_node :: "cb_task \<Rightarrow> addr option" where
  "pending_node t = (case t_pending t of None \<Rightarrow> None | Some i \<Rightarrow> i_node i)"

definition held_nodes :: "cb_task \<Rightarrow> addr option list" where
  "held_nodes t = [t_root t, t_cwd t, i_node (t_image t), pending_node t] @ concat (map dir_nodes (t_directories t))"

definition node_count :: "addr \<Rightarrow> cb_task \<Rightarrow> nat" where
  "node_count n t = count_list (held_nodes t) (Some n)"

definition is_ops :: "file_ops \<Rightarrow> open_file \<Rightarrow> nat" where
  "is_ops ops file = (if of_ops file = ops then 1 else 0)"

definition file_refs :: "cb_kernel \<Rightarrow> addr \<Rightarrow> nat" where
  "file_refs k f = msum (fd_count f) (k_tasks k)"

definition ends :: "cb_kernel \<Rightarrow> file_ops \<Rightarrow> nat" where
  "ends k ops = msum (is_ops ops) (k_files k)"

definition node_refs :: "cb_kernel \<Rightarrow> addr \<Rightarrow> nat" where
  "node_refs k n = msum (node_count n) (k_tasks k) + ends k (NodeFile n)"

section \<open>The invariant\<close>

abbreviation seq :: "cb_kernel \<Rightarrow> nat" where
  "seq k \<equiv> alloc_seq (k_host k)"

definition files_ok :: "cb_kernel \<Rightarrow> (addr \<Rightarrow> nat) \<Rightarrow> bool" where
  "files_ok k x \<longleftrightarrow> finite (dom (k_files k)) \<and>
     (\<forall>f. case k_files k f of
        None \<Rightarrow> file_refs k f + x f = 0
      | Some file \<Rightarrow> of_references file = file_refs k f + x f \<and> of_references file > 0 \<and> f < seq k)"

definition pipes_ok :: "cb_kernel \<Rightarrow> bool" where
  "pipes_ok k \<longleftrightarrow>
     (\<forall>p. case k_pipes k p of
        None \<Rightarrow> ends k (PipeReadEnd p) = 0 \<and> ends k (PipeWriteEnd p) = 0
      | Some q \<Rightarrow> pipe_ok q \<and> pp_readers q = ends k (PipeReadEnd p) \<and> pp_writers q = ends k (PipeWriteEnd p) \<and>
                  (pp_readers q > 0 \<or> pp_writers q > 0) \<and> p < seq k)"

text \<open>A task that is off the processor inside a pipe call still has the descriptor it uses.\<close>

definition holds_end :: "(addr \<rightharpoonup> open_file) \<Rightarrow> cb_task \<Rightarrow> addr \<Rightarrow> (addr \<Rightarrow> file_ops) \<Rightarrow> bool" where
  "holds_end files t f e \<longleftrightarrow> Some f \<in> set (map fd_file (t_descriptors t)) \<and>
     (\<exists>p file. files f = Some file \<and> of_ops file = e p)"

fun suspended_at :: "(addr \<rightharpoonup> open_file) \<Rightarrow> cb_task \<Rightarrow> suspended \<Rightarrow> bool" where
  "suspended_at files t (In_pipe_read f n) \<longleftrightarrow> holds_end files t f PipeReadEnd"
| "suspended_at files t (In_pipe_write f source tot) \<longleftrightarrow> holds_end files t f PipeWriteEnd \<and> tot \<le> length source"
| "suspended_at files t In_exec \<longleftrightarrow> t_state t = CB_TASK_EXEC_PENDING"
| "suspended_at files t In_exit \<longleftrightarrow> False"
| "suspended_at files t _ \<longleftrightarrow> True"

definition off_processor :: "cb_task \<Rightarrow> bool" where
  "off_processor t \<longleftrightarrow> t_state t \<noteq> CB_TASK_RUNNING \<and> t_state t \<noteq> CB_TASK_ZOMBIE \<and> t_state t \<noteq> CB_TASK_DEAD"

text \<open>\<open>task_ok root files t\<close>: the shape of a task, and that it can go on from where it was suspended.\<close>

definition task_shape :: "addr option \<Rightarrow> cb_task \<Rightarrow> bool" where
  "task_shape root t \<longleftrightarrow> length (t_descriptors t) = CB_MAX_FDS \<and> length (t_directories t) = CB_MAX_DIRS \<and>
     t_root t = root \<and> t_cwd t \<noteq> None \<and>
     (\<forall>h\<in>set (t_directories t). d_in_use h \<longrightarrow> d_node h \<noteq> None) \<and>
     (t_state t = CB_TASK_EXEC_PENDING \<longrightarrow> t_pending t \<noteq> None \<and> t_suspended t = In_exec)"

definition task_ok :: "addr option \<Rightarrow> (addr \<rightharpoonup> open_file) \<Rightarrow> cb_task \<Rightarrow> bool" where
  "task_ok root files t \<longleftrightarrow> task_shape root t \<and> (off_processor t \<longrightarrow> suspended_at files t (t_suspended t))"

definition tasks_ok :: "cb_kernel \<Rightarrow> bool" where
  "tasks_ok k \<longleftrightarrow> finite (dom (k_tasks k)) \<and> distinct (k_list k) \<and> set (k_list k) \<subseteq> dom (k_tasks k) \<and>
     (\<forall>a t. k_tasks k a = Some t \<longrightarrow> a < seq k \<and> task_ok (vfs_root (k_vfs k)) (k_files k) t)"

definition kinv :: "cb_kernel \<Rightarrow> (addr \<Rightarrow> nat) \<Rightarrow> (addr \<Rightarrow> nat) \<Rightarrow> bool" where
  "kinv k x y \<longleftrightarrow> files_ok k x \<and> pipes_ok k \<and> tasks_ok k \<and> live (k_vfs k) (\<lambda>n. node_refs k n + y n) \<and> \<not> k_fault k"

abbreviation zero :: "addr \<Rightarrow> nat" where
  "zero \<equiv> \<lambda>_. 0"

lemma kinvD:
  assumes "kinv k x y"
  shows "files_ok k x" "pipes_ok k" "tasks_ok k" "live (k_vfs k) (\<lambda>n. node_refs k n + y n)" "\<not> k_fault k"
  using assms by (simp_all add: kinv_def)

lemma files_okI:
  assumes "finite (dom (k_files k))"
    and "\<And>f. k_files k f = None \<Longrightarrow> file_refs k f = 0 \<and> x f = 0"
    and "\<And>f file. k_files k f = Some file \<Longrightarrow>
           of_references file = file_refs k f + x f \<and> of_references file > 0 \<and> f < seq k"
  shows "files_ok k x"
  unfolding files_ok_def
proof (intro conjI allI)
  fix f
  show "case k_files k f of None \<Rightarrow> file_refs k f + x f = 0
      | Some file \<Rightarrow> of_references file = file_refs k f + x f \<and> of_references file > 0 \<and> f < seq k"
  proof (cases "k_files k f")
    case None
    then show ?thesis using assms(2) by simp
  next
    case (Some "file")
    show ?thesis unfolding Some option.case by (rule assms(3) [OF Some])
  qed
qed (rule assms(1))

lemma pipes_okI:
  assumes "\<And>p. k_pipes k p = None \<Longrightarrow> ends k (PipeReadEnd p) = 0 \<and> ends k (PipeWriteEnd p) = 0"
    and "\<And>p q. k_pipes k p = Some q \<Longrightarrow>
           pipe_ok q \<and> pp_readers q = ends k (PipeReadEnd p) \<and> pp_writers q = ends k (PipeWriteEnd p) \<and>
           (pp_readers q > 0 \<or> pp_writers q > 0) \<and> p < seq k"
  shows "pipes_ok k"
  unfolding pipes_ok_def
proof
  fix p
  show "case k_pipes k p of None \<Rightarrow> ends k (PipeReadEnd p) = 0 \<and> ends k (PipeWriteEnd p) = 0
      | Some q \<Rightarrow> pipe_ok q \<and> pp_readers q = ends k (PipeReadEnd p) \<and> pp_writers q = ends k (PipeWriteEnd p) \<and>
                  (pp_readers q > 0 \<or> pp_writers q > 0) \<and> p < seq k"
  proof (cases "k_pipes k p")
    case None
    then show ?thesis using assms(1) by simp
  next
    case (Some q)
    show ?thesis unfolding Some option.case by (rule assms(2) [OF Some])
  qed
qed

lemma finite_tasks: "kinv k x y \<Longrightarrow> finite (dom (k_tasks k))"
  by (simp add: kinv_def tasks_ok_def)

lemma finite_files: "kinv k x y \<Longrightarrow> finite (dom (k_files k))"
  by (simp add: kinv_def files_ok_def)

lemma kinv_task: "kinv k x y \<Longrightarrow> k_tasks k a = Some t \<Longrightarrow> a < seq k \<and> task_ok (vfs_root (k_vfs k)) (k_files k) t"
  by (simp add: kinv_def tasks_ok_def)

lemma kinv_file_at:
  "kinv k x y \<Longrightarrow> case k_files k f of
        None \<Rightarrow> file_refs k f + x f = 0
      | Some file \<Rightarrow> of_references file = file_refs k f + x f \<and> of_references file > 0 \<and> f < seq k"
  unfolding kinv_def files_ok_def by blast

lemma kinv_pipe_at:
  "kinv k x y \<Longrightarrow> case k_pipes k p of
        None \<Rightarrow> ends k (PipeReadEnd p) = 0 \<and> ends k (PipeWriteEnd p) = 0
      | Some q \<Rightarrow> pipe_ok q \<and> pp_readers q = ends k (PipeReadEnd p) \<and> pp_writers q = ends k (PipeWriteEnd p) \<and>
                  (pp_readers q > 0 \<or> pp_writers q > 0) \<and> p < seq k"
  unfolding kinv_def pipes_ok_def by blast

lemma kinv_file:
  assumes "kinv k x y" "k_files k f = Some file"
  shows "of_references file = file_refs k f + x f" "of_references file > 0" "f < seq k"
  using kinv_file_at [OF assms(1), of f] assms(2) by auto

lemma kinv_no_file:
  assumes "kinv k x y" "k_files k f = None" shows "file_refs k f = 0" "x f = 0"
  using kinv_file_at [OF assms(1), of f] assms(2) by simp_all

lemma kinv_pipe:
  assumes "kinv k x y" "k_pipes k p = Some q"
  shows "pipe_ok q" "pp_readers q = ends k (PipeReadEnd p)" "pp_writers q = ends k (PipeWriteEnd p)"
    "pp_readers q > 0 \<or> pp_writers q > 0" "p < seq k"
  using kinv_pipe_at [OF assms(1), of p] assms(2) by auto

lemma kinv_no_pipe:
  assumes "kinv k x y" "k_pipes k p = None"
  shows "ends k (PipeReadEnd p) = 0" "ends k (PipeWriteEnd p) = 0"
  using kinv_pipe_at [OF assms(1), of p] assms(2) by simp_all

lemma count_list_pos: "count_list xs v > 0 \<longleftrightarrow> v \<in> set xs"
  by (simp add: count_list_0_iff zero_less_iff_neq_zero)

text \<open>Everything a task or a file refers to exists.\<close>

lemma kinv_fd_file:
  assumes "kinv k x y" "k_tasks k a = Some t" "Some f \<in> set (map fd_file (t_descriptors t))"
  shows "k_files k f \<noteq> None"
proof
  assume "k_files k f = None"
  then have "file_refs k f = 0" using kinv_no_file [OF assms(1)] by simp
  moreover have "fd_count f t > 0" using assms(3) by (simp add: fd_count_def count_list_pos)
  ultimately show False
    using msum_ge [of "k_tasks k" a t "fd_count f"] finite_tasks [OF assms(1)] assms(2) by (simp add: file_refs_def)
qed

lemma fd_lookup_in:
  assumes "task_shape r t" "fd_lookup t d = Some f"
  shows "valid_fd d" "nat d < length (t_descriptors t)" "fd_file (t_descriptors t ! nat d) = Some f"
    "Some f \<in> set (map fd_file (t_descriptors t))"
proof -
  show v: "valid_fd d" and e: "fd_file (t_descriptors t ! nat d) = Some f"
    using assms(2) by (auto simp: fd_lookup_def fd_entry_def split: if_splits)
  show l: "nat d < length (t_descriptors t)" using v assms(1) by (auto simp: valid_fd_def task_shape_def)
  show "Some f \<in> set (map fd_file (t_descriptors t))" using nth_mem [OF l] e by force
qed

lemma kinv_end_pipe:
  assumes "kinv k x y" "k_files k f = Some file" "of_ops file = PipeReadEnd p \<or> of_ops file = PipeWriteEnd p"
  shows "k_pipes k p \<noteq> None"
proof
  assume "k_pipes k p = None"
  then have "ends k (of_ops file) = 0" using kinv_no_pipe [OF assms(1)] assms(3) by auto
  then show False
    using msum_ge [of "k_files k" f "file" "is_ops (of_ops file)"] finite_files [OF assms(1)] assms(2)
    by (simp add: ends_def is_ops_def)
qed

lemma kinv_node_live:
  assumes "kinv k x y" "node_refs k n + y n > 0"
  shows "n \<in> dom (nodes (k_vfs k))"
  using live_dom [OF kinvD(4) [OF assms(1)]] assms(2) by simp

lemma kinv_held_node:
  assumes "kinv k x y" "k_tasks k a = Some t" "Some n \<in> set (held_nodes t)"
  shows "n \<in> dom (nodes (k_vfs k))" "node_refs k n > 0"
proof -
  have "node_count n t > 0" using assms(3) by (simp add: node_count_def count_list_pos)
  then show "node_refs k n > 0"
    using msum_ge [of "k_tasks k" a t "node_count n"] finite_tasks [OF assms(1)] assms(2) by (simp add: node_refs_def)
  then show "n \<in> dom (nodes (k_vfs k))" using kinv_node_live [OF assms(1)] by simp
qed

lemma kinv_file_node:
  assumes "kinv k x y" "k_files k f = Some file" "of_ops file = NodeFile n"
  shows "n \<in> dom (nodes (k_vfs k))"
proof -
  have "is_ops (NodeFile n) file \<le> ends k (NodeFile n)"
    unfolding ends_def by (rule msum_ge [OF finite_files [OF assms(1)] assms(2)])
  then show ?thesis using kinv_node_live [OF assms(1), of n] assms(3) by (simp add: node_refs_def is_ops_def)
qed

end
