(* ===== verification/Kernel_Inv.thy ===== *)
theory Kernel_Inv
  imports Kernel_Refs
begin

text \<open>
  The steps out of which every call is made keep the invariant: updates of one task, of the file
  system, of one open file, a pipe, taking and dropping references, descriptors and directory handles.
  \<open>inc r x\<close> adds the reference \<open>r\<close> to those the running operation holds itself.
\<close>

section \<open>References in flight\<close>

definition inc :: "addr option \<Rightarrow> (addr \<Rightarrow> nat) \<Rightarrow> addr \<Rightarrow> nat" where
  "inc r x = (\<lambda>m. x m + (if r = Some m then 1 else 0))"

lemma inc_None [simp]: "inc None x = x"
  by (simp add: inc_def)

lemma inc_commute: "inc r (inc s x) = inc s (inc r x)"
  by (auto simp: inc_def)

lemma inc_apply: "inc r x m = x m + (if r = Some m then 1 else 0)"
  by (simp add: inc_def)

section \<open>Updates of the stores\<close>

lemma task_ok_files:
  assumes "task_ok r files t"
    and "\<And>f. Some f \<in> set (map fd_file (t_descriptors t)) \<Longrightarrow>
           map_option of_ops (files' f) = map_option of_ops (files f)"
  shows "task_ok r files' t"
proof -
  have h: "holds_end files' t f e" if "holds_end files t f e" for f e
  proof -
    from that obtain p o' where *: "Some f \<in> set (map fd_file (t_descriptors t))" "files f = Some o'" "of_ops o' = e p"
      by (auto simp: holds_end_def)
    then obtain o'' where "files' f = Some o''" "of_ops o'' = of_ops o'" using assms(2) [OF *(1)] by auto
    then show ?thesis using *(1,3) unfolding holds_end_def by (metis (no_types))
  qed
  have "suspended_at files' t s" if "suspended_at files t s" for s
    using that h by (cases s) auto
  then show ?thesis using assms(1) by (simp add: task_ok_def)
qed

text \<open>A change of everything but the tasks.\<close>

lemma kinv_stores:
  assumes "kinv k x y" "k_tasks k' = k_tasks k" "k_list k' = k_list k" "\<not> k_fault k'"
    and "seq k \<le> seq k'" "vfs_root (k_vfs k') = vfs_root (k_vfs k)"
    and "files_ok k' x'" "pipes_ok k'" "live (k_vfs k') (\<lambda>n. node_refs k' n + y' n)"
    and "\<And>f. file_refs k f > 0 \<Longrightarrow> map_option of_ops (k_files k' f) = map_option of_ops (k_files k f)"
  shows "kinv k' x' y'"
proof -
  have "task_ok (vfs_root (k_vfs k')) (k_files k') t" if t: "k_tasks k a = Some t" for a t
  proof -
    have "file_refs k f > 0" if "Some f \<in> set (map fd_file (t_descriptors t))" for f
      using msum_ge [OF finite_tasks [OF assms(1)] t, of "fd_count f"] that count_list_pos [of _ "Some f"]
      unfolding file_refs_def fd_count_def by (metis less_le_trans)
    then show ?thesis
      using task_ok_files assms(6,10) kinv_task [OF assms(1) t] by metis
  qed
  then show ?thesis
    using assms(2-9) kinvD(3) [OF assms(1)] unfolding kinv_def tasks_ok_def
    by (auto intro: less_le_trans [OF _ assms(5)])
qed

text \<open>A change of fields that hold no references.\<close>

lemma kinv_fields [simp]:
  "kinv (k\<lparr>k_console := c\<rparr>) x y = kinv k x y"
  "kinv (k\<lparr>k_current := u\<rparr>) x y = kinv k x y"
  "kinv (k\<lparr>k_cursor := u\<rparr>) x y = kinv k x y"
  "kinv (k\<lparr>k_next_pid := i\<rparr>) x y = kinv k x y"
  "kinv (k\<lparr>k_boot_pid := i\<rparr>) x y = kinv k x y"
  "kinv (k\<lparr>k_boot_status := i\<rparr>) x y = kinv k x y"
  "kinv (k\<lparr>k_boot_finished := b\<rparr>) x y = kinv k x y"
  "kinv (k\<lparr>k_programs := ps\<rparr>) x y = kinv k x y"
  by (simp_all add: kinv_def files_ok_def pipes_ok_def tasks_ok_def file_refs_def ends_def node_refs_def
      cong: option.case_cong)

text \<open>The file system takes a step; references may be taken or dropped on the way.\<close>

lemma kinv_vfs:
  assumes "kinv k x y" "advances (k_vfs k) v' (\<lambda>n. node_refs k n + y' n)"
  shows "kinv (k\<lparr>k_vfs := v'\<rparr>) x y'"
proof -
  have a: "live v' (\<lambda>n. node_refs k n + y' n)" "seq k \<le> alloc_seq (v_host v')" "vfs_root v' = vfs_root (k_vfs k)"
    using assms(2) by (auto simp: advances_def frame_def)
  have r: "node_refs (k\<lparr>k_vfs := v'\<rparr>) = node_refs k" "file_refs (k\<lparr>k_vfs := v'\<rparr>) = file_refs k"
    "ends (k\<lparr>k_vfs := v'\<rparr>) = ends k"
    by (auto simp: fun_eq_iff node_refs_def file_refs_def ends_def)
  have "files_ok (k\<lparr>k_vfs := v'\<rparr>) x"
    by (rule files_okI)
      (use a(2) finite_files [OF assms(1)] kinv_file [OF assms(1)] kinv_no_file [OF assms(1)] in
        \<open>auto simp: r intro: less_le_trans [OF _ a(2)]\<close>)
  moreover have "pipes_ok (k\<lparr>k_vfs := v'\<rparr>)"
    by (rule pipes_okI)
      (use a(2) kinv_pipe [OF assms(1)] kinv_no_pipe [OF assms(1)] in \<open>auto simp: r intro: less_le_trans [OF _ a(2)]\<close>)
  ultimately show ?thesis
    by (intro kinv_stores [OF assms(1)]) (use a kinvD(5) [OF assms(1)] in \<open>simp_all add: r\<close>)
qed

lemma kinv_live: "kinv k x y \<Longrightarrow> live (k_vfs k) (\<lambda>n. node_refs k n + y n)"
  by (rule kinvD)

lemma kinv_host: "kinv k x y \<Longrightarrow> seq k \<le> alloc_seq h \<Longrightarrow> kinv (set_host k h) x y"
  by (rule kinv_vfs) (auto intro: advances_host kinv_live)

lemma kinv_weaken:
  assumes "kinv k x y" "\<And>n. y' n \<le> y n" shows "kinv k x y'"
  using assms live_mono [OF kinv_live [OF assms(1)], of "\<lambda>n. node_refs k n + y' n"] by (simp add: kinv_def)

section \<open>References to nodes\<close>

lemma kinv_retain:
  assumes "kinv k x y" "\<And>m. n = Some m \<Longrightarrow> m \<in> dom (nodes (k_vfs k))"
  shows "kinv (cb_vfs_node_retain k n) x (inc n y)"
proof (cases n)
  case None
  then show ?thesis using assms(1) by (simp add: cb_vfs_node_retain_def)
next
  case (Some m)
  have m: "m \<in> dom (nodes (k_vfs k))" using assms(2) Some by simp
  have "advances (k_vfs k) (ramfs_node_retain (k_vfs k) m) (\<lambda>i. node_refs k i + inc n y i)"
    using advances_retain [OF kinv_live [OF assms(1)] m] by (simp add: Some inc_def fun_upd_def if_distrib cong: if_cong)
      (smt (verit, best) advances_def live_mono add.assoc order_refl)
  then show ?thesis using kinv_vfs [OF assms(1)] m Some by (auto simp: cb_vfs_node_retain_def)
qed

lemma kinv_release:
  assumes "kinv k x (inc n y)"
  shows "kinv (cb_vfs_node_release k n) x y"
proof (cases n)
  case None
  then show ?thesis using assms by (simp add: cb_vfs_node_release_def)
next
  case (Some m)
  have m: "m \<in> dom (nodes (k_vfs k))" using kinv_node_live [OF assms, of m] Some by (simp add: inc_def)
  have "(\<lambda>i. node_refs k i + inc n y i)(m := node_refs k m + inc n y m - 1) = (\<lambda>i. node_refs k i + y i)"
    by (auto simp: Some inc_def)
  then have "advances (k_vfs k) (ramfs_node_release (k_vfs k) m) (\<lambda>i. node_refs k i + y i)"
    using advances_release [OF kinv_live [OF assms], of m] by (simp add: Some inc_def)
  then show ?thesis using kinv_vfs [OF assms] m Some by (auto simp: cb_vfs_node_release_def)
qed

lemma node_ops_fields [simp]:
  "k_tasks (cb_vfs_node_retain k n) = k_tasks k" "k_tasks (cb_vfs_node_release k n) = k_tasks k"
  "k_files (cb_vfs_node_retain k n) = k_files k" "k_files (cb_vfs_node_release k n) = k_files k"
  "k_list (cb_vfs_node_retain k n) = k_list k" "k_list (cb_vfs_node_release k n) = k_list k"
  "k_current (cb_vfs_node_retain k n) = k_current k" "k_current (cb_vfs_node_release k n) = k_current k"
  by (simp_all add: cb_vfs_node_retain_def cb_vfs_node_release_def fault_def split: option.split)

lemma node_ops_commute:
  "cb_vfs_node_retain (k\<lparr>k_tasks := T\<rparr>) n = (cb_vfs_node_retain k n)\<lparr>k_tasks := T\<rparr>"
  "cb_vfs_node_release (k\<lparr>k_tasks := T\<rparr>) n = (cb_vfs_node_release k n)\<lparr>k_tasks := T\<rparr>"
  "cb_vfs_node_release (k\<lparr>k_files := F\<rparr>) n = (cb_vfs_node_release k n)\<lparr>k_files := F\<rparr>"
  by (simp_all add: cb_vfs_node_retain_def cb_vfs_node_release_def fault_def split: option.split)

section \<open>Updates of tasks\<close>

lemma kinv_tasks:
  assumes "kinv k x y"
    and fr: "\<And>f. file_refs (k\<lparr>k_tasks := T\<rparr>) f + x' f = file_refs k f + x f"
    and nr: "\<And>n. node_refs (k\<lparr>k_tasks := T\<rparr>) n + y' n \<le> node_refs k n + y n"
    and ts: "tasks_ok (k\<lparr>k_tasks := T\<rparr>)"
  shows "kinv (k\<lparr>k_tasks := T\<rparr>) x' y'"
proof -
  have e: "ends (k\<lparr>k_tasks := T\<rparr>) = ends k" by (simp add: fun_eq_iff ends_def)
  have "files_ok (k\<lparr>k_tasks := T\<rparr>) x'"
    by (rule files_okI) (use finite_files [OF assms(1)] kinv_file [OF assms(1)] kinv_no_file [OF assms(1)] fr in
        \<open>auto simp del: add_gr_0, (metis add_is_0)+\<close>)
  moreover have "pipes_ok (k\<lparr>k_tasks := T\<rparr>)"
    using kinvD(2) [OF assms(1)] by (simp add: pipes_ok_def e cong: option.case_cong)
  moreover have "live (k_vfs k) (\<lambda>n. node_refs (k\<lparr>k_tasks := T\<rparr>) n + y' n)"
    by (rule live_mono [OF kinv_live [OF assms(1)] nr])
  ultimately show ?thesis using kinvD(5) [OF assms(1)] ts by (simp add: kinv_def)
qed

text \<open>
  The one lemma behind every update of a task: descriptors and nodes may move between the task and
  the running operation. References to nodes may also be forgotten.
\<close>

lemma kinv_task_upd:
  assumes "kinv k x y" "k_tasks k a = Some t" "task_ok (vfs_root (k_vfs k)) (k_files k) t'"
    and "\<And>f. fd_count f t' + x' f = fd_count f t + x f"
    and "\<And>n. node_count n t' + y' n \<le> node_count n t + y n"
  shows "kinv (k\<lparr>k_tasks := (k_tasks k)(a \<mapsto> t')\<rparr>) x' y'"
proof -
  let ?k = "k\<lparr>k_tasks := (k_tasks k)(a \<mapsto> t')\<rparr>"
  note fin = finite_tasks [OF assms(1)]
  have fr: "file_refs ?k f + x' f = file_refs k f + x f" for f
    using msum_upd [OF fin assms(2), of "fd_count f" t'] assms(4) [of f] by (simp add: file_refs_def)
  have nr: "node_refs ?k n + y' n \<le> node_refs k n + y n" for n
    using msum_upd [OF fin assms(2), of "node_count n" t'] assms(5) [of n] by (simp add: node_refs_def ends_def)
  have "tasks_ok ?k"
    using kinvD(3) [OF assms(1)] assms(2,3) unfolding tasks_ok_def by auto
  then show ?thesis by (rule kinv_tasks [OF assms(1) fr nr])
qed

lemma kinv_task_new:
  assumes "kinv k x y" "k_tasks k a = None" "a < seq k" "task_ok (vfs_root (k_vfs k)) (k_files k) t'"
    and "\<And>f. fd_count f t' + x' f = x f" "\<And>n. node_count n t' + y' n \<le> y n"
  shows "kinv (k\<lparr>k_tasks := (k_tasks k)(a \<mapsto> t')\<rparr>) x' y'"
proof -
  let ?k = "k\<lparr>k_tasks := (k_tasks k)(a \<mapsto> t')\<rparr>"
  note fin = finite_tasks [OF assms(1)]
  have fr: "file_refs ?k f + x' f = file_refs k f + x f" for f
    using msum_new [OF fin assms(2), of "fd_count f" t'] assms(5) [of f] by (simp add: file_refs_def)
  have nr: "node_refs ?k n + y' n \<le> node_refs k n + y n" for n
    using msum_new [OF fin assms(2), of "node_count n" t'] assms(6) [of n] by (simp add: node_refs_def ends_def)
  have "tasks_ok ?k"
    using kinvD(3) [OF assms(1)] assms(3,4) unfolding tasks_ok_def by auto
  then show ?thesis by (rule kinv_tasks [OF assms(1) fr nr])
qed

lemma kinv_task_del:
  assumes "kinv k x y" "k_tasks k a = Some t" "a \<notin> set (k_list k)"
    and "\<And>f. fd_count f t = 0" "\<And>n. y' n \<le> node_count n t + y n"
  shows "kinv (k\<lparr>k_tasks := (k_tasks k)(a := None)\<rparr>) x y'"
proof -
  let ?k = "k\<lparr>k_tasks := (k_tasks k)(a := None)\<rparr>"
  note fin = finite_tasks [OF assms(1)]
  have fr: "file_refs ?k f + x f = file_refs k f + x f" for f
    using msum_del [OF fin assms(2), of "fd_count f"] assms(4) [of f] by (simp add: file_refs_def)
  have nr: "node_refs ?k n + y' n \<le> node_refs k n + y n" for n
    using msum_del [OF fin assms(2), of "node_count n"] assms(5) [of n] by (simp add: node_refs_def ends_def)
  have "tasks_ok ?k"
    using kinvD(3) [OF assms(1)] assms(3) unfolding tasks_ok_def by (auto split: if_splits)
  then show ?thesis by (rule kinv_tasks [OF assms(1) fr nr])
qed

section \<open>Updates of open files\<close>

lemma msum_fun_upd:
  assumes "finite (dom m)"
  shows "msum w (m(a := v)) + (case m a of None \<Rightarrow> 0 | Some t \<Rightarrow> w t) = msum w m + (case v of None \<Rightarrow> 0 | Some t \<Rightarrow> w t)"
  using msum_upd [OF assms, of a _ w] msum_new [OF assms, of a w] msum_del [OF assms, of a _ w]
  by (cases "m a"; cases v) (auto simp: fun_upd_idem)

text \<open>
  Replacing one open file, and the pipes at the same time: \<open>was\<close> and \<open>now\<close> are the operation tables
  before and after.
\<close>

lemma kinv_file_upd:
  assumes "kinv k x y"
    and f: "\<And>g. g \<noteq> f \<Longrightarrow> x' g = x g"
    and old: "case k_files k f of None \<Rightarrow> was = None | Some file \<Rightarrow> was = Some (of_ops file)"
    and new: "case v of None \<Rightarrow> file_refs k f = 0 \<and> x' f = 0 \<and> now = None
             | Some file \<Rightarrow> of_references file = file_refs k f + x' f \<and> of_references file > 0 \<and> f < seq k \<and> now = Some (of_ops file)"
    and same: "file_refs k f > 0 \<Longrightarrow> now = was"
    and nodes: "\<And>n. (if now = Some (NodeFile n) then 1 else 0) + y' n \<le> (if was = Some (NodeFile n) then 1 else 0) + y n"
    and pipes: "pipes_ok (k\<lparr>k_files := (k_files k)(f := v), k_pipes := P\<rparr>)"
  shows "kinv (k\<lparr>k_files := (k_files k)(f := v), k_pipes := P\<rparr>) x' y'"
proof -
  let ?k = "k\<lparr>k_files := (k_files k)(f := v), k_pipes := P\<rparr>"
  note fin = finite_files [OF assms(1)]
  have fr: "file_refs ?k = file_refs k" by (simp add: fun_eq_iff file_refs_def)
  have "files_ok ?k x'"
    by (rule files_okI) (use fin kinv_file [OF assms(1)] kinv_no_file [OF assms(1)] f new in
        \<open>auto simp: fr simp del: add_gr_0 split: if_splits\<close>)
  moreover have "node_refs ?k n + y' n \<le> node_refs k n + y n" for n
    using msum_fun_upd [OF fin, of "is_ops (NodeFile n)" f v] old new nodes [of n]
    by (auto simp: node_refs_def ends_def is_ops_def split: option.splits if_splits)
  then have "live (k_vfs k) (\<lambda>n. node_refs ?k n + y' n)"
    by (rule live_mono [OF kinv_live [OF assms(1)]])
  moreover have "map_option of_ops (k_files ?k g) = map_option of_ops (k_files k g)" if "file_refs k g > 0" for g
    using that old new same by (auto split: option.splits if_splits)
  ultimately show ?thesis
    by (intro kinv_stores [OF assms(1)]) (use kinvD(5) [OF assms(1)] pipes in simp_all)
qed

lemma ends_files:
  assumes "finite (dom (k_files k))"
  shows "ends (k\<lparr>k_files := (k_files k)(f := v)\<rparr>) e + (case k_files k f of None \<Rightarrow> 0 | Some t \<Rightarrow> is_ops e t) =
         ends k e + (case v of None \<Rightarrow> 0 | Some t \<Rightarrow> is_ops e t)"
  using msum_fun_upd [OF assms, of "is_ops e" f v] by (simp add: ends_def)

text \<open>A file whose table of operations stays.\<close>

lemma kinv_file_same:
  assumes "kinv k x y" "k_files k f = Some file" "of_ops file' = of_ops file"
    "of_references file' = file_refs k f + x' f" "of_references file' > 0" "\<And>g. g \<noteq> f \<Longrightarrow> x' g = x g"
  shows "kinv (k\<lparr>k_files := (k_files k)(f \<mapsto> file')\<rparr>) x' y"
proof -
  have e: "ends (k\<lparr>k_files := (k_files k)(f \<mapsto> file')\<rparr>) o' = ends k o'" for o'
    using ends_files [OF finite_files [OF assms(1)], of f "Some file'" o'] assms(2,3) by (simp add: is_ops_def)
  have "pipes_ok (k\<lparr>k_files := (k_files k)(f \<mapsto> file')\<rparr>)"
    using kinvD(2) [OF assms(1)] by (simp add: pipes_ok_def e cong: option.case_cong)
  then have "kinv (k\<lparr>k_files := (k_files k)(f := Some file'), k_pipes := k_pipes k\<rparr>) x' y"
    by (intro kinv_file_upd [OF assms(1), where was = "Some (of_ops file)" and now = "Some (of_ops file)"])
      (use assms kinv_file(3) [OF assms(1,2)] in simp_all)
  then show ?thesis by simp
qed

lemma kinv_offset:
  "kinv k x y \<Longrightarrow> k_files k f = Some file \<Longrightarrow> kinv (k\<lparr>k_files := (k_files k)(f \<mapsto> file\<lparr>of_offset := i\<rparr>)\<rparr>) x y"
  by (rule kinv_file_same) (use kinv_file in auto)

lemma kinv_file_retain:
  assumes "kinv k x y" "k_files k f \<noteq> None"
  shows "kinv (cb_open_file_retain k f) (inc (Some f) x) y"
proof -
  obtain o' where o': "k_files k f = Some o'" using assms(2) by auto
  show ?thesis
    using kinv_file_same [OF assms(1) o', of "o'\<lparr>of_references := of_references o' + 1\<rparr>" "inc (Some f) x"]
      kinv_file [OF assms(1) o']
    by (simp add: cb_open_file_retain_def o' inc_def)
qed

text \<open>A new file takes over the reference to its node.\<close>

lemma kinv_file_new:
  assumes "kinv k x (inc n y)" "k_files k f = None" "f < seq k" "of_references file = 1"
    and "\<And>m. of_ops file = NodeFile m \<Longrightarrow> n = Some m"
    and "\<And>p. of_ops file \<noteq> PipeReadEnd p \<and> of_ops file \<noteq> PipeWriteEnd p"
  shows "kinv (k\<lparr>k_files := (k_files k)(f \<mapsto> file)\<rparr>) (inc (Some f) x) y"
proof -
  have e: "ends (k\<lparr>k_files := (k_files k)(f \<mapsto> file)\<rparr>) o' = ends k o'" if "of_ops file \<noteq> o'" for o'
    using ends_files [OF finite_files [OF assms(1)], of f "Some file" o'] assms(2) that by (simp add: is_ops_def)
  have "pipes_ok (k\<lparr>k_files := (k_files k)(f \<mapsto> file)\<rparr>)"
    using kinvD(2) [OF assms(1)] assms(6) by (simp add: pipes_ok_def e cong: option.case_cong)
  then have "kinv (k\<lparr>k_files := (k_files k)(f := Some file), k_pipes := k_pipes k\<rparr>) (inc (Some f) x) y"
    by (intro kinv_file_upd [OF assms(1), where was = None and now = "Some (of_ops file)"])
      (use assms kinv_no_file [OF assms(1,2)] in \<open>auto simp: inc_def\<close>)
  then show ?thesis by simp
qed

section \<open>Loops over the tasks\<close>

text \<open>Every wake-up loop changes the state of a task from blocked to runnable, and the wake reason.\<close>

definition wakes :: "(cb_task \<Rightarrow> cb_task) \<Rightarrow> bool" where
  "wakes g \<longleftrightarrow> (\<forall>t. g t = t \<or> is_blocked (t_state t) \<and>
     (\<exists>r. g t = t\<lparr>t_state := CB_TASK_RUNNABLE, t_wake_reason := r\<rparr>))"

lemma wakesI:
  assumes "\<And>t. g t = t \<or> is_blocked (t_state t) \<and>
    (g t = t\<lparr>t_state := CB_TASK_RUNNABLE\<rparr> \<or> (\<exists>r. g t = t\<lparr>t_wake_reason := r, t_state := CB_TASK_RUNNABLE\<rparr>))"
  shows "wakes g"
proof -
  have "t\<lparr>t_state := CB_TASK_RUNNABLE\<rparr> = t\<lparr>t_state := CB_TASK_RUNNABLE, t_wake_reason := t_wake_reason t\<rparr>" for t by simp
  moreover have "t\<lparr>t_wake_reason := r, t_state := CB_TASK_RUNNABLE\<rparr> =
      t\<lparr>t_state := CB_TASK_RUNNABLE, t_wake_reason := r\<rparr>" for t r by simp
  ultimately show ?thesis using assms unfolding wakes_def by metis
qed

lemma wakes_loops [simp]: "wakes wake_on_pipe" "wakes wake_on_console" "wakes wake_poll" "wakes (expire_poll now)"
  by (rule wakesI; use is_blocked.simps in \<open>unfold wake_on_pipe_def wake_on_console_def wake_poll_def expire_poll_def, metis\<close>)+

lemma wakesE:
  assumes "wakes g"
  obtains "g t = t" | r where "is_blocked (t_state t)" "g t = t\<lparr>t_state := CB_TASK_RUNNABLE, t_wake_reason := r\<rparr>"
  using assms unfolding wakes_def by blast

lemma is_blocked_off: "is_blocked (t_state t) \<Longrightarrow> off_processor t \<and> t_state t \<noteq> CB_TASK_EXEC_PENDING"
  by (cases "t_state t") (auto simp: off_processor_def)

lemma woken_ok:
  assumes "task_ok r files t" "is_blocked (t_state t)"
  shows "task_ok r files (t\<lparr>t_state := CB_TASK_RUNNABLE, t_wake_reason := w\<rparr>)"
proof -
  have "suspended_at files t s \<Longrightarrow> s \<noteq> In_exec \<Longrightarrow>
      suspended_at files (t\<lparr>t_state := CB_TASK_RUNNABLE, t_wake_reason := w\<rparr>) s" for s
    by (cases s) (auto simp: holds_end_def)
  moreover have "t_suspended t \<noteq> In_exec" using assms is_blocked_off [OF assms(2)] by (auto simp: task_ok_def)
  ultimately show ?thesis using assms is_blocked_off [OF assms(2)] by (auto simp: task_ok_def task_shape_def)
qed

lemma wakes_ok: "wakes g \<Longrightarrow> task_ok r files t \<Longrightarrow> task_ok r files (g t)"
  by (rule wakesE [of g t]) (auto intro: woken_ok)

lemma counts_state [simp]:
  "fd_count f (t\<lparr>t_state := s\<rparr>) = fd_count f t" "node_count n (t\<lparr>t_state := s\<rparr>) = node_count n t"
  "fd_count f (t\<lparr>t_wake_reason := w\<rparr>) = fd_count f t" "node_count n (t\<lparr>t_wake_reason := w\<rparr>) = node_count n t"
  by (simp_all add: fd_count_def node_count_def held_nodes_def pending_node_def)

lemma wakes_counts: "wakes g \<Longrightarrow> fd_count f (g t) = fd_count f t" "wakes g \<Longrightarrow> node_count n (g t) = node_count n t"
  by (rule wakesE [of g t]; simp)+

lemma for_tasks_task:
  "wakes g \<Longrightarrow> k_tasks k a = Some t \<Longrightarrow> \<not> is_blocked (t_state t) \<Longrightarrow> k_tasks (for_tasks g k) a = Some t"
  by (auto simp: for_tasks_def wakes_def)

lemma for_tasks_fields [simp]:
  "k_vfs (for_tasks g k) = k_vfs k" "k_files (for_tasks g k) = k_files k" "k_pipes (for_tasks g k) = k_pipes k"
  "k_list (for_tasks g k) = k_list k" "k_current (for_tasks g k) = k_current k" "k_console (for_tasks g k) = k_console k"
  by (simp_all add: for_tasks_def)

lemma kinv_for_tasks:
  assumes "kinv k x y" "wakes g" shows "kinv (for_tasks g k) x y"
proof -
  let ?T = "k_tasks (for_tasks g k)"
  have d: "dom ?T = dom (k_tasks k)" by (auto simp: for_tasks_def split: if_splits)
  have t: "?T b = Some t' \<Longrightarrow> k_tasks k b = Some t \<Longrightarrow> t' = t \<or> t' = g t" for b t t'
    by (auto simp: for_tasks_def split: if_splits)
  have "set (k_list k) \<subseteq> dom (k_tasks k)" using kinvD(3) [OF assms(1)] by (simp add: tasks_ok_def)
  then have "\<not> list_ex (\<lambda>b. k_tasks k b = None) (k_list k)" by (auto simp: list_ex_iff)
  then have eq: "for_tasks g k = k\<lparr>k_tasks := ?T\<rparr>" by (simp add: for_tasks_def)
  have "kinv (k\<lparr>k_tasks := ?T\<rparr>) x y"
  proof (rule kinv_tasks [OF assms(1)])
    have "msum (fd_count f) ?T = msum (fd_count f) (k_tasks k)" for f
      by (rule msum_cong [OF d]) (use t wakes_counts(1) [OF assms(2)] in metis)
    then show "file_refs (k\<lparr>k_tasks := ?T\<rparr>) f + x f = file_refs k f + x f" for f by (simp add: file_refs_def)
    have "msum (node_count n) ?T = msum (node_count n) (k_tasks k)" for n
      by (rule msum_cong [OF d]) (use t wakes_counts(2) [OF assms(2)] in metis)
    then show "node_refs (k\<lparr>k_tasks := ?T\<rparr>) n + y n \<le> node_refs k n + y n" for n by (simp add: node_refs_def ends_def)
    show "tasks_ok (k\<lparr>k_tasks := ?T\<rparr>)"
      using kinvD(3) [OF assms(1)] wakes_ok [OF assms(2)] d
      by (auto simp: tasks_ok_def for_tasks_def split: if_splits)
  qed
  then show ?thesis using eq by simp
qed

section \<open>Pipes\<close>

lemma kinv_pipe_same:
  assumes "kinv k x y" "k_pipes k p = Some q" "pipe_ok q'" "pp_readers q' = pp_readers q" "pp_writers q' = pp_writers q"
  shows "kinv (k\<lparr>k_pipes := (k_pipes k)(p \<mapsto> q')\<rparr>) x y"
proof -
  let ?k = "k\<lparr>k_pipes := (k_pipes k)(p \<mapsto> q')\<rparr>"
  have r: "file_refs ?k = file_refs k" "ends ?k = ends k" "node_refs ?k = node_refs k"
    by (auto simp: fun_eq_iff file_refs_def ends_def node_refs_def)
  have "pipes_ok ?k"
    by (rule pipes_okI)
      (use kinv_pipe [OF assms(1)] kinv_no_pipe [OF assms(1)] assms(2-5) in \<open>auto simp: r split: if_splits\<close>)
  moreover have "files_ok ?k x" using kinvD(1) [OF assms(1)] by (simp add: files_ok_def r cong: option.case_cong)
  ultimately show ?thesis
    by (intro kinv_stores [OF assms(1)]) (use kinvD(5) [OF assms(1)] kinv_live [OF assms(1)] in \<open>simp_all add: r\<close>)
qed

lemma for_tasks_commute:
  "for_tasks g (k\<lparr>k_pipes := P\<rparr>) = (for_tasks g k)\<lparr>k_pipes := P\<rparr>"
  "for_tasks g (k\<lparr>k_files := F\<rparr>) = (for_tasks g k)\<lparr>k_files := F\<rparr>"
  by (simp_all add: for_tasks_def cong: if_cong)

lemma last_close_files: "last_close (k\<lparr>k_files := F\<rparr>) ops = (last_close k ops)\<lparr>k_files := F\<rparr>"
  by (cases ops) (simp_all add: node_last_close_def node_ops_commute pipe_read_close_def pipe_write_close_def pipe_settle_def
      cb_wake_pipe_tasks_def for_tasks_commute fault_def Let_def split: option.split)

lemma last_close_k_files [simp]: "k_files (last_close k ops) = k_files k"
  by (cases ops) (simp_all add: node_last_close_def pipe_read_close_def pipe_write_close_def pipe_settle_def
      cb_wake_pipe_tasks_def fault_def Let_def split: option.split)

definition settled :: "cb_pipe \<Rightarrow> cb_pipe option" where
  "settled q = (if pp_readers q = 0 \<and> pp_writers q = 0 then None else Some q)"

lemma pipe_settle_eq:
  "pipe_settle k p q = cb_wake_pipe_tasks (k\<lparr>k_pipes := (k_pipes k)(p := settled q)\<rparr>)"
  by (simp add: pipe_settle_def settled_def cb_wake_pipe_tasks_def for_tasks_commute Let_def)

text \<open>The last reference to an open file on an end of a pipe goes: the pipe counts one end less.\<close>

lemma kinv_end_gone:
  assumes "kinv k (inc (Some f) x) y" "k_files k f = Some file" "of_references file = 1"
    and q: "k_pipes k p = Some q" "pipe_ok q'"
    and e: "of_ops file = PipeReadEnd p \<and> pp_readers q' + 1 = pp_readers q \<and> pp_writers q' = pp_writers q \<or>
            of_ops file = PipeWriteEnd p \<and> pp_writers q' + 1 = pp_writers q \<and> pp_readers q' = pp_readers q"
  shows "kinv (k\<lparr>k_files := (k_files k)(f := None), k_pipes := (k_pipes k)(p := settled q')\<rparr>) x y"
proof (rule kinv_file_upd [OF assms(1), where was = "Some (of_ops file)" and now = None])
  have r: "file_refs k f = 0" "x f = 0" using kinv_file [OF assms(1,2)] assms(3) by (simp_all add: inc_def)
  show "case k_files k f of None \<Rightarrow> Some (of_ops file) = None | Some file' \<Rightarrow> Some (of_ops file) = Some (of_ops file')"
    by (simp add: assms(2))
  show "x g = inc (Some f) x g" if "g \<noteq> f" for g using that by (simp add: inc_def)
  let ?k = "k\<lparr>k_files := (k_files k)(f := None), k_pipes := (k_pipes k)(p := settled q')\<rparr>"
  have en: "ends ?k o' + is_ops o' file = ends k o'" for o'
    using ends_files [OF finite_files [OF assms(1)], of f None o'] assms(2) by (simp add: ends_def)
  show "pipes_ok ?k"
  proof (rule pipes_okI)
    fix p' assume "k_pipes ?k p' = None"
    then show "ends ?k (PipeReadEnd p') = 0 \<and> ends ?k (PipeWriteEnd p') = 0"
      using en [of "PipeReadEnd p'"] en [of "PipeWriteEnd p'"] e kinv_no_pipe [OF assms(1), of p'] kinv_pipe [OF assms(1) q(1)]
      by (auto simp: is_ops_def settled_def split: if_splits)
  next
    fix p' q'' assume "k_pipes ?k p' = Some q''"
    then show "pipe_ok q'' \<and> pp_readers q'' = ends ?k (PipeReadEnd p') \<and> pp_writers q'' = ends ?k (PipeWriteEnd p') \<and>
           (pp_readers q'' > 0 \<or> pp_writers q'' > 0) \<and> p' < seq ?k"
      using en [of "PipeReadEnd p'"] en [of "PipeWriteEnd p'"] e q(2)
        kinv_pipe [OF assms(1), of p'] kinv_pipe [OF assms(1) q(1)]
      by (auto simp: is_ops_def settled_def split: if_splits)
  qed
qed (use kinv_file [OF assms(1,2)] assms(3) e in \<open>auto simp: inc_def\<close>)

lemma kinv_other_gone:
  assumes "kinv k (inc (Some f) x) y" "k_files k f = Some file" "of_references file = 1"
    and "\<And>p. of_ops file \<noteq> PipeReadEnd p \<and> of_ops file \<noteq> PipeWriteEnd p"
    and "\<And>m. n = Some m \<Longrightarrow> of_ops file = NodeFile m"
  shows "kinv (k\<lparr>k_files := (k_files k)(f := None)\<rparr>) x (inc n y)"
proof -
  have en: "ends (k\<lparr>k_files := (k_files k)(f := None)\<rparr>) o' + is_ops o' file = ends k o'" for o'
    using ends_files [OF finite_files [OF assms(1)], of f None o'] assms(2) by (simp add: ends_def)
  have e: "ends (k\<lparr>k_files := (k_files k)(f := None)\<rparr>) o' = ends k o'" if "o' \<noteq> of_ops file" for o'
    using en [of o'] that by (simp add: is_ops_def)
  have "pipes_ok (k\<lparr>k_files := (k_files k)(f := None)\<rparr>)"
    using kinvD(2) [OF assms(1)] assms(4) by (simp add: pipes_ok_def e [OF not_sym] cong: option.case_cong)
  then have "kinv (k\<lparr>k_files := (k_files k)(f := None), k_pipes := k_pipes k\<rparr>) x (inc n y)"
    by (intro kinv_file_upd [OF assms(1), where was = "Some (of_ops file)" and now = None])
      (use assms kinv_file [OF assms(1,2)] in \<open>auto simp: inc_def\<close>)
  then show ?thesis by simp
qed

section \<open>Dropping a reference to an open file\<close>

lemma pipe_ok_counts [simp]:
  "pipe_ok (q\<lparr>pp_readers := i\<rparr>) = pipe_ok q" "pipe_ok (q\<lparr>pp_writers := i\<rparr>) = pipe_ok q"
  by (simp_all add: pipe_ok_def)

lemma kinv_last_close:
  assumes "kinv k (inc (Some f) x) y" "k_files k f = Some file" "of_references file = 1"
  shows "kinv (last_close (k\<lparr>k_files := (k_files k)(f := None)\<rparr>) (of_ops file)) x y"
proof (cases "of_ops file")
  case (NodeFile n)
  then show ?thesis
    using kinv_release [OF kinv_other_gone [OF assms, of "Some n"]] by (simp add: node_last_close_def)
next
  case (PipeReadEnd p)
  then obtain q where q: "k_pipes k p = Some q" using kinv_end_pipe [OF assms(1,2)] by blast
  have "ends k (PipeReadEnd p) > 0"
    using msum_ge [OF finite_files [OF assms(1)] assms(2), of "is_ops (PipeReadEnd p)"] PipeReadEnd
    by (simp add: ends_def is_ops_def)
  then show ?thesis
    using kinv_end_gone [OF assms q, of "q\<lparr>pp_readers := pp_readers q - 1\<rparr>"] kinv_pipe [OF assms(1) q] PipeReadEnd
    by (simp add: pipe_read_close_def q pipe_settle_eq cb_wake_pipe_tasks_def kinv_for_tasks dec_ref_def)
next
  case (PipeWriteEnd p)
  then obtain q where q: "k_pipes k p = Some q" using kinv_end_pipe [OF assms(1,2)] by blast
  have "ends k (PipeWriteEnd p) > 0"
    using msum_ge [OF finite_files [OF assms(1)] assms(2), of "is_ops (PipeWriteEnd p)"] PipeWriteEnd
    by (simp add: ends_def is_ops_def)
  then show ?thesis
    using kinv_end_gone [OF assms q, of "q\<lparr>pp_writers := pp_writers q - 1\<rparr>"] kinv_pipe [OF assms(1) q] PipeWriteEnd
    by (simp add: pipe_write_close_def q pipe_settle_eq cb_wake_pipe_tasks_def kinv_for_tasks dec_ref_def)
qed (use kinv_other_gone [OF assms, of None] in simp_all)

lemma kinv_file_release:
  assumes "kinv k (inc fo x) y"
  shows "kinv (cb_open_file_release k fo) x y"
proof (cases fo)
  case None
  then show ?thesis using assms by (simp add: cb_open_file_release_def)
next
  case (Some f)
  then have inv: "kinv k (inc (Some f) x) y" using assms by simp
  obtain o' where o': "k_files k f = Some o'" using kinv_no_file(2) [OF inv, of f] by (cases "k_files k f") (auto simp: inc_def)
  note r = kinv_file [OF inv o']
  show ?thesis
  proof (cases "of_references o' = 1")
    case True
    have "cb_open_file_release k fo = last_close (k\<lparr>k_files := (k_files k)(f := None)\<rparr>) (of_ops o')"
      by (simp add: cb_open_file_release_def Some o' True dec_ref_def last_close_files)
    then show ?thesis using kinv_last_close [OF inv o' True] by simp
  next
    case False
    then have "of_references o' - 1 > 0" using r(2) by simp
    then show ?thesis
      using kinv_file_same [OF inv o', of "o'\<lparr>of_references := of_references o' - 1\<rparr>" x] r
      by (auto simp: cb_open_file_release_def Some o' dec_ref_def inc_def)
  qed
qed

text \<open>A task that is not blocked is not touched, and no other store is.\<close>

lemma last_close_task:
  assumes "k_tasks k a = Some t" "\<not> is_blocked (t_state t)"
  shows "k_tasks (last_close k ops) a = Some t"
  using assms
  by (cases ops) (auto simp: node_last_close_def pipe_read_close_def pipe_write_close_def pipe_settle_eq
      cb_wake_pipe_tasks_def fault_def intro: for_tasks_task split: option.split)

lemma file_release_task:
  assumes "k_tasks k a = Some t" "\<not> is_blocked (t_state t)"
  shows "k_tasks (cb_open_file_release k fo) a = Some t"
  using assms last_close_task [of "k\<lparr>k_files := _\<rparr>"]
  by (auto simp: cb_open_file_release_def fault_def Let_def split: option.split)

lemma last_close_fields [simp]:
  "k_list (last_close k ops) = k_list k" "k_current (last_close k ops) = k_current k"
  by (cases ops; simp add: node_last_close_def pipe_read_close_def pipe_write_close_def pipe_settle_eq
      cb_wake_pipe_tasks_def fault_def split: option.split)+

lemma file_ops_fields [simp]:
  "k_list (cb_open_file_release k fo) = k_list k" "k_current (cb_open_file_release k fo) = k_current k"
  "k_list (cb_open_file_retain k f) = k_list k" "k_current (cb_open_file_retain k f) = k_current k"
  "k_tasks (cb_open_file_retain k f) = k_tasks k" "k_vfs (cb_open_file_retain k f) = k_vfs k"
  by (simp_all add: cb_open_file_release_def cb_open_file_retain_def fault_def Let_def split: option.split)

section \<open>Descriptors\<close>

text \<open>A loose task runs, is over, or waits at a point that does not depend on its descriptors.\<close>

definition loose :: "cb_task \<Rightarrow> bool" where
  "loose t \<longleftrightarrow> \<not> is_blocked (t_state t) \<and>
     (off_processor t \<longrightarrow> t_suspended t = At_entry \<or> t_suspended t = In_exec \<and> t_state t = CB_TASK_EXEC_PENDING)"

lemma loose_ok: "task_shape r t \<Longrightarrow> loose t \<Longrightarrow> task_ok r files t"
  by (auto simp: task_ok_def loose_def)

lemma looseD [dest]: "loose t \<Longrightarrow> \<not> is_blocked (t_state t)"
  by (simp add: loose_def)

lemma count_list_update:
  "i < length xs \<Longrightarrow>
   count_list (xs[i := v]) w + (if xs ! i = w then 1 else 0) = count_list xs w + (if v = w then 1 else 0)"
proof (induction xs arbitrary: i)
  case (Cons u xs)
  show ?case
  proof (cases i)
    case (Suc j)
    then show ?thesis using Cons.IH [of j] Cons.prems by (simp split: if_splits)
  qed auto
qed simp

lemma kinv_shape: "kinv k x y \<Longrightarrow> k_tasks k a = Some t \<Longrightarrow> task_shape (vfs_root (k_vfs k)) t"
  using kinv_task by (auto simp: task_ok_def)

lemma kinv_set_fd:
  assumes "kinv k (inc g x) y" "k_tasks k a = Some t" "valid_fd d" "loose t"
  shows "kinv (set_fd k a d g c) (inc (fd_file (fd_entry t d)) x) y"
proof -
  let ?t = "t\<lparr>t_descriptors := (t_descriptors t)[nat d := \<lparr>fd_file = g, close_on_exec = c\<rparr>]\<rparr>"
  note sh = kinv_shape [OF assms(1,2)]
  have l: "nat d < length (map fd_file (t_descriptors t))"
    using sh assms(3) by (auto simp: task_shape_def valid_fd_def)
  have "task_shape (vfs_root (k_vfs k)) ?t" "loose ?t"
    using sh assms(4) by (simp_all add: task_shape_def loose_def off_processor_def)
  then have ok: "task_ok (vfs_root (k_vfs k)) (k_files k) ?t" by (rule loose_ok)
  have "kinv (k\<lparr>k_tasks := (k_tasks k)(a \<mapsto> ?t)\<rparr>) (inc (fd_file (fd_entry t d)) x) y"
  proof (rule kinv_task_upd [OF assms(1,2) ok])
    show "fd_count f ?t + inc (fd_file (fd_entry t d)) x f = fd_count f t + inc g x f" for f
      using count_list_update [OF l, of g "Some f"] l by (auto simp: fd_count_def inc_def fd_entry_def map_update)
    show "node_count n ?t + y n \<le> node_count n t + y n" for n
      by (simp add: node_count_def held_nodes_def pending_node_def)
  qed
  then show ?thesis by (simp add: set_fd_def upd_task_def assms(2))
qed

lemma set_fd_task:
  "k_tasks k a = Some t \<Longrightarrow> k_tasks (set_fd k a d g c) a =
     Some (t\<lparr>t_descriptors := (t_descriptors t)[nat d := \<lparr>fd_file = g, close_on_exec = c\<rparr>]\<rparr>)"
  by (simp add: set_fd_def upd_task_def)

lemma upd_task_fields [simp]:
  "k_vfs (upd_task k a g) = k_vfs k" "k_files (upd_task k a g) = k_files k" "k_pipes (upd_task k a g) = k_pipes k"
  "k_list (upd_task k a g) = k_list k" "k_current (upd_task k a g) = k_current k" "k_programs (upd_task k a g) = k_programs k"
  by (simp_all add: upd_task_def fault_def split: option.split)

lemma set_fd_fields [simp]:
  "k_vfs (set_fd k a d g c) = k_vfs k" "k_files (set_fd k a d g c) = k_files k"
  "k_list (set_fd k a d g c) = k_list k" "k_current (set_fd k a d g c) = k_current k"
  by (simp_all add: set_fd_def)

text \<open>Fields of a task that hold nothing.\<close>

definition plain_update :: "(cb_task \<Rightarrow> cb_task) \<Rightarrow> bool" where
  "plain_update g \<longleftrightarrow> (\<forall>t. t_descriptors (g t) = t_descriptors t \<and> held_nodes (g t) = held_nodes t \<and>
     t_directories (g t) = t_directories t \<and> t_root (g t) = t_root t \<and> t_cwd (g t) = t_cwd t \<and>
     t_pending (g t) = t_pending t \<and> t_state (g t) = t_state t \<and> t_suspended (g t) = t_suspended t)"

lemma plain_update_ok:
  assumes "plain_update g" "task_ok r files t" shows "task_ok r files (g t)"
proof -
  have e: "holds_end files (g t) = holds_end files t" "t_state (g t) = t_state t" "off_processor (g t) = off_processor t"
    "t_suspended (g t) = t_suspended t"
    using assms(1) by (auto simp: plain_update_def holds_end_def off_processor_def fun_eq_iff)
  have "suspended_at files (g t) s = suspended_at files t s" for s by (cases s) (simp_all add: e)
  then show ?thesis using assms by (simp add: task_ok_def task_shape_def plain_update_def e)
qed

lemma plain_update_state: "plain_update g \<Longrightarrow> t_state (g t) = t_state t" "plain_update g \<Longrightarrow> loose (g t) = loose t"
  by (auto simp: plain_update_def loose_def off_processor_def)

lemma kinv_plain:
  assumes "kinv k x y" "plain_update g" "k_tasks k a \<noteq> None"
  shows "kinv (upd_task k a g) x y"
proof -
  obtain t where t: "k_tasks k a = Some t" using assms(3) by auto
  have "kinv (k\<lparr>k_tasks := (k_tasks k)(a \<mapsto> g t)\<rparr>) x y"
    by (rule kinv_task_upd [OF assms(1) t plain_update_ok [OF assms(2) kinv_task [OF assms(1) t, THEN conjunct2]]])
      (use assms(2) in \<open>auto simp: plain_update_def fd_count_def node_count_def\<close>)
  then show ?thesis by (simp add: upd_task_def t)
qed

lemma upd_task_at: "k_tasks k a = Some t \<Longrightarrow> k_tasks (upd_task k a g) a = Some (g t)"
  by (simp add: upd_task_def)

lemma plain_updates [simp]:
  "plain_update (\<lambda>t. t\<lparr>t_error := e\<rparr>)"
  "plain_update (\<lambda>t. t\<lparr>t_wake_start := n\<rparr>)"
  "plain_update (\<lambda>t. t\<lparr>t_wake_timeout := i\<rparr>)"
  "plain_update (\<lambda>t. t\<lparr>t_waiting_for := i\<rparr>)"
  "plain_update (\<lambda>t. t\<lparr>t_image := (t_image t)\<lparr>i_environment := env\<rparr>\<rparr>)"
  "plain_update (\<lambda>t. t\<lparr>t_allocations := es\<rparr>)"
  "plain_update (\<lambda>t. t\<lparr>t_libc := (t_libc t)\<lparr>input_streams := None\<rparr>, t_allocations := []\<rparr>)"
  "plain_update (\<lambda>t. t\<lparr>t_interrupt_pending := b\<rparr>)"
  "plain_update (\<lambda>t. t\<lparr>t_interrupt_disposition := i, t_interrupt_pending := (t_interrupt_pending t \<and> i \<noteq> CB_INTERRUPT_IGNORE)\<rparr>)"
  "plain_update (\<lambda>t. t\<lparr>t_execution := u\<rparr>)"
  by (simp_all add: plain_update_def held_nodes_def pending_node_def)

lemma kinv_set_error [intro]: "kinv k x y \<Longrightarrow> k_tasks k a \<noteq> None \<Longrightarrow> kinv (cb_task_set_error k a e) x y"
  by (simp add: cb_task_set_error_def kinv_plain)

lemma set_error_fields [simp]:
  "k_vfs (cb_task_set_error k a e) = k_vfs k" "k_files (cb_task_set_error k a e) = k_files k"
  "k_list (cb_task_set_error k a e) = k_list k" "k_current (cb_task_set_error k a e) = k_current k"
  "k_pipes (cb_task_set_error k a e) = k_pipes k"
  by (simp_all add: cb_task_set_error_def)

lemma set_error_at: "k_tasks k a = Some t \<Longrightarrow> k_tasks (cb_task_set_error k a e) a = Some (t\<lparr>t_error := e\<rparr>)"
  by (simp add: cb_task_set_error_def upd_task_at)

lemma loose_updates [simp]:
  "loose (t\<lparr>t_error := e\<rparr>) = loose t" "loose (t\<lparr>t_descriptors := ds\<rparr>) = loose t"
  "loose (t\<lparr>t_directories := hs\<rparr>) = loose t" "loose (t\<lparr>t_cwd := c\<rparr>) = loose t"
  by (simp_all add: loose_def off_processor_def)

lemma kinv_fd_install:
  assumes "kinv k (inc (Some f) x) y" "k_tasks k a = Some t" "loose t" "fd_install k a f 0 = (r, k')"
  shows "kinv k' (if r < 0 then inc (Some f) x else x) y"
proof (cases "lowest_free t 0")
  case None
  then show ?thesis using assms by (auto simp: fd_install_def)
next
  case (Some d)
  then obtain i where i: "d = int i" "i < CB_MAX_FDS" "fd_file (t_descriptors t ! i) = None"
    by (auto simp: lowest_free_def find_Some_iff)
  have "valid_fd d" "fd_file (fd_entry t d) = None" using i by (simp_all add: valid_fd_def fd_entry_def)
  then have "kinv (set_fd k a d (Some f) False) x y" using kinv_set_fd [OF assms(1,2) _ assms(3), of d False] by simp
  then show ?thesis using assms(2,4) Some i(1) by (auto simp: fd_install_def)
qed

lemma fd_install_task:
  assumes "k_tasks k a = Some t" "fd_install k a f 0 = (r, k')"
  shows "\<exists>ds e. k_tasks k' a = Some (t\<lparr>t_descriptors := ds, t_error := e\<rparr>)" "k_list k' = k_list k" "k_current k' = k_current k"
proof -
  have a: "\<exists>ds e. Some (t\<lparr>t_error := e'\<rparr>) = Some (t\<lparr>t_descriptors := ds, t_error := e\<rparr>)" for e'
    by (rule exI [of _ "t_descriptors t"], rule exI [of _ e']) simp
  have b: "\<exists>ds e. Some (t\<lparr>t_descriptors := ds'\<rparr>) = Some (t\<lparr>t_descriptors := ds, t_error := e\<rparr>)" for ds'
    by (rule exI [of _ ds'], rule exI [of _ "t_error t"]) simp
  show "\<exists>ds e. k_tasks k' a = Some (t\<lparr>t_descriptors := ds, t_error := e\<rparr>)"
  proof (cases "lowest_free t 0")
    case None
    then show ?thesis using assms a by (auto simp: fd_install_def set_error_at simp del: option.inject)
  next
    case (Some d)
    then show ?thesis using assms b by (auto simp: fd_install_def set_fd_task simp del: option.inject)
  qed
  show "k_list k' = k_list k" "k_current k' = k_current k"
    using assms by (auto simp: fd_install_def split: option.splits)
qed

text \<open>
  \<^verbatim>\<open>fd_install_at\<close> closes the old file before it stores and retains the new one. As the task is not
  blocked, the same state results when the new file is retained and stored first.
\<close>

lemma for_tasks_upd:
  assumes "wakes g" "k_tasks k a = Some t" "\<not> is_blocked (t_state t)" "\<not> is_blocked (t_state (h t))"
  shows "for_tasks g (upd_task k a h) = upd_task (for_tasks g k) a h"
proof -
  have "g (h t) = h t" using assms(1,4) by (auto simp: wakes_def)
  moreover have "list_ex (\<lambda>b. ((k_tasks k)(a \<mapsto> h t)) b = None) l = list_ex (\<lambda>b. k_tasks k b = None) l" for l
    by (induction l) (auto simp: assms(2))
  ultimately show ?thesis
    using assms(2) for_tasks_task [OF assms(1-3)]
    by (auto simp: upd_task_def for_tasks_def fun_eq_iff intro!: cb_kernel.equality)
qed

lemma last_close_upd:
  assumes "k_tasks k a = Some t" "\<not> is_blocked (t_state t)" "\<not> is_blocked (t_state (h t))"
  shows "last_close (upd_task k a h) ops = upd_task (last_close k ops) a h"
proof -
  have v: "upd_task k a h = k\<lparr>k_tasks := (k_tasks k)(a \<mapsto> h t)\<rparr>" by (simp add: upd_task_def assms(1))
  have p: "upd_task (k\<lparr>k_pipes := P\<rparr>) a h = (upd_task k a h)\<lparr>k_pipes := P\<rparr>" for P
    by (simp add: upd_task_def assms(1))
  have f: "for_tasks wake_on_pipe ((upd_task k a h)\<lparr>k_pipes := P\<rparr>) =
      upd_task (for_tasks wake_on_pipe (k\<lparr>k_pipes := P\<rparr>)) a h" for P
    using for_tasks_upd [of wake_on_pipe "k\<lparr>k_pipes := P\<rparr>" a t h] assms by (simp add: p)
  have "node_last_close (upd_task k a h) n = upd_task (node_last_close k n) a h" for n
    using assms(1) by (simp add: v node_last_close_def node_ops_commute upd_task_def)
  moreover have "pipe_read_close (upd_task k a h) q = upd_task (pipe_read_close k q) a h" for q
    using assms(1) f by (simp add: pipe_read_close_def pipe_settle_eq cb_wake_pipe_tasks_def fault_def upd_task_def [of "k\<lparr>k_fault := _\<rparr>"]
        v [symmetric] split: option.split) (simp add: v)
  moreover have "pipe_write_close (upd_task k a h) q = upd_task (pipe_write_close k q) a h" for q
    using assms(1) f by (simp add: pipe_write_close_def pipe_settle_eq cb_wake_pipe_tasks_def fault_def upd_task_def [of "k\<lparr>k_fault := _\<rparr>"]
        v [symmetric] split: option.split) (simp add: v)
  ultimately show ?thesis by (cases ops) simp_all
qed

lemma file_release_upd:
  assumes "k_tasks k a = Some t" "\<not> is_blocked (t_state t)" "\<not> is_blocked (t_state (h t))"
  shows "cb_open_file_release (upd_task k a h) fo = upd_task (cb_open_file_release k fo) a h"
proof -
  have v: "upd_task k a h = k\<lparr>k_tasks := (k_tasks k)(a \<mapsto> h t)\<rparr>" by (simp add: upd_task_def assms(1))
  have p: "upd_task (k\<lparr>k_files := F\<rparr>) a h = (upd_task k a h)\<lparr>k_files := F\<rparr>" for F
    by (simp add: upd_task_def assms(1))
  have q: "upd_task (k'\<lparr>k_files := F\<rparr>) a h = (upd_task k' a h)\<lparr>k_files := F\<rparr>" for F k'
    by (simp add: upd_task_def fault_def split: option.split)
  show ?thesis
    using last_close_upd [where h = h and t = t, OF assms]
    by (auto simp: cb_open_file_release_def last_close_files q Let_def split: option.split)
      (simp_all add: fault_def upd_task_def assms(1))
qed

lemma file_retain_release:
  assumes "k_files k f = Some file" "g = Some f \<Longrightarrow> of_references file \<ge> 2"
  shows "cb_open_file_retain (cb_open_file_release k g) f = cb_open_file_release (cb_open_file_retain k f) g"
  using assms
  by (auto simp: cb_open_file_retain_def cb_open_file_release_def last_close_files dec_ref_def fun_upd_twist fault_def Let_def
      split: option.split)

end
