(* ===== verification/Kernel_Steps.thy ===== *)
theory Kernel_Steps
  imports Kernel_Inv
begin

text \<open>
  The helpers of the calls keep the invariant: installing and closing descriptors, closing all of
  them, directory handles, destroying a task.
\<close>

section \<open>Descriptors\<close>

lemma fd_entry_in:
  assumes "task_shape r t" "valid_fd d"
  shows "fd_file (fd_entry t d) \<in> set (map fd_file (t_descriptors t))"
  using assms by (auto simp: fd_entry_def task_shape_def valid_fd_def)

lemma count_list_two:
  assumes "i < length xs" "j < length xs" "i \<noteq> j" "xs ! i = v" "xs ! j = v"
  shows "count_list xs v \<ge> 2"
proof -
  have "{i, j} \<subseteq> {n. n < length xs \<and> xs ! n = v}" using assms by auto
  moreover have "finite {n. n < length xs \<and> xs ! n = v}" by simp
  ultimately have "card {i, j} \<le> card {n. n < length xs \<and> xs ! n = v}" by (rule card_mono [rotated])
  then show ?thesis using assms(3) by (simp add: count_list_eq_length_filter length_filter_conv_card eq_commute)
qed

lemma fd_install_at_eq:
  assumes "k_tasks k a = Some t" "\<not> is_blocked (t_state t)" "valid_fd d" "k_files k f = Some file"
    "fd_file (fd_entry t d) = Some f \<Longrightarrow> of_references file \<ge> 2"
  shows "snd (fd_install_at k a f d retain) =
     cb_open_file_release (set_fd (if retain then cb_open_file_retain k f else k) a d (Some f) False) (fd_file (fd_entry t d))"
proof -
  let ?g = "fd_file (fd_entry t d)"
  have t': "k_tasks (if retain then cb_open_file_retain k f else k) a = Some t" using assms(1) by simp
  have "cb_open_file_retain (set_fd (cb_open_file_release k ?g) a d (Some f) False) f =
      set_fd (cb_open_file_retain (cb_open_file_release k ?g) f) a d (Some f) False"
    using file_release_task [OF assms(1,2)]
    by (simp add: set_fd_def upd_task_def cb_open_file_retain_def fault_def split: option.split)
  also have "cb_open_file_retain (cb_open_file_release k ?g) f = cb_open_file_release (cb_open_file_retain k f) ?g"
    by (rule file_retain_release [OF assms(4,5)])
  finally show ?thesis
    using assms(1-3) file_release_upd [OF t' assms(2), of "\<lambda>t. t\<lparr>t_descriptors := (t_descriptors t)[nat d := \<lparr>fd_file = Some f, close_on_exec = False\<rparr>]\<rparr>"]
    by (simp add: fd_install_at_def Let_def set_fd_def)
qed

lemma kinv_install_at:
  assumes "kinv k x y" "k_tasks k a = Some t" "loose t" "valid_fd d" "k_files k f = Some file"
    "fd_file (fd_entry t d) = Some f \<Longrightarrow> of_references file \<ge> 2"
  shows "kinv (snd (fd_install_at k a f d True)) x y"
proof -
  have "kinv (cb_open_file_retain k f) (inc (Some f) x) y" using kinv_file_retain [OF assms(1)] assms(5) by simp
  then have "kinv (set_fd (cb_open_file_retain k f) a d (Some f) False) (inc (fd_file (fd_entry t d)) x) y"
    by (rule kinv_set_fd) (use assms in simp_all)
  then show ?thesis
    using fd_install_at_eq [OF assms(2) looseD [OF assms(3)] assms(4-6), of True] kinv_file_release by simp
qed

text \<open>Duplicating a descriptor of the same task onto another slot.\<close>

lemma kinv_dup_slot:
  assumes "kinv k x y" "k_tasks k a = Some t" "loose t" "fd_lookup t e = Some f" "valid_fd d" "d \<noteq> e"
  shows "kinv (snd (fd_install_at k a f d True)) x y"
proof -
  note sh = kinv_shape [OF assms(1,2)]
  note fd = fd_lookup_in [OF sh assms(4)]
  obtain o' where o': "k_files k f = Some o'" using kinv_fd_file [OF assms(1,2) fd(4)] by auto
  have "of_references o' \<ge> 2" if g: "fd_file (fd_entry t d) = Some f"
  proof -
    have "count_list (map fd_file (t_descriptors t)) (Some f) \<ge> 2"
      by (rule count_list_two [of "nat d" _ "nat e"])
        (use fd g assms(5,6) sh in \<open>auto simp: fd_entry_def valid_fd_def task_shape_def\<close>)
    then show ?thesis
      using msum_ge [OF finite_tasks [OF assms(1)] assms(2), of "fd_count f"] kinv_file(1) [OF assms(1) o']
      by (simp add: file_refs_def fd_count_def)
  qed
  then show ?thesis by (rule kinv_install_at [OF assms(1-3,5) o'])
qed

lemma install_at_task:
  assumes "k_tasks k a = Some t" "\<not> is_blocked (t_state t)" "valid_fd d"
  shows "k_tasks (snd (fd_install_at k a f d b)) a =
     Some (t\<lparr>t_descriptors := (t_descriptors t)[nat d := \<lparr>fd_file = Some f, close_on_exec = False\<rparr>]\<rparr>)"
  using assms by (simp add: fd_install_at_def Let_def set_fd_task file_release_task)

lemma install_at_fields [simp]:
  "k_list (snd (fd_install_at k a f d b)) = k_list k" "k_current (snd (fd_install_at k a f d b)) = k_current k"
  by (simp_all add: fd_install_at_def fault_def Let_def split: option.split)

section \<open>Closing descriptors\<close>

definition without_fd :: "cb_task \<Rightarrow> nat \<Rightarrow> cb_task" where
  "without_fd t i = t\<lparr>t_descriptors := (t_descriptors t)[i := no_fd]\<rparr>"

lemma fd_close_ok:
  assumes "kinv k x y" "k_tasks k a = Some t" "loose t" "fd_lookup t d = Some f"
  shows "kinv (snd (fd_close k a d)) x y" "fst (fd_close k a d) = 0"
    "k_tasks (snd (fd_close k a d)) a = Some (without_fd t (nat d))"
proof -
  note fd = fd_lookup_in [OF kinv_shape [OF assms(1,2)] assms(4)]
  have "kinv (set_fd k a d None False) (inc (fd_file (fd_entry t d)) x) y"
    by (rule kinv_set_fd) (use assms fd in simp_all)
  then show "kinv (snd (fd_close k a d)) x y"
    using assms(2,4) fd(3) kinv_file_release by (simp add: fd_close_def fd_entry_def)
  show "fst (fd_close k a d) = 0" using assms(2,4) by (simp add: fd_close_def)
  show "k_tasks (snd (fd_close k a d)) a = Some (without_fd t (nat d))"
    using assms(2-4) file_release_task [OF set_fd_task [OF assms(2)]] looseD [OF assms(3)]
    by (simp add: fd_close_def without_fd_def no_fd_def)
qed

lemma fd_close_fields [simp]: "k_list (snd (fd_close k a d)) = k_list k" "k_current (snd (fd_close k a d)) = k_current k"
  by (simp_all add: fd_close_def fault_def split: option.split)

lemma loose_without [simp]: "loose (without_fd t i) = loose t"
  by (simp add: without_fd_def)

text \<open>The descriptors after closing those below \<open>n\<close> whose entry satisfies \<open>P\<close>.\<close>

definition closed_below :: "(cb_fd_entry \<Rightarrow> bool) \<Rightarrow> nat \<Rightarrow> cb_fd_entry list \<Rightarrow> cb_fd_entry list" where
  "closed_below P n es = map (\<lambda>i. if i < n \<and> fd_file (es ! i) \<noteq> None \<and> P (es ! i) then no_fd else es ! i) [0..<length es]"

lemma closed_below_Suc:
  assumes "n < length es"
  shows "closed_below P (Suc n) es =
     (if fd_file (es ! n) \<noteq> None \<and> P (es ! n) then (closed_below P n es)[n := no_fd] else closed_below P n es)"
  by (rule nth_equalityI) (auto simp: closed_below_def nth_list_update less_Suc_eq)

lemma close_loop:
  assumes "kinv k x y" "k_tasks k a = Some t" "loose t" "n \<le> CB_MAX_FDS"
  shows "kinv (fold (close_if P a) [0..<n] k) x y \<and>
     k_tasks (fold (close_if P a) [0..<n] k) a = Some (t\<lparr>t_descriptors := closed_below P n (t_descriptors t)\<rparr>)"
  using assms(4)
proof (induction n)
  case 0
  have "closed_below P 0 (t_descriptors t) = t_descriptors t" by (simp add: closed_below_def map_nth)
  then show ?case using assms by simp
next
  case (Suc n)
  let ?k = "fold (close_if P a) [0..<n] k" and ?t = "t\<lparr>t_descriptors := closed_below P n (t_descriptors t)\<rparr>"
  have IH: "kinv ?k x y" "k_tasks ?k a = Some ?t" using Suc by auto
  have len: "n < length (t_descriptors t)" using kinv_shape [OF assms(1,2)] Suc.prems by (simp add: task_shape_def)
  have nth: "closed_below P n (t_descriptors t) ! n = t_descriptors t ! n" using len by (simp add: closed_below_def)
  have step: "fold (close_if P a) [0..<Suc n] k = close_if P a n ?k" by simp
  show ?case
  proof (cases "fd_file (t_descriptors t ! n) \<noteq> None \<and> P (t_descriptors t ! n)")
    case False
    then show ?thesis unfolding step using IH closed_below_Suc [OF len, of P] nth by (auto simp: close_if_def [of P a n ?k])
  next
    case True
    then obtain f where f: "fd_file (t_descriptors t ! n) = Some f" by auto
    then have "fd_lookup ?t (int n) = Some f" using Suc.prems nth by (simp add: fd_lookup_def fd_entry_def valid_fd_def)
    from fd_close_ok [OF IH _ this] show ?thesis unfolding step
      using IH True nth assms(3) closed_below_Suc [OF len, of P]
      by (auto simp: close_if_def [of P a n ?k] without_fd_def)
  qed
qed

lemmas close_where_ok = close_loop [where n = CB_MAX_FDS, simplified, folded close_where_def]

lemma close_fold_fields [simp]:
  "k_list (fold (close_if P a) is k) = k_list k" "k_current (fold (close_if P a) is k) = k_current k"
  by (induction "is" arbitrary: k) (simp_all add: close_if_def fault_def split: option.split)

lemma close_where_fields [simp]: "k_list (close_where P k a) = k_list k" "k_current (close_where P k a) = k_current k"
  by (simp_all add: close_where_def)

lemma closed_all:
  assumes "\<And>e. P e" shows "fd_count f (t\<lparr>t_descriptors := closed_below P (length (t_descriptors t)) (t_descriptors t)\<rparr>) = 0"
proof -
  have "Some f \<notin> set (map fd_file (closed_below P (length (t_descriptors t)) (t_descriptors t)))"
    using assms by (auto simp: closed_below_def no_fd_def split: if_splits)
  then show ?thesis by (simp add: fd_count_def count_list_0_iff)
qed

section \<open>Directory handles\<close>

lemma counts_directories [simp]:
  "fd_count f (t\<lparr>t_directories := hs\<rparr>) = fd_count f t"
  by (simp add: fd_count_def)

lemma count_concat_update:
  "i < length hs \<Longrightarrow> count_list (concat (map g (hs[i := h]))) v + count_list (g (hs ! i)) v =
     count_list (concat (map g hs)) v + count_list (g h) v"
proof (induction hs arbitrary: i)
  case (Cons u hs)
  show ?case
  proof (cases i)
    case (Suc j)
    then show ?thesis using Cons.IH [of j] Cons.prems by simp
  qed simp
qed simp

lemma node_count_directory:
  assumes "i < length (t_directories t)"
  shows "node_count n (t\<lparr>t_directories := (t_directories t)[i := h]\<rparr>) + count_list (dir_nodes (t_directories t ! i)) (Some n) =
     node_count n t + count_list (dir_nodes h) (Some n)"
  using count_concat_update [OF assms, of dir_nodes h "Some n"]
  by (simp add: node_count_def held_nodes_def pending_node_def)

text \<open>Storing a directory handle; the references it held are in flight afterwards.\<close>

lemma kinv_set_dir:
  assumes "kinv k x y" "k_tasks k a = Some t" "loose t" "i < CB_MAX_DIRS" "d_in_use h \<longrightarrow> d_node h \<noteq> None"
    and "\<And>n. count_list (dir_nodes h) (Some n) + y' n \<le> count_list (dir_nodes (t_directories t ! i)) (Some n) + y n"
  shows "kinv (set_dir k a i h) x y'"
proof -
  let ?t = "t\<lparr>t_directories := (t_directories t)[i := h]\<rparr>"
  note sh = kinv_shape [OF assms(1,2)]
  have l: "i < length (t_directories t)" using sh assms(4) by (simp add: task_shape_def)
  have "set ((t_directories t)[i := h]) \<subseteq> insert h (set (t_directories t))" by (rule set_update_subset_insert)
  then have "task_shape (vfs_root (k_vfs k)) ?t" using sh assms(5) by (auto simp: task_shape_def)
  then have ok: "task_ok (vfs_root (k_vfs k)) (k_files k) ?t" by (rule loose_ok) (use assms(3) in simp)
  have "kinv (k\<lparr>k_tasks := (k_tasks k)(a \<mapsto> ?t)\<rparr>) x y'"
    by (rule kinv_task_upd [OF assms(1,2) ok]) (use node_count_directory [OF l, of _ h] assms(6) in \<open>simp, smt (verit) add.commute add_le_cancel_left add.assoc\<close>)
  then show ?thesis by (simp add: set_dir_def upd_task_def assms(2))
qed

lemma set_dir_at:
  "k_tasks k a = Some t \<Longrightarrow> k_tasks (set_dir k a i h) a = Some (t\<lparr>t_directories := (t_directories t)[i := h]\<rparr>)"
  by (simp add: set_dir_def upd_task_at)

lemma set_dir_fields [simp]:
  "k_vfs (set_dir k a i h) = k_vfs k" "k_files (set_dir k a i h) = k_files k"
  "k_list (set_dir k a i h) = k_list k" "k_current (set_dir k a i h) = k_current k"
  by (simp_all add: set_dir_def)

lemma upd_task_release:
  "k_tasks k a \<noteq> None \<Longrightarrow> upd_task (cb_vfs_node_release k n) a g = cb_vfs_node_release (upd_task k a g) n"
  by (auto simp: upd_task_def node_ops_commute split: option.split)

lemma set_dir_release: "k_tasks k a \<noteq> None \<Longrightarrow> set_dir (cb_vfs_node_release k n) a i h = cb_vfs_node_release (set_dir k a i h) n"
  by (simp add: set_dir_def upd_task_release)

lemma count_dir_nodes: "count_list (dir_nodes h) (Some n) =
    (if d_in_use h then (if d_node h = Some n then 1 else 0) + (if d_next h = Some n then 1 else 0) else 0)"
  by (simp add: dir_nodes_def)

lemma dir_close_one_ok:
  assumes "kinv k x y" "k_tasks k a = Some t" "loose t" "i < CB_MAX_DIRS"
  shows "kinv (dir_close_one a i k) x y"
    "\<exists>hs. k_tasks (dir_close_one a i k) a = Some (t\<lparr>t_directories := hs\<rparr>) \<and> length hs = length (t_directories t) \<and>
       \<not> d_in_use (hs ! i) \<and> (\<forall>j. \<not> d_in_use (t_directories t ! j) \<longrightarrow> \<not> d_in_use (hs ! j))"
proof -
  let ?h = "t_directories t ! i"
  let ?h' = "?h\<lparr>d_node := None, d_in_use := False\<rparr>"
  have l: "i < length (t_directories t)" using kinv_shape [OF assms(1,2)] assms(4) by (simp add: task_shape_def)
  have eq: "dir_close_one a i k = (if d_in_use ?h then cb_vfs_node_release (set_dir k a i ?h') (d_node ?h) else k)"
    using assms(2) upd_task_release [of k a "d_node ?h"] by (simp add: dir_close_one_def Let_def set_dir_def)
  have "kinv (set_dir k a i ?h') x (inc (d_node ?h) y)" if "d_in_use ?h"
    by (rule kinv_set_dir [OF assms]) (use that in \<open>simp_all add: count_dir_nodes inc_def\<close>)
  then show "kinv (dir_close_one a i k) x y" using assms(1) by (simp add: eq kinv_release)
  show "\<exists>hs. k_tasks (dir_close_one a i k) a = Some (t\<lparr>t_directories := hs\<rparr>) \<and> length hs = length (t_directories t) \<and>
       \<not> d_in_use (hs ! i) \<and> (\<forall>j. \<not> d_in_use (t_directories t ! j) \<longrightarrow> \<not> d_in_use (hs ! j))"
  proof (cases "d_in_use ?h")
    case True
    then show ?thesis
      using l set_dir_at [OF assms(2)]
      by (intro exI [of _ "(t_directories t)[i := ?h']"]) (simp add: eq nth_list_update)
  next
    case False
    then show ?thesis using assms(2) by (intro exI [of _ "t_directories t"]) (simp add: eq)
  qed
qed

lemma dir_close_all_ok:
  assumes "kinv k x y" "k_tasks k a = Some t" "loose t"
  shows "kinv (dir_close_all k a) x y"
    "\<exists>hs. k_tasks (dir_close_all k a) a = Some (t\<lparr>t_directories := hs\<rparr>) \<and> (\<forall>h\<in>set hs. \<not> d_in_use h)"
proof -
  have loop: "n \<le> CB_MAX_DIRS \<Longrightarrow> kinv (fold (dir_close_one a) [0..<n] k) x y \<and>
     (\<exists>hs. k_tasks (fold (dir_close_one a) [0..<n] k) a = Some (t\<lparr>t_directories := hs\<rparr>) \<and>
        length hs = length (t_directories t) \<and> (\<forall>j<n. \<not> d_in_use (hs ! j)))" for n
  proof (induction n)
    case 0
    show ?case using assms by (intro conjI exI [of _ "t_directories t"]) simp_all
  next
    case (Suc n)
    let ?k = "fold (dir_close_one a) [0..<n] k"
    obtain hs where hs: "kinv ?k x y" "k_tasks ?k a = Some (t\<lparr>t_directories := hs\<rparr>)" "length hs = length (t_directories t)"
      "\<forall>j<n. \<not> d_in_use (hs ! j)" using Suc by auto
    from dir_close_one_ok [OF hs(1,2), of n] show ?case using Suc.prems assms(3) hs(3,4) by (auto simp: less_Suc_eq)
  qed
  have l: "length (t_directories t) = CB_MAX_DIRS" using kinv_shape [OF assms(1,2)] by (simp add: task_shape_def)
  obtain hs where hs: "k_tasks (dir_close_all k a) a = Some (t\<lparr>t_directories := hs\<rparr>)" "length hs = CB_MAX_DIRS"
    "\<forall>j<CB_MAX_DIRS. \<not> d_in_use (hs ! j)"
    using loop [of CB_MAX_DIRS] l by (auto simp: dir_close_all_def)
  show "kinv (dir_close_all k a) x y" using loop [of CB_MAX_DIRS] by (simp add: dir_close_all_def)
  show "\<exists>hs. k_tasks (dir_close_all k a) a = Some (t\<lparr>t_directories := hs\<rparr>) \<and> (\<forall>h\<in>set hs. \<not> d_in_use h)"
    using hs by (intro exI [of _ hs]) (auto simp: in_set_conv_nth)
qed

lemma dir_close_fields [simp]:
  "k_list (dir_close_all k a) = k_list k" "k_current (dir_close_all k a) = k_current k"
  "k_files (dir_close_all k a) = k_files k"
proof -
  have "k_list (fold (dir_close_one a) is k) = k_list k \<and> k_current (fold (dir_close_one a) is k) = k_current k \<and>
      k_files (fold (dir_close_one a) is k) = k_files k" for "is" k
    by (induction "is" arbitrary: k) (simp_all add: dir_close_one_def fault_def Let_def split: option.split)
  then show "k_list (dir_close_all k a) = k_list k" "k_current (dir_close_all k a) = k_current k"
    "k_files (dir_close_all k a) = k_files k" by (simp_all add: dir_close_all_def)
qed

section \<open>The end of a task\<close>

definition closed_task :: "cb_task \<Rightarrow> cb_task \<Rightarrow> bool" where
  "closed_task t t' \<longleftrightarrow> (\<forall>f. fd_count f t' = 0) \<and> held_nodes t' = [t_root t, t_cwd t, i_node (t_image t), pending_node t] \<and>
     t_state t' = t_state t \<and> t_suspended t' = t_suspended t \<and> t_pid t' = t_pid t \<and> t_ppid t' = t_ppid t \<and>
     (\<forall>h\<in>set (t_directories t'). \<not> d_in_use h)"

lemma unused_directories: "(\<forall>h\<in>set hs. \<not> d_in_use h) \<Longrightarrow> concat (map dir_nodes hs) = []"
  by (auto simp: dir_nodes_def)

lemma close_everything:
  assumes "kinv k x y" "k_tasks k a = Some t" "loose t"
  shows "kinv (dir_close_all (fd_close_all (task_release_allocations k a) a) a) x y"
    "\<exists>t'. k_tasks (dir_close_all (fd_close_all (task_release_allocations k a) a) a) a = Some t' \<and> closed_task t t'"
proof -
  let ?k1 = "task_release_allocations k a"
  let ?k2 = "fd_close_all ?k1 a"
  let ?t1 = "t\<lparr>t_libc := (t_libc t)\<lparr>input_streams := None\<rparr>, t_allocations := []\<rparr>"
  let ?t2 = "?t1\<lparr>t_descriptors := closed_below (\<lambda>e. True) CB_MAX_FDS (t_descriptors t)\<rparr>"
  have 1: "kinv ?k1 x y" "k_tasks ?k1 a = Some ?t1" "loose ?t1"
    using assms by (simp_all add: task_release_allocations_def kinv_plain upd_task_at loose_def off_processor_def)
  have 2: "kinv ?k2 x y" "k_tasks ?k2 a = Some ?t2" "loose ?t2"
    using close_where_ok [OF 1, of "\<lambda>e. True"] 1(3) by (simp_all add: fd_close_all_def)
  have l: "length (t_descriptors t) = CB_MAX_FDS" using kinv_shape [OF assms(1,2)] by (simp add: task_shape_def)
  have z: "fd_count f ?t2 = 0" for f using closed_all [of "\<lambda>e. True" f ?t1] l by simp
  from dir_close_all_ok [OF 2] show "kinv (dir_close_all ?k2 a) x y" by blast
  obtain hs where "k_tasks (dir_close_all ?k2 a) a = Some (?t2\<lparr>t_directories := hs\<rparr>)" and hs: "\<forall>h\<in>set hs. \<not> d_in_use h"
    using dir_close_all_ok(2) [OF 2] by blast
  moreover have "closed_task t (?t2\<lparr>t_directories := hs\<rparr>)"
    using z hs unused_directories [OF hs] by (simp add: closed_task_def held_nodes_def pending_node_def)
  ultimately show "\<exists>t'. k_tasks (dir_close_all ?k2 a) a = Some t' \<and> closed_task t t'" by blast
qed

lemma end_fields [simp]:
  "k_list (task_release_allocations k a) = k_list k" "k_current (task_release_allocations k a) = k_current k"
  "k_list (fd_close_all k a) = k_list k" "k_current (fd_close_all k a) = k_current k"
  by (simp_all add: task_release_allocations_def fd_close_all_def)

lemma count_pair: "count_list [p, q, r, s] (Some n) = inc p (inc q (inc r (inc s zero))) n"
  by (simp add: inc_def)

lemma kinv_task_destroy:
  assumes "kinv k x y" "k_tasks k a = Some t" "loose t" "a \<notin> set (k_list k)"
  shows "kinv (task_destroy k a) x y"
proof -
  let ?k1 = "dir_close_all (fd_close_all (task_release_allocations k a) a) a"
  obtain t' where t': "k_tasks ?k1 a = Some t'" "closed_task t t'" using close_everything(2) [OF assms(1-3)] by blast
  let ?y = "inc (i_node (t_image t)) (inc (pending_node t) (inc (t_cwd t) (inc (t_root t) y)))"
  have "kinv (?k1\<lparr>k_tasks := (k_tasks ?k1)(a := None)\<rparr>) x ?y"
  proof (rule kinv_task_del [OF close_everything(1) [OF assms(1-3)] t'(1)])
    show "fd_count f t' = 0" for f using t'(2) by (simp add: closed_task_def)
    show "?y n \<le> node_count n t' + y n" for n using t'(2) by (simp add: closed_task_def node_count_def count_pair inc_def)
  qed (use assms(4) in simp)
  then have "kinv (cb_vfs_node_release (cb_vfs_node_release (cb_vfs_node_release (cb_vfs_node_release
      (?k1\<lparr>k_tasks := (k_tasks ?k1)(a := None)\<rparr>) (i_node (t_image t))) (pending_node t)) (t_cwd t)) (t_root t)) x y"
    by (intro kinv_release)
  then show ?thesis using assms(2) by (simp add: task_destroy_def Let_def node_ops_commute pending_node_def)
qed

lemma task_destroy_fields [simp]: "k_list (task_destroy k a) = k_list k" "k_current (task_destroy k a) = k_current k"
  by (simp_all add: task_destroy_def fault_def Let_def split: option.split)

lemma kinv_list:
  "kinv k x y \<Longrightarrow> distinct l \<Longrightarrow> set l \<subseteq> dom (k_tasks k) \<Longrightarrow> kinv (k\<lparr>k_list := l\<rparr>) x y"
  by (simp add: kinv_def files_ok_def pipes_ok_def tasks_ok_def file_refs_def ends_def node_refs_def cong: option.case_cong)

lemma kinv_listD: "kinv k x y \<Longrightarrow> distinct (k_list k) \<and> set (k_list k) \<subseteq> dom (k_tasks k)"
  by (simp add: kinv_def tasks_ok_def)

end
