(* ===== verification/Kernel_Calls.thy ===== *)
theory Kernel_Calls
  imports Kernel_Steps
begin

text \<open>
  Every call keeps the invariant. \<open>good k a x y\<close> is the state in the middle of a call of the task \<open>a\<close>;
  \<open>returns a out\<close> says that the call ends well: it returns to the running task, or gives the
  processor back.
\<close>

definition good :: "cb_kernel \<Rightarrow> addr \<Rightarrow> (addr \<Rightarrow> nat) \<Rightarrow> (addr \<Rightarrow> nat) \<Rightarrow> bool" where
  "good k a x y \<longleftrightarrow> kinv k x y \<and> k_current k = Some a \<and>
     (case k_tasks k a of None \<Rightarrow> False | Some t \<Rightarrow> t_state t = CB_TASK_RUNNING)"

definition returns :: "addr \<Rightarrow> outcome \<Rightarrow> bool" where
  "returns a out \<longleftrightarrow> (case out of
      (None, k) \<Rightarrow> kinv k zero zero \<and> k_current k = None
    | (Some r, k) \<Rightarrow> good k a zero zero)"

lemma returns_simps [simp]:
  "returns a (None, k) \<longleftrightarrow> kinv k zero zero \<and> k_current k = None"
  "returns a (Some r, k) \<longleftrightarrow> good k a zero zero"
  by (simp_all add: returns_def)

lemma goodE:
  assumes "good k a x y"
  obtains t where "k_tasks k a = Some t" "t_state t = CB_TASK_RUNNING" "loose t" "kinv k x y" "k_current k = Some a"
    "task_shape (vfs_root (k_vfs k)) t"
proof -
  obtain t where t: "k_tasks k a = Some t" "t_state t = CB_TASK_RUNNING"
    using assms by (auto simp: good_def split: option.splits)
  moreover from t(2) have "loose t" by (simp add: loose_def off_processor_def)
  moreover have "kinv k x y" "k_current k = Some a" using assms by (auto simp: good_def)
  ultimately show ?thesis using that kinv_shape by blast
qed

lemma goodI: "kinv k x y \<Longrightarrow> k_current k = Some a \<Longrightarrow> k_tasks k a = Some t \<Longrightarrow> t_state t = CB_TASK_RUNNING \<Longrightarrow> good k a x y"
  by (simp add: good_def)

lemma good_kinv: "good k a x y \<Longrightarrow> kinv k x y"
  by (simp add: good_def)

lemma good_task: "good k a x y \<Longrightarrow> k_tasks k a \<noteq> None"
  by (auto simp: good_def split: option.splits)

text \<open>A step that keeps the running task as it is.\<close>

lemma good_step:
  assumes "good k a x y" "kinv k' x' y'" "k_current k' = k_current k"
    and "\<And>t. k_tasks k a = Some t \<Longrightarrow> t_state t = CB_TASK_RUNNING \<Longrightarrow> \<exists>t'. k_tasks k' a = Some t' \<and> t_state t' = t_state t"
  shows "good k' a x' y'"
  using assms by (auto simp: good_def split: option.splits)

lemma good_plain:
  assumes "good k a x y" "plain_update g"
  shows "good (upd_task k a g) a x y"
  by (rule good_step [OF assms(1)])
    (use kinv_plain [OF good_kinv [OF assms(1)] assms(2) good_task [OF assms(1)]] assms(2) in
      \<open>auto simp: upd_task_at plain_update_state\<close>)

lemma good_error: "good k a x y \<Longrightarrow> good (cb_task_set_error k a e) a x y"
  by (simp add: cb_task_set_error_def good_plain)

lemma good_host: "good k a x y \<Longrightarrow> seq k \<le> alloc_seq h \<Longrightarrow> good (set_host k h) a x y"
  by (rule good_step) (auto intro: kinv_host good_kinv)

lemma good_vfs:
  "good k a x y \<Longrightarrow> advances (k_vfs k) v' (\<lambda>n. node_refs k n + y' n) \<Longrightarrow> good (k\<lparr>k_vfs := v'\<rparr>) a x y'"
  by (rule good_step) (auto intro: kinv_vfs good_kinv)

lemma good_console: "good k a x y \<Longrightarrow> good (k\<lparr>k_console := c\<rparr>) a x y"
  by (rule good_step) (auto intro: good_kinv)

lemma good_offset:
  "good k a x y \<Longrightarrow> k_files k f = Some file \<Longrightarrow> good (k\<lparr>k_files := (k_files k)(f \<mapsto> file\<lparr>of_offset := i\<rparr>)\<rparr>) a x y"
  by (rule good_step) (auto intro: kinv_offset good_kinv)

lemma good_retain:
  "good k a x y \<Longrightarrow> (\<And>m. n = Some m \<Longrightarrow> m \<in> dom (nodes (k_vfs k))) \<Longrightarrow> good (cb_vfs_node_retain k n) a x (inc n y)"
  by (rule good_step) (auto intro: kinv_retain good_kinv)

lemma good_release: "good k a x (inc n y) \<Longrightarrow> good (cb_vfs_node_release k n) a x y"
  by (rule good_step) (auto intro: kinv_release good_kinv)

lemma good_file_retain: "good k a x y \<Longrightarrow> k_files k f \<noteq> None \<Longrightarrow> good (cb_open_file_retain k f) a (inc (Some f) x) y"
  by (rule good_step) (auto intro: kinv_file_retain good_kinv)

lemma good_file_release: "good k a (inc f x) y \<Longrightarrow> good (cb_open_file_release k f) a x y"
  by (rule good_step) (auto intro: kinv_file_release good_kinv simp: file_release_task)

lemma good_for_tasks: "good k a x y \<Longrightarrow> wakes g \<Longrightarrow> good (for_tasks g k) a x y"
  by (rule good_step) (auto intro: kinv_for_tasks good_kinv simp: for_tasks_task)

lemma good_pipe:
  "\<lbrakk>good k a x y; k_pipes k p = Some q; pipe_ok q'; pp_readers q' = pp_readers q; pp_writers q' = pp_writers q\<rbrakk> \<Longrightarrow>
   good (k\<lparr>k_pipes := (k_pipes k)(p \<mapsto> q')\<rparr>) a x y"
  by (rule good_step) (auto intro: kinv_pipe_same good_kinv)

lemmas good_intros = good_error good_host good_console good_plain

text \<open>Giving the processor back.\<close>

lemma suspended_at_state:
  "suspended_at files t s \<Longrightarrow> s \<noteq> In_exec \<Longrightarrow>
   suspended_at files (t\<lparr>t_wake_reason := w, t_state := st, t_suspended := s'\<rparr>) s"
  by (cases s) (auto simp: holds_end_def)

lemma yield_ok:
  assumes "good k a zero zero" "st \<noteq> CB_TASK_EXEC_PENDING"
    and "\<And>t. k_tasks k a = Some t \<Longrightarrow> suspended_at (k_files k) t s" "s \<noteq> In_exec"
  shows "returns a (None, cb_task_yield_as k a st s)"
proof -
  obtain t where t: "k_tasks k a = Some t" "kinv k zero zero" "task_shape (vfs_root (k_vfs k)) t"
    by (rule goodE [OF assms(1)])
  let ?t = "t\<lparr>t_wake_reason := CB_WAKE_NONE, t_state := st, t_suspended := s\<rparr>"
  have "task_ok (vfs_root (k_vfs k)) (k_files k) ?t"
    using t(3) suspended_at_state [OF assms(3) [OF t(1)] assms(4)] assms(2) by (simp add: task_ok_def task_shape_def)
  then have "kinv (k\<lparr>k_tasks := (k_tasks k)(a \<mapsto> ?t)\<rparr>) zero zero"
    by (rule kinv_task_upd [OF t(2,1)]) (simp_all add: fd_count_def node_count_def held_nodes_def pending_node_def)
  then show ?thesis by (simp add: cb_task_yield_as_def upd_task_def t(1))
qed

section \<open>Calls on descriptors\<close>

lemma on_file_ok:
  assumes "good k a zero zero"
    and "\<And>f file err t. k_tasks k a = Some t \<Longrightarrow> fd_lookup t d = Some f \<Longrightarrow> k_files k f = Some file \<Longrightarrow>
           ok (of_ops file) \<Longrightarrow> returns a (body f file err)"
  shows "returns a (on_file k a d ok bad body)"
proof -
  obtain t where t: "k_tasks k a = Some t" "kinv k zero zero" "task_shape (vfs_root (k_vfs k)) t"
    by (rule goodE [OF assms(1)])
  have "k_files k f \<noteq> None" if "fd_lookup t d = Some f" for f
    using kinv_fd_file [OF t(2,1)] fd_lookup_in(4) [OF t(3) that] by blast
  then show ?thesis using assms t(1) by (auto simp: on_file_def good_error split: option.split)
qed

lemma holds_endI:
  assumes "good k a x y" "k_tasks k a = Some t" "fd_lookup t d = Some f" "k_files k f = Some file" "of_ops file = e p"
  shows "holds_end (k_files k) t f e"
  using fd_lookup_in(4) [OF kinv_shape [OF good_kinv [OF assms(1)] assms(2)] assms(3)] assms(4,5)
  unfolding holds_end_def by blast

lemma console_read_ok: "good k a zero zero \<Longrightarrow> returns a (console_read k a count)"
  by (auto simp: console_read_def Let_def good_error good_console split: prod.split
      simp del: returns_simps(1) intro!: yield_ok)

lemma console_write_ok: "good k a zero zero \<Longrightarrow> returns a (console_write k a stream buffer)"
  by (auto simp: console_write_def Let_def good_error good_console)

lemma pipe_read_try_ok:
  assumes "pipe_ok q" "pipe_read_try q count = Read_bytes bytes q'"
  shows "pipe_ok q'" "pp_readers q' = pp_readers q" "pp_writers q' = pp_writers q"
proof -
  have "q' = snd (pipe_take q count)" using assms(2) by (auto simp: pipe_read_try_def split: if_splits prod.splits)
  then show "pipe_ok q'" "pp_readers q' = pp_readers q" "pp_writers q' = pp_writers q"
    using pipe_read_try_bytes [OF assms] by simp_all
qed

lemma pipe_write_try_ok:
  assumes "pipe_ok q" "tot \<le> length source" "write_result (pipe_write_try q source tot) = (t, q')"
  shows "pipe_ok q'" "pp_readers q' = pp_readers q" "pp_writers q' = pp_writers q" "t \<le> length source"
  using assms write_result_eq [OF assms(1,2)] pipe_queue.invar_put [OF assms(1) pipe_accepted_fits [OF assms(1)], of source tot]
  by (auto simp: pipe_accepted_def)

lemma pipe_read_ok:
  assumes "good k a zero zero" "k_tasks k a = Some t" "holds_end (k_files k) t f PipeReadEnd"
    "k_files k f = Some file" "of_ops file = PipeReadEnd p"
  shows "returns a (pipe_read k a f p count)"
proof -
  obtain q where q: "k_pipes k p = Some q" using kinv_end_pipe [OF good_kinv [OF assms(1)] assms(4)] assms(5) by blast
  note ok = kinv_pipe(1) [OF good_kinv [OF assms(1)] q]
  show ?thesis
  proof (cases "pipe_read_try q count")
    case Read_waits
    have "returns a (None, cb_task_yield_as k a CB_TASK_BLOCKED_PIPE (In_pipe_read f count))"
      by (rule yield_ok) (use assms in auto)
    then show ?thesis by (simp add: pipe_read_def q Read_waits del: returns_simps)
  next
    case (Read_bytes bytes q')
    then show ?thesis
      using pipe_read_try_ok [OF ok Read_bytes] assms(1) q
      by (simp add: pipe_read_def q good_error good_for_tasks good_pipe cb_wake_pipe_tasks_def)
  qed (use assms(1) in \<open>simp_all add: pipe_read_def q good_error\<close>)
qed

lemma pipe_stored_ok:
  assumes "good k a x y" "k_pipes k p = Some q" "pipe_ok q'" "pp_readers q' = pp_readers q" "pp_writers q' = pp_writers q"
  shows "good (pipe_stored k p q' b) a x y" "k_files (pipe_stored k p q' b) = k_files k"
  using assms by (simp_all add: pipe_stored_def cb_wake_pipe_tasks_def good_for_tasks good_pipe)

lemma pipe_stored_task:
  assumes "good k a x y" "k_tasks k a = Some t" shows "k_tasks (pipe_stored k p q b) a = Some t"
proof -
  have "\<not> is_blocked (t_state t)" using assms by (auto simp: good_def)
  then show ?thesis
    using assms(2) for_tasks_task [of wake_on_pipe "k\<lparr>k_pipes := (k_pipes k)(p \<mapsto> q)\<rparr>" a t]
    by (simp add: pipe_stored_def cb_wake_pipe_tasks_def)
qed

lemma pipe_write_ok:
  assumes "good k a zero zero" "k_tasks k a = Some t" "holds_end (k_files k) t f PipeWriteEnd"
    "k_files k f = Some file" "of_ops file = PipeWriteEnd p" "tot \<le> length source"
  shows "returns a (pipe_write k a f p source tot)"
proof -
  obtain q where q: "k_pipes k p = Some q" using kinv_end_pipe [OF good_kinv [OF assms(1)] assms(4)] assms(5) by blast
  note ok = kinv_pipe(1) [OF good_kinv [OF assms(1)] q]
  show ?thesis
  proof (cases "pipe_write_try q source tot")
    case (Write_done n q')
    then show ?thesis
      using pipe_write_try_ok [OF ok assms(6)] assms(1) q by (simp add: pipe_write_def q good_error pipe_stored_ok)
  next
    case (Write_broken n q')
    then show ?thesis
      using pipe_write_try_ok [OF ok assms(6)] assms(1) q by (simp add: pipe_write_def q good_error pipe_stored_ok)
  next
    case (Write_waits n q')
    then have w: "pipe_ok q'" "pp_readers q' = pp_readers q" "pp_writers q' = pp_writers q" "n \<le> length source"
      using pipe_write_try_ok [OF ok assms(6)] by simp_all
    have "returns a (None, cb_task_yield_as (pipe_stored k p q' (tot < n)) a CB_TASK_BLOCKED_PIPE (In_pipe_write f source n))"
      by (rule yield_ok)
        (use assms q w pipe_stored_ok [OF assms(1) q w(1-3)] pipe_stored_task [OF assms(1,2)] in auto)
    then show ?thesis by (simp add: pipe_write_def q Write_waits del: returns_simps)
  qed
qed

lemma store_io_ok:
  assumes "good k a zero zero" "k_files k f = Some file" "r = (n, bytes, err, file', v)"
    "advances (k_vfs k) v (\<lambda>n. node_refs k n) \<and> (\<exists>i. file' = file\<lparr>of_offset := i\<rparr>)"
  shows "good (store_io k a f r) a zero zero"
proof -
  obtain i where i: "file' = file\<lparr>of_offset := i\<rparr>" using assms(4) by blast
  have "good (k\<lparr>k_vfs := v\<rparr>) a zero zero" by (rule good_vfs [OF assms(1)]) (use assms(4) in simp)
  then have "good (k\<lparr>k_vfs := v, k_files := (k_files k)(f \<mapsto> file')\<rparr>) a zero zero"
    using good_offset [of "k\<lparr>k_vfs := v\<rparr>" a zero zero f "file" i] assms(2) i by simp
  then show ?thesis by (simp add: store_io_def assms(3) good_error)
qed

lemma good_live: "good k a x zero \<Longrightarrow> live (k_vfs k) (\<lambda>n. node_refs k n)"
  by (drule good_kinv, drule kinv_live) simp

lemma api_read_ok: "good k a zero zero \<Longrightarrow> returns a (api_read k a d null count)"
  unfolding api_read_def
proof (rule on_file_ok)
  fix f "file" err t
  assume g: "good k a zero zero" and t: "k_tasks k a = Some t" "fd_lookup t d = Some f" "k_files k f = Some file" "has_read (of_ops file)"
  have "returns a (file_read k a f file err count)"
  proof (cases "of_ops file")
    case (NodeFile n)
    obtain r bytes e file' v where r: "node_read (k_vfs k) n file err count = (r, bytes, e, file', v)" by (metis prod_cases5)
    show ?thesis
      using store_io_ok [OF g t(3) r [symmetric, THEN sym]] advances_read [OF good_live [OF g] r]
      by (simp add: file_read_def NodeFile Let_def)
  next
    case (PipeReadEnd p)
    then show ?thesis
      using pipe_read_ok [OF g t(1) holds_endI [OF g t(1-3), of PipeReadEnd p] t(3)] by (simp add: file_read_def)
  next
    case ConsoleInput
    then show ?thesis using console_read_ok [OF g] by (simp add: file_read_def)
  qed (use t(4) in simp_all)
  then show "returns a (if int count > INT64_MAX then (Some (R_bytes (-1) []), set_errno k a CB_EINVAL)
       else if count \<noteq> 0 \<and> null then (Some (R_bytes (-1) []), set_errno k a CB_EINVAL)
       else file_read k a f file err count)" using g by (simp add: good_error)
qed

lemma api_write_ok: "good k a zero zero \<Longrightarrow> returns a (api_write k a d buffer count)"
  unfolding api_write_def
proof (rule on_file_ok)
  fix f "file" err t
  assume g: "good k a zero zero" and t: "k_tasks k a = Some t" "fd_lookup t d = Some f" "k_files k f = Some file" "has_write (of_ops file)"
  have "returns a (file_write k a f file err bs)" for bs
  proof (cases "of_ops file")
    case (NodeFile n)
    obtain r bytes e file' v where r: "node_write (k_vfs k) n file err bs = (r, bytes, e, file', v)" by (metis prod_cases5)
    show ?thesis
      using store_io_ok [OF g t(3) r [symmetric, THEN sym]] advances_write [OF good_live [OF g] r]
      by (simp add: file_write_def NodeFile Let_def)
  next
    case (PipeWriteEnd p)
    then show ?thesis
      using pipe_write_ok [OF g t(1) holds_endI [OF g t(1-3), of PipeWriteEnd p] t(3), of p 0 bs] by (simp add: file_write_def)
  next
    case (ConsoleOutput n)
    then show ?thesis using console_write_ok [OF g] by (simp add: file_write_def)
  qed (use t(4) in simp_all)
  then show "returns a (if int count > INT64_MAX then (Some (R_int (-1)), set_errno k a CB_EINVAL)
       else if count \<noteq> 0 \<and> buffer = None then (Some (R_int (-1)), set_errno k a CB_EINVAL)
       else file_write k a f file err (case buffer of None \<Rightarrow> [] | Some bytes \<Rightarrow> take count bytes))"
    using g by (simp add: good_error)
qed

lemma api_lseek_ok:
  assumes "good k a zero zero" shows "returns a (api_lseek k a d offset whence)"
  unfolding api_lseek_def
proof (rule on_file_ok [OF assms])
  fix f "file" err t
  assume t: "k_files k f = Some file"
  have "\<exists>i. file' = file\<lparr>of_offset := i\<rparr>" if "node_lseek (k_vfs k) n file err offset whence = (r, e, file')" for n r e file'
  proof -
    have "file' = file \<or> (\<exists>i. file' = file\<lparr>of_offset := i\<rparr>)"
      using that by (auto simp: node_lseek_def Let_def split: option.splits if_splits)
    moreover have "file = file\<lparr>of_offset := of_offset file\<rparr>" by simp
    ultimately show ?thesis by metis
  qed
  then show "returns a (case of_ops file of
         NodeFile n \<Rightarrow>
           (case node_lseek (k_vfs k) n file err offset whence of
              (r, err', file') \<Rightarrow>
                (Some (R_int r), cb_task_set_error (k\<lparr>k_files := (k_files k)(f \<mapsto> file')\<rparr>) a err'))
       | _ \<Rightarrow> no_seek k a)"
    using assms t good_offset [OF assms t]
    by (auto simp: no_seek_def good_error split: file_ops.split prod.split) (metis good_error)
qed

lemma api_ftruncate_ok:
  assumes "good k a zero zero" shows "returns a (api_ftruncate k a d len)"
  unfolding api_ftruncate_def
proof (rule on_file_ok [OF assms])
  fix f "file" err t
  have "good (k\<lparr>k_vfs := v\<rparr>) a zero zero" if "cb_vfs_truncate_node (k_vfs k) n len = (r, v)" for n r v
    by (rule good_vfs [OF assms]) (use advances_truncate_node [OF good_live [OF assms] that] in simp)
  then show "returns a (if len < 0 \<or> nat len > SIZE_MAX then (Some (R_int (-1)), set_errno k a CB_EINVAL)
       else case of_ops file of
              NodeFile n \<Rightarrow> node_truncate k a file n len
            | _ \<Rightarrow> no_truncate k a)"
    using assms
    by (auto simp: no_truncate_def node_truncate_def good_error split: file_ops.split prod.split option.split)
qed

lemma api_fstat_ok:
  assumes "good k a zero zero" shows "returns a (api_fstat k a d null)"
  unfolding api_fstat_def
  by (rule on_file_ok [OF assms]) (use assms in \<open>auto simp: good_error split: sum.split\<close>)

lemma terminal_for_descriptor_ok:
  assumes "good k a zero zero" shows "good (snd (terminal_for_descriptor k a d)) a zero zero"
proof -
  obtain t where t: "k_tasks k a = Some t" "kinv k zero zero" "task_shape (vfs_root (k_vfs k)) t"
    by (rule goodE [OF assms])
  have "k_files k f \<noteq> None" if "fd_lookup t d = Some f" for f
    using kinv_fd_file [OF t(2,1)] fd_lookup_in(4) [OF t(3) that] by blast
  then show ?thesis using assms t(1) by (auto simp: terminal_for_descriptor_def good_error split: option.split)
qed

lemma terminal_calls_ok:
  assumes "good k a zero zero"
  shows "returns a (api_isatty k a d)" "returns a (terminal_attributes_unavailable k a d null)"
  using terminal_for_descriptor_ok [OF assms, of d]
  by (auto simp: api_isatty_def terminal_attributes_unavailable_def good_error split: prod.split bool.split)

lemma good_fd_close:
  assumes "good k a x y" "k_tasks k a = Some t" "fd_lookup t d = Some f"
  shows "good (snd (fd_close k a d)) a x y"
proof -
  obtain t' where t: "k_tasks k a = Some t'" "loose t'" "kinv k x y" "t_state t' = CB_TASK_RUNNING" by (rule goodE [OF assms(1)])
  then show ?thesis
    using fd_close_ok(1,3) [OF t(3,1,2), of d f] assms
    by (intro good_step [OF assms(1)]) (auto simp: without_fd_def)
qed

lemma api_close_ok:
  assumes "good k a zero zero" shows "returns a (api_close k a d)"
proof -
  obtain t where t: "k_tasks k a = Some t" by (rule goodE [OF assms])
  show ?thesis
  proof (cases "fd_lookup t d")
    case None
    then show ?thesis using assms t by (simp add: api_close_def fd_close_def good_error)
  next
    case (Some f)
    then show ?thesis
      using good_fd_close [OF assms t Some] t by (auto simp: api_close_def good_error split: prod.split)
  qed
qed

lemma good_fd_install:
  assumes "good k a (inc (Some f) x) y" "fd_install k a f 0 = (r, k')"
  shows "good k' a (if r < 0 then inc (Some f) x else x) y"
proof -
  obtain t where t: "k_tasks k a = Some t" "loose t" "kinv k (inc (Some f) x) y" by (rule goodE [OF assms(1)])
  show ?thesis
    by (rule good_step [OF assms(1) kinv_fd_install [OF t(3,1,2) assms(2)]])
      (use fd_install_task [OF t(1) assms(2)] t(1) in auto)
qed

lemma api_dup_ok:
  assumes "good k a zero zero" shows "returns a (api_dup k a d)"
proof -
  obtain t where t: "k_tasks k a = Some t" "kinv k zero zero" "task_shape (vfs_root (k_vfs k)) t" by (rule goodE [OF assms])
  show ?thesis
  proof (cases "fd_lookup t d")
    case None
    then show ?thesis using assms t by (simp add: api_dup_def good_error)
  next
    case (Some f)
    then have "good (cb_open_file_retain k f) a (inc (Some f) zero) zero"
      using good_file_retain [OF assms] kinv_fd_file [OF t(2,1)] fd_lookup_in(4) [OF t(3) Some] by blast
    from good_fd_install [OF this] show ?thesis
      using t(1) Some good_file_release [of _ a "Some f" zero zero]
      by (auto simp: api_dup_def good_error split: prod.split)
  qed
qed

lemma good_dup_slot:
  assumes "good k a x y" "k_tasks k a = Some t" "fd_lookup t e = Some f" "valid_fd d" "d \<noteq> e"
  shows "good (snd (fd_install_at k a f d True)) a x y"
proof -
  obtain t' where t: "k_tasks k a = Some t'" "loose t'" "kinv k x y" by (rule goodE [OF assms(1)])
  then have "kinv (snd (fd_install_at k a f d True)) x y" using assms by (intro kinv_dup_slot [OF t(3,1,2)]) auto
  then show ?thesis
    by (rule good_step [OF assms(1)]) (use install_at_task [OF t(1) looseD [OF t(2)] assms(4), of f True] t(1) in auto)
qed

lemma api_dup2_ok:
  assumes "good k a zero zero" shows "returns a (api_dup2 k a old new)"
proof -
  obtain t where t: "k_tasks k a = Some t" by (rule goodE [OF assms])
  then show ?thesis
    using assms good_dup_slot [OF assms t, of old _ new]
    by (auto simp: api_dup2_def good_error Let_def split: option.split)
qed

lemma set_own_fd:
  assumes "good k a x y" "k_tasks k a = Some t" "fd_lookup t d = Some f"
  shows "good (set_fd k a d (Some f) c) a x y"
proof -
  obtain t' where t': "k_tasks k a = Some t'" "loose t'" "kinv k x y" "task_shape (vfs_root (k_vfs k)) t'" by (rule goodE [OF assms(1)])
  have t: "t' = t" using t'(1) assms(2) by simp
  note fd = fd_lookup_in [OF t'(4) assms(3) [folded t]]
  have "k_files k f \<noteq> None" using kinv_fd_file [OF t'(3,1) fd(4)] .
  let ?t = "t\<lparr>t_descriptors := (t_descriptors t)[nat d := \<lparr>fd_file = Some f, close_on_exec = c\<rparr>]\<rparr>"
  have same: "map fd_file ((t_descriptors t)[nat d := \<lparr>fd_file = Some f, close_on_exec = c\<rparr>]) = map fd_file (t_descriptors t)"
    using fd(3) t by (simp add: map_update list_update_same_conv) (metis fd(2) list_update_id map_update nth_map)
  have "task_ok (vfs_root (k_vfs k)) (k_files k) ?t"
    by (rule loose_ok) (use t'(2,4) t in \<open>simp_all add: task_shape_def\<close>)
  then have "kinv (k\<lparr>k_tasks := (k_tasks k)(a \<mapsto> ?t)\<rparr>) x y"
    by (rule kinv_task_upd [OF t'(3) assms(2)])
      (simp_all add: fd_count_def same node_count_def held_nodes_def pending_node_def)
  then have "kinv (set_fd k a d (Some f) c) x y" by (simp add: set_fd_def upd_task_def assms(2))
  then show ?thesis by (rule good_step [OF assms(1)]) (simp_all add: set_fd_task)
qed

lemma api_set_cloexec_ok:
  assumes "good k a zero zero" shows "returns a (api_set_cloexec k a d enabled)"
proof -
  obtain t where t: "k_tasks k a = Some t" by (rule goodE [OF assms])
  then show ?thesis
    using assms set_own_fd [OF assms t] by (auto simp: api_set_cloexec_def good_error split: option.split)
qed

end
