(* ===== verification/Kernel_Paths.thy ===== *)
theory Kernel_Paths
  imports Kernel_Calls
begin

text \<open>The calls that create pipes and those on paths and directories keep the invariant.\<close>

section \<open>Creating a pipe\<close>

lemma kinv_end_new:
  assumes "kinv k x y" "k_files k f = None" "f < seq k" "of_references file = 1" "p < seq k"
    and e: "of_ops file = PipeReadEnd p \<and> pp_readers q = ends k (PipeReadEnd p) + 1 \<and> pp_writers q = ends k (PipeWriteEnd p) \<or>
            of_ops file = PipeWriteEnd p \<and> pp_writers q = ends k (PipeWriteEnd p) + 1 \<and> pp_readers q = ends k (PipeReadEnd p)"
    and q: "pipe_ok q"
  shows "kinv (k\<lparr>k_files := (k_files k)(f \<mapsto> file), k_pipes := (k_pipes k)(p \<mapsto> q)\<rparr>) (inc (Some f) x) y"
proof (rule kinv_file_upd [OF assms(1), where was = None and now = "Some (of_ops file)"])
  let ?k = "k\<lparr>k_files := (k_files k)(f \<mapsto> file), k_pipes := (k_pipes k)(p \<mapsto> q)\<rparr>"
  have en: "ends ?k o' = ends k o' + is_ops o' file" for o'
    using ends_files [OF finite_files [OF assms(1)], of f "Some file" o'] assms(2) by (simp add: ends_def)
  show "pipes_ok ?k"
  proof (rule pipes_okI)
    fix p' assume "k_pipes ?k p' = None"
    then show "ends ?k (PipeReadEnd p') = 0 \<and> ends ?k (PipeWriteEnd p') = 0"
      using en [of "PipeReadEnd p'"] en [of "PipeWriteEnd p'"] e kinv_no_pipe [OF assms(1), of p']
      by (auto simp: is_ops_def split: if_splits)
  next
    fix p' q'' assume "k_pipes ?k p' = Some q''"
    then show "pipe_ok q'' \<and> pp_readers q'' = ends ?k (PipeReadEnd p') \<and> pp_writers q'' = ends ?k (PipeWriteEnd p') \<and>
           (pp_readers q'' > 0 \<or> pp_writers q'' > 0) \<and> p' < seq ?k"
      using en [of "PipeReadEnd p'"] en [of "PipeWriteEnd p'"] e q assms(5) kinv_pipe [OF assms(1), of p']
      by (auto simp: is_ops_def split: if_splits)
  qed
qed (use assms kinv_no_file [OF assms(1,2)] e in \<open>auto simp: inc_def\<close>)

lemma fresh_stores:
  assumes "kinv k x y" "seq k \<le> n"
  shows "k_files k n = None" "k_pipes k n = None" "k_tasks k n = None"
proof -
  show "k_files k n = None" using kinv_file(3) [OF assms(1), of n] assms(2) by (cases "k_files k n") fastforce+
  show "k_pipes k n = None" using kinv_pipe(5) [OF assms(1), of n] assms(2) by (cases "k_pipes k n") fastforce+
  show "k_tasks k n = None" using kinv_task [OF assms(1), of n] assms(2) by (cases "k_tasks k n") fastforce+
qed

lemma set_fields [simp]:
  "k_host (set_host k h) = h" "k_vfs (k\<lparr>k_files := F\<rparr>) = k_vfs k" "k_vfs (k\<lparr>k_pipes := P\<rparr>) = k_vfs k"
  by simp_all

lemma pipe_new_counts [simp]: "pp_readers pipe_new = 0" "pp_writers pipe_new = 0" "pipe_ok pipe_new"
  using pipe_new_ok by (simp_all add: pipe_new_def)

text \<open>A new open file on an end of a pipe, with the pipe's count set at the same time.\<close>

lemma good_end_new:
  assumes "good k a x y" "cb_open_file_create k ops flags = (Some f, k')"
    and "p < seq k" "pipe_ok q"
    and "ops = PipeReadEnd p \<and> pp_readers q = ends k (PipeReadEnd p) + 1 \<and> pp_writers q = ends k (PipeWriteEnd p) \<or>
         ops = PipeWriteEnd p \<and> pp_writers q = ends k (PipeWriteEnd p) + 1 \<and> pp_readers q = ends k (PipeReadEnd p)"
  shows "good (k'\<lparr>k_pipes := (k_pipes k')(p \<mapsto> q)\<rparr>) a (inc (Some f) x) y" "f = seq k" "seq k' = Suc (seq k)"
    "k_pipes k' = k_pipes k"
    "ends (k'\<lparr>k_pipes := P\<rparr>) e = ends k e + (if e = ops then 1 else 0)"
proof -
  obtain h where h: "cb_allocate (k_host k) = (Some f, h)"
    and k': "k' = (set_host k h)\<lparr>k_files := (k_files k)(f \<mapsto>
             \<lparr>of_references = 1, of_flags = flags, of_offset = 0, of_ops = ops, of_terminal = False\<rparr>)\<rparr>"
    using assms(2) by (auto simp: cb_open_file_create_def split: prod.splits option.splits)
  note s = cb_allocate_Some [OF h]
  then show f: "f = seq k" "seq k' = Suc (seq k)" "k_pipes k' = k_pipes k" by (simp_all add: k')
  have g: "good (set_host k h) a x y" by (rule good_host [OF assms(1)]) (use s in simp)
  have en: "ends (set_host k h) = ends k" by (simp add: fun_eq_iff ends_def)
  have fresh: "k_files k f = None" using fresh_stores(1) [OF good_kinv [OF assms(1)], of f] s by simp
  have "kinv (k'\<lparr>k_pipes := (k_pipes k')(p \<mapsto> q)\<rparr>) (inc (Some f) x) y"
    using kinv_end_new [OF good_kinv [OF g], of f _ p q] assms(3-5) s fresh by (simp add: k' en)
  then show "good (k'\<lparr>k_pipes := (k_pipes k')(p \<mapsto> q)\<rparr>) a (inc (Some f) x) y"
    by (rule good_step [OF g]) (simp_all add: k')
  show "ends (k'\<lparr>k_pipes := P\<rparr>) e = ends k e + (if e = ops then 1 else 0)"
    using msum_new [OF finite_files [OF good_kinv [OF assms(1)]] fresh, of "is_ops e"] by (auto simp: k' ends_def is_ops_def)
qed

lemma good_create_fails:
  assumes "good k a x y" "cb_open_file_create k ops flags = (None, k')" shows "good k' a x y"
  using assms good_host [OF assms(1)] by (auto simp: cb_open_file_create_def cb_allocate_def split: if_splits)

lemma installed_fd:
  assumes "good k a x y" "fd_install k a f 0 = (r, k')" "\<not> r < 0"
  shows "\<exists>t. k_tasks k' a = Some t \<and> fd_lookup t r = Some f"
proof -
  obtain t where t: "k_tasks k a = Some t" "task_shape (vfs_root (k_vfs k)) t" by (rule goodE [OF assms(1)])
  then have lf: "lowest_free t 0 = Some r" "k' = set_fd k a r (Some f) False"
    using assms(2,3) by (auto simp: fd_install_def split: option.splits)
  then obtain j where j: "r = int j" "j < CB_MAX_FDS" by (auto simp: lowest_free_def find_Some_iff)
  then show ?thesis
    using t(2) set_fd_task [OF t(1), of r "Some f" False] lf(2)
    by (simp add: fd_lookup_def fd_entry_def valid_fd_def task_shape_def)
qed

text \<open>The end of \<^verbatim>\<open>api_pipe\<close>, from the two new open files.\<close>

lemma pipe_install_ok:
  assumes g: "good k a (inc (Some reader) (inc (Some writer) zero)) zero"
  shows "returns a (case fd_install k a reader 0 of
     (rd, k3) \<Rightarrow>
       if rd < 0
       then (Some (R_pipe (-1) None), cb_open_file_release (cb_open_file_release k3 (Some reader)) (Some writer))
       else (case fd_install k3 a writer 0 of
               (wd, k4) \<Rightarrow>
                 if wd < 0
                 then (Some (R_pipe (-1) None), cb_open_file_release (snd (fd_close k4 a rd)) (Some writer))
                 else (Some (R_pipe 0 (Some (rd, wd))), cb_task_set_error k4 a 0)))"
proof (cases "fd_install k a reader 0")
  case (Pair rd k3)
  note g3 = good_fd_install [OF g Pair]
  obtain wd k4 where i2: "fd_install k3 a writer 0 = (wd, k4)" by (cases "fd_install k3 a writer 0")
  show ?thesis
  proof (cases "rd < 0")
    case True
    then show ?thesis using g3 Pair good_file_release [OF good_file_release] by simp
  next
    case False
    then have g3: "good k3 a (inc (Some writer) zero) zero" using g3 by simp
    note g4 = good_fd_install [OF g3 i2]
    obtain t where t: "k_tasks k3 a = Some t" "fd_lookup t rd = Some reader" using installed_fd [OF g Pair False] by blast
    have "good (snd (fd_close k4 a rd)) a (inc (Some writer) zero) zero" if w: "wd < 0"
    proof -
      have "lowest_free t 0 = None"
        using i2 t(1) w by (auto simp: fd_install_def lowest_free_def find_Some_iff split: option.splits)
      then have "k_tasks k4 a = Some (t\<lparr>t_error := errno_value CB_EMFILE\<rparr>)"
        using i2 t(1) by (auto simp: fd_install_def set_error_at)
      moreover have "fd_lookup (t\<lparr>t_error := e\<rparr>) rd = Some reader" for e using t(2) by (simp add: fd_lookup_def fd_entry_def split: if_splits)
      ultimately show ?thesis using good_fd_close g4 w by fastforce
    qed
    then show ?thesis
      using g4 Pair i2 False good_file_release [of _ a "Some writer" zero zero] by (auto simp: good_error)
  qed
qed

lemma api_pipe_ok:
  assumes g: "good k a zero zero" shows "returns a (api_pipe k a null)"
proof (cases "null \<or> fst (cb_allocate (k_host k)) = None")
  case True
  have "good (set_host k (snd (cb_allocate (k_host k)))) a zero zero" by (rule good_host [OF g]) simp
  then show ?thesis using True g by (auto simp: api_pipe_def good_error split: prod.split option.split)
next
  case False
  then obtain p h where h: "cb_allocate (k_host k) = (Some p, h)" and null: "\<not> null" by (cases "cb_allocate (k_host k)") auto
  note s = cb_allocate_Some [OF h]
  let ?k = "set_host k h"
  have g0: "good ?k a zero zero" by (rule good_host [OF g]) (use s in simp)
  have "k_pipes ?k p = None" using fresh_stores(2) [OF good_kinv [OF g], of p] s by simp
  then have e0: "ends ?k (PipeReadEnd p) = 0" "ends ?k (PipeWriteEnd p) = 0" using kinv_no_pipe [OF good_kinv [OF g0]] by simp_all
  obtain ro k1 where c1: "cb_open_file_create ?k (PipeReadEnd p) CB_O_RDONLY = (ro, k1)" by fastforce
  show ?thesis
  proof (cases ro)
    case None
    then show ?thesis using good_create_fails [OF g0] c1 by (simp add: api_pipe_def null h good_error)
  next
    case (Some reader)
    note c1 = c1 [unfolded Some]
    let ?k1 = "k1\<lparr>k_pipes := (k_pipes k1)(p \<mapsto> pipe_new\<lparr>pp_readers := 1\<rparr>)\<rparr>"
    note n1 = good_end_new [OF g0 c1, of p "pipe_new\<lparr>pp_readers := 1\<rparr>"]
    have g1: "good ?k1 a (inc (Some reader) zero) zero" by (rule n1(1)) (use s e0 in simp_all)
    have s1: "p < seq ?k1" using n1(3) s e0 by simp
    have e1: "ends ?k1 (PipeReadEnd p) = 1" "ends ?k1 (PipeWriteEnd p) = 0" using n1(5) s e0 by simp_all
    obtain wo k2 where c2: "cb_open_file_create ?k1 (PipeWriteEnd p) CB_O_WRONLY = (wo, k2)" by fastforce
    show ?thesis
    proof (cases wo)
      case None
      then show ?thesis
        using good_file_release [OF good_create_fails [OF g1]] c2 by (simp add: api_pipe_def null h c1 good_error del: One_nat_def)
    next
      case (Some writer)
      note c2 = c2 [unfolded Some]
      have "good (k2\<lparr>k_pipes := (k_pipes k2)(p \<mapsto> pipe_new\<lparr>pp_readers := 1, pp_writers := 1\<rparr>)\<rparr>) a
          (inc (Some writer) (inc (Some reader) zero)) zero"
        by (rule good_end_new(1) [OF g1 c2]) (use s1 e1 in simp_all)
      from pipe_install_ok [OF this [unfolded inc_commute [of "Some writer"]]] show ?thesis
        unfolding api_pipe_def by (simp add: null h c1 c2 del: One_nat_def)
    qed
  qed
qed

section \<open>Calls on paths\<close>

text \<open>
  What the calls that go through \<^verbatim>\<open>path_call\<close> rely on: the operation of the path layer keeps the file
  system in order, whatever its result.
\<close>

locale path_operation =
  fixes operation :: "vfs_state \<Rightarrow> addr option \<Rightarrow> addr option \<Rightarrow> cb_error option \<times> vfs_state"
  assumes advances: "live v refs \<Longrightarrow> operation v (vfs_root v) cwd = (r, v') \<Longrightarrow> advances v v' refs"
begin

lemma path_call_ok:
  assumes "good k a zero zero" shows "returns a (path_call k a operation)"
proof -
  obtain t where t: "k_tasks k a = Some t" "task_shape (vfs_root (k_vfs k)) t" by (rule goodE [OF assms])
  obtain r v where r: "operation (k_vfs k) (vfs_root (k_vfs k)) (t_cwd t) = (r, v)" by fastforce
  have "good (k\<lparr>k_vfs := v\<rparr>) a zero zero"
    by (rule good_vfs [OF assms]) (use advances [OF good_live [OF assms] r] in simp)
  then show ?thesis using t r by (auto simp: path_call_def task_shape_def good_error split: option.split)
qed

end

interpretation truncate_call: path_operation "\<lambda>v root cwd. cb_vfs_truncate_path v root cwd path len" for path len
  by unfold_locales (rule advances_truncate)

interpretation mkdir_call: path_operation "\<lambda>v root cwd. cb_vfs_mkdir_path v root cwd path mode" for path mode
  by unfold_locales (rule advances_mkdir)

interpretation unlink_call: path_operation "\<lambda>v root cwd. cb_vfs_unlink_path v root cwd path" for path
  by unfold_locales (rule advances_unlink)

interpretation rmdir_call: path_operation "\<lambda>v root cwd. cb_vfs_rmdir_path v root cwd path" for path
  by unfold_locales (rule advances_rmdir)

interpretation rename_call: path_operation "\<lambda>v root cwd. cb_vfs_rename_paths v root cwd old new" for old new
  by unfold_locales (rule advances_rename)

lemmas path_calls_ok =
  truncate_call.path_call_ok [folded api_truncate_def] mkdir_call.path_call_ok [folded api_mkdir_def]
  unlink_call.path_call_ok [folded api_unlink_def] rmdir_call.path_call_ok [folded api_rmdir_def]
  rename_call.path_call_ok [folded api_rename_def]

lemma api_open_ok:
  assumes g: "good k a zero zero" shows "returns a (api_open k a path flags mode)"
proof -
  obtain t where t: "k_tasks k a = Some t" by (rule goodE [OF g])
  obtain res v where r: "cb_vfs_open (k_vfs k) (t_root t) (t_cwd t) path flags mode = (res, v)" by fastforce
  note op = advances_open [OF good_live [OF g] r]
  show ?thesis
  proof (cases res)
    case (Inl e)
    then have "good (k\<lparr>k_vfs := v\<rparr>) a zero zero" by (intro good_vfs [OF g]) (use op in simp)
    then show ?thesis using t r Inl by (simp add: api_open_def good_error)
  next
    case (Inr ff)
    obtain f "file" where ff: "ff = (f, file)" by fastforce
    obtain n where n: "advances (k_vfs k) v ((node_refs k)(n := node_refs k n + 1))" "of_ops file = NodeFile n"
      "of_references file = 1" "seq k \<le> f" "f < alloc_seq (v_host v)" using op Inr ff by auto
    have "(\<lambda>m. node_refs k m + inc (Some n) zero m) = (node_refs k)(n := node_refs k n + 1)" by (auto simp: inc_def)
    then have g1: "good (k\<lparr>k_vfs := v\<rparr>) a zero (inc (Some n) zero)" by (intro good_vfs [OF g]) (use n(1) in simp)
    let ?k = "k\<lparr>k_vfs := v, k_files := (k_files k)(f \<mapsto> file)\<rparr>"
    have "kinv ?k (inc (Some f) zero) zero"
      using kinv_file_new [OF good_kinv [OF g1], of f "file"] n fresh_stores(1) [OF good_kinv [OF g] n(4)] by simp
    then have "good ?k a (inc (Some f) zero) zero" by (rule good_step [OF g1]) simp_all
    then have g2: "good (cb_task_set_error ?k a 0) a (inc (Some f) zero) zero" by (rule good_error)
    obtain d k' where i: "fd_install (cb_task_set_error ?k a 0) a f 0 = (d, k')" by fastforce
    show ?thesis
      using good_fd_install [OF g2 i] good_file_release [of k' a "Some f" zero zero] t r Inr ff i
      by (auto simp: api_open_def)
  qed
qed

lemma query_calls_ok:
  assumes g: "good k a zero zero"
  shows "returns a (api_stat k a path null)" "returns a (api_getcwd k a null bufsize)"
proof -
  obtain t where t: "k_tasks k a = Some t" by (rule goodE [OF g])
  show "returns a (api_stat k a path null)" "returns a (api_getcwd k a null bufsize)"
    using g t by (auto simp: api_stat_def api_getcwd_def good_error split: sum.split)
qed

lemma good_task_upd:
  assumes "good k a x y" "k_tasks k a = Some t" "task_shape (vfs_root (k_vfs k)) (g t)"
    "t_state (g t) = CB_TASK_RUNNING" "\<And>f. fd_count f (g t) + x' f = fd_count f t + x f"
    "\<And>n. node_count n (g t) + y' n \<le> node_count n t + y n"
  shows "good (upd_task k a g) a x' y'"
proof -
  have "task_ok (vfs_root (k_vfs k)) (k_files k) (g t)" using assms(3,4) by (simp add: task_ok_def off_processor_def)
  then have "kinv (k\<lparr>k_tasks := (k_tasks k)(a \<mapsto> g t)\<rparr>) x' y'"
    by (rule kinv_task_upd [OF good_kinv [OF assms(1)] assms(2)]) (use assms(5,6) in simp_all)
  then have "kinv (upd_task k a g) x' y'" by (simp add: upd_task_def assms(2))
  then show ?thesis by (rule good_step [OF assms(1)]) (use assms(2,4) in \<open>simp_all add: upd_task_at\<close>)
qed

text \<open>A step of the file system together with an update of a task.\<close>

lemma kinv_vfs_task:
  assumes inv: "kinv k x y" and t: "k_tasks k a = Some t" and ok: "task_ok (vfs_root (k_vfs k)) (k_files k) t'"
    and fd: "\<And>f. fd_count f t' = fd_count f t"
    and adv: "advances (k_vfs k) v (\<lambda>n. node_refs (k\<lparr>k_tasks := (k_tasks k)(a \<mapsto> t')\<rparr>) n + y' n)"
  shows "kinv (k\<lparr>k_vfs := v, k_tasks := (k_tasks k)(a \<mapsto> t')\<rparr>) x y'"
proof -
  let ?k = "k\<lparr>k_vfs := v, k_tasks := (k_tasks k)(a \<mapsto> t')\<rparr>"
  have r: "node_refs ?k = node_refs (k\<lparr>k_tasks := (k_tasks k)(a \<mapsto> t')\<rparr>)" "file_refs ?k = file_refs k" "ends ?k = ends k"
    using msum_upd [OF finite_tasks [OF inv] t, of "fd_count _" t'] fd
    by (auto simp: fun_eq_iff node_refs_def ends_def file_refs_def)
  have s: "seq k \<le> alloc_seq (v_host v)" "vfs_root v = vfs_root (k_vfs k)"
    using adv by (auto simp: advances_def frame_def)
  have "files_ok ?k x"
    by (rule files_okI) (use s finite_files [OF inv] kinv_file [OF inv] kinv_no_file [OF inv] in
        \<open>auto simp: r intro: less_le_trans [OF _ s(1)]\<close>)
  moreover have "pipes_ok ?k"
    by (rule pipes_okI) (use kinv_pipe [OF inv] kinv_no_pipe [OF inv] in \<open>auto simp: r intro: less_le_trans [OF _ s(1)]\<close>)
  moreover have "tasks_ok ?k"
    using kinvD(3) [OF inv] ok t s unfolding tasks_ok_def by (auto intro: less_le_trans [OF _ s(1)])
  ultimately show ?thesis using adv kinvD(5) [OF inv] by (simp add: kinv_def r advances_def)
qed

lemma api_chdir_ok:
  assumes g: "good k a zero zero" shows "returns a (api_chdir k a path)"
proof -
  obtain t where t: "k_tasks k a = Some t" "task_shape (vfs_root (k_vfs k)) t" "t_state t = CB_TASK_RUNNING" by (rule goodE [OF g])
  then obtain c where c: "t_cwd t = Some c" "t_root t = vfs_root (k_vfs k)" by (auto simp: task_shape_def)
  have pos: "node_refs k c > 0" using kinv_held_node(2) [OF good_kinv [OF g] t(1), of c] c by (simp add: held_nodes_def)
  obtain res v where r: "cb_vfs_chdir_path (k_vfs k) (vfs_root (k_vfs k)) (t_cwd t) path = (res, v)" by fastforce
  note op = advances_chdir [OF good_live [OF g] c(1) pos r]
  show ?thesis
  proof (cases res)
    case (Inl e)
    then show ?thesis using t r c op g by (simp add: api_chdir_def good_error)
  next
    case (Inr n)
    let ?t = "t\<lparr>t_cwd := Some n\<rparr>"
    let ?k = "k\<lparr>k_tasks := (k_tasks k)(a \<mapsto> ?t)\<rparr>"
    have cnt: "node_count m ?t + (if m = c then 1 else 0) = node_count m t + (if m = n then 1 else 0)" for m
      by (auto simp: node_count_def held_nodes_def pending_node_def c)
    have upd: "node_refs ?k m + node_count m t = node_refs k m + node_count m ?t" for m
      using msum_upd [OF finite_tasks [OF good_kinv [OF g]] t(1), of "node_count m" ?t] by (simp add: node_refs_def ends_def)
    have refs: "node_refs ?k m + (if m = c then 1 else 0) = node_refs k m + (if m = n then 1 else 0)" for m
      using cnt [of m] upd [of m] by linarith
    have "((node_refs k)(n := node_refs k n + 1)) m - (if m = c then 1 else 0) = node_refs ?k m" for m
      using refs [of m] by (auto split: if_splits)
    then have "advances (k_vfs k) v (\<lambda>m. node_refs ?k m + zero m)" using op Inr by simp
    then have "kinv (k\<lparr>k_vfs := v, k_tasks := (k_tasks k)(a \<mapsto> ?t)\<rparr>) zero zero"
      by (intro kinv_vfs_task [OF good_kinv [OF g] t(1)])
        (use t in \<open>simp_all add: task_ok_def off_processor_def task_shape_def fd_count_def\<close>)
    then have "good (k\<lparr>k_vfs := v, k_tasks := (k_tasks k)(a \<mapsto> ?t)\<rparr>) a zero zero"
      by (rule good_step [OF g]) (use t(3) in simp_all)
    then show ?thesis using t r c Inr by (simp add: api_chdir_def upd_task_def good_error)
  qed
qed

section \<open>Directory handles\<close>

lemma good_set_dir:
  assumes "good k a x y" "k_tasks k a = Some t" "i < CB_MAX_DIRS" "d_in_use h \<longrightarrow> d_node h \<noteq> None"
    and "\<And>n. count_list (dir_nodes h) (Some n) + y' n \<le> count_list (dir_nodes (t_directories t ! i)) (Some n) + y n"
  shows "good (set_dir k a i h) a x y'"
proof -
  obtain t' where t: "k_tasks k a = Some t'" "loose t'" "kinv k x y" by (rule goodE [OF assms(1)])
  have "kinv (set_dir k a i h) x y'" by (rule kinv_set_dir [OF t(3,1,2) assms(3,4)]) (use assms(2,5) t(1) in simp)
  then show ?thesis by (rule good_step [OF assms(1)]) (use set_dir_at in auto)
qed

lemma good_kept:
  assumes "good k a x y" "k_tasks k' a = k_tasks k a" "k_current k' = k_current k" "kinv k' x' y'"
  shows "good k' a x' y'"
  by (rule good_step [OF assms(1,4,3)]) (use assms(2) in simp)

lemma api_opendir_ok:
  assumes g: "good k a zero zero" shows "returns a (api_opendir k a path)"
proof -
  obtain t where t: "k_tasks k a = Some t" "task_shape (vfs_root (k_vfs k)) t" by (rule goodE [OF g])
  then have root: "t_root t = vfs_root (k_vfs k)" by (simp add: task_shape_def)
  obtain res v where r: "cb_vfs_opendir_path (k_vfs k) (vfs_root (k_vfs k)) (t_cwd t) path = (res, v)" by fastforce
  note op = advances_opendir [OF good_live [OF g] r]
  show ?thesis
  proof (cases res)
    case (Inl e)
    then show ?thesis using t r root op g by (simp add: api_opendir_def good_error)
  next
    case (Inr n)
    let ?k1 = "cb_task_set_error (k\<lparr>k_vfs := v\<rparr>) a 0"
    have "(\<lambda>m. node_refs k m + inc (Some n) zero m) = (node_refs k)(n := node_refs k n + 1)" by (auto simp: inc_def)
    then have g1: "good ?k1 a zero (inc (Some n) zero)" by (intro good_error good_vfs [OF g]) (use op Inr in simp)
    show ?thesis
    proof (cases "cb_vfs_child_at v n 0")
      case (Inl e)
      then show ?thesis using t r root Inr good_release [OF g1] by (simp add: api_opendir_def good_error)
    next
      case first: (Inr c)
      have lv: "live v (\<lambda>m. node_refs ?k1 m + inc (Some n) zero m)" using kinv_live [OF good_kinv [OF g1]] by simp
      let ?k2 = "cb_vfs_node_retain ?k1 c"
      have g2: "good ?k2 a zero (inc c (inc (Some n) zero))"
        by (rule good_retain [OF g1]) (use live_child_at [OF lv] first in auto)
      have t2: "k_tasks ?k2 a = Some (t\<lparr>t_error := 0\<rparr>)" using t(1) by (simp add: cb_task_set_error_def upd_task_def)
      show ?thesis
      proof (cases "List.find (\<lambda>i. \<not> d_in_use (t_directories t ! i)) [0..<CB_MAX_DIRS]")
        case None
        then show ?thesis
          using t(1) r root Inr first good_release [OF good_release [OF g2]] by (simp add: api_opendir_def good_error)
      next
        case (Some i)
        then have i: "i < CB_MAX_DIRS" "\<not> d_in_use (t_directories t ! i)" by (auto simp: find_Some_iff)
        have "good (set_dir ?k2 a i \<lparr>d_node = Some n, d_next = c, d_in_use = True\<rparr>) a zero zero"
          by (rule good_set_dir [OF g2 t2 i(1)]) (use i(2) in \<open>auto simp: count_dir_nodes inc_def\<close>)
        then show ?thesis using t(1) r root Inr first Some by (simp add: api_opendir_def good_error)
      qed
    qed
  qed
qed

lemma dir_lookup_at: "dir_lookup t d = Some h \<Longrightarrow> nat d < CB_MAX_DIRS \<and> t_directories t ! nat d = h \<and> d_in_use h"
  by (auto simp: dir_lookup_def split: if_splits)

lemma api_closedir_ok:
  assumes g: "good k a zero zero" shows "returns a (api_closedir k a d)"
proof -
  obtain t where t: "k_tasks k a = Some t" by (rule goodE [OF g])
  show ?thesis
  proof (cases "dir_lookup t d")
    case None
    then show ?thesis using t g by (simp add: api_closedir_def good_error)
  next
    case (Some h)
    note i = dir_lookup_at [OF Some]
    have "good (set_dir k a (nat d) \<lparr>d_node = None, d_next = None, d_in_use = False\<rparr>) a zero (inc (d_next h) (inc (d_node h) zero))"
      by (rule good_set_dir [OF g t]) (use i in \<open>auto simp: count_dir_nodes inc_def\<close>)
    from good_release [OF good_release [OF this]] show ?thesis
      using t Some by (simp add: api_closedir_def set_dir_release good_error)
  qed
qed

lemma set_dir_retain: "k_tasks k a \<noteq> None \<Longrightarrow> set_dir (cb_vfs_node_retain k n) a i h = cb_vfs_node_retain (set_dir k a i h) n"
  by (auto simp: set_dir_def upd_task_def node_ops_commute split: option.split)

lemma api_readdir_ok:
  assumes g: "good k a zero zero" shows "returns a (api_readdir k a d null bufsize)"
proof -
  obtain t where t: "k_tasks k a = Some t" "task_shape (vfs_root (k_vfs k)) t" by (rule goodE [OF g])
  show ?thesis
  proof (cases "dir_lookup t d")
    case None
    then show ?thesis using t g by (simp add: api_readdir_def good_error)
  next
    case (Some h)
    note i = dir_lookup_at [OF Some]
    have h: "h \<in> set (t_directories t)" using i t(2) by (metis nth_mem task_shape_def)
    then have node: "d_node h \<noteq> None" using t(2) i by (auto simp: task_shape_def)
    have "c \<in> dom (nodes (k_vfs k))" if "d_next h = Some c" for c
    proof -
      have "Some c \<in> set (dir_nodes h)" using that i by (simp add: dir_nodes_def)
      then show ?thesis using kinv_held_node(1) [OF good_kinv [OF g] t(1), of c] h by (auto simp: held_nodes_def)
    qed
    moreover have "good (cb_task_set_error (set_dir (cb_vfs_node_release (cb_vfs_node_retain k l) (Some c)) a (nat d) (h\<lparr>d_next := l\<rparr>)) a 0) a zero zero"
      if c: "d_next h = Some c" and l: "cb_vfs_next_sibling (k_vfs k) c = Inr l" for c l
    proof -
      have g1: "good (cb_vfs_node_retain k l) a zero (inc l zero)"
        by (rule good_retain [OF g]) (use live_next_sibling [OF good_live [OF g]] l in auto)
      have "good (set_dir (cb_vfs_node_retain k l) a (nat d) (h\<lparr>d_next := l\<rparr>)) a zero (inc (Some c) zero)"
        by (rule good_set_dir [OF g1]) (use t i c node in \<open>auto simp: count_dir_nodes inc_def\<close>)
      from good_release [OF this] show ?thesis using t(1) by (simp add: set_dir_release good_error)
    qed
    ultimately show ?thesis
      using t(1) Some g by (auto simp: api_readdir_def good_error Let_def split: option.split sum.split)
  qed
qed

end
