(* ===== verification/Kernel_Tasks.thy ===== *)
theory Kernel_Tasks
  imports Kernel_Paths
begin

text \<open>
  The calls on the environment, the heap ledger and on processes, resumption and the interrupts keep
  the invariant.
\<close>

section \<open>Environment, ledger, poll\<close>

lemma alloc_mono: "cb_allocate h = (r, h') \<Longrightarrow> alloc_seq h \<le> alloc_seq h'"
  by (auto simp: cb_allocate_def)

lemma good_alloc: "good k a x y \<Longrightarrow> cb_allocate (k_host k) = (r, h) \<Longrightarrow> good (set_host k h) a x y"
  by (rule good_host) (auto dest: alloc_mono)

lemma good_alloc2:
  "good k a x y \<Longrightarrow> cb_allocate (k_host k) = (r, h) \<Longrightarrow> cb_allocate h = (r2, h2) \<Longrightarrow> good (set_host k h2) a x y"
  by (rule good_host) (auto dest!: alloc_mono)

lemma environment_calls_ok:
  assumes g: "good k a zero zero"
  shows "returns a (api_getenv k a name)" "returns a (api_setenv k a name v b)" "returns a (api_unsetenv k a name)"
proof -
  obtain t where t: "k_tasks k a = Some t" by (rule goodE [OF g])
  show "returns a (api_getenv k a name)" using g t by (simp add: api_getenv_def good_error Let_def)
  show "returns a (api_unsetenv k a name)"
    using g t by (simp add: api_unsetenv_def good_error set_environment_def good_plain Let_def)
  show "returns a (api_setenv k a name v b)"
    using g t good_alloc [OF g] good_alloc2 [OF g]
    by (auto simp: api_setenv_def good_error set_environment_def good_plain Let_def split: bool.split option.split prod.split)
qed

lemma ledger_calls_ok:
  assumes g: "good k a zero zero"
  shows "returns a (api_allocate k a n)" "returns a (api_resize k a p n)" "returns a (api_release k a p)"
proof -
  obtain t where t: "k_tasks k a = Some t" by (rule goodE [OF g])
  show 1: "returns a (api_allocate k a n)"
    using g t good_alloc [OF g] good_alloc2 [OF g]
    by (auto simp: api_allocate_def good_error set_ledger_def good_plain Let_def split: option.split prod.split)
  show "returns a (api_release k a p)"
    using g t by (auto simp: api_release_def good_error set_ledger_def good_plain split: option.split)
  show "returns a (api_resize k a p n)"
    using g t 1 good_alloc [OF g]
    by (auto simp: api_resize_def good_error set_ledger_def good_plain split: option.split prod.split)
qed

lemma file_poll_console:
  assumes "kinv k x y" "k_files k f = Some file" "file_poll k file ev = (r, k')"
  shows "\<exists>c. k' = k\<lparr>k_console := c\<rparr>"
proof -
  have same: "\<exists>c. k = k\<lparr>k_console := c\<rparr>" by (rule exI [of _ "k_console k"]) simp
  have p: "k_pipes k p \<noteq> None" if "of_ops file = PipeReadEnd p \<or> of_ops file = PipeWriteEnd p" for p
    using kinv_end_pipe [OF assms(1,2) that] .
  show ?thesis
  proof (cases "of_ops file")
    case ConsoleInput
    then show ?thesis using assms(3) same by (auto simp: file_poll_def console_input_poll_def Let_def split: if_splits)
  qed (use assms(3) same p in \<open>auto simp: file_poll_def split: option.splits\<close>)
qed

lemma poll_one_console:
  assumes "kinv k x y" "k_tasks k a = Some t"
  shows "\<exists>c. snd (poll_one k t p) = k\<lparr>k_console := c\<rparr>"
proof -
  have same: "\<exists>c. k = k\<lparr>k_console := c\<rparr>" by (rule exI [of _ "k_console k"]) simp
  note sh = kinv_shape [OF assms]
  show ?thesis
  proof (cases "pf_fd p < 0 \<or> fd_lookup t (pf_fd p) = None")
    case True
    then show ?thesis using same by (auto simp: poll_one_def)
  next
    case False
    then obtain f where f: "\<not> pf_fd p < 0" "fd_lookup t (pf_fd p) = Some f" by auto
    then obtain o' where o': "k_files k f = Some o'" using kinv_fd_file [OF assms fd_lookup_in(4) [OF sh f(2)]] by auto
    obtain r k' where r: "file_poll k o' (requested_events (pf_events p)) = (r, k')" by fastforce
    show ?thesis using f o' r file_poll_console [OF assms(1) o' r] by (simp add: poll_one_def)
  qed
qed

lemma poll_all_console:
  assumes "kinv k x y" "k_tasks k a = Some t"
  shows "\<exists>c. snd (poll_all k t ps) = k\<lparr>k_console := c\<rparr>"
  using assms
proof (induction ps arbitrary: k)
  case Nil
  then show ?case by (auto intro: exI [of _ "k_console k"])
next
  case (Cons p ps)
  obtain c where c: "snd (poll_one k t p) = k\<lparr>k_console := c\<rparr>" using poll_one_console [OF Cons.prems] by blast
  have "kinv (k\<lparr>k_console := c\<rparr>) x y" "k_tasks (k\<lparr>k_console := c\<rparr>) a = Some t" using Cons.prems by simp_all
  from Cons.IH [OF this] obtain c' where "snd (poll_all (k\<lparr>k_console := c\<rparr>) t ps) = k\<lparr>k_console := c\<rparr>\<lparr>k_console := c'\<rparr>" by blast
  then show ?case using c by (auto simp: Let_def split: prod.split)
qed

lemma poll_round_ok:
  assumes g: "good k a zero zero" shows "returns a (poll_round k a fds)"
proof -
  obtain t where t: "k_tasks k a = Some t" by (rule goodE [OF g])
  obtain fds' k1 where p: "poll_all k t fds = (fds', k1)" by fastforce
  obtain c where c: "k1 = k\<lparr>k_console := c\<rparr>" using poll_all_console [OF good_kinv [OF g] t, of fds] p by auto
  have g1: "good k1 a zero zero" using g by (simp add: c good_console)
  have g2: "good (set_host k1 h) a zero zero" if "monotonic_millis (k_host k1) = (now, h)" for now h
    by (rule good_host [OF g1]) (use that in \<open>auto simp: monotonic_millis_def\<close>)
  have y: "returns a (None, cb_task_yield_as k' a CB_TASK_BLOCKED_POLL (In_poll fds'))" if "good k' a zero zero" for k'
    by (rule yield_ok [OF that]) simp_all
  show ?thesis
    using g1 g2 y t p by (auto simp: poll_round_def good_error Let_def simp del: returns_simps(1) split: prod.split)
qed

lemma api_poll_ok:
  assumes g: "good k a zero zero" shows "returns a (api_poll k a fds nfds timeout)"
proof -
  have h: "good (set_host k h) a zero zero" if "monotonic_millis (k_host k) = (now, h)" for now h
    by (rule good_host [OF g]) (use that in \<open>auto simp: monotonic_millis_def\<close>)
  show ?thesis
    using g h by (auto simp: api_poll_def good_error good_plain poll_round_ok Let_def simp del: returns_simps(1) split: prod.split)
qed

section \<open>exit and waitpid\<close>

lemma kinv_woken:
  assumes "kinv k x y" "k_tasks k b = Some t" "is_blocked (t_state t)"
  shows "kinv (upd_task k b (\<lambda>t. t\<lparr>t_wake_reason := w, t_state := CB_TASK_RUNNABLE\<rparr>)) x y"
proof -
  have eq: "t\<lparr>t_wake_reason := w, t_state := CB_TASK_RUNNABLE\<rparr> = t\<lparr>t_state := CB_TASK_RUNNABLE, t_wake_reason := w\<rparr>" by simp
  have "kinv (k\<lparr>k_tasks := (k_tasks k)(b \<mapsto> t\<lparr>t_state := CB_TASK_RUNNABLE, t_wake_reason := w\<rparr>)\<rparr>) x y"
    by (rule kinv_task_upd [OF assms(1,2) woken_ok [OF conjunct2 [OF kinv_task [OF assms(1,2)]] assms(3)]]) simp_all
  then show ?thesis by (simp only: upd_task_def assms(2) option.case eq)
qed

lemma find_task:
  assumes "List.find (task_is P k) l = Some b"
  obtains t where "k_tasks k b = Some t" "P t" "b \<in> set l"
  using assms by (auto simp: find_Some_iff task_is_def split: option.splits)

lemma wake_parent_ok:
  assumes "kinv k x y" shows "kinv (wake_waiting_parent k child) x y" "k_current (wake_waiting_parent k child) = k_current k"
proof -
  show "kinv (wake_waiting_parent k child) x y"
  proof (cases "List.find (task_is (\<lambda>t. waits_for t (t_ppid child) (t_pid child)) k) (k_list k)")
    case (Some b)
    then obtain t where "k_tasks k b = Some t" "waits_for t (t_ppid child) (t_pid child)" by (rule find_task)
    then show ?thesis using Some kinv_woken [OF assms] by (simp add: wake_waiting_parent_def waits_for_def)
  qed (use assms in \<open>simp add: wake_waiting_parent_def\<close>)
  show "k_current (wake_waiting_parent k child) = k_current k" by (simp add: wake_waiting_parent_def split: option.split)
qed

lemma api_exit_ok:
  assumes "kinv k zero zero" "k_tasks k a = Some t" "loose t"
  shows "kinv (api_exit k a status) zero zero \<and> k_current (api_exit k a status) = None"
proof -
  let ?k1 = "dir_close_all (fd_close_all (task_release_allocations k a) a) a"
  let ?Z = "\<lambda>t. t\<lparr>t_exit_status := status AND 255, t_state := CB_TASK_ZOMBIE, t_suspended := In_exit\<rparr>"
  obtain t' where t': "k_tasks ?k1 a = Some t'" using close_everything(2) [OF assms] by blast
  note k1 = close_everything(1) [OF assms]
  have sh: "task_shape (vfs_root (k_vfs ?k1)) t'" by (rule kinv_shape [OF k1 t'])
  have "kinv (?k1\<lparr>k_tasks := (k_tasks ?k1)(a \<mapsto> ?Z t')\<rparr>) zero zero"
    by (rule kinv_task_upd [OF k1 t'])
      (use sh in \<open>simp_all add: task_ok_def task_shape_def off_processor_def fd_count_def node_count_def held_nodes_def pending_node_def\<close>)
  then have k2: "kinv (upd_task ?k1 a ?Z) zero zero" by (simp add: upd_task_def t')
  let ?k3 = "if t_pid (?Z t') = k_boot_pid (upd_task ?k1 a ?Z)
       then (upd_task ?k1 a ?Z)\<lparr>k_boot_finished := True, k_boot_status := t_exit_status (?Z t')\<rparr> else upd_task ?k1 a ?Z"
  have "kinv ?k3 zero zero" using k2 by simp
  then have "kinv (wake_waiting_parent ?k3 (?Z t')) zero zero" by (rule wake_parent_ok)
  then show ?thesis by (simp add: api_exit_def Let_def upd_task_at [OF t'])
qed

text \<open>The rest of the system while an operation works on another task.\<close>

definition untouched :: "addr \<Rightarrow> cb_kernel \<Rightarrow> cb_kernel \<Rightarrow> bool" where
  "untouched b k k' \<longleftrightarrow> k_list k' = k_list k \<and> k_current k' = k_current k \<and>
     (\<forall>t. k_tasks k b = Some t \<longrightarrow> \<not> is_blocked (t_state t) \<longrightarrow> k_tasks k' b = Some t)"

lemma untouched_refl [simp]: "untouched b k k"
  by (simp add: untouched_def)

lemma untouched_trans [trans]: "untouched b k k1 \<Longrightarrow> untouched b k1 k2 \<Longrightarrow> untouched b k k2"
  by (auto simp: untouched_def)

lemma untouched_node [simp]: "untouched b k (cb_vfs_node_retain k n)" "untouched b k (cb_vfs_node_release k n)"
  by (simp_all add: untouched_def)

lemma untouched_file [simp]: "untouched b k (cb_open_file_retain k f)" "untouched b k (cb_open_file_release k fo)"
  by (auto simp: untouched_def file_release_task)

lemma untouched_upd: "b \<noteq> a \<Longrightarrow> untouched b k (upd_task k a g)"
  by (auto simp: untouched_def upd_task_def fault_def split: option.split)

lemma untouched_fault [simp]: "untouched b k (fault k)"
  by (simp add: untouched_def fault_def)

lemma untouched_error: "b \<noteq> a \<Longrightarrow> untouched b k (cb_task_set_error k a e)"
  by (simp add: cb_task_set_error_def untouched_upd)

lemma untouched_set_fd: "b \<noteq> a \<Longrightarrow> untouched b k (set_fd k a d f c)"
  by (simp add: set_fd_def untouched_upd)

lemma untouched_fd_close: "b \<noteq> a \<Longrightarrow> untouched b k (snd (fd_close k a d))"
  using untouched_trans [OF untouched_set_fd untouched_file(2)]
  by (auto simp: fd_close_def untouched_error split: option.split)

lemma untouched_install_at: "b \<noteq> a \<Longrightarrow> untouched b k (snd (fd_install_at k a f d retain))"
  using untouched_trans [OF untouched_file(2) untouched_set_fd]
    untouched_trans [OF untouched_trans [OF untouched_file(2) untouched_set_fd] untouched_file(1)]
  by (auto simp: fd_install_at_def Let_def untouched_error split: option.split)

lemma untouched_fold: "(\<And>i k. untouched b k (g i k)) \<Longrightarrow> untouched b k (fold g is k)"
  by (induction "is" arbitrary: k) (simp, metis fold_simps(2) untouched_trans)

lemma untouched_close_where: "b \<noteq> a \<Longrightarrow> untouched b k (close_where P k a)"
  unfolding close_where_def by (rule untouched_fold) (simp add: close_if_def untouched_fd_close split: option.split)

lemma untouched_dir_close_all: "b \<noteq> a \<Longrightarrow> untouched b k (dir_close_all k a)"
  unfolding dir_close_all_def
  by (rule untouched_fold) (auto simp: dir_close_one_def Let_def split: option.split intro: untouched_trans [OF untouched_node(2) untouched_upd])

lemma untouched_del: "b \<noteq> a \<Longrightarrow> untouched b k (k\<lparr>k_tasks := (k_tasks k)(a := None)\<rparr>)"
  by (simp add: untouched_def)

lemma untouched_destroy:
  assumes "b \<noteq> a" shows "untouched b k (task_destroy k a)"
proof -
  have 1: "untouched b k (dir_close_all (fd_close_all (task_release_allocations k a) a) a)"
    unfolding fd_close_all_def task_release_allocations_def
    by (intro untouched_trans [OF untouched_trans [OF untouched_upd untouched_close_where] untouched_dir_close_all] assms)
  show ?thesis
    unfolding task_destroy_def Let_def
    by (split option.split) (intro conjI allI impI untouched_fault untouched_trans [OF _ untouched_del [OF assms]]
        untouched_trans [OF _ untouched_node(2)] 1)
qed

lemma reap_ok:
  assumes g: "good k a zero zero" and c: "k_tasks k c = Some t" "t_state t = CB_TASK_ZOMBIE" "c \<in> set (k_list k)"
  shows "good (reap k c) a zero zero"
proof -
  let ?k = "k\<lparr>k_list := remove1 c (k_list k), k_cursor := (if k_cursor k = Some c then None else k_cursor k)\<rparr>"
  let ?D = "\<lambda>t. t\<lparr>t_state := CB_TASK_DEAD\<rparr>"
  note inv = good_kinv [OF g]
  have k1: "kinv ?k zero zero"
    using kinv_list [OF inv, of "remove1 c (k_list k)"] kinv_listD [OF inv] set_remove1_subset [of c "k_list k"] by auto
  have sh: "task_shape (vfs_root (k_vfs k)) (?D t)" using kinv_shape [OF inv c(1)] by (simp add: task_shape_def)
  have ld: "loose (?D t)" by (simp add: loose_def off_processor_def)
  have "kinv (?k\<lparr>k_tasks := (k_tasks ?k)(c \<mapsto> ?D t)\<rparr>) zero zero"
    by (rule kinv_task_upd [OF k1, of c t]) (use c loose_ok [OF sh ld] in simp_all)
  then have k2: "kinv (upd_task ?k c ?D) zero zero" by (simp add: upd_task_def c(1))
  have nl: "c \<notin> set (k_list (upd_task ?k c ?D))" using kinv_listD [OF inv] by simp
  have "k_tasks (upd_task ?k c ?D) c = Some (?D t)" by (simp add: upd_task_def c(1))
  from kinv_task_destroy [OF k2 this ld nl] have "kinv (reap k c) zero zero" by (simp add: reap_def)
  moreover have "c \<noteq> a" using g c(1,2) by (auto simp: good_def)
  then have "untouched a (upd_task ?k c ?D) (reap k c)" "untouched a ?k (upd_task ?k c ?D)"
    by (simp_all add: reap_def untouched_destroy untouched_upd)
  then have "untouched a ?k (reap k c)" using untouched_trans by blast
  ultimately show ?thesis by (intro good_step [OF g]) (auto simp: untouched_def)
qed

lemma api_waitpid_ok:
  assumes g: "good k a zero zero" shows "returns a (api_waitpid k a pid)"
proof -
  obtain t where t: "k_tasks k a = Some t" by (rule goodE [OF g])
  obtain co hc where f: "find_waitable_child k (t_pid t) pid = (co, hc)" by fastforce
  show ?thesis
  proof (cases co)
    case None
    have "good (upd_task k a (\<lambda>t. t\<lparr>t_waiting_for := pid\<rparr>)) a zero zero" by (simp add: good_plain g)
    then have "returns a (None, cb_task_yield_as (upd_task k a (\<lambda>t. t\<lparr>t_waiting_for := pid\<rparr>)) a CB_TASK_BLOCKED_WAIT (In_waitpid pid))"
      by (rule yield_ok) simp_all
    then show ?thesis using t f None g by (auto simp: api_waitpid_def good_error simp del: returns_simps(1))
  next
    case (Some c)
    then have "List.find (task_is (\<lambda>u. child_of (t_pid t) pid u \<and> t_state u = CB_TASK_ZOMBIE) k) (k_list k) = Some c"
      using f by (simp add: find_waitable_child_def)
    then obtain u where "k_tasks k c = Some u" "child_of (t_pid t) pid u \<and> t_state u = CB_TASK_ZOMBIE" "c \<in> set (k_list k)"
      by (rule find_task)
    then show ?thesis using t f Some reap_ok [OF g] by (simp add: api_waitpid_def good_error)
  qed
qed

end
