(* ===== verification/Kernel_Spawn.thy ===== *)
theory Kernel_Spawn
  imports Kernel_Tasks
begin

text \<open>Creating tasks, spawn, exec, resumption, and the boot of the kernel keep the invariant.\<close>

section \<open>Building a task\<close>

text \<open>A slot that already holds the file gets a new close-on-exec flag.\<close>

lemma kinv_set_own_fd:
  assumes "kinv k x y" "k_tasks k a = Some t" "loose t" "fd_lookup t d = Some f"
  shows "kinv (set_fd k a d (Some f) c) x y"
proof -
  note sh = kinv_shape [OF assms(1,2)]
  note fd = fd_lookup_in [OF sh assms(4)]
  have "kinv (cb_open_file_retain k f) (inc (Some f) x) y" using kinv_file_retain [OF assms(1)] kinv_fd_file [OF assms(1,2) fd(4)] by simp
  let ?t = "t\<lparr>t_descriptors := (t_descriptors t)[nat d := \<lparr>fd_file = Some f, close_on_exec = c\<rparr>]\<rparr>"
  have same: "map fd_file ((t_descriptors t)[nat d := \<lparr>fd_file = Some f, close_on_exec = c\<rparr>]) = map fd_file (t_descriptors t)"
    by (metis cb_fd_entry.select_convs(1) fd(2,3) list_update_id map_update nth_map)
  have "task_ok (vfs_root (k_vfs k)) (k_files k) ?t"
    by (rule loose_ok) (use sh assms(3) in \<open>simp_all add: task_shape_def\<close>)
  then have "kinv (k\<lparr>k_tasks := (k_tasks k)(a \<mapsto> ?t)\<rparr>) x y"
    by (rule kinv_task_upd [OF assms(1,2)])
      (simp_all add: fd_count_def same node_count_def held_nodes_def pending_node_def)
  then show ?thesis by (simp add: set_fd_def upd_task_def assms(2))
qed

definition fds_changed :: "cb_task \<Rightarrow> cb_task \<Rightarrow> bool" where
  "fds_changed t t' \<longleftrightarrow> t'\<lparr>t_descriptors := t_descriptors t, t_error := t_error t\<rparr> = t"

lemma fds_changed_refl [simp]: "fds_changed t t"
  by (simp add: fds_changed_def)

lemma fds_changed_trans: "fds_changed t t1 \<Longrightarrow> fds_changed t1 t2 \<Longrightarrow> fds_changed t t2"
  by (cases t; cases t1; cases t2) (simp add: fds_changed_def)

lemma fds_changed_fds [simp]: "fds_changed t (t\<lparr>t_descriptors := ds\<rparr>)"
  by (simp add: fds_changed_def)

lemma fds_changed_error [simp]: "fds_changed t (t\<lparr>t_error := e\<rparr>)"
  by (simp add: fds_changed_def)

lemma fds_changed_fields:
  assumes "fds_changed t t'"
  shows "loose t' = loose t" "t_root t' = t_root t" "t_cwd t' = t_cwd t" "held_nodes t' = held_nodes t" "t_state t' = t_state t"
    "t_pending t' = t_pending t" "t_image t' = t_image t" "t_directories t' = t_directories t" "t_suspended t' = t_suspended t"
    "t_pid t' = t_pid t"
proof -
  obtain ds e where "t' = t\<lparr>t_descriptors := ds, t_error := e\<rparr>" using assms by (cases t; cases t') (simp add: fds_changed_def)
  then show "loose t' = loose t" "t_root t' = t_root t" "t_cwd t' = t_cwd t" "held_nodes t' = held_nodes t" "t_state t' = t_state t"
    "t_pending t' = t_pending t" "t_image t' = t_image t" "t_directories t' = t_directories t" "t_suspended t' = t_suspended t"
    "t_pid t' = t_pid t"
    by (simp_all add: held_nodes_def pending_node_def)
qed

lemmas fds_changed_loose = fds_changed_fields(1)

text \<open>\<open>assembling a t k\<close>: the task at \<open>a\<close> is the new task \<open>t\<close>, up to its descriptors.\<close>

definition assembling :: "addr \<Rightarrow> cb_task \<Rightarrow> cb_kernel \<Rightarrow> (addr \<Rightarrow> nat) \<Rightarrow> (addr \<Rightarrow> nat) \<Rightarrow> bool" where
  "assembling a t k x y \<longleftrightarrow> kinv k x y \<and> loose t \<and> (\<exists>t'. k_tasks k a = Some t' \<and> fds_changed t t')"

lemma assemblingE:
  assumes "assembling a t k x y"
  obtains t' where "k_tasks k a = Some t'" "fds_changed t t'" "loose t'" "kinv k x y"
  using assms fds_changed_loose by (auto simp: assembling_def)

lemma assembling_error: "assembling a t k x y \<Longrightarrow> assembling a t (cb_task_set_error k a e) x y"
  by (erule assemblingE) (use fds_changed_trans fds_changed_error in \<open>auto simp: assembling_def set_error_at fds_changed_loose intro: kinv_set_error\<close>)

lemma assembling_close:
  assumes "assembling a t k x y" "k_tasks k a = Some u" "fd_lookup u d \<noteq> None"
  shows "assembling a t (snd (fd_close k a d)) x y"
proof -
  obtain t' where t': "k_tasks k a = Some t'" "fds_changed t t'" "loose t'" "kinv k x y" by (rule assemblingE [OF assms(1)])
  obtain f where f: "fd_lookup t' d = Some f" using assms(2,3) t'(1) by auto
  have "fds_changed t (without_fd t' (nat d))" using t'(2) fds_changed_trans [OF _ fds_changed_fds] by (simp add: without_fd_def)
  then show ?thesis using fd_close_ok [OF t'(4,1,3) f] t'(2,3) by (auto simp: assembling_def fds_changed_loose)
qed

lemma assembling_dup:
  assumes "assembling a t k x y" "k_tasks k a = Some u" "fd_lookup u e = Some f" "valid_fd d"
  shows "assembling a t (set_fd (if e \<noteq> d then snd (fd_install_at k a f d True) else k) a d (Some f) c) x y"
proof -
  obtain t' where t': "k_tasks k a = Some t'" "fds_changed t t'" "loose t'" "kinv k x y" by (rule assemblingE [OF assms(1)])
  have u: "u = t'" using assms(2) t'(1) by simp
  let ?k = "if e \<noteq> d then snd (fd_install_at k a f d True) else k"
  let ?t = "if e \<noteq> d then t'\<lparr>t_descriptors := (t_descriptors t')[nat d := \<lparr>fd_file = Some f, close_on_exec = False\<rparr>]\<rparr> else t'"
  have k: "kinv ?k x y" "k_tasks ?k a = Some ?t" "loose ?t"
    using kinv_dup_slot [OF t'(4,1,3), of e f d] assms(3,4) u t' install_at_task [OF t'(1) looseD [OF t'(3)] assms(4), of f True]
    by auto
  have len: "nat d < length (t_descriptors t')" using kinv_shape [OF t'(4,1)] assms(4) by (auto simp: task_shape_def valid_fd_def)
  have "fd_lookup ?t d = Some f" using assms(3,4) u len by (auto simp: fd_lookup_def fd_entry_def)
  from kinv_set_own_fd [OF k this] have "kinv (set_fd ?k a d (Some f) c) x y" .
  moreover have "fds_changed t ?t" using t'(2) fds_changed_trans [OF _ fds_changed_fds] by simp
  then have "fds_changed t (?t\<lparr>t_descriptors := (t_descriptors ?t)[nat d := \<lparr>fd_file = Some f, close_on_exec = c\<rparr>]\<rparr>)"
    by (rule fds_changed_trans) simp
  ultimately show ?thesis using set_fd_task [OF k(2)] t'(2,3) by (auto simp: assembling_def fds_changed_loose simp del: if_split)
qed

lemma apply_actions_ok:
  assumes "assembling a t k x y" "task_apply_actions k a acts = (r, k')"
  shows "assembling a t k' x y"
  using assms
proof (induction acts arbitrary: k)
  case (Cons act acts)
  obtain t' where t': "k_tasks k a = Some t'" by (rule assemblingE [OF Cons.prems(1)])
  have "assembling a t (if fd_lookup t' (sa_from act) \<noteq> None then snd (fd_close k a (sa_from act)) else k) x y"
    using assembling_close [OF Cons.prems(1) t'] Cons.prems(1) by simp
  then show ?case
    using Cons t' assembling_error [OF Cons.prems(1)] assembling_dup [OF Cons.prems(1) t', of "sa_from act" _ "sa_to act" False]
    by (auto simp: Let_def split: if_splits option.splits simp del: if_split)
qed simp

lemma apply_actions_untouched:
  assumes "b \<noteq> a" shows "untouched b k (snd (task_apply_actions k a acts))"
proof (induction acts arbitrary: k)
  case (Cons act acts)
  have u: "untouched b k (snd (task_apply_actions k' a acts))" if "untouched b k k'" for k'
    using untouched_trans [OF that Cons.IH] .
  have "untouched b k (set_fd (if e \<noteq> d then snd (fd_install_at k a f d True) else k) a d (Some f) False)" for e d f
    using untouched_trans [OF untouched_install_at [OF assms] untouched_set_fd [OF assms]] untouched_set_fd [OF assms] by simp
  then show ?case
    using u untouched_fd_close [OF assms] by (auto simp: Let_def untouched_error [OF assms] split: option.split simp del: if_split)
qed simp

lemma retain_descriptors_ok:
  assumes "kinv k x y" "\<And>f. Some f \<in> set (map fd_file es) \<Longrightarrow> k_files k f \<noteq> None"
  shows "kinv (retain_descriptors k es) (\<lambda>f. x f + count_list (map fd_file es) (Some f)) y"
  using assms
proof (induction es arbitrary: k x)
  case (Cons e es)
  let ?k = "case fd_file e of None \<Rightarrow> k | Some f \<Rightarrow> cb_open_file_retain k f"
  have k: "kinv ?k (inc (fd_file e) x) y" using Cons.prems kinv_file_retain by (auto split: option.split)
  have "k_files ?k f \<noteq> None" if "Some f \<in> set (map fd_file es)" for f
    using Cons.prems(2) [of f] that by (auto simp: cb_open_file_retain_def fault_def split: option.split)
  from Cons.IH [OF k this] have "kinv (retain_descriptors ?k es) (\<lambda>f. inc (fd_file e) x f + count_list (map fd_file es) (Some f)) y" .
  moreover have "(\<lambda>f. inc (fd_file e) x f + count_list (map fd_file es) (Some f)) =
      (\<lambda>f. x f + count_list (map fd_file (e # es)) (Some f))" by (auto simp: inc_def)
  ultimately show ?case by (simp add: retain_descriptors_def)
qed (simp add: retain_descriptors_def)

lemma retain_descriptors_tasks:
  "retain_descriptors (k\<lparr>k_tasks := T\<rparr>) es = (retain_descriptors k es)\<lparr>k_tasks := T\<rparr>"
  "k_tasks (retain_descriptors k es) = k_tasks k" "k_vfs (retain_descriptors k es) = k_vfs k"
  "k_list (retain_descriptors k es) = k_list k" "k_current (retain_descriptors k es) = k_current k"
proof -
  have "retain_descriptors (k\<lparr>k_tasks := T\<rparr>) es = (retain_descriptors k es)\<lparr>k_tasks := T\<rparr> \<and>
      k_tasks (retain_descriptors k es) = k_tasks k \<and> k_vfs (retain_descriptors k es) = k_vfs k \<and>
      k_list (retain_descriptors k es) = k_list k \<and> k_current (retain_descriptors k es) = k_current k"
  proof (induction es arbitrary: k)
    case (Cons e es)
    have "cb_open_file_retain (k\<lparr>k_tasks := T\<rparr>) f = (cb_open_file_retain k f)\<lparr>k_tasks := T\<rparr>" for f
      by (simp add: cb_open_file_retain_def fault_def split: option.split)
    then show ?case using Cons.IH by (cases "fd_file e") (simp_all add: retain_descriptors_def)
  qed (simp add: retain_descriptors_def)
  then show "retain_descriptors (k\<lparr>k_tasks := T\<rparr>) es = (retain_descriptors k es)\<lparr>k_tasks := T\<rparr>"
    "k_tasks (retain_descriptors k es) = k_tasks k" "k_vfs (retain_descriptors k es) = k_vfs k"
    "k_list (retain_descriptors k es) = k_list k" "k_current (retain_descriptors k es) = k_current k" by simp_all
qed

text \<open>A new task: runnable at its entry, with no executable node, directory handle or pending image yet.\<close>

definition fresh_task :: "cb_task \<Rightarrow> bool" where
  "fresh_task t \<longleftrightarrow> t_state t = CB_TASK_RUNNABLE \<and> t_suspended t = At_entry \<and> t_pending t = None \<and>
     i_node (t_image t) = None \<and> t_directories t = replicate CB_MAX_DIRS no_dir"

lemma fresh_task_facts:
  assumes "fresh_task t" shows "loose t" "held_nodes t = [t_root t, t_cwd t, None, None]"
proof -
  show "loose t" using assms by (simp add: fresh_task_def loose_def)
  have "concat (map dir_nodes (t_directories t)) = []"
    using assms by (intro unused_directories) (simp add: fresh_task_def no_dir_def)
  then show "held_nodes t = [t_root t, t_cwd t, None, None]" using assms by (simp add: fresh_task_def held_nodes_def pending_node_def)
qed

lemma task_added_ok:
  assumes inv: "kinv k x y" and a: "k_tasks k a = None" "a < seq k" and t: "fresh_task t" "task_shape (vfs_root (k_vfs k)) t"
    and held: "\<And>n. t_root t = Some n \<or> t_cwd t = Some n \<Longrightarrow> n \<in> dom (nodes (k_vfs k))"
    and fds: "\<And>f. Some f \<in> set (map fd_file (t_descriptors t)) \<Longrightarrow> k_files k f \<noteq> None"
  shows "assembling a t (retain_descriptors (cb_vfs_node_retain (cb_vfs_node_retain (k\<lparr>k_tasks := (k_tasks k)(a \<mapsto> t)\<rparr>)
           (t_root t)) (t_cwd t)) (t_descriptors t)) x y"
proof -
  note fr = fresh_task_facts [OF t(1)]
  have 1: "kinv (cb_vfs_node_retain k (t_root t)) x (inc (t_root t) y)" using kinv_retain [OF inv] held by simp
  let ?k = "cb_vfs_node_retain (cb_vfs_node_retain k (t_root t)) (t_cwd t)"
  have live: "n \<in> dom (nodes (k_vfs (cb_vfs_node_retain k (t_root t))))" if "t_cwd t = Some n" for n
    using held [of n] that by (auto simp: cb_vfs_node_retain_def fault_def ramfs_node_retain_def split: option.split)
  have 2: "kinv ?k x (inc (t_cwd t) (inc (t_root t) y))" by (rule kinv_retain [OF 1 live])
  let ?k' = "retain_descriptors ?k (t_descriptors t)"
  have 3: "kinv ?k' (\<lambda>f. x f + count_list (map fd_file (t_descriptors t)) (Some f)) (inc (t_cwd t) (inc (t_root t) y))"
    by (rule retain_descriptors_ok [OF 2]) (use fds in simp)
  have root: "vfs_root (k_vfs ?k') = vfs_root (k_vfs k)"
    by (simp add: retain_descriptors_tasks cb_vfs_node_retain_def fault_def ramfs_node_retain_def split: option.split)
  have sq: "seq ?k' = seq k"
    by (simp add: retain_descriptors_tasks cb_vfs_node_retain_def fault_def ramfs_node_retain_def split: option.split)
  have "kinv (?k'\<lparr>k_tasks := (k_tasks ?k')(a \<mapsto> t)\<rparr>) x y"
  proof (rule kinv_task_new [OF 3])
    show "task_ok (vfs_root (k_vfs ?k')) (k_files ?k') t" using loose_ok t(2) fr(1) by (simp add: root)
    show "node_count n t + y n \<le> inc (t_cwd t) (inc (t_root t) y) n" for n by (simp add: node_count_def fr(2) inc_def)
  qed (use a sq in \<open>simp_all add: retain_descriptors_tasks fd_count_def\<close>)
  then show ?thesis using fr(1) by (simp add: assembling_def retain_descriptors_tasks node_ops_commute)
qed

lemma task_abandon_ok:
  assumes "assembling a t k x y" "fresh_task t" "a \<notin> set (k_list k)"
  shows "kinv (task_abandon k a) x y"
proof -
  obtain t' where t': "k_tasks k a = Some t'" "fds_changed t t'" "loose t'" "kinv k x y" by (rule assemblingE [OF assms(1)])
  let ?t = "t'\<lparr>t_descriptors := closed_below (\<lambda>e. True) CB_MAX_FDS (t_descriptors t')\<rparr>"
  let ?k = "fd_close_all k a"
  have k: "kinv ?k x y" "k_tasks ?k a = Some ?t" using close_where_ok [OF t'(4,1,3), of "\<lambda>e. True"] by (simp_all add: fd_close_all_def)
  have l: "length (t_descriptors t') = CB_MAX_FDS" using kinv_shape [OF t'(4,1)] by (simp add: task_shape_def)
  note fl = fds_changed_fields [OF t'(2)] and fr = fresh_task_facts [OF assms(2)]
  have h: "held_nodes ?t = held_nodes t'" by (simp add: held_nodes_def pending_node_def)
  have "kinv (?k\<lparr>k_tasks := (k_tasks ?k)(a := None)\<rparr>) x (inc (t_cwd t') (inc (t_root t') y))"
  proof (rule kinv_task_del [OF k])
    show "fd_count f ?t = 0" for f using closed_all [of "\<lambda>e. True" f t'] l by simp
    show "inc (t_cwd t') (inc (t_root t') y) n \<le> node_count n ?t + y n" for n
      by (simp add: node_count_def h fl fr(2) inc_def)
  qed (use assms(3) in simp)
  from kinv_release [OF kinv_release [OF this]] show ?thesis
    using t'(1) by (simp add: task_abandon_def Let_def node_ops_commute)
qed

section \<open>Creating a task\<close>

definition kept :: "cb_kernel \<Rightarrow> cb_kernel \<Rightarrow> bool" where
  "kept k k' \<longleftrightarrow> k_current k' = k_current k \<and>
     (\<forall>b t. k_tasks k b = Some t \<longrightarrow> \<not> is_blocked (t_state t) \<longrightarrow> k_tasks k' b = Some t)"

lemma keptI:
  assumes "\<And>b. b \<noteq> a \<Longrightarrow> untouched b k k'" "k_tasks k a = None" "k_current k' = k_current k" shows "kept k k'"
  unfolding kept_def
proof (intro conjI allI impI assms(3))
  fix b t assume t: "k_tasks k b = Some t" "\<not> is_blocked (t_state t)"
  then have "b \<noteq> a" using assms(2) by auto
  from assms(1) [OF this] show "k_tasks k' b = Some t" using t by (simp add: untouched_def)
qed

lemma good_kept_by: "good k a x y \<Longrightarrow> kept k k' \<Longrightarrow> kinv k' x' y' \<Longrightarrow> good k' a x' y'"
  by (rule good_step) (auto simp: kept_def)

lemma untouched_host [simp]: "untouched b k (set_host k h)"
  by (simp add: untouched_def)

lemma untouched_abandon: "b \<noteq> a \<Longrightarrow> untouched b k (task_abandon k a)"
  unfolding task_abandon_def Let_def fd_close_all_def
  by (split option.split) (intro conjI allI impI untouched_fault untouched_trans [OF _ untouched_del]
      untouched_trans [OF _ untouched_node(2)] untouched_close_where)

lemma instance_create_host:
  "cb_executor_instance_create k p = (r, k') \<Longrightarrow> \<exists>h. k' = set_host k h \<and> seq k \<le> alloc_seq h"
proof -
  have "\<exists>h. k = set_host k h \<and> seq k \<le> alloc_seq h" by (rule exI [of _ "k_host k"]) simp
  then show "cb_executor_instance_create k p = (r, k') \<Longrightarrow> \<exists>h. k' = set_host k h \<and> seq k \<le> alloc_seq h"
    by (auto simp: cb_executor_instance_create_def native_instance_create_def cb_allocate_def split: option.splits if_splits)
qed

lemma assembling_host: "assembling a t k x y \<Longrightarrow> seq k \<le> alloc_seq h \<Longrightarrow> assembling a t (set_host k h) x y"
  by (auto simp: assembling_def intro: kinv_host)

lemma assembling_started:
  assumes "assembling a t k x y" "fresh_task t" "a \<notin> set (k_list k)"
    and k': "k' = upd_task k a (\<lambda>t. t\<lparr>t_execution := Some e, t_state := CB_TASK_RUNNABLE\<rparr>)"
  shows "kinv (k'\<lparr>k_list := a # k_list k'\<rparr>) x y" "\<exists>u. k_tasks k' a = Some u \<and> loose u \<and> i_node (t_image u) = None"
proof -
  obtain t' where t': "k_tasks k a = Some t'" "fds_changed t t'" "loose t'" "kinv k x y" by (rule assemblingE [OF assms(1)])
  have st: "t_state t' = CB_TASK_RUNNABLE" using fds_changed_fields(5) [OF t'(2)] assms(2) by (simp add: fresh_task_def)
  have eq: "t'\<lparr>t_execution := Some e, t_state := CB_TASK_RUNNABLE\<rparr> = t'\<lparr>t_execution := Some e\<rparr>" using st by (cases t') simp
  have k'_eq: "k' = upd_task k a (\<lambda>t. t\<lparr>t_execution := Some e\<rparr>)" unfolding k' upd_task_def t'(1) option.case eq by simp
  have inv: "kinv k' x y" using kinv_plain [OF t'(4), of "\<lambda>t. t\<lparr>t_execution := Some e\<rparr>" a] t'(1) by (simp add: k'_eq)
  have task: "k_tasks k' a = Some (t'\<lparr>t_execution := Some e\<rparr>)" unfolding k'_eq by (rule upd_task_at [OF t'(1)])
  show "kinv (k'\<lparr>k_list := a # k_list k'\<rparr>) x y"
    by (rule kinv_list [OF inv]) (use kinv_listD [OF inv] task assms(3) in \<open>auto simp: k'\<close>)
  show "\<exists>u. k_tasks k' a = Some u \<and> loose u \<and> i_node (t_image u) = None"
    using task t'(3) fds_changed_fields(7) [OF t'(2)] assms(2) by (simp add: loose_def off_processor_def fresh_task_def)
qed

lemma task_start_ok:
  assumes inv: "kinv k x y" and a: "k_tasks k a = None" "a < seq k" and t: "fresh_task t" "task_shape (vfs_root (k_vfs k)) t"
    and held: "\<And>n. t_root t = Some n \<or> t_cwd t = Some n \<Longrightarrow> n \<in> dom (nodes (k_vfs k))"
    and fds: "\<And>f. Some f \<in> set (map fd_file (t_descriptors t)) \<Longrightarrow> k_files k f \<noteq> None"
    and run: "task_start k a t program actions = (r, k')"
  shows "kinv k' x y \<and> kept k k' \<and> (r = None \<or> r = Some a \<and> (\<exists>u. k_tasks k' a = Some u \<and> loose u \<and> i_node (t_image u) = None))"
proof -
  let ?k3 = "retain_descriptors (cb_vfs_node_retain (cb_vfs_node_retain (k\<lparr>k_tasks := (k_tasks k)(a \<mapsto> t)\<rparr>) (t_root t)) (t_cwd t)) (t_descriptors t)"
  have b3: "assembling a t ?k3 x y" by (rule task_added_ok [OF inv a t held fds])
  have u3: "untouched b k ?k3" if "b \<noteq> a" for b
    using that by (simp add: untouched_def retain_descriptors_tasks)
  obtain i k4 where r4: "task_apply_actions ?k3 a actions = (i, k4)" by fastforce
  have b4: "assembling a t k4 x y" by (rule apply_actions_ok [OF b3 r4])
  have u4: "untouched b k k4" if "b \<noteq> a" for b
    using untouched_trans [OF u3 [OF that] apply_actions_untouched [OF that, of ?k3 actions]] r4 by simp
  obtain e k5 where r5: "cb_executor_instance_create k4 program = (e, k5)" by fastforce
  obtain h where h: "k5 = set_host k4 h" "seq k4 \<le> alloc_seq h" using instance_create_host [OF r5] by blast
  have b5: "assembling a t k5 x y" using assembling_host [OF b4 h(2)] h(1) by simp
  have u5: "untouched b k k5" if "b \<noteq> a" for b using untouched_trans [OF u4 [OF that]] h(1) by simp
  have "Suc a \<noteq> a" by simp
  then have lists: "k_list k4 = k_list k" "k_list k5 = k_list k" "k_current k4 = k_current k" "k_current k5 = k_current k"
    using u4 u5 unfolding untouched_def by blast+
  have fresh: "a \<notin> set (k_list k)" using kinv_listD [OF inv] a(1) by auto
  have failed: "kinv (task_abandon k'' a) x y \<and> kept k (task_abandon k'' a)"
    if "assembling a t k'' x y" "k_list k'' = k_list k" "k_current k'' = k_current k" "\<And>b. b \<noteq> a \<Longrightarrow> untouched b k k''" for k''
  proof
    show "kinv (task_abandon k'' a) x y" using task_abandon_ok [OF that(1) t(1)] that(2) fresh by simp
    have "untouched b k (task_abandon k'' a)" if "b \<noteq> a" for b
      using untouched_trans [OF \<open>\<And>b. b \<noteq> a \<Longrightarrow> untouched b k k''\<close> [OF that] untouched_abandon [OF that]] .
    moreover from this [OF \<open>Suc a \<noteq> a\<close>] have "k_current (task_abandon k'' a) = k_current k" by (simp add: untouched_def)
    ultimately show "kept k (task_abandon k'' a)" by (rule keptI [OF _ a(1)])
  qed
  show ?thesis
  proof (cases "i < 0 \<or> e = None")
    case True
    then show ?thesis using run r4 r5 failed [OF b4] failed [OF b5] lists u4 u5 by (auto simp: task_start_def Let_def split: if_splits)
  next
    case False
    then obtain e' where e: "e = Some e'" "\<not> i < 0" by auto
    let ?k6 = "upd_task k5 a (\<lambda>t. t\<lparr>t_execution := Some e', t_state := CB_TASK_RUNNABLE\<rparr>)"
    have "untouched b k ?k6" if "b \<noteq> a" for b using untouched_trans [OF u5 [OF that] untouched_upd [OF that]] .
    then have "kept k (?k6\<lparr>k_list := a # k_list ?k6\<rparr>)"
      using a(1) lists unfolding kept_def untouched_def by (metis (no_types, lifting) cb_kernel.ext_inject cb_kernel.surjective
          cb_kernel.update_convs(6) option.distinct(1) upd_task_fields(5))
    then show ?thesis
      using assembling_started [OF b5 t(1) _ refl, of e'] fresh lists run r4 r5 e by (auto simp: task_start_def Let_def)
  qed
qed

lemma duplicate_mono: "duplicate_strings h ss = (r, h') \<Longrightarrow> alloc_seq h \<le> alloc_seq h'"
proof (induction ss arbitrary: h r h')
  case (Cons s ss)
  obtain c h1 where c: "cb_string_duplicate h s = (c, h1)" by fastforce
  have "alloc_seq h1 = Suc (alloc_seq h)" using cb_string_duplicate_seq [of h s] c by simp
  then show ?case using Cons.prems Cons.IH [of h1] c by (fastforce split: option.splits prod.splits)
qed simp

lemma vector_copy_mono:
  "string_vector_copy h ss = (r, h') \<Longrightarrow> alloc_seq h \<le> alloc_seq h'"
  "argument_vector_copy h ss = (r2, h2) \<Longrightarrow> alloc_seq h \<le> alloc_seq h2"
proof -
  show 1: "alloc_seq h \<le> alloc_seq h'" if "string_vector_copy h ss = (r, h')" for r h'
    using that duplicate_mono alloc_mono [of h] by (auto simp: string_vector_copy_def split: option.splits prod.splits) (meson le_trans)
  show "argument_vector_copy h ss = (r2, h2) \<Longrightarrow> alloc_seq h \<le> alloc_seq h2"
    using 1 alloc_mono by (auto simp: argument_vector_copy_def split: option.splits prod.splits) (meson le_trans)+
qed

lemma kept_refl [simp]: "kept k k"
  by (simp add: kept_def)

lemma kept_trans: "kept k k1 \<Longrightarrow> kept k1 k2 \<Longrightarrow> kept k k2"
  by (auto simp: kept_def)

lemma kept_fields [simp]: "kept k (set_host k h)" "kept k ((set_host k h)\<lparr>k_next_pid := i\<rparr>)"
  "kept k (cb_vfs_node_retain k n)" "kept k (cb_vfs_node_release k n)" "kept k (k\<lparr>k_vfs := v\<rparr>)"
  by (simp_all add: kept_def)

text \<open>The new task of \<^verbatim>\<open>task_create\<close> starts well formed.\<close>

lemma task_new_ok:
  fixes pid :: int
  assumes inv: "kinv k x y" and p: "\<And>t. p = Some t \<Longrightarrow> \<exists>b. k_tasks k b = Some t" and im: "i_node im = None"
  defines "t \<equiv> task_new pid p im (vfs_root (k_vfs k))"
  shows "fresh_task t" "task_shape (vfs_root (k_vfs k)) t"
    and "t_root t = Some n \<or> t_cwd t = Some n \<Longrightarrow> n \<in> dom (nodes (k_vfs k))"
    and "Some f \<in> set (map fd_file (t_descriptors t)) \<Longrightarrow> k_files k f \<noteq> None"
proof -
  obtain r where r: "vfs_root (k_vfs k) = Some r" "r \<in> dom (nodes (k_vfs k))" by (rule live_root [OF kinv_live [OF inv]])
  show "fresh_task t" using im by (simp add: t_def task_new_def fresh_task_def)
  show "task_shape (vfs_root (k_vfs k)) t"
    using p kinv_shape [OF inv] r by (auto simp: t_def task_new_def task_shape_def no_dir_def split: option.split)
  show "n \<in> dom (nodes (k_vfs k))" if "t_root t = Some n \<or> t_cwd t = Some n"
  proof (cases p)
    case None
    then show ?thesis using that r by (auto simp: t_def task_new_def)
  next
    case (Some u)
    then obtain b where "k_tasks k b = Some u" using p by blast
    then show ?thesis using that Some kinv_held_node(1) [OF inv, of b u n] by (auto simp: t_def task_new_def held_nodes_def)
  qed
  show "k_files k f \<noteq> None" if "Some f \<in> set (map fd_file (t_descriptors t))"
  proof (cases p)
    case None
    then show ?thesis using that by (auto simp: t_def task_new_def no_fd_def)
  next
    case (Some u)
    then obtain b where "k_tasks k b = Some u" using p by blast
    then show ?thesis using that Some kinv_fd_file [OF inv, of b u f] by (simp add: t_def task_new_def)
  qed
qed

lemma task_create_ok:
  assumes inv: "kinv k x y" and run: "task_create k parent program argv envp actions = (r, k')"
  shows "kinv k' x y \<and> kept k k' \<and>
    (case r of None \<Rightarrow> True | Some a \<Rightarrow> k_tasks k a = None \<and> (\<exists>u. k_tasks k' a = Some u \<and> loose u \<and> i_node (t_image u) = None))"
proof -
  let ?p = "case parent of None \<Rightarrow> None | Some b \<Rightarrow> k_tasks k b"
  obtain a h1 where a: "cb_allocate (k_host k) = (a, h1)" by fastforce
  obtain c h2 where c: "cb_allocate h1 = (c, h2)" by fastforce
  obtain args h3 where args: "argument_vector_copy h2 argv = (args, h3)" by fastforce
  obtain env h4 where env: "string_vector_copy h3 (case envp of Some e \<Rightarrow> e | None \<Rightarrow> (case ?p of None \<Rightarrow> [] | Some t \<Rightarrow> environment_of t)) = (env, h4)"
    by fastforce
  have m: "seq k < alloc_seq h1" "alloc_seq h1 \<le> alloc_seq h2" "alloc_seq h2 \<le> alloc_seq h3" "alloc_seq h3 \<le> alloc_seq h4"
    using a alloc_mono [OF c] vector_copy_mono(2) [OF args] vector_copy_mono(1) [OF env] by (auto simp: cb_allocate_def)
  let ?k1 = "(set_host k h4)\<lparr>k_next_pid := k_next_pid k + 1\<rparr>"
  have hosts: "kinv (set_host k h1) x y" "kinv (set_host k h2) x y" "kinv ?k1 x y"
    using kinv_host [OF inv, of h1] kinv_host [OF inv, of h2] kinv_host [OF inv, of h4] m by simp_all
  show ?thesis
  proof (cases "int (length argv) > INT_MAX \<or> a = None \<or> c = None \<or> args = None \<or> env = None")
    case True
    then show ?thesis
      using run a c args env hosts inv by (auto simp: task_create_def Let_def split: if_splits option.splits)
  next
    case False
    then obtain a' c' vals owned e where some: "a = Some a'" "c = Some c'" "args = Some (vals, owned)" "env = Some e"
      "\<not> int (length argv) > INT_MAX" by auto
    let ?im = "\<lparr>i_program = program, i_argv = vals, i_owned_argv = owned, i_argc = length argv, i_environment = e, i_node = None\<rparr>"
    let ?t = "task_new (k_next_pid k + 1) ?p ?im (vfs_root (k_vfs ?k1))"
    have start: "task_start ?k1 a' ?t program actions = (r, k')"
      using run a c args env some by (simp add: task_create_def Let_def)
    have fresh: "a' = seq k" "a' < seq ?k1" using cb_allocate_Some [of "k_host k" a' h1] a some m by simp_all
    then have none: "k_tasks k a' = None" using fresh_stores(3) [OF inv, of a'] by simp
    have par: "\<exists>b. k_tasks ?k1 b = Some t" if "?p = Some t" for t using that by (auto split: option.splits)
    note n = task_new_ok [OF hosts(3), where p = ?p and im = ?im and pid = "k_next_pid k + 1", OF par]
    have "kinv k' x y \<and> kept ?k1 k' \<and> (r = None \<or> r = Some a' \<and> (\<exists>u. k_tasks k' a' = Some u \<and> loose u \<and> i_node (t_image u) = None))"
      by (rule task_start_ok [OF hosts(3) _ fresh(2) n(1) n(2) n(3) n(4) start]) (use none in simp_all)
    then show ?thesis using none kept_trans [OF kept_fields(2)] by (auto split: option.split)
  qed
qed

section \<open>spawn and exec\<close>

lemma resolve_ok:
  assumes "good k a x y" "k_tasks k a = Some t" "resolve_executable_node k (t_root t) (t_cwd t) name = Inr n"
  shows "n \<in> dom (nodes (k_vfs k))"
proof -
  have "t_root t = vfs_root (k_vfs k)" using kinv_shape [OF good_kinv [OF assms(1)] assms(2)] by (simp add: task_shape_def)
  then show ?thesis
    using assms(3) live_lookup [OF kinv_live [OF good_kinv [OF assms(1)]]]
    by (auto simp: resolve_executable_node_def Let_def split: if_splits sum.splits)
qed

lemma set_image_node_ok:
  assumes "kinv k x (inc (Some n) y)" "k_tasks k c = Some u" "loose u" "i_node (t_image u) = None"
  shows "kinv (set_image_node k c n) x y"
proof -
  let ?u = "u\<lparr>t_image := (t_image u)\<lparr>i_node := Some n\<rparr>\<rparr>"
  have ok: "task_ok (vfs_root (k_vfs k)) (k_files k) ?u"
    by (rule loose_ok) (use kinv_shape [OF assms(1,2)] assms(3) in \<open>simp_all add: task_shape_def loose_def off_processor_def\<close>)
  have "kinv (k\<lparr>k_tasks := (k_tasks k)(c \<mapsto> ?u)\<rparr>) x y"
    by (rule kinv_task_upd [OF assms(1,2) ok])
      (use assms(4) in \<open>simp_all add: fd_count_def node_count_def held_nodes_def pending_node_def inc_def\<close>)
  then show ?thesis by (simp add: set_image_node_def upd_task_def assms(2))
qed

lemma api_spawn_ok:
  assumes g: "good k a zero zero" shows "returns a (api_spawn k a name argv envp actions bad)"
proof -
  obtain t where t: "k_tasks k a = Some t" by (rule goodE [OF g])
  have "returns a (case task_create (cb_vfs_node_retain k (Some n)) (Some a) (executable_of k n) args envp actions of
      (None, k1) \<Rightarrow> (Some (R_wait (-1) None), set_errno (cb_vfs_node_release k1 (Some n)) a CB_ENOMEM)
    | (Some child, k1) \<Rightarrow>
        (Some (R_wait 0 (map_option t_pid (k_tasks k1 child))), cb_task_set_error (set_image_node k1 child n) a 0))"
    if n: "resolve_executable_node k (t_root t) (t_cwd t) nm = Inr n" for nm n args
  proof -
    let ?k = "cb_vfs_node_retain k (Some n)"
    have g1: "good ?k a zero (inc (Some n) zero)" by (rule good_retain [OF g]) (use resolve_ok [OF g t n] in simp)
    obtain r k1 where r: "task_create ?k (Some a) (executable_of k n) args envp actions = (r, k1)" by fastforce
    note c = task_create_ok [OF good_kinv [OF g1] r]
    have g2: "good k1 a zero (inc (Some n) zero)" by (rule good_kept_by [OF g1]) (use c in simp_all)
    show ?thesis
    proof (cases r)
      case None
      then show ?thesis using r good_release [OF g2] by (simp add: good_error)
    next
      case (Some child)
      then obtain u where u: "k_tasks k1 child = Some u" "loose u" "i_node (t_image u) = None" "k_tasks ?k child = None" using c by auto
      then have "child \<noteq> a" using t by auto
      then have "untouched a k1 (set_image_node k1 child n)" by (simp add: set_image_node_def untouched_upd)
      then have "good (set_image_node k1 child n) a zero zero"
        using set_image_node_ok [OF good_kinv [OF g2] u(1-3)] by (intro good_step [OF g2]) (auto simp: untouched_def)
      then show ?thesis using r Some by (simp add: good_error)
    qed
  qed
  then show ?thesis using g t by (auto simp: api_spawn_def good_error split: option.split sum.split)
qed

end
