(* ===== verification/Kernel_Boot.thy ===== *)
theory Kernel_Boot
  imports Kernel_Spawn
begin

text \<open>
  The life of a kernel up to its first task: creating it, registering programs and booting
  establish and keep the invariant.
\<close>

section \<open>The first mount\<close>

definition plain_fs :: "vfs_state \<Rightarrow> bool" where
  "plain_fs v \<longleftrightarrow> root_mount v = None \<and> mount_table v = []"

text \<open>A node without parent keeps that while directories are added.\<close>

definition orphan :: "vfs_state \<Rightarrow> addr \<Rightarrow> bool" where
  "orphan v r \<longleftrightarrow> plain_fs v \<and> r < alloc_seq (v_host v) \<and> (\<exists>n. nodes v r = Some n \<and> n_parent n = None)"

lemma node_create_orphan:
  assumes "node_create v m parent name type mode = (res, v')" "orphan v r" shows "orphan v' r"
  using assms
  by (auto simp: node_create_def orphan_def plain_fs_def Let_def cb_allocate_def cb_string_duplicate_def wall_clock_millis_def
      split: option.splits prod.splits if_splits)

lemma node_create_first:
  assumes "node_create v m None name type mode = (Some a, v')" "plain_fs v" shows "orphan v' a"
  using assms
  by (auto simp: node_create_def orphan_def plain_fs_def Let_def cb_allocate_def cb_string_duplicate_def wall_clock_millis_def
      split: option.splits prod.splits if_splits)

lemma mount_create_orphan:
  assumes "cb_ramfs_mount_create v = (Some m, v')" "plain_fs v" "ramfs_mount_root v' m = Some root"
  shows "orphan v' root"
proof -
  define h where "h = snd (cb_allocate (v_host v))"
  define v1 where "v1 = v\<lparr>v_host := h, next_device := next_device v + 1,
      mount_objs := (mount_objs v)(alloc_seq (v_host v) \<mapsto> \<lparr>m_root = None, m_device = next_device v + 1\<rparr>)\<rparr>"
  let ?m = "alloc_seq (v_host v)"
  obtain r v2 where 2: "node_create v1 ?m None [] CB_NODE_DIRECTORY 493 = (Some r, v2)" and m: "m = ?m"
    and rest: "\<exists>a b c d v4 v5 v6. let v3 = v2\<lparr>mount_objs := (mount_objs v2)(?m \<mapsto> \<lparr>m_root = Some r, m_device = next_device v + 1\<rparr>)\<rparr> in
       node_create v3 ?m (Some r) ''bin'' CB_NODE_DIRECTORY 493 = (Some a, v4) \<and>
       node_create v4 ?m (Some r) ''tmp'' CB_NODE_DIRECTORY 511 = (Some b, v5) \<and>
       node_create v5 ?m (Some r) ''home'' CB_NODE_DIRECTORY 493 = (Some c, v6) \<and>
       node_create v6 ?m (Some c) ''user'' CB_NODE_DIRECTORY 493 = (Some d, v')"
    using assms(1) unfolding cb_ramfs_mount_create_def v1_def h_def
    by (auto simp: cb_allocate_def Let_def split: if_splits option.splits prod.splits)
  define v3 where "v3 = v2\<lparr>mount_objs := (mount_objs v2)(?m \<mapsto> \<lparr>m_root = Some r, m_device = next_device v + 1\<rparr>)\<rparr>"
  have "plain_fs v1" using assms(2) by (simp add: v1_def plain_fs_def)
  from node_create_first [OF 2 this] have o3: "orphan v3 r" by (simp add: v3_def orphan_def plain_fs_def)
  have mo: "mount_objs w' = mount_objs w" if "node_create w mm p nm ty md = (res, w')" for w w' mm p nm ty md res
    using that by (auto simp: node_create_def Let_def split: option.splits prod.splits)
  have "orphan v' r" "mount_objs v' = mount_objs v3"
    using rest o3 mo unfolding Let_def v3_def [symmetric] by (metis node_create_orphan)+
  moreover have "root = r" using assms(3) \<open>mount_objs v' = mount_objs v3\<close> m by (simp add: ramfs_mount_root_def v3_def)
  ultimately show ?thesis by simp
qed

lemma vfs_initialize_ok:
  assumes "cb_vfs_initialize (vfs_empty h) = (None, v)"
  shows "live v zero"
proof -
  have pl: "plain_fs (vfs_empty h)" by (simp add: plain_fs_def vfs_empty_def)
  have inv0: "ramfs_inv (vfs_empty h) zero" using blank_inv [of h] by (simp add: blank_vfs_def vfs_empty_def)
  obtain m v1 where 1: "cb_ramfs_mount_create (vfs_empty h) = (Some m, v1)" and 2: "cb_vfs_set_root_mount v1 m = (None, v)"
    using assms by (auto simp: cb_vfs_initialize_def split: option.splits prod.splits)
  obtain root where root: "ramfs_mount_root v1 m = Some root" "ramfs_inv v1 (zero(root := 1))"
    using ramfs_mount_create_inv [OF inv0 1] by auto
  have o: "orphan v1 root" by (rule mount_create_orphan [OF 1 pl root(1)])
  then obtain n where n: "nodes v1 root = Some n" "n_parent n = None" "root_mount v1 = None" "mount_table v1 = []"
    by (auto simp: orphan_def plain_fs_def)
  have v: "v = v1\<lparr>root_mount := Some m, vfs_root := Some root\<rparr>" "n_mount n = m"
    using 2 root(1) n by (auto simp: cb_vfs_set_root_mount_def split: if_splits)
  have "ramfs_inv v (zero(root := 1))" using root(2) by (simp add: v(1) ramfs_inv_def fs_inv_def stored_ok_def)
  moreover have "mounts_ok v" using root(1) n v by (simp add: mounts_ok_def ramfs_mount_root_def)
  moreover have "vfs_refs v a = (if a = root then 1 else 0)" for a
    using root(1) n(4) by (simp add: vfs_refs_def mount_roots_def v(1) ramfs_mount_root_def)
  ultimately show ?thesis unfolding live_def by (metis (full_types) add_0 fun_upd_apply order_refl le0)
qed

section \<open>Creating a kernel and registering programs\<close>

lemma live_program_count: "live v refs \<Longrightarrow> live (v\<lparr>program_count := c\<rparr>) refs"
  by (simp add: live_def mounts_ok_def mount_entry_ok_def ramfs_inv_def fs_inv_def stored_ok_def vfs_refs_def mount_roots_def
      ramfs_mount_root_def)

lemma advances_program_count: "live v refs \<Longrightarrow> advances v (v\<lparr>program_count := c\<rparr>) refs"
  by (simp add: advances_def frame_def live_program_count)

lemma kernel_create_ok:
  assumes "cb_kernel_create h c ctx host_ok root_ok = Some k"
  shows "kinv k zero zero" "k_current k = None" "k_list k = []"
proof -
  obtain h1 v where v: "cb_vfs_initialize (vfs_empty h1) = (None, v)" and k: "k = (kernel_new h1 c ctx)\<lparr>k_vfs := v\<rparr>"
    using assms by (auto simp: cb_kernel_create_def kernel_new_def Let_def split: if_splits option.splits prod.splits)
  show "kinv k zero zero"
    using vfs_initialize_ok [OF v]
    by (simp add: k kernel_new_def kinv_def files_ok_def pipes_ok_def tasks_ok_def file_refs_def ends_def node_refs_def)
  show "k_current k = None" "k_list k = []" by (simp_all add: k kernel_new_def)
qed

lemma advances_create_executable:
  assumes "live v refs" "cb_vfs_create_executable v path p = (r, v')" shows "advances v v' refs"
proof -
  have "advances v (upd_node w a (n\<lparr>n_executable := Some p\<rparr>)) refs"
    if w: "ramfs_create v d name CB_NODE_EXECUTABLE 365 = (Inr a, w)" and n: "nodes w a = Some n" for d name a w n
  proof -
    note c = advances_create [OF assms(1) w]
    then have lw: "live w refs" by (simp add: advances_def)
    have "same_node n (n\<lparr>n_executable := Some p\<rparr>)"
      using live_data_ok [OF lw n] by (simp add: same_node_def data_ok_def shape_def)
    from advances_same_node [OF lw n this, of "v_host w"] have "advances w (upd_node w a (n\<lparr>n_executable := Some p\<rparr>)) refs"
      by simp
    then show ?thesis by (rule advances_trans [OF c])
  qed
  then show ?thesis
    using assms(2) advances_refl [OF assms(1)] advances_create [OF assms(1)]
    by (auto simp: cb_vfs_create_executable_def split: sum.splits if_splits prod.splits option.splits)
qed

lemma kinv_zero_live: "kinv k x zero \<Longrightarrow> live (k_vfs k) (node_refs k)"
  by (drule kinv_live) simp

lemma kinv_vfs0: "kinv k x zero \<Longrightarrow> advances (k_vfs k) v (node_refs k) \<Longrightarrow> kinv (k\<lparr>k_vfs := v\<rparr>) x zero"
  by (rule kinv_vfs) simp_all

lemma program_destroy_ok: "kinv k zero zero \<Longrightarrow> kinv (program_destroy k p) zero zero"
  by (auto simp: program_destroy_def cb_executor_program_destroy_def intro!: kinv_vfs0 advances_program_count kinv_zero_live
      dest: kinv_zero_live)

lemma register_executor_ok:
  assumes inv: "kinv k zero zero" and run: "cb_kernel_register_executor k name ok = (r, k')"
  shows "kinv k' zero zero" "k_current k' = k_current k" "k_list k' = k_list k"
proof -
  obtain po k1 where 1: "native_prepare k name ok = (po, k1)" by fastforce
  have "kinv (set_host k (snd (cb_allocate (k_host k)))) zero zero" by (rule kinv_host [OF inv]) simp
  then have k1: "kinv k1 zero zero" "k_current k1 = k_current k" "k_list k1 = k_list k"
    using 1 inv by (auto simp: native_prepare_def split: if_splits option.splits prod.splits)
  let ?k2 = "k1\<lparr>k_vfs := (k_vfs k1)\<lparr>program_count := program_count (k_vfs k1) + 1\<rparr>\<rparr>"
  have k2: "kinv ?k2 zero zero" by (rule kinv_vfs0 [OF k1(1) advances_program_count [OF kinv_zero_live [OF k1(1)]]])
  have k3: "kinv (?k2\<lparr>k_vfs := v\<rparr>) zero zero" if "cb_vfs_create_executable (k_vfs ?k2) path p = (e, v)" for path p e v
    by (rule kinv_vfs0 [OF k2 advances_create_executable [OF kinv_zero_live [OF k2] that]])
  show "kinv k' zero zero"
    using run 1 inv k1 k2 k3 program_destroy_ok [OF k2] program_destroy_ok [OF k3]
    by (auto simp: cb_kernel_register_executor_def Let_def split: if_splits option.splits prod.splits)
  show "k_current k' = k_current k" "k_list k' = k_list k"
    using run 1 k1 by (auto simp: cb_kernel_register_executor_def program_destroy_def Let_def split: if_splits option.splits prod.splits)
qed

section \<open>Boot\<close>

lemma kinv_install_new:
  assumes "kinv k (inc (Some f) x) y" "k_tasks k a = Some t" "loose t" "valid_fd d"
  shows "kinv (snd (fd_install_at k a f d False)) x y"
    "\<exists>ds. k_tasks (snd (fd_install_at k a f d False)) a = Some (t\<lparr>t_descriptors := ds\<rparr>)"
proof -
  obtain o' where o': "k_files k f = Some o'" using kinv_no_file(2) [OF assms(1), of f] by (cases "k_files k f") (auto simp: inc_def)
  have "of_references o' \<ge> 2" if "fd_file (fd_entry t d) = Some f"
  proof -
    have "Some f \<in> set (map fd_file (t_descriptors t))" using fd_entry_in [OF kinv_shape [OF assms(1,2)] assms(4)] that by simp
    then have "fd_count f t > 0" by (simp only: fd_count_def count_list_pos)
    then have "file_refs k f > 0" using msum_ge [OF finite_tasks [OF assms(1)] assms(2), of "fd_count f"] by (simp add: file_refs_def)
    then show ?thesis using kinv_file(1) [OF assms(1) o'] by (simp add: inc_def)
  qed
  from fd_install_at_eq [OF assms(2) looseD [OF assms(3)] assms(4) o' this, of False]
  show "kinv (snd (fd_install_at k a f d False)) x y"
    using kinv_file_release [OF kinv_set_fd [OF assms(1,2,4,3), of False]] by simp
  show "\<exists>ds. k_tasks (snd (fd_install_at k a f d False)) a = Some (t\<lparr>t_descriptors := ds\<rparr>)"
    using install_at_task [OF assms(2) looseD [OF assms(3)] assms(4), of f False] by blast
qed

lemma kinv_create_file:
  assumes "kinv k x y" "cb_open_file_create k ops flags = (fo, k')" "\<And>n. ops \<noteq> NodeFile n"
    "\<And>p. ops \<noteq> PipeReadEnd p \<and> ops \<noteq> PipeWriteEnd p"
  shows "kinv k' (inc fo x) y" "k_tasks k' = k_tasks k" "k_current k' = k_current k"
proof -
  obtain h where h: "cb_allocate (k_host k) = (fo, h)" using assms(2) by (auto simp: cb_open_file_create_def split: prod.splits option.splits)
  have kh: "kinv (set_host k h) x y" by (rule kinv_host [OF assms(1)]) (rule alloc_mono [OF h])
  show "k_tasks k' = k_tasks k" "k_current k' = k_current k"
    using assms(2) h by (auto simp: cb_open_file_create_def split: option.splits)
  show "kinv k' (inc fo x) y"
  proof (cases fo)
    case None
    then show ?thesis using assms(2) h kh by (simp add: cb_open_file_create_def)
  next
    case (Some f)
    note s = cb_allocate_Some [OF h [unfolded Some]]
    let ?o = "\<lparr>of_references = 1, of_flags = flags, of_offset = 0, of_ops = ops, of_terminal = False\<rparr>"
    have "kinv ((set_host k h)\<lparr>k_files := (k_files (set_host k h))(f \<mapsto> ?o)\<rparr>) (inc (Some f) x) y"
      by (rule kinv_file_new [where n = None]) (use kh s fresh_stores(1) [OF assms(1), of f] assms(3,4) in simp_all)
    then show ?thesis using assms(2) h Some by (simp add: cb_open_file_create_def)
  qed
qed

lemma attach_terminal_ok:
  assumes "kinv k x y" shows "kinv (attach_terminal k f) x y"
proof (cases "k_files k f")
  case None
  then have "attach_terminal k f = k" by (simp add: attach_terminal_def fun_upd_idem)
  then show ?thesis using assms by simp
next
  case (Some o')
  then show ?thesis
    using kinv_file_same [OF assms Some, of "o'\<lparr>of_terminal := True\<rparr>" x] kinv_file [OF assms Some] by (simp add: attach_terminal_def)
qed

lemma attach_terminal_fields [simp]:
  "k_tasks (attach_terminal k f) = k_tasks k" "k_current (attach_terminal k f) = k_current k"
  by (simp_all add: attach_terminal_def)

text \<open>The three console files move into the descriptors 0, 1 and 2 of the first task.\<close>

lemma boot_descriptors:
  assumes inv: "kinv k (inc (Some i) (inc (Some out) (inc (Some er) zero))) zero" and t: "k_tasks k a = Some t" "loose t"
  defines "k9 \<equiv> snd (fd_install_at (snd (fd_install_at (snd (fd_install_at k a i 0 False)) a out 1 False)) a er 2 False)"
  shows "kinv k9 zero zero" "k_current k9 = k_current k"
proof -
  have v: "valid_fd 0" "valid_fd 1" "valid_fd 2" by (simp_all add: valid_fd_def CB_MAX_FDS_def)
  obtain ds1 where 1: "k_tasks (snd (fd_install_at k a i 0 False)) a = Some (t\<lparr>t_descriptors := ds1\<rparr>)"
    using kinv_install_new(2) [OF inv t v(1)] by blast
  note k1 = kinv_install_new(1) [OF inv t v(1)]
  have l1: "loose (t\<lparr>t_descriptors := ds1\<rparr>)" using t(2) by simp
  obtain ds2 where 2: "k_tasks (snd (fd_install_at (snd (fd_install_at k a i 0 False)) a out 1 False)) a =
      Some (t\<lparr>t_descriptors := ds1\<rparr>\<lparr>t_descriptors := ds2\<rparr>)"
    using kinv_install_new(2) [OF k1 1 l1 v(2)] by blast
  note k2 = kinv_install_new(1) [OF k1 1 l1 v(2)]
  have l2: "loose (t\<lparr>t_descriptors := ds1\<rparr>\<lparr>t_descriptors := ds2\<rparr>)" using t(2) by simp
  show "kinv k9 zero zero" unfolding k9_def by (rule kinv_install_new(1) [OF k2 2 l2 v(3)])
  show "k_current k9 = k_current k" by (simp add: k9_def)
qed

lemma set_image_node_fields [simp]: "k_current (set_image_node k a n) = k_current k"
  by (simp add: set_image_node_def)

lemma kernel_boot_ok:
  assumes inv: "kinv k zero zero" and run: "cb_kernel_boot k command = (r, k')"
  shows "kinv k' zero zero" "k_current k' = k_current k"
proof -
  have "kinv k' zero zero \<and> k_current k' = k_current k"
  proof (cases "k_boot_pid k \<noteq> 0 \<or> (\<exists>e. resolve_executable_node k (vfs_root (k_vfs k)) (vfs_root (k_vfs k)) ''sh'' = Inl e)")
    case True
    then show ?thesis using run inv by (auto simp: cb_kernel_boot_def split: if_splits)
  next
    case False
    then obtain n where n: "resolve_executable_node k (vfs_root (k_vfs k)) (vfs_root (k_vfs k)) ''sh'' = Inr n"
      and pid: "k_boot_pid k = 0" by (cases "resolve_executable_node k (vfs_root (k_vfs k)) (vfs_root (k_vfs k)) ''sh''") auto
    have dom: "n \<in> dom (nodes (k_vfs k))"
      using n live_lookup [OF kinv_zero_live [OF inv]]
      by (auto simp: resolve_executable_node_def Let_def split: if_splits sum.splits)
    let ?k0 = "cb_vfs_node_retain k (Some n)"
    have k0: "kinv ?k0 zero (inc (Some n) zero)" by (rule kinv_retain [OF inv]) (use dom in simp)
    define args where "args = (case command of None \<Rightarrow> [''sh''] | Some c \<Rightarrow> [''sh'', ''-c'', c])"
    define env where "env = Some [''HOME=/home/user'', ''PATH=/bin'']"
    obtain ao k1 where 1: "task_create ?k0 None (executable_of k n) args env [] = (ao, k1)" by fastforce
    note c = task_create_ok [OF k0 1]
    show ?thesis
    proof (cases ao)
      case None
      then have "k' = cb_vfs_node_release k1 (Some n)"
        using run pid n 1 by (simp add: cb_kernel_boot_def args_def env_def)
      then show ?thesis using c kinv_release [of k1 zero "Some n" zero] by (simp add: kept_def)
    next
      case (Some a)
      then obtain u where u: "kinv k1 zero (inc (Some n) zero)" "k_tasks k1 a = Some u" "loose u" "i_node (t_image u) = None"
        "k_current k1 = k_current k" using c by (auto simp: kept_def)
      define k2 where "k2 = set_image_node k1 a n"
      have k2: "kinv k2 zero zero" unfolding k2_def by (rule set_image_node_ok [OF u(1-4)])
      have t2: "k_tasks k2 a = Some (u\<lparr>t_image := (t_image u)\<lparr>i_node := Some n\<rparr>\<rparr>)" using u(2) by (simp add: k2_def set_image_node_def upd_task_at)
      have l2: "loose (u\<lparr>t_image := (t_image u)\<lparr>i_node := Some n\<rparr>\<rparr>)" using u(3) by (simp add: loose_def off_processor_def)
      obtain er k3 where 3: "cb_open_file_create k2 ConsoleInput CB_O_RDONLY = (er, k3)" by fastforce
      obtain out k4 where 4: "cb_open_file_create k3 (ConsoleOutput 1) CB_O_WRONLY = (out, k4)" by fastforce
      obtain i k5 where 5: "cb_open_file_create k4 (ConsoleOutput 2) CB_O_WRONLY = (i, k5)" by fastforce
      note k3 = kinv_create_file [OF k2 3] and k4 = kinv_create_file [OF kinv_create_file(1) [OF k2 3] 4]
      have k5: "kinv k5 (inc er (inc out (inc i zero))) zero" "k_tasks k5 a = k_tasks k2 a" "k_current k5 = k_current k"
        using kinv_create_file [OF kinv_create_file(1) [OF kinv_create_file(1) [OF k2 3] 4] 5] k3 k4 u(5)
        by (simp_all add: inc_commute k2_def)
      show ?thesis
      proof (cases "er = None \<or> out = None \<or> i = None")
        case True
        then have "k' = cb_open_file_release (cb_open_file_release (cb_open_file_release k5 er) out) i"
          using run pid n 1 Some 3 4 5 by (auto simp: cb_kernel_boot_def args_def env_def k2_def Let_def split: option.splits)
        then show ?thesis using kinv_file_release [OF kinv_file_release [OF kinv_file_release [OF k5(1)]]] k5(3) by simp
      next
        case False
        then obtain er' out' i' where some: "er = Some er'" "out = Some out'" "i = Some i'" by auto
        let ?k6 = "attach_terminal (attach_terminal (attach_terminal k5 er') out') i'"
        have k6: "kinv ?k6 (inc (Some er') (inc (Some out') (inc (Some i') zero))) zero" "k_tasks ?k6 a = k_tasks k2 a" "k_current ?k6 = k_current k"
          using k5 some attach_terminal_ok by simp_all
        from boot_descriptors [OF k6(1), of a] t2 l2 k6(2,3) show ?thesis
          using run pid n 1 Some 3 4 5 some by (auto simp: cb_kernel_boot_def args_def env_def k2_def Let_def)
      qed
    qed
  qed
  then show "kinv k' zero zero" "k_current k' = k_current k" by simp_all
qed

end
