(* ===== verification/Kernel_Safety.thy ===== *)
theory Kernel_Safety
  imports Kernel_Boot Simulation
begin

text \<open>
  The runtime as a state machine: the program on the processor makes calls, the scheduler wakes,
  resumes and replaces tasks, the host asks for interrupts. Every step keeps the invariant, so no
  pointer is ever followed to an object that is gone.
\<close>

section \<open>exec\<close>

lemma api_exec_ok:
  assumes g: "good k a zero zero" shows "returns a (api_exec k a name argv envp)"
proof -
  obtain t where t: "k_tasks k a = Some t" "task_shape (vfs_root (k_vfs k)) t" "t_state t = CB_TASK_RUNNING" by (rule goodE [OF g])
  have "returns a (let k1 = cb_vfs_node_retain k (Some n);
                          (vec, h1) = argument_vector_copy (k_host k1) args;
                          (env, h2) = string_vector_copy h1 (case envp of Some e \<Rightarrow> e | None \<Rightarrow> environment_of t);
                          k2 = set_host k1 h2
                      in case (vec, env) of
                           (Some (vals, owned), Some e) \<Rightarrow>
                             if exec_refused k2 a n
                             then (Some (R_int (-1)), set_errno (cb_vfs_node_release k2 (Some n)) a CB_ENOSYS)
                             else (None, cb_task_yield_as
                                     (upd_task k2 a (\<lambda>t. t\<lparr>t_pending := Some
                                        \<lparr>i_program = executable_of k2 n, i_argv = vals, i_owned_argv = owned,
                                         i_argc = length args, i_environment = e, i_node = Some n\<rparr>\<rparr>))
                                     a CB_TASK_EXEC_PENDING In_exec)
                         | _ \<Rightarrow> (Some (R_int (-1)), set_errno (cb_vfs_node_release k2 (Some n)) a CB_ENOMEM))"
    if n: "resolve_executable_node k (t_root t) (t_cwd t) nm = Inr n" for nm n args
  proof -
    let ?k = "cb_vfs_node_retain k (Some n)"
    have g1: "good ?k a zero (inc (Some n) zero)" by (rule good_retain [OF g]) (use resolve_ok [OF g t(1) n] in simp)
    obtain vec h1 where v: "argument_vector_copy (k_host ?k) args = (vec, h1)" by fastforce
    obtain env h2 where e: "string_vector_copy h1 (case envp of Some e \<Rightarrow> e | None \<Rightarrow> environment_of t) = (env, h2)" by fastforce
    let ?k2 = "set_host ?k h2"
    have g2: "good ?k2 a zero (inc (Some n) zero)"
      by (rule good_host [OF g1]) (use vector_copy_mono(2) [OF v] vector_copy_mono(1) [OF e] in simp)
    have "returns a (None, cb_task_yield_as (upd_task ?k2 a (\<lambda>t. t\<lparr>t_pending := Some im\<rparr>)) a CB_TASK_EXEC_PENDING In_exec)"
      if im: "i_node im = Some n" for im
    proof -
      let ?t = "t\<lparr>t_pending := Some im, t_wake_reason := CB_WAKE_NONE, t_state := CB_TASK_EXEC_PENDING, t_suspended := In_exec\<rparr>"
      have t2: "k_tasks ?k2 a = Some t" "task_shape (vfs_root (k_vfs ?k2)) t"
        using t(1) kinv_shape [OF good_kinv [OF g2], of a t] by simp_all
      have "kinv (?k2\<lparr>k_tasks := (k_tasks ?k2)(a \<mapsto> ?t)\<rparr>) zero zero"
        by (rule kinv_task_upd [OF good_kinv [OF g2] t2(1)])
          (use t2(2) im in \<open>auto simp: task_ok_def task_shape_def fd_count_def node_count_def held_nodes_def pending_node_def inc_def\<close>)
      then show ?thesis using t2(1) by (simp add: cb_task_yield_as_def upd_task_def)
    qed
    then show ?thesis
      using good_release [OF g2] by (auto simp: Let_def v e good_error simp del: returns_simps(1) split: option.split)
  qed
  then show ?thesis using g t(1) by (auto simp: api_exec_def good_error simp del: returns_simps(1) split: option.split sum.split)
qed

text \<open>The scheduler's half of exec: the old image goes, the pending one takes its place.\<close>

lemma upd_task_twice: "upd_task (upd_task k a f) a g = upd_task k a (g \<circ> f)"
  by (simp add: upd_task_def fault_def split: option.split)

lemma upd_task_vfs: "upd_task (k\<lparr>k_vfs := v\<rparr>) a g = (upd_task k a g)\<lparr>k_vfs := v\<rparr>"
  by (simp add: upd_task_def fault_def split: option.split)

lemma release_upd_vfs: "k_vfs (cb_vfs_node_release (upd_task k a g) n) = k_vfs (cb_vfs_node_release k n)"
  by (simp add: cb_vfs_node_release_def fault_def split: option.split)

definition enters :: "image \<Rightarrow> addr \<Rightarrow> cb_task \<Rightarrow> cb_task" where
  "enters im e t = (install_pending im t)\<lparr>t_execution := Some e, t_state := CB_TASK_RUNNABLE, t_suspended := At_entry\<rparr>"

lemma enters_fields:
  "t_descriptors (enters im e t) = t_descriptors t" "t_directories (enters im e t) = t_directories t"
  "t_root (enters im e t) = t_root t" "t_cwd (enters im e t) = t_cwd t" "t_image (enters im e t) = im"
  "t_pending (enters im e t) = None" "t_state (enters im e t) = CB_TASK_RUNNABLE" "t_suspended (enters im e t) = At_entry"
  by (simp_all add: enters_def install_pending_def)

lemma task_finish_exec_ok:
  assumes inv: "kinv k zero zero" and t: "k_tasks k a = Some t" "t_state t = CB_TASK_EXEC_PENDING"
    and run: "task_finish_exec k a = (True, k')"
  shows "kinv k' zero zero \<and> k_current k' = k_current k"
proof -
  have sh: "task_shape (vfs_root (k_vfs k)) t" by (rule kinv_shape [OF inv t(1)])
  then obtain im where im: "t_pending t = Some im" and l: "loose t" using t(2) by (auto simp: task_shape_def loose_def)
  let ?k0 = "upd_task k a (\<lambda>t. t\<lparr>t_execution := None\<rparr>)"
  let ?k1 = "task_release_allocations ?k0 a"
  let ?k2 = "close_where close_on_exec ?k1 a"
  let ?k3 = "dir_close_all ?k2 a"
  let ?t1 = "t\<lparr>t_execution := None, t_libc := (t_libc t)\<lparr>input_streams := None\<rparr>, t_allocations := []\<rparr>"
  let ?t2 = "?t1\<lparr>t_descriptors := closed_below close_on_exec CB_MAX_FDS (t_descriptors t)\<rparr>"
  have 1: "kinv ?k1 zero zero" "k_tasks ?k1 a = Some ?t1" "loose ?t1"
    using kinv_plain [OF kinv_plain [OF inv, of "\<lambda>t. t\<lparr>t_execution := None\<rparr>" a],
        of "\<lambda>t. t\<lparr>t_libc := (t_libc t)\<lparr>input_streams := None\<rparr>, t_allocations := []\<rparr>" a] t(1) l
    by (simp_all add: task_release_allocations_def upd_task_at loose_def off_processor_def)
  have 2: "kinv ?k2 zero zero" "k_tasks ?k2 a = Some ?t2" "loose ?t2" using close_where_ok [OF 1, of close_on_exec] 1(3) by simp_all
  obtain hs where 3: "k_tasks ?k3 a = Some (?t2\<lparr>t_directories := hs\<rparr>)" "\<forall>h\<in>set hs. \<not> d_in_use h"
    using dir_close_all_ok(2) [OF 2] by blast
  let ?t3 = "?t2\<lparr>t_directories := hs\<rparr>"
  note k3 = dir_close_all_ok(1) [OF 2]
  obtain e h where e: "cb_executor_instance_create (upd_task (cb_vfs_node_release ?k3 (i_node (t_image t))) a (install_pending im)) (i_program im) =
      (Some e, set_host (upd_task (cb_vfs_node_release ?k3 (i_node (t_image t))) a (install_pending im)) h)"
    "seq (cb_vfs_node_release ?k3 (i_node (t_image t))) \<le> alloc_seq h"
    and k': "k' = upd_task (set_host (upd_task (cb_vfs_node_release ?k3 (i_node (t_image t))) a (install_pending im)) h) a
      (\<lambda>t. t\<lparr>t_execution := Some e, t_state := CB_TASK_RUNNABLE, t_suspended := At_entry\<rparr>)"
    using run t(1) im instance_create_host by (fastforce simp: task_finish_exec_def Let_def split: prod.splits option.splits)
  have eq: "k' = set_host (cb_vfs_node_release (upd_task ?k3 a (enters im e)) (i_node (t_image t))) h"
    using upd_task_release [of ?k3 a "i_node (t_image t)" "enters im e"] 3(1)
    by (simp add: k' upd_task_vfs upd_task_twice enters_def [abs_def] comp_def release_upd_vfs)
  have sh3: "task_shape (vfs_root (k_vfs ?k3)) (enters im e ?t3)"
    using kinv_shape [OF k3 3(1)] by (simp add: task_shape_def enters_fields)
  have "kinv (?k3\<lparr>k_tasks := (k_tasks ?k3)(a \<mapsto> enters im e ?t3)\<rparr>) zero (inc (i_node (t_image t)) zero)"
  proof (rule kinv_task_upd [OF k3 3(1)])
    show "task_ok (vfs_root (k_vfs ?k3)) (k_files ?k3) (enters im e ?t3)"
      by (rule loose_ok [OF sh3]) (simp add: loose_def enters_fields)
    show "fd_count f (enters im e ?t3) + 0 = fd_count f ?t3 + 0" for f by (simp add: fd_count_def enters_fields)
    show "node_count n (enters im e ?t3) + inc (i_node (t_image t)) zero n \<le> node_count n ?t3 + 0" for n
      using im by (simp add: node_count_def held_nodes_def pending_node_def enters_fields inc_def)
  qed
  then have "kinv (cb_vfs_node_release (upd_task ?k3 a (enters im e)) (i_node (t_image t))) zero zero"
    by (intro kinv_release) (simp add: upd_task_def [of ?k3 a] 3(1))
  moreover have "seq (cb_vfs_node_release (upd_task ?k3 a (enters im e)) (i_node (t_image t))) = seq (cb_vfs_node_release ?k3 (i_node (t_image t)))"
    by (simp add: release_upd_vfs)
  ultimately show ?thesis using kinv_host e(2) by (simp add: eq)
qed

section \<open>Resumption and interrupts\<close>

lemma resume_ok:
  assumes inv: "kinv k zero zero" and t: "k_tasks k a = Some t" "t_state t = CB_TASK_RUNNABLE" "k_current k = None"
  shows "returns a (dispatch k a)"
proof -
  let ?R = "\<lambda>t. t\<lparr>t_state := CB_TASK_RUNNING\<rparr>"
  let ?k = "(upd_task k a ?R)\<lparr>k_current := Some a\<rparr>"
  have ok: "task_shape (vfs_root (k_vfs k)) t" "suspended_at (k_files k) t (t_suspended t)"
    using kinv_task [OF inv t(1)] t(2) by (simp_all add: task_ok_def off_processor_def)
  have "kinv (k\<lparr>k_tasks := (k_tasks k)(a \<mapsto> ?R t)\<rparr>) zero zero"
    by (rule kinv_task_upd [OF inv t(1)]) (use ok(1) in \<open>simp_all add: task_ok_def task_shape_def off_processor_def\<close>)
  then have g: "good ?k a zero zero" by (simp add: good_def upd_task_def t(1))
  have at: "k_tasks ?k a = Some (?R t)" by (simp add: upd_task_def t(1))
  show ?thesis
  proof (cases "t_interrupt_pending t \<and> t_interrupt_disposition t = CB_INTERRUPT_DEFAULT")
    case True
    let ?k' = "upd_task ?k a (\<lambda>t. t\<lparr>t_interrupt_pending := False\<rparr>)"
    have "kinv ?k' zero zero" using good_kinv [OF good_plain [OF g, of "\<lambda>t. t\<lparr>t_interrupt_pending := False\<rparr>"]] by simp
    from api_exit_ok [OF this upd_task_at [OF at]] show ?thesis
      using True t(1) at by (simp add: dispatch_def resume_task_def cb_task_deliver_interrupt_def loose_def off_processor_def)
  next
    case False
    then have eq: "dispatch k a = continue_call ?k a (t_suspended t)"
      using t(1) at by (auto simp: dispatch_def resume_task_def cb_task_deliver_interrupt_def)
    have R: "suspended_at (k_files k) (?R t) s = suspended_at (k_files k) t s" if "s \<noteq> In_exec" for s
      using that by (cases s) (auto simp: holds_end_def)
    have he: "holds_end (k_files ?k) (?R t) f e = holds_end (k_files k) t f e" for f e by (simp add: holds_end_def)
    have files: "k_files ?k = k_files k" by simp
    show ?thesis
    proof (cases "t_suspended t")
      case (In_pipe_read f n)
      then obtain p o' where o': "holds_end (k_files k) t f PipeReadEnd" "k_files k f = Some o'" "of_ops o' = PipeReadEnd p"
        using ok(2) by (auto simp: holds_end_def)
      have "returns a (pipe_read ?k a f p n)" by (rule pipe_read_ok [OF g at, of f o' p n]) (use o' he in simp_all)
      then show ?thesis using In_pipe_read eq o'(2,3) by (simp add: continue_read_def)
    next
      case (In_pipe_write f src n)
      then obtain p o' where o': "holds_end (k_files k) t f PipeWriteEnd" "k_files k f = Some o'" "of_ops o' = PipeWriteEnd p" "n \<le> length src"
        using ok(2) by (auto simp: holds_end_def)
      have "returns a (pipe_write ?k a f p src n)" by (rule pipe_write_ok [OF g at, of f o' p n src]) (use o' he in simp_all)
      then show ?thesis using In_pipe_write eq o'(2,3) by (simp add: continue_write_def)
    next
      case (In_console_read n)
      then show ?thesis using eq console_read_ok [OF g] by simp
    next
      case (In_waitpid n)
      then show ?thesis using eq api_waitpid_ok [OF g] by simp
    next
      case (In_poll fds)
      then show ?thesis using eq poll_round_ok [OF g] by simp
    qed (use eq g ok t(2) in simp_all)
  qed
qed

lemma request_interrupt_ok:
  assumes inv: "kinv k zero zero"
  shows "kinv (snd (cb_kernel_request_interrupt k pid)) zero zero"
proof (cases "List.find (task_is (\<lambda>t. t_pid t = pid) k) (k_list k)")
  case None
  then show ?thesis using inv by (simp add: cb_kernel_request_interrupt_def)
next
  case (Some b)
  then obtain t where t: "k_tasks k b = Some t" by (rule find_task)
  let ?I = "\<lambda>t. t\<lparr>t_interrupt_pending := True, t_state := (if is_blocked (t_state t) then CB_TASK_RUNNABLE else t_state t)\<rparr>"
  have plain: "plain_update (\<lambda>t. t\<lparr>t_interrupt_pending := True\<rparr>)" by simp
  have "task_ok (vfs_root (k_vfs k)) (k_files k) (?I t)"
  proof (cases "is_blocked (t_state t)")
    case True
    have eq: "?I t = (t\<lparr>t_state := CB_TASK_RUNNABLE, t_wake_reason := t_wake_reason t\<rparr>)\<lparr>t_interrupt_pending := True\<rparr>"
      using True by (cases t) simp
    show ?thesis unfolding eq by (rule plain_update_ok [OF plain woken_ok [OF conjunct2 [OF kinv_task [OF inv t]] True]])
  next
    case False
    have eq: "?I t = t\<lparr>t_interrupt_pending := True\<rparr>" using False by (cases t) simp
    show ?thesis unfolding eq by (rule plain_update_ok [OF plain conjunct2 [OF kinv_task [OF inv t]]])
  qed
  then have "kinv (k\<lparr>k_tasks := (k_tasks k)(b \<mapsto> ?I t)\<rparr>) zero zero"
    by (rule kinv_task_upd [OF inv t]) (simp_all add: fd_count_def node_count_def held_nodes_def pending_node_def)
  then have "kinv (upd_task k b ?I) zero zero" by (simp add: upd_task_def t)
  then show ?thesis using Some t inv by (simp add: cb_kernel_request_interrupt_def)
qed

section \<open>The runtime as a machine\<close>

lemma do_call_ok:
  assumes g: "good k a zero zero" shows "returns a (do_call k a c)"
proof -
  obtain t where t: "k_tasks k a = Some t" "kinv k zero zero" "loose t" by (rule goodE [OF g])
  have y: "returns a (None, cb_task_yield_as k a CB_TASK_RUNNABLE In_yield)" by (rule yield_ok [OF g]) simp_all
  show ?thesis
  proof (cases c)
    case (C_exit status)
    then show ?thesis using api_exit_ok [OF t(2,1,3)] by simp
  next
    case C_yield
    then show ?thesis using y by (simp del: returns_simps)
  qed (use g t(1) in \<open>simp_all add: task_value_def good_error api_spawn_ok api_exec_ok api_waitpid_ok api_open_ok api_close_ok
      api_read_ok api_write_ok api_lseek_ok api_ftruncate_ok path_calls_ok api_dup_ok api_dup2_ok api_set_cloexec_ok api_pipe_ok
      api_fstat_ok query_calls_ok api_chdir_ok environment_calls_ok ledger_calls_ok terminal_calls_ok api_opendir_ok
      api_readdir_ok api_closedir_ok api_poll_ok\<close>)
qed

text \<open>
  The events of the machine. A call is made by the program on the processor; the scheduler resumes a
  runnable task, completes an exec, or wakes tasks; the host asks for an interrupt. An event that the
  state does not allow does nothing.
\<close>

datatype (plugins only: code size) kernel_event =
    Call call | Resume addr | Finish_exec addr | Interrupt int | Set_interrupt int bool
  | Console_event | Clock_event nat | Poll_event

fun kernel_step :: "kernel_event \<Rightarrow> cb_kernel \<Rightarrow> result option \<times> cb_kernel" where
  "kernel_step (Call c) k = (case k_current k of None \<Rightarrow> (None, k) | Some a \<Rightarrow> do_call k a c)"
| "kernel_step (Resume a) k = (if k_current k = None \<and> runnable k a then dispatch k a else (None, k))"
| "kernel_step (Finish_exec a) k =
     (if k_current k = None \<and> task_is (\<lambda>t. t_state t = CB_TASK_EXEC_PENDING) k a \<and> fst (task_finish_exec k a)
      then (None, snd (task_finish_exec k a)) else (None, k))"
| "kernel_step (Interrupt pid) k = (None, snd (cb_kernel_request_interrupt k pid))"
| "kernel_step (Set_interrupt d null) k =
     (case k_current k of None \<Rightarrow> (None, k) | Some a \<Rightarrow> (None, snd (cb_task_set_interrupt k a d null)))"
| "kernel_step Console_event k = (None, wake_console_waiters k)"
| "kernel_step (Clock_event now) k = (None, for_tasks (expire_poll now) k)"
| "kernel_step Poll_event k = (None, for_tasks wake_poll k)"

definition kernel_inv :: "cb_kernel \<Rightarrow> bool" where
  "kernel_inv k \<longleftrightarrow> kinv k zero zero \<and> (case k_current k of None \<Rightarrow> True | Some a \<Rightarrow> good k a zero zero)"

lemma returns_inv: "returns a out \<Longrightarrow> kernel_inv (snd out)"
  by (auto simp: returns_def kernel_inv_def good_def split: prod.splits option.splits)

lemma kernel_invI_current:
  assumes "kernel_inv k" "kinv k' zero zero" "k_current k' = k_current k"
    and "\<And>a t. k_tasks k a = Some t \<Longrightarrow> t_state t = CB_TASK_RUNNING \<Longrightarrow> \<exists>t'. k_tasks k' a = Some t' \<and> t_state t' = CB_TASK_RUNNING"
  shows "kernel_inv k'"
proof (cases "k_current k")
  case None
  then show ?thesis using assms(2,3) by (simp add: kernel_inv_def)
next
  case (Some a)
  then have "good k a zero zero" using assms(1) by (simp add: kernel_inv_def)
  then have "good k' a zero zero" by (rule good_step) (use assms(2-4) in auto)
  then show ?thesis using assms(2,3) Some by (simp add: kernel_inv_def)
qed

lemma kernel_inv_current: "kernel_inv k \<Longrightarrow> k_current k = Some a \<Longrightarrow> good k a zero zero"
  by (simp add: kernel_inv_def)

lemma for_tasks_inv: "kernel_inv k \<Longrightarrow> wakes g \<Longrightarrow> kernel_inv (for_tasks g k)"
  by (rule kernel_invI_current) (auto simp: kernel_inv_def kinv_for_tasks for_tasks_task)

lemma request_interrupt_inv:
  assumes "kernel_inv k" shows "kernel_inv (snd (cb_kernel_request_interrupt k pid))"
proof (rule kernel_invI_current [OF assms])
  show "kinv (snd (cb_kernel_request_interrupt k pid)) zero zero" using assms request_interrupt_ok by (simp add: kernel_inv_def)
  show "k_current (snd (cb_kernel_request_interrupt k pid)) = k_current k"
    by (simp add: cb_kernel_request_interrupt_def fault_def split: option.split)
  fix a t assume t: "k_tasks k a = Some t" "t_state t = CB_TASK_RUNNING"
  then show "\<exists>t'. k_tasks (snd (cb_kernel_request_interrupt k pid)) a = Some t' \<and> t_state t' = CB_TASK_RUNNING"
    by (auto simp: cb_kernel_request_interrupt_def upd_task_def fault_def split: option.split)
qed

interpretation kernel_machine: invariant_machine kernel_inv kernel_step
proof
  fix e k assume inv: "kernel_inv k"
  show "kernel_inv (snd (kernel_step e k))"
  proof (cases e)
    case (Call c)
    then show ?thesis using inv returns_inv [OF do_call_ok [OF kernel_inv_current [OF inv]]] by (simp split: option.split)
  next
    case (Resume a)
    have "kinv k zero zero" using inv by (simp add: kernel_inv_def)
    then show ?thesis
      using Resume inv returns_inv [OF resume_ok] by (auto simp: runnable_def task_is_def split: option.splits)
  next
    case (Finish_exec a)
    then show ?thesis
      using inv task_finish_exec_ok [of k a]
      by (cases "task_finish_exec k a") (auto simp: kernel_inv_def task_is_def split: option.splits)
  next
    case (Set_interrupt d null)
    have "kernel_inv (snd (cb_task_set_interrupt k a d null))" if "k_current k = Some a" for a
    proof -
      have g: "good k a zero zero" using inv that by (simp add: kernel_inv_def)
      then have "good (snd (cb_task_set_interrupt k a d null)) a zero zero"
        by (auto simp: cb_task_set_interrupt_def good_plain split: option.split)
      then show ?thesis by (auto simp: kernel_inv_def good_def)
    qed
    then show ?thesis using Set_interrupt inv by (auto split: option.split)
  qed (use inv in \<open>simp_all add: request_interrupt_inv for_tasks_inv wake_console_waiters_def\<close>)
qed

end
