(* ===== verification/Kernel_Life.thy ===== *)
theory Kernel_Life
  imports Kernel_Safety
begin

text \<open>
  What the invariant means for the whole life of a kernel, from its creation through the loop of the
  scheduler.
\<close>

section \<open>From creation to any state\<close>

definition register_all :: "(string \<times> bool) list \<Rightarrow> cb_kernel \<Rightarrow> cb_kernel" where
  "register_all programs k = fold (\<lambda>(name, ok) k. snd (cb_kernel_register_executor k name ok)) programs k"

text \<open>Creating a kernel, registering programs, booting, then any sequence of events.\<close>

definition lifetime ::
  "host \<Rightarrow> console \<Rightarrow> (addr \<Rightarrow> bool) \<Rightarrow> (string \<times> bool) list \<Rightarrow> string option \<Rightarrow> kernel_event list \<Rightarrow> cb_kernel option" where
  "lifetime h c ctx programs command es =
     map_option (\<lambda>k. snd (run_events kernel_step es (snd (cb_kernel_boot (register_all programs k) command))))
       (cb_kernel_create h c ctx True True)"

text \<open>
  No pointer has been followed to an object that is gone; reference counts are exact; what tasks,
  files and directory handles refer to exists.
\<close>

definition counts_exact :: "cb_kernel \<Rightarrow> bool" where
  "counts_exact k \<longleftrightarrow>
     (\<forall>f file. k_files k f = Some file \<longrightarrow> of_references file = file_refs k f \<and> of_references file > 0) \<and>
     (\<forall>p q. k_pipes k p = Some q \<longrightarrow> pp_readers q = ends k (PipeReadEnd p) \<and> pp_writers q = ends k (PipeWriteEnd p) \<and>
        (pp_readers q > 0 \<or> pp_writers q > 0))"

definition nothing_dangles :: "cb_kernel \<Rightarrow> bool" where
  "nothing_dangles k \<longleftrightarrow>
     (\<forall>a t f. k_tasks k a = Some t \<longrightarrow> Some f \<in> set (map fd_file (t_descriptors t)) \<longrightarrow> k_files k f \<noteq> None) \<and>
     (\<forall>a t n. k_tasks k a = Some t \<longrightarrow> Some n \<in> set (held_nodes t) \<longrightarrow> nodes (k_vfs k) n \<noteq> None) \<and>
     (\<forall>f file. k_files k f = Some file \<longrightarrow>
        (case of_ops file of NodeFile n \<Rightarrow> nodes (k_vfs k) n \<noteq> None
         | PipeReadEnd p \<Rightarrow> k_pipes k p \<noteq> None | PipeWriteEnd p \<Rightarrow> k_pipes k p \<noteq> None | _ \<Rightarrow> True))"

lemma kinv_counts:
  assumes "kinv k zero zero" shows "counts_exact k"
  unfolding counts_exact_def
proof (intro conjI allI impI)
  show "of_references file = file_refs k f" "of_references file > 0" if "k_files k f = Some file" for f "file"
    using kinv_file [OF assms that] by simp_all
  show "pp_readers q = ends k (PipeReadEnd p)" "pp_writers q = ends k (PipeWriteEnd p)" "pp_readers q > 0 \<or> pp_writers q > 0"
    if "k_pipes k p = Some q" for p q
    using kinv_pipe [OF assms that] by simp_all
qed

lemma kinv_dangles:
  assumes "kinv k zero zero" shows "nothing_dangles k"
  unfolding nothing_dangles_def
proof (intro conjI allI impI)
  show "k_files k f \<noteq> None" if "k_tasks k a = Some t" "Some f \<in> set (map fd_file (t_descriptors t))" for a t f
    using kinv_fd_file [OF assms that] .
  show "nodes (k_vfs k) n \<noteq> None" if "k_tasks k a = Some t" "Some n \<in> set (held_nodes t)" for a t n
    using kinv_held_node(1) [OF assms that] by auto
  show "case of_ops file of NodeFile n \<Rightarrow> nodes (k_vfs k) n \<noteq> None
         | PipeReadEnd p \<Rightarrow> k_pipes k p \<noteq> None | PipeWriteEnd p \<Rightarrow> k_pipes k p \<noteq> None | _ \<Rightarrow> True"
    if "k_files k f = Some file" for f "file"
    using kinv_file_node [OF assms that] kinv_end_pipe [OF assms that] by (auto split: file_ops.split)
qed

lemma register_all_ok:
  "kinv k zero zero \<Longrightarrow> k_current k = None \<Longrightarrow>
   kinv (register_all programs k) zero zero \<and> k_current (register_all programs k) = None"
  unfolding register_all_def
proof (induction programs arbitrary: k)
  case (Cons p ps)
  obtain name ok where p: "p = (name, ok)" by fastforce
  obtain r k' where r: "cb_kernel_register_executor k name ok = (r, k')" by fastforce
  then show ?case using Cons.IH [of k'] register_executor_ok [OF Cons.prems(1) r] Cons.prems p by simp
qed simp

lemma lifetime_inv:
  assumes "lifetime h c ctx programs command es = Some k" shows "kernel_inv k"
proof -
  obtain k0 where k0: "cb_kernel_create h c ctx True True = Some k0"
    and k: "k = snd (run_events kernel_step es (snd (cb_kernel_boot (register_all programs k0) command)))"
    using assms by (auto simp: lifetime_def)
  note r = register_all_ok [OF kernel_create_ok(1,2) [OF k0]]
  obtain i kb where b: "cb_kernel_boot (register_all programs k0) command = (i, kb)" by fastforce
  have "kernel_inv kb" using kernel_boot_ok [OF _ b] r by (simp add: kernel_inv_def)
  then show ?thesis using kernel_machine.invar_run by (simp add: k b)
qed


definition sample_console :: console where
  "sample_console = \<lparr>con_poll = (\<lambda>_ _. 0), con_read = (\<lambda>_ _. (0, [])), con_write = (\<lambda>_ _ bytes. int (length bytes)),
     con_seq = 0, con_output = []\<rparr>"

definition sample_life :: "kernel_event list \<Rightarrow> cb_kernel option" where
  "sample_life es = lifetime sample_host sample_console (\<lambda>_. True) [(''sh'', True), (''cat'', True)] None es"


section \<open>The loop of the scheduler\<close>

text \<open>
  The parameter of \<^verbatim>\<open>cb_kernel_run\<close> stands for what a program does in one turn. A turn is the
  resumption of the task followed by calls, until one gives the processor back; which calls, may
  depend on the whole state (\<open>prog k a\<close>).
\<close>

fun run_calls :: "addr \<Rightarrow> call list \<Rightarrow> outcome \<Rightarrow> cb_kernel" where
  "run_calls a cs (None, k) = k"
| "run_calls a [] (Some r, k) = k"
| "run_calls a (c # cs) (Some r, k) = run_calls a cs (do_call k a c)"

definition run_program :: "(cb_kernel \<Rightarrow> addr \<Rightarrow> call list) \<Rightarrow> cb_kernel \<Rightarrow> addr \<Rightarrow> cb_kernel" where
  "run_program prog k a = run_calls a (prog k a) (dispatch k a)"

lemma run_calls_inv: "returns a out \<Longrightarrow> kinv (run_calls a cs out) zero zero"
proof (induction cs arbitrary: out)
  case Nil
  then show ?case by (cases "(a, [] :: call list, out)" rule: run_calls.cases) (auto simp: good_def)
next
  case (Cons c cs)
  then show ?case using do_call_ok by (cases "(a, c # cs, out)" rule: run_calls.cases) auto
qed

lemma dispatch_running:
  assumes "k_tasks k a = Some t"
  shows "dispatch (upd_task (k\<lparr>k_current := u\<rparr>) a (\<lambda>t. t\<lparr>t_state := CB_TASK_RUNNING\<rparr>)) a = dispatch k a"
  using assms by (auto simp: dispatch_def resume_task_def upd_task_def split: prod.split bool.split)

lemma kinv_idle: "kinv k zero zero \<Longrightarrow> k_current k = None \<Longrightarrow> kernel_inv k"
  by (simp add: kernel_inv_def)

lemma console_poll_ok [simp]: "kinv (snd (console_poll k i)) x y = kinv k x y" "k_current (snd (console_poll k i)) = k_current k"
  by (simp_all add: console_poll_def)

definition idle_inv :: "cb_kernel \<Rightarrow> bool" where
  "idle_inv k \<longleftrightarrow> kinv k zero zero \<and> k_current k = None"

lemma idle_inv_steps [simp]:
  "idle_inv k \<Longrightarrow> idle_inv (snd (console_poll k i))" "idle_inv k \<Longrightarrow> wakes g \<Longrightarrow> idle_inv (for_tasks g k)"
  "idle_inv k \<Longrightarrow> idle_inv (snd (get_poll_timeout k))" "idle_inv k \<Longrightarrow> idle_inv (wake_console_waiters k)"
  "idle_inv k \<Longrightarrow> idle_inv (set_host k (snd (monotonic_millis (k_host k))))"
proof -
  have h: "idle_inv k \<Longrightarrow> idle_inv (set_host k (snd (monotonic_millis (k_host k))))"
    by (auto simp: idle_inv_def intro!: kinv_host)
  then show "idle_inv k \<Longrightarrow> idle_inv (set_host k (snd (monotonic_millis (k_host k))))" .
  show "idle_inv k \<Longrightarrow> idle_inv (snd (get_poll_timeout k))" using h by (cases "monotonic_millis (k_host k)") (simp add: get_poll_timeout_def)
qed (simp_all add: idle_inv_def kinv_for_tasks wake_console_waiters_def)

lemma idle_inv_console: "console_poll k i = (n, k') \<Longrightarrow> idle_inv k \<Longrightarrow> idle_inv k'"
  using idle_inv_steps(1) [of k i] by simp

lemma wait_for_events_ok:
  assumes "idle_inv k" "wait_for_events k idle = Continue k' idle'" shows "idle_inv k'"
proof -
  obtain timeout k1 where 1: "get_poll_timeout k = (timeout, k1)" by fastforce
  have i1: "idle_inv k1" using idle_inv_steps(3) [OF assms(1)] 1 by simp
  obtain n k2 where 2: "console_poll k1 0 = (n, k2)" by fastforce
  have i2: "idle_inv k2" using idle_inv_steps(1) [OF i1, of 0] 2 by simp
  show ?thesis
    using assms(2) 1 2 i1 i2 idle_inv_console
    by (auto simp: wait_for_events_def Let_def split: if_splits prod.splits)
qed

lemma run_round_ok:
  assumes "idle_inv k" "run_round (run_program prog) k idle = Continue k' idle'" shows "idle_inv k'"
proof -
  obtain now h where h: "monotonic_millis (k_host k) = (now, h)" by fastforce
  obtain n k1 where 1: "console_poll (set_host k h) 0 = (n, k1)" by fastforce
  have i1: "idle_inv k1"
    using idle_inv_steps(1) [OF idle_inv_steps(5) [OF assms(1)], of 0] h 1 by simp
  let ?k3 = "for_tasks (expire_poll now) (if n > 0 then wake_console_waiters k1 else k1)"
  have i3: "idle_inv ?k3" using i1 by simp
  obtain ao k4 where 4: "pick_runnable ?k3 = (ao, k4)" by fastforce
  have i4: "idle_inv k4" using 4 i3 by (auto simp: pick_runnable_def idle_inv_def split: option.splits)
  show ?thesis
  proof (cases ao)
    case None
    then show ?thesis using assms(2) h 1 4 wait_for_events_ok [OF i4] by (simp add: run_round_def Let_def)
  next
    case (Some a)
    then obtain t where t: "k_tasks k4 a = Some t" "t_state t = CB_TASK_RUNNABLE"
      using 4 by (auto simp: pick_runnable_def find_Some_iff runnable_def task_is_def split: option.splits)
    let ?k5 = "upd_task (k4\<lparr>k_current := Some a\<rparr>) a (\<lambda>t. t\<lparr>t_state := CB_TASK_RUNNING\<rparr>)"
    let ?k6 = "(run_program prog ?k5 a)\<lparr>k_current := None\<rparr>"
    have "returns a (dispatch k4 a)" using resume_ok i4 t by (simp add: idle_inv_def)
    then have i6: "kinv ?k6 zero zero" using run_calls_inv dispatch_running [OF t(1)] by (simp add: run_program_def)
    then have i6': "idle_inv ?k6" by (simp add: idle_inv_def)
    show ?thesis
    proof (cases "task_is (\<lambda>t. t_state t = CB_TASK_EXEC_PENDING) ?k6 a")
      case False
      then show ?thesis using assms(2) h 1 4 Some i6' by (simp add: run_round_def Let_def)
    next
      case True
      then obtain u where u: "k_tasks ?k6 a = Some u" "t_state u = CB_TASK_EXEC_PENDING" by (auto simp: task_is_def split: option.splits)
      obtain ok k7 where 7: "task_finish_exec ?k6 a = (ok, k7)" by fastforce
      have "ok \<and> k7 = k'" using assms(2) h 1 4 Some True 7 by (auto simp: run_round_def Let_def split: bool.splits)
      then show ?thesis using task_finish_exec_ok [OF i6 u] 7 by (auto simp: idle_inv_def)
    qed
  qed
qed

lemma run_loop_ok:
  assumes "run_loop run k idle = Some y"
  shows "run = run_program prog \<Longrightarrow> idle_inv k \<Longrightarrow> fst y \<ge> 0 \<Longrightarrow>
    idle_inv (snd y) \<and> k_boot_finished (snd y) \<and> fst y = k_boot_status (snd y)"
proof (induction rule: run_loop.raw_induct [OF _ assms, consumes 0])
  case (1 loop run k idle y)
  show ?case
  proof (cases "k_boot_finished k")
    case True
    then show ?thesis using 1 by auto
  next
    case False
    then show ?thesis
      using 1(1) [OF _ 1(3) _ 1(5)] 1(2) run_round_ok [OF 1(4)] 1(3,5) by (auto split: round.splits)
  qed
qed


text \<open>A kernel whose only task exits in its first turn.\<close>

definition sample_kernel :: cb_kernel where
  "sample_kernel = the (cb_kernel_create sample_host sample_console (\<lambda>_. True) True True)"

definition sample_task_kernel :: cb_kernel where
  "sample_task_kernel = (snd (task_create sample_kernel None (Some 0) [''sh''] None []))\<lparr>k_boot_pid := 1\<rparr>"

lemma sample_kernel_inv: "kinv sample_kernel zero zero" "k_current sample_kernel = None"
proof -
  have "cb_kernel_create sample_host sample_console (\<lambda>_. True) True True \<noteq> None" by code_simp
  then have "cb_kernel_create sample_host sample_console (\<lambda>_. True) True True = Some sample_kernel" by (simp add: sample_kernel_def)
  from kernel_create_ok(1,2) [OF this] show "kinv sample_kernel zero zero" "k_current sample_kernel = None" .
qed

lemma sample_task_inv: "idle_inv sample_task_kernel"
proof -
  obtain r k where r: "task_create sample_kernel None (Some 0) [''sh''] None [] = (r, k)" by fastforce
  show ?thesis using task_create_ok [OF sample_kernel_inv(1) r] sample_kernel_inv(2) r
    by (simp add: sample_task_kernel_def idle_inv_def kept_def)
qed


end
