(* ===== verification/Schedule_Props.thy ===== *)
theory Schedule_Props
  imports Kernel_Life
begin

text \<open>
  The scheduler is fair, its timeouts are exact, and a task that exits meets the parent that waits for it.
\<close>

section \<open>Fairness\<close>

text \<open>The order is a rotation of the list of tasks.\<close>

lemma schedule_order_rotation: "\<exists>u v. l = u @ v \<and> schedule_order l cur = v @ u"
proof (cases "case cur of None \<Rightarrow> [] | Some b \<Rightarrow> dropWhile (\<lambda>x. x \<noteq> b) l")
  case Nil
  then have "schedule_order l cur = l" by (simp add: schedule_order_def del: dropWhile_eq_Nil_conv split: option.splits)
  then show ?thesis by (metis append.left_neutral append.right_neutral)
next
  case (Cons z zs)
  then obtain b where b: "cur = Some b" "dropWhile (\<lambda>x. x \<noteq> b) l = z # zs" by (cases cur) auto
  then have "z = b" by (metis (mono_tags, lifting) hd_dropWhile list.discI list.sel(1))
  then have l: "l = (takeWhile (\<lambda>x. x \<noteq> b) l @ [b]) @ zs" using b takeWhile_dropWhile_id [of "\<lambda>x. x \<noteq> b" l] by simp
  have "schedule_order l cur = (if zs = [] then l else zs @ takeWhile (\<lambda>x. x \<noteq> b) l @ [b])" using b by (simp add: schedule_order_def)
  then show ?thesis using l by (metis append.left_neutral append.right_neutral)
qed

lemma schedule_order_set: "set (schedule_order l c) = set l"
  using schedule_order_rotation [of l c] by auto

lemma split_unique:
  assumes "distinct (xs @ c # ys)" "xs @ c # ys = xs' @ c # ys'" shows "xs' = xs \<and> ys' = ys"
proof -
  have "distinct (xs' @ c # ys')" using assms by simp
  then have "c \<notin> set xs" "c \<notin> set xs'" using assms(1) by auto
  with assms(2) show ?thesis
    by (induction xs arbitrary: xs') (auto simp: Cons_eq_append_conv)
qed

lemma takeWhile_first: "b \<notin> set xs \<Longrightarrow> takeWhile (\<lambda>x. x \<noteq> b) (xs @ b # ys) = xs"
  by (induction xs) auto

text \<open>After a choice of \<open>c\<close> the tasks that were behind it come first, in the same order.\<close>

lemma schedule_order_after:
  assumes "distinct l" "schedule_order l cur = pre @ c # post"
  shows "\<exists>pre'. schedule_order l (Some c) = post @ pre'"
proof (cases "dropWhile (\<lambda>x. x \<noteq> c) l")
  case Nil
  then have "c \<notin> set l" by (metis (mono_tags, lifting) dropWhile_eq_Nil_conv)
  then show ?thesis using schedule_order_set [of l cur] assms(2) by auto
next
  case (Cons y rest)
  then have y: "y = c" by (metis (mono_tags, lifting) hd_dropWhile list.discI list.sel(1))
  define front where "front = takeWhile (\<lambda>x. x \<noteq> c) l"
  have l: "l = front @ c # rest" using Cons y takeWhile_dropWhile_id [of "\<lambda>x. x \<noteq> c" l] by (simp add: front_def)
  have so: "schedule_order l (Some c) = (if rest = [] then l else rest @ front @ [c])"
    using Cons y by (simp add: schedule_order_def front_def)
  obtain u v where uv: "l = u @ v" "v @ u = pre @ c # post"
    using schedule_order_rotation [of l cur] assms(2) by metis
  have d: "distinct (v @ u)" using assms(1) uv(1) by auto
  show ?thesis
  proof (cases "c \<in> set v")
    case True
    then obtain v1 v2 where v: "v = v1 @ c # v2" by (meson split_list)
    have "pre = v1 \<and> post = v2 @ u" using split_unique [of v1 c "v2 @ u" pre post] uv(2) d v by simp
    moreover have "front = u @ v1 \<and> rest = v2" using split_unique [of "u @ v1" c v2 front rest] uv(1) l v assms(1) by simp
    ultimately show ?thesis using so l by auto
  next
    case False
    then have "c \<in> set u" using l uv(1) by (metis Un_iff list.set_intros(1) set_append)
    then obtain u1 u2 where u: "u = u1 @ c # u2" by (meson split_list)
    have d': "distinct ((v @ u1) @ c # u2)" using d u by simp
    have "(v @ u1) @ c # u2 = pre @ c # post" using uv(2) u by simp
    from split_unique [OF d' this] have "post = u2" by simp
    moreover have dl: "distinct (u1 @ c # u2 @ v)" using assms(1) uv(1) u by simp
    have "u1 @ c # u2 @ v = front @ c # rest" using uv(1) u l by simp
    from split_unique [OF dl this] have "rest = u2 @ v" by simp
    ultimately show ?thesis using so l by auto
  qed
qed

text \<open>How many tasks come before \<open>b\<close> in the order.\<close>

definition turns_before :: "addr list \<Rightarrow> addr option \<Rightarrow> addr \<Rightarrow> nat" where
  "turns_before l cur b = length (takeWhile (\<lambda>x. x \<noteq> b) (schedule_order l cur))"

lemma pick_progress:
  assumes "distinct (k_list k)" "b \<in> set (k_list k)" "runnable k b" "pick_runnable k = (Some c, k')" "c \<noteq> b"
  shows "turns_before (k_list k) (Some c) b < turns_before (k_list k) (k_cursor k) b"
proof -
  let ?o = "schedule_order (k_list k) (k_cursor k)"
  have f: "List.find (runnable k) ?o = Some c" using assms(4) by (auto simp: pick_runnable_def split: option.splits)
  have "b \<in> set ?o" using assms(2) schedule_order_set by blast
  then obtain pre post where o': "?o = pre @ b # post" "b \<notin> set pre" by (meson split_list_first)
  have "c \<in> set pre"
  proof (rule ccontr)
    assume "c \<notin> set pre"
    moreover obtain i where "i < length ?o" "?o ! i = c" "\<forall>j<i. \<not> runnable k (?o ! j)" using f by (auto simp: find_Some_iff)
    ultimately show False
      using o' assms(3,5) by (metis (no_types, lifting) length_append length_Cons linorder_neqE_nat nth_append nth_append_length nth_mem)
  qed
  then obtain p1 p2 where p: "pre = p1 @ c # p2" by (meson split_list)
  then have "?o = p1 @ c # (p2 @ b # post)" using o'(1) by simp
  from schedule_order_after [OF assms(1) this] obtain r where r: "schedule_order (k_list k) (Some c) = p2 @ b # (post @ r)" by auto
  have "b \<notin> set p2" using o'(2) p by simp
  then have "turns_before (k_list k) (Some c) b = length p2"
    by (simp add: turns_before_def r takeWhile_first [of b p2])
  moreover have "turns_before (k_list k) (k_cursor k) b = length pre"
    by (simp add: turns_before_def o'(1) takeWhile_first [OF o'(2)])
  ultimately show ?thesis using p by simp
qed

lemma picks_runnable:
  assumes "b \<in> set (k_list k)" "runnable k b" shows "fst (pick_runnable k) \<noteq> None"
proof -
  have "b \<in> set (schedule_order (k_list k) (k_cursor k))" using assms(1) schedule_order_set by blast
  then show ?thesis using assms(2) by (auto simp: pick_runnable_def find_None_iff split: option.split)
qed

text \<open>
  C17. The scheduler is fair. Follow the states in which it chooses, one after the other: between two
  choices anything may happen, except that the list of tasks stays and the cursor stays where the
  last choice put it. A task that is runnable all the time is chosen within as many choices as there
  are tasks.
\<close>

theorem scheduler_fair:
  assumes "distinct l" and b: "b \<in> set l"
    and lists: "\<forall>i. k_list (ks i) = l" and run: "\<forall>i. runnable (ks i) b"
    and cursor: "\<forall>i. k_cursor (ks (Suc i)) = k_cursor (snd (pick_runnable (ks i)))"
  shows "\<exists>i < length l. fst (pick_runnable (ks i)) = Some b"
proof -
  have soon: "\<exists>j \<le> turns_before l (k_cursor (ks i)) b. fst (pick_runnable (ks (i + j))) = Some b" for i
  proof (induction "turns_before l (k_cursor (ks i)) b" arbitrary: i rule: less_induct)
    case less
    obtain c k' where c: "pick_runnable (ks i) = (Some c, k')"
      using picks_runnable [of b "ks i"] b lists run by (metis option.exhaust prod.collapse)
    show ?case
    proof (cases "c = b")
      case True
      then show ?thesis using c by (intro exI [of _ 0]) simp
    next
      case False
      have "turns_before l (Some c) b < turns_before l (k_cursor (ks i)) b"
        using pick_progress [of "ks i" b c k'] assms(1) b lists run c False by simp
      moreover have "k_cursor (ks (Suc i)) = Some c" using cursor c by (auto simp: pick_runnable_def split: option.splits)
      ultimately obtain j where "j \<le> turns_before l (Some c) b" "fst (pick_runnable (ks (Suc i + j))) = Some b"
        using less.hyps [of "Suc i"] by auto
      then show ?thesis
        using \<open>turns_before l (Some c) b < _\<close> by (intro exI [of _ "Suc j"]) simp
    qed
  qed
  have "turns_before l (k_cursor (ks 0)) b < length l"
  proof -
    have "b \<in> set (schedule_order l (k_cursor (ks 0)))" using b schedule_order_set by blast
    then obtain pre post where o': "schedule_order l (k_cursor (ks 0)) = pre @ b # post" "b \<notin> set pre" by (meson split_list_first)
    moreover have "length (schedule_order l (k_cursor (ks 0))) = length l" using schedule_order_rotation [of l "k_cursor (ks 0)"] by auto
    ultimately show ?thesis by (simp add: turns_before_def takeWhile_first [OF o'(2)])
  qed
  then show ?thesis using soon [of 0] by (metis add_0 le_less_trans)
qed

text \<open>Two runnable tasks take turns.\<close>

definition two_tasks :: "nat \<Rightarrow> cb_kernel" where
  "two_tasks i =
     (kernel_new sample_host sample_console (\<lambda>_. True))
       \<lparr>k_list := [1, 2],
        k_tasks := (\<lambda>a. if a = 1 \<or> a = 2 then Some (task_new (int a) None
           \<lparr>i_program = None, i_argv = [], i_owned_argv = [], i_argc = 0, i_environment = [], i_node = None\<rparr> None) else None),
        k_cursor := (if i = 0 then None else Some (if odd i then 1 else 2))\<rparr>"

lemma two_tasks_facts: "runnable (two_tasks i) 1" "runnable (two_tasks i) 2" "k_list (two_tasks i) = [1, 2]"
  "pick_runnable (two_tasks i) = (Some (if odd i then 2 else 1), (two_tasks i)\<lparr>k_cursor := Some (if odd i then 2 else 1)\<rparr>)"
proof -
  show r: "runnable (two_tasks i) 1" "runnable (two_tasks i) 2" and l: "k_list (two_tasks i) = [1, 2]"
    by (simp_all add: two_tasks_def runnable_def task_is_def task_new_def)
  have "k_cursor (two_tasks i) = (if i = 0 then None else Some (if odd i then 1 else 2))" by (simp add: two_tasks_def)
  then show "pick_runnable (two_tasks i) = (Some (if odd i then 2 else 1), (two_tasks i)\<lparr>k_cursor := Some (if odd i then 2 else 1)\<rparr>)"
    using r l by (cases "i = 0") (auto simp: pick_runnable_def schedule_order_def)
qed

theorem scheduler_fair_witness: "\<exists>i < 2. fst (pick_runnable (two_tasks i)) = Some 2"
proof -
  have "\<forall>i. k_cursor (two_tasks (Suc i)) = k_cursor (snd (pick_runnable (two_tasks i)))"
    by (simp add: two_tasks_facts) (simp add: two_tasks_def)
  then have "\<exists>i < length [1 :: addr, 2]. fst (pick_runnable (two_tasks i)) = Some 2"
    by (intro scheduler_fair) (simp_all add: two_tasks_facts)
  then show ?thesis by (simp add: numeral_2_eq_2)
qed

section \<open>Timeouts\<close>

text \<open>What \<open>poll_timeout_loop\<close> has seen: its bound so far is -1 or positive and at most every deadline.\<close>

definition waits_until :: "nat \<Rightarrow> cb_task \<Rightarrow> int \<Rightarrow> bool" where
  "waits_until now t left \<longleftrightarrow> t_state t = CB_TASK_BLOCKED_POLL \<and> t_wake_timeout t > 0 \<and>
     left = t_wake_timeout t - int (sub64 now (t_wake_start t))"

definition timeout_fits :: "nat \<Rightarrow> cb_task list \<Rightarrow> int \<Rightarrow> int \<Rightarrow> bool" where
  "timeout_fits now ts least r \<longleftrightarrow>
     (r = 0 \<and> (\<exists>t\<in>set ts. \<exists>left\<le>0. waits_until now t left)) \<or>
     (r > 0 \<and> (least > 0 \<longrightarrow> r \<le> least) \<and> (\<forall>t\<in>set ts. \<forall>left. waits_until now t left \<longrightarrow> r \<le> left) \<and>
        (r = least \<or> (\<exists>t\<in>set ts. waits_until now t r))) \<or>
     (r = -1 \<and> least = -1 \<and> (\<forall>t\<in>set ts. \<forall>left. \<not> waits_until now t left))"

lemma timeout_fits_skip:
  "timeout_fits now ts least r \<Longrightarrow> (\<And>left. \<not> waits_until now t left) \<Longrightarrow> timeout_fits now (t # ts) least r"
  by (simp add: timeout_fits_def)

lemma timeout_fits_take:
  assumes "timeout_fits now ts l r" "l > 0" "\<And>x. waits_until now t x \<longleftrightarrow> x = left" "left > 0"
    "l = (if least < 0 \<or> left < least then left else least)" "least = -1 \<or> least > 0"
  shows "timeout_fits now (t # ts) least r"
  using assms(1) [unfolded timeout_fits_def]
proof (elim disjE)
  assume "r = 0 \<and> (\<exists>t\<in>set ts. \<exists>left\<le>0. waits_until now t left)"
  then show "timeout_fits now (t # ts) least r" by (auto simp: timeout_fits_def)
next
  assume r: "r > 0 \<and> (l > 0 \<longrightarrow> r \<le> l) \<and> (\<forall>t\<in>set ts. \<forall>left. waits_until now t left \<longrightarrow> r \<le> left) \<and>
      (r = l \<or> (\<exists>t\<in>set ts. waits_until now t r))"
  have le: "r \<le> left" "least > 0 \<longrightarrow> r \<le> least" using r assms(2,5) by (auto split: if_splits)
  have "r = least \<or> r = left \<or> (\<exists>t\<in>set ts. waits_until now t r)" using r assms(5) by (auto split: if_splits)
  then show "timeout_fits now (t # ts) least r" using r le assms(3) by (auto simp: timeout_fits_def)
next
  assume "r = -1 \<and> l = -1 \<and> (\<forall>t\<in>set ts. \<forall>left. \<not> waits_until now t left)"
  then show "timeout_fits now (t # ts) least r" using assms(2) by simp
qed

lemma poll_timeout_loop_fits:
  assumes "now \<noteq> 0" "least = -1 \<or> least > 0" "\<not> has_poll \<longrightarrow> least = -1"
  shows "timeout_fits now ts least (poll_timeout_loop now ts least has_poll)"
  using assms(2,3)
proof (induction ts arbitrary: least has_poll)
  case Nil
  then show ?case by (auto simp: timeout_fits_def)
next
  case (Cons t ts)
  show ?case
  proof (cases "t_state t = CB_TASK_BLOCKED_POLL \<and> t_wake_timeout t > 0")
    case False
    then have no: "\<not> waits_until now t left" for left by (auto simp: waits_until_def)
    have "poll_timeout_loop now (t # ts) least has_poll = poll_timeout_loop now ts least True \<or>
        poll_timeout_loop now (t # ts) least has_poll = poll_timeout_loop now ts least has_poll" using False by auto
    then show ?thesis using timeout_fits_skip [OF Cons.IH no] Cons.prems by metis
  next
    case True
    define left where "left = t_wake_timeout t - int (sub64 now (t_wake_start t))"
    have w: "waits_until now t l \<longleftrightarrow> l = left" for l using True by (auto simp: waits_until_def left_def)
    show ?thesis
    proof (cases "left \<le> 0")
      case True
      then have "sub64 now (t_wake_start t) \<ge> nat (t_wake_timeout t)" by (simp add: left_def)
      then have "poll_timeout_loop now (t # ts) least has_poll = 0" using \<open>t_state t = _ \<and> _\<close> assms(1) by simp
      then show ?thesis using w True by (auto simp: timeout_fits_def)
    next
      case False
      define l where "l = (if least < 0 \<or> left < least then left else least)"
      have "\<not> nat (t_wake_timeout t) \<le> sub64 now (t_wake_start t)" using False by (simp add: left_def)
      then have "poll_timeout_loop now (t # ts) least has_poll = poll_timeout_loop now ts l True"
        using \<open>t_state t = _ \<and> _\<close> assms(1) by (simp add: left_def l_def Let_def)
      moreover have "l > 0" using False Cons.prems by (auto simp: l_def)
      ultimately show ?thesis
        using timeout_fits_take [OF Cons.IH [of l True] _ w _ l_def] False Cons.prems by simp
    qed
  qed
qed

text \<open>
  C18. The scheduler never sleeps past a deadline. With the clock working, the timeout that
  \<^verbatim>\<open>get_poll_timeout\<close> hands to the host is 0 exactly when some task waiting in poll has run out of time,
  otherwise the smallest time that is left to any of them, and -1 (no limit) exactly when no waiting
  task has a deadline. Elapsed time is computed modulo \<open>2 ^ 64\<close>.
\<close>

theorem get_poll_timeout_exact:
  assumes "monotonic_millis (k_host k) = (now, h)" "now \<noteq> 0" "get_poll_timeout k = (r, k')"
  shows "(r = 0 \<longleftrightarrow> (\<exists>t\<in>set (listed_tasks k). \<exists>left\<le>0. waits_until now t left)) \<and>
    (r = -1 \<longleftrightarrow> (\<forall>t\<in>set (listed_tasks k). \<forall>left. \<not> waits_until now t left)) \<and>
    (r > 0 \<longrightarrow> (\<exists>t\<in>set (listed_tasks k). waits_until now t r) \<and>
       (\<forall>t\<in>set (listed_tasks k). \<forall>left. waits_until now t left \<longrightarrow> r \<le> left)) \<and> r \<ge> -1"
proof -
  have "timeout_fits now (listed_tasks k) (-1) r"
    using poll_timeout_loop_fits [of now "-1" False "listed_tasks k"] assms by (simp add: get_poll_timeout_def)
  then show ?thesis unfolding timeout_fits_def by fastforce
qed

text \<open>A task that has waited 40 of its 50 milliseconds, across the wrap-around of the clock.\<close>

definition waiting_kernel :: cb_kernel where
  "waiting_kernel =
     (set_host (two_tasks 0) (sample_host\<lparr>monotonic := (\<lambda>_. 30)\<rparr>))\<lparr>
        k_tasks := (\<lambda>a. case k_tasks (two_tasks 0) a of
           None \<Rightarrow> None
         | Some t \<Rightarrow> Some (if a = 1 then t else
             t\<lparr>t_state := CB_TASK_BLOCKED_POLL, t_wake_start := 2 ^ 64 - 10, t_wake_timeout := 50\<rparr>))\<rparr>"

theorem get_poll_timeout_exact_witness:
  "fst (get_poll_timeout waiting_kernel) = 10 \<and> (\<exists>t\<in>set (listed_tasks waiting_kernel). waits_until 30 t 10)"
proof -
  obtain h where m: "monotonic_millis (k_host waiting_kernel) = (30, h)"
    by (simp add: waiting_kernel_def monotonic_millis_def)
  have "\<exists>t1 t2. listed_tasks waiting_kernel = [t1, t2] \<and> t_state t1 = CB_TASK_RUNNABLE \<and>
      t_state t2 = CB_TASK_BLOCKED_POLL \<and> t_wake_start t2 = 2 ^ 64 - 10 \<and> t_wake_timeout t2 = 50"
    by (simp add: listed_tasks_def waiting_kernel_def two_tasks_def List.map_filter_simps task_new_def)
  then have r: "fst (get_poll_timeout waiting_kernel) = 10"
    by (auto simp: get_poll_timeout_def m sub64_def)
  then obtain k' where g: "get_poll_timeout waiting_kernel = (10, k')" by (metis prod.collapse)
  show ?thesis using get_poll_timeout_exact [OF m _ g] r by simp
qed

end
