(* ===== verification/Kernel_Frame.thy ===== *)
theory Kernel_Frame
  imports Kernel_Safety
begin

text \<open>
  What a call leaves alone. A task sees of the calls of the others at most that it is woken up; and
  most calls leave the caller's own descriptors as they are. Both are instances of one argument, a
  relation on the state of a fixed task that every step of a call respects.
\<close>

section \<open>Frames\<close>

definition unfinished :: "cb_task \<Rightarrow> bool" where
  "unfinished t \<longleftrightarrow> t_state t \<noteq> CB_TASK_ZOMBIE \<and> t_state t \<noteq> CB_TASK_DEAD"

definition frames :: "addr \<Rightarrow> (cb_task \<Rightarrow> cb_task \<Rightarrow> bool) \<Rightarrow> cb_kernel \<Rightarrow> cb_kernel \<Rightarrow> bool" where
  "frames b R k k' \<longleftrightarrow> (\<forall>t. k_tasks k b = Some t \<longrightarrow> unfinished t \<longrightarrow> (\<exists>t'. k_tasks k' b = Some t' \<and> unfinished t' \<and> R t t'))"

lemma wakes_unfinished: "wakes g \<Longrightarrow> unfinished t \<Longrightarrow> unfinished (g t)"
  unfolding wakes_def by (drule spec [of _ t]) (auto simp: unfinished_def)

lemma retain_seq: "seq (cb_vfs_node_retain k n) = seq k"
  by (simp add: cb_vfs_node_retain_def ramfs_node_retain_def fault_def split: option.split)

lemma task_create_address: "task_create k parent program argv envp actions = (Some c, k') \<Longrightarrow> c = seq k"
  by (auto simp: task_create_def task_start_def Let_def cb_allocate_def split: option.splits prod.splits if_splits)

text \<open>The calls that may not change the descriptors of the caller.\<close>

fun quiet_call :: "call \<Rightarrow> bool" where
  "quiet_call (C_exit status) \<longleftrightarrow> False"
| "quiet_call (C_open path flags mode) \<longleftrightarrow> False"
| "quiet_call (C_close d) \<longleftrightarrow> False"
| "quiet_call (C_dup d) \<longleftrightarrow> False"
| "quiet_call (C_dup2 old new) \<longleftrightarrow> False"
| "quiet_call (C_set_cloexec d e) \<longleftrightarrow> False"
| "quiet_call (C_pipe null) \<longleftrightarrow> False"
| "quiet_call _ \<longleftrightarrow> True"

text \<open>
  \<open>b\<close> is the task that is watched and \<open>a\<close> the caller. When they are the same, a step may change
  anything but the descriptors.
\<close>

locale task_frame =
  fixes b :: addr and a :: addr and R :: "cb_task \<Rightarrow> cb_task \<Rightarrow> bool"
  assumes R_refl: "R t t"
    and R_trans: "R t t1 \<Longrightarrow> R t1 t2 \<Longrightarrow> R t t2"
    and R_wakes: "wakes g \<Longrightarrow> R t (g t)"
    and R_caller: "a = b \<Longrightarrow> t_descriptors t' = t_descriptors t \<Longrightarrow> R t t'"
begin

abbreviation fr :: "cb_kernel \<Rightarrow> cb_kernel \<Rightarrow> bool" where
  "fr \<equiv> frames b R"

lemma fr_refl [simp]: "fr k k"
  by (simp add: frames_def R_refl)

lemma fr_trans: "fr k k1 \<Longrightarrow> fr k1 k2 \<Longrightarrow> fr k k2"
  unfolding frames_def by (meson R_trans)

lemma fr_same: "fr k k1 \<Longrightarrow> k_tasks k2 = k_tasks k1 \<Longrightarrow> fr k k2"
  by (simp add: frames_def)

lemma fr_fields [simp, intro]:
  assumes "fr k k1"
  shows "fr k (fault k1)" "fr k (k1\<lparr>k_vfs := v\<rparr>)" "fr k (k1\<lparr>k_files := fs\<rparr>)" "fr k (k1\<lparr>k_pipes := ps\<rparr>)"
    "fr k (k1\<lparr>k_console := c\<rparr>)" "fr k (k1\<lparr>k_current := cur\<rparr>)" "fr k (k1\<lparr>k_list := l\<rparr>)"
    "fr k (k1\<lparr>k_vfs := v, k_files := fs\<rparr>)" "fr k (k1\<lparr>k_list := l, k_cursor := z\<rparr>)" "fr k (k1\<lparr>k_next_pid := i\<rparr>)"
    "fr k (k1\<lparr>k_vfs := v, k_next_pid := i\<rparr>)" "fr k (k1\<lparr>k_vfs := v, k_pipes := ps\<rparr>)"
    "fr k (k1\<lparr>k_boot_finished := x, k_boot_status := i\<rparr>)"
  using assms by (simp_all add: frames_def fault_def)

lemma fr_upd_other: "fr k k1 \<Longrightarrow> c \<noteq> b \<Longrightarrow> fr k (upd_task k1 c g)"
  by (auto simp: frames_def upd_task_def fault_def split: option.split)

text \<open>A change of the caller.\<close>

lemma fr_upd:
  assumes "fr k k1" "\<And>t. a = b \<Longrightarrow> unfinished t \<Longrightarrow> unfinished (g t) \<and> t_descriptors (g t) = t_descriptors t"
  shows "fr k (upd_task k1 a g)"
proof (cases "a = b")
  case True
  have "fr k1 (upd_task k1 a g)"
    using assms(2) [OF True] R_caller [OF True] True by (auto simp: frames_def upd_task_def fault_def R_refl split: option.split)
  then show ?thesis using fr_trans [OF assms(1)] by blast
qed (rule fr_upd_other [OF assms(1)])

lemma fr_error [simp, intro]: "fr k k1 \<Longrightarrow> fr k (cb_task_set_error k1 a e)"
  unfolding cb_task_set_error_def by (rule fr_upd) (simp_all add: unfinished_def)

lemma fr_yield [simp, intro]:
  "fr k k1 \<Longrightarrow> s \<noteq> CB_TASK_ZOMBIE \<Longrightarrow> s \<noteq> CB_TASK_DEAD \<Longrightarrow> fr k (cb_task_yield_as k1 a s where_to)"
  unfolding cb_task_yield_as_def by (rule fr_fields(6), rule fr_upd) (simp_all add: unfinished_def)

lemma fr_for_tasks: "fr k k1 \<Longrightarrow> wakes g \<Longrightarrow> fr k (for_tasks g k1)"
proof (rule fr_trans, assumption)
  assume "wakes g"
  then show "fr k1 (for_tasks g k1)"
    using wakes_unfinished R_wakes R_refl by (auto simp: frames_def for_tasks_def)
qed

lemma fr_wakes [simp, intro]:
  assumes "fr k k1" shows "fr k (cb_wake_pipe_tasks k1)" "fr k (wake_console_waiters k1)"
  using fr_for_tasks [OF assms] by (simp_all add: cb_wake_pipe_tasks_def wake_console_waiters_def)

lemma fr_nodes [simp, intro]:
  assumes "fr k k1" shows "fr k (cb_vfs_node_retain k1 n)" "fr k (cb_vfs_node_release k1 n)"
  using assms by (simp_all add: cb_vfs_node_retain_def cb_vfs_node_release_def split: option.split)

lemma fr_last_close [simp, intro]: "fr k k1 \<Longrightarrow> fr k (last_close k1 ops)"
  by (cases ops) (simp_all add: node_last_close_def pipe_read_close_def pipe_write_close_def pipe_settle_def Let_def split: option.split)

lemma fr_files [simp, intro]:
  assumes "fr k k1" shows "fr k (cb_open_file_retain k1 f)" "fr k (cb_open_file_release k1 fo)" "fr k (snd (cb_open_file_create k1 ops flags))"
  using assms by (simp_all add: cb_open_file_retain_def cb_open_file_release_def cb_open_file_create_def Let_def split: option.split prod.split)

lemma fr_create: "fr k k1 \<Longrightarrow> cb_open_file_create k1 ops flags = (r, k2) \<Longrightarrow> fr k k2"
  using fr_files(3) by (metis snd_conv)

section \<open>Calls that leave the descriptors alone\<close>

lemma fr_console [simp, intro]:
  assumes "fr k k1" shows "fr k (snd (console_read k1 a n))" "fr k (snd (console_write k1 a s buf))"
  using assms by (auto simp: console_read_def console_write_def Let_def split: prod.split)

lemma fr_pipes [simp, intro]:
  assumes "fr k k1" shows "fr k (snd (pipe_read k1 a f p n))" "fr k (snd (pipe_write k1 a f p src tot))"
  using assms by (auto simp: pipe_read_def pipe_write_def pipe_stored_def split: option.split read_outcome.split write_outcome.split)

lemma fr_read_write [simp, intro]:
  "fr k (snd (file_read k a f file e n))" "fr k (snd (file_write k a f file e buf))"
  by (auto simp: file_read_def file_write_def store_io_def Let_def split: file_ops.split prod.split)

lemma fr_on_file: "(\<And>f file e. fr k (snd (body f file e))) \<Longrightarrow> fr k (snd (on_file k a d ok bad body))"
  by (auto simp: on_file_def split: option.split)

lemma fr_on_file_k: "(\<And>f file e. fr k (snd (body f file e))) \<Longrightarrow> on_file k a d ok bad body = (r, k') \<Longrightarrow> fr k k'"
  using fr_on_file by (metis snd_conv)

lemma fr_descriptor_calls:
  "fr k (snd (api_read k a d null n))" "fr k (snd (api_write k a d buf n))" "fr k (snd (api_lseek k a d off wh))"
  "fr k (snd (api_ftruncate k a d len))" "fr k (snd (api_fstat k a d null))"
  unfolding api_read_def api_write_def api_lseek_def api_ftruncate_def api_fstat_def
  by (rule fr_on_file; simp add: node_truncate_def no_truncate_def no_seek_def split: file_ops.split prod.split option.split sum.split)+

lemma fr_terminal_calls:
  "fr k (snd (api_isatty k a d))" "fr k (snd (terminal_attributes_unavailable k a d null))"
  by (auto simp: api_isatty_def terminal_attributes_unavailable_def terminal_for_descriptor_def split: option.split prod.split bool.split)

lemma fr_path_call: "fr k (snd (path_call k a f))"
  by (auto simp: path_call_def split: option.split prod.split)

lemma fr_path_calls:
  "fr k (snd (api_truncate k a p len))" "fr k (snd (api_mkdir k a p m))" "fr k (snd (api_unlink k a p))"
  "fr k (snd (api_rmdir k a p))" "fr k (snd (api_rename k a p q))" "fr k (snd (api_stat k a p null))"
  "fr k (snd (api_getcwd k a null n))"
  by (simp_all add: api_truncate_def api_mkdir_def api_unlink_def api_rmdir_def api_rename_def fr_path_call api_stat_def
      api_getcwd_def split: option.split sum.split)

lemma fr_chdir: "fr k (snd (api_chdir k a p))"
  by (auto simp: api_chdir_def unfinished_def split: option.split prod.split sum.split intro!: fr_error fr_upd)

lemma fr_set_dir [simp, intro]: "fr k k1 \<Longrightarrow> fr k (set_dir k1 a i h)"
  unfolding set_dir_def by (rule fr_upd) (simp_all add: unfinished_def)

lemma fr_directory_calls:
  "fr k (snd (api_opendir k a p))" "fr k (snd (api_readdir k a d null n))" "fr k (snd (api_closedir k a d))"
  by (auto simp: api_opendir_def api_readdir_def api_closedir_def Let_def split: option.split prod.split sum.split)

lemma fr_environment_calls:
  "fr k (snd (api_getenv k a s))" "fr k (snd (api_setenv k a s v over))" "fr k (snd (api_unsetenv k a s))"
proof -
  have e: "fr k k1 \<Longrightarrow> fr k (set_environment k1 a env)" for k1 env
    unfolding set_environment_def by (rule fr_upd) (simp_all add: unfinished_def)
  show "fr k (snd (api_getenv k a s))" "fr k (snd (api_setenv k a s v over))" "fr k (snd (api_unsetenv k a s))"
    by (auto simp: api_getenv_def api_setenv_def api_unsetenv_def Let_def split: option.split prod.split bool.split intro!: e)
qed

lemma fr_ledger_calls:
  "fr k (snd (api_allocate k a n))" "fr k (snd (api_resize k a p n))" "fr k (snd (api_release k a p))"
proof -
  have l: "fr k k1 \<Longrightarrow> fr k (set_ledger k1 a es)" for k1 es
    unfolding set_ledger_def by (rule fr_upd) (simp_all add: unfinished_def)
  show al: "fr k (snd (api_allocate k a n))" by (auto simp: api_allocate_def Let_def split: option.split prod.split intro!: l)
  show "fr k (snd (api_resize k a p n))" "fr k (snd (api_release k a p))"
    by (auto simp: api_resize_def api_release_def al split: option.split prod.split intro!: l)
qed

lemma fr_poll_all: "fr k k1 \<Longrightarrow> fr k (snd (poll_all k1 t ps))"
proof (induction ps arbitrary: k1)
  case (Cons p ps)
  have "fr k (snd (poll_one k1 t p))"
    using Cons.prems by (auto simp: poll_one_def file_poll_def console_input_poll_def Let_def split: option.split prod.split file_ops.split)
  then show ?case using Cons.IH [of "snd (poll_one k1 t p)"] by (auto simp: Let_def split: prod.split)
qed simp

lemma fr_poll_round:
  assumes "fr k k1" shows "fr k (snd (poll_round k1 a fds))"
proof (cases "k_tasks k1 a")
  case (Some t)
  obtain fds' k2 where p: "poll_all k1 t fds = (fds', k2)" by fastforce
  have "fr k k2" using fr_poll_all [OF assms, of t fds] p by simp
  then show ?thesis using Some p by (auto simp: poll_round_def Let_def split: prod.split)
qed (use assms in \<open>simp add: poll_round_def\<close>)

lemma fr_poll: "fr k (snd (api_poll k a fds n timeout))"
proof -
  have u: "fr k k1 \<Longrightarrow> fr k (upd_task k1 a (\<lambda>t. t\<lparr>t_wake_start := i\<rparr>))"
    "fr k k1 \<Longrightarrow> fr k (upd_task k1 a (\<lambda>t. t\<lparr>t_wake_timeout := j\<rparr>))" for k1 i j
    by (rule fr_upd; simp add: unfinished_def)+
  show ?thesis by (auto simp: api_poll_def Let_def split: prod.split intro!: fr_poll_round u)
qed

section \<open>Calls that work on another task\<close>

lemma fr_other_fd:
  assumes "c \<noteq> b" "fr k k1"
  shows "fr k (set_fd k1 c d f cl)" "fr k (cb_task_set_error k1 c e)" "fr k (snd (fd_close k1 c d))"
    "fr k (snd (fd_install_at k1 c f' d retain))"
  using assms
  by (auto simp: set_fd_def cb_task_set_error_def fr_upd_other fd_close_def fd_install_at_def Let_def split: option.split)

lemma fr_fold: "(\<And>i k1. fr k k1 \<Longrightarrow> fr k (g i k1)) \<Longrightarrow> fr k k1 \<Longrightarrow> fr k (fold g is k1)"
  by (induction "is" arbitrary: k1) simp_all

lemma fr_other_close:
  assumes "c \<noteq> b" "fr k k1"
  shows "fr k (close_where P k1 c)" "fr k (dir_close_all k1 c)" "fr k (task_release_allocations k1 c)"
proof -
  show "fr k (close_where P k1 c)" "fr k (dir_close_all k1 c)"
    unfolding close_where_def dir_close_all_def
    by (rule fr_fold; auto simp: close_if_def dir_close_one_def Let_def assms fr_other_fd fr_upd_other split: option.split)+
  show "fr k (task_release_allocations k1 c)" unfolding task_release_allocations_def by (intro fr_upd_other assms)
qed

lemma fr_delete: "c \<noteq> b \<Longrightarrow> fr k k1 \<Longrightarrow> fr k (k2\<lparr>k_tasks := (k_tasks k1)(c := None)\<rparr>)"
  by (simp add: frames_def)

lemma fr_insert: "c \<noteq> b \<Longrightarrow> fr k k1 \<Longrightarrow> fr k (k1\<lparr>k_tasks := (k_tasks k1)(c \<mapsto> t)\<rparr>)"
  by (simp add: frames_def)

lemma fr_destroy: "c \<noteq> b \<Longrightarrow> fr k k1 \<Longrightarrow> fr k (task_destroy k1 c)"
  by (auto simp: task_destroy_def Let_def fd_close_all_def split: option.split intro!: fr_delete fr_other_close)

lemma fr_waitpid_here: "fr k (snd (api_waitpid k a pid))"
proof (cases "k_tasks k b")
  case None
  then show ?thesis by (simp add: frames_def)
next
  case (Some t)
  show ?thesis
  proof (cases "unfinished t")
    case False
    then show ?thesis using Some by (simp add: frames_def)
  next
    case True
    have reap: "fr k (reap k c)" if "List.find (task_is (\<lambda>t. child_of x y t \<and> t_state t = CB_TASK_ZOMBIE) k) l = Some c" for c x y l
    proof -
      have "c \<noteq> b" using that Some True by (auto simp: find_Some_iff task_is_def unfinished_def split: option.splits)
      then show ?thesis unfolding reap_def by (intro fr_destroy fr_upd_other fr_fields fr_refl)
    qed
    have "fr k (upd_task k a (\<lambda>t. t\<lparr>t_waiting_for := pid\<rparr>))" by (rule fr_upd) (simp_all add: unfinished_def)
    then show ?thesis
      by (auto simp: api_waitpid_def find_waitable_child_def reap split: option.split prod.split)
  qed
qed

lemma fr_waitpid: "fr k k1 \<Longrightarrow> fr k (snd (api_waitpid k1 a pid))"
  using fr_trans [OF _ fr_waitpid_here] .

lemma fr_apply_actions: "c \<noteq> b \<Longrightarrow> fr k k1 \<Longrightarrow> fr k (snd (task_apply_actions k1 c acts))"
proof (induction acts arbitrary: k1)
  case (Cons act acts)
  then show ?case by (auto simp: Let_def fr_other_fd split: option.split)
qed simp

lemma fr_retain_descriptors: "fr k k1 \<Longrightarrow> fr k (retain_descriptors k1 es)"
  unfolding retain_descriptors_def by (rule fr_fold) (simp split: option.split)

lemma fr_task_start:
  assumes "c \<noteq> b" "fr k k1" shows "fr k (snd (task_start k1 c t p acts))"
proof -
  have ab: "fr k k2 \<Longrightarrow> fr k (task_abandon k2 c)" for k2
    using assms(1) by (auto simp: task_abandon_def Let_def fd_close_all_def split: option.split intro!: fr_delete fr_other_close)
  let ?k3 = "retain_descriptors (cb_vfs_node_retain (cb_vfs_node_retain (k1\<lparr>k_tasks := (k_tasks k1)(c \<mapsto> t)\<rparr>) (t_root t)) (t_cwd t)) (t_descriptors t)"
  obtain r k4 where r: "task_apply_actions ?k3 c acts = (r, k4)" by fastforce
  have "fr k ?k3" by (intro fr_retain_descriptors fr_nodes fr_insert assms)
  then have k4: "fr k k4" using fr_apply_actions [OF assms(1), of k ?k3 acts] r by simp
  obtain e k5 where e: "cb_executor_instance_create k4 p = (e, k5)" by fastforce
  have k5: "fr k k5" using instance_create_host [OF e] k4 by auto
  show ?thesis using r e ab k4 k5 assms(1) by (auto simp: task_start_def Let_def fr_upd_other split: option.split)
qed

lemma fr_task_create:
  assumes "kinv k x y" "fr k k1" "k_tasks k1 = k_tasks k" "seq k1 = seq k"
  shows "fr k (snd (task_create k1 parent program argv envp actions))"
proof (cases "k_tasks k b")
  case None
  then show ?thesis by (simp add: frames_def)
next
  case (Some t)
  have ne: "c \<noteq> b" if "cb_allocate (k_host k1) = (Some c, h)" for c h
    using that Some fresh_stores(3) [OF assms(1), of "seq k"] assms(4) by (auto simp: cb_allocate_def split: if_splits)
  show ?thesis
    using assms(2) by (auto simp: task_create_def Let_def split: option.split prod.split intro!: fr_task_start dest: ne)
qed

lemma fr_spawn:
  assumes "kinv k x y" shows "fr k (snd (api_spawn k a name argv envp actions bad))"
proof -
  have "fr k (snd (task_create (cb_vfs_node_retain k n) parent program args envp actions))" for n parent program args
    by (rule fr_task_create [OF assms]) (simp_all add: retain_seq)
  then have tc: "task_create (cb_vfs_node_retain k n) parent program args envp actions = (r, k1) \<Longrightarrow> fr k k1" for n parent program args r k1
    by (metis snd_conv)
  have im: "fr k (set_image_node k1 child n)"
    if "task_create (cb_vfs_node_retain k n') (Some a) program args envp actions = (Some child, k1)" for k1 child n n' program args
  proof (cases "child = b")
    case False
    then show ?thesis using tc [OF that] by (simp add: set_image_node_def fr_upd_other)
  next
    case True
    have "child = seq k" using task_create_address [OF that] retain_seq by simp
    then have "k_tasks k b = None" using fresh_stores(3) [OF assms, of child] True by simp
    then show ?thesis by (simp add: frames_def)
  qed
  show ?thesis
    by (auto simp: api_spawn_def tc im split: option.split sum.split prod.split)
qed

lemma fr_exec: "fr k (snd (api_exec k a name argv envp))"
proof -
  have "fr k k1 \<Longrightarrow> fr k (upd_task k1 a (\<lambda>t. t\<lparr>t_pending := im\<rparr>))" for k1 im
    by (rule fr_upd) (simp_all add: unfinished_def)
  then show ?thesis by (auto simp: api_exec_def Let_def split: option.split sum.split prod.split)
qed

lemma fr_quiet_call:
  assumes "kinv k x y" "quiet_call c" shows "fr k (snd (do_call k a c))"
  using assms(2)
  by (cases c) (simp_all add: task_value_def fr_spawn [OF assms(1)] fr_exec fr_waitpid fr_descriptor_calls fr_path_calls fr_chdir
      fr_environment_calls fr_ledger_calls fr_terminal_calls fr_directory_calls fr_poll split: option.split)

lemma fr_continue: "fr k k1 \<Longrightarrow> fr k (snd (continue_call k1 a s))"
  by (cases s) (auto simp: continue_read_def continue_write_def fr_waitpid fr_poll_round split: option.split file_ops.split)

text \<open>The others, for another caller.\<close>

lemma fr_install: "a \<noteq> b \<Longrightarrow> fr k k1 \<Longrightarrow> fr k (snd (fd_install k1 a f m))"
  by (auto simp: fd_install_def fr_other_fd split: option.split)

lemma fr_other_descriptor_calls:
  assumes "a \<noteq> b"
  shows "fr k (snd (api_close k a d))" "fr k (snd (api_dup k a d))" "fr k (snd (api_dup2 k a d e))"
    "fr k (snd (api_set_cloexec k a d x))" "fr k (snd (api_open k a p fl m))"
proof -
  have i: "fd_install k1 a f m = (r, k2) \<Longrightarrow> fr k k1 \<Longrightarrow> fr k k2" for k1 f m r k2 using fr_install [OF assms] by (metis snd_conv)
  have c: "fd_close k1 a f = (r, k2) \<Longrightarrow> fr k k1 \<Longrightarrow> fr k k2" for k1 f r k2 using fr_other_fd(3) [OF assms] by (metis snd_conv)
  show "fr k (snd (api_close k a d))" by (auto simp: api_close_def split: prod.split dest!: c)
  show "fr k (snd (api_dup k a d))" by (auto simp: api_dup_def split: option.split prod.split dest!: i)
  show "fr k (snd (api_dup2 k a d e))" by (auto simp: api_dup2_def Let_def fr_other_fd [OF assms] split: option.split)
  show "fr k (snd (api_set_cloexec k a d x))" by (auto simp: api_set_cloexec_def fr_other_fd [OF assms] split: option.split)
  show "fr k (snd (api_open k a p fl m))" by (auto simp: api_open_def split: option.split prod.split sum.split dest!: i)
qed

lemma fr_other_pipe:
  assumes "a \<noteq> b" shows "fr k (snd (api_pipe k a null))"
proof -
  have i: "fd_install k1 a f m = (r, k2) \<Longrightarrow> fr k k1 \<Longrightarrow> fr k k2" for k1 f m r k2 using fr_install [OF assms] by (metis snd_conv)
  have c: "cb_open_file_create k1 ops fl = (r, k2) \<Longrightarrow> fr k k1 \<Longrightarrow> fr k k2" for k1 ops fl r k2 using fr_create by blast
  show ?thesis
    by (auto simp: api_pipe_def fr_other_fd(3) [OF assms] split: option.split prod.split dest!: i c)
qed

lemma fr_other_exit:
  assumes "a \<noteq> b" shows "fr k (api_exit k a status)"
proof -
  let ?k1 = "dir_close_all (fd_close_all (task_release_allocations k a) a) a"
  have 1: "fr k ?k1" unfolding fd_close_all_def by (intro fr_other_close assms fr_refl)
  have w: "fr k k1 \<Longrightarrow> fr k (wake_waiting_parent k1 t)" for k1 t
  proof -
    assume k1: "fr k k1"
    let ?g = "\<lambda>t. t\<lparr>t_wake_reason := CB_WAKE_CHILD_EXITED, t_state := CB_TASK_RUNNABLE\<rparr>"
    have "fr k1 (upd_task k1 c ?g)" if waiting: "task_is (\<lambda>u. waits_for u x y) k1 c" for c x y
    proof (cases "c = b")
      case True
      then obtain u where u: "k_tasks k1 b = Some u" "t_state u = CB_TASK_BLOCKED_WAIT" using waiting by (auto simp: task_is_def waits_for_def split: option.splits)
      have "wakes (\<lambda>u. if is_blocked (t_state u) then ?g u else u)" by (rule wakesI) auto
      from R_wakes [OF this, of u] show ?thesis using u True by (simp add: frames_def upd_task_def unfinished_def)
    qed (simp add: fr_upd_other)
    then show ?thesis
      using fr_trans [OF k1] k1 by (auto simp: wake_waiting_parent_def find_Some_iff split: option.split)
  qed
  show ?thesis
    using 1 assms by (auto simp: api_exit_def Let_def fr_upd_other split: option.split intro!: fr_fields w)
qed

lemma fr_other_call:
  assumes "kinv k x y" "a \<noteq> b" shows "fr k (snd (do_call k a c))"
proof (cases "quiet_call c")
  case True
  then show ?thesis by (rule fr_quiet_call [OF assms(1)])
next
  case False
  then show ?thesis
    using fr_other_descriptor_calls [OF assms(2)] fr_other_pipe [OF assms(2)] fr_other_exit [OF assms(2)] by (cases c) auto
qed

lemma fr_other_finish_exec:
  assumes "a \<noteq> b" shows "fr k (snd (task_finish_exec k a))"
proof -
  have c: "cb_executor_instance_create k1 p = (e, k2) \<Longrightarrow> fr k k1 \<Longrightarrow> fr k k2" for k1 p e k2 using instance_create_host by fastforce
  show ?thesis
    by (auto simp: task_finish_exec_def Let_def split: option.split prod.split intro!: fr_upd_other fr_other_close fr_nodes dest!: c
        simp: assms)
qed

lemma fr_other_dispatch:
  assumes "a \<noteq> b" shows "fr k (snd (dispatch k a))"
proof -
  have e: "fr k k1 \<Longrightarrow> fr k (api_exit k1 a s)" for k1 s using fr_trans [OF _ fr_other_exit [OF assms]] .
  show ?thesis
    using assms by (auto simp: dispatch_def resume_task_def cb_task_deliver_interrupt_def fr_upd_other e fr_continue split: option.split prod.split bool.split)
qed

end

end
