(* ===== verification/Kernel_Isolation.thy ===== *)
theory Kernel_Isolation
  imports Kernel_Frame Kernel_Life
begin

text \<open>
  Tasks are isolated from each other: the two uses of the frame argument, and the theorem that a
  suspended task only ever sees itself woken up.
\<close>

section \<open>The two frames\<close>

text \<open>What a task has of its own: everything but its state, its wake reason and a pending interrupt.\<close>

definition own_part :: "cb_task \<Rightarrow> cb_task" where
  "own_part t = t\<lparr>t_state := CB_TASK_RUNNABLE, t_wake_reason := CB_WAKE_NONE, t_interrupt_pending := False\<rparr>"

definition woken_only :: "cb_task \<Rightarrow> cb_task \<Rightarrow> bool" where
  "woken_only t t' \<longleftrightarrow> own_part t' = own_part t \<and>
     (t_state t' = t_state t \<or> is_blocked (t_state t) \<and> t_state t' = CB_TASK_RUNNABLE)"

definition same_files :: "cb_task \<Rightarrow> cb_task \<Rightarrow> bool" where
  "same_files t t' \<longleftrightarrow> map fd_file (t_descriptors t') = map fd_file (t_descriptors t)"

lemma woken_only_refl [simp]: "woken_only t t"
  by (simp add: woken_only_def)

lemma woken_only_trans: "woken_only t t1 \<Longrightarrow> woken_only t1 t2 \<Longrightarrow> woken_only t t2"
  by (auto simp: woken_only_def)

lemma woken_only_wakes: "wakes g \<Longrightarrow> woken_only t (g t)"
  unfolding wakes_def by (drule spec [of _ t]) (auto simp: woken_only_def own_part_def)

interpretation other: task_frame b a "\<lambda>t t'. a \<noteq> b \<longrightarrow> woken_only t t'" for a b
  by unfold_locales (use woken_only_trans woken_only_wakes in \<open>auto\<close>)

interpretation own: task_frame a a same_files for a
proof unfold_locales
  show "wakes g \<Longrightarrow> same_files t (g t)" for g t unfolding wakes_def by (drule spec [of _ t]) (auto simp: same_files_def)
qed (auto simp: same_files_def)

section \<open>Isolation\<close>

text \<open>The events in which task \<open>b\<close> itself runs or is replaced.\<close>

fun event_of :: "addr \<Rightarrow> kernel_event \<Rightarrow> bool" where
  "event_of b (Resume a) \<longleftrightarrow> a = b"
| "event_of b (Finish_exec a) \<longleftrightarrow> a = b"
| "event_of b _ \<longleftrightarrow> False"

lemma returns_current: "returns a out \<Longrightarrow> k_current (snd out) = Some a \<or> k_current (snd out) = None"
  by (cases out) (auto simp: returns_def good_def split: option.splits)

lemma frames_woken:
  "frames b (\<lambda>t t'. a \<noteq> b \<longrightarrow> woken_only t t') k k' \<Longrightarrow> a \<noteq> b \<Longrightarrow> frames b woken_only k k'"
  by (simp add: frames_def)

lemma interrupt_woken: "frames b woken_only k (snd (cb_kernel_request_interrupt k pid))"
  by (auto simp: cb_kernel_request_interrupt_def frames_def upd_task_def fault_def woken_only_def own_part_def unfinished_def
      split: option.split)

lemma set_interrupt_woken: "a \<noteq> b \<Longrightarrow> frames b woken_only k (snd (cb_task_set_interrupt k a d null))"
  by (auto simp: cb_task_set_interrupt_def frames_def upd_task_def fault_def split: option.split)

lemma for_tasks_woken: "wakes g \<Longrightarrow> frames b woken_only k (for_tasks g k)"
  using frames_woken [OF other.fr_for_tasks [OF other.fr_refl, of g b "Suc b" k]] by simp

lemma step_isolated:
  assumes inv: "kernel_inv k" and cur: "k_current k \<noteq> Some b" and e: "\<not> event_of b e"
  shows "frames b woken_only k (snd (kernel_step e k)) \<and> k_current (snd (kernel_step e k)) \<noteq> Some b"
proof (cases e)
  case (Call c)
  show ?thesis
  proof (cases "k_current k")
    case (Some a)
    then have ab: "a \<noteq> b" and g: "good k a zero zero" using cur kernel_inv_current [OF inv] by auto
    show ?thesis
      using frames_woken [OF other.fr_other_call [OF good_kinv [OF g] ab] ab] returns_current [OF do_call_ok [OF g, of c]] ab Call Some by auto
  qed (use Call in \<open>simp add: frames_def\<close>)
next
  case (Resume a)
  then have ab: "a \<noteq> b" using e by simp
  show ?thesis
  proof (cases "k_current k = None \<and> runnable k a")
    case True
    then have "returns a (dispatch k a)"
      using resume_ok [of k a] inv by (auto simp: kernel_inv_def runnable_def task_is_def split: option.splits)
    then show ?thesis using frames_woken [OF other.fr_other_dispatch [OF ab] ab] returns_current True Resume ab by fastforce
  qed (use Resume cur in \<open>auto simp: frames_def\<close>)
next
  case (Finish_exec a)
  then have ab: "a \<noteq> b" using e by simp
  show ?thesis
  proof (cases "k_current k = None \<and> task_is (\<lambda>t. t_state t = CB_TASK_EXEC_PENDING) k a \<and> fst (task_finish_exec k a)")
    case True
    then obtain k' where k': "task_finish_exec k a = (True, k')" by (metis prod.collapse)
    have "k_current k' = k_current k"
      using task_finish_exec_ok [of k a] True k' inv by (auto simp: kernel_inv_def task_is_def split: option.splits)
    then show ?thesis using frames_woken [OF other.fr_other_finish_exec [OF ab, of k] ab] True k' Finish_exec by simp
  qed (use Finish_exec cur in \<open>auto simp: frames_def\<close>)
next
  case (Interrupt pid)
  then show ?thesis using interrupt_woken cur by (auto simp: cb_kernel_request_interrupt_def fault_def split: option.split)
next
  case (Set_interrupt d null)
  have "k_current (snd (cb_task_set_interrupt k a d null)) = k_current k" for a
    by (simp add: cb_task_set_interrupt_def split: option.split)
  then show ?thesis using set_interrupt_woken cur Set_interrupt by (auto simp: frames_def split: option.split)
qed (use cur for_tasks_woken in \<open>auto simp: wake_console_waiters_def\<close>)

lemma run_isolated:
  assumes "kernel_inv k" "k_current k \<noteq> Some b" "list_all (\<lambda>e. \<not> event_of b e) es"
  shows "frames b woken_only k (snd (run_events kernel_step es k))"
  using assms
proof (induction es arbitrary: k)
  case (Cons e es)
  note s = step_isolated [OF Cons.prems(1,2), of e]
  have "frames b woken_only (snd (kernel_step e k)) (snd (run_events kernel_step es (snd (kernel_step e k))))"
    using Cons.IH [of "snd (kernel_step e k)"] kernel_machine.invar_step [OF Cons.prems(1)] s Cons.prems by simp
  then show ?case using s Cons.prems(3) woken_only_trans unfolding run_events_Cons frames_def by (metis list.pred_inject(2))
qed (simp add: frames_def)

text \<open>
  C3. Tasks are isolated. While a task is suspended, the other tasks may make any calls, start, replace
  and end programs, and the host may deliver any events: nothing of the suspended task changes, neither
  its descriptors nor its directories, working directory, environment, memory ledger, program image or
  pending call. All that can happen to it is that it is woken up (its state goes from blocked to
  runnable) and that an interrupt is left for it.
\<close>

theorem tasks_isolated:
  assumes "kernel_inv k" "k_current k \<noteq> Some b" "list_all (\<lambda>e. \<not> event_of b e) es"
    "k_tasks k b = Some t" "t_state t \<noteq> CB_TASK_ZOMBIE" "t_state t \<noteq> CB_TASK_DEAD"
  shows "\<exists>t'. k_tasks (snd (run_events kernel_step es k)) b = Some t' \<and>
    t'\<lparr>t_state := t_state t, t_wake_reason := t_wake_reason t, t_interrupt_pending := t_interrupt_pending t\<rparr> = t \<and>
    (t_state t' = t_state t \<or> is_blocked (t_state t) \<and> t_state t' = CB_TASK_RUNNABLE)"
proof -
  obtain t' where t': "k_tasks (snd (run_events kernel_step es k)) b = Some t'" "woken_only t t'"
    using run_isolated [OF assms(1-3)] assms(4-6) by (auto simp: frames_def unfinished_def)
  have "t'\<lparr>t_state := t_state t, t_wake_reason := t_wake_reason t, t_interrupt_pending := t_interrupt_pending t\<rparr> =
      (own_part t')\<lparr>t_state := t_state t, t_wake_reason := t_wake_reason t, t_interrupt_pending := t_interrupt_pending t\<rparr>"
    by (simp add: own_part_def)
  also have "\<dots> = t" using t'(2) by (simp add: woken_only_def own_part_def)
  finally show ?thesis using t' by (auto simp: woken_only_def)
qed

text \<open>Two tasks: the second one runs, changes its environment and ends, and the first one does not notice.\<close>

definition pair_kernel :: cb_kernel where
  "pair_kernel = snd (task_create sample_task_kernel None (Some 0) [''cat''] None [])"

lemma pair_kernel_inv: "kernel_inv pair_kernel" "k_current pair_kernel = None"
proof -
  obtain r k where r: "task_create sample_task_kernel None (Some 0) [''cat''] None [] = (r, k)" by fastforce
  have "kinv k zero zero \<and> kept sample_task_kernel k"
    using task_create_ok [OF _ r, of zero zero] sample_task_inv by (simp add: idle_inv_def)
  then show "kernel_inv pair_kernel" "k_current pair_kernel = None"
    using r sample_task_inv by (simp_all add: pair_kernel_def kernel_inv_def idle_inv_def kept_def)
qed

theorem tasks_isolated_witness:
  "\<exists>t t'. k_tasks pair_kernel 12 = Some t \<and>
     k_tasks (snd (run_events kernel_step
       [Resume 19, Call (C_setenv ''A'' (Some ''1'') 1), Interrupt 1, Call (C_exit 0), Console_event] pair_kernel)) 12 = Some t' \<and>
     t_descriptors t' = t_descriptors t \<and> t_image t' = t_image t"
proof -
  have "map_option t_state (k_tasks pair_kernel 12) = Some CB_TASK_RUNNABLE" by code_simp
  then obtain t where t: "k_tasks pair_kernel 12 = Some t" "t_state t = CB_TASK_RUNNABLE" by auto
  let ?es = "[Resume 19, Call (C_setenv ''A'' (Some ''1'') 1), Interrupt 1, Call (C_exit 0), Console_event]"
  obtain t' where t': "k_tasks (snd (run_events kernel_step ?es pair_kernel)) 12 = Some t'"
    "t'\<lparr>t_state := t_state t, t_wake_reason := t_wake_reason t, t_interrupt_pending := t_interrupt_pending t\<rparr> = t"
    using tasks_isolated [OF pair_kernel_inv(1), of 12 ?es t] pair_kernel_inv(2) t by auto
  from arg_cong [OF t'(2), of t_descriptors] arg_cong [OF t'(2), of t_image]
  have "t_descriptors t' = t_descriptors t" "t_image t' = t_image t" by simp_all
  then show ?thesis using t t'(1) by blast
qed

end
