(* ===== verification/Program_Api.thy ===== *)
theory Program_Api
  imports Process
begin

text \<open>
  What a program sees of the kernel: the table \<^verbatim>\<open>struct cb_api_v1\<close> of \<^verbatim>\<open>include/cannedbsd/abi.h\<close>.
  A program gets it as an argument, so the models of the programs take it as a parameter. A call may
  change everything outside the program, the world \<open>'w\<close>; a call that waits is taken up to its return.
  Two parts of the C library are here as well: the result of \<^verbatim>\<open>malloc\<close> and \<^verbatim>\<open>realloc\<close>, which the shell
  calls directly, and the character classes and conversions the programs use.

  A C string is the list of its characters before the NUL byte.
\<close>

section \<open>The table of calls\<close>

text \<open>
  \<open>ap_read\<close> returns the count with the bytes it has stored, \<open>ap_pipe\<close> the result with the two
  descriptors, \<open>ap_spawn\<close> the result with the new process number, \<open>ap_waitpid\<close> the result with the
  status it stores (none when it fails). \<open>ap_malloc n\<close> says whether a request of \<open>n\<close> bytes is granted.
\<close>

record 'w cb_api =
  ap_spawn :: "string \<Rightarrow> string list \<Rightarrow> cb_spawn_action list \<Rightarrow> 'w \<Rightarrow> (int \<times> int) \<times> 'w"
  ap_waitpid :: "int \<Rightarrow> 'w \<Rightarrow> (int \<times> int) \<times> 'w"
  ap_open :: "string \<Rightarrow> int \<Rightarrow> int \<Rightarrow> 'w \<Rightarrow> int \<times> 'w"
  ap_close :: "int \<Rightarrow> 'w \<Rightarrow> int \<times> 'w"
  ap_read :: "int \<Rightarrow> nat \<Rightarrow> 'w \<Rightarrow> (int \<times> string) \<times> 'w"
  ap_write :: "int \<Rightarrow> string \<Rightarrow> 'w \<Rightarrow> int \<times> 'w"
  ap_dup :: "int \<Rightarrow> 'w \<Rightarrow> int \<times> 'w"
  ap_dup2 :: "int \<Rightarrow> int \<Rightarrow> 'w \<Rightarrow> int \<times> 'w"
  ap_pipe :: "'w \<Rightarrow> (int \<times> int \<times> int) \<times> 'w"
  ap_chdir :: "string \<Rightarrow> 'w \<Rightarrow> int \<times> 'w"
  ap_getcwd :: "nat \<Rightarrow> 'w \<Rightarrow> string option \<times> 'w"
  ap_getenv :: "string \<Rightarrow> 'w \<Rightarrow> string option \<times> 'w"
  ap_setenv :: "string \<Rightarrow> string \<Rightarrow> int \<Rightarrow> 'w \<Rightarrow> int \<times> 'w"
  ap_unsetenv :: "string \<Rightarrow> 'w \<Rightarrow> int \<times> 'w"
  ap_strerror :: "int \<Rightarrow> string"
  ap_get_errno :: "'w \<Rightarrow> int"
  ap_malloc :: "nat \<Rightarrow> 'w \<Rightarrow> bool \<times> 'w"

section \<open>From the C library\<close>

definition is_digit :: "byte \<Rightarrow> bool" where
  "is_digit c \<longleftrightarrow> (let n = (of_char c :: nat) in 48 \<le> n \<and> n \<le> 57)"

definition is_space :: "byte \<Rightarrow> bool" where
  "is_space c \<longleftrightarrow> (let n = (of_char c :: nat) in n = 32 \<or> (9 \<le> n \<and> n \<le> 13))"

abbreviation newline :: byte where
  "newline \<equiv> CHR 0x0A"

definition c_string :: "string \<Rightarrow> string" where
  "c_string bytes = takeWhile (\<lambda>c. c \<noteq> NUL) bytes"

text \<open>\<^verbatim>\<open>snprintf(text, size, "%d", value)\<close>, for a buffer that is large enough.\<close>

fun decimal_nat :: "nat \<Rightarrow> string" where
  "decimal_nat n = (if n < 10 then [] else decimal_nat (n div 10)) @ [char_of (48 + n mod 10)]"

definition decimal :: "int \<Rightarrow> string" where
  "decimal i = (if i < 0 then ''-'' @ decimal_nat (nat (- i)) else decimal_nat (nat i))"

declare decimal_nat.simps [simp del]

fun digits_value :: "string \<Rightarrow> nat \<Rightarrow> nat" where
  "digits_value [] n = n"
| "digits_value (c # cs) n = digits_value cs (10 * n + (of_char c - 48))"

lemma digits_value_append: "digits_value (xs @ ys) n = digits_value ys (digits_value xs n)"
  by (induction xs n rule: digits_value.induct) simp_all

lemma char_of_digit: "n < 10 \<Longrightarrow> of_char (char_of (48 + n) :: char) = (48 + n :: nat)"
  by (simp add: of_char_of)

lemma decimal_nat_digits: "list_all is_digit (decimal_nat n) \<and> decimal_nat n \<noteq> []"
proof (induction n rule: decimal_nat.induct)
  case (1 n)
  have "of_char (char_of (48 + n mod 10) :: char) = (48 + n mod 10 :: nat)" by (rule char_of_digit) simp
  then have "is_digit (char_of (48 + n mod 10))" by (simp add: is_digit_def Let_def)
  then show ?case using 1 by (subst (1 2) decimal_nat.simps) simp
qed

lemma digits_value_decimal: "digits_value (decimal_nat n) 0 = n"
proof (induction n rule: decimal_nat.induct)
  case (1 n)
  have d: "of_char (char_of (48 + n mod 10) :: char) = (48 + n mod 10 :: nat)" by (rule char_of_digit) simp
  show ?case
  proof (cases "n < 10")
    case True
    then show ?thesis using d by (subst decimal_nat.simps) simp
  next
    case False
    then show ?thesis using 1 d by (subst decimal_nat.simps) (simp add: digits_value_append)
  qed
qed

section \<open>Writing a text completely\<close>

text \<open>
  \<^verbatim>\<open>shell_write\<close> of \<^verbatim>\<open>shell.c\<close> and \<^verbatim>\<open>write_all\<close> of \<^verbatim>\<open>programs.c\<close> have the same loop. A call that reports more
  bytes than it was given breaks the contract of \<^verbatim>\<open>write\<close>; here it ends the loop.
\<close>

function write_all :: "'w cb_api \<Rightarrow> int \<Rightarrow> string \<Rightarrow> 'w \<Rightarrow> int \<times> 'w" where
  "write_all api d bytes w =
     (if bytes = [] then (0, w)
      else case ap_write api d bytes w of
             (n, w1) \<Rightarrow> if n \<le> 0 then (-1, w1) else write_all api d (drop (nat n) bytes) w1)"
  by pat_completeness auto
termination
  by (relation "measure (\<lambda>(api, d, bytes, w). length bytes)") auto

declare write_all.simps [simp del]

lemma write_all_Nil [simp]: "write_all api d [] w = (0, w)"
  by (simp add: write_all.simps)

end
