(* ===== verification/Shell_Lex.thy ===== *)
theory Shell_Lex
  imports Program_Api
begin

text \<open>
  The lexer of the shell (\<^verbatim>\<open>src/shell.c\<close>): messages, the growing word buffer, \<^verbatim>\<open>$\<close>-expansion, quoting, and
  the division of a line into tokens.
\<close>

section \<open>Messages\<close>

definition shell_write :: "'w cb_api \<Rightarrow> int \<Rightarrow> string \<Rightarrow> 'w \<Rightarrow> int \<times> 'w" where
  "shell_write api d message w = write_all api d message w"

definition shell_error :: "'w cb_api \<Rightarrow> string \<Rightarrow> 'w \<Rightarrow> 'w" where
  "shell_error api message w =
     (let (_, w1) = shell_write api 2 ''sh: '' w;
          (_, w2) = shell_write api 2 message w1;
          (_, w3) = shell_write api 2 [newline] w2
      in w3)"

section \<open>The word buffer\<close>

text \<open>
  \<^verbatim>\<open>buffer\<close>, \<^verbatim>\<open>used\<close> and \<^verbatim>\<open>capacity\<close>: the bytes in use are \<open>b_bytes\<close>, and the buffer is null exactly when its
  capacity is 0. One byte beyond the ones in use holds the NUL.
\<close>

record buffer =
  b_bytes :: string
  b_capacity :: nat

definition no_buffer :: buffer where
  "no_buffer = \<lparr>b_bytes = [], b_capacity = 0\<rparr>"

function double_until :: "nat \<Rightarrow> nat \<Rightarrow> nat" where
  "double_until next needed = (if 0 < next \<and> next < needed then double_until (2 * next) needed else next)"
  by pat_completeness auto
termination
  by (relation "measure (\<lambda>(next, needed). needed - next)") auto

declare double_until.simps [simp del]

definition append_bytes :: "'w cb_api \<Rightarrow> buffer \<Rightarrow> string \<Rightarrow> 'w \<Rightarrow> buffer option \<times> 'w" where
  "append_bytes api b bytes w =
     (let needed = length (b_bytes b) + length bytes + 1
      in if needed > b_capacity b
         then let next = double_until (if b_capacity b = 0 then 32 else b_capacity b) needed
              in case ap_malloc api next w of
                   (granted, w1) \<Rightarrow>
                     (if granted then Some \<lparr>b_bytes = b_bytes b @ bytes, b_capacity = next\<rparr> else None, w1)
         else (Some (b\<lparr>b_bytes := b_bytes b @ bytes\<rparr>), w))"

section \<open>Expansion\<close>

text \<open>
  What follows a \<^verbatim>\<open>$\<close>: the status, a name in braces, a bare name, or nothing that can be expanded. The
  second component is what is left of the line.
\<close>

definition is_name_char :: "byte \<Rightarrow> bool" where
  "is_name_char c \<longleftrightarrow> is_alnum c \<or> c = underscore"

definition SHELL_NAME_MAX :: nat where
  "SHELL_NAME_MAX = 128"

datatype expansion = Exp_status | Exp_dollar | Exp_name string | Exp_bad

definition check_name :: "bool \<Rightarrow> string \<Rightarrow> expansion" where
  "check_name braced name =
     (if name = [] \<and> \<not> braced then Exp_dollar
      else if name = [] \<or> length name \<ge> SHELL_NAME_MAX \<or> (\<not> is_alpha (hd name) \<and> hd name \<noteq> underscore) then Exp_bad
      else if \<exists>c \<in> set (tl name). \<not> is_name_char c then Exp_bad
      else Exp_name name)"

definition scan_expansion :: "string \<Rightarrow> expansion \<times> string" where
  "scan_expansion cursor =
     (if take 1 cursor = ''?'' then (Exp_status, drop 1 cursor)
      else if take 1 cursor = ''{''
      then let start = drop 1 cursor
           in (case dropWhile (\<lambda>c. c \<noteq> CHR ''}'') start of
                 [] \<Rightarrow> (Exp_bad, [])
               | _ # rest \<Rightarrow> (check_name True (takeWhile (\<lambda>c. c \<noteq> CHR ''}'') start), rest))
      else (check_name False (takeWhile is_name_char cursor), dropWhile is_name_char cursor))"

definition append_expansion ::
  "'w cb_api \<Rightarrow> string \<Rightarrow> int \<Rightarrow> buffer \<Rightarrow> 'w \<Rightarrow> (buffer option \<times> string) \<times> 'w" where
  "append_expansion api cursor last_status b w =
     (case scan_expansion cursor of
        (e, rest) \<Rightarrow>
          (case e of
             Exp_bad \<Rightarrow> ((None, rest), w)
           | Exp_status \<Rightarrow> (let (r, w1) = append_bytes api b (decimal last_status) w in ((r, rest), w1))
           | Exp_dollar \<Rightarrow> (let (r, w1) = append_bytes api b ''$'' w in ((r, rest), w1))
           | Exp_name name \<Rightarrow>
               let (v, w1) = ap_getenv api name w;
                   (r, w2) = append_bytes api b (case v of None \<Rightarrow> [] | Some s \<Rightarrow> s) w1
               in ((r, rest), w2)))"

lemma dropWhile_Cons_length: "dropWhile P xs = c # ys \<Longrightarrow> length ys < length xs"
  by (metis length_dropWhile_le length_Cons Suc_le_eq)

lemma scan_expansion_length: "length (snd (scan_expansion cursor)) \<le> length cursor"
proof (cases "dropWhile (\<lambda>c. c \<noteq> CHR ''}'') (drop 1 cursor)")
  case Nil
  then show ?thesis by (simp add: scan_expansion_def length_dropWhile_le Let_def del: dropWhile_eq_Nil_conv)
next
  case (Cons y ys)
  have "length (dropWhile (\<lambda>c. c \<noteq> CHR ''}'') (drop 1 cursor)) \<le> length (drop 1 cursor)" by (rule length_dropWhile_le)
  then have "length ys \<le> length cursor" using Cons by simp
  then show ?thesis using Cons by (simp add: scan_expansion_def length_dropWhile_le Let_def)
qed

lemma append_expansion_rest:
  assumes "append_expansion api cursor st b w = ((r, rest), w')" shows "rest = snd (scan_expansion cursor)"
  using assms by (auto simp: append_expansion_def split: prod.splits expansion.splits)

lemma append_expansion_length:
  "append_expansion api cursor st b w = ((r, rest), w') \<Longrightarrow> length rest < Suc (length cursor)"
  using append_expansion_rest scan_expansion_length [of cursor] by (metis less_Suc_eq_le)

section \<open>Words\<close>

datatype lex_error = Lex_syntax | Lex_memory

abbreviation single_quote :: byte where "single_quote \<equiv> CHR 0x27"
abbreviation double_quote :: byte where "double_quote \<equiv> CHR 0x22"
abbreviation backslash :: byte where "backslash \<equiv> CHR 0x5C"

definition ends_word :: "byte \<Rightarrow> bool" where
  "ends_word c \<longleftrightarrow> is_space c \<or> c \<in> {CHR ''|'', CHR '';'', CHR ''<'', CHR ''>''}"

text \<open>
  The end of the inner loop of \<^verbatim>\<open>lex_line\<close>. \<open>quote\<close> is the open quote, NUL (0 in C) when there is none.
\<close>

definition finish_word ::
  "'w cb_api \<Rightarrow> byte \<Rightarrow> bool \<Rightarrow> buffer \<Rightarrow> string \<Rightarrow> 'w \<Rightarrow> (lex_error + string \<times> string) \<times> 'w" where
  "finish_word api quote saw b cursor w =
     (if quote \<noteq> NUL \<or> \<not> saw then (Inl Lex_syntax, w)
      else if b_capacity b = 0
      then (case ap_malloc api 1 w of
              (granted, w1) \<Rightarrow> (if granted then Inr ([], cursor) else Inl Lex_memory, w1))
      else (Inr (b_bytes b, cursor), w))"

text \<open>The inner loop.\<close>

function lex_word ::
  "'w cb_api \<Rightarrow> int \<Rightarrow> byte \<Rightarrow> bool \<Rightarrow> buffer \<Rightarrow> string \<Rightarrow> 'w \<Rightarrow> (lex_error + string \<times> string) \<times> 'w" where
  "lex_word api last_status quote saw b cursor w =
     (case cursor of
        [] \<Rightarrow> finish_word api quote saw b cursor w
      | c # rest \<Rightarrow>
             if quote = NUL \<and> ends_word c then finish_word api quote saw b cursor w
             else if c = single_quote \<and> quote \<noteq> double_quote
             then lex_word api last_status (if quote = single_quote then NUL else single_quote) True b rest w
             else if c = double_quote \<and> quote \<noteq> single_quote
             then lex_word api last_status (if quote = double_quote then NUL else double_quote) True b rest w
             else if c = backslash \<and> quote \<noteq> single_quote
             then (case rest of
                     [] \<Rightarrow> (Inl Lex_syntax, w)
                   | d # rest2 \<Rightarrow>
                       (case append_bytes api b [d] w of
                          (None, w1) \<Rightarrow> (Inl Lex_memory, w1)
                        | (Some b1, w1) \<Rightarrow> lex_word api last_status quote True b1 rest2 w1))
             else if c = CHR ''$'' \<and> quote \<noteq> single_quote
             then (case append_expansion api rest last_status b w of
                     ((None, _), w1) \<Rightarrow> (Inl Lex_syntax, w1)
                   | ((Some b1, rest2), w1) \<Rightarrow> lex_word api last_status quote True b1 rest2 w1)
             else (case append_bytes api b [c] w of
                     (None, w1) \<Rightarrow> (Inl Lex_memory, w1)
                   | (Some b1, w1) \<Rightarrow> lex_word api last_status quote True b1 rest w1))"
  by pat_completeness auto
termination
  by (relation "measure (\<lambda>(api, st, q, saw, b, cursor, w). length cursor)")
     (auto intro: append_expansion_length [OF sym])

declare lex_word.simps [simp del]

lemma finish_word_rest: "finish_word api quote saw b cursor w = (Inr (s, r), w') \<Longrightarrow> r = cursor"
  by (auto simp: finish_word_def split: if_splits prod.splits)

lemma lex_word_length:
  "lex_word api st quote saw b cursor w = (Inr (s, r), w') \<Longrightarrow> length r \<le> length cursor"
proof (induction "length cursor" arbitrary: quote saw b cursor w rule: less_induct)
  case less
  have ih: "lex_word api st q True b' rest w1 = (Inr (s, r), w') \<Longrightarrow> length rest < length cursor \<Longrightarrow> length r \<le> length cursor" for q b' rest w1
    using less.hyps less_imp_le order_trans by metis
  show ?case
  proof (cases cursor)
    case Nil
    then show ?thesis using less.prems by (auto simp: lex_word.simps [of api st quote saw b "[]" w] dest: finish_word_rest)
  next
    case (Cons c rest)
    show ?thesis using less.prems
      by (subst (asm) lex_word.simps)
        (auto simp: Cons split: if_splits list.splits prod.splits option.splits
           dest!: finish_word_rest append_expansion_length dest: ih [unfolded Cons])
  qed
qed

lemma lex_word_shorter:
  assumes "lex_word api st quote saw b (c # rest) w = (Inr (s, r), w')" "\<not> (quote = NUL \<and> ends_word c)"
  shows "length r < length (c # rest)"
  using assms unfolding lex_word.simps [of api st quote saw b "c # rest" w]
  by (auto split: if_splits list.splits prod.splits option.splits
        dest!: append_expansion_length dest: lex_word_length)

section \<open>Tokens\<close>

datatype token = TOKEN_WORD string | TOKEN_PIPE | TOKEN_SEMICOLON | TOKEN_INPUT | TOKEN_OUTPUT | TOKEN_APPEND

definition SHELL_MAX_TOKENS :: nat where
  "SHELL_MAX_TOKENS = 128"

text \<open>The outer loop of \<^verbatim>\<open>lex_line\<close>.\<close>

function lex_tokens ::
  "'w cb_api \<Rightarrow> int \<Rightarrow> string \<Rightarrow> token list \<Rightarrow> 'w \<Rightarrow> (lex_error + token list) \<times> 'w" where
  "lex_tokens api last_status line tokens w =
     (case dropWhile is_space line of
        [] \<Rightarrow> (Inr tokens, w)
      | c # rest \<Rightarrow>
          if length tokens = SHELL_MAX_TOKENS then (Inl Lex_syntax, w)
          else if c = CHR ''|'' then lex_tokens api last_status rest (tokens @ [TOKEN_PIPE]) w
          else if c = CHR '';'' then lex_tokens api last_status rest (tokens @ [TOKEN_SEMICOLON]) w
          else if c = CHR ''<'' then lex_tokens api last_status rest (tokens @ [TOKEN_INPUT]) w
          else if c = CHR ''>''
          then if take 1 rest = ''>''
               then lex_tokens api last_status (drop 1 rest) (tokens @ [TOKEN_APPEND]) w
               else lex_tokens api last_status rest (tokens @ [TOKEN_OUTPUT]) w
          else (case lex_word api last_status NUL False no_buffer (c # rest) w of
                  (Inl e, w1) \<Rightarrow> (Inl e, w1)
                | (Inr (word, rest2), w1) \<Rightarrow> lex_tokens api last_status rest2 (tokens @ [TOKEN_WORD word]) w1))"
  by pat_completeness auto
termination
proof (relation "measure (\<lambda>(api, st, line, toks, w). length line)", goal_cases)
  case (7 api st line toks w c rest res w1 p word rest2)
  have s: "\<not> is_space c" using 7(1) hd_dropWhile [of is_space line] by (metis list.discI list.sel(1))
  have "length rest2 < length (c # rest)"
    using lex_word_shorter [of api st NUL False no_buffer c rest w word rest2 w1] 7 s by (simp add: ends_word_def)
  then show ?case using dropWhile_Cons_length [OF 7(1)] by simp
qed (simp, (auto dest!: dropWhile_Cons_length)+)

declare lex_tokens.simps [simp del]

fun lex_message :: "lex_error \<Rightarrow> string" where
  "lex_message Lex_memory = ''out of memory''"
| "lex_message Lex_syntax = ''syntax error''"

definition lex_line :: "'w cb_api \<Rightarrow> string \<Rightarrow> int \<Rightarrow> 'w \<Rightarrow> token list option \<times> 'w" where
  "lex_line api line last_status w =
     (case lex_tokens api last_status line [] w of
        (Inl e, w1) \<Rightarrow> (None, shell_error api (lex_message e) w1)
      | (Inr tokens, w1) \<Rightarrow> (Some tokens, w1))"

end
