(* ===== verification/Shell.thy ===== *)
theory Shell
  imports Shell_Lex
begin

text \<open>
  The rest of the shell (\<^verbatim>\<open>src/shell.c\<close>): builtin commands, redirections, pipelines, the parser of a
  command, the division of a line into commands, and the two programs that the file defines.
\<close>

section \<open>Builtin commands\<close>

record stage =
  s_argv :: "string list"
  s_input_path :: "string option"
  s_output_path :: "string option"
  s_append :: bool

definition no_stage :: stage where
  "no_stage = \<lparr>s_argv = [], s_input_path = None, s_output_path = None, s_append = False\<rparr>"

text \<open>\<^verbatim>\<open>argv[0]\<close>. The shell reads it only of a stage that has an argument.\<close>

definition stage_name :: "stage \<Rightarrow> string" where
  "stage_name s = (case s_argv s of [] \<Rightarrow> [] | name # _ \<Rightarrow> name)"

definition is_builtin :: "string \<Rightarrow> bool" where
  "is_builtin name \<longleftrightarrow> name = ''cd'' \<or> name = ''pwd'' \<or> name = ''export'' \<or> name = ''unset'' \<or> name = ''exit''"

text \<open>The digits of an exit status, with an \<^verbatim>\<open>unsigned\<close> accumulator that is cut to eight bits.\<close>

fun status_digits :: "string \<Rightarrow> nat \<Rightarrow> nat option" where
  "status_digits [] status = Some status"
| "status_digits (c # cs) status =
     (if \<not> is_digit c then None else status_digits cs ((status * 10 + (of_char c - 48)) mod 256))"

definition after_sign :: "string \<Rightarrow> string" where
  "after_sign s = (if take 1 s = ''+'' \<or> take 1 s = ''-'' then drop 1 s else s)"

definition parse_exit_status :: "string \<Rightarrow> int option" where
  "parse_exit_status s =
     (case after_sign s of
        [] \<Rightarrow> None
      | c # cs \<Rightarrow>
          if \<not> is_digit c then None
          else (case status_digits (c # cs) 0 of
                  None \<Rightarrow> None
                | Some n \<Rightarrow> Some (if take 1 s = ''-'' then (- int n) mod 256 else int n)))"

definition report_errno :: "'w cb_api \<Rightarrow> 'w \<Rightarrow> 'w" where
  "report_errno api w = shell_error api (ap_strerror api (ap_get_errno api w)) w"

definition write_texts :: "'w cb_api \<Rightarrow> int \<Rightarrow> string list \<Rightarrow> 'w \<Rightarrow> 'w" where
  "write_texts api d texts w = fold (\<lambda>s w. snd (shell_write api d s w)) texts w"

definition builtin_cd :: "'w cb_api \<Rightarrow> string list \<Rightarrow> 'w \<Rightarrow> int \<times> 'w" where
  "builtin_cd api argv w =
     (if length argv > 2 then (2, shell_error api ''cd: too many arguments'' w)
      else let (path, w1) = (if length argv = 1 then ap_getenv api ''HOME'' w else (Some (argv ! 1), w));
               (r, w2) = ap_chdir api (case path of None \<Rightarrow> ''/'' | Some p \<Rightarrow> p) w1
           in if r < 0
              then let w3 = snd (shell_write api 2 ''sh: cd: '' w2)
                   in (1, write_texts api 2 [ap_strerror api (ap_get_errno api w3), [newline]] w3)
              else (0, w2))"

definition builtin_pwd :: "'w cb_api \<Rightarrow> 'w \<Rightarrow> int \<times> 'w" where
  "builtin_pwd api w =
     (case ap_getcwd api CB_PATH_MAX w of
        (None, w1) \<Rightarrow> (1, report_errno api w1)
      | (Some path, w1) \<Rightarrow> (0, write_texts api 1 [path, [newline]] w1))"

text \<open>An argument of \<^verbatim>\<open>export\<close> is split at its first equals sign, which must not be its first character.\<close>

fun builtin_export :: "'w cb_api \<Rightarrow> string list \<Rightarrow> 'w \<Rightarrow> int \<times> 'w" where
  "builtin_export api [] w = (0, w)"
| "builtin_export api (arg # args) w =
     (case (takeWhile (\<lambda>c. c \<noteq> equals) arg, dropWhile (\<lambda>c. c \<noteq> equals) arg) of
        (name, rest) \<Rightarrow>
          if rest = [] \<or> name = [] then (2, shell_error api ''export: expected NAME=value'' w)
          else (case ap_setenv api name (tl rest) 1 w of
                  (r, w1) \<Rightarrow>
                    if r < 0 then (2, shell_error api ''export: invalid name'' w1)
                    else builtin_export api args w1))"

fun builtin_unset :: "'w cb_api \<Rightarrow> string list \<Rightarrow> 'w \<Rightarrow> int \<times> 'w" where
  "builtin_unset api [] w = (0, w)"
| "builtin_unset api (name # names) w =
     (case ap_unsetenv api name w of
        (r, w1) \<Rightarrow>
          if r < 0 then (2, shell_error api ''unset: invalid name'' w1) else builtin_unset api names w1)"

text \<open>The first component of the result is \<^verbatim>\<open>should_exit\<close>.\<close>

definition builtin_exit :: "'w cb_api \<Rightarrow> string list \<Rightarrow> int \<Rightarrow> 'w \<Rightarrow> bool \<times> int \<times> 'w" where
  "builtin_exit api argv last_status w =
     (if length argv > 2 then (False, 2, shell_error api ''exit: too many arguments'' w)
      else if length argv = 2
      then (case parse_exit_status (argv ! 1) of
              None \<Rightarrow> (True, 2, shell_error api ''exit: numeric argument required'' w)
            | Some status \<Rightarrow> (True, status, w))
      else (True, last_status, w))"

definition run_builtin :: "'w cb_api \<Rightarrow> stage \<Rightarrow> int \<Rightarrow> 'w \<Rightarrow> bool \<times> int \<times> 'w" where
  "run_builtin api stage last_status w =
     (let name = stage_name stage; argv = s_argv stage
      in if name = ''cd'' then (False, builtin_cd api argv w)
         else if name = ''pwd'' then (False, builtin_pwd api w)
         else if name = ''export'' then (False, builtin_export api (drop 1 argv) w)
         else if name = ''unset'' then (False, builtin_unset api (drop 1 argv) w)
         else if name = ''exit'' then builtin_exit api argv last_status w
         else (False, 127, w))"

definition SHELL_MAX_ARGS :: nat where "SHELL_MAX_ARGS = 32"

definition shell_builtin_main :: "'w cb_api \<Rightarrow> string list \<Rightarrow> 'w \<Rightarrow> int \<times> 'w" where
  "shell_builtin_main api argv w =
     (if length argv < 3 then (2, w)
      else case parse_exit_status (argv ! 1) of
             None \<Rightarrow> (2, w)
           | Some last_status \<Rightarrow>
               let stage = no_stage\<lparr>s_argv := drop 2 argv\<rparr>
               in if length (s_argv stage) > SHELL_MAX_ARGS then (2, w)
                  else if \<not> is_builtin (stage_name stage) then (127, w)
                  else snd (run_builtin api stage last_status w))"

section \<open>Redirections\<close>

text \<open>The result is whether it worked, with the descriptors that are left in \<^verbatim>\<open>input_fd\<close> and \<^verbatim>\<open>output_fd\<close>.\<close>

definition open_redirections :: "'w cb_api \<Rightarrow> stage \<Rightarrow> 'w \<Rightarrow> (bool \<times> int \<times> int) \<times> 'w" where
  "open_redirections api stage w =
     (case (case s_input_path stage of None \<Rightarrow> (-1, w) | Some p \<Rightarrow> ap_open api p CB_O_RDONLY 0 w) of
        (input_fd, w1) \<Rightarrow>
          if s_input_path stage \<noteq> None \<and> input_fd < 0 then ((False, input_fd, -1), w1)
          else (case s_output_path stage of
                  None \<Rightarrow> ((True, input_fd, -1), w1)
                | Some p \<Rightarrow>
                    (case ap_open api p
                            (CB_O_WRONLY OR CB_O_CREAT OR (if s_append stage then CB_O_APPEND else CB_O_TRUNC)) 438 w1 of
                       (output_fd, w2) \<Rightarrow>
                         if output_fd < 0
                         then ((False, -1, output_fd), if input_fd \<ge> 0 then snd (ap_close api input_fd w2) else w2)
                         else ((True, input_fd, output_fd), w2))))"

definition close_if_open :: "'w cb_api \<Rightarrow> int \<Rightarrow> 'w \<Rightarrow> 'w" where
  "close_if_open api d w = (if d \<ge> 0 then snd (ap_close api d w) else w)"

text \<open>
  \<^verbatim>\<open>saved = dup(target)\<close>, then \<^verbatim>\<open>dup2(source, target)\<close>: whether it worked, and the descriptor in \<^verbatim>\<open>saved\<close>.
\<close>

definition redirect :: "'w cb_api \<Rightarrow> int \<Rightarrow> int \<Rightarrow> 'w \<Rightarrow> (bool \<times> int) \<times> 'w" where
  "redirect api source target w =
     (if source < 0 then ((True, -1), w)
      else case ap_dup api target w of
             (saved, w1) \<Rightarrow>
               if saved < 0 then ((False, saved), w1)
               else (case ap_dup2 api source target w1 of
                       (r, w2) \<Rightarrow> ((r \<ge> 0, saved), w2)))"

definition restore :: "'w cb_api \<Rightarrow> int \<Rightarrow> int \<Rightarrow> 'w \<Rightarrow> 'w" where
  "restore api saved target w = (if saved \<ge> 0 then snd (ap_dup2 api saved target w) else w)"

definition close_four :: "'w cb_api \<Rightarrow> int \<Rightarrow> int \<Rightarrow> int \<Rightarrow> int \<Rightarrow> 'w \<Rightarrow> 'w" where
  "close_four api saved_input saved_output input_fd output_fd w =
     close_if_open api output_fd (close_if_open api input_fd
       (close_if_open api saved_output (close_if_open api saved_input w)))"

definition run_builtin_redirected :: "'w cb_api \<Rightarrow> stage \<Rightarrow> int \<Rightarrow> 'w \<Rightarrow> bool \<times> int \<times> 'w" where
  "run_builtin_redirected api stage last_status w =
     (case open_redirections api stage w of
        ((ok, input_fd, output_fd), w1) \<Rightarrow>
          if \<not> ok then (False, 1, report_errno api w1)
          else case redirect api input_fd 0 w1 of
            ((ok_in, saved_input), w2) \<Rightarrow>
              if \<not> ok_in
              then (False, 1, close_four api saved_input (-1) input_fd output_fd (shell_error api ''redirection failed'' w2))
              else case redirect api output_fd 1 w2 of
                ((ok_out, saved_output), w3) \<Rightarrow>
                  if \<not> ok_out
                  then (False, 1, close_four api saved_input saved_output input_fd output_fd
                                    (shell_error api ''redirection failed'' w3))
                  else case run_builtin api stage last_status w3 of
                    (should_exit, result, w4) \<Rightarrow>
                      (should_exit, result,
                       close_four api saved_input saved_output input_fd output_fd
                         (restore api saved_output 1 (restore api saved_input 0 w4))))"

section \<open>Pipelines\<close>

definition SHELL_MAX_STAGES :: nat where "SHELL_MAX_STAGES = 16"

text \<open>\<open>sa_valid\<close> stands for the version and the size that \<^verbatim>\<open>add_action\<close> stores.\<close>

definition add_action :: "cb_spawn_action list \<Rightarrow> int \<Rightarrow> int \<Rightarrow> int \<Rightarrow> cb_spawn_action list" where
  "add_action actions kind from to =
     actions @ [\<lparr>sa_valid = True, sa_type = kind, sa_from = from, sa_to = to\<rparr>]"

text \<open>
  The first loop: the redirections of every stage. The entries of \<^verbatim>\<open>inputs\<close> and \<^verbatim>\<open>outputs\<close> that have been
  set are returned, those of a stage that fails included.
\<close>

fun open_stages :: "'w cb_api \<Rightarrow> stage list \<Rightarrow> 'w \<Rightarrow> (bool \<times> (int \<times> int) list) \<times> 'w" where
  "open_stages api [] w = ((True, []), w)"
| "open_stages api (s # ss) w =
     (case open_redirections api s w of
        ((ok, i, out), w1) \<Rightarrow>
          if \<not> ok then ((False, [(i, out)]), w1)
          else (case open_stages api ss w1 of ((r, fds), w2) \<Rightarrow> ((r, (i, out) # fds), w2)))"

text \<open>The second loop: \<open>n\<close> pipes, those that were created being returned.\<close>

fun create_pipes :: "'w cb_api \<Rightarrow> nat \<Rightarrow> 'w \<Rightarrow> (bool \<times> (int \<times> int) list) \<times> 'w" where
  "create_pipes api 0 w = ((True, []), w)"
| "create_pipes api (Suc n) w =
     (case ap_pipe api w of
        ((r, i, out), w1) \<Rightarrow>
          if r < 0 then ((False, []), w1)
          else (case create_pipes api n w1 of ((ok, ps), w2) \<Rightarrow> ((ok, (i, out) # ps), w2)))"

text \<open>The actions of stage \<open>index\<close>.\<close>

definition close_pipe_actions :: "(int \<times> int) list \<Rightarrow> cb_spawn_action list \<Rightarrow> cb_spawn_action list" where
  "close_pipe_actions pipes actions =
     fold (\<lambda>(i, out) as. add_action (add_action as CB_SPAWN_CLOSE i (-1)) CB_SPAWN_CLOSE out (-1)) pipes actions"

definition source_input :: "(int \<times> int) list \<Rightarrow> int \<times> int \<Rightarrow> nat \<Rightarrow> int" where
  "source_input pipes fds index =
     (if fst fds \<ge> 0 then fst fds else if index > 0 then fst (pipes ! (index - 1)) else -1)"

definition source_output :: "(int \<times> int) list \<Rightarrow> int \<times> int \<Rightarrow> nat \<Rightarrow> nat \<Rightarrow> int" where
  "source_output pipes fds index stage_count =
     (if snd fds \<ge> 0 then snd fds else if index + 1 < stage_count then snd (pipes ! index) else -1)"

definition stage_actions :: "(int \<times> int) list \<Rightarrow> int \<times> int \<Rightarrow> nat \<Rightarrow> nat \<Rightarrow> cb_spawn_action list" where
  "stage_actions pipes fds index stage_count =
     (let si = source_input pipes fds index;
          so = source_output pipes fds index stage_count;
          a1 = (if si \<ge> 0 then add_action [] CB_SPAWN_DUP2 si 0 else []);
          a2 = (if so \<ge> 0 then add_action a1 CB_SPAWN_DUP2 so 1 else a1);
          a3 = close_pipe_actions pipes a2;
          a4 = (if fst fds \<ge> 0 then add_action a3 CB_SPAWN_CLOSE (fst fds) (-1) else a3)
      in if snd fds \<ge> 0 \<and> snd fds \<noteq> fst fds then add_action a4 CB_SPAWN_CLOSE (snd fds) (-1) else a4)"

definition builtin_program :: string where
  "builtin_program = ''__cannedbsd_shell_builtin''"

definition spawn_stage ::
  "'w cb_api \<Rightarrow> (int \<times> int) list \<Rightarrow> int \<Rightarrow> nat \<Rightarrow> nat \<Rightarrow> stage \<Rightarrow> int \<times> int \<Rightarrow> 'w \<Rightarrow> (int \<times> int) \<times> 'w" where
  "spawn_stage api pipes last_status stage_count index stage fds w =
     (let actions = stage_actions pipes fds index stage_count
      in if is_builtin (stage_name stage)
         then ap_spawn api builtin_program (builtin_program # decimal last_status # s_argv stage) actions w
         else ap_spawn api (stage_name stage) (s_argv stage) actions w)"

text \<open>The third loop: the process numbers of the stages that were started.\<close>

fun spawn_stages ::
  "'w cb_api \<Rightarrow> (int \<times> int) list \<Rightarrow> int \<Rightarrow> nat \<Rightarrow> nat \<Rightarrow> (stage \<times> int \<times> int) list \<Rightarrow> 'w \<Rightarrow> (int \<times> int list) \<times> 'w" where
  "spawn_stages api pipes last_status stage_count index [] w = ((0, []), w)"
| "spawn_stages api pipes last_status stage_count index ((stage, fds) # rest) w =
     (case spawn_stage api pipes last_status stage_count index stage fds w of
        ((r, pid), w1) \<Rightarrow>
          if r < 0
          then let w2 = write_texts api 2 [''sh: '', stage_name stage, '': ''] w1
               in ((127, []), write_texts api 2 [ap_strerror api (ap_get_errno api w2), [newline]] w2)
          else (case spawn_stages api pipes last_status stage_count (index + 1) rest w1 of
                  ((status, pids), w2) \<Rightarrow> ((status, pid # pids), w2)))"

definition close_pipes :: "'w cb_api \<Rightarrow> (int \<times> int) list \<Rightarrow> 'w \<Rightarrow> 'w" where
  "close_pipes api pipes w = fold (\<lambda>(i, out) w. snd (ap_close api out (snd (ap_close api i w)))) pipes w"

definition close_redirections :: "'w cb_api \<Rightarrow> (int \<times> int) list \<Rightarrow> 'w \<Rightarrow> 'w" where
  "close_redirections api fds w = fold (\<lambda>(i, out) w. close_if_open api out (close_if_open api i w)) fds w"

text \<open>\<open>index\<close> counts the children; the status of the last stage is the status of the pipeline.\<close>

fun wait_all :: "'w cb_api \<Rightarrow> nat \<Rightarrow> nat \<Rightarrow> int list \<Rightarrow> int \<Rightarrow> 'w \<Rightarrow> int \<times> 'w" where
  "wait_all api stage_count index [] status w = (status, w)"
| "wait_all api stage_count index (pid # pids) status w =
     (case ap_waitpid api pid w of
        ((r, child_status), w1) \<Rightarrow>
          wait_all api stage_count (index + 1) pids
            (if r \<ge> 0 \<and> index + 1 = stage_count then child_status else status) w1)"

text \<open>
  The label \<^verbatim>\<open>cleanup\<close>. It closes the entries of \<^verbatim>\<open>inputs\<close> and \<^verbatim>\<open>outputs\<close> of every stage. When the redirections of
  a stage could not be opened, those of the later stages have never been set: \<open>unset\<close> stands for
  what these automatic variables hold.
\<close>

definition pipeline_cleanup ::
  "'w cb_api \<Rightarrow> (nat \<Rightarrow> int \<times> int) \<Rightarrow> nat \<Rightarrow> (int \<times> int) list \<Rightarrow> (int \<times> int) list \<Rightarrow> int list \<Rightarrow> int \<Rightarrow> 'w \<Rightarrow> int \<times> 'w" where
  "pipeline_cleanup api unset stage_count pipes fds pids status w =
     (let w1 = close_pipes api pipes w;
          w2 = close_redirections api (fds @ map unset [length fds..<stage_count]) w1;
          (status', w3) = wait_all api stage_count 0 pids status w2
      in (if length pids \<noteq> stage_count \<and> status' = 0 then 127 else status', w3))"

definition run_pipeline ::
  "'w cb_api \<Rightarrow> (nat \<Rightarrow> int \<times> int) \<Rightarrow> stage list \<Rightarrow> int \<Rightarrow> 'w \<Rightarrow> bool \<times> int \<times> 'w" where
  "run_pipeline api unset stages last_status w =
     (let n = length stages
      in if n = 1 \<and> is_builtin (stage_name (stages ! 0))
         then run_builtin_redirected api (stages ! 0) last_status w
         else case open_stages api stages w of
           ((ok, fds), w1) \<Rightarrow>
             if \<not> ok then (False, pipeline_cleanup api unset n [] fds [] 1 (report_errno api w1))
             else case create_pipes api (n - 1) w1 of
               ((ok, pipes), w2) \<Rightarrow>
                 if \<not> ok
                 then (False, pipeline_cleanup api unset n pipes fds [] 1 (shell_error api ''cannot create pipe'' w2))
                 else case spawn_stages api pipes last_status n 0 (zip stages fds) w2 of
                   ((status, pids), w3) \<Rightarrow> (False, pipeline_cleanup api unset n pipes fds pids status w3))"

section \<open>Commands\<close>

text \<open>
  The inner loop of \<^verbatim>\<open>execute_segment\<close> with the test that follows it: the stages of one pipeline, with the
  tokens that are left, or the message of the error. \<open>closed\<close> are the stages before the current one.
  The last branch of the loop (\<^verbatim>\<open>syntax error\<close>) is for a token of none of the six types.
\<close>

fun parse_pipeline :: "token list \<Rightarrow> stage list \<Rightarrow> stage \<Rightarrow> bool \<Rightarrow> string + (stage list \<times> token list)" where
  "parse_pipeline (TOKEN_WORD s # ts) closed cur expecting =
     (if length (s_argv cur) = SHELL_MAX_ARGS then Inl ''too many arguments''
      else parse_pipeline ts closed (cur\<lparr>s_argv := s_argv cur @ [s]\<rparr>) False)"
| "parse_pipeline (TOKEN_INPUT # TOKEN_WORD p # ts) closed cur expecting =
     parse_pipeline ts closed (cur\<lparr>s_input_path := Some p\<rparr>) expecting"
| "parse_pipeline (TOKEN_OUTPUT # TOKEN_WORD p # ts) closed cur expecting =
     parse_pipeline ts closed (cur\<lparr>s_output_path := Some p, s_append := False\<rparr>) expecting"
| "parse_pipeline (TOKEN_APPEND # TOKEN_WORD p # ts) closed cur expecting =
     parse_pipeline ts closed (cur\<lparr>s_output_path := Some p, s_append := True\<rparr>) expecting"
| "parse_pipeline (TOKEN_PIPE # ts) closed cur expecting =
     (if expecting \<or> s_argv cur = [] \<or> length closed + 1 = SHELL_MAX_STAGES then Inl ''invalid pipeline''
      else parse_pipeline ts (closed @ [cur]) no_stage True)"
| "parse_pipeline [] closed cur expecting =
     (if expecting \<or> s_argv cur = [] then Inl ''missing command'' else Inr (closed @ [cur], []))"
| "parse_pipeline (TOKEN_SEMICOLON # ts) closed cur expecting =
     (if expecting \<or> s_argv cur = [] then Inl ''missing command''
      else Inr (closed @ [cur], TOKEN_SEMICOLON # ts))"
| "parse_pipeline (redirection # ts) closed cur expecting = Inl ''redirection requires a path''"

lemma parse_pipeline_rest:
  "parse_pipeline ts closed cur expecting = Inr (stages, rest) \<Longrightarrow> length rest \<le> length ts"
  by (induction ts closed cur expecting rule: parse_pipeline.induct) (auto split: if_splits)

lemma parse_pipeline_first:
  assumes "parse_pipeline (t # ts) [] no_stage True = Inr (stages, rest)" shows "length rest < length (t # ts)"
  using assms by (cases "(t # ts, [] :: stage list, no_stage, True)" rule: parse_pipeline.cases)
    (auto simp: no_stage_def dest!: parse_pipeline_rest split: if_splits)

text \<open>The outer loop: one pipeline after the other, until one of them asks to exit.\<close>

function run_commands ::
  "'w cb_api \<Rightarrow> (nat \<Rightarrow> int \<times> int) \<Rightarrow> token list \<Rightarrow> int \<Rightarrow> 'w \<Rightarrow> bool \<times> int \<times> 'w" where
  "run_commands api unset ts status w =
     (case ts of
        [] \<Rightarrow> (False, status, w)
      | _ # _ \<Rightarrow>
          (case parse_pipeline ts [] no_stage True of
             Inl message \<Rightarrow> (False, 2, shell_error api message w)
           | Inr (stages, rest) \<Rightarrow>
               (case run_pipeline api unset stages status w of
                  (should_exit, status1, w1) \<Rightarrow>
                    if should_exit then (True, status1, w1)
                    else run_commands api unset (if take 1 rest = [TOKEN_SEMICOLON] then drop 1 rest else rest) status1 w1)))"
  by pat_completeness auto
termination
  by (relation "measure (\<lambda>(api, unset, ts, status, w). length ts)") (auto dest!: parse_pipeline_first)

declare run_commands.simps [simp del]

definition execute_segment ::
  "'w cb_api \<Rightarrow> (nat \<Rightarrow> int \<times> int) \<Rightarrow> string \<Rightarrow> int \<Rightarrow> 'w \<Rightarrow> bool \<times> int \<times> 'w" where
  "execute_segment api unset line last_status w =
     (case lex_line api line last_status w of
        (None, w1) \<Rightarrow> (False, 2, w1)
      | (Some tokens, w1) \<Rightarrow> run_commands api unset tokens last_status w1)"

section \<open>Lines\<close>

definition is_blank :: "byte \<Rightarrow> bool" where
  "is_blank c \<longleftrightarrow> c \<in> {CHR '' '', CHR 0x09, CHR 0x0D, newline}"

text \<open>What the loop of \<^verbatim>\<open>execute_line\<close> does at a separator or at the end; \<open>Inl\<close> when it gets no memory.\<close>

definition end_segment ::
  "'w cb_api \<Rightarrow> (nat \<Rightarrow> int \<times> int) \<Rightarrow> string \<Rightarrow> int \<Rightarrow> 'w \<Rightarrow> 'w + (bool \<times> int \<times> 'w)" where
  "end_segment api unset segment status w =
     (case ap_malloc api (length segment + 1) w of
        (granted, w1) \<Rightarrow>
          if \<not> granted then Inl w1
          else if list_all is_blank segment then Inr (False, status, w1)
          else Inr (execute_segment api unset segment status w1))"

definition next_quote :: "byte \<Rightarrow> byte \<Rightarrow> byte" where
  "next_quote quote c =
     (if c = single_quote \<and> quote \<noteq> double_quote then if quote = single_quote then NUL else single_quote
      else if c = double_quote \<and> quote \<noteq> single_quote then if quote = double_quote then NUL else double_quote
      else quote)"

fun line_loop ::
  "'w cb_api \<Rightarrow> (nat \<Rightarrow> int \<times> int) \<Rightarrow> string \<Rightarrow> byte \<Rightarrow> bool \<Rightarrow> int \<Rightarrow> string \<Rightarrow> 'w \<Rightarrow> bool \<times> int \<times> 'w" where
  "line_loop api unset segment quote escaped status [] w =
     (case end_segment api unset segment status w of
        Inl w1 \<Rightarrow> (False, 2, shell_error api ''out of memory'' w1)
      | Inr r \<Rightarrow> r)"
| "line_loop api unset segment quote escaped status (c # cursor) w =
     (if \<not> escaped \<and> quote = NUL \<and> c = CHR '';''
      then (case end_segment api unset segment status w of
              Inl w1 \<Rightarrow> (False, 2, shell_error api ''out of memory'' w1)
            | Inr (should_exit, status1, w2) \<Rightarrow>
                if should_exit then (True, status1, w2)
                else line_loop api unset [] NUL False status1 cursor w2)
      else if escaped then line_loop api unset (segment @ [c]) quote False status cursor w
      else if c = backslash \<and> quote \<noteq> single_quote then line_loop api unset (segment @ [c]) quote True status cursor w
      else line_loop api unset (segment @ [c]) (next_quote quote c) False status cursor w)"

definition execute_line ::
  "'w cb_api \<Rightarrow> (nat \<Rightarrow> int \<times> int) \<Rightarrow> string \<Rightarrow> int \<Rightarrow> 'w \<Rightarrow> bool \<times> int \<times> 'w" where
  "execute_line api unset line last_status w = line_loop api unset [] NUL False last_status line w"

section \<open>The programs\<close>

definition SHELL_LINE_MAX :: nat where "SHELL_LINE_MAX = 4096"

function read_line_loop :: "'w cb_api \<Rightarrow> nat \<Rightarrow> string \<Rightarrow> 'w \<Rightarrow> (int \<times> string) \<times> 'w" where
  "read_line_loop api n line w =
     (if length line + 1 < n
      then (case ap_read api 0 1 w of
              ((count, bytes), w1) \<Rightarrow>
                if count < 0 then ((-1, line), w1)
                else if count = 0 then ((if line = [] then 0 else 1, line), w1)
                else if take 1 bytes = [newline] then ((1, line), w1)
                else read_line_loop api n (line @ [if bytes = [] then NUL else hd bytes]) w1)
      else ((1, line), w))"
  by pat_completeness auto
termination
  by (relation "measure (\<lambda>(api, n, line, w). n - length line)") auto

declare read_line_loop.simps [simp del]

definition read_interactive_line :: "'w cb_api \<Rightarrow> nat \<Rightarrow> 'w \<Rightarrow> (int \<times> string) \<times> 'w" where
  "read_interactive_line api n w = read_line_loop api n [] (snd (shell_write api 1 ''cannedBSD$ '' w))"

text \<open>The loop of \<^verbatim>\<open>shell_main\<close> has no end of its own: \<open>None\<close> is a shell that runs forever.\<close>

partial_function (option) shell_loop :: "'w cb_api \<Rightarrow> (nat \<Rightarrow> int \<times> int) \<Rightarrow> int \<Rightarrow> 'w \<Rightarrow> (int \<times> 'w) option" where
  "shell_loop api unset status w =
     (case read_interactive_line api SHELL_LINE_MAX w of
        ((result, line), w1) \<Rightarrow>
          if result \<le> 0 then Some (status, w1)
          else (case execute_line api unset (c_string line) status w1 of
                  (should_exit, status1, w2) \<Rightarrow>
                    if should_exit then Some (status1, w2) else shell_loop api unset status1 w2))"

declare shell_loop.simps [code]

definition shell_main :: "'w cb_api \<Rightarrow> (nat \<Rightarrow> int \<times> int) \<Rightarrow> string list \<Rightarrow> 'w \<Rightarrow> (int \<times> 'w) option" where
  "shell_main api unset argv w =
     (if length argv \<ge> 3 \<and> argv ! 1 = ''-c''
      then (case execute_line api unset (argv ! 2) 0 w of (_, status, w1) \<Rightarrow> Some (status, w1))
      else if length argv \<noteq> 1 then Some (2, shell_error api ''usage: sh [-c command]'' w)
      else shell_loop api unset 0 w)"

end
