(* ===== verification/Shell_Props.thy ===== *)
theory Shell_Props
  imports Shell
begin

text \<open>
  The shell as a language: exit statuses, quoting, the division of a line into commands, and the sizes
  of its fixed arrays.
\<close>

section \<open>Exit statuses\<close>

lemma status_digits_value:
  "status_digits ds n = (if list_all is_digit ds then Some (if ds = [] then n else digits_value ds n mod 256) else None)"
proof (induction ds arbitrary: n)
  case (Cons c cs)
  have "digits_value cs (m mod 256) mod 256 = digits_value cs m mod 256" for m
  proof (induction cs arbitrary: m)
    case (Cons d ds)
    let ?x = "of_char d - 48 :: nat"
    have "digits_value ds (10 * (m mod 256) + ?x) mod 256 = digits_value ds ((10 * (m mod 256) + ?x) mod 256) mod 256"
      using Cons.IH by simp
    also have "(10 * (m mod 256) + ?x) mod 256 = (10 * m + ?x) mod 256" by (metis mod_add_left_eq mod_mult_right_eq)
    also have "digits_value ds ((10 * m + ?x) mod 256) mod 256 = digits_value ds (10 * m + ?x) mod 256" using Cons.IH by simp
    finally show ?case by simp
  qed simp
  then show ?case using Cons by (auto simp: mult.commute)
qed simp

text \<open>A reference reading: an optional sign and a non-empty row of digits, modulo 256.\<close>

definition exit_status_of :: "string \<Rightarrow> int option" where
  "exit_status_of s =
     (let digits = after_sign s; n = int (digits_value digits 0)
      in if digits \<noteq> [] \<and> list_all is_digit digits then Some ((if take 1 s = ''-'' then - n else n) mod 256) else None)"

lemma parse_exit_status_eq: "parse_exit_status s = exit_status_of s"
proof -
  have "(- int (n mod 256)) mod 256 = (- int n) mod 256" "int (n mod 256) = int n mod 256" for n
    by (simp_all add: zmod_int mod_minus_eq)
  then show ?thesis
    by (cases "after_sign s")
      (simp_all add: parse_exit_status_def exit_status_of_def Let_def status_digits_value del: status_digits.simps digits_value.simps)
qed

text \<open>
  \<^verbatim>\<open>parse_exit_status\<close> accepts exactly an optional sign followed by at least one digit, and yields the
  number it denotes modulo 256 (for a negative number the representative between 0 and 255), however
  long the row of digits is: the accumulator never wraps.
\<close>

theorem parse_exit_status_reference: "parse_exit_status s = exit_status_of s"
  by (rule parse_exit_status_eq)

lemma parse_decimal_nat: "parse_exit_status (decimal_nat n) = Some (int n mod 256)"
proof -
  note d = decimal_nat_digits [of n]
  obtain c cs where c: "decimal_nat n = c # cs" using d by (cases "decimal_nat n") auto
  then have "is_digit c" using d by simp
  then have "take 1 (decimal_nat n) \<noteq> ''+''" "take 1 (decimal_nat n) \<noteq> ''-''" using c by (auto simp: is_digit_def)
  then show ?thesis using d by (simp add: parse_exit_status_eq exit_status_of_def after_sign_def digits_value_decimal)
qed

text \<open>
  A builtin command in a pipeline runs in a process of its own, which gets the last status as text.
  Reading that text gives the status back, modulo 256.
\<close>

theorem last_status_roundtrip: "parse_exit_status (decimal i) = Some (i mod 256)"
proof (cases "i < 0")
  case True
  note d = decimal_nat_digits [of "nat (- i)"]
  show ?thesis using True d
    by (simp add: parse_exit_status_eq exit_status_of_def after_sign_def decimal_def digits_value_decimal)
next
  case False
  then show ?thesis by (simp add: decimal_def parse_decimal_nat)
qed

section \<open>The word buffer\<close>

definition grants :: "'w cb_api \<Rightarrow> bool" where
  "grants api \<longleftrightarrow> (\<forall>n w. fst (ap_malloc api n w))"

definition buffer_ok :: "buffer \<Rightarrow> bool" where
  "buffer_ok b \<longleftrightarrow> (if b_capacity b = 0 then b_bytes b = [] else length (b_bytes b) < b_capacity b)"

lemma double_until_ge: "0 < n \<Longrightarrow> m \<le> double_until n m \<and> n \<le> double_until n m"
proof (induction n m rule: double_until.induct)
  case (1 n m)
  then show ?case by (subst (1 2) double_until.simps) auto
qed

lemma append_bytes_fits:
  assumes "append_bytes api b bytes w = (r, w')" "buffer_ok b"
  shows "(grants api \<longrightarrow> r \<noteq> None) \<and>
    (\<forall>b'. r = Some b' \<longrightarrow> b_bytes b' = b_bytes b @ bytes \<and> 0 < b_capacity b' \<and> buffer_ok b')"
proof (cases "length (b_bytes b) + length bytes + 1 > b_capacity b")
  case True
  let ?n = "double_until (if b_capacity b = 0 then 32 else b_capacity b) (length (b_bytes b) + length bytes + 1)"
  have "length (b_bytes b) + length bytes + 1 \<le> ?n" using double_until_ge by simp
  moreover have "fst (ap_malloc api ?n w)" if "grants api" using that by (simp add: grants_def)
  ultimately show ?thesis using assms(1) True
    by (auto simp: append_bytes_def Let_def buffer_ok_def split: prod.splits if_splits)
next
  case False
  then show ?thesis using assms by (auto simp: append_bytes_def Let_def buffer_ok_def)
qed

lemma append_bytes_granted:
  assumes "grants api" "buffer_ok b"
  shows "\<exists>b' w'. append_bytes api b bytes w = (Some b', w') \<and> b_bytes b' = b_bytes b @ bytes \<and> 0 < b_capacity b' \<and> buffer_ok b'"
proof -
  obtain r w' where r: "append_bytes api b bytes w = (r, w')" by fastforce
  show ?thesis using append_bytes_fits [OF r assms(2)] assms(1) r by auto
qed

section \<open>A small world\<close>

text \<open>
  An instance of the table of calls on which the theorems below are tried: one byte of input at a
  time, everything written is kept, a table of descriptors, an environment, and memory without limit.
  Only the path \<open>missing\<close> cannot be opened.
\<close>

record bench =
  be_input :: string
  be_output :: "(int \<times> string) list"
  be_env :: "(string \<times> string) list"
  be_fds :: "(int \<times> string) list"

definition free_fd :: "(int \<times> string) list \<Rightarrow> int" where
  "free_fd fds = int (hd [n \<leftarrow> [0..<64]. int n \<notin> set (map fst fds)])"

definition set_fds :: "bench \<Rightarrow> (int \<times> string) list \<Rightarrow> bench" where
  "set_fds w fds = w\<lparr>be_fds := fds\<rparr>"

definition bench_api :: "bench cb_api" where
  "bench_api = \<lparr>
     ap_spawn = (\<lambda>name argv actions w. ((0, 7), w)),
     ap_waitpid = (\<lambda>pid w. ((pid, 3), w)),
     ap_open = (\<lambda>p flags mode w. if p = ''missing'' then (-1, w) else (free_fd (be_fds w), set_fds w ((free_fd (be_fds w), p) # be_fds w))),
     ap_close = (\<lambda>d w. (0, set_fds w (filter (\<lambda>e. fst e \<noteq> d) (be_fds w)))),
     ap_read = (\<lambda>d n w. ((if be_input w = [] then 0 else 1, take 1 (be_input w)), w\<lparr>be_input := drop 1 (be_input w)\<rparr>)),
     ap_write = (\<lambda>d s w. (int (length s), w\<lparr>be_output := be_output w @ [(d, s)]\<rparr>)),
     ap_dup = (\<lambda>d w. case map_of (be_fds w) d of None \<Rightarrow> (-1, w) | Some f \<Rightarrow> (free_fd (be_fds w), set_fds w ((free_fd (be_fds w), f) # be_fds w))),
     ap_dup2 = (\<lambda>d e w. case map_of (be_fds w) d of None \<Rightarrow> (-1, w) | Some f \<Rightarrow> (e, set_fds w ((e, f) # filter (\<lambda>x. fst x \<noteq> e) (be_fds w)))),
     ap_pipe = (\<lambda>w. ((-1, 0, 0), w)),
     ap_chdir = (\<lambda>p w. (0, w)),
     ap_getcwd = (\<lambda>n w. (Some ''/'', w)),
     ap_getenv = (\<lambda>name w. (map_of (be_env w) name, w)),
     ap_setenv = (\<lambda>name v over w. (0, w\<lparr>be_env := (name, v) # be_env w\<rparr>)),
     ap_unsetenv = (\<lambda>name w. (0, w\<lparr>be_env := filter (\<lambda>e. fst e \<noteq> name) (be_env w)\<rparr>)),
     ap_strerror = (\<lambda>e. ''error''),
     ap_get_errno = (\<lambda>w. 2),
     ap_malloc = (\<lambda>n w. (True, w))\<rparr>"

definition bench_start :: bench where
  "bench_start = \<lparr>be_input = ''pwd'' @ [newline] @ ''exit 7'' @ [newline], be_output = [],
     be_env = [(''HOME'', ''/root'')], be_fds = [(0, ''tty''), (1, ''tty''), (2, ''tty'')]\<rparr>"

lemma bench_grants: "grants bench_api"
  by (simp add: grants_def bench_api_def)

section \<open>Quoting\<close>

text \<open>How a user quotes a word: single quotes around it, and \<^verbatim>\<open>'\''\<close> for each single quote in it.\<close>

definition quoted_body :: "string \<Rightarrow> string" where
  "quoted_body s =
     concat (map (\<lambda>c. if c = single_quote then [single_quote, backslash, single_quote, single_quote] else [c]) s)"

definition quote_word :: "string \<Rightarrow> string" where
  "quote_word s = single_quote # quoted_body s @ [single_quote]"

lemma lex_quoted_body:
  assumes "grants api" "buffer_ok b"
  shows "\<exists>b' w'. lex_word api st single_quote True b (quoted_body s @ single_quote # rest) w = lex_word api st NUL True b' rest w' \<and>
    b_bytes b' = b_bytes b @ s \<and> buffer_ok b'"
  using assms(2)
proof (induction s arbitrary: b w)
  case Nil
  have "lex_word api st single_quote True b (single_quote # rest) w = lex_word api st NUL True b rest w"
    by (subst lex_word.simps) simp
  then show ?case using Nil by (auto simp: quoted_body_def)
next
  case (Cons c s)
  let ?tail = "quoted_body s @ single_quote # rest"
  obtain b1 w1 where b1: "append_bytes api b [c] w = (Some b1, w1)" "b_bytes b1 = b_bytes b @ [c]" "buffer_ok b1"
    using append_bytes_granted [OF assms(1) Cons.prems] by blast
  have "lex_word api st single_quote True b (quoted_body (c # s) @ single_quote # rest) w = lex_word api st single_quote True b1 ?tail w1"
  proof (cases "c = single_quote")
    case True
    have "lex_word api st single_quote True b (single_quote # backslash # single_quote # single_quote # ?tail) w =
        lex_word api st NUL True b (backslash # single_quote # single_quote # ?tail) w" by (subst lex_word.simps) simp
    also have "\<dots> = lex_word api st NUL True b1 (single_quote # ?tail) w1"
      using b1(1) True by (subst lex_word.simps) (simp add: ends_word_def is_space_def)
    also have "\<dots> = lex_word api st single_quote True b1 ?tail w1"
      by (subst lex_word.simps) (simp add: ends_word_def is_space_def)
    finally show ?thesis using True by (simp add: quoted_body_def)
  next
    case False
    then show ?thesis using b1(1) by (subst lex_word.simps) (simp add: quoted_body_def)
  qed
  then show ?case using Cons.IH [OF b1(3), of w1] b1(2) by auto
qed

lemma lex_quoted_word:
  assumes "grants api" "rest = [] \<or> ends_word (hd rest)"
  shows "\<exists>w'. lex_word api st NUL False no_buffer (quote_word s @ rest) w = (Inr (s, rest), w')"
proof -
  have nb: "buffer_ok no_buffer" by (simp add: buffer_ok_def no_buffer_def)
  have "lex_word api st NUL False no_buffer (quote_word s @ rest) w =
      lex_word api st single_quote True no_buffer (quoted_body s @ single_quote # rest) w"
    by (subst lex_word.simps) (simp add: quote_word_def ends_word_def is_space_def)
  then obtain b w1 where e: "lex_word api st NUL False no_buffer (quote_word s @ rest) w = lex_word api st NUL True b rest w1"
    and b: "b_bytes b = s" "buffer_ok b"
    using lex_quoted_body [OF assms(1) nb, of st s rest w] by (auto simp: no_buffer_def)
  obtain granted w2 where m: "ap_malloc api 1 w1 = (granted, w2)" by fastforce
  have granted using assms(1) m unfolding grants_def by (metis fst_conv)
  then have "\<exists>w2. finish_word api NUL True b rest w1 = (Inr (s, rest), w2)"
    using m b by (auto simp: finish_word_def buffer_ok_def split: if_splits)
  moreover have "lex_word api st NUL True b rest w1 = finish_word api NUL True b rest w1"
    using assms(2) by (subst lex_word.simps) (auto split: list.split)
  ultimately show ?thesis using e by simp
qed

lemma lex_quoted_words:
  assumes "grants api" "length toks + length ws \<le> SHELL_MAX_TOKENS"
  shows "\<exists>w'. lex_tokens api st (concat (map (\<lambda>s. quote_word s @ '' '') ws)) toks w = (Inr (toks @ map TOKEN_WORD ws), w')"
  using assms(2)
proof (induction ws arbitrary: toks w)
  case Nil
  then show ?case by (subst lex_tokens.simps) simp
next
  case (Cons s ws)
  let ?rest = "'' '' @ concat (map (\<lambda>s. quote_word s @ '' '') ws)"
  have sp: "is_space (CHR '' '')" "\<not> is_space single_quote" by (simp_all add: is_space_def)
  obtain w1 where w1: "lex_word api st NUL False no_buffer (quote_word s @ ?rest) w = (Inr (s, ?rest), w1)"
    using lex_quoted_word [OF assms(1), of ?rest st s w] sp by (auto simp: ends_word_def)
  have "lex_tokens api st (quote_word s @ ?rest) toks w = lex_tokens api st ?rest (toks @ [TOKEN_WORD s]) w1"
    using w1 Cons.prems sp by (subst lex_tokens.simps) (simp add: quote_word_def)
  also have "\<dots> = lex_tokens api st (concat (map (\<lambda>s. quote_word s @ '' '') ws)) (toks @ [TOKEN_WORD s]) w1"
    using sp by (subst (1 2) lex_tokens.simps) simp
  finally show ?case using Cons.IH [of "toks @ [TOKEN_WORD s]" w1] Cons.prems by simp
qed

text \<open>
  C20. Quoting and lexing are inverse: any words, of any bytes, written in single quotes (a quote in
  them as \<^verbatim>\<open>'\''\<close>) and separated by spaces, are read back as exactly those words, as long as there are at
  most 128 of them and memory is granted. Nothing in a quoted word is expanded or ends it.
\<close>

theorem quoted_words_roundtrip:
  assumes "grants api" "length ws \<le> SHELL_MAX_TOKENS"
  shows "fst (lex_line api (concat (map (\<lambda>s. quote_word s @ '' '') ws)) last_status w) = Some (map TOKEN_WORD ws)"
  using lex_quoted_words [OF assms(1), of "[]" ws last_status w] assms(2) by (auto simp: lex_line_def)

theorem quoted_words_roundtrip_witness:
  "fst (lex_line bench_api (concat (map (\<lambda>s. quote_word s @ '' '') [''a b'', [], [single_quote, CHR ''$'', CHR '';'']])) 0 bench_start) =
     Some [TOKEN_WORD ''a b'', TOKEN_WORD [], TOKEN_WORD [single_quote, CHR ''$'', CHR '';'']]"
  using quoted_words_roundtrip [OF bench_grants, of "[''a b'', [], [single_quote, CHR ''$'', CHR '';'']]" 0 bench_start]
  by (simp add: SHELL_MAX_TOKENS_def)

section \<open>Commands of a line\<close>

text \<open>
  A reference for \<^verbatim>\<open>execute_line\<close>. The state of quoting after a character is the open quote and whether the
  next character is escaped. A text is \<open>protected\<close> when every semicolon in it is quoted or escaped.
\<close>

definition quote_state :: "byte \<times> bool \<Rightarrow> byte \<Rightarrow> byte \<times> bool" where
  "quote_state = (\<lambda>(q, esc) c.
     if esc then (q, False) else if c = backslash \<and> q \<noteq> single_quote then (q, True) else (next_quote q c, False))"

fun protected :: "byte \<times> bool \<Rightarrow> string \<Rightarrow> bool" where
  "protected qs [] \<longleftrightarrow> True"
| "protected qs (c # cs) \<longleftrightarrow> \<not> (c = CHR '';'' \<and> qs = (NUL, False)) \<and> protected (quote_state qs c) cs"

lemma protected_append:
  "protected qs (xs @ ys) \<longleftrightarrow> protected qs xs \<and> protected (foldl quote_state qs xs) ys"
  by (induction xs arbitrary: qs) auto

definition plain_char :: "byte \<Rightarrow> bool" where
  "plain_char c \<longleftrightarrow> c \<notin> {single_quote, double_quote, backslash, CHR '';''}"

lemma quote_state_plain [simp]: "plain_char c \<Longrightarrow> quote_state (q, False) c = (q, False)"
  by (simp add: quote_state_def plain_char_def next_quote_def)

lemma protected_plain:
  "list_all plain_char xs \<Longrightarrow> protected (q, False) (xs @ ys) \<longleftrightarrow> protected (q, False) ys"
  by (induction xs) (auto simp: plain_char_def [of "CHR '';''"])

lemma name_char_plain: "is_name_char c \<Longrightarrow> plain_char c"
  by (auto simp: is_name_char_def is_alnum_def is_alpha_def plain_char_def)

lemma check_name_plain: "check_name braced name = Exp_name n \<Longrightarrow> list_all plain_char name"
proof (cases name)
  case (Cons c cs)
  assume "check_name braced name = Exp_name n"
  then have "is_alpha c \<or> c = underscore" "\<forall>d\<in>set cs. is_name_char d" using Cons by (auto simp: check_name_def split: if_splits)
  then have "\<forall>d\<in>set name. is_name_char d" using Cons by (auto simp: is_name_char_def is_alnum_def)
  then show ?thesis using name_char_plain by (simp add: list_all_iff)
qed simp

lemma scan_expansion_plain:
  assumes "scan_expansion cursor = (e, rest)" "e \<noteq> Exp_bad"
  shows "\<exists>xs. cursor = xs @ rest \<and> list_all plain_char xs"
proof -
  have p: "plain_char (CHR ''?'')" "plain_char (CHR ''{'')" "plain_char (CHR ''}'')" by (simp_all add: plain_char_def)
  consider (status) "take 1 cursor = ''?''" | (brace) "take 1 cursor = ''{''" | (bare) "take 1 cursor \<noteq> ''?''" "take 1 cursor \<noteq> ''{''" by blast
  then show ?thesis
  proof cases
    case status
    then have "cursor = ''?'' @ rest" using assms append_take_drop_id [of 1 cursor] by (simp add: scan_expansion_def)
    then show ?thesis using p by (intro exI [of _ "''?''"]) simp
  next
    case brace
    define start where "start = drop 1 cursor"
    have c: "cursor = ''{'' @ start" using brace append_take_drop_id [of 1 cursor] by (simp add: start_def)
    let ?P = "\<lambda>c. c \<noteq> CHR ''}''"
    obtain y where y: "dropWhile ?P start = y # rest" and e: "e = check_name True (takeWhile ?P start)"
      using assms brace by (auto simp: scan_expansion_def Let_def start_def split: list.splits)
    have "y = CHR ''}''" using y by (metis (mono_tags) hd_dropWhile list.discI list.sel(1))
    then have s: "start = takeWhile ?P start @ ''}'' @ rest" using y takeWhile_dropWhile_id [of ?P start] by simp
    obtain n where "check_name True (takeWhile ?P start) = Exp_name n"
      using e assms(2) by (auto simp: check_name_def split: if_splits)
    then have "list_all plain_char (''{'' @ takeWhile ?P start @ ''}'')" using check_name_plain p by auto
    moreover have "cursor = (''{'' @ takeWhile ?P start @ ''}'') @ rest" using c s by simp
    ultimately show ?thesis by blast
  next
    case bare
    then have "rest = dropWhile is_name_char cursor" using assms(1) by (simp add: scan_expansion_def)
    then have "cursor = takeWhile is_name_char cursor @ rest" by simp
    moreover have "list_all plain_char (takeWhile is_name_char cursor)"
      using name_char_plain by (auto simp: list_all_iff dest: set_takeWhileD)
    ultimately show ?thesis by blast
  qed
qed

lemma expansion_protected:
  assumes "append_expansion api cursor st b w = ((Some b', rest), w')" "protected (q, False) cursor"
  shows "protected (q, False) rest"
proof -
  obtain e where e: "scan_expansion cursor = (e, rest)"
    using append_expansion_rest [OF assms(1)] by (metis prod.collapse)
  moreover have "e \<noteq> Exp_bad" using assms(1) e by (auto simp: append_expansion_def)
  ultimately show ?thesis using scan_expansion_plain assms(2) protected_plain by metis
qed

lemma finish_word_quote: "finish_word api q saw b cursor w = (Inr (s, r), w') \<Longrightarrow> q = NUL \<and> r = cursor"
  by (auto simp: finish_word_def split: if_splits prod.splits)

lemma lex_word_protected:
  "lex_word api st q saw b cursor w = (Inr (s, r), w') \<Longrightarrow> protected (q, False) cursor \<Longrightarrow> protected (NUL, False) r"
proof (induction "length cursor" arbitrary: q saw b cursor w rule: less_induct)
  case less
  show ?case
  proof (cases cursor)
    case Nil
    then show ?thesis using less.prems(1) by (auto simp: lex_word.simps [of api st q saw b "[]" w] dest: finish_word_quote)
  next
    case (Cons c rest)
    have ih: "lex_word api st q' True b' cs w1 = (Inr (s, r), w') \<Longrightarrow> length cs < length cursor \<Longrightarrow>
        protected (q', False) cs \<Longrightarrow> protected (NUL, False) r" for q' b' cs w1
      using less.hyps by blast
    have pr: "protected (quote_state (q, False) c) rest" using less.prems(2) Cons by simp
    note e = less.prems(1) [unfolded Cons lex_word.simps [of api st q saw b "c # rest" w]]
    consider (stop) "q = NUL \<and> ends_word c"
      | (quote) "\<not> (q = NUL \<and> ends_word c)" "c = single_quote \<and> q \<noteq> double_quote \<or> c = double_quote \<and> q \<noteq> single_quote"
      | (escape) "\<not> (q = NUL \<and> ends_word c)" "c = backslash" "q \<noteq> single_quote"
      | (other) "\<not> (q = NUL \<and> ends_word c)" "c = backslash \<longrightarrow> q = single_quote"
          "\<not> (c = single_quote \<and> q \<noteq> double_quote \<or> c = double_quote \<and> q \<noteq> single_quote)"
      by blast
    then show ?thesis
    proof cases
      case stop
      then have "finish_word api q saw b cursor w = (Inr (s, r), w')" using e Cons by simp
      then show ?thesis using less.prems(2) by (auto dest: finish_word_quote)
    next
      case quote
      then have "lex_word api st (next_quote q c) True b rest w = (Inr (s, r), w')"
        using e by (auto simp: next_quote_def split: if_splits)
      moreover have "quote_state (q, False) c = (next_quote q c, False)" using quote by (auto simp: quote_state_def)
      ultimately show ?thesis using ih pr Cons by simp
    next
      case escape
      then show ?thesis using e pr Cons by (auto simp: quote_state_def split: list.splits prod.splits option.splits intro: ih)
    next
      case other
      then have qs: "quote_state (q, False) c = (q, False)" by (auto simp: quote_state_def next_quote_def)
      then have pr': "protected (q, False) rest" using pr by simp
      show ?thesis
      proof (cases "c = CHR ''$'' \<and> q \<noteq> single_quote")
        case True
        then have "\<not> (q = NUL \<and> ends_word (CHR ''$''))" using other by simp
        then obtain b1 rest2 w1 where x: "append_expansion api rest st b w = ((Some b1, rest2), w1)"
          "lex_word api st q True b1 rest2 w1 = (Inr (s, r), w')"
          using e True by (auto split: prod.splits option.splits if_splits)
        then show ?thesis
          using ih [OF x(2)] append_expansion_length [OF x(1)] expansion_protected [OF x(1) pr'] Cons by simp
      next
        case False
        then show ?thesis
          using e other pr' Cons by (auto split: if_splits prod.splits option.splits intro: ih)
      qed
    qed
  qed
qed

lemma space_plain: "is_space c \<Longrightarrow> plain_char c"
  by (auto simp: is_space_def plain_char_def)

lemma operator_plain: "c \<in> {CHR ''|'', CHR ''<'', CHR ''>''} \<Longrightarrow> plain_char c"
  by (auto simp: plain_char_def)

lemma protected_spaces: "protected (q, False) (dropWhile is_space line) = protected (q, False) line"
proof -
  have "list_all plain_char (takeWhile is_space line)" using space_plain by (auto simp: list_all_iff dest: set_takeWhileD)
  from protected_plain [OF this, of q "dropWhile is_space line"] show ?thesis by simp
qed

lemma lex_tokens_protected:
  "lex_tokens api st line toks w = (Inr ts, w') \<Longrightarrow> protected (NUL, False) line \<Longrightarrow> TOKEN_SEMICOLON \<notin> set toks \<Longrightarrow>
   TOKEN_SEMICOLON \<notin> set ts"
proof (induction api st line toks w rule: lex_tokens.induct)
  case (1 api st line toks w)
  note plain = operator_plain
  have pr: "protected (NUL, False) (dropWhile is_space line)" using "1.prems"(2) by (simp add: protected_spaces)
  note e = "1.prems"(1) [unfolded lex_tokens.simps [of api st line toks w]]
  show ?case
  proof (cases "dropWhile is_space line")
    case Nil
    then show ?thesis using e "1.prems"(3) by (auto simp del: dropWhile_eq_Nil_conv)
  next
    case (Cons c rest)
    have semi: "c \<noteq> CHR '';''" using pr Cons by auto
    have rest: "protected (NUL, False) rest" if "c \<in> {CHR ''|'', CHR ''<'', CHR ''>''}"
      using pr Cons plain that by auto
    have rest1: "protected (NUL, False) (drop 1 rest)" if "c = CHR ''>''" "take 1 rest = ''>''"
    proof -
      have "rest = CHR ''>'' # drop 1 rest" using that(2) append_take_drop_id [of 1 rest] by simp
      then show ?thesis using rest that(1) plain by (metis insertCI protected.simps(2) quote_state_plain)
    qed
    show ?thesis
    proof (cases "c \<in> {CHR ''|'', CHR ''<'', CHR ''>''}")
      case True
      then show ?thesis
        using e "1.IH"(1,3,4,5) [OF Cons] rest rest1 "1.prems"(3) Cons
        by (auto split: if_splits simp del: take_Suc drop_Suc)
    next
      case False
      then obtain word rest2 w1 where l: "lex_word api st NUL False no_buffer (c # rest) w = (Inr (word, rest2), w1)"
        and t: "lex_tokens api st rest2 (toks @ [TOKEN_WORD word]) w1 = (Inr ts, w')" and n: "length toks \<noteq> SHELL_MAX_TOKENS"
        using e semi Cons by (auto split: if_splits prod.splits sum.splits)
      have "protected (NUL, False) rest2" using lex_word_protected [OF l] pr Cons by simp
      then show ?thesis using "1.IH"(6) [OF Cons n] False semi l t "1.prems"(3) by auto
    qed
  qed
qed

text \<open>What is left after a pipeline starts with a semicolon, or there is nothing left.\<close>

lemma parse_pipeline_stops:
  "parse_pipeline ts closed cur expecting = Inr (stages, rest) \<Longrightarrow> TOKEN_SEMICOLON \<notin> set ts \<Longrightarrow> rest = []"
  by (induction ts closed cur expecting rule: parse_pipeline.induct) (auto split: if_splits)

text \<open>A segment is at most one pipeline.\<close>

definition run_segment ::
  "'w cb_api \<Rightarrow> (nat \<Rightarrow> int \<times> int) \<Rightarrow> string \<Rightarrow> int \<Rightarrow> 'w \<Rightarrow> bool \<times> int \<times> 'w" where
  "run_segment api unset segment status w =
     (case lex_line api segment status w of
        (None, w1) \<Rightarrow> (False, 2, w1)
      | (Some ts, w1) \<Rightarrow>
          if ts = [] then (False, status, w1)
          else (case parse_pipeline ts [] no_stage True of
                  Inl message \<Rightarrow> (False, 2, shell_error api message w1)
                | Inr (stages, _) \<Rightarrow> run_pipeline api unset stages status w1))"

lemma execute_segment_protected:
  assumes "protected (NUL, False) segment"
  shows "execute_segment api unset segment status w = run_segment api unset segment status w"
proof -
  obtain r w1 where l: "lex_tokens api status segment [] w = (r, w1)" by fastforce
  show ?thesis
  proof (cases r)
    case (Inl e)
    then show ?thesis using l by (simp add: execute_segment_def run_segment_def lex_line_def)
  next
    case (Inr ts)
    have semi: "TOKEN_SEMICOLON \<notin> set ts" using lex_tokens_protected [of api status segment "[]" w ts w1] l Inr assms by simp
    have nil: "run_commands api unset [] st w' = (False, st, w')" for st w' by (simp add: run_commands.simps)
    have "run_commands api unset ts status w1 =
        (if ts = [] then (False, status, w1)
         else (case parse_pipeline ts [] no_stage True of
                 Inl message \<Rightarrow> (False, 2, shell_error api message w1)
               | Inr (stages, _) \<Rightarrow> run_pipeline api unset stages status w1))"
    proof (cases ts)
      case Nil
      then show ?thesis by (simp add: nil)
    next
      case (Cons t rest)
      then show ?thesis
        using parse_pipeline_stops [OF _ semi]
        by (subst run_commands.simps) (auto simp: nil split: sum.split prod.split dest!: parse_pipeline_stops [OF _ semi [unfolded Cons]])
    qed
    then show ?thesis using l Inr by (simp add: execute_segment_def run_segment_def lex_line_def)
  qed
qed

text \<open>The line cut at its unprotected semicolons.\<close>

fun split_line :: "byte \<times> bool \<Rightarrow> string \<Rightarrow> string list" where
  "split_line qs [] = [[]]"
| "split_line qs (c # cs) =
     (if c = CHR '';'' \<and> qs = (NUL, False) then [] # split_line (NUL, False) cs
      else (case split_line (quote_state qs c) cs of
              [] \<Rightarrow> [[c]]
            | part # parts \<Rightarrow> (c # part) # parts))"

fun join_segments :: "string list \<Rightarrow> string" where
  "join_segments [] = []"
| "join_segments [part] = part"
| "join_segments (part # parts) = part @ '';'' @ join_segments parts"

lemma split_line_not_Nil [simp]: "split_line qs cs \<noteq> []"
  by (induction cs arbitrary: qs) (auto split: list.split)

lemma split_line_join: "join_segments (split_line qs cs) = cs"
proof (induction cs arbitrary: qs)
  case (Cons c cs)
  obtain part parts where s: "split_line (quote_state qs c) cs = part # parts" by (cases "split_line (quote_state qs c) cs") auto
  obtain part' parts' where s': "split_line (NUL, False) cs = part' # parts'" by (cases "split_line (NUL, False) cs") auto
  have "join_segments ((c # part) # parts) = c # join_segments (part # parts)" by (cases parts) simp_all
  then show ?case using Cons.IH s s' by (metis (no_types, lifting) append_Cons append_Nil join_segments.simps(3) list.case(2) split_line.simps(2))
qed simp

lemma split_line_protected:
  assumes "split_line qs cs = part # parts"
  shows "protected qs part \<and> list_all (protected (NUL, False)) parts"
  using assms
proof (induction cs arbitrary: qs part parts)
  case (Cons c cs)
  obtain part1 parts1 where s: "split_line (quote_state qs c) cs = part1 # parts1" by (cases "split_line (quote_state qs c) cs") auto
  obtain part' parts' where s': "split_line (NUL, False) cs = part' # parts'" by (cases "split_line (NUL, False) cs") auto
  show ?case
  proof (cases "c = CHR '';'' \<and> qs = (NUL, False)")
    case True
    then have "part = []" "parts = part' # parts'" using Cons.prems s' by simp_all
    then show ?thesis using Cons.IH [OF s'] by simp
  next
    case False
    then have "part = c # part1" "parts = parts1" using Cons.prems s by auto
    then show ?thesis using Cons.IH [OF s] False by auto
  qed
qed simp

text \<open>The segments run one after the other, blank ones being skipped, until one asks to exit.\<close>

fun run_segments ::
  "'w cb_api \<Rightarrow> (nat \<Rightarrow> int \<times> int) \<Rightarrow> string list \<Rightarrow> int \<Rightarrow> 'w \<Rightarrow> bool \<times> int \<times> 'w" where
  "run_segments api unset [] status w = (False, status, w)"
| "run_segments api unset (part # parts) status w =
     (case ap_malloc api (length part + 1) w of
        (granted, w1) \<Rightarrow>
          if \<not> granted then (False, 2, shell_error api ''out of memory'' w1)
          else (case (if list_all is_blank part then (False, status, w1) else run_segment api unset part status w1) of
                  (should_exit, status1, w2) \<Rightarrow>
                    if should_exit then (True, status1, w2) else run_segments api unset parts status1 w2))"

lemma end_segment_protected:
  assumes "protected (NUL, False) part"
  shows "end_segment api unset part status w =
    (case ap_malloc api (length part + 1) w of
       (granted, w1) \<Rightarrow> if \<not> granted then Inl w1
         else Inr (if list_all is_blank part then (False, status, w1) else run_segment api unset part status w1))"
  using execute_segment_protected [OF assms] by (auto simp: end_segment_def split: prod.split)

lemma line_loop_segments:
  assumes "protected (NUL, False) done_part" "foldl quote_state (NUL, False) done_part = (q, esc)"
  shows "line_loop api unset done_part q esc status cs w =
    run_segments api unset ((done_part @ hd (split_line (q, esc) cs)) # tl (split_line (q, esc) cs)) status w"
  using assms
proof (induction cs arbitrary: done_part q esc status w)
  case Nil
  then show ?case by (auto simp: end_segment_protected split: prod.split)
next
  case (Cons c cs)
  show ?case
  proof (cases "c = CHR '';'' \<and> (q, esc) = (NUL, False)")
    case True
    have ih: "line_loop api unset [] NUL False st cs w' = run_segments api unset (split_line (NUL, False) cs) st w'" for st w'
      using Cons.IH [of "[]" NUL False] by simp
    show ?thesis using True Cons.prems ih by (auto simp: end_segment_protected split: prod.split sum.split)
  next
    case False
    obtain part parts where s: "split_line (quote_state (q, esc) c) cs = part # parts" by (cases "split_line (quote_state (q, esc) c) cs") auto
    obtain q' esc' where qs: "quote_state (q, esc) c = (q', esc')" by fastforce
    have "line_loop api unset done_part q esc status (c # cs) w = line_loop api unset (done_part @ [c]) q' esc' status cs w"
      using False qs by (auto simp: quote_state_def split: if_splits)
    moreover have "protected (NUL, False) (done_part @ [c])" using Cons.prems False by (auto simp: protected_append)
    moreover have "foldl quote_state (NUL, False) (done_part @ [c]) = (q', esc')" using Cons.prems qs by simp
    moreover have "split_line (q, esc) (c # cs) = (c # part) # parts" using False s by auto
    ultimately show ?thesis using Cons.IH [of "done_part @ [c]" q' esc' status w] s qs by (simp del: run_segments.simps line_loop.simps)
  qed
qed

text \<open>
  C19. A line is its commands. Cut a line at the semicolons that no quote and no backslash protects:
  \<^verbatim>\<open>execute_line\<close> runs the parts in order, each as at most one pipeline, with the status passed on from
  one to the next, and stops at the first that asks to exit. The two passes over the text (the search
  for separators and the lexer) agree on what is quoted, so the handling of a semicolon in
  \<^verbatim>\<open>execute_segment\<close> is never reached, and the parts are the whole line.
\<close>

theorem execute_line_segments:
  "execute_line api unset line last_status w = run_segments api unset (split_line (NUL, False) line) last_status w \<and>
   join_segments (split_line (NUL, False) line) = line \<and> list_all (protected (NUL, False)) (split_line (NUL, False) line)"
proof (intro conjI)
  show "execute_line api unset line last_status w = run_segments api unset (split_line (NUL, False) line) last_status w"
    using line_loop_segments [of "[]" NUL False api unset last_status line w] by (simp add: execute_line_def)
  show "join_segments (split_line (NUL, False) line) = line" by (rule split_line_join)
  obtain part parts where s: "split_line (NUL, False) line = part # parts" by (cases "split_line (NUL, False) line") auto
  then show "list_all (protected (NUL, False)) (split_line (NUL, False) line)"
    using split_line_protected [OF s] by simp
qed

section \<open>The fixed arrays\<close>

lemma lex_tokens_bound:
  "lex_tokens api st line toks w = (Inr ts, w') \<Longrightarrow> length toks \<le> SHELL_MAX_TOKENS \<Longrightarrow> length ts \<le> SHELL_MAX_TOKENS"
proof (induction api st line toks w rule: lex_tokens.induct)
  case (1 api st line toks w)
  note e = "1.prems"(1) [unfolded lex_tokens.simps [of api st line toks w]]
  show ?case
  proof (cases "dropWhile is_space line")
    case Nil
    then show ?thesis using e "1.prems"(2) by (auto simp del: dropWhile_eq_Nil_conv)
  next
    case (Cons c rest)
    then have n: "length toks \<noteq> SHELL_MAX_TOKENS" using e by auto
    note ih = "1.IH" [OF Cons n]
    have b: "length (toks @ [t]) \<le> SHELL_MAX_TOKENS" for t using n "1.prems"(2) by simp
    consider (op) "c \<in> {CHR ''|'', CHR '';'', CHR ''<'', CHR ''>''}" | (word) "c \<notin> {CHR ''|'', CHR '';'', CHR ''<'', CHR ''>''}" by blast
    then show ?thesis
    proof cases
      case op
      then show ?thesis using e ih(1-5) b n Cons by (auto split: if_splits)
    next
      case word
      then obtain s rest2 w1 where l: "lex_word api st NUL False no_buffer (c # rest) w = (Inr (s, rest2), w1)"
        and t: "lex_tokens api st rest2 (toks @ [TOKEN_WORD s]) w1 = (Inr ts, w')"
        using e n Cons by (auto split: if_splits prod.splits sum.splits)
      show ?thesis using ih(6) word l t b by auto
    qed
  qed
qed

definition stage_fits :: "stage \<Rightarrow> bool" where
  "stage_fits s \<longleftrightarrow> s_argv s \<noteq> [] \<and> length (s_argv s) \<le> SHELL_MAX_ARGS"

lemma parse_pipeline_bounds:
  assumes "parse_pipeline ts closed cur expecting = Inr (stages, rest)"
    "list_all stage_fits closed" "length closed < SHELL_MAX_STAGES" "length (s_argv cur) \<le> SHELL_MAX_ARGS"
  shows "stages \<noteq> [] \<and> length stages \<le> SHELL_MAX_STAGES \<and> list_all stage_fits stages"
  using assms
  by (induction ts closed cur expecting rule: parse_pipeline.induct)
    (auto split: if_splits simp: stage_fits_def no_stage_def SHELL_MAX_STAGES_def)

lemma length_close_pipe_actions: "length (close_pipe_actions pipes actions) = length actions + 2 * length pipes"
  by (induction pipes arbitrary: actions) (auto simp: close_pipe_actions_def add_action_def)

lemma stage_actions_bound: "length (stage_actions pipes fds i n) \<le> 2 * length pipes + 4"
  by (simp add: stage_actions_def Let_def length_close_pipe_actions add_action_def)

text \<open>
  C21. The fixed arrays of the shell are large enough. A line that the lexer accepts has at most 128
  tokens; a command that the parser accepts has between 1 and 16 stages, each with between 1 and 32
  arguments (so \<^verbatim>\<open>argv[0]\<close> exists); and no stage needs more than the \<open>2 + 2 * 15 + 2\<close> spawn actions there is
  room for.
\<close>

theorem shell_arrays_suffice:
  assumes "lex_line api line last_status w = (Some ts, w')" "parse_pipeline ts [] no_stage True = Inr (stages, rest)"
    "length pipes = length stages - 1"
  shows "length ts \<le> 128 \<and> 1 \<le> length stages \<and> length stages \<le> 16 \<and>
    list_all (\<lambda>s. 1 \<le> length (s_argv s) \<and> length (s_argv s) \<le> 32) stages \<and>
    length (stage_actions pipes fds i (length stages)) \<le> 2 + 2 * 15 + 2"
proof -
  have t: "length ts \<le> 128"
    using assms(1) lex_tokens_bound [of api last_status line "[]" w] by (auto simp: lex_line_def SHELL_MAX_TOKENS_def split: sum.splits prod.splits)
  have b: "stages \<noteq> []" "length stages \<le> 16" "list_all stage_fits stages"
    using parse_pipeline_bounds [OF assms(2)] by (simp_all add: no_stage_def SHELL_MAX_STAGES_def)
  have "length (stage_actions pipes fds i (length stages)) \<le> 2 * length pipes + 4" by (rule stage_actions_bound)
  also have "\<dots> \<le> 2 + 2 * 15 + 2" using b(2) assms(3) by simp
  finally show ?thesis using t b by (cases stages) (auto simp: stage_fits_def SHELL_MAX_ARGS_def list_all_iff Suc_le_eq)
qed

theorem shell_arrays_suffice_witness:
  "\<exists>ts stages. fst (lex_line bench_api ''echo a|tr a b'' 0 bench_start) = Some ts \<and>
     parse_pipeline ts [] no_stage True = Inr (stages, []) \<and> length ts \<le> 128 \<and> length stages \<le> 16 \<and>
     length (stage_actions [(3, 4)] (-1, -1) 0 (length stages)) \<le> 2 + 2 * 15 + 2"
proof -
  let ?ts = "[TOKEN_WORD ''echo'', TOKEN_WORD ''a'', TOKEN_PIPE, TOKEN_WORD ''tr'', TOKEN_WORD ''a'', TOKEN_WORD ''b'']"
  have l: "fst (lex_line bench_api ''echo a|tr a b'' 0 bench_start) = Some ?ts" by code_simp
  then obtain w' where l': "lex_line bench_api ''echo a|tr a b'' 0 bench_start = (Some ?ts, w')" by (metis prod.collapse)
  obtain stages where p: "parse_pipeline ?ts [] no_stage True = Inr (stages, [])" "length stages = 2"
    by (simp add: no_stage_def SHELL_MAX_ARGS_def SHELL_MAX_STAGES_def)
  show ?thesis
    using shell_arrays_suffice [OF l' p(1), of "[(3, 4)]" "(-1, -1)" 0] l p by (intro exI [of _ ?ts] exI [of _ stages]) simp
qed

lemma read_line_loop_bounds:
  assumes "read_line_loop api n line w = ((r, line'), w')" "length line < n" "newline \<notin> set line"
  shows "length line' < n \<and> newline \<notin> set line' \<and> (r = 0 \<longrightarrow> line' = []) \<and> r \<in> {-1, 0, 1}"
  using assms
proof (induction api n line w rule: read_line_loop.induct)
  case (1 api n line w)
  note e = "1.prems"(1) [unfolded read_line_loop.simps [of api n line w]]
  show ?case
  proof (cases "length line + 1 < n")
    case True
    obtain count bytes w1 where r: "ap_read api 0 1 w = ((count, bytes), w1)" by (metis prod.collapse)
    show ?thesis
    proof (cases "count \<le> 0 \<or> take 1 bytes = [newline]")
      case stop: True
      then show ?thesis using e True r "1.prems"(2,3) by (auto split: if_splits)
    next
      case False
      have "(if bytes = [] then NUL else hd bytes) \<noteq> newline" using False by (cases bytes) auto
      then show ?thesis using "1.IH" [OF True r [symmetric] refl] e True r False "1.prems"(2,3) by auto
    qed
  next
    case False
    then show ?thesis using e "1.prems"(2,3) by auto
  qed
qed

text \<open>
  \<^verbatim>\<open>read_interactive_line\<close> never overruns its buffer: the line it stores leaves room for the NUL and
  holds no newline, whatever \<^verbatim>\<open>read\<close> delivers.
\<close>

theorem read_interactive_line_fits:
  "\<exists>r line w'. read_interactive_line api SHELL_LINE_MAX w = ((r, line), w') \<and>
     length line + 1 \<le> SHELL_LINE_MAX \<and> newline \<notin> set line \<and> r \<in> {-1, 0, 1}"
proof -
  let ?w = "snd (shell_write api 1 ''cannedBSD$ '' w)"
  obtain r line w' where r: "read_line_loop api SHELL_LINE_MAX [] ?w = ((r, line), w')" by (metis prod.collapse)
  from read_line_loop_bounds [OF this] show ?thesis using r by (auto simp: read_interactive_line_def SHELL_LINE_MAX_def)
qed

end
