(* ===== verification/Shell_Calls.thy ===== *)
theory Shell_Calls
  imports Shell_Props
begin

text \<open>
  What the shell does to the world around it. \<open>rel w w'\<close> is any preorder on worlds that the calls
  respect; the functions of the shell then respect it too. The calls that work on descriptors are kept
  apart, because the shell's own use of descriptors is what the next theorems are about.
\<close>

section \<open>Calls that leave the descriptors alone\<close>

locale quiet_calls =
  fixes api :: "'w cb_api" and rel :: "'w \<Rightarrow> 'w \<Rightarrow> bool"
  assumes rel_refl: "rel w w"
    and rel_trans: "rel w w1 \<Longrightarrow> rel w1 w2 \<Longrightarrow> rel w w2"
    and rel_write: "rel w (snd (ap_write api d s w))"
    and rel_spawn: "rel w (snd (ap_spawn api name argv actions w))"
    and rel_waitpid: "rel w (snd (ap_waitpid api pid w))"
    and rel_chdir: "rel w (snd (ap_chdir api p w))"
    and rel_getcwd: "rel w (snd (ap_getcwd api n w))"
    and rel_getenv: "rel w (snd (ap_getenv api name w))"
    and rel_setenv: "rel w (snd (ap_setenv api name v over w))"
    and rel_unsetenv: "rel w (snd (ap_unsetenv api name w))"
    and rel_malloc: "rel w (snd (ap_malloc api n w))"
begin

lemma rel_step: "rel w w1 \<Longrightarrow> rel w1 w2 \<Longrightarrow> rel w w2"
  by (rule rel_trans)

text \<open>Each call as a step from a world that is already related.\<close>

lemma rel_calls:
  assumes "rel w w1"
  shows "ap_write api d s w1 = (n, w2) \<Longrightarrow> rel w w2" "ap_spawn api name argv actions w1 = (r, w2) \<Longrightarrow> rel w w2"
    "ap_waitpid api pid w1 = (r, w2) \<Longrightarrow> rel w w2" "ap_chdir api p w1 = (n, w2) \<Longrightarrow> rel w w2"
    "ap_getcwd api m w1 = (x, w2) \<Longrightarrow> rel w w2" "ap_getenv api name w1 = (x, w2) \<Longrightarrow> rel w w2"
    "ap_setenv api name v over w1 = (n, w2) \<Longrightarrow> rel w w2" "ap_unsetenv api name w1 = (n, w2) \<Longrightarrow> rel w w2"
    "ap_malloc api m w1 = (g, w2) \<Longrightarrow> rel w w2"
  using rel_step [OF assms] rel_write rel_spawn rel_waitpid rel_chdir rel_getcwd rel_getenv rel_setenv rel_unsetenv rel_malloc
  by (metis snd_conv)+

lemma write_all_rel: "rel w w1 \<Longrightarrow> rel w (snd (write_all api d bytes w1))"
proof (induction "length bytes" arbitrary: bytes w1 rule: less_induct)
  case less
  obtain n w2 where n: "ap_write api d bytes w1 = (n, w2)" by fastforce
  have w2: "rel w w2" by (rule rel_calls(1) [OF less.prems n])
  show ?case
  proof (cases "bytes = [] \<or> n \<le> 0")
    case True
    then show ?thesis using n w2 less.prems by (subst write_all.simps) auto
  next
    case False
    then show ?thesis using n less.hyps [of "drop (nat n) bytes" w2] w2 by (subst write_all.simps) auto
  qed
qed

lemma shell_write_rel: "rel w w1 \<Longrightarrow> rel w (snd (shell_write api d s w1))"
  by (simp add: shell_write_def write_all_rel)

lemma shell_error_rel: "rel w w1 \<Longrightarrow> rel w (shell_error api s w1)"
  using shell_write_rel by (auto simp: shell_error_def Let_def split: prod.split) (metis snd_conv)

lemma report_errno_rel: "rel w w1 \<Longrightarrow> rel w (report_errno api w1)"
  by (simp add: report_errno_def shell_error_rel)

lemma write_texts_rel: "rel w w1 \<Longrightarrow> rel w (write_texts api d ss w1)"
  unfolding write_texts_def by (induction ss arbitrary: w1) (simp_all add: shell_write_rel)

lemma append_bytes_rel: "rel w w1 \<Longrightarrow> append_bytes api b s w1 = (r, w2) \<Longrightarrow> rel w w2"
  by (auto simp: append_bytes_def Let_def split: if_splits prod.splits dest: rel_calls(9))

lemma append_expansion_rel: "rel w w1 \<Longrightarrow> append_expansion api cs st b w1 = (r, w2) \<Longrightarrow> rel w w2"
  by (auto simp: append_expansion_def Let_def split: prod.splits expansion.splits dest: append_bytes_rel rel_calls(6))

lemma finish_word_rel: "rel w w1 \<Longrightarrow> finish_word api q saw b cs w1 = (r, w2) \<Longrightarrow> rel w w2"
  by (auto simp: finish_word_def split: if_splits prod.splits dest: rel_calls(9))

lemma lex_word_rel: "rel w w1 \<Longrightarrow> rel w (snd (lex_word api st q saw b cs w1))"
proof (induction "length cs" arbitrary: q saw b cs w1 rule: less_induct)
  case less
  have f: "rel w (snd (finish_word api q saw b cs w1))" using finish_word_rel [OF less.prems] by (metis prod.collapse)
  have if_rel: "rel w (snd x) \<Longrightarrow> rel w (snd y) \<Longrightarrow> rel w (snd (if P then x else y))" for P and x y :: "(lex_error + string \<times> string) \<times> 'w"
    by simp
  have app: "rel w (snd (case append_bytes api b s w1 of (None, w2) \<Rightarrow> (Inl Lex_memory, w2) | (Some b1, w2) \<Rightarrow> lex_word api st q True b1 cs' w2))"
    if "length cs' < length cs" for s cs'
    using less.hyps [OF that] append_bytes_rel [OF less.prems] by (auto split: prod.split option.split)
  show ?case
  proof (cases cs)
    case Nil
    then show ?thesis using f by (simp add: lex_word.simps [of api st q saw b "[]" w1])
  next
    case (Cons c rest)
    have quote: "rel w (snd (lex_word api st q' True b rest w1))" for q' using less.hyps less.prems Cons by simp
    have esc: "rel w (snd (case rest of [] \<Rightarrow> (Inl Lex_syntax, w1) | d # rest2 \<Rightarrow>
        (case append_bytes api b [d] w1 of (None, w2) \<Rightarrow> (Inl Lex_memory, w2) | (Some b1, w2) \<Rightarrow> lex_word api st q True b1 rest2 w2)))"
      using less.prems app Cons by (simp split: list.split)
    obtain r rest2 w2 where x: "append_expansion api rest st b w1 = ((r, rest2), w2)" by (metis prod.collapse)
    have expand: "rel w (snd (case append_expansion api rest st b w1 of ((None, _), w2) \<Rightarrow> (Inl Lex_syntax, w2)
        | ((Some b1, rest2), w2) \<Rightarrow> lex_word api st q True b1 rest2 w2))"
      using less.hyps [of rest2 w2] append_expansion_rel [OF less.prems x] append_expansion_length [OF x] Cons x
      by (simp split: option.split)
    show ?thesis
      unfolding Cons lex_word.simps [of api st q saw b "c # rest" w1] list.case
      by (intro if_rel quote esc expand f [unfolded Cons] app) (simp add: Cons)
  qed
qed

lemma lex_tokens_rel: "rel w w1 \<Longrightarrow> rel w (snd (lex_tokens api st line toks w1))"
proof (induction "length line" arbitrary: line toks w1 rule: less_induct)
  case less
  show ?case
  proof (cases "dropWhile is_space line")
    case Nil
    then show ?thesis using less.prems unfolding lex_tokens.simps [of api st line toks w1] by (simp del: dropWhile_eq_Nil_conv)
  next
    case (Cons c rest)
    have l: "length rest < length line" by (rule dropWhile_Cons_length [OF Cons])
    have s: "\<not> is_space c" using Cons hd_dropWhile [of is_space line] by (metis list.discI list.sel(1))
    obtain r w2 where x: "lex_word api st NUL False no_buffer (c # rest) w1 = (r, w2)" by fastforce
    have w2: "rel w w2" using lex_word_rel [OF less.prems, of st NUL False no_buffer "c # rest"] x by simp
    have word: "rel w (snd (lex_tokens api st rest2 toks' w2))"
      if "r = Inr (word, rest2)" "\<not> ends_word c" for word rest2 toks'
      using less.hyps [OF _ w2] lex_word_shorter [OF x [unfolded that(1)]] that(2) l by simp
    show ?thesis
      unfolding lex_tokens.simps [of api st line toks w1] Cons list.case
      using l s x w2 word less.prems
      by (auto split: sum.split intro!: less.hyps simp: ends_word_def)
  qed
qed

lemma lex_line_rel: "rel w w1 \<Longrightarrow> lex_line api line st w1 = (r, w2) \<Longrightarrow> rel w w2"
  using lex_tokens_rel [of w w1 st line "[]"]
  by (auto simp: lex_line_def shell_error_rel split: prod.splits sum.splits)

lemma builtin_cd_rel: "rel w (snd (builtin_cd api argv w))"
proof -
  obtain p w1 where p: "(if length argv = 1 then ap_getenv api ''HOME'' w else (Some (argv ! 1), w)) = (p, w1)" by fastforce
  have w1: "rel w w1" using p rel_refl rel_calls(6) [OF rel_refl] by (auto split: if_splits)
  obtain r w2 where r: "ap_chdir api (case p of None \<Rightarrow> ''/'' | Some p \<Rightarrow> p) w1 = (r, w2)" by fastforce
  show ?thesis
    using p r rel_calls(4) [OF w1 r] by (auto simp: builtin_cd_def Let_def rel_refl shell_error_rel shell_write_rel write_texts_rel)
qed

lemma builtin_pwd_rel: "rel w (snd (builtin_pwd api w))"
  using rel_calls(5) [OF rel_refl] by (auto simp: builtin_pwd_def report_errno_rel write_texts_rel split: prod.split option.split)

lemma builtin_export_rel: "rel w w1 \<Longrightarrow> rel w (snd (builtin_export api args w1))"
proof (induction args arbitrary: w1)
  case (Cons arg args)
  show ?case using Cons rel_calls(7) [OF Cons.prems] by (auto simp: shell_error_rel split: prod.split)
qed simp

lemma builtin_unset_rel: "rel w w1 \<Longrightarrow> rel w (snd (builtin_unset api names w1))"
proof (induction names arbitrary: w1)
  case (Cons n names)
  show ?case using Cons rel_calls(8) [OF Cons.prems] by (auto simp: shell_error_rel split: prod.split)
qed simp

lemma run_builtin_rel: "rel w (snd (snd (run_builtin api stage st w)))"
  using builtin_cd_rel builtin_pwd_rel builtin_export_rel [OF rel_refl] builtin_unset_rel [OF rel_refl]
  by (auto simp: run_builtin_def Let_def builtin_exit_def rel_refl shell_error_rel split: option.split)

lemma spawn_stages_rel: "rel w w1 \<Longrightarrow> rel w (snd (spawn_stages api pipes st n i ss w1))"
proof (induction ss arbitrary: w1 i)
  case (Cons s ss)
  obtain stage fds where s: "s = (stage, fds)" by (cases s) blast
  obtain r pid w2 where r: "spawn_stage api pipes st n i stage fds w1 = ((r, pid), w2)" by (metis prod.collapse)
  then have "rel w w2" using rel_calls(2) [OF Cons.prems] by (auto simp: spawn_stage_def Let_def split: if_splits)
  then show ?case using Cons.IH [of w2 "i + 1"] r s by (auto simp: Let_def write_texts_rel split: prod.split)
qed simp

lemma wait_all_rel: "rel w w1 \<Longrightarrow> rel w (snd (wait_all api n i pids st w1))"
proof (induction pids arbitrary: w1 i st)
  case (Cons p pids)
  show ?case using Cons rel_calls(3) [OF Cons.prems] by (auto split: prod.split)
qed simp

end

end
