(* ===== verification/Shell_Descriptors.thy ===== *)
theory Shell_Descriptors
  imports Shell_Calls
begin

text \<open>
  The shell's own descriptors. Against a contract of the calls on descriptors, every command leaves the
  table of descriptors as it found it.
\<close>

section \<open>Tables\<close>

type_synonym 'f table = "int \<Rightarrow> 'f option"

definition opened :: "'f table \<Rightarrow> int \<Rightarrow> 'f table \<Rightarrow> bool" where
  "opened T r T' \<longleftrightarrow> r < 0 \<and> T' = T \<or>
     0 \<le> r \<and> T r = None \<and> (\<forall>d. 0 \<le> d \<and> d < r \<longrightarrow> T d \<noteq> None) \<and> (\<exists>f. T' = T(r \<mapsto> f))"

text \<open>\<open>extends T ds T'\<close>: \<open>T'\<close> has \<open>T\<close> and, besides, the new descriptors \<open>ds\<close>.\<close>

definition extends :: "'f table \<Rightarrow> int list \<Rightarrow> 'f table \<Rightarrow> bool" where
  "extends T ds T' \<longleftrightarrow> (\<forall>d\<in>set ds. T d = None) \<and> (\<forall>d. d \<notin> set ds \<longrightarrow> T' d = T d)"

lemma extends_Nil [simp]: "extends T [] T' \<longleftrightarrow> T' = T"
  by (auto simp: extends_def)

lemma extends_append: "extends T ds T1 \<Longrightarrow> extends T1 es T2 \<Longrightarrow> extends T (ds @ es) T2"
  unfolding extends_def by (metis Un_iff set_append)

lemma opened_extends: "opened T r T' \<Longrightarrow> extends T (filter (\<lambda>d. 0 \<le> d) [r]) T'"
  by (auto simp: opened_def extends_def)

definition without :: "'f table \<Rightarrow> int list \<Rightarrow> 'f table" where
  "without T ds = (\<lambda>d. if d \<in> set ds then None else T d)"

lemma without_Nil [simp]: "without T [] = T"
  by (simp add: without_def)

lemma without_append: "without (without T ds) es = without T (ds @ es)"
  by (auto simp: without_def)

lemma extends_without: "extends T ds T' \<Longrightarrow> set es = set ds \<Longrightarrow> without T' es = T"
  by (auto simp: extends_def without_def fun_eq_iff)

text \<open>All that a command can change: the file behind descriptor 0, which stays in use.\<close>

definition kept_but_input :: "'f table \<Rightarrow> 'f table \<Rightarrow> bool" where
  "kept_but_input T T' \<longleftrightarrow> dom T' = dom T \<and> (\<forall>d. d \<noteq> 0 \<longrightarrow> T' d = T d)"

lemma kept_but_input_refl [simp]: "kept_but_input T T"
  by (simp add: kept_but_input_def)

lemma kept_but_input_trans: "kept_but_input T T1 \<Longrightarrow> kept_but_input T1 T2 \<Longrightarrow> kept_but_input T T2"
  by (simp add: kept_but_input_def)

section \<open>The tables of a redirected command\<close>

text \<open>\<open>redirected\<close>: the old file of \<open>target\<close> is saved and \<open>source\<close> takes its place.\<close>

definition redirected :: "'f table \<Rightarrow> int \<Rightarrow> int \<Rightarrow> int \<Rightarrow> 'f table \<Rightarrow> bool" where
  "redirected T source target saved T' \<longleftrightarrow>
     (if source < 0 then saved < 0 \<and> T' = T
      else 0 \<le> saved \<and> T saved = None \<and> T target \<noteq> None \<and> T' = T(saved := T target, target := T source))"

definition restored :: "'f table \<Rightarrow> int \<Rightarrow> int \<Rightarrow> 'f table" where
  "restored T saved target = (if saved < 0 then T else T(target := T saved))"

abbreviation nonneg :: "int list \<Rightarrow> int list" where
  "nonneg \<equiv> filter (\<lambda>d. 0 \<le> d)"

lemma opened_some: "opened T r T' \<Longrightarrow> 0 \<le> r \<Longrightarrow> T' r \<noteq> None"
  by (auto simp: opened_def)

lemma opened_mono: "opened T r T' \<Longrightarrow> T d \<noteq> None \<Longrightarrow> T' d \<noteq> None"
  by (auto simp: opened_def)

lemma opened_extends2:
  assumes "opened T i T0" "opened T0 out T1" shows "extends T (nonneg [i, out]) T1"
  using extends_append [OF opened_extends [OF assms(1)] opened_extends [OF assms(2)]] by (auto split: if_splits)

lemma close_opened:
  assumes "opened T i T0" "opened T0 out T1" "sv < 0" "sv2 < 0"
  shows "without T1 (nonneg [sv, sv2, i, out]) = T"
  by (rule extends_without [OF opened_extends2 [OF assms(1,2)]]) (use assms(3,4) in auto)

text \<open>With two new descriptors, descriptor 1 is in use: it was, or one of the two is it.\<close>

lemma two_opened:
  assumes "opened T i T0" "opened T0 out T1" "0 \<le> i" "0 \<le> out" shows "T1 0 \<noteq> None" "T1 1 \<noteq> None"
proof -
  have 0: "T0 0 \<noteq> None" using assms(1,3) by (cases "i = 0") (auto simp: opened_def)
  then show "T1 0 \<noteq> None" using opened_mono [OF assms(2)] by blast
  show "T1 1 \<noteq> None"
  proof (cases "T0 1 = None")
    case True
    then have "\<not> 1 < out" using assms(2,4) by (auto simp: opened_def dest: spec [of _ 1])
    moreover have "out \<noteq> 0" using assms(2,4) 0 by (auto simp: opened_def)
    ultimately have "out = 1" using assms(4) by simp
    then show ?thesis using opened_some [OF assms(2)] assms(4) by blast
  qed (use opened_mono [OF assms(2)] in blast)
qed

lemma redirected_source:
  assumes "opened T i T0" "opened T0 out T1" "redirected T1 i 0 si T2" "0 \<le> out"
  shows "T2 out \<noteq> None"
  using opened_some [OF assms(2,4)] opened_some [OF assms(1)] opened_mono [OF assms(2)] assms(3)
  by (cases "i < 0") (auto simp: redirected_def split: if_splits)

lemma saved_kept:
  assumes "opened T i T0" "opened T0 out T1" "redirected T1 i 0 si T2" "redirected T2 out 1 so T3" "0 \<le> i"
  shows "T3 si = T1 0" "T1 0 \<noteq> None" "0 \<le> si" "T1 si = None"
proof -
  have r1: "0 \<le> si" "T1 si = None" "T1 0 \<noteq> None" "T2 = T1(si := T1 0, 0 := T1 i)" using assms(3,5) by (auto simp: redirected_def)
  then have s0: "T2 si = T1 0" by auto
  have "T3 si = T2 si"
  proof (cases "out < 0")
    case True
    then show ?thesis using assms(4) by (simp add: redirected_def)
  next
    case False
    then have r2: "T2 so = None" "T3 = T2(so := T2 1, 1 := T2 out)" using assms(4) by (auto simp: redirected_def)
    have "si \<noteq> 1" using two_opened(2) [OF assms(1,2,5)] False r1(2) by auto
    moreover have "si \<noteq> so" using r2(1) s0 r1(3) by auto
    ultimately show ?thesis using r2(2) by simp
  qed
  then show "T3 si = T1 0" "T1 0 \<noteq> None" "0 \<le> si" "T1 si = None" using s0 r1 by simp_all
qed

lemma redirections_undone:
  assumes o1: "opened T i T0" and o2: "opened T0 out T1"
    and r1: "redirected T1 i 0 si T2" and r2: "redirected T2 out 1 so T3"
  shows "without (restored (restored T3 si 0) so 1) (nonneg [si, so, i, out]) = T"
proof
  fix x
  note e = opened_extends2 [OF o1 o2]
  have free: "T d = None" if "T1 d = None" for d using opened_mono [OF o1] opened_mono [OF o2] that by blast
  have si: "0 \<le> i \<Longrightarrow> T3 si = T1 0 \<and> T1 0 \<noteq> None \<and> 0 \<le> si \<and> T1 si = None" using saved_kept [OF o1 o2 r1 r2] by simp
  have T2: "T2 = (if 0 \<le> i then T1(si := T1 0, 0 := T1 i) else T1)" "i < 0 \<Longrightarrow> si < 0" using r1 by (auto simp: redirected_def split: if_splits)
  have T3: "T3 = (if 0 \<le> out then T2(so := T2 1, 1 := T2 out) else T2)" "out < 0 \<Longrightarrow> so < 0" "0 \<le> out \<Longrightarrow> 0 \<le> so \<and> T2 so = None"
    using r2 by (auto simp: redirected_def split: if_splits)
  have i: "0 \<le> i \<Longrightarrow> T1 i \<noteq> None" using opened_some [OF o1] opened_mono [OF o2] by blast
  have so: "T1 so = None \<and> (0 \<le> i \<longrightarrow> so \<noteq> 0 \<and> so \<noteq> si)" if "0 \<le> out"
    using T3(3) [OF that] T2(1) si i by (auto split: if_splits)
  show "without (restored (restored T3 si 0) so 1) (nonneg [si, so, i, out]) x = T x"
  proof (cases "x \<in> set (nonneg [si, so, i, out])")
    case True
    then have "T x = None" using e free si so T2(2) T3(2) by (auto simp: extends_def split: if_splits)
    then show ?thesis using True by (simp add: without_def)
  next
    case False
    then have T1: "T1 x = T x" using e by (auto simp: extends_def split: if_splits)
    have "restored (restored T3 si 0) so 1 x = T1 x"
      using False si so T2 T3 by (cases "0 \<le> i"; cases "0 \<le> out") (auto simp: restored_def split: if_splits)
    then show ?thesis using False T1 by (auto simp: without_def)
  qed
qed

text \<open>When only the input could be redirected, it stays redirected.\<close>

lemma input_left_redirected:
  assumes o1: "opened T i T0" and o2: "opened T0 out T1" and r1: "redirected T1 i 0 si T2" and so: "so < 0"
  shows "kept_but_input T (without T2 (nonneg [si, so, i, out]))"
proof (cases "i < 0")
  case True
  then have "T2 = T1" "si < 0" using r1 by (auto simp: redirected_def)
  then show ?thesis using close_opened [OF o1 o2 _ so] by simp
next
  case False
  have e: "extends T (nonneg [i, out]) T1" by (rule opened_extends2 [OF o1 o2])
  have r: "0 \<le> si" "T1 si = None" "T1 0 \<noteq> None" "T2 = T1(si := T1 0, 0 := T1 i)" using r1 False by (auto simp: redirected_def)
  have i: "T1 i \<noteq> None" using opened_some [OF o1] opened_mono [OF o2] False by simp
  have free: "T si = None" using opened_mono [OF o1] opened_mono [OF o2] r(2) by blast
  have "si \<noteq> 0" using r(2,3) by auto
  let ?T' = "without T2 (nonneg [si, so, i, out])"
  have d: "?T' d = T d" if "d \<noteq> 0" for d
    using that e free r(1,4) so by (auto simp: without_def extends_def split: if_splits)
  moreover have "?T' 0 = None \<longleftrightarrow> T 0 = None"
    using e r i \<open>si \<noteq> 0\<close> so by (auto simp: without_def extends_def split: if_splits)
  ultimately have "dom ?T' = dom T" unfolding dom_def by (metis (mono_tags, lifting))
  then show ?thesis using d by (simp add: kept_but_input_def)
qed

text \<open>Both redirections in place.\<close>

definition both_redirected :: "'f table \<Rightarrow> int \<Rightarrow> int \<Rightarrow> int \<Rightarrow> int \<Rightarrow> 'f table \<Rightarrow> bool" where
  "both_redirected T i out si so T' \<longleftrightarrow>
     (\<exists>T0 T1 T2. opened T i T0 \<and> opened T0 out T1 \<and> redirected T1 i 0 si T2 \<and> redirected T2 out 1 so T')"

section \<open>The contract\<close>

text \<open>
  \<open>ok_world\<close> is an invariant of the world. \<open>alive\<close> says that the program still runs: a call may also end it
  (an interrupt) or wait forever, and then nothing is claimed. The laws of the calls on descriptors are
  those of POSIX: \<^verbatim>\<open>open\<close> takes the lowest descriptor that is free, \<^verbatim>\<open>dup\<close> a free one, \<^verbatim>\<open>dup2\<close> of an open descriptor to 0 or 1 works.
\<close>

definition keeps :: "('w \<Rightarrow> bool) \<Rightarrow> ('w \<Rightarrow> bool) \<Rightarrow> ('w \<Rightarrow> 'f table) \<Rightarrow> ('f table \<Rightarrow> 'f table \<Rightarrow> bool) \<Rightarrow> 'w \<Rightarrow> 'w \<Rightarrow> bool" where
  "keeps ok_world alive table F w w' \<longleftrightarrow> (ok_world w \<longrightarrow> ok_world w' \<and> (alive w' \<longrightarrow> alive w \<and> F (table w) (table w')))"

locale descriptor_calls =
  fixes api :: "'w cb_api" and ok_world :: "'w \<Rightarrow> bool" and alive :: "'w \<Rightarrow> bool" and table :: "'w \<Rightarrow> 'f table"
  assumes quiet: "quiet_calls api (keeps ok_world alive table (\<lambda>T T'. T' = T))"
    and law_open: "ap_open api p flags mode w = (r, w') \<Longrightarrow> keeps ok_world alive table (\<lambda>T T'. opened T r T') w w'"
    and law_close: "ap_close api d w = (r, w') \<Longrightarrow> keeps ok_world alive table (\<lambda>T T'. T' = T(d := None)) w w'"
    and law_dup: "ap_dup api d w = (r, w') \<Longrightarrow> keeps ok_world alive table
      (\<lambda>T T'. r < 0 \<and> T' = T \<or> 0 \<le> r \<and> T r = None \<and> (\<exists>f. T d = Some f \<and> T' = T(r \<mapsto> f))) w w'"
    and law_dup2: "ap_dup2 api d e w = (r, w') \<Longrightarrow> e = 0 \<or> e = 1 \<Longrightarrow> keeps ok_world alive table
      (\<lambda>T T'. case T d of None \<Rightarrow> r < 0 \<and> T' = T | Some f \<Rightarrow> 0 \<le> r \<and> T' = T(e \<mapsto> f)) w w'"
    and law_pipe: "ap_pipe api w = ((r, i, out), w') \<Longrightarrow> keeps ok_world alive table
      (\<lambda>T T'. r < 0 \<and> T' = T \<or> 0 \<le> r \<and> 0 \<le> i \<and> 0 \<le> out \<and> extends T [i, out] T') w w'"
begin

abbreviation kp :: "('f table \<Rightarrow> 'f table \<Rightarrow> bool) \<Rightarrow> 'w \<Rightarrow> 'w \<Rightarrow> bool" where
  "kp \<equiv> keeps ok_world alive table"

lemma kp_trans: "kp F w w1 \<Longrightarrow> kp G w1 w2 \<Longrightarrow> (\<And>T T1 T2. F T T1 \<Longrightarrow> G T1 T2 \<Longrightarrow> H T T2) \<Longrightarrow> kp H w w2"
  by (auto simp: keeps_def)

lemma kp_mono: "kp F w w' \<Longrightarrow> (\<And>T T'. F T T' \<Longrightarrow> G T T') \<Longrightarrow> kp G w w'"
  by (auto simp: keeps_def)

lemma kp_refl: "(\<And>T. F T T) \<Longrightarrow> kp F w w"
  by (simp add: keeps_def)

lemma kp_same: "kp F w w1 \<Longrightarrow> kp (\<lambda>T T'. T' = T) w1 w2 \<Longrightarrow> kp F w w2"
  by (auto simp: keeps_def)

lemmas quiet_shell_error = quiet_calls.shell_error_rel [OF quiet quiet_calls.rel_refl [OF quiet]]
lemmas quiet_report_errno = quiet_calls.report_errno_rel [OF quiet quiet_calls.rel_refl [OF quiet]]

section \<open>Redirections\<close>

lemma close_if_open_kp: "kp (\<lambda>T T'. T' = without T (filter (\<lambda>d. 0 \<le> d) [d])) w (close_if_open api d w)"
proof -
  obtain r w' where r: "ap_close api d w = (r, w')" by fastforce
  show ?thesis
    using law_close [OF r] r by (auto simp: close_if_open_def without_def fun_eq_iff keeps_def)
qed

lemma close_four_kp:
  "kp (\<lambda>T T'. T' = without T (filter (\<lambda>d. 0 \<le> d) [a, b, c, d])) w (close_four api a b c d w)"
proof -
  let ?f = "filter (\<lambda>d :: int. 0 \<le> d)"
  have "kp (\<lambda>T T'. T' = without T (?f [a] @ ?f [b])) w (close_if_open api b (close_if_open api a w))"
    by (rule kp_trans [OF close_if_open_kp close_if_open_kp]) (simp add: without_append)
  then have "kp (\<lambda>T T'. T' = without T ((?f [a] @ ?f [b]) @ ?f [c])) w (close_if_open api c (close_if_open api b (close_if_open api a w)))"
    by (rule kp_trans [OF _ close_if_open_kp]) (simp add: without_append)
  then have "kp (\<lambda>T T'. T' = without T (((?f [a] @ ?f [b]) @ ?f [c]) @ ?f [d])) w (close_four api a b c d w)"
    unfolding close_four_def by (rule kp_trans [OF _ close_if_open_kp]) (simp only: without_append)
  moreover have "((?f [a] @ ?f [b]) @ ?f [c]) @ ?f [d] = ?f [a, b, c, d]" by simp
  ultimately show ?thesis by (simp only:)
qed

lemma open_redirections_kp:
  assumes "open_redirections api s w = ((ok, i, out), w')"
  shows "kp (\<lambda>T T'. if ok then \<exists>T1. opened T i T1 \<and> opened T1 out T' else i < 0 \<and> out < 0 \<and> T' = T) w w'"
proof -
  obtain i1 w1 where i1: "(case s_input_path s of None \<Rightarrow> (-1, w) | Some p \<Rightarrow> ap_open api p CB_O_RDONLY 0 w) = (i1, w1)" by fastforce
  have k1: "kp (\<lambda>T T'. opened T i1 T') w w1"
    using i1 law_open by (auto simp: opened_def split: option.splits intro: kp_refl)
  show ?thesis
  proof (cases "s_input_path s \<noteq> None \<and> i1 < 0")
    case True
    then show ?thesis using assms i1 kp_mono [OF k1] by (auto simp: open_redirections_def opened_def)
  next
    case False
    show ?thesis
    proof (cases "s_output_path s")
      case None
      then have "ok" "i = i1" "out = -1" "w' = w1" using assms i1 False by (auto simp: open_redirections_def)
      then show ?thesis using kp_mono [OF k1] by (auto simp: opened_def)
    next
      case (Some p)
      obtain o2 w2 where o2: "ap_open api p (CB_O_WRONLY OR CB_O_CREAT OR (if s_append s then CB_O_APPEND else CB_O_TRUNC)) 438 w1 = (o2, w2)" by fastforce
      note k2 = kp_trans [OF k1 law_open [OF o2]]
      show ?thesis
      proof (cases "o2 < 0")
        case True
        have "w' = (if i1 \<ge> 0 then snd (ap_close api i1 w2) else w2)" "\<not> ok" "i = -1" "out = o2"
          using assms i1 False Some o2 True by (auto simp: open_redirections_def)
        then have w': "w' = close_if_open api i1 w2" by (simp add: close_if_open_def)
        have "kp (\<lambda>T T'. opened T i1 T') w w2" by (rule k2) (use True in \<open>auto simp: opened_def\<close>)
        then have "kp (\<lambda>T T'. T' = T) w w'"
          unfolding w' by (rule kp_trans [OF _ close_if_open_kp]) (auto simp: opened_def without_def fun_eq_iff)
        then show ?thesis using \<open>\<not> ok\<close> \<open>i = -1\<close> \<open>out = o2\<close> True by (rule_tac kp_mono) auto
      next
        case ok: False
        then have "ok" "i = i1" "out = o2" "w' = w2" using assms i1 False Some o2 by (auto simp: open_redirections_def)
        moreover have "kp (\<lambda>T T'. \<exists>T1. opened T i1 T1 \<and> opened T1 o2 T') w w2" by (rule k2) blast
        ultimately show ?thesis by simp
      qed
    qed
  qed
qed

lemma redirect_kp:
  assumes "redirect api source target w = ((ok, saved), w')" "target = 0 \<or> target = 1"
  shows "kp (\<lambda>T T'. source < 0 \<or> T source \<noteq> None \<longrightarrow>
    (if ok then redirected T source target saved T' else 0 \<le> source \<and> saved < 0 \<and> T' = T)) w w'"
proof (cases "source < 0")
  case True
  then show ?thesis using assms(1) by (auto simp: redirect_def redirected_def intro: kp_refl)
next
  case False
  obtain sv w1 where sv: "ap_dup api target w = (sv, w1)" by fastforce
  note k1 = law_dup [OF sv]
  show ?thesis
  proof (cases "sv < 0")
    case True
    then have "\<not> ok" "saved = sv" "w' = w1" using assms(1) False sv by (auto simp: redirect_def)
    then show ?thesis using kp_mono [OF k1] True False by auto
  next
    case pos: False
    obtain r w2 where r: "ap_dup2 api source target w1 = (r, w2)" by fastforce
    have o': "ok = (0 \<le> r)" "saved = sv" "w' = w2" using assms(1) False sv pos r by (auto simp: redirect_def)
    show ?thesis
      unfolding o' by (rule kp_trans [OF k1 law_dup2 [OF r assms(2)]])
        (use pos False in \<open>auto simp: redirected_def fun_upd_twist split: option.splits if_splits\<close>)
  qed
qed

lemma restore_kp:
  assumes "target = 0 \<or> target = 1"
  shows "kp (\<lambda>T T'. saved < 0 \<or> T saved \<noteq> None \<longrightarrow> T' = restored T saved target) w (restore api saved target w)"
proof -
  obtain r w' where r: "ap_dup2 api saved target w = (r, w')" by fastforce
  show ?thesis
    using kp_mono [OF law_dup2 [OF r assms]] r by (auto simp: restore_def restored_def intro: kp_refl split: option.splits)
qed

lemma open_redirections_paths:
  assumes "open_redirections api s w = ((ok, i, out), w')"
  shows "0 \<le> i \<Longrightarrow> s_input_path s \<noteq> None" "0 \<le> out \<Longrightarrow> s_output_path s \<noteq> None"
  using assms by (auto simp: open_redirections_def split: option.splits prod.splits if_splits)

lemma both_restored_kp:
  assumes "kp (\<lambda>T T'. both_redirected T i out si so T') w w4"
  shows "kp (\<lambda>T T'. T' = T) w (close_four api si so i out (restore api so 1 (restore api si 0 w4)))"
proof -
  have saved: "(0 \<le> si \<longrightarrow> T3 si \<noteq> None) \<and> (0 \<le> so \<longrightarrow> restored T3 si 0 so \<noteq> None)"
    if both: "both_redirected T i out si so T3" for T T3 :: "'f table"
  proof -
    obtain T0 T1 T2 where o': "opened T i T0" "opened T0 out T1" "redirected T1 i 0 si T2" "redirected T2 out 1 so T3"
      using both by (auto simp: both_redirected_def)
    have "0 \<le> si \<longrightarrow> T3 si \<noteq> None" using saved_kept [OF o'] o'(3) by (cases "i < 0") (auto simp: redirected_def)
    moreover have "0 \<le> so \<longrightarrow> T3 so \<noteq> None" using o'(4) by (auto simp: redirected_def split: if_splits)
    ultimately show ?thesis by (auto simp: restored_def)
  qed
  let ?G = "\<lambda>T T'. \<exists>T3. both_redirected T i out si so T3 \<and> T' = restored T3 si 0"
  have "kp ?G w (restore api si 0 w4)"
    by (rule kp_trans [OF assms restore_kp]) (use saved not_le in blast)+
  then have "kp (\<lambda>T T'. \<exists>T3. both_redirected T i out si so T3 \<and> T' = restored (restored T3 si 0) so 1) w
      (restore api so 1 (restore api si 0 w4))"
    by (rule kp_trans [OF _ restore_kp]) (use saved not_le in blast)+
  then show ?thesis
    by (rule kp_trans [OF _ close_four_kp]) (use redirections_undone in \<open>unfold both_redirected_def, blast\<close>)
qed

lemma both_redirected_kp:
  assumes "open_redirections api stage w = ((True, i, out), w1)" "redirect api i 0 w1 = ((ok1, si), w2)" "redirect api out 1 w2 = ((ok2, so), w3)"
  shows "kp (\<lambda>T T'. \<exists>T0 T1. opened T i T0 \<and> opened T0 out T1 \<and> (if ok1 then redirected T1 i 0 si T' else si < 0 \<and> T' = T1)) w w2"
    and "ok1 \<Longrightarrow> kp (\<lambda>T T'. if ok2 then both_redirected T i out si so T'
      else \<exists>T0 T1. opened T i T0 \<and> opened T0 out T1 \<and> redirected T1 i 0 si T' \<and> 0 \<le> out \<and> so < 0) w w3"
proof -
  show k2: "kp (\<lambda>T T'. \<exists>T0 T1. opened T i T0 \<and> opened T0 out T1 \<and> (if ok1 then redirected T1 i 0 si T' else si < 0 \<and> T' = T1)) w w2"
    by (rule kp_trans [OF open_redirections_kp [OF assms(1)] redirect_kp [OF assms(2)]])
      (use opened_some opened_mono in \<open>(simp, metis not_le)\<close>)+
  show "kp (\<lambda>T T'. if ok2 then both_redirected T i out si so T'
      else \<exists>T0 T1. opened T i T0 \<and> opened T0 out T1 \<and> redirected T1 i 0 si T' \<and> 0 \<le> out \<and> so < 0) w w3" if ok1
    unfolding both_redirected_def
    by (rule kp_trans [OF k2 redirect_kp [OF assms(3)]]) (use that redirected_source in \<open>(simp, metis not_le)\<close>)+
qed

lemma run_builtin_redirected_kp:
  assumes "run_builtin_redirected api stage st w = (ex, result, w')"
  shows "kp (\<lambda>T T'. T' = T \<or> result = 1 \<and> \<not> ex \<and> s_input_path stage \<noteq> None \<and> s_output_path stage \<noteq> None \<and> kept_but_input T T') w w'"
proof -
  obtain ok i out w1 where 1: "open_redirections api stage w = ((ok, i, out), w1)" by (metis prod.collapse)
  obtain ok1 si w2 where 2: "redirect api i 0 w1 = ((ok1, si), w2)" by (metis prod.collapse)
  obtain ok2 so w3 where 3: "redirect api out 1 w2 = ((ok2, so), w3)" by (metis prod.collapse)
  obtain ex' r' w4 where 4: "run_builtin api stage st w3 = (ex', r', w4)" by (metis prod.collapse)
  note def = assms [unfolded run_builtin_redirected_def 1 prod.case 2 3 4]
  consider (a) "\<not> ok" | (b) ok "\<not> ok1" | (c) ok ok1 "\<not> ok2" | (d) ok ok1 ok2 by blast
  then show ?thesis
  proof cases
    case a
    then show ?thesis using kp_same [OF kp_mono [OF open_redirections_kp [OF 1]] quiet_report_errno] def by simp
  next
    case b
    note k = both_redirected_kp(1) [OF 1 [unfolded eqTrueI [OF b(1)]] 2 3]
    have "kp (\<lambda>T T'. T' = T) w (close_four api si (-1) i out (shell_error api ''redirection failed'' w2))"
      by (rule kp_trans [OF kp_same [OF k quiet_shell_error] close_four_kp]) (use b close_opened in force)
    then show ?thesis using def b by (auto elim: kp_mono)
  next
    case c
    note k = both_redirected_kp(2) [OF 1 [unfolded eqTrueI [OF c(1)]] 2 3 c(2)]
    have paths: "0 \<le> out \<Longrightarrow> i < 0 \<or> s_input_path stage \<noteq> None \<and> s_output_path stage \<noteq> None"
      using open_redirections_paths [OF 1] by (cases "i < 0") simp_all
    have "kp (\<lambda>T T'. T' = T \<or> s_input_path stage \<noteq> None \<and> s_output_path stage \<noteq> None \<and> kept_but_input T T') w
        (close_four api si so i out (shell_error api ''redirection failed'' w3))"
    proof (rule kp_trans [OF kp_same [OF k quiet_shell_error] close_four_kp])
      fix T T1' T2'
      assume "if ok2 then both_redirected T i out si so T1' else \<exists>T0 T1. opened T i T0 \<and> opened T0 out T1 \<and> redirected T1 i 0 si T1' \<and> 0 \<le> out \<and> so < 0"
        and T2': "T2' = without T1' (nonneg [si, so, i, out])"
      then obtain T0 T1 where o': "opened T i T0" "opened T0 out T1" "redirected T1 i 0 si T1'" "so < 0" "0 \<le> out" using c by auto
      have "i < 0 \<Longrightarrow> T2' = T" using close_opened [OF o'(1,2) _ o'(4)] o'(3) T2' by (simp add: redirected_def)
      then show "T2' = T \<or> s_input_path stage \<noteq> None \<and> s_output_path stage \<noteq> None \<and> kept_but_input T T2'"
        using input_left_redirected [OF o'(1-4)] T2' paths [OF o'(5)] by auto
    qed
    then show ?thesis using def c by (auto elim: kp_mono)
  next
    case d
    have k4: "kp (\<lambda>T T'. T' = T) w3 w4" using quiet_calls.run_builtin_rel [OF quiet, of w3 stage st] 4 by simp
    have "kp (\<lambda>T T'. both_redirected T i out si so T') w w4"
      by (rule kp_same [OF kp_mono [OF both_redirected_kp(2) [OF 1 [unfolded eqTrueI [OF d(1)]] 2 3 d(2)]] k4]) (use d in simp)
    from both_restored_kp [OF this] show ?thesis using def d by (auto elim: kp_mono)
  qed
qed

section \<open>Pipelines\<close>

text \<open>The descriptors in a list of pairs that have been set.\<close>

definition pair_fds :: "(int \<times> int) list \<Rightarrow> int list" where
  "pair_fds ps = nonneg (concat (map (\<lambda>(i, out). [i, out]) ps))"

lemma pair_fds_simps [simp]: "pair_fds [] = []" "pair_fds ((i, out) # ps) = nonneg [i, out] @ pair_fds ps"
  "pair_fds (ps @ qs) = pair_fds ps @ pair_fds qs"
  by (simp_all add: pair_fds_def)

lemma open_stages_kp: "open_stages api ss w = ((ok, fds), w') \<Longrightarrow> kp (\<lambda>T T'. extends T (pair_fds fds) T') w w'"
proof (induction ss arbitrary: ok fds w w')
  case Nil
  then show ?case by (auto intro: kp_refl)
next
  case (Cons s ss)
  obtain ok1 i out w1 where 1: "open_redirections api s w = ((ok1, i, out), w1)" by (metis prod.collapse)
  have k1: "kp (\<lambda>T T'. extends T (nonneg [i, out]) T') w w1"
    by (rule kp_mono [OF open_redirections_kp [OF 1]]) (auto split: if_splits dest: opened_extends2)
  show ?case
  proof (cases ok1)
    case False
    then have "fds = [(i, out)]" "w' = w1" using Cons.prems 1 by auto
    then show ?thesis using k1 by simp
  next
    case True
    obtain r fds1 w2 where 2: "open_stages api ss w1 = ((r, fds1), w2)" by (metis prod.collapse)
    have f: "fds = (i, out) # fds1" "w' = w2" using Cons.prems 1 2 True by auto
    have "kp (\<lambda>T T'. extends T (nonneg [i, out] @ pair_fds fds1) T') w w2"
      by (rule kp_trans [OF k1 Cons.IH [OF 2] extends_append])
    then show ?thesis unfolding f pair_fds_simps .
  qed
qed

lemma create_pipes_kp: "create_pipes api n w = ((ok, ps), w') \<Longrightarrow> kp (\<lambda>T T'. extends T (pair_fds ps) T' \<and> list_all (\<lambda>(i, out). 0 \<le> i \<and> 0 \<le> out) ps) w w'"
proof (induction n arbitrary: ok ps w w')
  case 0
  then show ?case by (auto intro: kp_refl)
next
  case (Suc n)
  obtain r i out w1 where 1: "ap_pipe api w = ((r, i, out), w1)" by (metis prod.collapse)
  show ?case
  proof (cases "r < 0")
    case True
    then show ?thesis using Suc.prems 1 kp_mono [OF law_pipe [OF 1]] by auto
  next
    case False
    obtain r2 ps1 w2 where 2: "create_pipes api n w1 = ((r2, ps1), w2)" by (metis prod.collapse)
    have p: "ps = (i, out) # ps1" "w' = w2" using Suc.prems 1 2 False by auto
    show ?thesis
      unfolding p
      by (rule kp_trans [OF law_pipe [OF 1] Suc.IH [OF 2]]) (use False extends_append [of _ "[i, out]"] in \<open>auto\<close>)
  qed
qed

lemma close_pipes_kp:
  "kp (\<lambda>T T'. list_all (\<lambda>(i, out). 0 \<le> i \<and> 0 \<le> out) ps \<longrightarrow> T' = without T (pair_fds ps)) w (close_pipes api ps w)"
proof (induction ps arbitrary: w)
  case Nil
  then show ?case by (simp add: close_pipes_def kp_refl)
next
  case (Cons p ps)
  obtain i out where p: "p = (i, out)" by (cases p) blast
  obtain r1 w1 where 1: "ap_close api i w = (r1, w1)" by fastforce
  obtain r2 w2 where 2: "ap_close api out w1 = (r2, w2)" by fastforce
  have "kp (\<lambda>T T'. 0 \<le> i \<and> 0 \<le> out \<longrightarrow> T' = without T (nonneg [i, out])) w w2"
    by (rule kp_trans [OF law_close [OF 1] law_close [OF 2]]) (auto simp: without_def fun_eq_iff)
  moreover have "close_pipes api (p # ps) w = close_pipes api ps w2" using p 1 2 by (simp add: close_pipes_def)
  ultimately show ?case
    using kp_trans [OF _ Cons.IH [of w2], where H = "\<lambda>T T'. list_all (\<lambda>(i, out). 0 \<le> i \<and> 0 \<le> out) (p # ps) \<longrightarrow> T' = without T (pair_fds (p # ps))"]
    by (simp add: without_append p)
qed

lemma close_redirections_kp: "kp (\<lambda>T T'. T' = without T (pair_fds ps)) w (close_redirections api ps w)"
proof (induction ps arbitrary: w)
  case Nil
  then show ?case by (simp add: close_redirections_def kp_refl)
next
  case (Cons p ps)
  obtain i out where p: "p = (i, out)" by (cases p) blast
  let ?w1 = "close_if_open api out (close_if_open api i w)"
  have "kp (\<lambda>T T'. T' = without T (nonneg [i] @ nonneg [out])) w ?w1"
    by (rule kp_trans [OF close_if_open_kp close_if_open_kp]) (simp only: without_append)
  moreover have "close_redirections api (p # ps) w = close_redirections api ps ?w1" using p by (simp add: close_redirections_def)
  moreover have "nonneg [i] @ nonneg [out] = nonneg [i, out]" by simp
  ultimately show ?case using kp_trans [OF _ Cons.IH [of ?w1]] p by (simp only: pair_fds_simps without_append)
qed

text \<open>\<open>unset_closed\<close>: the automatic variables that are read although nothing was stored in them hold no descriptor.\<close>

definition unset_closed :: "(nat \<Rightarrow> int \<times> int) \<Rightarrow> bool" where
  "unset_closed unset \<longleftrightarrow> (\<forall>i. fst (unset i) < 0 \<and> snd (unset i) < 0)"

lemma pair_fds_unset: "unset_closed unset \<Longrightarrow> pair_fds (map unset is) = []"
proof (induction "is")
  case (Cons j js)
  obtain i out where u: "unset j = (i, out)" by fastforce
  then have "i < 0" "out < 0" using Cons.prems unfolding unset_closed_def by (metis fst_conv, metis snd_conv)
  then show ?case using Cons u by simp
qed simp

lemma pipeline_cleanup_kp:
  assumes "kp (\<lambda>T T'. extends T (pair_fds fds @ pair_fds ps) T' \<and> list_all (\<lambda>(i, out). 0 \<le> i \<and> 0 \<le> out) ps) w w1" "unset_closed unset"
  shows "kp (\<lambda>T T'. T' = T) w (snd (pipeline_cleanup api unset n ps fds pids st w1))"
proof -
  let ?w2 = "close_pipes api ps w1"
  let ?w3 = "close_redirections api (fds @ map unset [length fds..<n]) ?w2"
  have k2: "kp (\<lambda>T T'. \<exists>T1. extends T (pair_fds fds @ pair_fds ps) T1 \<and> T' = without T1 (pair_fds ps)) w ?w2"
    by (rule kp_trans [OF assms(1) close_pipes_kp]) blast
  have "kp (\<lambda>T T'. T' = T) w ?w3"
  proof (rule kp_trans [OF k2 close_redirections_kp])
    fix T T1 T2 assume "\<exists>T'. extends T (pair_fds fds @ pair_fds ps) T' \<and> T1 = without T' (pair_fds ps)"
      and T2: "T2 = without T1 (pair_fds (fds @ map unset [length fds..<n]))"
    then obtain T' where T': "extends T (pair_fds fds @ pair_fds ps) T'" "T1 = without T' (pair_fds ps)" by blast
    then have "T2 = without T' (pair_fds ps @ pair_fds fds)" using T2 pair_fds_unset [OF assms(2)] by (simp add: without_append)
    also have "\<dots> = T" by (rule extends_without [OF T'(1)]) auto
    finally show "T2 = T" .
  qed
  then have "kp (\<lambda>T T'. T' = T) w (snd (wait_all api n 0 pids st ?w3))"
    using kp_same quiet_calls.wait_all_rel [OF quiet quiet_calls.rel_refl [OF quiet]] by blast
  then show ?thesis by (auto simp: pipeline_cleanup_def Let_def split: prod.split)
qed

lemma run_pipeline_kp:
  assumes "run_pipeline api unset stages st w = (ex, result, w')" "unset_closed unset"
  shows "kp kept_but_input w w'"
proof (cases "length stages = 1 \<and> is_builtin (stage_name (stages ! 0))")
  case True
  then have "run_builtin_redirected api (stages ! 0) st w = (ex, result, w')" using assms(1) by (simp add: run_pipeline_def)
  from run_builtin_redirected_kp [OF this] show ?thesis by (rule kp_mono) auto
next
  case False
  let ?n = "length stages"
  obtain ok fds w1 where 1: "open_stages api stages w = ((ok, fds), w1)" by (metis prod.collapse)
  obtain ok2 ps w2 where 2: "create_pipes api (?n - 1) w1 = ((ok2, ps), w2)" by (metis prod.collapse)
  obtain status pids w3 where 3: "spawn_stages api ps st ?n 0 (zip stages fds) w2 = ((status, pids), w3)" by (metis prod.collapse)
  note k1 = open_stages_kp [OF 1]
  have k1': "kp (\<lambda>T T'. extends T (pair_fds fds @ pair_fds []) T' \<and> list_all (\<lambda>(i, out). 0 \<le> i \<and> 0 \<le> out) []) w (report_errno api w1)"
    by (rule kp_same [OF kp_mono [OF k1] quiet_report_errno]) simp
  have k2: "kp (\<lambda>T T'. extends T (pair_fds fds @ pair_fds ps) T' \<and> list_all (\<lambda>(i, out). 0 \<le> i \<and> 0 \<le> out) ps) w w2"
    by (rule kp_trans [OF k1 create_pipes_kp [OF 2]]) (use extends_append in blast)
  have k3: "kp (\<lambda>T T'. T' = T) w2 w3"
    using quiet_calls.spawn_stages_rel [OF quiet quiet_calls.rel_refl [OF quiet], of w2 ps st ?n 0 "zip stages fds"] 3 by simp
  have "kp (\<lambda>T T'. T' = T) w w'"
    using assms(1) False 1 2 3 pipeline_cleanup_kp [OF k1' assms(2)] pipeline_cleanup_kp [OF kp_same [OF k2 quiet_shell_error] assms(2)]
      pipeline_cleanup_kp [OF kp_same [OF k2 k3] assms(2)]
    by (auto simp: run_pipeline_def Let_def split: if_splits) (metis snd_conv)+
  then show ?thesis by (rule kp_mono) simp
qed

section \<open>Lines\<close>

lemma run_commands_kp:
  assumes "unset_closed unset" "kp kept_but_input w w1"
  shows "kp kept_but_input w (snd (snd (run_commands api unset ts st w1)))"
  using assms(2)
proof (induction "length ts" arbitrary: ts st w1 rule: less_induct)
  case less
  show ?case
  proof (cases ts)
    case Nil
    then show ?thesis using less.prems by (subst run_commands.simps) simp
  next
    case (Cons t rest)
    show ?thesis
    proof (cases "parse_pipeline ts [] no_stage True")
      case (Inl m)
      then show ?thesis using Cons kp_same [OF less.prems quiet_shell_error] by (subst run_commands.simps) simp
    next
      case (Inr p)
      obtain stages rest where p: "p = (stages, rest)" by fastforce
      obtain ex st1 w2 where r: "run_pipeline api unset stages st w1 = (ex, st1, w2)" by (metis prod.collapse)
      have k: "kp kept_but_input w w2" by (rule kp_trans [OF less.prems run_pipeline_kp [OF r assms(1)] kept_but_input_trans])
      let ?rest = "if take 1 rest = [TOKEN_SEMICOLON] then drop 1 rest else rest"
      have "length rest < length ts" using parse_pipeline_first Inr p Cons by blast
      then have l: "length ?rest < length ts" by auto
      show ?thesis
        using less.hyps [OF l k, of st1] k Inr p r Cons by (subst run_commands.simps) (auto simp del: take_Suc drop_Suc)
    qed
  qed
qed

lemma execute_segment_kp:
  assumes "unset_closed unset" shows "kp kept_but_input w (snd (snd (execute_segment api unset segment st w)))"
proof -
  obtain r w1 where r: "lex_line api segment st w = (r, w1)" by fastforce
  have "kp kept_but_input w w1"
    using quiet_calls.lex_line_rel [OF quiet quiet_calls.rel_refl [OF quiet] r] by (rule kp_mono) simp
  then show ?thesis using run_commands_kp [OF assms] r by (auto simp: execute_segment_def split: option.split)
qed

lemma end_segment_kp:
  assumes "unset_closed unset"
  shows "kp kept_but_input w (case end_segment api unset part st w of Inl w1 \<Rightarrow> w1 | Inr (ex, st1, w1) \<Rightarrow> w1)"
proof -
  obtain granted w1 where m: "ap_malloc api (length part + 1) w = (granted, w1)" by fastforce
  have k: "kp (\<lambda>T T'. T' = T) w w1" using quiet_calls.rel_malloc [OF quiet, of w "length part + 1"] m by simp
  have "kp kept_but_input w (snd (snd (execute_segment api unset part st w1)))"
    by (rule kp_trans [OF k execute_segment_kp [OF assms]]) simp
  then show ?thesis using m kp_mono [OF k, of kept_but_input] by (auto simp: end_segment_def split: prod.split)
qed

lemma line_loop_kp:
  assumes "unset_closed unset" "kp kept_but_input w w1"
  shows "kp kept_but_input w (snd (snd (line_loop api unset part q esc st cs w1)))"
  using assms(2)
proof (induction cs arbitrary: part q esc st w1)
  case Nil
  have "kp kept_but_input w (case end_segment api unset part st w1 of Inl w2 \<Rightarrow> w2 | Inr (ex, st1, w2) \<Rightarrow> w2)"
    by (rule kp_trans [OF Nil end_segment_kp [OF assms(1)] kept_but_input_trans])
  then show ?case by (auto intro: kp_same [OF _ quiet_shell_error] split: sum.splits)
next
  case (Cons c cs)
  have "kp kept_but_input w (case end_segment api unset part st w1 of Inl w2 \<Rightarrow> w2 | Inr (ex, st1, w2) \<Rightarrow> w2)"
    by (rule kp_trans [OF Cons.prems end_segment_kp [OF assms(1)] kept_but_input_trans])
  then show ?case using Cons by (auto intro: kp_same [OF _ quiet_shell_error] split: sum.splits)
qed

lemma execute_line_kp:
  assumes "unset_closed unset" shows "kp kept_but_input w (snd (snd (execute_line api unset line st w)))"
  unfolding execute_line_def by (rule line_loop_kp [OF assms kp_refl]) simp

end

section \<open>The variables that are read before they are set\<close>

text \<open>
  When the redirections of a stage cannot be opened, the cleanup still looks at those of the stages after
  it. If the stack happens to hold 0 and 1 there, the shell closes its own input and output.
\<close>

theorem unset_descriptors_closed:
  "be_fds (snd (snd (execute_line bench_api (\<lambda>_. (0, 1)) ''cat < missing | cat'' 0 bench_start))) = [(2, ''tty'')]"
  by code_simp

end
