(* ===== verification/Kernel_Client.thy ===== *)
theory Kernel_Client
  imports Kernel_Isolation Shell_Descriptors
begin

text \<open>
  A program on this kernel: the table of calls that \<^verbatim>\<open>initialize_api\<close> fills, for one task. A call that has
  to wait returns when the scheduler has resumed the task; what happens in the meantime, the work of the
  other tasks and of the host, is an arbitrary sequence of events. With the frames of the kernel's calls
  this table meets the contract the shell was verified against.
\<close>

section \<open>The calls of one task\<close>

text \<open>
  The result of a call that waits, from the events that follow. A task that has been ended does not
  return; and while a task waits in a call it is not replaced by an exec of its own.
\<close>

fun await :: "addr \<Rightarrow> kernel_event list \<Rightarrow> cb_kernel \<Rightarrow> result option \<times> cb_kernel" where
  "await a [] k = (None, k)"
| "await a (e # es) k =
     (if \<not> task_is unfinished k a then (None, k)
      else if event_of a e
      then (case e of
              Resume _ \<Rightarrow> (case kernel_step e k of (Some r, k') \<Rightarrow> (Some r, k') | (None, k') \<Rightarrow> await a es k')
            | _ \<Rightarrow> await a es k)
      else await a es (snd (kernel_step e k)))"

definition syscall :: "(cb_kernel \<Rightarrow> kernel_event list) \<Rightarrow> addr \<Rightarrow> call \<Rightarrow> cb_kernel \<Rightarrow> result option \<times> cb_kernel" where
  "syscall sched a c k =
     (if k_current k = Some a
      then (case do_call k a c of (Some r, k') \<Rightarrow> (Some r, k') | (None, k') \<Rightarrow> await a (sched k') k')
      else (None, k))"

text \<open>The return value of a call; a call that does not return has none, and the program does not go on.\<close>

fun int_result :: "result option \<Rightarrow> int" where
  "int_result (Some (R_int n)) = n"
| "int_result _ = -1"

fun string_result :: "result option \<Rightarrow> string option" where
  "string_result (Some (R_string s)) = s"
| "string_result _ = None"

fun wait_result :: "result option \<Rightarrow> int \<times> int" where
  "wait_result (Some (R_wait n v)) = (n, case v of None \<Rightarrow> 0 | Some i \<Rightarrow> i)"
| "wait_result _ = (-1, 0)"

fun bytes_result :: "result option \<Rightarrow> int \<times> string" where
  "bytes_result (Some (R_bytes n s)) = (n, s)"
| "bytes_result _ = (-1, [])"

fun pipe_result :: "result option \<Rightarrow> int \<times> int \<times> int" where
  "pipe_result (Some (R_pipe n (Some (i, out)))) = (n, i, out)"
| "pipe_result _ = (-1, -1, -1)"

definition on_result :: "(result option \<Rightarrow> 'r) \<Rightarrow> result option \<times> cb_kernel \<Rightarrow> 'r \<times> cb_kernel" where
  "on_result f out = (f (fst out), snd out)"

definition kernel_api :: "(nat \<Rightarrow> cb_kernel \<Rightarrow> bool) \<Rightarrow> (cb_kernel \<Rightarrow> kernel_event list) \<Rightarrow> addr \<Rightarrow> cb_kernel cb_api" where
  "kernel_api heap sched a = \<lparr>
     ap_spawn = (\<lambda>name argv actions k. on_result wait_result (syscall sched a (C_spawn (Some name) (Some argv) None actions False) k)),
     ap_waitpid = (\<lambda>pid k. on_result wait_result (syscall sched a (C_waitpid pid) k)),
     ap_open = (\<lambda>p flags mode k. on_result int_result (syscall sched a (C_open p flags (nat mode)) k)),
     ap_close = (\<lambda>d k. on_result int_result (syscall sched a (C_close d) k)),
     ap_read = (\<lambda>d n k. on_result bytes_result (syscall sched a (C_read d False n) k)),
     ap_write = (\<lambda>d s k. on_result int_result (syscall sched a (C_write d (Some s) (length s)) k)),
     ap_dup = (\<lambda>d k. on_result int_result (syscall sched a (C_dup d) k)),
     ap_dup2 = (\<lambda>d e k. on_result int_result (syscall sched a (C_dup2 d e) k)),
     ap_pipe = (\<lambda>k. on_result pipe_result (syscall sched a (C_pipe False) k)),
     ap_chdir = (\<lambda>p k. on_result int_result (syscall sched a (C_chdir p) k)),
     ap_getcwd = (\<lambda>n k. on_result string_result (syscall sched a (C_getcwd False n) k)),
     ap_getenv = (\<lambda>name k. on_result string_result (syscall sched a (C_getenv name) k)),
     ap_setenv = (\<lambda>name v over k. on_result int_result (syscall sched a (C_setenv name (Some v) over) k)),
     ap_unsetenv = (\<lambda>name k. on_result int_result (syscall sched a (C_unsetenv name) k)),
     ap_strerror = api_strerror,
     ap_get_errno = (\<lambda>k. case k_tasks k a of None \<Rightarrow> 0 | Some t \<Rightarrow> t_error t),
     ap_malloc = (\<lambda>n k. (heap n k, k))\<rparr>"

section \<open>The table of descriptors\<close>

definition fd_table :: "addr \<Rightarrow> cb_kernel \<Rightarrow> addr table" where
  "fd_table a k = (\<lambda>d. case k_tasks k a of None \<Rightarrow> None | Some t \<Rightarrow> fd_lookup t d)"

definition running :: "addr \<Rightarrow> cb_kernel \<Rightarrow> bool" where
  "running a k \<longleftrightarrow> k_current k = Some a"

abbreviation keeps_table :: "addr \<Rightarrow> (addr table \<Rightarrow> addr table \<Rightarrow> bool) \<Rightarrow> cb_kernel \<Rightarrow> cb_kernel \<Rightarrow> bool" where
  "keeps_table a \<equiv> keeps kernel_inv (running a) (fd_table a)"

lemma same_files_lookup:
  assumes "same_files t t'" "length (t_descriptors t) = CB_MAX_FDS" shows "fd_lookup t' = fd_lookup t"
proof
  fix d
  have "length (t_descriptors t') = CB_MAX_FDS" using assms by (metis length_map same_files_def)
  then have "fd_file (t_descriptors t' ! i) = fd_file (t_descriptors t ! i)" if "i < CB_MAX_FDS" for i
    using assms that unfolding same_files_def by (metis nth_map)
  then show "fd_lookup t' d = fd_lookup t d" by (auto simp: fd_lookup_def fd_entry_def valid_fd_def)
qed

text \<open>A task that waits in a call keeps its files until the call returns.\<close>

definition waiting_with :: "addr \<Rightarrow> cb_task \<Rightarrow> cb_kernel \<Rightarrow> bool" where
  "waiting_with a t0 k \<longleftrightarrow> kernel_inv k \<and> k_current k \<noteq> Some a \<and>
     (\<forall>t. k_tasks k a = Some t \<longrightarrow> unfinished t \<longrightarrow> same_files t0 t)"

lemma woken_same_files: "woken_only t t' \<Longrightarrow> same_files t t'"
proof -
  assume "woken_only t t'"
  then have "t_descriptors (own_part t') = t_descriptors (own_part t)" by (simp add: woken_only_def)
  then show ?thesis by (simp add: own_part_def same_files_def)
qed

lemma same_files_trans: "same_files t t1 \<Longrightarrow> same_files t1 t2 \<Longrightarrow> same_files t t2"
  by (simp add: same_files_def)

lemma exit_finished: "k_tasks (api_exit k a status) a = Some t \<Longrightarrow> \<not> unfinished t"
proof -
  let ?Z = "\<lambda>t. t\<lparr>t_exit_status := status AND 255, t_state := CB_TASK_ZOMBIE, t_suspended := In_exit\<rparr>"
  let ?k2 = "upd_task (dir_close_all (fd_close_all (task_release_allocations k a) a) a) a ?Z"
  have wake: "k_tasks (wake_waiting_parent k3 c) a = k_tasks k3 a" if "k_tasks k3 a = Some z" "t_state z = CB_TASK_ZOMBIE" for k3 c z
    using that by (auto simp: wake_waiting_parent_def upd_task_def fault_def find_Some_iff task_is_def waits_for_def split: option.splits)
  assume t: "k_tasks (api_exit k a status) a = Some t"
  show ?thesis
  proof (cases "k_tasks ?k2 a")
    case None
    then show ?thesis using t by (simp add: api_exit_def Let_def fault_def)
  next
    case (Some z)
    then have z: "t_state z = CB_TASK_ZOMBIE" by (auto simp: upd_task_def fault_def split: option.splits)
    then have "k_tasks (api_exit k a status) a = Some z"
      using Some by (simp add: api_exit_def Let_def wake)
    then show ?thesis using t z by (simp add: unfinished_def)
  qed
qed

lemma own_dispatch:
  assumes "dispatch k a = (r, k')"
  shows "frames a same_files k k' \<or> r = None \<and> \<not> task_is unfinished k' a"
proof (cases "k_tasks k a")
  case None
  then show ?thesis by (simp add: frames_def)
next
  case (Some t)
  let ?k1 = "(upd_task k a (\<lambda>t. t\<lparr>t_state := CB_TASK_RUNNING\<rparr>))\<lparr>k_current := Some a\<rparr>"
  have k1: "frames a same_files k ?k1" by (intro own.fr_fields own.fr_upd own.fr_refl) (simp_all add: unfinished_def)
  obtain alive k2 where d: "cb_task_deliver_interrupt ?k1 a = (alive, k2)" by fastforce
  show ?thesis
  proof (cases alive)
    case True
    then have "k2 = ?k1" using d by (auto simp: cb_task_deliver_interrupt_def split: option.splits if_splits)
    then have "continue_call ?k1 a (t_suspended t) = (r, k')" using assms Some d True by (simp add: dispatch_def resume_task_def)
    then show ?thesis using own.fr_continue [OF k1, of "t_suspended t"] by simp
  next
    case False
    then have "r = None" "k' = k2" using assms Some d by (auto simp: dispatch_def resume_task_def)
    moreover have "k2 = api_exit (upd_task ?k1 a (\<lambda>t. t\<lparr>t_interrupt_pending := False\<rparr>)) a 130"
      using d False Some by (auto simp: cb_task_deliver_interrupt_def upd_task_def split: option.splits if_splits)
    ultimately show ?thesis using exit_finished by (auto simp: task_is_def split: option.split)
  qed
qed

lemma waiting_frames:
  assumes "waiting_with a t0 k" "frames a R k k'" "\<And>t t'. R t t' \<Longrightarrow> same_files t t'" "task_is unfinished k a"
  shows "\<exists>t. k_tasks k' a = Some t \<and> unfinished t \<and> same_files t0 t"
proof -
  obtain t where t: "k_tasks k a = Some t" "unfinished t" using assms(4) by (auto simp: task_is_def split: option.splits)
  then have "same_files t0 t" using assms(1) by (simp add: waiting_with_def)
  moreover obtain t' where "k_tasks k' a = Some t'" "unfinished t'" "R t t'" using assms(2) t by (auto simp: frames_def)
  ultimately show ?thesis using assms(3) same_files_trans by blast
qed

lemma waiting_step:
  assumes "waiting_with a t0 k" "\<not> event_of a e" "task_is unfinished k a"
  shows "waiting_with a t0 (snd (kernel_step e k))"
proof -
  have inv: "kernel_inv k" "k_current k \<noteq> Some a" using assms(1) by (auto simp: waiting_with_def)
  have s: "frames a woken_only k (snd (kernel_step e k))" "k_current (snd (kernel_step e k)) \<noteq> Some a"
    using step_isolated [OF inv assms(2)] by auto
  then show ?thesis
    using waiting_frames [OF assms(1) s(1) woken_same_files assms(3)] kernel_machine.invar_step [OF inv(1), of e]
    by (auto simp: waiting_with_def)
qed

text \<open>A resumption leaves the task waiting, or its call returns.\<close>

lemma waiting_resume:
  assumes "waiting_with a t0 k" "task_is unfinished k a" "kernel_step (Resume a) k = (r, k')"
  shows "r = None \<and> waiting_with a t0 k' \<or> r \<noteq> None \<and> kernel_inv k' \<and> (\<exists>t. k_tasks k' a = Some t \<and> same_files t0 t)"
proof (cases "k_current k = None \<and> runnable k a")
  case False
  then have "r = None" "k' = k" using assms(3) by auto
  then show ?thesis using assms(1) by simp
next
  case run: True
  have inv: "kernel_inv k" using assms(1) by (simp add: waiting_with_def)
  have d: "dispatch k a = (r, k')" using assms(3) run by simp
  have i: "kernel_inv k'" using kernel_machine.invar_step [OF inv, of "Resume a"] assms(3) by simp
  have ret: "returns a (r, k')"
    using resume_ok [of k a] inv run d by (auto simp: kernel_inv_def runnable_def task_is_def split: option.splits)
  show ?thesis
    using own_dispatch [OF d] waiting_frames [OF assms(1) _ _ assms(2), of same_files k'] i ret
    by (cases r) (auto simp: waiting_with_def task_is_def split: option.splits)
qed

lemma await_keeps:
  assumes "waiting_with a t0 k" "await a es k = (r, k')"
  shows "kernel_inv k' \<and> (k_current k' = Some a \<longrightarrow> (\<exists>t. k_tasks k' a = Some t \<and> same_files t0 t))"
  using assms
proof (induction es arbitrary: k)
  case Nil
  then show ?case by (auto simp: waiting_with_def)
next
  case (Cons e es)
  show ?case
  proof (cases "task_is unfinished k a")
    case False
    then show ?thesis using Cons.prems by (auto simp: waiting_with_def)
  next
    case True
    then consider (other) "\<not> event_of a e" | (resume) "e = Resume a" | (exec) "e = Finish_exec a" by (cases e) auto
    then show ?thesis
    proof cases
      case other
      then show ?thesis using Cons.IH [OF waiting_step [OF Cons.prems(1) other True]] Cons.prems(2) True by simp
    next
      case resume
      obtain r1 k1 where d: "kernel_step (Resume a) k = (r1, k1)" by fastforce
      show ?thesis
        using waiting_resume [OF Cons.prems(1) True d] Cons.IH [of k1] Cons.prems(2) True resume d
        by (cases r1) (auto simp del: kernel_step.simps)
    next
      case exec
      then show ?thesis using Cons.IH [OF Cons.prems(1)] Cons.prems(2) True by simp
    qed
  qed
qed

lemma syscall_quiet:
  assumes "quiet_call c" shows "keeps_table a (\<lambda>T T'. T' = T) k (snd (syscall sched a c k))"
  unfolding keeps_def
proof
  assume inv: "kernel_inv k"
  show "kernel_inv (snd (syscall sched a c k)) \<and>
    (running a (snd (syscall sched a c k)) \<longrightarrow> running a k \<and> fd_table a (snd (syscall sched a c k)) = fd_table a k)"
  proof (cases "k_current k = Some a")
    case False
    then show ?thesis using inv by (simp add: syscall_def running_def)
  next
    case True
    then have g: "good k a zero zero" using kernel_inv_current inv by blast
    then obtain t where t: "k_tasks k a = Some t" "t_state t = CB_TASK_RUNNING" "kinv k zero zero" "task_shape (vfs_root (k_vfs k)) t" by (rule goodE)
    have len: "length (t_descriptors t) = CB_MAX_FDS" using t(4) by (simp add: task_shape_def)
    obtain r k1 where r: "do_call k a c = (r, k1)" by fastforce
    have "returns a (r, k1)" using do_call_ok [OF g, of c] r by simp
    note i1 = returns_inv [OF this] and ret = this
    have f: "frames a same_files k k1" using own.fr_quiet_call [OF t(3) assms, of a] r by simp
    then obtain t1 where t1: "k_tasks k1 a = Some t1" "same_files t t1" using t by (auto simp: frames_def unfinished_def)
    show ?thesis
    proof (cases r)
      case (Some x)
      then show ?thesis using r True i1 t1 t(1) same_files_lookup [OF t1(2) len] by (simp add: syscall_def running_def fd_table_def)
    next
      case None
      have w: "waiting_with a t k1" using ret None i1 t1 by (auto simp: waiting_with_def)
      obtain r2 k2 where 2: "await a (sched k1) k1 = (r2, k2)" by fastforce
      show ?thesis
        using await_keeps [OF w 2] r None True 2 t(1) same_files_lookup [OF _ len] by (auto simp: syscall_def running_def fd_table_def)
    qed
  qed
qed

section \<open>The calls on descriptors\<close>

lemma table_tasks: "k_tasks k' a = k_tasks k a \<Longrightarrow> fd_table a k' = fd_table a k"
  by (simp add: fd_table_def)

lemma table_error [simp]: "fd_table a (cb_task_set_error k a e) = fd_table a k"
  by (auto simp: fd_table_def cb_task_set_error_def upd_task_def fault_def fd_lookup_def fd_entry_def split: option.split)

lemma table_fields [simp]:
  "fd_table a (fault k) = fd_table a k" "fd_table a (k\<lparr>k_files := fs\<rparr>) = fd_table a k" "fd_table a (k\<lparr>k_vfs := v\<rparr>) = fd_table a k"
  "fd_table a (k\<lparr>k_pipes := ps\<rparr>) = fd_table a k" "fd_table a (k\<lparr>k_vfs := v, k_files := fs\<rparr>) = fd_table a k"
  "fd_table a (cb_open_file_retain k f) = fd_table a k"
  by (simp_all add: fd_table_def fault_def cb_open_file_retain_def split: option.split)

text \<open>A task on the processor: it exists, it is not blocked, and its table has its full size.\<close>

definition on_processor :: "addr \<Rightarrow> cb_kernel \<Rightarrow> bool" where
  "on_processor a k \<longleftrightarrow> (\<exists>t. k_tasks k a = Some t \<and> \<not> is_blocked (t_state t) \<and> length (t_descriptors t) = CB_MAX_FDS)"

lemma good_on_processor: "good k a x y \<Longrightarrow> on_processor a k"
  by (erule goodE) (auto simp: on_processor_def task_shape_def)

lemma on_processor_fields [simp]:
  "on_processor a (fault k) = on_processor a k" "on_processor a (k\<lparr>k_files := fs\<rparr>) = on_processor a k"
  "on_processor a (k\<lparr>k_vfs := v\<rparr>) = on_processor a k" "on_processor a (k\<lparr>k_pipes := ps\<rparr>) = on_processor a k"
  "on_processor a (k\<lparr>k_vfs := v, k_files := fs\<rparr>) = on_processor a k"
  "on_processor a (cb_open_file_retain k f) = on_processor a k"
  by (simp_all add: on_processor_def fault_def cb_open_file_retain_def split: option.split)

lemma on_processor_steps [simp]:
  "on_processor a k \<Longrightarrow> on_processor a (cb_task_set_error k a e)"
  "on_processor a k \<Longrightarrow> on_processor a (set_fd k a d f c)"
  "on_processor a k \<Longrightarrow> on_processor a (cb_open_file_release k fo)"
  using file_release_task [of k a] by (auto simp: on_processor_def cb_task_set_error_def set_fd_def upd_task_def)

lemma table_release [simp]: "on_processor a k \<Longrightarrow> fd_table a (cb_open_file_release k fo) = fd_table a k"
  using file_release_task [of k a] by (auto simp: on_processor_def fd_table_def)

lemma table_set_fd:
  assumes "on_processor a k" "valid_fd d" shows "fd_table a (set_fd k a d f c) = (fd_table a k)(d := f)"
proof
  fix x
  obtain t where t: "k_tasks k a = Some t" "length (t_descriptors t) = CB_MAX_FDS" using assms(1) by (auto simp: on_processor_def)
  have "nat x = nat d \<longleftrightarrow> x = d" if "valid_fd x" using that assms(2) by (auto simp: valid_fd_def)
  moreover have "nat d < length (t_descriptors t)" using assms(2) t(2) by (auto simp: valid_fd_def)
  ultimately show "fd_table a (set_fd k a d f c) x = ((fd_table a k)(d := f)) x"
    using t assms(2) by (auto simp: fd_table_def set_fd_def upd_task_def fd_lookup_def fd_entry_def nth_list_update)
qed

lemma table_invalid: "\<not> valid_fd d \<Longrightarrow> fd_table a k d = None"
  by (simp add: fd_table_def fd_lookup_def split: option.split)

lemma install_opened:
  assumes "on_processor a k" "fd_install k a f 0 = (d, k')"
  shows "opened (fd_table a k) d (fd_table a k') \<and> on_processor a k' \<and> (0 \<le> d \<longrightarrow> fd_table a k' = (fd_table a k)(d \<mapsto> f))"
proof -
  obtain t where t: "k_tasks k a = Some t" using assms(1) by (auto simp: on_processor_def)
  show ?thesis
  proof (cases "lowest_free t 0")
    case None
    then show ?thesis using assms t by (auto simp: fd_install_def opened_def)
  next
    case (Some e)
    then obtain n where n: "e = int n" "n < CB_MAX_FDS" "fd_file (t_descriptors t ! n) = None" "\<forall>m<n. fd_file (t_descriptors t ! m) \<noteq> None"
      by (auto simp: lowest_free_def find_Some_iff)
    have v: "valid_fd e" using n by (simp add: valid_fd_def)
    have "fd_table a k e = None" "\<forall>d'. 0 \<le> d' \<and> d' < e \<longrightarrow> fd_table a k d' \<noteq> None"
      using t n v by (auto simp: fd_table_def fd_lookup_def fd_entry_def valid_fd_def)
    moreover have "d = e" "k' = set_fd k a e (Some f) False" using assms(2) t Some by (auto simp: fd_install_def)
    ultimately show ?thesis using table_set_fd [OF assms(1) v] assms(1) n by (auto simp: opened_def)
  qed
qed

lemma fd_close_table:
  assumes "on_processor a k" "fd_close k a d = (r, k')"
  shows "fd_table a k' = (fd_table a k)(d := None) \<and> on_processor a k'"
proof -
  obtain t where t: "k_tasks k a = Some t" using assms(1) by (auto simp: on_processor_def)
  show ?thesis
  proof (cases "fd_lookup t d")
    case None
    then have "fd_table a k d = None" using t by (simp add: fd_table_def)
    then show ?thesis using assms t None by (auto simp: fd_close_def)
  next
    case (Some f)
    then have "valid_fd d" by (auto simp: fd_lookup_def split: if_splits)
    then show ?thesis using assms t Some table_set_fd [OF assms(1)] by (auto simp: fd_close_def)
  qed
qed

lemma do_open:
  assumes "on_processor a k" "api_open k a p fl m = (r, k')" shows "\<exists>d. r = Some (R_int d) \<and> opened (fd_table a k) d (fd_table a k')"
proof -
  obtain t where t: "k_tasks k a = Some t" using assms(1) by (auto simp: on_processor_def)
  obtain x v where x: "cb_vfs_open (k_vfs k) (t_root t) (t_cwd t) p fl m = (x, v)" by fastforce
  show ?thesis
  proof (cases x)
    case (Inl e)
    then show ?thesis using assms t x by (auto simp: api_open_def opened_def)
  next
    case (Inr y)
    obtain f fl' where y: "y = (f, fl')" by fastforce
    let ?k1 = "cb_task_set_error (k\<lparr>k_vfs := v, k_files := (k_files k)(f \<mapsto> fl')\<rparr>) a 0"
    obtain d k2 where d: "fd_install ?k1 a f 0 = (d, k2)" by fastforce
    have "on_processor a ?k1" using assms(1) by simp
    from install_opened [OF this d] show ?thesis using assms t x Inr y d by (auto simp: api_open_def)
  qed
qed

lemma do_close:
  assumes "on_processor a k" "api_close k a d = (r, k')" shows "\<exists>x. r = Some x \<and> fd_table a k' = (fd_table a k)(d := None)"
  using assms fd_close_table [OF assms(1)] by (auto simp: api_close_def split: prod.splits)

lemma do_dup:
  assumes "on_processor a k" "api_dup k a d = (r, k')"
  shows "\<exists>n. r = Some (R_int n) \<and> (n < 0 \<and> fd_table a k' = fd_table a k \<or>
    0 \<le> n \<and> fd_table a k n = None \<and> (\<exists>f. fd_table a k d = Some f \<and> fd_table a k' = (fd_table a k)(n \<mapsto> f)))"
proof -
  obtain t where t: "k_tasks k a = Some t" using assms(1) by (auto simp: on_processor_def)
  show ?thesis
  proof (cases "fd_lookup t d")
    case None
    then show ?thesis using assms t by (auto simp: api_dup_def)
  next
    case (Some f)
    obtain n k2 where n: "fd_install (cb_open_file_retain k f) a f 0 = (n, k2)" by fastforce
    have "on_processor a (cb_open_file_retain k f)" using assms(1) by simp
    note i = install_opened [OF this n]
    have T: "fd_table a k d = Some f" using t Some by (simp add: fd_table_def)
    show ?thesis using assms t Some n i T by (cases "n < 0") (auto simp: api_dup_def opened_def)
  qed
qed

lemma do_dup2:
  assumes "on_processor a k" "api_dup2 k a d e = (r, k')" "e = 0 \<or> e = 1"
  shows "\<exists>n. r = Some (R_int n) \<and> (case fd_table a k d of None \<Rightarrow> n < 0 \<and> fd_table a k' = fd_table a k
    | Some f \<Rightarrow> 0 \<le> n \<and> fd_table a k' = (fd_table a k)(e \<mapsto> f))"
proof -
  obtain t where t: "k_tasks k a = Some t" using assms(1) by (auto simp: on_processor_def)
  have T: "fd_table a k d = fd_lookup t d" using t by (simp add: fd_table_def)
  have v: "valid_fd e" using assms(3) by (auto simp: valid_fd_def CB_MAX_FDS_def)
  show ?thesis
  proof (cases "fd_lookup t d")
    case None
    then show ?thesis using assms t T by (auto simp: api_dup2_def)
  next
    case (Some f)
    have "fd_table a (snd (fd_install_at k a f e True)) = (fd_table a k)(e \<mapsto> f)"
      using t v assms(1) table_set_fd [OF _ v] by (simp add: fd_install_at_def Let_def)
    then show ?thesis using assms(2,3) t T Some v by (auto simp: api_dup2_def Let_def fun_upd_idem)
  qed
qed

lemma create_file_table:
  "cb_open_file_create k ops fl = (r, k') \<Longrightarrow> fd_table a k' = fd_table a k \<and> on_processor a k' = on_processor a k"
  by (auto simp: cb_open_file_create_def fd_table_def on_processor_def split: prod.splits option.splits)

lemma do_pipe:
  assumes "on_processor a k" "api_pipe k a False = (r, k')"
  shows "\<exists>n ends. r = Some (R_pipe n ends) \<and> (n < 0 \<and> ends = None \<and> fd_table a k' = fd_table a k \<or>
    (\<exists>i out. 0 \<le> n \<and> ends = Some (i, out) \<and> 0 \<le> i \<and> 0 \<le> out \<and> extends (fd_table a k) [i, out] (fd_table a k')))"
proof -
  obtain p h where p: "cb_allocate (k_host k) = (p, h)" by fastforce
  show ?thesis
  proof (cases p)
    case None
    then show ?thesis using assms p by (auto simp: api_pipe_def)
  next
    case (Some q)
    obtain reader k1 where 1: "cb_open_file_create (set_host k h) (PipeReadEnd q) CB_O_RDONLY = (reader, k1)" by fastforce
    have t1: "fd_table a k1 = fd_table a k" "on_processor a k1" using create_file_table [OF 1] assms(1) by simp_all
    let ?k1 = "k1\<lparr>k_pipes := (k_pipes k1)(q \<mapsto> pipe_new\<lparr>pp_readers := 1\<rparr>)\<rparr>"
    obtain writer k2 where 2: "cb_open_file_create ?k1 (PipeWriteEnd q) CB_O_WRONLY = (writer, k2)" by fastforce
    have t2: "fd_table a k2 = fd_table a k" "on_processor a k2" using create_file_table [OF 2] t1 by simp_all
    show ?thesis
    proof (cases "reader = None \<or> writer = None")
      case True
      then show ?thesis using assms(2) p Some 1 2 t1 t2 by (auto simp: api_pipe_def split: option.splits)
    next
      case False
      then obtain rf wf where f: "reader = Some rf" "writer = Some wf" by auto
      let ?k2 = "k2\<lparr>k_pipes := (k_pipes k2)(q \<mapsto> pipe_new\<lparr>pp_readers := 1, pp_writers := 1\<rparr>)\<rparr>"
      obtain rd k3 where 3: "fd_install ?k2 a rf 0 = (rd, k3)" by fastforce
      obtain wd k4 where 4: "fd_install k3 a wf 0 = (wd, k4)" by fastforce
      have t3: "opened (fd_table a k) rd (fd_table a k3)" "on_processor a k3" using install_opened [OF _ 3] t2 by simp_all
      have t4: "opened (fd_table a k3) wd (fd_table a k4)" "on_processor a k4" using install_opened [OF t3(2) 4] by simp_all
      obtain c k5 where 5: "fd_close k4 a rd = (c, k5)" by fastforce
      have t5: "fd_table a k5 = (fd_table a k4)(rd := None)" "on_processor a k5" using fd_close_table [OF t4(2) 5] by simp_all
      note call = assms(2) [unfolded api_pipe_def, simplified, unfolded p Some prod.case option.case 1 f 2 3 4 5]
      consider (a) "rd < 0" | (b) "\<not> rd < 0" "wd < 0" | (c) "0 \<le> rd" "0 \<le> wd" by linarith
      then show ?thesis
      proof cases
        case a
        then show ?thesis using call t3 by (auto simp: opened_def)
      next
        case b
        then have "fd_table a k5 = fd_table a k" using t3(1) t4(1) t5(1) by (auto simp: opened_def fun_upd_idem)
        then show ?thesis using call b t5(2) 5 by auto
      next
        case c
        then show ?thesis using call opened_extends2 [OF t3(1) t4(1)] by auto
      qed
    qed
  qed
qed

text \<open>A call that never waits.\<close>

lemma syscall_now:
  assumes "\<And>r k1. on_processor a k \<Longrightarrow> do_call k a c = (r, k1) \<Longrightarrow> \<exists>x. r = Some x \<and> F x (fd_table a k) (fd_table a k1)"
    "syscall sched a c k = (r, k')"
  shows "keeps_table a (\<lambda>T T'. \<exists>x. r = Some x \<and> F x T T') k k'"
  unfolding keeps_def
proof
  assume inv: "kernel_inv k"
  show "kernel_inv k' \<and> (running a k' \<longrightarrow> running a k \<and> (\<exists>x. r = Some x \<and> F x (fd_table a k) (fd_table a k')))"
  proof (cases "k_current k = Some a")
    case False
    then show ?thesis using assms(2) inv by (auto simp: syscall_def running_def)
  next
    case True
    then have g: "good k a zero zero" using kernel_inv_current inv by blast
    obtain r1 k1 where 1: "do_call k a c = (r1, k1)" by fastforce
    obtain x where x: "r1 = Some x" "F x (fd_table a k) (fd_table a k1)" using assms(1) [OF good_on_processor [OF g] 1] by blast
    have "kernel_inv k1" using returns_inv [OF do_call_ok [OF g, of c]] 1 by simp
    moreover have "r = Some x" "k' = k1" using assms(2) 1 x True by (simp_all add: syscall_def)
    ultimately show ?thesis using x True by (simp add: running_def)
  qed
qed

lemma kernel_api_quiet: "quiet_calls (kernel_api heap sched a) (keeps_table a (\<lambda>T T'. T' = T))"
proof
  show "keeps_table a (\<lambda>T T'. T' = T) w w" for w by (simp add: keeps_def)
  show "keeps_table a (\<lambda>T T'. T' = T) w w1 \<Longrightarrow> keeps_table a (\<lambda>T T'. T' = T) w1 w2 \<Longrightarrow> keeps_table a (\<lambda>T T'. T' = T) w w2"
    for w w1 w2 by (simp add: keeps_def)
  show "keeps_table a (\<lambda>T T'. T' = T) w (snd (ap_malloc (kernel_api heap sched a) n w))" for w n by (simp add: keeps_def kernel_api_def)
qed (simp_all add: kernel_api_def on_result_def syscall_quiet)

interpretation kernel_calls: descriptor_calls "kernel_api heap sched a" kernel_inv "running a" "fd_table a" for heap sched a
proof (rule descriptor_calls.intro [OF kernel_api_quiet])
  fix p flags mode w r w' assume c: "ap_open (kernel_api heap sched a) p flags mode w = (r, w')"
  obtain x where s: "syscall sched a (C_open p flags (nat mode)) w = (x, w')" "r = int_result x"
    using c by (cases "syscall sched a (C_open p flags (nat mode)) w") (simp add: kernel_api_def on_result_def)
  have "keeps_table a (\<lambda>T T'. \<exists>y. x = Some y \<and> (\<exists>d. y = R_int d \<and> opened T d T')) w w'"
    by (rule syscall_now [OF _ s(1)]) (simp, blast dest: do_open)
  then show "keeps_table a (\<lambda>T T'. opened T r T') w w'" using s(2) by (auto simp: keeps_def)
next
  fix d w r w' assume c: "ap_close (kernel_api heap sched a) d w = (r, w')"
  obtain x where s: "syscall sched a (C_close d) w = (x, w')"
    using c by (cases "syscall sched a (C_close d) w") (simp add: kernel_api_def on_result_def)
  have "keeps_table a (\<lambda>T T'. \<exists>y. x = Some y \<and> T' = T(d := None)) w w'"
    by (rule syscall_now [OF _ s]) (simp, blast dest: do_close)
  then show "keeps_table a (\<lambda>T T'. T' = T(d := None)) w w'" by (auto simp: keeps_def)
next
  fix d w r w' assume c: "ap_dup (kernel_api heap sched a) d w = (r, w')"
  obtain x where s: "syscall sched a (C_dup d) w = (x, w')" "r = int_result x"
    using c by (cases "syscall sched a (C_dup d) w") (simp add: kernel_api_def on_result_def)
  have "keeps_table a (\<lambda>T T'. \<exists>y. x = Some y \<and> (\<exists>n. y = R_int n \<and>
      (n < 0 \<and> T' = T \<or> 0 \<le> n \<and> T n = None \<and> (\<exists>f. T d = Some f \<and> T' = T(n \<mapsto> f))))) w w'"
    by (rule syscall_now [OF _ s(1)]) (simp, blast dest: do_dup)
  then show "keeps_table a (\<lambda>T T'. r < 0 \<and> T' = T \<or> 0 \<le> r \<and> T r = None \<and> (\<exists>f. T d = Some f \<and> T' = T(r \<mapsto> f))) w w'"
    using s(2) by (auto simp: keeps_def)
next
  fix d e w r w' assume c: "ap_dup2 (kernel_api heap sched a) d e w = (r, w')" and e: "e = 0 \<or> e = 1"
  obtain x where s: "syscall sched a (C_dup2 d e) w = (x, w')" "r = int_result x"
    using c by (cases "syscall sched a (C_dup2 d e) w") (simp add: kernel_api_def on_result_def)
  have "keeps_table a (\<lambda>T T'. \<exists>y. x = Some y \<and> (\<exists>n. y = R_int n \<and>
      (case T d of None \<Rightarrow> n < 0 \<and> T' = T | Some f \<Rightarrow> 0 \<le> n \<and> T' = T(e \<mapsto> f)))) w w'"
    by (rule syscall_now [OF _ s(1)]) (simp, blast dest: do_dup2 [OF _ _ e])
  then show "keeps_table a (\<lambda>T T'. case T d of None \<Rightarrow> r < 0 \<and> T' = T | Some f \<Rightarrow> 0 \<le> r \<and> T' = T(e \<mapsto> f)) w w'"
    using s(2) by (auto simp: keeps_def split: option.splits)
next
  fix w r i out w' assume c: "ap_pipe (kernel_api heap sched a) w = ((r, i, out), w')"
  obtain x where s: "syscall sched a (C_pipe False) w = (x, w')" "(r, i, out) = pipe_result x"
    using c by (cases "syscall sched a (C_pipe False) w") (simp add: kernel_api_def on_result_def)
  have "keeps_table a (\<lambda>T T'. \<exists>y. x = Some y \<and> (\<exists>n ends. y = R_pipe n ends \<and> (n < 0 \<and> ends = None \<and> T' = T \<or>
      (\<exists>i out. 0 \<le> n \<and> ends = Some (i, out) \<and> 0 \<le> i \<and> 0 \<le> out \<and> extends T [i, out] T')))) w w'"
  proof (rule syscall_now [OF _ s(1)])
    fix y k1 assume "on_processor a w" "do_call w a (C_pipe False) = (y, k1)"
    then have "api_pipe w a False = (y, k1)" by simp
    from do_pipe [OF \<open>on_processor a w\<close> this]
    show "\<exists>x. y = Some x \<and> (\<exists>n ends. x = R_pipe n ends \<and> (n < 0 \<and> ends = None \<and> fd_table a k1 = fd_table a w \<or>
      (\<exists>i out. 0 \<le> n \<and> ends = Some (i, out) \<and> 0 \<le> i \<and> 0 \<le> out \<and> extends (fd_table a w) [i, out] (fd_table a k1))))"
      by metis
  qed
  then show "keeps_table a (\<lambda>T T'. r < 0 \<and> T' = T \<or> 0 \<le> r \<and> 0 \<le> i \<and> 0 \<le> out \<and> extends T [i, out] T') w w'"
    using s(2) by (auto simp: keeps_def)
qed

section \<open>The shell on this kernel\<close>


text \<open>A shell whose descriptors are the ends of a pipe, which it would wait on if it read or wrote.\<close>

definition client_kernel :: cb_kernel where
  "client_kernel = snd (run_events kernel_step [Resume 12, Call (C_pipe False), Call (C_dup 1)] pair_kernel)"

lemma client_kernel_inv: "kernel_inv client_kernel"
  unfolding client_kernel_def by (rule kernel_machine.invar_run [OF pair_kernel_inv(1)])


text \<open>
  C5. A builtin command with redirections runs in the shell itself, with descriptors 0 and 1 replaced
  for the time of the command. Afterwards all descriptors are as before, unless the command had both
  redirections and failed with status 1 before it ran, in which case descriptor 0 may be left redirected.
\<close>

theorem builtin_redirection_restored:
  assumes "kernel_inv k" "run_builtin_redirected (kernel_api heap sched a) stage st k = (ex, result, k')" "k_current k' = Some a"
  shows "fd_table a k' = fd_table a k \<or>
    result = 1 \<and> \<not> ex \<and> s_input_path stage \<noteq> None \<and> s_output_path stage \<noteq> None \<and>
    dom (fd_table a k') = dom (fd_table a k) \<and> (\<forall>d. d \<noteq> 0 \<longrightarrow> fd_table a k' d = fd_table a k d)"
  using kernel_calls.run_builtin_redirected_kp [OF assms(2)] assms(1,3) by (auto simp: keeps_def running_def kept_but_input_def)

theorem builtin_redirection_restored_witness:
  "fd_table 12 (snd (snd (run_builtin_redirected (kernel_api (\<lambda>_ _. True) (\<lambda>_. []) 12)
     \<lparr>s_argv = [''exit'', ''7''], s_input_path = None, s_output_path = None, s_append = False\<rparr> 0 client_kernel))) = fd_table 12 client_kernel"
proof -
  let ?api = "kernel_api (\<lambda>_ _. True) (\<lambda>_. []) 12"
  let ?stage = "\<lparr>s_argv = [''exit'', ''7''], s_input_path = None, s_output_path = None, s_append = False\<rparr>"
  let ?run = "run_builtin_redirected ?api ?stage 0 client_kernel"
  have "k_current (snd (snd ?run)) = Some 12" by code_simp
  then show ?thesis
    using builtin_redirection_restored [OF client_kernel_inv, of "\<lambda>_ _. True" "\<lambda>_. []" 12 ?stage 0 "fst ?run" "fst (snd ?run)" "snd (snd ?run)"]
    by auto
qed

end
