(* ===== verification/Programs.thy ===== *)
theory Programs
  imports Program_Api Scheduler "HOL-Library.Sublist"
begin

text \<open>
  The small programs of \<^verbatim>\<open>programs.c\<close>: \<^verbatim>\<open>tr\<close>, \<^verbatim>\<open>true\<close>, \<^verbatim>\<open>false\<close>, and the registration of the base programs.
  \<^verbatim>\<open>tr\<close> is shown to translate its input, whatever pieces it is read and written in, for every table of
  calls on which descriptors 0 and 1 behave as streams of bytes.
\<close>

section \<open>Messages\<close>

text \<open>
  The message is formatted into an array of 512 bytes, and as many bytes are written as the whole
  message has. \<open>beyond\<close> is what the memory after the array holds.
\<close>

definition report_error :: "'w cb_api \<Rightarrow> string \<Rightarrow> string \<Rightarrow> string \<Rightarrow> 'w \<Rightarrow> 'w" where
  "report_error api beyond command subject w =
     (let whole = command @ '': '' @ subject @ '': '' @ ap_strerror api (ap_get_errno api w) @ [newline];
          message = take 511 whole @ [NUL] @ beyond;
          count = length whole
      in if count > 0 then snd (write_all api 2 (take count message) w) else w)"

section \<open>Sets of characters\<close>

definition byte_range :: "byte \<Rightarrow> byte \<Rightarrow> byte list" where
  "byte_range first final = map char_of [(of_char first :: nat)..<Suc (of_char final)]"

function expand_loop :: "string \<Rightarrow> byte list \<Rightarrow> byte list option" where
  "expand_loop chars used =
     (if chars = [] then Some used
      else let first = hd chars
           in if length chars > 2 \<and> chars ! 1 = CHR ''-''
              then let final = chars ! 2
                   in if (of_char first :: nat) > of_char final then None
                      else if length used + length (byte_range first final) > 256 then None
                      else expand_loop (drop 3 chars) (used @ byte_range first final)
              else if length used = 256 then None
              else expand_loop (tl chars) (used @ [first]))"
  by pat_completeness auto
termination
  by (relation "measure (\<lambda>(chars, used). length chars)") auto

declare expand_loop.simps [simp del]

definition expand_set :: "string \<Rightarrow> byte list option" where
  "expand_set chars = expand_loop chars []"

section \<open>tr\<close>

definition tr_table :: "byte list \<Rightarrow> byte list \<Rightarrow> byte list" where
  "tr_table from_set to_set =
     fold (\<lambda>index m. m[of_char (from_set ! index) :=
             to_set ! (if index < length to_set then index else length to_set - 1)])
       [0..<length from_set] (map char_of [0..<256 :: nat])"

partial_function (option) tr_loop :: "'w cb_api \<Rightarrow> string \<Rightarrow> byte list \<Rightarrow> 'w \<Rightarrow> (int \<times> 'w) option" where
  "tr_loop api beyond table w =
     (case ap_read api 0 1024 w of
        ((count, buffer), w1) \<Rightarrow>
          if count < 0 then Some (1, report_error api beyond ''tr'' ''standard input'' w1)
          else if count = 0 then Some (0, w1)
          else case write_all api 1 (map (\<lambda>c. table ! of_char c) (take (nat count) buffer)) w1 of
                 (r, w2) \<Rightarrow> if r < 0 then Some (1, report_error api beyond ''tr'' ''standard output'' w2)
                            else tr_loop api beyond table w2)"

declare tr_loop.simps [code]

definition tr_main :: "'w cb_api \<Rightarrow> string \<Rightarrow> string list \<Rightarrow> 'w \<Rightarrow> (int \<times> 'w) option" where
  "tr_main api beyond argv w =
     (case (if length argv = 3 then (expand_set (argv ! 1), expand_set (argv ! 2)) else (None, None)) of
        (Some from_set, Some to_set) \<Rightarrow>
          if to_set = [] then Some (2, snd (write_all api 2 (''usage: tr string1 string2'' @ [newline]) w))
          else tr_loop api beyond (tr_table from_set to_set) w
      | _ \<Rightarrow> Some (2, snd (write_all api 2 (''usage: tr string1 string2'' @ [newline]) w)))"

section \<open>true, false and the registration of the programs\<close>

definition true_main :: "'w cb_api \<Rightarrow> string list \<Rightarrow> 'w \<Rightarrow> int \<times> 'w" where
  "true_main api argv w = (0, w)"

definition false_main :: "'w cb_api \<Rightarrow> string list \<Rightarrow> 'w \<Rightarrow> int \<times> 'w" where
  "false_main api argv w = (1, w)"

definition base_programs :: "string list" where
  "base_programs = [''sh'', ''__cannedbsd_shell_builtin'', ''echo'', ''tr'', ''true'', ''false'', ''wc'', ''yes'', ''printenv'',
     ''dirname'', ''basename'', ''head'', ''ls'', ''rm'', ''mv'', ''cat'', ''cp'', ''mkdir'']"

text \<open>A registration that fails is fatal: the host does not return.\<close>

definition cb_register_base_programs :: "cb_kernel \<Rightarrow> cb_kernel option" where
  "cb_register_base_programs k =
     fold (\<lambda>name out. Option.bind out (\<lambda>k. let (r, k') = cb_kernel_register_executor k name True in if r < 0 then None else Some k'))
       base_programs (Some k)"

section \<open>Properties of sets and tables\<close>

lemma expand_loop_length: "expand_loop chars used = Some out \<Longrightarrow> length used \<le> 256 \<Longrightarrow> length out \<le> 256"
proof (induction chars used rule: expand_loop.induct)
  case (1 chars used)
  show ?case
    using "1.prems" "1.IH" by (subst (asm) expand_loop.simps) (auto simp: Let_def split: if_splits)
qed

lemma tr_fold_length: "length (fold (\<lambda>i m. m[f i := g i]) is m) = length m"
  by (induction "is" arbitrary: m) simp_all

lemma length_tr_table [simp]: "length (tr_table from_set to_set) = 256"
  by (simp add: tr_table_def tr_fold_length)

text \<open>A character goes to the partner of its last occurrence in the first set; the second set is continued with its last character.\<close>

definition translate :: "byte list \<Rightarrow> byte list \<Rightarrow> byte \<Rightarrow> byte" where
  "translate from_set to_set c =
     (case map_of (rev (zip from_set (to_set @ replicate (length from_set - length to_set) (last to_set)))) c of
        None \<Rightarrow> c | Some d \<Rightarrow> d)"

lemma of_char_less: "(of_char (c :: char) :: nat) < 256"
  by simp

lemma fold_table_nth:
  assumes "length m = 256"
  shows "fold (\<lambda>p m. m[of_char (fst p) := snd p]) ps m ! of_char (c :: char) =
    (case map_of (rev ps) c of None \<Rightarrow> m ! of_char c | Some d \<Rightarrow> d)"
  using assms
proof (induction ps arbitrary: m)
  case (Cons p ps)
  have "of_char (fst p) = (of_char c :: nat) \<longleftrightarrow> fst p = c" by simp
  then show ?case using Cons by (auto simp: nth_list_update of_char_less map_add_def split: option.split)
qed simp

lemma tr_table_translates:
  assumes "to_set \<noteq> []" shows "tr_table from_set to_set ! of_char c = translate from_set to_set c"
proof -
  let ?to = "to_set @ replicate (length from_set - length to_set) (last to_set)"
  let ?g = "\<lambda>i. to_set ! (if i < length to_set then i else length to_set - 1)"
  have "zip from_set ?to = map (\<lambda>i. (from_set ! i, ?g i)) [0..<length from_set]"
    using assms by (intro nth_equalityI) (auto simp: nth_append last_conv_nth)
  then have "tr_table from_set to_set = fold (\<lambda>p m. m[of_char (fst p) := snd p]) (zip from_set ?to) (map char_of [0..<256 :: nat])"
    by (simp add: tr_table_def fold_map o_def)
  then show ?thesis using fold_table_nth [of "map char_of [0..<256 :: nat]" "zip from_set ?to" c] of_char_less [of c]
    by (simp add: translate_def split: option.split)
qed

section \<open>Streams\<close>

text \<open>
  The contract a filter relies on: what can still be read from descriptor 0 and what has been written
  to descriptor 1. A read returns some bytes, none only at the end; a write takes some of the bytes, or
  fails for lack of memory. Sizes are those of files, at most the largest offset.
\<close>

locale stream_calls =
  fixes api :: "'w cb_api" and ok_world :: "'w \<Rightarrow> bool" and input :: "'w \<Rightarrow> string" and written :: "'w \<Rightarrow> string"
  assumes law_read: "ok_world w \<Longrightarrow> 0 < n \<Longrightarrow> int n \<le> INT64_MAX \<Longrightarrow> ap_read api 0 n w = ((c, bytes), w') \<Longrightarrow>
      ok_world w' \<and> written w' = written w \<and> c = int (length bytes) \<and> length bytes \<le> n \<and> input w = bytes @ input w' \<and> (bytes = [] \<longrightarrow> input w = [])"
    and law_write: "ok_world w \<Longrightarrow> s \<noteq> [] \<Longrightarrow> int (length (written w) + length s) \<le> INT64_MAX \<Longrightarrow> ap_write api 1 s w = (c, w') \<Longrightarrow>
      ok_world w' \<and> input w' = input w \<and>
      (c < 0 \<and> written w' = written w \<and> ap_get_errno api w' = errno_value CB_ENOMEM \<or>
       0 < c \<and> c \<le> int (length s) \<and> written w' = written w @ take (nat c) s)"
begin

lemma write_all_stream:
  assumes "ok_world w" "int (length (written w) + length s) \<le> INT64_MAX" "write_all api 1 s w = (r, w')"
  shows "r = 0 \<and> ok_world w' \<and> input w' = input w \<and> written w' = written w @ s \<or>
    r = -1 \<and> ap_get_errno api w' = errno_value CB_ENOMEM \<and> (\<exists>p. prefix p s \<and> written w' = written w @ p)"
  using assms
proof (induction "length s" arbitrary: s w rule: less_induct)
  case less
  show ?case
  proof (cases "s = []")
    case False
    obtain c w1 where c: "ap_write api 1 s w = (c, w1)" by fastforce
    show ?thesis
    proof (cases "c \<le> 0")
      case True
      then have "r = -1" "w' = w1" using less.prems(3) False c by (simp_all add: write_all.simps)
      then show ?thesis using law_write [OF less.prems(1) False less.prems(2) c] True by auto
    next
      case pos: False
      then have l: "c \<le> int (length s)" "ok_world w1" "input w1 = input w" "written w1 = written w @ take (nat c) s"
        using law_write [OF less.prems(1) False less.prems(2) c] by auto
      let ?s = "drop (nat c) s"
      have "write_all api 1 ?s w1 = (r, w')" using less.prems(3) False c pos by (simp add: write_all.simps [of api 1 s])
      moreover have "length ?s < length s" "int (length (written w1) + length ?s) \<le> INT64_MAX"
        using pos l False less.prems(2) by (auto simp: min_def)
      ultimately have "r = 0 \<and> ok_world w' \<and> input w' = input w1 \<and> written w' = written w1 @ ?s \<or>
          r = -1 \<and> ap_get_errno api w' = errno_value CB_ENOMEM \<and> (\<exists>p. prefix p ?s \<and> written w' = written w1 @ p)"
        using less.hyps l(2) by blast
      moreover have "prefix (take (nat c) s @ p) s" if "prefix p ?s" for p
        using that by (metis append_take_drop_id same_prefix_prefix)
      ultimately show ?thesis using l by (metis append.assoc append_take_drop_id)
    qed
  qed (use less.prems in simp)
qed

text \<open>The loop of \<^verbatim>\<open>tr\<close> ends, having translated everything or run out of memory.\<close>

lemma tr_loop_stream:
  assumes "ok_world w" "int (length (written w) + length (input w)) \<le> INT64_MAX"
  shows "(\<exists>w'. tr_loop api beyond table w = Some (0, w') \<and> written w' = written w @ map (\<lambda>c. table ! of_char c) (input w)) \<or>
    (\<exists>w1 p. tr_loop api beyond table w = Some (1, report_error api beyond ''tr'' ''standard output'' w1) \<and>
      ap_get_errno api w1 = errno_value CB_ENOMEM \<and> written w1 = written w @ p \<and> prefix p (map (\<lambda>c. table ! of_char c) (input w)))"
  using assms
proof (induction "length (input w)" arbitrary: w rule: less_induct)
  case less
  let ?t = "map (\<lambda>c. table ! of_char c)"
  obtain c bytes w1 where c: "ap_read api 0 1024 w = ((c, bytes), w1)" by (metis prod.collapse)
  have l: "ok_world w1" "written w1 = written w" "c = int (length bytes)" "input w = bytes @ input w1" "bytes = [] \<longrightarrow> input w = []"
    using law_read [OF less.prems(1) _ _ c] by (auto simp: INT64_MAX_def)
  show ?case
  proof (cases "bytes = []")
    case True
    then show ?thesis using l c by (subst (1) tr_loop.simps) simp
  next
    case False
    obtain r w2 where r: "write_all api 1 (?t bytes) w1 = (r, w2)" by fastforce
    have run: "tr_loop api beyond table w =
        (if r < 0 then Some (1, report_error api beyond ''tr'' ''standard output'' w2) else tr_loop api beyond table w2)"
      using l c r False by (subst tr_loop.simps) simp
    have size: "int (length (written w1) + length (?t bytes)) \<le> INT64_MAX" using less.prems(2) l by simp
    from write_all_stream [OF l(1) size r] show ?thesis
    proof (elim disjE conjE exE)
      assume w: "r = 0" "ok_world w2" "input w2 = input w1" "written w2 = written w1 @ ?t bytes"
      have "length (input w2) < length (input w)" "int (length (written w2) + length (input w2)) \<le> INT64_MAX"
        using l w less.prems(2) False by auto
      from less.hyps [OF this(1) w(2) this(2)] show ?thesis using run w l by auto
    next
      fix p assume w: "r = -1" "ap_get_errno api w2 = errno_value CB_ENOMEM" "prefix p (?t bytes)" "written w2 = written w1 @ p"
      then have "prefix p (?t (input w))" using l(4) by (simp add: prefix_prefix)
      then show ?thesis using run w l by auto
    qed
  qed
qed

end

end
