(* ===== verification/Kernel_Programs.thy ===== *)
theory Kernel_Programs
  imports Kernel_Client Programs
begin

text \<open>
  Programs on the kernel: with descriptors 0 and 1 on two regular files, the calls of the kernel meet the
  contract of \<open>stream_calls\<close>, so that \<^verbatim>\<open>tr\<close> copies one file to the other with its characters translated.
\<close>

section \<open>A task that reads one file and writes another\<close>

definition reads_from :: "addr \<Rightarrow> addr \<Rightarrow> cb_kernel \<Rightarrow> bool" where
  "reads_from f n k \<longleftrightarrow> (case (k_files k f, nodes (k_vfs k) n) of
     (Some F, Some N) \<Rightarrow> of_ops F = NodeFile n \<and> access_mode (of_flags F) \<noteq> CB_O_WRONLY \<and> n_type N \<noteq> CB_NODE_EXECUTABLE \<and>
       0 \<le> of_offset F \<and> of_offset F \<le> INT64_MAX \<and> int (n_size N) \<le> INT64_MAX
   | _ \<Rightarrow> False)"

definition appends_to :: "addr \<Rightarrow> addr \<Rightarrow> cb_kernel \<Rightarrow> bool" where
  "appends_to f n k \<longleftrightarrow> (case (k_files k f, nodes (k_vfs k) n) of
     (Some F, Some N) \<Rightarrow> of_ops F = NodeFile n \<and> access_mode (of_flags F) \<noteq> CB_O_RDONLY \<and> n_type N \<noteq> CB_NODE_EXECUTABLE \<and>
       write_start F N = int (n_size N)
   | _ \<Rightarrow> False)"

definition file_streams :: "addr \<Rightarrow> addr \<Rightarrow> addr \<Rightarrow> addr \<Rightarrow> addr \<Rightarrow> cb_kernel \<Rightarrow> bool" where
  "file_streams a f0 n0 f1 n1 k \<longleftrightarrow> kernel_inv k \<and> k_current k = Some a \<and> f0 \<noteq> f1 \<and> n0 \<noteq> n1 \<and>
     fd_table a k 0 = Some f0 \<and> fd_table a k 1 = Some f1 \<and> reads_from f0 n0 k \<and> appends_to f1 n1 k"

text \<open>What is still to be read, and all that the file holds.\<close>

definition unread :: "addr \<Rightarrow> addr \<Rightarrow> cb_kernel \<Rightarrow> string" where
  "unread f n k = (case (k_files k f, nodes (k_vfs k) n) of
     (Some F, Some N) \<Rightarrow> drop (nat (of_offset F)) (content N) | _ \<Rightarrow> [])"

definition file_content :: "addr \<Rightarrow> cb_kernel \<Rightarrow> string" where
  "file_content n k = (case nodes (k_vfs k) n of Some N \<Rightarrow> content N | None \<Rightarrow> [])"

section \<open>The two calls\<close>

lemma file_streams_node:
  assumes "file_streams a f0 n0 f1 n1 k" "nodes (k_vfs k) n = Some N" shows "data_ok N"
proof -
  have "kinv k zero zero" using assms(1) kernel_inv_current good_kinv by (fastforce simp: file_streams_def)
  then show ?thesis using kinv_live live_data_ok assms(2) by blast
qed

lemma store_io_fields [simp]:
  "k_vfs (store_io k a f (r, bytes, e, F, v)) = v" "k_files (store_io k a f (r, bytes, e, F, v)) = (k_files k)(f \<mapsto> F)"
  "k_current (store_io k a f (r, bytes, e, F, v)) = k_current k" "fd_table a (store_io k a f (r, bytes, e, F, v)) = fd_table a k"
  by (simp_all add: store_io_def)

text \<open>A call of the task that runs: its invariant is that of the kernel.\<close>

lemma streams_call:
  assumes "file_streams a f0 n0 f1 n1 k" "do_call k a c = (Some x, k')"
  shows "syscall sched a c k = (Some x, k')" "kernel_inv k'"
proof -
  have k: "kernel_inv k" "k_current k = Some a" using assms(1) by (simp_all add: file_streams_def)
  show "syscall sched a c k = (Some x, k')" using k assms(2) by (simp add: syscall_def)
  show "kernel_inv k'" using returns_inv [OF do_call_ok [OF kernel_inv_current [OF k], of c]] assms(2) by simp
qed

lemma drop_piece: "drop i xs = take n (drop i xs) @ drop (i + min n (length xs - i)) xs"
proof (cases "n \<le> length xs - i")
  case True
  then show ?thesis by (metis append_take_drop_id drop_drop add.commute min.absorb1)
qed simp

lemma streams_read:
  assumes s: "file_streams a f0 n0 f1 n1 k" and n: "0 < n" "int n \<le> INT64_MAX"
  shows "\<exists>bytes k'. do_call k a (C_read 0 False n) = (Some (R_bytes (int (length bytes)) bytes), k') \<and> length bytes \<le> n \<and> file_streams a f0 n0 f1 n1 k' \<and>
    file_content n1 k' = file_content n1 k \<and> unread f0 n0 k = bytes @ unread f0 n0 k' \<and> (bytes = [] \<longrightarrow> unread f0 n0 k = [])"
proof -
  obtain F N where F: "k_files k f0 = Some F" "nodes (k_vfs k) n0 = Some N" "of_ops F = NodeFile n0" "access_mode (of_flags F) \<noteq> CB_O_WRONLY"
      "n_type N \<noteq> CB_NODE_EXECUTABLE" "0 \<le> of_offset F" "of_offset F \<le> INT64_MAX" "int (n_size N) \<le> INT64_MAX"
    using s by (auto simp: file_streams_def reads_from_def split: option.splits)
  have ok: "data_ok N" by (rule file_streams_node [OF s F(2)])
  obtain t where t: "k_tasks k a = Some t" "fd_lookup t 0 = Some f0" using s by (auto simp: file_streams_def fd_table_def split: option.splits)
  obtain r bytes e F' v where r: "node_read (k_vfs k) n0 F (t_error t) n = (r, bytes, e, F', v)" by (metis prod_cases5)
  define k' where "k' = store_io k a f0 (r, bytes, e, F', v)"
  have call: "do_call k a (C_read 0 False n) = (Some (R_bytes r bytes), k')"
    using t F n r by (simp add: api_read_def on_file_def file_read_def k'_def Let_def)
  have inv: "kernel_inv k'" by (rule streams_call(2) [OF s call])
  show ?thesis
  proof (cases "of_offset F < int (n_size N)")
    case False
    then have "\<not> SIZE_MAX < nat (of_offset F)" "n_size N \<le> nat (of_offset F)" using F(6,7) by (auto simp: SIZE_MAX_def INT64_MAX_def)
    then have "r = 0" "bytes = []" "F' = F" "v = k_vfs k" using r F by (auto simp: node_read_def)
    moreover have "unread f0 n0 k = []" using F ok False by (simp add: unread_def)
    moreover have "file_streams a f0 n0 f1 n1 k'" using s inv calculation F
      by (simp add: file_streams_def reads_from_def appends_to_def k'_def)
    ultimately show ?thesis using call F by (auto simp: k'_def file_content_def unread_def)
  next
    case True
    let ?c = "min n (n_size N - nat (of_offset F))"
    have rd: "r = int ?c" "bytes = take n (drop (nat (of_offset F)) (content N))" "F' = F\<lparr>of_offset := of_offset F + int ?c\<rparr>"
      "v = (upd_node (k_vfs k) n0 (N\<lparr>n_atime := fst (wall_clock_millis (v_host (k_vfs k)))\<rparr>))\<lparr>v_host := snd (wall_clock_millis (v_host (k_vfs k)))\<rparr>"
      using node_read_ok [OF F(2) ok F(4,6,5) True, of "t_error t" n] r to_off_id [of "of_offset F + int ?c"] F(6,8) True
      by (auto simp: INT64_MIN_def)
    have len: "length bytes = ?c" using rd(2) ok by simp
    have "file_streams a f0 n0 f1 n1 k'" using s inv rd F True
      by (auto simp: file_streams_def reads_from_def appends_to_def k'_def)
    moreover have "unread f0 n0 k' = drop (nat (of_offset F) + ?c) (content N)"
      using F rd by (simp add: unread_def k'_def content_def nat_add_distrib)
    then have "unread f0 n0 k = bytes @ unread f0 n0 k'"
      using F rd(2) ok drop_piece [of "nat (of_offset F)" "content N" n] by (simp add: unread_def)
    moreover have "bytes \<noteq> []" using len True n F(6) by auto
    moreover have "file_content n1 k' = file_content n1 k" using s rd by (simp add: file_content_def k'_def file_streams_def)
    ultimately show ?thesis using call rd(1) len by auto
  qed
qed

lemma streams_write:
  assumes s: "file_streams a f0 n0 f1 n1 k" and b: "block \<noteq> []" "int (length (file_content n1 k) + length block) \<le> INT64_MAX"
  shows "\<exists>r k'. do_call k a (C_write 1 (Some block) (length block)) = (Some (R_int r), k') \<and>
    file_streams a f0 n0 f1 n1 k' \<and> unread f0 n0 k' = unread f0 n0 k \<and>
    (r = -1 \<and> file_content n1 k' = file_content n1 k \<and> map_option t_error (k_tasks k' a) = Some (errno_value CB_ENOMEM) \<or>
     r = int (length block) \<and> file_content n1 k' = file_content n1 k @ block)"
proof -
  obtain F N where F: "k_files k f1 = Some F" "nodes (k_vfs k) n1 = Some N" "of_ops F = NodeFile n1" "access_mode (of_flags F) \<noteq> CB_O_RDONLY"
      "n_type N \<noteq> CB_NODE_EXECUTABLE" "write_start F N = int (n_size N)"
    using s by (auto simp: file_streams_def appends_to_def split: option.splits)
  have ok: "data_ok N" by (rule file_streams_node [OF s F(2)])
  have size: "int (n_size N + length block) \<le> INT64_MAX" using b F ok by (simp add: file_content_def)
  then have "writable F N (length block)" using F by (simp add: writable_def SIZE_MAX_def INT64_MAX_def)
  obtain t where t: "k_tasks k a = Some t" "fd_lookup t 1 = Some f1" using s by (auto simp: file_streams_def fd_table_def split: option.splits)
  obtain r out e F' v where r: "node_write (k_vfs k) n1 F (t_error t) block = (r, out, e, F', v)" by (metis prod_cases5)
  define k' where "k' = store_io k a f1 (r, out, e, F', v)"
  have call: "do_call k a (C_write 1 (Some block) (length block)) = (Some (R_int r), k')"
    using t F size r by (simp add: api_write_def on_file_def file_write_def k'_def Let_def)
  have inv: "kernel_inv k'" by (rule streams_call(2) [OF s call])
  show ?thesis
    using F(2) ok b(1) r
  proof (cases rule: node_write_cases)
    case refused
    then show ?thesis using \<open>writable F N (length block)\<close> by simp
  next
    case (no_memory h)
    then have "file_content n1 k' = file_content n1 k" "map_option t_error (k_tasks k' a) = Some (errno_value CB_ENOMEM)"
      using t by (simp_all add: k'_def file_content_def, simp add: store_io_def cb_task_set_error_def upd_task_def)
    moreover have "write_start F' N = int (n_size N)"
      using no_memory(6) F(6) size to_off_id [of "int (n_size N)"] by (simp add: write_start_def INT64_MIN_def)
    then have "file_streams a f0 n0 f1 n1 k'" "unread f0 n0 k' = unread f0 n0 k"
      using s inv no_memory(4,6) F by (auto simp: file_streams_def reads_from_def appends_to_def unread_def k'_def)
    ultimately show ?thesis using call no_memory(2) by blast
  next
    case (stored N' h)
    have c: "content N' = content N @ block" using stored(7) F(6) ok by (simp add: overwrite_def)
    have ok': "data_ok N'" "n_type N' = n_type N" using stored(6) by (simp_all add: same_node_def shape_def)
    then have sz: "n_size N' = n_size N + length block" using c ok length_content by (metis length_append)
    have F': "F' = F\<lparr>of_offset := int (n_size N')\<rparr>" using stored(4) F(6) sz size to_off_id [of "int (n_size N')"] by (simp add: INT64_MIN_def)
    then have "write_start F' N' = int (n_size N')" using size sz to_off_id [of "int (n_size N')"] by (simp add: write_start_def INT64_MIN_def)
    then have "file_streams a f0 n0 f1 n1 k'" "unread f0 n0 k' = unread f0 n0 k"
      using s inv stored(5) F ok' F'
      by (auto simp: file_streams_def reads_from_def appends_to_def unread_def k'_def)
    moreover have "file_content n1 k' = file_content n1 k @ block" using stored(5) c F(2) by (simp add: file_content_def k'_def)
    ultimately show ?thesis using call stored(2) by blast
  qed
qed

interpretation kernel_files: stream_calls "kernel_api heap sched a" "file_streams a f0 n0 f1 n1" "unread f0 n0" "file_content n1"
  for heap sched a f0 n0 f1 n1
proof
  fix w n c bytes w'
  assume s: "file_streams a f0 n0 f1 n1 w" "0 < n" "int n \<le> INT64_MAX" and call: "ap_read (kernel_api heap sched a) 0 n w = ((c, bytes), w')"
  obtain bs k' where r: "do_call w a (C_read 0 False n) = (Some (R_bytes (int (length bs)) bs), k')" "file_streams a f0 n0 f1 n1 k'"
    "length bs \<le> n" "file_content n1 k' = file_content n1 w" "unread f0 n0 w = bs @ unread f0 n0 k'" "bs = [] \<longrightarrow> unread f0 n0 w = []"
    using streams_read [OF s] by blast
  have "syscall sched a (C_read 0 False n) w = (Some (R_bytes (int (length bs)) bs), k')" by (rule streams_call(1) [OF s(1) r(1)])
  then have "c = int (length bs)" "bytes = bs" "w' = k'" using call by (auto simp: kernel_api_def on_result_def)
  then show "file_streams a f0 n0 f1 n1 w' \<and> file_content n1 w' = file_content n1 w \<and> c = int (length bytes) \<and> length bytes \<le> n \<and>
      unread f0 n0 w = bytes @ unread f0 n0 w' \<and> (bytes = [] \<longrightarrow> unread f0 n0 w = [])" using r by simp
next
  fix w s c w'
  assume w: "file_streams a f0 n0 f1 n1 w" "s \<noteq> []" "int (length (file_content n1 w) + length s) \<le> INT64_MAX"
    and call: "ap_write (kernel_api heap sched a) 1 s w = (c, w')"
  obtain r k' where r: "do_call w a (C_write 1 (Some s) (length s)) = (Some (R_int r), k')"
    "file_streams a f0 n0 f1 n1 k'" "unread f0 n0 k' = unread f0 n0 w"
    "r = -1 \<and> file_content n1 k' = file_content n1 w \<and> map_option t_error (k_tasks k' a) = Some (errno_value CB_ENOMEM) \<or>
     r = int (length s) \<and> file_content n1 k' = file_content n1 w @ s"
    using streams_write [OF w] by blast
  have "syscall sched a (C_write 1 (Some s) (length s)) w = (Some (R_int r), k')" by (rule streams_call(1) [OF w(1) r(1)])
  then have "c = r" "w' = k'" using call by (auto simp: kernel_api_def on_result_def)
  then show "file_streams a f0 n0 f1 n1 w' \<and> unread f0 n0 w' = unread f0 n0 w \<and>
      (c < 0 \<and> file_content n1 w' = file_content n1 w \<and> ap_get_errno (kernel_api heap sched a) w' = errno_value CB_ENOMEM \<or>
       0 < c \<and> c \<le> int (length s) \<and> file_content n1 w' = file_content n1 w @ take (nat c) s)"
    using r(2-4) w(2) by (auto simp: kernel_api_def)
qed

section \<open>tr\<close>

text \<open>
  C6. \<^verbatim>\<open>tr string1 string2\<close>, reading one file and writing another, ends, and has then appended to the
  second file every byte of the rest of the first one, translated: a byte of the first set goes to the
  byte at the same place of the second set, which is continued with its last byte, and every other byte
  stays as it is. Only when memory runs out it stops early with status 1, after a prefix of that.
\<close>

theorem tr_translates:
  assumes "file_streams a f0 n0 f1 n1 k" "int (length (file_content n1 k) + length (unread f0 n0 k)) \<le> INT64_MAX"
    "expand_set string1 = Some from_set" "expand_set string2 = Some to_set" "to_set \<noteq> []"
  shows "(\<exists>k'. tr_main (kernel_api heap sched a) beyond [name, string1, string2] k = Some (0, k') \<and>
      file_content n1 k' = file_content n1 k @ map (translate from_set to_set) (unread f0 n0 k)) \<or>
    (\<exists>k1 p. tr_main (kernel_api heap sched a) beyond [name, string1, string2] k =
        Some (1, report_error (kernel_api heap sched a) beyond ''tr'' ''standard output'' k1) \<and>
      map_option t_error (k_tasks k1 a) = Some (errno_value CB_ENOMEM) \<and>
      prefix p (map (translate from_set to_set) (unread f0 n0 k)) \<and> file_content n1 k1 = file_content n1 k @ p)"
proof -
  have run: "tr_main (kernel_api heap sched a) beyond [name, string1, string2] k =
      tr_loop (kernel_api heap sched a) beyond (tr_table from_set to_set) k"
    using assms(3-5) by (simp add: tr_main_def)
  have table: "(\<lambda>c. tr_table from_set to_set ! of_char c) = translate from_set to_set" using tr_table_translates [OF assms(5)] by blast
  have "map_option t_error (k_tasks k1 a) = Some (errno_value CB_ENOMEM)"
    if "ap_get_errno (kernel_api heap sched a) k1 = errno_value CB_ENOMEM" for k1
    using that by (auto simp: kernel_api_def split: option.splits)
  then show ?thesis
    using kernel_files.tr_loop_stream [OF assms(1,2), of heap sched beyond "tr_table from_set to_set"] unfolding run table by blast
qed

text \<open>A kernel with a task that has a file of two bytes on descriptor 0 and an empty one on descriptor 1.\<close>

definition with_data :: "addr \<Rightarrow> string \<Rightarrow> cb_kernel \<Rightarrow> cb_kernel" where
  "with_data n s k = (case nodes (k_vfs k) n of None \<Rightarrow> k
     | Some N \<Rightarrow> k\<lparr>k_vfs := (upd_node (k_vfs k) n (N\<lparr>n_data := s, n_size := length s, n_capacity := length s\<rparr>))
                           \<lparr>v_host := v_host (k_vfs k)\<rparr>\<rparr>)"

lemma with_data_inv:
  assumes "kernel_inv k" "k_current k = Some a" "length s \<le> SIZE_MAX" shows "kernel_inv (with_data n s k)"
proof (cases "nodes (k_vfs k) n")
  case (Some N)
  have k: "kinv k zero zero" using good_kinv [OF kernel_inv_current [OF assms(1,2)]] .
  let ?N = "N\<lparr>n_data := s, n_size := length s, n_capacity := length s\<rparr>"
  have "same_node N ?N" using assms(3) by (simp add: same_node_def data_ok_def shape_def)
  from kinv_vfs0 [OF k advances_same_node [OF kinv_zero_live [OF k] Some this order.refl]] show ?thesis
    using kernel_invI_current [OF assms(1)] Some by (simp add: with_data_def)
qed (use assms in \<open>simp add: with_data_def\<close>)

definition files_kernel :: cb_kernel where
  "files_kernel = snd (run_events kernel_step [Resume 12, Call (C_open ''in'' (CB_O_RDWR + CB_O_CREAT) 438),
     Call (C_open ''out'' (CB_O_WRONLY + CB_O_CREAT) 438)] pair_kernel)"

definition files_ready :: "cb_kernel \<Rightarrow> bool" where
  "files_ready k \<longleftrightarrow> k_current k = Some 12 \<and> fd_table 12 k 0 = Some 28 \<and> fd_table 12 k 1 = Some 31 \<and>
     reads_from 28 26 k \<and> appends_to 31 29 k \<and> unread 28 26 k = ''hi'' \<and> file_content 29 k = []"

lemma files_kernel_ready: "files_ready (with_data 26 ''hi'' files_kernel)"
  by code_simp

lemma files_kernel_streams: "file_streams 12 28 26 31 29 (with_data 26 ''hi'' files_kernel)"
proof -
  have "k_current files_kernel = Some 12"
    using files_kernel_ready by (simp add: files_ready_def with_data_def split: option.splits)
  moreover have "kernel_inv files_kernel" unfolding files_kernel_def by (rule kernel_machine.invar_run [OF pair_kernel_inv(1)])
  ultimately have "kernel_inv (with_data 26 ''hi'' files_kernel)" using with_data_inv by (simp add: SIZE_MAX_def)
  then show ?thesis using files_kernel_ready by (simp add: file_streams_def files_ready_def)
qed

theorem tr_translates_witness:
  "\<exists>r k1. tr_main (kernel_api (\<lambda>_ _. True) (\<lambda>_. []) 12) [] [''tr'', ''a-z'', ''A-Z''] (with_data 26 ''hi'' files_kernel) = Some (r, k1) \<and>
     (r = 0 \<and> file_content 29 k1 = ''HI'' \<or> r = 1)"
proof -
  let ?k = "with_data 26 ''hi'' files_kernel"
  have s: "expand_set ''a-z'' = Some ''abcdefghijklmnopqrstuvwxyz''" "expand_set ''A-Z'' = Some ''ABCDEFGHIJKLMNOPQRSTUVWXYZ''" by code_simp+
  have u: "unread 28 26 ?k = ''hi''" "file_content 29 ?k = []" using files_kernel_ready by (simp_all add: files_ready_def)
  have t: "map (translate ''abcdefghijklmnopqrstuvwxyz'' ''ABCDEFGHIJKLMNOPQRSTUVWXYZ'') ''hi'' = ''HI''" by code_simp
  have "int (length (file_content 29 ?k) + length (unread 28 26 ?k)) \<le> INT64_MAX" unfolding u by (simp add: INT64_MAX_def)
  from tr_translates [OF files_kernel_streams this s, of "\<lambda>_ _. True" "\<lambda>_. []" "[]" "''tr''"]
  show ?thesis unfolding u t by force
qed

end
