(* ===== verification/Libc_Stdio.thy ===== *)
theory Libc_Stdio
  imports Programs
begin

text \<open>
  The standard input and output of \<^verbatim>\<open>libc/cb_libc.c\<close>, the C library the imported programs are compiled
  against. It keeps no buffers: every operation calls the kernel at once, so that its state is only the
  flags of the three standard streams and the list of the input streams that \<^verbatim>\<open>fopen\<close> has made.
\<close>

section \<open>Calls and state\<close>

text \<open>
  The further calls the library makes, and what it finds out about the table it was started with:
  whether the runtime has the states of the output streams (\<^verbatim>\<open>stdio_state\<close>), of standard input
  (\<^verbatim>\<open>input_state\<close>), and of other input streams (\<^verbatim>\<open>input_streams_available\<close>).
\<close>

record 'w libc_api = "'w cb_api" +
  ap_set_errno :: "int \<Rightarrow> 'w \<Rightarrow> 'w"
  ap_allocate :: "nat \<Rightarrow> 'w \<Rightarrow> addr option \<times> 'w"
  ap_release :: "addr \<Rightarrow> 'w \<Rightarrow> 'w"
  ap_getprogname :: "'w \<Rightarrow> string option"
  ap_has_stdio :: bool
  ap_has_input :: bool
  ap_has_streams :: bool

text \<open>A stream is known by its pointer; what \<open>Opened p\<close> points to is looked up in the list and nowhere else.\<close>

datatype cb_stream = No_stream | Stdin | Stdout | Stderr | Opened addr

record cb_libc_file =
  lf_descriptor :: int
  lf_eof :: bool
  lf_error :: bool

record stdio =
  so_stdout_error :: bool
  so_stderr_error :: bool
  so_stdout_closed :: bool
  so_stderr_closed :: bool
  so_stdin_eof :: bool
  so_stdin_error :: bool
  so_stdin_closed :: bool
  so_input_streams :: "(addr \<times> cb_libc_file) list"

text \<open>The state of a program that starts.\<close>

definition stdio_new :: stdio where
  "stdio_new = \<lparr>so_stdout_error = False, so_stderr_error = False, so_stdout_closed = False, so_stderr_closed = False,
     so_stdin_eof = False, so_stdin_error = False, so_stdin_closed = False, so_input_streams = []\<rparr>"

definition set_error :: "'w libc_api \<Rightarrow> cb_error \<Rightarrow> 'w \<Rightarrow> 'w" where
  "set_error api e w = ap_set_errno api (errno_value e) w"

text \<open>Asking for the place of a state leaves the error number as it was.\<close>

definition same_errno :: "'w libc_api \<Rightarrow> 'w \<Rightarrow> 'w" where
  "same_errno api w = ap_set_errno api (ap_get_errno api w) w"

section \<open>Output\<close>

definition mark_stdio_error :: "'w libc_api \<Rightarrow> int \<Rightarrow> stdio \<Rightarrow> 'w \<Rightarrow> stdio \<times> 'w" where
  "mark_stdio_error api d s w =
     (if ap_has_stdio api
      then if d = 1 then s\<lparr>so_stdout_error := True\<rparr> else if d = 2 then s\<lparr>so_stderr_error := True\<rparr> else s
      else s, same_errno api w)"

definition stdio_stream_closed :: "'w libc_api \<Rightarrow> int \<Rightarrow> stdio \<Rightarrow> 'w \<Rightarrow> bool \<times> 'w" where
  "stdio_stream_closed api d s w =
     (ap_has_stdio api \<and> (d = 1 \<and> so_stdout_closed s \<or> d = 2 \<and> so_stderr_closed s), same_errno api w)"

function write_loop :: "'w libc_api \<Rightarrow> int \<Rightarrow> string \<Rightarrow> int \<Rightarrow> stdio \<Rightarrow> 'w \<Rightarrow> int \<times> stdio \<times> 'w" where
  "write_loop api d bytes saved s w =
     (if bytes = [] then (0, s, ap_set_errno api saved w)
      else case ap_write api d bytes w of
             (n, w1) \<Rightarrow>
               if n < 0
               then (case mark_stdio_error api d s w1 of
                       (s1, w2) \<Rightarrow> (-1, s1, ap_set_errno api (ap_get_errno api w1) w2))
               else if n = 0
               then (case mark_stdio_error api d s w1 of (s1, w2) \<Rightarrow> (-1, s1, set_error api CB_EIO w2))
               else write_loop api d (drop (nat n) bytes) saved s w1)"
  by pat_completeness auto
termination
  by (relation "measure (\<lambda>(api, d, bytes, saved, s, w). length bytes)") auto

declare write_loop.simps [simp del]

definition libc_write_all :: "'w libc_api \<Rightarrow> int \<Rightarrow> string \<Rightarrow> stdio \<Rightarrow> 'w \<Rightarrow> int \<times> stdio \<times> 'w" where
  "libc_write_all api d bytes s w =
     (if d = 1 \<or> d = 2
      then (case stdio_stream_closed api d s w of
              (closed, w1) \<Rightarrow> if closed then (-1, s, set_error api CB_EBADF w1)
                              else write_loop api d bytes (ap_get_errno api w) s w1)
      else write_loop api d bytes (ap_get_errno api w) s w)"

definition cb_libc_puts :: "'w libc_api \<Rightarrow> string \<Rightarrow> stdio \<Rightarrow> 'w \<Rightarrow> int \<times> stdio \<times> 'w" where
  "cb_libc_puts api line s w =
     (case libc_write_all api 1 line s w of
        (r, s1, w1) \<Rightarrow>
          if r < 0 then (-1, s1, w1)
          else case libc_write_all api 1 [newline] s1 w1 of
                 (r, s2, w2) \<Rightarrow> (if r < 0 then -1 else 0, s2, w2))"

definition cb_libc_putchar :: "'w libc_api \<Rightarrow> int \<Rightarrow> stdio \<Rightarrow> 'w \<Rightarrow> int \<times> stdio \<times> 'w" where
  "cb_libc_putchar api character s w =
     (let byte = char_of (nat (character mod 256))
      in if \<not> ap_has_stdio api then (-1, s, set_error api CB_ENOSYS (same_errno api w))
         else case libc_write_all api 1 [byte] s (same_errno api w) of
                (r, s1, w1) \<Rightarrow> (if r < 0 then -1 else of_char byte, s1, w1))"

definition cb_libc_fflush :: "'w libc_api \<Rightarrow> cb_stream \<Rightarrow> stdio \<Rightarrow> 'w \<Rightarrow> int \<times> stdio \<times> 'w" where
  "cb_libc_fflush api stream s w =
     (if stream \<noteq> No_stream \<and> stream \<noteq> Stdout \<and> stream \<noteq> Stderr then (-1, s, set_error api CB_EINVAL w)
      else let w1 = same_errno api w
           in if \<not> ap_has_stdio api then (-1, s, set_error api CB_ENOSYS w1)
              else if stream = No_stream then (0, s, w1)
              else case stdio_stream_closed api (if stream = Stderr then 2 else 1) s w1 of
                     (closed, w2) \<Rightarrow> if closed then (-1, s, set_error api CB_EBADF w2) else (0, s, w2))"

text \<open>\<^verbatim>\<open>fwrite\<close> reports how many complete elements were written. \<open>buffer\<close> is none for a null pointer.\<close>

function fwrite_loop :: "'w libc_api \<Rightarrow> int \<Rightarrow> string \<Rightarrow> stdio \<Rightarrow> 'w \<Rightarrow> nat \<times> stdio \<times> 'w" where
  "fwrite_loop api d bytes s w =
     (if bytes = [] then (0, s, w)
      else let chunk = min (length bytes) (nat INT64_MAX)
           in case ap_write api d (take chunk bytes) w of
             (n, w1) \<Rightarrow>
               if n < 0
               then (case mark_stdio_error api d s w1 of
                       (s1, w2) \<Rightarrow> (length bytes, s1, ap_set_errno api (ap_get_errno api w1) w2))
               else if n = 0 \<or> nat n > chunk
               then (case mark_stdio_error api d s w1 of (s1, w2) \<Rightarrow> (length bytes, s1, set_error api CB_EIO w2))
               else fwrite_loop api d (drop (nat n) bytes) s w1)"
  by pat_completeness auto
termination
  by (relation "measure (\<lambda>(api, d, bytes, s, w). length bytes)") auto

declare fwrite_loop.simps [simp del]

definition cb_libc_fwrite :: "'w libc_api \<Rightarrow> string option \<Rightarrow> nat \<Rightarrow> nat \<Rightarrow> cb_stream \<Rightarrow> stdio \<Rightarrow> 'w \<Rightarrow> nat \<times> stdio \<times> 'w" where
  "cb_libc_fwrite api buffer elem count stream s w =
     (if elem = 0 \<or> count = 0 then (0, s, w)
      else if stream \<noteq> Stdout \<and> stream \<noteq> Stderr then (0, s, set_error api CB_EINVAL w)
      else let w1 = same_errno api w
           in if \<not> ap_has_stdio api then (0, s, set_error api CB_ENOSYS w1)
              else if elem > SIZE_MAX div count then (0, s, set_error api CB_EOVERFLOW w1)
              else case buffer of
                None \<Rightarrow> (0, s, set_error api CB_EINVAL w1)
              | Some bytes \<Rightarrow>
                  let d = (if stream = Stderr then 2 else 1)
                  in case stdio_stream_closed api d s w1 of
                    (closed, w2) \<Rightarrow>
                      if closed then (0, s, set_error api CB_EBADF w2)
                      else case fwrite_loop api d (take (elem * count) bytes) s w2 of
                        (remaining, s1, w3) \<Rightarrow>
                          ((elem * count - remaining) div elem, s1,
                           if remaining = 0 then ap_set_errno api (ap_get_errno api w2) w3 else w3))"

section \<open>Input streams\<close>

text \<open>\<^verbatim>\<open>find_input_stream\<close>, without the pointer to the node before, which \<open>unlink_stream\<close> stands for.\<close>

definition find_input_stream :: "stdio \<Rightarrow> addr \<Rightarrow> cb_libc_file option" where
  "find_input_stream s p = map_of (so_input_streams s) p"

fun unlink_stream :: "addr \<Rightarrow> (addr \<times> cb_libc_file) list \<Rightarrow> (addr \<times> cb_libc_file) list" where
  "unlink_stream p [] = []"
| "unlink_stream p (x # xs) = (if fst x = p then xs else x # unlink_stream p xs)"

text \<open>The reference to a stream's descriptor and flags: \<open>Inl\<close> reports the error that was set.\<close>

definition resolve_input :: "'w libc_api \<Rightarrow> cb_stream \<Rightarrow> stdio \<Rightarrow> 'w \<Rightarrow> (cb_error + cb_libc_file) \<times> 'w" where
  "resolve_input api stream s w =
     (let w1 = same_errno api w
      in case stream of
        Stdin \<Rightarrow>
          if \<not> ap_has_input api then (Inl CB_ENOSYS, set_error api CB_ENOSYS w1)
          else if ap_has_streams api \<and> so_stdin_closed s then (Inl CB_EINVAL, set_error api CB_EINVAL w1)
          else (Inr \<lparr>lf_descriptor = 0, lf_eof = so_stdin_eof s, lf_error = so_stdin_error s\<rparr>, w1)
      | Opened p \<Rightarrow>
          if \<not> ap_has_input api \<or> \<not> ap_has_streams api then (Inl CB_ENOSYS, set_error api CB_ENOSYS w1)
          else (case find_input_stream s p of
                  None \<Rightarrow> (Inl CB_EINVAL, set_error api CB_EINVAL w1)
                | Some file \<Rightarrow> (Inr file, w1))
      | _ \<Rightarrow> (Inl CB_EINVAL, set_error api CB_EINVAL w))"

text \<open>Storing the flags of a stream.\<close>

fun update_stream :: "addr \<Rightarrow> bool \<Rightarrow> bool \<Rightarrow> (addr \<times> cb_libc_file) list \<Rightarrow> (addr \<times> cb_libc_file) list" where
  "update_stream p eof err [] = []"
| "update_stream p eof err (x # xs) =
     (if fst x = p then (p, (snd x)\<lparr>lf_eof := eof, lf_error := err\<rparr>) # xs else x # update_stream p eof err xs)"

fun set_flags :: "cb_stream \<Rightarrow> bool \<Rightarrow> bool \<Rightarrow> stdio \<Rightarrow> stdio" where
  "set_flags Stdin eof err s = s\<lparr>so_stdin_eof := eof, so_stdin_error := err\<rparr>"
| "set_flags (Opened p) eof err s = s\<lparr>so_input_streams := update_stream p eof err (so_input_streams s)\<rparr>"
| "set_flags _ eof err s = s"

text \<open>One read, with the flags before and after it.\<close>

definition read_input :: "'w libc_api \<Rightarrow> cb_libc_file \<Rightarrow> nat \<Rightarrow> 'w \<Rightarrow> (int \<times> string) \<times> cb_libc_file \<times> 'w" where
  "read_input api ref count w =
     (if lf_eof ref then ((0, []), ref, w)
      else case ap_read api (lf_descriptor ref) count w of
        ((result, bytes), w1) \<Rightarrow>
          if result < 0 then ((result, []), ref\<lparr>lf_error := True\<rparr>, w1)
          else if nat result > count then ((-1, []), ref\<lparr>lf_error := True\<rparr>, set_error api CB_EIO w1)
          else ((result, bytes), if result = 0 then ref\<lparr>lf_eof := True\<rparr> else ref,
                ap_set_errno api (ap_get_errno api w) w1))"

definition cb_libc_getc :: "'w libc_api \<Rightarrow> cb_stream \<Rightarrow> stdio \<Rightarrow> 'w \<Rightarrow> int \<times> stdio \<times> 'w" where
  "cb_libc_getc api stream s w =
     (case resolve_input api stream s w of
        (Inl e, w1) \<Rightarrow> (-1, s, w1)
      | (Inr ref, w1) \<Rightarrow>
          (case read_input api ref 1 w1 of
             ((result, bytes), ref1, w2) \<Rightarrow>
               (if result \<le> 0 then -1 else of_char (if bytes = [] then NUL else hd bytes),
                set_flags stream (lf_eof ref1) (lf_error ref1) s, w2)))"

definition cb_libc_getchar :: "'w libc_api \<Rightarrow> stdio \<Rightarrow> 'w \<Rightarrow> int \<times> stdio \<times> 'w" where
  "cb_libc_getchar api s w = cb_libc_getc api Stdin s w"

function fread_loop :: "'w libc_api \<Rightarrow> cb_libc_file \<Rightarrow> nat \<Rightarrow> string \<Rightarrow> 'w \<Rightarrow> string \<times> cb_libc_file \<times> 'w" where
  "fread_loop api ref total_bytes got w =
     (if length got < total_bytes
      then case read_input api ref (min (total_bytes - length got) (nat INT64_MAX)) w of
             ((result, bytes), ref1, w1) \<Rightarrow>
               if result \<le> 0 \<or> bytes = [] then (got, ref1, w1)
               else fread_loop api ref1 total_bytes (got @ take (nat result) bytes) w1
      else (got, ref, w))"
  by pat_completeness auto
termination
  by (relation "measure (\<lambda>(api, ref, n, got, w). n - length got)") (auto intro!: diff_less_mono2)

declare fread_loop.simps [simp del]

text \<open>
  \<^verbatim>\<open>fread\<close> returns the number of complete elements, and the bytes it has stored. A read that reports more
  than 0 bytes has stored some; without them the loop of the model stops.
\<close>

definition cb_libc_fread :: "'w libc_api \<Rightarrow> bool \<Rightarrow> nat \<Rightarrow> nat \<Rightarrow> cb_stream \<Rightarrow> stdio \<Rightarrow> 'w \<Rightarrow> (nat \<times> string) \<times> stdio \<times> 'w" where
  "cb_libc_fread api buffer_null elem count stream s w =
     (if elem = 0 \<or> count = 0 then ((0, []), s, w)
      else case resolve_input api stream s w of
        (Inl e, w1) \<Rightarrow> ((0, []), s, w1)
      | (Inr ref, w1) \<Rightarrow>
          if elem > SIZE_MAX div count then ((0, []), s, set_error api CB_EOVERFLOW w1)
          else if buffer_null then ((0, []), s, set_error api CB_EINVAL w1)
          else (case fread_loop api ref (elem * count) [] w1 of
                  (got, ref1, w2) \<Rightarrow> ((length got div elem, got), set_flags stream (lf_eof ref1) (lf_error ref1) s, w2)))"

section \<open>Opening, closing and flags\<close>

definition sizeof_cb_libc_file :: nat where
  "sizeof_cb_libc_file = 24"

definition cb_libc_fopen :: "'w libc_api \<Rightarrow> string option \<Rightarrow> string option \<Rightarrow> stdio \<Rightarrow> 'w \<Rightarrow> cb_stream \<times> stdio \<times> 'w" where
  "cb_libc_fopen api path mode s w =
     (case path of
        None \<Rightarrow> (No_stream, s, set_error api CB_EINVAL w)
      | Some p \<Rightarrow>
          if mode \<noteq> Some ''r'' \<and> mode \<noteq> Some ''rb'' then (No_stream, s, set_error api CB_EINVAL w)
          else let w1 = same_errno api w
               in if \<not> ap_has_input api \<or> \<not> ap_has_streams api then (No_stream, s, set_error api CB_ENOSYS w1)
                  else case ap_open api p CB_O_RDONLY 0 w1 of
                    (d, w2) \<Rightarrow>
                      if d < 0 then (No_stream, s, w2)
                      else case ap_allocate api sizeof_cb_libc_file w2 of
                        (None, w3) \<Rightarrow> (No_stream, s, set_error api CB_ENOMEM (snd (ap_close api d w3)))
                      | (Some a, w3) \<Rightarrow>
                          (Opened a,
                           s\<lparr>so_input_streams := (a, \<lparr>lf_descriptor = d, lf_eof = False, lf_error = False\<rparr>) # so_input_streams s\<rparr>,
                           ap_set_errno api (ap_get_errno api w) w3))"

definition close_result :: "'w libc_api \<Rightarrow> int \<Rightarrow> int \<Rightarrow> int \<Rightarrow> 'w \<Rightarrow> int \<times> 'w" where
  "close_result api result err saved w = (if result < 0 then -1 else 0, ap_set_errno api (if result < 0 then err else saved) w)"

definition cb_libc_fclose :: "'w libc_api \<Rightarrow> cb_stream \<Rightarrow> stdio \<Rightarrow> 'w \<Rightarrow> int \<times> stdio \<times> 'w" where
  "cb_libc_fclose api stream s w =
     (if stream = Stdout \<or> stream = Stderr
      then let w1 = same_errno api w
           in if \<not> ap_has_stdio api then (-1, s, set_error api CB_EINVAL w1)
              else (case stdio_stream_closed api (if stream = Stderr then 2 else 1) s w1 of
                      (closed, w2) \<Rightarrow>
                        if closed then (-1, s, set_error api CB_EINVAL w2)
                        else (0, if stream = Stdout then s\<lparr>so_stdout_closed := True\<rparr> else s\<lparr>so_stderr_closed := True\<rparr>,
                              ap_set_errno api (ap_get_errno api w) w2))
      else if stream = No_stream then (-1, s, set_error api CB_EINVAL w)
      else let w1 = same_errno api w
           in if \<not> ap_has_input api \<or> \<not> ap_has_streams api then (-1, s, set_error api CB_ENOSYS w1)
              else case stream of
                Opened p \<Rightarrow>
                  (case find_input_stream s p of
                     None \<Rightarrow> (-1, s, set_error api CB_EINVAL w1)
                   | Some ref \<Rightarrow>
                       (case ap_close api (lf_descriptor ref) w1 of
                          (result, w2) \<Rightarrow>
                            (case close_result api result (ap_get_errno api w2) (ap_get_errno api w) (ap_release api p w2) of
                               (r, w3) \<Rightarrow> (r, s\<lparr>so_input_streams := unlink_stream p (so_input_streams s)\<rparr>, w3))))
              | _ \<Rightarrow>
                  if so_stdin_closed s then (-1, s, set_error api CB_EINVAL w1)
                  else case ap_close api 0 w1 of
                    (result, w2) \<Rightarrow>
                      (case close_result api result (ap_get_errno api w2) (ap_get_errno api w) w2 of
                         (r, w3) \<Rightarrow> (r, s\<lparr>so_stdin_closed := True\<rparr>, w3)))"

definition cb_libc_feof :: "'w libc_api \<Rightarrow> cb_stream \<Rightarrow> stdio \<Rightarrow> 'w \<Rightarrow> bool \<times> stdio \<times> 'w" where
  "cb_libc_feof api stream s w =
     (if stream = Stdout \<or> stream = Stderr then (False, s, w)
      else case resolve_input api stream s w of
        (Inl e, w1) \<Rightarrow> (False, s, w1)
      | (Inr ref, w1) \<Rightarrow> (lf_eof ref, s, w1))"

definition cb_libc_ferror :: "'w libc_api \<Rightarrow> cb_stream \<Rightarrow> stdio \<Rightarrow> 'w \<Rightarrow> bool \<times> stdio \<times> 'w" where
  "cb_libc_ferror api stream s w =
     (if stream \<noteq> Stdout \<and> stream \<noteq> Stderr
      then (case resolve_input api stream s w of
              (Inl e, w1) \<Rightarrow> (True, s, w1)
            | (Inr ref, w1) \<Rightarrow> (lf_error ref, s, w1))
      else if \<not> ap_has_stdio api then (True, s, set_error api CB_ENOSYS (same_errno api w))
      else (if stream = Stdout then so_stdout_error s else so_stderr_error s, s, same_errno api w))"

definition cb_libc_clearerr :: "'w libc_api \<Rightarrow> cb_stream \<Rightarrow> stdio \<Rightarrow> 'w \<Rightarrow> stdio \<times> 'w" where
  "cb_libc_clearerr api stream s w =
     (if stream = No_stream then (s, w)
      else if stream = Stdout \<or> stream = Stderr
      then (if ap_has_stdio api
            then if stream = Stdout then s\<lparr>so_stdout_error := False\<rparr> else s\<lparr>so_stderr_error := False\<rparr>
            else s, same_errno api w)
      else case resolve_input api stream s w of
        (Inl e, w1) \<Rightarrow> (s, w1)
      | (Inr ref, w1) \<Rightarrow> (set_flags stream False False s, w1))"

definition cb_libc_fileno :: "'w libc_api \<Rightarrow> cb_stream \<Rightarrow> stdio \<Rightarrow> 'w \<Rightarrow> int \<times> stdio \<times> 'w" where
  "cb_libc_fileno api stream s w =
     (case stream of
        No_stream \<Rightarrow> (-1, s, set_error api CB_EBADF w)
      | Stdin \<Rightarrow> (0, s, w)
      | Stdout \<Rightarrow> (1, s, w)
      | Stderr \<Rightarrow> (2, s, w)
      | Opened p \<Rightarrow>
          (case resolve_input api stream s w of
             (Inl e, w1) \<Rightarrow> (-1, s, set_error api CB_EBADF w1)
           | (Inr ref, w1) \<Rightarrow> (lf_descriptor ref, s, w1)))"

text \<open>\<^verbatim>\<open>setbuf\<close> can only turn buffering off, which it is anyway.\<close>

definition cb_libc_setbuf :: "'w libc_api \<Rightarrow> cb_stream \<Rightarrow> bool \<Rightarrow> stdio \<Rightarrow> 'w \<Rightarrow> stdio \<times> 'w" where
  "cb_libc_setbuf api stream buf_null s w =
     (if stream = No_stream then (s, set_error api CB_EINVAL w)
      else if \<not> buf_null then (s, set_error api CB_ENOSYS w)
      else if stream = Stdin \<or> stream = Stdout \<or> stream = Stderr then (s, w)
      else case resolve_input api stream s w of
        (Inl e, w1) \<Rightarrow> (s, set_error api CB_EBADF w1)
      | (Inr ref, w1) \<Rightarrow> (s, w1))"

end
