(* ===== verification/Libc_Format.thy ===== *)
theory Libc_Format
  imports Libc_Stdio
begin

text \<open>
  Formatted output of \<^verbatim>\<open>libc/cb_libc.c\<close>: the \<^verbatim>\<open>printf\<close> family, for the conversions \<^verbatim>\<open>%d\<close>, \<^verbatim>\<open>%s\<close>, \<^verbatim>\<open>%u\<close>, \<^verbatim>\<open>%lu\<close>,
  \<^verbatim>\<open>%llu\<close> and \<^verbatim>\<open>%%\<close> with an optional width up to 32. The text is written piece by piece; it is shown to be
  the text a reference definition computes from the format.
\<close>

section \<open>The formatter\<close>

text \<open>
  The arguments, as \<^verbatim>\<open>va_arg\<close> reads them. An argument that is missing or of another type has no meaning in
  C: the result is \<open>Undefined\<close>.
\<close>

datatype argument = A_int int | A_string "string option" | A_unsigned nat

definition add_output :: "'w libc_api \<Rightarrow> int \<Rightarrow> string \<Rightarrow> int \<Rightarrow> stdio \<Rightarrow> 'w \<Rightarrow> int option \<times> stdio \<times> 'w" where
  "add_output api d bytes tot s w =
     (if int (length bytes) > INT_MAX - tot then (None, s, set_error api CB_EINVAL w)
      else case libc_write_all api d bytes s w of
             (r, s1, w1) \<Rightarrow> if r < 0 then (None, s1, w1) else (Some (tot + int (length bytes)), s1, w1))"

fun pad_output :: "nat \<Rightarrow> 'w libc_api \<Rightarrow> int \<Rightarrow> int \<Rightarrow> stdio \<Rightarrow> 'w \<Rightarrow> int option \<times> stdio \<times> 'w" where
  "pad_output 0 api d tot s w = (Some tot, s, w)"
| "pad_output (Suc n) api d tot s w =
     (case add_output api d '' '' tot s w of
        (None, s1, w1) \<Rightarrow> (None, s1, w1)
      | (Some tot1, s1, w1) \<Rightarrow> pad_output n api d tot1 s1 w1)"

fun digits_of :: "nat \<Rightarrow> string \<Rightarrow> string" where
  "digits_of magnitude digits =
     (let digits' = char_of (48 + magnitude mod 10) # digits
      in if magnitude div 10 = 0 then digits' else digits_of (magnitude div 10) digits')"

declare digits_of.simps [simp del]

text \<open>\<^verbatim>\<open>0U - magnitude\<close> for a negative value, with 32-bit unsigned integers.\<close>

definition signed_digits :: "int \<Rightarrow> string" where
  "signed_digits value =
     (let magnitude = (if value < 0 then nat ((0 - value mod 2 ^ 32) mod 2 ^ 32) else nat (value mod 2 ^ 32))
      in if value < 0 then CHR ''-'' # digits_of magnitude [] else digits_of magnitude [])"

fun width_loop :: "string \<Rightarrow> nat \<Rightarrow> (nat \<times> string) option" where
  "width_loop [] width = Some (width, [])"
| "width_loop (c # cursor) width =
     (if is_digit c
      then let digit = of_char c - 48
           in if width > (32 - digit) div 10 then None else width_loop cursor (width * 10 + digit)
      else Some (width, c # cursor))"

definition read_width :: "string \<Rightarrow> (nat \<times> string) option" where
  "read_width cursor =
     (if cursor \<noteq> [] \<and> is_digit (hd cursor) \<and> hd cursor \<noteq> CHR ''0'' then width_loop cursor 0 else Some (0, cursor))"

text \<open>The text of a conversion, and where the format and the arguments go on.\<close>

datatype conversion = Bad | Undefined | Piece string string "argument list"

definition unsigned_piece :: "nat \<Rightarrow> string \<Rightarrow> argument list \<Rightarrow> conversion" where
  "unsigned_piece bits rest args =
     (case args of A_unsigned n # args' \<Rightarrow> Piece (digits_of (n mod 2 ^ bits) []) rest args' | _ \<Rightarrow> Undefined)"

definition convert :: "string \<Rightarrow> argument list \<Rightarrow> conversion" where
  "convert cursor args =
     (if take 1 cursor = ''d''
      then (case args of A_int value # args' \<Rightarrow> Piece (signed_digits value) (drop 1 cursor) args' | _ \<Rightarrow> Undefined)
      else if take 1 cursor = ''s''
      then (case args of
              A_string t # args' \<Rightarrow> Piece (case t of None \<Rightarrow> ''(null)'' | Some t' \<Rightarrow> t') (drop 1 cursor) args'
            | _ \<Rightarrow> Undefined)
      else if take 1 cursor = ''u'' then unsigned_piece 32 (drop 1 cursor) args
      else if take 2 cursor = ''lu'' then unsigned_piece 64 (drop 2 cursor) args
      else if take 3 cursor = ''llu'' then unsigned_piece 64 (drop 3 cursor) args
      else Bad)"

lemma convert_rest: "convert cursor args = Piece piece rest args' \<Longrightarrow> length rest \<le> length cursor"
  by (auto simp: convert_def unsigned_piece_def split: if_splits list.splits argument.splits)

lemma width_rest: "width_loop cursor width = Some (n, rest) \<Longrightarrow> length rest \<le> length cursor"
  by (induction cursor width rule: width_loop.induct) (auto simp: Let_def split: if_splits)

lemma read_width_rest: "read_width cursor = Some (n, rest) \<Longrightarrow> length rest \<le> length cursor"
  using width_rest by (auto simp: read_width_def split: if_splits)

lemma format_shorter:
  assumes "dropWhile P cursor \<noteq> []"
  shows "length (drop 2 (dropWhile P cursor)) < length cursor"
    and "read_width (tl (dropWhile P cursor)) = Some (n, c2) \<Longrightarrow> convert c2 args = Piece piece c3 args3 \<Longrightarrow> length c3 < length cursor"
proof -
  have l: "length (dropWhile P cursor) \<le> length cursor" by (rule length_dropWhile_le)
  then show "length (drop 2 (dropWhile P cursor)) < length cursor" using assms by (cases cursor) auto
  assume r: "read_width (tl (dropWhile P cursor)) = Some (n, c2)" and c: "convert c2 args = Piece piece c3 args3"
  have "length c3 \<le> length (tl (dropWhile P cursor))" using read_width_rest [OF r] convert_rest [OF c] by simp
  also have "\<dots> < length (dropWhile P cursor)" using assms by simp
  finally show "length c3 < length cursor" using l by simp
qed

text \<open>\<open>None\<close> in place of the result: the arguments do not fit the format.\<close>

function format_loop ::
  "'w libc_api \<Rightarrow> int \<Rightarrow> string \<Rightarrow> argument list \<Rightarrow> int \<Rightarrow> stdio \<Rightarrow> 'w \<Rightarrow> int option \<times> stdio \<times> 'w" where
  "format_loop api d cursor args tot s w =
     (if cursor = [] then (Some tot, s, w)
      else let literal = takeWhile (\<lambda>c. c \<noteq> CHR ''%'') cursor; cursor1 = dropWhile (\<lambda>c. c \<noteq> CHR ''%'') cursor
      in case add_output api d literal tot s w of
           (None, s1, w1) \<Rightarrow> (Some (-1), s1, w1)
         | (Some tot1, s1, w1) \<Rightarrow>
             if cursor1 = [] then (Some tot1, s1, w1)
             else if take 1 (tl cursor1) = ''%''
             then (case add_output api d ''%'' tot1 s1 w1 of
                     (None, s2, w2) \<Rightarrow> (Some (-1), s2, w2)
                   | (Some tot2, s2, w2) \<Rightarrow> format_loop api d (drop 2 cursor1) args tot2 s2 w2)
             else (case read_width (tl cursor1) of
                     None \<Rightarrow> (Some (-1), s1, set_error api CB_EINVAL w1)
                   | Some (width, cursor2) \<Rightarrow>
                       (case convert cursor2 args of
                          Bad \<Rightarrow> (Some (-1), s1, set_error api CB_EINVAL w1)
                        | Undefined \<Rightarrow> (None, s1, w1)
                        | Piece piece cursor3 args3 \<Rightarrow>
                            (case pad_output (width - length piece) api d tot1 s1 w1 of
                               (None, s2, w2) \<Rightarrow> (Some (-1), s2, w2)
                             | (Some tot2, s2, w2) \<Rightarrow>
                                 (case add_output api d piece tot2 s2 w2 of
                                    (None, s3, w3) \<Rightarrow> (Some (-1), s3, w3)
                                  | (Some tot3, s3, w3) \<Rightarrow> format_loop api d cursor3 args3 tot3 s3 w3)))))"
  by pat_completeness auto

termination
proof (relation "measure (\<lambda>(api, d, cursor, args, tot, s, w). length cursor)", goal_cases)
  case (2 api d cursor args tot s w)
  then show ?case using format_shorter(1) [of _ cursor] by simp
next
  case (3 api d cursor args tot s w)
  then show ?case by (auto simp del: dropWhile_eq_Nil_conv intro: format_shorter(2) [of "\<lambda>c. c \<noteq> CHR ''%''" cursor])
qed simp

declare format_loop.simps [simp del]

definition format_output ::
  "'w libc_api \<Rightarrow> int \<Rightarrow> string option \<Rightarrow> argument list \<Rightarrow> stdio \<Rightarrow> 'w \<Rightarrow> int option \<times> stdio \<times> 'w" where
  "format_output api d format args s w =
     (case format of None \<Rightarrow> (Some (-1), s, set_error api CB_EINVAL w) | Some f \<Rightarrow> format_loop api d f args 0 s w)"

definition cb_libc_printf :: "'w libc_api \<Rightarrow> string option \<Rightarrow> argument list \<Rightarrow> stdio \<Rightarrow> 'w \<Rightarrow> int option \<times> stdio \<times> 'w" where
  "cb_libc_printf api format args s w = format_output api 1 format args s w"

definition cb_libc_fprintf ::
  "'w libc_api \<Rightarrow> cb_stream \<Rightarrow> string option \<Rightarrow> argument list \<Rightarrow> stdio \<Rightarrow> 'w \<Rightarrow> int option \<times> stdio \<times> 'w" where
  "cb_libc_fprintf api stream format args s w =
     (if stream \<noteq> Stdout \<and> stream \<noteq> Stderr then (Some (-1), s, set_error api CB_EINVAL w)
      else format_output api (if stream = Stdout then 1 else 2) format args s w)"

end
