(* ===== verification/Libc_Props.thy ===== *)
theory Libc_Props
  imports Libc_Format
begin

text \<open>
  What the standard input and output of the C library promise, for every table of calls on which
  descriptors 0 and 1 behave as streams: a reference definition of the text of a format, and the contract
  \<open>libc_streams\<close> under which \<^verbatim>\<open>printf\<close> writes that text and \<^verbatim>\<open>fread\<close> reads what is there.
\<close>

section \<open>The text of a format\<close>

text \<open>The width of a conversion: the decimal number before it, unless that starts with 0.\<close>

definition width_digits :: "string \<Rightarrow> string" where
  "width_digits cursor = (if cursor \<noteq> [] \<and> hd cursor \<noteq> CHR ''0'' then takeWhile is_digit cursor else [])"

text \<open>The text of a conversion, for arguments of the right type and in the range of that type.\<close>

definition convert_text :: "string \<Rightarrow> argument list \<Rightarrow> (string \<times> string \<times> argument list) option" where
  "convert_text cursor args =
     (case args of
        A_int v # args' \<Rightarrow>
          if take 1 cursor = ''d'' \<and> - (2 ^ 31) \<le> v \<and> v < 2 ^ 31 then Some (decimal v, drop 1 cursor, args') else None
      | A_string t # args' \<Rightarrow>
          if take 1 cursor = ''s'' then Some (case t of None \<Rightarrow> ''(null)'' | Some t' \<Rightarrow> t', drop 1 cursor, args') else None
      | A_unsigned n # args' \<Rightarrow>
          if take 1 cursor = ''u'' \<and> n < 2 ^ 32 then Some (decimal_nat n, drop 1 cursor, args')
          else if take 2 cursor = ''lu'' \<and> n < 2 ^ 64 then Some (decimal_nat n, drop 2 cursor, args')
          else if take 3 cursor = ''llu'' \<and> n < 2 ^ 64 then Some (decimal_nat n, drop 3 cursor, args')
          else None
      | [] \<Rightarrow> None)"

lemma convert_text_rest: "convert_text cursor args = Some (t, rest, args') \<Longrightarrow> length rest \<le> length cursor"
  by (auto simp: convert_text_def split: list.splits argument.splits if_splits)

function render :: "string \<Rightarrow> argument list \<Rightarrow> string option" where
  "render format args =
     (if format = [] then Some []
      else if hd format \<noteq> CHR ''%'' then map_option ((#) (hd format)) (render (tl format) args)
      else if take 1 (tl format) = ''%'' then map_option ((#) CHR ''%'') (render (drop 2 format) args)
      else let ds = width_digits (tl format)
           in if digits_value ds 0 > 32 then None
              else case convert_text (drop (length ds) (tl format)) args of
                     None \<Rightarrow> None
                   | Some (t, rest, args') \<Rightarrow>
                       map_option (\<lambda>out. replicate (digits_value ds 0 - length t) CHR '' '' @ t @ out) (render rest args'))"
  by pat_completeness auto
termination
proof (relation "measure (\<lambda>(format, args). length format)", goal_cases)
  case (4 format args ds x y z a b)
  then have "length a \<le> length (drop (length (width_digits (tl format))) (tl format))"
    using convert_text_rest by (metis prod.inject option.inject)
  then show ?case using 4 by (cases format) auto
qed auto

declare render.simps [simp del]

section \<open>Numbers\<close>

lemma digits_of_decimal: "digits_of n ds = decimal_nat n @ ds"
proof (induction n ds rule: digits_of.induct)
  case (1 n ds)
  show ?case
  proof (cases "n < 10")
    case True
    then show ?thesis by (subst digits_of.simps, subst decimal_nat.simps) simp
  next
    case False
    then have "n div 10 \<noteq> 0" by simp
    then show ?thesis using 1 [OF refl] False by (subst digits_of.simps, subst decimal_nat.simps) (simp add: Let_def)
  qed
qed

lemma signed_digits_decimal:
  assumes "- (2 ^ 31) \<le> v" "v < 2 ^ 31" shows "signed_digits v = decimal v"
proof (cases "v < 0")
  case True
  have "(v + 2 ^ 32) mod 2 ^ 32 = v + 2 ^ 32" by (rule mod_pos_pos_trivial) (use True assms in simp_all)
  then have "v mod 2 ^ 32 = v + 2 ^ 32" by simp
  then have "(0 - v mod 2 ^ 32) mod 2 ^ 32 = (- v - 2 ^ 32) mod 2 ^ 32" by simp
  also have "\<dots> = (- v) mod 2 ^ 32" by (simp add: mod_diff_right_eq)
  also have "\<dots> = - v" using True assms by (simp add: mod_pos_pos_trivial)
  finally show ?thesis using True by (simp add: signed_digits_def digits_of_decimal decimal_def)
next
  case False
  then have "v mod 2 ^ 32 = v" using assms by simp
  then show ?thesis using False by (simp add: signed_digits_def digits_of_decimal decimal_def)
qed

lemma digits_value_mono: "n \<le> digits_value ds n"
proof (induction ds n rule: digits_value.induct)
  case (2 c cs n)
  then show ?case by simp
qed simp

lemma width_loop_value:
  "width_loop cursor n = (if digits_value (takeWhile is_digit cursor) n \<le> 32 \<or> takeWhile is_digit cursor = []
     then Some (digits_value (takeWhile is_digit cursor) n, dropWhile is_digit cursor) else None)"
proof (induction cursor n rule: width_loop.induct)
  case (2 c cursor n)
  show ?case
  proof (cases "is_digit c")
    case True
    let ?d = "of_char c - 48 :: nat"
    have d: "?d \<le> 9" using True unfolding is_digit_def Let_def by linarith
    have "n > (32 - ?d) div 10 \<longleftrightarrow> 10 * n + ?d > 32" using d by (auto simp: div_less_iff_less_mult)
    moreover have "10 * n + ?d \<le> digits_value (takeWhile is_digit cursor) (10 * n + ?d)" by (rule digits_value_mono)
    ultimately show ?thesis using True 2 [OF True refl] by (auto simp: Let_def mult.commute)
  qed simp
qed simp

lemma read_width_value:
  "read_width cursor = (let ds = width_digits cursor in
     if digits_value ds 0 \<le> 32 then Some (digits_value ds 0, drop (length ds) cursor) else None)"
proof -
  have "drop (length (takeWhile is_digit cursor)) cursor = dropWhile is_digit cursor" by (simp add: dropWhile_eq_drop)
  then show ?thesis
    by (cases cursor) (auto simp: read_width_def width_digits_def width_loop_value Let_def)
qed

lemma convert_text_convert: "convert_text cursor args = Some (t, rest, args') \<Longrightarrow> convert cursor args = Piece t rest args'"
  by (cases cursor) (auto simp: convert_text_def convert_def unsigned_piece_def signed_digits_decimal digits_of_decimal
      split: list.splits argument.splits if_splits)

lemma render_literal:
  "render format args = map_option ((@) (takeWhile (\<lambda>c. c \<noteq> CHR ''%'') format)) (render (dropWhile (\<lambda>c. c \<noteq> CHR ''%'') format) args)"
proof (induction format)
  case (Cons c cs)
  then show ?case by (cases "c = CHR ''%''") (auto simp: render.simps [of "c # cs"] option.map_comp o_def option.map_ident)
qed (simp add: render.simps)

text \<open>The two cases of a conversion, as the formatter sees them.\<close>

lemma render_percent:
  assumes "render cursor args = Some out" "cursor \<noteq> []" "hd cursor = CHR ''%''"
  obtains (percent) out1 where "take 1 (tl cursor) = ''%''" "out = CHR ''%'' # out1" "render (drop 2 cursor) args = Some out1"
  | (piece) width rest t rest1 args1 out1 where "take 1 (tl cursor) \<noteq> ''%''" "read_width (tl cursor) = Some (width, rest)"
      "convert rest args = Piece t rest1 args1" "out = replicate (width - length t) CHR '' '' @ t @ out1" "render rest1 args1 = Some out1"
proof (cases "take 1 (tl cursor) = ''%''")
  case True
  then show ?thesis using percent assms by (subst (asm) render.simps) auto
next
  case False
  let ?ds = "width_digits (tl cursor)"
  let ?rest = "drop (length ?ds) (tl cursor)"
  have r: "(if digits_value ?ds 0 > 32 then None else case convert_text ?rest args of None \<Rightarrow> None
      | Some (t, rest, args') \<Rightarrow> map_option (\<lambda>out. replicate (digits_value ?ds 0 - length t) CHR '' '' @ t @ out) (render rest args')) = Some out"
    using assms False render.simps [of cursor args] by (simp add: Let_def)
  then obtain t rest1 args1 where c: "digits_value ?ds 0 \<le> 32" "convert_text ?rest args = Some (t, rest1, args1)"
    by (auto split: if_splits option.splits)
  then obtain out1 where "render rest1 args1 = Some out1" "out = replicate (digits_value ?ds 0 - length t) CHR '' '' @ t @ out1"
    using r by auto
  moreover have "read_width (tl cursor) = Some (digits_value ?ds 0, ?rest)" using c(1) by (simp add: read_width_value Let_def)
  ultimately show ?thesis using piece [OF False _ convert_text_convert [OF c(2)]] by blast
qed

section \<open>Streams\<close>

text \<open>
  The contract: descriptors 0 and 1 are streams, and the error number is a cell of its own. The library
  finds the states of the streams in the table.
\<close>

locale libc_streams =
  fixes api :: "'w libc_api" and ok_world :: "'w \<Rightarrow> bool" and input :: "'w \<Rightarrow> string" and written :: "'w \<Rightarrow> string"
  assumes streams: "stream_calls (cb_api.truncate api) ok_world input written"
    and law_set_errno: "ok_world w \<Longrightarrow>
      ok_world (ap_set_errno api e w) \<and> input (ap_set_errno api e w) = input w \<and> written (ap_set_errno api e w) = written w"
    and law_errno: "ok_world w \<Longrightarrow> ap_get_errno api (ap_set_errno api e w) = e"
    and has_states: "ap_has_stdio api" "ap_has_input api" "ap_has_streams api"
begin

lemma law_write:
  assumes "ok_world w" "s \<noteq> []" "int (length (written w) + length s) \<le> INT64_MAX" "ap_write api 1 s w = (c, w')"
  shows "ok_world w' \<and> input w' = input w \<and>
    (c < 0 \<and> written w' = written w \<and> ap_get_errno api w' = errno_value CB_ENOMEM \<or>
     0 < c \<and> c \<le> int (length s) \<and> written w' = written w @ take (nat c) s)"
  using stream_calls.law_write [OF streams assms(1-3), of c w'] assms(4) by (simp add: cb_api.defs)

lemma law_read:
  assumes "ok_world w" "0 < n" "int n \<le> INT64_MAX" "ap_read api 0 n w = ((c, bytes), w')"
  shows "ok_world w' \<and> written w' = written w \<and> c = int (length bytes) \<and> length bytes \<le> n \<and> input w = bytes @ input w' \<and> (bytes = [] \<longrightarrow> input w = [])"
  using stream_calls.law_read [OF streams assms(1-3), of c bytes w'] assms(4) by (auto simp: cb_api.defs)

definition same_streams :: "'w \<Rightarrow> 'w \<Rightarrow> bool" where
  "same_streams w w' \<longleftrightarrow> ok_world w' \<and> input w' = input w \<and> written w' = written w"

lemma same_errno_streams [simp]: "ok_world w \<Longrightarrow> same_streams w (same_errno api w)" "ok_world w \<Longrightarrow> same_streams w (ap_set_errno api e w)"
  using law_set_errno by (simp_all add: same_streams_def same_errno_def)

lemma same_errno_errno [simp]: "ok_world w \<Longrightarrow> ap_get_errno api (same_errno api w) = ap_get_errno api w"
  by (simp add: same_errno_def law_errno)

text \<open>
  What a piece of output does: it is written completely and nothing else changes, or memory ran out after
  a part of it, and the error flag of standard output is set.
\<close>

definition outputs :: "string \<Rightarrow> stdio \<Rightarrow> 'w \<Rightarrow> bool \<Rightarrow> stdio \<Rightarrow> 'w \<Rightarrow> bool" where
  "outputs bytes s w done s' w' \<longleftrightarrow> ok_world w' \<and> input w' = input w \<and>
     (if done then s' = s \<and> written w' = written w @ bytes \<and> ap_get_errno api w' = ap_get_errno api w
      else s' = s\<lparr>so_stdout_error := True\<rparr> \<and> (\<exists>p. prefix p bytes \<and> written w' = written w @ p) \<and> ap_get_errno api w' = errno_value CB_ENOMEM)"

lemma write_loop_out:
  assumes "ok_world w" "int (length (written w) + length bytes) \<le> INT64_MAX" "write_loop api 1 bytes saved s w = (r, s', w')"
  shows "ok_world w' \<and> input w' = input w \<and>
    (r = 0 \<and> s' = s \<and> written w' = written w @ bytes \<and> ap_get_errno api w' = saved \<or>
     r = -1 \<and> s' = s\<lparr>so_stdout_error := True\<rparr> \<and> (\<exists>p. prefix p bytes \<and> written w' = written w @ p) \<and> ap_get_errno api w' = errno_value CB_ENOMEM)"
  using assms
proof (induction "length bytes" arbitrary: bytes w rule: less_induct)
  case less
  show ?case
  proof (cases "bytes = []")
    case True
    then show ?thesis using less.prems law_set_errno law_errno by (auto simp: write_loop.simps)
  next
    case False
    obtain c w1 where c: "ap_write api 1 bytes w = (c, w1)" by fastforce
    note l = law_write [OF less.prems(1) False less.prems(2) c]
    show ?thesis
    proof (cases "c < 0")
      case True
      then have "r = -1" "s' = s\<lparr>so_stdout_error := True\<rparr>" "w' = ap_set_errno api (ap_get_errno api w1) (same_errno api w1)"
        using less.prems(3) False c has_states(1) by (auto simp: write_loop.simps mark_stdio_error_def)
      moreover have "same_streams w1 (same_errno api w1)" using l by simp
      ultimately show ?thesis using l True law_set_errno law_errno by (auto simp: same_streams_def)
    next
      case pos: False
      then have w1: "0 < c" "c \<le> int (length bytes)" "ok_world w1" "input w1 = input w" "written w1 = written w @ take (nat c) bytes" using l by auto
      have "write_loop api 1 (drop (nat c) bytes) saved s w1 = (r, s', w')"
        using less.prems(3) False c pos w1(1) by (simp add: write_loop.simps [of api 1 bytes])
      moreover have "length (drop (nat c) bytes) < length bytes" "int (length (written w1) + length (drop (nat c) bytes)) \<le> INT64_MAX"
        using w1 False less.prems(2) by (auto simp: min_def)
      moreover have "prefix (take (nat c) bytes @ p) bytes" if "prefix p (drop (nat c) bytes)" for p
        using that by (metis append_take_drop_id same_prefix_prefix)
      ultimately show ?thesis using less.hyps [of "drop (nat c) bytes" w1] w1 by auto
    qed
  qed
qed

lemma outputs_trans: "outputs b1 s w True s1 w1 \<Longrightarrow> outputs b2 s1 w1 d s' w' \<Longrightarrow> outputs (b1 @ b2) s w d s' w'"
  by (auto simp: outputs_def)

lemma outputs_stop: "outputs b1 s w False s' w' \<Longrightarrow> outputs (b1 @ b2) s w False s' w'"
  by (auto simp: outputs_def prefix_prefix)

lemma outputs_none: "ok_world w \<Longrightarrow> outputs [] s w True s w"
  by (simp add: outputs_def)

lemma outputs_ready:
  "outputs b s w True s1 w1 \<Longrightarrow> ok_world w1 \<and> written w1 = written w @ b \<and> s1 = s"
  by (simp add: outputs_def)

lemma libc_write_all_out:
  assumes "ok_world w" "\<not> so_stdout_closed s" "int (length (written w) + length bytes) \<le> INT64_MAX"
    "libc_write_all api 1 bytes s w = (r, s', w')"
  shows "outputs bytes s w (r = 0) s' w' \<and> (r = 0 \<or> r = -1)"
proof -
  let ?w = "same_errno api w"
  have w: "ok_world ?w" "input ?w = input w" "written ?w = written w" using same_errno_streams(1) [OF assms(1)] by (simp_all add: same_streams_def)
  have "write_loop api 1 bytes (ap_get_errno api w) s ?w = (r, s', w')"
    using assms(2,4) by (simp add: libc_write_all_def stdio_stream_closed_def)
  from write_loop_out [OF w(1) _ this] show ?thesis using assms(3) w(2,3) by (auto simp: outputs_def)
qed

lemma add_output_out:
  assumes "ok_world w" "\<not> so_stdout_closed s" "int (length (written w) + length bytes) \<le> INT64_MAX" "tot + int (length bytes) \<le> INT_MAX"
    "add_output api 1 bytes tot s w = (x, s', w')"
  shows "x = Some (tot + int (length bytes)) \<and> outputs bytes s w True s' w' \<or> x = None \<and> outputs bytes s w False s' w'"
proof -
  obtain r s1 w1 where r: "libc_write_all api 1 bytes s w = (r, s1, w1)" by (metis prod_cases3)
  show ?thesis using libc_write_all_out [OF assms(1-3) r] assms(4,5) r by (auto simp: add_output_def)
qed

lemma pad_output_out:
  assumes "ok_world w" "\<not> so_stdout_closed s" "int (length (written w) + n) \<le> INT64_MAX" "tot + int n \<le> INT_MAX"
    "pad_output n api 1 tot s w = (x, s', w')"
  shows "x = Some (tot + int n) \<and> outputs (replicate n CHR '' '') s w True s' w' \<or> x = None \<and> outputs (replicate n CHR '' '') s w False s' w'"
  using assms
proof (induction n arbitrary: tot s w)
  case 0
  then show ?case using outputs_none by simp
next
  case (Suc n)
  obtain y s1 w1 where y: "add_output api 1 '' '' tot s w = (y, s1, w1)" by (metis prod_cases3)
  have rep: "replicate (Suc n) CHR '' '' = '' '' @ replicate n CHR '' ''" by simp
  have "y = Some (tot + 1) \<and> outputs '' '' s w True s1 w1 \<or> y = None \<and> outputs '' '' s w False s1 w1"
    using add_output_out [OF Suc.prems(1,2) _ _ y] Suc.prems(3,4) by simp
  then show ?case
  proof
    assume o: "y = Some (tot + 1) \<and> outputs '' '' s w True s1 w1"
    then have "pad_output n api 1 (tot + 1) s1 w1 = (x, s', w')" using Suc.prems(5) y by simp
    from Suc.IH [OF _ _ _ _ this] show ?thesis
      using o outputs_ready [of "'' ''" s w s1 w1] Suc.prems(2-4) outputs_trans [of "'' ''" s w s1 w1 "replicate n CHR '' ''"]
      unfolding rep by (auto simp: add.assoc)
  next
    assume "y = None \<and> outputs '' '' s w False s1 w1"
    then show ?thesis using Suc.prems(5) y outputs_stop [of "'' ''"] unfolding rep by auto
  qed
qed

text \<open>A formatted text, with the number of bytes that were written before it.\<close>

definition says :: "string \<Rightarrow> int \<Rightarrow> stdio \<Rightarrow> 'w \<Rightarrow> int option \<times> stdio \<times> 'w \<Rightarrow> bool" where
  "says out tot s w result \<longleftrightarrow> (case result of (x, s', w') \<Rightarrow>
     x = Some (tot + int (length out)) \<and> outputs out s w True s' w' \<or> x = Some (-1) \<and> outputs out s w False s' w')"

lemma says_after:
  assumes "x = Some (tot + int (length b)) \<and> outputs b s w True s1 w1 \<or> x = None \<and> outputs b s w False s1 w1"
    "\<And>tot1. x = Some tot1 \<Longrightarrow> tot1 = tot + int (length b) \<Longrightarrow> outputs b s w True s1 w1 \<Longrightarrow> says out tot1 s1 w1 result"
    "x = None \<Longrightarrow> result = (Some (-1), s1, w1)"
  shows "says (b @ out) tot s w result"
  using assms
proof (elim disjE conjE)
  assume x: "x = Some (tot + int (length b))" "outputs b s w True s1 w1"
  obtain y s2 w2 where y: "result = (y, s2, w2)" by (cases result)
  then have "says out (tot + int (length b)) s1 w1 (y, s2, w2)" using assms(2) [OF x(1) refl x(2)] by simp
  then show ?thesis using outputs_trans [OF x(2)] y by (auto simp: says_def add.assoc)
next
  assume "x = None" "outputs b s w False s1 w1"
  then show ?thesis using assms(3) outputs_stop by (simp add: says_def)
qed

text \<open>The room that is left for a text.\<close>

definition room :: "string \<Rightarrow> int \<Rightarrow> stdio \<Rightarrow> 'w \<Rightarrow> bool" where
  "room out tot s w \<longleftrightarrow> ok_world w \<and> \<not> so_stdout_closed s \<and>
     int (length (written w) + length out) \<le> INT64_MAX \<and> tot + int (length out) \<le> INT_MAX"

lemma room_rest: "room (b @ out) tot s w \<Longrightarrow> outputs b s w True s1 w1 \<Longrightarrow> room out (tot + int (length b)) s1 w1"
  using outputs_ready by (fastforce simp: room_def)

lemma says_add:
  assumes "room (b @ out) tot s w" "add_output api 1 b tot s w = (x, s1, w1)"
    "\<And>tot1. x = Some tot1 \<Longrightarrow> room out tot1 s1 w1 \<Longrightarrow> says out tot1 s1 w1 result" "x = None \<Longrightarrow> result = (Some (-1), s1, w1)"
  shows "says (b @ out) tot s w result"
proof (rule says_after)
  show "x = Some (tot + int (length b)) \<and> outputs b s w True s1 w1 \<or> x = None \<and> outputs b s w False s1 w1"
    using add_output_out [OF _ _ _ _ assms(2)] assms(1) by (simp add: room_def)
  show "x = Some tot1 \<Longrightarrow> tot1 = tot + int (length b) \<Longrightarrow> outputs b s w True s1 w1 \<Longrightarrow> says out tot1 s1 w1 result" for tot1
    using assms(3) room_rest [OF assms(1)] by simp
qed (rule assms(4))

lemma says_pad:
  assumes "room (replicate n CHR '' '' @ out) tot s w" "pad_output n api 1 tot s w = (x, s1, w1)"
    "\<And>tot1. x = Some tot1 \<Longrightarrow> room out tot1 s1 w1 \<Longrightarrow> says out tot1 s1 w1 result" "x = None \<Longrightarrow> result = (Some (-1), s1, w1)"
  shows "says (replicate n CHR '' '' @ out) tot s w result"
proof (rule says_after)
  show "x = Some (tot + int (length (replicate n CHR '' ''))) \<and> outputs (replicate n CHR '' '') s w True s1 w1 \<or>
      x = None \<and> outputs (replicate n CHR '' '') s w False s1 w1"
    using pad_output_out [OF _ _ _ _ assms(2)] assms(1) by (simp add: room_def)
  show "x = Some tot1 \<Longrightarrow> tot1 = tot + int (length (replicate n CHR '' '')) \<Longrightarrow>
      outputs (replicate n CHR '' '') s w True s1 w1 \<Longrightarrow> says out tot1 s1 w1 result" for tot1
    using assms(3) room_rest [OF assms(1)] by simp
qed (rule assms(4))

lemma says_nothing: "room [] tot s w \<Longrightarrow> says [] tot s w (Some tot, s, w)"
  using outputs_none by (simp add: says_def room_def)

text \<open>A conversion: the padding, the text, and what the rest of the format gives.\<close>

lemma says_piece:
  assumes "room (replicate n CHR '' '' @ t @ out) tot s w"
    "\<And>tot1 s1 w1. room out tot1 s1 w1 \<Longrightarrow> says out tot1 s1 w1 (rest tot1 s1 w1)"
  shows "says (replicate n CHR '' '' @ t @ out) tot s w
    (case pad_output n api 1 tot s w of
       (None, s2, w2) \<Rightarrow> (Some (-1), s2, w2)
     | (Some tot2, s2, w2) \<Rightarrow>
         (case add_output api 1 t tot2 s2 w2 of (None, s3, w3) \<Rightarrow> (Some (-1), s3, w3) | (Some tot3, s3, w3) \<Rightarrow> rest tot3 s3 w3))"
proof -
  obtain x s2 w2 where x: "pad_output n api 1 tot s w = (x, s2, w2)" by (metis prod_cases3)
  show ?thesis
  proof (rule says_pad [OF assms(1) x])
    fix tot1 assume t: "x = Some tot1" and r: "room (t @ out) tot1 s2 w2"
    obtain y s3 w3 where y: "add_output api 1 t tot1 s2 w2 = (y, s3, w3)" by (metis prod_cases3)
    show "says (t @ out) tot1 s2 w2 (case pad_output n api 1 tot s w of
         (None, s2, w2) \<Rightarrow> (Some (-1), s2, w2)
       | (Some tot2, s2, w2) \<Rightarrow>
           (case add_output api 1 t tot2 s2 w2 of (None, s3, w3) \<Rightarrow> (Some (-1), s3, w3) | (Some tot3, s3, w3) \<Rightarrow> rest tot3 s3 w3))"
      by (rule says_add [OF r y]) (use assms(2) x t y in simp_all)
  qed (use x in simp)
qed

lemma format_loop_out:
  assumes "render cursor args = Some out" "room out tot s w"
  shows "says out tot s w (format_loop api 1 cursor args tot s w)"
  using assms
proof (induction "length cursor" arbitrary: cursor args out tot s w rule: less_induct)
  case less
  let ?P = "\<lambda>c. c \<noteq> CHR ''%''"
  let ?lit = "takeWhile ?P cursor" and ?c1 = "dropWhile ?P cursor" and ?r = "format_loop api 1 cursor args tot s w"
  obtain out1 where out: "out = ?lit @ out1" "render ?c1 args = Some out1" using less.prems(1) render_literal [of cursor args] by auto
  obtain x s1 w1 where x: "add_output api 1 ?lit tot s w = (x, s1, w1)" by (metis prod_cases3)
  show ?case
  proof (cases "cursor = []")
    case True
    then show ?thesis using less.prems says_nothing by (simp add: format_loop.simps render.simps)
  next
    case False
    note run = format_loop.simps [of api 1 cursor args tot s w, unfolded Let_def x]
    show ?thesis unfolding out(1)
    proof (rule says_add [OF less.prems(2) [unfolded out(1)] x])
      fix tot1 assume t: "x = Some tot1" and room: "room out1 tot1 s1 w1"
      show "says out1 tot1 s1 w1 ?r"
      proof (cases "?c1 = []")
        case True
        then show ?thesis using run t False out(2) says_nothing room by (simp add: render.simps)
      next
        case more: False
        then have "hd ?c1 = CHR ''%''" using hd_dropWhile by blast
        from out(2) more this show ?thesis
        proof (cases rule: render_percent)
          case (percent out2)
          obtain y s2 w2 where y: "add_output api 1 ''%'' tot1 s1 w1 = (y, s2, w2)" by (metis prod_cases3)
          have run2: "?r = (case y of None \<Rightarrow> (Some (-1), s2, w2) | Some tot2 \<Rightarrow> format_loop api 1 (drop 2 ?c1) args tot2 s2 w2)"
            using run t False more percent(1) y by (simp del: dropWhile_eq_Nil_conv split: option.split)
          have "says (''%'' @ out2) tot1 s1 w1 ?r"
            by (rule says_add [OF _ y]) (use run2 room percent less.hyps [OF format_shorter(1) [OF more] percent(3)] in simp_all)
          then show ?thesis using percent(2) by simp
        next
          case (piece width rest t rest1 args1 out2)
          have run2: "?r = (case pad_output (width - length t) api 1 tot1 s1 w1 of (None, s2, w2) \<Rightarrow> (Some (-1), s2, w2)
             | (Some tot2, s2, w2) \<Rightarrow> (case add_output api 1 t tot2 s2 w2 of (None, s3, w3) \<Rightarrow> (Some (-1), s3, w3)
                 | (Some tot3, s3, w3) \<Rightarrow> format_loop api 1 rest1 args1 tot3 s3 w3))"
            using run \<open>x = Some tot1\<close> False more piece(1-3) by (simp del: dropWhile_eq_Nil_conv)
          show ?thesis unfolding piece(4) run2
            by (rule says_piece [OF room [unfolded piece(4)]]) (rule less.hyps [OF format_shorter(2) [OF more piece(2,3)] piece(5)])
        qed
      qed
    qed (use run False in simp)
  qed
qed

section \<open>Reading\<close>

lemma read_input_in:
  assumes "ok_world w" "lf_descriptor ref = 0" "\<not> lf_eof ref" "0 < n" "int n \<le> INT64_MAX" "read_input api ref n w = ((c, bytes), ref', w')"
  shows "ok_world w' \<and> written w' = written w \<and> input w = bytes @ input w' \<and> c = int (length bytes) \<and> length bytes \<le> n \<and>
    ref' = ref\<lparr>lf_eof := (bytes = [])\<rparr> \<and> (bytes = [] \<longrightarrow> input w = []) \<and> ap_get_errno api w' = ap_get_errno api w"
proof -
  obtain c1 b w1 where r: "ap_read api 0 n w = ((c1, b), w1)" by (metis prod.collapse)
  note l = law_read [OF assms(1,4,5) r]
  have b: "c = c1" "bytes = b" "ref' = (if c1 = 0 then ref\<lparr>lf_eof := True\<rparr> else ref)" "w' = ap_set_errno api (ap_get_errno api w) w1"
    using assms(2,3,6) r l by (auto simp: read_input_def)
  have "ref\<lparr>lf_eof := False\<rparr> = ref" using assms(3) by simp
  then show ?thesis using b l law_set_errno [of w1] law_errno [of w1] by (cases "bytes = []") auto
qed

lemma fread_loop_in:
  assumes "ok_world w" "lf_descriptor ref = 0" "\<not> lf_eof ref" "length got \<le> n" "fread_loop api ref n got w = (got', ref', w')"
  shows "ok_world w' \<and> written w' = written w \<and> got' @ input w' = got @ input w \<and> length got' = min n (length got + length (input w)) \<and>
    ref' = ref\<lparr>lf_eof := (length got' < n)\<rparr> \<and> ap_get_errno api w' = ap_get_errno api w"
  using assms
proof (induction "n - length got" arbitrary: got w rule: less_induct)
  case less
  show ?case
  proof (cases "length got < n")
    case False
    then have "got' = got" "ref' = ref" "w' = w" "length got = n" using less.prems(4,5) by (auto simp: fread_loop.simps)
    then show ?thesis using less.prems(1,3) by simp
  next
    case True
    let ?m = "min (n - length got) (nat INT64_MAX)"
    have m: "0 < ?m" "int ?m \<le> INT64_MAX" using True by (auto simp: INT64_MAX_def)
    obtain c bytes ref1 w1 where r: "read_input api ref ?m w = ((c, bytes), ref1, w1)" by (metis prod.collapse)
    note l = read_input_in [OF less.prems(1-3) m r]
    show ?thesis
    proof (cases "bytes = []")
      case empty: True
      then have "got' = got" "ref' = ref1" "w' = w1" using less.prems(5) True r l by (auto simp: fread_loop.simps)
      then show ?thesis using l empty True by auto
    next
      case False
      then have "ref1 = ref" using l less.prems(3) by simp
      then have run: "fread_loop api ref n (got @ bytes) w1 = (got', ref', w')"
        using less.prems(5) True r l False by (simp add: fread_loop.simps [of api ref n got])
      have "n - length (got @ bytes) < n - length got" "length (got @ bytes) \<le> n"
        using True False l by (auto intro: diff_less_mono2)
      from less.hyps [OF this(1) _ less.prems(2,3) this(2) run] show ?thesis using l by auto
    qed
  qed
qed

lemma fread_in:
  assumes "ok_world w" "\<not> so_stdin_closed s" "\<not> so_stdin_eof s" "elem * count \<le> SIZE_MAX" "0 < elem" "0 < count"
    "cb_libc_fread api False elem count Stdin s w = ((n, bytes), s', w')"
  shows "ok_world w' \<and> written w' = written w \<and> input w = bytes @ input w' \<and> bytes = take (elem * count) (input w) \<and>
    n = length bytes div elem \<and> s' = s\<lparr>so_stdin_eof := (length bytes < elem * count)\<rparr> \<and> ap_get_errno api w' = ap_get_errno api w"
proof -
  let ?w = "same_errno api w" and ?ref = "\<lparr>lf_descriptor = 0, lf_eof = so_stdin_eof s, lf_error = so_stdin_error s\<rparr>"
  have w: "ok_world ?w" "input ?w = input w" "written ?w = written w" using same_errno_streams(1) [OF assms(1)] by (simp_all add: same_streams_def)
  have res: "resolve_input api Stdin s w = (Inr ?ref, ?w)" using assms(2) has_states by (simp add: resolve_input_def)
  obtain got ref1 w1 where f: "fread_loop api ?ref (elem * count) [] ?w = (got, ref1, w1)" by (metis prod_cases3)
  have "\<not> elem > SIZE_MAX div count" using assms(4,6) by (simp add: less_eq_div_iff_mult_less_eq not_less)
  then have out: "n = length got div elem" "bytes = got" "s' = set_flags Stdin (lf_eof ref1) (lf_error ref1) s" "w' = w1"
    using assms(5-7) res f by (auto simp: cb_libc_fread_def)
  note l = fread_loop_in [OF w(1) _ _ _ f]
  have b: "bytes @ input w1 = input w" "length bytes = min (elem * count) (length (input w))" using l out w(2) assms(3) by simp_all
  have "bytes = take (length bytes) (bytes @ input w1)" by simp
  also have "\<dots> = take (elem * count) (input w)" unfolding b by (simp add: min_def)
  finally have "bytes = take (elem * count) (input w)" .
  then show ?thesis using l out w assms(1,3) by auto
qed

end

end
