(* ===== verification/Libc_Text.thy ===== *)
theory Libc_Text
  imports Libc_Stdio
begin

text \<open>
  The functions of \<^verbatim>\<open>libc/cb_libc.c\<close> on strings and arguments: \<^verbatim>\<open>getopt\<close>, which is shown to read a command
  line as a reference definition does, the string functions, and the conversions of flags, modes and
  numbers.
\<close>

section \<open>Options\<close>

text \<open>\<^verbatim>\<open>place\<close> is the rest of the argument that is being read. A \<^verbatim>\<open>char\<close> is signed.\<close>

record cb_getopt_state =
  go_optind :: nat
  go_opterr :: bool
  go_optopt :: int
  go_optarg :: "string option"
  go_place :: string

definition char_int :: "byte \<Rightarrow> int" where
  "char_int c = (let n = of_char c :: nat in if n < 128 then int n else int n - 256)"

definition getopt_diagnostic :: "'w libc_api \<Rightarrow> string \<Rightarrow> byte \<Rightarrow> string \<Rightarrow> 'w \<Rightarrow> 'w" where
  "getopt_diagnostic api program letter message w =
     (let w1 = snd (ap_write api 2 program w);
          w2 = snd (ap_write api 2 message w1);
          w3 = snd (ap_write api 2 [letter] w2)
      in snd (ap_write api 2 [newline] w3))"

text \<open>The start of the next argument with options: \<open>Inl\<close> where \<^verbatim>\<open>getopt\<close> returns -1.\<close>

definition next_option :: "string list \<Rightarrow> cb_getopt_state \<Rightarrow> cb_getopt_state + cb_getopt_state" where
  "next_option argv st =
     (if go_place st = []
      then if go_optind st \<ge> length argv then Inl st
           else let arg = argv ! go_optind st
                in if take 1 arg \<noteq> ''-'' \<or> length arg = 1 then Inl st
                   else if arg = ''--'' then Inl (st\<lparr>go_optind := go_optind st + 1\<rparr>)
                   else Inr (st\<lparr>go_place := tl arg\<rparr>)
      else Inr st)"

definition cb_libc_getopt ::
  "'w libc_api \<Rightarrow> string list \<Rightarrow> string \<Rightarrow> cb_getopt_state \<Rightarrow> 'w \<Rightarrow> int \<times> cb_getopt_state \<times> 'w" where
  "cb_libc_getopt api argv optstring st w =
     (case next_option argv (st\<lparr>go_optarg := None\<rparr>) of
        Inl st1 \<Rightarrow> (-1, st1, w)
      | Inr st1 \<Rightarrow>
          let c = hd (go_place st1);
              st2 = st1\<lparr>go_optopt := char_int c, go_place := tl (go_place st1),
                        go_optind := (if tl (go_place st1) = [] then go_optind st1 + 1 else go_optind st1)\<rparr>;
              option = dropWhile (\<lambda>x. x \<noteq> c) optstring;
              quiet = (\<not> go_opterr st2 \<or> take 1 optstring = '':'')
          in if c = CHR '':'' \<or> option = []
             then (char_int CHR ''?'', st2, if quiet then w else getopt_diagnostic api (hd argv) c '': illegal option -- '' w)
             else if take 1 (tl option) = '':''
             then if go_place st2 \<noteq> []
                  then (char_int c, st2\<lparr>go_optarg := Some (go_place st2), go_optind := go_optind st2 + 1, go_place := []\<rparr>, w)
                  else if go_optind st2 < length argv
                  then (char_int c, st2\<lparr>go_optarg := Some (argv ! go_optind st2), go_optind := go_optind st2 + 1, go_place := []\<rparr>, w)
                  else (if take 1 optstring = '':'' then char_int CHR '':'' else char_int CHR ''?'', st2,
                        if quiet then w else getopt_diagnostic api (hd argv) c '': option requires an argument -- '' w)
             else (char_int c, st2, w))"

section \<open>Reading a command line\<close>

text \<open>
  The reference: the options of a command line, each with its argument, and the operands. \<open>known\<close> and
  \<open>takes_argument\<close> read the string of options.
\<close>

definition known :: "string \<Rightarrow> byte \<Rightarrow> bool" where
  "known optstring c \<longleftrightarrow> c \<noteq> CHR '':'' \<and> c \<in> set optstring"

definition takes_argument :: "string \<Rightarrow> byte \<Rightarrow> bool" where
  "takes_argument optstring c \<longleftrightarrow> take 1 (tl (dropWhile (\<lambda>x. x \<noteq> c) optstring)) = '':''"

definition found :: "int \<times> string option \<Rightarrow> (int \<times> string option) list \<times> string list \<Rightarrow> (int \<times> string option) list \<times> string list" where
  "found x r = (x # fst r, snd r)"

function parse_args :: "string \<Rightarrow> string list \<Rightarrow> (int \<times> string option) list \<times> string list"
  and parse_cluster :: "string \<Rightarrow> string \<Rightarrow> string list \<Rightarrow> (int \<times> string option) list \<times> string list" where
  "parse_args opts [] = ([], [])"
| "parse_args opts (a # args) =
     (if take 1 a \<noteq> ''-'' \<or> a = ''-'' then ([], a # args)
      else if a = ''--'' then ([], args)
      else parse_cluster opts (tl a) args)"
| "parse_cluster opts [] args = parse_args opts args"
| "parse_cluster opts (c # cs) args =
     (if \<not> known opts c then found (63, None) (parse_cluster opts cs args)
      else if \<not> takes_argument opts c then found (char_int c, None) (parse_cluster opts cs args)
      else if cs \<noteq> [] then found (char_int c, Some cs) (parse_args opts args)
      else case args of
             [] \<Rightarrow> ([(if take 1 opts = '':'' then 58 else 63, None)], [])
           | x # args' \<Rightarrow> found (char_int c, Some x) (parse_args opts args'))"
  by pat_completeness auto
termination
  by (relation "measure (\<lambda>x. case x of Inl (opts, args) \<Rightarrow> 2 * sum_list (map (\<lambda>a. Suc (length a)) args)
        | Inr (opts, cs, args) \<Rightarrow> 2 * sum_list (map (\<lambda>a. Suc (length a)) args) + 2 * length cs + 1)") auto

text \<open>The loop every program has: \<^verbatim>\<open>while ((ch = getopt(argc, argv, opts)) != -1)\<close>.\<close>

fun getopt_all ::
  "nat \<Rightarrow> 'w libc_api \<Rightarrow> string list \<Rightarrow> string \<Rightarrow> cb_getopt_state \<Rightarrow> 'w \<Rightarrow> ((int \<times> string option) list \<times> cb_getopt_state \<times> 'w) option" where
  "getopt_all 0 api argv opts st w = None"
| "getopt_all (Suc n) api argv opts st w =
     (case cb_libc_getopt api argv opts st w of
        (ch, st1, w1) \<Rightarrow>
          if ch = -1 then Some ([], st1, w1)
          else map_option (\<lambda>(xs, r). ((ch, go_optarg st1) # xs, r)) (getopt_all n api argv opts st1 w1))"

text \<open>What is still to be read in a state, and how much that is.\<close>

definition pending :: "string list \<Rightarrow> string \<Rightarrow> cb_getopt_state \<Rightarrow> (int \<times> string option) list \<times> string list" where
  "pending argv opts st = (if go_place st = [] then parse_args opts (drop (go_optind st) argv)
     else parse_cluster opts (go_place st) (drop (go_optind st + 1) argv))"

definition weight :: "string list \<Rightarrow> cb_getopt_state \<Rightarrow> nat" where
  "weight argv st = length (go_place st) +
     sum_list (map length (drop (if go_place st = [] then go_optind st else go_optind st + 1) argv))"

definition ascii :: "string \<Rightarrow> bool" where
  "ascii s \<longleftrightarrow> list_all (\<lambda>c. (of_char c :: nat) < 128) s"

lemma known_not_end: "known opts c \<Longrightarrow> ascii opts \<Longrightarrow> char_int c \<noteq> -1"
  by (auto simp: known_def ascii_def list_all_iff char_int_def Let_def)

lemma char_int_marks [simp]: "char_int CHR ''?'' = 63" "char_int CHR '':'' = 58"
  by (simp_all add: char_int_def)

lemma sum_list_drop: "i < length xs \<Longrightarrow> sum_list (map length (drop i xs)) = length (xs ! i) + sum_list (map length (drop (Suc i) xs))"
  by (simp add: Cons_nth_drop_Suc [symmetric])

lemma option_rest: "take 1 a = ''-'' \<Longrightarrow> length a \<noteq> 1 \<Longrightarrow> tl a \<noteq> []"
  by (cases a) auto

text \<open>The two cases of the start of an argument.\<close>

lemma next_option_pending:
  "next_option argv st = Inl st1 \<Longrightarrow> pending argv opts st = ([], drop (go_optind st1) argv)"
  "next_option argv st = Inr st1 \<Longrightarrow> pending argv opts st1 = pending argv opts st \<and> weight argv st1 \<le> weight argv st \<and>
     go_place st1 \<noteq> [] \<and> go_optarg st1 = go_optarg st"
proof -
  show "pending argv opts st = ([], drop (go_optind st1) argv)" if "next_option argv st = Inl st1"
    using that by (auto simp: next_option_def pending_def Let_def Cons_nth_drop_Suc [symmetric] split: if_splits)
  show "pending argv opts st1 = pending argv opts st \<and> weight argv st1 \<le> weight argv st \<and> go_place st1 \<noteq> [] \<and> go_optarg st1 = go_optarg st"
    if "next_option argv st = Inr st1"
    using that option_rest by (auto simp: next_option_def pending_def weight_def Let_def Cons_nth_drop_Suc [symmetric] split: if_splits)
qed

lemma pending_cluster:
  "go_place st = c # cs \<Longrightarrow> pending argv opts st = parse_cluster opts (c # cs) (drop (go_optind st + 1) argv)"
  by (simp add: pending_def)

lemma pending_advanced:
  "pending argv opts (st\<lparr>go_optopt := i, go_place := cs, go_optind := (if cs = [] then go_optind st + 1 else go_optind st)\<rparr>) =
   parse_cluster opts cs (drop (go_optind st + 1) argv)"
  by (simp add: pending_def)

text \<open>One letter: without an argument, and with one.\<close>

lemma getopt_letter:
  assumes "cb_libc_getopt api argv opts st w = (ch, st1, w1)" "ascii opts"
    "next_option argv (st\<lparr>go_optarg := None\<rparr>) = Inr s" "go_place s = c # cs" "go_optarg s = None" "\<not> (known opts c \<and> takes_argument opts c)"
  shows "ch \<noteq> -1 \<and> weight argv st1 < weight argv s \<and>
    parse_cluster opts (c # cs) (drop (go_optind s + 1) argv) = found (ch, go_optarg st1) (pending argv opts st1)"
proof -
  have k: "dropWhile (\<lambda>x. x \<noteq> c) opts = [] \<longleftrightarrow> c \<notin> set opts" by auto
  note run = assms(1) [unfolded cb_libc_getopt_def assms(3) sum.case Let_def assms(4) list.sel]
  have r: "ch = (if known opts c then char_int c else 63)" "pending argv opts st1 = parse_cluster opts cs (drop (go_optind s + 1) argv)"
    "go_optarg st1 = None" "weight argv st1 < weight argv s"
    using run assms(4-6) k pending_advanced [where st = s and cs = cs and i = "char_int c"]
    by (auto simp: known_def takes_argument_def weight_def split: if_splits)
  then show ?thesis using assms(6) known_not_end [OF _ assms(2), of c] by auto
qed

lemma getopt_argument:
  assumes "cb_libc_getopt api argv opts st w = (ch, st1, w1)" "ascii opts"
    "next_option argv (st\<lparr>go_optarg := None\<rparr>) = Inr s" "go_place s = c # cs" "go_optarg s = None" "known opts c" "takes_argument opts c"
  shows "ch \<noteq> -1 \<and> weight argv st1 < weight argv s \<and>
    parse_cluster opts (c # cs) (drop (go_optind s + 1) argv) = found (ch, go_optarg st1) (pending argv opts st1)"
proof -
  let ?args = "drop (go_optind s + 1) argv"
  have k: "dropWhile (\<lambda>x. x \<noteq> c) opts = [] \<longleftrightarrow> c \<notin> set opts" by auto
  note run = assms(1) [unfolded cb_libc_getopt_def assms(3) sum.case Let_def assms(4) list.sel] and ch = known_not_end [OF assms(6,2)]
  note simps = known_def takes_argument_def weight_def pending_def
  consider (rest) "cs \<noteq> []" | (after) "cs = []" "go_optind s + 1 < length argv" | (missing) "cs = []" "\<not> go_optind s + 1 < length argv" by blast
  then show ?thesis
  proof cases
    case rest
    then have "ch = char_int c" "pending argv opts st1 = parse_args opts ?args" "go_optarg st1 = Some cs" "weight argv st1 < weight argv s"
      using run k assms(4-7) by (auto simp: simps split: if_splits)
    then show ?thesis using assms(6,7) rest ch by auto
  next
    case after
    then have args: "?args = argv ! (go_optind s + 1) # drop (go_optind s + 2) argv" by (simp add: Cons_nth_drop_Suc)
    have "ch = char_int c" "pending argv opts st1 = parse_args opts (drop (go_optind s + 2) argv)" "go_optarg st1 = Some (argv ! (go_optind s + 1))"
      "weight argv st1 < weight argv s"
      using run k assms(4-7) after args by (auto simp: simps split: if_splits)
    then show ?thesis using assms(6,7) after args ch by auto
  next
    case missing
    then have args: "?args = []" by simp
    have "ch = (if take 1 opts = '':'' then 58 else 63)" "pending argv opts st1 = ([], [])" "go_optarg st1 = None" "weight argv st1 < weight argv s"
      using run k assms(4-7) missing by (auto simp: simps split: if_splits)
    then show ?thesis using assms(6,7) missing args by (auto simp: found_def)
  qed
qed

lemma getopt_step:
  assumes "cb_libc_getopt api argv opts st w = (ch, st1, w1)" "ascii opts"
  shows "ch = -1 \<and> pending argv opts st = ([], drop (go_optind st1) argv) \<or>
    ch \<noteq> -1 \<and> weight argv st1 < weight argv st \<and> pending argv opts st = found (ch, go_optarg st1) (pending argv opts st1)"
proof -
  let ?st = "st\<lparr>go_optarg := None\<rparr>"
  have same: "pending argv opts ?st = pending argv opts st" "weight argv ?st = weight argv st" by (simp_all add: pending_def weight_def)
  show ?thesis
  proof (cases "next_option argv ?st")
    case (Inl s)
    then show ?thesis using assms(1) next_option_pending(1) [OF Inl] same by (auto simp: cb_libc_getopt_def)
  next
    case (Inr s)
    note n = next_option_pending(2) [OF Inr, of opts]
    obtain c cs where c: "go_place s = c # cs" using n by (cases "go_place s") auto
    have none: "go_optarg s = None" using n by simp
    have "ch \<noteq> -1 \<and> weight argv st1 < weight argv s \<and>
        parse_cluster opts (c # cs) (drop (go_optind s + 1) argv) = found (ch, go_optarg st1) (pending argv opts st1)"
      using getopt_letter [OF assms Inr c none] getopt_argument [OF assms Inr c none] by blast
    then show ?thesis using n same pending_cluster [OF c] by simp
  qed
qed

lemma getopt_all_pending:
  assumes "weight argv st < n" "ascii opts"
  shows "\<exists>st' w'. getopt_all n api argv opts st w = Some (fst (pending argv opts st), st', w') \<and>
    drop (go_optind st') argv = snd (pending argv opts st)"
  using assms
proof (induction n arbitrary: st w)
  case (Suc n)
  obtain ch st1 w1 where g: "cb_libc_getopt api argv opts st w = (ch, st1, w1)" by (metis prod_cases3)
  from getopt_step [OF g Suc.prems(2)] show ?case
  proof (elim disjE conjE)
    assume "ch = -1" "pending argv opts st = ([], drop (go_optind st1) argv)"
    then show ?thesis using g by simp
  next
    assume s: "ch \<noteq> -1" "weight argv st1 < weight argv st" "pending argv opts st = found (ch, go_optarg st1) (pending argv opts st1)"
    then have "weight argv st1 < n" using Suc.prems(1) by simp
    from Suc.IH [OF this Suc.prems(2), of w1] show ?thesis using g s by (auto simp: found_def)
  qed
qed simp

text \<open>
  C16. A program that calls \<^verbatim>\<open>getopt\<close> until it returns -1 gets exactly the options of its command line, in order
  and with their arguments, as the reference reads them, and is left with \<^verbatim>\<open>optind\<close> at its first operand. The
  loop ends after at most as many calls as the arguments have characters, and one more.
\<close>

theorem getopt_parses:
  assumes "argv \<noteq> []" "ascii opts" "go_place st = []" "go_optind st = 1" "sum_list (map length (tl argv)) < n"
  shows "\<exists>st' w'. getopt_all n api argv opts st w = Some (fst (parse_args opts (tl argv)), st', w') \<and>
    drop (go_optind st') argv = snd (parse_args opts (tl argv))"
proof -
  have "pending argv opts st = parse_args opts (tl argv)" "weight argv st < n"
    using assms(1,3-5) by (simp_all add: pending_def weight_def drop_Suc)
  then show ?thesis using getopt_all_pending [of argv st n opts api w] assms(2) by simp
qed

text \<open>The command line \<^verbatim>\<open>head -n 3 -qv - x\<close>.\<close>

theorem getopt_parses_witness:
  "\<forall>(api :: cb_kernel libc_api) w. \<exists>st' w'. getopt_all 20 api [''head'', ''-n'', ''3'', ''-qv'', ''-'', ''x''] ''n:q''
     \<lparr>go_optind = 1, go_opterr = False, go_optopt = 0, go_optarg = None, go_place = []\<rparr> w =
       Some ([(110, Some ''3''), (113, None), (63, None)], st', w') \<and>
     drop (go_optind st') [''head'', ''-n'', ''3'', ''-qv'', ''-'', ''x''] = [''-'', ''x'']"
proof (intro allI)
  fix api :: "cb_kernel libc_api" and w
  let ?argv = "[''head'', ''-n'', ''3'', ''-qv'', ''-'', ''x'']"
  let ?st = "\<lparr>go_optind = 1, go_opterr = False, go_optopt = 0, go_optarg = None, go_place = []\<rparr>"
  have p: "parse_args ''n:q'' (tl ?argv) = ([(110, Some ''3''), (113, None), (63, None)], [''-'', ''x''])" by code_simp
  have "ascii ''n:q''" by (simp add: ascii_def)
  from getopt_parses [of ?argv, OF _ this, of ?st 20 api w, unfolded p]
  show "\<exists>st' w'. getopt_all 20 api ?argv ''n:q'' ?st w = Some ([(110, Some ''3''), (113, None), (63, None)], st', w') \<and>
      drop (go_optind st') ?argv = [''-'', ''x'']" by simp
qed

section \<open>Memory and flags\<close>

definition cb_libc_calloc :: "'w libc_api \<Rightarrow> nat \<Rightarrow> nat \<Rightarrow> 'w \<Rightarrow> (addr \<times> byte list) option \<times> 'w" where
  "cb_libc_calloc api count elem w =
     (if elem \<noteq> 0 \<and> count > SIZE_MAX div elem then (None, set_error api CB_ENOMEM w)
      else case ap_allocate api (count * elem) w of
             (None, w1) \<Rightarrow> (None, w1)
           | (Some p, w1) \<Rightarrow> (Some (p, replicate (count * elem) NUL), w1))"

definition cb_libc_free :: "'w libc_api \<Rightarrow> addr \<Rightarrow> 'w \<Rightarrow> 'w" where
  "cb_libc_free api p w = ap_set_errno api (ap_get_errno api w) (ap_release api p w)"

definition CB_LIBC_O_NONBLOCK :: int where "CB_LIBC_O_NONBLOCK = 0x0004"
definition CB_LIBC_O_APPEND :: int where "CB_LIBC_O_APPEND = 0x0008"
definition CB_LIBC_O_CREAT :: int where "CB_LIBC_O_CREAT = 0x0200"
definition CB_LIBC_O_TRUNC :: int where "CB_LIBC_O_TRUNC = 0x0400"
definition CB_LIBC_O_ACCMODE :: int where "CB_LIBC_O_ACCMODE = 0x0003"

unbundle bit_operations_syntax

text \<open>The flags of the library (those of NetBSD) become those of the runtime; other flags are refused.\<close>

definition translate_open_flags :: "int \<Rightarrow> int option" where
  "translate_open_flags flags =
     (let accepted = CB_LIBC_O_ACCMODE OR CB_LIBC_O_APPEND OR CB_LIBC_O_CREAT OR CB_LIBC_O_TRUNC OR CB_LIBC_O_NONBLOCK;
          mode = flags AND CB_LIBC_O_ACCMODE
      in if flags AND NOT accepted \<noteq> 0 then None
         else if mode \<noteq> 0 \<and> mode \<noteq> 1 \<and> mode \<noteq> 2 then None
         else Some ((if mode = 0 then CB_O_RDONLY else if mode = 1 then CB_O_WRONLY else CB_O_RDWR)
                    OR (if flags AND CB_LIBC_O_APPEND \<noteq> 0 then CB_O_APPEND else 0)
                    OR (if flags AND CB_LIBC_O_CREAT \<noteq> 0 then CB_O_CREAT else 0)
                    OR (if flags AND CB_LIBC_O_TRUNC \<noteq> 0 then CB_O_TRUNC else 0)))"

definition cb_libc_open :: "'w libc_api \<Rightarrow> string \<Rightarrow> int \<Rightarrow> int \<Rightarrow> 'w \<Rightarrow> int \<times> 'w" where
  "cb_libc_open api path flags mode w =
     (case translate_open_flags flags of
        None \<Rightarrow> (-1, set_error api CB_EINVAL w)
      | Some translated \<Rightarrow> ap_open api path translated (if flags AND CB_LIBC_O_CREAT \<noteq> 0 then mode mod 2 ^ 32 else 0) w)"

text \<open>The memory that \<^verbatim>\<open>calloc\<close> asks for is what the caller means: the product does not wrap.\<close>

lemma calloc_size: "cb_libc_calloc api count elem w = (Some (p, bytes), w') \<Longrightarrow> count * elem \<le> SIZE_MAX \<and> bytes = replicate (count * elem) NUL"
  by (cases "elem = 0") (auto simp: cb_libc_calloc_def less_eq_div_iff_mult_less_eq not_less split: if_splits option.splits prod.splits)

section \<open>Strings\<close>

text \<open>A string is the bytes before the NUL; a buffer is an array of bytes. The functions take no null pointers here.\<close>

fun strspn_loop :: "string \<Rightarrow> string \<Rightarrow> nat" where
  "strspn_loop [] charset = 0"
| "strspn_loop (c # s) charset = (if c \<in> set charset then Suc (strspn_loop s charset) else 0)"

definition cb_libc_strspn :: "string \<Rightarrow> string \<Rightarrow> nat" where
  "cb_libc_strspn s charset = strspn_loop s charset"

fun strcspn_loop :: "string \<Rightarrow> string \<Rightarrow> nat" where
  "strcspn_loop [] charset = 0"
| "strcspn_loop (c # s) charset = (if c \<in> set charset then 0 else Suc (strcspn_loop s charset))"

definition cb_libc_strcspn :: "string \<Rightarrow> string \<Rightarrow> nat" where
  "cb_libc_strcspn s charset = strcspn_loop s charset"

text \<open>\<^verbatim>\<open>strncat\<close> stores at the end of the string in the buffer.\<close>

fun append_loop :: "byte list \<Rightarrow> nat \<Rightarrow> string \<Rightarrow> nat \<Rightarrow> byte list \<times> nat" where
  "append_loop buf dest [] n = (buf, dest)"
| "append_loop buf dest (c # s2) n = (if n > 0 then append_loop (buf[dest := c]) (Suc dest) s2 (n - 1) else (buf, dest))"

definition cb_libc_strncat :: "byte list \<Rightarrow> string \<Rightarrow> nat \<Rightarrow> byte list" where
  "cb_libc_strncat buf s2 n = (case append_loop buf (length (c_string buf)) s2 n of (buf1, dest) \<Rightarrow> buf1[dest := NUL])"

definition cb_libc_strlcpy :: "byte list \<Rightarrow> string \<Rightarrow> nat \<Rightarrow> nat \<times> byte list" where
  "cb_libc_strlcpy dst src siz =
     (length src,
      if siz = 0 then dst
      else let copylen = (if length src \<ge> siz then siz - 1 else length src)
           in (memcpy_at dst 0 (take copylen src))[copylen := NUL])"

fun decimal_digits :: "nat \<Rightarrow> string" where
  "decimal_digits value = (if value = 0 then [] else char_of (48 + value mod 10) # decimal_digits (value div 10))"

declare decimal_digits.simps [simp del]

definition uint_to_decimal :: "nat \<Rightarrow> string" where
  "uint_to_decimal value = (if value = 0 then ''0'' else rev (decimal_digits value))"

definition cb_libc_user_from_uid :: "nat \<Rightarrow> bool \<Rightarrow> string option" where
  "cb_libc_user_from_uid uid nouser = (if nouser then None else Some (uint_to_decimal uid))"

definition cb_libc_group_from_gid :: "nat \<Rightarrow> bool \<Rightarrow> string option" where
  "cb_libc_group_from_gid gid nogroup = (if nogroup then None else Some (uint_to_decimal gid))"

text \<open>The last component of the name the program was started with.\<close>

fun last_component :: "string \<Rightarrow> string \<Rightarrow> string" where
  "last_component [] component = component"
| "last_component (c # name) component = last_component name (if c = slash then name else component)"

definition cb_libc_getprogname :: "'w libc_api \<Rightarrow> 'w \<Rightarrow> string option" where
  "cb_libc_getprogname api w = (case ap_getprogname api w of None \<Rightarrow> None | Some name \<Rightarrow> Some (last_component name name))"

lemma decimal_digits_eq: "0 < n \<Longrightarrow> rev (decimal_digits n) = decimal_nat n"
proof (induction n rule: decimal_digits.induct)
  case (1 n)
  then show ?case by (subst decimal_digits.simps, subst decimal_nat.simps) (cases "n < 10", auto simp: decimal_digits.simps)
qed

lemma uint_to_decimal_eq: "uint_to_decimal n = decimal_nat n"
proof (cases "n = 0")
  case True
  have "uint_to_decimal 0 = decimal_nat 0" by code_simp
  then show ?thesis using True by simp
qed (simp add: uint_to_decimal_def decimal_digits_eq)

lemma last_component_eq:
  "last_component name component = (if slash \<in> set name then rev (takeWhile (\<lambda>c. c \<noteq> slash) (rev name)) else component)"
proof (induction name component rule: last_component.induct)
  case (2 c name component)
  have "takeWhile (\<lambda>c. c \<noteq> slash) (rev name @ [c]) = takeWhile (\<lambda>c. c \<noteq> slash) (rev name)" if "slash \<in> set name"
    using that by (intro takeWhile_append1) auto
  moreover have "takeWhile (\<lambda>c. c \<noteq> slash) (rev name @ [slash]) = rev name" if "slash \<notin> set name"
    using that by (subst takeWhile_append2) auto
  ultimately show ?case using 2 by auto
qed simp

lemma strspn_eq: "cb_libc_strspn s charset = length (takeWhile (\<lambda>c. c \<in> set charset) s)"
  unfolding cb_libc_strspn_def by (induction s charset rule: strspn_loop.induct) auto

lemma strcspn_eq: "cb_libc_strcspn s charset = length (takeWhile (\<lambda>c. c \<notin> set charset) s)"
  unfolding cb_libc_strcspn_def by (induction s charset rule: strcspn_loop.induct) auto

lemma append_loop_eq:
  "dest + min n (length s2) \<le> length buf \<Longrightarrow> append_loop buf dest s2 n = (memcpy_at buf dest (take n s2), dest + min n (length s2))"
proof (induction buf dest s2 n rule: append_loop.induct)
  case (2 buf dest c s2 n)
  show ?case
  proof (cases n)
    case (Suc m)
    have "memcpy_at (buf[dest := c]) (Suc dest) (take m s2) = memcpy_at buf dest (c # take m s2)"
      using 2(2) Suc by (simp add: memcpy_at_def take_list_update_snoc)
    then show ?thesis using 2 Suc by simp
  qed simp
qed (simp add: memcpy_at_def)

lemma memcpy_terminated:
  assumes "p + length bytes < length dst"
  shows "(memcpy_at dst p bytes)[p + length bytes := NUL] = (take p dst @ bytes) @ NUL # drop (Suc (p + length bytes)) dst"
proof -
  have "memcpy_at dst p bytes = (take p dst @ bytes) @ dst ! (p + length bytes) # drop (Suc (p + length bytes)) dst"
    using assms by (simp add: memcpy_at_def Cons_nth_drop_Suc)
  moreover have "p + length bytes = length (take p dst @ bytes)" using assms by simp
  ultimately show ?thesis by (metis list_update_length)
qed

lemma strlcpy_memory:
  assumes "0 < siz" "siz \<le> length dst"
  shows "cb_libc_strlcpy dst src siz = (length src, take (siz - 1) src @ NUL # drop (Suc (min (siz - 1) (length src))) dst)"
proof -
  let ?n = "if length src \<ge> siz then siz - 1 else length src"
  have n: "?n = length (take (siz - 1) src)" "take ?n src = take (siz - 1) src" using assms(1) by auto
  have "0 + length (take (siz - 1) src) < length dst" using assms by auto
  from memcpy_terminated [OF this] show ?thesis
    using assms(1) n unfolding cb_libc_strlcpy_def Let_def by (simp add: min.commute)
qed

lemma c_string_terminated: "NUL \<notin> set xs \<Longrightarrow> c_string (xs @ NUL # ys) = xs"
  unfolding c_string_def by (subst takeWhile_append2) auto

text \<open>
  \<^verbatim>\<open>strncat\<close> appends at most \<open>n\<close> bytes: with room for the result and its NUL, the buffer holds the old
  string followed by the first \<open>n\<close> bytes of the other one, and nothing after the NUL has changed.
\<close>

theorem strncat_appends:
  assumes "length (c_string buf) + min n (length s2) < length buf" "NUL \<notin> set s2"
  shows "c_string (cb_libc_strncat buf s2 n) = c_string buf @ take n s2 \<and> length (cb_libc_strncat buf s2 n) = length buf \<and>
    drop (length (c_string buf) + min n (length s2) + 1) (cb_libc_strncat buf s2 n) = drop (length (c_string buf) + min n (length s2) + 1) buf"
proof -
  let ?p = "length (c_string buf)"
  have t: "take ?p buf = c_string buf" unfolding c_string_def by (rule takeWhile_eq_take [symmetric])
  let ?rest = "drop (Suc (?p + length (take n s2))) buf"
  have len: "?p + length (take n s2) < length buf" using assms(1) by (simp add: min.commute)
  have "append_loop buf ?p s2 n = (memcpy_at buf ?p (take n s2), ?p + length (take n s2))"
    using append_loop_eq [of ?p n s2 buf] assms(1) by (simp add: min.commute)
  then have r: "cb_libc_strncat buf s2 n = (c_string buf @ take n s2) @ NUL # ?rest"
    unfolding cb_libc_strncat_def using memcpy_terminated [OF len] t by (simp only: prod.case)
  have "NUL \<notin> set (c_string buf @ take n s2)"
    using assms(2) by (auto simp: c_string_def dest: set_takeWhileD in_set_takeD)
  then have "c_string (cb_libc_strncat buf s2 n) = c_string buf @ take n s2" unfolding r by (rule c_string_terminated)
  moreover have "length (cb_libc_strncat buf s2 n) = length buf" unfolding r using len by simp
  moreover have "?p + min n (length s2) + 1 = length ((c_string buf @ take n s2) @ [NUL])" by (simp add: min.commute)
  moreover have "drop (length ((c_string buf @ take n s2) @ [NUL])) (cb_libc_strncat buf s2 n) = ?rest" unfolding r by simp
  ultimately show ?thesis by simp
qed

theorem strncat_appends_witness: "c_string (cb_libc_strncat (''ab'' @ [NUL] @ ''xxxx'') ''cdef'' 3) = ''abcde''"
proof -
  have "c_string (''ab'' @ [NUL] @ ''xxxx'') = ''ab''" by code_simp
  then show ?thesis using strncat_appends [of "''ab'' @ [NUL] @ ''xxxx''" 3 "''cdef''"] by simp
qed

end
