(* ===== verification/Kernel_Libc.thy ===== *)
theory Kernel_Libc
  imports Kernel_Programs Libc_Props Libc_Text
begin

text \<open>
  The C library on this kernel: its table of calls is the kernel's, and with files behind descriptors 0 and
  1 it meets the contract the library was verified against.
\<close>

section \<open>The table of calls\<close>

fun pointer_result :: "result option \<Rightarrow> addr option" where
  "pointer_result (Some (R_pointer p)) = p"
| "pointer_result _ = None"

definition libc_kernel_api ::
  "(nat \<Rightarrow> cb_kernel \<Rightarrow> bool) \<Rightarrow> (cb_kernel \<Rightarrow> kernel_event list) \<Rightarrow> addr \<Rightarrow> cb_kernel libc_api" where
  "libc_kernel_api heap sched a = cb_api.extend (kernel_api heap sched a)
     \<lparr>ap_set_errno = (\<lambda>e k. snd (syscall sched a (C_set_errno e) k)),
      ap_allocate = (\<lambda>n k. on_result pointer_result (syscall sched a (C_allocate n) k)),
      ap_release = (\<lambda>p k. snd (syscall sched a (C_release (Some p)) k)),
      ap_getprogname = (\<lambda>k. case k_tasks k a of None \<Rightarrow> None | Some t \<Rightarrow> t_startup_name t), ap_has_stdio = True, ap_has_input = True, ap_has_streams = True\<rparr>"

lemma libc_kernel_api_fields [simp]:
  "cb_api.truncate (libc_kernel_api heap sched a) = kernel_api heap sched a"
  "ap_set_errno (libc_kernel_api heap sched a) = (\<lambda>e k. snd (syscall sched a (C_set_errno e) k))"
  "ap_get_errno (libc_kernel_api heap sched a) = ap_get_errno (kernel_api heap sched a)"
  "ap_open (libc_kernel_api heap sched a) = ap_open (kernel_api heap sched a)"
  "ap_close (libc_kernel_api heap sched a) = ap_close (kernel_api heap sched a)"
  "ap_allocate (libc_kernel_api heap sched a) = (\<lambda>n k. on_result pointer_result (syscall sched a (C_allocate n) k))"
  "ap_release (libc_kernel_api heap sched a) = (\<lambda>p k. snd (syscall sched a (C_release (Some p)) k))"
  "ap_has_stdio (libc_kernel_api heap sched a)" "ap_has_input (libc_kernel_api heap sched a)"
  "ap_has_streams (libc_kernel_api heap sched a)"
  by (simp_all add: libc_kernel_api_def cb_api.defs)

lemma set_errno_call:
  assumes "file_streams a f0 n0 f1 n1 k"
  shows "snd (syscall sched a (C_set_errno e) k) = cb_task_set_error k a e"
    "file_streams a f0 n0 f1 n1 (cb_task_set_error k a e)" "unread f0 n0 (cb_task_set_error k a e) = unread f0 n0 k"
    "file_content n1 (cb_task_set_error k a e) = file_content n1 k"
    "ap_get_errno (kernel_api heap sched a) (cb_task_set_error k a e) = e"
proof -
  have call: "do_call k a (C_set_errno e) = (Some R_void, cb_task_set_error k a e)" by simp
  show "snd (syscall sched a (C_set_errno e) k) = cb_task_set_error k a e" using streams_call(1) [OF assms call] by simp
  have f: "k_files (cb_task_set_error k a e) = k_files k" "k_vfs (cb_task_set_error k a e) = k_vfs k" "k_current (cb_task_set_error k a e) = k_current k"
    by simp_all
  show "file_streams a f0 n0 f1 n1 (cb_task_set_error k a e)"
    using assms streams_call(2) [OF assms call] f by (simp add: file_streams_def reads_from_def appends_to_def)
  show "unread f0 n0 (cb_task_set_error k a e) = unread f0 n0 k" "file_content n1 (cb_task_set_error k a e) = file_content n1 k"
    using f by (simp_all add: unread_def file_content_def)
  show "ap_get_errno (kernel_api heap sched a) (cb_task_set_error k a e) = e"
    using assms by (auto simp: file_streams_def fd_table_def kernel_api_def cb_task_set_error_def upd_task_def split: option.splits)
qed

lemma streams_errno:
  "file_streams a f0 n0 f1 n1 k \<Longrightarrow> map_option t_error (k_tasks k a) = Some (ap_get_errno (libc_kernel_api heap sched a) k)"
  by (auto simp: file_streams_def fd_table_def kernel_api_def split: option.splits)

interpretation libc_files: libc_streams "libc_kernel_api heap sched a" "file_streams a f0 n0 f1 n1" "unread f0 n0" "file_content n1"
  for heap sched a f0 n0 f1 n1
proof (rule libc_streams.intro)
  show "stream_calls (cb_api.truncate (libc_kernel_api heap sched a)) (file_streams a f0 n0 f1 n1) (unread f0 n0) (file_content n1)"
    by (simp add: kernel_files.stream_calls_axioms)
qed (simp_all add: set_errno_call)

section \<open>Formatted output\<close>

text \<open>
  C9. \<^verbatim>\<open>printf\<close> on the kernel, with a file as standard output: for a format and arguments that have a text,
  the file grows by exactly that text, its length is returned and the error number is as before; or
  memory ran out after a part of the text, which \<^verbatim>\<open>printf\<close> reports with -1, \<^verbatim>\<open>ENOMEM\<close> and the error flag of the
  stream.
\<close>

theorem printf_renders:
  assumes "file_streams a f0 n0 f1 n1 k" "\<not> so_stdout_closed s" "render format args = Some out"
    "int (length (file_content n1 k) + length out) \<le> INT64_MAX" "int (length out) \<le> INT_MAX"
    "cb_libc_printf (libc_kernel_api heap sched a) (Some format) args s k = (result, s', k')"
  shows "result = Some (int (length out)) \<and> s' = s \<and> file_content n1 k' = file_content n1 k @ out \<and>
      map_option t_error (k_tasks k' a) = map_option t_error (k_tasks k a) \<or>
    result = Some (-1) \<and> so_stdout_error s' \<and> (\<exists>p. prefix p out \<and> file_content n1 k' = file_content n1 k @ p) \<and>
      map_option t_error (k_tasks k' a) = Some (errno_value CB_ENOMEM)"
proof -
  let ?api = "libc_kernel_api heap sched a"
  have r: "format_loop ?api 1 format args 0 s k = (result, s', k')" using assms(6) by (simp add: cb_libc_printf_def format_output_def)
  have "libc_files.room a f0 n0 f1 n1 out 0 s k" using assms(1,2,4,5) by (simp add: libc_files.room_def)
  from libc_files.format_loop_out [OF assms(3) this, of heap sched, unfolded r]
  have o: "result = Some (int (length out)) \<and> libc_files.outputs heap sched a f0 n0 f1 n1 out s k True s' k' \<or>
      result = Some (-1) \<and> libc_files.outputs heap sched a f0 n0 f1 n1 out s k False s' k'" by (simp add: libc_files.says_def)
  note e = streams_errno [where heap = heap and sched = sched]
  have ok: "file_streams a f0 n0 f1 n1 k'" using o by (auto simp: libc_files.outputs_def)
  show ?thesis using o unfolding e [OF ok] e [OF assms(1)] by (auto simp: libc_files.outputs_def)
qed

theorem printf_renders_witness:
  "\<exists>r s' k'. cb_libc_printf (libc_kernel_api (\<lambda>_ _. True) (\<lambda>_. []) 12) (Some ''%3d|%s'') [A_int (-7), A_string (Some ''x'')]
       stdio_new (with_data 26 ''hi'' files_kernel) = (r, s', k') \<and>
     (r = Some 5 \<and> file_content 29 k' = '' -7|x'' \<or> r = Some (-1))"
proof -
  let ?k = "with_data 26 ''hi'' files_kernel" and ?args = "[A_int (-7), A_string (Some ''x'')]"
  have w: "file_content 29 ?k = []" using files_kernel_ready by (simp add: files_ready_def)
  have t: "render ''%3d|%s'' ?args = Some '' -7|x''" by code_simp
  obtain r s' k' where r: "cb_libc_printf (libc_kernel_api (\<lambda>_ _. True) (\<lambda>_. []) 12) (Some ''%3d|%s'') ?args stdio_new ?k = (r, s', k')"
    by (metis prod_cases3)
  have open_out: "\<not> so_stdout_closed stdio_new" by (simp add: stdio_new_def)
  have sz: "int (length (file_content 29 ?k) + length '' -7|x'') \<le> INT64_MAX" "int (length '' -7|x'') \<le> INT_MAX"
    unfolding w by (simp_all add: INT64_MAX_def INT_MAX_def)
  from printf_renders [OF files_kernel_streams open_out t sz r] w show ?thesis using r by auto
qed

section \<open>Reading\<close>

text \<open>
  C11. \<^verbatim>\<open>fread\<close> on standard input, with a file behind it: it returns the next bytes of the file, as many as were
  asked for or as there are, counts the complete elements among them, and sets the end-of-file flag exactly
  when fewer than asked for were there. The error number stays as it was.
\<close>

theorem fread_reads:
  assumes "file_streams a f0 n0 f1 n1 k" "\<not> so_stdin_closed s" "\<not> so_stdin_eof s" "elem * count \<le> SIZE_MAX" "0 < elem" "0 < count"
    "cb_libc_fread (libc_kernel_api heap sched a) False elem count Stdin s k = ((n, bytes), s', k')"
  shows "bytes = take (elem * count) (unread f0 n0 k) \<and> n = length bytes div elem \<and> unread f0 n0 k = bytes @ unread f0 n0 k' \<and>
    s' = s\<lparr>so_stdin_eof := (length bytes < elem * count)\<rparr> \<and> file_content n1 k' = file_content n1 k \<and>
    map_option t_error (k_tasks k' a) = map_option t_error (k_tasks k a)"
proof -
  note r = libc_files.fread_in [OF assms]
  then have "map_option t_error (k_tasks k' a) = map_option t_error (k_tasks k a)" using streams_errno assms(1) by metis
  then show ?thesis using r by blast
qed

theorem fread_reads_witness:
  "\<exists>s' k'. cb_libc_fread (libc_kernel_api (\<lambda>_ _. True) (\<lambda>_. []) 12) False 1 5 Stdin stdio_new (with_data 26 ''hi'' files_kernel) =
       ((2, ''hi''), s', k') \<and> so_stdin_eof s'"
proof -
  let ?k = "with_data 26 ''hi'' files_kernel"
  have u: "unread 28 26 ?k = ''hi''" using files_kernel_ready by (simp add: files_ready_def)
  obtain n bytes s' k' where r: "cb_libc_fread (libc_kernel_api (\<lambda>_ _. True) (\<lambda>_. []) 12) False 1 5 Stdin stdio_new ?k = ((n, bytes), s', k')"
    by (metis prod.collapse)
  have s: "\<not> so_stdin_closed stdio_new" "\<not> so_stdin_eof stdio_new" "1 * 5 \<le> SIZE_MAX" by (simp_all add: stdio_new_def SIZE_MAX_def)
  have pos: "0 < (1 :: nat)" "0 < (5 :: nat)" by simp_all
  note f = fread_reads [OF files_kernel_streams s pos r, unfolded u]
  then have "bytes = take (1 * 5) ''hi''" "n = length bytes div 1" "s' = stdio_new\<lparr>so_stdin_eof := (length bytes < 1 * 5)\<rparr>" by blast+
  then have "bytes = ''hi''" "n = 2" "so_stdin_eof s'" by simp_all
  then show ?thesis using r by blast
qed

section \<open>Opening and closing\<close>

lemma quiet_libc_calls:
  "keeps_table a (\<lambda>T T'. T' = T) k (snd (syscall sched a (C_set_errno e) k))"
  "keeps_table a (\<lambda>T T'. T' = T) k (snd (syscall sched a (C_release p) k))"
  "keeps_table a (\<lambda>T T'. T' = T) k (snd (on_result f (syscall sched a (C_allocate n) k)))"
  by (simp_all add: syscall_quiet on_result_def)

lemma same_errno_quiet: "keeps_table a (\<lambda>T T'. T' = T) k (same_errno (libc_kernel_api heap sched a) k)"
  by (simp add: same_errno_def quiet_libc_calls)

lemma fopen_opens:
  assumes "cb_libc_fopen (libc_kernel_api heap sched a) path mode s k = (Opened p, s1, k1)"
  shows "\<exists>d. s1 = s\<lparr>so_input_streams := (p, \<lparr>lf_descriptor = d, lf_eof = False, lf_error = False\<rparr>) # so_input_streams s\<rparr> \<and>
    0 \<le> d \<and> keeps_table a (\<lambda>T T'. opened T d T') k k1"
proof -
  let ?api = "libc_kernel_api heap sched a" and ?w = "same_errno (libc_kernel_api heap sched a) k"
  obtain fname where f: "path = Some fname" "mode = Some ''r'' \<or> mode = Some ''rb''"
    using assms by (auto simp: cb_libc_fopen_def split: option.splits if_splits)
  obtain d w2 where d: "ap_open (kernel_api heap sched a) fname CB_O_RDONLY 0 ?w = (d, w2)" by fastforce
  obtain x w3 where x: "on_result pointer_result (syscall sched a (C_allocate sizeof_cb_libc_file) w2) = (x, w3)" by fastforce
  have r: "0 \<le> d" "x = Some p" "s1 = s\<lparr>so_input_streams := (p, \<lparr>lf_descriptor = d, lf_eof = False, lf_error = False\<rparr>) # so_input_streams s\<rparr>"
    "k1 = snd (syscall sched a (C_set_errno (ap_get_errno ?api k)) w3)"
    using assms f d x by (auto simp: cb_libc_fopen_def Let_def split: if_splits option.splits)
  have 1: "keeps_table a (\<lambda>T T'. opened T d T') k w2" by (rule kernel_calls.kp_trans [OF same_errno_quiet kernel_calls.law_open [OF d]]) simp
  have 2: "keeps_table a (\<lambda>T T'. opened T d T') k w3" using kernel_calls.kp_same [OF 1] quiet_libc_calls(3) x by (metis snd_conv)
  have "keeps_table a (\<lambda>T T'. opened T d T') k k1" unfolding r(4) by (rule kernel_calls.kp_same [OF 2 quiet_libc_calls(1)])
  then show ?thesis using r(1,3) by blast
qed

lemma fclose_closes:
  assumes "cb_libc_fclose (libc_kernel_api heap sched a) (Opened p) s k = (r, s1, k1)" "find_input_stream s p = Some ref"
  shows "s1 = s\<lparr>so_input_streams := unlink_stream p (so_input_streams s)\<rparr> \<and>
    keeps_table a (\<lambda>T T'. T' = T(lf_descriptor ref := None)) k k1"
proof -
  let ?api = "libc_kernel_api heap sched a" and ?w = "same_errno (libc_kernel_api heap sched a) k"
  obtain c w2 where c: "ap_close (kernel_api heap sched a) (lf_descriptor ref) ?w = (c, w2)" by fastforce
  let ?w3 = "snd (syscall sched a (C_release (Some p)) w2)"
  have r: "s1 = s\<lparr>so_input_streams := unlink_stream p (so_input_streams s)\<rparr>"
    "k1 = snd (syscall sched a (C_set_errno (if c < 0 then ap_get_errno ?api w2 else ap_get_errno ?api k)) ?w3)"
    using assms c by (auto simp: cb_libc_fclose_def close_result_def Let_def)
  have 1: "keeps_table a (\<lambda>T T'. T' = T(lf_descriptor ref := None)) k w2"
    by (rule kernel_calls.kp_trans [OF same_errno_quiet kernel_calls.law_close [OF c]]) simp
  show ?thesis unfolding r(2)
    using r(1) kernel_calls.kp_same [OF kernel_calls.kp_same [OF 1 quiet_libc_calls(2)] quiet_libc_calls(1)] by blast
qed

text \<open>
  C10. \<^verbatim>\<open>fclose\<close> undoes \<^verbatim>\<open>fopen\<close>, on the kernel: after a file was opened and its stream closed again, the list of
  streams and the flags of the library and the table of descriptors of the task are as before, whatever
  other tasks did meanwhile; in between, the stream stands for one new descriptor.
\<close>

theorem fclose_undoes_fopen:
  assumes "kernel_inv k" "cb_libc_fopen (libc_kernel_api heap sched a) path mode s k = (Opened p, s1, k1)"
    "cb_libc_fclose (libc_kernel_api heap sched a) (Opened p) s1 k1 = (r, s2, k2)" "k_current k2 = Some a"
  shows "s2 = s \<and> fd_table a k2 = fd_table a k \<and>
    (\<exists>d f. find_input_stream s1 p = Some \<lparr>lf_descriptor = d, lf_eof = False, lf_error = False\<rparr> \<and>
       fd_table a k d = None \<and> fd_table a k1 = (fd_table a k)(d \<mapsto> f))"
proof -
  obtain d where d: "s1 = s\<lparr>so_input_streams := (p, \<lparr>lf_descriptor = d, lf_eof = False, lf_error = False\<rparr>) # so_input_streams s\<rparr>"
    "0 \<le> d" "keeps_table a (\<lambda>T T'. opened T d T') k k1" using fopen_opens [OF assms(2)] by blast
  have f: "find_input_stream s1 p = Some \<lparr>lf_descriptor = d, lf_eof = False, lf_error = False\<rparr>" using d(1) by (simp add: find_input_stream_def)
  have c: "s2 = s1\<lparr>so_input_streams := unlink_stream p (so_input_streams s1)\<rparr>" "keeps_table a (\<lambda>T T'. T' = T(d := None)) k1 k2"
    using fclose_closes [OF assms(3) f] by simp_all
  have "opened (fd_table a k) d (fd_table a k1)" "fd_table a k2 = (fd_table a k1)(d := None)"
    using d(3) c(2) assms(1,4) by (auto simp: keeps_def running_def)
  then show ?thesis using d(1,2) c(1) f by (auto simp: opened_def fun_upd_idem)
qed

text \<open>Opening and closing a file of the example, in one go.\<close>

definition open_close :: "cb_kernel libc_api \<Rightarrow> string \<Rightarrow> cb_kernel \<Rightarrow> (addr \<times> int \<times> addr option) option" where
  "open_close api path k =
     (case cb_libc_fopen api (Some path) (Some ''r'') stdio_new k of
        (Opened p, s1, k1) \<Rightarrow> (case cb_libc_fclose api (Opened p) s1 k1 of (r, s2, k2) \<Rightarrow> Some (p, r, k_current k2))
      | _ \<Rightarrow> None)"

theorem fclose_undoes_fopen_witness:
  "\<exists>p s1 k1 s2 k2. cb_libc_fopen (libc_kernel_api (\<lambda>_ _. True) (\<lambda>_. []) 12) (Some ''in'') (Some ''r'') stdio_new files_kernel = (Opened p, s1, k1) \<and>
     cb_libc_fclose (libc_kernel_api (\<lambda>_ _. True) (\<lambda>_. []) 12) (Opened p) s1 k1 = (0, s2, k2) \<and>
     s2 = stdio_new \<and> fd_table 12 k2 = fd_table 12 files_kernel"
proof -
  let ?api = "libc_kernel_api (\<lambda>_ _. True) (\<lambda>_. []) 12"
  have inv: "kernel_inv files_kernel" unfolding files_kernel_def by (rule kernel_machine.invar_run [OF pair_kernel_inv(1)])
  have "map_option snd (open_close ?api ''in'' files_kernel) = Some (0, Some 12)" by code_simp
  then obtain p s1 k1 r s2 k2 where o: "cb_libc_fopen ?api (Some ''in'') (Some ''r'') stdio_new files_kernel = (Opened p, s1, k1)"
    "cb_libc_fclose ?api (Opened p) s1 k1 = (r, s2, k2)" "r = 0" "k_current k2 = Some 12"
    by (auto simp: open_close_def split: prod.splits cb_stream.splits)
  from fclose_undoes_fopen [OF inv o(1,2,4)] o show ?thesis by blast
qed

end
