(* ===== verification/Libc_Calls.thy ===== *)
theory Libc_Calls
  imports Libc_Format Libc_Text "HOL-Library.Word"
begin

text \<open>
  The rest of \<^verbatim>\<open>libc/cb_libc.c\<close>: the functions that pass a call of the program on to the runtime, the
  translation of \<^verbatim>\<open>stat\<close>, streams of directory entries, diagnostics, \<^verbatim>\<open>setlocale\<close>, and the functions that
  describe a mode.
\<close>

unbundle bit_operations_syntax

section \<open>The calls\<close>

text \<open>
  The calls that the library makes here, beside those of \<open>libc_api\<close>. A runtime may be older than the library,
  so that its table ends before some of them, or lacks their function: such a call is \<open>None\<close>. Of \<^verbatim>\<open>stat\<close>, no
  status stands for a negative result; \<open>ap_stat_metadata\<close> says whether the runtime fills the later half of
  the status. A directory entry is its name, its inode and its type; the empty name marks the end.
\<close>

record 'w unix_api =
  libc :: "'w libc_api"
  ap_exit :: "int \<Rightarrow> 'w \<Rightarrow> 'w"
  ap_truncate :: "string \<Rightarrow> int \<Rightarrow> 'w \<Rightarrow> int \<times> 'w"
  ap_ftruncate :: "int \<Rightarrow> int \<Rightarrow> 'w \<Rightarrow> int \<times> 'w"
  ap_lseek :: "int \<Rightarrow> int \<Rightarrow> int \<Rightarrow> 'w \<Rightarrow> int \<times> 'w"
  ap_stat :: "string \<Rightarrow> 'w \<Rightarrow> cb_stat option \<times> 'w"
  ap_fstat :: "int \<Rightarrow> 'w \<Rightarrow> cb_stat option \<times> 'w"
  ap_stat_metadata :: bool
  ap_unlink :: "(string \<Rightarrow> 'w \<Rightarrow> int \<times> 'w) option"
  ap_mkdir :: "(string \<Rightarrow> nat \<Rightarrow> 'w \<Rightarrow> int \<times> 'w) option"
  ap_rmdir :: "(string \<Rightarrow> 'w \<Rightarrow> int \<times> 'w) option"
  ap_rename :: "(string \<Rightarrow> string \<Rightarrow> 'w \<Rightarrow> int \<times> 'w) option"
  ap_isatty :: "(int \<Rightarrow> 'w \<Rightarrow> int \<times> 'w) option"
  ap_opendir :: "(string \<Rightarrow> 'w \<Rightarrow> int \<times> 'w) option"
  ap_readdir :: "(int \<Rightarrow> nat \<Rightarrow> 'w \<Rightarrow> (string \<times> nat \<times> node_type) option \<times> 'w) option"
  ap_closedir :: "(int \<Rightarrow> 'w \<Rightarrow> int \<times> 'w) option"

abbreviation fail_with :: "'w unix_api \<Rightarrow> cb_error \<Rightarrow> 'w \<Rightarrow> int \<times> 'w" where
  "fail_with api e w \<equiv> (-1, set_error (libc api) e w)"

text \<open>A function on a path that may be null, by a call the runtime may lack.\<close>

definition path_function :: "'w unix_api \<Rightarrow> (string \<Rightarrow> 'w \<Rightarrow> int \<times> 'w) option \<Rightarrow> string option \<Rightarrow> 'w \<Rightarrow> int \<times> 'w" where
  "path_function api f path w =
     (case path of
        None \<Rightarrow> fail_with api CB_EFAULT w
      | Some p \<Rightarrow> (case f of None \<Rightarrow> fail_with api CB_ENOSYS w | Some g \<Rightarrow> g p w))"

definition cb_libc_start :: "bool \<Rightarrow> ('w \<Rightarrow> int \<times> 'w) option \<Rightarrow> 'w \<Rightarrow> int \<times> 'w" where
  "cb_libc_start usable main w = (if \<not> usable then (126, w) else case main of None \<Rightarrow> (126, w) | Some m \<Rightarrow> m w)"

definition cb_libc_truncate :: "'w unix_api \<Rightarrow> string \<Rightarrow> int \<Rightarrow> 'w \<Rightarrow> int \<times> 'w" where
  "cb_libc_truncate api path len w = ap_truncate api path len w"

definition cb_libc_ftruncate :: "'w unix_api \<Rightarrow> int \<Rightarrow> int \<Rightarrow> 'w \<Rightarrow> int \<times> 'w" where
  "cb_libc_ftruncate api d len w = ap_ftruncate api d len w"

definition cb_libc_lseek :: "'w unix_api \<Rightarrow> int \<Rightarrow> int \<Rightarrow> int \<Rightarrow> 'w \<Rightarrow> int \<times> 'w" where
  "cb_libc_lseek api d offset whence w = ap_lseek api d offset whence w"

definition cb_libc_unlink :: "'w unix_api \<Rightarrow> string option \<Rightarrow> 'w \<Rightarrow> int \<times> 'w" where
  "cb_libc_unlink api path w = path_function api (ap_unlink api) path w"

definition cb_libc_rmdir :: "'w unix_api \<Rightarrow> string option \<Rightarrow> 'w \<Rightarrow> int \<times> 'w" where
  "cb_libc_rmdir api path w = path_function api (ap_rmdir api) path w"

definition cb_libc_mkdir :: "'w unix_api \<Rightarrow> string option \<Rightarrow> nat \<Rightarrow> 'w \<Rightarrow> int \<times> 'w" where
  "cb_libc_mkdir api path mode w = path_function api (map_option (\<lambda>f p. f p mode) (ap_mkdir api)) path w"

definition cb_libc_rename :: "'w unix_api \<Rightarrow> string option \<Rightarrow> string option \<Rightarrow> 'w \<Rightarrow> int \<times> 'w" where
  "cb_libc_rename api old new w =
     (case new of
        None \<Rightarrow> fail_with api CB_EFAULT w
      | Some q \<Rightarrow> path_function api (map_option (\<lambda>f p. f p q) (ap_rename api)) old w)"

definition cb_libc_isatty :: "'w unix_api \<Rightarrow> int \<Rightarrow> 'w \<Rightarrow> int \<times> 'w" where
  "cb_libc_isatty api d w =
     (case ap_isatty api of None \<Rightarrow> (0, set_error (libc api) CB_ENOSYS w) | Some f \<Rightarrow> f d w)"

section \<open>The status of a file\<close>

definition S_IFMT :: nat where "S_IFMT = 0xF000"
definition S_IFIFO :: nat where "S_IFIFO = 0x1000"
definition S_IFCHR :: nat where "S_IFCHR = 0x2000"
definition S_IFDIR :: nat where "S_IFDIR = 0x4000"
definition S_IFBLK :: nat where "S_IFBLK = 0x6000"
definition S_IFREG :: nat where "S_IFREG = 0x8000"
definition S_IFLNK :: nat where "S_IFLNK = 0xA000"
definition S_IFSOCK :: nat where "S_IFSOCK = 0xC000"
definition S_IFWHT :: nat where "S_IFWHT = 0xE000"

lemmas S_IF_defs = S_IFMT_def S_IFIFO_def S_IFCHR_def S_IFDIR_def S_IFBLK_def S_IFREG_def S_IFLNK_def S_IFSOCK_def S_IFWHT_def

record unix_stat =
  us_dev :: nat
  us_ino :: nat
  us_mode :: nat
  us_nlink :: nat
  us_uid :: nat
  us_gid :: nat
  us_rdev :: nat
  us_size :: int
  us_atime :: "int \<times> int"
  us_mtime :: "int \<times> int"
  us_ctime :: "int \<times> int"
  us_blksize :: int
  us_blocks :: int
  us_flags :: nat

text \<open>What \<^verbatim>\<open>calloc\<close> leaves in a status.\<close>

definition stat_zero :: unix_stat where
  "stat_zero = \<lparr>us_dev = 0, us_ino = 0, us_mode = 0, us_nlink = 0, us_uid = 0, us_gid = 0, us_rdev = 0, us_size = 0,
     us_atime = (0, 0), us_mtime = (0, 0), us_ctime = (0, 0), us_blksize = 0, us_blocks = 0, us_flags = 0\<rparr>"

fun type_bits :: "node_type \<Rightarrow> nat" where
  "type_bits CB_NODE_REGULAR = S_IFREG"
| "type_bits CB_NODE_EXECUTABLE = S_IFREG"
| "type_bits CB_NODE_DIRECTORY = S_IFDIR"
| "type_bits CB_NODE_TERMINAL = S_IFCHR"
| "type_bits CB_NODE_PIPE = S_IFIFO"

definition timespec_of :: "nat \<Rightarrow> int \<times> int" where
  "timespec_of ms = (int (ms div 1000), int (ms mod 1000 * 1000000))"

definition translate_stat :: "bool \<Rightarrow> cb_stat \<Rightarrow> unix_stat" where
  "translate_stat metadata raw =
     \<lparr>us_dev = (if metadata then st_device raw else 1), us_ino = st_inode raw,
      us_mode = type_bits (st_type raw) OR (st_mode raw AND 0xFFF),
      us_nlink = (if metadata then st_nlink raw else 1),
      us_uid = (if metadata then st_uid raw else 0), us_gid = (if metadata then st_gid raw else 0), us_rdev = 0,
      us_size = to_off (int (st_size raw)),
      us_atime = (if metadata then timespec_of (st_atime_ms raw) else (0, 0)),
      us_mtime = (if metadata then timespec_of (st_mtime_ms raw) else (0, 0)),
      us_ctime = (if metadata then timespec_of (st_ctime_ms raw) else (0, 0)),
      us_blksize = 1024, us_blocks = 0, us_flags = 0\<rparr>"

definition cb_libc_stat :: "'w unix_api \<Rightarrow> string option \<Rightarrow> 'w \<Rightarrow> unix_stat option \<times> 'w" where
  "cb_libc_stat api path w =
     (case path of
        None \<Rightarrow> (None, set_error (libc api) CB_EFAULT w)
      | Some p \<Rightarrow> (case ap_stat api p w of (r, w1) \<Rightarrow> (map_option (translate_stat (ap_stat_metadata api)) r, w1)))"

definition cb_libc_fstat :: "'w unix_api \<Rightarrow> int \<Rightarrow> 'w \<Rightarrow> unix_stat option \<times> 'w" where
  "cb_libc_fstat api d w = (case ap_fstat api d w of (r, w1) \<Rightarrow> (map_option (translate_stat (ap_stat_metadata api)) r, w1))"

definition cb_libc_lstat :: "'w unix_api \<Rightarrow> string option \<Rightarrow> 'w \<Rightarrow> unix_stat option \<times> 'w" where
  "cb_libc_lstat api path w = cb_libc_stat api path w"

definition cb_libc_access :: "'w unix_api \<Rightarrow> string option \<Rightarrow> int \<Rightarrow> 'w \<Rightarrow> int \<times> 'w" where
  "cb_libc_access api path mode w =
     (case path of
        None \<Rightarrow> fail_with api CB_EFAULT w
      | Some p \<Rightarrow> (case ap_stat api p w of (r, w1) \<Rightarrow> (if r = None then -1 else 0, w1)))"

definition S_ISDIR :: "nat \<Rightarrow> bool" where
  "S_ISDIR mode \<longleftrightarrow> mode AND S_IFMT = S_IFDIR"

section \<open>Directory streams\<close>

text \<open>
  A directory stream is a block of memory and the descriptor it holds. An entry of the stream is returned by value:
  its inode, its type (\<^verbatim>\<open>DT_UNKNOWN\<close>, \<^verbatim>\<open>DT_REG\<close>, \<^verbatim>\<open>DT_DIR\<close> are 0, 1, 2) and its name.
\<close>

record cb_libc_dir =
  ld_block :: addr
  ld_descriptor :: int

record dirent =
  de_ino :: nat
  de_type :: nat
  de_name :: string

definition sizeof_cb_libc_dir :: nat where
  "sizeof_cb_libc_dir = 1048"

definition cb_libc_opendir :: "'w unix_api \<Rightarrow> string \<Rightarrow> 'w \<Rightarrow> cb_libc_dir option \<times> 'w" where
  "cb_libc_opendir api path w =
     (case (ap_opendir api, ap_closedir api) of
        (Some open_dir, Some close_dir) \<Rightarrow>
          (case open_dir path w of
             (d, w1) \<Rightarrow>
               if d < 0 then (None, w1)
               else case ap_allocate (libc api) sizeof_cb_libc_dir w1 of
                      (None, w2) \<Rightarrow> (None, set_error (libc api) CB_ENOMEM (snd (close_dir d w2)))
                    | (Some p, w2) \<Rightarrow> (Some \<lparr>ld_block = p, ld_descriptor = d\<rparr>, w2))
      | _ \<Rightarrow> (None, set_error (libc api) CB_ENOSYS w))"

fun dirent_type :: "node_type \<Rightarrow> nat" where
  "dirent_type CB_NODE_REGULAR = 1"
| "dirent_type CB_NODE_DIRECTORY = 2"
| "dirent_type _ = 0"

definition cb_libc_readdir :: "'w unix_api \<Rightarrow> cb_libc_dir option \<Rightarrow> 'w \<Rightarrow> dirent option \<times> 'w" where
  "cb_libc_readdir api dirp w =
     (case dirp of
        None \<Rightarrow> (None, set_error (libc api) CB_EBADF w)
      | Some dir \<Rightarrow>
          (case ap_readdir api of
             None \<Rightarrow> (None, set_error (libc api) CB_ENOSYS w)
           | Some read_dir \<Rightarrow>
               (case read_dir (ld_descriptor dir) CB_PATH_MAX w of
                  (None, w1) \<Rightarrow> (None, w1)
                | (Some (name, inode, type), w1) \<Rightarrow>
                    if name = [] then (None, w1)
                    else (Some \<lparr>de_ino = inode, de_type = dirent_type type, de_name = name\<rparr>, w1))))"

definition cb_libc_closedir :: "'w unix_api \<Rightarrow> cb_libc_dir option \<Rightarrow> 'w \<Rightarrow> int \<times> 'w" where
  "cb_libc_closedir api dirp w =
     (case dirp of
        None \<Rightarrow> fail_with api CB_EBADF w
      | Some dir \<Rightarrow>
          (case ap_closedir api of
             None \<Rightarrow> fail_with api CB_ENOSYS w
           | Some close_dir \<Rightarrow>
               (case close_dir (ld_descriptor dir) w of
                  (result, w1) \<Rightarrow> (result, ap_release (libc api) (ld_block dir) w1))))"

section \<open>Diagnostics\<close>

text \<open>
  The messages of \<^verbatim>\<open>warn\<close>, \<^verbatim>\<open>warnx\<close>, \<^verbatim>\<open>err\<close> and \<^verbatim>\<open>errx\<close> are written to descriptor 2 in pieces, whose results are
  not looked at. No result: the arguments do not fit the format.
\<close>

definition put_diagnostic :: "'w unix_api \<Rightarrow> string \<Rightarrow> stdio \<times> 'w \<Rightarrow> stdio \<times> 'w" where
  "put_diagnostic api piece = (\<lambda>(s, w). snd (libc_write_all (libc api) 2 piece s w))"

definition put_program :: "'w unix_api \<Rightarrow> string option \<Rightarrow> stdio \<times> 'w \<Rightarrow> stdio \<times> 'w" where
  "put_program api name x = put_diagnostic api '': '' (put_diagnostic api (case name of None \<Rightarrow> [] | Some n \<Rightarrow> n) x)"

definition put_formatted :: "'w unix_api \<Rightarrow> string option \<Rightarrow> argument list \<Rightarrow> stdio \<times> 'w \<Rightarrow> (stdio \<times> 'w) option" where
  "put_formatted api fmt args =
     (\<lambda>(s, w). case format_output (libc api) 2 fmt args s w of (None, _) \<Rightarrow> None | (Some _, x) \<Rightarrow> Some x)"

definition put_reason :: "'w unix_api \<Rightarrow> string option \<Rightarrow> argument list \<Rightarrow> string \<Rightarrow> stdio \<times> 'w \<Rightarrow> (stdio \<times> 'w) option" where
  "put_reason api fmt args reason x =
     map_option (\<lambda>y. put_diagnostic api [newline] (put_diagnostic api reason y))
       (if fmt = None then Some x else map_option (put_diagnostic api '': '') (put_formatted api fmt args x))"

definition cb_libc_warn :: "'w unix_api \<Rightarrow> string option \<Rightarrow> argument list \<Rightarrow> stdio \<Rightarrow> 'w \<Rightarrow> (stdio \<times> 'w) option" where
  "cb_libc_warn api fmt args s w =
     (let saved_error = ap_get_errno (libc api) w
      in map_option (apsnd (ap_set_errno (libc api) saved_error))
           (put_reason api fmt args (ap_strerror (libc api) saved_error)
              (put_program api (ap_getprogname (libc api) w) (s, w))))"

definition cb_libc_warnx :: "'w unix_api \<Rightarrow> string option \<Rightarrow> argument list \<Rightarrow> stdio \<Rightarrow> 'w \<Rightarrow> (stdio \<times> 'w) option" where
  "cb_libc_warnx api fmt args s w =
     (let saved_error = ap_get_errno (libc api) w; x = put_program api (ap_getprogname (libc api) w) (s, w)
      in map_option (\<lambda>y. apsnd (ap_set_errno (libc api) saved_error) (put_diagnostic api [newline] y))
           (if fmt = None then Some x else put_formatted api fmt args x))"

definition cb_libc_err :: "'w unix_api \<Rightarrow> int \<Rightarrow> string option \<Rightarrow> argument list \<Rightarrow> stdio \<Rightarrow> 'w \<Rightarrow> (stdio \<times> 'w) option" where
  "cb_libc_err api eval fmt args s w =
     map_option (apsnd (ap_exit api eval))
       (put_reason api fmt args (ap_strerror (libc api) (ap_get_errno (libc api) w))
          (put_program api (ap_getprogname (libc api) w) (s, w)))"

definition cb_libc_errx :: "'w unix_api \<Rightarrow> int \<Rightarrow> string option \<Rightarrow> argument list \<Rightarrow> stdio \<Rightarrow> 'w \<Rightarrow> (stdio \<times> 'w) option" where
  "cb_libc_errx api eval fmt args s w =
     map_option (\<lambda>y. apsnd (ap_exit api eval) (put_diagnostic api [newline] y))
       (put_formatted api fmt args (put_program api (ap_getprogname (libc api) w) (s, w)))"

section \<open>The locale\<close>

definition locale_is_c :: "string \<Rightarrow> bool" where
  "locale_is_c name \<longleftrightarrow> name = ''C'' \<or> name = ''POSIX''"

definition category_variables :: "string list" where
  "category_variables = [''LC_COLLATE'', ''LC_CTYPE'', ''LC_MONETARY'', ''LC_NUMERIC'', ''LC_TIME'', ''LC_MESSAGES'']"

definition is_set :: "string option \<Rightarrow> bool" where
  "is_set v \<longleftrightarrow> v \<noteq> None \<and> v \<noteq> Some []"

fun category_loop :: "'w cb_api \<Rightarrow> string list \<Rightarrow> 'w \<Rightarrow> bool \<times> 'w" where
  "category_loop api [] w = (True, w)"
| "category_loop api (variable # rest) w =
     (case ap_getenv api variable w of
        (v, w1) \<Rightarrow>
          (case (if is_set v then (v, w1) else ap_getenv api ''LANG'' w1) of
             (selected, w2) \<Rightarrow>
               if is_set selected \<and> \<not> locale_is_c (the selected) then (False, w2) else category_loop api rest w2))"

text \<open>The category is \<^verbatim>\<open>LC_ALL\<close> (0) or refused; a runtime may lack \<^verbatim>\<open>getenv\<close>.\<close>

definition cb_libc_setlocale :: "'w cb_api \<Rightarrow> bool \<Rightarrow> int \<Rightarrow> string option \<Rightarrow> 'w \<Rightarrow> string option \<times> 'w" where
  "cb_libc_setlocale api has_getenv category name w =
     (if category \<noteq> 0 then (None, w)
      else case name of
        None \<Rightarrow> (Some ''C'', w)
      | Some l \<Rightarrow>
          if l \<noteq> [] then (if locale_is_c l then Some ''C'' else None, w)
          else if \<not> has_getenv then (None, w)
          else case ap_getenv api ''LC_ALL'' w of
            (selected, w1) \<Rightarrow>
              if is_set selected then (if locale_is_c (the selected) then Some ''C'' else None, w1)
              else case category_loop api category_variables w1 of
                     (ok, w2) \<Rightarrow> (if ok then Some ''C'' else None, w2))"

section \<open>Modes as text\<close>

definition mode_letter :: "nat \<Rightarrow> char" where
  "mode_letter mode =
     (let t = mode AND S_IFMT
      in if t = S_IFDIR then CHR ''d'' else if t = S_IFCHR then CHR ''c'' else if t = S_IFBLK then CHR ''b''
         else if t = S_IFREG then CHR ''-'' else if t = S_IFLNK then CHR ''l'' else if t = S_IFSOCK then CHR ''s''
         else if t = S_IFIFO then CHR ''p'' else if t = S_IFWHT then CHR ''w'' else CHR ''?'')"

definition flag_letter :: "nat \<Rightarrow> nat \<Rightarrow> char \<Rightarrow> char" where
  "flag_letter mode flag letter = (if mode AND flag \<noteq> 0 then letter else CHR ''-'')"

definition exec_letter :: "nat \<Rightarrow> nat \<Rightarrow> nat \<Rightarrow> char \<Rightarrow> char \<Rightarrow> char" where
  "exec_letter mode special flag both alone =
     (if mode AND special \<noteq> 0 then (if mode AND flag \<noteq> 0 then both else alone)
      else if mode AND flag \<noteq> 0 then CHR ''x'' else CHR ''-'')"

definition cb_libc_strmode :: "nat \<Rightarrow> string" where
  "cb_libc_strmode mode =
     [mode_letter mode,
      flag_letter mode 0x100 CHR ''r'', flag_letter mode 0x80 CHR ''w'', exec_letter mode 0x800 0x40 CHR ''s'' CHR ''S'',
      flag_letter mode 0x20 CHR ''r'', flag_letter mode 0x10 CHR ''w'', exec_letter mode 0x400 0x8 CHR ''s'' CHR ''S'',
      flag_letter mode 0x4 CHR ''r'', flag_letter mode 0x2 CHR ''w'', exec_letter mode 0x200 0x1 CHR ''t'' CHR ''T'',
      CHR '' '']"

section \<open>Operations that the runtime does not have\<close>

text \<open>
  Links, owners, times, mappings, processes of their own: the library has these functions so that programs link,
  and they fail with an error number, or succeed where there is nothing to do.
\<close>

definition cb_libc_fsync :: "int \<Rightarrow> 'w \<Rightarrow> int \<times> 'w" where "cb_libc_fsync d w = (0, w)"
definition cb_libc_undelete :: "'w unix_api \<Rightarrow> 'w \<Rightarrow> int \<times> 'w" where "cb_libc_undelete api w = fail_with api CB_ENOSYS w"
definition cb_libc_fcpxattr :: "'w unix_api \<Rightarrow> 'w \<Rightarrow> int \<times> 'w" where "cb_libc_fcpxattr api w = fail_with api CB_ENOSYS w"
definition cb_libc_fchmod :: "int \<Rightarrow> nat \<Rightarrow> 'w \<Rightarrow> int \<times> 'w" where "cb_libc_fchmod d mode w = (0, w)"
definition cb_libc_fchown :: "'w unix_api \<Rightarrow> 'w \<Rightarrow> int \<times> 'w" where "cb_libc_fchown api w = fail_with api CB_ENOSYS w"
definition cb_libc_fchflags :: "'w unix_api \<Rightarrow> 'w \<Rightarrow> int \<times> 'w" where "cb_libc_fchflags api w = fail_with api CB_ENOSYS w"
definition cb_libc_futimes :: "'w unix_api \<Rightarrow> 'w \<Rightarrow> int \<times> 'w" where "cb_libc_futimes api w = fail_with api CB_ENOSYS w"
definition cb_libc_utimes :: "'w unix_api \<Rightarrow> 'w \<Rightarrow> int \<times> 'w" where "cb_libc_utimes api w = fail_with api CB_ENOSYS w"
definition cb_libc_signal :: "'w unix_api \<Rightarrow> 'w \<Rightarrow> int \<times> 'w" where "cb_libc_signal api w = fail_with api CB_ENOSYS w"
definition cb_libc_vfork :: "'w unix_api \<Rightarrow> 'w \<Rightarrow> int \<times> 'w" where "cb_libc_vfork api w = fail_with api CB_ENOSYS w"
definition cb_libc_execl :: "'w unix_api \<Rightarrow> 'w \<Rightarrow> int \<times> 'w" where "cb_libc_execl api w = fail_with api CB_ENOSYS w"
definition cb_libc_waitpid :: "'w unix_api \<Rightarrow> 'w \<Rightarrow> int \<times> 'w" where "cb_libc_waitpid api w = fail_with api CB_ECHILD w"
definition cb_libc_mmap :: "'w unix_api \<Rightarrow> 'w \<Rightarrow> int \<times> 'w" where "cb_libc_mmap api w = fail_with api CB_ENOSYS w"
definition cb_libc_munmap :: "'w unix_api \<Rightarrow> 'w \<Rightarrow> int \<times> 'w" where "cb_libc_munmap api w = fail_with api CB_ENOSYS w"
definition cb_libc_madvise :: "'w \<Rightarrow> int \<times> 'w" where "cb_libc_madvise w = (0, w)"
definition cb_libc_chmod :: "'w unix_api \<Rightarrow> 'w \<Rightarrow> int \<times> 'w" where "cb_libc_chmod api w = fail_with api CB_ENOSYS w"
definition cb_libc_lchmod :: "'w unix_api \<Rightarrow> 'w \<Rightarrow> int \<times> 'w" where "cb_libc_lchmod api w = fail_with api CB_ENOSYS w"
definition cb_libc_chflags :: "'w unix_api \<Rightarrow> 'w \<Rightarrow> int \<times> 'w" where "cb_libc_chflags api w = fail_with api CB_ENOSYS w"
definition cb_libc_lutimens :: "'w unix_api \<Rightarrow> 'w \<Rightarrow> int \<times> 'w" where "cb_libc_lutimens api w = fail_with api CB_ENOSYS w"
definition cb_libc_setmode :: "'w unix_api \<Rightarrow> 'w \<Rightarrow> addr option \<times> 'w" where "cb_libc_setmode api w = (None, set_error (libc api) CB_EINVAL w)"
definition cb_libc_getmode :: "nat \<Rightarrow> nat" where "cb_libc_getmode mode = mode"
definition cb_libc_link :: "'w unix_api \<Rightarrow> 'w \<Rightarrow> int \<times> 'w" where "cb_libc_link api w = fail_with api CB_ENOSYS w"
definition cb_libc_symlink :: "'w unix_api \<Rightarrow> 'w \<Rightarrow> int \<times> 'w" where "cb_libc_symlink api w = fail_with api CB_ENOSYS w"
definition cb_libc_readlink :: "'w unix_api \<Rightarrow> 'w \<Rightarrow> int \<times> 'w" where "cb_libc_readlink api w = fail_with api CB_EINVAL w"
definition cb_libc_mkfifo :: "'w unix_api \<Rightarrow> 'w \<Rightarrow> int \<times> 'w" where "cb_libc_mkfifo api w = fail_with api CB_ENOSYS w"
definition cb_libc_mknod :: "'w unix_api \<Rightarrow> 'w \<Rightarrow> int \<times> 'w" where "cb_libc_mknod api w = fail_with api CB_ENOSYS w"
definition cb_libc_lchown :: "'w unix_api \<Rightarrow> 'w \<Rightarrow> int \<times> 'w" where "cb_libc_lchown api w = fail_with api CB_ENOSYS w"
definition cb_libc_fcntl :: "'w unix_api \<Rightarrow> 'w \<Rightarrow> int \<times> 'w" where "cb_libc_fcntl api w = fail_with api CB_ENOSYS w"

text \<open>The mask is one variable of the library, shared by all programs that run.\<close>

definition cb_libc_umask :: "nat \<Rightarrow> nat \<Rightarrow> nat \<times> nat" where
  "cb_libc_umask current_umask numask = (current_umask, numask AND 0x1FF)"

definition cb_libc_arc4random :: "32 word \<Rightarrow> 32 word" where
  "cb_libc_arc4random state0 =
     (let state1 = state0 XOR push_bit 13 state0; state2 = state1 XOR drop_bit 17 state1
      in state2 XOR push_bit 5 state2)"

section \<open>Characters\<close>

definition cb_libc_isdigit :: "int \<Rightarrow> bool" where "cb_libc_isdigit c \<longleftrightarrow> 48 \<le> c \<and> c \<le> 57"
definition cb_libc_isspace :: "int \<Rightarrow> bool" where "cb_libc_isspace c \<longleftrightarrow> c = 32 \<or> c = 9 \<or> c = 10 \<or> c = 11 \<or> c = 12 \<or> c = 13"
definition cb_libc_isascii :: "int \<Rightarrow> bool" where "cb_libc_isascii c \<longleftrightarrow> 0 \<le> c \<and> c \<le> 0x7F"
definition cb_libc_toascii :: "int \<Rightarrow> int" where "cb_libc_toascii c = c AND 0x7F"
definition cb_libc_iscntrl :: "int \<Rightarrow> bool" where "cb_libc_iscntrl c \<longleftrightarrow> (0 \<le> c \<and> c \<le> 0x1F) \<or> c = 0x7F"
definition cb_libc_iswspace :: "int \<Rightarrow> bool" where "cb_libc_iswspace c \<longleftrightarrow> c \<le> 0x7F \<and> cb_libc_isspace c"

text \<open>\<^verbatim>\<open>mbrtowc\<close>: the result and the character stored; -2 is \<^verbatim>\<open>(size_t)-2\<close>. A null string has no state to reset.\<close>

definition cb_libc_mbrtowc :: "string option \<Rightarrow> nat \<Rightarrow> int \<times> nat option" where
  "cb_libc_mbrtowc text n =
     (case text of
        None \<Rightarrow> (0, None)
      | Some t \<Rightarrow>
          if n = 0 then (-2, None)
          else case t of [] \<Rightarrow> (0, Some 0) | c # _ \<Rightarrow> (1, Some (of_char c)))"

text \<open>\<^verbatim>\<open>strtoimax\<close> is imported; \<open>value\<close> is its result.\<close>

definition cb_libc_strtol :: "'w unix_api \<Rightarrow> int \<Rightarrow> 'w \<Rightarrow> int \<times> 'w" where
  "cb_libc_strtol api value w =
     (if value > INT64_MAX then (INT64_MAX, set_error (libc api) CB_ERANGE w)
      else if value < INT64_MIN then (INT64_MIN, set_error (libc api) CB_ERANGE w)
      else (value, w))"

section \<open>Properties\<close>

lemma type_bits_dir: "S_ISDIR (type_bits t OR (m AND 0xFFF)) \<longleftrightarrow> t = CB_NODE_DIRECTORY"
proof -
  have "\<not> (bit (0xFFF :: nat) n \<and> bit (0xF000 :: nat) n)" for n
    unfolding bit_and_iff [symmetric] by simp
  then have "(x OR (m AND 0xFFF)) AND 0xF000 = x AND (0xF000 :: nat)" for x
    by (intro bit_eqI) (auto simp: bit_and_iff bit_or_iff)
  then show ?thesis by (cases t) (simp_all add: S_ISDIR_def S_IF_defs)
qed

text \<open>The text of a mode determines the mode, for every type of file the library knows.\<close>

lemma and_flag: "(m AND 2 ^ i \<noteq> 0) = bit m i" for m :: nat
  by (simp add: bit_iff_odd and_exp_eq_0_iff_not_bit)

lemma flag_bits:
  fixes m :: nat
  shows "(m AND 0x800 \<noteq> 0) = bit m 11" "(m AND 0x400 \<noteq> 0) = bit m 10" "(m AND 0x200 \<noteq> 0) = bit m 9"
    "(m AND 0x100 \<noteq> 0) = bit m 8" "(m AND 0x80 \<noteq> 0) = bit m 7" "(m AND 0x40 \<noteq> 0) = bit m 6"
    "(m AND 0x20 \<noteq> 0) = bit m 5" "(m AND 0x10 \<noteq> 0) = bit m 4" "(m AND 8 \<noteq> 0) = bit m 3"
    "(m AND 4 \<noteq> 0) = bit m 2" "(m AND 2 \<noteq> 0) = bit m 1" "(m AND 1 \<noteq> 0) = bit m 0"
  by (simp_all flip: and_flag)

definition known_type :: "nat \<Rightarrow> bool" where
  "known_type mode \<longleftrightarrow> mode AND S_IFMT \<in> {S_IFDIR, S_IFCHR, S_IFBLK, S_IFREG, S_IFLNK, S_IFSOCK, S_IFIFO, S_IFWHT}"

lemma mode_letter_type:
  "known_type m \<Longrightarrow> known_type n \<Longrightarrow> mode_letter m = mode_letter n \<Longrightarrow> m AND S_IFMT = n AND S_IFMT"
  unfolding known_type_def mode_letter_def Let_def insert_iff empty_iff
  by (elim disjE) (simp_all add: S_IF_defs)

lemma flag_letters:
  "flag_letter m f c = flag_letter n f c \<Longrightarrow> c \<noteq> CHR ''-'' \<Longrightarrow> (m AND f \<noteq> 0) = (n AND f \<noteq> 0)"
  by (auto simp: flag_letter_def split: if_splits)

lemma exec_letters:
  assumes "exec_letter m e f b c = exec_letter n e f b c" "distinct [b, c, CHR ''x'', CHR ''-'']"
  shows "(m AND e \<noteq> 0) = (n AND e \<noteq> 0)" "(m AND f \<noteq> 0) = (n AND f \<noteq> 0)"
  using assms by (auto simp: exec_letter_def split: if_splits)

lemma mode_bits:
  fixes m n :: nat
  assumes "m < 2 ^ 16" "n < 2 ^ 16" "m AND S_IFMT = n AND S_IFMT" "\<And>i. i < 12 \<Longrightarrow> bit m i = bit n i"
  shows "m = n"
proof (rule bit_eqI)
  fix i
  have h: "bit m i = bit n i" if "12 \<le> i" "i < 16"
  proof -
    have "i \<in> {12, 13, 14, 15}" using that by auto
    then have "bit S_IFMT i" by (auto simp: S_IFMT_def bit_iff_odd)
    then show ?thesis using assms(3) by (metis bit_and_iff)
  qed
  have "\<not> bit m i" "\<not> bit n i" if "16 \<le> i"
  proof -
    have "(2::nat) ^ 16 \<le> 2 ^ i" by (rule power_increasing [OF that]) simp
    then have "m < 2 ^ i" "n < 2 ^ i" using assms(1,2) by linarith+
    then show "\<not> bit m i" "\<not> bit n i" by (simp_all add: bit_iff_odd)
  qed
  then show "bit m i = bit n i" using h assms(4) by (meson not_le)
qed

lemma strmode_injective:
  assumes "m < 2 ^ 16" "n < 2 ^ 16" "known_type m" "known_type n"
  shows "cb_libc_strmode m = cb_libc_strmode n \<longleftrightarrow> m = n"
proof
  assume eq: "cb_libc_strmode m = cb_libc_strmode n"
  note e = eq [unfolded cb_libc_strmode_def list.inject]
  have t: "m AND S_IFMT = n AND S_IFMT" using e mode_letter_type [OF assms(3,4)] by blast
  have at: "cb_libc_strmode m ! i = cb_libc_strmode n ! i" for i using eq by simp
  have b1: "(m AND 0x100 \<noteq> 0) = (n AND 0x100 \<noteq> 0)" by (rule flag_letters [where c = "CHR ''r''"]) (use at [of 1] in \<open>simp_all add: cb_libc_strmode_def\<close>)
  have b2: "(m AND 0x80 \<noteq> 0) = (n AND 0x80 \<noteq> 0)" by (rule flag_letters [where c = "CHR ''w''"]) (use at [of 2] in \<open>simp_all add: cb_libc_strmode_def\<close>)
  have b3: "(m AND 0x20 \<noteq> 0) = (n AND 0x20 \<noteq> 0)" by (rule flag_letters [where c = "CHR ''r''"]) (use at [of 4] in \<open>simp_all add: cb_libc_strmode_def\<close>)
  have b4: "(m AND 0x10 \<noteq> 0) = (n AND 0x10 \<noteq> 0)" by (rule flag_letters [where c = "CHR ''w''"]) (use at [of 5] in \<open>simp_all add: cb_libc_strmode_def\<close>)
  have b5: "(m AND 4 \<noteq> 0) = (n AND 4 \<noteq> 0)" by (rule flag_letters [where c = "CHR ''r''"]) (use at [of 7] in \<open>simp_all add: cb_libc_strmode_def\<close>)
  have b6: "(m AND 2 \<noteq> 0) = (n AND 2 \<noteq> 0)" by (rule flag_letters [where c = "CHR ''w''"]) (use at [of 8] in \<open>simp_all add: cb_libc_strmode_def\<close>)
  have "exec_letter m 0x800 0x40 CHR ''s'' CHR ''S'' = exec_letter n 0x800 0x40 CHR ''s'' CHR ''S''"
    "exec_letter m 0x400 8 CHR ''s'' CHR ''S'' = exec_letter n 0x400 8 CHR ''s'' CHR ''S''"
    "exec_letter m 0x200 1 CHR ''t'' CHR ''T'' = exec_letter n 0x200 1 CHR ''t'' CHR ''T''"
    using at [of 3] at [of 6] at [of 9] by (simp_all add: cb_libc_strmode_def)
  note x = this [THEN exec_letters(1)] this [THEN exec_letters(2)]
  have e: "(m AND 0x800 \<noteq> 0) = (n AND 0x800 \<noteq> 0)" "(m AND 0x40 \<noteq> 0) = (n AND 0x40 \<noteq> 0)" "(m AND 0x400 \<noteq> 0) = (n AND 0x400 \<noteq> 0)"
    "(m AND 8 \<noteq> 0) = (n AND 8 \<noteq> 0)" "(m AND 0x200 \<noteq> 0) = (n AND 0x200 \<noteq> 0)" "(m AND 1 \<noteq> 0) = (n AND 1 \<noteq> 0)"
    by (rule x; simp)+
  note bits = b1 b2 b3 b4 b5 b6 e
  have "bit m i = bit n i" if "i < 12" for i
  proof -
    have "i \<in> {0, 1, 2, 3, 4, 5, 6, 7, 8, 9, 10, 11}" using that unfolding insert_iff empty_iff by presburger
    then show ?thesis using bits unfolding flag_bits by (elim insertE emptyE) simp_all
  qed
  then show "m = n" using mode_bits [OF assms(1,2) t] by blast
qed simp

text \<open>
  What \<^verbatim>\<open>setlocale (LC_ALL, "")\<close> has to decide: the locale of a category is named by the first variable that is
  set among \<^verbatim>\<open>LC_ALL\<close>, the variable of the category, and \<^verbatim>\<open>LANG\<close>, and there is only the C locale.
\<close>

definition locale_named :: "(string \<Rightarrow> string option) \<Rightarrow> string \<Rightarrow> string option" where
  "locale_named env category = (case List.find is_set [env ''LC_ALL'', env category, env ''LANG''] of None \<Rightarrow> None | Some v \<Rightarrow> v)"

definition c_locale :: "string option \<Rightarrow> bool" where
  "c_locale name = (case name of None \<Rightarrow> True | Some n \<Rightarrow> locale_is_c n)"

lemma locale_named_eq:
  "\<not> is_set (env ''LC_ALL'') \<Longrightarrow>
   locale_named env v = (if is_set (env v) then env v else if is_set (env ''LANG'') then env ''LANG'' else None)"
  by (simp add: locale_named_def)

lemma category_loop_reference:
  assumes "\<And>n. n = ''LANG'' \<or> n \<in> set vars \<Longrightarrow> ap_getenv api n w = (env n, w)" "\<not> is_set (env ''LC_ALL'')"
  shows "category_loop api vars w = (\<forall>v\<in>set vars. c_locale (locale_named env v), w)"
  using assms(1)
proof (induction vars)
  case (Cons v vars)
  let ?s = "if is_set (env v) then env v else env ''LANG''"
  have g: "ap_getenv api v w = (env v, w)" "ap_getenv api ''LANG'' w = (env ''LANG'', w)" using Cons.prems by auto
  have c: "c_locale (locale_named env v) \<longleftrightarrow> \<not> (is_set ?s \<and> \<not> locale_is_c (the ?s))"
    unfolding locale_named_eq [of env, OF assms(2)] by (cases "env v"; cases "env ''LANG''") (auto simp: c_locale_def is_set_def)
  have l: "category_loop api (v # vars) w = (if c_locale (locale_named env v) then category_loop api vars w else (False, w))"
    unfolding c using g by simp
  show ?case using Cons unfolding l by auto
qed simp

lemma setlocale_reference:
  assumes "ap_getenv api ''LC_ALL'' w = (env ''LC_ALL'', w)"
    "\<And>n. n = ''LANG'' \<or> n \<in> set category_variables \<Longrightarrow> ap_getenv api n w = (env n, w)"
  shows "cb_libc_setlocale api True 0 (Some []) w =
    (if \<forall>v\<in>set category_variables. c_locale (locale_named env v) then Some ''C'' else None, w)"
proof (cases "is_set (env ''LC_ALL'')")
  case True
  then have "locale_named env v = env ''LC_ALL''" for v by (auto simp: locale_named_def)
  moreover have "env ''LC_ALL'' = Some (the (env ''LC_ALL''))" using True by (auto simp: is_set_def)
  ultimately have "c_locale (locale_named env v) = locale_is_c (the (env ''LC_ALL''))" for v by (metis c_locale_def option.simps(5))
  moreover have "category_variables \<noteq> []" by (simp add: category_variables_def)
  ultimately show ?thesis using True assms(1) by (simp add: cb_libc_setlocale_def)
next
  case False
  have "category_loop api category_variables w = (\<forall>v\<in>set category_variables. c_locale (locale_named env v), w)"
    by (rule category_loop_reference [of category_variables api w env, OF assms(2) False])
  then show ?thesis using False assms(1) by (simp add: cb_libc_setlocale_def)
qed

end
