(* ===== verification/Fts.thy ===== *)
theory Fts
  imports Libc_Calls
begin

text \<open>
  The traversal of directory trees, \<^verbatim>\<open>libc/cb_fts.c\<close>, which \<^verbatim>\<open>rm\<close>, \<^verbatim>\<open>cp\<close> and \<^verbatim>\<open>mv\<close> are built on. Entries are objects
  that the library hands out by pointer and frees later, so they are kept in an explicit store; following a
  pointer to an entry that is gone sets \<open>ft_fault\<close>.
\<close>

unbundle bit_operations_syntax

section \<open>State\<close>

text \<open>\<open>FTS_unset\<close> is the 0 that \<^verbatim>\<open>calloc\<close> leaves.\<close>

datatype fts_info = FTS_unset | FTS_D | FTS_DP | FTS_DNR | FTS_ERR | FTS_NS | FTS_DC | FTS_W | FTS_DEFAULT

text \<open>
  \<^verbatim>\<open>fts_accpath\<close> is \<^verbatim>\<open>fts_path\<close>. The two buffers an entry owns are \<open>fe_path_block\<close> (with the text \<open>fe_path\<close>) and
  \<open>fe_statp\<close> (with the status \<open>fe_stat\<close>); \<open>fe_name\<close> points into the first.
\<close>

record ftsent =
  fe_info :: fts_info
  fe_level :: int
  fe_path :: string
  fe_path_block :: addr
  fe_pathlen :: nat
  fe_name :: string
  fe_namelen :: nat
  fe_errno :: int
  fe_statp :: addr
  fe_stat :: unix_stat

record cb_fts_frame =
  fr_dir :: cb_libc_dir
  fr_inode :: nat
  fr_entry :: addr
  fr_skip :: bool

text \<open>The used part of the array \<^verbatim>\<open>stack\<close> is the list \<open>ft_stack\<close>, the top of the stack first; \<^verbatim>\<open>depth\<close> is its length.\<close>

record cb_fts =
  ft_block :: addr
  ft_path_argv :: "string list"
  ft_root_index :: nat
  ft_options :: nat
  ft_stack :: "cb_fts_frame list"
  ft_pending_free :: "addr option"
  ft_entries :: "addr \<rightharpoonup> ftsent"
  ft_fault :: bool

definition CB_FTS_MAX_DEPTH :: nat where "CB_FTS_MAX_DEPTH = CB_PATH_MAX div 2"
definition FTS_XDEV :: nat where "FTS_XDEV = 0x10"
definition FTS_SKIP :: int where "FTS_SKIP = 1"

definition sizeof_ftsent :: nat where "sizeof_ftsent = 80"
definition sizeof_unix_stat :: nat where "sizeof_unix_stat = 120"
definition sizeof_cb_fts :: nat where "sizeof_cb_fts = 16424"

text \<open>A cleared object; its contents are written where the object is built.\<close>

definition calloc_object :: "'w libc_api \<Rightarrow> nat \<Rightarrow> 'w \<Rightarrow> addr option \<times> 'w" where
  "calloc_object api bytes w = apfst (map_option fst) (cb_libc_calloc api 1 bytes w)"

lemma calloc_object_eq: "0 < bytes \<Longrightarrow> bytes \<le> SIZE_MAX \<Longrightarrow> calloc_object api bytes w = ap_allocate api bytes w"
  by (auto simp: calloc_object_def cb_libc_calloc_def div_eq_0_iff split: option.splits prod.splits)

lemma calloc_objects [code_unfold, simp]:
  "calloc_object api sizeof_ftsent w = ap_allocate api sizeof_ftsent w"
  "calloc_object api sizeof_unix_stat w = ap_allocate api sizeof_unix_stat w"
  "calloc_object api sizeof_cb_fts w = ap_allocate api sizeof_cb_fts w"
  by (rule calloc_object_eq; simp add: sizeof_ftsent_def sizeof_unix_stat_def sizeof_cb_fts_def SIZE_MAX_def)+

section \<open>Entries\<close>

definition entry_create :: "'w libc_api \<Rightarrow> string option \<Rightarrow> string \<Rightarrow> int \<Rightarrow> 'w \<Rightarrow> (addr \<times> ftsent) option \<times> 'w" where
  "entry_create api parent_path name level w =
     (case calloc_object api sizeof_ftsent w of
        (None, w1) \<Rightarrow> (None, w1)
      | (Some e, w1) \<Rightarrow>
          let path = (case parent_path of None \<Rightarrow> name | Some p \<Rightarrow> p @ slash # name);
              base = last_component path path
          in case ap_allocate api (length path + 1) w1 of
               (None, w2) \<Rightarrow> (None, cb_libc_free api e w2)
             | (Some b, w2) \<Rightarrow>
                 (case calloc_object api sizeof_unix_stat w2 of
                    (None, w3) \<Rightarrow> (None, cb_libc_free api e (cb_libc_free api b w3))
                  | (Some st, w3) \<Rightarrow>
                      (Some (e, \<lparr>fe_info = FTS_unset, fe_level = level, fe_path = path, fe_path_block = b,
                                 fe_pathlen = length path, fe_name = base, fe_namelen = length base,
                                 fe_errno = 0, fe_statp = st, fe_stat = stat_zero\<rparr>), w3)))"

definition entry_destroy :: "'w libc_api \<Rightarrow> addr option \<Rightarrow> cb_fts \<Rightarrow> 'w \<Rightarrow> cb_fts \<times> 'w" where
  "entry_destroy api entry f w =
     (case entry of
        None \<Rightarrow> (f, w)
      | Some e \<Rightarrow>
          (case ft_entries f e of
             None \<Rightarrow> (f\<lparr>ft_fault := True\<rparr>, w)
           | Some ent \<Rightarrow>
               (f\<lparr>ft_entries := (ft_entries f)(e := None)\<rparr>,
                cb_libc_free api e (cb_libc_free api (fe_path_block ent) (cb_libc_free api (fe_statp ent) w)))))"

definition cycle_detected :: "cb_fts \<Rightarrow> nat \<Rightarrow> bool" where
  "cycle_detected f inode \<longleftrightarrow> inode \<in> fr_inode ` set (ft_stack f)"

text \<open>Storing into the entry that \<open>e\<close> points to.\<close>

definition set_entry :: "cb_fts \<Rightarrow> addr \<Rightarrow> ftsent \<Rightarrow> cb_fts" where
  "set_entry f e ent = f\<lparr>ft_entries := (ft_entries f)(e \<mapsto> ent)\<rparr>"

definition classify :: "'w unix_api \<Rightarrow> cb_fts \<Rightarrow> addr \<Rightarrow> ftsent \<Rightarrow> 'w \<Rightarrow> cb_fts \<times> 'w" where
  "classify api f e ent w =
     (case cb_libc_stat api (Some (fe_path ent)) w of
        (None, w1) \<Rightarrow>
          (set_entry f e (ent\<lparr>fe_info := FTS_NS, fe_errno := ap_get_errno (libc api) w1\<rparr>), w1)
      | (Some status, w1) \<Rightarrow>
          let ent1 = ent\<lparr>fe_stat := status\<rparr>
          in if \<not> S_ISDIR (us_mode status) then (set_entry f e (ent1\<lparr>fe_info := FTS_DEFAULT\<rparr>), w1)
             else if cycle_detected f (us_ino status) then (set_entry f e (ent1\<lparr>fe_info := FTS_DC\<rparr>), w1)
             else if length (ft_stack f) \<ge> CB_FTS_MAX_DEPTH
             then (set_entry f e (ent1\<lparr>fe_info := FTS_DNR, fe_errno := errno_value CB_ENAMETOOLONG\<rparr>), w1)
             else case cb_libc_opendir api (fe_path ent1) w1 of
                    (None, w2) \<Rightarrow>
                      (set_entry f e (ent1\<lparr>fe_info := FTS_DNR, fe_errno := ap_get_errno (libc api) w2\<rparr>), w2)
                  | (Some dir, w2) \<Rightarrow>
                      ((set_entry f e (ent1\<lparr>fe_info := FTS_D\<rparr>))
                         \<lparr>ft_stack := \<lparr>fr_dir = dir, fr_inode = us_ino status, fr_entry = e, fr_skip = False\<rparr> # ft_stack f\<rparr>, w2))"

section \<open>The functions of the interface\<close>

definition cb_libc_fts_open :: "'w unix_api \<Rightarrow> string list option \<Rightarrow> nat \<Rightarrow> 'w \<Rightarrow> cb_fts option \<times> 'w" where
  "cb_libc_fts_open api path_argv options w =
     (if path_argv = None \<or> path_argv = Some [] then (None, set_error (libc api) CB_EINVAL w)
      else if options AND FTS_XDEV \<noteq> 0 then (None, set_error (libc api) CB_ENOSYS w)
      else case calloc_object (libc api) sizeof_cb_fts w of
             (None, w1) \<Rightarrow> (None, w1)
           | (Some p, w1) \<Rightarrow>
               (Some \<lparr>ft_block = p, ft_path_argv = the path_argv, ft_root_index = 0, ft_options = options, ft_stack = [],
                      ft_pending_free = None, ft_entries = (\<lambda>e. None), ft_fault = False\<rparr>, w1))"

text \<open>The entry in a variable of the caller becomes the pending one unless it is a directory that was entered.\<close>

definition return_entry :: "addr \<Rightarrow> cb_fts \<Rightarrow> cb_fts" where
  "return_entry e f =
     (case ft_entries f e of
        None \<Rightarrow> f\<lparr>ft_fault := True\<rparr>
      | Some ent \<Rightarrow> if fe_info ent \<noteq> FTS_D then f\<lparr>ft_pending_free := Some e\<rparr> else f)"

text \<open>The frames at the top of the stack that are to be skipped.\<close>

fun pop_skipped :: "'w unix_api \<Rightarrow> cb_fts_frame list \<Rightarrow> cb_fts \<Rightarrow> 'w \<Rightarrow> cb_fts \<times> 'w" where
  "pop_skipped api [] f w = (f\<lparr>ft_stack := []\<rparr>, w)"
| "pop_skipped api (frame # rest) f w =
     (if fr_skip frame
      then (case entry_destroy (libc api) (Some (fr_entry frame)) (f\<lparr>ft_stack := rest\<rparr>)
                   (snd (cb_libc_closedir api (Some (fr_dir frame)) w)) of
              (f1, w1) \<Rightarrow> pop_skipped api rest f1 w1)
      else (f\<lparr>ft_stack := frame # rest\<rparr>, w))"

definition read_child :: "'w unix_api \<Rightarrow> cb_fts_frame \<Rightarrow> cb_fts_frame list \<Rightarrow> cb_fts \<Rightarrow> 'w \<Rightarrow> addr option \<times> cb_fts \<times> 'w" where
  "read_child api frame rest f w =
     (case cb_libc_readdir api (Some (fr_dir frame)) w of
        (de, w1) \<Rightarrow>
          (case ft_entries f (fr_entry frame) of
             None \<Rightarrow> (None, f\<lparr>ft_fault := True\<rparr>, w1)
           | Some parent \<Rightarrow>
               (case de of
                  Some d \<Rightarrow>
                    (case entry_create (libc api) (Some (fe_path parent)) (de_name d) (fe_level parent + 1) w1 of
                       (None, w2) \<Rightarrow> (None, f, w2)
                     | (Some (e, ent), w2) \<Rightarrow>
                         (case classify api f e ent w2 of (f1, w3) \<Rightarrow> (Some e, return_entry e f1, w3)))
                | None \<Rightarrow>
                    let w2 = snd (cb_libc_closedir api (Some (fr_dir frame)) w1);
                        f1 = set_entry (f\<lparr>ft_stack := rest\<rparr>) (fr_entry frame) (parent\<lparr>fe_info := FTS_DP\<rparr>)
                    in (Some (fr_entry frame), f1\<lparr>ft_pending_free := Some (fr_entry frame)\<rparr>, w2))))"

definition read_root :: "'w unix_api \<Rightarrow> cb_fts \<Rightarrow> 'w \<Rightarrow> addr option \<times> cb_fts \<times> 'w" where
  "read_root api f w =
     (if ft_root_index f \<ge> length (ft_path_argv f) then (None, f, ap_set_errno (libc api) 0 w)
      else let f1 = f\<lparr>ft_root_index := ft_root_index f + 1\<rparr>
           in case entry_create (libc api) None (ft_path_argv f ! ft_root_index f) 0 w of
                (None, w1) \<Rightarrow> (None, f1, w1)
              | (Some (e, ent), w1) \<Rightarrow>
                  (case classify api f1 e ent w1 of (f2, w2) \<Rightarrow> (Some e, return_entry e f2, w2)))"

definition fts_next :: "'w unix_api \<Rightarrow> cb_fts \<Rightarrow> 'w \<Rightarrow> addr option \<times> cb_fts \<times> 'w" where
  "fts_next api f w =
     (case entry_destroy (libc api) (ft_pending_free f) f w of
        (f1, w1) \<Rightarrow>
          (case pop_skipped api (ft_stack f1) (f1\<lparr>ft_pending_free := None\<rparr>) w1 of
             (f2, w2) \<Rightarrow>
               (case ft_stack f2 of frame # rest \<Rightarrow> read_child api frame rest f2 w2 | [] \<Rightarrow> read_root api f2 w2)))"

definition cb_libc_fts_read :: "'w unix_api \<Rightarrow> cb_fts option \<Rightarrow> 'w \<Rightarrow> addr option \<times> cb_fts option \<times> 'w" where
  "cb_libc_fts_read api ftsp w =
     (case ftsp of
        None \<Rightarrow> (None, None, set_error (libc api) CB_EINVAL w)
      | Some f \<Rightarrow> (case fts_next api f w of (e, f1, w1) \<Rightarrow> (e, Some f1, w1)))"

fun close_frames :: "'w unix_api \<Rightarrow> cb_fts_frame list \<Rightarrow> cb_fts \<Rightarrow> 'w \<Rightarrow> cb_fts \<times> 'w" where
  "close_frames api [] f w = (f, w)"
| "close_frames api (frame # frames) f w =
     (case entry_destroy (libc api) (Some (fr_entry frame)) f (snd (cb_libc_closedir api (Some (fr_dir frame)) w)) of
        (f1, w1) \<Rightarrow> close_frames api frames f1 w1)"

text \<open>What is left of the object is returned for the sake of \<open>ft_fault\<close>; its memory is released.\<close>

definition fts_dispose :: "'w unix_api \<Rightarrow> cb_fts \<Rightarrow> 'w \<Rightarrow> cb_fts \<times> 'w" where
  "fts_dispose api f w =
     (case close_frames api (rev (ft_stack f)) f w of
        (f1, w1) \<Rightarrow>
          (case entry_destroy (libc api) (ft_pending_free f1) f1 w1 of
             (f2, w2) \<Rightarrow> (f2, cb_libc_free (libc api) (ft_block f2) w2)))"

definition cb_libc_fts_close :: "'w unix_api \<Rightarrow> cb_fts option \<Rightarrow> 'w \<Rightarrow> int \<times> 'w" where
  "cb_libc_fts_close api ftsp w =
     (case ftsp of
        None \<Rightarrow> (-1, set_error (libc api) CB_EINVAL w)
      | Some f \<Rightarrow> (0, snd (fts_dispose api f w)))"

text \<open>Marks the lowest frame of the entry.\<close>

fun mark_skip :: "addr \<Rightarrow> cb_fts_frame list \<Rightarrow> cb_fts_frame list" where
  "mark_skip e [] = []"
| "mark_skip e (frame # frames) =
     (if fr_entry frame = e then frame\<lparr>fr_skip := True\<rparr> # frames else frame # mark_skip e frames)"

definition cb_libc_fts_set ::
  "'w unix_api \<Rightarrow> cb_fts option \<Rightarrow> addr option \<Rightarrow> int \<Rightarrow> 'w \<Rightarrow> int \<times> cb_fts option \<times> 'w" where
  "cb_libc_fts_set api ftsp entry instr w =
     (case (ftsp, entry) of
        (Some f, Some e) \<Rightarrow>
          if instr \<noteq> FTS_SKIP then (-1, ftsp, set_error (libc api) CB_EINVAL w)
          else (case ft_entries f e of
                  None \<Rightarrow> (0, Some (f\<lparr>ft_fault := True\<rparr>), w)
                | Some ent \<Rightarrow>
                    if fe_info ent \<noteq> FTS_D then (0, ftsp, w)
                    else (0, Some (f\<lparr>ft_stack := rev (mark_skip e (rev (ft_stack f)))\<rparr>), w))
      | _ \<Rightarrow> (-1, ftsp, set_error (libc api) CB_EINVAL w))"

section \<open>A program that uses it\<close>

text \<open>
  What a program does with a traversal: read the next entry, skip the directory just read, and do other things in
  between. It opens the traversal, goes through a sequence of these, and closes it at any point. The
  result is whether an entry that is gone was used; \<open>recent\<close> is the entry read last.
\<close>

datatype 'w fts_use = Fts_read | Fts_skip | Fts_other "'w \<Rightarrow> 'w"

fun fts_run :: "'w unix_api \<Rightarrow> 'w fts_use list \<Rightarrow> addr option \<Rightarrow> cb_fts option \<Rightarrow> 'w \<Rightarrow> cb_fts option \<times> 'w" where
  "fts_run api [] recent ftsp w = (ftsp, w)"
| "fts_run api (Fts_read # uses) recent ftsp w = (case cb_libc_fts_read api ftsp w of (e, f, w1) \<Rightarrow> fts_run api uses e f w1)"
| "fts_run api (Fts_skip # uses) recent ftsp w =
     (case cb_libc_fts_set api ftsp recent FTS_SKIP w of (r, f, w1) \<Rightarrow> fts_run api uses recent f w1)"
| "fts_run api (Fts_other g # uses) recent ftsp w = fts_run api uses recent ftsp (g w)"

definition fts_session :: "'w unix_api \<Rightarrow> string list \<Rightarrow> nat \<Rightarrow> 'w fts_use list \<Rightarrow> 'w \<Rightarrow> bool \<times> 'w" where
  "fts_session api roots options uses w =
     (case cb_libc_fts_open api (Some roots) options w of
        (None, w1) \<Rightarrow> (False, w1)
      | (Some f, w1) \<Rightarrow>
          (case fts_run api uses None (Some f) w1 of
             (ftsp, w2) \<Rightarrow>
               (case ftsp of Some f2 \<Rightarrow> ft_fault (fst (fts_dispose api f2 w2)) | None \<Rightarrow> True,
                snd (cb_libc_fts_close api ftsp w2))))"

end
