(* ===== verification/Fts_Props.thy ===== *)
theory Fts_Props
  imports Fts "HOL-Library.Multiset"
begin

text \<open>
  What a traversal owns and gives back. The contract \<open>resource_calls\<close> is about the blocks of memory and the
  directory descriptors of a program; against it, the functions of \<^verbatim>\<open>libc/cb_fts.c\<close> never use an entry that
  was freed, and closing a traversal at any point returns everything it had taken.
\<close>

section \<open>What a traversal owns\<close>

definition entry_blocks :: "addr \<Rightarrow> ftsent \<Rightarrow> addr multiset" where
  "entry_blocks e ent = {#e, fe_path_block ent, fe_statp ent#}"

definition entries_blocks :: "(addr \<rightharpoonup> ftsent) \<Rightarrow> addr list \<Rightarrow> addr multiset" where
  "entries_blocks E es = (\<Sum>e\<leftarrow>es. entry_blocks e (the (E e)))"

definition frames_blocks :: "cb_fts_frame list \<Rightarrow> addr multiset" where
  "frames_blocks fs = mset (map (\<lambda>fr. ld_block (fr_dir fr)) fs)"

definition frames_dirs :: "cb_fts_frame list \<Rightarrow> int multiset" where
  "frames_dirs fs = mset (map (\<lambda>fr. ld_descriptor (fr_dir fr)) fs)"

definition pending_list :: "addr option \<Rightarrow> addr list" where
  "pending_list p = (case p of None \<Rightarrow> [] | Some e \<Rightarrow> [e])"

definition pointers :: "cb_fts \<Rightarrow> addr list" where
  "pointers f = pending_list (ft_pending_free f) @ map fr_entry (ft_stack f)"

definition owned_blocks :: "cb_fts \<Rightarrow> addr multiset" where
  "owned_blocks f = {#ft_block f#} + entries_blocks (ft_entries f) (pointers f) + frames_blocks (ft_stack f)"

definition owned_dirs :: "cb_fts \<Rightarrow> int multiset" where
  "owned_dirs f = frames_dirs (ft_stack f)"

definition fts_wf :: "cb_fts \<Rightarrow> bool" where
  "fts_wf f \<longleftrightarrow> \<not> ft_fault f \<and> distinct (pointers f) \<and> dom (ft_entries f) = set (pointers f)"

lemma pending_list_simps [simp]: "pending_list None = []" "pending_list (Some e) = [e]"
  by (simp_all add: pending_list_def)

lemma entries_blocks_simps [simp]:
  "entries_blocks E [] = {#}"
  "entries_blocks E (e # es) = entry_blocks e (the (E e)) + entries_blocks E es"
  "entries_blocks E (es @ es') = entries_blocks E es + entries_blocks E es'"
  by (simp_all add: entries_blocks_def)

lemma entries_blocks_upd [simp]: "e \<notin> set es \<Longrightarrow> entries_blocks (E(e := x)) es = entries_blocks E es"
  unfolding entries_blocks_def by (induction es) auto

lemma entries_blocks_mem: "e \<in> set es \<Longrightarrow> e \<in># entries_blocks E es"
  by (induction es) (auto simp: entry_blocks_def)

lemma frames_simps [simp]:
  "frames_blocks [] = {#}" "frames_blocks (fr # fs) = add_mset (ld_block (fr_dir fr)) (frames_blocks fs)"
  "frames_dirs [] = {#}" "frames_dirs (fr # fs) = add_mset (ld_descriptor (fr_dir fr)) (frames_dirs fs)"
  "frames_blocks (rev fs) = frames_blocks fs" "frames_dirs (rev fs) = frames_dirs fs"
  by (simp_all add: frames_blocks_def frames_dirs_def flip: rev_map)

lemma entry_blocks_same [simp]: "entry_blocks e (ent\<lparr>fe_info := i\<rparr>) = entry_blocks e ent"
  "entry_blocks e (ent\<lparr>fe_errno := n\<rparr>) = entry_blocks e ent" "entry_blocks e (ent\<lparr>fe_stat := s\<rparr>) = entry_blocks e ent"
  by (simp_all add: entry_blocks_def)

section \<open>The contract\<close>

locale resource_calls =
  fixes api :: "'w unix_api" and open_dir read_dir close_dir
    and ok :: "'w \<Rightarrow> bool" and blocks :: "'w \<Rightarrow> addr multiset" and dirs :: "'w \<Rightarrow> int multiset"
  assumes dir_calls: "ap_opendir api = Some open_dir" "ap_readdir api = Some read_dir" "ap_closedir api = Some close_dir"
    and allocate: "ok w \<Longrightarrow> ap_allocate (libc api) n w = (r, w') \<Longrightarrow> ok w' \<and> dirs w' = dirs w \<and>
      (case r of None \<Rightarrow> blocks w' = blocks w | Some p \<Rightarrow> p \<notin># blocks w \<and> blocks w' = add_mset p (blocks w))"
    and release: "ok w \<Longrightarrow> p \<in># blocks w \<Longrightarrow> ok (ap_release (libc api) p w) \<and>
      blocks (ap_release (libc api) p w) = blocks w - {#p#} \<and> dirs (ap_release (libc api) p w) = dirs w"
    and set_errno: "ok w \<Longrightarrow> ok (ap_set_errno (libc api) e w) \<and> blocks (ap_set_errno (libc api) e w) = blocks w \<and>
      dirs (ap_set_errno (libc api) e w) = dirs w"
    and stat: "ok w \<Longrightarrow> ap_stat api path w = (r', w') \<Longrightarrow> ok w' \<and> blocks w' = blocks w \<and> dirs w' = dirs w"
    and open_dir: "ok w \<Longrightarrow> open_dir path w = (d, w') \<Longrightarrow> ok w' \<and> blocks w' = blocks w \<and>
      dirs w' = (if d < 0 then dirs w else add_mset d (dirs w))"
    and read_dir: "ok w \<Longrightarrow> d \<in># dirs w \<Longrightarrow> read_dir d m w = (x, w') \<Longrightarrow> ok w' \<and> blocks w' = blocks w \<and> dirs w' = dirs w"
    and close_dir: "ok w \<Longrightarrow> d \<in># dirs w \<Longrightarrow> close_dir d w = (n', w') \<Longrightarrow> ok w' \<and> blocks w' = blocks w \<and>
      dirs w' = dirs w - {#d#}"
begin

definition has :: "'w \<Rightarrow> addr multiset \<Rightarrow> int multiset \<Rightarrow> bool" where
  "has w B D \<longleftrightarrow> ok w \<and> blocks w = B \<and> dirs w = D"

lemma has_errno: "has w B D \<Longrightarrow> has (ap_set_errno (libc api) e w) B D" "has w B D \<Longrightarrow> has (set_error (libc api) x w) B D"
  using set_errno by (auto simp: has_def set_error_def)

lemma has_free: "has w (add_mset p B) D \<Longrightarrow> has (cb_libc_free (libc api) p w) B D"
  using release [of w p] set_errno by (simp add: has_def cb_libc_free_def)

lemma has_allocate:
  assumes "has w B D" "ap_allocate (libc api) n w = (r, w')"
  shows "case r of None \<Rightarrow> has w' B D | Some p \<Rightarrow> p \<notin># B \<and> has w' (add_mset p B) D"
  using assms allocate [of w n r w'] by (auto simp: has_def split: option.splits)

lemma has_stat:
  assumes "has w B D" "cb_libc_stat api path w = (r, w')" shows "has w' B D"
proof (cases path)
  case None
  then show ?thesis using assms has_errno by (auto simp: cb_libc_stat_def)
next
  case (Some p)
  then show ?thesis using assms stat [of w p] by (auto simp: cb_libc_stat_def has_def split: prod.splits)
qed

lemma has_opendir:
  assumes "has w B D" "cb_libc_opendir api path w = (r, w')"
  shows "case r of None \<Rightarrow> has w' B D
    | Some dir \<Rightarrow> has w' (add_mset (ld_block dir) B) (add_mset (ld_descriptor dir) D)"
proof -
  obtain d w1 where o: "open_dir path w = (d, w1)" by fastforce
  obtain p w2 where p: "ap_allocate (libc api) sizeof_cb_libc_dir w1 = (p, w2)" by fastforce
  obtain n w3 where c: "close_dir d w2 = (n, w3)" by fastforce
  have 1: "has w1 B (if d < 0 then D else add_mset d D)" using open_dir [of w path] o assms(1) by (auto simp: has_def)
  note 2 = has_allocate [OF 1 p]
  show ?thesis
  proof (cases "d < 0")
    case True
    then show ?thesis using assms(2) o 1 by (auto simp: cb_libc_opendir_def dir_calls)
  next
    case False
    then have "p = None \<Longrightarrow> has w3 B D" using 2 close_dir [of w2 d n w3] c by (auto simp: has_def)
    then show ?thesis using False assms(2) o p c 2 has_errno by (auto simp: cb_libc_opendir_def dir_calls split: option.splits)
  qed
qed

lemma has_closedir:
  assumes "has w (add_mset (ld_block dir) B) (add_mset (ld_descriptor dir) D)"
  shows "has (snd (cb_libc_closedir api (Some dir) w)) B D"
proof -
  obtain n w1 where c: "close_dir (ld_descriptor dir) w = (n, w1)" by fastforce
  have "has w1 (add_mset (ld_block dir) B) D" using close_dir [of w "ld_descriptor dir"] c assms by (auto simp: has_def)
  then show ?thesis using c release [of w1 "ld_block dir"] by (auto simp: cb_libc_closedir_def dir_calls has_def)
qed

lemma has_readdir:
  assumes "has w B D" "ld_descriptor dir \<in># D" "cb_libc_readdir api (Some dir) w = (r, w')" shows "has w' B D"
proof -
  obtain x w1 where x: "read_dir (ld_descriptor dir) CB_PATH_MAX w = (x, w1)" by fastforce
  then have "has w1 B D" using read_dir [of w "ld_descriptor dir"] assms(1,2) by (auto simp: has_def)
  moreover have "w' = w1" using assms(3) x by (auto simp: cb_libc_readdir_def dir_calls split: option.splits if_splits)
  ultimately show ?thesis by simp
qed

section \<open>Entries\<close>

lemma has_entry_create:
  assumes "has w B D" "entry_create (libc api) parent name level w = (r, w')"
  shows "case r of None \<Rightarrow> has w' B D | Some (e, ent) \<Rightarrow> e \<notin># B \<and> has w' (entry_blocks e ent + B) D"
proof -
  obtain p w1 where p: "ap_allocate (libc api) sizeof_ftsent w = (p, w1)" by fastforce
  note 1 = has_allocate [OF assms(1) p]
  show ?thesis
  proof (cases p)
    case None
    then show ?thesis using assms(2) p 1 by (auto simp: entry_create_def)
  next
    case (Some e)
    let ?path = "case parent of None \<Rightarrow> name | Some q \<Rightarrow> q @ slash # name"
    have e: "e \<notin># B" "has w1 (add_mset e B) D" using 1 Some by auto
    obtain q w2 where q: "ap_allocate (libc api) (length ?path + 1) w1 = (q, w2)" by fastforce
    note 2 = has_allocate [OF e(2) q]
    obtain s w3 where s: "ap_allocate (libc api) sizeof_unix_stat w2 = (s, w3)" by fastforce
    show ?thesis
    proof (cases q)
      case None
      then show ?thesis using assms(2) p Some q 2 has_free by (auto simp: entry_create_def Let_def)
    next
      case q': (Some b)
      then have b: "has w2 (add_mset b (add_mset e B)) D" using 2 by auto
      note 3 = has_allocate [OF b s]
      show ?thesis
      proof (cases s)
        case None
        then have "has (cb_libc_free (libc api) e (cb_libc_free (libc api) b w3)) B D" using 3 has_free by auto
        then show ?thesis using assms(2) p Some q q' s None by (auto simp: entry_create_def Let_def)
      next
        case s': (Some st)
        then have "has w3 (add_mset st (add_mset b (add_mset e B))) D" using 3 by auto
        then show ?thesis using assms(2) p Some q q' s s' e(1) by (auto simp: entry_create_def Let_def entry_blocks_def add_mset_commute)
      qed
    qed
  qed
qed

definition holds :: "cb_fts \<Rightarrow> addr list \<Rightarrow> cb_fts_frame list \<Rightarrow> 'w \<Rightarrow> addr multiset \<Rightarrow> int multiset \<Rightarrow> bool" where
  "holds f es fs w B D \<longleftrightarrow> \<not> ft_fault f \<and> distinct es \<and> dom (ft_entries f) = set es \<and>
     has w ({#ft_block f#} + entries_blocks (ft_entries f) es + frames_blocks fs + B) (frames_dirs fs + D)"

lemma holds_wf: "holds f (pointers f) (ft_stack f) w B D \<longleftrightarrow> fts_wf f \<and> has w (owned_blocks f + B) (owned_dirs f + D)"
  by (auto simp: holds_def fts_wf_def owned_blocks_def owned_dirs_def)

lemma holds_fields [simp]:
  "holds (f\<lparr>ft_stack := x\<rparr>) es fs w B D = holds f es fs w B D"
  "holds (f\<lparr>ft_pending_free := p\<rparr>) es fs w B D = holds f es fs w B D"
  "holds (f\<lparr>ft_root_index := i\<rparr>) es fs w B D = holds f es fs w B D"
  by (simp_all add: holds_def)

lemma holds_destroy:
  assumes "holds f (e # es) fs w B D" "entry_destroy (libc api) (Some e) f w = (f', w')"
  shows "f' = f\<lparr>ft_entries := (ft_entries f)(e := None)\<rparr> \<and> holds f' es fs w' B D"
proof -
  obtain ent where e: "ft_entries f e = Some ent" using assms(1) by (auto simp: holds_def)
  have f': "f' = f\<lparr>ft_entries := (ft_entries f)(e := None)\<rparr>"
    "w' = cb_libc_free (libc api) e (cb_libc_free (libc api) (fe_path_block ent) (cb_libc_free (libc api) (fe_statp ent) w))"
    using assms(2) e by (simp_all add: entry_destroy_def)
  let ?B = "{#ft_block f#} + entries_blocks (ft_entries f) es + frames_blocks fs + B"
  have "has w (add_mset (fe_statp ent) (add_mset (fe_path_block ent) (add_mset e ?B))) (frames_dirs fs + D)"
    using assms(1) e by (simp add: holds_def entry_blocks_def add_mset_commute)
  then have "has w' ?B (frames_dirs fs + D)" unfolding f'(2) using has_free by blast
  then show ?thesis using assms(1) f'(1) by (auto simp: holds_def)
qed

lemma holds_closedir:
  assumes "holds f es (fr # fs) w B D" shows "holds f es fs (snd (cb_libc_closedir api (Some (fr_dir fr)) w)) B D"
  using assms has_closedir [of w "fr_dir fr"] by (auto simp: holds_def)

lemma holds_pop:
  assumes "holds f (map fr_entry fs) fs w B D" "pop_skipped api fs f w = (f', w')"
  shows "holds f' (map fr_entry (ft_stack f')) (ft_stack f') w' B D \<and> ft_pending_free f' = ft_pending_free f \<and>
    ft_path_argv f' = ft_path_argv f \<and> ft_root_index f' = ft_root_index f"
  using assms
proof (induction fs arbitrary: f w)
  case (Cons fr fs)
  show ?case
  proof (cases "fr_skip fr")
    case True
    let ?w = "snd (cb_libc_closedir api (Some (fr_dir fr)) w)"
    obtain f1 w1 where d: "entry_destroy (libc api) (Some (fr_entry fr)) (f\<lparr>ft_stack := fs\<rparr>) ?w = (f1, w1)" by fastforce
    have "holds (f\<lparr>ft_stack := fs\<rparr>) (fr_entry fr # map fr_entry fs) fs ?w B D" using holds_closedir Cons.prems(1) by simp
    note h = holds_destroy [OF this d]
    have p: "pop_skipped api fs f1 w1 = (f', w')" using Cons.prems(2) True d by simp
    have "ft_pending_free f1 = ft_pending_free f" "ft_path_argv f1 = ft_path_argv f" "ft_root_index f1 = ft_root_index f" using h by simp_all
    then show ?thesis using Cons.IH [OF conjunct2 [OF h] p] by simp
  next
    case False
    then show ?thesis using Cons.prems by auto
  qed
qed auto

lemma holds_set_entry:
  assumes "holds f es fs w B D" "e \<in> set es" "entry_blocks e ent = entry_blocks e (the (ft_entries f e))"
  shows "holds (set_entry f e ent) es fs w B D"
proof -
  have "entries_blocks ((ft_entries f)(e \<mapsto> ent)) es = entries_blocks (ft_entries f) es"
    using assms(3) unfolding entries_blocks_def by (auto intro!: arg_cong [where f = sum_list])
  then show ?thesis using assms(1,2) by (auto simp: holds_def set_entry_def)
qed

lemma holds_new_entry:
  assumes "holds f es fs w B D" "has w' (entry_blocks e ent + ({#ft_block f#} + entries_blocks (ft_entries f) es + frames_blocks fs + B)) (frames_dirs fs + D)"
    "e \<notin># {#ft_block f#} + entries_blocks (ft_entries f) es + frames_blocks fs + B"
  shows "holds (set_entry f e ent) (e # es) fs w' B D"
proof -
  have "e \<notin> set es" using assms(3) entries_blocks_mem by auto
  then show ?thesis using assms(1,2) by (auto simp: holds_def set_entry_def ac_simps)
qed

text \<open>Classification changes nothing of an entry but what \<^verbatim>\<open>stat\<close> reports, and enters a directory it can open.\<close>

lemma holds_classify:
  assumes "holds (set_entry f e ent) (e # es) (ft_stack f) w B D" "classify api f e ent w = (f', w')"
  shows "\<exists>ent'. ft_entries f' = (ft_entries f)(e \<mapsto> ent') \<and>
    holds f' (e # es) (ft_stack f') w' B D \<and> ft_pending_free f' = ft_pending_free f \<and>
    (if fe_info ent' = FTS_D then \<exists>fr. ft_stack f' = fr # ft_stack f \<and> fr_entry fr = e else ft_stack f' = ft_stack f)"
proof -
  let ?E = "\<lambda>ent'. set_entry f e ent'"
  have upd: "holds (?E ent') (e # es) fs w1 B D" if "holds (set_entry f e ent) (e # es) fs w1 B D" "entry_blocks e ent' = entry_blocks e ent" for ent' fs w1
    using that by (auto simp: holds_def set_entry_def)
  obtain r w1 where r: "cb_libc_stat api (Some (fe_path ent)) w = (r, w1)" by fastforce
  have h1: "holds (?E ent) (e # es) (ft_stack f) w1 B D" using assms(1) has_stat [OF _ r] by (auto simp: holds_def)
  show ?thesis
  proof (cases r)
    case None
    then show ?thesis using assms(2) r upd [OF h1]
      by (auto simp: classify_def set_entry_def entry_blocks_def intro!: exI [of _ "ent\<lparr>fe_info := FTS_NS, fe_errno := _\<rparr>"])
  next
    case (Some status)
    let ?ent = "ent\<lparr>fe_stat := status\<rparr>"
    obtain r2 w2 where o: "cb_libc_opendir api (fe_path ent) w1 = (r2, w2)" by fastforce
    show ?thesis
    proof (cases "\<not> S_ISDIR (us_mode status) \<or> cycle_detected f (us_ino status) \<or> length (ft_stack f) \<ge> CB_FTS_MAX_DEPTH")
      case True
      then have "\<exists>ent'. f' = ?E ent' \<and> entry_blocks e ent' = entry_blocks e ent \<and> fe_info ent' \<noteq> FTS_D \<and> w' = w1"
        using assms(2) r Some by (auto simp: classify_def Let_def entry_blocks_def split: if_splits intro!: exI [where P = "\<lambda>x. set_entry f e y = set_entry f e x \<and> _ x" for y])
      then show ?thesis using upd [OF h1] by (auto simp: set_entry_def)
    next
      case False
      then have c: "classify api f e ent w = (case r2 of None \<Rightarrow> (?E (?ent\<lparr>fe_info := FTS_DNR, fe_errno := ap_get_errno (libc api) w2\<rparr>), w2)
        | Some dir \<Rightarrow> ((?E (?ent\<lparr>fe_info := FTS_D\<rparr>))\<lparr>ft_stack := \<lparr>fr_dir = dir, fr_inode = us_ino status, fr_entry = e, fr_skip = False\<rparr> # ft_stack f\<rparr>, w2))"
        using r Some o by (simp add: classify_def split: option.split)
      have h2: "case r2 of None \<Rightarrow> holds (?E ent) (e # es) (ft_stack f) w2 B D
        | Some dir \<Rightarrow> holds (?E ent) (e # es) (\<lparr>fr_dir = dir, fr_inode = us_ino status, fr_entry = e, fr_skip = False\<rparr> # ft_stack f) w2 B D"
        using h1 has_opendir [OF _ o] by (auto simp: holds_def split: option.splits)
      show ?thesis
      proof (cases r2)
        case None
        let ?ent' = "?ent\<lparr>fe_info := FTS_DNR, fe_errno := ap_get_errno (libc api) w2\<rparr>"
        have "f' = ?E ?ent'" "w' = w2" using c assms(2) None by simp_all
        moreover have "holds (?E ?ent') (e # es) (ft_stack f) w2 B D" using h2 None upd by simp
        ultimately show ?thesis by (intro exI [of _ ?ent']) (simp add: set_entry_def)
      next
        case (Some dir)
        let ?ent' = "?ent\<lparr>fe_info := FTS_D\<rparr>"
        let ?fr = "\<lparr>fr_dir = dir, fr_inode = us_ino status, fr_entry = e, fr_skip = False\<rparr>"
        have "f' = (?E ?ent')\<lparr>ft_stack := ?fr # ft_stack f\<rparr>" "w' = w2" using c assms(2) Some by simp_all
        moreover have "holds (?E ?ent') (e # es) (?fr # ft_stack f) w2 B D" using h2 Some upd by simp
        ultimately show ?thesis by (intro exI [of _ ?ent']) (simp add: set_entry_def)
      qed
    qed
  qed
qed

lemma holds_perm:
  assumes "mset es = mset es'" "mset fs = mset fs'" shows "holds f es fs w B D = holds f es' fs' w B D"
proof -
  have "entries_blocks E es = entries_blocks E es'" for E
    unfolding entries_blocks_def sum_mset_sum_list [symmetric] using assms(1) by simp
  moreover have "frames_blocks fs = frames_blocks fs'" "frames_dirs fs = frames_dirs fs'"
    using assms(2) by (simp_all add: frames_blocks_def frames_dirs_def)
  moreover have "set es = set es'" "distinct es = distinct es'" using assms(1) using mset_eq_setD mset_eq_imp_distinct_iff by blast+
  ultimately show ?thesis by (simp add: holds_def)
qed

abbreviation owns :: "cb_fts \<Rightarrow> 'w \<Rightarrow> addr multiset \<Rightarrow> int multiset \<Rightarrow> bool" where
  "owns f w B D \<equiv> holds f (pointers f) (ft_stack f) w B D"

section \<open>The functions\<close>

lemma holds_visit:
  assumes "owns f w B D" "ft_pending_free f = None" "entry_create (libc api) parent name level w = (Some (e, ent), w1)"
    "classify api f e ent w1 = (f1, w2)"
  shows "owns (return_entry e f1) w2 B D \<and> ft_entries (return_entry e f1) e \<noteq> None"
proof -
  have es: "pointers f = map fr_entry (ft_stack f)" using assms(2) by (simp add: pointers_def)
  let ?B = "{#ft_block f#} + entries_blocks (ft_entries f) (pointers f) + frames_blocks (ft_stack f) + B"
  have "has w ?B (frames_dirs (ft_stack f) + D)" using assms(1) by (simp add: holds_def)
  note c = has_entry_create [OF this assms(3), unfolded option.case prod.case]
  have "holds (set_entry f e ent) (e # pointers f) (ft_stack f) w1 B D"
    by (rule holds_new_entry [OF assms(1) conjunct2 [OF c] conjunct1 [OF c]])
  from holds_classify [OF this assms(4)] obtain ent' where k: "ft_entries f1 = (ft_entries f)(e \<mapsto> ent')"
    "holds f1 (e # pointers f) (ft_stack f1) w2 B D" "ft_pending_free f1 = None"
    "if fe_info ent' = FTS_D then \<exists>fr. ft_stack f1 = fr # ft_stack f \<and> fr_entry fr = e else ft_stack f1 = ft_stack f"
    using assms(2) by auto
  show ?thesis
  proof (cases "fe_info ent' = FTS_D")
    case True
    then show ?thesis using k es by (auto simp: return_entry_def pointers_def)
  next
    case False
    then show ?thesis using k es by (auto simp: return_entry_def pointers_def)
  qed
qed

lemma owns_read_root:
  assumes "owns f w B D" "ft_pending_free f = None" "read_root api f w = (r, f', w')"
  shows "owns f' w' B D \<and> (\<forall>e. r = Some e \<longrightarrow> ft_entries f' e \<noteq> None)"
proof (cases "ft_root_index f \<ge> length (ft_path_argv f)")
  case True
  then show ?thesis using assms has_errno by (auto simp: read_root_def holds_def)
next
  case False
  let ?f = "f\<lparr>ft_root_index := ft_root_index f + 1\<rparr>"
  have f: "owns ?f w B D" "ft_pending_free ?f = None" using assms(1,2) by (simp_all add: pointers_def)
  obtain x w1 where x: "entry_create (libc api) None (ft_path_argv f ! ft_root_index f) 0 w = (x, w1)" by fastforce
  show ?thesis
  proof (cases x)
    case None
    have "owns ?f w1 B D" using f(1) has_entry_create [OF _ x] None by (auto simp: holds_def)
    then show ?thesis using assms(3) False x None by (auto simp: read_root_def)
  next
    case (Some y)
    then obtain e ent f1 w2 where y: "y = (e, ent)" "classify api ?f e ent w1 = (f1, w2)" by (metis surj_pair)
    then have "r = Some e" "f' = return_entry e f1" "w' = w2" using assms(3) False x Some by (auto simp: read_root_def Let_def)
    then show ?thesis using holds_visit [OF f x [unfolded Some y(1)] y(2)] by simp
  qed
qed

lemma owns_read_child:
  assumes "owns f w B D" "ft_pending_free f = None" "ft_stack f = fr # rest" "read_child api fr rest f w = (r, f', w')"
  shows "owns f' w' B D \<and> (\<forall>e. r = Some e \<longrightarrow> ft_entries f' e \<noteq> None)"
proof -
  obtain parent where p: "ft_entries f (fr_entry fr) = Some parent"
  proof -
    have "fr_entry fr \<in> dom (ft_entries f)" using assms(1,3) by (simp add: holds_def pointers_def)
    then show ?thesis using that by blast
  qed
  obtain de w1 where de: "cb_libc_readdir api (Some (fr_dir fr)) w = (de, w1)" by fastforce
  have o1: "owns f w1 B D" using assms(1,3) has_readdir [OF _ _ de] by (auto simp: holds_def)
  show ?thesis
  proof (cases de)
    case None
    let ?w = "snd (cb_libc_closedir api (Some (fr_dir fr)) w1)"
    let ?f = "set_entry f (fr_entry fr) (parent\<lparr>fe_info := FTS_DP\<rparr>)"
    have "holds f (pointers f) rest ?w B D" using holds_closedir o1 assms(3) by simp
    then have "holds ?f (pointers f) rest ?w B D" by (rule holds_set_entry) (use p assms(3) in \<open>simp_all add: pointers_def\<close>)
    moreover have "r = Some (fr_entry fr)" "f' = ?f\<lparr>ft_stack := rest, ft_pending_free := Some (fr_entry fr)\<rparr>" "w' = ?w"
      using assms(4) de None p by (auto simp: read_child_def Let_def set_entry_def)
    ultimately show ?thesis using assms(2,3) by (auto simp: pointers_def set_entry_def)
  next
    case (Some d)
    obtain x w2 where x: "entry_create (libc api) (Some (fe_path parent)) (de_name d) (fe_level parent + 1) w1 = (x, w2)" by fastforce
    show ?thesis
    proof (cases x)
      case None
      have "owns f w2 B D" using o1 has_entry_create [OF _ x] None by (auto simp: holds_def)
      then show ?thesis using assms(4) de Some p x None by (auto simp: read_child_def)
    next
      case x': (Some y)
      then obtain e ent f1 w3 where y: "y = (e, ent)" "classify api f e ent w2 = (f1, w3)" by (metis surj_pair)
      then have "r = Some e" "f' = return_entry e f1" "w' = w3" using assms(4) de Some p x x' by (auto simp: read_child_def)
      then show ?thesis using holds_visit [OF o1 assms(2) x [unfolded x' y(1)] y(2)] by simp
    qed
  qed
qed

lemma owns_next:
  assumes "owns f w B D" "fts_next api f w = (r, f', w')"
  shows "owns f' w' B D \<and> (\<forall>e. r = Some e \<longrightarrow> ft_entries f' e \<noteq> None)"
proof -
  obtain f1 w1 where d: "entry_destroy (libc api) (ft_pending_free f) f w = (f1, w1)" by fastforce
  have 1: "holds f1 (map fr_entry (ft_stack f1)) (ft_stack f1) w1 B D"
  proof (cases "ft_pending_free f")
    case None
    then show ?thesis using d assms(1) by (simp add: entry_destroy_def pointers_def)
  next
    case (Some e)
    have "holds f (e # map fr_entry (ft_stack f)) (ft_stack f) w B D" using assms(1) Some by (simp add: pointers_def)
    then show ?thesis using holds_destroy d Some by fastforce
  qed
  obtain f2 w2 where p: "pop_skipped api (ft_stack f1) (f1\<lparr>ft_pending_free := None\<rparr>) w1 = (f2, w2)" by fastforce
  have 2: "owns f2 w2 B D" "ft_pending_free f2 = None" using holds_pop [OF _ p] 1 by (auto simp: pointers_def)
  show ?thesis
  proof (cases "ft_stack f2")
    case Nil
    then show ?thesis using assms(2) d p owns_read_root [OF 2] by (simp add: fts_next_def)
  next
    case (Cons fr rest)
    then show ?thesis using assms(2) d p owns_read_child [OF 2 Cons] by (simp add: fts_next_def)
  qed
qed

lemma owns_mark:
  assumes "owns f w B D" shows "owns (f\<lparr>ft_stack := rev (mark_skip e (rev (ft_stack f)))\<rparr>) w B D"
proof -
  have m: "map fr_entry (mark_skip e fs) = map fr_entry fs" "map fr_dir (mark_skip e fs) = map fr_dir fs" for fs
    by (induction fs) auto
  let ?fs = "rev (mark_skip e (rev (ft_stack f)))"
  have e: "map fr_entry ?fs = map fr_entry (ft_stack f)" "map fr_dir ?fs = map fr_dir (ft_stack f)" by (simp_all add: m flip: rev_map)
  have "frames_blocks fs = mset (map ld_block (map fr_dir fs))" "frames_dirs fs = mset (map ld_descriptor (map fr_dir fs))" for fs
    by (simp_all add: frames_blocks_def frames_dirs_def comp_def)
  then have "frames_blocks ?fs = frames_blocks (ft_stack f)" "frames_dirs ?fs = frames_dirs (ft_stack f)" using e(2) by (simp_all only:)
  moreover have "pointers (f\<lparr>ft_stack := ?fs\<rparr>) = pointers f" using e(1) by (simp add: pointers_def)
  ultimately show ?thesis using assms by (simp add: holds_def)
qed

lemma owns_set:
  assumes "owns f w B D" "\<forall>e. r = Some e \<longrightarrow> ft_entries f e \<noteq> None" "cb_libc_fts_set api (Some f) r n w = (x, ftsp, w')"
  shows "\<exists>f'. ftsp = Some f' \<and> owns f' w' B D \<and> ft_entries f' = ft_entries f"
proof -
  have "owns f (set_error (libc api) CB_EINVAL w) B D" using assms(1) has_errno by (simp add: holds_def)
  then show ?thesis using assms owns_mark [of f w B D] by (auto simp: cb_libc_fts_set_def split: option.splits if_splits)
qed

lemma owns_close:
  assumes "holds f (map fr_entry fs @ es) fs w B D" "close_frames api fs f w = (f', w')"
  shows "holds f' es [] w' B D \<and> ft_pending_free f' = ft_pending_free f \<and> ft_block f' = ft_block f"
  using assms
proof (induction fs arbitrary: f w)
  case (Cons fr fs)
  let ?w = "snd (cb_libc_closedir api (Some (fr_dir fr)) w)"
  obtain f1 w1 where d: "entry_destroy (libc api) (Some (fr_entry fr)) f ?w = (f1, w1)" by fastforce
  have "holds f (fr_entry fr # map fr_entry fs @ es) fs ?w B D" using holds_closedir Cons.prems(1) by simp
  note h = holds_destroy [OF this d]
  have p: "close_frames api fs f1 w1 = (f', w')" using Cons.prems(2) d by simp
  have "ft_pending_free f1 = ft_pending_free f" "ft_block f1 = ft_block f" using h by simp_all
  then show ?case using Cons.IH [OF conjunct2 [OF h] p] by simp
qed simp

lemma owns_dispose:
  assumes "owns f w B D" "fts_dispose api f w = (f', w')" shows "\<not> ft_fault f' \<and> has w' B D"
proof -
  obtain f1 w1 where c: "close_frames api (rev (ft_stack f)) f w = (f1, w1)" by fastforce
  have "holds f (map fr_entry (rev (ft_stack f)) @ pending_list (ft_pending_free f)) (rev (ft_stack f)) w B D"
    using assms(1) by (subst holds_perm [where es' = "pointers f" and fs' = "ft_stack f"]) (simp_all add: pointers_def ac_simps)
  note 1 = owns_close [OF this c]
  obtain f2 w2 where d: "entry_destroy (libc api) (ft_pending_free f1) f1 w1 = (f2, w2)" by fastforce
  have 2: "holds f2 [] [] w2 B D"
  proof (cases "ft_pending_free f")
    case None
    then show ?thesis using d 1 by (simp add: entry_destroy_def)
  next
    case (Some e)
    then have "holds f1 [e] [] w1 B D" "entry_destroy (libc api) (Some e) f1 w1 = (f2, w2)" using d 1 by simp_all
    from holds_destroy [OF this] show ?thesis by blast
  qed
  have "f' = f2" "w' = cb_libc_free (libc api) (ft_block f2) w2" using assms(2) c d by (auto simp: fts_dispose_def)
  then show ?thesis using 2 has_free by (simp add: holds_def)
qed

definition harmless :: "'w fts_use \<Rightarrow> bool" where
  "harmless u \<longleftrightarrow> (\<forall>g w B D. u = Fts_other g \<longrightarrow> has w B D \<longrightarrow> has (g w) B D)"

lemma owns_run:
  assumes "owns f w B D" "\<forall>e. r = Some e \<longrightarrow> ft_entries f e \<noteq> None" "\<forall>u\<in>set uses. harmless u" "fts_run api uses r (Some f) w = (ftsp, w')"
  shows "\<exists>f'. ftsp = Some f' \<and> owns f' w' B D"
  using assms
proof (induction uses arbitrary: r f w)
  case (Cons u uses)
  have others: "\<forall>u\<in>set uses. harmless u" using Cons.prems(3) by simp
  show ?case
  proof (cases u)
    case Fts_read
    obtain e f1 w1 where n: "fts_next api f w = (e, f1, w1)" by (metis prod_cases3)
    have "fts_run api uses e (Some f1) w1 = (ftsp, w')" using Cons.prems(4) Fts_read n by (simp add: cb_libc_fts_read_def)
    then show ?thesis using Cons.IH [OF _ _ others] owns_next [OF Cons.prems(1) n] by blast
  next
    case Fts_skip
    obtain x p w1 where s: "cb_libc_fts_set api (Some f) r FTS_SKIP w = (x, p, w1)" by (metis prod_cases3)
    from owns_set [OF Cons.prems(1,2) s] obtain f1 where f1: "p = Some f1" "owns f1 w1 B D" "ft_entries f1 = ft_entries f" by blast
    have "fts_run api uses r (Some f1) w1 = (ftsp, w')" using Cons.prems(4) Fts_skip s f1(1) by simp
    then show ?thesis using Cons.IH [OF f1(2) _ others] Cons.prems(2) f1(3) by simp
  next
    case (Fts_other g)
    have "owns f (g w) B D" using Cons.prems(1,3) Fts_other by (simp add: holds_def harmless_def)
    then show ?thesis using Cons.IH [OF _ Cons.prems(2) others] Cons.prems(4) Fts_other by simp
  qed
qed auto

lemma session_returns_all:
  assumes "ok w" "\<forall>u\<in>set uses. harmless u"
    "fts_session api roots options uses w = (gone, w')"
  shows "\<not> gone \<and> ok w' \<and> blocks w' = blocks w \<and> dirs w' = dirs w"
proof -
  let ?B = "blocks w" and ?D = "dirs w"
  have h: "has w ?B ?D" using assms(1) by (simp add: has_def)
  obtain x w1 where o: "cb_libc_fts_open api (Some roots) options w = (x, w1)" by fastforce
  obtain p w2 where p: "ap_allocate (libc api) sizeof_cb_fts w = (p, w2)" by fastforce
  show ?thesis
  proof (cases x)
    case None
    then have "has w1 ?B ?D" using o p has_allocate [OF h p] has_errno [OF h]
      by (auto simp: cb_libc_fts_open_def split: if_splits option.splits)
    then show ?thesis using assms(3) o None by (simp add: fts_session_def has_def)
  next
    case (Some f)
    have f: "owns f w1 ?B ?D" using o Some p has_allocate [OF h p]
      by (auto simp: cb_libc_fts_open_def holds_def pointers_def split: if_splits option.splits)
    obtain q w3 where r: "fts_run api uses None (Some f) w1 = (q, w3)" by fastforce
    obtain f' where f': "q = Some f'" "owns f' w3 ?B ?D" using owns_run [OF f _ assms(2) r] by auto
    obtain f2 w4 where d: "fts_dispose api f' w3 = (f2, w4)" by fastforce
    show ?thesis using owns_dispose [OF f'(2) d] assms(3) o Some r f'(1) d by (simp add: fts_session_def cb_libc_fts_close_def has_def)
  qed
qed

end

end
