(* ===== verification/Fts_Walk.thy ===== *)
theory Fts_Walk
  imports Fts_Props
begin

text \<open>
  What a traversal shows. The reference \<open>visit\<close> is the walk over a tree, before and after the entries of each
  directory; against the contract \<open>tree_calls\<close>, reading a traversal to its end gives exactly that walk.
\<close>

section \<open>The walk over a tree\<close>

text \<open>A directory has an inode and entries in order; \<open>No_stat\<close> is a path whose status cannot be had.\<close>

datatype ftree = No_stat | Plain | Dir nat "(string \<times> ftree) list"

definition child_path :: "string \<Rightarrow> string \<Rightarrow> string" where
  "child_path path name = path @ slash # name"

text \<open>
  \<open>anc\<close> are the inodes of the directories around, the innermost first, and \<open>room\<close> is how many of them can be
  open at once. A directory that is among its own ancestors is reported as a cycle, one too deep as unreadable.
\<close>

fun visit :: "nat \<Rightarrow> nat list \<Rightarrow> int \<Rightarrow> string \<Rightarrow> ftree \<Rightarrow> (fts_info \<times> int \<times> string) list" where
  "visit room anc level path No_stat = [(FTS_NS, level, path)]"
| "visit room anc level path Plain = [(FTS_DEFAULT, level, path)]"
| "visit room anc level path (Dir i es) =
     (if i \<in> set anc then [(FTS_DC, level, path)]
      else if length anc \<ge> CB_FTS_MAX_DEPTH \<or> length anc \<ge> room then [(FTS_DNR, level, path)]
      else (FTS_D, level, path) # concat (map (\<lambda>(n, t). visit room (i # anc) (level + 1) (child_path path n) t) es) @
           [(FTS_DP, level, path)])"

text \<open>Reading a traversal until it ends, in at most \<open>fuel\<close> steps.\<close>

fun fts_walk :: "nat \<Rightarrow> 'w unix_api \<Rightarrow> cb_fts \<Rightarrow> 'w \<Rightarrow> ((fts_info \<times> int \<times> string) list \<times> cb_fts \<times> 'w) option" where
  "fts_walk 0 api f w = None"
| "fts_walk (Suc fuel) api f w =
     (case fts_next api f w of
        (None, f1, w1) \<Rightarrow> Some ([], f1, w1)
      | (Some e, f1, w1) \<Rightarrow>
          (case ft_entries f1 e of
             None \<Rightarrow> None
           | Some ent \<Rightarrow> map_option (apfst (Cons (fe_info ent, fe_level ent, fe_path ent))) (fts_walk fuel api f1 w1)))"

text \<open>
  What is left to be shown when the traversal stands inside directories: for each its level and path and
  the entries that have not been read.
\<close>

type_synonym fts_work = "(int \<times> string \<times> (string \<times> ftree) list) list"

definition visit_entries :: "nat \<Rightarrow> nat list \<Rightarrow> int \<Rightarrow> string \<Rightarrow> (string \<times> ftree) list \<Rightarrow> (fts_info \<times> int \<times> string) list" where
  "visit_entries room anc level path es = concat (map (\<lambda>(n, t). visit room anc (level + 1) (child_path path n) t) es)"

fun visit_rest :: "nat \<Rightarrow> nat list \<Rightarrow> fts_work \<Rightarrow> (fts_info \<times> int \<times> string) list" where
  "visit_rest room (i # anc) ((level, path, es) # work) =
     visit_entries room (i # anc) level path es @ (FTS_DP, level, path) # visit_rest room anc work"
| "visit_rest room anc work = []"

definition visit_roots :: "nat \<Rightarrow> (string \<times> ftree) list \<Rightarrow> (fts_info \<times> int \<times> string) list" where
  "visit_roots room roots = concat (map (\<lambda>(r, t). visit room [] 0 r t) roots)"

lemma visit_dir:
  "i \<notin> set anc \<Longrightarrow> length anc < CB_FTS_MAX_DEPTH \<Longrightarrow> length anc < room \<Longrightarrow>
   visit room anc level path (Dir i es) = (FTS_D, level, path) # visit_entries room (i # anc) level path es @ [(FTS_DP, level, path)]"
  by (simp add: visit_entries_def)

declare visit.simps(3) [simp del]

lemma visit_entries_simps [simp]:
  "visit_entries room anc level path [] = []"
  "visit_entries room anc level path ((n, t) # es) = visit room anc (level + 1) (child_path path n) t @ visit_entries room anc level path es"
  by (simp_all add: visit_entries_def)

section \<open>The contract\<close>

locale tree_calls = resource_calls +
  fixes view :: "'a \<Rightarrow> bool" and names :: "'a \<Rightarrow> int \<Rightarrow> string list" and slots :: "'a \<Rightarrow> nat"
    and tree_at :: "string \<Rightarrow> ftree \<Rightarrow> bool"
  assumes tree_children: "tree_at path (Dir i es) \<Longrightarrow> (n, t) \<in> set es \<Longrightarrow>
      n \<noteq> [] \<and> length n < CB_PATH_MAX \<and> tree_at (child_path path n) t"
    and view_allocate: "ok w \<Longrightarrow> view w \<Longrightarrow> ap_allocate (libc api) k w = (r, w') \<Longrightarrow>
      r \<noteq> None \<and> view w' \<and> names w' = names w \<and> slots w' = slots w"
    and view_release: "ok w \<Longrightarrow> view w \<Longrightarrow> p \<in># blocks w \<Longrightarrow> view (ap_release (libc api) p w) \<and>
      names (ap_release (libc api) p w) = names w \<and> slots (ap_release (libc api) p w) = slots w"
    and view_errno: "ok w \<Longrightarrow> view w \<Longrightarrow> view (ap_set_errno (libc api) e w) \<and>
      names (ap_set_errno (libc api) e w) = names w \<and> slots (ap_set_errno (libc api) e w) = slots w"
    and view_stat: "ok w \<Longrightarrow> view w \<Longrightarrow> tree_at path t \<Longrightarrow> ap_stat api path w = (st, w') \<Longrightarrow>
      view w' \<and> names w' = names w \<and> slots w' = slots w \<and>
      (case t of No_stat \<Rightarrow> st = None
       | Plain \<Rightarrow> \<exists>s. st = Some s \<and> st_type s \<noteq> CB_NODE_DIRECTORY
       | Dir i es \<Rightarrow> \<exists>s. st = Some s \<and> st_type s = CB_NODE_DIRECTORY \<and> st_inode s = i)"
    and view_open: "ok w \<Longrightarrow> view w \<Longrightarrow> tree_at path (Dir i es) \<Longrightarrow> open_dir path w = (d, w') \<Longrightarrow> view w' \<and>
      (if slots w = 0 then d < 0 \<and> names w' = names w \<and> slots w' = 0
       else 0 \<le> d \<and> d \<notin># dirs w \<and> names w' = (names w)(d := map fst es) \<and> slots w' = slots w - 1)"
    and view_read: "ok w \<Longrightarrow> view w \<Longrightarrow> d \<in># dirs w \<Longrightarrow> read_dir d m w = (x, w') \<Longrightarrow>
      (\<forall>n ns. names w d = n # ns \<longrightarrow> n \<noteq> [] \<and> length n < m) \<Longrightarrow> 0 < m \<Longrightarrow> view w' \<and> slots w' = slots w \<and>
      (case names w d of [] \<Rightarrow> (\<exists>y. x = Some ([], y)) \<and> names w' = names w
       | n # ns \<Rightarrow> (\<exists>y. x = Some (n, y)) \<and> names w' = (names w)(d := ns))"
    and view_close: "ok w \<Longrightarrow> view w \<Longrightarrow> d \<in># dirs w \<Longrightarrow> close_dir d w = (c, w') \<Longrightarrow>
      view w' \<and> slots w' = slots w + 1 \<and> (\<forall>d'. d' \<noteq> d \<longrightarrow> names w' d' = names w d')"
begin

definition sees :: "'a \<Rightarrow> (int \<Rightarrow> string list) \<Rightarrow> nat \<Rightarrow> bool" where
  "sees w N S \<longleftrightarrow> view w \<and> names w = N \<and> slots w = S"

lemma sees_errno: "has w B D \<Longrightarrow> sees w N S \<Longrightarrow> sees (ap_set_errno (libc api) e w) N S"
  using view_errno by (simp add: has_def sees_def)

lemma sees_free: "has w (add_mset p B) D \<Longrightarrow> sees w N S \<Longrightarrow> sees (cb_libc_free (libc api) p w) N S"
  using view_release [of w p] release [of w p] view_errno by (simp add: has_def sees_def cb_libc_free_def)

lemma sees_allocate:
  assumes "has w B D" "sees w N S"
  obtains p w' where "ap_allocate (libc api) k w = (Some p, w')" "p \<notin># B" "has w' (add_mset p B) D" "sees w' N S"
proof -
  obtain r w' where r: "ap_allocate (libc api) k w = (r, w')" by fastforce
  have "r \<noteq> None" "sees w' N S" using view_allocate [OF _ _ r] assms by (auto simp: has_def sees_def)
  then show ?thesis using that r has_allocate [OF assms(1) r] by auto
qed

lemma sees_create:
  assumes "has w B D" "sees w N S"
  obtains e ent w' where "entry_create (libc api) parent name level w = (Some (e, ent), w')" "sees w' N S"
    "fe_path ent = (case parent of None \<Rightarrow> name | Some p \<Rightarrow> child_path p name)" "fe_level ent = level"
proof -
  let ?path = "case parent of None \<Rightarrow> name | Some p \<Rightarrow> p @ slash # name"
  obtain e w1 where e: "ap_allocate (libc api) sizeof_ftsent w = (Some e, w1)" "has w1 (add_mset e B) D" "sees w1 N S"
    by (rule sees_allocate [OF assms])
  obtain b w2 where b: "ap_allocate (libc api) (length ?path + 1) w1 = (Some b, w2)" "has w2 (add_mset b (add_mset e B)) D" "sees w2 N S"
    by (rule sees_allocate [OF e(2,3)])
  obtain st w3 where st: "ap_allocate (libc api) sizeof_unix_stat w2 = (Some st, w3)" "sees w3 N S"
    by (rule sees_allocate [OF b(2,3)])
  show ?thesis
    by (rule that [of e _ w3]) (use e(1) b(1) st in \<open>auto simp: entry_create_def Let_def child_path_def split: option.split\<close>)
qed

lemma sees_destroy:
  assumes "holds f (e # es) fs w B D" "sees w N S" "entry_destroy (libc api) (Some e) f w = (f', w')"
  shows "sees w' N S"
proof -
  obtain ent where e: "ft_entries f e = Some ent" using assms(1) by (auto simp: holds_def)
  let ?B = "{#ft_block f#} + entries_blocks (ft_entries f) es + frames_blocks fs + B"
  have 1: "has w (add_mset (fe_statp ent) (add_mset (fe_path_block ent) (add_mset e ?B))) (frames_dirs fs + D)"
    using assms(1) e by (simp add: holds_def entry_blocks_def add_mset_commute)
  have "w' = cb_libc_free (libc api) e (cb_libc_free (libc api) (fe_path_block ent) (cb_libc_free (libc api) (fe_statp ent) w))"
    using assms(3) e by (simp add: entry_destroy_def)
  then show ?thesis using 1 sees_free has_free assms(2) by metis
qed

lemma sees_closedir:
  assumes "has w (add_mset (ld_block dir) B) (add_mset (ld_descriptor dir) D)" "sees w N S"
  shows "\<exists>N'. sees (snd (cb_libc_closedir api (Some dir) w)) N' (S + 1) \<and> (\<forall>d. d \<noteq> ld_descriptor dir \<longrightarrow> N' d = N d)"
proof -
  obtain n w1 where c: "close_dir (ld_descriptor dir) w = (n, w1)" by fastforce
  have 1: "ok w1" "blocks w1 = add_mset (ld_block dir) B" using close_dir [OF _ _ c] assms(1) by (auto simp: has_def)
  have v: "view w1" "slots w1 = S + 1" "\<forall>d. d \<noteq> ld_descriptor dir \<longrightarrow> names w1 d = N d"
    using view_close [OF _ _ _ c] assms by (auto simp: has_def sees_def)
  then show ?thesis using c view_release [of w1 "ld_block dir"] 1
    by (auto simp: cb_libc_closedir_def dir_calls sees_def intro!: exI [of _ "names w1"])
qed

lemma sees_opendir:
  assumes "has w B D" "sees w N S" "tree_at path (Dir i es)" "cb_libc_opendir api path w = (r, w')"
  shows "if S = 0 then r = None \<and> sees w' N 0
    else \<exists>dir. r = Some dir \<and> ld_descriptor dir \<notin># D \<and> sees w' (N(ld_descriptor dir := map fst es)) (S - 1)"
proof -
  obtain d w1 where o: "open_dir path w = (d, w1)" by fastforce
  have v: "view w1" "if S = 0 then d < 0 \<and> names w1 = N \<and> slots w1 = 0
      else 0 \<le> d \<and> d \<notin># D \<and> names w1 = N(d := map fst es) \<and> slots w1 = S - 1"
    using view_open [OF _ _ assms(3) o] assms(1,2) by (auto simp: has_def sees_def)
  show ?thesis
  proof (cases "S = 0")
    case True
    then show ?thesis using assms(4) o v by (auto simp: cb_libc_opendir_def dir_calls sees_def)
  next
    case False
    then have d: "\<not> d < 0" "d \<notin># D" "sees w1 (N(d := map fst es)) (S - 1)" using v by (auto simp: sees_def)
    have "has w1 B (add_mset d D)" using open_dir [OF _ o] assms(1) d(1) by (auto simp: has_def)
    then obtain p w2 where "ap_allocate (libc api) sizeof_cb_libc_dir w1 = (Some p, w2)" "sees w2 (N(d := map fst es)) (S - 1)"
      using d(3) by (rule sees_allocate)
    then show ?thesis using False assms(4) o d by (auto simp: cb_libc_opendir_def dir_calls)
  qed
qed

lemma sees_readdir:
  assumes "has w B D" "sees w N S" "ld_descriptor dir \<in># D" "cb_libc_readdir api (Some dir) w = (r, w')"
    "\<forall>n ns. N (ld_descriptor dir) = n # ns \<longrightarrow> n \<noteq> [] \<and> length n < CB_PATH_MAX"
  shows "case N (ld_descriptor dir) of [] \<Rightarrow> r = None \<and> sees w' N S
    | n # ns \<Rightarrow> \<exists>d. r = Some d \<and> de_name d = n \<and> sees w' (N(ld_descriptor dir := ns)) S"
proof -
  obtain x w1 where x: "read_dir (ld_descriptor dir) CB_PATH_MAX w = (x, w1)" by fastforce
  have pos: "0 < CB_PATH_MAX" by (simp add: CB_PATH_MAX_def)
  have v: "view w1 \<and> slots w1 = S \<and> (case N (ld_descriptor dir) of [] \<Rightarrow> (\<exists>y. x = Some ([], y)) \<and> names w1 = N
       | n # ns \<Rightarrow> (\<exists>y. x = Some (n, y)) \<and> names w1 = N(ld_descriptor dir := ns))"
    using view_read [OF _ _ _ x _ pos] assms(1,2,3,5) by (auto simp: has_def sees_def)
  show ?thesis using assms(4,5) x v by (auto simp: cb_libc_readdir_def dir_calls sees_def split: list.splits)
qed

section \<open>Visiting an entry\<close>

definition promised :: "string \<Rightarrow> (string \<times> ftree) list \<Rightarrow> bool" where
  "promised path es \<longleftrightarrow> (\<forall>(n, t)\<in>set es. n \<noteq> [] \<and> length n < CB_PATH_MAX \<and> tree_at (child_path path n) t)"

definition frame_work :: "cb_fts \<Rightarrow> (int \<Rightarrow> string list) \<Rightarrow> cb_fts_frame \<Rightarrow> int \<times> string \<times> (string \<times> ftree) list \<Rightarrow> bool" where
  "frame_work f N fr = (\<lambda>(level, path, es). \<not> fr_skip fr \<and>
     (\<exists>ent. ft_entries f (fr_entry fr) = Some ent \<and> fe_path ent = path \<and> fe_level ent = level) \<and>
     N (ld_descriptor (fr_dir fr)) = map fst es \<and> promised path es)"

abbreviation descriptors :: "cb_fts \<Rightarrow> int list" where
  "descriptors f \<equiv> map (\<lambda>fr. ld_descriptor (fr_dir fr)) (ft_stack f)"

abbreviation inodes :: "cb_fts \<Rightarrow> nat list" where
  "inodes f \<equiv> map fr_inode (ft_stack f)"

definition inside :: "cb_fts \<Rightarrow> 'a \<Rightarrow> nat \<Rightarrow> fts_work \<Rightarrow> bool" where
  "inside f w room work \<longleftrightarrow> (\<exists>N S. sees w N S \<and> S + length (ft_stack f) = room \<and>
     list_all2 (frame_work f N) (ft_stack f) work \<and> distinct (descriptors f))"

lemma frames_cong:
  assumes "list_all2 (frame_work f N) fs work" "\<And>fr. fr \<in> set fs \<Longrightarrow> ft_entries f' (fr_entry fr) = ft_entries f (fr_entry fr)"
    "\<And>fr. fr \<in> set fs \<Longrightarrow> N' (ld_descriptor (fr_dir fr)) = N (ld_descriptor (fr_dir fr))"
  shows "list_all2 (frame_work f' N') fs work"
  using assms(1) by (rule list.rel_mono_strong) (use assms(2,3) in \<open>auto simp: frame_work_def\<close>)

lemma return_entry_fields [simp]:
  "ft_stack (return_entry e f) = ft_stack f" "ft_entries (return_entry e f) = ft_entries f"
  "ft_path_argv (return_entry e f) = ft_path_argv f" "ft_root_index (return_entry e f) = ft_root_index f"
  by (simp_all add: return_entry_def split: option.split)

lemma frame_work_return: "frame_work (return_entry e f) = frame_work f"
  by (simp add: fun_eq_iff frame_work_def)

lemma set_entry_fields [simp]:
  "ft_stack (set_entry f e ent) = ft_stack f" "ft_entries (set_entry f e ent) = (ft_entries f)(e \<mapsto> ent)"
  "ft_path_argv (set_entry f e ent) = ft_path_argv f" "ft_root_index (set_entry f e ent) = ft_root_index f"
  by (simp_all add: set_entry_def)

text \<open>The status as classification sees it.\<close>

lemma sees_stat:
  assumes "has w B D" "sees w N S" "tree_at path t" "cb_libc_stat api (Some path) w = (r, w')"
  shows "sees w' N S \<and> (case t of No_stat \<Rightarrow> r = None
    | Plain \<Rightarrow> \<exists>s. r = Some s \<and> \<not> S_ISDIR (us_mode s)
    | Dir i es \<Rightarrow> \<exists>s. r = Some s \<and> S_ISDIR (us_mode s) \<and> us_ino s = i)"
proof -
  obtain st where st: "ap_stat api path w = (st, w')" "r = map_option (translate_stat (ap_stat_metadata api)) st"
    using assms(4) by (auto simp: cb_libc_stat_def split: prod.splits)
  have m: "S_ISDIR (us_mode (translate_stat x y)) \<longleftrightarrow> st_type y = CB_NODE_DIRECTORY" "us_ino (translate_stat x y) = st_inode y" for x y
    by (simp_all add: translate_stat_def type_bits_dir)
  show ?thesis using view_stat [OF _ _ assms(3) st(1)] assms(1,2) st(2) m by (auto simp: has_def sees_def split: ftree.splits)
qed

lemma classify_visit:
  assumes h: "has w B (frames_dirs (ft_stack f) + D)" and s: "sees w N S" and room: "S + length (ft_stack f) = room"
    and wk: "list_all2 (frame_work f N) (ft_stack f) work" and dist: "distinct (descriptors f)"
    and e: "e \<notin> fr_entry ` set (ft_stack f)" and t: "tree_at (fe_path ent) t"
    and c: "classify api f e ent w = (f', w')"
  shows "\<exists>ent' work'. ft_entries f' e = Some ent' \<and> inside f' w' room work' \<and>
    visit room (inodes f) (fe_level ent) (fe_path ent) t @ visit_rest room (inodes f) work =
      (fe_info ent', fe_level ent', fe_path ent') # visit_rest room (inodes f') work' \<and>
    ft_path_argv f' = ft_path_argv f \<and> ft_root_index f' = ft_root_index f"
proof -
  have stay: ?thesis if "f' = set_entry f e ent'" "sees w' N S" "fe_level ent' = fe_level ent" "fe_path ent' = fe_path ent"
    "visit room (inodes f) (fe_level ent) (fe_path ent) t = [(fe_info ent', fe_level ent, fe_path ent)]" for ent'
  proof (intro exI [of _ ent'] exI [of _ work] conjI)
    have "list_all2 (frame_work f' N) (ft_stack f') work" unfolding that(1) set_entry_fields
      by (rule frames_cong [OF wk]) (use e in auto)
    then show "inside f' w' room work" unfolding inside_def using that(1,2) room dist by auto
  qed (use that in auto)
  obtain r w1 where r: "cb_libc_stat api (Some (fe_path ent)) w = (r, w1)" by fastforce
  note st = sees_stat [OF h s t r]
  have h1: "has w1 B (frames_dirs (ft_stack f) + D)" by (rule has_stat [OF h r])
  show ?thesis
  proof (cases t)
    case No_stat
    then show ?thesis using c r st by (intro stay [where ent' = "ent\<lparr>fe_info := FTS_NS, fe_errno := ap_get_errno (libc api) w1\<rparr>"]) (auto simp: classify_def)
  next
    case Plain
    then obtain u where u: "r = Some u" "\<not> S_ISDIR (us_mode u)" using st by auto
    then show ?thesis using Plain c r st by (intro stay [where ent' = "ent\<lparr>fe_stat := u, fe_info := FTS_DEFAULT\<rparr>"]) (auto simp: classify_def)
  next
    case (Dir i es)
    then obtain u where u: "r = Some u" "S_ISDIR (us_mode u)" "us_ino u = i" "sees w1 N S" using st by auto
    let ?ent = "ent\<lparr>fe_stat := u\<rparr>"
    obtain r2 w2 where o: "cb_libc_opendir api (fe_path ent) w1 = (r2, w2)" by fastforce
    have cyc: "cycle_detected f i \<longleftrightarrow> i \<in> set (inodes f)" by (simp add: cycle_detected_def)
    note od = sees_opendir [OF h1 u(4) t [unfolded Dir] o]
    show ?thesis
    proof (cases "i \<in> set (inodes f) \<or> length (ft_stack f) \<ge> CB_FTS_MAX_DEPTH")
      case True
      let ?ent' = "if i \<in> set (inodes f) then ?ent\<lparr>fe_info := FTS_DC\<rparr> else ?ent\<lparr>fe_info := FTS_DNR, fe_errno := errno_value CB_ENAMETOOLONG\<rparr>"
      show ?thesis using True Dir c r u cyc by (intro stay [where ent' = ?ent']) (auto simp: classify_def Let_def visit.simps)
    next
      case False
      then have c2: "classify api f e ent w = (case r2 of None \<Rightarrow> (set_entry f e (?ent\<lparr>fe_info := FTS_DNR, fe_errno := ap_get_errno (libc api) w2\<rparr>), w2)
        | Some dir \<Rightarrow> ((set_entry f e (?ent\<lparr>fe_info := FTS_D\<rparr>))\<lparr>ft_stack := \<lparr>fr_dir = dir, fr_inode = i, fr_entry = e, fr_skip = False\<rparr> # ft_stack f\<rparr>, w2))"
        using r u o cyc by (simp add: classify_def split: option.split)
      show ?thesis
      proof (cases "S = 0")
        case True
        then have "r2 = None" "sees w2 N 0" using od by simp_all
        then show ?thesis using c c2 False True room Dir
          by (intro stay [where ent' = "?ent\<lparr>fe_info := FTS_DNR, fe_errno := ap_get_errno (libc api) w2\<rparr>"]) (auto simp: visit.simps)
      next
        case S: False
        then obtain dir where dir: "r2 = Some dir" "ld_descriptor dir \<notin># frames_dirs (ft_stack f) + D"
          "sees w2 (N(ld_descriptor dir := map fst es)) (S - 1)" using od by auto
        let ?fr = "\<lparr>fr_dir = dir, fr_inode = i, fr_entry = e, fr_skip = False\<rparr>" and ?N = "N(ld_descriptor dir := map fst es)"
        let ?ent' = "?ent\<lparr>fe_info := FTS_D\<rparr>"
        have f': "f' = (set_entry f e ?ent')\<lparr>ft_stack := ?fr # ft_stack f\<rparr>" "w' = w2" using c c2 dir by simp_all
        have new: "ld_descriptor dir \<notin> set (descriptors f)" using dir(2) by (auto simp: frames_dirs_def)
        have "promised (fe_path ent) es" using tree_children [OF t [unfolded Dir]] by (auto simp: promised_def)
        then have top: "frame_work f' ?N ?fr (fe_level ent, fe_path ent, es)" by (simp add: frame_work_def f'(1))
        have rest: "list_all2 (frame_work f' ?N) (ft_stack f) work"
          by (rule frames_cong [OF wk]) (use e new in \<open>force simp: f'(1)\<close>)+
        show ?thesis
        proof (intro exI conjI)
          show "inside f' w' room ((fe_level ent, fe_path ent, es) # work)"
            unfolding inside_def using dir(3) f' top rest S room dist new by (intro exI [of _ ?N] exI [of _ "S - 1"]) auto
          show "ft_entries f' e = Some ?ent'" using f' by simp
        qed (use f' False S room Dir in \<open>simp_all add: visit_dir\<close>)
      qed
    qed
  qed
qed

section \<open>Reading\<close>

text \<open>The traversal stands at \<open>work\<close>, with the roots \<open>roots\<close> still to come.\<close>

definition standing :: "cb_fts \<Rightarrow> 'a \<Rightarrow> addr multiset \<Rightarrow> int multiset \<Rightarrow> nat \<Rightarrow> fts_work \<Rightarrow> (string \<times> ftree) list \<Rightarrow> bool" where
  "standing f w B D room work roots \<longleftrightarrow> owns f w B D \<and> inside f w room work \<and>
     drop (ft_root_index f) (ft_path_argv f) = map fst roots \<and> (\<forall>(r, t)\<in>set roots. tree_at r t)"

abbreviation to_come :: "cb_fts \<Rightarrow> nat \<Rightarrow> fts_work \<Rightarrow> (string \<times> ftree) list \<Rightarrow> (fts_info \<times> int \<times> string) list" where
  "to_come f room work roots \<equiv> visit_rest room (inodes f) work @ visit_roots room roots"

definition shows_next :: "addr option \<times> cb_fts \<times> 'a \<Rightarrow> addr multiset \<Rightarrow> int multiset \<Rightarrow> nat \<Rightarrow> (fts_info \<times> int \<times> string) list \<Rightarrow> bool" where
  "shows_next out B D room vs \<longleftrightarrow> (case out of (r, f, w) \<Rightarrow>
     \<exists>work roots. standing f w B D room work roots \<and>
       (case r of None \<Rightarrow> vs = [] \<and> to_come f room work roots = []
        | Some e \<Rightarrow> \<exists>ent. ft_entries f e = Some ent \<and> vs = (fe_info ent, fe_level ent, fe_path ent) # to_come f room work roots))"

lemma visit_next:
  assumes f: "owns f w B D" "ft_pending_free f = None" "inside f w room work"
    and roots: "drop (ft_root_index f) (ft_path_argv f) = map fst roots" "\<forall>(r, t)\<in>set roots. tree_at r t"
    and t: "tree_at path t" "path = (case parent of None \<Rightarrow> name | Some p \<Rightarrow> child_path p name)"
  shows "\<exists>e ent w1. entry_create (libc api) parent name level w = (Some (e, ent), w1) \<and>
    shows_next (case classify api f e ent w1 of (f1, w2) \<Rightarrow> (Some e, return_entry e f1, w2)) B D room
      (visit room (inodes f) level path t @ to_come f room work roots)"
proof -
  let ?B = "{#ft_block f#} + entries_blocks (ft_entries f) (pointers f) + frames_blocks (ft_stack f) + B"
  obtain N S where i: "sees w N S" "S + length (ft_stack f) = room" "list_all2 (frame_work f N) (ft_stack f) work" "distinct (descriptors f)"
    using f(3) by (auto simp: inside_def)
  have h: "has w ?B (frames_dirs (ft_stack f) + D)" using f(1) by (simp add: holds_def)
  obtain e ent w1 where c: "entry_create (libc api) parent name level w = (Some (e, ent), w1)" "sees w1 N S"
    "fe_path ent = path" "fe_level ent = level" using sees_create [OF h i(1)] t(2) by metis
  note he = has_entry_create [OF h c(1), unfolded option.case prod.case]
  have "e \<notin># entries_blocks (ft_entries f) (pointers f)" using he by auto
  then have e: "e \<notin> fr_entry ` set (ft_stack f)" using entries_blocks_mem [of e "pointers f"] by (auto simp: pointers_def)
  obtain f1 w2 where k: "classify api f e ent w1 = (f1, w2)" by fastforce
  obtain ent' work' where v: "ft_entries f1 e = Some ent'" "inside f1 w2 room work'"
    "visit room (inodes f) level path t @ visit_rest room (inodes f) work = (fe_info ent', fe_level ent', fe_path ent') # visit_rest room (inodes f1) work'"
    "ft_path_argv f1 = ft_path_argv f" "ft_root_index f1 = ft_root_index f"
    using classify_visit [OF conjunct2 [OF he] c(2) i(2,3,4) e _ k, of t] t(1) c(3,4) by auto
  have "owns (return_entry e f1) w2 B D" using holds_visit [OF f(1,2) c(1) k] by simp
  moreover have "inside (return_entry e f1) w2 room work'"
    using v(2) by (simp add: inside_def frame_work_return)
  ultimately have "standing (return_entry e f1) w2 B D room work' roots" using v(4,5) roots by (simp add: standing_def)
  moreover have "visit room (inodes f) level path t @ to_come f room work roots =
    (fe_info ent', fe_level ent', fe_path ent') # to_come (return_entry e f1) room work' roots"
    using v(3) by (simp flip: append_assoc)
  ultimately have "shows_next (Some e, return_entry e f1, w2) B D room (visit room (inodes f) level path t @ to_come f room work roots)"
    using v(1) unfolding shows_next_def prod.case option.case return_entry_fields by blast
  then show ?thesis using c(1) k by auto
qed

lemma read_root_shows:
  assumes "standing f w B D room [] roots" "ft_pending_free f = None" "ft_stack f = []"
  shows "shows_next (read_root api f w) B D room (to_come f room [] roots)"
proof (cases roots)
  case Nil
  let ?w = "ap_set_errno (libc api) 0 w"
  obtain N S where i: "sees w N S" "S = room" using assms(1,3) by (auto simp: standing_def inside_def)
  have "owns f w B D" using assms(1) by (simp add: standing_def)
  then have "owns f ?w B D" "sees ?w N S" using has_errno sees_errno i by (auto simp: holds_def)
  then have "standing f ?w B D room [] []" using assms(1,3) Nil i by (auto simp: standing_def inside_def)
  moreover have "ft_root_index f \<ge> length (ft_path_argv f)" using assms(1) Nil by (simp add: standing_def)
  ultimately show ?thesis using Nil assms(3)
    by (auto simp: read_root_def shows_next_def visit_roots_def intro!: exI [of _ "[]"])
next
  case (Cons x rest)
  obtain r t where x: "x = (r, t)" by fastforce
  let ?f = "f\<lparr>ft_root_index := ft_root_index f + 1\<rparr>"
  have d: "drop (ft_root_index f) (ft_path_argv f) = r # map fst rest" using assms(1) Cons x by (simp add: standing_def)
  then have i: "ft_root_index f < length (ft_path_argv f)" "ft_path_argv f ! ft_root_index f = r"
    by (metis drop_all list.distinct(1) not_le, metis drop_eq_Nil2 hd_drop_conv_nth list.distinct(1) list.sel(1) not_le)
  have d2: "drop (ft_root_index ?f) (ft_path_argv ?f) = map fst rest" using d by (simp add: drop_Suc tl_drop flip: drop_tl) (metis drop_Suc list.sel(3) tl_drop)
  have o: "owns ?f w B D" "ft_pending_free ?f = None" "inside ?f w room []"
    using assms by (simp_all add: standing_def pointers_def inside_def)
  have "\<forall>(r, t)\<in>set rest. tree_at r t" "tree_at r t" using assms(1) Cons x by (auto simp: standing_def)
  from visit_next [OF o d2 this, where parent = None and name = r and level = 0]
  obtain e ent w1 where v: "entry_create (libc api) None r 0 w = (Some (e, ent), w1)"
    "shows_next (case classify api ?f e ent w1 of (f1, w2) \<Rightarrow> (Some e, return_entry e f1, w2)) B D room
       (visit room (inodes ?f) 0 r t @ to_come ?f room [] rest)" by auto
  have "read_root api f w = (case classify api ?f e ent w1 of (f1, w2) \<Rightarrow> (Some e, return_entry e f1, w2))"
    using i v(1) by (simp add: read_root_def Let_def)
  then show ?thesis using v(2) assms(3) Cons x by (simp add: visit_roots_def)
qed

lemma read_child_shows:
  assumes st: "standing f w B D room work roots" and p: "ft_pending_free f = None" and fs: "ft_stack f = fr # rest"
  shows "shows_next (read_child api fr rest f w) B D room (to_come f room work roots)"
proof -
  obtain N S where i: "sees w N S" "S + length (ft_stack f) = room" "list_all2 (frame_work f N) (fr # rest) work" "distinct (descriptors f)"
    using st fs by (auto simp: standing_def inside_def)
  then obtain level path es work' where wk: "work = (level, path, es) # work'" "frame_work f N fr (level, path, es)"
    "list_all2 (frame_work f N) rest work'" by (cases work) auto
  obtain parent where parent: "ft_entries f (fr_entry fr) = Some parent" "fe_path parent = path" "fe_level parent = level"
    and N: "N (ld_descriptor (fr_dir fr)) = map fst es" "promised path es"
    using wk(2) by (auto simp: frame_work_def)
  have o: "owns f w B D" using st by (simp add: standing_def)
  let ?B = "{#ft_block f#} + entries_blocks (ft_entries f) (pointers f) + frames_blocks (ft_stack f) + B"
  have h: "has w ?B (frames_dirs (ft_stack f) + D)" using o by (simp add: holds_def)
  obtain de w1 where de: "cb_libc_readdir api (Some (fr_dir fr)) w = (de, w1)" by fastforce
  have mem: "ld_descriptor (fr_dir fr) \<in># frames_dirs (ft_stack f) + D" by (simp add: fs)
  have h1: "has w1 ?B (frames_dirs (ft_stack f) + D)" by (rule has_readdir [OF h mem de])
  then have o1: "owns f w1 B D" using o by (simp add: holds_def)
  have fit: "\<forall>n ns. N (ld_descriptor (fr_dir fr)) = n # ns \<longrightarrow> n \<noteq> [] \<and> length n < CB_PATH_MAX"
    using N by (fastforce simp: promised_def)
  note rd = sees_readdir [OF h i(1) mem de fit]
  have "ld_descriptor (fr_dir fr) \<notin> (\<lambda>fr. ld_descriptor (fr_dir fr)) ` set rest" using i(4) fs by simp
  then have other: "ld_descriptor (fr_dir x) \<noteq> ld_descriptor (fr_dir fr)" if "x \<in> set rest" for x using that by (auto simp: image_iff)
  show ?thesis
  proof (cases es)
    case Nil
    let ?f = "(set_entry (f\<lparr>ft_stack := rest\<rparr>) (fr_entry fr) (parent\<lparr>fe_info := FTS_DP\<rparr>))\<lparr>ft_pending_free := Some (fr_entry fr)\<rparr>"
    let ?w = "snd (cb_libc_closedir api (Some (fr_dir fr)) w1)"
    have r: "de = None" "sees w1 N S" using rd N Nil by simp_all
    have out: "read_child api fr rest f w = (Some (fr_entry fr), ?f, ?w)" using de r parent by (simp add: read_child_def Let_def)
    have "owns ?f ?w B D" using owns_read_child [OF o p fs out] by simp
    moreover have "has w1 (add_mset (ld_block (fr_dir fr)) ({#ft_block f#} + entries_blocks (ft_entries f) (pointers f) + frames_blocks rest + B))
        (add_mset (ld_descriptor (fr_dir fr)) (frames_dirs rest + D))" using h1 fs by simp
    from sees_closedir [OF this r(2)] obtain N' where N': "sees ?w N' (S + 1)" "\<forall>d. d \<noteq> ld_descriptor (fr_dir fr) \<longrightarrow> N' d = N d" by blast
    have "fr_entry fr \<notin> fr_entry ` set rest" using o fs by (simp add: holds_def pointers_def)
    then have e: "fr_entry x \<noteq> fr_entry fr" if "x \<in> set rest" for x using that by (auto simp: image_iff)
    have "list_all2 (frame_work ?f N') rest work'" by (rule frames_cong [OF wk(3)]) (use e other N'(2) in auto)
    then have "inside ?f ?w room work'" unfolding inside_def using N'(1) i(2,4) fs by (intro exI [of _ N'] exI [of _ "S + 1"]) simp
    ultimately have "standing ?f ?w B D room work' roots" using st by (simp add: standing_def)
    then show ?thesis unfolding out shows_next_def using parent wk(1) Nil fs by (auto intro!: exI [of _ work'] exI [of _ roots])
  next
    case (Cons x es')
    obtain n t where x: "x = (n, t)" by fastforce
    then obtain d where d: "de = Some d" "de_name d = n" "sees w1 (N(ld_descriptor (fr_dir fr) := map fst es')) S" using rd N Cons by auto
    have tree: "tree_at (child_path path n) t" "promised path es'" using N(2) Cons x by (simp_all add: promised_def)
    let ?N = "N(ld_descriptor (fr_dir fr) := map fst es')" and ?work = "(level, path, es') # work'"
    have "list_all2 (frame_work f ?N) rest work'" by (rule frames_cong [OF wk(3)]) (use other in auto)
    moreover have "frame_work f ?N fr (level, path, es')" using wk(2) tree(2) by (simp add: frame_work_def)
    ultimately have "inside f w1 room ?work" unfolding inside_def using d(3) i(2,4) fs by (intro exI [of _ ?N] exI [of _ S]) simp
    from visit_next [OF o1 p this _ _ tree(1), where parent = "Some path" and name = n and level = "level + 1" and roots = roots]
    obtain e ent w2 where v: "entry_create (libc api) (Some path) n (level + 1) w1 = (Some (e, ent), w2)"
      "shows_next (case classify api f e ent w2 of (f1, w2) \<Rightarrow> (Some e, return_entry e f1, w2)) B D room
         (visit room (inodes f) (level + 1) (child_path path n) t @ to_come f room ?work roots)"
      using st by (auto simp: standing_def)
    have "read_child api fr rest f w = (case classify api f e ent w2 of (f1, w2) \<Rightarrow> (Some e, return_entry e f1, w2))"
      using de d parent v(1) by (simp add: read_child_def)
    then show ?thesis using v(2) wk(1) Cons x fs by simp
  qed
qed

lemma pop_nothing: "\<forall>fr\<in>set fs. \<not> fr_skip fr \<Longrightarrow> ft_stack f = fs \<Longrightarrow> pop_skipped api fs f w = (f, w)"
  by (cases fs) simp_all

lemma next_shows:
  assumes st: "standing f w B D room work roots"
  shows "shows_next (fts_next api f w) B D room (to_come f room work roots)"
proof -
  obtain f1 w1 where d: "entry_destroy (libc api) (ft_pending_free f) f w = (f1, w1)" by fastforce
  let ?f = "f1\<lparr>ft_pending_free := None\<rparr>"
  have o: "owns f w B D" using st by (simp add: standing_def)
  obtain N S where i: "sees w N S" "S + length (ft_stack f) = room" "list_all2 (frame_work f N) (ft_stack f) work" "distinct (descriptors f)"
    using st by (auto simp: standing_def inside_def)
  have 1: "owns ?f w1 B D \<and> sees w1 N S \<and> (\<exists>E. f1 = f\<lparr>ft_entries := E\<rparr> \<and> (\<forall>fr\<in>set (ft_stack f). E (fr_entry fr) = ft_entries f (fr_entry fr)))"
  proof (cases "ft_pending_free f")
    case None
    then have "f1 = f\<lparr>ft_entries := ft_entries f\<rparr>" "w1 = w" using d by (simp_all add: entry_destroy_def)
    then show ?thesis using o i(1) None by (auto simp: pointers_def intro!: exI [of _ "ft_entries f"])
  next
    case (Some e)
    have h: "holds f (e # map fr_entry (ft_stack f)) (ft_stack f) w B D" using o Some by (simp add: pointers_def)
    have d': "entry_destroy (libc api) (Some e) f w = (f1, w1)" using d Some by simp
    note hd = holds_destroy [OF h d'] and sd = sees_destroy [OF h i(1) d']
    have "e \<notin> fr_entry ` set (ft_stack f)" using h by (auto simp: holds_def)
    then show ?thesis using hd sd by (auto simp: pointers_def intro!: exI [of _ "(ft_entries f)(e := None)"])
  qed
  then obtain E where E: "f1 = f\<lparr>ft_entries := E\<rparr>" "\<forall>fr\<in>set (ft_stack f). E (fr_entry fr) = ft_entries f (fr_entry fr)" by blast
  have wk: "list_all2 (frame_work ?f N) (ft_stack f) work" by (rule frames_cong [OF i(3)]) (use E in simp_all)
  have st1: "standing ?f w1 B D room work roots"
    using 1 st wk i E by (auto simp: standing_def inside_def)
  have "\<forall>fr\<in>set (ft_stack f). \<not> fr_skip fr"
    using list_all2_nthD [OF i(3)] by (fastforce simp: frame_work_def in_set_conv_nth)
  then have pop: "pop_skipped api (ft_stack f1) ?f w1 = (?f, w1)" using E(1) by (intro pop_nothing) simp_all
  have n: "fts_next api f w = (case ft_stack ?f of fr # rest \<Rightarrow> read_child api fr rest ?f w1 | [] \<Rightarrow> read_root api ?f w1)"
    unfolding fts_next_def d prod.case pop ..
  have stack: "ft_stack ?f = ft_stack f" "inodes ?f = inodes f" "ft_pending_free ?f = None" using E(1) by simp_all
  show ?thesis
  proof (cases "ft_stack f")
    case Nil
    then have "work = []" using i(3) by simp
    then show ?thesis using read_root_shows [of ?f w1 B D room roots] st1 stack Nil unfolding n by simp
  next
    case (Cons fr rest)
    then show ?thesis using read_child_shows [OF st1 stack(3), of fr rest] stack unfolding n by simp
  qed
qed

lemma walk_shows:
  assumes "standing f w B D room work roots" "length (to_come f room work roots) < fuel"
  shows "\<exists>f' w'. fts_walk fuel api f w = Some (to_come f room work roots, f', w') \<and> owns f' w' B D"
  using assms
proof (induction fuel arbitrary: f w work roots)
  case (Suc fuel)
  obtain r f1 w1 where n: "fts_next api f w = (r, f1, w1)" by (metis prod_cases3)
  note nx = next_shows [OF Suc.prems(1), unfolded n shows_next_def prod.case]
  then obtain work1 roots1 where s1: "standing f1 w1 B D room work1 roots1" and
    c: "case r of None \<Rightarrow> to_come f room work roots = [] | Some e \<Rightarrow> \<exists>ent. ft_entries f1 e = Some ent \<and>
      to_come f room work roots = (fe_info ent, fe_level ent, fe_path ent) # to_come f1 room work1 roots1" by (auto split: option.splits)
  show ?case
  proof (cases r)
    case None
    then show ?thesis using n c s1 by (simp add: standing_def)
  next
    case (Some e)
    then obtain ent where e: "ft_entries f1 e = Some ent"
      "to_come f room work roots = (fe_info ent, fe_level ent, fe_path ent) # to_come f1 room work1 roots1" using c by auto
    then obtain f' w' where "fts_walk fuel api f1 w1 = Some (to_come f1 room work1 roots1, f', w')" "owns f' w' B D"
      using Suc.IH [OF s1] Suc.prems(2) by auto
    then show ?thesis using n Some e by simp
  qed
qed simp

lemma open_walk:
  assumes "ok w" "view w" "roots \<noteq> []" "options AND FTS_XDEV = 0" "\<forall>(r, t)\<in>set roots. tree_at r t"
    "length (visit_roots (slots w) roots) < fuel"
  shows "\<exists>f w1 f' w'. cb_libc_fts_open api (Some (map fst roots)) options w = (Some f, w1) \<and>
    fts_walk fuel api f w1 = Some (visit_roots (slots w) roots, f', w') \<and> owns f' w' (blocks w) (dirs w)"
proof -
  have h: "has w (blocks w) (dirs w)" "sees w (names w) (slots w)" using assms(1,2) by (simp_all add: has_def sees_def)
  obtain p w1 where p: "ap_allocate (libc api) sizeof_cb_fts w = (Some p, w1)" "has w1 (add_mset p (blocks w)) (dirs w)"
    "sees w1 (names w) (slots w)" by (rule sees_allocate [OF h])
  let ?f = "\<lparr>ft_block = p, ft_path_argv = map fst roots, ft_root_index = 0, ft_options = options, ft_stack = [],
    ft_pending_free = None, ft_entries = (\<lambda>e. None), ft_fault = False\<rparr>"
  have o: "cb_libc_fts_open api (Some (map fst roots)) options w = (Some ?f, w1)" using assms(3,4) p(1) by (simp add: cb_libc_fts_open_def)
  have "standing ?f w1 (blocks w) (dirs w) (slots w) [] roots"
    using p(2,3) assms(5) by (auto simp: standing_def holds_def pointers_def inside_def)
  from walk_shows [OF this, of fuel] assms(6) show ?thesis using o by simp
qed

end

end
