(* ===== verification/Kernel_Unix.thy ===== *)
theory Kernel_Unix
  imports Kernel_Libc Fts_Walk
begin

text \<open>
  The rest of the C library on this kernel: the table of calls with directories and paths, and the blocks and
  directory handles of a task, which meet the contract of the traversal functions.
\<close>

section \<open>The table of calls\<close>

fun stat_result :: "result option \<Rightarrow> cb_stat option" where
  "stat_result (Some (R_stat n s)) = s"
| "stat_result _ = None"

fun entry_result :: "result option \<Rightarrow> (string \<times> nat \<times> node_type) option" where
  "entry_result (Some (R_entry n x)) = x"
| "entry_result (Some R_end_of_directory) = Some ([], 0, CB_NODE_REGULAR)"
| "entry_result _ = None"

definition unix_kernel_api ::
  "(nat \<Rightarrow> cb_kernel \<Rightarrow> bool) \<Rightarrow> (cb_kernel \<Rightarrow> kernel_event list) \<Rightarrow> addr \<Rightarrow> cb_kernel unix_api" where
  "unix_kernel_api heap sched a =
     \<lparr>libc = libc_kernel_api heap sched a,
      ap_exit = (\<lambda>status k. snd (syscall sched a (C_exit status) k)),
      ap_truncate = (\<lambda>path len k. on_result int_result (syscall sched a (C_truncate path len) k)),
      ap_ftruncate = (\<lambda>d len k. on_result int_result (syscall sched a (C_ftruncate d len) k)),
      ap_lseek = (\<lambda>d offset whence k. on_result int_result (syscall sched a (C_lseek d offset whence) k)),
      ap_stat = (\<lambda>path k. on_result stat_result (syscall sched a (C_stat path False) k)),
      ap_fstat = (\<lambda>d k. on_result stat_result (syscall sched a (C_fstat d False) k)),
      ap_stat_metadata = True,
      ap_unlink = Some (\<lambda>path k. on_result int_result (syscall sched a (C_unlink path) k)),
      ap_mkdir = Some (\<lambda>path mode k. on_result int_result (syscall sched a (C_mkdir path mode) k)),
      ap_rmdir = Some (\<lambda>path k. on_result int_result (syscall sched a (C_rmdir path) k)),
      ap_rename = Some (\<lambda>old new k. on_result int_result (syscall sched a (C_rename old new) k)),
      ap_isatty = Some (\<lambda>d k. on_result int_result (syscall sched a (C_isatty d) k)),
      ap_opendir = Some (\<lambda>path k. on_result int_result (syscall sched a (C_opendir path) k)),
      ap_readdir = Some (\<lambda>d n k. on_result entry_result (syscall sched a (C_readdir d False n) k)),
      ap_closedir = Some (\<lambda>d k. on_result int_result (syscall sched a (C_closedir d) k))\<rparr>"

lemma unix_kernel_api_fields [simp]:
  "libc (unix_kernel_api heap sched a) = libc_kernel_api heap sched a"
  "ap_stat (unix_kernel_api heap sched a) = (\<lambda>path k. on_result stat_result (syscall sched a (C_stat path False) k))"
  "ap_opendir (unix_kernel_api heap sched a) = Some (\<lambda>path k. on_result int_result (syscall sched a (C_opendir path) k))"
  "ap_readdir (unix_kernel_api heap sched a) = Some (\<lambda>d n k. on_result entry_result (syscall sched a (C_readdir d False n) k))"
  "ap_closedir (unix_kernel_api heap sched a) = Some (\<lambda>d k. on_result int_result (syscall sched a (C_closedir d) k))"
  by (simp_all add: unix_kernel_api_def)

section \<open>Blocks and directory handles of a task\<close>

definition task_blocks :: "addr \<Rightarrow> cb_kernel \<Rightarrow> addr multiset" where
  "task_blocks a k = (case k_tasks k a of None \<Rightarrow> {#} | Some t \<Rightarrow> mset (map fst (t_allocations t)))"

definition used_dirs :: "cb_dir_handle list \<Rightarrow> int multiset" where
  "used_dirs hs = mset_set (int ` {i. i < length hs \<and> d_in_use (hs ! i)})"

definition task_dirs :: "addr \<Rightarrow> cb_kernel \<Rightarrow> int multiset" where
  "task_dirs a k = (case k_tasks k a of None \<Rightarrow> {#} | Some t \<Rightarrow> used_dirs (t_directories t))"

text \<open>The task is on the processor, and its blocks are older than the next one to be allocated.\<close>

definition on_unix :: "addr \<Rightarrow> cb_kernel \<Rightarrow> bool" where
  "on_unix a k \<longleftrightarrow> kernel_inv k \<and> k_current k = Some a \<and> (\<forall>p\<in>#task_blocks a k. p < seq k)"

lemma unix_call:
  assumes "on_unix a k" "do_call k a c = (Some x, k')"
  shows "syscall sched a c k = (Some x, k')" "kernel_inv k'" "k_current k' = Some a"
proof -
  have k: "kernel_inv k" "k_current k = Some a" using assms(1) by (simp_all add: on_unix_def)
  have r: "returns a (Some x, k')" using do_call_ok [OF kernel_inv_current [OF k], of c] assms(2) by simp
  show "syscall sched a c k = (Some x, k')" using k assms(2) by (simp add: syscall_def)
  show "kernel_inv k'" using returns_inv [OF r] by simp
  show "k_current k' = Some a" using r by (simp add: good_def)
qed

lemma unix_task:
  assumes "on_unix a k"
  obtains t where "k_tasks k a = Some t" "length (t_directories t) = CB_MAX_DIRS" "t_root t = vfs_root (k_vfs k)" "kinv k zero zero"
    "\<forall>h\<in>set (t_directories t). d_in_use h \<longrightarrow> d_node h \<noteq> None"
proof -
  have g: "good k a zero zero" using assms kernel_inv_current by (auto simp: on_unix_def)
  obtain t where t: "k_tasks k a = Some t" "task_shape (vfs_root (k_vfs k)) t" by (rule goodE [OF g])
  then show ?thesis using that good_kinv [OF g] by (auto simp: task_shape_def)
qed

lemma node_release_host: "v_host (node_release n v c) = v_host v" "v_host (destroy_children n v p) = v_host v"
  by (induction n v c and n v p rule: node_release_destroy_children.induct)
    (auto simp: Let_def orphan_child_def cb_executor_program_destroy_def split: option.split)

lemma node_ops_seq [simp]: "seq (cb_vfs_node_retain k n) = seq k" "seq (cb_vfs_node_release k n) = seq k"
  by (auto simp: cb_vfs_node_retain_def cb_vfs_node_release_def fault_def ramfs_node_retain_def ramfs_node_release_def node_release_host
      split: option.split)

text \<open>Slots of the array of directory handles.\<close>

lemma used_dirs_mem: "d \<in># used_dirs hs \<longleftrightarrow> 0 \<le> d \<and> nat d < length hs \<and> d_in_use (hs ! nat d)"
  by (auto simp: used_dirs_def intro!: image_eqI [of _ _ "nat d"])

lemma used_dirs_upd:
  assumes "i < length hs"
  shows "used_dirs (hs[i := h]) = (if d_in_use h then add_mset (int i) (used_dirs hs - {#int i#}) else used_dirs hs - {#int i#})"
proof -
  let ?U = "\<lambda>hs. int ` {i. i < length hs \<and> d_in_use (hs ! i)}"
  have u: "?U (hs[i := h]) = (if d_in_use h then insert (int i) (?U hs - {int i}) else ?U hs - {int i})"
    using assms by (auto simp: nth_list_update image_iff split: if_splits)
  have r: "mset_set (?U hs - {int i}) = used_dirs hs - {#int i#}" unfolding used_dirs_def by (rule multiset_eqI) (auto simp: count_mset_set')
  have "mset_set (insert (int i) (?U hs - {int i})) = add_mset (int i) (mset_set (?U hs - {int i}))" by (rule mset_set.insert) auto
  then have "mset_set (insert (int i) (?U hs - {int i})) = add_mset (int i) (used_dirs hs - {#int i#})" unfolding r .
  then show ?thesis unfolding used_dirs_def [of "hs[i := h]"] u using r by (simp only: split: if_split) blast
qed

section \<open>The calls\<close>

lemma unix_step:
  assumes "on_unix a k" "do_call k a c = (Some x, k')" "seq k \<le> seq k'" "set_mset (task_blocks a k') \<subseteq> set_mset (task_blocks a k)"
  shows "on_unix a k'"
  using unix_call(2,3) [OF assms(1,2)] assms(1,3,4) unfolding on_unix_def by fastforce

lemma same_task_parts:
  assumes "k_tasks k a = Some t" "k_tasks k' a = Some t'" "t_allocations t' = t_allocations t"
  shows "task_blocks a k' = task_blocks a k" "task_dirs a k' = used_dirs (t_directories t')" "task_dirs a k = used_dirs (t_directories t)"
  using assms by (simp_all add: task_blocks_def task_dirs_def)

lemma unix_errno:
  assumes "on_unix a k"
  shows "syscall sched a (C_set_errno e) k = (Some R_void, cb_task_set_error k a e)" "on_unix a (cb_task_set_error k a e)"
    "task_blocks a (cb_task_set_error k a e) = task_blocks a k" "task_dirs a (cb_task_set_error k a e) = task_dirs a k"
proof -
  obtain t where t: "k_tasks k a = Some t" by (rule unix_task [OF assms])
  have c: "do_call k a (C_set_errno e) = (Some R_void, cb_task_set_error k a e)" by simp
  note t' = set_error_at [OF t, of e]
  show b: "task_blocks a (cb_task_set_error k a e) = task_blocks a k" "task_dirs a (cb_task_set_error k a e) = task_dirs a k"
    using same_task_parts [OF t t'] by simp_all
  show "syscall sched a (C_set_errno e) k = (Some R_void, cb_task_set_error k a e)" by (rule unix_call(1) [OF assms c])
  show "on_unix a (cb_task_set_error k a e)" by (rule unix_step [OF assms c]) (simp_all add: b)
qed

lemma unix_allocate:
  assumes "on_unix a k" "on_result pointer_result (syscall sched a (C_allocate n) k) = (r, k')"
  shows "on_unix a k' \<and> task_dirs a k' = task_dirs a k \<and>
    (case r of None \<Rightarrow> task_blocks a k' = task_blocks a k | Some p \<Rightarrow> p \<notin># task_blocks a k \<and> task_blocks a k' = add_mset p (task_blocks a k))"
proof -
  obtain t where t: "k_tasks k a = Some t" by (rule unix_task [OF assms(1)])
  let ?n = "if n = 0 then 1 else n" and ?h = "k_host k\<lparr>alloc_seq := seq k + 1\<rparr>" and ?h2 = "k_host k\<lparr>alloc_seq := seq k + 2\<rparr>"
  have "fst (do_call k a (C_allocate n)) \<noteq> None" by (simp add: api_allocate_def t split: prod.split option.split)
  then obtain x k1 where c: "do_call k a (C_allocate n) = (Some x, k1)" by (metis not_None_eq surjective_pairing)
  note u = unix_call [OF assms(1) c]
  have r: "r = pointer_result (Some x)" "k' = k1" using assms(2) u(1) by (simp_all add: on_result_def)
  have "x = R_pointer None \<and> seq k \<le> seq k1 \<and> k_tasks k1 a = Some (t\<lparr>t_error := errno_value CB_ENOMEM\<rparr>) \<or>
    x = R_pointer (Some (seq k)) \<and> seq k1 = seq k + 2 \<and> k_tasks k1 a = Some (t\<lparr>t_allocations := (seq k, ?n) # t_allocations t, t_error := 0\<rparr>)"
    using c t by (auto simp: api_allocate_def cb_allocate_def cb_task_set_error_def set_ledger_def upd_task_def split: if_splits)
  then show ?thesis
  proof
    assume n: "x = R_pointer None \<and> seq k \<le> seq k1 \<and> k_tasks k1 a = Some (t\<lparr>t_error := errno_value CB_ENOMEM\<rparr>)"
    then have b: "task_blocks a k1 = task_blocks a k" "task_dirs a k1 = task_dirs a k" using t by (simp_all add: task_blocks_def task_dirs_def)
    then show ?thesis using unix_step [OF assms(1) c] n r by simp
  next
    assume s: "x = R_pointer (Some (seq k)) \<and> seq k1 = seq k + 2 \<and> k_tasks k1 a = Some (t\<lparr>t_allocations := (seq k, ?n) # t_allocations t, t_error := 0\<rparr>)"
    then have b: "task_blocks a k1 = add_mset (seq k) (task_blocks a k)" "task_dirs a k1 = task_dirs a k"
      using t by (simp_all add: task_blocks_def task_dirs_def)
    have "p < seq k1" if "p \<in># task_blocks a k1" for p using that b(1) s assms(1) by (auto simp: on_unix_def)
    then have "on_unix a k1" using u(2,3) by (simp add: on_unix_def)
    moreover have "seq k \<notin># task_blocks a k" using assms(1) by (auto simp: on_unix_def)
    ultimately show ?thesis using b s r by simp
  qed
qed

lemma ledger_remove_blocks: "in_ledger p es \<Longrightarrow> mset (map fst (ledger_remove p es)) = mset (map fst es) - {#p#}"
  by (induction es) (auto simp: in_ledger_def)

lemma unix_release:
  assumes "on_unix a k" "p \<in># task_blocks a k" "k' = snd (syscall sched a (C_release (Some p)) k)"
  shows "on_unix a k' \<and> task_blocks a k' = task_blocks a k - {#p#} \<and> task_dirs a k' = task_dirs a k \<and> k_vfs k' = k_vfs k \<and>
    (\<forall>t. k_tasks k a = Some t \<longrightarrow> k_tasks k' a = Some (t\<lparr>t_allocations := ledger_remove p (t_allocations t), t_error := 0\<rparr>))"
proof -
  obtain t where t: "k_tasks k a = Some t" by (rule unix_task [OF assms(1)])
  have l: "in_ledger p (t_allocations t)" using assms(2) t by (auto simp: task_blocks_def in_ledger_def list_ex_iff)
  let ?k = "cb_task_set_error (set_ledger k a (ledger_remove p (t_allocations t))) a 0"
  have c: "do_call k a (C_release (Some p)) = (Some R_void, ?k)" using t l by (simp add: api_release_def)
  have k': "k' = ?k" using unix_call(1) [OF assms(1) c] by (simp add: assms(3))
  have t': "k_tasks ?k a = Some (t\<lparr>t_allocations := ledger_remove p (t_allocations t), t_error := 0\<rparr>)" "k_vfs ?k = k_vfs k"
    using t by (simp_all add: cb_task_set_error_def set_ledger_def upd_task_def)
  then have b: "task_blocks a ?k = task_blocks a k - {#p#}" "task_dirs a ?k = task_dirs a k"
    using t ledger_remove_blocks [OF l] by (simp_all add: task_blocks_def task_dirs_def)
  have "on_unix a ?k" by (rule unix_step [OF assms(1) c]) (use b t' in \<open>auto dest: in_diffD\<close>)
  then show ?thesis unfolding k' using b t t' by simp
qed

lemma unix_stat_call:
  assumes "on_unix a k" "on_result stat_result (syscall sched a (C_stat path False) k) = (r, k')"
  shows "on_unix a k' \<and> task_blocks a k' = task_blocks a k \<and> task_dirs a k' = task_dirs a k \<and>
    (\<exists>e. k' = cb_task_set_error k a e) \<and>
    (\<forall>t. k_tasks k a = Some t \<longrightarrow> r = (case cb_vfs_stat_path (k_vfs k) (t_root t) (t_cwd t) path of Inl e \<Rightarrow> None | Inr s \<Rightarrow> Some s))"
proof -
  obtain t where t: "k_tasks k a = Some t" by (rule unix_task [OF assms(1)])
  let ?s = "cb_vfs_stat_path (k_vfs k) (t_root t) (t_cwd t) path"
  obtain x e where c: "do_call k a (C_stat path False) = (Some x, cb_task_set_error k a e)"
    "stat_result (Some x) = (case ?s of Inl e \<Rightarrow> None | Inr s \<Rightarrow> Some s)"
    using t by (cases ?s) (auto simp: api_stat_def)
  have "r = stat_result (Some x)" "k' = cb_task_set_error k a e"
    using assms(2) unix_call(1) [OF assms(1) c(1)] by (simp_all add: on_result_def)
  then show ?thesis using unix_errno(2,3,4) [OF assms(1), where e = e] c(2) t by auto
qed

text \<open>Opening a directory takes the first free slot and primes its cursor with the first child.\<close>

definition free_slot :: "cb_task \<Rightarrow> nat option" where
  "free_slot t = List.find (\<lambda>i. \<not> d_in_use (t_directories t ! i)) [0..<CB_MAX_DIRS]"

lemma unix_opendir:
  assumes "on_unix a k" "k_tasks k a = Some t" "on_result int_result (syscall sched a (C_opendir path) k) = (d, k')"
  shows "on_unix a k' \<and> task_blocks a k' = task_blocks a k \<and>
    ((d < 0 \<and> task_dirs a k' = task_dirs a k) \<or>
     (\<exists>n first i. cb_vfs_opendir_path (k_vfs k) (t_root t) (t_cwd t) path = (Inr n, ramfs_node_retain (k_vfs k) n) \<and>
        cb_vfs_child_at (ramfs_node_retain (k_vfs k) n) n 0 = Inr first \<and> free_slot t = Some i \<and> d = int i \<and> int i \<notin># task_dirs a k \<and>
        task_dirs a k' = add_mset (int i) (task_dirs a k) \<and>
        k_tasks k' a = Some (t\<lparr>t_directories := (t_directories t)[i := \<lparr>d_node = Some n, d_next = first, d_in_use = True\<rparr>], t_error := 0\<rparr>) \<and>
        k_vfs k' = k_vfs (cb_vfs_node_retain (k\<lparr>k_vfs := ramfs_node_retain (k_vfs k) n\<rparr>) first)))"
proof -
  have len: "length (t_directories t) = CB_MAX_DIRS" using assms(2) by (metis unix_task [OF assms(1)] option.inject)
  have "fst (do_call k a (C_opendir path)) \<noteq> None"
    by (simp add: api_opendir_def assms(2) Let_def split: prod.split sum.split option.split)
  then obtain x k1 where c: "do_call k a (C_opendir path) = (Some x, k1)" by (metis not_None_eq surjective_pairing)
  have r: "d = int_result (Some x)" "k' = k1" using assms(3) unix_call(1) [OF assms(1) c] by (simp_all add: on_result_def)
  obtain res v where o: "cb_vfs_opendir_path (k_vfs k) (t_root t) (t_cwd t) path = (res, v)" by fastforce
  have v: "case res of Inl e \<Rightarrow> v = k_vfs k | Inr n \<Rightarrow> v = ramfs_node_retain (k_vfs k) n"
    using o by (auto simp: cb_vfs_opendir_path_def split: sum.splits if_splits)
  then have sv: "alloc_seq (v_host v) = seq k" by (auto simp: ramfs_node_retain_def split: sum.splits option.splits)
  have fail: ?thesis if "x = R_int (-1)" "k_tasks k1 a = Some (t\<lparr>t_error := e\<rparr>)" "seq k1 = seq k" for e
  proof -
    have b: "task_blocks a k1 = task_blocks a k" "task_dirs a k1 = task_dirs a k" using that(2) assms(2) by (simp_all add: task_blocks_def task_dirs_def)
    then show ?thesis using unix_step [OF assms(1) c] that(1,3) r by simp
  qed
  show ?thesis
  proof (cases res)
    case (Inl e)
    show ?thesis
      by (rule fail [of "errno_value e"]) (use c o v sv Inl assms(2) in \<open>auto simp: api_opendir_def cb_task_set_error_def upd_task_def\<close>)
  next
    case (Inr n)
    show ?thesis
    proof (cases "cb_vfs_child_at v n 0")
      case (Inl e)
      show ?thesis
        by (rule fail [of "errno_value e"]) (use c o sv Inl \<open>res = Inr n\<close> assms(2) in
            \<open>auto simp: api_opendir_def cb_task_set_error_def upd_task_def node_ops_commute\<close>)
    next
      case first: (Inr first)
      show ?thesis
      proof (cases "free_slot t")
        case None
        show ?thesis
          by (rule fail [of "errno_value CB_EMFILE"]) (use c o sv first None Inr assms(2) in
              \<open>auto simp: api_opendir_def cb_task_set_error_def upd_task_def node_ops_commute free_slot_def\<close>)
      next
        case (Some i)
        then have i: "i < CB_MAX_DIRS" "\<not> d_in_use (t_directories t ! i)" by (auto simp: free_slot_def find_Some_iff)
        let ?h = "\<lparr>d_node = Some n, d_next = first, d_in_use = True\<rparr>"
        have k1: "x = R_int (int i)" "k_tasks k1 a = Some (t\<lparr>t_directories := (t_directories t)[i := ?h], t_error := 0\<rparr>)"
          "k_vfs k1 = k_vfs (cb_vfs_node_retain (k\<lparr>k_vfs := v\<rparr>) first)"
          using c o first Some Inr assms(2)
          by (auto simp: api_opendir_def cb_task_set_error_def set_dir_def upd_task_def node_ops_commute free_slot_def)
        have "seq k1 = seq k" unfolding k1(3) using sv by simp
        have out: "int i \<notin># used_dirs (t_directories t)" using i(2) by (simp add: used_dirs_mem)
        have b: "task_blocks a k1 = task_blocks a k" "task_dirs a k1 = add_mset (int i) (task_dirs a k)" "int i \<notin># task_dirs a k"
          using k1(2) assms(2) used_dirs_upd [of i "t_directories t" ?h] i(1) len out
          by (simp_all add: task_blocks_def task_dirs_def diff_single_trivial)
        then show ?thesis using unix_step [OF assms(1) c] \<open>seq k1 = seq k\<close> k1 r o v first Some Inr by auto
      qed
    qed
  qed
qed

lemma dir_lookup_used: "d \<in># used_dirs (t_directories t) \<Longrightarrow> length (t_directories t) = CB_MAX_DIRS \<Longrightarrow> dir_lookup t d = Some (t_directories t ! nat d)"
  by (auto simp: used_dirs_mem dir_lookup_def)

text \<open>Reading an entry moves the cursor of the handle to the next child, or leaves everything but the error number.\<close>

lemma unix_readdir:
  assumes "on_unix a k" "k_tasks k a = Some t" "d \<in># task_dirs a k" "on_result entry_result (syscall sched a (C_readdir d False m) k) = (x, k')"
  shows "on_unix a k' \<and> task_blocks a k' = task_blocks a k \<and> task_dirs a k' = task_dirs a k"
    "case d_next (t_directories t ! nat d) of
       None \<Rightarrow> 0 < m \<longrightarrow> x = Some ([], 0, CB_NODE_REGULAR) \<and> k' = k
     | Some c \<Rightarrow> \<forall>n. nodes (k_vfs k) c = Some n \<longrightarrow> length (n_name n) < m \<longrightarrow>
         fst (the x) = n_name n \<and> x \<noteq> None \<and>
         k_tasks k' a = Some (t\<lparr>t_directories := (t_directories t)[nat d := (t_directories t ! nat d)\<lparr>d_next := n_next_sibling n\<rparr>], t_error := 0\<rparr>) \<and>
         k_vfs k' = k_vfs (cb_vfs_node_release (cb_vfs_node_retain k (n_next_sibling n)) (Some c))"
proof -
  have d: "d \<in># used_dirs (t_directories t)" using assms(2,3) by (simp add: task_dirs_def)
  have len: "length (t_directories t) = CB_MAX_DIRS" using assms(2) by (metis unix_task [OF assms(1)] option.inject)
  let ?h = "t_directories t ! nat d"
  note l = dir_lookup_used [OF d len]
  have "fst (do_call k a (C_readdir d False m)) \<noteq> None"
    by (simp add: api_readdir_def assms(2) l Let_def split: option.split sum.split)
  then obtain y k1 where c: "do_call k a (C_readdir d False m) = (Some y, k1)" by (metis not_None_eq surjective_pairing)
  have r: "x = entry_result (Some y)" "k' = k1" using assms(4) unix_call(1) [OF assms(1) c] by (simp_all add: on_result_def)
  have "seq k1 = seq k \<and> (\<exists>t'. k_tasks k1 a = Some t' \<and> t_allocations t' = t_allocations t \<and>
      (t_directories t' = t_directories t \<or> (\<exists>nx. t_directories t' = (t_directories t)[nat d := ?h\<lparr>d_next := nx\<rparr>])))"
    using c assms(2) l
    by (auto simp: api_readdir_def Let_def cb_task_set_error_def upd_task_def set_dir_def node_ops_commute fault_def ramfs_stat_def
        cb_vfs_next_sibling_def ramfs_next_sibling_def split: option.splits if_splits)
  then obtain t' where k1: "seq k1 = seq k" and t': "k_tasks k1 a = Some t'" "t_allocations t' = t_allocations t"
    "t_directories t' = t_directories t \<or> (\<exists>nx. t_directories t' = (t_directories t)[nat d := ?h\<lparr>d_next := nx\<rparr>])" by blast
  have i: "nat d < length (t_directories t)" "d_in_use ?h" "int (nat d) = d" using d by (simp_all add: used_dirs_mem)
  have "used_dirs (t_directories t') = used_dirs (t_directories t)" using t'(3) used_dirs_upd [OF i(1)] i(2,3) d by auto
  then have b: "task_blocks a k1 = task_blocks a k" "task_dirs a k1 = task_dirs a k" using same_task_parts [OF assms(2) t'(1,2)] by simp_all
  show "on_unix a k' \<and> task_blocks a k' = task_blocks a k \<and> task_dirs a k' = task_dirs a k"
    using unix_step [OF assms(1) c] k1 b r(2) by simp
  show "case d_next ?h of
       None \<Rightarrow> 0 < m \<longrightarrow> x = Some ([], 0, CB_NODE_REGULAR) \<and> k' = k
     | Some c \<Rightarrow> \<forall>n. nodes (k_vfs k) c = Some n \<longrightarrow> length (n_name n) < m \<longrightarrow>
         fst (the x) = n_name n \<and> x \<noteq> None \<and>
         k_tasks k' a = Some (t\<lparr>t_directories := (t_directories t)[nat d := ?h\<lparr>d_next := n_next_sibling n\<rparr>], t_error := 0\<rparr>) \<and>
         k_vfs k' = k_vfs (cb_vfs_node_release (cb_vfs_node_retain k (n_next_sibling n)) (Some c))"
    using c assms(2) l r
    by (auto simp: api_readdir_def Let_def cb_task_set_error_def upd_task_def set_dir_def node_ops_commute ramfs_stat_def
        cb_vfs_next_sibling_def ramfs_next_sibling_def split: option.split)
qed

lemma unix_closedir:
  assumes "on_unix a k" "k_tasks k a = Some t" "d \<in># task_dirs a k" "on_result int_result (syscall sched a (C_closedir d) k) = (r, k')"
  shows "on_unix a k' \<and> task_blocks a k' = task_blocks a k \<and> task_dirs a k' = task_dirs a k - {#d#}"
    "k_tasks k' a = Some (t\<lparr>t_directories := (t_directories t)[nat d := \<lparr>d_node = None, d_next = None, d_in_use = False\<rparr>], t_error := 0\<rparr>)"
    "k_vfs k' = k_vfs (cb_vfs_node_release (cb_vfs_node_release k (d_next (t_directories t ! nat d))) (d_node (t_directories t ! nat d)))"
proof -
  have d: "d \<in># used_dirs (t_directories t)" using assms(2,3) by (simp add: task_dirs_def)
  have len: "length (t_directories t) = CB_MAX_DIRS" using assms(2) by (metis unix_task [OF assms(1)] option.inject)
  note l = dir_lookup_used [OF d len]
  let ?k = "cb_vfs_node_release (cb_vfs_node_release k (d_next (t_directories t ! nat d))) (d_node (t_directories t ! nat d))"
  let ?h = "\<lparr>d_node = None, d_next = None, d_in_use = False\<rparr>"
  have c: "do_call k a (C_closedir d) = (Some (R_int 0), cb_task_set_error (set_dir ?k a (nat d) ?h) a 0)"
    using assms(2) l by (simp add: api_closedir_def)
  have k': "k' = cb_task_set_error (set_dir ?k a (nat d) ?h) a 0" using assms(4) unix_call(1) [OF assms(1) c] by (simp add: on_result_def)
  show t': "k_tasks k' a = Some (t\<lparr>t_directories := (t_directories t)[nat d := ?h], t_error := 0\<rparr>)" and v: "k_vfs k' = k_vfs ?k"
    unfolding k' using assms(2) by (simp_all add: cb_task_set_error_def upd_task_def set_dir_def node_ops_commute)
  have i: "nat d < length (t_directories t)" "int (nat d) = d" using d by (simp_all add: used_dirs_mem)
  have b: "task_blocks a k' = task_blocks a k" "task_dirs a k' = task_dirs a k - {#d#}"
    using t' assms(2) used_dirs_upd [OF i(1), of ?h] i(2) by (simp_all add: task_blocks_def task_dirs_def)
  have "on_unix a k'" unfolding k' by (rule unix_step [OF assms(1) c]) (use b k' v in simp_all)
  then show "on_unix a k' \<and> task_blocks a k' = task_blocks a k \<and> task_dirs a k' = task_dirs a k - {#d#}" using b by simp
qed

section \<open>Calls between the reads of a traversal\<close>

context path_operation begin

lemma path_call_keeps:
  assumes "on_unix a k" "do_call k a c = path_call k a operation" "k' = snd (syscall sched a c k)"
  shows "on_unix a k' \<and> task_blocks a k' = task_blocks a k \<and> task_dirs a k' = task_dirs a k"
proof -
  obtain t where t: "k_tasks k a = Some t" "t_root t = vfs_root (k_vfs k)" "kinv k zero zero" by (rule unix_task [OF assms(1)])
  obtain r v where r: "operation (k_vfs k) (vfs_root (k_vfs k)) (t_cwd t) = (r, v)" by fastforce
  have v: "seq k \<le> alloc_seq (v_host v)" using advances [OF kinv_live [OF t(3)] r] by (simp add: advances_def)
  obtain x e where c: "do_call k a c = (Some x, cb_task_set_error (k\<lparr>k_vfs := v\<rparr>) a e)"
    using t r by (cases r) (auto simp: assms(2) path_call_def)
  have k': "k' = cb_task_set_error (k\<lparr>k_vfs := v\<rparr>) a e" using unix_call(1) [OF assms(1) c] by (simp add: assms(3))
  have "k_tasks k' a = Some (t\<lparr>t_error := e\<rparr>)" unfolding k' using t(1) by (simp add: cb_task_set_error_def upd_task_def)
  then have b: "task_blocks a k' = task_blocks a k" "task_dirs a k' = task_dirs a k" using same_task_parts [OF t(1)] by simp_all
  have "on_unix a k'" unfolding k' by (rule unix_step [OF assms(1) c]) (use b k' v in simp_all)
  then show ?thesis using b by simp
qed

end

fun between_call :: "call \<Rightarrow> bool" where
  "between_call (C_stat path null) = True"
| "between_call (C_truncate path len) = True"
| "between_call (C_mkdir path mode) = True"
| "between_call (C_unlink path) = True"
| "between_call (C_rmdir path) = True"
| "between_call (C_rename old new) = True"
| "between_call (C_set_errno e) = True"
| "between_call _ = False"

lemma between_call_keeps:
  assumes "between_call c" "on_unix a k" "k' = snd (syscall sched a c k)"
  shows "on_unix a k' \<and> task_blocks a k' = task_blocks a k \<and> task_dirs a k' = task_dirs a k"
proof -
  obtain t where t: "k_tasks k a = Some t" by (rule unix_task [OF assms(2)])
  have errno: ?thesis if c: "do_call k a c = (Some x, cb_task_set_error k a e)" for x e
    using unix_call(1) [OF assms(2) c] unix_errno(2,3,4) [OF assms(2), where e = e] by (simp add: assms(3))
  have stat: ?thesis if "c = C_stat path null" for path null
  proof -
    obtain x e where "api_stat k a path null = (Some x, cb_task_set_error k a e)"
      by (cases null; cases "cb_vfs_stat_path (k_vfs k) (t_root t) (t_cwd t) path") (auto simp: api_stat_def t)
    then show ?thesis using errno [of x e] that by simp
  qed
  note paths = truncate_call.path_call_keeps mkdir_call.path_call_keeps unlink_call.path_call_keeps
    rmdir_call.path_call_keeps rename_call.path_call_keeps
  show ?thesis
    using assms(1) paths [OF assms(2) _ assms(3)] errno stat
    by (cases c rule: between_call.cases)
      (auto simp: api_truncate_def api_mkdir_def api_unlink_def api_rmdir_def api_rename_def)
qed

section \<open>The contract of a traversal\<close>

interpretation unix_resources: resource_calls "unix_kernel_api heap sched a"
    "\<lambda>path k. on_result int_result (syscall sched a (C_opendir path) k)"
    "\<lambda>d n k. on_result entry_result (syscall sched a (C_readdir d False n) k)"
    "\<lambda>d k. on_result int_result (syscall sched a (C_closedir d) k)" "on_unix a" "task_blocks a" "task_dirs a"
  for heap sched a
proof
  fix w w' r n assume "on_unix a w" "ap_allocate (libc (unix_kernel_api heap sched a)) n w = (r, w')"
  then show "on_unix a w' \<and> task_dirs a w' = task_dirs a w \<and>
      (case r of None \<Rightarrow> task_blocks a w' = task_blocks a w | Some p \<Rightarrow> p \<notin># task_blocks a w \<and> task_blocks a w' = add_mset p (task_blocks a w))"
    using unix_allocate [of a w sched n r w'] by (simp only: unix_kernel_api_fields libc_kernel_api_fields)
next
  fix w p assume "on_unix a w" "p \<in># task_blocks a w"
  then show "on_unix a (ap_release (libc (unix_kernel_api heap sched a)) p w) \<and>
      task_blocks a (ap_release (libc (unix_kernel_api heap sched a)) p w) = task_blocks a w - {#p#} \<and>
      task_dirs a (ap_release (libc (unix_kernel_api heap sched a)) p w) = task_dirs a w"
    unfolding unix_kernel_api_fields libc_kernel_api_fields using unix_release [OF _ _ refl, of a w p sched] by blast
next
  fix w path d w' assume o: "on_unix a w" "on_result int_result (syscall sched a (C_opendir path) w) = (d, w')"
  obtain t where t: "k_tasks w a = Some t" by (rule unix_task [OF o(1)])
  show "on_unix a w' \<and> task_blocks a w' = task_blocks a w \<and> task_dirs a w' = (if d < 0 then task_dirs a w else add_mset d (task_dirs a w))"
    using unix_opendir [OF o(1) t o(2)] by auto
next
  fix w d m x w' assume o: "on_unix a w" "d \<in># task_dirs a w" "on_result entry_result (syscall sched a (C_readdir d False m) w) = (x, w')"
  obtain t where t: "k_tasks w a = Some t" by (rule unix_task [OF o(1)])
  show "on_unix a w' \<and> task_blocks a w' = task_blocks a w \<and> task_dirs a w' = task_dirs a w"
    using unix_readdir(1) [OF o(1) t o(2,3)] .
next
  fix w d r w' assume o: "on_unix a w" "d \<in># task_dirs a w" "on_result int_result (syscall sched a (C_closedir d) w) = (r, w')"
  obtain t where t: "k_tasks w a = Some t" by (rule unix_task [OF o(1)])
  show "on_unix a w' \<and> task_blocks a w' = task_blocks a w \<and> task_dirs a w' = task_dirs a w - {#d#}"
    using unix_closedir(1) [OF o(1) t o(2,3)] .
qed (use unix_errno unix_stat_call in auto)

text \<open>
  C13. A program that walks directories on this kernel: it opens a traversal, reads entries, skips directories, and between the reads
  removes, renames, creates or truncates files or asks for their status, in any order; it closes the
  traversal at any point. Whatever the state of the file system and whichever allocations fail, no entry is used after it was
  freed, and in the end the task owns exactly the memory blocks and the directory handles it had before.
\<close>

theorem traversal_returns_resources:
  assumes "on_unix a k" "\<forall>g. Fts_other g \<in> set uses \<longrightarrow> (\<exists>c. between_call c \<and> g = (\<lambda>k. snd (syscall sched a c k)))"
    "fts_session (unix_kernel_api heap sched a) roots options uses k = (used_after_free, k')"
  shows "\<not> used_after_free \<and> task_blocks a k' = task_blocks a k \<and> task_dirs a k' = task_dirs a k \<and> kernel_inv k' \<and> k_current k' = Some a"
proof -
  have "unix_resources.harmless a u" if "u \<in> set uses" for u
    using assms(2) that between_call_keeps unfolding unix_resources.harmless_def unix_resources.has_def by blast
  then show ?thesis using unix_resources.session_returns_all [OF assms(1) _ assms(3)] by (simp add: on_unix_def)
qed

definition walk_kernel :: cb_kernel where
  "walk_kernel = snd (run_events kernel_step [Resume 12, Call (C_mkdir ''d'' 493), Call (C_mkdir ''d/e'' 493),
     Call (C_open ''d/f'' (CB_O_RDWR + CB_O_CREAT) 438)] pair_kernel)"

lemma walk_kernel_inv: "kernel_inv walk_kernel"
  unfolding walk_kernel_def by (rule kernel_machine.invar_run [OF pair_kernel_inv(1)])

definition fresh_blocks :: "addr \<Rightarrow> cb_kernel \<Rightarrow> bool" where
  "fresh_blocks a k = (k_current k = Some a \<and>
     (case k_tasks k a of None \<Rightarrow> True | Some t \<Rightarrow> list_all (\<lambda>(p, n). p < seq k) (t_allocations t)))"

lemma on_unix_fresh: "kernel_inv k \<Longrightarrow> fresh_blocks a k \<Longrightarrow> on_unix a k"
  by (auto simp: on_unix_def fresh_blocks_def task_blocks_def list_all_iff split: option.splits)

lemma walk_kernel_on: "on_unix 12 walk_kernel"
proof -
  have "fresh_blocks 12 walk_kernel" by code_simp
  then show ?thesis by (rule on_unix_fresh [OF walk_kernel_inv])
qed

theorem traversal_returns_resources_witness:
  "\<exists>k'. fts_session (unix_kernel_api (\<lambda>_ _. True) (\<lambda>_. []) 12) [''d''] 0
       [Fts_read, Fts_read, Fts_other (\<lambda>k. snd (syscall (\<lambda>_. []) 12 (C_unlink ''d/f'') k)), Fts_read] walk_kernel = (False, k') \<and>
     task_dirs 12 k' = task_dirs 12 walk_kernel"
proof -
  let ?api = "unix_kernel_api (\<lambda>_ _. True) (\<lambda>_. []) 12"
  let ?uses = "[Fts_read, Fts_read, Fts_other (\<lambda>k. snd (syscall (\<lambda>_. []) 12 (C_unlink ''d/f'') k)), Fts_read]"
  obtain g k' where r: "fts_session ?api [''d''] 0 ?uses walk_kernel = (g, k')" by fastforce
  have "\<forall>g. Fts_other g \<in> set ?uses \<longrightarrow> (\<exists>c. between_call c \<and> g = (\<lambda>k. snd (syscall (\<lambda>_. []) 12 c k)))"
    by (auto intro!: exI [of _ "C_unlink ''d/f''"])
  from traversal_returns_resources [OF walk_kernel_on this r] have "\<not> g" "task_dirs 12 k' = task_dirs 12 walk_kernel" by simp_all
  then show ?thesis using r by (intro exI [of _ k']) simp
qed

end
