(* ===== verification/Kernel_Walk.thy ===== *)
theory Kernel_Walk
  imports Kernel_Unix
begin

text \<open>
  The traversal functions on this kernel show the tree of its file system: the kernel meets the contract
  \<open>tree_calls\<close>, because reading directories changes nothing of the files but the counts of references.
\<close>

section \<open>File systems that differ in their counts of references\<close>

definition unref :: "ramfs_node \<Rightarrow> ramfs_node" where
  "unref n = n\<lparr>n_references := 0\<rparr>"

definition same_nodes :: "vfs_state \<Rightarrow> vfs_state \<Rightarrow> bool" where
  "same_nodes v v' \<longleftrightarrow> frame v' = frame v \<and> (\<forall>x. map_option unref (nodes v' x) = map_option unref (nodes v x))"

lemma unref_fields:
  assumes "unref n' = unref n"
  shows "n_name n' = n_name n" "n_parent n' = n_parent n" "n_children n' = n_children n" "n_next_sibling n' = n_next_sibling n"
    "n_type n' = n_type n" "n_inode n' = n_inode n" "n_mount n' = n_mount n" "n_size n' = n_size n" "n_mode n' = n_mode n"
    "n_atime n' = n_atime n" "n_mtime n' = n_mtime n" "n_ctime n' = n_ctime n"
  using assms unfolding unref_def by (cases n'; cases n; simp)+

lemma same_nodes_refl [simp]: "same_nodes v v"
  by (simp add: same_nodes_def)

lemma same_nodes_trans: "same_nodes v v1 \<Longrightarrow> same_nodes v1 v2 \<Longrightarrow> same_nodes v v2"
  by (simp add: same_nodes_def)

lemma same_nodes_host [simp]: "same_nodes v (v'\<lparr>v_host := h\<rparr>) = same_nodes v v'"
  by (simp add: same_nodes_def frame_def)

lemma same_nodes_node:
  assumes "same_nodes v v'"
  shows "nodes v x = None \<Longrightarrow> nodes v' x = None" "nodes v x = Some n \<Longrightarrow> \<exists>n'. nodes v' x = Some n' \<and> unref n' = unref n"
  using assms unfolding same_nodes_def by (metis option.map_disc_iff, metis map_option_eq_Some)

lemma same_nodes_frame:
  assumes "same_nodes v v'"
  shows "mount_objs v' = mount_objs v" "mount_table v' = mount_table v" "vfs_root v' = vfs_root v" "ramfs_mount_root v' = ramfs_mount_root v"
  using assms by (auto simp: same_nodes_def frame_def ramfs_mount_root_def)

lemma same_sib_walk: "same_nodes v v' \<Longrightarrow> sib_walk fuel (nodes v') p = sib_walk fuel (nodes v) p"
proof (induction fuel arbitrary: p)
  case (Suc fuel)
  show ?case
  proof (cases p)
    case (Some x)
    show ?thesis using Suc same_nodes_node [OF Suc.prems, of x] Some by (cases "nodes v x") (auto dest: unref_fields(4))
  qed simp
qed simp

lemma same_retain: "nodes v a \<noteq> None \<Longrightarrow> same_nodes v (ramfs_node_retain v a)"
  by (auto simp: same_nodes_def frame_def ramfs_node_retain_def unref_def)

text \<open>A node that is in a directory or is held by a mount survives a release.\<close>

definition anchored :: "vfs_state \<Rightarrow> addr \<Rightarrow> bool" where
  "anchored v a \<longleftrightarrow> (\<exists>n. nodes v a = Some n \<and> (n_parent n \<noteq> None \<or> vfs_refs v a > 0))"

lemma anchored_dom: "anchored v a \<Longrightarrow> a \<in> dom (nodes v)"
  by (auto simp: anchored_def)

lemma same_anchored: "same_nodes v v' \<Longrightarrow> anchored v a \<Longrightarrow> anchored v' a"
proof -
  assume s: "same_nodes v v'" and "anchored v a"
  then obtain n where n: "nodes v a = Some n" "n_parent n \<noteq> None \<or> vfs_refs v a > 0" by (auto simp: anchored_def)
  then obtain n' where n': "nodes v' a = Some n'" "unref n' = unref n" using same_nodes_node(2) [OF s] by blast
  have "vfs_refs v' = vfs_refs v" using vfs_refs_frame [of v' v] s by (simp add: same_nodes_def)
  then show "anchored v' a" using n n'(1) unref_fields(2) [OF n'(2)] by (simp add: anchored_def)
qed

lemma same_release:
  assumes "live v refs" "refs a > 0" "anchored v a" shows "same_nodes v (ramfs_node_release v a)"
proof -
  obtain ext where e: "ramfs_inv v ext" "\<forall>n. refs n + vfs_refs v n \<le> ext n" by (rule liveE [OF assms(1)])
  then obtain K where K: "fs_inv v K ext" by (auto simp: ramfs_inv_def)
  obtain n where n: "nodes v a = Some n" "n_parent n \<noteq> None \<or> vfs_refs v a > 0" using assms(3) by (auto simp: anchored_def)
  have "n_references n = ext a + (if n_parent n = None then 0 else 1)" using fs_invD(2) [OF K] n(1) by (simp add: refs_wf_def)
  then have "n_references n \<ge> 2" using e(2) [rule_format, of a] assms(2) n(2) by auto
  then have "dec_ref (n_references n) \<noteq> 0" by (simp add: dec_ref_def)
  then have "ramfs_node_release v a = upd_node v a (n\<lparr>n_references := dec_ref (n_references n)\<rparr>)"
    using n(1) by (simp add: ramfs_node_release_def node_fuel_def Let_def)
  then show ?thesis using n(1) by (auto simp: same_nodes_def frame_def unref_def)
qed

section \<open>What the path layer finds\<close>

lemma same_children:
  assumes "live v refs" "live v' refs'" "same_nodes v v'" "nodes v d = Some n" "nodes v' d = Some n'"
  shows "children_list v' n' = children_list v n"
proof -
  obtain ext where "ramfs_inv v ext" by (rule liveE [OF assms(1)])
  then obtain K where K: "fs_inv v K ext" by (auto simp: ramfs_inv_def)
  obtain ext' where "ramfs_inv v' ext'" by (rule liveE [OF assms(2)])
  then obtain K' where K': "fs_inv v' K' ext'" by (auto simp: ramfs_inv_def)
  let ?F = "Suc (length (K d) + length (K' d))"
  have "unref n' = unref n" using same_nodes_node(2) [OF assms(3,4)] assms(5) by auto
  then have "n_children n' = n_children n" by (rule unref_fields(3))
  moreover have "n_children n = ptr (K d)" by (rule tree_children [OF fs_invD(1) [OF K] assms(4)]) simp
  moreover have "n_children n' = ptr (K' d)" by (rule tree_children [OF fs_invD(1) [OF K'] assms(5)]) simp
  ultimately have p: "ptr (K' d) = ptr (K d)" by simp
  have "K' d = sib_walk ?F (nodes v') (ptr (K' d))" using sib_walk_seg [OF tree_seg [OF fs_invD(1) [OF K']], of d ?F] by simp
  also have "\<dots> = K d" unfolding p same_sib_walk [OF assms(3)] using sib_walk_seg [OF tree_seg [OF fs_invD(1) [OF K]], of d ?F] by simp
  finally show ?thesis using children_list_eq [OF K assms(4)] children_list_eq [OF K' assms(5)] by simp
qed

lemma same_has_name: "same_nodes v v' \<Longrightarrow> has_name v' name = has_name v name"
proof
  fix c assume s: "same_nodes v v'"
  show "has_name v' name c = has_name v name c"
    using same_nodes_node [OF s, of c] by (cases "nodes v c") (auto simp: has_name_def dest: unref_fields(1))
qed

lemma same_lookup:
  assumes "live v refs" "live v' refs'" "same_nodes v v'"
  shows "ramfs_lookup v' d name = ramfs_lookup v d name"
proof (cases "nodes v d")
  case None
  then show ?thesis using same_nodes_node(1) [OF assms(3) None] by (simp add: ramfs_lookup_def)
next
  case (Some n)
  then obtain n' where n': "nodes v' d = Some n'" "unref n' = unref n" using same_nodes_node(2) [OF assms(3)] by blast
  show ?thesis using Some n' same_children [OF assms Some n'(1)] same_has_name [OF assms(3), of name] unref_fields(5) [OF n'(2)]
    by (simp add: ramfs_lookup_def find_child_def)
qed

lemma same_resolve:
  assumes "live v refs" "live v' refs'" "same_nodes v v'"
  shows "resolve_names v' names node = resolve_names v names node"
proof -
  have "cross_down v' = cross_down v" by (rule HOL.ext) (simp only: cross_down_def same_nodes_frame [OF assms(3)])
  then show ?thesis by (induction names arbitrary: node) (auto simp: same_lookup [OF assms] split: option.split sum.split)
qed

lemma same_cwd: "same_nodes v v' \<Longrightarrow> cwd_string v' root cwd bufsize = cwd_string v root cwd bufsize"
proof -
  assume s: "same_nodes v v'"
  have p: "ramfs_parent v' b = ramfs_parent v b" "ramfs_name v' b = ramfs_name v b" for b
    using same_nodes_node [OF s, of b] by (cases "nodes v b"; auto simp: ramfs_parent_def ramfs_name_def dest: unref_fields(1,2))+
  have "cross_up v' = cross_up v" by (rule HOL.ext) (simp only: cross_up_def same_nodes_frame [OF s])
  then have "cwd_walk v' root room node parts = cwd_walk v root room node parts" for room node parts
    by (induction room arbitrary: node parts) (auto simp: p Let_def split: option.split)
  moreover have "cwd_copy v' bufsize parts buffer = cwd_copy v bufsize parts buffer" for parts buffer
    by (induction parts arbitrary: buffer) (auto simp: p split: option.split)
  ultimately show ?thesis by (simp add: cwd_string_def split: sum.split)
qed

lemma same_lookup_node:
  assumes "live v refs" "live v' refs'" "same_nodes v v'"
  shows "cb_vfs_lookup_node v' root cwd path = cb_vfs_lookup_node v root cwd path"
  using same_resolve [OF assms] same_cwd [OF assms(3)] by (simp add: cb_vfs_lookup_node_def normalize_for_task_def resolve_normalized_def split: sum.split)

lemma same_stat:
  assumes "live v refs" "live v' refs'" "same_nodes v v'"
  shows "ramfs_stat v' a = ramfs_stat v a"
proof (cases "nodes v a")
  case None
  then show ?thesis using same_nodes_node(1) [OF assms(3) None] by (simp add: ramfs_stat_def)
next
  case (Some n)
  then obtain n' where n': "nodes v' a = Some n'" "unref n' = unref n" using same_nodes_node(2) [OF assms(3)] by blast
  have "is_directory v' c = is_directory v c" for c
    using same_nodes_node [OF assms(3), of c] by (cases "nodes v c") (auto simp: is_directory_def dest: unref_fields(5))
  then have "is_directory v' = is_directory v" by blast
  then show ?thesis using Some n'(1) same_children [OF assms Some n'(1)] unref_fields [OF n'(2)] same_nodes_frame(1) [OF assms(3)]
    by (simp add: ramfs_stat_def ramfs_link_count_def)
qed

lemma root_anchored:
  assumes "live v refs" "vfs_root v = Some r" shows "anchored v r"
proof -
  have mo: "mounts_ok v" by (rule liveE [OF assms(1)])
  then obtain m n where "root_mount v = Some m" "ramfs_mount_root v m = Some r" "nodes v r = Some n" using assms(2) by (auto simp: mounts_ok_def)
  then show ?thesis using mount_refs(3) [OF mo] by (auto simp: anchored_def)
qed

lemma resolve_anchored:
  assumes "live v refs" "resolve_names v names (Some d) = Inr a" "anchored v d"
  shows "anchored v a"
proof -
  obtain ext where e: "ramfs_inv v ext" "mounts_ok v" by (rule liveE [OF assms(1)])
  show ?thesis using assms(2,3)
  proof (induction names arbitrary: d)
    case (Cons name names)
    then obtain c where c: "ramfs_lookup v d name = Inr c" and rest: "resolve_names v names (cross_down v c) = Inr a"
      by (auto split: sum.splits)
    obtain n where n: "nodes v c = Some n" "n_parent n = Some d" by (rule lookup_parent [OF e(1) c])
    obtain b where b: "cross_down v c = Some b" using cross_down_some [OF e(2)] by blast
    have "anchored v b"
    proof (rule cross_down_cases [OF e(2) b])
      show "b = c \<Longrightarrow> anchored v b" using n by (simp add: anchored_def)
      show "(c, m) \<in> set (mount_table v) \<Longrightarrow> ramfs_mount_root v m = Some b \<Longrightarrow> nodes v b = Some n' \<Longrightarrow> anchored v b" for m n'
        using mount_refs(2) [OF e(2)] by (auto simp: anchored_def)
    qed
    then show ?case using Cons.IH rest b by simp
  qed simp
qed

lemma lookup_anchored:
  assumes "live v refs" "cb_vfs_lookup_node v (vfs_root v) cwd path = Inr a" shows "anchored v a"
proof -
  obtain r where r: "vfs_root v = Some r" by (rule live_root [OF assms(1)])
  show ?thesis using assms(2) resolve_anchored [OF assms(1) _ root_anchored [OF assms(1) r]]
    by (auto simp: cb_vfs_lookup_node_def resolve_normalized_def r split: sum.splits)
qed

text \<open>The chain of siblings, which is what is left to read from a directory.\<close>

definition sibling_names :: "vfs_state \<Rightarrow> addr option \<Rightarrow> string list" where
  "sibling_names v p = map (nname (nodes v)) (sib_walk (walk_fuel v) (nodes v) p)"

lemma sibling_names_None [simp]: "sibling_names v None = []"
  by (simp add: sibling_names_def walk_fuel_def)

lemma linked_split:
  assumes "fs_inv v K ext" "nodes v c = Some n" "n_parent n = Some p"
  obtains xs ys where "K p = xs @ c # ys" "n_next_sibling n = ptr ys" "seg (nodes v) ys None"
proof -
  have "c \<in> set (K p)" using tree_parent [OF fs_invD(1) [OF assms(1)], of c p] assms(2,3) by (simp add: nparent_def)
  then obtain xs ys where "K p = xs @ c # ys" by (meson split_list)
  moreover have "seg (nodes v) (K p) None" by (rule tree_seg [OF fs_invD(1) [OF assms(1)]])
  ultimately show ?thesis using that assms(2) by (simp add: nnext_def)
qed

lemma sibling_names_step:
  assumes "live v refs" "nodes v c = Some n"
  shows "sibling_names v (Some c) = n_name n # sibling_names v (n_next_sibling n)"
proof -
  obtain ext where "ramfs_inv v ext" by (rule liveE [OF assms(1)])
  then obtain K where K: "fs_inv v K ext" by (auto simp: ramfs_inv_def)
  have "sib_walk (walk_fuel v) (nodes v) (Some c) = c # sib_walk (walk_fuel v) (nodes v) (n_next_sibling n)"
  proof (cases "n_parent n")
    case None
    then have "n_next_sibling n = None" using tree_free_next [OF fs_invD(1) [OF K], of c] assms(2) by (simp add: nparent_def nnext_def)
    then show ?thesis using assms(2) by (cases "alloc_seq (v_host v)") (simp_all add: walk_fuel_def)
  next
    case (Some p)
    then obtain xs ys where k: "K p = xs @ c # ys" "n_next_sibling n = ptr ys" "seg (nodes v) ys None" by (rule linked_split [OF K assms(2)])
    have "length ys < walk_fuel v" "length (c # ys) < walk_fuel v" using fs_fuel [OF K, of p] k(1) by simp_all
    then show ?thesis using sib_walk_seg [OF k(3)] sib_walk_seg [of "nodes v" "c # ys"] k(2,3) assms(2) by (simp add: nnext_def domI)
  qed
  then show ?thesis using assms(2) by (simp add: sibling_names_def nname_def)
qed

lemma first_child:
  assumes "live v refs" "nodes v d = Some n" "n_type n = CB_NODE_DIRECTORY"
  shows "cb_vfs_child_at v d 0 = Inr (n_children n)"
proof -
  obtain ext where "ramfs_inv v ext" by (rule liveE [OF assms(1)])
  then obtain K where K: "fs_inv v K ext" by (auto simp: ramfs_inv_def)
  have "n_children n = ptr (K d)" by (rule tree_children [OF fs_invD(1) [OF K] assms(2)]) simp
  then show ?thesis using assms(2,3) children_list_eq [OF K assms(2)]
    by (cases "K d") (simp_all add: cb_vfs_child_at_def ramfs_child_at_def)
qed

lemma link_anchored:
  assumes "live v refs" "nodes v a = Some n" "n_children n = Some c \<or> n_next_sibling n = Some c" shows "anchored v c"
proof -
  obtain ext where "ramfs_inv v ext" by (rule liveE [OF assms(1)])
  then obtain K where K: "fs_inv v K ext" by (auto simp: ramfs_inv_def)
  have "\<exists>p. c \<in> set (K p)" using assms(3)
  proof
    assume c: "n_children n = Some c"
    have "n_children n = ptr (K a)" by (rule tree_children [OF fs_invD(1) [OF K] assms(2)]) simp
    then show ?thesis using c by (cases "K a") (auto intro: exI [of _ a])
  next
    assume c: "n_next_sibling n = Some c"
    then have "n_parent n \<noteq> None" using tree_free_next [OF fs_invD(1) [OF K], of a] assms(2) by (auto simp: nparent_def nnext_def)
    then obtain p where p: "n_parent n = Some p" by blast
    obtain xs ys where "K p = xs @ a # ys" "n_next_sibling n = ptr ys" by (rule linked_split [OF K assms(2) p])
    then show ?thesis using c by (cases ys) (auto intro: exI [of _ p])
  qed
  then obtain p where "nparent (nodes v) c = Some p" using tree_parent [OF fs_invD(1) [OF K]] by blast
  then show ?thesis by (auto simp: anchored_def nparent_def split: option.splits)
qed

section \<open>What a task sees of the files\<close>

definition held_dir :: "vfs_state \<Rightarrow> cb_dir_handle \<Rightarrow> bool" where
  "held_dir v h \<longleftrightarrow> (\<forall>n. d_node h = Some n \<or> d_next h = Some n \<longrightarrow> anchored v n)"

definition unix_view :: "vfs_state \<Rightarrow> addr option \<Rightarrow> addr \<Rightarrow> cb_kernel \<Rightarrow> bool" where
  "unix_view v cwd a k \<longleftrightarrow> (\<exists>refs. live v refs) \<and> same_nodes v (k_vfs k) \<and> (\<forall>n. alloc_ok (k_host k) n) \<and>
     (\<exists>t. k_tasks k a = Some t \<and> t_cwd t = cwd \<and> (\<forall>h\<in>set (t_directories t). d_in_use h \<longrightarrow> held_dir v h))"

definition unix_names :: "vfs_state \<Rightarrow> addr \<Rightarrow> cb_kernel \<Rightarrow> int \<Rightarrow> string list" where
  "unix_names v a k d = (case k_tasks k a of None \<Rightarrow> [] | Some t \<Rightarrow>
     if d \<in># used_dirs (t_directories t) then sibling_names v (d_next (t_directories t ! nat d)) else [])"

definition unix_slots :: "addr \<Rightarrow> cb_kernel \<Rightarrow> nat" where
  "unix_slots a k = CB_MAX_DIRS - size (task_dirs a k)"

text \<open>A directory at a path, with its inode and the names of its entries in order.\<close>

definition dir_at :: "vfs_state \<Rightarrow> addr option \<Rightarrow> string \<Rightarrow> nat \<Rightarrow> string list \<Rightarrow> bool" where
  "dir_at v cwd path i names =
     (case cb_vfs_lookup_node v (vfs_root v) cwd path of
        Inl e \<Rightarrow> False
      | Inr a \<Rightarrow>
          (case nodes v a of
             None \<Rightarrow> False
           | Some n \<Rightarrow> n_type n = CB_NODE_DIRECTORY \<and> n_inode n = i \<and> sibling_names v (n_children n) = names))"

text \<open>The tree below a path: \<open>Dir\<close> has the inode of the directory and the names of its entries in order.\<close>

fun tree_at :: "vfs_state \<Rightarrow> addr option \<Rightarrow> string \<Rightarrow> ftree \<Rightarrow> bool" where
  "tree_at v cwd path No_stat = (case cb_vfs_stat_path v (vfs_root v) cwd path of Inl e \<Rightarrow> True | Inr s \<Rightarrow> False)"
| "tree_at v cwd path Plain =
     (case cb_vfs_stat_path v (vfs_root v) cwd path of Inl e \<Rightarrow> False | Inr s \<Rightarrow> st_type s \<noteq> CB_NODE_DIRECTORY)"
| "tree_at v cwd path (Dir i es) =
     (dir_at v cwd path i (map fst es) \<and>
      list_all (\<lambda>(n, t). n \<noteq> [] \<and> length n < CB_PATH_MAX \<and> tree_at v cwd (child_path path n) t) es)"

lemma unix_viewE:
  assumes "on_unix a k" "unix_view v cwd a k"
  obtains t refs refs' where "k_tasks k a = Some t" "live v refs" "live (k_vfs k) refs'" "same_nodes v (k_vfs k)" "t_cwd t = cwd"
    "t_root t = vfs_root v" "length (t_directories t) = CB_MAX_DIRS" "\<forall>h\<in>set (t_directories t). d_in_use h \<longrightarrow> held_dir v h"
proof -
  obtain t where t: "k_tasks k a = Some t" "length (t_directories t) = CB_MAX_DIRS" "t_root t = vfs_root (k_vfs k)" "kinv k zero zero"
    by (rule unix_task [OF assms(1)])
  obtain refs where r: "live v refs" "same_nodes v (k_vfs k)" "t_cwd t = cwd" "\<forall>h\<in>set (t_directories t). d_in_use h \<longrightarrow> held_dir v h"
    using assms(2) t(1) by (auto simp: unix_view_def)
  have "t_root t = vfs_root v" using t(3) same_nodes_frame(3) [OF r(2)] by simp
  then show ?thesis by (rule that [OF t(1) r(1) kinv_live [OF t(4)] r(2,3) _ t(2) r(4)])
qed

text \<open>A call that leaves the handles, the working directory and the files.\<close>

lemma unix_view_keeps:
  assumes "unix_view v cwd a k" "k_tasks k a = Some t" "k_tasks k' a = Some t'" "t_cwd t' = t_cwd t" "t_directories t' = t_directories t"
    "same_nodes (k_vfs k) (k_vfs k')" "alloc_ok (k_host k') = alloc_ok (k_host k)"
  shows "unix_view v cwd a k' \<and> unix_names v a k' = unix_names v a k \<and> unix_slots a k' = unix_slots a k"
proof -
  have "unix_view v cwd a k'" using assms same_nodes_trans [OF _ assms(6)] by (auto simp: unix_view_def)
  moreover have "unix_names v a k' = unix_names v a k" using assms(2,3,5) by (auto simp: unix_names_def)
  ultimately show ?thesis using assms(2,3,5) by (simp add: unix_slots_def task_dirs_def)
qed

lemma unix_view_error: "unix_view v cwd a k \<Longrightarrow> unix_view v cwd a (cb_task_set_error k a e) \<and>
  unix_names v a (cb_task_set_error k a e) = unix_names v a k \<and> unix_slots a (cb_task_set_error k a e) = unix_slots a k"
proof -
  assume w: "unix_view v cwd a k"
  then obtain t where t: "k_tasks k a = Some t" by (auto simp: unix_view_def)
  show ?thesis by (rule unix_view_keeps [OF w t set_error_at [OF t]]) simp_all
qed

lemma unix_view_allocate:
  assumes "on_unix a k" "unix_view v cwd a k" "on_result pointer_result (syscall sched a (C_allocate n) k) = (r, k')"
  shows "r \<noteq> None \<and> unix_view v cwd a k' \<and> unix_names v a k' = unix_names v a k \<and> unix_slots a k' = unix_slots a k"
proof -
  obtain t where t: "k_tasks k a = Some t" by (rule unix_task [OF assms(1)])
  let ?n = "if n = 0 then 1 else n"
  let ?h = "k_host k\<lparr>alloc_seq := seq k + 2\<rparr>"
  let ?k = "cb_task_set_error (set_ledger (set_host k ?h) a ((seq k, ?n) # t_allocations t)) a 0"
  have ok: "\<forall>n. alloc_ok (k_host k) n" using assms(2) by (simp add: unix_view_def)
  have c: "do_call k a (C_allocate n) = (Some (R_pointer (Some (seq k))), ?k)"
    using t ok by (simp add: api_allocate_def cb_allocate_def)
  have r: "r = Some (seq k)" "k' = ?k" using assms(3) unix_call(1) [OF assms(1) c] by (simp_all add: on_result_def)
  have "k_tasks ?k a = Some (t\<lparr>t_allocations := (seq k, ?n) # t_allocations t, t_error := 0\<rparr>)"
    using t by (simp add: cb_task_set_error_def set_ledger_def upd_task_def)
  then have "unix_view v cwd a ?k \<and> unix_names v a ?k = unix_names v a k \<and> unix_slots a ?k = unix_slots a k"
    by (rule unix_view_keeps [OF assms(2) t]) (use t in \<open>simp_all add: set_ledger_def upd_task_def\<close>)
  then show ?thesis using r by simp
qed

lemma unix_view_release:
  assumes "on_unix a k" "unix_view v cwd a k" "p \<in># task_blocks a k" "k' = snd (syscall sched a (C_release (Some p)) k)"
  shows "unix_view v cwd a k' \<and> unix_names v a k' = unix_names v a k \<and> unix_slots a k' = unix_slots a k"
proof -
  obtain t where t: "k_tasks k a = Some t" by (rule unix_task [OF assms(1)])
  note u = unix_release [OF assms(1,3,4)]
  have t': "k_tasks k' a = Some (t\<lparr>t_allocations := ledger_remove p (t_allocations t), t_error := 0\<rparr>)" using u t by blast
  show ?thesis by (rule unix_view_keeps [OF assms(2) t t']) (use u in simp_all)
qed

lemma unix_view_stat:
  assumes "on_unix a k" "unix_view v cwd a k" "tree_at v cwd path t" "on_result stat_result (syscall sched a (C_stat path False) k) = (st, k')"
  shows "unix_view v cwd a k' \<and> unix_names v a k' = unix_names v a k \<and> unix_slots a k' = unix_slots a k \<and>
      (case t of No_stat \<Rightarrow> st = None
       | Plain \<Rightarrow> \<exists>s. st = Some s \<and> st_type s \<noteq> CB_NODE_DIRECTORY
       | Dir i es \<Rightarrow> \<exists>s. st = Some s \<and> st_type s = CB_NODE_DIRECTORY \<and> st_inode s = i)"
proof -
  obtain tk refs refs' where k: "k_tasks k a = Some tk" "live v refs" "live (k_vfs k) refs'" "same_nodes v (k_vfs k)" "t_cwd tk = cwd"
    "t_root tk = vfs_root v" by (rule unix_viewE [OF assms(1,2)])
  note u = unix_stat_call [OF assms(1,4)]
  have "cb_vfs_stat_path (k_vfs k) (vfs_root v) cwd path = cb_vfs_stat_path v (vfs_root v) cwd path"
    by (simp add: cb_vfs_stat_path_def same_lookup_node [OF k(2-4)] same_stat [OF k(2-4)] split: sum.split)
  then have st: "st = (case cb_vfs_stat_path v (vfs_root v) cwd path of Inl e \<Rightarrow> None | Inr s \<Rightarrow> Some s)" using u k by auto
  have "case t of No_stat \<Rightarrow> st = None
       | Plain \<Rightarrow> \<exists>s. st = Some s \<and> st_type s \<noteq> CB_NODE_DIRECTORY
       | Dir i es \<Rightarrow> \<exists>s. st = Some s \<and> st_type s = CB_NODE_DIRECTORY \<and> st_inode s = i"
    using assms(3) st by (cases t) (auto simp: cb_vfs_stat_path_def ramfs_stat_def dir_at_def split: sum.splits option.splits)
  then show ?thesis using u unix_view_error [OF assms(2)] by auto
qed

text \<open>Counting the references of a node that stays in its place.\<close>

lemma node_ops_host: "k_host (cb_vfs_node_retain k n) = k_host k" "k_host (cb_vfs_node_release k n) = k_host k"
  by (auto simp: cb_vfs_node_retain_def cb_vfs_node_release_def fault_def ramfs_node_retain_def ramfs_node_release_def node_release_host
      split: option.split)

lemma retain_same: "(\<And>m. n = Some m \<Longrightarrow> anchored (k_vfs k) m) \<Longrightarrow> same_nodes (k_vfs k) (k_vfs (cb_vfs_node_retain k n))"
  using same_retain by (cases n) (auto simp: cb_vfs_node_retain_def anchored_def)

lemma release_same:
  assumes "good k a x (inc n y)" "\<And>m. n = Some m \<Longrightarrow> anchored (k_vfs k) m"
  shows "same_nodes (k_vfs k) (k_vfs (cb_vfs_node_release k n))"
proof (cases n)
  case (Some m)
  then have "anchored (k_vfs k) m" using assms(2) by simp
  moreover have "live (k_vfs k) (\<lambda>i. node_refs k i + inc n y i)" by (rule kinv_live [OF good_kinv [OF assms(1)]])
  ultimately have "same_nodes (k_vfs k) (ramfs_node_release (k_vfs k) m)" by (rule same_release [rotated 2]) (simp add: Some inc_def)
  then show ?thesis using Some \<open>anchored (k_vfs k) m\<close> by (auto simp: cb_vfs_node_release_def anchored_def)
qed (simp add: cb_vfs_node_release_def)

lemma release_vfs: "k_vfs k1 = k_vfs k2 \<Longrightarrow> k_vfs (cb_vfs_node_release k1 n) = k_vfs (cb_vfs_node_release k2 n)"
  by (simp add: cb_vfs_node_release_def fault_def split: option.split)

lemma slots_free: "length (t_directories t) = CB_MAX_DIRS \<Longrightarrow> k_tasks k a = Some t \<Longrightarrow> unix_slots a k = 0 \<longleftrightarrow> free_slot t = None"
proof -
  assume l: "length (t_directories t) = CB_MAX_DIRS" "k_tasks k a = Some t"
  let ?U = "{i. i < CB_MAX_DIRS \<and> d_in_use (t_directories t ! i)}"
  have s: "size (task_dirs a k) = card ?U" using l by (simp add: task_dirs_def used_dirs_def card_image)
  have sub: "?U \<subseteq> {..<CB_MAX_DIRS}" by blast
  then have "card ?U \<le> CB_MAX_DIRS" using card_mono [OF finite_lessThan, of ?U CB_MAX_DIRS] by (simp only: card_lessThan)
  then have "unix_slots a k = 0 \<longleftrightarrow> card ?U = card {..<CB_MAX_DIRS}" unfolding unix_slots_def s card_lessThan by linarith
  also have "\<dots> \<longleftrightarrow> ?U = {..<CB_MAX_DIRS}" by (metis card_subset_eq [OF finite_lessThan sub])
  also have "\<dots> \<longleftrightarrow> (\<forall>i<CB_MAX_DIRS. d_in_use (t_directories t ! i))" using sub by blast
  also have "\<dots> \<longleftrightarrow> free_slot t = None" unfolding free_slot_def find_None_iff by auto
  finally show ?thesis .
qed

lemma slots_bound: "length (t_directories t) = CB_MAX_DIRS \<Longrightarrow> k_tasks k a = Some t \<Longrightarrow> size (task_dirs a k) \<le> CB_MAX_DIRS"
  using card_mono [of "{..<CB_MAX_DIRS}" "{i. i < CB_MAX_DIRS \<and> d_in_use (t_directories t ! i)}"]
  by (auto simp: task_dirs_def used_dirs_def card_image)

lemma tree_found:
  assumes "on_unix a k" "unix_view v cwd a k" "dir_at v cwd path i names" "k_tasks k a = Some t"
  obtains n nd where "cb_vfs_opendir_path (k_vfs k) (t_root t) (t_cwd t) path = (Inr n, ramfs_node_retain (k_vfs k) n)"
    "nodes (k_vfs k) n = Some nd" "cb_vfs_child_at (ramfs_node_retain (k_vfs k) n) n 0 = Inr (n_children nd)"
    "sibling_names v (n_children nd) = names" "held_dir v \<lparr>d_node = Some n, d_next = n_children nd, d_in_use = True\<rparr>"
proof -
  obtain t' refs refs' where k: "k_tasks k a = Some t'" "live v refs" "live (k_vfs k) refs'" "same_nodes v (k_vfs k)" "t_cwd t' = cwd"
    "t_root t' = vfs_root v" by (rule unix_viewE [OF assms(1,2)])
  obtain n nd0 where n: "cb_vfs_lookup_node v (vfs_root v) cwd path = Inr n" "nodes v n = Some nd0" "n_type nd0 = CB_NODE_DIRECTORY"
    "sibling_names v (n_children nd0) = names" using assms(3) by (auto simp: dir_at_def split: sum.splits option.splits)
  obtain nd where nd: "nodes (k_vfs k) n = Some nd" "unref nd = unref nd0" using same_nodes_node(2) [OF k(4) n(2)] by blast
  note f = unref_fields [OF nd(2)]
  have o: "cb_vfs_opendir_path (k_vfs k) (t_root t) (t_cwd t) path = (Inr n, ramfs_node_retain (k_vfs k) n)"
    using n(1,3) nd(1) f(5) k(1,5,6) assms(4) by (simp add: cb_vfs_opendir_path_def same_lookup_node [OF k(2-4)] ramfs_stat_def)
  have "live (ramfs_node_retain (k_vfs k) n) (refs'(n := refs' n + 1))" by (rule live_retain [OF k(3)]) (use nd(1) in auto)
  moreover have "nodes (ramfs_node_retain (k_vfs k) n) n = Some (nd\<lparr>n_references := n_references nd + 1\<rparr>)"
    using nd(1) by (simp add: ramfs_node_retain_def)
  ultimately have ch: "cb_vfs_child_at (ramfs_node_retain (k_vfs k) n) n 0 = Inr (n_children nd)"
    using first_child [of "ramfs_node_retain (k_vfs k) n"] n(3) f(5) by simp
  have "held_dir v \<lparr>d_node = Some n, d_next = n_children nd, d_in_use = True\<rparr>"
    using lookup_anchored [OF k(2) n(1)] link_anchored [OF k(2) n(2)] f(3) by (auto simp: held_dir_def)
  then show ?thesis using that [OF o nd(1) ch] n(4) f(3) by simp
qed

lemma unix_view_open_full:
  assumes "on_unix a k" "unix_view v cwd a k" "dir_at v cwd path i names" "k_tasks k a = Some t" "free_slot t = None"
    "on_result int_result (syscall sched a (C_opendir path) k) = (d, k')"
  shows "d < 0 \<and> unix_view v cwd a k' \<and> unix_names v a k' = unix_names v a k \<and> unix_slots a k' = unix_slots a k"
proof -
  obtain n nd where n: "cb_vfs_opendir_path (k_vfs k) (t_root t) (t_cwd t) path = (Inr n, ramfs_node_retain (k_vfs k) n)"
    "nodes (k_vfs k) n = Some nd" "cb_vfs_child_at (ramfs_node_retain (k_vfs k) n) n 0 = Inr (n_children nd)"
    "held_dir v \<lparr>d_node = Some n, d_next = n_children nd, d_in_use = True\<rparr>" by (rule tree_found [OF assms(1-4)])
  have g: "good k a zero zero" using assms(1) kernel_inv_current by (auto simp: on_unix_def)
  have same: "same_nodes v (k_vfs k)" using assms(2) by (simp add: unix_view_def)
  let ?c = "n_children nd" and ?k1 = "cb_vfs_node_retain k (Some n)"
  have a1: "\<And>m. Some n = Some m \<Longrightarrow> anchored (k_vfs k) m" "\<And>m. ?c = Some m \<Longrightarrow> anchored (k_vfs k) m"
    using n(4) same_anchored [OF same] by (auto simp: held_dir_def)
  have k1: "?k1 = k\<lparr>k_vfs := ramfs_node_retain (k_vfs k) n\<rparr>" using n(2) by (simp add: cb_vfs_node_retain_def)
  have g1: "good ?k1 a zero (inc (Some n) zero)" by (rule good_retain [OF g]) (use n(2) in auto)
  have s1: "same_nodes (k_vfs k) (k_vfs ?k1)" by (rule retain_same) (rule a1(1))
  have g2: "good (cb_vfs_node_retain ?k1 ?c) a zero (inc ?c (inc (Some n) zero))"
    by (rule good_retain [OF g1]) (rule anchored_dom [OF same_anchored [OF s1 a1(2)]])
  let ?k2 = "cb_vfs_node_retain ?k1 ?c"
  have s2: "same_nodes (k_vfs ?k1) (k_vfs ?k2)" by (rule retain_same) (rule same_anchored [OF s1 a1(2)])
  let ?k3 = "cb_vfs_node_release ?k2 ?c"
  have s3: "same_nodes (k_vfs ?k2) (k_vfs ?k3)" by (rule release_same [OF g2]) (rule same_anchored [OF s2 same_anchored [OF s1 a1(2)]])
  let ?k4 = "cb_vfs_node_release ?k3 (Some n)"
  have s4: "same_nodes (k_vfs ?k3) (k_vfs ?k4)"
    by (rule release_same [OF good_release [OF g2]]) (rule same_anchored [OF s3 same_anchored [OF s2 same_anchored [OF s1 a1(1)]]])
  have s: "same_nodes (k_vfs k) (k_vfs ?k4)" using s1 s2 s3 s4 same_nodes_trans by blast
  obtain k5 where c: "do_call k a (C_opendir path) = (Some (R_int (-1)), k5)" "k_vfs k5 = k_vfs ?k4" "k_tasks k5 a = Some (t\<lparr>t_error := errno_value CB_EMFILE\<rparr>)"
    using n assms(4,5) by (simp add: api_opendir_def cb_task_set_error_def upd_task_def node_ops_commute free_slot_def k1)
  have r: "d = -1" "k' = k5" using assms(6) unix_call(1) [OF assms(1) c(1)] by (simp_all add: on_result_def)
  have "unix_view v cwd a k' \<and> unix_names v a k' = unix_names v a k \<and> unix_slots a k' = unix_slots a k"
    unfolding r(2) by (rule unix_view_keeps [OF assms(2,4) c(3)]) (use s c(2) in \<open>simp_all add: node_ops_host\<close>)
  then show ?thesis using r(1) by simp
qed

text \<open>A handle changed at one place.\<close>

lemma unix_view_handle:
  assumes "on_unix a k" "unix_view v cwd a k" "k_tasks k a = Some t" "j < CB_MAX_DIRS"
    "k_tasks k' a = Some (t\<lparr>t_directories := (t_directories t)[j := h], t_error := e\<rparr>)" "same_nodes (k_vfs k) (k_vfs k')"
    "alloc_ok (k_host k') = alloc_ok (k_host k)" "d_in_use h \<longrightarrow> held_dir v h"
  shows "unix_view v cwd a k' \<and> unix_names v a k' = (unix_names v a k)(int j := if d_in_use h then sibling_names v (d_next h) else [])"
proof -
  obtain t' refs where k: "k_tasks k a = Some t'" "live v refs" "same_nodes v (k_vfs k)" "t_cwd t' = cwd" "length (t_directories t') = CB_MAX_DIRS"
    "\<forall>h\<in>set (t_directories t'). d_in_use h \<longrightarrow> held_dir v h" by (rule unix_viewE [OF assms(1,2)])
  then have "\<forall>h'\<in>set ((t_directories t)[j := h]). d_in_use h' \<longrightarrow> held_dir v h'"
    using set_update_subset_insert [of "t_directories t" j h] assms(3,8) by auto
  then have "unix_view v cwd a k'"
    using assms(2,3,5,7) k same_nodes_trans [OF k(3) assms(6)] by (auto simp: unix_view_def)
  moreover have "unix_names v a k' d = (if d = int j then if d_in_use h then sibling_names v (d_next h) else [] else unix_names v a k d)" for d
    using assms(3,4,5) k(1,5) by (cases "0 \<le> d") (auto simp: unix_names_def used_dirs_mem nth_list_update)
  then have "unix_names v a k' = (unix_names v a k)(int j := if d_in_use h then sibling_names v (d_next h) else [])" by (auto simp: fun_eq_iff)
  ultimately show ?thesis by blast
qed

lemma unix_view_open:
  assumes "on_unix a k" "unix_view v cwd a k" "dir_at v cwd path i names" "on_result int_result (syscall sched a (C_opendir path) k) = (d, k')"
  shows "unix_view v cwd a k' \<and>
      (if unix_slots a k = 0 then d < 0 \<and> unix_names v a k' = unix_names v a k \<and> unix_slots a k' = 0
       else 0 \<le> d \<and> d \<notin># task_dirs a k \<and> unix_names v a k' = (unix_names v a k)(d := names) \<and> unix_slots a k' = unix_slots a k - 1)"
proof -
  obtain t where k: "k_tasks k a = Some t" "same_nodes v (k_vfs k)" "length (t_directories t) = CB_MAX_DIRS" by (rule unix_viewE [OF assms(1,2)])
  show ?thesis
  proof (cases "free_slot t")
    case None
    then show ?thesis using unix_view_open_full [OF assms(1-3) k(1) None assms(4)] slots_free [OF k(3,1)] by simp
  next
    case (Some j)
    then have j: "j < CB_MAX_DIRS" by (auto simp: free_slot_def find_Some_iff)
    obtain n nd where n: "cb_vfs_opendir_path (k_vfs k) (t_root t) (t_cwd t) path = (Inr n, ramfs_node_retain (k_vfs k) n)"
      "nodes (k_vfs k) n = Some nd" "cb_vfs_child_at (ramfs_node_retain (k_vfs k) n) n 0 = Inr (n_children nd)" "sibling_names v (n_children nd) = names"
      "held_dir v \<lparr>d_node = Some n, d_next = n_children nd, d_in_use = True\<rparr>" by (rule tree_found [OF assms(1-3) k(1)])
    obtain k1 where c: "do_call k a (C_opendir path) = (Some (R_int (int j)), k1)"
      using n(1-3) k(1) Some by (simp add: api_opendir_def free_slot_def)
    have "\<not> d < 0" using assms(4) unix_call(1) [OF assms(1) c] by (auto simp: on_result_def)
    then have u: "d = int j" "int j \<notin># task_dirs a k" "task_dirs a k' = add_mset (int j) (task_dirs a k)"
      "k_tasks k' a = Some (t\<lparr>t_directories := (t_directories t)[j := \<lparr>d_node = Some n, d_next = n_children nd, d_in_use = True\<rparr>], t_error := 0\<rparr>)"
      "k_vfs k' = k_vfs (cb_vfs_node_retain (k\<lparr>k_vfs := ramfs_node_retain (k_vfs k) n\<rparr>) (n_children nd))"
      using unix_opendir [OF assms(1) k(1) assms(4)] n(1,3) Some by auto
    have s: "same_nodes (k_vfs k) (ramfs_node_retain (k_vfs k) n)" using same_retain n(2) by simp
    have "same_nodes (ramfs_node_retain (k_vfs k) n) (k_vfs k')"
      unfolding u(5) using retain_same [of "n_children nd" "k\<lparr>k_vfs := ramfs_node_retain (k_vfs k) n\<rparr>"] same_anchored [OF same_nodes_trans [OF k(2) s]] n(5)
      by (auto simp: held_dir_def)
    then have s': "same_nodes (k_vfs k) (k_vfs k')" using same_nodes_trans [OF s] by blast
    have h: "k_host k' = k_host k" unfolding u(5) by (simp add: node_ops_host ramfs_node_retain_def split: option.split)
    have v: "unix_view v cwd a k' \<and> unix_names v a k' = (unix_names v a k)(int j := names)"
      using unix_view_handle [OF assms(1,2) k(1) j u(4) s'] h n(4,5) by simp
    have "unix_slots a k \<noteq> 0" "unix_slots a k' = unix_slots a k - 1"
      using slots_free [OF k(3,1)] Some u(3) by (simp_all add: unix_slots_def)
    then show ?thesis using v u(1,2) by simp
  qed
qed

lemma unix_view_read:
  assumes "on_unix a k" "unix_view v cwd a k" "d \<in># task_dirs a k" "on_result entry_result (syscall sched a (C_readdir d False m) k) = (x, k')"
    "\<forall>n ns. unix_names v a k d = n # ns \<longrightarrow> n \<noteq> [] \<and> length n < m" "0 < m"
  shows "unix_view v cwd a k' \<and> unix_slots a k' = unix_slots a k \<and>
      (case unix_names v a k d of [] \<Rightarrow> (\<exists>y. x = Some ([], y)) \<and> unix_names v a k' = unix_names v a k
       | n # ns \<Rightarrow> (\<exists>y. x = Some (n, y)) \<and> unix_names v a k' = (unix_names v a k)(d := ns))"
proof -
  obtain t refs refs' where k: "k_tasks k a = Some t" "live v refs" "live (k_vfs k) refs'" "same_nodes v (k_vfs k)"
    "length (t_directories t) = CB_MAX_DIRS" "\<forall>h\<in>set (t_directories t). d_in_use h \<longrightarrow> held_dir v h" by (rule unix_viewE [OF assms(1,2)])
  let ?h = "t_directories t ! nat d"
  have used: "d \<in># used_dirs (t_directories t)" using assms(3) k(1) by (simp add: task_dirs_def)
  then have d: "0 \<le> d" "nat d < CB_MAX_DIRS" "d_in_use ?h" using k(5) by (auto simp: used_dirs_mem)
  have g: "good k a zero zero" using assms(1) kernel_inv_current by (auto simp: on_unix_def)
  have held: "?h \<in> set (t_directories t)" "held_dir v ?h" using d k(5,6) by simp_all
  have names: "unix_names v a k d = sibling_names v (d_next ?h)" using used k(1) by (simp add: unix_names_def)
  note u = unix_readdir [OF assms(1) k(1) assms(3,4)]
  have slots: "unix_slots a k' = unix_slots a k" using u(1) by (simp add: unix_slots_def)
  show ?thesis
  proof (cases "d_next ?h")
    case None
    then show ?thesis using u(2) assms(2,6) names slots by simp
  next
    case (Some c)
    then obtain n0 where n0: "nodes v c = Some n0" using held(2) by (auto simp: held_dir_def anchored_def)
    obtain n where n: "nodes (k_vfs k) c = Some n" "unref n = unref n0" using same_nodes_node(2) [OF k(4) n0] by blast
    note f = unref_fields [OF n(2)]
    have st: "unix_names v a k d = n_name n # sibling_names v (n_next_sibling n)"
      unfolding names Some using sibling_names_step [OF k(2) n0] f(1,4) by simp
    then have "length (n_name n) < m" using assms(5) by blast
    then have u2: "fst (the x) = n_name n" "x \<noteq> None" "k_tasks k' a = Some (t\<lparr>t_directories := (t_directories t)[nat d := ?h\<lparr>d_next := n_next_sibling n\<rparr>], t_error := 0\<rparr>)"
      "k_vfs k' = k_vfs (cb_vfs_node_release (cb_vfs_node_retain k (n_next_sibling n)) (Some c))" using u(2) Some n(1) by simp_all
    have nx: "anchored v m'" if "n_next_sibling n = Some m'" for m' using link_anchored [OF k(2) n0, of m'] f(4) that by simp
    let ?k1 = "cb_vfs_node_retain k (n_next_sibling n)"
    have s1: "same_nodes (k_vfs k) (k_vfs ?k1)" by (rule retain_same) (rule same_anchored [OF k(4) nx])
    have g1: "good ?k1 a zero (inc (n_next_sibling n) zero)"
      by (rule good_retain [OF g]) (rule anchored_dom [OF same_anchored [OF k(4) nx]])
    have t1: "k_tasks ?k1 a = Some t" using k(1) by simp
    have "d_node ?h \<noteq> None" using unix_task [OF assms(1)] held(1) d(3) k(1) by (metis option.inject)
    then have g2: "good (set_dir ?k1 a (nat d) (?h\<lparr>d_next := n_next_sibling n\<rparr>)) a zero (inc (Some c) zero)"
      by (intro good_set_dir [OF g1 t1 d(2)]) (use Some d(3) in \<open>auto simp: count_dir_nodes inc_def\<close>)
    have v1: "k_vfs (set_dir ?k1 a (nat d) (?h\<lparr>d_next := n_next_sibling n\<rparr>)) = k_vfs ?k1" using t1 by (simp add: set_dir_def upd_task_def)
    have "anchored (k_vfs ?k1) c" using same_anchored [OF same_nodes_trans [OF k(4) s1]] held(2) Some by (auto simp: held_dir_def)
    then have "same_nodes (k_vfs ?k1) (k_vfs k')" unfolding u2(4) release_vfs [OF v1, symmetric] using release_same [OF g2] v1 by simp
    then have s: "same_nodes (k_vfs k) (k_vfs k')" using same_nodes_trans [OF s1] by simp
    have "k_host k' = k_host k" unfolding u2(4) by (simp add: node_ops_host)
    then have v: "unix_view v cwd a k' \<and> unix_names v a k' = (unix_names v a k)(d := sibling_names v (n_next_sibling n))"
      using unix_view_handle [OF assms(1,2) k(1) d(2) u2(3) s] held(2) d(1,3) nx by (auto simp: held_dir_def)
    have "\<exists>y. x = Some (n_name n, y)" using u2(1,2) by (cases x) auto
    then show ?thesis using v slots st by simp
  qed
qed

lemma unix_view_close:
  assumes "on_unix a k" "unix_view v cwd a k" "d \<in># task_dirs a k" "on_result int_result (syscall sched a (C_closedir d) k) = (r, k')"
  shows "unix_view v cwd a k' \<and> unix_slots a k' = unix_slots a k + 1 \<and> (\<forall>d'. d' \<noteq> d \<longrightarrow> unix_names v a k' d' = unix_names v a k d')"
proof -
  obtain t where k: "k_tasks k a = Some t" "same_nodes v (k_vfs k)" "length (t_directories t) = CB_MAX_DIRS"
    "\<forall>h\<in>set (t_directories t). d_in_use h \<longrightarrow> held_dir v h" by (rule unix_viewE [OF assms(1,2)])
  let ?h = "t_directories t ! nat d" and ?h' = "\<lparr>d_node = None, d_next = None, d_in_use = False\<rparr>"
  have used: "d \<in># used_dirs (t_directories t)" using assms(3) k(1) by (simp add: task_dirs_def)
  then have d: "0 \<le> d" "nat d < CB_MAX_DIRS" "d_in_use ?h" using k(3) by (auto simp: used_dirs_mem)
  have held: "held_dir v ?h" using d k(3,4) by simp
  have g: "good k a zero zero" using assms(1) kernel_inv_current by (auto simp: on_unix_def)
  note u = unix_closedir [OF assms(1) k(1) assms(3,4)]
  let ?k1 = "set_dir k a (nat d) ?h'"
  have g1: "good ?k1 a zero (inc (d_next ?h) (inc (d_node ?h) zero))"
    by (rule good_set_dir [OF g k(1) d(2)]) (use d(3) in \<open>auto simp: count_dir_nodes inc_def\<close>)
  have v1: "k_vfs ?k1 = k_vfs k" using k(1) by (simp add: set_dir_def upd_task_def)
  have an: "anchored (k_vfs ?k1) n" if "d_node ?h = Some n \<or> d_next ?h = Some n" for n
    unfolding v1 using held that same_anchored [OF k(2)] unfolding held_dir_def by blast
  let ?k2 = "cb_vfs_node_release ?k1 (d_next ?h)"
  have s1: "same_nodes (k_vfs ?k1) (k_vfs ?k2)" by (rule release_same [OF g1]) (use an in blast)
  have s2: "same_nodes (k_vfs ?k2) (k_vfs (cb_vfs_node_release ?k2 (d_node ?h)))"
    by (rule release_same [OF good_release [OF g1]]) (use same_anchored [OF s1 an] in blast)
  have s: "same_nodes (k_vfs k) (k_vfs k')"
    unfolding u(3) release_vfs [OF release_vfs [OF v1, symmetric]] using same_nodes_trans [OF s1 s2] v1 by simp
  have h: "k_host k' = k_host k" unfolding u(3) by (simp add: node_ops_host)
  have "unix_view v cwd a k' \<and> unix_names v a k' = (unix_names v a k)(d := [])"
    using unix_view_handle [OF assms(1,2) k(1) d(2) u(2) s] h d(1) by simp
  moreover have "size (task_dirs a k') = size (task_dirs a k) - 1" "size (task_dirs a k) \<noteq> 0"
    using u(1) assms(3) by (auto simp: size_Diff_submset)
  then have "unix_slots a k' = unix_slots a k + 1" using slots_bound [OF k(3,1)] unfolding unix_slots_def by linarith
  ultimately show ?thesis by simp
qed

section \<open>The contract of the walk\<close>

interpretation unix_tree: tree_calls "unix_kernel_api heap sched a"
    "\<lambda>path k. on_result int_result (syscall sched a (C_opendir path) k)"
    "\<lambda>d n k. on_result entry_result (syscall sched a (C_readdir d False n) k)"
    "\<lambda>d k. on_result int_result (syscall sched a (C_closedir d) k)" "on_unix a" "task_blocks a" "task_dirs a"
    "unix_view v cwd a" "unix_names v a" "unix_slots a" "tree_at v cwd"
  for heap sched a v cwd
proof
  show "n \<noteq> [] \<and> length n < CB_PATH_MAX \<and> tree_at v cwd (child_path path n) t"
    if "tree_at v cwd path (Dir i es)" "(n, t) \<in> set es" for path i es n t
    using that by (auto simp: list_all_iff)
  show "r \<noteq> None \<and> unix_view v cwd a w' \<and> unix_names v a w' = unix_names v a w \<and> unix_slots a w' = unix_slots a w"
    if "on_unix a w" "unix_view v cwd a w" "ap_allocate (libc (unix_kernel_api heap sched a)) n w = (r, w')" for w w' r n
    using unix_view_allocate [OF that(1,2)] that(3) unfolding unix_kernel_api_fields libc_kernel_api_fields by blast
  show "unix_view v cwd a (ap_release (libc (unix_kernel_api heap sched a)) p w) \<and>
      unix_names v a (ap_release (libc (unix_kernel_api heap sched a)) p w) = unix_names v a w \<and>
      unix_slots a (ap_release (libc (unix_kernel_api heap sched a)) p w) = unix_slots a w"
    if "on_unix a w" "unix_view v cwd a w" "p \<in># task_blocks a w" for w p
    using unix_view_release [OF that refl] unfolding unix_kernel_api_fields libc_kernel_api_fields by blast
  show "unix_view v cwd a (ap_set_errno (libc (unix_kernel_api heap sched a)) e w) \<and>
      unix_names v a (ap_set_errno (libc (unix_kernel_api heap sched a)) e w) = unix_names v a w \<and>
      unix_slots a (ap_set_errno (libc (unix_kernel_api heap sched a)) e w) = unix_slots a w"
    if "on_unix a w" "unix_view v cwd a w" for w e
    using unix_view_error [OF that(2), of e] unix_errno(1) [OF that(1), of sched e] by simp
  show "unix_view v cwd a w' \<and> unix_names v a w' = unix_names v a w \<and> unix_slots a w' = unix_slots a w \<and>
      (case t of No_stat \<Rightarrow> st = None
       | Plain \<Rightarrow> \<exists>s. st = Some s \<and> st_type s \<noteq> CB_NODE_DIRECTORY
       | Dir i es \<Rightarrow> \<exists>s. st = Some s \<and> st_type s = CB_NODE_DIRECTORY \<and> st_inode s = i)"
    if "on_unix a w" "unix_view v cwd a w" "tree_at v cwd path t" "ap_stat (unix_kernel_api heap sched a) path w = (st, w')" for w path t st w'
    using unix_view_stat [OF that(1-3)] that(4) unfolding unix_kernel_api_fields by blast
  show "unix_view v cwd a w' \<and>
      (if unix_slots a w = 0 then d < 0 \<and> unix_names v a w' = unix_names v a w \<and> unix_slots a w' = 0
       else 0 \<le> d \<and> d \<notin># task_dirs a w \<and> unix_names v a w' = (unix_names v a w)(d := map fst es) \<and> unix_slots a w' = unix_slots a w - 1)"
    if "on_unix a w" "unix_view v cwd a w" "tree_at v cwd path (Dir i es)" "on_result int_result (syscall sched a (C_opendir path) w) = (d, w')"
    for w path i es d w' by (rule unix_view_open [OF that(1,2) _ that(4)]) (use that(3) in auto)
  show "unix_view v cwd a w' \<and> unix_slots a w' = unix_slots a w \<and>
      (case unix_names v a w d of [] \<Rightarrow> (\<exists>y. x = Some ([], y)) \<and> unix_names v a w' = unix_names v a w
       | n # ns \<Rightarrow> (\<exists>y. x = Some (n, y)) \<and> unix_names v a w' = (unix_names v a w)(d := ns))"
    if "on_unix a w" "unix_view v cwd a w" "d \<in># task_dirs a w" "on_result entry_result (syscall sched a (C_readdir d False m) w) = (x, w')"
      "\<forall>n ns. unix_names v a w d = n # ns \<longrightarrow> n \<noteq> [] \<and> length n < m" "0 < m" for w d m x w' by (rule unix_view_read [OF that])
  show "unix_view v cwd a w' \<and> unix_slots a w' = unix_slots a w + 1 \<and> (\<forall>d'. d' \<noteq> d \<longrightarrow> unix_names v a w' d' = unix_names v a w d')"
    if "on_unix a w" "unix_view v cwd a w" "d \<in># task_dirs a w" "on_result int_result (syscall sched a (C_closedir d) w) = (r, w')"
    for w d r w' by (rule unix_view_close [OF that])
qed

text \<open>A task with no directory open sees the files as they are.\<close>

lemma view_at_rest:
  assumes "on_unix a k" "k_tasks k a = Some t" "task_dirs a k = {#}" "\<forall>n. alloc_ok (k_host k) n"
  shows "unix_view (k_vfs k) (t_cwd t) a k"
proof -
  obtain t' where t': "k_tasks k a = Some t'" "kinv k zero zero" by (rule unix_task [OF assms(1)])
  have "\<not> d_in_use h" if h: "h \<in> set (t_directories t)" for h
  proof
    assume "d_in_use h"
    then obtain i where "i < length (t_directories t)" "t_directories t ! i = h" using h by (auto simp: in_set_conv_nth)
    then have "int i \<in># task_dirs a k" using assms(2) \<open>d_in_use h\<close> by (simp add: task_dirs_def used_dirs_mem)
    then show False using assms(3) by simp
  qed
  then show ?thesis using assms(2,4) kinv_live [OF t'(2)] by (auto simp: unix_view_def)
qed

text \<open>
  C12. A traversal on this kernel shows the tree. With memory for every allocation and no directory open before, opening a
  traversal of some paths and reading it to the end gives exactly the walk over the trees below these paths: every directory before
  and after its entries, in the order of the directory, the rest once, each with its level and its path. A directory that is
  deeper than the \<^verbatim>\<open>CB_MAX_DIRS\<close> handles of the task is shown as unreadable, and a path that cannot be resolved, because it is too
  long or not there, without its status. Enough reads are as many as the walk has entries, and one more for the end.
\<close>

theorem traversal_walks_tree:
  assumes "on_unix a k" "k_tasks k a = Some t" "task_dirs a k = {#}" "\<forall>n. alloc_ok (k_host k) n" "roots \<noteq> []" "options AND FTS_XDEV = 0"
    "\<forall>(r, tr)\<in>set roots. tree_at (k_vfs k) (t_cwd t) r tr" "length (visit_roots CB_MAX_DIRS roots) < fuel"
  shows "\<exists>f k1 f' k'. cb_libc_fts_open (unix_kernel_api heap sched a) (Some (map fst roots)) options k = (Some f, k1) \<and>
    fts_walk fuel (unix_kernel_api heap sched a) f k1 = Some (visit_roots CB_MAX_DIRS roots, f', k')"
proof -
  note v = view_at_rest [OF assms(1-4)]
  have s: "unix_slots a k = CB_MAX_DIRS" using assms(3) by (simp add: unix_slots_def)
  show ?thesis using unix_tree.open_walk [OF assms(1) v assms(5,6,7), unfolded s, OF assms(8)] by blast
qed

definition walk_tree :: ftree where
  "walk_tree = Dir 6 [(''f'', Plain), (''e'', Dir 7 [])]"

definition walk_ready :: "nat \<Rightarrow> cb_kernel \<Rightarrow> bool" where
  "walk_ready n k = (alloc_ok (k_host k) n \<and>
     (case k_tasks k 12 of None \<Rightarrow> False | Some t \<Rightarrow> list_all (\<lambda>h. \<not> d_in_use h) (t_directories t) \<and> tree_at (k_vfs k) (t_cwd t) ''d'' walk_tree))"

lemma walk_kernel_ready: "walk_ready n walk_kernel"
  by code_simp

theorem traversal_walks_tree_witness:
  "\<exists>f k1 f' k'. cb_libc_fts_open (unix_kernel_api (\<lambda>_ _. True) (\<lambda>_. []) 12) (Some [''d'']) 0 walk_kernel = (Some f, k1) \<and>
     fts_walk 6 (unix_kernel_api (\<lambda>_ _. True) (\<lambda>_. []) 12) f k1 =
       Some ([(FTS_D, 0, ''d''), (FTS_DEFAULT, 1, ''d/f''), (FTS_D, 1, ''d/e''), (FTS_DP, 1, ''d/e''), (FTS_DP, 0, ''d'')], f', k')"
proof -
  obtain t where t: "k_tasks walk_kernel 12 = Some t" "list_all (\<lambda>h. \<not> d_in_use h) (t_directories t)" "tree_at (k_vfs walk_kernel) (t_cwd t) ''d'' walk_tree"
    using walk_kernel_ready [of 0] by (auto simp: walk_ready_def split: option.splits)
  have ok: "\<forall>n. alloc_ok (k_host walk_kernel) n" using walk_kernel_ready by (auto simp: walk_ready_def)
  have "d \<notin># task_dirs 12 walk_kernel" for d using t(1,2) by (simp add: task_dirs_def used_dirs_mem list_all_length)
  then have none: "task_dirs 12 walk_kernel = {#}" using multiset_nonemptyE by blast
  have v: "visit_roots CB_MAX_DIRS [(''d'', walk_tree)] =
      [(FTS_D, 0, ''d''), (FTS_DEFAULT, 1, ''d/f''), (FTS_D, 1, ''d/e''), (FTS_DP, 1, ''d/e''), (FTS_DP, 0, ''d'')]" by code_simp
  have "\<forall>(r, tr)\<in>set [(''d'', walk_tree)]. tree_at (k_vfs walk_kernel) (t_cwd t) r tr" using t(3) by simp
  from traversal_walks_tree [OF walk_kernel_on t(1) none ok _ _ this, of 0 6, unfolded v] show ?thesis by simp
qed

end
