(* ===== verification/Commands.thy ===== *)
theory Commands
  imports Libc_Calls Libc_Props
begin

text \<open>
  Two commands over the C library: \<^verbatim>\<open>commands/ls.c\<close>, which is part of this system, and \<^verbatim>\<open>echo\<close> as NetBSD has it. A
  command returns a status or ends through \<^verbatim>\<open>exit\<close>; it may also run for ever, which is \<open>None\<close> at the outside.
\<close>

section \<open>ls\<close>

text \<open>
  \<^verbatim>\<open>errno\<close> is a place of the task, written and read as \<open>ap_set_errno\<close> and \<open>ap_get_errno\<close> do. The loop returns the status
  it has found.
\<close>

partial_function (option) ls_loop :: "'w unix_api \<Rightarrow> cb_libc_dir \<Rightarrow> stdio \<Rightarrow> 'w \<Rightarrow> (int \<times> stdio \<times> 'w) option" where
  "ls_loop api dir s w =
     (case cb_libc_readdir api (Some dir) (ap_set_errno (libc api) 0 w) of
        (None, w1) \<Rightarrow> Some (0, s, w1)
      | (Some entry, w1) \<Rightarrow>
          (case cb_libc_puts (libc api) (de_name entry) s w1 of
             (r, s2, w2) \<Rightarrow> if r = -1 then Some (1, s2, w2) else ls_loop api dir s2 w2))"

declare ls_loop.simps [code]

text \<open>A warning with the name of the operand, after which the status is 1.\<close>

definition ls_warn :: "'w unix_api \<Rightarrow> string \<Rightarrow> stdio \<Rightarrow> 'w \<Rightarrow> (int \<times> stdio \<times> 'w) option" where
  "ls_warn api path s w = map_option (\<lambda>(s1, w1). (1, s1, w1)) (cb_libc_warn api (Some ''%s'') [A_string (Some path)] s w)"

definition ls_end :: "'w unix_api \<Rightarrow> string \<Rightarrow> cb_libc_dir \<Rightarrow> int \<times> stdio \<times> 'w \<Rightarrow> (int \<times> stdio \<times> 'w) option" where
  "ls_end api path dir = (\<lambda>(status, s, w).
     case (if status = 0 \<and> ap_get_errno (libc api) w \<noteq> 0 then ls_warn api path s w else Some (status, s, w)) of
       None \<Rightarrow> None
     | Some (status, s1, w1) \<Rightarrow>
         (case cb_libc_closedir api (Some dir) w1 of
            (r, w2) \<Rightarrow> if r < 0 then ls_warn api path s1 w2 else Some (status, s1, w2)))"

definition cb_ls_main :: "'w unix_api \<Rightarrow> string list \<Rightarrow> stdio \<Rightarrow> 'w \<Rightarrow> (int \<times> stdio \<times> 'w) option" where
  "cb_ls_main api argv s w =
     (if length argv > 2
      then (case cb_libc_fprintf (libc api) Stderr (Some (''usage: %s [file]'' @ [newline])) [A_string (Some (argv ! 0))] s w of
              (None, _) \<Rightarrow> None | (Some _, s1, w1) \<Rightarrow> Some (1, s1, w1))
      else let path = (if length argv = 2 then argv ! 1 else ''.'')
           in case cb_libc_opendir api path w of
                (None, w1) \<Rightarrow>
                  if ap_get_errno (libc api) w1 = errno_value CB_ENOTDIR
                  then (case cb_libc_puts (libc api) path s w1 of (r, s2, w2) \<Rightarrow> Some (if r = -1 then 1 else 0, s2, w2))
                  else ls_warn api path s w1
              | (Some dir, w1) \<Rightarrow> (case ls_loop api dir s w1 of None \<Rightarrow> None | Some x \<Rightarrow> ls_end api path dir x))"

section \<open>echo\<close>

text \<open>\<^verbatim>\<open>setprogname\<close> does nothing. \<open>None\<close> for the status: the command has ended through \<^verbatim>\<open>err\<close>.\<close>

fun echo_loop :: "'w unix_api \<Rightarrow> string list \<Rightarrow> stdio \<Rightarrow> 'w \<Rightarrow> (stdio \<times> 'w) option" where
  "echo_loop api [] s w = Some (s, w)"
| "echo_loop api (arg # argv) s w =
     (case cb_libc_printf (libc api) (Some ''%s'') [A_string (Some arg)] s w of
        (None, _) \<Rightarrow> None
      | (Some _, s1, w1) \<Rightarrow>
          (case (if argv \<noteq> [] then snd (cb_libc_putchar (libc api) 32 s1 w1) else (s1, w1)) of
             (s2, w2) \<Rightarrow> echo_loop api argv s2 w2))"

definition echo_end :: "'w unix_api \<Rightarrow> stdio \<times> 'w \<Rightarrow> (int option \<times> stdio \<times> 'w) option" where
  "echo_end api = (\<lambda>(s, w).
     case cb_libc_fflush (libc api) Stdout s w of
       (_, s1, w1) \<Rightarrow>
         (case cb_libc_ferror (libc api) Stdout s1 w1 of
            (failed, s2, w2) \<Rightarrow>
              if failed then map_option (Pair None) (cb_libc_err api 1 (Some ''write error'') [] s2 w2) else Some (Some 0, s2, w2)))"

definition echo_main :: "'w unix_api \<Rightarrow> bool \<Rightarrow> string list \<Rightarrow> stdio \<Rightarrow> 'w \<Rightarrow> (int option \<times> stdio \<times> 'w) option" where
  "echo_main api has_getenv argv s w =
     (let w0 = snd (cb_libc_setlocale (cb_api.truncate (libc api)) has_getenv 0 (Some []) w);
          nflag = (take 1 (tl argv) = [''-n''])
      in case echo_loop api (if nflag then tl (tl argv) else tl argv) s w0 of
           None \<Rightarrow> None
         | Some (s1, w1) \<Rightarrow> echo_end api (if nflag then (s1, w1) else snd (cb_libc_putchar (libc api) 10 s1 w1)))"

section \<open>What ls relies on\<close>

text \<open>
  A world at rest, and one in which a directory is being read: its descriptor, the block of the stream once there is
  one, and the names that are left. Standard input and output work in both, and memory does not run out.
\<close>

lemma string_format:
  "format_output api d (Some ''%s'') [A_string (Some x)] s w =
     (case add_output api d [] 0 s w of
        (None, s1, w1) \<Rightarrow> (Some (-1), s1, w1)
      | (Some tot, s1, w1) \<Rightarrow>
          (case add_output api d x tot s1 w1 of (None, s2, w2) \<Rightarrow> (Some (-1), s2, w2) | (y, s2, w2) \<Rightarrow> (y, s2, w2)))"
  by (simp add: format_output_def format_loop.simps [of api d "''%s''"] format_loop.simps [of api d "[]"] read_width_def convert_def is_digit_def Let_def
      split: prod.split option.split)

lemma string_format_defined: "fst (format_output api d (Some ''%s'') [A_string (Some x)] s w) \<noteq> None"
  by (auto simp: string_format split: prod.split option.split)

lemma put_formatted_defined:
  "fst (format_output (libc api) 2 fmt args (fst x) (snd x)) \<noteq> None \<Longrightarrow> put_formatted api fmt args x \<noteq> None"
  by (auto simp: put_formatted_def split: prod.splits option.splits)

lemma echo_err_defined: "\<exists>s' w'. cb_libc_err api 1 (Some ''write error'') [] s w = Some (s', w')"
proof -
  have "fst (format_output (libc api) 2 (Some ''write error'') [] s w) \<noteq> None" for s w
    by (auto simp: format_output_def format_loop.simps [of "libc api" 2 "''write error''"] Let_def split: prod.split option.split)
  then have "put_formatted api (Some ''write error'') [] x \<noteq> None" for x by (rule put_formatted_defined)
  then have "cb_libc_err api 1 (Some ''write error'') [] s w \<noteq> None" by (simp add: cb_libc_err_def put_reason_def)
  then show ?thesis by auto
qed

lemma ls_warns: "\<exists>s' w'. ls_warn api path s w = Some (1, s', w')"
proof -
  have "put_formatted api (Some ''%s'') [A_string (Some path)] x \<noteq> None" for x by (rule put_formatted_defined) (rule string_format_defined)
  then have "cb_libc_warn api (Some ''%s'') [A_string (Some path)] s w \<noteq> None"
    by (simp add: cb_libc_warn_def put_reason_def Let_def)
  then show ?thesis by (auto simp: ls_warn_def)
qed

lemma enotdir_alone: "errno_value e = 20 \<longleftrightarrow> e = CB_ENOTDIR"
  by (cases e) simp_all

text \<open>A write to standard output fails in some world.\<close>

context libc_streams
begin

definition write_fails :: bool where
  "write_fails \<longleftrightarrow> (\<exists>w s c w'. ok_world w \<and> s \<noteq> [] \<and> int (length (written w) + length s) \<le> INT64_MAX \<and> ap_write api 1 s w = (c, w') \<and> c < 0)"

lemma write_loop_memory:
  assumes "\<not> write_fails" "ok_world w" "int (length (written w) + length bytes) \<le> INT64_MAX" "write_loop api 1 bytes saved s w = (r, s', w')"
  shows "r = 0"
  using assms(2-)
proof (induction "length bytes" arbitrary: bytes w rule: less_induct)
  case less
  show ?case
  proof (cases "bytes = []")
    case False
    obtain c w1 where c: "ap_write api 1 bytes w = (c, w1)" by fastforce
    have "0 \<le> c" using assms(1) less.prems(1,2) False c unfolding write_fails_def by (meson not_less)
    then have l: "0 < c" "c \<le> int (length bytes)" "ok_world w1" "written w1 = written w @ take (nat c) bytes"
      using law_write [OF less.prems(1) False less.prems(2) c] by auto
    have "write_loop api 1 (drop (nat c) bytes) saved s w1 = (r, s', w')"
      using less.prems(3) False c l(1) by (simp add: write_loop.simps [of api 1 bytes])
    moreover have "length (drop (nat c) bytes) < length bytes" "int (length (written w1) + length (drop (nat c) bytes)) \<le> INT64_MAX"
      using l False less.prems(2) by (auto simp: min_def)
    ultimately show ?thesis using less.hyps l(3) by blast
  qed (use less.prems in \<open>simp add: write_loop.simps\<close>)
qed

lemma write_all_failed:
  assumes "ok_world w" "\<not> so_stdout_closed s" "int (length (written w) + length bytes) \<le> INT64_MAX" "libc_write_all api 1 bytes s w = (r, s', w')"
    "r \<noteq> 0"
  shows "write_fails"
proof (rule ccontr)
  assume m: "\<not> write_fails"
  let ?w = "same_errno api w"
  have w: "ok_world ?w" "written ?w = written w" using same_errno_streams(1) [OF assms(1)] by (simp_all add: same_streams_def)
  have "write_loop api 1 bytes (ap_get_errno api w) s ?w = (r, s', w')"
    using assms(2,4) by (simp add: libc_write_all_def stdio_stream_closed_def)
  then show False using write_loop_memory [OF m w(1)] w(2) assms(3,5) by simp
qed

end

locale memory_streams = libc_streams +
  assumes memory: "\<not> write_fails"
begin

lemma write_all_memory:
  assumes "ok_world w" "\<not> so_stdout_closed s" "int (length (written w) + length bytes) \<le> INT64_MAX" "libc_write_all api 1 bytes s w = (r, s', w')"
  shows "r = 0 \<and> s' = s \<and> ok_world w' \<and> input w' = input w \<and> written w' = written w @ bytes"
proof -
  have "r = 0" using write_all_failed [OF assms] memory by blast
  then show ?thesis using libc_write_all_out [OF assms] by (simp add: outputs_def)
qed

lemma puts_memory:
  assumes "ok_world w" "\<not> so_stdout_closed s" "int (length (written w) + length line + 1) \<le> INT64_MAX" "cb_libc_puts api line s w = (r, s', w')"
  shows "r = 0 \<and> s' = s \<and> ok_world w' \<and> input w' = input w \<and> written w' = written w @ line @ [newline]"
proof -
  obtain r1 s1 w1 where 1: "libc_write_all api 1 line s w = (r1, s1, w1)" by (metis prod_cases3)
  have l: "r1 = 0" "s1 = s" "ok_world w1" "input w1 = input w" "written w1 = written w @ line"
    using write_all_memory [OF assms(1,2) _ 1] assms(3) by simp_all
  obtain r2 s2 w2 where 2: "libc_write_all api 1 [newline] s w1 = (r2, s2, w2)" by (metis prod_cases3)
  have "r2 = 0 \<and> s2 = s \<and> ok_world w2 \<and> input w2 = input w1 \<and> written w2 = written w1 @ [newline]"
    using write_all_memory [OF l(3) assms(2) _ 2] assms(3) l(5) by simp
  then show ?thesis using assms(4) 1 2 l by (simp add: cb_libc_puts_def)
qed

end

locale listing_calls =
  fixes api :: "'w unix_api" and open_dir :: "string \<Rightarrow> 'w \<Rightarrow> int \<times> 'w"
    and read_dir :: "int \<Rightarrow> nat \<Rightarrow> 'w \<Rightarrow> (string \<times> nat \<times> node_type) option \<times> 'w" and close_dir :: "int \<Rightarrow> 'w \<Rightarrow> int \<times> 'w"
    and idle :: "'w \<Rightarrow> bool" and reading :: "int \<Rightarrow> addr option \<Rightarrow> string list \<Rightarrow> 'w \<Rightarrow> bool"
    and input :: "'w \<Rightarrow> string" and written :: "'w \<Rightarrow> string"
    and lists :: "string \<Rightarrow> string list \<Rightarrow> 'w \<Rightarrow> bool" and refuses :: "string \<Rightarrow> cb_error \<Rightarrow> 'w \<Rightarrow> bool"
  assumes has_directories: "ap_opendir api = Some open_dir" "ap_readdir api = Some read_dir" "ap_closedir api = Some close_dir"
    and idle_streams: "memory_streams (libc api) idle input written"
    and reading_streams: "memory_streams (libc api) (reading d b ns) input written"
    and law_open: "idle w \<Longrightarrow> lists path ns w \<Longrightarrow> open_dir path w = (d, w') \<Longrightarrow>
      0 \<le> d \<and> reading d None ns w' \<and> input w' = input w \<and> written w' = written w"
    and law_refuse: "idle w \<Longrightarrow> refuses path e w \<Longrightarrow> open_dir path w = (d, w') \<Longrightarrow>
      d < 0 \<and> idle w' \<and> ap_get_errno (libc api) w' = errno_value e \<and> input w' = input w \<and> written w' = written w"
    and law_stream: "reading d None ns w \<Longrightarrow> ap_allocate (libc api) m w = (b, w') \<Longrightarrow>
      b \<noteq> None \<and> reading d b ns w' \<and> input w' = input w \<and> written w' = written w"
    and law_end: "reading d (Some p) [] w \<Longrightarrow> read_dir d CB_PATH_MAX w = (x, w') \<Longrightarrow> w' = w \<and> (\<exists>y. x = Some ([], y))"
    and law_entry: "reading d (Some p) (n # ns) w \<Longrightarrow> read_dir d CB_PATH_MAX w = (x, w') \<Longrightarrow>
      n \<noteq> [] \<and> (\<exists>y. x = Some (n, y)) \<and> reading d (Some p) ns w' \<and> input w' = input w \<and> written w' = written w"
    and law_close: "reading d (Some p) ns w \<Longrightarrow> close_dir d w = (r, w') \<Longrightarrow>
      0 \<le> r \<and> idle (ap_release (libc api) p w') \<and> input (ap_release (libc api) p w') = input w \<and>
      written (ap_release (libc api) p w') = written w"
begin

definition listing :: "string list \<Rightarrow> string" where
  "listing ns = concat (map (\<lambda>n. n @ [newline]) ns)"

lemma listing_simps [simp]: "listing [] = []" "listing (n # ns) = n @ newline # listing ns"
  by (simp_all add: listing_def)

lemma set_errno_reading:
  assumes "reading d b ns w"
  shows "reading d b ns (ap_set_errno (libc api) e w)" "input (ap_set_errno (libc api) e w) = input w"
    "written (ap_set_errno (libc api) e w) = written w" "ap_get_errno (libc api) (ap_set_errno (libc api) e w) = e"
proof -
  have l: "libc_streams (libc api) (reading d b ns) input written" by (rule memory_streams.axioms(1) [OF reading_streams])
  show "reading d b ns (ap_set_errno (libc api) e w)" "input (ap_set_errno (libc api) e w) = input w"
    "written (ap_set_errno (libc api) e w) = written w" "ap_get_errno (libc api) (ap_set_errno (libc api) e w) = e"
    using libc_streams.law_set_errno [OF l assms] libc_streams.law_errno [OF l assms] by simp_all
qed

lemma ls_loop_lists:
  assumes "reading d (Some p) ns w" "\<not> so_stdout_closed s" "int (length (written w) + length (listing ns)) \<le> INT64_MAX" "ld_descriptor dir = d"
  shows "\<exists>w'. ls_loop api dir s w = Some (0, s, w') \<and> reading d (Some p) [] w' \<and> ap_get_errno (libc api) w' = 0 \<and>
    input w' = input w \<and> written w' = written w @ listing ns"
  using assms
proof (induction ns arbitrary: w)
  case Nil
  let ?w = "ap_set_errno (libc api) 0 w"
  note e = set_errno_reading [OF Nil.prems(1), of 0]
  obtain x w1 where x: "read_dir d CB_PATH_MAX ?w = (x, w1)" by fastforce
  then obtain y where y: "w1 = ?w" "x = Some ([], y)" using law_end [OF e(1)] by blast
  have "cb_libc_readdir api (Some dir) ?w = (None, ?w)"
    using x y Nil.prems(4) by (simp add: cb_libc_readdir_def has_directories split: prod.split)
  then show ?case using e by (simp add: ls_loop.simps [of api dir s w])
next
  case (Cons n ns)
  let ?w = "ap_set_errno (libc api) 0 w"
  note e = set_errno_reading [OF Cons.prems(1), of 0]
  obtain x w1 where x: "read_dir d CB_PATH_MAX ?w = (x, w1)" by fastforce
  then obtain y where y: "n \<noteq> []" "x = Some (n, y)" "reading d (Some p) ns w1" "input w1 = input w" "written w1 = written w"
    using law_entry [OF e(1)] e by auto
  obtain i type where i: "y = (i, type)" by fastforce
  have rd: "cb_libc_readdir api (Some dir) ?w = (Some \<lparr>de_ino = i, de_type = dirent_type type, de_name = n\<rparr>, w1)"
    using x y i Cons.prems(4) by (simp add: cb_libc_readdir_def has_directories)
  obtain r s2 w2 where 2: "cb_libc_puts (libc api) n s w1 = (r, s2, w2)" by (metis prod_cases3)
  have p: "r = 0" "s2 = s" "reading d (Some p) ns w2" "input w2 = input w1" "written w2 = written w1 @ n @ [newline]"
    using memory_streams.puts_memory [OF reading_streams y(3) Cons.prems(2) _ 2] Cons.prems(3) y(5) by auto
  have "ls_loop api dir s w = ls_loop api dir s w2" using rd 2 p by (simp add: ls_loop.simps [of api dir s w])
  then show ?case using Cons.IH [OF p(3) Cons.prems(2) _ Cons.prems(4)] Cons.prems(3) p y by auto
qed

lemma opendir_opens:
  assumes "idle w" "lists path ns w" "cb_libc_opendir api path w = (x, w')"
  shows "\<exists>d p. x = Some \<lparr>ld_block = p, ld_descriptor = d\<rparr> \<and> reading d (Some p) ns w' \<and> input w' = input w \<and> written w' = written w"
proof -
  obtain d w1 where d: "open_dir path w = (d, w1)" by fastforce
  note o = law_open [OF assms(1,2) d]
  obtain b w2 where b: "ap_allocate (libc api) sizeof_cb_libc_dir w1 = (b, w2)" by fastforce
  have a: "b \<noteq> None \<and> reading d b ns w2 \<and> input w2 = input w1 \<and> written w2 = written w1" using law_stream [OF _ b] o by blast
  then show ?thesis using assms(3) d b o by (auto simp: cb_libc_opendir_def has_directories)
qed

lemma ls_lists:
  assumes "idle w" "\<not> so_stdout_closed s" "lists path ns w" "int (length (written w) + length (listing ns)) \<le> INT64_MAX"
    "argv = [name, path] \<or> argv = [name] \<and> path = ''.''"
  shows "\<exists>w'. cb_ls_main api argv s w = Some (0, s, w') \<and> idle w' \<and> input w' = input w \<and> written w' = written w @ listing ns"
proof -
  obtain x w1 where x: "cb_libc_opendir api path w = (x, w1)" by fastforce
  obtain d p where d: "x = Some \<lparr>ld_block = p, ld_descriptor = d\<rparr>" "reading d (Some p) ns w1" "input w1 = input w" "written w1 = written w"
    using opendir_opens [OF assms(1,3) x] by blast
  let ?dir = "\<lparr>ld_block = p, ld_descriptor = d\<rparr>"
  obtain w2 where w2: "ls_loop api ?dir s w1 = Some (0, s, w2)" "reading d (Some p) [] w2" "ap_get_errno (libc api) w2 = 0"
    "input w2 = input w1" "written w2 = written w1 @ listing ns"
    using ls_loop_lists [OF d(2) assms(2), of ?dir] assms(4) d(4) by auto
  obtain r w3 where r: "close_dir d w2 = (r, w3)" by fastforce
  note c = law_close [OF w2(2) r]
  have "ls_end api path ?dir (0, s, w2) = Some (0, s, ap_release (libc api) p w3)"
    using w2(3) r c by (simp add: ls_end_def cb_libc_closedir_def has_directories)
  then have "cb_ls_main api argv s w = Some (0, s, ap_release (libc api) p w3)"
    using assms(5) x d(1) w2(1) by (auto simp: cb_ls_main_def)
  then show ?thesis using c w2 d by auto
qed

lemma ls_refused:
  assumes "idle w" "\<not> so_stdout_closed s" "refuses path e w" "int (length (written w) + length path + 1) \<le> INT64_MAX"
    "argv = [name, path] \<or> argv = [name] \<and> path = ''.''"
  shows "\<exists>s' w'. if e = CB_ENOTDIR
    then cb_ls_main api argv s w = Some (0, s, w') \<and> idle w' \<and> input w' = input w \<and> written w' = written w @ path @ [newline]
    else cb_ls_main api argv s w = Some (1, s', w')"
proof -
  obtain d w1 where d: "open_dir path w = (d, w1)" by fastforce
  note o = law_refuse [OF assms(1,3) d]
  then have x: "cb_libc_opendir api path w = (None, w1)" using d by (simp add: cb_libc_opendir_def has_directories)
  obtain r s2 w2 where 2: "cb_libc_puts (libc api) path s w1 = (r, s2, w2)" by (metis prod_cases3)
  have p: "r = 0 \<and> s2 = s \<and> idle w2 \<and> input w2 = input w1 \<and> written w2 = written w1 @ path @ [newline]"
    using memory_streams.puts_memory [OF idle_streams _ assms(2) _ 2] o assms(4) by simp
  obtain s' w' where w: "ls_warn api path s w1 = Some (1, s', w')" using ls_warns [of api path s w1] by auto
  have "cb_ls_main api argv s w = (if e = CB_ENOTDIR then Some (0, s, w2) else ls_warn api path s w1)"
    using assms(5) x o p 2 by (auto simp: cb_ls_main_def enotdir_alone)
  then show ?thesis using o p w by auto
qed

end

section \<open>What echo relies on\<close>

fun unwords :: "string list \<Rightarrow> string" where
  "unwords [] = []"
| "unwords (x # xs) = (if xs = [] then x else x @ CHR '' '' # unwords xs)"

definition echo_text :: "string list \<Rightarrow> string" where
  "echo_text args = (if take 1 args = [''-n''] then unwords (tl args) else unwords args @ [newline])"

locale echo_calls = libc_streams "libc api" ok_world input written
  for api :: "'w unix_api" and ok_world input written +
  assumes law_getenv: "ok_world w \<Longrightarrow> ap_getenv (libc api) name w = (v, w') \<Longrightarrow> ok_world w' \<and> input w' = input w \<and> written w' = written w"
begin

text \<open>Text that is printed, or the failure is noted in the flags of the stream.\<close>

definition printed :: "string \<Rightarrow> stdio \<Rightarrow> 'w \<Rightarrow> stdio \<Rightarrow> 'w \<Rightarrow> bool" where
  "printed b s w s' w' \<longleftrightarrow> ok_world w' \<and> input w' = input w \<and> so_stdout_closed s' = so_stdout_closed s \<and>
     length (written w') \<le> length (written w) + length b \<and>
     (s' = s \<and> written w' = written w @ b \<or> so_stdout_error s' \<and> write_fails)"

lemma printed_trans: "printed b1 s w s1 w1 \<Longrightarrow> printed b2 s1 w1 s2 w2 \<Longrightarrow> printed (b1 @ b2) s w s2 w2"
  by (auto simp: printed_def)

lemma printed_none: "ok_world w \<Longrightarrow> printed [] s w s w"
  by (simp add: printed_def)

lemma write_all_printed:
  assumes "ok_world w" "\<not> so_stdout_closed s" "int (length (written w) + length b) \<le> INT64_MAX" "libc_write_all (libc api) 1 b s w = (r, s', w')"
  shows "printed b s w s' w'"
  using libc_write_all_out [OF assms] write_all_failed [OF assms]
  by (cases "r = 0") (auto simp: outputs_def printed_def dest: prefix_length_le)

lemma add_output_printed:
  assumes "ok_world w" "\<not> so_stdout_closed s" "int (length (written w) + length b) \<le> INT64_MAX" "tot + int (length b) \<le> INT_MAX"
    "add_output (libc api) 1 b tot s w = (x, s', w')"
  shows "printed b s w s' w' \<and> (x = None \<longrightarrow> so_stdout_error s' \<and> write_fails) \<and> (\<forall>n. x = Some n \<longrightarrow> n = tot + int (length b))"
proof -
  obtain r s1 w1 where r: "libc_write_all (libc api) 1 b s w = (r, s1, w1)" by (metis prod_cases3)
  have "r < 0 \<longrightarrow> so_stdout_error s1 \<and> write_fails"
    using libc_write_all_out [OF assms(1-3) r] write_all_failed [OF assms(1-3) r] by (auto simp: outputs_def)
  then show ?thesis using write_all_printed [OF assms(1-3) r] r assms(4,5) by (auto simp: add_output_def split: if_splits)
qed

lemma printf_printed:
  assumes "ok_world w" "\<not> so_stdout_closed s" "int (length (written w) + length x) \<le> INT64_MAX" "int (length x) \<le> INT_MAX"
  shows "\<exists>n s' w'. cb_libc_printf (libc api) (Some ''%s'') [A_string (Some x)] s w = (Some n, s', w') \<and> printed x s w s' w'"
proof -
  obtain y s1 w1 where y: "add_output (libc api) 1 [] 0 s w = (y, s1, w1)" by (metis prod_cases3)
  have m: "int 0 \<le> INT_MAX" by (simp add: INT_MAX_def)
  have 1: "printed [] s w s1 w1" "y = None \<longrightarrow> so_stdout_error s1 \<and> write_fails" "\<forall>n. y = Some n \<longrightarrow> n = 0"
    using add_output_printed [OF assms(1,2) _ _ y] assms(3) m by simp_all
  show ?thesis
  proof (cases y)
    case None
    then show ?thesis using 1 y by (auto simp: cb_libc_printf_def string_format printed_def)
  next
    case (Some n)
    obtain z s2 w2 where z: "add_output (libc api) 1 x 0 s1 w1 = (z, s2, w2)" by (metis prod_cases3)
    have "ok_world w1" "\<not> so_stdout_closed s1" "length (written w1) \<le> length (written w)" using 1(1) assms(2) by (simp_all add: printed_def)
    then have "printed x s1 w1 s2 w2" using add_output_printed [OF _ _ _ _ z] assms(3,4) by simp
    then show ?thesis using Some 1 y z printed_trans [OF 1(1)] by (cases z) (auto simp: cb_libc_printf_def string_format)
  qed
qed

lemma separators: "char_of (32 :: nat) = CHR '' ''" "char_of (10 :: nat) = newline"
  by code_simp+

lemma putchar_printed:
  assumes "ok_world w" "\<not> so_stdout_closed s" "int (length (written w) + 1) \<le> INT64_MAX" "0 \<le> c" "c < 256"
  shows "printed [char_of (nat c)] s w (fst (snd (cb_libc_putchar (libc api) c s w))) (snd (snd (cb_libc_putchar (libc api) c s w)))"
proof -
  let ?w = "same_errno (libc api) w"
  have w: "ok_world ?w" "input ?w = input w" "written ?w = written w" using same_errno_streams(1) [OF assms(1)] by (simp_all add: same_streams_def)
  obtain r s1 w1 where r: "libc_write_all (libc api) 1 [char_of (nat c)] s ?w = (r, s1, w1)" by (metis prod_cases3)
  have "printed [char_of (nat c)] s ?w s1 w1" using write_all_printed [OF w(1) assms(2) _ r] assms(3) w(3) by simp
  then show ?thesis using r w assms(4,5) has_states by (simp add: cb_libc_putchar_def printed_def Let_def)
qed

lemma setlocale_streams:
  assumes "ok_world w" shows "same_streams w (snd (cb_libc_setlocale (cb_api.truncate (libc api)) g c name w))"
proof -
  have env: "same_streams w w'" if "ok_world w" "ap_getenv (cb_api.truncate (libc api)) n w = (v, w')" for n v w w'
    using law_getenv that by (simp add: same_streams_def cb_api.defs)
  have t: "same_streams w w1 \<Longrightarrow> same_streams w1 w2 \<Longrightarrow> same_streams w w2" for w w1 w2 by (simp add: same_streams_def)
  have loop: "same_streams w (snd (category_loop (cb_api.truncate (libc api)) vs w))" if "ok_world w" for vs w
    using that
  proof (induction vs arbitrary: w)
    case (Cons v vs)
    obtain x w1 where x: "ap_getenv (cb_api.truncate (libc api)) v w = (x, w1)" by fastforce
    have 1: "same_streams w w1" by (rule env [OF Cons.prems x])
    obtain y w2 where y: "ap_getenv (cb_api.truncate (libc api)) ''LANG'' w1 = (y, w2)" by fastforce
    have 2: "same_streams w1 w2" by (rule env [OF _ y]) (use 1 in \<open>simp add: same_streams_def\<close>)
    let ?w = "if is_set x then w1 else w2"
    have w: "same_streams w ?w" using 1 t [OF 1 2] by simp
    then have "same_streams w (snd (category_loop (cb_api.truncate (libc api)) vs ?w))"
      using t [OF w Cons.IH] by (simp add: same_streams_def)
    then show ?case using w x y by (cases "is_set x") simp_all
  qed (simp add: same_streams_def)
  obtain x w1 where x: "ap_getenv (cb_api.truncate (libc api)) ''LC_ALL'' w = (x, w1)" by fastforce
  have 1: "same_streams w w1" by (rule env [OF assms x])
  moreover have "same_streams w1 (snd (category_loop (cb_api.truncate (libc api)) category_variables w1))"
    by (rule loop) (use 1 in \<open>simp add: same_streams_def\<close>)
  ultimately show ?thesis using x assms t
    by (auto simp: cb_libc_setlocale_def same_streams_def split: option.split prod.split)
qed

lemma echo_loop_printed:
  assumes "ok_world w" "\<not> so_stdout_closed s" "int (length (written w) + length (unwords args)) \<le> INT64_MAX"
    "\<forall>x\<in>set args. int (length x) \<le> INT_MAX"
  shows "\<exists>s' w'. echo_loop api args s w = Some (s', w') \<and> printed (unwords args) s w s' w'"
  using assms
proof (induction args arbitrary: s w)
  case Nil
  then show ?case using printed_none by simp
next
  case (Cons x args)
  have len: "int (length (written w) + length x) \<le> INT64_MAX" "int (length x) \<le> INT_MAX" using Cons.prems(3,4) by (auto split: if_splits)
  obtain n s1 w1 where 1: "cb_libc_printf (libc api) (Some ''%s'') [A_string (Some x)] s w = (Some n, s1, w1)" "printed x s w s1 w1"
    using printf_printed [OF Cons.prems(1,2) len] by blast
  show ?case
  proof (cases "args = []")
    case True
    then show ?thesis using 1 by simp
  next
    case False
    let ?s = "fst (snd (cb_libc_putchar (libc api) 32 s1 w1))" and ?w = "snd (snd (cb_libc_putchar (libc api) 32 s1 w1))"
    have w1: "ok_world w1" "\<not> so_stdout_closed s1" "length (written w1) \<le> length (written w) + length x"
      using 1(2) Cons.prems(2) by (simp_all add: printed_def)
    have 2: "printed [CHR '' ''] s1 w1 ?s ?w"
      using putchar_printed [OF w1(1,2), of 32] w1(3) Cons.prems(3) False separators by simp
    then have w2: "ok_world ?w" "\<not> so_stdout_closed ?s" "length (written ?w) \<le> length (written w1) + 1"
      using w1(2) by (simp_all add: printed_def)
    obtain s' w' where 3: "echo_loop api args ?s ?w = Some (s', w')" "printed (unwords args) ?s ?w s' w'"
      using Cons.IH [OF w2(1,2)] w1(3) w2(3) Cons.prems(3,4) False by auto
    have "printed (x @ [CHR '' ''] @ unwords args) s w s' w'" by (rule printed_trans [OF 1(2) printed_trans [OF 2 3(2)]])
    then show ?thesis using 1(1) 3(1) False by (simp add: case_prod_beta)
  qed
qed

lemma echo_prints:
  assumes "ok_world w" "\<not> so_stdout_closed s" "\<not> so_stdout_error s"
    "int (length (written w) + length (echo_text args)) \<le> INT64_MAX" "\<forall>x\<in>set args. int (length x) \<le> INT_MAX"
  shows "\<exists>r s' w'. echo_main api g (name # args) s w = Some (r, s', w') \<and>
    (r = Some 0 \<and> s' = s \<and> ok_world w' \<and> input w' = input w \<and> written w' = written w @ echo_text args \<or> r = None \<and> write_fails)"
proof -
  let ?w0 = "snd (cb_libc_setlocale (cb_api.truncate (libc api)) g 0 (Some []) w)"
  have w0: "ok_world ?w0" "input ?w0 = input w" "written ?w0 = written w" using setlocale_streams [OF assms(1)] by (simp_all add: same_streams_def)
  define nflag where "nflag = (take 1 args = [''-n''])"
  let ?args = "if nflag then tl args else args"
  have "\<forall>x\<in>set ?args. int (length x) \<le> INT_MAX" using assms(5) by (cases args) auto
  then obtain s1 w1 where 1: "echo_loop api ?args s ?w0 = Some (s1, w1)" "printed (unwords ?args) s ?w0 s1 w1"
    using echo_loop_printed [OF w0(1) assms(2), of ?args] assms(4) w0(3) by (auto simp: echo_text_def nflag_def split: if_splits)
  define x where "x = (if nflag then (s1, w1) else snd (cb_libc_putchar (libc api) 10 s1 w1))"
  have w1: "ok_world w1" "\<not> so_stdout_closed s1" "length (written w1) \<le> length (written ?w0) + length (unwords ?args)"
    using 1(2) assms(2) by (simp_all add: printed_def)
  have p: "printed (echo_text args) s ?w0 (fst x) (snd x)"
  proof (cases nflag)
    case True
    then show ?thesis using 1 by (simp add: x_def echo_text_def nflag_def)
  next
    case False
    have "printed [newline] s1 w1 (fst x) (snd x)"
      using putchar_printed [OF w1(1,2), of 10] w1(3) w0(3) assms(4) False by (simp add: x_def echo_text_def nflag_def separators)
    then show ?thesis using printed_trans [OF 1(2)] False by (simp add: echo_text_def nflag_def)
  qed
  then have x: "ok_world (snd x)" "\<not> so_stdout_closed (fst x)" using assms(2) by (simp_all add: printed_def)
  let ?w1 = "same_errno (libc api) (snd x)"
  have s1: "same_streams (snd x) ?w1" using x(1) by simp
  let ?w2 = "same_errno (libc api) ?w1"
  have s2: "same_streams (snd x) ?w2" using same_errno_streams(1) [of ?w1] s1 by (simp add: same_streams_def)
  let ?w3 = "same_errno (libc api) ?w2"
  have s3: "same_streams (snd x) ?w3" using same_errno_streams(1) [of ?w2] s2 by (simp add: same_streams_def)
  have e: "echo_main api g (name # args) s w = echo_end api x"
    unfolding echo_main_def Let_def list.sel nflag_def [symmetric] 1(1) option.case prod.case x_def [symmetric] by (rule refl)
  have run: "echo_main api g (name # args) s w =
      (if so_stdout_error (fst x) then map_option (Pair None) (cb_libc_err api 1 (Some ''write error'') [] (fst x) ?w3) else Some (Some 0, fst x, ?w3))"
    unfolding e using x(2) has_states(1) by (simp add: echo_end_def cb_libc_fflush_def cb_libc_ferror_def stdio_stream_closed_def case_prod_beta Let_def)
  show ?thesis
  proof (cases "so_stdout_error (fst x)")
    case True
    then show ?thesis using run p assms(3) echo_err_defined [of api "fst x" ?w3] by (auto simp: printed_def)
  next
    case False
    then show ?thesis using run p s3 w0 by (auto simp: printed_def same_streams_def)
  qed
qed

end

end
