(* ===== verification/Kernel_Commands.thy ===== *)
theory Kernel_Commands
  imports Kernel_Walk Commands
begin

text \<open>
  The commands on this kernel: \<^verbatim>\<open>ls\<close> and \<^verbatim>\<open>echo\<close> with regular files behind descriptors 0 and 1. Listing a directory into a
  file changes that file while the directory is being read, so the view of the directory has to be kept while nodes change
  their contents.
\<close>

section \<open>File systems of the same shape\<close>

definition same_shape :: "vfs_state \<Rightarrow> vfs_state \<Rightarrow> bool" where
  "same_shape v v' \<longleftrightarrow> frame v' = frame v \<and> (\<forall>x. map_option shape (nodes v' x) = map_option shape (nodes v x))"

lemma same_shape_refl [simp]: "same_shape v v"
  by (simp add: same_shape_def)

lemma same_nodes_shape: "same_nodes v v' \<Longrightarrow> same_shape v v'"
proof -
  assume s: "same_nodes v v'"
  have "map_option shape (nodes v' x) = map_option shape (nodes v x)" for x
    using same_nodes_node [OF s, of x] by (cases "nodes v x") (auto simp: shape_def dest: unref_fields)
  then show ?thesis using s by (simp add: same_shape_def same_nodes_def)
qed

lemma same_shape_node:
  assumes "same_shape v v'" "nodes v x = Some n"
  obtains n' where "nodes v' x = Some n'" "n_name n' = n_name n" "n_parent n' = n_parent n" "n_next_sibling n' = n_next_sibling n"
proof -
  have "map_option shape (nodes v' x) = Some (shape n)" using assms by (auto simp: same_shape_def)
  then show ?thesis using that by (auto simp: shape_def)
qed

lemma shape_anchored:
  assumes "same_shape v v'" "anchored v a" shows "anchored v' a"
proof -
  obtain n where n: "nodes v a = Some n" "n_parent n \<noteq> None \<or> vfs_refs v a > 0" using assms(2) by (auto simp: anchored_def)
  obtain n' where "nodes v' a = Some n'" "n_parent n' = n_parent n" by (rule same_shape_node [OF assms(1) n(1)])
  moreover have "vfs_refs v' = vfs_refs v" using assms(1) vfs_refs_frame [of v' v] by (simp add: same_shape_def)
  ultimately show ?thesis using n(2) by (simp add: anchored_def)
qed

lemma shape_names:
  assumes "live v refs" "live v' refs'" "same_shape v v'" "\<And>c. p = Some c \<Longrightarrow> anchored v c"
  shows "sibling_names v' p = sibling_names v p"
  using assms(4)
proof (induction "length (sibling_names v p)" arbitrary: p)
  case 0
  then show ?case using sibling_names_step [OF assms(1)] by (cases p) (auto simp: anchored_def)
next
  case (Suc m)
  then obtain c n where c: "p = Some c" "nodes v c = Some n" by (cases p) (auto simp: anchored_def)
  obtain n' where n': "nodes v' c = Some n'" "n_name n' = n_name n" "n_next_sibling n' = n_next_sibling n"
    by (rule same_shape_node [OF assms(3) c(2)])
  note step = sibling_names_step [OF assms(1) c(2)] sibling_names_step [OF assms(2) n'(1)]
  have "sibling_names v' (n_next_sibling n) = sibling_names v (n_next_sibling n)"
    by (rule Suc.hyps(1)) (use Suc.hyps(2) step(1) c link_anchored [OF assms(1) c(2)] in auto)
  then show ?case using step n' c(1) by simp
qed

text \<open>The directories a task holds, seen in the present state of the files.\<close>

lemma view_shape:
  assumes "on_unix a k'" "k_tasks k' a = Some t'" "live v refs" "same_shape v (k_vfs k')" "\<forall>n. alloc_ok (k_host k') n"
    "\<forall>h\<in>set (t_directories t'). d_in_use h \<longrightarrow> held_dir v h"
  shows "unix_view (k_vfs k') (t_cwd t') a k' \<and> unix_names (k_vfs k') a k' = unix_names v a k'"
proof -
  obtain t where t: "k_tasks k' a = Some t" "length (t_directories t) = CB_MAX_DIRS" "kinv k' zero zero" by (rule unix_task [OF assms(1)])
  have l: "live (k_vfs k') (\<lambda>i. node_refs k' i + zero i)" by (rule kinv_live [OF t(3)])
  have "\<forall>h\<in>set (t_directories t'). d_in_use h \<longrightarrow> held_dir (k_vfs k') h"
    using assms(6) shape_anchored [OF assms(4)] by (auto simp: held_dir_def)
  then have "unix_view (k_vfs k') (t_cwd t') a k'" using assms(2,5) l by (auto simp: unix_view_def)
  moreover have "unix_names (k_vfs k') a k' d = unix_names v a k' d" for d
    using assms(2,6) shape_names [OF assms(3) l assms(4)] by (auto simp: unix_names_def used_dirs_mem held_dir_def)
  ultimately show ?thesis by blast
qed

section \<open>Listing into a file\<close>

definition ls_world :: "addr \<Rightarrow> addr \<Rightarrow> addr \<Rightarrow> addr \<Rightarrow> addr \<Rightarrow> cb_kernel \<Rightarrow> bool" where
  "ls_world a f0 n0 f1 n1 k \<longleftrightarrow> file_streams a f0 n0 f1 n1 k \<and> on_unix a k \<and> (\<exists>cwd. unix_view (k_vfs k) cwd a k)"

definition ls_idle :: "addr \<Rightarrow> addr \<Rightarrow> addr \<Rightarrow> addr \<Rightarrow> addr \<Rightarrow> addr multiset \<Rightarrow> cb_kernel \<Rightarrow> bool" where
  "ls_idle a f0 n0 f1 n1 B k \<longleftrightarrow> ls_world a f0 n0 f1 n1 k \<and> task_dirs a k = {#} \<and> task_blocks a k = B"

definition ls_reading ::
  "addr \<Rightarrow> addr \<Rightarrow> addr \<Rightarrow> addr \<Rightarrow> addr \<Rightarrow> addr multiset \<Rightarrow> int \<Rightarrow> addr option \<Rightarrow> string list \<Rightarrow> cb_kernel \<Rightarrow> bool" where
  "ls_reading a f0 n0 f1 n1 B d b ns k \<longleftrightarrow> ls_world a f0 n0 f1 n1 k \<and> task_dirs a k = {#d#} \<and> unix_names (k_vfs k) a k d = ns \<and>
     (\<forall>n\<in>set ns. n \<noteq> [] \<and> length n < CB_PATH_MAX) \<and> task_blocks a k = (case b of None \<Rightarrow> B | Some p \<Rightarrow> add_mset p B)"

text \<open>A call that leaves the open files and descriptors, and counts references at most.\<close>

lemma streams_same:
  assumes "file_streams a f0 n0 f1 n1 k" "on_unix a k'" "k_files k' = k_files k" "fd_table a k' = fd_table a k" "same_nodes (k_vfs k) (k_vfs k')"
  shows "file_streams a f0 n0 f1 n1 k' \<and> unread f0 n0 k' = unread f0 n0 k \<and> file_content n1 k' = file_content n1 k"
proof -
  obtain F0 N0 F1 N1 where f: "k_files k f0 = Some F0" "nodes (k_vfs k) n0 = Some N0" "k_files k f1 = Some F1" "nodes (k_vfs k) n1 = Some N1"
    using assms(1) by (auto simp: file_streams_def reads_from_def appends_to_def split: option.splits)
  obtain M0 M1 where m: "nodes (k_vfs k') n0 = Some M0" "unref M0 = unref N0" "nodes (k_vfs k') n1 = Some M1" "unref M1 = unref N1"
    using same_nodes_node(2) [OF assms(5) f(2)] same_nodes_node(2) [OF assms(5) f(4)] by blast
  have c: "content M = content N" if "unref M = unref N" for M N using that by (cases M; cases N) (simp add: unref_def content_def)
  have "write_start F1 M1 = write_start F1 N1" using unref_fields(8) [OF m(4)] by (simp add: write_start_def)
  then have "reads_from f0 n0 k'" "appends_to f1 n1 k'"
    using assms(1,3) f m unref_fields(5,8) [OF m(2)] unref_fields(5,8) [OF m(4)]
    by (simp_all add: file_streams_def reads_from_def appends_to_def)
  moreover have "unread f0 n0 k' = unread f0 n0 k" "file_content n1 k' = file_content n1 k"
    using assms(3) f m c [OF m(2)] c [OF m(4)] by (simp_all add: unread_def file_content_def)
  ultimately show ?thesis using assms(1,2,4) by (simp add: file_streams_def on_unix_def)
qed

fun small_call :: "call \<Rightarrow> bool" where
  "small_call (C_opendir path) = True"
| "small_call (C_readdir d null m) = True"
| "small_call (C_closedir d) = True"
| "small_call (C_allocate n) = True"
| "small_call (C_release p) = True"
| "small_call (C_getenv name) = True"
| "small_call (C_set_errno e) = True"
| "small_call _ = False"

lemma node_ops_files [simp]: "k_files (cb_vfs_node_retain k n) = k_files k" "k_files (cb_vfs_node_release k n) = k_files k"
  by (auto simp: cb_vfs_node_retain_def cb_vfs_node_release_def fault_def split: option.split)

lemma small_call_files:
  assumes "small_call c" shows "k_files (snd (do_call k a c)) = k_files k" "fst (do_call k a c) \<noteq> None"
  using assms
  by (cases c rule: small_call.cases;
      auto simp: api_opendir_def api_readdir_def api_closedir_def api_allocate_def api_release_def api_getenv_def fault_def Let_def set_dir_def
        upd_task_def set_ledger_def split: option.split prod.split sum.split)+

lemma small_call_quiet: "small_call c \<Longrightarrow> quiet_call c"
  by (cases c) simp_all

lemma small_call_table:
  assumes "small_call c" "kernel_inv k" "k_current k = Some a" "k' = snd (syscall sched a c k)" "k_current k' = Some a"
  shows "fd_table a k' = fd_table a k" "k_files k' = k_files k"
proof -
  show "fd_table a k' = fd_table a k"
    using syscall_quiet [OF small_call_quiet [OF assms(1)], of a k sched] assms(2-5) by (auto simp: keeps_def running_def)
  obtain x k1 where "do_call k a c = (Some x, k1)" using small_call_files(2) [OF assms(1), of k a] by (cases "do_call k a c") auto
  then show "k_files k' = k_files k" using small_call_files(1) [OF assms(1), of k a] assms(2,3,4) by (simp add: syscall_def)
qed

text \<open>The world after a small call, given what the call did to the directories.\<close>

lemma world_moves:
  assumes "ls_world a f0 n0 f1 n1 k" "small_call c" "k' = snd (syscall sched a c k)" "on_unix a k'" "unix_view (k_vfs k) cwd a k'"
  shows "ls_world a f0 n0 f1 n1 k' \<and> unix_names (k_vfs k') a k' = unix_names (k_vfs k) a k' \<and>
    unread f0 n0 k' = unread f0 n0 k \<and> file_content n1 k' = file_content n1 k"
proof -
  have k: "file_streams a f0 n0 f1 n1 k" "on_unix a k" using assms(1) by (simp_all add: ls_world_def)
  have same: "same_nodes (k_vfs k) (k_vfs k')" using assms(5) by (simp add: unix_view_def)
  obtain t' refs where t': "k_tasks k' a = Some t'" "live (k_vfs k) refs" "\<forall>h\<in>set (t_directories t'). d_in_use h \<longrightarrow> held_dir (k_vfs k) h"
    by (rule unix_viewE [OF assms(4,5)])
  have c: "kernel_inv k" "k_current k = Some a" "k_current k' = Some a" using k(2) assms(4) by (simp_all add: on_unix_def)
  have "\<forall>n. alloc_ok (k_host k') n" using assms(5) by (simp add: unix_view_def)
  from view_shape [OF assms(4) t'(1,2) same_nodes_shape [OF same] this t'(3)]
  have "unix_view (k_vfs k') (t_cwd t') a k'" "unix_names (k_vfs k') a k' = unix_names (k_vfs k) a k'" by blast+
  then show ?thesis
    using streams_same [OF k(1) assms(4) small_call_table(2,1) [OF assms(2) c(1,2) assms(3) c(3)] same] assms(4) by (auto simp: ls_world_def)
qed

lemma ls_worlds:
  "ls_idle a f0 n0 f1 n1 B k \<Longrightarrow> ls_world a f0 n0 f1 n1 k" "ls_reading a f0 n0 f1 n1 B d b ns k \<Longrightarrow> ls_world a f0 n0 f1 n1 k"
  by (simp_all add: ls_idle_def ls_reading_def)

text \<open>A step that keeps the directories and blocks.\<close>

definition ls_same :: "addr \<Rightarrow> addr \<Rightarrow> addr \<Rightarrow> addr \<Rightarrow> addr \<Rightarrow> cb_kernel \<Rightarrow> cb_kernel \<Rightarrow> bool" where
  "ls_same a f0 n0 f1 n1 k k' \<longleftrightarrow> ls_world a f0 n0 f1 n1 k' \<and> unix_names (k_vfs k') a k' = unix_names (k_vfs k) a k \<and>
     task_dirs a k' = task_dirs a k \<and> task_blocks a k' = task_blocks a k"

lemma ls_same_keeps:
  assumes "ls_same a f0 n0 f1 n1 k k'"
  shows "ls_idle a f0 n0 f1 n1 B k \<Longrightarrow> ls_idle a f0 n0 f1 n1 B k'" "ls_reading a f0 n0 f1 n1 B d b ns k \<Longrightarrow> ls_reading a f0 n0 f1 n1 B d b ns k'"
  using assms by (simp_all add: ls_same_def ls_idle_def ls_reading_def)

lemma ls_set_errno:
  assumes "ls_world a f0 n0 f1 n1 k" shows "ls_same a f0 n0 f1 n1 k (cb_task_set_error k a e)"
proof -
  obtain cwd where k: "on_unix a k" "unix_view (k_vfs k) cwd a k" using assms by (auto simp: ls_world_def)
  let ?k = "cb_task_set_error k a e"
  have r: "?k = snd (syscall sched a (C_set_errno e) k)" for sched using unix_errno(1) [OF k(1)] by simp
  note u = unix_errno(2-4) [OF k(1), of e] and v = unix_view_error [OF k(2), of e]
  have "small_call (C_set_errno e)" by simp
  from world_moves [OF assms this r u(1) conjunct1 [OF v]] show ?thesis using u v by (simp add: ls_same_def)
qed

lemma io_moves:
  assumes "ls_world a f0 n0 f1 n1 k" "do_call k a c = (Some x, store_io k a f (r, bytes, e, F, v))" "same_shape (k_vfs k) v"
    "alloc_ok (v_host v) = alloc_ok (k_host k)" "seq k \<le> alloc_seq (v_host v)"
    "file_streams a f0 n0 f1 n1 (store_io k a f (r, bytes, e, F, v))"
  shows "ls_same a f0 n0 f1 n1 k (store_io k a f (r, bytes, e, F, v))"
proof -
  let ?k = "store_io k a f (r, bytes, e, F, v)"
  obtain cwd where k: "on_unix a k" "unix_view (k_vfs k) cwd a k" using assms(1) by (auto simp: ls_world_def)
  obtain t refs where t: "k_tasks k a = Some t" "live (k_vfs k) refs" "\<forall>h\<in>set (t_directories t). d_in_use h \<longrightarrow> held_dir (k_vfs k) h"
    by (rule unix_viewE [OF k])
  have t': "k_tasks ?k a = Some (t\<lparr>t_error := e\<rparr>)" using t(1) by (simp add: store_io_def cb_task_set_error_def upd_task_def)
  have parts: "task_blocks a ?k = task_blocks a k" "task_dirs a ?k = task_dirs a k" using t(1) t' by (simp_all add: task_blocks_def task_dirs_def)
  have u: "on_unix a ?k" by (rule unix_step [OF k(1) assms(2)]) (use assms(5) parts in simp_all)
  have m: "\<forall>n. alloc_ok (k_host ?k) n" using k(2) assms(4) by (simp add: unix_view_def)
  have "unix_view (k_vfs ?k) (t_cwd t) a ?k \<and> unix_names (k_vfs ?k) a ?k = unix_names (k_vfs k) a ?k"
    using view_shape [OF u t' t(2) _ m] assms(3) t(3) by simp
  moreover have "unix_names (k_vfs k) a ?k = unix_names (k_vfs k) a k" using t(1) t' by (simp add: fun_eq_iff unix_names_def)
  ultimately show ?thesis using assms(6) u parts by (auto simp: ls_same_def ls_world_def)
qed

lemma read_shape:
  assumes "node_read v n F err m = (r, bytes, e, F', v')"
  shows "same_shape v v' \<and> alloc_ok (v_host v') = alloc_ok (v_host v) \<and> alloc_seq (v_host v) \<le> alloc_seq (v_host v')"
  using assms by (auto simp: node_read_def same_shape_def shape_def frame_def wall_clock_millis_def Let_def split: option.splits if_splits)

lemma write_shape:
  assumes "node_write v n F err buffer = (r, bytes, e, F', v')" "\<forall>i. alloc_ok (v_host v) i"
  shows "same_shape v v' \<and> alloc_ok (v_host v') = alloc_ok (v_host v) \<and> alloc_seq (v_host v) \<le> alloc_seq (v_host v')" "e \<noteq> errno_value CB_ENOMEM"
proof -
  have g: "fst (grow_data b (v_host v) N m) \<noteq> None \<and> (\<forall>N'. fst (grow_data b (v_host v) N m) = Some N' \<longrightarrow> shape N' = shape N) \<and>
      alloc_ok (snd (grow_data b (v_host v) N m)) = alloc_ok (v_host v) \<and> alloc_seq (v_host v) \<le> alloc_seq (snd (grow_data b (v_host v) N m))" for b N m
    using assms(2) by (auto simp: grow_data_def cb_resize_def shape_def Let_def)
  have s: "shape (store_block N i bf now) = shape N" for N i bf now by (simp add: store_block_def shape_def Let_def)
  show "same_shape v v' \<and> alloc_ok (v_host v') = alloc_ok (v_host v) \<and> alloc_seq (v_host v) \<le> alloc_seq (v_host v')" "e \<noteq> errno_value CB_ENOMEM"
  proof (atomize (full), cases "nodes v n")
    case None
    then show "(same_shape v v' \<and> alloc_ok (v_host v') = alloc_ok (v_host v) \<and> alloc_seq (v_host v) \<le> alloc_seq (v_host v')) \<and> e \<noteq> errno_value CB_ENOMEM"
      using assms(1) by (auto simp: node_write_def)
  next
    case (Some N)
    let ?F = "if has_flag (of_flags F) CB_O_APPEND then F\<lparr>of_offset := to_off (int (n_size N))\<rparr> else F"
    let ?m = "nat (of_offset ?F) + length buffer"
    obtain N1 h where h: "grow_data True (v_host v) N ?m = (Some N1, h)" using g [of True N ?m] by (cases "grow_data True (v_host v) N ?m") auto
    then have "shape N1 = shape N" "alloc_ok h = alloc_ok (v_host v)" "alloc_seq (v_host v) \<le> alloc_seq h" using g [of True N ?m] by simp_all
    then show "(same_shape v v' \<and> alloc_ok (v_host v') = alloc_ok (v_host v) \<and> alloc_seq (v_host v) \<le> alloc_seq (v_host v')) \<and> e \<noteq> errno_value CB_ENOMEM"
      using assms(1) Some h s
      by (auto simp: node_write_def Let_def wall_clock_millis_def same_shape_def frame_def split: if_splits)
  qed
qed

text \<open>The two calls, as the file system answers them.\<close>

lemma read_call:
  assumes "file_streams a f0 n0 f1 n1 k" "0 < n" "int n \<le> INT64_MAX" "ap_read (kernel_api heap sched a) 0 n k = (x, k')"
  obtains F err r bytes e F' v where "node_read (k_vfs k) n0 F err n = (r, bytes, e, F', v)"
    "do_call k a (C_read 0 False n) = (Some (R_bytes r bytes), store_io k a f0 (r, bytes, e, F', v))" "k' = store_io k a f0 (r, bytes, e, F', v)"
    "file_streams a f0 n0 f1 n1 k'"
proof -
  obtain F t where F: "k_files k f0 = Some F" "of_ops F = NodeFile n0" "k_tasks k a = Some t" "fd_lookup t 0 = Some f0"
    using assms(1) by (auto simp: file_streams_def reads_from_def fd_table_def split: option.splits)
  obtain r bytes e F' v where r: "node_read (k_vfs k) n0 F (t_error t) n = (r, bytes, e, F', v)" by (metis prod_cases5)
  have call: "do_call k a (C_read 0 False n) = (Some (R_bytes r bytes), store_io k a f0 (r, bytes, e, F', v))"
    using F assms(2,3) r by (simp add: api_read_def on_file_def file_read_def Let_def)
  have k': "k' = store_io k a f0 (r, bytes, e, F', v)" using streams_call(1) [OF assms(1) call] assms(4) by (auto simp: kernel_api_def on_result_def)
  then have "file_streams a f0 n0 f1 n1 k'" using streams_read [OF assms(1-3)] call by auto
  then show ?thesis using that r call k' by blast
qed

lemma write_call:
  assumes "file_streams a f0 n0 f1 n1 k" "block \<noteq> []" "int (length (file_content n1 k) + length block) \<le> INT64_MAX"
    "ap_write (kernel_api heap sched a) 1 block k = (x, k')"
  obtains F err r bytes e F' v where "node_write (k_vfs k) n1 F err block = (r, bytes, e, F', v)"
    "do_call k a (C_write 1 (Some block) (length block)) = (Some (R_int r), store_io k a f1 (r, bytes, e, F', v))" "x = r"
    "k' = store_io k a f1 (r, bytes, e, F', v)" "file_streams a f0 n0 f1 n1 k'" "x < 0 \<longrightarrow> e = errno_value CB_ENOMEM"
proof -
  obtain F t where F: "k_files k f1 = Some F" "of_ops F = NodeFile n1" "k_tasks k a = Some t" "fd_lookup t 1 = Some f1"
    using assms(1) by (auto simp: file_streams_def appends_to_def fd_table_def split: option.splits)
  obtain r bytes e F' v where r: "node_write (k_vfs k) n1 F (t_error t) block = (r, bytes, e, F', v)" by (metis prod_cases5)
  have "int (length block) \<le> INT64_MAX" using assms(3) by simp
  then have call: "do_call k a (C_write 1 (Some block) (length block)) = (Some (R_int r), store_io k a f1 (r, bytes, e, F', v))"
    using F r by (simp add: api_write_def on_file_def file_write_def Let_def)
  have k': "x = r" "k' = store_io k a f1 (r, bytes, e, F', v)"
    using streams_call(1) [OF assms(1) call] assms(4) by (auto simp: kernel_api_def on_result_def)
  have "map_option t_error (k_tasks k' a) = Some e" using F(3) k'(2) by (simp add: store_io_def cb_task_set_error_def upd_task_def)
  then have "file_streams a f0 n0 f1 n1 k'" "x < 0 \<longrightarrow> e = errno_value CB_ENOMEM" using streams_write [OF assms(1-3)] call k' by auto
  then show ?thesis using that r call k' by blast
qed

lemma read_same:
  assumes "ls_world a f0 n0 f1 n1 k" "0 < n" "int n \<le> INT64_MAX" "ap_read (kernel_api heap sched a) 0 n k = (x, k')"
  shows "ls_same a f0 n0 f1 n1 k k'"
proof -
  have s: "file_streams a f0 n0 f1 n1 k" using assms(1) by (simp add: ls_world_def)
  obtain F err r bytes e F' v where r: "node_read (k_vfs k) n0 F err n = (r, bytes, e, F', v)"
    "do_call k a (C_read 0 False n) = (Some (R_bytes r bytes), store_io k a f0 (r, bytes, e, F', v))"
    "k' = store_io k a f0 (r, bytes, e, F', v)" "file_streams a f0 n0 f1 n1 k'" by (rule read_call [OF s assms(2-4)])
  show ?thesis using io_moves [OF assms(1) r(2)] read_shape [OF r(1)] r(3,4) by simp
qed

lemma write_same:
  assumes "ls_world a f0 n0 f1 n1 k" "block \<noteq> []" "int (length (file_content n1 k) + length block) \<le> INT64_MAX"
    "ap_write (kernel_api heap sched a) 1 block k = (x, k')"
  shows "ls_same a f0 n0 f1 n1 k k'" "0 \<le> x"
proof -
  have s: "file_streams a f0 n0 f1 n1 k" and m: "\<forall>i. alloc_ok (k_host k) i" using assms(1) by (auto simp: ls_world_def unix_view_def)
  obtain F err r bytes e F' v where r: "node_write (k_vfs k) n1 F err block = (r, bytes, e, F', v)"
    "do_call k a (C_write 1 (Some block) (length block)) = (Some (R_int r), store_io k a f1 (r, bytes, e, F', v))"
    "k' = store_io k a f1 (r, bytes, e, F', v)" "file_streams a f0 n0 f1 n1 k'" "x < 0 \<longrightarrow> e = errno_value CB_ENOMEM"
    by (rule write_call [OF s assms(2-4)])
  show "ls_same a f0 n0 f1 n1 k k'" using io_moves [OF assms(1) r(2)] write_shape(1) [OF r(1) m] r(3,4) by simp
  show "0 \<le> x" using r(5) write_shape(2) [OF r(1) m] by linarith
qed

text \<open>Standard input and output in every state of affairs that such steps keep.\<close>

lemma ls_streams:
  assumes "\<And>k. W k \<Longrightarrow> ls_world a f0 n0 f1 n1 k" "\<And>k k'. W k \<Longrightarrow> ls_same a f0 n0 f1 n1 k k' \<Longrightarrow> W k'"
  shows "memory_streams (libc_kernel_api heap sched a) W (unread f0 n0) (file_content n1)"
proof -
  let ?api = "libc_kernel_api heap sched a"
  have fs: "file_streams a f0 n0 f1 n1 k" if "W k" for k using assms(1) [OF that] by (simp add: ls_world_def)
  have streams: "stream_calls (kernel_api heap sched a) W (unread f0 n0) (file_content n1)"
  proof
    fix w n c bytes w' assume r: "W w" "0 < n" "int n \<le> INT64_MAX" "ap_read (kernel_api heap sched a) 0 n w = ((c, bytes), w')"
    have "W w'" by (rule assms(2) [OF r(1) read_same [OF assms(1) [OF r(1)] r(2-4)]])
    then show "W w' \<and> file_content n1 w' = file_content n1 w \<and> c = int (length bytes) \<and> length bytes \<le> n \<and>
        unread f0 n0 w = bytes @ unread f0 n0 w' \<and> (bytes = [] \<longrightarrow> unread f0 n0 w = [])"
      using kernel_files.law_read [OF fs [OF r(1)] r(2-4)] by blast
  next
    fix w s c w' assume r: "W w" "s \<noteq> []" "int (length (file_content n1 w) + length s) \<le> INT64_MAX" "ap_write (kernel_api heap sched a) 1 s w = (c, w')"
    have "W w'" by (rule assms(2) [OF r(1) write_same(1) [OF assms(1) [OF r(1)] r(2-4)]])
    then show "W w' \<and> unread f0 n0 w' = unread f0 n0 w \<and>
        (c < 0 \<and> file_content n1 w' = file_content n1 w \<and> ap_get_errno (kernel_api heap sched a) w' = errno_value CB_ENOMEM \<or>
         0 < c \<and> c \<le> int (length s) \<and> file_content n1 w' = file_content n1 w @ take (nat c) s)"
      using kernel_files.law_write [OF fs [OF r(1)] r(2-4)] by blast
  qed
  have e: "W (cb_task_set_error k a x)" "snd (syscall sched a (C_set_errno x) k) = cb_task_set_error k a x"
      "unread f0 n0 (cb_task_set_error k a x) = unread f0 n0 k" "file_content n1 (cb_task_set_error k a x) = file_content n1 k"
      "ap_get_errno (kernel_api heap sched a) (cb_task_set_error k a x) = x" if "W k" for k x
    using assms(2) [OF that ls_set_errno [OF assms(1) [OF that]]] set_errno_call [OF fs [OF that]] by blast+
  have lib: "libc_streams ?api W (unread f0 n0) (file_content n1)"
    by (rule libc_streams.intro) (use streams e in simp_all)
  show ?thesis
  proof (rule memory_streams.intro [OF lib memory_streams_axioms.intro])
    show "\<not> libc_streams.write_fails ?api W (file_content n1)"
    proof
      assume "libc_streams.write_fails ?api W (file_content n1)"
      then obtain w s c w' where "W w" "s \<noteq> []" "int (length (file_content n1 w) + length s) \<le> INT64_MAX" "ap_write ?api 1 s w = (c, w')" "c < 0"
        by (auto simp: libc_streams.write_fails_def [OF lib])
      moreover have "ap_write ?api = ap_write (kernel_api heap sched a)" by (simp add: libc_kernel_api_def cb_api.defs)
      ultimately show False using write_same(2) assms(1) by (metis not_less)
    qed
  qed
qed

section \<open>The directory calls\<close>

lemma on_result_call: "on_result g (syscall sched a c k) = (x, k') \<Longrightarrow> k' = snd (syscall sched a c k)"
  by (auto simp: on_result_def split: prod.splits)

definition lists_names :: "addr \<Rightarrow> string \<Rightarrow> string list \<Rightarrow> cb_kernel \<Rightarrow> bool" where
  "lists_names a path ns k \<longleftrightarrow> list_all (\<lambda>n. n \<noteq> [] \<and> length n < CB_PATH_MAX) ns \<and>
     (case k_tasks k a of None \<Rightarrow> False | Some t \<Rightarrow> \<exists>i. dir_at (k_vfs k) (t_cwd t) path i ns)"

definition opens_not :: "addr \<Rightarrow> string \<Rightarrow> cb_error \<Rightarrow> cb_kernel \<Rightarrow> bool" where
  "opens_not a path e k \<longleftrightarrow> (case k_tasks k a of None \<Rightarrow> False
     | Some t \<Rightarrow> cb_vfs_opendir_path (k_vfs k) (t_root t) (t_cwd t) path = (Inl e, k_vfs k))"

lemma ls_open:
  assumes "ls_idle a f0 n0 f1 n1 B k" "lists_names a path ns k" "on_result int_result (syscall sched a (C_opendir path) k) = (d, k')"
  shows "0 \<le> d \<and> ls_reading a f0 n0 f1 n1 B d None ns k' \<and> unread f0 n0 k' = unread f0 n0 k \<and> file_content n1 k' = file_content n1 k"
proof -
  obtain cwd where w: "ls_world a f0 n0 f1 n1 k" "on_unix a k" "unix_view (k_vfs k) cwd a k" "unix_slots a k \<noteq> 0" "task_dirs a k = {#}" "task_blocks a k = B"
    using assms(1) by (auto simp: ls_idle_def ls_world_def unix_slots_def CB_MAX_DIRS_def)
  obtain t where t: "k_tasks k a = Some t" "t_cwd t = cwd" by (rule unix_viewE [OF w(2,3)])
  obtain i where i: "dir_at (k_vfs k) cwd path i ns" using assms(2) t by (auto simp: lists_names_def)
  note v = unix_view_open [OF w(2,3) i assms(3)]
  have u: "on_unix a k'" "0 \<le> d \<longrightarrow> task_dirs a k' = {#d#}" "task_blocks a k' = B" using unix_opendir [OF w(2) t(1) assms(3)] w(5,6) by auto
  have c: "small_call (C_opendir path)" by simp
  note m = world_moves [OF w(1) c on_result_call [OF assms(3)] u(1) conjunct1 [OF v]]
  show ?thesis using m v u w(4) assms(2) by (auto simp: ls_reading_def lists_names_def list_all_iff)
qed

lemma ls_allocate:
  assumes "ls_reading a f0 n0 f1 n1 B d None ns k" "on_result pointer_result (syscall sched a (C_allocate m) k) = (b, k')"
  shows "b \<noteq> None \<and> ls_reading a f0 n0 f1 n1 B d b ns k' \<and> unread f0 n0 k' = unread f0 n0 k \<and> file_content n1 k' = file_content n1 k"
proof -
  obtain cwd where w: "ls_world a f0 n0 f1 n1 k" "on_unix a k" "unix_view (k_vfs k) cwd a k"
    using assms(1) by (auto simp: ls_reading_def ls_world_def)
  note v = unix_view_allocate [OF w(2,3) assms(2)] and u = unix_allocate [OF w(2) assms(2)]
  have c: "small_call (C_allocate m)" by simp
  note m = world_moves [OF w(1) c on_result_call [OF assms(2)] conjunct1 [OF u] conjunct1 [OF conjunct2 [OF v]]]
  show ?thesis using m v u assms(1) by (auto simp: ls_reading_def)
qed

lemma ls_release:
  assumes "ls_world a f0 n0 f1 n1 k" "p \<in># task_blocks a k" "k' = snd (syscall sched a (C_release (Some p)) k)"
  shows "ls_world a f0 n0 f1 n1 k' \<and> task_dirs a k' = task_dirs a k \<and> task_blocks a k' = task_blocks a k - {#p#} \<and> unread f0 n0 k' = unread f0 n0 k \<and> file_content n1 k' = file_content n1 k"
proof -
  obtain cwd where w: "on_unix a k" "unix_view (k_vfs k) cwd a k" using assms(1) by (auto simp: ls_world_def)
  note v = unix_view_release [OF w assms(2,3)] and u = unix_release [OF w(1) assms(2,3)]
  have c: "small_call (C_release (Some p))" by simp
  note m = world_moves [OF assms(1) c assms(3) conjunct1 [OF u] conjunct1 [OF v]]
  show ?thesis using m u by simp
qed

lemma ls_read:
  assumes "ls_reading a f0 n0 f1 n1 B d (Some p) ns k" "on_result entry_result (syscall sched a (C_readdir d False CB_PATH_MAX) k) = (x, k')"
  shows "case ns of [] \<Rightarrow> k' = k \<and> (\<exists>y. x = Some ([], y))
    | n # ns' \<Rightarrow> n \<noteq> [] \<and> (\<exists>y. x = Some (n, y)) \<and> ls_reading a f0 n0 f1 n1 B d (Some p) ns' k' \<and>
        unread f0 n0 k' = unread f0 n0 k \<and> file_content n1 k' = file_content n1 k"
proof -
  obtain cwd where w: "ls_world a f0 n0 f1 n1 k" "on_unix a k" "unix_view (k_vfs k) cwd a k" "task_dirs a k = {#d#}" "unix_names (k_vfs k) a k d = ns"
    using assms(1) by (auto simp: ls_reading_def ls_world_def)
  have ok: "\<forall>n\<in>set ns. n \<noteq> [] \<and> length n < CB_PATH_MAX" using assms(1) by (simp add: ls_reading_def)
  obtain t refs where t: "k_tasks k a = Some t" "live (k_vfs k) refs" "\<forall>h\<in>set (t_directories t). d_in_use h \<longrightarrow> held_dir (k_vfs k) h"
    "length (t_directories t) = CB_MAX_DIRS" by (rule unix_viewE [OF w(2,3)])
  have pos: "0 < CB_PATH_MAX" by (simp add: CB_PATH_MAX_def)
  have d: "d \<in># task_dirs a k" using w(4) by simp
  note u = unix_readdir [OF w(2) t(1) d assms(2)]
  note v = unix_view_read [OF w(2,3) d assms(2) _ pos]
  have c: "small_call (C_readdir d False CB_PATH_MAX)" by simp
  show ?thesis
  proof (cases ns)
    case Nil
    let ?h = "t_directories t ! nat d"
    have h: "nat d < length (t_directories t)" "d_in_use ?h" "d \<in># used_dirs (t_directories t)"
      using d t(1) by (auto simp: task_dirs_def used_dirs_mem)
    then have "held_dir (k_vfs k) ?h" using t(3) nth_mem by blast
    moreover have "sibling_names (k_vfs k) (d_next ?h) = []" using w(5) Nil t(1) h(3) by (simp add: unix_names_def)
    ultimately have "d_next ?h = None"
      using sibling_names_step [OF t(2)] by (cases "d_next ?h") (auto simp: held_dir_def anchored_def)
    then show ?thesis using u(2) pos Nil by simp
  next
    case (Cons n ns')
    then have v': "unix_view (k_vfs k) cwd a k'" "\<exists>y. x = Some (n, y)" "unix_names (k_vfs k) a k' = (unix_names (k_vfs k) a k)(d := ns')"
      using v w(5) ok by auto
    note m = world_moves [OF w(1) c on_result_call [OF assms(2)] conjunct1 [OF u(1)] v'(1)]
    show ?thesis using Cons m u(1) v' ok w(4) assms(1) by (auto simp: ls_reading_def)
  qed
qed

lemma ls_close:
  assumes "ls_reading a f0 n0 f1 n1 B d (Some p) ns k" "on_result int_result (syscall sched a (C_closedir d) k) = (r, k')"
    "k2 = snd (syscall sched a (C_release (Some p)) k')"
  shows "0 \<le> r \<and> ls_idle a f0 n0 f1 n1 B k2 \<and> unread f0 n0 k2 = unread f0 n0 k \<and> file_content n1 k2 = file_content n1 k"
proof -
  obtain cwd where w: "ls_world a f0 n0 f1 n1 k" "on_unix a k" "unix_view (k_vfs k) cwd a k" "task_dirs a k = {#d#}" "task_blocks a k = add_mset p B"
    using assms(1) by (auto simp: ls_reading_def ls_world_def)
  obtain t where t: "k_tasks k a = Some t" "length (t_directories t) = CB_MAX_DIRS" by (rule unix_viewE [OF w(2,3)])
  have d: "d \<in># task_dirs a k" using w(4) by simp
  note v = unix_view_close [OF w(2,3) d assms(2)] and u = unix_closedir [OF w(2) t(1) d assms(2)]
  have c: "small_call (C_closedir d)" by simp
  note m = world_moves [OF w(1) c on_result_call [OF assms(2)] conjunct1 [OF u(1)] conjunct1 [OF v]]
  have "p \<in># task_blocks a k'" using u(1) w(5) by simp
  from ls_release [OF conjunct1 [OF m] this assms(3)] m u w(4,5) have "ls_idle a f0 n0 f1 n1 B k2 \<and> unread f0 n0 k2 = unread f0 n0 k \<and> file_content n1 k2 = file_content n1 k"
    by (simp add: ls_idle_def)
  moreover have "0 \<le> r"
  proof -
    obtain x k3 where x: "do_call k a (C_closedir d) = (Some x, k3)"
      using small_call_files(2) [OF c, of k a] by (cases "do_call k a (C_closedir d)") auto
    have "dir_lookup t d \<noteq> None" using d t by (simp add: task_dirs_def dir_lookup_used)
    then have "x = R_int 0" using x t(1) by (auto simp: api_closedir_def)
    then show ?thesis using assms(2) unix_call(1) [OF w(2) x] by (simp add: on_result_def)
  qed
  ultimately show ?thesis by blast
qed

lemma ls_refuse:
  assumes "ls_idle a f0 n0 f1 n1 B k" "opens_not a path e k" "on_result int_result (syscall sched a (C_opendir path) k) = (d, k')"
  shows "d < 0 \<and> ls_idle a f0 n0 f1 n1 B k' \<and> ap_get_errno (kernel_api heap sched a) k' = errno_value e \<and>
    unread f0 n0 k' = unread f0 n0 k \<and> file_content n1 k' = file_content n1 k"
proof -
  have w: "ls_world a f0 n0 f1 n1 k" "on_unix a k" "file_streams a f0 n0 f1 n1 k" using assms(1) by (auto simp: ls_idle_def ls_world_def)
  obtain t where t: "k_tasks k a = Some t" by (rule unix_task [OF w(2)])
  have "cb_vfs_opendir_path (k_vfs k) (t_root t) (t_cwd t) path = (Inl e, k_vfs k)" using assms(2) t by (simp add: opens_not_def)
  then have c: "do_call k a (C_opendir path) = (Some (R_int (-1)), cb_task_set_error k a (errno_value e))" using t by (simp add: api_opendir_def)
  have r: "d = -1" "k' = cb_task_set_error k a (errno_value e)" using assms(3) unix_call(1) [OF w(2) c] by (simp_all add: on_result_def)
  have "ls_idle a f0 n0 f1 n1 B k'" unfolding r(2) by (rule ls_same_keeps(1) [OF ls_set_errno [OF w(1)] assms(1)])
  then show ?thesis using r(1) set_errno_call(3-5) [OF w(3), where e = "errno_value e"] unfolding r(2) by simp
qed

section \<open>ls\<close>

interpretation kernel_listing: listing_calls "unix_kernel_api heap sched a"
    "\<lambda>path k. on_result int_result (syscall sched a (C_opendir path) k)"
    "\<lambda>d n k. on_result entry_result (syscall sched a (C_readdir d False n) k)"
    "\<lambda>d k. on_result int_result (syscall sched a (C_closedir d) k)"
    "ls_idle a f0 n0 f1 n1 B" "ls_reading a f0 n0 f1 n1 B" "unread f0 n0" "file_content n1" "lists_names a" "opens_not a"
  for heap sched a f0 n0 f1 n1 B
proof (rule listing_calls.intro)
  show "memory_streams (libc (unix_kernel_api heap sched a)) (ls_idle a f0 n0 f1 n1 B) (unread f0 n0) (file_content n1)"
    unfolding unix_kernel_api_fields by (rule ls_streams [OF ls_worlds(1) ls_same_keeps(1) [rotated]])
  show "memory_streams (libc (unix_kernel_api heap sched a)) (ls_reading a f0 n0 f1 n1 B d b ns) (unread f0 n0) (file_content n1)" for d b ns
    unfolding unix_kernel_api_fields by (rule ls_streams [OF ls_worlds(2) ls_same_keeps(2) [rotated]])
  show "w' = w \<and> (\<exists>y. x = Some ([], y))"
    if "ls_reading a f0 n0 f1 n1 B d (Some p) [] w" "on_result entry_result (syscall sched a (C_readdir d False CB_PATH_MAX) w) = (x, w')" for d p w x w'
    using ls_read [OF that] by simp
  show "n \<noteq> [] \<and> (\<exists>y. x = Some (n, y)) \<and> ls_reading a f0 n0 f1 n1 B d (Some p) ns w' \<and> unread f0 n0 w' = unread f0 n0 w \<and> file_content n1 w' = file_content n1 w"
    if "ls_reading a f0 n0 f1 n1 B d (Some p) (n # ns) w" "on_result entry_result (syscall sched a (C_readdir d False CB_PATH_MAX) w) = (x, w')"
    for d p n ns w x w' using ls_read [OF that] by simp
  show "0 \<le> r \<and> ls_idle a f0 n0 f1 n1 B (ap_release (libc (unix_kernel_api heap sched a)) p w') \<and>
      unread f0 n0 (ap_release (libc (unix_kernel_api heap sched a)) p w') = unread f0 n0 w \<and>
      file_content n1 (ap_release (libc (unix_kernel_api heap sched a)) p w') = file_content n1 w"
    if "ls_reading a f0 n0 f1 n1 B d (Some p) ns w" "on_result int_result (syscall sched a (C_closedir d) w) = (r, w')" for d p ns w r w'
    unfolding unix_kernel_api_fields libc_kernel_api_fields by (rule ls_close [OF that refl])
  show "b \<noteq> None \<and> ls_reading a f0 n0 f1 n1 B d b ns w' \<and> unread f0 n0 w' = unread f0 n0 w \<and> file_content n1 w' = file_content n1 w"
    if "ls_reading a f0 n0 f1 n1 B d None ns w" "ap_allocate (libc (unix_kernel_api heap sched a)) m w = (b, w')" for d ns w m b w'
    using ls_allocate [OF that(1)] that(2) unfolding unix_kernel_api_fields libc_kernel_api_fields by blast
  show "d < 0 \<and> ls_idle a f0 n0 f1 n1 B w' \<and> ap_get_errno (libc (unix_kernel_api heap sched a)) w' = errno_value e \<and>
      unread f0 n0 w' = unread f0 n0 w \<and> file_content n1 w' = file_content n1 w"
    if "ls_idle a f0 n0 f1 n1 B w" "opens_not a path e w" "on_result int_result (syscall sched a (C_opendir path) w) = (d, w')" for w path e d w'
    unfolding unix_kernel_api_fields libc_kernel_api_fields by (rule ls_refuse [OF that])
  show "0 \<le> d \<and> ls_reading a f0 n0 f1 n1 B d None ns w' \<and> unread f0 n0 w' = unread f0 n0 w \<and> file_content n1 w' = file_content n1 w"
    if "ls_idle a f0 n0 f1 n1 B w" "lists_names a path ns w" "on_result int_result (syscall sched a (C_opendir path) w) = (d, w')" for w path ns d w'
    by (rule ls_open [OF that])
qed simp_all

text \<open>
  C7. \<^verbatim>\<open>ls\<close> on the kernel, into a file: with memory for every allocation and no directory open, it ends with status 0 for a directory
  and has appended to the file exactly the names of the entries in the order of the directory, one to a line, although the
  file may itself be in that directory; for an operand that is there but not a directory the operand itself, on a line; and it
  ends with status 1 if the operand cannot be opened for another reason. Its handle and its block are given back, and what was to be read from
  standard input is still there.
\<close>

theorem ls_lists_directory:
  assumes "file_streams a f0 n0 f1 n1 k" "on_unix a k" "task_dirs a k = {#}" "\<forall>n. alloc_ok (k_host k) n" "\<not> so_stdout_closed s"
    "argv = [name, path] \<or> argv = [name] \<and> path = ''.''" "int (length (file_content n1 k) + length path + 1) \<le> INT64_MAX"
    "int (length (file_content n1 k) + length (concat (map (\<lambda>n. n @ [newline]) ns))) \<le> INT64_MAX"
  shows "(lists_names a path ns k \<longrightarrow>
      (\<exists>k'. cb_ls_main (unix_kernel_api heap sched a) argv s k = Some (0, s, k') \<and> file_streams a f0 n0 f1 n1 k' \<and> task_dirs a k' = {#} \<and>
         task_blocks a k' = task_blocks a k \<and> unread f0 n0 k' = unread f0 n0 k \<and>
         file_content n1 k' = file_content n1 k @ concat (map (\<lambda>n. n @ [newline]) ns))) \<and>
    (opens_not a path CB_ENOTDIR k \<longrightarrow>
      (\<exists>k'. cb_ls_main (unix_kernel_api heap sched a) argv s k = Some (0, s, k') \<and> file_streams a f0 n0 f1 n1 k' \<and> task_dirs a k' = {#} \<and>
         task_blocks a k' = task_blocks a k \<and> unread f0 n0 k' = unread f0 n0 k \<and> file_content n1 k' = file_content n1 k @ path @ [newline])) \<and>
    (\<forall>e. opens_not a path e k \<longrightarrow> e \<noteq> CB_ENOTDIR \<longrightarrow> (\<exists>s' k'. cb_ls_main (unix_kernel_api heap sched a) argv s k = Some (1, s', k')))"
proof -
  let ?B = "task_blocks a k"
  obtain t where t: "k_tasks k a = Some t" by (rule unix_task [OF assms(2)])
  have "unix_view (k_vfs k) (t_cwd t) a k" by (rule view_at_rest [OF assms(2) t assms(3,4)])
  then have idle: "ls_idle a f0 n0 f1 n1 ?B k" using assms(1-3) by (auto simp: ls_idle_def ls_world_def)
  have after: "file_streams a f0 n0 f1 n1 k' \<and> task_dirs a k' = {#} \<and> task_blocks a k' = ?B" if "ls_idle a f0 n0 f1 n1 ?B k'" for k'
    using that by (simp add: ls_idle_def ls_world_def)
  note l = kernel_listing.ls_lists [OF idle assms(5) _ _ assms(6), where heap = heap and sched = sched, unfolded kernel_listing.listing_def]
  note r = kernel_listing.ls_refused [OF idle assms(5) _ assms(7,6), where heap = heap and sched = sched]
  show ?thesis using l [OF _ assms(8)] r after by (auto, (metis (full_types))+)
qed

definition ls_kernel :: cb_kernel where
  "ls_kernel = snd (run_events kernel_step [Resume 12, Call (C_open ''in'' (CB_O_RDWR + CB_O_CREAT) 438),
     Call (C_open ''out'' (CB_O_WRONLY + CB_O_CREAT) 438), Call (C_mkdir ''d'' 493), Call (C_mkdir ''d/e'' 493), Call (C_mkdir ''d/f'' 493)] pair_kernel)"

definition ls_ready :: "nat \<Rightarrow> cb_kernel \<Rightarrow> bool" where
  "ls_ready n k \<longleftrightarrow> fresh_blocks 12 k \<and> alloc_ok (k_host k) n \<and> fd_table 12 k 0 = Some 28 \<and> fd_table 12 k 1 = Some 31 \<and>
     reads_from 28 26 k \<and> appends_to 31 29 k \<and> file_content 29 k = [] \<and>
     (case k_tasks k 12 of None \<Rightarrow> False
      | Some t \<Rightarrow> list_all (\<lambda>h. \<not> d_in_use h) (t_directories t) \<and> list_ex (\<lambda>i. dir_at (k_vfs k) (t_cwd t) ''d'' i [''f'', ''e'']) [0..<20])"

lemma ls_kernel_ready: "ls_ready n ls_kernel"
  by code_simp

theorem ls_lists_directory_witness:
  "\<exists>k'. cb_ls_main (unix_kernel_api (\<lambda>_ _. True) (\<lambda>_. []) 12) [''ls'', ''d''] stdio_new ls_kernel = Some (0, stdio_new, k') \<and>
     file_content 29 k' = ''f'' @ [newline] @ ''e'' @ [newline]"
proof -
  have inv: "kernel_inv ls_kernel" unfolding ls_kernel_def by (rule kernel_machine.invar_run [OF pair_kernel_inv(1)])
  have r: "fresh_blocks 12 ls_kernel" "file_content 29 ls_kernel = []" using ls_kernel_ready [of 0] by (simp_all add: ls_ready_def)
  have on: "on_unix 12 ls_kernel" by (rule on_unix_fresh [OF inv r(1)])
  then have s: "file_streams 12 28 26 31 29 ls_kernel"
    using ls_kernel_ready [of 0] by (simp add: ls_ready_def file_streams_def on_unix_def)
  obtain t i where t: "k_tasks ls_kernel 12 = Some t" "list_all (\<lambda>h. \<not> d_in_use h) (t_directories t)" "dir_at (k_vfs ls_kernel) (t_cwd t) ''d'' i [''f'', ''e'']"
    using ls_kernel_ready [of 0] by (auto simp: ls_ready_def list_ex_iff split: option.splits)
  have "d \<notin># task_dirs 12 ls_kernel" for d using t(1,2) by (simp add: task_dirs_def used_dirs_mem list_all_length)
  then have none: "task_dirs 12 ls_kernel = {#}" using multiset_nonemptyE by blast
  have ok: "\<forall>n. alloc_ok (k_host ls_kernel) n" using ls_kernel_ready by (simp add: ls_ready_def)
  have l: "lists_names 12 ''d'' [''f'', ''e''] ls_kernel" using t by (auto simp: lists_names_def CB_PATH_MAX_def)
  have sz: "int (length (file_content 29 ls_kernel) + length ''d'' + 1) \<le> INT64_MAX"
    "int (length (file_content 29 ls_kernel) + length (concat (map (\<lambda>n. n @ [newline]) [''f'', ''e'']))) \<le> INT64_MAX"
    unfolding r(2) by (simp_all add: INT64_MAX_def)
  have argv: "[''ls'', ''d''] = [''ls'', ''d''] \<or> [''ls'', ''d''] = [''ls''] \<and> ''d'' = ''.''" by simp
  have out: "\<not> so_stdout_closed stdio_new" by (simp add: stdio_new_def)
  from ls_lists_directory [OF s on none ok out argv sz, of "\<lambda>_ _. True" "\<lambda>_. []"] l r(2) show ?thesis by auto
qed

section \<open>echo\<close>

definition echo_world :: "(nat \<Rightarrow> bool) \<Rightarrow> addr \<Rightarrow> addr \<Rightarrow> addr \<Rightarrow> addr \<Rightarrow> addr \<Rightarrow> cb_kernel \<Rightarrow> bool" where
  "echo_world granted a f0 n0 f1 n1 k \<longleftrightarrow> file_streams a f0 n0 f1 n1 k \<and> alloc_ok (k_host k) = granted"

lemma write_alloc: "node_write v n F err buffer = (r, bytes, e, F', v') \<Longrightarrow> alloc_ok (v_host v') = alloc_ok (v_host v)"
proof -
  have g: "alloc_ok (snd (grow_data b h N m)) = alloc_ok h" for b h N m by (auto simp: grow_data_def cb_resize_def Let_def)
  have "alloc_ok h' = alloc_ok h" if "grow_data b h N m = (x, h')" for b h N m x h' using g [of b h N m] that by simp
  then show "node_write v n F err buffer = (r, bytes, e, F', v') \<Longrightarrow> alloc_ok (v_host v') = alloc_ok (v_host v)"
    by (fastforce simp: node_write_def Let_def wall_clock_millis_def split: option.splits if_splits prod.splits)
qed

lemma echo_streams: "libc_streams (libc_kernel_api heap sched a) (echo_world granted a f0 n0 f1 n1) (unread f0 n0) (file_content n1)"
proof (rule libc_streams.intro)
  have "stream_calls (kernel_api heap sched a) (echo_world granted a f0 n0 f1 n1) (unread f0 n0) (file_content n1)"
  proof
    fix w n c bytes w' assume r: "echo_world granted a f0 n0 f1 n1 w" "0 < n" "int n \<le> INT64_MAX" "ap_read (kernel_api heap sched a) 0 n w = ((c, bytes), w')"
    have s: "file_streams a f0 n0 f1 n1 w" using r(1) by (simp add: echo_world_def)
    have "alloc_ok (k_host w') = alloc_ok (k_host w)" by (rule read_call [OF s r(2-4)]) (drule read_shape, simp)
    then show "echo_world granted a f0 n0 f1 n1 w' \<and> file_content n1 w' = file_content n1 w \<and> c = int (length bytes) \<and> length bytes \<le> n \<and>
        unread f0 n0 w = bytes @ unread f0 n0 w' \<and> (bytes = [] \<longrightarrow> unread f0 n0 w = [])"
      using kernel_files.law_read [OF s r(2-4)] r(1) unfolding echo_world_def by blast
  next
    fix w s c w' assume r: "echo_world granted a f0 n0 f1 n1 w" "s \<noteq> []" "int (length (file_content n1 w) + length s) \<le> INT64_MAX"
      "ap_write (kernel_api heap sched a) 1 s w = (c, w')"
    have s: "file_streams a f0 n0 f1 n1 w" using r(1) by (simp add: echo_world_def)
    have "alloc_ok (k_host w') = alloc_ok (k_host w)" by (rule write_call [OF s r(2-4)]) (drule write_alloc, simp)
    then show "echo_world granted a f0 n0 f1 n1 w' \<and> unread f0 n0 w' = unread f0 n0 w \<and>
        (c < 0 \<and> file_content n1 w' = file_content n1 w \<and> ap_get_errno (kernel_api heap sched a) w' = errno_value CB_ENOMEM \<or>
         0 < c \<and> c \<le> int (length s) \<and> file_content n1 w' = file_content n1 w @ take (nat c) s)"
      using kernel_files.law_write [OF s r(2-4)] r(1) by (simp add: echo_world_def)
  qed
  then show "stream_calls (cb_api.truncate (libc_kernel_api heap sched a)) (echo_world granted a f0 n0 f1 n1) (unread f0 n0) (file_content n1)" by simp
next
  fix w e assume "echo_world granted a f0 n0 f1 n1 w"
  then have w: "file_streams a f0 n0 f1 n1 w" "alloc_ok (k_host w) = granted" by (simp_all add: echo_world_def)
  note c = set_errno_call [OF w(1), where e = e]
  show "echo_world granted a f0 n0 f1 n1 (ap_set_errno (libc_kernel_api heap sched a) e w) \<and>
      unread f0 n0 (ap_set_errno (libc_kernel_api heap sched a) e w) = unread f0 n0 w \<and>
      file_content n1 (ap_set_errno (libc_kernel_api heap sched a) e w) = file_content n1 w"
    unfolding libc_kernel_api_fields c(1) echo_world_def using w(2) c(2-4) by simp
  show "ap_get_errno (libc_kernel_api heap sched a) (ap_set_errno (libc_kernel_api heap sched a) e w) = e"
    unfolding libc_kernel_api_fields c(1) by (rule c(5))
qed simp_all

interpretation kernel_echo: echo_calls "unix_kernel_api heap sched a" "echo_world granted a f0 n0 f1 n1" "unread f0 n0" "file_content n1"
  for heap sched granted a f0 n0 f1 n1
proof (rule echo_calls.intro)
  show "libc_streams (libc (unix_kernel_api heap sched a)) (echo_world granted a f0 n0 f1 n1) (unread f0 n0) (file_content n1)"
    unfolding unix_kernel_api_fields by (rule echo_streams)
  show "echo_calls_axioms (unix_kernel_api heap sched a) (echo_world granted a f0 n0 f1 n1) (unread f0 n0) (file_content n1)"
  proof
    fix w name v w' assume w: "echo_world granted a f0 n0 f1 n1 w" and c: "ap_getenv (libc (unix_kernel_api heap sched a)) name w = (v, w')"
    then have s: "file_streams a f0 n0 f1 n1 w" by (simp add: echo_world_def)
    obtain x k1 where x: "do_call w a (C_getenv name) = (Some x, k1)"
      using small_call_files(2) [of "C_getenv name" w a] by (cases "do_call w a (C_getenv name)") auto
    have "w' = k1" using c streams_call(1) [OF s x] by (auto simp: libc_kernel_api_def cb_api.defs kernel_api_def on_result_def)
    then have "w' = w \<or> (\<exists>e. w' = cb_task_set_error w a e)"
      using x s by (auto simp: api_getenv_def file_streams_def fd_table_def Let_def split: option.splits if_splits)
    then show "echo_world granted a f0 n0 f1 n1 w' \<and> unread f0 n0 w' = unread f0 n0 w \<and> file_content n1 w' = file_content n1 w"
      using w set_errno_call(2-4) [OF s] by (auto simp: echo_world_def)
  qed
qed

lemma kernel_write_fails:
  assumes "libc_streams.write_fails (libc_kernel_api heap sched a) (echo_world granted a f0 n0 f1 n1) (file_content n1)" shows "\<exists>n. \<not> granted n"
proof (rule ccontr)
  assume "\<not> (\<exists>n. \<not> granted n)"
  obtain k b c k' where k: "echo_world granted a f0 n0 f1 n1 k" "b \<noteq> []" "int (length (file_content n1 k) + length b) \<le> INT64_MAX"
    "ap_write (libc_kernel_api heap sched a) 1 b k = (c, k')" "c < 0"
    using assms by (auto simp: libc_streams.write_fails_def [OF echo_streams])
  then have w: "file_streams a f0 n0 f1 n1 k" "\<forall>n. alloc_ok (k_host k) n" "ap_write (kernel_api heap sched a) 1 b k = (c, k')"
    using \<open>\<not> (\<exists>n. \<not> granted n)\<close> by (simp_all add: echo_world_def libc_kernel_api_def cb_api.defs)
  obtain F err r bytes e F' v where r: "node_write (k_vfs k) n1 F err b = (r, bytes, e, F', v)" "c < 0 \<longrightarrow> e = errno_value CB_ENOMEM"
    by (rule write_call [OF w(1) k(2,3) w(3)])
  then show False using write_shape(2) [OF r(1) w(2)] k(5) by blast
qed

text \<open>
  C8. \<^verbatim>\<open>echo\<close> on the kernel, into a file: it ends with status 0 and has appended its arguments with single spaces between them and a newline
  after them, or without the newline if the first argument is \<^verbatim>\<open>-n\<close>, which is then not printed; or it has noticed that memory ran
  out, and has ended through \<^verbatim>\<open>err\<close>. It never reports success for a text that is not complete.
\<close>

theorem echo_writes_words:
  assumes "file_streams a f0 n0 f1 n1 k" "\<not> so_stdout_closed s" "\<not> so_stdout_error s"
    "int (length (file_content n1 k) + length (echo_text args)) \<le> INT64_MAX" "\<forall>x\<in>set args. int (length x) \<le> INT_MAX"
  shows "\<exists>r s' k'. echo_main (unix_kernel_api heap sched a) True (name # args) s k = Some (r, s', k') \<and>
    (r = Some 0 \<and> s' = s \<and> file_streams a f0 n0 f1 n1 k' \<and> unread f0 n0 k' = unread f0 n0 k \<and>
       file_content n1 k' = file_content n1 k @ echo_text args \<or>
     r = None \<and> (\<exists>n. \<not> alloc_ok (k_host k) n))"
proof -
  have w: "echo_world (alloc_ok (k_host k)) a f0 n0 f1 n1 k" using assms(1) by (simp add: echo_world_def)
  show ?thesis
    using kernel_echo.echo_prints [OF w assms(2-5), of heap sched True name] kernel_write_fails [of heap sched a "alloc_ok (k_host k)" f0 n0 f1 n1] by (fastforce simp: echo_world_def)
qed

theorem echo_writes_words_witness:
  "\<exists>r s' k'. echo_main (unix_kernel_api (\<lambda>_ _. True) (\<lambda>_. []) 12) True [''echo'', ''a'', ''bc''] stdio_new (with_data 26 ''hi'' files_kernel) = Some (r, s', k') \<and>
     (r = Some 0 \<and> file_content 29 k' = ''a bc'' @ [newline] \<or> r = None)"
proof -
  let ?k = "with_data 26 ''hi'' files_kernel"
  have w: "file_content 29 ?k = []" using files_kernel_ready by (simp add: files_ready_def)
  have out: "\<not> so_stdout_closed stdio_new" "\<not> so_stdout_error stdio_new" by (simp_all add: stdio_new_def)
  have t: "echo_text [''a'', ''bc''] = ''a bc'' @ [newline]" by (simp add: echo_text_def)
  have sz: "int (length (file_content 29 ?k) + length (echo_text [''a'', ''bc''])) \<le> INT64_MAX" unfolding w t by (simp add: INT64_MAX_def)
  have args: "\<forall>x\<in>set [''a'', ''bc'']. int (length x) \<le> INT_MAX" by (simp add: INT_MAX_def)
  from echo_writes_words [OF files_kernel_streams out sz args, of "\<lambda>_ _. True" "\<lambda>_. []" "''echo''"] w t show ?thesis by auto
qed

end
