(* ===== verification/Call_Types.thy ===== *)
theory Call_Types
  imports Kernel_Client
begin

text \<open>
  The results of the calls as types. Every call answers with a result of its own kind, within the bounds its caller relies
  on: no more bytes than the buffer holds, descriptors and handles that index their tables, a status exactly on success. A call
  that waits leaves in the task what its answer will be, and resuming it keeps to that.
\<close>

section \<open>The types\<close>

definition descriptor_or_error :: "int \<Rightarrow> bool" where
  "descriptor_or_error d \<longleftrightarrow> d = -1 \<or> valid_fd d"

abbreviation zero_or_error :: "int \<Rightarrow> bool" where
  "zero_or_error n \<equiv> n = 0 \<or> n = -1"

definition bytes_fit :: "nat \<Rightarrow> int \<Rightarrow> byte list \<Rightarrow> bool" where
  "bytes_fit count n bytes \<longleftrightarrow> n = -1 \<and> bytes = [] \<or> n = int (length bytes) \<and> length bytes \<le> count"

definition poll_fits :: "nat \<Rightarrow> int \<Rightarrow> cb_pollfd list \<Rightarrow> bool" where
  "poll_fits nfds n fds \<longleftrightarrow> length fds \<le> nfds \<and> (n = -1 \<or> 0 \<le> n \<and> n \<le> int (length fds))"

definition wait_fits :: "int \<Rightarrow> int option \<Rightarrow> bool" where
  "wait_fits n status \<longleftrightarrow> n = -1 \<and> status = None \<or> status \<noteq> None"

text \<open>A result of one kind that satisfies a condition.\<close>

definition int_with :: "(int \<Rightarrow> bool) \<Rightarrow> result \<Rightarrow> bool" where
  "int_with P r = (case r of R_int n \<Rightarrow> P n | _ \<Rightarrow> False)"

definition bytes_with :: "(int \<Rightarrow> byte list \<Rightarrow> bool) \<Rightarrow> result \<Rightarrow> bool" where
  "bytes_with P r = (case r of R_bytes n bytes \<Rightarrow> P n bytes | _ \<Rightarrow> False)"

definition string_with :: "(string \<Rightarrow> bool) \<Rightarrow> result \<Rightarrow> bool" where
  "string_with P r = (case r of R_string text \<Rightarrow> (case text of None \<Rightarrow> True | Some s \<Rightarrow> P s) | _ \<Rightarrow> False)"

definition stat_with :: "bool \<Rightarrow> result \<Rightarrow> bool" where
  "stat_with null r = (case r of R_stat n status \<Rightarrow> n = -1 \<and> status = None \<or> n = 0 \<and> \<not> null \<and> status \<noteq> None | _ \<Rightarrow> False)"

definition wait_with :: "(int \<Rightarrow> int option \<Rightarrow> bool) \<Rightarrow> result \<Rightarrow> bool" where
  "wait_with P r = (case r of R_wait n status \<Rightarrow> P n status | _ \<Rightarrow> False)"

definition poll_with :: "nat \<Rightarrow> result \<Rightarrow> bool" where
  "poll_with nfds r = (case r of R_poll n fds \<Rightarrow> poll_fits nfds n fds | _ \<Rightarrow> False)"

definition pipe_with :: "result \<Rightarrow> bool" where
  "pipe_with r = (case r of
     R_pipe n pair \<Rightarrow> n = -1 \<and> pair = None \<or> n = 0 \<and> (case pair of None \<Rightarrow> False | Some (i, out) \<Rightarrow> valid_fd i \<and> valid_fd out \<and> i \<noteq> out)
   | _ \<Rightarrow> False)"

definition entry_with :: "nat \<Rightarrow> result \<Rightarrow> bool" where
  "entry_with bufsize r = (case r of
     R_entry n x \<Rightarrow> n = -1 \<and> x = None \<or> n = 0 \<and> (case x of None \<Rightarrow> False | Some (name, i, type) \<Rightarrow> length name < bufsize)
   | R_end_of_directory \<Rightarrow> 0 < bufsize
   | _ \<Rightarrow> False)"

definition pointer_with :: "result \<Rightarrow> bool" where
  "pointer_with r = (case r of R_pointer p \<Rightarrow> True | _ \<Rightarrow> False)"

lemmas with_defs = int_with_def bytes_with_def string_with_def stat_with_def wait_with_def poll_with_def pipe_with_def entry_with_def
  pointer_with_def

fun result_fits :: "call \<Rightarrow> result \<Rightarrow> bool" where
  "result_fits (C_read d null count) = bytes_with (bytes_fit count)"
| "result_fits (C_write d buffer count) = int_with (\<lambda>n. n = -1 \<or> 0 \<le> n \<and> n \<le> int count)"
| "result_fits (C_open path flags mode) = int_with descriptor_or_error"
| "result_fits (C_dup d) = int_with descriptor_or_error"
| "result_fits (C_dup2 old new) = int_with (\<lambda>e. e = -1 \<or> valid_fd e \<and> e = new)"
| "result_fits (C_pipe null) = pipe_with"
| "result_fits (C_fstat d null) = stat_with null"
| "result_fits (C_stat path null) = stat_with null"
| "result_fits (C_getcwd null bufsize) = string_with (\<lambda>s. \<not> null \<and> length s < bufsize)"
| "result_fits (C_getenv name) = string_with (\<lambda>s. True)"
| "result_fits (C_opendir path) = int_with (\<lambda>d. d = -1 \<or> 0 \<le> d \<and> d < int CB_MAX_DIRS)"
| "result_fits (C_readdir d null bufsize) = entry_with bufsize"
| "result_fits (C_poll fds nfds timeout) = poll_with nfds"
| "result_fits (C_waitpid pid) = wait_with wait_fits"
| "result_fits (C_spawn name argv envp actions bad) = wait_with (\<lambda>n pid. n = 0 \<or> n = -1 \<and> pid = None)"
| "result_fits (C_lseek d offset whence) = int_with (\<lambda>n. -1 \<le> n)"
| "result_fits (C_isatty d) = int_with (\<lambda>n. n = 0 \<or> n = 1)"
| "result_fits (C_exec name argv envp) = int_with (\<lambda>n. n = -1)"
| "result_fits (C_tcgetattr d null) = int_with (\<lambda>n. n = -1)"
| "result_fits (C_tcsetattr d action null) = int_with (\<lambda>n. n = -1)"
| "result_fits (C_allocate bytes) = pointer_with"
| "result_fits (C_resize p bytes) = pointer_with"
| "result_fits (C_release p) = (\<lambda>r. r = R_void)"
| "result_fits (C_set_errno e) = (\<lambda>r. r = R_void)"
| "result_fits C_yield = (\<lambda>r. r = R_void)"
| "result_fits (C_exit status) = (\<lambda>r. False)"
| "result_fits C_getpid = int_with (\<lambda>n. True)"
| "result_fits C_getppid = int_with (\<lambda>n. True)"
| "result_fits C_get_errno = int_with (\<lambda>n. True)"
| "result_fits _ = int_with zero_or_error"

text \<open>The answer of a task that waits.\<close>

fun answer_fits :: "suspended \<Rightarrow> result \<Rightarrow> bool" where
  "answer_fits (In_pipe_read f count) = bytes_with (bytes_fit count)"
| "answer_fits (In_pipe_write f source tot) = int_with (\<lambda>n. n = -1 \<or> 0 \<le> n \<and> n \<le> int (length source))"
| "answer_fits (In_console_read count) = bytes_with (bytes_fit count)"
| "answer_fits (In_waitpid pid) = wait_with wait_fits"
| "answer_fits (In_poll fds) = poll_with (length fds)"
| "answer_fits In_yield = (\<lambda>r. r = R_void)"
| "answer_fits At_entry = (\<lambda>r. r = R_void)"
| "answer_fits _ = (\<lambda>r. False)"

text \<open>What the host promises of its console: no more bytes than were asked for, and as many as it says.\<close>

definition honest_console :: "console \<Rightarrow> bool" where
  "honest_console c \<longleftrightarrow> (\<forall>i count n bytes. con_read c i count = (n, bytes) \<longrightarrow> n < 0 \<or> n = int (length bytes) \<and> length bytes \<le> count)"

text \<open>An outcome of a type: the result has it, or the task has ended or is left waiting for a result of it.\<close>

fun progress_ok :: "suspended \<Rightarrow> bool" where
  "progress_ok (In_pipe_write f source tot) \<longleftrightarrow> tot \<le> length source"
| "progress_ok _ \<longleftrightarrow> True"

definition outcome_fits :: "addr \<Rightarrow> (result \<Rightarrow> bool) \<Rightarrow> outcome \<Rightarrow> bool" where
  "outcome_fits a P out = (case out of
     (Some r, k') \<Rightarrow> P r
   | (None, k') \<Rightarrow> (\<forall>t. k_tasks k' a = Some t \<longrightarrow> unfinished t \<longrightarrow>
       progress_ok (t_suspended t) \<and> (\<forall>r. answer_fits (t_suspended t) r \<longrightarrow> P r)))"

lemma outcome_fits_Some [simp]: "outcome_fits a P (Some r, k) = P r"
  by (simp add: outcome_fits_def)

lemma outcome_fits_yield [intro!]:
  "progress_ok s \<Longrightarrow> (\<And>r. answer_fits s r \<Longrightarrow> P r) \<Longrightarrow> outcome_fits a P (None, cb_task_yield_as k a state s)"
  by (auto simp: outcome_fits_def cb_task_yield_as_def upd_task_def fault_def split: option.splits)

section \<open>Reading and writing\<close>

lemma pipe_take_fits: "length (fst (pipe_take p count)) \<le> count"
  by (auto simp: pipe_take_def Let_def)

lemma pipe_write_try_bound:
  assumes "tot \<le> length source"
  shows "case pipe_write_try p source tot of Write_done t p' \<Rightarrow> t \<le> length source | Write_broken t p' \<Rightarrow> t \<le> length source
    | Write_waits t p' \<Rightarrow> t \<le> length source"
  using assms
proof (induction p source tot rule: pipe_write_try.induct)
  case (1 p source tot)
  then show ?case by (subst pipe_write_try.simps) (auto simp: Let_def)
qed

lemma pipe_read_fits: "outcome_fits a (bytes_with (bytes_fit count)) (pipe_read k a f p count)"
  using pipe_take_fits [of "the (k_pipes k p)" count]
  by (auto simp: pipe_read_def pipe_read_try_def bytes_with_def bytes_fit_def split: option.split prod.split)

lemma pipe_write_fits:
  "tot \<le> length source \<Longrightarrow> outcome_fits a (int_with (\<lambda>n. n = -1 \<or> 0 \<le> n \<and> n \<le> int (length source))) (pipe_write k a f p source tot)"
  using pipe_write_try_bound [of tot source "the (k_pipes k p)"]
  by (auto simp: pipe_write_def int_with_def split: option.split write_outcome.splits)

lemma console_read_fits:
  "honest_console (k_console k) \<Longrightarrow> outcome_fits a (bytes_with (bytes_fit count)) (console_read k a count)"
  by (auto simp: console_read_def Let_def bytes_with_def bytes_fit_def honest_console_def split: prod.split)

lemma outcome_fits_mono: "outcome_fits a P out \<Longrightarrow> (\<And>r. P r \<Longrightarrow> Q r) \<Longrightarrow> outcome_fits a Q out"
  by (auto simp: outcome_fits_def split: prod.splits option.splits)

lemma node_read_fits: "live v refs \<Longrightarrow> bytes_fit count (fst (node_read v n file err count)) (fst (snd (node_read v n file err count)))"
  using live_data_ok [of v refs n]
  by (auto simp: node_read_def bytes_fit_def data_ok_def Let_def split: option.splits if_splits prod.splits)

lemma on_file_fits:
  assumes "good k a zero zero" "P bad"
    "\<And>f file err. k_files k f = Some file \<Longrightarrow> ok (of_ops file) \<Longrightarrow> outcome_fits a P (body f file err)"
  shows "outcome_fits a P (on_file k a d ok bad body)"
  using assms(2,3) by (auto simp: on_file_def split: option.split)

lemma api_read_fits:
  assumes "good k a zero zero" "honest_console (k_console k)"
  shows "outcome_fits a (bytes_with (bytes_fit count)) (api_read k a d null count)"
  unfolding api_read_def
proof (rule on_file_fits [OF assms(1)])
  fix f "file" err
  have "outcome_fits a (bytes_with (bytes_fit count)) (file_read k a f file err count)"
    using pipe_read_fits console_read_fits [OF assms(2)] node_read_fits [OF good_live [OF assms(1)]]
    by (auto simp: file_read_def Let_def bytes_with_def split: file_ops.split) (simp add: bytes_fit_def)+
  then show "outcome_fits a (bytes_with (bytes_fit count)) (if int count > INT64_MAX then (Some (R_bytes (-1) []), set_errno k a CB_EINVAL)
      else if count \<noteq> 0 \<and> null then (Some (R_bytes (-1) []), set_errno k a CB_EINVAL) else file_read k a f file err count)"
    by (simp add: bytes_with_def bytes_fit_def)
qed (simp add: bytes_with_def bytes_fit_def)

lemma node_write_fits: "fst (node_write v n file err buffer) = -1 \<or> fst (node_write v n file err buffer) = int (length buffer)"
  by (auto simp: node_write_def Let_def split: option.split prod.split)

lemma file_write_fits:
  "outcome_fits a (int_with (\<lambda>n. n = -1 \<or> 0 \<le> n \<and> n \<le> int (length buffer))) (file_write k a f file err buffer)"
proof -
  have "fst (node_write v n file err buffer) = -1 \<or> 0 \<le> fst (node_write v n file err buffer) \<and> fst (node_write v n file err buffer) \<le> int (length buffer)" for v n
    using node_write_fits [of v n "file" err buffer] by auto
  then show ?thesis
    using pipe_write_fits [of 0 buffer] by (auto simp: file_write_def console_write_def Let_def int_with_def split: file_ops.split)
qed

lemma api_write_fits:
  assumes "good k a zero zero"
  shows "outcome_fits a (int_with (\<lambda>n. n = -1 \<or> 0 \<le> n \<and> n \<le> int count)) (api_write k a d buffer count)"
  unfolding api_write_def
proof (rule on_file_fits [OF assms])
  fix f "file" err
  let ?b = "case buffer of None \<Rightarrow> [] | Some bytes \<Rightarrow> take count bytes"
  have "length ?b \<le> count" by (simp split: option.split)
  then have "outcome_fits a (int_with (\<lambda>n. n = -1 \<or> 0 \<le> n \<and> n \<le> int count)) (file_write k a f file err ?b)"
    by (intro outcome_fits_mono [OF file_write_fits]) (auto simp: int_with_def split: result.splits)
  then show "outcome_fits a (int_with (\<lambda>n. n = -1 \<or> 0 \<le> n \<and> n \<le> int count))
      (if int count > INT64_MAX then (Some (R_int (-1)), set_errno k a CB_EINVAL)
       else if count \<noteq> 0 \<and> buffer = None then (Some (R_int (-1)), set_errno k a CB_EINVAL) else file_write k a f file err ?b)"
    by (simp add: int_with_def)
qed (simp add: int_with_def)

section \<open>Descriptors\<close>

lemma fd_install_fits: "fd_install k a f 0 = (d, k') \<Longrightarrow> d = -1 \<or> valid_fd d"
  by (auto simp: fd_install_def lowest_free_def find_Some_iff valid_fd_def split: option.splits)

lemma fd_install_distinct:
  assumes "fd_install k a f 0 = (d, k1)" "0 \<le> d" "fd_install k1 a g 0 = (e, k2)" "0 \<le> e" "k_tasks k a = Some t" "length (t_descriptors t) = CB_MAX_FDS"
  shows "d \<noteq> e"
proof -
  have d: "valid_fd d" "k1 = set_fd k a d (Some f) False"
    using fd_install_fits [OF assms(1)] assms(1,2,5) by (auto simp: fd_install_def split: option.splits)
  then have t1: "k_tasks k1 a = Some (t\<lparr>t_descriptors := (t_descriptors t)[nat d := \<lparr>fd_file = Some f, close_on_exec = False\<rparr>]\<rparr>)"
    using assms(5) by (simp add: set_fd_def upd_task_def)
  show ?thesis
  proof
    assume "d = e"
    then have "fd_file ((t_descriptors t)[nat d := \<lparr>fd_file = Some f, close_on_exec = False\<rparr>] ! nat d) = None"
      using assms(3,4) t1 by (auto simp: fd_install_def lowest_free_def find_Some_iff split: option.splits)
    then show False using d(1) assms(6) by (auto simp: valid_fd_def)
  qed
qed

lemma cwd_copy_fits: "cwd_copy v bufsize parts buffer = Inr text \<Longrightarrow> length buffer < bufsize \<Longrightarrow> length text < bufsize"
  by (induction parts arbitrary: buffer) (auto split: option.splits if_splits)

lemma getcwd_fits: "cb_vfs_getcwd_path v root cwd bufsize = Inr text \<Longrightarrow> length text < bufsize"
  by (auto simp: cb_vfs_getcwd_path_def cwd_string_def dest: cwd_copy_fits split: if_splits sum.splits)

lemma poll_all_length: "length (fst (poll_all k t fds)) = length fds"
  by (induction fds arbitrary: k) (auto simp: Let_def split: prod.split, metis fst_conv)

lemma ready_count_bound: "ready_count fds \<le> length fds"
  by (simp add: ready_count_def)

lemma poll_round_fits: "outcome_fits a (poll_with (length fds)) (poll_round k a fds)"
proof (cases "k_tasks k a")
  case None
  then show ?thesis by (simp add: poll_round_def poll_with_def poll_fits_def)
next
  case (Some t)
  obtain fds' k1 where p: "poll_all k t fds = (fds', k1)" by fastforce
  have l: "length fds' = length fds" using poll_all_length [of k t fds] p by simp
  then show ?thesis using Some p ready_count_bound [of fds']
    by (auto simp: poll_round_def Let_def poll_with_def poll_fits_def split: prod.split)
qed

lemma api_poll_fits: "outcome_fits a (poll_with nfds) (api_poll k a fds nfds timeout)"
proof -
  let ?ps = "case fds of None \<Rightarrow> [] | Some l \<Rightarrow> take nfds l"
  have l: "length ?ps \<le> nfds" by (simp split: option.split)
  have r: "outcome_fits a (poll_with nfds) (poll_round k' a ?ps)" for k'
    by (rule outcome_fits_mono [OF poll_round_fits]) (use l in \<open>auto simp: poll_with_def poll_fits_def split: result.splits\<close>)
  show ?thesis using r l by (auto simp: api_poll_def Let_def poll_with_def poll_fits_def split: prod.split)
qed

lemma file_create_tasks: "cb_open_file_create k ops flags = (r, k') \<Longrightarrow> k_tasks k' = k_tasks k"
  by (auto simp: cb_open_file_create_def split: prod.splits option.splits)

lemma pipe_installs_fit:
  assumes "fd_install k a f 0 = (rd, k1)" "\<not> rd < 0" "fd_install k1 a g 0 = (wd, k2)" "\<not> wd < 0" "k_tasks k a = Some t"
    "length (t_descriptors t) = CB_MAX_FDS"
  shows "pipe_with (R_pipe 0 (Some (rd, wd)))"
  using fd_install_fits [OF assms(1)] fd_install_fits [OF assms(3)] fd_install_distinct [OF assms(1) _ assms(3) _ assms(5,6)] assms(2,4)
  by (auto simp: pipe_with_def)

lemma api_pipe_fits:
  assumes "good k a zero zero" shows "outcome_fits a pipe_with (api_pipe k a null)"
proof -
  obtain t where t: "k_tasks k a = Some t" "task_shape (vfs_root (k_vfs k)) t" by (rule goodE [OF assms])
  have len: "length (t_descriptors t) = CB_MAX_FDS" using t(2) by (simp add: task_shape_def)
  have err: "pipe_with (R_pipe (-1) None)" by (simp add: pipe_with_def)
  show ?thesis using t(1) len err
    by (auto simp: api_pipe_def dest!: file_create_tasks intro!: pipe_installs_fit split: prod.split option.split)
qed

lemma api_waitpid_fits: "outcome_fits a (wait_with wait_fits) (api_waitpid k a pid)"
  by (auto simp: api_waitpid_def wait_with_def wait_fits_def split: option.split prod.split)

lemma api_exit_fits: "outcome_fits a P (None, api_exit k a status)"
  using exit_finished by (auto simp: outcome_fits_def)

lemma path_call_fits: "outcome_fits a (int_with zero_or_error) (path_call k a operation)"
  by (auto simp: path_call_def int_with_def split: option.split prod.split)

lemma simple_calls_fit:
  "outcome_fits a (result_fits (C_dup d)) (api_dup k a d)"
  "outcome_fits a (result_fits (C_dup2 old new)) (api_dup2 k a old new)"
  "outcome_fits a (result_fits (C_open path flags mode)) (api_open k a path flags mode)"
  "outcome_fits a (result_fits (C_opendir path)) (api_opendir k a path)"
  "outcome_fits a (result_fits (C_readdir d null bufsize)) (api_readdir k a d null bufsize)"
  "outcome_fits a (result_fits (C_closedir d)) (api_closedir k a d)"
  "outcome_fits a (result_fits (C_chdir path)) (api_chdir k a path)"
  "outcome_fits a (result_fits (C_getcwd null bufsize)) (api_getcwd k a null bufsize)"
  "outcome_fits a (result_fits (C_stat path null)) (api_stat k a path null)"
  "outcome_fits a (result_fits (C_close d)) (api_close k a d)"
  "outcome_fits a (result_fits (C_set_cloexec d enabled)) (api_set_cloexec k a d enabled)"
proof -
  show "outcome_fits a (result_fits (C_dup d)) (api_dup k a d)"
    by (auto simp: api_dup_def int_with_def descriptor_or_error_def dest: fd_install_fits split: option.split prod.split)
  show "outcome_fits a (result_fits (C_dup2 old new)) (api_dup2 k a old new)"
    by (auto simp: api_dup2_def int_with_def Let_def split: option.split)
  show "outcome_fits a (result_fits (C_open path flags mode)) (api_open k a path flags mode)"
    by (auto simp: api_open_def int_with_def descriptor_or_error_def dest: fd_install_fits split: option.split prod.split sum.split)
  show "outcome_fits a (result_fits (C_opendir path)) (api_opendir k a path)"
    by (auto simp: api_opendir_def int_with_def Let_def find_Some_iff split: option.split prod.split sum.split)
  show "outcome_fits a (result_fits (C_readdir d null bufsize)) (api_readdir k a d null bufsize)"
    by (auto simp: api_readdir_def entry_with_def Let_def split: option.split sum.split)
  show "outcome_fits a (result_fits (C_closedir d)) (api_closedir k a d)"
    by (auto simp: api_closedir_def int_with_def Let_def split: option.split)
  show "outcome_fits a (result_fits (C_chdir path)) (api_chdir k a path)"
    by (auto simp: api_chdir_def int_with_def split: option.split prod.split sum.split)
  show "outcome_fits a (result_fits (C_getcwd null bufsize)) (api_getcwd k a null bufsize)"
    using getcwd_fits by (auto simp: api_getcwd_def string_with_def split: option.split sum.split)
  show "outcome_fits a (result_fits (C_stat path null)) (api_stat k a path null)"
    by (auto simp: api_stat_def stat_with_def split: option.split sum.split)
  show "outcome_fits a (result_fits (C_close d)) (api_close k a d)"
    by (auto simp: api_close_def fd_close_def int_with_def split: option.split)
  show "outcome_fits a (result_fits (C_set_cloexec d enabled)) (api_set_cloexec k a d enabled)"
    by (auto simp: api_set_cloexec_def int_with_def split: option.split)
qed

lemma file_calls_fit:
  assumes "good k a zero zero"
  shows "outcome_fits a (result_fits (C_lseek d offset whence)) (api_lseek k a d offset whence)"
    "outcome_fits a (result_fits (C_ftruncate d len)) (api_ftruncate k a d len)"
    "outcome_fits a (result_fits (C_fstat d null)) (api_fstat k a d null)"
proof -
  have seek: "-1 \<le> fst (node_lseek v n file err off wh)" for v n "file" err off wh
    by (auto simp: node_lseek_def Let_def split: option.split)
  show "outcome_fits a (result_fits (C_lseek d offset whence)) (api_lseek k a d offset whence)"
    unfolding api_lseek_def by (rule on_file_fits [OF assms]) (use seek in \<open>auto simp: int_with_def no_seek_def split: file_ops.split prod.split, metis fst_conv\<close>)
  show "outcome_fits a (result_fits (C_ftruncate d len)) (api_ftruncate k a d len)"
    unfolding api_ftruncate_def
    by (rule on_file_fits [OF assms]) (auto simp: int_with_def no_truncate_def node_truncate_def split: file_ops.split prod.split option.split)
  show "outcome_fits a (result_fits (C_fstat d null)) (api_fstat k a d null)"
    unfolding api_fstat_def by (rule on_file_fits [OF assms]) (auto simp: stat_with_def split: sum.split)
qed

lemma process_calls_fit:
  "outcome_fits a (result_fits (C_spawn name argv envp actions bad)) (api_spawn k a name argv envp actions bad)"
  "outcome_fits a (result_fits (C_exec name argv envp)) (api_exec k a name argv envp)"
  "outcome_fits a (result_fits (C_setenv nm new over)) (api_setenv k a nm new over)"
  "outcome_fits a (result_fits (C_unsetenv nm)) (api_unsetenv k a nm)"
  "outcome_fits a (result_fits (C_getenv nm)) (api_getenv k a nm)"
  "outcome_fits a (result_fits (C_allocate bytes)) (api_allocate k a bytes)"
  "outcome_fits a (result_fits (C_resize p bytes)) (api_resize k a p bytes)"
  "outcome_fits a (result_fits (C_release p)) (api_release k a p)"
  "outcome_fits a (result_fits (C_isatty d)) (api_isatty k a d)"
  "outcome_fits a (int_with (\<lambda>n. n = -1)) (terminal_attributes_unavailable k a d null)"
  "outcome_fits a (int_with (\<lambda>n. True)) (task_value k a f)"
proof -
  show "outcome_fits a (result_fits (C_spawn name argv envp actions bad)) (api_spawn k a name argv envp actions bad)"
    by (auto simp: api_spawn_def wait_with_def split: option.split prod.split sum.split)
  show "outcome_fits a (result_fits (C_exec name argv envp)) (api_exec k a name argv envp)"
    by (auto simp: api_exec_def int_with_def Let_def split: option.split prod.split sum.split)
  show "outcome_fits a (result_fits (C_setenv nm new over)) (api_setenv k a nm new over)"
    by (auto simp: api_setenv_def int_with_def Let_def split: option.split prod.split bool.split)
  show "outcome_fits a (result_fits (C_unsetenv nm)) (api_unsetenv k a nm)"
    by (auto simp: api_unsetenv_def int_with_def Let_def split: option.split)
  show "outcome_fits a (result_fits (C_getenv nm)) (api_getenv k a nm)"
    by (auto simp: api_getenv_def string_with_def Let_def split: option.split)
  show "outcome_fits a (result_fits (C_allocate bytes)) (api_allocate k a bytes)" "outcome_fits a (result_fits (C_resize p bytes)) (api_resize k a p bytes)"
    by (auto simp: api_resize_def api_allocate_def pointer_with_def Let_def split: option.split prod.split)
  show "outcome_fits a (result_fits (C_release p)) (api_release k a p)" by (auto simp: api_release_def split: option.split)
  show "outcome_fits a (result_fits (C_isatty d)) (api_isatty k a d)" by (auto simp: api_isatty_def int_with_def split: prod.split)
  show "outcome_fits a (int_with (\<lambda>n. n = -1)) (terminal_attributes_unavailable k a d null)"
    by (auto simp: terminal_attributes_unavailable_def int_with_def split: prod.split bool.split)
  show "outcome_fits a (int_with (\<lambda>n. True)) (task_value k a f)" by (auto simp: task_value_def int_with_def split: option.split)
qed

section \<open>Every call\<close>

text \<open>
  C14. The calls are well typed. In every state the references of which are in order, with a host whose console returns no more
  than it was asked for, a call of the running task returns a result of the kind of that call and within its bounds: at most as many bytes
  as were asked for, text and names shorter than the buffer, valid descriptors (two different ones for a pipe) and directory handles, a status
  exactly on success, \<^verbatim>\<open>exec\<close> only with an error, \<^verbatim>\<open>exit\<close> not at all. If the call has to wait, the answer the task is left
  waiting for is of that type too.
\<close>

theorem calls_well_typed:
  assumes "kernel_inv k" "k_current k = Some a" "honest_console (k_console k)"
  shows "outcome_fits a (result_fits c) (do_call k a c)"
proof -
  have g: "good k a zero zero" by (rule kernel_inv_current [OF assms(1,2)])
  note fits = simple_calls_fit file_calls_fit [OF g] process_calls_fit path_call_fits api_read_fits [OF g assms(3)] api_write_fits [OF g]
    api_pipe_fits [OF g] api_poll_fits api_waitpid_fits api_exit_fits
  show ?thesis
    by (cases c) (use fits in \<open>auto simp: api_truncate_def api_mkdir_def api_unlink_def api_rmdir_def api_rename_def\<close>)
qed

lemma client_kernel_console: "con_read (k_console client_kernel) i count = (0, [])"
  by code_simp

theorem calls_well_typed_witness:
  "outcome_fits 12 (result_fits (C_getcwd False 2)) (do_call client_kernel 12 (C_getcwd False 2))"
proof -
  have "k_current client_kernel = Some 12" by code_simp
  moreover have "honest_console (k_console client_kernel)"
    by (simp add: honest_console_def client_kernel_console)
  ultimately show ?thesis using calls_well_typed [OF client_kernel_inv] by blast
qed

section \<open>Resumed calls\<close>

text \<open>A completed exec or exit is never resumed; the fault of resuming it leaves the task as it was.\<close>

lemma continue_call_fits:
  assumes "honest_console (k_console k)" "k_tasks k a = Some t" "progress_ok (t_suspended t)"
  shows "outcome_fits a (answer_fits (t_suspended t)) (continue_call k a (t_suspended t))"
proof (cases "t_suspended t")
  case (In_pipe_read f count)
  then show ?thesis using pipe_read_fits by (auto simp: continue_read_def bytes_with_def bytes_fit_def split: option.split file_ops.split)
next
  case (In_pipe_write f source tot)
  then show ?thesis using pipe_write_fits [of tot source] assms(3) by (auto simp: continue_write_def int_with_def split: option.split file_ops.split)
qed (use console_read_fits [OF assms(1)] api_waitpid_fits poll_round_fits assms(2) in \<open>simp_all add: outcome_fits_def fault_def\<close>)

text \<open>
  C15. Waiting keeps the type of a call. However often a waiting task is resumed, by an interrupt too, it gets an answer of the
  type its call has, or has ended, or waits on for an answer of that type.
\<close>

theorem resumed_calls_well_typed:
  assumes "k_tasks k a = Some t" "honest_console (k_console k)" "progress_ok (t_suspended t)"
  shows "outcome_fits a (answer_fits (t_suspended t)) (dispatch k a)"
proof -
  let ?k = "(upd_task k a (\<lambda>t. t\<lparr>t_state := CB_TASK_RUNNING\<rparr>))\<lparr>k_current := Some a\<rparr>"
  have t: "k_tasks ?k a = Some (t\<lparr>t_state := CB_TASK_RUNNING\<rparr>)" and c: "k_console ?k = k_console k"
    using assms(1) by (auto simp: upd_task_def)
  show ?thesis
    using assms t c continue_call_fits [of ?k a "t\<lparr>t_state := CB_TASK_RUNNING\<rparr>"] api_exit_fits
    by (auto simp: dispatch_def resume_task_def cb_task_deliver_interrupt_def split: option.splits prod.splits)
qed

definition reading_kernel :: cb_kernel where
  "reading_kernel = snd (do_call client_kernel 12 (C_read 0 False 4))"

lemma reading_kernel_waits:
  "(case k_tasks reading_kernel 12 of
      None \<Rightarrow> False
    | Some t \<Rightarrow> (case t_suspended t of In_pipe_read f count \<Rightarrow> count = 4 | _ \<Rightarrow> False))"
  by code_simp

lemma reading_kernel_console: "con_read (k_console reading_kernel) i count = (0, [])"
  by code_simp

theorem resumed_calls_well_typed_witness:
  "outcome_fits 12 (bytes_with (bytes_fit 4)) (dispatch reading_kernel 12)"
proof -
  obtain t f where t: "k_tasks reading_kernel 12 = Some t" "t_suspended t = In_pipe_read f 4"
    using reading_kernel_waits by (auto split: option.splits suspended.splits)
  then show ?thesis
    using resumed_calls_well_typed [OF t(1)] by (simp add: honest_console_def reading_kernel_console)
qed

end
