(* ===== verification/Spec2Isabelle.thy ===== *)
theory Spec2Isabelle
  imports Terminal Schedule_Props Kernel_Commands Call_Types
begin

text \<open>
  CannedBSD: a Unix-like runtime in one process.

  \<^bold>\<open>The program.\<close> A host application gives the runtime memory, a clock, a console and contexts to switch between
  (\<^verbatim>\<open>struct cb_host_ops_v1\<close>). On top of these the kernel (\<^verbatim>\<open>src/core.c\<close>, \<^verbatim>\<open>src/executor.c\<close>) runs tasks
  cooperatively: each has descriptors, a working directory, an environment and a ledger of heap blocks, and
  calls the kernel through one table of functions. Files live in a RAM file system (\<^verbatim>\<open>src/ramfs.c\<close>) behind a
  layer of paths and mounts (\<^verbatim>\<open>src/vfs.c\<close>); a line discipline for consoles is separate (\<^verbatim>\<open>src/terminal.c\<close>). On
  the table of calls run a shell (\<^verbatim>\<open>src/shell.c\<close>), a few small programs (\<^verbatim>\<open>src/programs.c\<close>), and a C library
  (\<^verbatim>\<open>libc/cb_libc.c\<close>) for programs imported from NetBSD.

  \<^bold>\<open>Shared theories.\<close> \<open>Prelude\<close> has bytes, error numbers, array copies and the list lemmas the components share;
  \<open>Simulation\<close> the locale in which an implementation answers every sequence of events as its specification
  does; \<open>Ring\<close> the locale of ring buffers, interpreted on the pipe's buffer and on the terminal's queue; \<open>Host\<close>
  the host's memory, a state that counts what is allocated and is told by a parameter which requests succeed.

  \<^bold>\<open>The components and where they are.\<close>
    \<^item> \<open>Terminal\<close> models \<^verbatim>\<open>src/terminal.c\<close> and shows that it refines an abstract line discipline.
    \<^item> \<open>RamFs\<close> models \<^verbatim>\<open>src/ramfs.c\<close> over a store of nodes linked by parent, child and sibling pointers as in
      the source. \<open>RamFs_Tree\<close> has the tree invariant, \<open>RamFs_Dir\<close> the refinement of create, remove, rename and
      release to operations on one map from directory and name to node, and the termination of the loops over
      siblings, \<open>RamFs_Data\<close> the contents of files: reading, writing, truncating, seeking.
    \<^item> \<open>Path\<close> models the normalisation of paths, \<open>Vfs\<close> resolution, mounts and the operations on paths of
      \<^verbatim>\<open>src/vfs.c\<close>; \<open>Vfs_Props\<close> and \<open>Vfs_Live\<close> have the mount table invariant, renaming by path, \<^verbatim>\<open>getcwd\<close>,
      tear-down, and what the kernel relies on from the file system.
    \<^item> \<open>Pipe\<close>, \<open>Kernel\<close>, \<open>Calls\<close> model the pipes, descriptors, open files, console, path and directory calls of
      \<^verbatim>\<open>src/core.c\<close>; \<open>Process\<close> and \<open>Scheduler\<close> its tasks (environment, ledger, spawn, exec, exit, waitpid, poll),
      the resumption of suspended calls, the scheduler and its loop, and creation, registration, boot and
      destruction of the kernel, with \<^verbatim>\<open>src/executor.c\<close>.
    \<^item> \<open>Program_Api\<close> is the table of calls as a program sees it: a record of functions on a state of the caller's
      choice. \<open>Shell_Lex\<close> and \<open>Shell\<close> model \<^verbatim>\<open>src/shell.c\<close> over such a table: the lexer with quoting and
      expansion, the parser, builtin commands, redirections, pipelines, and the two programs. \<open>Programs\<close> models
      \<^verbatim>\<open>src/programs.c\<close>.
    \<^item> \<open>Libc_Stdio\<close>, \<open>Libc_Format\<close>, \<open>Libc_Text\<close> model \<^verbatim>\<open>libc/cb_libc.c\<close>: streams, the \<^verbatim>\<open>printf\<close> family, \<^verbatim>\<open>getopt\<close>,
      strings, \<^verbatim>\<open>calloc\<close> and the translation of open flags. \<open>Libc_Calls\<close> has its directory streams, \<^verbatim>\<open>stat\<close>
      and the translation of the result, the \<^verbatim>\<open>warn\<close> and \<^verbatim>\<open>err\<close> family, \<^verbatim>\<open>setlocale\<close>, \<^verbatim>\<open>strmode\<close> and the functions
      that only report \<^verbatim>\<open>ENOSYS\<close>.
    \<^item> \<open>Fts\<close> models the traversal of directories \<^verbatim>\<open>libc/cb_fts.c\<close>, with the entries it allocates as addresses whose use
      after being freed is recorded.
    \<^item> \<open>Commands\<close> models two commands over this library: \<^verbatim>\<open>commands/ls.c\<close> and NetBSD's \<^verbatim>\<open>echo\<close>.

  \<^bold>\<open>What is shown of the kernel.\<close> \<open>Kernel_Refs\<close> states the invariant of references: an open file counts the
  descriptors on it, a pipe the open files on its two ends, a node at least the files, directories and tasks that
  refer to it. \<open>Kernel_Inv\<close>, \<open>Kernel_Steps\<close>, \<open>Kernel_Calls\<close>, \<open>Kernel_Paths\<close>, \<open>Kernel_Tasks\<close>, \<open>Kernel_Spawn\<close> and
  \<open>Kernel_Boot\<close> show that every call keeps it, whichever allocation fails. \<open>Kernel_Safety\<close> makes the runtime a
  state machine whose steps are the calls of the program on the processor, resumptions, switches and events of
  the host; \<open>Kernel_Life\<close> draws the conclusions for every reachable state and for the loop of the scheduler.
  \<open>Kernel_Frame\<close> and \<open>Kernel_Isolation\<close> show that a suspended task sees at most that it is woken up, and
  \<open>Schedule_Props\<close> that the scheduler is fair, its timeout exact, and that exit and waitpid meet.
  \<open>Call_Types\<close> gives every call a type (the kind of its result and the bounds its caller relies on) and shows that
  calls and their resumptions keep to it.

  \<^bold>\<open>What is shown of the programs.\<close> A program is verified against a locale that states what it relies on from
  the table of calls, and the locale is interpreted on the kernel:
    \<^item> \<open>Shell_Props\<close> has the shell as a language: segments of a line, quoting, statuses, sizes of arrays.
      \<open>Shell_Calls\<close> lifts any preorder the calls respect to whole lines; \<open>Shell_Descriptors\<close> shows in the locale
      \<open>descriptor_calls\<close> that the shell returns every descriptor it opens or moves; \<open>Kernel_Client\<close> interprets it
      on \<open>kernel_api\<close>, in which a call that has to wait lets an arbitrary sequence of steps of the rest of the
      system pass.
    \<^item> \<open>Programs\<close> shows in the locale \<open>stream_calls\<close> that \<^verbatim>\<open>tr\<close> ends and translates its input; \<open>Kernel_Programs\<close>
      interprets it on the kernel with regular files behind descriptors 0 and 1.
    \<^item> \<open>Libc_Props\<close> shows in the locale \<open>libc_streams\<close> that the \<^verbatim>\<open>printf\<close> family writes the text of a reference
      definition, and what \<^verbatim>\<open>fread\<close> reads; \<open>Kernel_Libc\<close> interprets it on the kernel.
    \<^item> \<open>Fts_Props\<close> shows in the locale \<open>resource_calls\<close> that a traversal gives back what it takes; \<open>Fts_Walk\<close>
      shows in the locale \<open>tree_calls\<close> that it returns the entries of a reference walk of the tree. \<open>Kernel_Unix\<close> and
      \<open>Kernel_Walk\<close> interpret them on the kernel.
    \<^item> \<open>Commands\<close> shows in the locales \<open>listing_calls\<close> and \<open>echo_calls\<close> (both over \<open>libc_streams\<close>) what \<^verbatim>\<open>ls\<close> and \<^verbatim>\<open>echo\<close> print;
      \<open>Kernel_Commands\<close> interprets them on the kernel, with files behind descriptors 0 and 1 and, for \<^verbatim>\<open>ls\<close>, a directory that is read while
      one of these files grows.

  \<^bold>\<open>Parameters.\<close> Which allocation succeeds, the clock, the console's answers, the order of other tasks' steps and
  what they call, and the contents of stack memory that the source leaves uninitialised are arguments of the
  definitions or part of the state; the theorems hold for all of them, or name what they require.

  \<^bold>\<open>Loops and fuel.\<close> Loops over pointers of the file system take as fuel one more than the number of allocations
  made so far (releasing a tree of nodes, which also counts the levels, twice that), which the tree invariant
  shows to be enough. Loops that may run for ever (the scheduler, \<^verbatim>\<open>tr\<close>, \<^verbatim>\<open>ls\<close>, the
  interactive shell) are partial functions in the option type, where \<open>None\<close> is not returning. Repeated \<^verbatim>\<open>getopt\<close>
  takes as fuel one more than the number of characters of the arguments. Walking a tree to its end takes one more than the
  number of entries returned, which the theorem asks for; a single read of the traversal needs no fuel. Machine integers keep their width: sizes
  and offsets are bounded as in the source, with wrap-around written out where the source has it.

  \<^bold>\<open>Not modelled.\<close> The hosts (\<^verbatim>\<open>src/host_linux.c\<close>, \<^verbatim>\<open>src/main.c\<close>, \<^verbatim>\<open>platform/\<close>) are input and output on another system, and
  their results are the parameters above. Of the C library, the functions that pass a call on unchanged, the locations
  of \<^verbatim>\<open>errno\<close> and \<^verbatim>\<open>environ\<close>, and the checks of the version of the table of calls. The other NetBSD commands and MoreFiles are
  third-party sources; tests and tools are not part of the runtime.
\<close>

end
